(* ===== verification/Prelude.thy ===== *)
theory Prelude
  imports Main "HOL-Library.Word" "HOL-Library.Char_ord" "HOL-Library.Monad_Syntax"
begin

text \<open>
  Shared vocabulary of the HudOS development: the machine integer types, C characters and
  NUL-terminated strings, the flat byte memory of the identity-mapped machine, the scan
  idiom \<open>for (i = a; i < b; i++) if (P(i)) return i;\<close>, and the lemmas about them that the
  component theories use.

  Conventions of every component theory:
  \<^item> \<open>unsigned char\<close>, \<open>unsigned short\<close>, \<open>unsigned int\<close> and \<open>unsigned long\<close> are
    \<open>u8\<close>, \<open>u16\<close>, \<open>u32\<close> and \<open>u64\<close>; an \<open>int\<close> whose value is only a small index or
    count is \<open>int\<close> or \<open>nat\<close>, an \<open>int\<close> whose arithmetic can leave the range is
    written with \<open>wrap32\<close> or as a 32-bit word;
  \<^item> \<open>char\<close> is unsigned on AArch64 and is HOL's \<open>char\<close>; a C string is a list of
    characters whose end reads as NUL;
  \<^item> an operation that may never return to its caller (an endless loop, a panic) or that
    has no defined result has an \<open>option\<close> result, with \<open>None\<close> for that case.
\<close>

named_theorems mem_simps \<open>reading back from byte memory\<close>
named_theorems inv_intros \<open>invariant preservation, one fact per operation\<close>

type_synonym u8 = "8 word"
type_synonym u16 = "16 word"
type_synonym u32 = "32 word"
type_synonym u64 = "64 word"
type_synonym s32 = "32 word"

type_synonym addr = u64
type_synonym bytes = "u8 list"
type_synonym mem = "addr \<Rightarrow> u8"

subsection \<open>Characters and C strings\<close>

abbreviation NUL :: char where
  "NUL \<equiv> CHR 0x00"

text \<open>The character a C string pointer points at: the end of the list reads as NUL.\<close>

definition chd :: "string \<Rightarrow> char" where
  "chd s = (case s of [] \<Rightarrow> NUL | c # _ \<Rightarrow> c)"

lemma chd_simps [simp]: "chd [] = NUL" "chd (c # cs) = c"
  by (simp_all add: chd_def)

text \<open>The value of a C string: the characters before the first NUL.\<close>

definition cstr :: "string \<Rightarrow> string" where
  "cstr s = takeWhile (\<lambda>c. c \<noteq> NUL) s"

lemma cstr_Nil [simp]: "cstr [] = []"
  by (simp add: cstr_def)

lemma cstr_Cons: "cstr (c # cs) = (if c = NUL then [] else c # cstr cs)"
  by (simp add: cstr_def)

lemma cstr_no_nul: "NUL \<notin> set s \<Longrightarrow> cstr s = s"
  unfolding cstr_def by (subst takeWhile_eq_all_conv) auto

lemma nul_notin_cstr [simp]: "NUL \<notin> set (cstr s)"
  unfolding cstr_def by (metis (mono_tags, lifting) set_takeWhileD)

lemma cstr_idem [simp]: "cstr (cstr s) = cstr s"
  by (rule cstr_no_nul) simp

lemma length_cstr_le: "length (cstr s) \<le> length s"
  by (simp add: cstr_def length_takeWhile_le)

lemma chd_append: "chd (xs @ y # ys) = (if xs = [] then y else chd xs)"
  by (cases xs) auto

lemma chd_NUL_iff: "NUL \<notin> set xs \<Longrightarrow> chd xs = NUL \<longleftrightarrow> xs = []"
  by (cases xs) auto

lemma chd_eq_NUL_iff: "chd s = NUL \<longleftrightarrow> cstr s = []"
  by (cases s) (auto simp: cstr_Cons)

lemma take_cstr_no_nul: "NUL \<notin> set (take n (cstr s))"
  by (meson in_set_takeD nul_notin_cstr)

subsection \<open>C integers\<close>

text \<open>Two's-complement wrap-around of a 32-bit signed result.\<close>

definition wrap32 :: "int \<Rightarrow> int" where
  "wrap32 x = (x + 2147483648) mod 4294967296 - 2147483648"

lemma wrap32_id [simp]: "- 2147483648 \<le> x \<Longrightarrow> x < 2147483648 \<Longrightarrow> wrap32 x = x"
  by (simp add: wrap32_def)

lemma wrap32_range: "- 2147483648 \<le> wrap32 x" "wrap32 x < 2147483648"
  by (simp_all add: wrap32_def)

text \<open>Widening an unsigned value keeps it.\<close>

lemma unat_ucast_widen [simp]:
  "unat (ucast (b::u8) :: u16) = unat b" "unat (ucast (b::u8) :: u32) = unat b"
  "unat (ucast (b::u8) :: u64) = unat b" "unat (ucast (h::u16) :: u32) = unat h"
  "unat (ucast (h::u16) :: u64) = unat h" "unat (ucast (w::u32) :: u64) = unat w"
  using unsigned_less [of b, where 'a = nat] unsigned_less [of h, where 'a = nat]
    unsigned_less [of w, where 'a = nat]
  by (simp_all add: unsigned_ucast_eq take_bit_nat_eq_self)

subsection \<open>Index scans\<close>

text \<open>
  \<open>find P [a..<b]\<close> is the first index the loop \<open>for (i = a; i < b; i++)\<close> accepts.
\<close>

lemma find_upt_Some:
  assumes "find P [a..<b] = Some i"
  shows "a \<le> i" "i < b" "P i" "\<And>j. a \<le> j \<Longrightarrow> j < i \<Longrightarrow> \<not> P j"
proof -
  from assms obtain k where k: "k < length [a..<b]" "P ([a..<b] ! k)" "i = [a..<b] ! k"
    and min: "\<forall>j<k. \<not> P ([a..<b] ! j)"
    by (auto simp: find_Some_iff)
  then show "a \<le> i" "i < b" "P i" by auto
  fix j assume j: "a \<le> j" "j < i"
  then have "j - a < k" using k by auto
  then have "\<not> P ([a..<b] ! (j - a))" using min by blast
  moreover have "[a..<b] ! (j - a) = j" using j k by auto
  ultimately show "\<not> P j" by simp
qed

lemma find_upt_None: "find P [a..<b] = None \<longleftrightarrow> (\<forall>i. a \<le> i \<longrightarrow> i < b \<longrightarrow> \<not> P i)"
  by (auto simp: find_None_iff)

lemma find_upt_SomeI:
  assumes "P i" "a \<le> i" "i < b" "\<And>j. a \<le> j \<Longrightarrow> j < i \<Longrightarrow> \<not> P j"
  shows "find P [a..<b] = Some i"
proof (cases "find P [a..<b]")
  case None
  with assms show ?thesis by (auto simp: find_upt_None)
next
  case (Some k)
  note k = find_upt_Some [OF Some]
  have "\<not> k < i" using assms(4) k by blast
  moreover have "\<not> i < k" using assms k by blast
  ultimately show ?thesis using Some by simp
qed

text \<open>The C convention for a failed scan: index or \<open>-1\<close>.\<close>

definition idx_or_neg1 :: "nat option \<Rightarrow> int" where
  "idx_or_neg1 r = (case r of None \<Rightarrow> - 1 | Some i \<Rightarrow> int i)"

lemma idx_or_neg1_simps [simp]:
  "idx_or_neg1 None = - 1" "idx_or_neg1 (Some i) = int i"
  by (simp_all add: idx_or_neg1_def)

lemma idx_or_neg1_neg_iff [simp]: "idx_or_neg1 r < 0 \<longleftrightarrow> r = None"
  by (cases r) auto

lemma idx_or_neg1_eq_iff: "idx_or_neg1 r = int i \<longleftrightarrow> r = Some i"
  by (cases r) auto

subsection \<open>Byte memory\<close>

text \<open>
  \<open>mread m p n\<close> is the \<open>n\<close> bytes at \<open>p\<close>; \<open>mwrite m p bs\<close> stores \<open>bs\<close> at \<open>p\<close>;
  addresses wrap around as pointers do. \<open>unat (a - p) < n\<close> says that \<open>a\<close> is one of the
  \<open>n\<close> bytes that start at \<open>p\<close>.
\<close>

definition mread :: "mem \<Rightarrow> addr \<Rightarrow> nat \<Rightarrow> bytes" where
  "mread m p n = map (\<lambda>i. m (p + of_nat i)) [0..<n]"

definition mwrite :: "mem \<Rightarrow> addr \<Rightarrow> bytes \<Rightarrow> mem" where
  "mwrite m p bs = (\<lambda>a. if unat (a - p) < length bs then bs ! unat (a - p) else m a)"

definition mfill :: "mem \<Rightarrow> addr \<Rightarrow> nat \<Rightarrow> u8 \<Rightarrow> mem" where
  "mfill m p n v = (\<lambda>a. if unat (a - p) < n then v else m a)"

definition apart :: "addr \<Rightarrow> nat \<Rightarrow> addr \<Rightarrow> nat \<Rightarrow> bool" where
  "apart p n q k \<longleftrightarrow> unat p + n \<le> unat q \<or> unat q + k \<le> unat p"

lemma length_mread [simp]: "length (mread m p n) = n"
  by (simp add: mread_def)

lemma nth_mread [simp]: "i < n \<Longrightarrow> mread m p n ! i = m (p + of_nat i)"
  by (simp add: mread_def)

lemma mread_0 [simp]: "mread m p 0 = []"
  by (simp add: mread_def)

lemma unat_of_nat_64: "i < 2 ^ 64 \<Longrightarrow> unat (of_nat i :: u64) = i"
  by (simp add: unat_of_nat take_bit_nat_eq_self)

lemma unat_offset: "i < 2 ^ 64 \<Longrightarrow> unat (p + of_nat i - p :: u64) = i"
  by (simp add: unat_of_nat_64)

lemma unat_add_of_nat: "unat (p::u64) + i < 2 ^ 64 \<Longrightarrow> unat (p + of_nat i) = unat p + i"
  by (simp add: unat_word_ariths unat_of_nat)

lemma two64: "(2::nat) ^ 64 = 18446744073709551616" "(2::int) ^ 64 = 18446744073709551616"
  by simp_all

lemma unat_sub_apart:
  assumes "apart p n q k" "i < k" "unat p + n \<le> 2 ^ 64" "unat q + k \<le> 2 ^ 64"
  shows "n \<le> unat (q + of_nat i - p)"
proof -
  have q: "unat (q + of_nat i) = unat q + i"
    using assms by (intro unat_add_of_nat) simp
  show ?thesis
  proof (cases "unat p + n \<le> unat q")
    case True
    then have "p \<le> q + of_nat i" by (simp add: word_le_nat_alt q)
    then have "unat (q + of_nat i - p) = unat q + i - unat p"
      by (simp add: unat_sub q)
    with True show ?thesis by simp
  next
    case False
    with assms have lt: "unat q + i < unat p" by (simp add: apart_def)
    have "uint (q + of_nat i - p) = (uint (q + of_nat i) - uint p) mod 2 ^ 64"
      by (simp add: uint_word_ariths)
    also have "\<dots> = (int (unat q + i) - int (unat p)) mod 2 ^ 64"
      using q by (metis uint_nat)
    also have "\<dots> = (int (unat q + i) - int (unat p) + 2 ^ 64) mod 2 ^ 64"
      by (simp only: mod_add_self2)
    also have "\<dots> = int (unat q + i) - int (unat p) + 2 ^ 64"
      using lt assms(3) unfolding two64 by (intro mod_pos_pos_trivial) linarith+
    finally have "int (unat (q + of_nat i - p)) = int (unat q + i) - int (unat p) + 2 ^ 64"
      by (simp only: uint_nat)
    then show ?thesis using assms(3) unfolding two64 by linarith
  qed
qed

lemma mread_cong: "(\<And>i. i < n \<Longrightarrow> m (p + of_nat i) = m' (p + of_nat i)) \<Longrightarrow> mread m p n = mread m' p n"
  by (simp add: mread_def)

lemma mread_mwrite_same [mem_simps]:
  "length bs \<le> 2 ^ 64 \<Longrightarrow> mread (mwrite m p bs) p (length bs) = bs"
  by (rule nth_equalityI) (simp_all add: mwrite_def unat_of_nat_64)

lemma mread_mfill_same [mem_simps]:
  "n \<le> 2 ^ 64 \<Longrightarrow> mread (mfill m p n v) p n = replicate n v"
  by (rule nth_equalityI) (simp_all add: mfill_def unat_of_nat_64)

lemma mread_mwrite_apart [mem_simps]:
  assumes "apart p (length bs) q k" "unat p + length bs \<le> 2 ^ 64" "unat q + k \<le> 2 ^ 64"
  shows "mread (mwrite m p bs) q k = mread m q k"
proof (rule mread_cong)
  fix i assume "i < k"
  then have "length bs \<le> unat (q + of_nat i - p)"
    using assms by (intro unat_sub_apart)
  then show "mwrite m p bs (q + of_nat i) = m (q + of_nat i)"
    by (simp add: mwrite_def)
qed

lemma mread_mfill_apart [mem_simps]:
  assumes "apart p n q k" "unat p + n \<le> 2 ^ 64" "unat q + k \<le> 2 ^ 64"
  shows "mread (mfill m p n v) q k = mread m q k"
proof (rule mread_cong)
  fix i assume "i < k"
  then have "n \<le> unat (q + of_nat i - p)"
    using assms by (intro unat_sub_apart)
  then show "mfill m p n v (q + of_nat i) = m (q + of_nat i)"
    by (simp add: mfill_def)
qed

lemma mread_append: "mread m p (a + b) = mread m p a @ mread m (p + of_nat a) b"
  by (rule nth_equalityI) (auto simp: nth_append add.assoc simp flip: of_nat_add)

lemma mread_Suc: "mread m p (Suc n) = m p # mread m (p + 1) n"
  using mread_append [of m p 1 n] by (simp add: mread_def)

lemma mwrite_Nil [simp]: "mwrite m p [] = m"
  by (simp add: mwrite_def)

lemma take_drop_mread: "off + n \<le> k \<Longrightarrow> take n (drop off (mread m p k)) = mread m (p + of_nat off) n"
  by (rule nth_equalityI) (auto simp: ac_simps)

lemma take_mread: "k \<le> n \<Longrightarrow> take k (mread m p n) = mread m p k"
  by (simp add: list_eq_iff_nth_eq)

text \<open>A store inside a buffer: the buffer's bytes before and after.\<close>

lemma mread_mwrite_inside:
  assumes "off + length bs \<le> k" "k \<le> 2 ^ 64"
  shows "mread (mwrite m (p + of_nat off) bs) p k =
    take off (mread m p k) @ bs @ drop (off + length bs) (mread m p k)"
proof (rule nth_equalityI)
  show "length (mread (mwrite m (p + of_nat off) bs) p k) =
    length (take off (mread m p k) @ bs @ drop (off + length bs) (mread m p k))"
    using assms by simp
next
  fix i assume "i < length (mread (mwrite m (p + of_nat off) bs) p k)"
  then have i: "i < k" by simp
  have e: "p + of_nat i - (p + of_nat off) = (of_nat i - of_nat off :: u64)" by simp
  show "mread (mwrite m (p + of_nat off) bs) p k ! i =
    (take off (mread m p k) @ bs @ drop (off + length bs) (mread m p k)) ! i"
  proof (cases "off \<le> i")
    case True
    then have "(of_nat i - of_nat off :: u64) = of_nat (i - off)" by simp
    moreover have "unat (of_nat (i - off) :: u64) = i - off"
      using i assms by (intro unat_of_nat_64) simp
    ultimately show ?thesis
      using True i assms by (auto simp: mwrite_def e nth_append)
  next
    case False
    have ni: "unat (of_nat i :: u64) = i" and no: "unat (of_nat off :: u64) = off \<or> off = 2 ^ 64"
      using i assms False by (auto simp: unat_of_nat_64 intro!: unat_of_nat_64)
    have "length bs \<le> unat (of_nat i - of_nat off :: u64)"
    proof (cases "off = 2 ^ 64")
      case True
      then show ?thesis using assms by simp
    next
      case off: False
      with no have no: "unat (of_nat off :: u64) = off" by simp
      have "apart (of_nat off :: u64) (length bs) 0 (Suc i)"
        using False by (simp add: apart_def no)
      from unat_sub_apart [OF this, of i] show ?thesis
        using assms i no False by simp
    qed
    then show ?thesis
      using False i assms by (simp add: mwrite_def e nth_append)
  qed
qed

subsection \<open>Little-endian loads\<close>

definition le_nat :: "bytes \<Rightarrow> nat" where
  "le_nat bs = foldr (\<lambda>b a. unat b + 256 * a) bs 0"

definition ld16 :: "mem \<Rightarrow> addr \<Rightarrow> u16" where
  "ld16 m p = of_nat (le_nat (mread m p 2))"

definition ld32 :: "mem \<Rightarrow> addr \<Rightarrow> u32" where
  "ld32 m p = of_nat (le_nat (mread m p 4))"

definition ld64 :: "mem \<Rightarrow> addr \<Rightarrow> u64" where
  "ld64 m p = of_nat (le_nat (mread m p 8))"

lemma le_nat_less: "le_nat bs < 256 ^ length bs"
proof (induction bs)
  case (Cons b bs)
  have "unat b < 256" using unsigned_less [of b, where 'a = nat] by simp
  then show ?case using Cons by (simp add: le_nat_def)
qed (simp add: le_nat_def)

end
