(* ===== verification/KString.thy ===== *)
theory KString
  imports Prelude "HOL-Library.Signed_Division" "HOL-Library.Sublist"
begin

unbundle bit_operations_syntax

text \<open>
  The freestanding string and memory helpers of \<^verbatim>\<open>src/string.c\<close>. Strings are lists of
  characters whose end reads as NUL, \<open>memset\<close> and \<open>memcpy\<close> act on byte memory, and the
  number routines work on 32- and 64-bit words as the compiled code does. The lemmas relate
  each loop to its mathematical meaning: comparison of string values, block fill and block
  copy, and the decimal round trip of \<open>itoa\<close> and \<open>k_atoi\<close>.
\<close>

subsection \<open>String helpers\<close>

fun k_strlen :: "string \<Rightarrow> nat" where
  "k_strlen [] = 0"
| "k_strlen (c # cs) = (if c = NUL then 0 else Suc (k_strlen cs))"

fun str_eq :: "string \<Rightarrow> string \<Rightarrow> bool" where
  "str_eq (a # as) (b # bs) =
     (if a \<noteq> NUL \<and> b \<noteq> NUL then (if a \<noteq> b then False else str_eq as bs) else a = b)"
| "str_eq as bs = (chd as = chd bs)"

text \<open>The count \<open>n\<close> of the loop \<open>while (n-- > 0)\<close>: a negative \<open>int\<close> runs it no times.\<close>

fun k_strncmp :: "string \<Rightarrow> string \<Rightarrow> nat \<Rightarrow> int" where
  "k_strncmp a b 0 = 0"
| "k_strncmp a b (Suc n) =
     (if chd a \<noteq> chd b then of_char (chd a) - of_char (chd b)
      else if chd a = NUL then 0
      else k_strncmp (tl a) (tl b) n)"

fun str_starts_with :: "string \<Rightarrow> string \<Rightarrow> bool" where
  "str_starts_with s [] = True"
| "str_starts_with s (p # ps) =
     (if p = NUL then True else if chd s \<noteq> p then False else str_starts_with (tl s) ps)"

subsection \<open>Memory helpers\<close>

fun memset_loop :: "mem \<Rightarrow> addr \<Rightarrow> u8 \<Rightarrow> nat \<Rightarrow> mem" where
  "memset_loop m p v 0 = m"
| "memset_loop m p v (Suc n) = memset_loop (m(p := v)) (p + 1) v n"

definition memset :: "mem \<Rightarrow> addr \<Rightarrow> u8 \<Rightarrow> u64 \<Rightarrow> mem" where
  "memset m dst val n = memset_loop m dst val (unat n)"

fun memcpy_loop :: "mem \<Rightarrow> addr \<Rightarrow> addr \<Rightarrow> nat \<Rightarrow> mem" where
  "memcpy_loop m d s 0 = m"
| "memcpy_loop m d s (Suc n) = memcpy_loop (m(d := m s)) (d + 1) (s + 1) n"

definition memcpy :: "mem \<Rightarrow> addr \<Rightarrow> addr \<Rightarrow> u64 \<Rightarrow> mem" where
  "memcpy m dst src n = memcpy_loop m dst src (unat n)"

subsection \<open>Number printing and parsing\<close>

text \<open>
  The digit loop of \<open>itoa\<close>: \<open>room\<close> is \<open>bufLen - 1 - i\<close>, and C division and remainder
  truncate towards zero.
\<close>

fun itoa_digits :: "nat \<Rightarrow> int \<Rightarrow> string" where
  "itoa_digits 0 value = []"
| "itoa_digits (Suc room) value =
     char_of (nat ((48 + value smod 10) mod 256)) #
       (if value sdiv 10 > 0 then itoa_digits room (value sdiv 10) else [])"

text \<open>The in-place reversal: swap the ends and move inwards.\<close>

function reverse_loop :: "string \<Rightarrow> nat \<Rightarrow> nat \<Rightarrow> string" where
  "reverse_loop buf j k =
     (if j < k then reverse_loop (buf[j := buf ! k, k := buf ! j]) (j + 1) (k - 1) else buf)"
  by pat_completeness auto
termination
  by (relation "measure (\<lambda>(buf, j, k). k - j)") auto

declare reverse_loop.simps [simp del]

text \<open>\<open>None\<close> when the buffer is left unwritten; otherwise the text; the result is its length.\<close>

definition itoa :: "s32 \<Rightarrow> int \<Rightarrow> string option \<times> nat" where
  "itoa value bufLen =
     (if bufLen \<le> 0 then (None, 0)
      else
        let neg = sint value < 0;
            v = (if neg then wrap32 (- sint value) else sint value);
            ds = itoa_digits (nat (bufLen - 1)) v;
            buf = (if neg \<and> int (length ds) < bufLen - 1 then ds @ ''-'' else ds);
            i = length buf
        in (Some (reverse_loop buf 0 (i - 1)), i))"

fun atoi_loop :: "s32 \<Rightarrow> string \<Rightarrow> s32" where
  "atoi_loop result [] = result"
| "atoi_loop result (c # cs) =
     (if CHR ''0'' \<le> c \<and> c \<le> CHR ''9''
      then atoi_loop (result * 10 + of_nat (of_char c - 48)) cs else result)"

definition k_atoi :: "string \<Rightarrow> s32" where
  "k_atoi s = (if chd s = CHR ''-'' then - atoi_loop 0 (tl s) else atoi_loop 0 s)"

definition hex_digit :: "char \<Rightarrow> nat option" where
  "hex_digit c =
     (if CHR ''0'' \<le> c \<and> c \<le> CHR ''9'' then Some (of_char c - 48)
      else if CHR ''a'' \<le> c \<and> c \<le> CHR ''f'' then Some (of_char c - 97 + 10)
      else if CHR ''A'' \<le> c \<and> c \<le> CHR ''F'' then Some (of_char c - 65 + 10)
      else None)"

fun hextoul_loop :: "u64 \<Rightarrow> string \<Rightarrow> u64" where
  "hextoul_loop result [] = result"
| "hextoul_loop result (c # cs) =
     (case hex_digit c of
        Some d \<Rightarrow> hextoul_loop (push_bit 4 result OR of_nat d) cs
      | None \<Rightarrow> result)"

definition k_hextoul :: "string \<Rightarrow> u64" where
  "k_hextoul s =
     (if chd s = CHR ''0'' \<and> (chd (tl s) = CHR ''x'' \<or> chd (tl s) = CHR ''X'')
      then hextoul_loop 0 (drop 2 s) else hextoul_loop 0 s)"

subsection \<open>What the string helpers compute\<close>

lemma k_strlen_eq: "k_strlen s = length (cstr s)"
  by (induction s) (auto simp: cstr_Cons)

lemma str_eq_iff [simp]: "str_eq a b \<longleftrightarrow> cstr a = cstr b"
  by (induction a b rule: str_eq.induct) (auto simp: cstr_Cons chd_def split: list.splits if_splits)

lemma cstr_tl: "chd s \<noteq> NUL \<Longrightarrow> cstr s = chd s # cstr (tl s)"
  by (cases s) (auto simp: cstr_Cons)

lemma cstr_end: "chd s = NUL \<Longrightarrow> cstr s = []"
  by (simp add: chd_eq_NUL_iff)

lemma k_strncmp_eq_0_iff: "k_strncmp a b n = 0 \<longleftrightarrow> take n (cstr a) = take n (cstr b)"
proof (induction a b n rule: k_strncmp.induct)
  case (2 a b n)
  show ?case
  proof (cases "chd a = chd b")
    case True
    then show ?thesis
    proof (cases "chd a = NUL")
      case True
      with \<open>chd a = chd b\<close> have "cstr a = []" "cstr b = []" by (simp_all add: cstr_end)
      with True \<open>chd a = chd b\<close> show ?thesis by simp
    next
      case False
      with True "2.IH" show ?thesis
        by (simp add: cstr_tl [of a] cstr_tl [of b])
    qed
  next
    case False
    then have "take (Suc n) (cstr a) \<noteq> take (Suc n) (cstr b)"
      by (cases "chd a = NUL"; cases "chd b = NUL") (auto simp: cstr_end cstr_tl)
    with False show ?thesis by simp
  qed
qed simp

lemma str_starts_with_iff [simp]: "str_starts_with s p \<longleftrightarrow> prefix (cstr p) (cstr s)"
proof (induction s p rule: str_starts_with.induct)
  case (2 s p ps)
  then show ?case
    by (cases "chd s = NUL") (auto simp: cstr_Cons cstr_tl cstr_end)
qed simp

lemma memset_loop_eq: "n \<le> 2 ^ 64 \<Longrightarrow> memset_loop m p v n = mfill m p n v"
proof (induction n arbitrary: m p)
  case 0
  show ?case by (simp add: mfill_def)
next
  case (Suc n)
  have "memset_loop m p v (Suc n) = mfill (m(p := v)) (p + 1) n v"
    using Suc by simp
  also have "\<dots> = mfill m p (Suc n) v"
  proof (rule ext)
    fix a
    show "mfill (m(p := v)) (p + 1) n v a = mfill m p (Suc n) v a"
    proof (cases "a = p")
      case False
      then have "unat (a - p - 1) = unat (a - p) - 1" "0 < unat (a - p)"
        by (simp_all add: unat_minus_one unat_gt_0)
      with False show ?thesis by (auto simp: mfill_def algebra_simps)
    qed (simp add: mfill_def)
  qed
  finally show ?case .
qed

lemma memset_eq [mem_simps]: "memset m p v n = mfill m p (unat n) v"
proof -
  have "unat n \<le> 2 ^ 64" using unsigned_less [of n, where 'a = nat] by simp
  then show ?thesis unfolding memset_def by (rule memset_loop_eq)
qed

text \<open>
  The forward byte loop of \<open>memcpy\<close> is a block copy when the destination does not overwrite
  source bytes that are still to be read.
\<close>

lemma memcpy_loop_eq:
  assumes "n \<le> 2 ^ 64" "\<And>i. i < n \<Longrightarrow> n \<le> unat (s + of_nat i - d)"
  shows "memcpy_loop m d s n = mwrite m d (mread m s n)"
  using assms
proof (induction n arbitrary: m d s)
  case (Suc n)
  have far: "Suc n \<le> unat (s + of_nat i - d)" if "i < Suc n" for i
    using Suc.prems(2) that .
  have keep: "(m(d := m s)) (s + 1 + of_nat i) = m (s + 1 + of_nat i)" if "i < n" for i
    using far [of "Suc i"] that by (auto simp: ac_simps)
  have "memcpy_loop m d s (Suc n) = mwrite (m(d := m s)) (d + 1) (mread (m(d := m s)) (s + 1) n)"
  proof (simp, rule Suc.IH)
    fix i assume i: "i < n"
    have "s + 1 + of_nat i - (d + 1) = s + of_nat i - d" by simp
    then show "n \<le> unat (s + 1 + of_nat i - (d + 1))"
      using far [of i] i by (metis Suc_leD less_SucI)
  qed (use Suc.prems in simp)
  also have "mread (m(d := m s)) (s + 1) n = mread m (s + 1) n"
    using keep by (rule mread_cong)
  also have "mwrite (m(d := m s)) (d + 1) (mread m (s + 1) n) = mwrite m d (mread m s (Suc n))"
  proof (rule ext)
    fix a
    show "mwrite (m(d := m s)) (d + 1) (mread m (s + 1) n) a = mwrite m d (mread m s (Suc n)) a"
    proof (cases "a = d")
      case True
      have "\<not> unat (- 1 :: u64) < n" using Suc.prems(1) by (simp add: unat_word_ariths(4) unsigned_minus_1_eq_mask mask_eq_exp_minus_1)
      with True show ?thesis by (simp add: mwrite_def mread_Suc)
    next
      case False
      then have "unat (a - d - 1) = unat (a - d) - 1" "0 < unat (a - d)"
        by (simp_all add: unat_minus_one unat_gt_0)
      then obtain k where "unat (a - d) = Suc k" "unat (a - d - 1) = k"
        by (cases "unat (a - d)") auto
      with False show ?thesis by (simp add: mwrite_def mread_Suc algebra_simps)
    qed
  qed
  finally show ?case .
qed simp

lemma memcpy_eq [mem_simps]:
  assumes "apart d (unat n) s (unat n)" "unat d + unat n \<le> 2 ^ 64" "unat s + unat n \<le> 2 ^ 64"
  shows "memcpy m d s n = mwrite m d (mread m s (unat n))"
  unfolding memcpy_def
proof (rule memcpy_loop_eq)
  show "unat n \<le> 2 ^ 64" using assms by simp
  show "unat n \<le> unat (s + of_nat i - d)" if "i < unat n" for i
    using assms that by (intro unat_sub_apart)
qed

text \<open>Copies between a part of a buffer of \<open>cap\<close> bytes and a region outside it.\<close>

lemma memcpy_into:
  assumes "unat p + cap \<le> 2 ^ 64" "apart buf n p cap" "unat buf + n \<le> 2 ^ 64"
    "pos + k \<le> cap" "k \<le> n" "cap < 2 ^ 64"
  shows "memcpy m (p + of_nat pos) buf (of_nat k) = mwrite m (p + of_nat pos) (mread m buf k)"
proof (cases "k = 0")
  case False
  have k: "unat (of_nat k :: u64) = k" using assms by (intro unat_of_nat_64) simp
  have "unat (p + of_nat pos) = unat p + pos" using assms False by (intro unat_add_of_nat) linarith
  then show ?thesis using memcpy_eq [of "p + of_nat pos" "of_nat k" buf m] assms k
    by (auto simp: apart_def)
qed (simp add: memcpy_def)

lemma memcpy_from:
  assumes "unat p + cap \<le> 2 ^ 64" "apart buf n p cap" "unat buf + n \<le> 2 ^ 64"
    "pos + k \<le> cap" "k \<le> n" "cap < 2 ^ 64"
  shows "memcpy m buf (p + of_nat pos) (of_nat k) = mwrite m buf (mread m (p + of_nat pos) k)"
proof (cases "k = 0")
  case False
  have k: "unat (of_nat k :: u64) = k" using assms by (intro unat_of_nat_64) simp
  have "unat (p + of_nat pos) = unat p + pos" using assms False by (intro unat_add_of_nat) linarith
  then show ?thesis using memcpy_eq [of buf "of_nat k" "p + of_nat pos" m] assms k
    by (auto simp: apart_def)
qed (simp add: memcpy_def)

subsection \<open>Decimal round trip\<close>

lemma reverse_loop_length [simp]: "length (reverse_loop buf j k) = length buf"
proof (induction buf j k rule: reverse_loop.induct)
  case (1 buf j k)
  then show ?case by (subst reverse_loop.simps) simp
qed

lemma reverse_loop_nth:
  assumes "k < length buf" "i < length buf" "j \<le> Suc k"
  shows "reverse_loop buf j k ! i = (if j \<le> i \<and> i \<le> k then buf ! (j + k - i) else buf ! i)"
  using assms
proof (induction buf j k rule: reverse_loop.induct)
  case (1 buf j k)
  show ?case
  proof (cases "j < k")
    case True
    let ?b = "buf[j := buf ! k, k := buf ! j]"
    have "reverse_loop ?b (j + 1) (k - 1) ! i =
      (if j + 1 \<le> i \<and> i \<le> k - 1 then ?b ! (j + 1 + (k - 1) - i) else ?b ! i)"
      using True "1.prems" by (intro "1.IH") auto
    then show ?thesis
      using True "1.prems" by (subst reverse_loop.simps) (force simp: nth_list_update)
  next
    case False
    then have "j + k - i = i" if "j \<le> i" "i \<le> k" using that by linarith
    with False show ?thesis by (subst reverse_loop.simps) auto
  qed
qed

lemma reverse_loop_rev: "reverse_loop buf 0 (length buf - 1) = rev buf"
proof (cases buf)
  case Nil
  then show ?thesis by (simp add: reverse_loop.simps)
next
  case (Cons c cs)
  show ?thesis
    by (rule nth_equalityI) (simp_all add: Cons reverse_loop_nth rev_nth del: rev.simps)
qed

lemma sdiv_smod_nonneg [simp]:
  "0 \<le> (v::int) \<Longrightarrow> v sdiv 10 = v div 10" "0 \<le> (v::int) \<Longrightarrow> v smod 10 = v mod 10"
  by (auto simp: signed_divide_int_def signed_modulo_int_def sgn_if)

definition is_dec :: "char \<Rightarrow> bool" where
  "is_dec c \<longleftrightarrow> CHR ''0'' \<le> c \<and> c \<le> CHR ''9''"

lemma dec_char:
  assumes "0 \<le> d" "d < 10"
  shows "is_dec (char_of (nat ((48 + d) mod 256)))"
    "of_char (char_of (nat ((48 + d) mod 256)) :: char) = nat (48 + d)"
proof -
  have e: "(48 + d) mod 256 = 48 + d" using assms by simp
  then show "of_char (char_of (nat ((48 + d) mod 256)) :: char) = nat (48 + d)"
    using assms by (simp add: of_char_of)
  then show "is_dec (char_of (nat ((48 + d) mod 256)))"
    using assms by (simp add: is_dec_def less_eq_char_def nat_le_iff le_nat_iff)
qed

lemma itoa_digits_dec: "0 \<le> v \<Longrightarrow> \<forall>c \<in> set (itoa_digits room v). is_dec c"
proof (induction room v rule: itoa_digits.induct)
  case (2 room v)
  then show ?case
    using dec_char(1) [of "v mod 10"] by (auto simp: pos_imp_zdiv_nonneg_iff split: if_splits)
qed simp

lemma atoi_loop_snoc:
  "\<forall>c \<in> set ds. is_dec c \<Longrightarrow> is_dec d \<Longrightarrow>
   atoi_loop r (ds @ [d]) = atoi_loop r ds * 10 + of_nat (of_char d - 48)"
  by (induction ds arbitrary: r) (auto simp: is_dec_def)

lemma atoi_itoa_digits:
  assumes "0 \<le> v" "v < 10 ^ room" "0 < room"
  shows "atoi_loop 0 (rev (itoa_digits room v)) = of_int v"
  using assms
proof (induction room v rule: itoa_digits.induct)
  case (2 room v)
  let ?d = "char_of (nat ((48 + v mod 10) mod 256)) :: char"
  let ?rest = "if v div 10 > 0 then itoa_digits room (v div 10) else []"
  have digit: "is_dec ?d" "of_nat (of_char ?d - 48) = (of_int (v mod 10) :: s32)"
    using dec_char [of "v mod 10"] by (auto simp: nat_diff_distrib of_nat_nat)
  have rest: "atoi_loop 0 (rev ?rest) = of_int (v div 10)"
  proof (cases "v div 10 > 0")
    case True
    with "2.prems" have "room \<noteq> 0" by (intro notI) simp
    with True "2.prems" show ?thesis
      using "2.IH" by (simp add: pos_imp_zdiv_nonneg_iff div_less_iff_less_mult mult.commute)
  next
    case False
    with "2.prems" have "v div 10 = 0"
      by (simp add: pos_imp_zdiv_nonneg_iff order_antisym)
    then show ?thesis by simp
  qed
  have dec: "\<forall>c \<in> set (rev ?rest). is_dec c"
    using "2.prems" itoa_digits_dec [of "v div 10" room] by (auto simp: pos_imp_zdiv_nonneg_iff)
  have "atoi_loop 0 (rev (itoa_digits (Suc room) v)) = atoi_loop 0 (rev ?rest @ [?d])"
    using "2.prems" by simp
  also have "\<dots> = of_int (v div 10) * 10 + of_int (v mod 10)"
    using atoi_loop_snoc [OF dec digit(1), of 0] by (simp only: rest digit(2))
  also have "\<dots> = of_int (v div 10 * 10 + v mod 10)" by (simp only: of_int_add of_int_mult of_int_numeral)
  also have "\<dots> = of_int v" by simp
  finally show ?case .
qed simp

lemma atoi_loop_stop: "\<not> is_dec c \<Longrightarrow> atoi_loop r (c # cs) = r"
  by (auto simp: is_dec_def)

lemma itoa_Some:
  assumes "0 < bufLen"
  shows "itoa value bufLen =
    (let neg = sint value < 0;
         ds = itoa_digits (nat (bufLen - 1)) (if neg then wrap32 (- sint value) else sint value);
         buf = (if neg \<and> int (length ds) < bufLen - 1 then ds @ ''-'' else ds)
     in (Some (rev buf), length buf))"
  using assms unfolding itoa_def Let_def reverse_loop_rev by auto

lemma itoa_digits_length: "0 \<le> v \<Longrightarrow> v < 10 ^ n \<Longrightarrow> 0 < n \<Longrightarrow> length (itoa_digits room v) \<le> n"
proof (induction room v arbitrary: n rule: itoa_digits.induct)
  case (2 room v)
  show ?case
  proof (cases "v div 10 > 0")
    case True
    obtain k where n: "n = Suc k" using "2.prems" by (cases n) auto
    have "k \<noteq> 0" using True "2.prems" n by (intro notI) simp
    moreover have "v div 10 < 10 ^ k" using "2.prems" n by simp
    ultimately have "length (itoa_digits room (v div 10)) \<le> k"
      using "2.IH" [of k] True "2.prems" by simp
    with True "2.prems" n show ?thesis by simp
  qed (use "2.prems" in simp)
qed simp

lemma itoa_digits_nonempty: "0 < room \<Longrightarrow> itoa_digits room v \<noteq> []"
  by (cases room) auto

lemma k_atoi_digits:
  assumes "ds \<noteq> []" "\<forall>c \<in> set ds. is_dec c"
  shows "k_atoi ds = atoi_loop 0 ds"
proof -
  have "is_dec (chd ds)" using assms by (cases ds) auto
  then have "chd ds \<noteq> CHR ''-''" by (auto simp: is_dec_def less_eq_char_def)
  then show ?thesis by (simp add: k_atoi_def)
qed

text \<open>
  printing a 32-bit integer with \<open>itoa\<close> into a buffer of at least 12 bytes and parsing
  the text with \<open>k_atoi\<close> gives the integer back, for every value but the most negative one
  (whose negation leaves the range); the returned count is the text's length and the text with
  its terminator fits the buffer.
\<close>

theorem itoa_atoi_roundtrip:
  assumes "sint val \<noteq> - 2147483648" "12 \<le> bufLen"
  shows "\<exists>t n. itoa val bufLen = (Some t, n) \<and> n = length t \<and> int n < bufLen \<and> k_atoi t = val"
proof -
  let ?neg = "sint val < 0"
  define v where "v = (if ?neg then wrap32 (- sint val) else sint val)"
  define ds where "ds = itoa_digits (nat (bufLen - 1)) v"
  have bounds: "- 2147483648 \<le> sint val" "sint val < 2147483648"
    using sint_range_size [of val] by (simp_all add: word_size)
  then have v: "0 \<le> v" "v < 2147483648" "v = \<bar>sint val\<bar>"
    using assms(1) by (auto simp: v_def)
  have "(10::int) ^ 11 \<le> 10 ^ nat (bufLen - 1)"
    using assms(2) by (intro power_increasing) auto
  then have "v < 10 ^ nat (bufLen - 1)" using v(2) by simp
  then have num: "atoi_loop 0 (rev ds) = of_int v"
    unfolding ds_def using v(1) assms(2) by (intro atoi_itoa_digits) auto
  have dec: "\<forall>c \<in> set (rev ds). is_dec c"
    using itoa_digits_dec [OF v(1)] by (simp add: ds_def)
  have len: "length ds \<le> 10"
    unfolding ds_def using v by (intro itoa_digits_length) auto
  have ne: "rev ds \<noteq> []"
    using itoa_digits_nonempty assms(2) by (simp add: ds_def)
  define buf where "buf = (if ?neg then ds @ ''-'' else ds)"
  have buf: "itoa val bufLen = (Some (rev buf), length buf)"
    using assms(2) len
    by (auto simp: itoa_Some Let_def buf_def ds_def v_def)
  have "k_atoi (rev buf) = of_int (sint val)"
  proof (cases ?neg)
    case True
    then have "k_atoi (rev buf) = - atoi_loop 0 (rev ds)"
      by (simp add: buf_def k_atoi_def)
    with True show ?thesis by (simp add: num v(3))
  next
    case False
    then have "k_atoi (rev buf) = atoi_loop 0 (rev ds)"
      using k_atoi_digits [OF ne dec] by (simp add: buf_def)
    with False show ?thesis by (simp add: num v(3))
  qed
  moreover have "int (length buf) < bufLen" using len assms(2) by (simp add: buf_def)
  ultimately show ?thesis using buf by simp
qed

theorem itoa_atoi_roundtrip_witness:
  "sint (- 305 :: s32) \<noteq> - 2147483648 \<and>
   (\<exists>t n. itoa (- 305) 12 = (Some t, n) \<and> n = length t \<and> int n < 12 \<and> k_atoi t = - 305)"
  using itoa_atoi_roundtrip [of "- 305" 12] by simp

text \<open>
  The string comparisons decide what they are named for. \<open>str_eq\<close> holds exactly when the
  two NUL-terminated values are equal, \<open>k_strncmp\<close> is zero exactly when they agree on the
  first \<open>n\<close> characters, \<open>str_starts_with\<close> exactly when one is a prefix of the other, and
  \<open>k_strlen\<close> is the length of the value.
\<close>

theorem string_compare_correct:
  "str_eq a b = (cstr a = cstr b) \<and>
   (k_strncmp a b n = 0) = (take n (cstr a) = take n (cstr b)) \<and>
   str_starts_with a b = prefix (cstr b) (cstr a) \<and>
   k_strlen a = length (cstr a)"
  by (simp add: k_strncmp_eq_0_iff k_strlen_eq)

text \<open>
  The most negative integer is not printed correctly: its negation wraps to itself, the digit
  loop stops after one step and leaves a character below \<open>0\<close>.
\<close>

lemma itoa_int_min: "itoa (- 2147483648) 12 = (Some ''-('', 2)"
  by code_simp

end
