(* ===== verification/Alloc.thy ===== *)
theory Alloc
  imports KString
begin

unbundle bit_operations_syntax

text \<open>
  The free-list heap allocator of \<^verbatim>\<open>src/alloc.c\<close>. The static variables are the fields of
  \<open>kheap\<close>; the 16-byte block headers, which the C code stores in the heap itself, are the
  typed view \<open>hdr\<close> of that memory, and \<open>mem\<close> is the byte view the rest of the kernel uses.
  Every public operation runs with the heap lock held and interrupts masked, so it is one
  atomic step here. \<open>None\<close> is the result of an operation that never returns: a failed
  \<open>ASSERT\<close> panics, and a scan of a cyclic free list does not end.
\<close>

record free_block =
  bsize :: u64
  bnext :: addr

record kheap =
  heap_ptr :: addr
  heap_end :: addr
  free_list :: addr
  total_allocated :: u64
  free_block_count :: u64
  hdr :: "addr \<Rightarrow> free_block"
  mem :: mem

abbreviation HEADER_SIZE :: u64 where
  "HEADER_SIZE \<equiv> 16"

abbreviation MIN_BLOCK :: u64 where
  "MIN_BLOCK \<equiv> 32"

text \<open>\<open>heap_start\<close> and \<open>heap_limit\<close> are the linker symbols \<open>__heap_start\<close>, \<open>__heap_end\<close>.\<close>

definition alloc_init :: "addr \<Rightarrow> addr \<Rightarrow> kheap \<Rightarrow> kheap" where
  "alloc_init heap_start heap_limit h =
     h\<lparr>heap_ptr := heap_start, heap_end := heap_limit, free_list := 0,
       total_allocated := 0, free_block_count := 0\<rparr>"

definition align_up :: "u64 \<Rightarrow> u64 \<Rightarrow> u64" where
  "align_up val align = (val + align - 1) AND NOT (align - 1)"

text \<open>The link that \<open>prev\<close> points at: the list head or the \<open>next\<close> field of a block.\<close>

datatype link = Head | NextOf addr

definition fits :: "(addr \<Rightarrow> free_block) \<Rightarrow> u64 \<Rightarrow> u64 \<Rightarrow> addr \<Rightarrow> bool" where
  "fits H tot align blk \<longleftrightarrow>
     bsize (H blk) \<ge> tot \<and> (align = 16 \<or> (blk + HEADER_SIZE) AND (align - 1) = 0)"

partial_function (option) find_fit ::
  "(addr \<Rightarrow> free_block) \<Rightarrow> u64 \<Rightarrow> u64 \<Rightarrow> link \<Rightarrow> addr \<Rightarrow> (link \<times> addr) option option"
where
  "find_fit H tot align prev blk =
     (if blk = 0 then Some None
      else if fits H tot align blk then Some (Some (prev, blk))
      else find_fit H tot align (NextOf blk) (bnext (H blk)))"

definition set_link :: "link \<Rightarrow> addr \<Rightarrow> kheap \<Rightarrow> kheap" where
  "set_link l v h =
     (case l of Head \<Rightarrow> h\<lparr>free_list := v\<rparr>
      | NextOf b \<Rightarrow> h\<lparr>hdr := (hdr h)(b := (hdr h b)\<lparr>bnext := v\<rparr>)\<rparr>)"

definition take_block :: "link \<Rightarrow> addr \<Rightarrow> kheap \<Rightarrow> kheap" where
  "take_block prev blk h =
     (let h1 = set_link prev (bnext (hdr h blk)) h;
          h2 = h1\<lparr>free_block_count := free_block_count h1 - 1\<rparr>;
          h3 = h2\<lparr>hdr := (hdr h2)(blk := (hdr h2 blk)\<lparr>bnext := 0\<rparr>)\<rparr>
      in h3\<lparr>total_allocated := total_allocated h3 + bsize (hdr h3 blk)\<rparr>)"

text \<open>Where the bump allocator puts the payload: the address is aligned twice.\<close>

definition bump_addr :: "addr \<Rightarrow> u64 \<Rightarrow> addr" where
  "bump_addr hp align =
     (let a0 = align_up hp align;
          b0 = a0 - HEADER_SIZE;
          b1 = (if b0 < hp then hp else b0)
      in align_up (b1 + HEADER_SIZE) align)"

definition bump :: "u64 \<Rightarrow> u64 \<Rightarrow> u64 \<Rightarrow> kheap \<Rightarrow> addr \<times> kheap" where
  "bump sz tot align h =
     (let a = bump_addr (heap_ptr h) align; block_start = a - HEADER_SIZE
      in if a + sz > heap_end h then (0, h)
         else (a, h\<lparr>hdr := (hdr h)(block_start := \<lparr>bsize = tot, bnext = 0\<rparr>),
                    heap_ptr := block_start + tot,
                    total_allocated := total_allocated h + tot\<rparr>))"

definition block_total :: "u64 \<Rightarrow> u64 \<Rightarrow> u64" where
  "block_total sz align =
     (let tot = align_up (HEADER_SIZE + sz) align
      in if tot < MIN_BLOCK then MIN_BLOCK else tot)"

definition kmalloc_aligned :: "u64 \<Rightarrow> u64 \<Rightarrow> kheap \<Rightarrow> (addr \<times> kheap) option" where
  "kmalloc_aligned sz align0 h =
     (if \<not> sz > 0 then None
      else if align0 = 0 \<or> align0 AND (align0 - 1) \<noteq> 0 then None
      else
        let align = (if align0 < 16 then 16 else align0);
            tot = block_total sz align
        in do {
          fit \<leftarrow> find_fit (hdr h) tot align Head (free_list h);
          Some (case fit of
                  Some (prev, blk) \<Rightarrow> (blk + HEADER_SIZE, take_block prev blk h)
                | None \<Rightarrow> bump sz tot align h)
        })"

definition kmalloc :: "u64 \<Rightarrow> kheap \<Rightarrow> (addr \<times> kheap) option" where
  "kmalloc sz h = kmalloc_aligned sz 16 h"

definition kfree :: "addr \<Rightarrow> kheap \<Rightarrow> kheap" where
  "kfree ptr h =
     (if ptr = 0 then h
      else
        let blk = ptr - HEADER_SIZE;
            h1 = h\<lparr>total_allocated := total_allocated h - bsize (hdr h blk)\<rparr>;
            h2 = h1\<lparr>hdr := (hdr h1)(blk := (hdr h1 blk)\<lparr>bnext := free_list h1\<rparr>)\<rparr>
        in h2\<lparr>free_list := blk, free_block_count := free_block_count h2 + 1\<rparr>)"

definition alloc_used :: "kheap \<Rightarrow> u64" where
  "alloc_used h = total_allocated h"

partial_function (option) sum_free :: "(addr \<Rightarrow> free_block) \<Rightarrow> addr \<Rightarrow> u64 \<Rightarrow> u64 option" where
  "sum_free H blk acc =
     (if blk = 0 then Some acc else sum_free H (bnext (H blk)) (acc + bsize (H blk)))"

definition alloc_free :: "kheap \<Rightarrow> u64 option" where
  "alloc_free h = sum_free (hdr h) (free_list h) (heap_end h - heap_ptr h)"

definition alloc_free_blocks :: "kheap \<Rightarrow> u64" where
  "alloc_free_blocks h = free_block_count h"

subsection \<open>Alignment arithmetic\<close>

lemma and_not_mask: "(x::u64) AND NOT (mask k) = push_bit k (drop_bit k x)"
  by (rule bit_eqI) (auto simp: bit_simps)

lemma unat_push_drop: "unat (push_bit k (drop_bit k (x::u64))) = unat x div 2 ^ k * 2 ^ k"
proof -
  have le: "unat x div 2 ^ k * 2 ^ k \<le> unat x" by simp
  have lt: "unat x div 2 ^ k * 2 ^ k < 2 ^ 64"
    using unsigned_less [of x, where 'a = nat] by (intro le_less_trans [OF le]) simp
  have "unat (push_bit k (drop_bit k x)) = take_bit 64 (push_bit k (unat (drop_bit k x)))"
    using unsigned_push_bit_eq [of k "drop_bit k x", where 'a = nat] by simp
  also have "unat (drop_bit k x) = drop_bit k (unat x)" by (rule unat_drop_bit_eq)
  also have "push_bit k (drop_bit k (unat x)) = unat x div 2 ^ k * 2 ^ k"
    by (simp add: drop_bit_nat_def push_bit_nat_def)
  also have "take_bit 64 \<dots> = \<dots>" using lt by (rule take_bit_nat_eq_self)
  finally show ?thesis .
qed

lemma unat_align_up:
  assumes "unat v + 2 ^ k \<le> 2 ^ 64"
  shows "unat (align_up v (2 ^ k)) = (unat v + 2 ^ k - 1) div 2 ^ k * 2 ^ k"
proof -
  have m: "(2 ^ k - 1 :: u64) = mask k" by (simp add: mask_eq_exp_minus_1)
  have "(of_nat (unat v + 2 ^ k - 1) :: u64) = of_nat (unat v + 2 ^ k) - of_nat 1"
    by (rule of_nat_diff) (simp add: Suc_le_eq)
  then have "(v + 2 ^ k - 1 :: u64) = of_nat (unat v + 2 ^ k - 1)"
    by simp
  moreover have "unat (of_nat (unat v + 2 ^ k - 1) :: u64) = unat v + 2 ^ k - 1"
    using assms by (intro unat_of_nat_64) (simp add: less_le_trans [OF _ assms])
  ultimately have "unat (v + 2 ^ k - 1) = unat v + 2 ^ k - 1" by simp
  moreover have "align_up v (2 ^ k) = push_bit k (drop_bit k (v + 2 ^ k - 1))"
    by (simp add: align_up_def m and_not_mask)
  ultimately show ?thesis by (simp add: unat_push_drop)
qed

lemma round_up_bounds:
  fixes x a :: nat
  assumes "0 < a"
  shows "x \<le> (x + a - 1) div a * a" "(x + a - 1) div a * a < x + a"
proof -
  have "(x + a - 1) div a * a + (x + a - 1) mod a = x + a - 1" by simp
  moreover have "(x + a - 1) mod a < a" using assms by simp
  ultimately show "x \<le> (x + a - 1) div a * a" "(x + a - 1) div a * a < x + a" by linarith+
qed

lemma align_up_bounds:
  assumes "unat v + 2 ^ k \<le> 2 ^ 64"
  shows "unat v \<le> unat (align_up v (2 ^ k))" "unat (align_up v (2 ^ k)) < unat v + 2 ^ k"
    "2 ^ k dvd unat (align_up v (2 ^ k))"
  using unat_align_up [OF assms] round_up_bounds [of "2 ^ k" "unat v"] by auto

lemma and_mask_zero_iff: "(x::u64) AND (2 ^ k - 1) = 0 \<longleftrightarrow> 2 ^ k dvd unat x"
proof -
  have "x AND (2 ^ k - 1) = 0 \<longleftrightarrow> unat (take_bit k x) = 0"
    by (simp add: take_bit_eq_mask mask_eq_exp_minus_1 unat_eq_zero)
  also have "unat (take_bit k x) = take_bit k (unat x)"
    by (rule unsigned_take_bit_eq)
  also have "\<dots> = unat x mod 2 ^ k"
    by (rule take_bit_eq_mod)
  finally show ?thesis by (simp add: dvd_eq_mod_eq_0)
qed

subsection \<open>The free list\<close>

fun flist :: "(addr \<Rightarrow> free_block) \<Rightarrow> addr \<Rightarrow> addr list \<Rightarrow> bool" where
  "flist H p [] \<longleftrightarrow> p = 0"
| "flist H p (b # bs) \<longleftrightarrow> p = b \<and> b \<noteq> 0 \<and> flist H (bnext (H b)) bs"

lemma flist_cong: "(\<And>b. b \<in> set bs \<Longrightarrow> bnext (H b) = bnext (H' b)) \<Longrightarrow> flist H p bs = flist H' p bs"
  by (induction bs arbitrary: p) auto

lemma flist_nz: "flist H p bs \<Longrightarrow> 0 \<notin> set bs"
  by (induction bs arbitrary: p) auto

text \<open>The link in front of the first element after \<open>pre\<close>.\<close>

definition link_after :: "link \<Rightarrow> addr list \<Rightarrow> link" where
  "link_after l pre = (if pre = [] then l else NextOf (last pre))"

lemma link_after_Cons: "link_after l (b # pre) = link_after (NextOf b) pre"
  by (simp add: link_after_def)

lemma find_fit_none:
  "flist H p bs \<Longrightarrow> \<forall>b \<in> set bs. \<not> fits H tot align b \<Longrightarrow> find_fit H tot align l p = Some None"
proof (induction bs arbitrary: p l)
  case Nil
  then show ?case by (subst find_fit.simps) simp
next
  case (Cons b bs)
  then show ?case by (subst find_fit.simps) simp
qed

lemma find_fit_first:
  "flist H p (pre @ b # post) \<Longrightarrow> \<forall>x \<in> set pre. \<not> fits H tot align x \<Longrightarrow> fits H tot align b \<Longrightarrow>
   find_fit H tot align l p = Some (Some (link_after l pre, b))"
proof (induction pre arbitrary: p l)
  case Nil
  then show ?case by (subst find_fit.simps) (simp add: link_after_def)
next
  case (Cons x pre)
  then show ?case by (subst find_fit.simps) (simp add: link_after_Cons)
qed

lemma find_fit_cases:
  assumes "flist H p bs"
  obtains (none) "find_fit H tot align l p = Some None" "\<forall>b \<in> set bs. \<not> fits H tot align b"
  | (first) pre b post where "bs = pre @ b # post" "fits H tot align b"
      "\<forall>x \<in> set pre. \<not> fits H tot align x"
      "find_fit H tot align l p = Some (Some (link_after l pre, b))"
proof (cases "\<exists>b \<in> set bs. fits H tot align b")
  case True
  from split_list_first_prop [OF True] obtain pre b post where split: "bs = pre @ b # post" "fits H tot align b"
    "\<forall>x \<in> set pre. \<not> fits H tot align x"
    by blast
  have "find_fit H tot align l p = Some (Some (link_after l pre, b))"
    using assms split by (intro find_fit_first) simp_all
  then show thesis by (rule first [OF split])
next
  case False
  then have no: "\<forall>b \<in> set bs. \<not> fits H tot align b" by blast
  from none [OF find_fit_none [OF assms no] no] show thesis .
qed

lemma flist_unlink:
  assumes "flist H p (pre @ b # post)" "distinct (pre @ b # post)"
  shows "flist (case link_after Head pre of Head \<Rightarrow> H
                | NextOf a \<Rightarrow> H(a := (H a)\<lparr>bnext := bnext (H b)\<rparr>))
          (if pre = [] then bnext (H b) else p) (pre @ post)"
  using assms
proof (induction pre arbitrary: p)
  case Nil
  then show ?case by (simp add: link_after_def)
next
  case (Cons x pre)
  show ?case
  proof (cases "pre = []")
    case True
    have "x \<notin> set post" using Cons.prems by simp
    then have "flist (H(x := (H x)\<lparr>bnext := bnext (H b)\<rparr>)) (bnext (H b)) post \<longleftrightarrow> flist H (bnext (H b)) post"
      by (intro flist_cong) auto
    with True Cons.prems show ?thesis by (simp add: link_after_def fun_upd_def)
  next
    case False
    have "x \<noteq> last pre" using Cons.prems False by (cases pre rule: rev_cases) auto
    with False Cons show ?thesis by (simp add: link_after_def)
  qed
qed

subsection \<open>The allocator invariant\<close>

text \<open>
  \<open>fs\<close> is the free list and \<open>ls\<close> the set of blocks handed out. Every block starts at a
  16-byte boundary inside \<open>[hs, heap_ptr)\<close>, blocks do not overlap, and the two counters
  describe \<open>fs\<close> and \<open>ls\<close>.
\<close>

definition block_ok :: "addr \<Rightarrow> kheap \<Rightarrow> addr \<Rightarrow> bool" where
  "block_ok hs h b \<longleftrightarrow> unat hs \<le> unat b \<and> 16 dvd unat b \<and> 32 \<le> unat (bsize (hdr h b)) \<and>
     unat b + unat (bsize (hdr h b)) \<le> unat (heap_ptr h)"

definition blocks_apart :: "kheap \<Rightarrow> addr \<Rightarrow> addr \<Rightarrow> bool" where
  "blocks_apart h b c \<longleftrightarrow> apart b (unat (bsize (hdr h b))) c (unat (bsize (hdr h c)))"

definition heap_inv :: "addr \<Rightarrow> kheap \<Rightarrow> addr list \<Rightarrow> addr set \<Rightarrow> bool" where
  "heap_inv hs h fs ls \<longleftrightarrow>
     0 < unat hs \<and> unat (heap_end h) \<le> 2 ^ 62 \<and>
     unat hs \<le> unat (heap_ptr h) \<and> unat (heap_ptr h) \<le> unat (heap_end h) + 4096 \<and>
     flist (hdr h) (free_list h) fs \<and> distinct fs \<and> finite ls \<and> set fs \<inter> ls = {} \<and>
     (\<forall>b \<in> set fs \<union> ls. block_ok hs h b) \<and>
     (\<forall>b \<in> set fs \<union> ls. \<forall>c \<in> set fs \<union> ls. b \<noteq> c \<longrightarrow> blocks_apart h b c) \<and>
     total_allocated h = (\<Sum>b \<in> ls. bsize (hdr h b)) \<and>
     free_block_count h = of_nat (length fs)"

lemma alloc_init_inv [inv_intros]:
  "0 < unat hs \<Longrightarrow> unat hs \<le> unat he \<Longrightarrow> unat he \<le> 2 ^ 62 \<Longrightarrow> heap_inv hs (alloc_init hs he h) [] {}"
  by (simp add: heap_inv_def alloc_init_def)

lemma heap_invD:
  assumes "heap_inv hs h fs ls"
  shows "0 < unat hs" "unat (heap_end h) \<le> 2 ^ 62" "unat hs \<le> unat (heap_ptr h)"
    "unat (heap_ptr h) \<le> unat (heap_end h) + 4096" "flist (hdr h) (free_list h) fs"
    "distinct fs" "finite ls" "set fs \<inter> ls = {}"
    "\<And>b. b \<in> set fs \<union> ls \<Longrightarrow> block_ok hs h b"
    "\<And>b c. b \<in> set fs \<union> ls \<Longrightarrow> c \<in> set fs \<union> ls \<Longrightarrow> b \<noteq> c \<Longrightarrow> blocks_apart h b c"
    "total_allocated h = (\<Sum>b \<in> ls. bsize (hdr h b))"
    "free_block_count h = of_nat (length fs)"
  using assms unfolding heap_inv_def by blast+

lemma apart_sym: "apart p n q k \<longleftrightarrow> apart q k p n"
  by (auto simp: apart_def)

subsection \<open>Taking a block from the free list and giving one back\<close>

lemma take_block_simps [simp]:
  "heap_ptr (take_block l b h) = heap_ptr h" "heap_end (take_block l b h) = heap_end h"
  "mem (take_block l b h) = mem h" "free_block_count (take_block l b h) = free_block_count h - 1"
  "bsize (hdr (take_block l b h) x) = bsize (hdr h x)"
  "total_allocated (take_block l b h) = total_allocated h + bsize (hdr h b)"
  by (auto simp: take_block_def set_link_def Let_def split: link.splits)

lemma take_block_flist:
  assumes "flist (hdr h) (free_list h) (pre @ b # post)" "distinct (pre @ b # post)"
  shows "flist (hdr (take_block (link_after Head pre) b h))
    (free_list (take_block (link_after Head pre) b h)) (pre @ post)"
proof -
  define H' where "H' = (case link_after Head pre of Head \<Rightarrow> hdr h
    | NextOf a \<Rightarrow> (hdr h)(a := (hdr h a)\<lparr>bnext := bnext (hdr h b)\<rparr>))"
  have "flist H' (if pre = [] then bnext (hdr h b) else free_list h) (pre @ post)"
    unfolding H'_def by (rule flist_unlink) fact+
  moreover have "free_list (take_block (link_after Head pre) b h) =
      (if pre = [] then bnext (hdr h b) else free_list h)"
    by (simp add: take_block_def set_link_def Let_def link_after_def)
  moreover have "flist (hdr (take_block (link_after Head pre) b h)) q (pre @ post) = flist H' q (pre @ post)" for q
    using assms(2)
    by (intro flist_cong) (auto simp: take_block_def set_link_def Let_def link_after_def H'_def)
  ultimately show ?thesis by simp
qed

lemma take_block_inv:
  assumes "heap_inv hs h (pre @ b # post) ls"
  shows "heap_inv hs (take_block (link_after Head pre) b h) (pre @ post) (insert b ls)"
proof -
  note inv = heap_invD [OF assms]
  have same: "set (pre @ post) \<union> insert b ls = set (pre @ b # post) \<union> ls" by auto
  have ok: "block_ok hs (take_block l b h) x = block_ok hs h x"
    "blocks_apart (take_block l b h) x y = blocks_apart h x y" for l x y
    by (simp_all add: block_ok_def blocks_apart_def)
  have "b \<notin> ls" using inv(8) by auto
  then show ?thesis
    unfolding heap_inv_def same ok
    using inv take_block_flist [OF inv(5,6)] by (auto simp: add.commute)
qed

lemma kfree_simps [simp]:
  "heap_ptr (kfree p h) = heap_ptr h" "heap_end (kfree p h) = heap_end h"
  "mem (kfree p h) = mem h" "bsize (hdr (kfree p h) x) = bsize (hdr h x)"
  "kfree 0 h = h"
  by (auto simp: kfree_def Let_def)

lemma kfree_inv:
  assumes "heap_inv hs h fs ls" "p - 16 \<in> ls" "p \<noteq> 0"
  shows "heap_inv hs (kfree p h) ((p - 16) # fs) (ls - {p - 16})"
proof -
  note inv = heap_invD [OF assms(1)]
  let ?b = "p - 16"
  have nz: "?b \<noteq> 0" using inv(1) inv(9) [of ?b] assms(2) by (auto simp: block_ok_def)
  have new: "?b \<notin> set fs" using inv(8) assms(2) by auto
  have same: "set (?b # fs) \<union> (ls - {?b}) = set fs \<union> ls" using assms(2) by auto
  have ok: "block_ok hs (kfree p h) x = block_ok hs h x"
    "blocks_apart (kfree p h) x y = blocks_apart h x y" for x y
    by (simp_all add: block_ok_def blocks_apart_def)
  have fl: "flist (hdr (kfree p h)) q fs = flist (hdr h) q fs" for q
    using new by (intro flist_cong) (auto simp: kfree_def Let_def)
  have list: "flist (hdr (kfree p h)) (free_list (kfree p h)) (?b # fs)"
    using fl inv(5) nz assms(3) by (simp add: kfree_def Let_def)
  have sum: "total_allocated (kfree p h) = (\<Sum>b \<in> ls - {?b}. bsize (hdr (kfree p h) b))"
    using inv(7,11) assms(2,3) by (simp add: sum_diff1 kfree_def Let_def)
  have count: "free_block_count (kfree p h) = of_nat (length (?b # fs))"
    using inv(12) assms(3) by (simp add: kfree_def Let_def)
  show ?thesis
    unfolding heap_inv_def same ok
    using inv list sum count new by auto
qed

subsection \<open>Carving a block off the untouched heap\<close>

lemma unat_pow2: "k < 64 \<Longrightarrow> unat (2 ^ k :: u64) = 2 ^ k"
  using unat_of_nat_64 [of "2 ^ k"] power_strict_increasing [of k 64 "2::nat"] by simp

lemma pow2_check: "k < 64 \<Longrightarrow> (2 ^ k :: u64) \<noteq> 0 \<and> (2 ^ k :: u64) AND (2 ^ k - 1) = 0"
  using and_mask_zero_iff [of "2 ^ k" k] by (simp add: unat_pow2 unat_eq_zero flip: unat_gt_0)

lemma align_pow_le: "k \<le> 12 \<Longrightarrow> (2::nat) ^ k \<le> 4096"
  using power_increasing [of k 12 "2::nat"] by simp

lemma align_pow_ge: "4 \<le> k \<Longrightarrow> (16::nat) dvd 2 ^ k \<and> (16::nat) \<le> 2 ^ k"
  using le_imp_power_dvd [of 4 k "2::nat"] power_increasing [of 4 k "2::nat"] by simp

lemma unat_add_le: "unat (x::u64) + unat y < 2 ^ 64 \<Longrightarrow> unat (x + y) = unat x + unat y"
  by (simp add: unat_word_ariths)

lemma unat_sub16: "16 \<le> unat (x::u64) \<Longrightarrow> unat (x - 16) = unat x - 16"
  by (simp add: unat_sub word_le_nat_alt)

lemma bump_addr_bounds:
  assumes hp: "0 < unat hp" "unat hp \<le> 2 ^ 62 + 4096" and k: "4 \<le> k" "k \<le> 12"
  shows "unat hp + 16 \<le> unat (bump_addr hp (2 ^ k))"
    "unat (bump_addr hp (2 ^ k)) < unat hp + 16 + 2 * 2 ^ k"
    "2 ^ k dvd unat (bump_addr hp (2 ^ k))"
proof -
  let ?a = "align_up hp (2 ^ k)"
  note k' = align_pow_le [OF k(2)] align_pow_ge [OF k(1)]
  have a: "unat hp \<le> unat ?a" "unat ?a < unat hp + 2 ^ k" "2 ^ k dvd unat ?a"
    using hp k' by (intro align_up_bounds; simp)+
  then have a16: "16 \<le> unat ?a"
    using hp k' by (meson dvd_imp_le le_trans less_le_trans)
  define b where "b = (if ?a - 16 < hp then hp else ?a - 16)"
  have b: "unat b = max (unat hp) (unat ?a - 16)"
    using unat_sub16 [OF a16] by (auto simp: b_def word_less_nat_alt max_def)
  have b16: "unat (b + 16) = unat b + 16"
    using unat_add_le [of b 16] b a hp k' by auto
  have r: "bump_addr hp (2 ^ k) = align_up (b + 16) (2 ^ k)"
    by (simp add: bump_addr_def Let_def b_def)
  have "unat (b + 16) + 2 ^ k \<le> 2 ^ 64"
    using b16 b a hp k' by auto
  from align_up_bounds [OF this, folded r] b16 b a
  show "unat hp + 16 \<le> unat (bump_addr hp (2 ^ k))"
    "unat (bump_addr hp (2 ^ k)) < unat hp + 16 + 2 * 2 ^ k"
    "2 ^ k dvd unat (bump_addr hp (2 ^ k))"
    by auto
qed

lemma block_total_bounds:
  assumes sz: "0 < unat sz" "unat sz \<le> 2 ^ 62" and k: "4 \<le> k" "k \<le> 12"
  shows "16 + unat sz \<le> unat (block_total sz (2 ^ k))" "32 \<le> unat (block_total sz (2 ^ k))"
    "unat (block_total sz (2 ^ k)) \<le> 16 + unat sz + 2 ^ k"
    "16 dvd unat (block_total sz (2 ^ k))"
proof -
  note k' = align_pow_le [OF k(2)] align_pow_ge [OF k(1)]
  let ?t = "align_up (16 + sz) (2 ^ k)"
  have s: "unat (16 + sz) = 16 + unat sz"
    using unat_add_le [of 16 sz] sz by simp
  have "unat (16 + sz) + 2 ^ k \<le> 2 ^ 64" using s sz k' by simp
  note t = align_up_bounds [OF this, unfolded s]
  have d: "16 dvd unat ?t" using t(3) k' dvd_trans by blast
  have "?t < 32 \<longleftrightarrow> unat ?t < 32" by (simp add: word_less_nat_alt)
  then have u: "unat (block_total sz (2 ^ k)) = max 32 (unat ?t)"
    by (auto simp: block_total_def Let_def)
  from u t sz k' d show "16 + unat sz \<le> unat (block_total sz (2 ^ k))"
    "32 \<le> unat (block_total sz (2 ^ k))"
    "unat (block_total sz (2 ^ k)) \<le> 16 + unat sz + 2 ^ k"
    "16 dvd unat (block_total sz (2 ^ k))"
    by (auto simp: max_def)
qed

lemma bump_inv:
  assumes inv: "heap_inv hs h fs ls" and sz: "0 < unat sz" "unat sz \<le> 2 ^ 62"
    and k: "4 \<le> k" "k \<le> 12" and r: "bump sz (block_total sz (2 ^ k)) (2 ^ k) h = (p, h')"
    and nz: "p \<noteq> 0"
  shows "heap_inv hs h' fs (insert (p - 16) ls)" "p - 16 \<notin> set fs \<union> ls" "2 ^ k dvd unat p"
    "bsize (hdr h' (p - 16)) = block_total sz (2 ^ k)" "mem h' = mem h"
    "\<And>b. b \<noteq> p - 16 \<Longrightarrow> hdr h' b = hdr h b" "heap_end h' = heap_end h"
proof -
  note I = heap_invD [OF inv] and k' = align_pow_le [OF k(2)] align_pow_ge [OF k(1)]
  let ?t = "block_total sz (2 ^ k)" and ?b = "p - 16"
  have p: "p = bump_addr (heap_ptr h) (2 ^ k)" and fit: "p + sz \<le> heap_end h"
    and h': "h' = h\<lparr>hdr := (hdr h)(?b := \<lparr>bsize = ?t, bnext = 0\<rparr>), heap_ptr := ?b + ?t,
                total_allocated := total_allocated h + ?t\<rparr>"
    using r nz by (auto simp: bump_def Let_def split: if_splits)
  have hp: "0 < unat (heap_ptr h)" "unat (heap_ptr h) \<le> 2 ^ 62 + 4096" using I by linarith+
  note P = bump_addr_bounds [OF hp k, folded p]
  note T = block_total_bounds [OF sz k]
  have b: "unat ?b = unat p - 16" using P by (intro unat_sub16) simp
  have top: "unat (p + sz) = unat p + unat sz"
    using P sz hp k' by (intro unat_add_le) simp
  then have fit': "unat p + unat sz \<le> unat (heap_end h)" using fit by (simp add: word_le_nat_alt)
  have e: "unat (?b + ?t) = unat p - 16 + unat ?t"
    using T b fit' I(2) k' by (subst unat_add_le) simp_all
  have top': "unat (heap_ptr h') = unat p - 16 + unat ?t" using h' e by simp
  have up: "unat (heap_ptr h) \<le> unat ?b" "unat ?b + unat ?t = unat (heap_ptr h')"
    using b P top' by auto
  have old: "x \<noteq> ?b" if "x \<in> set fs \<union> ls" for x
    using I(9) [OF that] up by (auto simp: block_ok_def)
  have hd: "hdr h' x = hdr h x" if "x \<noteq> ?b" for x using h' that by simp
  have new: "hdr h' ?b = \<lparr>bsize = ?t, bnext = 0\<rparr>" using h' by simp
  have mono: "unat (heap_ptr h) \<le> unat (heap_ptr h')" using up T by linarith
  have "16 dvd unat p" using k'(2) P(3) dvd_trans by blast
  then have "16 dvd unat ?b" using b by (simp add: dvd_diff_nat)
  then have okb: "block_ok hs h' ?b"
    using up I(3) T by (simp add: block_ok_def new)
  have ok: "block_ok hs h' x" if "x \<in> set fs \<union> ls" for x
    using I(9) [OF that] old [OF that] mono by (auto simp: block_ok_def hd)
  have apb: "blocks_apart h' ?b x" if "x \<in> set fs \<union> ls" for x
    using I(9) [OF that] old [OF that] up by (auto simp: block_ok_def blocks_apart_def apart_def hd new)
  have ap: "blocks_apart h' x y" if "x \<in> set fs \<union> ls" "y \<in> set fs \<union> ls" "x \<noteq> y" for x y
    using I(10) [OF that] old that by (auto simp: blocks_apart_def hd)
  have fl: "flist (hdr h') (free_list h') fs"
    using I(5) old h' by (subst flist_cong [where H' = "hdr h"]) auto
  have notin: "?b \<notin> set fs" "?b \<notin> ls" using old by blast+
  have sum: "total_allocated h' = (\<Sum>x \<in> insert ?b ls. bsize (hdr h' x))"
    using I(7,11) notin h' by (simp add: add.commute) (intro sum.cong, auto)
  have hp': "unat (heap_ptr h') \<le> unat (heap_end h') + 4096"
    using top' fit' T k' h' P by simp
  have ins: "set fs \<union> insert ?b ls = insert ?b (set fs \<union> ls)" by auto
  have same: "heap_end h' = heap_end h" "free_block_count h' = free_block_count h"
    by (simp_all add: h')
  have apb': "blocks_apart h' x ?b" if "x \<in> set fs \<union> ls" for x
    using apb [OF that] by (simp add: blocks_apart_def apart_sym)
  show "heap_inv hs h' fs (insert ?b ls)"
    unfolding heap_inv_def ins
    using I(1,2,3,6,7,8,12) mono hp' fl sum okb ok apb apb' ap notin same by auto
  show "?b \<notin> set fs \<union> ls" using notin by simp
  show "2 ^ k dvd unat p" by (rule P)
  show "bsize (hdr h' ?b) = ?t" "mem h' = mem h" "heap_end h' = heap_end h" by (simp_all add: h')
  show "\<And>b. b \<noteq> ?b \<Longrightarrow> hdr h' b = hdr h b" by (rule hd)
qed

subsection \<open>The contract of the allocator\<close>

text \<open>\<open>live_extent\<close>: the bytes a client may use behind a pointer it was given.\<close>

definition live_extent :: "kheap \<Rightarrow> addr \<Rightarrow> nat" where
  "live_extent h p = unat (bsize (hdr h (p - 16))) - 16"

lemma kmalloc_aligned_pow2:
  assumes "k \<le> 12" "sz \<noteq> 0"
  defines "j \<equiv> max 4 k"
  shows "kmalloc_aligned sz (2 ^ k) h = do {
    fit \<leftarrow> find_fit (hdr h) (block_total sz (2 ^ j)) (2 ^ j) Head (free_list h);
    Some (case fit of Some (prev, blk) \<Rightarrow> (blk + 16, take_block prev blk h)
          | None \<Rightarrow> bump sz (block_total sz (2 ^ j)) (2 ^ j) h) }"
proof -
  have c: "(2 ^ k :: u64) \<noteq> 0 \<and> (2 ^ k :: u64) AND (2 ^ k - 1) = 0"
    using assms by (intro pow2_check) simp
  have "(2 ^ k :: u64) < 16 \<longleftrightarrow> (2::nat) ^ k < 2 ^ 4"
    using assms unat_pow2 [of k] by (simp add: word_less_nat_alt)
  also have "\<dots> \<longleftrightarrow> k < 4" by (rule power_strict_increasing_iff) simp
  finally have "(if (2 ^ k :: u64) < 16 then 16 else 2 ^ k) = (2 ^ j :: u64)"
    by (auto simp: j_def max_def)
  with c assms(2) show ?thesis
    by (simp add: kmalloc_aligned_def Let_def word_gt_0)
qed

theorem kmalloc_aligned_spec:
  assumes inv: "heap_inv hs h fs ls" and sz: "0 < unat sz" "unat sz \<le> 2 ^ 62" and k: "k \<le> 12"
  obtains (fail) "kmalloc_aligned sz (2 ^ k) h = Some (0, h)"
  | (ok) p h' fs' where "kmalloc_aligned sz (2 ^ k) h = Some (p, h')" "p \<noteq> 0"
      "heap_inv hs h' fs' (insert (p - 16) ls)" "p - 16 \<notin> ls" "2 ^ k dvd unat p"
      "unat sz \<le> live_extent h' p" "mem h' = mem h" "heap_end h' = heap_end h"
      "\<forall>b \<in> ls. bsize (hdr h' b) = bsize (hdr h b)"
proof -
  define j where "j = max 4 k"
  have j: "4 \<le> j" "j \<le> 12" "k \<le> j" using k by (auto simp: j_def)
  have kj: "2 ^ k dvd (2::nat) ^ j" using j by (intro le_imp_power_dvd)
  note I = heap_invD [OF inv] and T = block_total_bounds [OF sz j(1,2)]
  have eq: "kmalloc_aligned sz (2 ^ k) h = do {
    fit \<leftarrow> find_fit (hdr h) (block_total sz (2 ^ j)) (2 ^ j) Head (free_list h);
    Some (case fit of Some (prev, blk) \<Rightarrow> (blk + 16, take_block prev blk h)
          | None \<Rightarrow> bump sz (block_total sz (2 ^ j)) (2 ^ j) h) }"
    unfolding j_def using k sz by (intro kmalloc_aligned_pow2) auto
  show thesis
  proof (rule find_fit_cases [OF I(5), of "block_total sz (2 ^ j)" "2 ^ j" Head])
    assume none: "find_fit (hdr h) (block_total sz (2 ^ j)) (2 ^ j) Head (free_list h) = Some None"
    obtain p h' where r: "bump sz (block_total sz (2 ^ j)) (2 ^ j) h = (p, h')" by fastforce
    show thesis
    proof (cases "p = 0")
      case True
      moreover have "bump_addr (heap_ptr h) (2 ^ j) \<noteq> 0"
        using bump_addr_bounds(1) [OF _ _ j(1,2), of "heap_ptr h"] I by force
      ultimately have "h' = h" using r by (auto simp: bump_def Let_def split: if_splits)
      then show thesis using True fail eq none r by simp
    next
      case False
      note B = bump_inv [OF inv sz j(1,2) r False]
      have ext: "unat sz \<le> live_extent h' p" using T B(4) by (simp add: live_extent_def)
      have keep: "\<forall>b \<in> ls. bsize (hdr h' b) = bsize (hdr h b)"
        using B(2,6) by (metis UnI2)
      show thesis
        by (rule ok [OF _ False B(1) _ _ ext B(5,7) keep])
           (use eq none r B(2,3) kj dvd_trans in \<open>auto\<close>)
    qed
  next
    fix pre b post
    assume s: "fs = pre @ b # post" and f: "fits (hdr h) (block_total sz (2 ^ j)) (2 ^ j) b"
      and r: "find_fit (hdr h) (block_total sz (2 ^ j)) (2 ^ j) Head (free_list h) =
        Some (Some (link_after Head pre, b))"
    let ?h = "take_block (link_after Head pre) b h"
    have okb: "block_ok hs h b" using I(9) s by auto
    have up: "unat (b + 16) = unat b + 16"
      using okb I(2,4) by (intro unat_add_le [of b 16, simplified]) (simp add: block_ok_def)
    have ge: "unat (block_total sz (2 ^ j)) \<le> unat (bsize (hdr h b))"
      using f by (simp add: fits_def word_le_nat_alt)
    have al: "2 ^ j dvd unat (b + 16)"
    proof (cases "(2 ^ j :: u64) = 16")
      case True
      then have "unat (2 ^ j :: u64) = 16" by simp
      then have "(2::nat) ^ j = 16" using unat_pow2 [of j] j by simp
      then show ?thesis using okb up by (simp add: block_ok_def)
    next
      case False
      then show ?thesis using f by (simp add: fits_def and_mask_zero_iff)
    qed
    have i: "heap_inv hs ?h (pre @ post) (insert (b + 16 - 16) ls)"
      using take_block_inv inv s by simp
    show thesis
      by (rule ok [OF _ _ i])
         (use eq r up al kj dvd_trans I(8) s T ge in
           \<open>auto simp: live_extent_def unat_eq_zero simp flip: unat_gt_0\<close>)
  qed
qed

subsection \<open>The heap as an interface\<close>

text \<open>
  What the rest of the kernel relies on, over an abstract heap \<open>'h\<close>: \<open>hinv h L\<close> says that
  \<open>L\<close> is the set of pointers handed out and not yet returned, and \<open>extent h p\<close> is how many
  bytes behind \<open>p\<close> belong to its holder.
\<close>

locale heap_provider =
  fixes alloc :: "u64 \<Rightarrow> 'h \<Rightarrow> (addr \<times> 'h) option"
    and release :: "addr \<Rightarrow> 'h \<Rightarrow> 'h"
    and hinv :: "'h \<Rightarrow> addr set \<Rightarrow> bool"
    and extent :: "'h \<Rightarrow> addr \<Rightarrow> nat"
    and bytes_of :: "'h \<Rightarrow> mem"
    and put :: "mem \<Rightarrow> 'h \<Rightarrow> 'h"
  assumes alloc_cases: "hinv h L \<Longrightarrow> 0 < unat sz \<Longrightarrow> unat sz \<le> 2 ^ 62 \<Longrightarrow>
      alloc sz h = Some (0, h) \<or>
      (\<exists>p h'. alloc sz h = Some (p, h') \<and> p \<noteq> 0 \<and> p \<notin> L \<and> hinv h' (insert p L) \<and>
        unat sz \<le> extent h' p \<and> bytes_of h' = bytes_of h \<and> (\<forall>q \<in> L. extent h' q = extent h q))"
    and release_inv: "hinv h L \<Longrightarrow> p \<in> L \<Longrightarrow> hinv (release p h) (L - {p})"
    and release_extent: "extent (release p h) q = extent h q"
    and release_bytes: "bytes_of (release p h) = bytes_of h"
    and live_apart: "hinv h L \<Longrightarrow> p \<in> L \<Longrightarrow> q \<in> L \<Longrightarrow> p \<noteq> q \<Longrightarrow>
      apart p (extent h p) q (extent h q)"
    and live_fits: "hinv h L \<Longrightarrow> p \<in> L \<Longrightarrow> p \<noteq> 0 \<and> unat p + extent h p \<le> 2 ^ 64"
    and put_inv: "hinv (put m h) L = hinv h L"
    and put_extent: "extent (put m h) = extent h"
    and bytes_put: "bytes_of (put m h) = m"
begin

text \<open>A store that stays inside one live buffer does not reach any other live buffer.\<close>

lemma store_frame:
  assumes "hinv h L" "p \<in> L" "q \<in> L" "p \<noteq> q" "off + length bs \<le> extent h p"
  shows "mread (mwrite (bytes_of h) (p + of_nat off) bs) q (extent h q) = mread (bytes_of h) q (extent h q)"
proof (cases "bs = []")
  case False
  then have pos: "0 < length bs" by simp
  have fp: "unat p + extent h p \<le> 2 ^ 64" and fq: "unat q + extent h q \<le> 2 ^ 64"
    using live_fits assms by blast+
  have e: "unat (p + of_nat off) = unat p + off"
    using fp assms(5) pos by (intro unat_add_of_nat) linarith
  show ?thesis
  proof (rule mread_mwrite_apart)
    show "apart (p + of_nat off) (length bs) q (extent h q)"
      using live_apart [OF assms(1-4)] assms(5) e by (auto simp: apart_def)
    show "unat (p + of_nat off) + length bs \<le> 2 ^ 64" using e fp assms(5) by linarith
  qed (rule fq)
qed simp

text \<open>A block fill inside one live buffer, likewise.\<close>

lemma fill_frame:
  assumes "hinv h L" "p \<in> L" "q \<in> L" "p \<noteq> q" "n \<le> extent h p"
  shows "mread (mfill (bytes_of h) p n v) q (extent h q) = mread (bytes_of h) q (extent h q)"
proof (rule mread_mfill_apart)
  show "apart p n q (extent h q)"
    using live_apart [OF assms(1-4)] assms(5) by (auto simp: apart_def)
  have "unat p + extent h p \<le> 2 ^ 64" using live_fits assms by blast
  then show "unat p + n \<le> 2 ^ 64" using assms(5) by linarith
  show "unat q + extent h q \<le> 2 ^ 64" using live_fits assms by blast
qed

text \<open>Allocation never disturbs what live buffers hold.\<close>

lemma alloc_keeps:
  assumes "hinv h L" "0 < unat sz" "unat sz \<le> 2 ^ 62" "alloc sz h = Some (p, h')" "q \<in> L"
  shows "extent h' q = extent h q" "mread (bytes_of h') q n = mread (bytes_of h) q n"
  using alloc_cases [OF assms(1-3)] assms(4,5) by auto

lemma alloc_fresh:
  assumes "hinv h L" "0 < unat sz" "unat sz \<le> 2 ^ 62" "alloc sz h = Some (p, h')" "p \<noteq> 0"
  shows "p \<notin> L" "hinv h' (insert p L)" "unat sz \<le> extent h' p"
  using alloc_cases [OF assms(1-3)] assms(4,5) by auto

lemma alloc_null:
  assumes "hinv h L" "0 < unat sz" "unat sz \<le> 2 ^ 62" "alloc sz h = Some (0, h')"
  shows "h' = h"
  using alloc_cases [OF assms(1-3)] assms(4) by auto

lemma alloc_returns:
  assumes "hinv h L" "0 < unat sz" "unat sz \<le> 2 ^ 62"
  obtains p h' where "alloc sz h = Some (p, h')"
  using alloc_cases [OF assms] by auto

end

definition heap_live :: "kheap \<Rightarrow> addr set \<Rightarrow> bool" where
  "heap_live h L \<longleftrightarrow> (\<exists>hs fs. heap_inv hs h fs ((\<lambda>p. p - 16) ` L))"

lemma sub16_inj: "inj_on (\<lambda>p::u64. p - 16) A"
  by (simp add: inj_on_def)

lemma sub16_mem [simp]: "p - 16 \<in> (\<lambda>p::u64. p - 16) ` L \<longleftrightarrow> p \<in> L"
  by auto

lemma sub16_remove: "(\<lambda>p::u64. p - 16) ` (L - {p}) = (\<lambda>p. p - 16) ` L - {p - 16}"
  by auto

lemma live_block:
  assumes "heap_inv hs h fs ls" "p - 16 \<in> ls"
  shows "p \<noteq> 0" "unat (p - 16) = unat p - 16" "16 \<le> unat p"
    "unat p + live_extent h p = unat (p - 16) + unat (bsize (hdr h (p - 16)))"
    "unat p + live_extent h p \<le> 2 ^ 64"
proof -
  note I = heap_invD [OF assms(1)]
  have ok: "block_ok hs h (p - 16)" using I(9) assms(2) by blast
  then have le: "unat (p - 16) + unat (bsize (hdr h (p - 16))) \<le> 2 ^ 62 + 4096"
    using I(2,4) by (simp add: block_ok_def)
  have "unat (p - 16 + 16) = unat (p - 16) + unat (16 :: u64)"
    using le ok by (intro unat_add_le) (simp add: block_ok_def)
  then have p: "unat p = unat (p - 16) + 16" by simp
  then show "unat (p - 16) = unat p - 16" "16 \<le> unat p" by simp_all
  show "p \<noteq> 0" using p by (metis add_is_0 unat_0 zero_neq_numeral)
  show e: "unat p + live_extent h p = unat (p - 16) + unat (bsize (hdr h (p - 16)))"
    using p ok by (simp add: live_extent_def block_ok_def)
  show "unat p + live_extent h p \<le> 2 ^ 64" using e le by simp
qed

interpretation kh: heap_provider kmalloc kfree heap_live live_extent mem "\<lambda>m h. h\<lparr>mem := m\<rparr>"
proof (unfold_locales, goal_cases)
  case (1 h L sz)
  then obtain hs fs where inv: "heap_inv hs h fs ((\<lambda>p. p - 16) ` L)" by (auto simp: heap_live_def)
  have k: "kmalloc sz h = kmalloc_aligned sz (2 ^ 4) h" by (simp add: kmalloc_def)
  show ?case
  proof (rule kmalloc_aligned_spec [OF inv 1(2,3), of 4])
    fix p h' fs'
    assume *: "kmalloc_aligned sz (2 ^ 4) h = Some (p, h')" "p \<noteq> 0"
      "heap_inv hs h' fs' (insert (p - 16) ((\<lambda>p. p - 16) ` L))" "p - 16 \<notin> (\<lambda>p. p - 16) ` L"
      "unat sz \<le> live_extent h' p" "mem h' = mem h"
      "\<forall>b \<in> (\<lambda>p. p - 16) ` L. bsize (hdr h' b) = bsize (hdr h b)"
    then have "heap_live h' (insert p L)" by (auto simp: heap_live_def)
    with * k show ?thesis by (auto simp: live_extent_def)
  qed (use k in \<open>simp_all\<close>)
next
  case (2 h L p)
  then obtain hs fs where inv: "heap_inv hs h fs ((\<lambda>p. p - 16) ` L)" by (auto simp: heap_live_def)
  have "heap_inv hs (kfree p h) ((p - 16) # fs) ((\<lambda>p. p - 16) ` (L - {p}))"
    unfolding sub16_remove using inv 2(2) live_block(1) [OF inv] by (intro kfree_inv) auto
  then show ?case unfolding heap_live_def by blast
next
  case (5 h L p q)
  then obtain hs fs where inv: "heap_inv hs h fs ((\<lambda>p. p - 16) ` L)" by (auto simp: heap_live_def)
  have "blocks_apart h (p - 16) (q - 16)"
    using 5 by (intro heap_invD(10) [OF inv]) auto
  then show ?case
    using live_block(2,3,4) [OF inv, of p] live_block(2,3,4) [OF inv, of q] 5
    by (auto simp: blocks_apart_def apart_def)
next
  case (6 h L p)
  then show ?case using live_block(1,5) by (fastforce simp: heap_live_def)
qed (auto simp: live_extent_def heap_live_def heap_inv_def block_ok_def blocks_apart_def)

subsection \<open>Every run of the allocator\<close>

text \<open>
  The states reachable from \<open>alloc_init\<close> by allocations (requests up to \<open>2 ^ 62\<close> bytes,
  alignments up to a page), by freeing pointers that are live, and by arbitrary stores to the
  byte memory. \<open>L\<close> is the set of live pointers.
\<close>

inductive heap_run :: "addr \<Rightarrow> addr \<Rightarrow> kheap \<Rightarrow> addr set \<Rightarrow> bool" for hs he where
  start: "heap_run hs he (alloc_init hs he h) {}"
| malloc: "heap_run hs he h L \<Longrightarrow> 0 < unat sz \<Longrightarrow> unat sz \<le> 2 ^ 62 \<Longrightarrow> k \<le> 12 \<Longrightarrow>
    kmalloc_aligned sz (2 ^ k) h = Some (p, h') \<Longrightarrow>
    heap_run hs he h' (if p = 0 then L else insert p L)"
| free: "heap_run hs he h L \<Longrightarrow> p \<in> L \<Longrightarrow> heap_run hs he (kfree p h) (L - {p})"
| store: "heap_run hs he h L \<Longrightarrow> heap_run hs he (h\<lparr>mem := m\<rparr>) L"

lemma heap_run_inv:
  assumes "heap_run hs he h L" "0 < unat hs" "unat hs \<le> unat he" "unat he \<le> 2 ^ 62"
  shows "\<exists>fs. heap_inv hs h fs ((\<lambda>p. p - 16) ` L)"
  using assms(1)
proof (induction rule: heap_run.induct)
  case (start h)
  show ?case using alloc_init_inv [OF assms(2-4)] by fastforce
next
  case (malloc h L sz k p h')
  then obtain fs where inv: "heap_inv hs h fs ((\<lambda>p. p - 16) ` L)" by blast
  show ?case
    by (rule kmalloc_aligned_spec [OF inv malloc.hyps(2-4)]) (use malloc.hyps(5) inv in \<open>auto\<close>)
next
  case (free h L p)
  then obtain fs where inv: "heap_inv hs h fs ((\<lambda>p. p - 16) ` L)" by blast
  have "heap_inv hs (kfree p h) ((p - 16) # fs) ((\<lambda>p. p - 16) ` (L - {p}))"
    unfolding sub16_remove using inv free.hyps live_block(1) [OF inv] by (intro kfree_inv) auto
  then show ?case by blast
next
  case (store h L m)
  then obtain fs where "heap_inv hs h fs ((\<lambda>p. p - 16) ` L)" by blast
  then have "heap_inv hs (h\<lparr>mem := m\<rparr>) fs ((\<lambda>p. p - 16) ` L)"
    by (simp add: heap_inv_def block_ok_def blocks_apart_def)
  then show ?case by blast
qed

lemma kmalloc_aligned_end:
  assumes "kmalloc_aligned sz a h = Some (p, h')" shows "heap_end h' = heap_end h"
proof -
  have "heap_end (take_block l b h) = heap_end h" for l b by (cases l) (simp_all add: take_block_def set_link_def Let_def)
  moreover have "heap_end (snd (bump sz t b h)) = heap_end h" for t b by (simp add: bump_def Let_def)
  ultimately show ?thesis using assms
    by (auto simp: kmalloc_aligned_def Let_def bind_eq_Some_conv split: if_splits option.splits) (metis snd_conv)+
qed

lemma heap_run_end: "heap_run hs he h L \<Longrightarrow> heap_end h = he"
  by (induction rule: heap_run.induct) (simp_all add: alloc_init_def kfree_def Let_def kmalloc_aligned_end)


text \<open>A concrete run: two blocks of 100 bytes from a heap at \<open>0x1000\<close>.\<close>

definition heap0 :: kheap where
  "heap0 = \<lparr>heap_ptr = 0, heap_end = 0, free_list = 0, total_allocated = 0, free_block_count = 0,
     hdr = (\<lambda>_. \<lparr>bsize = 0, bnext = 0\<rparr>), mem = (\<lambda>_. 0)\<rparr>"

lemmas heap_eval = kmalloc_aligned_def kmalloc_def find_fit.simps bump_def bump_addr_def
  block_total_def align_up_def alloc_init_def take_block_def set_link_def fits_def kfree_def Let_def

lemma two_blocks_run:
  "\<exists>h. heap_run 0x1000 0x100000 h {0x1010, 0x1090} \<and> heap_ptr h = 0x1100"
proof -
  define h0 where "h0 = alloc_init 0x1000 0x100000 heap0"
  obtain h1 where h1: "kmalloc_aligned 100 (2 ^ 4) h0 = Some (0x1010, h1)" "heap_ptr h1 = 0x1080"
    "heap_end h1 = 0x100000" "free_list h1 = 0"
    by (simp add: heap_eval h0_def)
  obtain h2 where h2: "kmalloc_aligned 100 (2 ^ 4) h1 = Some (0x1090, h2)" "heap_ptr h2 = 0x1100"
    using h1(2-4) by (simp add: heap_eval)
  have "heap_run 0x1000 0x100000 h0 {}" unfolding h0_def by (rule heap_run.start)
  from heap_run.malloc [OF this _ _ _ h1(1)]
  have "heap_run 0x1000 0x100000 h1 {0x1010}" by simp
  from heap_run.malloc [OF this _ _ _ h2(1)]
  have "heap_run 0x1000 0x100000 h2 {0x1010, 0x1090}" by (simp add: insert_commute)
  with h2 show ?thesis by blast
qed




lemma sum_free_flist:
  "flist H p fs \<Longrightarrow> sum_free H p acc = Some (acc + (\<Sum>b \<leftarrow> fs. bsize (H b)))"
proof (induction fs arbitrary: p acc)
  case Nil
  then show ?case by (subst sum_free.simps) simp
next
  case (Cons b fs)
  then show ?case by (subst sum_free.simps) (simp add: add.assoc)
qed

text \<open>
  The statistics the shell prints are exact. In a well-formed heap \<open>alloc_used\<close> is the sum
  of the live block sizes, \<open>alloc_free_blocks\<close> the length of the free list, and
  \<open>alloc_free\<close> returns the untouched heap plus the sizes of the free blocks.
\<close>

theorem alloc_statistics:
  assumes "heap_inv hs h fs ls"
  shows "alloc_used h = (\<Sum>b \<in> ls. bsize (hdr h b)) \<and>
    alloc_free_blocks h = of_nat (length fs) \<and>
    alloc_free h = Some (heap_end h - heap_ptr h + (\<Sum>b \<leftarrow> fs. bsize (hdr h b)))"
  using heap_invD(5,11,12) [OF assms]
  by (simp add: alloc_used_def alloc_free_blocks_def alloc_free_def sum_free_flist)

theorem alloc_statistics_witness:
  "alloc_used (alloc_init 0x1000 0x100000 heap0) = 0 \<and>
   alloc_free (alloc_init 0x1000 0x100000 heap0) = Some (0x100000 - 0x1000)"
proof -
  have inv: "heap_inv 0x1000 (alloc_init 0x1000 0x100000 heap0) [] {}"
    by (rule alloc_init_inv) simp_all
  show ?thesis
    using alloc_statistics [OF inv] by (simp add: alloc_init_def)
qed

text \<open>
  A freed block is the first candidate for reuse. Freeing a live pointer and asking for a
  size its block can hold gives the same pointer back, with the free list and both counters
  as they were before the free.
\<close>

theorem kfree_kmalloc_reuse:
  assumes "heap_inv hs h fs ls" "p - 16 \<in> ls" "sz \<noteq> 0"
    and "block_total sz 16 \<le> bsize (hdr h (p - 16))"
  shows "\<exists>h'. kmalloc sz (kfree p h) = Some (p, h') \<and> free_list h' = free_list h \<and>
    total_allocated h' = total_allocated h \<and> free_block_count h' = free_block_count h"
proof -
  let ?b = "p - 16" and ?h = "kfree p h"
  have nz: "p \<noteq> 0" using live_block(1) [OF assms(1,2)] .
  have fl: "flist (hdr ?h) (free_list ?h) ([] @ ?b # fs)"
    using heap_invD(5) [OF kfree_inv [OF assms(1,2) nz]] by simp
  have fit: "fits (hdr ?h) (block_total sz 16) 16 ?b"
    using assms(4) by (simp add: fits_def)
  have "find_fit (hdr ?h) (block_total sz 16) 16 Head (free_list ?h) = Some (Some (Head, ?b))"
    using find_fit_first [OF fl _ fit, of Head] by (simp add: link_after_def)
  then have "kmalloc sz ?h = Some (p, take_block Head ?b ?h)"
    using assms(3) kmalloc_aligned_pow2 [of 4 sz ?h] by (simp add: kmalloc_def)
  moreover have "free_list (take_block Head ?b ?h) = free_list h"
    "total_allocated (take_block Head ?b ?h) = total_allocated h"
    "free_block_count (take_block Head ?b ?h) = free_block_count h"
    using nz by (simp_all add: take_block_def set_link_def kfree_def Let_def)
  ultimately show ?thesis by blast
qed

theorem kfree_kmalloc_reuse_witness:
  "\<exists>p h h'. kmalloc 100 (alloc_init 0x1000 0x100000 heap0) = Some (p, h) \<and>
     kmalloc 50 (kfree p h) = Some (p, h') \<and> free_list h' = free_list h"
proof -
  let ?h0 = "alloc_init 0x1000 0x100000 heap0"
  obtain h where k: "kmalloc_aligned 100 (2 ^ 4) ?h0 = Some (0x1010, h)" "bsize (hdr h 0x1000) = 128"
    by (simp add: heap_eval)
  have inv: "heap_inv 0x1000 ?h0 [] {}" by (rule alloc_init_inv) simp_all
  obtain fs where inv': "heap_inv 0x1000 h fs {0x1000}"
    using kmalloc_aligned_spec [OF inv, of 100 4] k by (auto simp: insert_absorb)
  have t: "block_total 50 16 \<le> bsize (hdr h (0x1010 - 16))"
    using k by (simp add: block_total_def align_up_def)
  have "kmalloc 100 ?h0 = Some (0x1010, h)" using k by (simp add: kmalloc_def)
  then show ?thesis
    using kfree_kmalloc_reuse [OF inv' _ _ t] by auto
qed

subsection \<open>Misuse and its consequences\<close>

text \<open>
  Freeing a pointer twice links the block to itself. A later request that the block cannot
  satisfy then never returns.
\<close>

lemma find_fit_self_loop:
  assumes "bnext (H b) = b" "b \<noteq> 0" "\<not> fits H tot align b"
  shows "find_fit H tot align l b = None"
proof (rule ccontr)
  assume "find_fit H tot align l b \<noteq> None"
  then obtain r where r: "find_fit H tot align l b = Some r" by blast
  have "\<not> (H = H \<and> bnext (H b) = b \<and> b \<noteq> 0 \<and> \<not> fits H tot align b)"
    by (rule find_fit.raw_induct [where P = "\<lambda>H tot align l b r.
          \<not> (H = H \<and> bnext (H b) = b \<and> b \<noteq> 0 \<and> \<not> fits H tot align b)", OF _ r])
       (metis option.distinct(1))
  with assms show False by simp
qed

text \<open>
  C31: a double free hangs the allocator. After \<open>kfree p; kfree p\<close> on a live pointer, every
  request larger than the block never returns.
\<close>

theorem double_free_hangs:
  assumes "p \<noteq> 16" "p \<noteq> 0" "sz \<noteq> 0" "bsize (hdr h (p - 16)) < block_total sz 16"
  shows "kmalloc sz (kfree p (kfree p h)) = None"
proof -
  let ?h = "kfree p (kfree p h)" and ?b = "p - 16"
  have "bnext (hdr ?h ?b) = ?b" "free_list ?h = ?b" "?b \<noteq> 0"
    using assms by (simp_all add: kfree_def Let_def)
  moreover have "\<not> fits (hdr ?h) (block_total sz 16) 16 ?b"
    using assms(4) by (simp add: fits_def not_le)
  ultimately have "find_fit (hdr ?h) (block_total sz 16) 16 Head (free_list ?h) = None"
    by (simp add: find_fit_self_loop)
  then show ?thesis
    using assms(3) kmalloc_aligned_pow2 [of 4 sz ?h] by (simp add: kmalloc_def)
qed

theorem double_free_hangs_witness:
  "\<exists>h. kmalloc 16 (alloc_init 0x1000 0x100000 heap0) = Some (0x1010, h) \<and>
     kmalloc 100 (kfree 0x1010 (kfree 0x1010 h)) = None"
proof -
  obtain h where h: "kmalloc 16 (alloc_init 0x1000 0x100000 heap0) = Some (0x1010, h)"
    "bsize (hdr h 0x1000) = 32"
    by (simp add: heap_eval)
  then have "bsize (hdr h (0x1010 - 16)) < block_total 100 16"
    by (simp add: block_total_def align_up_def)
  from double_free_hangs [OF _ _ _ this] h show ?thesis by auto
qed

text \<open>
  The size computation \<open>HEADER_SIZE + size\<close> and the end check \<open>addr + size > heap_end\<close> both
  wrap around: a request for \<open>2 ^ 64 - 1\<close> bytes succeeds with a 32-byte block.
\<close>

lemma kmalloc_huge_succeeds:
  "\<exists>h. kmalloc 0xFFFFFFFFFFFFFFFF (alloc_init 0x1000 0x100000 heap0) = Some (0x1010, h) \<and>
     live_extent h 0x1010 = 16"
  by (simp add: heap_eval live_extent_def)

text \<open>
  The end check compares the payload, not the whole block, with the end of the heap. A small
  request with page alignment at the end of the heap records a block that runs past the end;
  freeing it and asking for 4000 bytes then hands out memory beyond \<open>heap_end\<close>.
\<close>

lemma kmalloc_beyond_heap_end:
  "\<exists>h p. kmalloc_aligned 1 4096 (alloc_init 0x1000 0x2010 heap0) = Some (p, h) \<and>
     (\<exists>h'. kmalloc 4000 (kfree p h) = Some (p, h') \<and> p + 4000 > heap_end h')"
  by (simp add: heap_eval)

end
