(* ===== verification/Ring.thy ===== *)
theory Ring
  imports Prelude
begin

text \<open>
  Circular buffers. HudOS has four of them with head and tail indices (the wait queue of a
  semaphore, the two wait queues of a message queue, the UART receive buffer) and one with an
  explicit count (the messages of a message queue). The locale \<open>bounded_fifo\<close> states what a
  client may rely on, over the list of queued items, and derives the first-in first-out law
  once; each component interprets it on its own operations with the window lemmas below.
\<close>

subsection \<open>Windows of a circular buffer\<close>

text \<open>The \<open>c\<close> elements that start at index \<open>t\<close> and wrap around at \<open>N\<close>.\<close>

definition window :: "nat \<Rightarrow> 'a list \<Rightarrow> nat \<Rightarrow> nat \<Rightarrow> 'a list" where
  "window N buf t c = map (\<lambda>i. buf ! ((t + i) mod N)) [0..<c]"

lemma length_window [simp]: "length (window N buf t c) = c"
  by (simp add: window_def)

lemma window_0 [simp]: "window N buf t 0 = []"
  by (simp add: window_def)

lemma mod_add_small: "t < N \<Longrightarrow> i < N \<Longrightarrow> (t + i) mod N = (if t + i < N then t + i else t + i - N)"
  for t i N :: nat
  by (simp add: mod_if)

lemma mod_shift_inj:
  fixes i c t N :: nat
  assumes "(t + i) mod N = (t + c) mod N" "i < N" "c < N"
  shows "i = c"
proof -
  have "t mod N < N" using assms by simp
  moreover have "(t mod N + i) mod N = (t mod N + c) mod N"
    using assms(1) by (simp add: mod_add_left_eq)
  ultimately show ?thesis using assms(2,3) by (auto simp: mod_add_small split: if_splits)
qed

lemma window_push:
  assumes "c < N" "length buf = N"
  shows "window N (buf[(t + c) mod N := x]) t (Suc c) = window N buf t c @ [x]"
proof (rule nth_equalityI)
  fix i assume "i < length (window N (buf[(t + c) mod N := x]) t (Suc c))"
  then have i: "i \<le> c" by simp
  have N: "0 < N" using assms by simp
  show "window N (buf[(t + c) mod N := x]) t (Suc c) ! i = (window N buf t c @ [x]) ! i"
  proof (cases "i = c")
    case True
    then show ?thesis using assms N by (simp add: window_def nth_append)
  next
    case False
    then have "(t + i) mod N \<noteq> (t + c) mod N"
      using mod_shift_inj [of t i N c] i assms by auto
    then show ?thesis using False i N by (simp add: window_def nth_append)
  qed
qed simp

lemma window_pop:
  assumes "0 < c"
  shows "window N buf t c = buf ! (t mod N) # window N buf ((t + 1) mod N) (c - 1)"
proof -
  obtain d where c: "c = Suc d" using assms by (cases c) auto
  have "((t + 1) mod N + i) mod N = (t + Suc i) mod N" for i
    by (simp add: mod_add_left_eq)
  then show ?thesis
    by (simp add: window_def c upt_conv_Cons map_Suc_upt [symmetric] comp_def del: upt_Suc)
qed

subsection \<open>Head and tail indices\<close>

definition ring_count :: "nat \<Rightarrow> nat \<Rightarrow> nat \<Rightarrow> nat" where
  "ring_count N head tail = (head + N - tail) mod N"

definition ring_items :: "nat \<Rightarrow> 'a list \<Rightarrow> nat \<Rightarrow> nat \<Rightarrow> 'a list" where
  "ring_items N buf head tail = window N buf tail (ring_count N head tail)"

definition ring_ok :: "nat \<Rightarrow> 'a list \<Rightarrow> nat \<Rightarrow> nat \<Rightarrow> bool" where
  "ring_ok N buf head tail \<longleftrightarrow> length buf = N \<and> head < N \<and> tail < N"

lemma ring_count_cases:
  assumes "head < N" "tail < N"
  shows "ring_count N head tail = (if tail \<le> head then head - tail else head + N - tail)"
proof (cases "tail \<le> head")
  case True
  then have "head + N - tail = (head - tail) + N" using assms by simp
  then have "(head + N - tail) mod N = (head - tail) mod N" by (simp only: mod_add_self2)
  then show ?thesis using True assms by (simp add: ring_count_def)
next
  case False
  then show ?thesis using assms by (simp add: ring_count_def)
qed

lemma ring_head: "head < N \<Longrightarrow> tail < N \<Longrightarrow> (tail + ring_count N head tail) mod N = head"
  by (auto simp: ring_count_cases)

lemma ring_count_less: "head < N \<Longrightarrow> tail < N \<Longrightarrow> ring_count N head tail < N"
  by (auto simp: ring_count_cases)

lemma ring_next: "i < N \<Longrightarrow> Suc i mod N = (if Suc i = N then 0 else Suc i)"
  by auto

lemma ring_full_iff:
  assumes "head < N" "tail < N"
  shows "(head + 1) mod N = tail \<longleftrightarrow> ring_count N head tail = N - 1"
  using assms by (auto simp: ring_count_cases ring_next)

lemma ring_empty_iff: "head < N \<Longrightarrow> tail < N \<Longrightarrow> ring_count N head tail = 0 \<longleftrightarrow> head = tail"
  by (auto simp: ring_count_cases)

lemma ring_count_push:
  assumes "head < N" "tail < N" "(head + 1) mod N \<noteq> tail"
  shows "ring_count N ((head + 1) mod N) tail = Suc (ring_count N head tail)"
  using assms by (auto simp: ring_count_cases ring_next)

lemma ring_count_pop:
  assumes "head < N" "tail < N" "head \<noteq> tail"
  shows "ring_count N head ((tail + 1) mod N) = ring_count N head tail - 1"
  using assms by (auto simp: ring_count_cases ring_next)

lemma ring_push_items:
  assumes "ring_ok N buf head tail" "(head + 1) mod N \<noteq> tail"
  shows "ring_items N (buf[head := x]) ((head + 1) mod N) tail = ring_items N buf head tail @ [x]"
    and "ring_ok N (buf[head := x]) ((head + 1) mod N) tail"
proof -
  have b: "length buf = N" "head < N" "tail < N" using assms by (auto simp: ring_ok_def)
  have "ring_count N head tail < N" using b by (simp add: ring_count_less)
  from window_push [OF this b(1), of tail x] ring_head [OF b(2,3)] ring_count_push [OF b(2,3) assms(2)]
  show "ring_items N (buf[head := x]) ((head + 1) mod N) tail = ring_items N buf head tail @ [x]"
    by (simp add: ring_items_def)
  show "ring_ok N (buf[head := x]) ((head + 1) mod N) tail" using b by (simp add: ring_ok_def)
qed

lemma ring_pop_items:
  assumes "ring_ok N buf head tail" "tail \<noteq> head"
  shows "ring_items N buf head tail = buf ! tail # ring_items N buf head ((tail + 1) mod N)"
    and "ring_ok N buf head ((tail + 1) mod N)"
proof -
  have b: "length buf = N" "head < N" "tail < N" using assms by (auto simp: ring_ok_def)
  have "0 < ring_count N head tail" using ring_empty_iff [OF b(2,3)] assms(2) by auto
  from window_pop [OF this, of N buf tail] b ring_count_pop [OF b(2,3)] assms(2)
  show "ring_items N buf head tail = buf ! tail # ring_items N buf head ((tail + 1) mod N)"
    by (simp add: ring_items_def)
  show "ring_ok N buf head ((tail + 1) mod N)" using b by (simp add: ring_ok_def)
qed

lemma ring_items_empty_iff: "ring_ok N buf head tail \<Longrightarrow> ring_items N buf head tail = [] \<longleftrightarrow> tail = head"
  using ring_empty_iff [of head N tail] by (auto simp: ring_items_def ring_ok_def simp flip: length_0_conv)

lemma ring_items_full_iff:
  "ring_ok N buf head tail \<Longrightarrow> length (ring_items N buf head tail) = N - 1 \<longleftrightarrow> (head + 1) mod N = tail"
  using ring_full_iff [of head N tail] by (auto simp: ring_items_def ring_ok_def)

lemma ring_items_bound: "ring_ok N buf head tail \<Longrightarrow> length (ring_items N buf head tail) \<le> N - 1"
  using ring_count_less [of head N tail] by (simp add: ring_items_def ring_ok_def)

subsection \<open>The interface\<close>

locale bounded_fifo =
  fixes push :: "'a \<Rightarrow> 'q \<Rightarrow> 'q option"
    and pop :: "'q \<Rightarrow> ('a \<times> 'q) option"
    and items :: "'q \<Rightarrow> 'a list"
    and finv :: "'q \<Rightarrow> bool"
    and cap :: nat
  assumes push_full: "finv q \<Longrightarrow> push x q = None \<longleftrightarrow> length (items q) = cap"
    and push_some: "finv q \<Longrightarrow> push x q = Some q' \<Longrightarrow> finv q' \<and> items q' = items q @ [x]"
    and pop_empty: "finv q \<Longrightarrow> pop q = None \<longleftrightarrow> items q = []"
    and pop_some: "finv q \<Longrightarrow> pop q = Some (x, q') \<Longrightarrow> finv q' \<and> items q = x # items q'"
    and bound: "finv q \<Longrightarrow> length (items q) \<le> cap"
begin

fun push_all :: "'a list \<Rightarrow> 'q \<Rightarrow> 'q option" where
  "push_all [] q = Some q"
| "push_all (x # xs) q = (case push x q of None \<Rightarrow> None | Some q' \<Rightarrow> push_all xs q')"

fun pop_n :: "nat \<Rightarrow> 'q \<Rightarrow> ('a list \<times> 'q) option" where
  "pop_n 0 q = Some ([], q)"
| "pop_n (Suc n) q = (case pop q of None \<Rightarrow> None
     | Some (x, q') \<Rightarrow> (case pop_n n q' of None \<Rightarrow> None | Some (xs, q'') \<Rightarrow> Some (x # xs, q'')))"

lemma push_all_fits:
  "finv q \<Longrightarrow> length (items q) + length xs \<le> cap \<Longrightarrow>
   \<exists>q'. push_all xs q = Some q' \<and> finv q' \<and> items q' = items q @ xs"
proof (induction xs arbitrary: q)
  case (Cons x xs)
  then obtain q1 where q1: "push x q = Some q1"
    using push_full [of q x] by (cases "push x q") auto
  with push_some [OF Cons.prems(1) q1] Cons.IH [of q1] Cons.prems show ?case by auto
qed simp

lemma pop_n_takes:
  "finv q \<Longrightarrow> n \<le> length (items q) \<Longrightarrow>
   \<exists>q'. pop_n n q = Some (take n (items q), q') \<and> finv q' \<and> items q' = drop n (items q)"
proof (induction n arbitrary: q)
  case (Suc n)
  then obtain x q1 where q1: "pop q = Some (x, q1)"
    using pop_empty [of q] by (cases "pop q") auto
  with pop_some [OF Suc.prems(1) q1] Suc.IH [of q1] Suc.prems show ?case by auto
qed simp

text \<open>First in, first out: what is pushed on an empty queue is popped in the same order.\<close>

lemma fifo:
  assumes "finv q" "items q = []" "length xs \<le> cap"
  shows "\<exists>q1 q2. push_all xs q = Some q1 \<and> pop_n (length xs) q1 = Some (xs, q2) \<and> items q2 = []"
proof -
  from push_all_fits [of q xs] assms obtain q1
    where q1: "push_all xs q = Some q1" "finv q1" "items q1 = xs" by auto
  from pop_n_takes [OF q1(2), of "length xs"] q1 show ?thesis by auto
qed

end

end
