(* ===== verification/Proc.thy ===== *)
theory Proc
  imports Alloc
begin

unbundle bit_operations_syntax

text \<open>
  Per-process EL1 page tables, \<^verbatim>\<open>src/proc.c\<close>. \<open>kmem\<close> adds two typed views of the heap to
  the allocator state: the \<open>proc_t\<close> structures and the 64-bit words of page tables. A
  pointer-typed result of 0 is NULL; \<open>None\<close> is an operation that never returns because a
  heap operation does not.
\<close>

record proc_t =
  l1 :: addr
  l2 :: "addr list"
  l3 :: "addr list"
  l3_count :: nat

record kmem =
  heap :: kheap
  proch :: "addr \<Rightarrow> proc_t"
  ptw :: "addr \<Rightarrow> u64"

abbreviation PROC_MAX_L3 :: nat where
  "PROC_MAX_L3 \<equiv> 16"

abbreviation BLOCK_2MB :: u64 where
  "BLOCK_2MB \<equiv> 0x200000"

abbreviation RAM_END :: u64 where
  "RAM_END \<equiv> 0x3C000000"

subsection \<open>Descriptors\<close>

definition DESC_TABLE :: "u64 \<Rightarrow> u64" where
  "DESC_TABLE pa = pa OR 3"

definition DESC_BLOCK_NORMAL :: "u64 \<Rightarrow> u64" where
  "DESC_BLOCK_NORMAL pa = pa OR 1 OR push_bit 2 0 OR push_bit 6 0 OR push_bit 8 3 OR push_bit 10 1"

definition DESC_BLOCK_DEVICE :: "u64 \<Rightarrow> u64" where
  "DESC_BLOCK_DEVICE pa = pa OR 1 OR push_bit 2 1 OR push_bit 6 0 OR push_bit 8 2 OR push_bit 10 1"

definition DESC_PAGE_NORMAL :: "u64 \<Rightarrow> u64" where
  "DESC_PAGE_NORMAL pa = pa OR 3 OR push_bit 2 0 OR push_bit 6 0 OR push_bit 8 3 OR push_bit 10 1"

definition DESC_PAGE_DEVICE :: "u64 \<Rightarrow> u64" where
  "DESC_PAGE_DEVICE pa = pa OR 3 OR push_bit 2 1 OR push_bit 6 0 OR push_bit 8 2 OR push_bit 10 1"

subsection \<open>Tables in memory\<close>

definition word_at :: "addr \<Rightarrow> nat \<Rightarrow> addr" where
  "word_at t i = t + 8 * of_nat i"

text \<open>\<open>for (i = 0; i < n; i++) t[i] = f(i);\<close>\<close>

fun store_words :: "(addr \<Rightarrow> u64) \<Rightarrow> addr \<Rightarrow> (nat \<Rightarrow> u64) \<Rightarrow> nat \<Rightarrow> addr \<Rightarrow> u64" where
  "store_words w t f 0 = w"
| "store_words w t f (Suc n) = (store_words w t f n)(word_at t n := f n)"

definition l1_index :: "u64 \<Rightarrow> nat" where
  "l1_index va = unat (drop_bit 30 va AND 3)"

definition l2_index :: "u64 \<Rightarrow> nat" where
  "l2_index va = unat (drop_bit 21 va AND 0x1FF)"

definition l3_index :: "u64 \<Rightarrow> nat" where
  "l3_index va = unat (drop_bit 12 va AND 0x1FF)"

definition page_desc :: "u64 \<Rightarrow> nat \<Rightarrow> u64" where
  "page_desc entry i =
     (let pa = (entry AND NOT (BLOCK_2MB - 1)) + of_nat i * 4096
      in if drop_bit 2 entry AND 7 \<noteq> 0 then DESC_PAGE_DEVICE pa else DESC_PAGE_NORMAL pa)"

definition get_or_create_l3 :: "addr \<Rightarrow> u64 \<Rightarrow> kmem \<Rightarrow> (addr \<times> kmem) option" where
  "get_or_create_l3 p va km =
     (let pr = proch km p;
          slot = word_at (l2 pr ! l1_index va) (l2_index va);
          entry = ptw km slot
      in if entry AND 3 = 3 then Some (entry AND 0x0000FFFFFFFFF000, km)
         else if l3_count pr \<ge> PROC_MAX_L3 then Some (0, km)
         else do {
           (t, h) \<leftarrow> kmalloc_aligned 4096 4096 (heap km);
           if t = 0 then Some (0, km\<lparr>heap := h\<rparr>)
           else
             let pr' = pr\<lparr>l3 := (l3 pr)[l3_count pr := t], l3_count := l3_count pr + 1\<rparr>;
                 w = store_words (ptw km) t (page_desc entry) 512
             in Some (t, km\<lparr>heap := h, proch := (proch km)(p := pr'),
                            ptw := w(slot := DESC_TABLE t)\<rparr>)
         })"

subsection \<open>Creating, changing and freeing a table\<close>

definition block_desc :: "nat \<Rightarrow> nat \<Rightarrow> u64" where
  "block_desc i j =
     (let phys = of_nat i * (512 * BLOCK_2MB) + of_nat j * BLOCK_2MB
      in if phys < RAM_END then DESC_BLOCK_NORMAL phys else DESC_BLOCK_DEVICE phys)"

fun free_all :: "addr list \<Rightarrow> kheap \<Rightarrow> kheap" where
  "free_all [] h = h"
| "free_all (q # qs) h = free_all qs (if q \<noteq> 0 then kfree q h else h)"

definition proc_free :: "addr \<Rightarrow> kmem \<Rightarrow> kmem" where
  "proc_free p km =
     (if p = 0 then km
      else
        let pr = proch km p;
            h1 = free_all (take (l3_count pr) (l3 pr)) (heap km);
            h2 = free_all (l2 pr) h1;
            h3 = (if l1 pr \<noteq> 0 then kfree (l1 pr) h2 else h2)
        in km\<lparr>heap := kfree p h3\<rparr>)"

text \<open>The loop over the four second-level tables; \<open>False\<close> is the jump to \<open>fail\<close>.\<close>

fun create_l2 :: "addr \<Rightarrow> nat list \<Rightarrow> kmem \<Rightarrow> (bool \<times> kmem) option" where
  "create_l2 p [] km = Some (True, km)"
| "create_l2 p (i # is) km = do {
     (t, h) \<leftarrow> kmalloc_aligned 4096 4096 (heap km);
     let pr = proch km p;
         km1 = km\<lparr>heap := h, proch := (proch km)(p := pr\<lparr>l2 := (l2 pr)[i := t]\<rparr>)\<rparr>
     in if t = 0 then Some (False, km1)
        else
          let w = store_words (ptw km1) t (block_desc i) 512
          in create_l2 p is (km1\<lparr>ptw := w(word_at (l1 pr) i := DESC_TABLE t)\<rparr>)
   }"

definition proc_zero :: proc_t where
  "proc_zero = \<lparr>l1 = 0, l2 = replicate 4 0, l3 = replicate PROC_MAX_L3 0, l3_count = 0\<rparr>"

text \<open>\<open>sizeof(proc_t)\<close> is 176: 21 pointers and an \<open>int\<close>, padded to 8 bytes.\<close>

definition proc_create :: "kmem \<Rightarrow> (addr \<times> kmem) option" where
  "proc_create km = do {
     (p, h) \<leftarrow> kmalloc_aligned 176 16 (heap km);
     if p = 0 then Some (0, km\<lparr>heap := h\<rparr>)
     else do {
       (t, h') \<leftarrow> kmalloc_aligned 4096 4096 h;
       let km1 = km\<lparr>heap := h', proch := (proch km)(p := proc_zero\<lparr>l1 := t\<rparr>)\<rparr>
       in if t = 0 then Some (0, proc_free p km1)
          else do {
            (ok, km2) \<leftarrow> create_l2 p [0..<4] (km1\<lparr>ptw := store_words (ptw km1) t (\<lambda>_. 0) 512\<rparr>);
            Some (if ok then (p, km2) else (0, proc_free p km2))
          }
     }
   }"

partial_function (option) unmap_loop :: "addr \<Rightarrow> u64 \<Rightarrow> u64 \<Rightarrow> kmem \<Rightarrow> kmem option" where
  "unmap_loop p page stop km =
     (if page < stop then
        Option.bind (get_or_create_l3 p page km) (\<lambda>r.
          let t = fst r; km1 = snd r;
              km2 = (if t \<noteq> 0 then km1\<lparr>ptw := (ptw km1)(word_at t (l3_index page) := 0)\<rparr> else km1)
          in unmap_loop p (page + 4096) stop km2)
      else Some km)"

definition proc_unmap_range :: "addr \<Rightarrow> u64 \<Rightarrow> u64 \<Rightarrow> kmem \<Rightarrow> kmem option" where
  "proc_unmap_range p va sz km =
     unmap_loop p (va AND NOT 0xFFF) ((va + sz + 0xFFF) AND NOT 0xFFF) km"

definition proc_ttbr0 :: "addr \<Rightarrow> kmem \<Rightarrow> u64" where
  "proc_ttbr0 p km = l1 (proch km p)"

end
