(* ===== verification/Timer.thy ===== *)
theory Timer
  imports Prelude
begin

text \<open>
  \<^verbatim>\<open>src/timer.c\<close>: reading the free-running system timer, converting times, and the periodic
  tick. Hardware is a parameter: the values of the memory-mapped registers in the order the
  code reads them, the counter frequency \<open>CNTFRQ_EL0\<close>, and the value written to the countdown
  register, which is the field \<open>cnthp_tval\<close>.
\<close>

definition join64 :: "u32 \<Rightarrow> u32 \<Rightarrow> u64" where
  "join64 hi lo = or (push_bit 32 (ucast hi)) (ucast lo)"

text \<open>
  \<open>timer_get_ticks\<close> on the board with the memory-mapped timer: \<open>chi t\<close> and \<open>clo t\<close> are the
  two register halves at time \<open>t\<close>; the reads happen at the times \<open>t1\<close> to \<open>t5\<close>.
\<close>

definition timer_get_ticks :: "(nat \<Rightarrow> u32) \<Rightarrow> (nat \<Rightarrow> u32) \<Rightarrow> nat \<Rightarrow> nat \<Rightarrow> nat \<Rightarrow> nat \<Rightarrow> nat \<Rightarrow> u64" where
  "timer_get_ticks chi clo t1 t2 t3 t4 t5 =
     (let hi = chi t1; lo = clo t2
      in if chi t3 \<noteq> hi then join64 (chi t4) (clo t5) else join64 hi lo)"

text \<open>\<open>uses_mmio\<close> is \<open>PLATFORM_USES_MMIO_TIMER\<close>, \<open>freq\<close> the register \<open>CNTFRQ_EL0\<close>.\<close>

definition timer_clock_hz :: "bool \<Rightarrow> u64 \<Rightarrow> u64" where
  "timer_clock_hz uses_mmio freq = (if uses_mmio then 1000000 else freq)"

definition timer_ms_to_ticks :: "u64 \<Rightarrow> u64 \<Rightarrow> u64" where
  "timer_ms_to_ticks clock_hz ms = (clock_hz * ms) div 1000"

definition delay_ticks :: "bool \<Rightarrow> u64 \<Rightarrow> u64 \<Rightarrow> u64" where
  "delay_ticks uses_mmio freq us =
     (if uses_mmio then us else (timer_clock_hz uses_mmio freq * us) div 1000000)"

text \<open>
  The busy-wait of \<open>delay_us\<close> over the readings \<open>r 0, r 1, \<dots>\<close> of the counter: the number
  of readings it takes, when the counter gets far enough.
\<close>

partial_function (option) delay_wait :: "(nat \<Rightarrow> u64) \<Rightarrow> u64 \<Rightarrow> u64 \<Rightarrow> nat \<Rightarrow> nat option" where
  "delay_wait r start delta n = (if r n - start < delta then delay_wait r start delta (Suc n) else Some n)"

definition delay_us :: "bool \<Rightarrow> u64 \<Rightarrow> (nat \<Rightarrow> u64) \<Rightarrow> u64 \<Rightarrow> nat option" where
  "delay_us uses_mmio freq r us = delay_wait r (r 0) (delay_ticks uses_mmio freq us) 1"

definition delay_ms :: "bool \<Rightarrow> u64 \<Rightarrow> (nat \<Rightarrow> u64) \<Rightarrow> u64 \<Rightarrow> nat option" where
  "delay_ms uses_mmio freq r ms = delay_us uses_mmio freq r (ms * 1000)"

record timer =
  timer_interval_ticks :: u64
  timer_interval_ms :: u32
  irq_count :: u64
  cnthp_tval :: u64
  cnthp_ctl :: u64

definition timer_init :: "u64 \<Rightarrow> u32 \<Rightarrow> timer \<Rightarrow> timer" where
  "timer_init freq interval_ms_arg s =
     (let s1 = s\<lparr>timer_interval_ms := interval_ms_arg\<rparr>;
          s2 = s1\<lparr>timer_interval_ticks := (freq * ucast (timer_interval_ms s1)) div 1000\<rparr>
      in s2\<lparr>cnthp_tval := timer_interval_ticks s2, cnthp_ctl := 1\<rparr>)"

definition timer_irq_handler :: "timer \<Rightarrow> timer" where
  "timer_irq_handler s =
     (let s1 = s\<lparr>irq_count := irq_count s + 1\<rparr> in s1\<lparr>cnthp_tval := timer_interval_ticks s1\<rparr>)"

definition timer_get_irq_count :: "timer \<Rightarrow> u64" where
  "timer_get_irq_count s = irq_count s"

text \<open>
  \<open>timer_sleep_ms\<close> waits for \<open>sleep_target\<close> on the tick counter; \<open>ticks\<close> interrupts arrive
  while it sleeps. A zero interval divides by zero, which AArch64 evaluates to 0.
\<close>

definition sleep_target :: "u64 \<Rightarrow> timer \<Rightarrow> u64" where
  "sleep_target ms s =
     (let ticks_needed = ms div ucast (timer_interval_ms s);
          ticks_needed' = (if ticks_needed = 0 then 1 else ticks_needed)
      in irq_count s + ticks_needed')"

partial_function (option) timer_sleep_wait :: "u64 \<Rightarrow> timer \<Rightarrow> timer option" where
  "timer_sleep_wait target s =
     (if irq_count s < target then timer_sleep_wait target (timer_irq_handler s) else Some s)"

definition timer_sleep_ms :: "u64 \<Rightarrow> timer \<Rightarrow> timer option" where
  "timer_sleep_ms ms s = timer_sleep_wait (sleep_target ms s) s"

subsection \<open>The two-register read is never torn\<close>

lemma join64_unat: "unat (join64 hi lo) = unat hi * 2 ^ 32 + unat lo"
proof -
  have "and (push_bit 32 (ucast hi)) (ucast lo) = (0 :: u64)"
    by (rule bit_eqI) (auto simp: bit_simps dest: bit_imp_le_length)
  then have "join64 hi lo = push_bit 32 (ucast hi) + ucast lo"
    by (simp add: join64_def disjunctive_add_eq_or)
  moreover have "unat (push_bit 32 (ucast hi) :: u64) = unat hi * 2 ^ 32"
  proof -
    have "unat hi * 2 ^ 32 < 2 ^ 64" using unsigned_less [of hi, where 'a = nat] by simp
    then show ?thesis
      using unsigned_push_bit_eq [of 32 "ucast hi :: u64", where 'a = nat]
      by (simp add: push_bit_nat_def take_bit_nat_eq_self)
  qed
  ultimately show ?thesis
    using unsigned_less [of hi, where 'a = nat] unsigned_less [of lo, where 'a = nat]
    by (simp add: unat_word_ariths)
qed

lemma join64_div_mod: "v < 2 ^ 64 \<Longrightarrow> unat (join64 (of_nat (v div 2 ^ 32)) (of_nat (v mod 2 ^ 32))) = v"
  by (simp add: join64_unat unat_of_nat take_bit_nat_eq_self less_mult_imp_div_less)

text \<open>
  \<open>timer_get_ticks\<close> is exact although it reads a 64-bit counter in two halves. For any
  non-decreasing counter that advances by less than \<open>2 ^ 32\<close> during the call, the result is
  the counter's value at one of the moments of the call.
\<close>

theorem timer_get_ticks_exact:
  fixes c :: "nat \<Rightarrow> nat"
  assumes mono: "\<And>s t. s \<le> t \<Longrightarrow> c s \<le> c t" and lt: "c t5 < 2 ^ 64" "c t5 < c t1 + 2 ^ 32"
    and order: "t1 \<le> t2" "t2 \<le> t3" "t3 \<le> t4" "t4 \<le> t5"
    and regs: "\<And>t. chi t = of_nat (c t div 2 ^ 32)" "\<And>t. clo t = of_nat (c t mod 2 ^ 32)"
  shows "unat (timer_get_ticks chi clo t1 t2 t3 t4 t5) = c t2 \<or>
    unat (timer_get_ticks chi clo t1 t2 t3 t4 t5) = c t5"
proof -
  have le: "c t1 \<le> c t2" "c t2 \<le> c t3" "c t3 \<le> c t4" "c t4 \<le> c t5"
    using mono order by blast+
  have hi: "unat (chi t) = c t div 2 ^ 32" if "c t < 2 ^ 64" for t
    using that by (simp add: regs(1) unat_of_nat take_bit_nat_eq_self less_mult_imp_div_less)
  have d: "c t1 div 2 ^ 32 \<le> c t2 div 2 ^ 32" "c t2 div 2 ^ 32 \<le> c t3 div 2 ^ 32"
    "c t3 div 2 ^ 32 \<le> c t4 div 2 ^ 32" "c t4 div 2 ^ 32 \<le> c t5 div 2 ^ 32"
    using le by (simp_all add: div_le_mono)
  have d5: "c t5 div 2 ^ 32 \<le> Suc (c t1 div 2 ^ 32)"
    using lt(2) div_le_mono [of "c t5" "c t1 + 2 ^ 32" "2 ^ 32"] by simp
  show ?thesis
  proof (cases "chi t3 = chi t1")
    case True
    then have "c t3 div 2 ^ 32 = c t1 div 2 ^ 32" using hi [of t3] hi [of t1] le lt by simp
    then have "chi t1 = of_nat (c t2 div 2 ^ 32)" using d regs(1) by (metis le_antisym)
    then have "timer_get_ticks chi clo t1 t2 t3 t4 t5 =
        join64 (of_nat (c t2 div 2 ^ 32)) (of_nat (c t2 mod 2 ^ 32))"
      using True by (simp add: timer_get_ticks_def regs(2))
    then show ?thesis using join64_div_mod [of "c t2"] le lt by simp
  next
    case False
    then have "c t3 div 2 ^ 32 \<noteq> c t1 div 2 ^ 32" by (auto simp: regs(1))
    then have "c t4 div 2 ^ 32 = c t5 div 2 ^ 32" using d d5 by linarith
    then have "timer_get_ticks chi clo t1 t2 t3 t4 t5 =
        join64 (of_nat (c t5 div 2 ^ 32)) (of_nat (c t5 mod 2 ^ 32))"
      using False by (simp add: timer_get_ticks_def regs Let_def)
    then show ?thesis using join64_div_mod [of "c t5"] lt by simp
  qed
qed

text \<open>The low half rolls over between the second and the third read.\<close>

theorem timer_get_ticks_exact_witness:
  "unat (timer_get_ticks (\<lambda>t. of_nat ((2 ^ 32 - 3 + t) div 2 ^ 32)) (\<lambda>t. of_nat ((2 ^ 32 - 3 + t) mod 2 ^ 32))
     1 2 3 4 5) = 2 ^ 32 - 3 + 2 \<or>
   unat (timer_get_ticks (\<lambda>t. of_nat ((2 ^ 32 - 3 + t) div 2 ^ 32)) (\<lambda>t. of_nat ((2 ^ 32 - 3 + t) mod 2 ^ 32))
     1 2 3 4 5) = 2 ^ 32 - 3 + 5"
  by (rule timer_get_ticks_exact [where c = "\<lambda>t. 2 ^ 32 - 3 + t"]) simp_all

subsection \<open>Waiting\<close>

lemma timer_sleep_wait_count:
  assumes "unat (irq_count s) + n = unat target"
  shows "timer_sleep_wait target s = Some ((timer_irq_handler ^^ n) s)"
  using assms
proof (induction n arbitrary: s)
  case 0
  then have "\<not> irq_count s < target" by (simp add: word_less_nat_alt)
  then show ?case by (subst timer_sleep_wait.simps) simp
next
  case (Suc n)
  then have lt: "irq_count s < target" by (simp add: word_less_nat_alt)
  have "unat (irq_count (timer_irq_handler s)) = Suc (unat (irq_count s))"
    using Suc.prems unsigned_less [of target, where 'a = nat]
    by (simp add: timer_irq_handler_def Let_def unat_word_ariths)
  then have "timer_sleep_wait target (timer_irq_handler s) = Some ((timer_irq_handler ^^ n) (timer_irq_handler s))"
    using Suc by simp
  with lt show ?case by (subst timer_sleep_wait.simps) (simp add: funpow_swap1)
qed

text \<open>
  \<open>timer_sleep_ms\<close> returns, after exactly \<open>max 1 (ms / interval)\<close> timer interrupts,
  provided the tick counter does not wrap around on the way.
\<close>

theorem timer_sleep_ms_returns:
  assumes "unat (irq_count s) + max 1 (unat ms div unat (timer_interval_ms s)) < 2 ^ 64"
  shows "timer_sleep_ms ms s =
    Some ((timer_irq_handler ^^ max 1 (unat ms div unat (timer_interval_ms s))) s)"
proof -
  let ?q = "ms div ucast (timer_interval_ms s) :: u64"
  have q: "unat ?q = unat ms div unat (timer_interval_ms s)"
    by (simp add: unat_div)
  have "unat (if ?q = 0 then 1 else ?q) = max 1 (unat ?q)"
    by (auto simp: unat_eq_zero Suc_le_eq unat_gt_0 max_def)
  then have "unat (sleep_target ms s) = unat (irq_count s) + max 1 (unat ms div unat (timer_interval_ms s))"
    using assms q by (simp add: sleep_target_def Let_def unat_word_ariths)
  then show ?thesis
    unfolding timer_sleep_ms_def by (intro timer_sleep_wait_count) simp
qed

theorem timer_sleep_ms_returns_witness:
  "timer_sleep_ms 30 \<lparr>timer_interval_ticks = 540000, timer_interval_ms = 10, irq_count = 7,
     cnthp_tval = 0, cnthp_ctl = 1\<rparr> =
   Some ((timer_irq_handler ^^ 3) \<lparr>timer_interval_ticks = 540000, timer_interval_ms = 10, irq_count = 7,
     cnthp_tval = 0, cnthp_ctl = 1\<rparr>)"
  using timer_sleep_ms_returns [of "\<lparr>timer_interval_ticks = 540000, timer_interval_ms = 10, irq_count = 7,
     cnthp_tval = 0, cnthp_ctl = 1\<rparr>" 30] by simp

end
