(* ===== verification/Task.thy ===== *)
theory Task
  imports Proc
begin

unbundle bit_operations_syntax

text \<open>
  The task table of \<^verbatim>\<open>src/task.c\<close> and the kernel state that scheduling, synchronisation and
  process creation share. \<open>cpu\<close> holds the callee-saved registers and the stack pointer of the
  running task, \<open>ttbr0\<close> the \<open>TTBR0_EL1\<close> system register, \<open>tinycc_tasks\<close> the program table
  of \<^verbatim>\<open>src/tinycc.c\<close> that task clean-up also clears. Function pointers are addresses.
\<close>

datatype task_state = TASK_UNUSED | TASK_READY | TASK_RUNNING | TASK_DEAD | TASK_SLEEPING | TASK_BLOCKED

record cpu_context =
  x19 :: u64
  x20 :: u64
  x21 :: u64
  x22 :: u64
  x23 :: u64
  x24 :: u64
  x25 :: u64
  x26 :: u64
  x27 :: u64
  x28 :: u64
  x29 :: u64
  x30 :: u64
  sp :: u64

record task =
  tid :: int
  state :: task_state
  tname :: string
  wake_time :: u64
  tctx :: cpu_context
  stack :: addr
  ttbr0_el1 :: u64
  el1_stack :: addr
  tproc :: addr

record tinycc_task_ctx =
  prog :: addr
  psize :: int

record kernel =
  km :: kmem
  tasks :: "task list"
  current_task :: nat
  num_tasks :: nat
  cpu :: cpu_context
  ttbr0 :: u64
  tinycc_tasks :: "tinycc_task_ctx list"

abbreviation MAX_TASKS :: nat where
  "MAX_TASKS \<equiv> 16"

abbreviation TASK_NAME_LEN :: nat where
  "TASK_NAME_LEN \<equiv> 16"

abbreviation TASK_STACK_SIZE :: u64 where
  "TASK_STACK_SIZE \<equiv> 4096"

definition zero_context :: cpu_context where
  "zero_context = \<lparr>x19 = 0, x20 = 0, x21 = 0, x22 = 0, x23 = 0, x24 = 0, x25 = 0, x26 = 0,
     x27 = 0, x28 = 0, x29 = 0, x30 = 0, sp = 0\<rparr>"

definition zero_task :: task where
  "zero_task = \<lparr>tid = 0, state = TASK_UNUSED, tname = [], wake_time = 0, tctx = zero_context,
     stack = 0, ttbr0_el1 = 0, el1_stack = 0, tproc = 0\<rparr>"

text \<open>\<open>while (src[k] && k < cap - 1) dst[k] = src[k]\<close>, then a terminator.\<close>

fun copy_name :: "nat \<Rightarrow> string \<Rightarrow> string" where
  "copy_name 0 src = []"
| "copy_name (Suc room) src = (if chd src = NUL then [] else chd src # copy_name room (tl src))"

definition upd_task :: "nat \<Rightarrow> (task \<Rightarrow> task) \<Rightarrow> kernel \<Rightarrow> kernel" where
  "upd_task i f k = k\<lparr>tasks := (tasks k)[i := f (tasks k ! i)]\<rparr>"

definition set_heap :: "kheap \<Rightarrow> kernel \<Rightarrow> kernel" where
  "set_heap h k = k\<lparr>km := (km k)\<lparr>heap := h\<rparr>\<rparr>"

abbreviation kheap_of :: "kernel \<Rightarrow> kheap" where
  "kheap_of k \<equiv> heap (km k)"

subsection \<open>Operations of task.c that do not reschedule\<close>

definition task_init :: "kernel \<Rightarrow> kernel" where
  "task_init k =
     k\<lparr>tasks := (replicate MAX_TASKS zero_task)
         [0 := zero_task\<lparr>tid := 0, state := TASK_RUNNING, stack := 0,
                tname := copy_name (TASK_NAME_LEN - 1) ''kernel''\<rparr>],
       current_task := 0, num_tasks := 1\<rparr>"

text \<open>The slot search, which also frees the stack of a dead task it is about to reuse.\<close>

definition task_find_slot :: "kernel \<Rightarrow> nat option" where
  "task_find_slot k =
     find (\<lambda>i. state (tasks k ! i) = TASK_UNUSED \<or> state (tasks k ! i) = TASK_DEAD) [1..<MAX_TASKS]"

definition task_reap_slot :: "nat \<Rightarrow> kernel \<Rightarrow> kernel" where
  "task_reap_slot i k =
     (if state (tasks k ! i) = TASK_DEAD \<and> stack (tasks k ! i) \<noteq> 0
      then upd_task i (\<lambda>t. t\<lparr>stack := 0\<rparr>) (set_heap (kfree (stack (tasks k ! i)) (kheap_of k)) k)
      else k)"

text \<open>\<open>tramp\<close> is the address of \<open>task_trampoline\<close>; a NULL name is \<open>None\<close>.\<close>

definition task_create_named :: "u64 \<Rightarrow> u64 \<Rightarrow> string option \<Rightarrow> kernel \<Rightarrow> (int \<times> kernel) option" where
  "task_create_named tramp entry nm k =
     (case task_find_slot k of
        None \<Rightarrow> Some (- 1, k)
      | Some i \<Rightarrow>
          let k1 = task_reap_slot i k;
              nm' = (case nm of None \<Rightarrow> [] | Some s \<Rightarrow> copy_name (TASK_NAME_LEN - 1) s);
              k2 = upd_task i (\<lambda>t. t\<lparr>tid := int i, state := TASK_READY, wake_time := 0,
                     ttbr0_el1 := 0, el1_stack := 0, tproc := 0, tname := nm'\<rparr>) k1
          in do {
            (stk, h) \<leftarrow> kmalloc_aligned TASK_STACK_SIZE 16 (kheap_of k2);
            let k3 = upd_task i (\<lambda>t. t\<lparr>stack := stk\<rparr>) (set_heap h k2)
            in if stk = 0 then Some (- 1, k3)
               else
                 let top = (stk + TASK_STACK_SIZE) AND NOT 0xF;
                     ctx = zero_context\<lparr>x19 := entry, x30 := tramp, sp := top\<rparr>;
                     k4 = upd_task i (\<lambda>t. t\<lparr>tctx := ctx\<rparr>) k3
                 in Some (int i, if i \<ge> num_tasks k4 then k4\<lparr>num_tasks := i + 1\<rparr> else k4)
          })"

definition task_create :: "u64 \<Rightarrow> u64 \<Rightarrow> kernel \<Rightarrow> (int \<times> kernel) option" where
  "task_create tramp entry k = task_create_named tramp entry (Some ''task'') k"

definition tinycc_task_cleanup :: "int \<Rightarrow> kernel \<Rightarrow> kernel" where
  "tinycc_task_cleanup task_id k =
     (if task_id < 0 \<or> task_id \<ge> int MAX_TASKS then k
      else
        let i = nat task_id; c = tinycc_tasks k ! i;
            k1 = (if prog c \<noteq> 0 then set_heap (kfree (prog c) (kheap_of k)) k else k)
        in k1\<lparr>tinycc_tasks := (tinycc_tasks k1)[i := c\<lparr>prog := 0, psize := 0\<rparr>]\<rparr>)"

definition task_cleanup :: "nat \<Rightarrow> kernel \<Rightarrow> kernel" where
  "task_cleanup i k =
     (let k1 = upd_task i (\<lambda>t. t\<lparr>state := TASK_DEAD\<rparr>) k;
          k2 = tinycc_task_cleanup (tid (tasks k1 ! i)) k1;
          t = tasks k2 ! i;
          k3 = (if stack t \<noteq> 0
                then upd_task i (\<lambda>t. t\<lparr>stack := 0\<rparr>) (set_heap (kfree (stack t) (kheap_of k2)) k2) else k2);
          k4 = (if el1_stack t \<noteq> 0
                then upd_task i (\<lambda>t. t\<lparr>el1_stack := 0\<rparr>) (set_heap (kfree (el1_stack t) (kheap_of k3)) k3)
                else k3);
          k5 = (if tproc t \<noteq> 0
                then upd_task i (\<lambda>t. t\<lparr>tproc := 0\<rparr>) (k4\<lparr>km := proc_free (tproc t) (km k4)\<rparr>) else k4)
      in upd_task i (\<lambda>t. t\<lparr>ttbr0_el1 := 0\<rparr>) k5)"

text \<open>\<open>now\<close> is the value \<open>timer_get_ticks()\<close> returns.\<close>

definition wake_one :: "u64 \<Rightarrow> task \<Rightarrow> task" where
  "wake_one now t =
     (if state t = TASK_SLEEPING \<and> wake_time t \<noteq> 0 \<and> now \<ge> wake_time t
      then t\<lparr>state := TASK_READY, wake_time := 0\<rparr> else t)"

fun wake_loop :: "u64 \<Rightarrow> nat \<Rightarrow> task list \<Rightarrow> task list" where
  "wake_loop now 0 ts = ts"
| "wake_loop now (Suc n) ts = (let ts' = wake_loop now n ts in ts'[n := wake_one now (ts' ! n)])"

definition task_wake_sleepers :: "u64 \<Rightarrow> kernel \<Rightarrow> kernel" where
  "task_wake_sleepers now k = k\<lparr>tasks := wake_loop now (num_tasks k) (tasks k)\<rparr>"

definition task_current :: "kernel \<Rightarrow> task" where
  "task_current k = tasks k ! current_task k"

definition task_count :: "kernel \<Rightarrow> nat" where
  "task_count k = num_tasks k"

subsection \<open>The task table invariant\<close>

text \<open>
  Between kernel operations the table has 16 slots, the running task is one of the first
  \<open>num_tasks\<close>, no other task is marked running, and an occupied slot knows its own number.
\<close>

definition task_inv :: "kernel \<Rightarrow> bool" where
  "task_inv k \<longleftrightarrow> length (tasks k) = MAX_TASKS \<and> length (tinycc_tasks k) = MAX_TASKS \<and>
     0 < num_tasks k \<and> num_tasks k \<le> MAX_TASKS \<and> current_task k < num_tasks k \<and>
     (\<forall>i < MAX_TASKS. state (tasks k ! i) = TASK_RUNNING \<longrightarrow> i = current_task k) \<and>
     (\<forall>i < MAX_TASKS. state (tasks k ! i) \<noteq> TASK_UNUSED \<longrightarrow> tid (tasks k ! i) = int i)"

lemma upd_task_simps [simp]:
  "length (tasks (upd_task i f k)) = length (tasks k)" "km (upd_task i f k) = km k"
  "current_task (upd_task i f k) = current_task k" "num_tasks (upd_task i f k) = num_tasks k"
  "cpu (upd_task i f k) = cpu k" "ttbr0 (upd_task i f k) = ttbr0 k"
  "tinycc_tasks (upd_task i f k) = tinycc_tasks k"
  by (simp_all add: upd_task_def)

lemma upd_task_nth [simp]:
  "j < length (tasks k) \<Longrightarrow> tasks (upd_task i f k) ! j = (if i = j then f (tasks k ! i) else tasks k ! j)"
  by (simp add: upd_task_def nth_list_update)

lemma set_heap_simps [simp]:
  "tasks (set_heap h k) = tasks k" "current_task (set_heap h k) = current_task k"
  "num_tasks (set_heap h k) = num_tasks k" "tinycc_tasks (set_heap h k) = tinycc_tasks k"
  "cpu (set_heap h k) = cpu k" "ttbr0 (set_heap h k) = ttbr0 k" "heap (km (set_heap h k)) = h"
  "proch (km (set_heap h k)) = proch (km k)" "ptw (km (set_heap h k)) = ptw (km k)"
  by (simp_all add: set_heap_def)

lemma task_inv_upd:
  assumes "task_inv k" "i < MAX_TASKS"
    and "state (f (tasks k ! i)) \<noteq> TASK_RUNNING \<or> i = current_task k"
    and "state (f (tasks k ! i)) = TASK_UNUSED \<or> tid (f (tasks k ! i)) = int i"
  shows "task_inv (upd_task i f k)"
  using assms by (auto simp: task_inv_def)

lemma task_inv_set_heap [simp]: "task_inv (set_heap h k) = task_inv k"
  by (simp add: task_inv_def)

lemma task_inv_km [simp]: "task_inv (k\<lparr>km := m\<rparr>) = task_inv k"
  by (simp add: task_inv_def)

lemma task_inv_tinycc:
  "task_inv k \<Longrightarrow> length ts = MAX_TASKS \<Longrightarrow> task_inv (k\<lparr>tinycc_tasks := ts\<rparr>)"
  by (simp add: task_inv_def)

subsection \<open>Every operation keeps the invariant\<close>

lemma copy_name_eq: "copy_name n s = take n (cstr s)"
proof (induction n s rule: copy_name.induct)
  case (2 n s)
  then show ?case by (cases s) (auto simp: cstr_Cons)
qed simp

lemma task_init_inv [inv_intros]: "length (tinycc_tasks k) = MAX_TASKS \<Longrightarrow> task_inv (task_init k)"
  by (auto simp: task_inv_def task_init_def zero_task_def nth_Cons' numeral_eq_Suc)

lemma task_find_slot_bounds:
  assumes "task_find_slot k = Some i"
  shows "0 < i" "i < MAX_TASKS" "state (tasks k ! i) = TASK_UNUSED \<or> state (tasks k ! i) = TASK_DEAD"
  using find_upt_Some [OF assms [unfolded task_find_slot_def]] by auto

lemma task_reap_slot_simps [simp]:
  "num_tasks (task_reap_slot i k) = num_tasks k" "current_task (task_reap_slot i k) = current_task k"
  "tinycc_tasks (task_reap_slot i k) = tinycc_tasks k" "length (tasks (task_reap_slot i k)) = length (tasks k)"
  by (simp_all add: task_reap_slot_def)

lemma task_reap_slot_inv: "task_inv k \<Longrightarrow> i < MAX_TASKS \<Longrightarrow> task_inv (task_reap_slot i k)"
  by (auto simp: task_reap_slot_def task_inv_def)

lemma task_create_inv [inv_intros]:
  assumes "task_inv k" "task_create_named tramp entry nm k = Some (r, k')"
  shows "task_inv k'"
proof (cases "task_find_slot k")
  case None
  with assms show ?thesis by (simp add: task_create_named_def)
next
  case (Some i)
  note i = task_find_slot_bounds [OF Some]
  have r: "task_inv (task_reap_slot i k)" using assms(1) i by (intro task_reap_slot_inv)
  have cur: "i < num_tasks k \<Longrightarrow> current_task k < num_tasks k" using assms(1) by (simp add: task_inv_def)
  show ?thesis
    using assms(2) i r
    by (auto simp: task_create_named_def Some Let_def task_inv_def split: Option.bind_splits if_splits)
qed

lemma tinycc_task_cleanup_simps [simp]:
  "tasks (tinycc_task_cleanup i k) = tasks k" "current_task (tinycc_task_cleanup i k) = current_task k"
  "num_tasks (tinycc_task_cleanup i k) = num_tasks k"
  "length (tinycc_tasks (tinycc_task_cleanup i k)) = length (tinycc_tasks k)"
  by (auto simp: tinycc_task_cleanup_def Let_def)

lemma tinycc_task_cleanup_inv [inv_intros]: "task_inv k \<Longrightarrow> task_inv (tinycc_task_cleanup i k)"
  by (simp add: task_inv_def)

lemma task_cleanup_shape [simp]:
  "current_task (task_cleanup i k) = current_task k" "num_tasks (task_cleanup i k) = num_tasks k"
  "length (tasks (task_cleanup i k)) = length (tasks k)"
  "length (tinycc_tasks (task_cleanup i k)) = length (tinycc_tasks k)"
  by (simp_all add: task_cleanup_def Let_def)

lemma task_cleanup_task:
  assumes "i < length (tasks k)" "j < length (tasks k)"
  shows "tasks (task_cleanup i k) ! j =
    (if i = j then (tasks k ! i)\<lparr>state := TASK_DEAD, stack := 0, el1_stack := 0, tproc := 0, ttbr0_el1 := 0\<rparr>
     else tasks k ! j)"
  using assms by (auto simp: task_cleanup_def Let_def)

lemma task_cleanup_inv [inv_intros]:
  assumes "task_inv k" "i < MAX_TASKS" "state (tasks k ! i) \<noteq> TASK_UNUSED"
  shows "task_inv (task_cleanup i k)"
proof -
  have len: "length (tasks k) = MAX_TASKS" using assms by (simp add: task_inv_def)
  show ?thesis
    using assms unfolding task_inv_def
    by (simp add: task_cleanup_task len)
qed

lemma wake_loop_length [simp]: "length (wake_loop now n ts) = length ts"
  by (induction n) (simp_all add: Let_def)

lemma wake_loop_nth:
  "n \<le> length ts \<Longrightarrow> i < length ts \<Longrightarrow> wake_loop now n ts ! i = (if i < n then wake_one now (ts ! i) else ts ! i)"
proof (induction n)
  case (Suc n)
  then show ?case by (auto simp: Let_def nth_list_update less_Suc_eq)
qed simp

lemma wake_one_simps [simp]:
  "tid (wake_one now t) = tid t" "stack (wake_one now t) = stack t" "tctx (wake_one now t) = tctx t"
  "el1_stack (wake_one now t) = el1_stack t" "tproc (wake_one now t) = tproc t"
  "ttbr0_el1 (wake_one now t) = ttbr0_el1 t"
  "state (wake_one now t) = TASK_RUNNING \<longleftrightarrow> state t = TASK_RUNNING"
  "state (wake_one now t) = TASK_UNUSED \<longleftrightarrow> state t = TASK_UNUSED"
  "state (wake_one now t) = TASK_DEAD \<longleftrightarrow> state t = TASK_DEAD"
  "state (wake_one now t) = TASK_BLOCKED \<longleftrightarrow> state t = TASK_BLOCKED"
  "state t = TASK_READY \<Longrightarrow> state (wake_one now t) = TASK_READY"
  by (auto simp: wake_one_def)

lemma wake_sleepers_simps [simp]:
  "current_task (task_wake_sleepers now k) = current_task k"
  "num_tasks (task_wake_sleepers now k) = num_tasks k" "km (task_wake_sleepers now k) = km k"
  "cpu (task_wake_sleepers now k) = cpu k" "ttbr0 (task_wake_sleepers now k) = ttbr0 k"
  "tinycc_tasks (task_wake_sleepers now k) = tinycc_tasks k"
  "length (tasks (task_wake_sleepers now k)) = length (tasks k)"
  by (simp_all add: task_wake_sleepers_def)

lemma wake_sleepers_nth:
  "num_tasks k \<le> length (tasks k) \<Longrightarrow> i < length (tasks k) \<Longrightarrow>
   tasks (task_wake_sleepers now k) ! i = (if i < num_tasks k then wake_one now (tasks k ! i) else tasks k ! i)"
  by (simp add: task_wake_sleepers_def wake_loop_nth)

lemma task_wake_sleepers_inv [inv_intros]:
  assumes "task_inv k"
  shows "task_inv (task_wake_sleepers now k)"
  using assms by (auto simp: task_inv_def wake_sleepers_nth)

end
