(* ===== verification/Sched.thy ===== *)
theory Sched
  imports Task Timer Ring
begin

text \<open>
  The round-robin scheduler of \<^verbatim>\<open>src/sched.c\<close>, the context switch of \<^verbatim>\<open>src/switch.S\<close>
  it calls, and the operations of \<^verbatim>\<open>src/task.c\<close> that end in a call of \<open>schedule()\<close>.
  \<open>schedule\<close> is the state change seen from the moment a task enters it to the moment the
  next task runs; the part after \<open>cpu_switch_to\<close> is executed by the resumed task, unless that
  task starts for the first time in \<open>task_trampoline\<close> (whose address is \<open>tramp\<close>).
\<close>

definition runnable :: "task \<Rightarrow> bool" where
  "runnable t \<longleftrightarrow> state t = TASK_READY \<or> state t = TASK_RUNNING"

text \<open>The search loop: \<open>r\<close> iterations are left and \<open>nx\<close> is the variable \<open>next\<close>.\<close>

fun pick_next :: "task list \<Rightarrow> nat \<Rightarrow> nat \<Rightarrow> nat \<Rightarrow> nat" where
  "pick_next ts n 0 nx = nx"
| "pick_next ts n (Suc r) nx =
     (let nx' = (nx + 1) mod n in if runnable (ts ! nx') then nx' else pick_next ts n r nx')"

definition cpu_switch_to :: "nat \<Rightarrow> nat \<Rightarrow> kernel \<Rightarrow> kernel" where
  "cpu_switch_to prev nx k =
     (let k1 = upd_task prev (\<lambda>t. t\<lparr>tctx := cpu k\<rparr>) k in k1\<lparr>cpu := tctx (tasks k1 ! nx)\<rparr>)"

text \<open>Up to and including the switch; the flag says whether a switch happened.\<close>

definition schedule_switch :: "u64 \<Rightarrow> kernel \<Rightarrow> bool \<times> kernel" where
  "schedule_switch now k0 =
     (let k = task_wake_sleepers now k0
      in if num_tasks k \<le> 1 then (False, k)
         else
           let prev = current_task k;
               nx = pick_next (tasks k) (num_tasks k) (num_tasks k) prev
           in if nx = prev then (False, k)
              else
                let k1 = (if state (tasks k ! prev) = TASK_RUNNING
                          then upd_task prev (\<lambda>t. t\<lparr>state := TASK_READY\<rparr>) k else k);
                    k2 = upd_task nx (\<lambda>t. t\<lparr>state := TASK_RUNNING\<rparr>) k1;
                    k3 = k2\<lparr>current_task := nx\<rparr>
                in (True, cpu_switch_to prev nx k3))"

definition schedule_resume :: "kernel \<Rightarrow> kernel" where
  "schedule_resume k =
     (let t = ttbr0_el1 (tasks k ! current_task k) in if t \<noteq> 0 then k\<lparr>ttbr0 := t\<rparr> else k)"

definition schedule :: "u64 \<Rightarrow> u64 \<Rightarrow> kernel \<Rightarrow> kernel" where
  "schedule tramp now k =
     (case schedule_switch now k of
        (switched, k') \<Rightarrow> if switched \<and> x30 (cpu k') \<noteq> tramp then schedule_resume k' else k')"

definition yield :: "u64 \<Rightarrow> u64 \<Rightarrow> kernel \<Rightarrow> kernel" where
  "yield tramp now k = schedule tramp now k"

definition sched_tick :: "u64 \<Rightarrow> u64 \<Rightarrow> kernel \<Rightarrow> kernel" where
  "sched_tick tramp now k = schedule tramp now k"

subsection \<open>Operations of task.c that reschedule\<close>

definition task_exit :: "u64 \<Rightarrow> u64 \<Rightarrow> kernel \<Rightarrow> kernel" where
  "task_exit tramp now k = schedule tramp now (task_cleanup (current_task k) k)"

definition task_kill :: "u64 \<Rightarrow> u64 \<Rightarrow> int \<Rightarrow> kernel \<Rightarrow> int \<times> kernel" where
  "task_kill tramp now i k =
     (if i \<le> 0 \<or> i \<ge> int (num_tasks k) then (- 1, k)
      else if state (tasks k ! nat i) = TASK_UNUSED \<or> state (tasks k ! nat i) = TASK_DEAD then (- 1, k)
      else
        let k1 = task_cleanup (nat i) k
        in (0, if nat i = current_task k1 then schedule tramp now k1 else k1))"

text \<open>\<open>t0\<close> is the tick count read when going to sleep, \<open>now\<close> the one \<open>schedule\<close> reads.\<close>

definition task_sleep_ms :: "u64 \<Rightarrow> u64 \<Rightarrow> u64 \<Rightarrow> u64 \<Rightarrow> u64 \<Rightarrow> kernel \<Rightarrow> kernel" where
  "task_sleep_ms tramp clock_hz t0 now ms k =
     schedule tramp now
       (upd_task (current_task k)
          (\<lambda>t. t\<lparr>state := TASK_SLEEPING, wake_time := t0 + timer_ms_to_ticks clock_hz ms\<rparr>) k)"

subsection \<open>The search\<close>

text \<open>The task \<open>d\<close> places after \<open>nx\<close> in the round.\<close>

abbreviation rr :: "nat \<Rightarrow> nat \<Rightarrow> nat \<Rightarrow> nat" where
  "rr n nx d \<equiv> (nx + d) mod n"

lemma pick_next_spec:
  "(\<exists>d. 1 \<le> d \<and> d \<le> r \<and> pick_next ts n r nx = rr n nx d \<and> runnable (ts ! rr n nx d) \<and>
        (\<forall>e. 1 \<le> e \<longrightarrow> e < d \<longrightarrow> \<not> runnable (ts ! rr n nx e))) \<or>
   ((\<forall>d. 1 \<le> d \<longrightarrow> d \<le> r \<longrightarrow> \<not> runnable (ts ! rr n nx d)) \<and> (0 < r \<longrightarrow> pick_next ts n r nx = rr n nx r))"
proof (induction r arbitrary: nx)
  case (Suc r)
  let ?nx = "rr n nx 1"
  have shift: "rr n ?nx d = rr n nx (Suc d)" for d by (simp add: mod_add_left_eq)
  show ?case
  proof (cases "runnable (ts ! ?nx)")
    case True
    then show ?thesis by (intro disjI1 exI [of _ 1]) simp
  next
    case False
    then have e: "pick_next ts n (Suc r) nx = pick_next ts n r ?nx" by simp
    from Suc.IH [of ?nx] show ?thesis
    proof (elim disjE exE conjE)
      fix d assume d: "1 \<le> d" "d \<le> r" "pick_next ts n r ?nx = rr n ?nx d" "runnable (ts ! rr n ?nx d)"
        and first: "\<forall>e. 1 \<le> e \<longrightarrow> e < d \<longrightarrow> \<not> runnable (ts ! rr n ?nx e)"
      have "\<not> runnable (ts ! rr n nx e)" if "1 \<le> e" "e < Suc d" for e
        using that first False shift by (cases "e = 1") (auto simp: le_Suc_eq dest!: spec [of _ "e - 1"])
      with d e shift show ?thesis by (intro disjI1 exI [of _ "Suc d"]) simp
    next
      assume none: "\<forall>d. 1 \<le> d \<longrightarrow> d \<le> r \<longrightarrow> \<not> runnable (ts ! rr n ?nx d)"
        and res: "0 < r \<longrightarrow> pick_next ts n r ?nx = rr n ?nx r"
      have "\<not> runnable (ts ! rr n nx d)" if "1 \<le> d" "d \<le> Suc r" for d
        using that none False shift by (cases "d = 1") (auto dest!: spec [of _ "d - 1"])
      moreover have "pick_next ts n (Suc r) nx = rr n nx (Suc r)"
      proof (cases "r = 0")
        case True
        with False show ?thesis by simp
      next
        case r: False
        then have "pick_next ts n (Suc r) nx = rr n ?nx r" using e res by simp
        then show ?thesis by (simp only: shift)
      qed
      ultimately show ?thesis by blast
    qed
  qed
qed simp

lemma pick_next_cases:
  assumes "cur < n"
  obtains (found) d where "1 \<le> d" "d \<le> n" "pick_next ts n n cur = rr n cur d"
      "runnable (ts ! rr n cur d)" "\<And>e. 1 \<le> e \<Longrightarrow> e < d \<Longrightarrow> \<not> runnable (ts ! rr n cur e)"
  | (none) "pick_next ts n n cur = cur" "\<And>i. i < n \<Longrightarrow> \<not> runnable (ts ! i)"
proof -
  have all: "\<exists>d. 1 \<le> d \<and> d \<le> n \<and> i = rr n cur d" if "i < n" for i
  proof (cases "cur < i")
    case True
    then show ?thesis using that by (intro exI [of _ "i - cur"]) auto
  next
    case False
    then show ?thesis using that assms by (intro exI [of _ "n + i - cur"]) auto
  qed
  from pick_next_spec [of n ts n cur] show thesis
  proof (elim disjE exE conjE)
    assume "\<forall>d. 1 \<le> d \<longrightarrow> d \<le> n \<longrightarrow> \<not> runnable (ts ! rr n cur d)" "0 < n \<longrightarrow> pick_next ts n n cur = rr n cur n"
    then show thesis using none all assms by fastforce
  next
    fix d assume "1 \<le> d" "d \<le> n" "pick_next ts n n cur = rr n cur d" "runnable (ts ! rr n cur d)"
      "\<forall>e. 1 \<le> e \<longrightarrow> e < d \<longrightarrow> \<not> runnable (ts ! rr n cur e)"
    then show thesis using found [of d] by blast
  qed
qed

lemma pick_next_less: "cur < n \<Longrightarrow> pick_next ts n n cur < n"
  by (rule pick_next_cases [of cur n ts]) auto

subsection \<open>The scheduler keeps the task table well-formed\<close>

lemma cpu_switch_to_simps [simp]:
  "current_task (cpu_switch_to a b k) = current_task k" "num_tasks (cpu_switch_to a b k) = num_tasks k"
  "length (tasks (cpu_switch_to a b k)) = length (tasks k)" "km (cpu_switch_to a b k) = km k"
  "tinycc_tasks (cpu_switch_to a b k) = tinycc_tasks k" "ttbr0 (cpu_switch_to a b k) = ttbr0 k"
  by (simp_all add: cpu_switch_to_def Let_def)

lemma cpu_switch_to_nth:
  "j < length (tasks k) \<Longrightarrow> a < length (tasks k) \<Longrightarrow>
   tasks (cpu_switch_to a b k) ! j = (if a = j then (tasks k ! j)\<lparr>tctx := cpu k\<rparr> else tasks k ! j)"
  by (simp add: cpu_switch_to_def Let_def)

lemma schedule_resume_simps [simp]:
  "tasks (schedule_resume k) = tasks k" "current_task (schedule_resume k) = current_task k"
  "num_tasks (schedule_resume k) = num_tasks k" "km (schedule_resume k) = km k"
  "tinycc_tasks (schedule_resume k) = tinycc_tasks k" "cpu (schedule_resume k) = cpu k"
  by (simp_all add: schedule_resume_def Let_def)

lemma schedule_simps [simp]:
  "num_tasks (schedule tramp now k) = num_tasks k"
  "length (tasks (schedule tramp now k)) = length (tasks k)"
  "km (schedule tramp now k) = km k" "tinycc_tasks (schedule tramp now k) = tinycc_tasks k"
  by (auto simp: schedule_def schedule_switch_def Let_def split: prod.splits if_splits)

text \<open>The decision \<open>schedule\<close> takes, in terms of the task table after waking sleepers.\<close>

lemma schedule_switch_cases:
  fixes now :: u64
  assumes inv: "task_inv k"
  defines "w \<equiv> task_wake_sleepers now k"
  obtains (stay) "schedule_switch now k = (False, w)"
      "\<And>i. i < num_tasks k \<Longrightarrow> runnable (tasks w ! i) \<Longrightarrow> i = current_task k"
  | (switch) d where "1 \<le> d" "d < num_tasks k"
      "fst (schedule_switch now k)" "rr (num_tasks k) (current_task k) d \<noteq> current_task k"
      "current_task (snd (schedule_switch now k)) = rr (num_tasks k) (current_task k) d"
      "runnable (tasks w ! rr (num_tasks k) (current_task k) d)"
      "\<And>e. 1 \<le> e \<Longrightarrow> e < d \<Longrightarrow> \<not> runnable (tasks w ! rr (num_tasks k) (current_task k) e)"
      "\<And>i. i < MAX_TASKS \<Longrightarrow> state (tasks (snd (schedule_switch now k)) ! i) =
         (if i = rr (num_tasks k) (current_task k) d then TASK_RUNNING
          else if i = current_task k \<and> state (tasks w ! i) = TASK_RUNNING then TASK_READY
          else state (tasks w ! i))"
proof -
  let ?n = "num_tasks k" and ?c = "current_task k"
  have b: "?c < ?n" "?n \<le> MAX_TASKS" "length (tasks k) = MAX_TASKS" "0 < ?n"
    using inv by (auto simp: task_inv_def)
  have lw: "length (tasks w) = MAX_TASKS" "num_tasks w = ?n" "current_task w = ?c"
    by (simp_all add: w_def b)
  show thesis
  proof (cases "?n \<le> 1")
    case True
    then have "schedule_switch now k = (False, w)" by (simp add: schedule_switch_def lw flip: w_def)
    moreover have "\<And>i. i < ?n \<Longrightarrow> i = ?c" using True b by linarith
    ultimately show thesis by (intro stay) auto
  next
    case many: False
    show thesis
    proof (rule pick_next_cases [OF b(1), of "tasks w"])
      assume none: "pick_next (tasks w) ?n ?n ?c = ?c" "\<And>i. i < ?n \<Longrightarrow> \<not> runnable (tasks w ! i)"
      then have "schedule_switch now k = (False, w)"
        by (simp add: schedule_switch_def Let_def lw flip: w_def)
      with none show thesis by (intro stay) auto
    next
      fix d assume d: "1 \<le> d" "d \<le> ?n" "pick_next (tasks w) ?n ?n ?c = rr ?n ?c d"
        "runnable (tasks w ! rr ?n ?c d)" "\<And>e. 1 \<le> e \<Longrightarrow> e < d \<Longrightarrow> \<not> runnable (tasks w ! rr ?n ?c e)"
      show thesis
      proof (cases "d = ?n")
        case True
        then have r: "rr ?n ?c d = ?c" using b by simp
        then have "schedule_switch now k = (False, w)"
          using d by (simp add: schedule_switch_def Let_def lw flip: w_def)
        moreover have "i = ?c" if "i < ?n" "runnable (tasks w ! i)" for i
        proof (rule ccontr)
          assume ne: "i \<noteq> ?c"
          define e where "e = (if ?c < i then i - ?c else ?n + i - ?c)"
          have "1 \<le> e" "e < d" "rr ?n ?c e = i" using ne that b True by (auto simp: e_def)
          then show False using d(5) that by metis
        qed
        ultimately show thesis by (intro stay) auto
      next
        case False
        then have dn: "d < ?n" using d by simp
        have ne: "rr ?n ?c d \<noteq> ?c"
        proof
          assume "rr ?n ?c d = ?c"
          moreover have "rr ?n ?c d = (if ?c + d < ?n then ?c + d else ?c + d - ?n)"
            using b(1) dn by (rule mod_add_small)
          ultimately show False using b(1) d(1) dn by (simp split: if_splits)
        qed
        have nx: "rr ?n ?c d < MAX_TASKS" using b by (meson mod_less_divisor order_less_le_trans)
        have sw: "schedule_switch now k = (True, cpu_switch_to ?c (rr ?n ?c d)
          ((upd_task (rr ?n ?c d) (\<lambda>t. t\<lparr>state := TASK_RUNNING\<rparr>)
             (if state (tasks w ! ?c) = TASK_RUNNING then upd_task ?c (\<lambda>t. t\<lparr>state := TASK_READY\<rparr>) w else w))
           \<lparr>current_task := rr ?n ?c d\<rparr>))"
          using many ne d(3) by (simp add: schedule_switch_def Let_def lw flip: w_def)
        show thesis
          by (rule switch [OF d(1) dn _ ne _ d(4,5)])
             (use sw ne nx b lw in \<open>auto simp: cpu_switch_to_nth\<close>)
      qed
    qed
  qed
qed

lemma schedule_fields:
  "tasks (schedule tramp now k) = tasks (snd (schedule_switch now k))"
  "current_task (schedule tramp now k) = current_task (snd (schedule_switch now k))"
  "cpu (schedule tramp now k) = cpu (snd (schedule_switch now k))"
  by (simp_all add: schedule_def split: prod.splits)

lemma schedule_tid:
  "task_inv k \<Longrightarrow> i < MAX_TASKS \<Longrightarrow> tid (tasks (schedule tramp now k) ! i) = tid (tasks k ! i)"
  by (auto simp: schedule_fields schedule_switch_def Let_def task_inv_def cpu_switch_to_nth
    wake_sleepers_nth)

lemma wake_state:
  assumes "task_inv k" "i < MAX_TASKS"
  shows "state (tasks (task_wake_sleepers now k) ! i) = TASK_UNUSED \<longleftrightarrow> state (tasks k ! i) = TASK_UNUSED"
    "state (tasks (task_wake_sleepers now k) ! i) = TASK_RUNNING \<longleftrightarrow> state (tasks k ! i) = TASK_RUNNING"
    "state (tasks k ! i) = TASK_READY \<Longrightarrow> state (tasks (task_wake_sleepers now k) ! i) = TASK_READY"
  using assms by (auto simp: wake_sleepers_nth task_inv_def)

lemma schedule_inv [inv_intros]:
  assumes "task_inv k"
  shows "task_inv (schedule tramp now k)"
proof -
  note tid = schedule_tid [OF assms] and wk = wake_state [OF assms]
  have base: "length (tasks k) = MAX_TASKS" "0 < num_tasks k" "num_tasks k \<le> MAX_TASKS"
    "current_task k < num_tasks k" "length (tinycc_tasks k) = MAX_TASKS"
    "\<And>i. i < MAX_TASKS \<Longrightarrow> state (tasks k ! i) = TASK_RUNNING \<Longrightarrow> i = current_task k"
    "\<And>i. i < MAX_TASKS \<Longrightarrow> state (tasks k ! i) \<noteq> TASK_UNUSED \<Longrightarrow> tid (tasks k ! i) = int i"
    using assms by (auto simp: task_inv_def)
  show ?thesis
  proof (rule schedule_switch_cases [OF assms, of now])
    assume "schedule_switch now k = (False, task_wake_sleepers now k)"
    then have "schedule tramp now k = task_wake_sleepers now k" by (simp add: schedule_def)
    then show ?thesis using task_wake_sleepers_inv [OF assms] by simp
  next
    fix d
    assume "current_task (snd (schedule_switch now k)) = rr (num_tasks k) (current_task k) d"
      and "runnable (tasks (task_wake_sleepers now k) ! rr (num_tasks k) (current_task k) d)"
      and "\<And>i. i < MAX_TASKS \<Longrightarrow> state (tasks (snd (schedule_switch now k)) ! i) =
        (if i = rr (num_tasks k) (current_task k) d then TASK_RUNNING
         else if i = current_task k \<and> state (tasks (task_wake_sleepers now k) ! i) = TASK_RUNNING
         then TASK_READY else state (tasks (task_wake_sleepers now k) ! i))"
    moreover define nx where "nx = rr (num_tasks k) (current_task k) d"
    ultimately have cur: "current_task (schedule tramp now k) = nx"
      and run: "runnable (tasks (task_wake_sleepers now k) ! nx)"
      and st: "\<And>i. i < MAX_TASKS \<Longrightarrow> state (tasks (schedule tramp now k) ! i) =
        (if i = nx then TASK_RUNNING
         else if i = current_task k \<and> state (tasks (task_wake_sleepers now k) ! i) = TASK_RUNNING
         then TASK_READY else state (tasks (task_wake_sleepers now k) ! i))"
      by (simp_all add: schedule_fields)
    have nx: "nx < num_tasks k" using base by (simp add: nx_def)
    then have lt: "nx < MAX_TASKS" using base(3) by (rule order_less_le_trans)
    have "state (tasks k ! nx) \<noteq> TASK_UNUSED"
      using run wk(1) [OF lt, of now] by (auto simp: runnable_def)
    then have idnx: "tid (tasks k ! nx) = int nx" by (rule base(7) [OF lt])
    have run1: "i = nx" if i: "i < MAX_TASKS" and r: "state (tasks (schedule tramp now k) ! i) = TASK_RUNNING" for i
    proof (rule ccontr)
      assume "i \<noteq> nx"
      then have "state (tasks (task_wake_sleepers now k) ! i) = TASK_RUNNING \<and> i \<noteq> current_task k"
        using st [OF i] r by (auto split: if_splits)
      then show False using wk(2) [OF i, of now] base(6) [OF i] by blast
    qed
    have tid1: "tid (tasks k ! i) = int i"
      if i: "i < MAX_TASKS" and u: "state (tasks (schedule tramp now k) ! i) \<noteq> TASK_UNUSED" for i
    proof (cases "i = nx")
      case False
      then have "state (tasks (task_wake_sleepers now k) ! i) \<noteq> TASK_UNUSED"
        using st [OF i] u by (auto split: if_splits)
      then show ?thesis using wk(1) [OF i, of now] base(7) [OF i] by blast
    qed (simp add: idnx)
    show ?thesis
      unfolding task_inv_def using base nx cur run1 tid1 tid by simp
  qed
qed

lemma task_exit_inv [inv_intros]:
  assumes "task_inv k" "state (tasks k ! current_task k) \<noteq> TASK_UNUSED"
  shows "task_inv (task_exit tramp now k)"
  unfolding task_exit_def
  using assms by (intro schedule_inv task_cleanup_inv) (auto simp: task_inv_def)

lemma task_kill_inv [inv_intros]:
  assumes "task_inv k"
  shows "task_inv (snd (task_kill tramp now i k))"
proof -
  have "task_inv (task_cleanup (nat i) k)"
    if "0 < i" "i < int (num_tasks k)" "state (tasks k ! nat i) \<noteq> TASK_UNUSED"
    using assms that by (intro task_cleanup_inv) (auto simp: task_inv_def)
  then show ?thesis
    using assms by (auto simp: task_kill_def Let_def intro: schedule_inv)
qed

lemma task_sleep_inv [inv_intros]:
  assumes "task_inv k" "state (tasks k ! current_task k) \<noteq> TASK_UNUSED"
  shows "task_inv (task_sleep_ms tramp hz t0 now ms k)"
  unfolding task_sleep_ms_def
  using assms by (intro schedule_inv task_inv_upd) (auto simp: task_inv_def)

subsection \<open>Round robin is fair\<close>

definition dist :: "nat \<Rightarrow> nat \<Rightarrow> nat \<Rightarrow> nat" where
  "dist n a b = (b + n - a) mod n"

lemma dist_cases: "a < n \<Longrightarrow> b < n \<Longrightarrow> dist n a b = (if a \<le> b then b - a else b + n - a)"
  using ring_count_cases [of b n a] by (simp add: dist_def ring_count_def)

lemma rr_dist: "a < n \<Longrightarrow> b < n \<Longrightarrow> rr n a (dist n a b) = b"
  by (auto simp: dist_cases)

lemma dist_less: "a < n \<Longrightarrow> dist n a b < n"
  by (simp add: dist_def)

lemma dist_rr:
  assumes "a < n" "b < n" "d \<le> dist n a b"
  shows "dist n (rr n a d) b = dist n a b - d"
proof -
  have d: "d < n" using assms dist_less by (meson le_less_trans)
  have r: "rr n a d = (if a + d < n then a + d else a + d - n)"
    using assms(1) d by (rule mod_add_small)
  have "rr n a d < n" using assms by simp
  from dist_cases [OF this assms(2)] dist_cases [OF assms(1,2)] r assms d show ?thesis
    by (cases "a + d < n"; cases "a \<le> b") simp_all
qed

lemma schedule_progress:
  fixes now tramp :: u64
  assumes inv: "task_inv k" and j: "j < num_tasks k" "j \<noteq> current_task k" "state (tasks k ! j) = TASK_READY"
  defines "k' \<equiv> schedule tramp now k"
  shows "current_task k' = j \<or>
    (state (tasks k' ! j) = TASK_READY \<and> j \<noteq> current_task k' \<and>
     dist (num_tasks k) (current_task k') j < dist (num_tasks k) (current_task k) j)"
proof -
  have b: "num_tasks k \<le> MAX_TASKS" "current_task k < num_tasks k" using inv by (auto simp: task_inv_def)
  let ?n = "num_tasks k" and ?c = "current_task k" and ?w = "task_wake_sleepers now k"
  have rj: "state (tasks ?w ! j) = TASK_READY" using wake_state(3) [OF inv] j b by simp
  then have run: "runnable (tasks ?w ! j)" by (simp add: runnable_def)
  show ?thesis
  proof (rule schedule_switch_cases [OF inv, of now])
    assume "\<And>i. i < ?n \<Longrightarrow> runnable (tasks ?w ! i) \<Longrightarrow> i = ?c"
    then show ?thesis using run j by blast
  next
    fix d assume d: "1 \<le> d" "current_task (snd (schedule_switch now k)) = rr ?n ?c d"
      "\<And>e. 1 \<le> e \<Longrightarrow> e < d \<Longrightarrow> \<not> runnable (tasks ?w ! rr ?n ?c e)"
      "\<And>i. i < MAX_TASKS \<Longrightarrow> state (tasks (snd (schedule_switch now k)) ! i) =
         (if i = rr ?n ?c d then TASK_RUNNING
          else if i = ?c \<and> state (tasks ?w ! i) = TASK_RUNNING then TASK_READY
          else state (tasks ?w ! i))"
    have pos: "1 \<le> dist ?n ?c j" using j b by (auto simp: dist_cases)
    have le: "d \<le> dist ?n ?c j"
    proof (rule ccontr)
      assume "\<not> d \<le> dist ?n ?c j"
      then have "\<not> runnable (tasks ?w ! rr ?n ?c (dist ?n ?c j))" using d(3) pos by simp
      then show False using run rr_dist b j by simp
    qed
    have "dist ?n (rr ?n ?c d) j = dist ?n ?c j - d" using dist_rr le b j by simp
    then show ?thesis
      using d(1,2) d(4) [of j] j b rj pos by (auto simp: k'_def schedule_fields)
  qed
qed

text \<open>
  C5: no ready task starves. When a task is ready, it is running after at most as many calls
  of \<open>schedule\<close> as there are places between the running task and it in the round, whatever
  the clock says at each call.
\<close>

theorem schedule_no_starvation:
  assumes "task_inv k" "j < num_tasks k" "j \<noteq> current_task k" "state (tasks k ! j) = TASK_READY"
    and "dist (num_tasks k) (current_task k) j \<le> length nows"
  shows "\<exists>m \<le> length nows. current_task (fold (schedule tramp) (take m nows) k) = j"
  using assms
proof (induction nows arbitrary: k)
  case Nil
  then have "dist (num_tasks k) (current_task k) j = 0" by simp
  then show ?case using Nil by (auto simp: dist_cases task_inv_def split: if_splits)
next
  case (Cons now nows)
  let ?k = "schedule tramp now k"
  from schedule_progress [OF Cons.prems(1-4), of tramp now] show ?case
  proof (elim disjE conjE)
    assume "current_task ?k = j"
    then show ?thesis by (intro exI [of _ 1]) simp
  next
    assume *: "state (tasks ?k ! j) = TASK_READY" "j \<noteq> current_task ?k"
      "dist (num_tasks k) (current_task ?k) j < dist (num_tasks k) (current_task k) j"
    have "\<exists>m \<le> length nows. current_task (fold (schedule tramp) (take m nows) ?k) = j"
      using * Cons.prems by (intro Cons.IH schedule_inv) auto
    then obtain m where "m \<le> length nows" "current_task (fold (schedule tramp) (take m nows) ?k) = j" by blast
    then show ?thesis by (intro exI [of _ "Suc m"]) simp
  qed
qed

text \<open>A small machine: the kernel task runs, tasks 1 and 2 are ready.\<close>

definition kernel0 :: kernel where
  "kernel0 = \<lparr>km = \<lparr>heap = alloc_init 0x1000 0x100000 heap0, proch = (\<lambda>_. proc_zero), ptw = (\<lambda>_. 0)\<rparr>,
     tasks = [], current_task = 0, num_tasks = 0, cpu = zero_context, ttbr0 = 0,
     tinycc_tasks = replicate MAX_TASKS \<lparr>prog = 0, psize = 0\<rparr>\<rparr>"

definition kernel2 :: kernel where
  "kernel2 = (upd_task 2 (\<lambda>t. t\<lparr>tid := 2, state := TASK_READY\<rparr>)
     (upd_task 1 (\<lambda>t. t\<lparr>tid := 1, state := TASK_READY\<rparr>) (task_init kernel0)))\<lparr>num_tasks := 3\<rparr>"

lemma kernel0_inv: "task_inv (task_init kernel0)"
  by (rule task_init_inv) (simp add: kernel0_def)

lemma kernel2_fields:
  "num_tasks kernel2 = 3" "current_task kernel2 = 0" "state (tasks kernel2 ! 2) = TASK_READY"
  "length (tasks kernel2) = MAX_TASKS"
  by (simp_all add: kernel2_def task_init_def)

lemma task_inv_num: "task_inv k \<Longrightarrow> current_task k < n \<Longrightarrow> n \<le> MAX_TASKS \<Longrightarrow> task_inv (k\<lparr>num_tasks := n\<rparr>)"
  by (simp add: task_inv_def)

lemma kernel2_inv: "task_inv kernel2"
  unfolding kernel2_def
  by (intro task_inv_num task_inv_upd kernel0_inv) (simp_all add: task_init_def)

theorem schedule_no_starvation_witness:
  "\<exists>m \<le> 2. current_task (fold (schedule 0x8000) (take m [5, 6]) kernel2) = 2"
proof -
  have "\<exists>m \<le> length [5, 6 :: u64]. current_task (fold (schedule 0x8000) (take m [5, 6]) kernel2) = 2"
    by (rule schedule_no_starvation [OF kernel2_inv]) (simp_all add: kernel2_fields dist_def)
  then show ?thesis by (simp add: numeral_2_eq_2)
qed

text \<open>
  A context switch is transparent to the task that is switched out. When task \<open>a\<close> is
  switched to \<open>b\<close>, \<open>b\<close> runs and changes the registers to anything, and \<open>b\<close> is switched
  back to \<open>a\<close>, the registers are those \<open>a\<close> had, and those of \<open>b\<close> are saved in its slot.
\<close>

theorem context_switch_restores:
  assumes "a < length (tasks k)" "b < length (tasks k)" "a \<noteq> b"
  shows "cpu (cpu_switch_to b a ((cpu_switch_to a b k)\<lparr>cpu := regs\<rparr>)) = cpu k \<and>
    tctx (tasks (cpu_switch_to b a ((cpu_switch_to a b k)\<lparr>cpu := regs\<rparr>)) ! b) = regs"
  using assms by (simp add: cpu_switch_to_def Let_def upd_task_def)

theorem context_switch_restores_witness:
  "cpu (cpu_switch_to 1 0 ((cpu_switch_to 0 1 kernel2)\<lparr>cpu := zero_context\<lparr>x19 := 7\<rparr>\<rparr>)) = cpu kernel2"
  using context_switch_restores [of 0 kernel2 1 "zero_context\<lparr>x19 := 7\<rparr>"]
  by (simp add: kernel2_fields)

subsection \<open>Every run of the task system\<close>

inductive task_run :: "u64 \<Rightarrow> u64 \<Rightarrow> kernel \<Rightarrow> bool" for tramp hz where
  boot: "length (tinycc_tasks k) = MAX_TASKS \<Longrightarrow> task_run tramp hz (task_init k)"
| create: "task_run tramp hz k \<Longrightarrow> task_create_named tramp entry nm k = Some (r, k') \<Longrightarrow> task_run tramp hz k'"
| tick: "task_run tramp hz k \<Longrightarrow> task_run tramp hz (schedule tramp now k)"
| finish: "task_run tramp hz k \<Longrightarrow> task_run tramp hz (task_exit tramp now k)"
| kill: "task_run tramp hz k \<Longrightarrow> task_run tramp hz (snd (task_kill tramp now i k))"
| sleep: "task_run tramp hz k \<Longrightarrow> task_run tramp hz (task_sleep_ms tramp hz t0 now ms k)"
| running: "task_run tramp hz k \<Longrightarrow> task_run tramp hz (k\<lparr>cpu := regs, km := m\<rparr>)"

lemma used_slot_mono:
  assumes "task_inv k" "i < MAX_TASKS" "state (tasks k ! i) \<noteq> TASK_UNUSED"
  shows "state (tasks (schedule tramp now k) ! i) \<noteq> TASK_UNUSED"
  using assms
  by (auto simp: schedule_fields schedule_switch_def Let_def task_inv_def cpu_switch_to_nth wake_sleepers_nth)

lemma current_used_schedule:
  assumes "task_inv k" "state (tasks k ! current_task k) \<noteq> TASK_UNUSED"
  shows "state (tasks (schedule tramp now k) ! current_task (schedule tramp now k)) \<noteq> TASK_UNUSED"
proof -
  have b: "num_tasks k \<le> MAX_TASKS" "current_task k < num_tasks k" using assms by (auto simp: task_inv_def)
  show ?thesis
  proof (rule schedule_switch_cases [OF assms(1), of now])
    assume "schedule_switch now k = (False, task_wake_sleepers now k)"
    then show ?thesis using wake_state(1) [OF assms(1), of "current_task k" now] assms b
      by (simp add: schedule_fields)
  next
    fix d assume "current_task (snd (schedule_switch now k)) = rr (num_tasks k) (current_task k) d"
      "\<And>i. i < MAX_TASKS \<Longrightarrow> state (tasks (snd (schedule_switch now k)) ! i) =
         (if i = rr (num_tasks k) (current_task k) d then TASK_RUNNING
          else if i = current_task k \<and> state (tasks (task_wake_sleepers now k) ! i) = TASK_RUNNING then TASK_READY
          else state (tasks (task_wake_sleepers now k) ! i))"
    moreover have "rr (num_tasks k) (current_task k) d < MAX_TASKS"
      using b by (intro order_less_le_trans [OF mod_less_divisor]) auto
    ultimately show ?thesis by (simp add: schedule_fields)
  qed
qed

lemma task_create_used:
  assumes "task_inv k" "task_create_named tramp entry nm k = Some (r, k')" "j < MAX_TASKS"
    "state (tasks k ! j) \<noteq> TASK_UNUSED"
  shows "state (tasks k' ! j) \<noteq> TASK_UNUSED \<and> current_task k' = current_task k"
proof (cases "task_find_slot k")
  case None
  with assms show ?thesis by (simp add: task_create_named_def)
next
  case (Some i)
  note i = task_find_slot_bounds [OF Some]
  have len: "length (tasks k) = MAX_TASKS" using assms(1) by (simp add: task_inv_def)
  have "state (tasks (task_reap_slot i k) ! j) = state (tasks k ! j)"
    using len assms(3) by (simp add: task_reap_slot_def)
  then show ?thesis
    using assms(2-4) len
    by (auto simp: task_create_named_def Some Let_def split: Option.bind_splits if_splits)
qed

lemma task_run_inv:
  "task_run tramp hz k \<Longrightarrow> task_inv k \<and> state (tasks k ! current_task k) \<noteq> TASK_UNUSED"
proof (induction rule: task_run.induct)
  case (boot k)
  then show ?case using task_init_inv [OF boot] by (simp add: task_init_def)
next
  case (create k entry nm r k')
  then have inv: "task_inv k" and used: "state (tasks k ! current_task k) \<noteq> TASK_UNUSED" by auto
  have c: "current_task k < MAX_TASKS" using inv by (auto simp: task_inv_def)
  show ?case
    using task_create_inv [OF inv create.hyps(2)] task_create_used [OF inv create.hyps(2) c used] by simp
next
  case (tick k now)
  then show ?case using schedule_inv current_used_schedule by blast
next
  case (finish k now)
  then have inv: "task_inv k" and used: "state (tasks k ! current_task k) \<noteq> TASK_UNUSED" by auto
  have c: "current_task k < MAX_TASKS" "length (tasks k) = MAX_TASKS" using inv by (auto simp: task_inv_def)
  have "task_inv (task_cleanup (current_task k) k)" using inv c(1) used by (rule task_cleanup_inv)
  moreover have "state (tasks (task_cleanup (current_task k) k) ! current_task k) = TASK_DEAD"
    using c by (simp add: task_cleanup_task)
  ultimately show ?case
    unfolding task_exit_def by (intro conjI schedule_inv current_used_schedule) simp_all
next
  case (kill k now i)
  then have inv: "task_inv k" and used: "state (tasks k ! current_task k) \<noteq> TASK_UNUSED" by auto
  have c: "current_task k < MAX_TASKS" "length (tasks k) = MAX_TASKS" "num_tasks k \<le> MAX_TASKS"
    using inv by (auto simp: task_inv_def)
  have cl: "task_inv (task_cleanup (nat i) k)"
    "state (tasks (task_cleanup (nat i) k) ! current_task (task_cleanup (nat i) k)) \<noteq> TASK_UNUSED"
    if "0 < i" "i < int (num_tasks k)" "state (tasks k ! nat i) \<noteq> TASK_UNUSED"
    using that inv used c by (auto intro!: task_cleanup_inv simp: task_cleanup_task)
  show ?case
    using inv used cl schedule_inv [OF cl(1)] current_used_schedule [OF cl]
    by (auto simp: task_kill_def Let_def)
next
  case (sleep k t0 now ms)
  then have inv: "task_inv k" and used: "state (tasks k ! current_task k) \<noteq> TASK_UNUSED" by auto
  have c: "current_task k < length (tasks k)" using inv by (auto simp: task_inv_def)
  let ?k = "upd_task (current_task k)
    (\<lambda>t. t\<lparr>state := TASK_SLEEPING, wake_time := t0 + timer_ms_to_ticks hz ms\<rparr>) k"
  have "task_inv ?k" using inv used by (intro task_inv_upd) (auto simp: task_inv_def)
  moreover have "state (tasks ?k ! current_task ?k) \<noteq> TASK_UNUSED" using c by simp
  ultimately show ?case
    unfolding task_sleep_ms_def by (intro conjI schedule_inv current_used_schedule)
next
  case (running k regs m)
  then show ?case by (simp add: task_inv_def)
qed



subsection \<open>A task that waits for the processor\<close>

text \<open>
  A task that has called \<open>schedule\<close> goes on when it is the current task again: at once if
  \<open>schedule\<close> has not switched, else when the scheduler has picked it. Until then other things
  happen; \<open>others i\<close> is the \<open>i\<close>-th of them, on the kernel and the object the task waits for.
\<close>

partial_function (option) until_running ::
  "nat \<Rightarrow> (nat \<Rightarrow> kernel \<times> 'a \<Rightarrow> kernel \<times> 'a) \<Rightarrow> nat \<Rightarrow> kernel \<times> 'a \<Rightarrow> (nat \<times> kernel \<times> 'a) option"
where
  "until_running me others n ks =
     (if current_task (fst ks) = me then Some (n, ks) else until_running me others (Suc n) (others n ks))"

definition waiting :: "nat \<Rightarrow> kernel \<Rightarrow> bool" where
  "waiting me k \<longleftrightarrow> task_inv k \<and> me < num_tasks k \<and> me \<noteq> current_task k \<and> state (tasks k ! me) = TASK_BLOCKED"

text \<open>The scheduler does not pick a blocked task.\<close>

lemma schedule_blocked:
  assumes inv: "task_inv k" and me: "me < num_tasks k" "state (tasks k ! me) = TASK_BLOCKED"
    and "me \<noteq> current_task k \<or> (\<exists>j < num_tasks k. j \<noteq> me \<and> state (tasks k ! j) = TASK_READY)"
  shows "waiting me (schedule tramp now k)"
proof -
  let ?w = "task_wake_sleepers now k"
  have b: "num_tasks k \<le> MAX_TASKS" "length (tasks k) = MAX_TASKS" using inv by (auto simp: task_inv_def)
  have w: "state (tasks ?w ! me) = TASK_BLOCKED" using me b by (simp add: wake_sleepers_nth wake_one_def)
  have "me \<noteq> current_task (schedule tramp now k) \<and> state (tasks (schedule tramp now k) ! me) = TASK_BLOCKED"
  proof (rule schedule_switch_cases [OF inv, of now])
    assume s: "schedule_switch now k = (False, ?w)" and one: "\<And>i. i < num_tasks k \<Longrightarrow> runnable (tasks ?w ! i) \<Longrightarrow> i = current_task k"
    have "j = current_task k" if "j < num_tasks k" "state (tasks k ! j) = TASK_READY" for j
      using one [of j] wake_state(3) [OF inv _ that(2)] that(1) b by (auto simp: runnable_def)
    then show ?thesis using s w assms(4) by (auto simp: schedule_fields)
  next
    fix d assume d: "current_task (snd (schedule_switch now k)) = rr (num_tasks k) (current_task k) d"
      "runnable (tasks ?w ! rr (num_tasks k) (current_task k) d)"
      "\<And>i. i < MAX_TASKS \<Longrightarrow> state (tasks (snd (schedule_switch now k)) ! i) =
        (if i = rr (num_tasks k) (current_task k) d then TASK_RUNNING
         else if i = current_task k \<and> state (tasks ?w ! i) = TASK_RUNNING then TASK_READY else state (tasks ?w ! i))"
    have "me \<noteq> rr (num_tasks k) (current_task k) d" using d(2) w by (auto simp: runnable_def)
    then show ?thesis using d(1) d(3) [of me] w me b by (simp add: schedule_fields)
  qed
  then show ?thesis using schedule_inv [OF inv] me by (simp add: waiting_def)
qed

lemma waiting_tick: "waiting me k \<Longrightarrow> waiting me (schedule tramp now k)"
  unfolding waiting_def [of me k] by (auto intro: schedule_blocked)

lemma until_running_waits:
  assumes "waiting me k" "n \<le> m" "\<And>i ks. n \<le> i \<Longrightarrow> i < m \<Longrightarrow> others i ks = (schedule tramp (clock i) (fst ks), snd ks)"
  shows "\<exists>k'. waiting me k' \<and> until_running me others n (k, s) = until_running me others m (k', s)"
  using assms
proof (induction "m - n" arbitrary: n k)
  case (Suc d)
  have "until_running me others n (k, s) = until_running me others (Suc n) (schedule tramp (clock n) k, s)"
    using Suc.prems(1) Suc.hyps(2) Suc.prems(3) [of n "(k, s)"]
    by (subst until_running.simps) (auto simp: waiting_def)
  moreover have "\<exists>k'. waiting me k' \<and> until_running me others (Suc n) (schedule tramp (clock n) k, s) = until_running me others m (k', s)"
    by (rule Suc.hyps(1)) (use Suc.hyps(2) Suc.prems waiting_tick in auto)
  ultimately show ?case by simp
qed auto

text \<open>A ready task is picked after as many calls of the scheduler as it is places away.\<close>

lemma until_running_ready:
  assumes "task_inv k" "me < num_tasks k" "me \<noteq> current_task k \<Longrightarrow> state (tasks k ! me) = TASK_READY"
    and "\<And>i ks. n \<le> i \<Longrightarrow> others i ks = (schedule tramp (clock i) (fst ks), snd ks)"
  shows "\<exists>m k'. until_running me others n (k, s) = Some (m, k', s) \<and> current_task k' = me \<and> task_inv k'"
  using assms
proof (induction "dist (num_tasks k) (current_task k) me" arbitrary: n k rule: less_induct)
  case less
  show ?case
  proof (cases "current_task k = me")
    case True
    then show ?thesis using less.prems(1) by (subst until_running.simps) auto
  next
    case False
    let ?k = "schedule tramp (clock n) k"
    have st: "state (tasks k ! me) = TASK_READY" using less.prems(3) False by simp
    have s: "until_running me others n (k, s) = until_running me others (Suc n) (?k, s)"
      using False less.prems(4) [of n "(k, s)"] by (subst until_running.simps) simp
    from schedule_progress [OF less.prems(1,2) False [symmetric] st, of tramp "clock n"]
    show ?thesis
    proof (elim disjE conjE)
      assume "current_task ?k = me"
      then show ?thesis unfolding s using schedule_inv [OF less.prems(1)] by (subst until_running.simps) auto
    next
      assume "state (tasks ?k ! me) = TASK_READY"
        "dist (num_tasks k) (current_task ?k) me < dist (num_tasks k) (current_task k) me"
      then show ?thesis unfolding s using less.prems schedule_inv [OF less.prems(1)] by (intro less.hyps) auto
    qed
  qed
qed

text \<open>
  A blocked task that one action of another task makes ready: before it and after it the other
  tasks only take turns.
\<close>

lemma until_running_woken:
  assumes w: "waiting me k" and o: "\<And>i ks. others i ks = (if i = m then act ks else (schedule tramp (clock i) (fst ks), snd ks))"
    and n: "n \<le> m" and act: "\<And>k'. waiting me k' \<Longrightarrow> fst (act (k', s)) = upd_task me (\<lambda>t. t\<lparr>state := TASK_READY\<rparr>) k' \<and> P (snd (act (k', s)))"
  shows "\<exists>n' k' s'. until_running me others n (k, s) = Some (n', k', s') \<and> current_task k' = me \<and> task_inv k' \<and> P s'"
proof -
  obtain k1 where k1: "waiting me k1" "until_running me others n (k, s) = until_running me others m (k1, s)"
    using until_running_waits [OF w n, of others tramp clock s] o by auto
  let ?k = "upd_task me (\<lambda>t. t\<lparr>state := TASK_READY\<rparr>) k1"
  have i: "task_inv k1" "me < num_tasks k1" "me \<noteq> current_task k1" "state (tasks k1 ! me) = TASK_BLOCKED" using k1(1) by (auto simp: waiting_def)
  obtain s' where s': "others m (k1, s) = (?k, s')" "P s'" using o act [OF k1(1)] by (metis prod.collapse)
  then have "until_running me others m (k1, s) = until_running me others (Suc m) (?k, s')"
    using i(3) by (subst until_running.simps) simp
  moreover have "task_inv ?k" "state (tasks ?k ! me) = TASK_READY" using i by (auto simp: task_inv_def)
  ultimately show ?thesis using k1(2) until_running_ready [of ?k me "Suc m" others tramp clock s'] i(2) o s'(2) by fastforce
qed

subsection \<open>Stacks are returned\<close>

lemma proc_free_0 [simp]: "proc_free 0 m = m"
  by (simp add: proc_free_def)

lemma task_cleanup_heap:
  assumes "i < length (tasks k)" "i < MAX_TASKS" "tid (tasks k ! i) = int i"
    "prog (tinycc_tasks k ! i) = 0" "el1_stack (tasks k ! i) = 0" "tproc (tasks k ! i) = 0"
  shows "kheap_of (task_cleanup i k) = kfree (stack (tasks k ! i)) (kheap_of k)"
  using assms by (simp add: task_cleanup_def tinycc_task_cleanup_def Let_def)

text \<open>
  C19: creating a task and cleaning it up again leaks nothing. If \<open>task_create_named\<close> succeeds
  from a state whose live heap pointers are \<open>L\<close>, the new task's stack is a fresh 4 KB buffer,
  its stack pointer is the aligned top of that buffer, its first context enters the
  trampoline with the entry point in \<open>x19\<close>, and \<open>task_cleanup\<close> of the new task leaves exactly
  \<open>L\<close> live.
\<close>

theorem task_create_cleanup_no_leak:
  assumes "task_inv k" "heap_live (kheap_of k) L"
    and "task_create_named tramp entry nm k = Some (r, k')" "0 \<le> r"
    and "\<forall>i < MAX_TASKS. state (tasks k ! i) = TASK_DEAD \<longrightarrow> stack (tasks k ! i) = 0"
    and "\<forall>c \<in> set (tinycc_tasks k). prog c = 0"
  shows "\<exists>i < MAX_TASKS. r = int i \<and> state (tasks k' ! i) = TASK_READY \<and>
    stack (tasks k' ! i) \<notin> L \<and> 4096 \<le> live_extent (kheap_of k') (stack (tasks k' ! i)) \<and>
    sp (tctx (tasks k' ! i)) = and (stack (tasks k' ! i) + 4096) (not 0xF) \<and>
    x19 (tctx (tasks k' ! i)) = entry \<and> x30 (tctx (tasks k' ! i)) = tramp \<and>
    heap_live (kheap_of k') (insert (stack (tasks k' ! i)) L) \<and>
    heap_live (kheap_of (task_cleanup i k')) L"
proof (cases "task_find_slot k")
  case None
  with assms show ?thesis by (simp add: task_create_named_def)
next
  case (Some i)
  note i = task_find_slot_bounds [OF Some]
  have len: "length (tasks k) = MAX_TASKS" "length (tinycc_tasks k) = MAX_TASKS"
    using assms(1) by (auto simp: task_inv_def)
  have reap: "task_reap_slot i k = k" using i assms(5) by (auto simp: task_reap_slot_def)
  obtain stk h where a: "kmalloc_aligned 4096 16 (kheap_of k) = Some (stk, h)" "stk \<noteq> 0"
    and k': "stack (tasks k' ! i) = stk" "kheap_of k' = h" "r = int i" "state (tasks k' ! i) = TASK_READY"
      "tctx (tasks k' ! i) = zero_context\<lparr>x19 := entry, x30 := tramp, sp := and (stk + 4096) (not 0xF)\<rparr>"
      "el1_stack (tasks k' ! i) = 0" "tproc (tasks k' ! i) = 0" "tid (tasks k' ! i) = int i"
      "tinycc_tasks k' = tinycc_tasks k" "length (tasks k') = MAX_TASKS"
    using assms(3,4) i len reap
    by (auto simp: task_create_named_def Some Let_def split: Option.bind_splits if_splits)
  have "kmalloc 4096 (kheap_of k) = Some (stk, h)" using a by (simp add: kmalloc_def)
  note f = kh.alloc_fresh [OF assms(2) _ _ this a(2)]
  have "prog (tinycc_tasks k' ! i) = 0" using assms(6) len i k' by simp
  then have "kheap_of (task_cleanup i k') = kfree stk h"
    using task_cleanup_heap [of i k'] k' i by simp
  moreover have "heap_live (kfree stk h) L"
    using kh.release_inv [OF f(2), of stk] f(1) by simp
  ultimately show ?thesis using f k' i by (intro exI [of _ i]) simp
qed

theorem task_create_cleanup_no_leak_witness:
  "\<exists>r k'. task_create_named 0x8000 0x9000 (Some ''shell'') (task_init kernel0) = Some (r, k') \<and>
     0 \<le> r \<and> heap_live (kheap_of (task_cleanup 1 k')) {}"
proof -
  let ?k = "task_init kernel0"
  obtain k' where c: "task_create_named 0x8000 0x9000 (Some ''shell'') ?k = Some (1, k')"
    by (simp add: task_create_named_def task_find_slot_def task_reap_slot_def task_init_def Let_def
      kernel0_def heap_eval upt_rec zero_task_def upd_task_def set_heap_def)
  have "heap_inv 0x1000 (alloc_init 0x1000 0x100000 heap0) [] {}" by (rule alloc_init_inv) simp_all
  then have live: "heap_live (kheap_of ?k) {}"
    by (auto simp: heap_live_def task_init_def kernel0_def)
  have dead: "\<forall>i < MAX_TASKS. state (tasks ?k ! i) = TASK_DEAD \<longrightarrow> stack (tasks ?k ! i) = 0"
    by (simp add: task_init_def zero_task_def nth_list_update)
  have progs: "\<forall>c \<in> set (tinycc_tasks ?k). prog c = 0" by (simp add: task_init_def kernel0_def)
  show ?thesis
    using task_create_cleanup_no_leak [OF kernel0_inv live c _ dead progs] c by auto
qed

subsection \<open>Two gaps\<close>

text \<open>
  When the stack cannot be allocated, \<open>task_create_named\<close> reports failure after it has already
  marked the slot ready: the scheduler may then run a task that has no stack.
\<close>

lemma task_create_failed_leaves_ready:
  assumes "task_inv k" "task_find_slot k = Some i" "state (tasks k ! i) = TASK_UNUSED"
    "kmalloc_aligned 4096 16 (kheap_of k) = Some (0, h)"
  shows "\<exists>k'. task_create_named tramp entry nm k = Some (- 1, k') \<and>
    state (tasks k' ! i) = TASK_READY \<and> stack (tasks k' ! i) = 0"
  using assms task_find_slot_bounds [OF assms(2)]
  by (simp add: task_create_named_def Let_def task_reap_slot_def task_inv_def)

text \<open>
  When no task at all is runnable, \<open>schedule\<close> returns to its caller: a task that has just
  blocked or put itself to sleep goes on running.
\<close>

lemma schedule_returns_to_blocked:
  assumes "task_inv k" "\<And>i. i < num_tasks k \<Longrightarrow> \<not> runnable (tasks (task_wake_sleepers now k) ! i)"
  shows "schedule tramp now k = task_wake_sleepers now k"
  by (rule schedule_switch_cases [OF assms(1), of now])
     (use assms in \<open>auto simp: schedule_def task_inv_def\<close>)

end
