(* ===== verification/Semaphore.thy ===== *)
theory Semaphore
  imports Sched
begin

text \<open>
  Spinlocks (\<^verbatim>\<open>src/spinlock.h\<close>), counting semaphores (\<^verbatim>\<open>src/semaphore.c\<close>) and mutexes
  (\<^verbatim>\<open>src/mutex.h\<close>). The body of every semaphore operation runs between
  \<open>spin_lock_irqsave\<close> and \<open>spin_unlock_irqrestore\<close>, so it is one atomic step; \<open>sem_wait\<close>
  gives up the processor between two such steps and goes on when the scheduler picks its task
  again; what happens in between is a parameter of the model.
\<close>

subsection \<open>Spinlocks\<close>

record spinlock_t =
  lock :: u32

definition spin_init :: "spinlock_t \<Rightarrow> spinlock_t" where
  "spin_init s = s\<lparr>lock := 0\<rparr>"

text \<open>
  The exclusive-access loop retries while the lock word is not zero or the store-exclusive
  fails; \<open>env n\<close> is the lock word the \<open>n\<close>-th load sees and \<open>stored n\<close> whether the \<open>n\<close>-th
  store-exclusive succeeds. The result is the number of the attempt that took the lock.
\<close>

partial_function (option) spin_lock :: "(nat \<Rightarrow> u32) \<Rightarrow> (nat \<Rightarrow> bool) \<Rightarrow> nat \<Rightarrow> nat option" where
  "spin_lock env stored n =
     (if env n \<noteq> 0 then spin_lock env stored (Suc n)
      else if \<not> stored n then spin_lock env stored (Suc n) else Some n)"

definition spin_unlock :: "spinlock_t \<Rightarrow> spinlock_t" where
  "spin_unlock s = s\<lparr>lock := 0\<rparr>"

text \<open>\<open>stored\<close> says whether the single store-exclusive succeeds.\<close>

definition spin_trylock :: "bool \<Rightarrow> spinlock_t \<Rightarrow> bool \<times> spinlock_t" where
  "spin_trylock stored s =
     (if lock s \<noteq> 0 then (False, s) else if stored then (True, s\<lparr>lock := 1\<rparr>) else (False, s))"

subsection \<open>Semaphores\<close>

abbreviation SEM_WAITQ_MAX :: nat where
  "SEM_WAITQ_MAX \<equiv> 16"

record semaphore_t =
  count :: int
  slock :: spinlock_t
  waitq :: "int list"
  wait_head :: nat
  wait_tail :: nat

definition sem_init :: "int \<Rightarrow> semaphore_t \<Rightarrow> semaphore_t" where
  "sem_init c s = s\<lparr>count := c, slock := spin_init (slock s), wait_head := 0, wait_tail := 0\<rparr>"

definition waitq_push :: "int \<Rightarrow> semaphore_t \<Rightarrow> int \<times> semaphore_t" where
  "waitq_push i s =
     (let nx = (wait_head s + 1) mod SEM_WAITQ_MAX
      in if nx = wait_tail s then (- 1, s)
         else (0, s\<lparr>waitq := (waitq s)[wait_head s := i], wait_head := nx\<rparr>))"

definition waitq_pop :: "semaphore_t \<Rightarrow> int \<times> semaphore_t" where
  "waitq_pop s =
     (if wait_tail s = wait_head s then (- 1, s)
      else (waitq s ! wait_tail s, s\<lparr>wait_tail := (wait_tail s + 1) mod SEM_WAITQ_MAX\<rparr>))"

text \<open>
  One turn of the loop of \<open>sem_wait\<close>: either the permit is taken, or the caller queues itself,
  blocks and calls \<open>schedule\<close>. When the wait queue is full it only calls \<open>schedule\<close>.
\<close>

definition sem_wait_turn :: "u64 \<Rightarrow> u64 \<Rightarrow> kernel \<times> semaphore_t \<Rightarrow> bool \<times> kernel \<times> semaphore_t" where
  "sem_wait_turn tramp now = (\<lambda>(k, s).
     if count s > 0 then (True, k, s\<lparr>count := count s - 1\<rparr>)
     else
       let me = current_task k;
           (r, s1) = waitq_push (int me) s;
           k1 = (if r = 0 then upd_task me (\<lambda>t. t\<lparr>state := TASK_BLOCKED, wake_time := 0\<rparr>) k else k)
       in (False, schedule tramp now k1, s1))"

text \<open>
  The loop. When \<open>schedule\<close> has switched to another task, the caller goes on only when the
  scheduler has picked it again; \<open>others i\<close> is the \<open>i\<close>-th thing that happens meanwhile and \<open>now i\<close> the
  tick count at that time.
\<close>

partial_function (option) sem_wait ::
  "u64 \<Rightarrow> (nat \<Rightarrow> u64) \<Rightarrow> (nat \<Rightarrow> kernel \<times> semaphore_t \<Rightarrow> kernel \<times> semaphore_t) \<Rightarrow> nat \<Rightarrow> kernel \<times> semaphore_t \<Rightarrow>
   (kernel \<times> semaphore_t) option"
where
  "sem_wait tramp now others n ks =
     (case sem_wait_turn tramp (now n) ks of
        (done, ks') \<Rightarrow>
          if done then Some ks'
          else do { (n', ks'') \<leftarrow> until_running (current_task (fst ks)) others n ks';
                    sem_wait tramp now others (Suc n') ks'' })"

definition sem_signal :: "kernel \<times> semaphore_t \<Rightarrow> kernel \<times> semaphore_t" where
  "sem_signal = (\<lambda>(k, s).
     let (i, s1) = waitq_pop s
     in if i \<ge> 0 then (upd_task (nat i) (\<lambda>t. t\<lparr>state := TASK_READY\<rparr>) k, s1\<lparr>count := count s1 + 1\<rparr>)
        else (k, s1\<lparr>count := count s1 + 1\<rparr>))"

definition sem_trywait :: "semaphore_t \<Rightarrow> bool \<times> semaphore_t" where
  "sem_trywait s = (if count s > 0 then (True, s\<lparr>count := count s - 1\<rparr>) else (False, s))"

subsection \<open>Mutexes\<close>

record mutex_t =
  sem :: semaphore_t

definition mutex_init :: "mutex_t \<Rightarrow> mutex_t" where
  "mutex_init m = m\<lparr>sem := sem_init 1 (sem m)\<rparr>"

definition mutex_lock ::
  "u64 \<Rightarrow> (nat \<Rightarrow> u64) \<Rightarrow> (nat \<Rightarrow> kernel \<times> semaphore_t \<Rightarrow> kernel \<times> semaphore_t) \<Rightarrow> kernel \<times> mutex_t \<Rightarrow>
   (kernel \<times> mutex_t) option"
where
  "mutex_lock tramp now others = (\<lambda>(k, m).
     map_option (\<lambda>(k', s'). (k', m\<lparr>sem := s'\<rparr>)) (sem_wait tramp now others 0 (k, sem m)))"

definition mutex_unlock :: "kernel \<times> mutex_t \<Rightarrow> kernel \<times> mutex_t" where
  "mutex_unlock = (\<lambda>(k, m). case sem_signal (k, sem m) of (k', s') \<Rightarrow> (k', m\<lparr>sem := s'\<rparr>))"

definition mutex_trylock :: "mutex_t \<Rightarrow> bool \<times> mutex_t" where
  "mutex_trylock m = (case sem_trywait (sem m) of (r, s') \<Rightarrow> (r, m\<lparr>sem := s'\<rparr>))"

subsection \<open>The wait queue is a bounded queue of task numbers\<close>

definition sem_waiters :: "semaphore_t \<Rightarrow> int list" where
  "sem_waiters s = ring_items SEM_WAITQ_MAX (waitq s) (wait_head s) (wait_tail s)"

definition sem_inv :: "semaphore_t \<Rightarrow> bool" where
  "sem_inv s \<longleftrightarrow> ring_ok SEM_WAITQ_MAX (waitq s) (wait_head s) (wait_tail s) \<and>
     0 \<le> count s \<and> (\<forall>i \<in> set (sem_waiters s). 0 \<le> i \<and> i < int MAX_TASKS)"

lemma waitq_push_frame [simp]: "count (snd (waitq_push i s)) = count s"
  by (simp add: waitq_push_def Let_def)

lemma waitq_pop_frame [simp]: "count (snd (waitq_pop s)) = count s"
  by (simp add: waitq_pop_def)

definition waitq_ok :: "semaphore_t \<Rightarrow> bool" where
  "waitq_ok s \<longleftrightarrow> ring_ok SEM_WAITQ_MAX (waitq s) (wait_head s) (wait_tail s)"

text \<open>The two C functions in the shape of the queue interface: \<open>-1\<close> is refusal.\<close>

definition waitq_push_opt :: "int \<Rightarrow> semaphore_t \<Rightarrow> semaphore_t option" where
  "waitq_push_opt i s = (if fst (waitq_push i s) = 0 then Some (snd (waitq_push i s)) else None)"

definition waitq_pop_opt :: "semaphore_t \<Rightarrow> (int \<times> semaphore_t) option" where
  "waitq_pop_opt s = (if wait_tail s = wait_head s then None else Some (waitq_pop s))"

interpretation wq: bounded_fifo waitq_push_opt waitq_pop_opt sem_waiters waitq_ok "SEM_WAITQ_MAX - 1"
proof (unfold_locales, goal_cases)
  case (1 q x)
  then show ?case
    using ring_items_full_iff [of SEM_WAITQ_MAX "waitq q" "wait_head q" "wait_tail q"]
    by (auto simp: waitq_ok_def waitq_push_opt_def waitq_push_def sem_waiters_def Let_def)
next
  case (2 q x q')
  then show ?case
    using ring_push_items [of SEM_WAITQ_MAX "waitq q" "wait_head q" "wait_tail q" x]
    by (auto simp: waitq_ok_def waitq_push_opt_def waitq_push_def sem_waiters_def Let_def split: if_splits)
next
  case (3 q)
  then show ?case
    using ring_items_empty_iff [of SEM_WAITQ_MAX "waitq q" "wait_head q" "wait_tail q"]
    by (auto simp: waitq_ok_def waitq_pop_opt_def sem_waiters_def)
next
  case (4 q x q')
  then show ?case
    using ring_pop_items [of SEM_WAITQ_MAX "waitq q" "wait_head q" "wait_tail q"]
    by (auto simp: waitq_ok_def waitq_pop_opt_def waitq_pop_def sem_waiters_def split: if_splits)
next
  case (5 q)
  then show ?case
    using ring_items_bound [of SEM_WAITQ_MAX "waitq q" "wait_head q" "wait_tail q"]
    by (auto simp: waitq_ok_def sem_waiters_def)
qed

lemma waitq_push_cases:
  assumes "waitq_ok s"
  shows "waitq_push i s = (- 1, s) \<and> length (sem_waiters s) = SEM_WAITQ_MAX - 1 \<or>
    fst (waitq_push i s) = 0 \<and> waitq_ok (snd (waitq_push i s)) \<and>
    sem_waiters (snd (waitq_push i s)) = sem_waiters s @ [i]"
  using wq.push_full [OF assms, of i] wq.push_some [OF assms, of i]
  by (auto simp: waitq_push_opt_def waitq_push_def Let_def split: if_splits)

lemma waitq_pop_cases:
  assumes "waitq_ok s"
  shows "waitq_pop s = (- 1, s) \<and> sem_waiters s = [] \<or>
    waitq_ok (snd (waitq_pop s)) \<and> sem_waiters s = fst (waitq_pop s) # sem_waiters (snd (waitq_pop s))"
  using wq.pop_empty [OF assms] wq.pop_some [OF assms]
  by (cases "waitq_pop_opt s") (auto simp: waitq_pop_opt_def waitq_pop_def split: if_splits)

lemma sem_inv_alt:
  "sem_inv s \<longleftrightarrow> waitq_ok s \<and> 0 \<le> count s \<and> (\<forall>i \<in> set (sem_waiters s). 0 \<le> i \<and> i < int MAX_TASKS)"
  by (simp add: sem_inv_def waitq_ok_def)

lemma waiters_count [simp]: "sem_waiters (s\<lparr>count := c\<rparr>) = sem_waiters s" "waitq_ok (s\<lparr>count := c\<rparr>) = waitq_ok s"
  by (simp_all add: sem_waiters_def waitq_ok_def)

lemma sem_init_inv [inv_intros]:
  "0 \<le> c \<Longrightarrow> length (waitq s) = SEM_WAITQ_MAX \<Longrightarrow> sem_inv (sem_init c s) \<and> sem_waiters (sem_init c s) = []"
  by (simp add: sem_inv_def sem_init_def ring_ok_def sem_waiters_def ring_items_def ring_count_def)

text \<open>What one turn of \<open>sem_wait\<close> does, by cases on the permit count and the queue.\<close>

lemma sem_wait_turn_cases:
  assumes "sem_inv s" "current_task k < MAX_TASKS"
  obtains (take) "0 < count s" "sem_wait_turn tramp now (k, s) = (True, k, s\<lparr>count := count s - 1\<rparr>)"
  | (block) s' where "count s = 0" "sem_inv s'" "count s' = 0"
      "sem_waiters s' = sem_waiters s @ [int (current_task k)]"
      "sem_wait_turn tramp now (k, s) = (False,
         schedule tramp now (upd_task (current_task k) (\<lambda>t. t\<lparr>state := TASK_BLOCKED, wake_time := 0\<rparr>) k), s')"
  | (full) "count s = 0" "length (sem_waiters s) = SEM_WAITQ_MAX - 1"
      "sem_wait_turn tramp now (k, s) = (False, schedule tramp now k, s)"
proof (cases "0 < count s")
  case True
  then show thesis by (intro take) (simp_all add: sem_wait_turn_def)
next
  case False
  then have c: "count s = 0" and ok: "waitq_ok s" using assms by (auto simp: sem_inv_alt)
  let ?p = "waitq_push (int (current_task k)) s"
  from waitq_push_cases [OF ok, of "int (current_task k)"] show thesis
  proof (elim disjE conjE)
    assume "?p = (- 1, s)" "length (sem_waiters s) = SEM_WAITQ_MAX - 1"
    then show thesis using c by (intro full) (simp_all add: sem_wait_turn_def)
  next
    assume r: "fst ?p = 0" "waitq_ok (snd ?p)" "sem_waiters (snd ?p) = sem_waiters s @ [int (current_task k)]"
    show thesis
    proof (rule block [OF c])
      show "sem_inv (snd ?p)" using r assms by (auto simp: sem_inv_alt)
      show "sem_waiters (snd ?p) = sem_waiters s @ [int (current_task k)]" by (rule r)
      show "count (snd ?p) = 0" using c by simp
      show "sem_wait_turn tramp now (k, s) = (False,
         schedule tramp now (upd_task (current_task k) (\<lambda>t. t\<lparr>state := TASK_BLOCKED, wake_time := 0\<rparr>) k), snd ?p)"
        using c r(1) by (cases ?p) (simp add: sem_wait_turn_def Let_def)
    qed
  qed
qed

lemma sem_signal_cases:
  assumes "sem_inv s"
  obtains (idle) s' where "sem_waiters s = []" "sem_signal (k, s) = (k, s')" "sem_inv s'"
      "count s' = count s + 1" "sem_waiters s' = []"
  | (wake) i ws s' where "sem_waiters s = int i # ws" "i < MAX_TASKS"
      "sem_signal (k, s) = (upd_task i (\<lambda>t. t\<lparr>state := TASK_READY\<rparr>) k, s')" "sem_inv s'"
      "count s' = count s + 1" "sem_waiters s' = ws"
proof -
  have ok: "waitq_ok s" using assms by (simp add: sem_inv_alt)
  from waitq_pop_cases [OF ok] show thesis
  proof (elim disjE conjE)
    assume "waitq_pop s = (- 1, s)" "sem_waiters s = []"
    then show thesis using assms
      by (intro idle [of "s\<lparr>count := count s + 1\<rparr>"]) (auto simp: sem_signal_def sem_inv_alt)
  next
    assume r: "waitq_ok (snd (waitq_pop s))" "sem_waiters s = fst (waitq_pop s) # sem_waiters (snd (waitq_pop s))"
    then have i: "0 \<le> fst (waitq_pop s)" "fst (waitq_pop s) < int MAX_TASKS"
      using assms by (auto simp: sem_inv_alt)
    let ?s = "(snd (waitq_pop s))\<lparr>count := count s + 1\<rparr>"
    show thesis
    proof (rule wake [of "nat (fst (waitq_pop s))" "sem_waiters ?s" ?s])
      show "sem_waiters s = int (nat (fst (waitq_pop s))) # sem_waiters ?s" using r i by simp
      show "sem_signal (k, s) = (upd_task (nat (fst (waitq_pop s))) (\<lambda>t. t\<lparr>state := TASK_READY\<rparr>) k, ?s)"
        using i waitq_pop_frame [of s] by (cases "waitq_pop s") (simp add: sem_signal_def Let_def)
      show "sem_inv ?s" using r assms by (auto simp: sem_inv_alt)
    qed (use i in auto)
  qed
qed

lemma sem_signal_inv [inv_intros]:
  assumes "sem_inv s"
  shows "sem_inv (snd (sem_signal (k, s)))" "count (snd (sem_signal (k, s))) = count s + 1"
  by (rule sem_signal_cases [OF assms, of k]; simp)+

text \<open>
  \<open>sem_signal\<close> wakes the task that has waited longest. It always adds one permit; with
  waiters it removes the head of the wait queue, makes that task ready and leaves every other
  task alone; without waiters it changes no task.
\<close>

theorem sem_signal_wakes_first:
  assumes "sem_inv s" "length (tasks k) = MAX_TASKS" "sem_signal (k, s) = (k', s')"
  shows "count s' = count s + 1 \<and> sem_waiters s' = tl (sem_waiters s) \<and> sem_inv s' \<and>
    (sem_waiters s = [] \<longrightarrow> k' = k) \<and>
    (sem_waiters s \<noteq> [] \<longrightarrow> state (tasks k' ! nat (hd (sem_waiters s))) = TASK_READY) \<and>
    (\<forall>j < MAX_TASKS. sem_waiters s = [] \<or> int j \<noteq> hd (sem_waiters s) \<longrightarrow> tasks k' ! j = tasks k ! j)"
proof (cases rule: sem_signal_cases [OF assms(1), of k, case_names idle wake])
  case (idle s'')
  then show ?thesis using assms by simp
next
  case (wake i ws s'')
  then show ?thesis using assms by auto
qed

definition sem0 :: semaphore_t where
  "sem0 = \<lparr>count = 0, slock = \<lparr>lock = 0\<rparr>, waitq = replicate 16 0, wait_head = 0, wait_tail = 0\<rparr>"

definition sem_w2 :: semaphore_t where
  "sem_w2 = sem0\<lparr>waitq := (replicate 16 0)[0 := 2], wait_head := 1\<rparr>"

lemma sem_w2_facts: "sem_inv sem_w2" "sem_waiters sem_w2 = [2]"
  by (simp_all add: sem_w2_def sem0_def sem_inv_def ring_ok_def sem_waiters_def ring_items_def
    ring_count_def window_def)

theorem sem_signal_wakes_first_witness:
  "\<exists>k' s'. sem_signal (kernel2, sem_w2) = (k', s') \<and> count s' = 1 \<and> state (tasks k' ! 2) = TASK_READY"
proof -
  obtain k' s' where r: "sem_signal (kernel2, sem_w2) = (k', s')" by fastforce
  have "count s' = 1 \<and> state (tasks k' ! 2) = TASK_READY"
    using sem_signal_wakes_first [OF sem_w2_facts(1) kernel2_fields(4) r]
    by (simp add: sem_w2_facts) (simp add: sem_w2_def sem0_def)
  then show ?thesis using r by blast
qed

text \<open>
  C23: a blocked \<open>sem_wait\<close> returns after a signal. The caller finds no permit and no other waiter,
  and some other task is ready. While the caller is switched out, the others take turns
  under the scheduler, and after \<open>m\<close> turns the one that runs calls \<open>sem_signal\<close>. Then the
  scheduler picks the caller again, and \<open>sem_wait\<close> returns with the permit consumed and
  nobody queued. A caller that the signal did not make ready would never be picked.
\<close>

theorem sem_wait_returns_after_signal:
  assumes "sem_inv s" "count s = 0" "sem_waiters s = []" "task_inv k" "state (tasks k ! current_task k) = TASK_RUNNING"
    and "\<exists>j < num_tasks k. j \<noteq> current_task k \<and> state (tasks k ! j) = TASK_READY"
    and others: "\<And>i ks. others i ks = (if i = m then sem_signal ks else (schedule tramp (clock i) (fst ks), snd ks))"
  shows "\<exists>k' s'. sem_wait tramp now others 0 (k, s) = Some (k', s') \<and> current_task k' = current_task k \<and>
    count s' = 0 \<and> sem_waiters s' = [] \<and> sem_inv s'"
proof -
  let ?me = "current_task k" and ?k = "upd_task (current_task k) (\<lambda>t. t\<lparr>state := TASK_BLOCKED, wake_time := 0\<rparr>) k"
  have me: "?me < num_tasks k" "?me < MAX_TASKS" "length (tasks k) = MAX_TASKS" "num_tasks k \<le> MAX_TASKS"
    using assms(4) by (auto simp: task_inv_def)
  obtain s1 where s1: "sem_wait_turn tramp (now 0) (k, s) = (False, schedule tramp (now 0) ?k, s1)"
    "sem_inv s1" "count s1 = 0" "sem_waiters s1 = [int ?me]"
    by (rule sem_wait_turn_cases [OF assms(1) me(2), of tramp "now 0"]) (use assms(2,3) in auto)
  have w: "waiting ?me (schedule tramp (now 0) ?k)"
  proof (rule schedule_blocked)
    have "tid (tasks k ! ?me) = int ?me" using assms(4,5) me(2) unfolding task_inv_def by (elim conjE allE [of _ ?me]) simp
    then show "task_inv ?k" by (intro task_inv_upd [OF assms(4) me(2)]) simp_all
    show "?me \<noteq> current_task ?k \<or> (\<exists>j < num_tasks ?k. j \<noteq> ?me \<and> state (tasks ?k ! j) = TASK_READY)"
      using assms(6) me by auto
  qed (use me in simp_all)
  obtain s2 where s2: "\<And>k'. sem_signal (k', s1) = (upd_task ?me (\<lambda>t. t\<lparr>state := TASK_READY\<rparr>) k', s2)"
    "sem_inv s2" "count s2 = 1" "sem_waiters s2 = []"
  proof
    let ?s = "(snd (waitq_pop s1))\<lparr>count := 1\<rparr>"
    have p: "fst (waitq_pop s1) = int ?me" "waitq_ok (snd (waitq_pop s1))" "sem_waiters (snd (waitq_pop s1)) = []"
      using waitq_pop_cases [of s1] s1(2,4) by (auto simp: sem_inv_alt)
    show "sem_signal (k', s1) = (upd_task ?me (\<lambda>t. t\<lparr>state := TASK_READY\<rparr>) k', ?s)" for k'
      using p(1) s1(3) waitq_pop_frame [of s1] by (cases "waitq_pop s1") (simp add: sem_signal_def Let_def)
    show "sem_inv ?s" "count ?s = 1" "sem_waiters ?s = []" using p s1(2) by (simp_all add: sem_inv_alt)
  qed
  obtain n' k2 where u: "until_running ?me others 0 (schedule tramp (now 0) ?k, s1) = Some (n', k2, s2)" "current_task k2 = ?me"
    using until_running_woken [OF w others, of 0 s1 "\<lambda>s'. s' = s2"] s2(1) by auto
  have "sem_wait tramp now others (Suc n') (k2, s2) = Some (k2, s2\<lparr>count := 0\<rparr>)"
    using s2(3) by (subst sem_wait.simps) (simp add: sem_wait_turn_def)
  then have "sem_wait tramp now others 0 (k, s) = Some (k2, s2\<lparr>count := 0\<rparr>)"
    using s1(1) u(1) by (subst sem_wait.simps) simp
  moreover have "sem_inv (s2\<lparr>count := 0\<rparr>)" using s2 by (simp add: sem_inv_alt)
  ultimately show ?thesis using u(2) s2(4) by auto
qed

lemma sem0_inv: "sem_inv sem0" "sem_waiters sem0 = []"
  by (simp_all add: sem0_def sem_inv_def ring_ok_def sem_waiters_def ring_items_def ring_count_def)

theorem sem_wait_returns_after_signal_witness:
  "\<exists>k' s'. sem_wait 0x8000 (\<lambda>_. 5) (\<lambda>i ks. if i = 3 then sem_signal ks else (schedule 0x8000 (of_nat i) (fst ks), snd ks)) 0 (kernel2, sem0) =
     Some (k', s') \<and> current_task k' = 0 \<and> count s' = 0"
proof -
  have "\<exists>j < num_tasks kernel2. j \<noteq> current_task kernel2 \<and> state (tasks kernel2 ! j) = TASK_READY"
    by (rule exI [of _ 2]) (simp add: kernel2_fields)
  moreover have "state (tasks kernel2 ! current_task kernel2) = TASK_RUNNING" by (simp add: kernel2_def task_init_def)
  ultimately show ?thesis using sem_wait_returns_after_signal [OF sem0_inv(1) _ sem0_inv(2) kernel2_inv _ _ refl, of "0x8000" "\<lambda>_. 5" 3 "of_nat"]
    by (auto simp: sem0_def kernel2_fields)
qed

subsection \<open>Mutual exclusion\<close>

text \<open>
  All interleavings of tasks that use one mutex: a turn of \<open>mutex_lock\<close> that takes the mutex or
  blocks, \<open>mutex_trylock\<close>, \<open>mutex_unlock\<close> by a holder, and any change of the kernel state by
  unrelated activity. \<open>H\<close> is the set of tasks between a successful lock and their unlock.
\<close>

inductive mutex_run :: "u64 \<Rightarrow> kernel \<times> mutex_t \<times> nat set \<Rightarrow> bool" for tramp where
  start: "length (waitq (sem m)) = SEM_WAITQ_MAX \<Longrightarrow> mutex_run tramp (k, mutex_init m, {})"
| lock: "mutex_run tramp (k, m, H) \<Longrightarrow> current_task k < MAX_TASKS \<Longrightarrow>
    sem_wait_turn tramp now (k, sem m) = (got, k', s') \<Longrightarrow>
    mutex_run tramp (k', m\<lparr>sem := s'\<rparr>, if got then insert (current_task k) H else H)"
| trylock: "mutex_run tramp (k, m, H) \<Longrightarrow> mutex_trylock m = (got, m') \<Longrightarrow>
    mutex_run tramp (k, m', if got then insert (current_task k) H else H)"
| unlock: "mutex_run tramp (k, m, H) \<Longrightarrow> current_task k \<in> H \<Longrightarrow> mutex_unlock (k, m) = (k', m') \<Longrightarrow>
    mutex_run tramp (k', m', H - {current_task k})"
| others: "mutex_run tramp (k, m, H) \<Longrightarrow> mutex_run tramp (k', m, H)"

lemma mutex_run_inv:
  "mutex_run tramp c \<Longrightarrow> case c of (k, m, H) \<Rightarrow> sem_inv (sem m) \<and> finite H \<and> count (sem m) + int (card H) = 1"
proof (induction rule: mutex_run.induct)
  case (start m k)
  then show ?case using sem_init_inv [of 1 "sem m"] by (simp add: mutex_init_def) (simp add: sem_init_def)
next
  case (lock k m H now got k' s')
  then have I: "sem_inv (sem m)" "finite H" "count (sem m) + int (card H) = 1" by auto
  show ?case
  proof (rule sem_wait_turn_cases [OF I(1) lock.hyps(2), of tramp now])
    assume p: "0 < count (sem m)"
      "sem_wait_turn tramp now (k, sem m) = (True, k, (sem m)\<lparr>count := count (sem m) - 1\<rparr>)"
    then have "card H = 0" "count (sem m) = 1" using I(3) by linarith+
    with p I lock.hyps(3) show ?thesis by (auto simp: sem_inv_alt)
  next
    fix s'' assume "count (sem m) = 0" "sem_inv s''" "count s'' = 0" "sem_wait_turn tramp now (k, sem m) = (False,
      schedule tramp now (upd_task (current_task k) (\<lambda>t. t\<lparr>state := TASK_BLOCKED, wake_time := 0\<rparr>) k), s'')"
    then show ?thesis using I lock.hyps(3) by auto
  next
    assume "sem_wait_turn tramp now (k, sem m) = (False, schedule tramp now k, sem m)"
    then show ?thesis using I lock.hyps(3) by auto
  qed
next
  case (trylock k m H got m')
  then have I: "sem_inv (sem m)" "finite H" "count (sem m) + int (card H) = 1" by auto
  show ?case
  proof (cases "0 < count (sem m)")
    case True
    then have "card H = 0" "count (sem m) = 1" using I(3) by linarith+
    with True I trylock.hyps(2) show ?thesis
      by (auto simp: mutex_trylock_def sem_trywait_def sem_inv_alt)
  next
    case False
    with I trylock.hyps(2) show ?thesis by (auto simp: mutex_trylock_def sem_trywait_def)
  qed
next
  case (unlock k m H k' m')
  then have I: "sem_inv (sem m)" "finite H" "count (sem m) + int (card H) = 1" by auto
  have "0 < card H" using I unlock.hyps(2) by (auto simp: card_gt_0_iff)
  then have c: "int (card (H - {current_task k})) = int (card H) - 1" using unlock.hyps(2) I by simp
  show ?case
    by (rule sem_signal_cases [OF I(1), of k])
       (use unlock.hyps(3) I c in \<open>auto simp: mutex_unlock_def\<close>)
next
  case (others k m H k')
  then show ?case by simp
qed

text \<open>
  C6: mutual exclusion. However the tasks that share a mutex interleave, at most one of them is
  between a successful \<open>mutex_lock\<close> or \<open>mutex_trylock\<close> and its \<open>mutex_unlock\<close>.
\<close>

theorem mutex_mutual_exclusion:
  assumes "mutex_run tramp (k, m, H)" "i \<in> H" "j \<in> H"
  shows "i = j"
proof -
  have I: "finite H" "count (sem m) + int (card H) = 1" "0 \<le> count (sem m)"
    using mutex_run_inv [OF assms(1)] by (auto simp: sem_inv_alt)
  then have "card H \<le> Suc 0" by linarith
  then show ?thesis using assms(2,3) I(1) by (auto simp: card_le_Suc0_iff_eq)
qed

theorem mutex_mutual_exclusion_witness:
  "\<exists>k m. mutex_run 0x8000 (k, m, {0}) \<and> (\<forall>i \<in> {0::nat}. \<forall>j \<in> {0}. i = j)"
proof -
  have a: "mutex_run 0x8000 (kernel2, mutex_init \<lparr>sem = sem0\<rparr>, {})"
    by (rule mutex_run.start) (simp add: sem0_def)
  have "mutex_trylock (mutex_init \<lparr>sem = sem0\<rparr>) = (True, \<lparr>sem = sem_init 0 sem0\<rparr>)"
    by (simp add: mutex_trylock_def mutex_init_def sem_trywait_def sem_init_def)
  from mutex_run.trylock [OF a this]
  have r: "mutex_run 0x8000 (kernel2, \<lparr>sem = sem_init 0 sem0\<rparr>, {0})"
    by (simp add: kernel2_fields)
  then show ?thesis using mutex_mutual_exclusion [OF r] by blast
qed

subsection \<open>A killed waiter\<close>

text \<open>
  \<open>task_kill\<close> does not remove a blocked task from the wait queue. When the semaphore is
  signalled later, the dead task, whose stack has been freed, becomes ready again.
\<close>

lemma sem_signal_revives_dead:
  assumes "sem_inv s" "sem_waiters s = int i # ws" "length (tasks k) = MAX_TASKS"
    "state (tasks k ! i) = TASK_DEAD" "stack (tasks k ! i) = 0"
  shows "state (tasks (fst (sem_signal (k, s))) ! i) = TASK_READY \<and>
    stack (tasks (fst (sem_signal (k, s))) ! i) = 0"
  by (rule sem_signal_cases [OF assms(1), of k]) (use assms in auto)

end
