(* ===== verification/MsgQueue.thy ===== *)
theory MsgQueue
  imports Semaphore
begin

text \<open>
  Message queues (\<^verbatim>\<open>src/msgqueue.c\<close>): a circular buffer of 16 messages of at most 64 bytes
  with an explicit count, and two wait queues of task numbers. The payload a sender passes is
  a function from offsets to bytes, because \<open>memcpy\<close> reads whatever lies at the address.
  As for semaphores, the body of each operation holds the queue's spinlock and is one atomic
  step, and a blocking operation is a loop of such steps.
\<close>

subsection \<open>Data\<close>

abbreviation MQ_MAX_MSGS :: nat where
  "MQ_MAX_MSGS \<equiv> 16"

abbreviation MQ_MSG_SIZE :: u64 where
  "MQ_MSG_SIZE \<equiv> 64"

record msg_t =
  sender :: int
  mtype :: int
  len :: u64
  data :: bytes

record msgqueue_t =
  msgs :: "msg_t list"
  head :: nat
  tail :: nat
  mcount :: nat
  mlock :: spinlock_t
  recv_waitq :: "int list"
  recv_head :: nat
  recv_tail :: nat
  send_waitq :: "int list"
  send_head :: nat
  send_tail :: nat

subsection \<open>Operations\<close>

definition mq_init :: "msgqueue_t \<Rightarrow> msgqueue_t" where
  "mq_init q = q\<lparr>head := 0, tail := 0, mcount := 0, mlock := spin_init (mlock q),
     recv_head := 0, recv_tail := 0, send_head := 0, send_tail := 0\<rparr>"

text \<open>A wait queue is an array with its head and tail; the result code comes first.\<close>

definition mq_waitq_push :: "int \<Rightarrow> int list \<times> nat \<times> nat \<Rightarrow> int \<times> int list \<times> nat \<times> nat" where
  "mq_waitq_push i = (\<lambda>(wq, hd, tl).
     let nx = (hd + 1) mod 16
     in if nx = tl then (- 1, wq, hd, tl) else (0, wq[hd := i], nx, tl))"

definition mq_waitq_pop :: "int list \<times> nat \<times> nat \<Rightarrow> int \<times> int list \<times> nat \<times> nat" where
  "mq_waitq_pop = (\<lambda>(wq, hd, tl).
     if tl = hd then (- 1, wq, hd, tl) else (wq ! tl, wq, hd, (tl + 1) mod 16))"

definition recv_q :: "msgqueue_t \<Rightarrow> int list \<times> nat \<times> nat" where
  "recv_q q = (recv_waitq q, recv_head q, recv_tail q)"

definition set_recv_q :: "int list \<times> nat \<times> nat \<Rightarrow> msgqueue_t \<Rightarrow> msgqueue_t" where
  "set_recv_q w q = q\<lparr>recv_waitq := fst w, recv_head := fst (snd w), recv_tail := snd (snd w)\<rparr>"

definition send_q :: "msgqueue_t \<Rightarrow> int list \<times> nat \<times> nat" where
  "send_q q = (send_waitq q, send_head q, send_tail q)"

definition set_send_q :: "int list \<times> nat \<times> nat \<Rightarrow> msgqueue_t \<Rightarrow> msgqueue_t" where
  "set_send_q w q = q\<lparr>send_waitq := fst w, send_head := fst (snd w), send_tail := snd (snd w)\<rparr>"

text \<open>\<open>memcpy\<close> of \<open>n\<close> bytes over the front of an array.\<close>

definition fill_data :: "(nat \<Rightarrow> u8) \<Rightarrow> nat \<Rightarrow> bytes \<Rightarrow> bytes" where
  "fill_data src n old = map src [0..<n] @ drop n old"

definition clamp_len :: "u64 \<Rightarrow> u64" where
  "clamp_len n = (if n > MQ_MSG_SIZE then MQ_MSG_SIZE else n)"

definition wake_first :: "int \<Rightarrow> kernel \<Rightarrow> kernel" where
  "wake_first i k = (if i \<ge> 0 then upd_task (nat i) (\<lambda>t. t\<lparr>state := TASK_READY\<rparr>) k else k)"

definition mq_slot :: "int \<Rightarrow> int \<Rightarrow> u64 \<Rightarrow> (nat \<Rightarrow> u8) \<Rightarrow> msg_t \<Rightarrow> msg_t" where
  "mq_slot who ty n src m =
     m\<lparr>sender := who, mtype := ty, len := n,
       data := (if n > 0 then fill_data src (unat n) (data m) else data m)\<rparr>"

definition mq_ring_push :: "msg_t \<Rightarrow> msgqueue_t \<Rightarrow> msgqueue_t" where
  "mq_ring_push m q = q\<lparr>msgs := (msgs q)[head q := m], head := (head q + 1) mod MQ_MAX_MSGS,
     mcount := mcount q + 1\<rparr>"

definition mq_ring_pop :: "msgqueue_t \<Rightarrow> msg_t \<times> msgqueue_t" where
  "mq_ring_pop q = (msgs q ! tail q,
     q\<lparr>tail := (tail q + 1) mod MQ_MAX_MSGS, mcount := mcount q - 1\<rparr>)"

text \<open>The two critical sections that \<open>mq_send\<close>/\<open>mq_trysend\<close> and \<open>mq_recv\<close>/\<open>mq_tryrecv\<close> share.\<close>

definition mq_put :: "int \<Rightarrow> u64 \<Rightarrow> (nat \<Rightarrow> u8) \<Rightarrow> kernel \<times> msgqueue_t \<Rightarrow> kernel \<times> msgqueue_t" where
  "mq_put ty n src = (\<lambda>(k, q).
     let q1 = mq_ring_push (mq_slot (int (current_task k)) ty n src (msgs q ! head q)) q;
         (i, w) = mq_waitq_pop (recv_q q1)
     in (wake_first i k, set_recv_q w q1))"

definition mq_get :: "msg_t \<Rightarrow> kernel \<times> msgqueue_t \<Rightarrow> msg_t \<times> kernel \<times> msgqueue_t" where
  "mq_get msg = (\<lambda>(k, q).
     let (m, q1) = mq_ring_pop q;
         msg' = mq_slot (sender m) (mtype m) (len m) (\<lambda>i. data m ! i) msg;
         (i, w) = mq_waitq_pop (send_q q1)
     in (msg', wake_first i k, set_send_q w q1))"

definition block_me :: "nat \<Rightarrow> kernel \<Rightarrow> kernel" where
  "block_me me k = upd_task me (\<lambda>t. t\<lparr>state := TASK_BLOCKED, wake_time := 0\<rparr>) k"

definition mq_send_turn ::
  "u64 \<Rightarrow> u64 \<Rightarrow> int \<Rightarrow> u64 \<Rightarrow> (nat \<Rightarrow> u8) \<Rightarrow> kernel \<times> msgqueue_t \<Rightarrow> bool \<times> kernel \<times> msgqueue_t"
where
  "mq_send_turn tramp now ty n src = (\<lambda>(k, q).
     if mcount q < MQ_MAX_MSGS then (True, mq_put ty n src (k, q))
     else
       let me = current_task k;
           (r, w) = mq_waitq_push (int me) (send_q q);
           k1 = (if r = 0 then block_me me k else k)
       in (False, schedule tramp now k1, set_send_q w q))"

text \<open>As in \<open>sem_wait\<close>, a caller that has been switched out goes on when the scheduler picks it again.\<close>

partial_function (option) mq_send_loop ::
  "u64 \<Rightarrow> (nat \<Rightarrow> u64) \<Rightarrow> (nat \<Rightarrow> kernel \<times> msgqueue_t \<Rightarrow> kernel \<times> msgqueue_t) \<Rightarrow> int \<Rightarrow> u64 \<Rightarrow> (nat \<Rightarrow> u8) \<Rightarrow> nat \<Rightarrow>
   kernel \<times> msgqueue_t \<Rightarrow> (kernel \<times> msgqueue_t) option"
where
  "mq_send_loop tramp now others ty n src t kq =
     (case mq_send_turn tramp (now t) ty n src kq of
        (fin, kq') \<Rightarrow>
          if fin then Some kq'
          else do { (t', kq'') \<leftarrow> until_running (current_task (fst kq)) others t kq';
                    mq_send_loop tramp now others ty n src (Suc t') kq'' })"

definition mq_send ::
  "u64 \<Rightarrow> (nat \<Rightarrow> u64) \<Rightarrow> (nat \<Rightarrow> kernel \<times> msgqueue_t \<Rightarrow> kernel \<times> msgqueue_t) \<Rightarrow> int \<Rightarrow> (nat \<Rightarrow> u8) \<Rightarrow> u64 \<Rightarrow>
   kernel \<times> msgqueue_t \<Rightarrow> (kernel \<times> msgqueue_t) option"
where
  "mq_send tramp now others ty src n kq = mq_send_loop tramp now others ty (clamp_len n) src 0 kq"

definition mq_trysend ::
  "int \<Rightarrow> (nat \<Rightarrow> u8) \<Rightarrow> u64 \<Rightarrow> kernel \<times> msgqueue_t \<Rightarrow> bool \<times> kernel \<times> msgqueue_t"
where
  "mq_trysend ty src n = (\<lambda>(k, q).
     if mcount q \<ge> MQ_MAX_MSGS then (False, k, q) else (True, mq_put ty (clamp_len n) src (k, q)))"

definition mq_recv_turn ::
  "u64 \<Rightarrow> u64 \<Rightarrow> msg_t \<Rightarrow> kernel \<times> msgqueue_t \<Rightarrow> bool \<times> msg_t \<times> kernel \<times> msgqueue_t"
where
  "mq_recv_turn tramp now msg = (\<lambda>(k, q).
     if mcount q > 0 then (True, mq_get msg (k, q))
     else
       let me = current_task k;
           (r, w) = mq_waitq_push (int me) (recv_q q);
           k1 = (if r = 0 then block_me me k else k)
       in (False, msg, schedule tramp now k1, set_recv_q w q))"

partial_function (option) mq_recv ::
  "u64 \<Rightarrow> (nat \<Rightarrow> u64) \<Rightarrow> (nat \<Rightarrow> kernel \<times> msgqueue_t \<Rightarrow> kernel \<times> msgqueue_t) \<Rightarrow> msg_t \<Rightarrow> nat \<Rightarrow>
   kernel \<times> msgqueue_t \<Rightarrow> (msg_t \<times> kernel \<times> msgqueue_t) option"
where
  "mq_recv tramp now others msg t kq =
     (case mq_recv_turn tramp (now t) msg kq of
        (fin, msg', kq') \<Rightarrow>
          if fin then Some (msg', kq')
          else do { (t', kq'') \<leftarrow> until_running (current_task (fst kq)) others t kq';
                    mq_recv tramp now others msg' (Suc t') kq'' })"

definition mq_tryrecv :: "msg_t \<Rightarrow> kernel \<times> msgqueue_t \<Rightarrow> bool \<times> msg_t \<times> kernel \<times> msgqueue_t" where
  "mq_tryrecv msg = (\<lambda>(k, q). if mcount q = 0 then (False, msg, k, q) else (True, mq_get msg (k, q)))"

definition mq_count :: "msgqueue_t \<Rightarrow> nat" where
  "mq_count q = mcount q"

subsection \<open>The wait queues are bounded queues\<close>

definition mq_waiters :: "int list \<times> nat \<times> nat \<Rightarrow> int list" where
  "mq_waiters = (\<lambda>(wq, hd, tl). ring_items 16 wq hd tl)"

definition mq_waitq_ok :: "int list \<times> nat \<times> nat \<Rightarrow> bool" where
  "mq_waitq_ok = (\<lambda>(wq, hd, tl). ring_ok 16 wq hd tl)"

definition mq_waitq_push_opt :: "int \<Rightarrow> int list \<times> nat \<times> nat \<Rightarrow> (int list \<times> nat \<times> nat) option" where
  "mq_waitq_push_opt i w = (if fst (mq_waitq_push i w) = 0 then Some (snd (mq_waitq_push i w)) else None)"

definition mq_waitq_pop_opt :: "int list \<times> nat \<times> nat \<Rightarrow> (int \<times> int list \<times> nat \<times> nat) option" where
  "mq_waitq_pop_opt w = (if snd (snd w) = fst (snd w) then None else Some (mq_waitq_pop w))"

interpretation mwq: bounded_fifo mq_waitq_push_opt mq_waitq_pop_opt mq_waiters mq_waitq_ok 15
proof (unfold_locales, goal_cases)
  case (1 w x)
  then show ?case
    by (cases w) (use ring_items_full_iff [of 16] in
      \<open>auto simp: mq_waitq_ok_def mq_waitq_push_opt_def mq_waitq_push_def mq_waiters_def Let_def\<close>)
next
  case (2 w x w')
  then show ?case
    by (cases w) (use ring_push_items [of 16] in
      \<open>auto simp: mq_waitq_ok_def mq_waitq_push_opt_def mq_waitq_push_def mq_waiters_def Let_def
        split: if_splits\<close>)
next
  case (3 w)
  then show ?case
    by (cases w) (use ring_items_empty_iff [of 16] in
      \<open>auto simp: mq_waitq_ok_def mq_waitq_pop_opt_def mq_waiters_def\<close>)
next
  case (4 w x w')
  then show ?case
    by (cases w) (use ring_pop_items [of 16] in
      \<open>auto simp: mq_waitq_ok_def mq_waitq_pop_opt_def mq_waitq_pop_def mq_waiters_def split: if_splits\<close>)
next
  case (5 w)
  then show ?case
    by (cases w) (use ring_items_bound [of 16] in \<open>auto simp: mq_waitq_ok_def mq_waiters_def\<close>)
qed

lemma mq_waitq_push_cases:
  assumes "mq_waitq_ok w"
  shows "mq_waitq_push i w = (- 1, w) \<and> length (mq_waiters w) = 15 \<or>
    fst (mq_waitq_push i w) = 0 \<and> mq_waitq_ok (snd (mq_waitq_push i w)) \<and>
    mq_waiters (snd (mq_waitq_push i w)) = mq_waiters w @ [i]"
  using mwq.push_full [OF assms, of i] mwq.push_some [OF assms, of i]
  by (cases w) (auto simp: mq_waitq_push_opt_def mq_waitq_push_def Let_def split: if_splits)

lemma mq_waitq_pop_cases:
  assumes "mq_waitq_ok w"
  shows "mq_waitq_pop w = (- 1, w) \<and> mq_waiters w = [] \<or>
    mq_waitq_ok (snd (mq_waitq_pop w)) \<and>
    mq_waiters w = fst (mq_waitq_pop w) # mq_waiters (snd (mq_waitq_pop w))"
  using mwq.pop_empty [OF assms] mwq.pop_some [OF assms]
  by (cases w) (auto simp: mq_waitq_pop_opt_def mq_waitq_pop_def split: if_splits)

subsection \<open>The message ring is a bounded queue\<close>

definition mq_items :: "msgqueue_t \<Rightarrow> msg_t list" where
  "mq_items q = window MQ_MAX_MSGS (msgs q) (tail q) (mcount q)"

definition mq_ring_ok :: "msgqueue_t \<Rightarrow> bool" where
  "mq_ring_ok q \<longleftrightarrow> length (msgs q) = MQ_MAX_MSGS \<and> tail q < MQ_MAX_MSGS \<and>
     mcount q \<le> MQ_MAX_MSGS \<and> head q = (tail q + mcount q) mod MQ_MAX_MSGS"

definition mq_push_opt :: "msg_t \<Rightarrow> msgqueue_t \<Rightarrow> msgqueue_t option" where
  "mq_push_opt m q = (if mcount q < MQ_MAX_MSGS then Some (mq_ring_push m q) else None)"

definition mq_pop_opt :: "msgqueue_t \<Rightarrow> (msg_t \<times> msgqueue_t) option" where
  "mq_pop_opt q = (if mcount q = 0 then None else Some (mq_ring_pop q))"

interpretation mring: bounded_fifo mq_push_opt mq_pop_opt mq_items mq_ring_ok MQ_MAX_MSGS
proof (unfold_locales, goal_cases)
  case (1 q x)
  then show ?case by (auto simp: mq_push_opt_def mq_items_def mq_ring_ok_def)
next
  case (2 q x q')
  then have r: "mcount q < 16" "length (msgs q) = 16" "tail q < 16" "head q = (tail q + mcount q) mod 16"
    and q': "q' = mq_ring_push x q"
    by (auto simp: mq_push_opt_def mq_ring_ok_def split: if_splits)
  have "((tail q + mcount q) mod 16 + 1) mod 16 = (tail q + (mcount q + 1)) mod 16"
    by (simp add: mod_Suc_eq)
  then show ?case
    using window_push [OF r(1,2), of "tail q" x] r
    by (simp add: q' mq_ring_push_def mq_ring_ok_def mq_items_def)
next
  case (3 q)
  then show ?case by (auto simp: mq_pop_opt_def mq_items_def simp flip: length_0_conv)
next
  case (4 q x q')
  then have r: "0 < mcount q" "tail q < 16" "head q = (tail q + mcount q) mod 16"
    and q': "(x, q') = mq_ring_pop q"
    by (auto simp: mq_pop_opt_def mq_ring_ok_def split: if_splits)
  have "((tail q + 1) mod 16 + (mcount q - 1)) mod 16 = (tail q + mcount q) mod 16"
    using r(1) mod_add_left_eq [of "tail q + 1" 16 "mcount q - 1"] by (simp del: mod_add_left_eq)
  then show ?case
    using window_pop [OF r(1), of 16 "msgs q" "tail q"] r q' 4(1)
    by (simp add: mq_ring_pop_def mq_ring_ok_def mq_items_def) linarith
next
  case (5 q)
  then show ?case by (simp add: mq_items_def mq_ring_ok_def)
qed

text \<open>What a queued message means to its receiver: sender, type and the first \<open>len\<close> bytes.\<close>

definition mq_view :: "msg_t \<Rightarrow> int \<times> int \<times> bytes" where
  "mq_view m = (sender m, mtype m, take (unat (len m)) (data m))"

definition msg_ok :: "msg_t \<Rightarrow> bool" where
  "msg_ok m \<longleftrightarrow> unat (len m) \<le> 64 \<and> length (data m) = 64"

definition waiters_ok :: "int list \<times> nat \<times> nat \<Rightarrow> bool" where
  "waiters_ok w \<longleftrightarrow> mq_waitq_ok w \<and> (\<forall>i \<in> set (mq_waiters w). 0 \<le> i \<and> i < int MAX_TASKS)"

definition mq_inv :: "msgqueue_t \<Rightarrow> bool" where
  "mq_inv q \<longleftrightarrow> mq_ring_ok q \<and> (\<forall>m \<in> set (msgs q). length (data m) = 64) \<and>
     (\<forall>m \<in> set (mq_items q). msg_ok m) \<and> waiters_ok (recv_q q) \<and> waiters_ok (send_q q)"

lemma mq_frames [simp]:
  "mq_items (set_recv_q w q) = mq_items q" "mq_items (set_send_q w q) = mq_items q"
  "mq_ring_ok (set_recv_q w q) = mq_ring_ok q" "mq_ring_ok (set_send_q w q) = mq_ring_ok q"
  "mcount (set_recv_q w q) = mcount q" "mcount (set_send_q w q) = mcount q"
  "msgs (set_recv_q w q) = msgs q" "msgs (set_send_q w q) = msgs q"
  "recv_q (set_recv_q w q) = w" "send_q (set_send_q w q) = w"
  "recv_q (set_send_q w q) = recv_q q" "send_q (set_recv_q w q) = send_q q"
  "recv_q (mq_ring_push m q) = recv_q q" "send_q (mq_ring_push m q) = send_q q"
  "recv_q (snd (mq_ring_pop q)) = recv_q q" "send_q (snd (mq_ring_pop q)) = send_q q"
  by (simp_all add: set_recv_q_def set_send_q_def mq_items_def mq_ring_ok_def recv_q_def send_q_def
      mq_ring_push_def mq_ring_pop_def)

lemma waiters_ok_pop:
  assumes "waiters_ok w" "mq_waitq_pop w = (i, w')"
  shows "waiters_ok w' \<and> mq_waiters w' = tl (mq_waiters w) \<and>
    (mq_waiters w = [] \<and> i = - 1 \<or> mq_waiters w \<noteq> [] \<and> i = hd (mq_waiters w) \<and> 0 \<le> i \<and> i < int MAX_TASKS)"
  using mq_waitq_pop_cases [of w] assms by (auto simp: waiters_ok_def)

lemma waiters_ok_push:
  assumes "waiters_ok w" "0 \<le> i" "i < int MAX_TASKS"
  shows "waiters_ok (snd (mq_waitq_push i w))"
  using mq_waitq_push_cases [of w i] assms by (auto simp: waiters_ok_def)

lemma clamp_len_bound: "unat (clamp_len n) = min 64 (unat n)"
  by (simp add: clamp_len_def word_less_nat_alt min_def)

lemma mq_slot_view:
  assumes "unat n \<le> 64" "length (data m) = 64"
  shows "mq_view (mq_slot who ty n src m) = (who, ty, map src [0..<unat n])"
    "msg_ok (mq_slot who ty n src m)"
  using assms by (auto simp: mq_view_def mq_slot_def fill_data_def msg_ok_def word_less_nat_alt)

lemma map_nth_take: "n \<le> length xs \<Longrightarrow> map ((!) xs) [0..<n] = take n xs"
  by (simp add: list_eq_iff_nth_eq)

text \<open>The two critical sections append to and take from the queue, and wake one waiter.\<close>

lemma mq_put_items:
  assumes "mq_inv q" "mcount q < MQ_MAX_MSGS" "unat n \<le> 64" "mq_put ty n src (k, q) = (k', q')"
  shows "map mq_view (mq_items q') = map mq_view (mq_items q) @ [(int (current_task k), ty, map src [0..<unat n])]"
    "mq_inv q'" "send_q q' = send_q q" "mq_waiters (recv_q q') = tl (mq_waiters (recv_q q))"
    "k' = (if mq_waiters (recv_q q) = [] then k
           else upd_task (nat (hd (mq_waiters (recv_q q)))) (\<lambda>t. t\<lparr>state := TASK_READY\<rparr>) k)"
proof -
  have hd: "head q < 16" "length (msgs q) = 16" using assms(1) by (simp_all add: mq_inv_def mq_ring_ok_def)
  let ?m = "mq_slot (int (current_task k)) ty n src (msgs q ! head q)"
  have "length (data (msgs q ! head q)) = 64" using assms(1) hd by (simp add: mq_inv_def)
  note v = mq_slot_view [OF assms(3) this, of "int (current_task k)" ty src]
  have "mq_push_opt ?m q = Some (mq_ring_push ?m q)" using assms(2) by (simp add: mq_push_opt_def)
  from mring.push_some [OF _ this] assms(1)
  have p: "mq_ring_ok (mq_ring_push ?m q)" "mq_items (mq_ring_push ?m q) = mq_items q @ [?m]"
    by (simp_all add: mq_inv_def)
  have d: "\<forall>m \<in> set (msgs (mq_ring_push ?m q)). length (data m) = 64"
    using assms(1) v(2) by (auto simp: mq_ring_push_def mq_inv_def msg_ok_def dest!: set_update_subset_insert [THEN subsetD])
  obtain i w where w: "mq_waitq_pop (recv_q q) = (i, w)" by (cases "mq_waitq_pop (recv_q q)") auto
  from waiters_ok_pop [OF _ w] assms(1) have w': "waiters_ok w" "mq_waiters w = tl (mq_waiters (recv_q q))"
    "mq_waiters (recv_q q) = [] \<and> i = - 1 \<or>
     mq_waiters (recv_q q) \<noteq> [] \<and> i = hd (mq_waiters (recv_q q)) \<and> 0 \<le> i"
    by (auto simp: mq_inv_def)
  have r: "k' = wake_first i k" "q' = set_recv_q w (mq_ring_push ?m q)"
    using assms(4) w by (simp_all add: mq_put_def Let_def)
  show "map mq_view (mq_items q') = map mq_view (mq_items q) @ [(int (current_task k), ty, map src [0..<unat n])]"
    using p v by (simp add: r)
  show "mq_inv q'" using assms(1) p d v w' by (simp add: r mq_inv_def)
  show "send_q q' = send_q q" "mq_waiters (recv_q q') = tl (mq_waiters (recv_q q))" using w' by (simp_all add: r)
  show "k' = (if mq_waiters (recv_q q) = [] then k
           else upd_task (nat (hd (mq_waiters (recv_q q)))) (\<lambda>t. t\<lparr>state := TASK_READY\<rparr>) k)"
    using w' by (auto simp: r wake_first_def)
qed

lemma mq_get_items:
  assumes "mq_inv q" "0 < mcount q" "length (data msg) = 64" "mq_get msg (k, q) = (msg', k', q')"
  shows "map mq_view (mq_items q) = mq_view msg' # map mq_view (mq_items q')"
    "mq_inv q'" "recv_q q' = recv_q q" "mq_waiters (send_q q') = tl (mq_waiters (send_q q))"
    "k' = (if mq_waiters (send_q q) = [] then k
           else upd_task (nat (hd (mq_waiters (send_q q)))) (\<lambda>t. t\<lparr>state := TASK_READY\<rparr>) k)"
    "length (data msg') = 64"
proof -
  obtain m q1 where m: "mq_ring_pop q = (m, q1)" by fastforce
  then have "mq_pop_opt q = Some (m, q1)" using assms(2) by (simp add: mq_pop_opt_def)
  from mring.pop_some [OF _ this] assms(1)
  have p: "mq_ring_ok q1" "mq_items q = m # mq_items q1" by (simp_all add: mq_inv_def)
  then have mk: "unat (len m) \<le> 64" "length (data m) = 64" using assms(1) by (auto simp: mq_inv_def msg_ok_def)
  have q1: "recv_q q1 = recv_q q" "send_q q1 = send_q q" "msgs q1 = msgs q"
    using m by (auto simp: mq_ring_pop_def recv_q_def send_q_def)
  obtain i w where w: "mq_waitq_pop (send_q q) = (i, w)" by (cases "mq_waitq_pop (send_q q)") auto
  from waiters_ok_pop [OF _ w] assms(1) have w': "waiters_ok w" "mq_waiters w = tl (mq_waiters (send_q q))"
    "mq_waiters (send_q q) = [] \<and> i = - 1 \<or>
     mq_waiters (send_q q) \<noteq> [] \<and> i = hd (mq_waiters (send_q q)) \<and> 0 \<le> i"
    by (auto simp: mq_inv_def)
  have r: "k' = wake_first i k" "q' = set_send_q w q1"
    "msg' = mq_slot (sender m) (mtype m) (len m) (\<lambda>i. data m ! i) msg"
    using assms(4) w m q1 by (simp_all add: mq_get_def Let_def)
  note v = mq_slot_view [OF mk(1) assms(3), of "sender m" "mtype m" "\<lambda>i. data m ! i"]
  have "mq_view msg' = mq_view m" using v(1) mk map_nth_take [of "unat (len m)" "data m"]
    by (simp add: r mq_view_def)
  then show "map mq_view (mq_items q) = mq_view msg' # map mq_view (mq_items q')"
    using p by (simp add: r)
  show "mq_inv q'" using assms(1) p q1 w' by (simp add: r mq_inv_def)
  show "recv_q q' = recv_q q" "mq_waiters (send_q q') = tl (mq_waiters (send_q q))" using w' q1 by (simp_all add: r)
  show "k' = (if mq_waiters (send_q q) = [] then k
           else upd_task (nat (hd (mq_waiters (send_q q)))) (\<lambda>t. t\<lparr>state := TASK_READY\<rparr>) k)"
    using w' by (auto simp: r wake_first_def)
  show "length (data msg') = 64" using v(2) by (simp add: r msg_ok_def)
qed

subsection \<open>Refinement of an abstract queue\<close>

text \<open>
  A history of non-blocking operations by arbitrary tasks, run on the implementation and on a
  list of at most 16 messages. The first argument of each operation is the calling task.
\<close>

datatype mq_op = Trysend nat int "nat \<Rightarrow> u8" u64 | Tryrecv nat

datatype mq_res = Sent bool | Got "(int \<times> int \<times> bytes) option"

fun mq_exec :: "msg_t \<Rightarrow> mq_op list \<Rightarrow> kernel \<times> msgqueue_t \<Rightarrow> mq_res list" where
  "mq_exec msg [] _ = []"
| "mq_exec msg (Trysend i ty src n # ops) (k, q) =
     (case mq_trysend ty src n (k\<lparr>current_task := i\<rparr>, q) of (r, kq) \<Rightarrow> Sent r # mq_exec msg ops kq)"
| "mq_exec msg (Tryrecv i # ops) (k, q) =
     (case mq_tryrecv msg (k\<lparr>current_task := i\<rparr>, q) of
        (r, m, kq) \<Rightarrow> Got (if r then Some (mq_view m) else None) # mq_exec m ops kq)"

fun mq_spec :: "mq_op list \<Rightarrow> (int \<times> int \<times> bytes) list \<Rightarrow> mq_res list" where
  "mq_spec [] _ = []"
| "mq_spec (Trysend i ty src n # ops) Q =
     (if length Q = 16 then Sent False # mq_spec ops Q
      else Sent True # mq_spec ops (Q @ [(int i, ty, map src [0..<min 64 (unat n)])]))"
| "mq_spec (Tryrecv i # ops) [] = Got None # mq_spec ops []"
| "mq_spec (Tryrecv i # ops) (m # Q) = Got (Some m) # mq_spec ops Q"

lemma mq_items_length: "length (mq_items q) = mcount q"
  by (simp add: mq_items_def)

lemma mq_init_inv [inv_intros]:
  assumes "length (msgs q) = 16" "\<forall>m \<in> set (msgs q). length (data m) = 64"
    "length (recv_waitq q) = 16" "length (send_waitq q) = 16"
  shows "mq_inv (mq_init q)" "mq_items (mq_init q) = []"
  using assms by (auto simp: mq_inv_def mq_init_def mq_ring_ok_def mq_items_def waiters_ok_def mq_waitq_ok_def
    recv_q_def send_q_def ring_ok_def mq_waiters_def ring_items_def ring_count_def)

text \<open>
  C4: the message queue is a bounded first-in first-out queue. Every history of
  \<open>mq_trysend\<close> and \<open>mq_tryrecv\<close> calls by any tasks returns what it returns on an abstract list:
  a send fails exactly when 16 messages are queued, a receive fails exactly when none is, and
  messages come out in the order they went in with their sender, type and payload, the payload
  cut to 64 bytes.
\<close>

theorem mq_refines_fifo:
  assumes "mq_inv q" "length (data msg) = 64"
  shows "mq_exec msg ops (k, q) = mq_spec ops (map mq_view (mq_items q))"
  using assms
proof (induction ops arbitrary: k q msg)
  case (Cons op ops)
  note I = Cons.prems
  show ?case
  proof (cases op)
    case (Trysend i ty src n)
    show ?thesis
    proof (cases "mcount q < 16")
      case True
      obtain k' q' where r: "mq_put ty (clamp_len n) src (k\<lparr>current_task := i\<rparr>, q) = (k', q')" by fastforce
      note p = mq_put_items [OF I(1) True _ r]
      show ?thesis using True r p(1,2) Cons.IH [of q' msg k'] I(2)
        by (simp add: Trysend mq_trysend_def mq_items_length clamp_len_bound)
    next
      case False
      then have "mcount q = 16" using I(1) by (simp add: mq_inv_def mq_ring_ok_def)
      then show ?thesis using Cons.IH [OF I] by (simp add: Trysend mq_trysend_def mq_items_length)
    qed
  next
    case (Tryrecv i)
    show ?thesis
    proof (cases "mcount q = 0")
      case True
      then have "mq_items q = []" by (simp add: mq_items_def)
      then show ?thesis using True Cons.IH [OF I] by (simp add: Tryrecv mq_tryrecv_def)
    next
      case False
      then have c: "0 < mcount q" by simp
      obtain m k' q' where r: "mq_get msg (k\<lparr>current_task := i\<rparr>, q) = (m, k', q')" by (metis prod_cases3)
      note p = mq_get_items [OF I(1) c I(2) r]
      show ?thesis using c r p(1) Cons.IH [OF p(2,6)] by (simp add: Tryrecv mq_tryrecv_def)
    qed
  qed
qed simp

definition mq0 :: msgqueue_t where
  "mq0 = mq_init \<lparr>msgs = replicate 16 \<lparr>sender = 0, mtype = 0, len = 0, data = replicate 64 0\<rparr>, head = 0,
     tail = 0, mcount = 0, mlock = \<lparr>lock = 0\<rparr>, recv_waitq = replicate 16 0, recv_head = 0, recv_tail = 0,
     send_waitq = replicate 16 0, send_head = 0, send_tail = 0\<rparr>"

lemma mq0_inv: "mq_inv mq0" "mq_items mq0 = []"
  unfolding mq0_def by (rule mq_init_inv; simp)+

definition msg0 :: msg_t where
  "msg0 = \<lparr>sender = 0, mtype = 0, len = 0, data = replicate 64 0\<rparr>"

lemma upt_0_2: "[0..<2] = [0, Suc 0]"
  by (simp add: upt_rec)

theorem mq_refines_fifo_witness:
  "mq_exec msg0 [Trysend 1 7 (\<lambda>_. 65) 2, Trysend 2 8 (\<lambda>_. 66) 1, Tryrecv 3, Tryrecv 3, Tryrecv 3] (kernel2, mq0) =
   [Sent True, Sent True, Got (Some (1, 7, [65, 65])), Got (Some (2, 8, [66])), Got None]"
  by (subst mq_refines_fifo [OF mq0_inv(1)]) (simp_all add: mq0_inv(2) msg0_def upt_0_2)

subsection \<open>Blocking operations\<close>

text \<open>A caller that blocks waits in the queue and the processor goes to another task.\<close>

definition other_ready :: "kernel \<Rightarrow> bool" where
  "other_ready k \<longleftrightarrow> (\<exists>j < num_tasks k. j \<noteq> current_task k \<and> state (tasks k ! j) = TASK_READY)"

lemma block_me_waiting:
  assumes inv: "task_inv k" and run: "state (tasks k ! current_task k) = TASK_RUNNING" and "other_ready k"
  shows "waiting (current_task k) (schedule tramp now (block_me (current_task k) k))"
proof (rule schedule_blocked)
  let ?me = "current_task k"
  have me: "?me < num_tasks k" "?me < MAX_TASKS" "length (tasks k) = MAX_TASKS" "num_tasks k \<le> MAX_TASKS" using inv by (auto simp: task_inv_def)
  have "tid (tasks k ! ?me) = int ?me" using inv run me(2) unfolding task_inv_def by (elim conjE allE [of _ ?me]) simp
  then show "task_inv (block_me ?me k)" unfolding block_me_def by (intro task_inv_upd [OF inv me(2)]) simp_all
  show "?me < num_tasks (block_me ?me k)" "state (tasks (block_me ?me k) ! ?me) = TASK_BLOCKED" using me by (simp_all add: block_me_def)
  show "?me \<noteq> current_task (block_me ?me k) \<or> (\<exists>j < num_tasks (block_me ?me k). j \<noteq> ?me \<and> state (tasks (block_me ?me k) ! j) = TASK_READY)"
    using assms(3) me by (auto simp: block_me_def other_ready_def)
qed

lemma waiters_ok_block:
  assumes "waiters_ok w" "mq_waiters w = []" "task_inv k"
  shows "\<exists>w'. mq_waitq_push (int (current_task k)) w = (0, w') \<and> waiters_ok w' \<and> mq_waiters w' = [int (current_task k)]"
proof -
  have "current_task k < MAX_TASKS" using assms(3) by (auto simp: task_inv_def)
  then show ?thesis using mq_waitq_push_cases [of w "int (current_task k)"] assms(1,2)
    by (cases "mq_waitq_push (int (current_task k)) w") (auto simp: waiters_ok_def)
qed

text \<open>
  C24: a receiver that finds the queue empty gets the message sent while it is switched out. No
  other receiver waits and some other task is ready. The others take turns under the
  scheduler, and after \<open>m\<close> turns the one that runs sends a message; then the scheduler picks
  the receiver again, and \<open>mq_recv\<close> returns with that message, its sender another task, and
  leaves the queue empty. A receiver that the send did not make ready would never be picked.
\<close>

theorem mq_recv_gets_sent:
  assumes "mq_inv q" "mq_items q = []" "mq_waiters (recv_q q) = []" "length (data msg) = 64"
    and "task_inv k" "state (tasks k ! current_task k) = TASK_RUNNING" "other_ready k"
    and others: "\<And>i kq. others i kq =
      (if i = m then snd (mq_trysend ty src n kq) else (schedule tramp (clock i) (fst kq), snd kq))"
  shows "\<exists>msg' k' q' j. mq_recv tramp now others msg 0 (k, q) = Some (msg', k', q') \<and> current_task k' = current_task k \<and>
    j \<noteq> current_task k \<and> mq_view msg' = (int j, ty, map src [0..<min 64 (unat n)]) \<and> mq_items q' = [] \<and> mq_inv q'"
proof -
  let ?me = "current_task k"
  define P where "P = (\<lambda>q2. mq_inv q2 \<and> (\<exists>j \<noteq> ?me. map mq_view (mq_items q2) = [(int j, ty, map src [0..<min 64 (unat n)])]))"
  have e: "mcount q = 0" using assms(2) mq_items_length [of q] by simp
  obtain w where w: "mq_waitq_push (int ?me) (recv_q q) = (0, w)" "waiters_ok w" "mq_waiters w = [int ?me]"
    using waiters_ok_block [OF _ assms(3,5)] assms(1) by (auto simp: mq_inv_def)
  let ?k = "schedule tramp (now 0) (block_me ?me k)" and ?q = "set_recv_q w q"
  have t: "mq_recv_turn tramp (now 0) msg (k, q) = (False, msg, ?k, ?q)" using e w(1) by (simp add: mq_recv_turn_def)
  have q: "mq_inv ?q" "mcount ?q < 16" "mq_items ?q = []" using assms(1,2) e w(2) by (simp_all add: mq_inv_def)
  have act: "fst (snd (mq_trysend ty src n (k', ?q))) = upd_task ?me (\<lambda>t. t\<lparr>state := TASK_READY\<rparr>) k' \<and>
      P (snd (snd (mq_trysend ty src n (k', ?q))))" if "waiting ?me k'" for k'
  proof -
    obtain k2 q2 where r: "mq_put ty (clamp_len n) src (k', ?q) = (k2, q2)" by fastforce
    note p = mq_put_items [OF q(1,2) _ r]
    have "current_task k' \<noteq> ?me" using that by (simp add: waiting_def)
    then show ?thesis using r p(1,2,5) q w(3) by (auto simp: P_def mq_trysend_def clamp_len_bound)
  qed
  have "\<exists>t' k2 q2. until_running ?me others 0 (?k, ?q) = Some (t', k2, q2) \<and> current_task k2 = ?me \<and> task_inv k2 \<and> P q2"
    by (rule until_running_woken [OF block_me_waiting [OF assms(5-7)] others le0]) (rule act)
  then obtain t' k2 q2 where u: "until_running ?me others 0 (?k, ?q) = Some (t', k2, q2)" "current_task k2 = ?me" "P q2" by (elim exE conjE) (rule that)
  obtain j where j: "mq_inv q2" "j \<noteq> ?me" "map mq_view (mq_items q2) = [(int j, ty, map src [0..<min 64 (unat n)])]"
    using u(3) unfolding P_def by (elim conjE exE) (rule that)
  have c: "0 < mcount q2" using j(3) mq_items_length [of q2] by (cases "mq_items q2") auto
  obtain m' k3 q3 where g: "mq_get msg (k2, q2) = (m', k3, q3)" by (metis prod_cases3)
  note h = mq_get_items [OF j(1) c assms(4) g]
  have "mq_recv tramp now others msg (Suc t') (k2, q2) = Some (m', k3, q3)"
    using c g by (subst mq_recv.simps) (simp add: mq_recv_turn_def)
  then have r: "mq_recv tramp now others msg 0 (k, q) = Some (m', k3, q3)"
    using t u(1) by (subst mq_recv.simps) simp
  have "current_task k3 = ?me" using h(5) u(2) by simp
  then show ?thesis using r h(1,2) j by auto
qed

lemma mq0_waiters: "mq_waiters (recv_q mq0) = []" "mq_waiters (send_q mq0) = []"
  by (simp_all add: mq0_def mq_init_def recv_q_def send_q_def mq_waiters_def ring_items_def ring_count_def)

lemma kernel2_running: "state (tasks kernel2 ! current_task kernel2) = TASK_RUNNING" "other_ready kernel2"
  by (simp add: kernel2_def task_init_def, unfold other_ready_def, rule exI [of _ 2], simp add: kernel2_fields)

theorem mq_recv_gets_sent_witness:
  "\<exists>msg' k' q' j. mq_recv 0x8000 (\<lambda>_. 5)
      (\<lambda>i kq. if i = 2 then snd (mq_trysend 7 (\<lambda>_. 65) 2 kq) else (schedule 0x8000 (of_nat i) (fst kq), snd kq)) msg0 0 (kernel2, mq0) =
     Some (msg', k', q') \<and> current_task k' = 0 \<and> j \<noteq> 0 \<and> mq_view msg' = (int j, 7, [65, 65])"
proof -
  let ?o = "\<lambda>i kq. if i = 2 then snd (mq_trysend 7 (\<lambda>_. 65) 2 kq) else (schedule 0x8000 (of_nat i) (fst kq), snd kq)"
  have "length (data msg0) = 64" "min 64 (unat (2 :: u64)) = 2" by (simp_all add: msg0_def)
  then obtain msg' k' q' j where "mq_recv 0x8000 (\<lambda>_. 5) ?o msg0 0 (kernel2, mq0) = Some (msg', k', q')" "current_task k' = 0" "j \<noteq> 0"
      "mq_view msg' = (int j, 7, [65, 65])"
    using mq_recv_gets_sent [OF mq0_inv mq0_waiters(1) _ kernel2_inv kernel2_running refl, of msg0 "0x8000" "\<lambda>_. 5" 2 7 "\<lambda>_. 65" 2 "of_nat"]
    by (auto simp: kernel2_fields upt_0_2)
  then show ?thesis by blast
qed

text \<open>
  A sender that finds the queue full waits for room and then delivers. If another task
  receives a message while it is switched out, \<open>mq_send\<close> returns with the oldest message gone
  and its own at the end.
\<close>

theorem mq_send_waits_for_room:
  assumes "mq_inv q" "length (mq_items q) = 16" "mq_waiters (send_q q) = []" "length (data msg) = 64"
    and "task_inv k" "state (tasks k ! current_task k) = TASK_RUNNING" "other_ready k"
    and others: "\<And>i kq. others i kq =
      (if i = m then snd (snd (mq_tryrecv msg kq)) else (schedule tramp (clock i) (fst kq), snd kq))"
  shows "\<exists>k' q'. mq_send tramp now others ty src n (k, q) = Some (k', q') \<and> mq_inv q' \<and>
    map mq_view (mq_items q') =
      tl (map mq_view (mq_items q)) @ [(int (current_task k), ty, map src [0..<min 64 (unat n)])]"
proof -
  let ?me = "current_task k"
  define P where "P = (\<lambda>q2. mq_inv q2 \<and> map mq_view (mq_items q2) = tl (map mq_view (mq_items q)))"
  have e: "mcount q = 16" using assms(2) mq_items_length [of q] by simp
  obtain w where w: "mq_waitq_push (int ?me) (send_q q) = (0, w)" "waiters_ok w" "mq_waiters w = [int ?me]"
    using waiters_ok_block [OF _ assms(3,5)] assms(1) by (auto simp: mq_inv_def)
  let ?k = "schedule tramp (now 0) (block_me ?me k)" and ?q = "set_send_q w q"
  have t: "mq_send_turn tramp (now 0) ty (clamp_len n) src (k, q) = (False, ?k, ?q)" using e w(1) by (simp add: mq_send_turn_def)
  have q: "mq_inv ?q" "0 < mcount ?q" "mq_items ?q = mq_items q" using assms(1) e w(2) by (simp_all add: mq_inv_def)
  have act: "fst (snd (snd (mq_tryrecv msg (k', ?q)))) = upd_task ?me (\<lambda>t. t\<lparr>state := TASK_READY\<rparr>) k' \<and>
      P (snd (snd (snd (mq_tryrecv msg (k', ?q)))))" for k'
  proof -
    obtain m' k2 q2 where r: "mq_get msg (k', ?q) = (m', k2, q2)" by (metis prod_cases3)
    note p = mq_get_items [OF q(1,2) assms(4) r]
    have "tl (map mq_view (mq_items q)) = map mq_view (mq_items q2)" using p(1) q(3) by simp
    then show ?thesis using r p(2,5) q w(3) by (simp add: P_def mq_tryrecv_def)
  qed
  have "\<exists>t' k2 q2. until_running ?me others 0 (?k, ?q) = Some (t', k2, q2) \<and> current_task k2 = ?me \<and> task_inv k2 \<and> P q2"
    by (rule until_running_woken [OF block_me_waiting [OF assms(5-7)] others le0]) (rule act)
  then obtain t' k2 q2 where u: "until_running ?me others 0 (?k, ?q) = Some (t', k2, q2)" "current_task k2 = ?me" "P q2" by (elim exE conjE) (rule that)
  have q2: "mq_inv q2" "map mq_view (mq_items q2) = tl (map mq_view (mq_items q))" using u(3) by (simp_all add: P_def)
  have "length (mq_items q2) = 15" using arg_cong [OF q2(2), of length] assms(2) by simp
  then have c: "mcount q2 < 16" by (simp add: mq_items_length)
  obtain k3 q3 where r: "mq_put ty (clamp_len n) src (k2, q2) = (k3, q3)" by fastforce
  note p = mq_put_items [OF q2(1) c _ r]
  have "mq_send_loop tramp now others ty (clamp_len n) src (Suc t') (k2, q2) = Some (k3, q3)"
    using c r by (subst mq_send_loop.simps) (simp add: mq_send_turn_def)
  then have "mq_send tramp now others ty src n (k, q) = Some (k3, q3)"
    using t u(1) unfolding mq_send_def by (subst mq_send_loop.simps) simp
  then show ?thesis using p(1,2) u(2) q2 by (simp add: clamp_len_bound)
qed

definition mq_full :: msgqueue_t where
  "mq_full = mq0\<lparr>mcount := 16\<rparr>"

lemma mq_full_inv: "mq_inv mq_full" "length (mq_items mq_full) = 16"
proof -
  have r: "mq_ring_ok mq_full" by (simp add: mq_full_def mq0_def mq_init_def mq_ring_ok_def)
  have m: "msgs mq_full = replicate 16 msg0" by (simp add: mq_full_def mq0_def mq_init_def msg0_def)
  then have "set (mq_items mq_full) \<subseteq> {msg0}" by (auto simp: mq_items_def window_def)
  moreover have "recv_q mq_full = recv_q mq0" "send_q mq_full = send_q mq0"
    by (simp_all add: mq_full_def recv_q_def send_q_def)
  ultimately show "mq_inv mq_full" using r m mq0_inv(1) by (auto simp: mq_inv_def msg_ok_def msg0_def)
  show "length (mq_items mq_full) = 16" by (simp add: mq_full_def mq_items_length)
qed

theorem mq_send_waits_for_room_witness:
  "\<exists>k' q'. mq_send 0x8000 (\<lambda>_. 5) (\<lambda>i kq. if i = 2 then snd (snd (mq_tryrecv msg0 kq)) else (schedule 0x8000 (of_nat i) (fst kq), snd kq))
     7 (\<lambda>_. 65) 2 (kernel2, mq_full) = Some (k', q') \<and> length (mq_items q') = 16"
proof -
  let ?o = "\<lambda>i kq. if i = 2 then snd (snd (mq_tryrecv msg0 kq)) else (schedule 0x8000 (of_nat i) (fst kq), snd kq)"
  have w: "mq_waiters (send_q mq_full) = []" using mq0_waiters(2) by (simp add: mq_full_def send_q_def)
  obtain k' q' where "mq_send 0x8000 (\<lambda>_. 5) ?o 7 (\<lambda>_. 65) 2 (kernel2, mq_full) = Some (k', q')"
    and m: "map mq_view (mq_items q') = tl (map mq_view (mq_items mq_full)) @ [(int (current_task kernel2), 7, map (\<lambda>_. 65) [0..<min 64 (unat (2 :: u64))])]"
    using mq_send_waits_for_room [OF mq_full_inv w _ kernel2_inv kernel2_running refl, of msg0 "0x8000" "\<lambda>_. 5" 2 "of_nat" 7 "\<lambda>_. 65" 2]
    by (auto simp: msg0_def)
  moreover have "length (mq_items q') = 16" using arg_cong [OF m, of length] mq_full_inv(2) by simp
  ultimately show ?thesis by blast
qed

end
