(* ===== verification/Vfs.thy ===== *)
theory Vfs
  imports KString Alloc
begin

text \<open>
  The in-memory file system (\<^verbatim>\<open>src/vfs.c\<close>, \<^verbatim>\<open>src/vfs.h\<close>): a table of 64 inodes that form a
  tree, a table of 16 descriptors, and one heap buffer of 16 KB per file. Caller buffers and
  file contents live in the same byte memory, the heap's, so that \<open>memcpy\<close> between them is
  the C one. An operation that allocates has an \<open>option\<close> result like \<open>kmalloc\<close>. A null path
  is the empty string: \<open>vfs_resolve\<close> answers both alike.
\<close>

unbundle bit_operations_syntax

subsection \<open>Data\<close>

abbreviation VFS_FILE :: int where "VFS_FILE \<equiv> 0"
abbreviation VFS_DIR :: int where "VFS_DIR \<equiv> 1"

abbreviation O_CREAT :: int where "O_CREAT \<equiv> 4"
abbreviation O_APPEND :: int where "O_APPEND \<equiv> 8"
abbreviation O_TRUNC :: int where "O_TRUNC \<equiv> 16"

abbreviation SEEK_SET :: int where "SEEK_SET \<equiv> 0"
abbreviation SEEK_CUR :: int where "SEEK_CUR \<equiv> 1"
abbreviation SEEK_END :: int where "SEEK_END \<equiv> 2"

abbreviation VFS_MAX_INODES :: nat where "VFS_MAX_INODES \<equiv> 64"
abbreviation VFS_MAX_NAME :: nat where "VFS_MAX_NAME \<equiv> 32"
abbreviation VFS_MAX_FDS :: nat where "VFS_MAX_FDS \<equiv> 16"
abbreviation VFS_MAX_FSIZE :: int where "VFS_MAX_FSIZE \<equiv> 16384"

record vfs_inode_t =
  iname :: string
  itype :: int
  iparent :: int
  isize :: int
  idata :: addr
  iused :: bool

record vfs_fd_t =
  finode :: int
  fpos :: int
  fflags :: int

record vfs =
  inodes :: "vfs_inode_t list"
  fds :: "vfs_fd_t list"
  vheap :: kheap

definition inode_zero :: vfs_inode_t where
  "inode_zero = \<lparr>iname = [], itype = 0, iparent = 0, isize = 0, idata = 0, iused = False\<rparr>"

definition upd_inode :: "nat \<Rightarrow> (vfs_inode_t \<Rightarrow> vfs_inode_t) \<Rightarrow> vfs \<Rightarrow> vfs" where
  "upd_inode i f v = v\<lparr>inodes := (inodes v)[i := f (inodes v ! i)]\<rparr>"

definition upd_fd :: "nat \<Rightarrow> (vfs_fd_t \<Rightarrow> vfs_fd_t) \<Rightarrow> vfs \<Rightarrow> vfs" where
  "upd_fd i f v = v\<lparr>fds := (fds v)[i := f (fds v ! i)]\<rparr>"

definition upd_mem :: "(mem \<Rightarrow> mem) \<Rightarrow> vfs \<Rightarrow> vfs" where
  "upd_mem f v = v\<lparr>vheap := (vheap v)\<lparr>mem := f (mem (vheap v))\<rparr>\<rparr>"

subsection \<open>Helpers\<close>

definition alloc_inode :: "vfs \<Rightarrow> int" where
  "alloc_inode v = idx_or_neg1 (find (\<lambda>i. \<not> iused (inodes v ! i)) [1..<VFS_MAX_INODES])"

definition alloc_fd :: "vfs \<Rightarrow> int" where
  "alloc_fd v = idx_or_neg1 (find (\<lambda>i. finode (fds v ! i) = - 1) [0..<VFS_MAX_FDS])"

fun strncpy_loop :: "string \<Rightarrow> nat \<Rightarrow> string" where
  "strncpy_loop src 0 = []"
| "strncpy_loop src (Suc room) = (if chd src = NUL then [] else chd src # strncpy_loop (tl src) room)"

definition vfs_strncpy :: "string \<Rightarrow> nat \<Rightarrow> string" where
  "vfs_strncpy src n = strncpy_loop src (n - 1)"

fun last_slash :: "string \<Rightarrow> nat \<Rightarrow> nat option \<Rightarrow> nat option" where
  "last_slash [] i slash = slash"
| "last_slash (c # cs) i slash = last_slash cs (i + 1) (if c = CHR ''/'' then Some i else slash)"

text \<open>\<open>None\<close> when the C function returns 0, else the parent path and the last component.\<close>

definition split_path :: "string \<Rightarrow> (string \<times> string) option" where
  "split_path path =
     (let len = k_strlen path
      in if len = 0 then None
         else
           let (parent, nm) =
             (case last_slash (take len path) 0 None of
                None \<Rightarrow> (''/'', vfs_strncpy path VFS_MAX_NAME)
              | Some slash \<Rightarrow>
                  if slash = 0 then (''/'', vfs_strncpy (drop 1 path) VFS_MAX_NAME)
                  else (take (min slash (VFS_MAX_NAME - 1)) path,
                        vfs_strncpy (drop (slash + 1) path) VFS_MAX_NAME))
           in if nm \<noteq> [] then Some (parent, nm) else None)"

definition vfs_init :: "vfs \<Rightarrow> vfs" where
  "vfs_init v = v\<lparr>
     inodes := (replicate VFS_MAX_INODES inode_zero)
       [0 := inode_zero\<lparr>iused := True, itype := VFS_DIR, iparent := - 1, isize := 0, idata := 0, iname := ''/''\<rparr>],
     fds := map (\<lambda>f. f\<lparr>finode := - 1\<rparr>) (fds v)\<rparr>"

subsection \<open>Path resolution\<close>

text \<open>The next component of a path: at most \<open>VFS_MAX_NAME - 1\<close> characters before a slash.\<close>

fun next_comp :: "nat \<Rightarrow> string \<Rightarrow> string \<times> string" where
  "next_comp 0 p = ([], p)"
| "next_comp (Suc room) p =
     (if chd p \<noteq> NUL \<and> chd p \<noteq> CHR ''/''
      then (let (cmp, q) = next_comp room (tl p) in (chd p # cmp, q)) else ([], p))"

definition skip_slash :: "string \<Rightarrow> string" where
  "skip_slash p = (if chd p = CHR ''/'' then tl p else p)"

definition child :: "vfs \<Rightarrow> int \<Rightarrow> string \<Rightarrow> nat \<Rightarrow> bool" where
  "child v par nm j \<longleftrightarrow> iused (inodes v ! j) \<and> iparent (inodes v ! j) = par \<and> str_eq (iname (inodes v ! j)) nm"

definition find_child :: "vfs \<Rightarrow> int \<Rightarrow> string \<Rightarrow> int" where
  "find_child v par nm = idx_or_neg1 (find (child v par nm) [1..<VFS_MAX_INODES])"

lemma next_comp_length: "next_comp n p = (cmp, q) \<Longrightarrow> length q + length cmp = length p"
  by (induction n p arbitrary: cmp q rule: next_comp.induct)
     (auto split: if_splits prod.splits simp: chd_def split: list.splits)

lemma next_comp_Nil: "next_comp (Suc n) p = ([], q) \<Longrightarrow> q = p \<and> (chd p = NUL \<or> chd p = CHR ''/'')"
  by (auto split: if_splits prod.splits)

function resolve_loop :: "vfs \<Rightarrow> string \<Rightarrow> int \<Rightarrow> int" where
  "resolve_loop v p cur =
     (if chd p = NUL then cur
      else
        let (cmp, q) = next_comp (VFS_MAX_NAME - 1) p; q' = skip_slash q
        in if cmp = [] then resolve_loop v q' cur
           else let found = find_child v cur cmp
                in if found < 0 then - 1 else resolve_loop v q' found)"
  by pat_completeness auto
termination
proof (relation "measure (\<lambda>(v, p, cur). length p)", goal_cases)
  case (2 v p cur cq cmp q q')
  then have "next_comp 31 p = ([], q)" "chd p \<noteq> NUL" by auto
  then have "q = p" "chd p = CHR ''/''" using next_comp_Nil [of 30 p q] by auto
  then show ?case using 2 by (auto simp: skip_slash_def chd_def split: list.splits)
next
  case (3 v p cur cq cmp q q' found)
  then have "length q + length cmp = length p" "cmp \<noteq> []" by (auto dest: next_comp_length [OF sym])
  then have "length q < length p" by (cases cmp) auto
  then show ?case using 3 by (auto simp: skip_slash_def)
qed simp

declare resolve_loop.simps [simp del]

definition vfs_resolve :: "string \<Rightarrow> vfs \<Rightarrow> int" where
  "vfs_resolve path v =
     (if chd path = NUL then - 1
      else if chd path = CHR ''/'' \<and> chd (tl path) = NUL then 0
      else resolve_loop v (skip_slash path) 0)"

subsection \<open>Directory and file operations\<close>

definition vfs_mkdir :: "string \<Rightarrow> vfs \<Rightarrow> int \<times> vfs" where
  "vfs_mkdir path v =
     (case split_path path of
        None \<Rightarrow> (- 1, v)
      | Some (ppath, nm) \<Rightarrow>
          let par = vfs_resolve ppath v
          in if par < 0 \<or> itype (inodes v ! nat par) \<noteq> VFS_DIR then (- 1, v)
             else if \<exists>i \<in> set [1..<VFS_MAX_INODES]. child v par nm i then (- 1, v)
             else
               let idx = alloc_inode v
               in if idx < 0 then (- 1, v)
                  else (idx, upd_inode (nat idx) (\<lambda>n. n\<lparr>iused := True, itype := VFS_DIR, iparent := par,
                          isize := 0, idata := 0, iname := vfs_strncpy nm VFS_MAX_NAME\<rparr>) v))"

text \<open>The creation branch of \<open>vfs_open\<close>: the new inode or \<open>-1\<close>.\<close>

definition vfs_create :: "string \<Rightarrow> vfs \<Rightarrow> (int \<times> vfs) option" where
  "vfs_create path v =
     (case split_path path of
        None \<Rightarrow> Some (- 1, v)
      | Some (ppath, nm) \<Rightarrow>
          let par = vfs_resolve ppath v
          in if par < 0 \<or> itype (inodes v ! nat par) \<noteq> VFS_DIR then Some (- 1, v)
             else
               let idx = alloc_inode v
               in if idx < 0 then Some (- 1, v)
                  else do {
                    (p, h) \<leftarrow> kmalloc (of_int VFS_MAX_FSIZE) (vheap v);
                    let v1 = upd_inode (nat idx) (\<lambda>n. n\<lparr>idata := p\<rparr>) (v\<lparr>vheap := h\<rparr>)
                    in if p = 0 then Some (- 1, upd_inode (nat idx) (\<lambda>n. n\<lparr>iused := False\<rparr>) v1)
                       else
                         let v2 = upd_mem (\<lambda>m. memset m p 0 (of_int VFS_MAX_FSIZE)) v1
                         in Some (idx, upd_inode (nat idx) (\<lambda>n. n\<lparr>iused := True, itype := VFS_FILE,
                              iparent := par, isize := 0, iname := vfs_strncpy nm VFS_MAX_NAME\<rparr>) v2)
                  })"

definition vfs_truncate :: "nat \<Rightarrow> vfs \<Rightarrow> vfs" where
  "vfs_truncate i v =
     (let v1 = (if idata (inodes v ! i) \<noteq> 0
                then upd_mem (\<lambda>m. memset m (idata (inodes v ! i)) 0 (of_int VFS_MAX_FSIZE)) v else v)
      in upd_inode i (\<lambda>n. n\<lparr>isize := 0\<rparr>) v1)"

definition open_fd :: "int \<Rightarrow> int \<Rightarrow> vfs \<Rightarrow> int \<times> vfs" where
  "open_fd idx flags v =
     (let fd = alloc_fd v
      in if fd < 0 then (- 1, v)
         else (fd, upd_fd (nat fd) (\<lambda>f. f\<lparr>finode := idx, fflags := flags,
                fpos := (if flags AND O_APPEND \<noteq> 0 then isize (inodes v ! nat idx) else 0)\<rparr>) v))"

definition vfs_open :: "string \<Rightarrow> int \<Rightarrow> vfs \<Rightarrow> (int \<times> vfs) option" where
  "vfs_open path flags v =
     (let idx = vfs_resolve path v
      in if idx < 0
         then (if flags AND O_CREAT = 0 then Some (- 1, v)
               else do {
                 (i, v1) \<leftarrow> vfs_create path v;
                 if i < 0 then Some (- 1, v1) else Some (open_fd i flags v1)
               })
         else if itype (inodes v ! nat idx) \<noteq> VFS_FILE then Some (- 1, v)
         else Some (open_fd idx flags (if flags AND O_TRUNC \<noteq> 0 then vfs_truncate (nat idx) v else v)))"

definition vfs_close :: "int \<Rightarrow> vfs \<Rightarrow> vfs" where
  "vfs_close fd v = (if 0 \<le> fd \<and> fd < int VFS_MAX_FDS then upd_fd (nat fd) (\<lambda>f. f\<lparr>finode := - 1\<rparr>) v else v)"

text \<open>The guard that \<open>vfs_read\<close>, \<open>vfs_write\<close> and \<open>vfs_seek\<close> begin with.\<close>

definition bad_fd :: "int \<Rightarrow> vfs \<Rightarrow> bool" where
  "bad_fd fd v \<longleftrightarrow> fd < 0 \<or> fd \<ge> int VFS_MAX_FDS \<or> finode (fds v ! nat fd) < 0"

text \<open>\<open>len\<close> is a C \<open>int\<close>; \<open>memcpy\<close> takes it as an \<open>unsigned long\<close>.\<close>

definition vfs_read :: "int \<Rightarrow> addr \<Rightarrow> int \<Rightarrow> vfs \<Rightarrow> int \<times> vfs" where
  "vfs_read fd buf len v =
     (if bad_fd fd v then (- 1, v)
      else
        let f = fds v ! nat fd; nd = inodes v ! nat (finode f)
        in if itype nd \<noteq> VFS_FILE \<or> idata nd = 0 then (- 1, v)
           else
             let avail = isize nd - fpos f
             in if avail \<le> 0 then (0, v)
                else
                  let n = (if len > avail then avail else len);
                      v1 = upd_mem (\<lambda>m. memcpy m buf (idata nd + of_int (fpos f)) (of_int n)) v
                  in (n, upd_fd (nat fd) (\<lambda>f. f\<lparr>fpos := fpos f + n\<rparr>) v1))"

definition vfs_write :: "int \<Rightarrow> addr \<Rightarrow> int \<Rightarrow> vfs \<Rightarrow> int \<times> vfs" where
  "vfs_write fd buf len v =
     (if bad_fd fd v then (- 1, v)
      else
        let i = nat (finode (fds v ! nat fd)); nd = inodes v ! i
        in if itype nd \<noteq> VFS_FILE \<or> idata nd = 0 then (- 1, v)
           else
             let v1 = (if fflags (fds v ! nat fd) AND O_APPEND \<noteq> 0
                       then upd_fd (nat fd) (\<lambda>f. f\<lparr>fpos := isize nd\<rparr>) v else v);
                 pos = fpos (fds v1 ! nat fd);
                 space = VFS_MAX_FSIZE - pos
             in if space \<le> 0 then (- 1, v1)
                else
                  let n = (if len > space then space else len);
                      v2 = upd_mem (\<lambda>m. memcpy m (idata nd + of_int pos) buf (of_int n)) v1;
                      v3 = upd_fd (nat fd) (\<lambda>f. f\<lparr>fpos := pos + n\<rparr>) v2
                  in (n, if pos + n > isize nd then upd_inode i (\<lambda>n'. n'\<lparr>isize := pos + n\<rparr>) v3 else v3))"

definition vfs_seek :: "int \<Rightarrow> int \<Rightarrow> int \<Rightarrow> vfs \<Rightarrow> int \<times> vfs" where
  "vfs_seek fd offset whence v =
     (if bad_fd fd v then (- 1, v)
      else
        let f = fds v ! nat fd; nd = inodes v ! nat (finode f)
        in if whence \<noteq> SEEK_SET \<and> whence \<noteq> SEEK_CUR \<and> whence \<noteq> SEEK_END then (- 1, v)
           else
             let np = (if whence = SEEK_SET then offset
                       else if whence = SEEK_CUR then wrap32 (fpos f + offset)
                       else wrap32 (isize nd + offset))
             in if np < 0 \<or> np > isize nd then (- 1, v)
                else (np, upd_fd (nat fd) (\<lambda>f. f\<lparr>fpos := np\<rparr>) v))"

definition vfs_unlink :: "string \<Rightarrow> vfs \<Rightarrow> int \<times> vfs" where
  "vfs_unlink path v =
     (let idx = vfs_resolve path v
      in if idx \<le> 0 then (- 1, v)
         else if itype (inodes v ! nat idx) = VFS_DIR \<and>
                 (\<exists>i \<in> set [1..<VFS_MAX_INODES]. iused (inodes v ! i) \<and> iparent (inodes v ! i) = idx)
         then (- 1, v)
         else
           let v1 = v\<lparr>fds := map (\<lambda>f. if finode f = idx then f\<lparr>finode := - 1\<rparr> else f) (fds v)\<rparr>;
               p = idata (inodes v ! nat idx);
               v2 = (if p \<noteq> 0 then v1\<lparr>vheap := kfree p (vheap v1)\<rparr> else v1)
           in (0, upd_inode (nat idx) (\<lambda>_. inode_zero) v2))"

subsection \<open>Inspection\<close>

definition vfs_inode_used :: "int \<Rightarrow> vfs \<Rightarrow> bool" where
  "vfs_inode_used i v \<longleftrightarrow> 0 \<le> i \<and> i < int VFS_MAX_INODES \<and> iused (inodes v ! nat i)"

definition vfs_inode_type :: "int \<Rightarrow> vfs \<Rightarrow> int" where
  "vfs_inode_type i v = (if \<not> vfs_inode_used i v then - 1 else itype (inodes v ! nat i))"

definition vfs_inode_size :: "int \<Rightarrow> vfs \<Rightarrow> int" where
  "vfs_inode_size i v = (if \<not> vfs_inode_used i v then - 1 else isize (inodes v ! nat i))"

definition vfs_inode_parent :: "int \<Rightarrow> vfs \<Rightarrow> int" where
  "vfs_inode_parent i v = (if \<not> vfs_inode_used i v then - 1 else iparent (inodes v ! nat i))"

definition vfs_inode_name :: "int \<Rightarrow> vfs \<Rightarrow> string" where
  "vfs_inode_name i v = (if \<not> vfs_inode_used i v then [] else iname (inodes v ! nat i))"

definition vfs_max_inodes :: nat where
  "vfs_max_inodes = VFS_MAX_INODES"

subsection \<open>The invariant\<close>

text \<open>
  \<open>L\<close> is the set of live heap buffers and \<open>d\<close> a depth that decreases from an inode to its
  parent, so that the parent links form a tree under the root.
\<close>

definition inode_ok :: "(nat \<Rightarrow> nat) \<Rightarrow> kheap \<Rightarrow> addr set \<Rightarrow> vfs_inode_t list \<Rightarrow> nat \<Rightarrow> bool" where
  "inode_ok d h L ns i \<longleftrightarrow>
     length (iname (ns ! i)) \<le> 31 \<and> NUL \<notin> set (iname (ns ! i)) \<and>
     (itype (ns ! i) = VFS_FILE \<and> idata (ns ! i) \<in> L \<and> VFS_MAX_FSIZE \<le> int (live_extent h (idata (ns ! i))) \<and>
        0 \<le> isize (ns ! i) \<and> isize (ns ! i) \<le> VFS_MAX_FSIZE
      \<or> itype (ns ! i) = VFS_DIR \<and> idata (ns ! i) = 0) \<and>
     (if i = 0 then itype (ns ! i) = VFS_DIR \<and> iparent (ns ! i) = - 1
      else \<exists>p < VFS_MAX_INODES. iparent (ns ! i) = int p \<and> iused (ns ! p) \<and>
        itype (ns ! p) = VFS_DIR \<and> d p < d i)"

definition fd_ok :: "vfs_inode_t list \<Rightarrow> vfs_fd_t \<Rightarrow> bool" where
  "fd_ok ns f \<longleftrightarrow> finode f = - 1 \<or>
     (\<exists>i < VFS_MAX_INODES. finode f = int i \<and> iused (ns ! i) \<and> itype (ns ! i) = VFS_FILE \<and>
        0 \<le> fpos f \<and> fpos f \<le> VFS_MAX_FSIZE)"

definition vfs_inv :: "(nat \<Rightarrow> nat) \<Rightarrow> addr set \<Rightarrow> vfs \<Rightarrow> bool" where
  "vfs_inv d L v \<longleftrightarrow>
     length (inodes v) = VFS_MAX_INODES \<and> length (fds v) = VFS_MAX_FDS \<and> heap_live (vheap v) L \<and>
     iused (inodes v ! 0) \<and>
     (\<forall>i < VFS_MAX_INODES. iused (inodes v ! i) \<longrightarrow> inode_ok d (vheap v) L (inodes v) i) \<and>
     (\<forall>i < VFS_MAX_INODES. \<forall>j < VFS_MAX_INODES. iused (inodes v ! i) \<longrightarrow> iused (inodes v ! j) \<longrightarrow> i \<noteq> j \<longrightarrow>
        itype (inodes v ! i) = VFS_FILE \<longrightarrow> itype (inodes v ! j) = VFS_FILE \<longrightarrow>
        idata (inodes v ! i) \<noteq> idata (inodes v ! j)) \<and>
     (\<forall>f \<in> set (fds v). fd_ok (inodes v) f)"

lemma vfs_upd_simps [simp]:
  "inodes (upd_inode i f v) = (inodes v)[i := f (inodes v ! i)]" "fds (upd_inode i f v) = fds v"
  "vheap (upd_inode i f v) = vheap v" "inodes (upd_fd k g v) = inodes v"
  "fds (upd_fd k g v) = (fds v)[k := g (fds v ! k)]" "vheap (upd_fd k g v) = vheap v"
  "inodes (upd_mem t v) = inodes v" "fds (upd_mem t v) = fds v"
  "vheap (upd_mem t v) = (vheap v)\<lparr>mem := t (mem (vheap v))\<rparr>"
  by (simp_all add: upd_inode_def upd_fd_def upd_mem_def)

lemma vfs_inv_upd_mem [simp]: "vfs_inv d L (upd_mem t v) = vfs_inv d L v"
  by (simp add: vfs_inv_def kh.put_inv kh.put_extent inode_ok_def)

lemma alloc_inode_range:
  assumes "alloc_inode v = r" "\<not> r < 0"
  shows "0 < nat r" "nat r < VFS_MAX_INODES" "\<not> iused (inodes v ! nat r)" "r = int (nat r)"
  using assms by (auto simp: alloc_inode_def idx_or_neg1_def split: option.splits dest: find_upt_Some)

lemma find_child_range:
  assumes "find_child v par nm = r" "\<not> r < 0"
  shows "0 < nat r" "nat r < VFS_MAX_INODES" "child v par nm (nat r)" "r = int (nat r)"
  using assms by (auto simp: find_child_def idx_or_neg1_def split: option.splits dest: find_upt_Some)

lemma resolve_loop_used:
  assumes "resolve_loop v p cur = r" "\<not> r < 0" "iused (inodes v ! nat cur)" "nat cur < VFS_MAX_INODES"
  shows "iused (inodes v ! nat r) \<and> nat r < VFS_MAX_INODES"
  using assms
proof (induction v p cur arbitrary: r rule: resolve_loop.induct)
  case (1 v p cur)
  obtain c q where cq: "next_comp 31 p = (c, q)" by fastforce
  show ?case
  proof (cases "chd p = NUL")
    case True
    then show ?thesis using 1(3,5,6) by (simp add: resolve_loop.simps)
  next
    case False
    note e = "1.prems"(1) [unfolded resolve_loop.simps [of v p cur]]
    show ?thesis
    proof (cases "c = []")
      case True
      then show ?thesis using "1.IH"(1) [OF False _ _ _ True, of _ q "skip_slash q" r] e "1.prems" cq False
        by (simp add: Let_def)
    next
      case c: False
      show ?thesis
      proof (cases "find_child v cur c < 0")
        case True
        then show ?thesis using e c cq False "1.prems"(2) by (simp add: Let_def)
      next
        case nf: False
        note fc = find_child_range [OF refl nf]
        have "resolve_loop v (skip_slash q) (find_child v cur c) = r"
          using e c cq False nf by (simp add: Let_def)
        then show ?thesis
          using "1.IH"(2) [OF False _ _ _ c _ nf, of _ q "skip_slash q" r] cq fc "1.prems"(2)
          by (simp add: child_def)
      qed
    qed
  qed
qed

lemma vfs_resolve_used:
  assumes "vfs_inv d L v" "vfs_resolve path v = r" "\<not> r < 0"
  shows "iused (inodes v ! nat r)" "nat r < VFS_MAX_INODES"
  using assms resolve_loop_used [of v "skip_slash path" 0 r]
  by (auto simp: vfs_resolve_def vfs_inv_def split: if_splits)

lemma strncpy_loop_eq: "strncpy_loop src n = take n (cstr src)"
  by (induction src n rule: strncpy_loop.induct) (auto simp: chd_def cstr_Cons split: list.splits)

lemma vfs_strncpy_eq: "vfs_strncpy src n = take (n - 1) (cstr src)"
  by (simp add: vfs_strncpy_def strncpy_loop_eq)

lemma vfs_strncpy_ok: "length (vfs_strncpy src 32) \<le> 31" "NUL \<notin> set (vfs_strncpy src 32)"
  by (simp_all add: vfs_strncpy_eq take_cstr_no_nul)

subsection \<open>Every operation keeps the invariant\<close>

lemma vfs_invD:
  assumes "vfs_inv d L v"
  shows "length (inodes v) = VFS_MAX_INODES" "length (fds v) = VFS_MAX_FDS" "heap_live (vheap v) L"
    "i < VFS_MAX_INODES \<Longrightarrow> iused (inodes v ! i) \<Longrightarrow> inode_ok d (vheap v) L (inodes v) i"
    "k < VFS_MAX_FDS \<Longrightarrow> fd_ok (inodes v) (fds v ! k)"
  using assms by (simp_all add: vfs_inv_def)

lemma file_fields:
  assumes "vfs_inv d L v" "i < VFS_MAX_INODES" "iused (inodes v ! i)" "itype (inodes v ! i) = VFS_FILE"
  shows "idata (inodes v ! i) \<in> L" "VFS_MAX_FSIZE \<le> int (live_extent (vheap v) (idata (inodes v ! i)))"
    "0 \<le> isize (inodes v ! i)" "isize (inodes v ! i) \<le> VFS_MAX_FSIZE" "idata (inodes v ! i) \<noteq> 0" "i \<noteq> 0"
  using vfs_invD(4) [OF assms(1-3)] assms(4) kh.live_fits [OF vfs_invD(3) [OF assms(1)]]
  by (auto simp: inode_ok_def split: if_splits)

lemma vfs_inv_new_inode:
  assumes I: "vfs_inv d L v" and i: "0 < i" "i < VFS_MAX_INODES" "\<not> iused (inodes v ! i)"
    and nm: "length (iname n) \<le> 31" "NUL \<notin> set (iname n)" "iused n"
    and par: "iparent n = int p" "p < VFS_MAX_INODES" "iused (inodes v ! p)" "itype (inodes v ! p) = VFS_DIR"
    and heap: "heap_live h' L'" "L \<subseteq> L'" "\<forall>q \<in> L. live_extent h' q = live_extent (vheap v) q"
    and n: "itype n = VFS_DIR \<and> idata n = 0 \<or> itype n = VFS_FILE \<and> idata n \<in> L' \<and> idata n \<notin> L \<and>
      VFS_MAX_FSIZE \<le> int (live_extent h' (idata n)) \<and> 0 \<le> isize n \<and> isize n \<le> VFS_MAX_FSIZE"
  shows "vfs_inv (d(i := Suc (d p))) L' (v\<lparr>inodes := (inodes v)[i := n], vheap := h'\<rparr>)"
proof -
  note D = vfs_invD [OF I]
  have ip: "p \<noteq> i" using i par by auto
  have new: "inode_ok (d(i := Suc (d p))) h' L' ((inodes v)[i := n]) i"
    using nm par n i ip D(1) by (auto simp: inode_ok_def intro!: exI [of _ p])
  have old: "inode_ok (d(i := Suc (d p))) h' L' ((inodes v)[i := n]) j"
    if j: "j < VFS_MAX_INODES" "iused (inodes v ! j)" "j \<noteq> i" for j
    using D(4) [OF j(1,2)] j i heap(2,3) by (auto simp: inode_ok_def)
  have dist: "idata n \<noteq> idata (inodes v ! j)"
    "idata (inodes v ! j) \<noteq> idata n"
    if "j < VFS_MAX_INODES" "iused (inodes v ! j)" "itype (inodes v ! j) = VFS_FILE" "itype n = VFS_FILE" for j
    using file_fields(1) [OF I that(1-3)] n that(4) by auto
  have fd: "fd_ok ((inodes v)[i := n]) f" if "f \<in> set (fds v)" for f
    using that I i by (fastforce simp: vfs_inv_def fd_ok_def nth_list_update)
  show ?thesis
    using I i nm heap new old dist fd D(1) unfolding vfs_inv_def
    by (auto simp: nth_list_update)
qed

lemma vfs_mkdir_inv [inv_intros]:
  assumes "vfs_inv d L v" "vfs_mkdir path v = (r, v')"
  shows "\<exists>d'. vfs_inv d' L v'"
proof (cases "v' = v")
  case False
  with assms(2) obtain ppath nm where s: "split_path path = Some (ppath, nm)"
    by (auto simp: vfs_mkdir_def split: option.splits)
  define par where "par = vfs_resolve ppath v"
  define i where "i = alloc_inode v"
  from False assms(2) s have p: "\<not> par < 0" "itype (inodes v ! nat par) = VFS_DIR" and i: "\<not> i < 0"
    and v': "v' = upd_inode (nat i) (\<lambda>n. n\<lparr>iused := True, itype := VFS_DIR, iparent := par,
                          isize := 0, idata := 0, iname := vfs_strncpy nm VFS_MAX_NAME\<rparr>) v"
    by (auto simp: vfs_mkdir_def Let_def par_def i_def split: if_splits)
  note u = vfs_resolve_used [OF assms(1) par_def [symmetric] p(1)] and a = alloc_inode_range [OF i_def [symmetric] i]
  have "vfs_inv (d(nat i := Suc (d (nat par)))) L (v\<lparr>inodes := (inodes v)[nat i :=
      (inodes v ! nat i)\<lparr>iused := True, itype := VFS_DIR, iparent := par,
                          isize := 0, idata := 0, iname := vfs_strncpy nm VFS_MAX_NAME\<rparr>], vheap := vheap v\<rparr>)"
    by (rule vfs_inv_new_inode [OF assms(1) a(1-3)]) (use u p vfs_strncpy_ok vfs_invD(3) [OF assms(1)] in auto)
  then show ?thesis by (auto simp: v' upd_inode_def)
qed (use assms in auto)

text \<open>Changes to one descriptor or to the size of one file.\<close>

lemma vfs_inv_upd_fd:
  assumes "vfs_inv d L v" "k < VFS_MAX_FDS" "fd_ok (inodes v) (f (fds v ! k))"
  shows "vfs_inv d L (upd_fd k f v)"
  using assms by (auto simp: vfs_inv_def dest!: set_update_subset_insert [THEN subsetD])

lemma vfs_inv_set_size:
  assumes "vfs_inv d L v" "i < VFS_MAX_INODES" "0 \<le> s" "s \<le> VFS_MAX_FSIZE"
  shows "vfs_inv d L (upd_inode i (\<lambda>n. n\<lparr>isize := s\<rparr>) v)"
proof -
  let ?ns = "(inodes v)[i := (inodes v ! i)\<lparr>isize := s\<rparr>]"
  have e: "iused (?ns ! j) = iused (inodes v ! j)" "itype (?ns ! j) = itype (inodes v ! j)"
    "idata (?ns ! j) = idata (inodes v ! j)" "iparent (?ns ! j) = iparent (inodes v ! j)"
    "iname (?ns ! j) = iname (inodes v ! j)" "isize (?ns ! j) = (if j = i then s else isize (inodes v ! j))" for j
    using assms vfs_invD(1) [OF assms(1)] by (simp_all add: nth_list_update)
  have "inode_ok d h L ?ns j" if "inode_ok d h L (inodes v) j" for h j
    using that assms(3,4) unfolding inode_ok_def e by (auto split: if_splits)
  moreover have "fd_ok ?ns f = fd_ok (inodes v) f" for f by (simp only: fd_ok_def e)
  ultimately show ?thesis using assms(1) unfolding vfs_inv_def vfs_upd_simps e by simp
qed

lemma vfs_close_inv [inv_intros]: "vfs_inv d L v \<Longrightarrow> vfs_inv d L (vfs_close fd v)"
  unfolding vfs_close_def by (auto intro!: vfs_inv_upd_fd simp: fd_ok_def)

lemma fd_cases:
  assumes "vfs_inv d L v" "\<not> bad_fd fd v"
  obtains i where "nat fd < VFS_MAX_FDS" "fd = int (nat fd)" "i < VFS_MAX_INODES" "finode (fds v ! nat fd) = int i"
    "iused (inodes v ! i)" "itype (inodes v ! i) = VFS_FILE" "idata (inodes v ! i) \<noteq> 0"
    "0 \<le> fpos (fds v ! nat fd)" "fpos (fds v ! nat fd) \<le> VFS_MAX_FSIZE"
proof -
  have k: "nat fd < VFS_MAX_FDS" "fd = int (nat fd)" "\<not> finode (fds v ! nat fd) < 0"
    using assms(2) by (auto simp: bad_fd_def)
  with vfs_invD(5) [OF assms(1) k(1)] obtain i where
    i: "i < VFS_MAX_INODES" "finode (fds v ! nat fd) = int i" "iused (inodes v ! i)" "itype (inodes v ! i) = VFS_FILE"
      "0 \<le> fpos (fds v ! nat fd)" "fpos (fds v ! nat fd) \<le> VFS_MAX_FSIZE"
    by (auto simp: fd_ok_def)
  with file_fields(5) [OF assms(1) i(1,3,4)] show thesis using k that by blast
qed

text \<open>The outcome of a read and of a write with a valid descriptor and a non-negative length.\<close>

lemma vfs_read_eq:
  assumes "vfs_inv d L v" "\<not> bad_fd fd v" "finode (fds v ! nat fd) = int i"
  shows "vfs_read fd buf len v =
    (let pos = fpos (fds v ! nat fd); n = min len (isize (inodes v ! i) - pos)
     in if isize (inodes v ! i) \<le> pos then (0, v)
        else (n, upd_fd (nat fd) (\<lambda>f. f\<lparr>fpos := pos + n\<rparr>)
               (upd_mem (\<lambda>m. memcpy m buf (idata (inodes v ! i) + of_int pos) (of_int n)) v)))"
proof (rule fd_cases [OF assms(1,2)])
  fix j assume "finode (fds v ! nat fd) = int j" "itype (inodes v ! j) = VFS_FILE" "idata (inodes v ! j) \<noteq> 0"
  then show ?thesis using assms(2,3) by (simp add: vfs_read_def Let_def min_def upd_fd_def upd_mem_def)
qed

definition write_pos :: "int \<Rightarrow> vfs \<Rightarrow> int" where
  "write_pos fd v = (if fflags (fds v ! nat fd) AND O_APPEND \<noteq> 0
     then isize (inodes v ! nat (finode (fds v ! nat fd))) else fpos (fds v ! nat fd))"

lemma upd_mem_upd_fd: "upd_mem t (upd_fd k f v) = upd_fd k f (upd_mem t v)"
  by (simp add: upd_mem_def upd_fd_def)

lemma upd_fd_twice:
  "k < length (fds v) \<Longrightarrow> upd_fd k (\<lambda>f. f\<lparr>fpos := b\<rparr>) (upd_fd k (\<lambda>f. f\<lparr>fpos := a\<rparr>) v) = upd_fd k (\<lambda>f. f\<lparr>fpos := b\<rparr>) v"
  by (simp add: upd_fd_def)

lemma vfs_write_eq:
  assumes "vfs_inv d L v" "\<not> bad_fd fd v" "finode (fds v ! nat fd) = int i" "write_pos fd v < VFS_MAX_FSIZE"
  shows "vfs_write fd buf len v =
    (let pos = write_pos fd v; n = min len (VFS_MAX_FSIZE - pos);
         w = upd_fd (nat fd) (\<lambda>f. f\<lparr>fpos := pos + n\<rparr>)
               (upd_mem (\<lambda>m. memcpy m (idata (inodes v ! i) + of_int pos) buf (of_int n)) v)
     in (n, if isize (inodes v ! i) < pos + n then upd_inode i (\<lambda>nd. nd\<lparr>isize := pos + n\<rparr>) w else w))"
proof (rule fd_cases [OF assms(1,2)])
  fix j assume k: "nat fd < VFS_MAX_FDS" and j: "finode (fds v ! nat fd) = int j" "itype (inodes v ! j) = VFS_FILE"
    "idata (inodes v ! j) \<noteq> 0"
  have ji: "j = i" using j(1) assms(3) by simp
  show ?thesis
  proof (cases "fflags (fds v ! nat fd) AND O_APPEND = 0")
    case True
    then show ?thesis using assms(2,4) j(2,3)
      by (simp add: vfs_write_def Let_def min_def write_pos_def assms(3) ji)
  next
    case False
    then show ?thesis using assms(2,4) j(2,3) k vfs_invD(2) [OF assms(1)]
      by (simp add: vfs_write_def Let_def min_def write_pos_def assms(3) ji upd_mem_upd_fd upd_fd_twice)
  qed
qed

lemma vfs_read_inv [inv_intros]:
  assumes "vfs_inv d L v" "0 \<le> len"
  shows "vfs_inv d L (snd (vfs_read fd buf len v))"
proof (cases "bad_fd fd v")
  case False
  show ?thesis
  proof (rule fd_cases [OF assms(1) False])
    fix i assume i: "nat fd < VFS_MAX_FDS" "i < VFS_MAX_INODES" "finode (fds v ! nat fd) = int i"
      "iused (inodes v ! i)" "itype (inodes v ! i) = VFS_FILE" "0 \<le> fpos (fds v ! nat fd)"
    show ?thesis
      using i file_fields [OF assms(1) i(2,4,5)] assms
      by (auto simp: vfs_read_eq [OF assms(1) False i(3)] Let_def fd_ok_def intro!: vfs_inv_upd_fd)
  qed
qed (simp add: vfs_read_def assms)

lemma write_pos_range:
  assumes "vfs_inv d L v" "\<not> bad_fd fd v"
  shows "0 \<le> write_pos fd v" "write_pos fd v \<le> VFS_MAX_FSIZE"
proof -
  obtain i where i: "i < VFS_MAX_INODES" "finode (fds v ! nat fd) = int i" "iused (inodes v ! i)"
    "itype (inodes v ! i) = VFS_FILE" "0 \<le> fpos (fds v ! nat fd)" "fpos (fds v ! nat fd) \<le> VFS_MAX_FSIZE"
    by (rule fd_cases [OF assms])
  then show "0 \<le> write_pos fd v" "write_pos fd v \<le> VFS_MAX_FSIZE"
    using file_fields(3,4) [OF assms(1) i(1,3,4)] by (simp_all add: write_pos_def)
qed

lemma vfs_write_inv [inv_intros]:
  assumes "vfs_inv d L v" "0 \<le> len"
  shows "vfs_inv d L (snd (vfs_write fd buf len v))"
proof (cases "bad_fd fd v")
  case False
  note w = write_pos_range [OF assms(1) False]
  show ?thesis
  proof (rule fd_cases [OF assms(1) False])
    fix i assume i: "nat fd < VFS_MAX_FDS" "i < VFS_MAX_INODES" "finode (fds v ! nat fd) = int i"
      "iused (inodes v ! i)" "itype (inodes v ! i) = VFS_FILE" "idata (inodes v ! i) \<noteq> 0"
    show ?thesis
    proof (cases "write_pos fd v < VFS_MAX_FSIZE")
      case True
      let ?n = "min len (VFS_MAX_FSIZE - write_pos fd v)"
      let ?w = "upd_fd (nat fd) (\<lambda>f. f\<lparr>fpos := write_pos fd v + ?n\<rparr>)
        (upd_mem (\<lambda>m. memcpy m (idata (inodes v ! i) + of_int (write_pos fd v)) buf (of_int ?n)) v)"
      have "vfs_inv d L ?w" using i w True assms by (intro vfs_inv_upd_fd) (auto simp: fd_ok_def)
      then show ?thesis using vfs_inv_set_size [of d L ?w i] i(2) w True assms(2)
        by (auto simp: vfs_write_eq [OF assms(1) False i(3) True] Let_def)
    next
      case nt: False
      then have "write_pos fd v = VFS_MAX_FSIZE" using w by simp
      then have "snd (vfs_write fd buf len v) =
        (if fflags (fds v ! nat fd) AND O_APPEND \<noteq> 0
         then upd_fd (nat fd) (\<lambda>f. f\<lparr>fpos := isize (inodes v ! i)\<rparr>) v else v)"
        using i False vfs_invD(2) [OF assms(1)]
        by (cases "fflags (fds v ! nat fd) AND O_APPEND = 0") (simp_all add: vfs_write_def Let_def write_pos_def)
      then show ?thesis using i file_fields [OF assms(1) i(2,4,5)] assms(1)
        by (auto simp: fd_ok_def intro!: vfs_inv_upd_fd)
    qed
  qed
qed (simp add: vfs_write_def assms)

lemma vfs_seek_inv [inv_intros]:
  assumes "vfs_inv d L v"
  shows "vfs_inv d L (snd (vfs_seek fd offset whence v))"
proof (cases "bad_fd fd v")
  case False
  show ?thesis
  proof (rule fd_cases [OF assms(1) False])
    fix i assume i: "nat fd < VFS_MAX_FDS" "i < VFS_MAX_INODES" "finode (fds v ! nat fd) = int i"
      "iused (inodes v ! i)" "itype (inodes v ! i) = VFS_FILE"
    have "vfs_inv d L (upd_fd (nat fd) (\<lambda>f. f\<lparr>fpos := np\<rparr>) v)" if "\<not> (np < 0 \<or> isize (inodes v ! i) < np)" for np
      using i that file_fields [OF assms(1) i(2,4,5)] assms by (intro vfs_inv_upd_fd) (auto simp: fd_ok_def)
    then show ?thesis using assms i(3) False by (auto simp: vfs_seek_def Let_def)
  qed
qed (simp add: vfs_seek_def assms)

text \<open>Replacing an inode that no descriptor and no other inode refers to.\<close>

lemma fd_ok_update: "fd_ok ns f \<Longrightarrow> finode f \<noteq> int i \<Longrightarrow> fd_ok (ns[i := n]) f"
  by (auto simp: fd_ok_def)

lemma fd_ok_unused: "fd_ok ns f \<Longrightarrow> \<not> iused (ns ! i) \<Longrightarrow> finode f \<noteq> int i"
  by (auto simp: fd_ok_def)

lemma inode_ok_update:
  "inode_ok d h L ns j \<Longrightarrow> j \<noteq> i \<Longrightarrow> iparent (ns ! j) \<noteq> int i \<Longrightarrow> inode_ok d h L (ns[i := n]) j"
  by (auto simp: inode_ok_def split: if_splits)

lemma inode_ok_parent_used: "inode_ok d h L ns j \<Longrightarrow> \<not> iused (ns ! i) \<Longrightarrow> iparent (ns ! j) \<noteq> int i"
  by (auto simp: inode_ok_def split: if_splits)

lemma vfs_create_cases:
  assumes "vfs_inv d L v"
  obtains (fail) v' where "vfs_create path v = Some (- 1, v')" "vfs_inv d L v'"
  | (made) i par p h nm where "0 < i" "i < VFS_MAX_INODES" "\<not> iused (inodes v ! i)"
      "kmalloc 16384 (vheap v) = Some (p, h)" "p \<noteq> 0" "p \<notin> L" "heap_live h (insert p L)"
      "16384 \<le> live_extent h p" "mem h = mem (vheap v)" "\<forall>q \<in> L. live_extent h q = live_extent (vheap v) q"
      "par < VFS_MAX_INODES" "iused (inodes v ! par)" "itype (inodes v ! par) = VFS_DIR"
      "vfs_create path v = Some (int i, v\<lparr>vheap := h\<lparr>mem := memset (mem h) p 0 16384\<rparr>,
         inodes := (inodes v)[i := \<lparr>iname = vfs_strncpy nm VFS_MAX_NAME, itype = VFS_FILE, iparent = int par,
           isize = 0, idata = p, iused = True\<rparr>]\<rparr>)"
proof (cases "split_path path")
  case None
  then show thesis using assms by (intro fail) (simp_all add: vfs_create_def)
next
  case (Some pn)
  obtain ppath nm where pn: "split_path path = Some (ppath, nm)" using Some by (cases pn) auto
  define par where "par = vfs_resolve ppath v"
  define i where "i = alloc_inode v"
  show thesis
  proof (cases "par < 0 \<or> itype (inodes v ! nat par) \<noteq> VFS_DIR \<or> i < 0")
    case True
    then show thesis using assms pn by (intro fail) (auto simp: vfs_create_def Let_def par_def i_def)
  next
    case False
    then have par: "\<not> par < 0" "itype (inodes v ! nat par) = VFS_DIR" and i: "\<not> i < 0" by auto
    note u = vfs_resolve_used [OF assms par_def [symmetric] par(1)] and a = alloc_inode_range [OF i_def [symmetric] i]
    note D = vfs_invD [OF assms]
    have e: "vfs_create path v = do {
        (p, h) \<leftarrow> kmalloc 16384 (vheap v);
        let v1 = upd_inode (nat i) (\<lambda>n. n\<lparr>idata := p\<rparr>) (v\<lparr>vheap := h\<rparr>)
        in if p = 0 then Some (- 1, upd_inode (nat i) (\<lambda>n. n\<lparr>iused := False\<rparr>) v1)
           else Some (i, upd_inode (nat i) (\<lambda>n. n\<lparr>iused := True, itype := VFS_FILE, iparent := par, isize := 0,
             iname := vfs_strncpy nm VFS_MAX_NAME\<rparr>) (upd_mem (\<lambda>m. memset m p 0 16384) v1)) }"
      using pn par i unfolding vfs_create_def par_def i_def by (simp add: Let_def cong: if_cong)
    have sz: "0 < unat (16384::u64)" "unat (16384::u64) \<le> 2 ^ 62" by simp_all
    from kh.alloc_cases [OF D(3) sz] show thesis
    proof (elim disjE exE conjE)
      assume k: "kmalloc 16384 (vheap v) = Some (0, vheap v)"
      let ?v = "v\<lparr>inodes := (inodes v)[nat i := (inodes v ! nat i)\<lparr>idata := 0, iused := False\<rparr>]\<rparr>"
      have "vfs_create path v = Some (- 1, ?v)"
        using e k a D(1) by (simp add: upd_inode_def Let_def)
      moreover have "vfs_inv d L ?v"
      proof -
        have x: "inodes ?v ! j = (if j = nat i then (inodes v ! nat i)\<lparr>idata := 0, iused := False\<rparr> else inodes v ! j)" for j
          using a D(1) by (simp add: nth_list_update)
        have "fd_ok (inodes ?v) f" if "fd_ok (inodes v) f" for f
          using fd_ok_update [OF that fd_ok_unused [OF that a(3)]] by simp
        moreover have "inode_ok d h L (inodes ?v) j" if "inode_ok d h L (inodes v) j" "j \<noteq> nat i" for h j
          using inode_ok_update [OF that inode_ok_parent_used [OF that(1) a(3)]] by simp
        ultimately show ?thesis using assms a unfolding vfs_inv_def x by (auto split: if_splits)
      qed
      ultimately show thesis by (rule fail)
    next
      fix p h
      assume k: "kmalloc 16384 (vheap v) = Some (p, h)" "p \<noteq> 0" "p \<notin> L" "heap_live h (insert p L)"
        "unat (16384::u64) \<le> live_extent h p" "mem h = mem (vheap v)"
        "\<forall>q \<in> L. live_extent h q = live_extent (vheap v) q"
      show thesis
      proof (rule made [OF a(1-3) k(1-4) _ k(6,7) u(2,1) par(2)])
        show "16384 \<le> live_extent h p" using k(5) by simp
        show "vfs_create path v = Some (int (nat i), v\<lparr>vheap := h\<lparr>mem := memset (mem h) p 0 16384\<rparr>,
         inodes := (inodes v)[nat i := \<lparr>iname = vfs_strncpy nm VFS_MAX_NAME, itype = VFS_FILE,
           iparent = int (nat par), isize = 0, idata = p, iused = True\<rparr>]\<rparr>)"
          using e k(1,2) a D(1) par(1)
          by (cases "inodes v ! nat i") (simp add: upd_inode_def upd_mem_def Let_def)
      qed
    qed
  qed
qed

lemma vfs_create_inv [inv_intros]:
  assumes "vfs_inv d L v"
  obtains r v' d' L' where "vfs_create path v = Some (r, v')" "vfs_inv d' L' v'" "L \<subseteq> L'"
    "0 \<le> r \<longrightarrow> nat r < VFS_MAX_INODES \<and> iused (inodes v' ! nat r) \<and> itype (inodes v' ! nat r) = VFS_FILE"
proof (cases rule: vfs_create_cases [OF assms, of path, case_names fail made])
  case (fail v')
  then show thesis by (rule that) simp_all
next
  case (made i par p h nm)
  let ?h = "h\<lparr>mem := memset (mem h) p 0 16384\<rparr>"
  let ?n = "\<lparr>iname = vfs_strncpy nm VFS_MAX_NAME, itype = VFS_FILE, iparent = int par,
    isize = 0, idata = p, iused = True\<rparr>"
  have "vfs_inv (d(i := Suc (d par))) (insert p L) (v\<lparr>inodes := (inodes v)[i := ?n], vheap := ?h\<rparr>)"
    by (rule vfs_inv_new_inode [OF assms made(1-3) _ _ _ _ made(11-13)])
       (use made vfs_strncpy_ok in \<open>simp_all add: kh.put_inv kh.put_extent subset_insertI\<close>)
  moreover have "vfs_create path v = Some (int i, v\<lparr>inodes := (inodes v)[i := ?n], vheap := ?h\<rparr>)"
    using made(14) by simp
  ultimately show thesis using that made(2) vfs_invD(1) [OF assms] by (simp add: subset_insertI)
qed

lemma vfs_truncate_inv [inv_intros]:
  assumes "vfs_inv d L v" "i < VFS_MAX_INODES"
  shows "vfs_inv d L (vfs_truncate i v)"
  using assms by (auto simp: vfs_truncate_def Let_def intro!: vfs_inv_set_size)

lemma open_fd_inv [inv_intros]:
  assumes "vfs_inv d L v" "i < VFS_MAX_INODES" "iused (inodes v ! i)" "itype (inodes v ! i) = VFS_FILE"
  shows "vfs_inv d L (snd (open_fd (int i) flags v))"
proof (cases "alloc_fd v < 0")
  case False
  then have "nat (alloc_fd v) < VFS_MAX_FDS"
    by (auto simp: alloc_fd_def idx_or_neg1_def split: option.splits dest: find_upt_Some)
  then show ?thesis using assms file_fields [OF assms] False
    by (auto simp: open_fd_def Let_def fd_ok_def intro!: vfs_inv_upd_fd)
qed (simp add: open_fd_def assms)

lemma vfs_open_inv [inv_intros]:
  assumes "vfs_inv d L v"
  shows "\<exists>r v' d' L'. vfs_open path flags v = Some (r, v') \<and> vfs_inv d' L' v' \<and> L \<subseteq> L'"
proof (cases "vfs_resolve path v < 0")
  case True
  obtain r v1 d1 L1 where c: "vfs_create path v = Some (r, v1)" "vfs_inv d1 L1 v1" "L \<subseteq> L1"
    "0 \<le> r \<longrightarrow> nat r < VFS_MAX_INODES \<and> iused (inodes v1 ! nat r) \<and> itype (inodes v1 ! nat r) = VFS_FILE"
    by (rule vfs_create_inv [OF assms])
  have "vfs_inv d1 L1 (snd (open_fd r flags v1))" if "0 \<le> r"
    using open_fd_inv [OF c(2), of "nat r" flags] c(4) that by simp
  then show ?thesis using True c assms
    by (cases "open_fd r flags v1") (fastforce simp: vfs_open_def Let_def)
next
  case False
  note u = vfs_resolve_used [OF assms refl False]
  let ?i = "nat (vfs_resolve path v)"
  let ?v = "if flags AND O_TRUNC \<noteq> 0 then vfs_truncate ?i v else v"
  show ?thesis
  proof (cases "itype (inodes v ! ?i) = VFS_FILE")
    case True
    have "vfs_inv d L ?v" using vfs_truncate_inv [OF assms u(2)] assms by simp
    moreover have "iused (inodes ?v ! ?i)" "itype (inodes ?v ! ?i) = VFS_FILE"
      using u True vfs_invD(1) [OF assms] by (simp_all add: vfs_truncate_def Let_def)
    ultimately have "vfs_inv d L (snd (open_fd (vfs_resolve path v) flags ?v))"
      using open_fd_inv [of d L ?v ?i flags] u(2) False by simp
    then show ?thesis using True False
      by (cases "open_fd (vfs_resolve path v) flags ?v") (auto simp: vfs_open_def Let_def)
  next
    case nf: False
    then show ?thesis using False assms by (auto simp: vfs_open_def Let_def)
  qed
qed

text \<open>What a successful \<open>vfs_unlink\<close> does: the inode is cleared, its buffer freed, its descriptors closed.\<close>

lemma vfs_unlink_cases:
  assumes "vfs_inv d L v"
  obtains (refuse) "vfs_unlink path v = (- 1, v)"
  | (gone) i where "0 < i" "i < VFS_MAX_INODES" "vfs_resolve path v = int i" "iused (inodes v ! i)"
      "\<forall>j < VFS_MAX_INODES. iused (inodes v ! j) \<longrightarrow> iparent (inodes v ! j) \<noteq> int i"
      "vfs_unlink path v = (0, v\<lparr>inodes := (inodes v)[i := inode_zero],
         fds := map (\<lambda>f. if finode f = int i then f\<lparr>finode := - 1\<rparr> else f) (fds v),
         vheap := (if idata (inodes v ! i) \<noteq> 0 then kfree (idata (inodes v ! i)) (vheap v) else vheap v)\<rparr>)"
proof (cases "vfs_resolve path v \<le> 0")
  case True
  then show thesis by (intro refuse) (simp add: vfs_unlink_def)
next
  case False
  define i where "i = nat (vfs_resolve path v)"
  have i: "vfs_resolve path v = int i" "0 < i" using False by (auto simp: i_def)
  have u: "iused (inodes v ! i)" "i < VFS_MAX_INODES" using vfs_resolve_used [OF assms refl] False by (auto simp: i_def)
  show thesis
  proof (cases "itype (inodes v ! i) = VFS_DIR \<and>
      (\<exists>j \<in> set [1..<VFS_MAX_INODES]. iused (inodes v ! j) \<and> iparent (inodes v ! j) = int i)")
    case True
    then show thesis using i by (intro refuse) (simp add: vfs_unlink_def)
  next
    case nb: False
    have "iparent (inodes v ! j) \<noteq> int i" if j: "j < VFS_MAX_INODES" "iused (inodes v ! j)" for j
    proof
      assume p: "iparent (inodes v ! j) = int i"
      then have "itype (inodes v ! i) = VFS_DIR" "j \<noteq> 0"
        using vfs_invD(4) [OF assms j] by (auto simp: inode_ok_def split: if_splits)
      then show False using nb j p by auto
    qed
    then show thesis using i u nb
      by (intro gone [of i]) (auto simp: vfs_unlink_def Let_def upd_inode_def simp del: set_upt)
  qed
qed

lemma vfs_unlink_inv [inv_intros]:
  assumes "vfs_inv d L v"
  shows "\<exists>L'. vfs_inv d L' (snd (vfs_unlink path v))"
proof (cases rule: vfs_unlink_cases [OF assms, of path, case_names refuse gone])
  case refuse
  then show ?thesis using assms by auto
next
  case (gone i)
  note D = vfs_invD [OF assms]
  let ?p = "idata (inodes v ! i)"
  let ?h = "if ?p \<noteq> 0 then kfree ?p (vheap v) else vheap v" and ?L = "if ?p \<noteq> 0 then L - {?p} else L"
  let ?ns = "(inodes v)[i := inode_zero]"
  have x: "?ns ! j = (if j = i then inode_zero else inodes v ! j)" for j
    using gone(2) D(1) by (simp add: nth_list_update)
  have mem: "?p \<in> L" if "?p \<noteq> 0" using D(4) [OF gone(2,4)] that by (auto simp: inode_ok_def)
  have hl: "heap_live ?h ?L" using D(3) kh.release_inv [OF D(3) mem] by simp
  have ext: "live_extent ?h q = live_extent (vheap v) q" for q by (simp add: kh.release_extent)
  have other: "idata (inodes v ! j) \<noteq> ?p"
    if "j < VFS_MAX_INODES" "iused (inodes v ! j)" "j \<noteq> i" "itype (inodes v ! j) = VFS_FILE" "?p \<noteq> 0" for j
  proof -
    have "itype (inodes v ! i) = VFS_FILE" using D(4) [OF gone(2,4)] that(5) by (auto simp: inode_ok_def)
    then show ?thesis using assms gone(2,4) that unfolding vfs_inv_def by blast
  qed
  have nodes: "inode_ok d ?h ?L ?ns j" if j: "j < VFS_MAX_INODES" "iused (inodes v ! j)" "j \<noteq> i" for j
  proof (rule inode_ok_update [OF _ j(3)])
    show "inode_ok d ?h ?L (inodes v) j"
      using D(4) [OF j(1,2)] other [OF j] unfolding inode_ok_def ext by auto
    show "iparent (inodes v ! j) \<noteq> int i" using gone(5) j by blast
  qed
  have fd: "fd_ok ?ns (if finode f = int i then f\<lparr>finode := - 1\<rparr> else f)" if "f \<in> set (fds v)" for f
    using assms that fd_ok_update [of "inodes v" f i] by (auto simp: vfs_inv_def) (simp add: fd_ok_def)
  have z: "\<not> iused inode_zero" by (simp add: inode_zero_def)
  have used: "iused (?ns ! j) \<longleftrightarrow> j \<noteq> i \<and> iused (inodes v ! j)" for j using x z by simp
  have same: "?ns ! j = inodes v ! j" if "j \<noteq> i" for j using x that by simp
  have "vfs_inv d ?L (v\<lparr>inodes := ?ns,
      fds := map (\<lambda>f. if finode f = int i then f\<lparr>finode := - 1\<rparr> else f) (fds v), vheap := ?h\<rparr>)"
    using assms hl nodes fd gone(1) same unfolding vfs_inv_def by (auto simp del: if_image_distrib simp: used)
  then have "vfs_inv d ?L (snd (vfs_unlink path v))" by (simp only: gone(6) snd_conv)
  then show ?thesis by blast
qed

subsection \<open>Every run of the file system\<close>

text \<open>
  Arbitrary sequences of file system calls (with non-negative lengths), interleaved with
  allocations of other heap buffers and with stores to memory by other code.
\<close>

inductive vfs_run :: "vfs \<Rightarrow> bool" where
  init: "length (fds v) = VFS_MAX_FDS \<Longrightarrow> heap_live (vheap v) X \<Longrightarrow> vfs_run (vfs_init v)"
| mkdir: "vfs_run v \<Longrightarrow> vfs_run (snd (vfs_mkdir path v))"
| opened: "vfs_run v \<Longrightarrow> vfs_open path flags v = Some (r, v') \<Longrightarrow> vfs_run v'"
| closed: "vfs_run v \<Longrightarrow> vfs_run (vfs_close fd v)"
| read: "vfs_run v \<Longrightarrow> 0 \<le> n \<Longrightarrow> vfs_run (snd (vfs_read fd buf n v))"
| written: "vfs_run v \<Longrightarrow> 0 \<le> n \<Longrightarrow> vfs_run (snd (vfs_write fd buf n v))"
| seek: "vfs_run v \<Longrightarrow> vfs_run (snd (vfs_seek fd off whence v))"
| unlink: "vfs_run v \<Longrightarrow> vfs_run (snd (vfs_unlink path v))"
| other_alloc: "vfs_run v \<Longrightarrow> 0 < unat sz \<Longrightarrow> unat sz \<le> 2 ^ 62 \<Longrightarrow> kmalloc sz (vheap v) = Some (p, h) \<Longrightarrow>
    vfs_run (v\<lparr>vheap := h\<rparr>)"
| store: "vfs_run v \<Longrightarrow> vfs_run (upd_mem t v)"

lemma vfs_inv_grow:
  assumes "vfs_inv d L v" "heap_live h L'" "L \<subseteq> L'" "\<forall>q \<in> L. live_extent h q = live_extent (vheap v) q"
  shows "vfs_inv d L' (v\<lparr>vheap := h\<rparr>)"
proof -
  have "inode_ok d h L' (inodes v) i" if "inode_ok d (vheap v) L (inodes v) i" for i
    using that assms(3,4) by (auto simp: inode_ok_def)
  then show ?thesis using assms by (simp add: vfs_inv_def)
qed

lemma vfs_other_alloc_inv [inv_intros]:
  assumes "vfs_inv d L v" "0 < unat sz" "unat sz \<le> 2 ^ 62" "kmalloc sz (vheap v) = Some (p, h)"
  shows "\<exists>L'. vfs_inv d L' (v\<lparr>vheap := h\<rparr>)"
proof -
  note D = vfs_invD [OF assms(1)]
  from kh.alloc_cases [OF D(3) assms(2,3)] assms(4)
  consider "h = vheap v" | "heap_live h (insert p L)" "\<forall>q \<in> L. live_extent h q = live_extent (vheap v) q" by auto
  then show ?thesis
  proof cases
    case 1
    then show ?thesis using assms(1) by auto
  next
    case 2
    then show ?thesis using vfs_inv_grow [OF assms(1)] by blast
  qed
qed

lemma vfs_init_inv [inv_intros]:
  assumes "length (fds v) = VFS_MAX_FDS" "heap_live (vheap v) X"
  shows "vfs_inv (\<lambda>_. 0) X (vfs_init v)"
proof -
  have x: "iused (inodes (vfs_init v) ! j) \<longleftrightarrow> j = 0" if "j < VFS_MAX_INODES" for j
    using that by (cases j) (simp_all add: vfs_init_def inode_zero_def)
  have "inode_ok (\<lambda>_. 0) (vheap v) X (inodes (vfs_init v)) 0"
    by (simp add: inode_ok_def vfs_init_def inode_zero_def)
  then show ?thesis using assms x
    by (auto simp: vfs_inv_def fd_ok_def vfs_init_def)
qed

lemma vfs_run_inv: "vfs_run v \<Longrightarrow> \<exists>d L. vfs_inv d L v"
proof (induction rule: vfs_run.induct)
  case (mkdir v path)
  then show ?case by (metis prod.collapse vfs_mkdir_inv)
next
  case (opened v path flags r v')
  then show ?case using vfs_open_inv by (metis option.inject prod.inject)
next
  case (other_alloc v sz p h)
  then show ?case using vfs_other_alloc_inv by blast
next
  case (unlink v path)
  then show ?case using vfs_unlink_inv by blast
qed (auto intro: vfs_init_inv vfs_close_inv vfs_read_inv vfs_write_inv vfs_seek_inv)


definition vfs0 :: vfs where
  "vfs0 = vfs_init \<lparr>inodes = [], fds = replicate 16 \<lparr>finode = 0, fpos = 0, fflags = 0\<rparr>,
     vheap = alloc_init 0x1000 0x100000 heap0\<rparr>"

lemma heap_live_init: "heap_live (alloc_init 0x1000 0x100000 heap0) {}"
  unfolding heap_live_def by (intro exI) (simp, rule alloc_init_inv, simp_all)

lemma vfs0_run: "vfs_run vfs0"
  unfolding vfs0_def by (rule vfs_run.init [where X = "{}"]) (simp_all add: heap_live_init)


subsection \<open>File contents\<close>

definition file_bytes :: "vfs \<Rightarrow> nat \<Rightarrow> bytes" where
  "file_bytes v i = mread (mem (vheap v)) (idata (inodes v ! i)) (nat (isize (inodes v ! i)))"

lemma file_span:
  assumes "vfs_inv d L v" "i < VFS_MAX_INODES" "iused (inodes v ! i)" "itype (inodes v ! i) = VFS_FILE"
  shows "unat (idata (inodes v ! i)) + 16384 \<le> 2 ^ 64"
proof -
  note f = file_fields [OF assms]
  have "16384 \<le> live_extent (vheap v) (idata (inodes v ! i))" using f(2) by linarith
  then show ?thesis using kh.live_fits [OF vfs_invD(3) [OF assms(1)] f(1)] by linarith
qed

text \<open>The bytes of a file whose storage was overwritten at \<open>pos\<close>.\<close>

lemma mread_overwrite:
  assumes "pos \<le> sz" "sz \<le> 16384" "pos + length bs \<le> 16384"
  shows "mread (mwrite m (p + of_nat pos) bs) p (max sz (pos + length bs)) =
    take pos (mread m p sz) @ bs @ drop (pos + length bs) (mread m p sz)"
proof -
  let ?k = "max sz (pos + length bs)"
  have "mread (mwrite m (p + of_nat pos) bs) p ?k =
      take pos (mread m p ?k) @ bs @ drop (pos + length bs) (mread m p ?k)"
    using assms by (intro mread_mwrite_inside) auto
  moreover have "take pos (mread m p ?k) = take pos (mread m p sz)" using assms by (simp add: take_mread)
  moreover have "drop (pos + length bs) (mread m p ?k) = drop (pos + length bs) (mread m p sz)"
    by (cases "pos + length bs \<le> sz") (simp_all add: max_def)
  ultimately show ?thesis by simp
qed

text \<open>What \<open>vfs_write\<close> does to the file, to the other files and to the descriptor.\<close>

lemma vfs_write_bytes:
  assumes I: "vfs_inv d L v" and fd: "\<not> bad_fd fd v" "finode (fds v ! nat fd) = int i"
    and pos: "write_pos fd v \<le> isize (inodes v ! i)" "write_pos fd v < VFS_MAX_FSIZE"
    and buf: "0 \<le> len" "apart buf (nat len) (idata (inodes v ! i)) 16384" "unat buf + nat len \<le> 2 ^ 64"
    and w: "vfs_write fd buf len v = (n, v')"
  shows "n = min len (VFS_MAX_FSIZE - write_pos fd v)"
    "file_bytes v' i = take (nat (write_pos fd v)) (file_bytes v i) @ mread (mem (vheap v)) buf (nat n) @
      drop (nat (write_pos fd v + n)) (file_bytes v i)"
    "\<And>j. j < VFS_MAX_INODES \<Longrightarrow> j \<noteq> i \<Longrightarrow> iused (inodes v ! j) \<Longrightarrow> itype (inodes v ! j) = VFS_FILE \<Longrightarrow>
       file_bytes v' j = file_bytes v j"
    "fds v' = (fds v)[nat fd := (fds v ! nat fd)\<lparr>fpos := write_pos fd v + n\<rparr>]"
    "isize (inodes v' ! i) = max (isize (inodes v ! i)) (write_pos fd v + n)"
    "idata (inodes v' ! i) = idata (inodes v ! i)"
proof -
  obtain i' where "nat fd < VFS_MAX_FDS" "i' < VFS_MAX_INODES" "finode (fds v ! nat fd) = int i'"
    "iused (inodes v ! i')" "itype (inodes v ! i') = VFS_FILE" by (rule fd_cases [OF I fd(1)])
  with fd(2) have k: "nat fd < VFS_MAX_FDS" and i: "i < VFS_MAX_INODES" "iused (inodes v ! i)"
    "itype (inodes v ! i) = VFS_FILE" by auto
  note F = file_fields [OF I i] and S = file_span [OF I i]
  define ps sz nn p where defs: "ps = nat (write_pos fd v)" "sz = nat (isize (inodes v ! i))" "nn = nat n" "p = idata (inodes v ! i)"
  have P: "write_pos fd v = int ps" "isize (inodes v ! i) = int sz"
    using write_pos_range(1) [OF I fd(1)] F(3) by (simp_all add: defs)
  have n: "n = min len (VFS_MAX_FSIZE - write_pos fd v)" using w vfs_write_eq [OF I fd pos(2)] by (simp add: Let_def)
  have "0 \<le> n" "n \<le> len" "n \<le> VFS_MAX_FSIZE - int ps" using n buf(1) pos(2) unfolding P by linarith+
  then have N: "n = int nn" "ps + nn \<le> 16384" "nn \<le> nat len" "ps \<le> sz" "sz \<le> 16384"
    using pos(1) F(4) unfolding P defs(3) by linarith+
  let ?bs = "mread (mem (vheap v)) buf nn"
  have cp: "memcpy (mem (vheap v)) (p + of_nat ps) buf (of_nat nn) = mwrite (mem (vheap v)) (p + of_nat ps) ?bs"
    unfolding defs(4) by (rule memcpy_into [OF S buf(2,3) N(2,3)]) simp
  have mn: "min len (VFS_MAX_FSIZE - int ps) = int nn" using n unfolding P N(1) by simp
  let ?w = "upd_fd (nat fd) (\<lambda>f. f\<lparr>fpos := int (ps + nn)\<rparr>)
    (upd_mem (\<lambda>m. memcpy m (p + of_nat ps) buf (of_nat nn)) v)"
  have e: "v' = (if sz < ps + nn then upd_inode i (\<lambda>nd. nd\<lparr>isize := int (ps + nn)\<rparr>) ?w else ?w)"
    using w vfs_write_eq [OF I fd pos(2), of buf len] unfolding Let_def P mn defs(4) [symmetric] of_int_of_nat_eq
    by (auto split: if_splits)
  have v': "mem (vheap v') = mwrite (mem (vheap v)) (p + of_nat ps) ?bs"
    "inodes v' = (if sz < ps + nn then (inodes v)[i := (inodes v ! i)\<lparr>isize := int (ps + nn)\<rparr>] else inodes v)"
    "fds v' = (fds v)[nat fd := (fds v ! nat fd)\<lparr>fpos := int (ps + nn)\<rparr>]"
    unfolding e using cp by simp_all
  have len: "length (inodes v) = VFS_MAX_INODES" by (rule vfs_invD(1) [OF I])
  have fi: "file_bytes v' i = mread (mwrite (mem (vheap v)) (p + of_nat ps) ?bs) p (max sz (ps + nn))"
    using i(1) len by (simp add: file_bytes_def v' P nat_add_distrib flip: defs)
  have own: "file_bytes v' i = take ps (file_bytes v i) @ ?bs @ drop (ps + nn) (file_bytes v i)"
    unfolding fi using mread_overwrite [of ps sz ?bs "mem (vheap v)" p] N(2-5) by (simp add: file_bytes_def flip: defs)
  have oth: "file_bytes v' j = file_bytes v j"
    if j: "j < VFS_MAX_INODES" "j \<noteq> i" "iused (inodes v ! j)" "itype (inodes v ! j) = VFS_FILE" for j
  proof -
    note Fj = file_fields [OF I j(1,3,4)]
    have ne: "p \<noteq> idata (inodes v ! j)" using I i j unfolding vfs_inv_def defs by metis
    have "mread (mwrite (mem (vheap v)) (p + of_nat ps) ?bs) (idata (inodes v ! j)) (live_extent (vheap v) (idata (inodes v ! j)))
        = mread (mem (vheap v)) (idata (inodes v ! j)) (live_extent (vheap v) (idata (inodes v ! j)))"
      using F(1,2) Fj(1) N ne by (intro kh.store_frame [OF vfs_invD(3) [OF I]]) (auto simp: defs)
    from arg_cong [OF this, of "take (nat (isize (inodes v ! j)))"]
    show ?thesis using Fj(2-4) j(2) by (simp add: file_bytes_def v' take_mread)
  qed
  show "n = min len (VFS_MAX_FSIZE - write_pos fd v)" by (rule n)
  show "file_bytes v' i = take (nat (write_pos fd v)) (file_bytes v i) @ mread (mem (vheap v)) buf (nat n) @
      drop (nat (write_pos fd v + n)) (file_bytes v i)" using own by (simp add: P N nat_add_distrib)
  show "\<And>j. j < VFS_MAX_INODES \<Longrightarrow> j \<noteq> i \<Longrightarrow> iused (inodes v ! j) \<Longrightarrow> itype (inodes v ! j) = VFS_FILE \<Longrightarrow>
       file_bytes v' j = file_bytes v j" by (rule oth)
  show "fds v' = (fds v)[nat fd := (fds v ! nat fd)\<lparr>fpos := write_pos fd v + n\<rparr>]" by (simp add: v' P N)
  show "isize (inodes v' ! i) = max (isize (inodes v ! i)) (write_pos fd v + n)"
    "idata (inodes v' ! i) = idata (inodes v ! i)" using i(1) len by (simp_all add: v' P N)
qed

lemma vfs_read_bytes:
  assumes I: "vfs_inv d L v" and fd: "\<not> bad_fd fd v" "finode (fds v ! nat fd) = int i"
    and pos: "fpos (fds v ! nat fd) < isize (inodes v ! i)"
    and buf: "0 \<le> len" "apart buf (nat len) (idata (inodes v ! i)) 16384" "unat buf + nat len \<le> 2 ^ 64"
    and r: "vfs_read fd buf len v = (n, v')"
  shows "n = min len (isize (inodes v ! i) - fpos (fds v ! nat fd))"
    "mem (vheap v') = mwrite (mem (vheap v)) buf (take (nat n) (drop (nat (fpos (fds v ! nat fd))) (file_bytes v i)))"
    "fds v' = (fds v)[nat fd := (fds v ! nat fd)\<lparr>fpos := fpos (fds v ! nat fd) + n\<rparr>]" "inodes v' = inodes v"
proof -
  obtain i' where "nat fd < VFS_MAX_FDS" "i' < VFS_MAX_INODES" "finode (fds v ! nat fd) = int i'"
    "iused (inodes v ! i')" "itype (inodes v ! i') = VFS_FILE" "0 \<le> fpos (fds v ! nat fd)"
    by (rule fd_cases [OF I fd(1)])
  with fd(2) have i: "i < VFS_MAX_INODES" "iused (inodes v ! i)" "itype (inodes v ! i) = VFS_FILE"
    and p0: "0 \<le> fpos (fds v ! nat fd)" by auto
  note F = file_fields [OF I i] and S = file_span [OF I i]
  let ?p = "idata (inodes v ! i)"
  obtain ps sz where P: "fpos (fds v ! nat fd) = int ps" "isize (inodes v ! i) = int sz" using p0 F(3) by (metis zero_le_imp_eq_int)
  obtain nn where N: "min len (int sz - int ps) = int nn" using pos buf(1) unfolding P by (metis diff_ge_0_iff_ge less_imp_le min.boundedI zero_le_imp_eq_int)
  have e: "n = int nn" "v' = upd_fd (nat fd) (\<lambda>f. f\<lparr>fpos := int ps + int nn\<rparr>)
      (upd_mem (\<lambda>m. memcpy m buf (?p + of_nat ps) (of_nat nn)) v)"
    using r vfs_read_eq [OF I fd, of buf len] pos unfolding Let_def P N of_int_of_nat_eq by auto
  have b: "ps + nn \<le> sz" "ps + nn \<le> 16384" "nn \<le> nat len" using N F(4) pos buf(1) unfolding P by linarith+
  have "take nn (drop ps (file_bytes v i)) = mread (mem (vheap v)) (?p + of_nat ps) nn"
    using take_drop_mread [OF b(1)] by (simp add: file_bytes_def P)
  then show "mem (vheap v') = mwrite (mem (vheap v)) buf (take (nat n) (drop (nat (fpos (fds v ! nat fd))) (file_bytes v i)))"
    using memcpy_from [OF S buf(2,3) b(2,3)] by (simp add: e P)
  show "n = min len (isize (inodes v ! i) - fpos (fds v ! nat fd))" using N by (simp add: e P)
  show "fds v' = (fds v)[nat fd := (fds v ! nat fd)\<lparr>fpos := fpos (fds v ! nat fd) + n\<rparr>]" "inodes v' = inodes v"
    by (simp_all add: e P)
qed

text \<open>
  C15: \<open>vfs_write\<close> replaces the bytes at the file position and nothing else. It returns the number
  of bytes stored, cut so that the file stays within 16 KB; the file's contents are the old
  contents with those bytes overwritten or appended; every other file keeps its contents; and
  the position moves behind the written bytes.
\<close>

theorem vfs_write_content:
  assumes I: "vfs_inv d L v" and fd: "\<not> bad_fd fd v" "finode (fds v ! nat fd) = int i"
    and pos: "write_pos fd v \<le> isize (inodes v ! i)" "write_pos fd v < VFS_MAX_FSIZE"
    and buf: "0 \<le> len" "apart buf (nat len) (idata (inodes v ! i)) 16384" "unat buf + nat len \<le> 2 ^ 64"
    and w: "vfs_write fd buf len v = (n, v')"
  shows "n = min len (VFS_MAX_FSIZE - write_pos fd v) \<and>
    file_bytes v' i = take (nat (write_pos fd v)) (file_bytes v i) @ mread (mem (vheap v)) buf (nat n) @
      drop (nat (write_pos fd v + n)) (file_bytes v i) \<and>
    (\<forall>j < VFS_MAX_INODES. j \<noteq> i \<longrightarrow> iused (inodes v ! j) \<longrightarrow> itype (inodes v ! j) = VFS_FILE \<longrightarrow>
       file_bytes v' j = file_bytes v j) \<and>
    fpos (fds v' ! nat fd) = write_pos fd v + n"
proof -
  note W = vfs_write_bytes [OF assms]
  have "nat fd < length (fds v)" using fd(1) vfs_invD(2) [OF I] by (auto simp: bad_fd_def)
  then have "fpos (fds v' ! nat fd) = write_pos fd v + n" by (simp add: W(4))
  then show ?thesis using W(1-3) by blast
qed

text \<open>A concrete file system with one open file, \<open>/a\<close>.\<close>

lemma vfs0_resolve_a: "vfs_resolve ''/a'' vfs0 = - 1"
proof -
  have "find (child vfs0 0 ''a'') [1..<VFS_MAX_INODES] = None"
    by (simp add: find_upt_None child_def vfs0_def vfs_init_def inode_zero_def)
  then have "find_child vfs0 0 ''a'' = - 1" by (simp add: find_child_def)
  moreover have "next_comp 31 ''a'' = (''a'', [])" by (simp add: numeral_eq_Suc)
  ultimately show ?thesis
    by (simp add: vfs_resolve_def skip_slash_def resolve_loop.simps [of _ "''a''"] Let_def)
qed

lemma vfs0_split_a: "split_path ''/a'' = Some (''/'', ''a'')"
  by (simp add: split_path_def vfs_strncpy_def strncpy_loop_eq cstr_Cons)

lemma vfs0_alloc: "alloc_inode vfs0 = 1"
proof -
  have "find (\<lambda>i. \<not> iused (inodes vfs0 ! i)) [1..<VFS_MAX_INODES] = Some 1"
    by (rule find_upt_SomeI) (simp_all add: vfs0_def vfs_init_def inode_zero_def)
  then show ?thesis by (simp add: alloc_inode_def)
qed

lemma vfs1_exists:
  obtains v where "vfs_open ''/a'' 4 vfs0 = Some (0, v)" "finode (fds v ! 0) = 1" "fpos (fds v ! 0) = 0"
    "fflags (fds v ! 0) = 4" "isize (inodes v ! 1) = 0" "idata (inodes v ! 1) = 0x1010"
proof -
  obtain h where h: "kmalloc 16384 (vheap vfs0) = Some (0x1010, h)"
    by (simp add: vfs0_def vfs_init_def heap_eval)
  have root: "vfs_resolve ''/'' vfs0 = 0" by (simp add: vfs_resolve_def)
  have "itype (inodes vfs0 ! 0) = VFS_DIR" by (simp add: vfs0_def vfs_init_def)
  then obtain v1 where v1: "vfs_create ''/a'' vfs0 = Some (1, v1)" "isize (inodes v1 ! 1) = 0"
    "idata (inodes v1 ! 1) = 0x1010" "fds v1 = fds vfs0"
    using h by (simp add: vfs_create_def vfs0_split_a root vfs0_alloc Let_def)
      (simp add: vfs0_def vfs_init_def)
  have "find (\<lambda>i. finode (fds vfs0 ! i) = - 1) [0..<VFS_MAX_FDS] = Some 0"
    by (rule find_upt_SomeI) (simp_all add: vfs0_def vfs_init_def)
  then have a: "alloc_fd v1 = 0" using v1(4) by (simp add: alloc_fd_def)
  have l: "length (fds v1) = 16" using v1(4) by (simp add: vfs0_def vfs_init_def)
  show thesis
    by (rule that [of "snd (open_fd 1 4 v1)"])
       (use v1 a l in \<open>simp_all add: vfs_open_def vfs0_resolve_a open_fd_def\<close>)
qed

lemma vfs1_facts:
  obtains d L v where "vfs_inv d L v" "\<not> bad_fd 0 v" "finode (fds v ! 0) = 1" "write_pos 0 v = 0"
    "isize (inodes v ! 1) = 0" "idata (inodes v ! 1) = 0x1010"
proof -
  obtain v where v: "vfs_open ''/a'' 4 vfs0 = Some (0, v)" "finode (fds v ! 0) = 1" "fpos (fds v ! 0) = 0"
    "fflags (fds v ! 0) = 4" "isize (inodes v ! 1) = 0" "idata (inodes v ! 1) = 0x1010"
    by (rule vfs1_exists)
  obtain d L where "vfs_inv d L v" using vfs_run_inv [OF vfs_run.opened [OF vfs0_run v(1)]] by blast
  then show thesis using v that by (simp add: bad_fd_def write_pos_def)
qed

theorem vfs_write_content_witness:
  "\<exists>v n v'. vfs_write 0 0x200000 5 v = (n, v') \<and> n = 5 \<and>
     file_bytes v' 1 = mread (mem (vheap v)) 0x200000 5"
proof -
  obtain d L v where v: "vfs_inv d L v" "\<not> bad_fd 0 v" "finode (fds v ! 0) = 1" "write_pos 0 v = 0"
    "isize (inodes v ! 1) = 0" "idata (inodes v ! 1) = 0x1010" by (rule vfs1_facts)
  obtain n v' where w: "vfs_write 0 0x200000 5 v = (n, v')" by fastforce
  have "n = 5 \<and> file_bytes v' 1 = mread (mem (vheap v)) 0x200000 5"
    using vfs_write_content [OF v(1,2) _ _ _ _ _ _ w, of 1] v(3-6)
    by (simp add: apart_def file_bytes_def)
  then show ?thesis using w by blast
qed

text \<open>
  C16: what is written is read back. After \<open>vfs_write\<close> stores \<open>n\<close> bytes, \<open>vfs_seek\<close> to the
  position of the write succeeds and \<open>vfs_read\<close> of \<open>n\<close> bytes returns \<open>n\<close> and delivers exactly
  the bytes that were written, into any buffer outside the file's storage.
\<close>

theorem vfs_write_read_roundtrip:
  assumes I: "vfs_inv d L v" and fd: "\<not> bad_fd fd v" "finode (fds v ! nat fd) = int i"
    and pos: "write_pos fd v \<le> isize (inodes v ! i)" "write_pos fd v < VFS_MAX_FSIZE"
    and buf: "0 < len" "apart buf (nat len) (idata (inodes v ! i)) 16384" "unat buf + nat len \<le> 2 ^ 64"
    and w: "vfs_write fd buf len v = (n, v')"
    and buf2: "apart buf2 (nat n) (idata (inodes v ! i)) 16384" "unat buf2 + nat n \<le> 2 ^ 64"
  shows "\<exists>v2 v3. vfs_seek fd (write_pos fd v) SEEK_SET v' = (write_pos fd v, v2) \<and>
    vfs_read fd buf2 n v2 = (n, v3) \<and> mread (mem (vheap v3)) buf2 (nat n) = mread (mem (vheap v)) buf (nat n)"
proof -
  have l0: "0 \<le> len" using buf(1) by simp
  note W = vfs_write_bytes [OF I fd pos l0 buf(2,3) w]
  have n0: "0 < n" using W(1) buf(1) pos(2) by simp
  have p0: "0 \<le> write_pos fd v" by (rule write_pos_range(1) [OF I fd(1)])
  have k: "nat fd < length (fds v)" using fd(1) vfs_invD(2) [OF I] by (auto simp: bad_fd_def)
  have I': "vfs_inv d L v'" using vfs_write_inv [OF I l0, of fd buf] w by simp
  have fn: "finode (fds v' ! nat fd) = int i" using k fd(2) by (simp add: W(4))
  then have b': "\<not> bad_fd fd v'" using fd by (simp add: bad_fd_def)
  define v2 where "v2 = upd_fd (nat fd) (\<lambda>f. f\<lparr>fpos := write_pos fd v\<rparr>) v'"
  have sk: "vfs_seek fd (write_pos fd v) SEEK_SET v' = (write_pos fd v, v2)"
    using b' fn p0 n0 W(5) by (simp add: vfs_seek_def Let_def v2_def)
  have I2: "vfs_inv d L v2" using vfs_seek_inv [OF I', of fd "write_pos fd v" SEEK_SET] sk by simp
  have f2: "fds v2 ! nat fd = (fds v' ! nat fd)\<lparr>fpos := write_pos fd v\<rparr>" using k by (simp add: v2_def W(4))
  have in2: "inodes v2 = inodes v'" "vheap v2 = vheap v'" by (simp_all add: v2_def)
  have fi2: "finode (fds v2 ! nat fd) = int i" using f2 fn by simp
  have b2: "\<not> bad_fd fd v2" using b' f2 by (simp add: bad_fd_def)
  obtain m v3 where r: "vfs_read fd buf2 n v2 = (m, v3)" by fastforce
  have lt: "fpos (fds v2 ! nat fd) < isize (inodes v2 ! i)" using f2 in2 W(5) n0 by simp
  note R = vfs_read_bytes [OF I2 b2 fi2 lt less_imp_le [OF n0] _ _ r]
  have R': "m = n" "mem (vheap v3) = mwrite (mem (vheap v')) buf2 (take (nat n) (drop (nat (write_pos fd v)) (file_bytes v' i)))"
    using R(1,2) buf2 W(5,6) f2 in2 n0 by (auto simp: file_bytes_def)
  have fb: "length (file_bytes v i) = nat (isize (inodes v ! i))" by (simp add: file_bytes_def)
  have "take (nat n) (drop (nat (write_pos fd v)) (file_bytes v' i)) = mread (mem (vheap v)) buf (nat n)"
    using pos(1) fb by (simp add: W(2))
  then have "mread (mem (vheap v3)) buf2 (nat n) = mread (mem (vheap v)) buf (nat n)"
    using R'(2) mread_mwrite_same [of "mread (mem (vheap v)) buf (nat n)" "mem (vheap v')" buf2] buf2(2) by simp
  then show ?thesis using sk r R'(1) by blast
qed

theorem vfs_write_read_roundtrip_witness:
  "\<exists>v v1 v2 v3. vfs_write 0 0x200000 5 v = (5, v1) \<and> vfs_seek 0 0 SEEK_SET v1 = (0, v2) \<and>
     vfs_read 0 0x300000 5 v2 = (5, v3) \<and>
     mread (mem (vheap v3)) 0x300000 5 = mread (mem (vheap v)) 0x200000 5"
proof -
  obtain d L v where v: "vfs_inv d L v" "\<not> bad_fd 0 v" "finode (fds v ! 0) = 1" "write_pos 0 v = 0"
    "isize (inodes v ! 1) = 0" "idata (inodes v ! 1) = 0x1010" by (rule vfs1_facts)
  have "fst (vfs_write 0 0x200000 5 v) = 5"
    using vfs_write_eq [OF v(1,2), of 1 "0x200000" 5] v(3-5) by (simp add: Let_def)
  then obtain v1 where w: "vfs_write 0 0x200000 5 v = (5, v1)" by (metis prod.collapse)
  show ?thesis
    using vfs_write_read_roundtrip [OF v(1,2) _ _ _ _ _ _ w, of 1 "0x300000"] v(3-6) w
    by (simp add: apart_def) metis
qed

subsection \<open>Paths\<close>

lemma next_comp_append:
  "NUL \<notin> set p \<Longrightarrow> next_comp n p = (c, q) \<Longrightarrow> next_comp n (p @ CHR ''/'' # x) = (c, q @ CHR ''/'' # x)"
proof (induction n p arbitrary: c q rule: next_comp.induct)
  case (2 n p)
  then show ?case by (cases p) (auto split: if_splits prod.splits)
qed simp

lemma next_comp_all:
  assumes "NUL \<notin> set nm" "CHR ''/'' \<notin> set nm" "length nm \<le> n"
  shows "next_comp n nm = (nm, [])"
  using assms
proof (induction n nm rule: next_comp.induct)
  case (2 n p)
  then show ?case by (cases p) auto
qed simp

lemma next_comp_rest: "NUL \<notin> set p \<Longrightarrow> next_comp n p = (c, q) \<Longrightarrow> NUL \<notin> set q"
proof (induction n p arbitrary: c q rule: next_comp.induct)
  case (2 n p)
  then show ?case by (cases p) (auto split: if_splits prod.splits)
qed simp

lemma resolve_slash: "resolve_loop v (CHR ''/'' # p) cur = resolve_loop v p cur"
  by (subst resolve_loop.simps) (simp add: numeral_eq_Suc skip_slash_def)

lemma resolve_append:
  assumes "resolve_loop v p cur = r" "\<not> r < 0" "NUL \<notin> set p"
  shows "resolve_loop v (p @ CHR ''/'' # x) cur = resolve_loop v x r"
  using assms
proof (induction v p cur arbitrary: r rule: resolve_loop.induct)
  case (1 v p cur)
  show ?case
  proof (cases p)
    case Nil
    then show ?thesis using "1.prems"(1) by (simp add: resolve_slash resolve_loop.simps [of v "[]"])
  next
    case (Cons a p')
    then have ne: "chd p \<noteq> NUL" "chd (p @ CHR ''/'' # x) \<noteq> NUL" using "1.prems"(3) by auto
    obtain c q where cq: "next_comp 31 p = (c, q)" by fastforce
    note ap = next_comp_append [OF "1.prems"(3) cq, of x] and nq = next_comp_rest [OF "1.prems"(3) cq]
    note e = "1.prems"(1) [unfolded resolve_loop.simps [of v p cur]]
    have sk: "skip_slash (q @ CHR ''/'' # x) = (if q = [] then x else skip_slash q @ CHR ''/'' # x)"
      by (cases q) (auto simp: skip_slash_def)
    have nk: "NUL \<notin> set (skip_slash q)" using nq by (cases q) (auto simp: skip_slash_def)
    show ?thesis
    proof (cases "c = []")
      case True
      then have "q = p" using next_comp_Nil [of 30 p q] cq by simp
      then have "q \<noteq> []" using Cons by simp
      then show ?thesis
        using "1.IH"(1) [OF ne(1) _ _ _ True, of _ q "skip_slash q" r] e "1.prems"(2) cq True ne ap sk nk
        by (simp add: resolve_loop.simps [of v "p @ CHR ''/'' # x"] Let_def)
    next
      case c: False
      show ?thesis
      proof (cases "find_child v cur c < 0")
        case True
        then show ?thesis using e c cq ne "1.prems"(2) by (simp add: Let_def)
      next
        case nf: False
        have r: "resolve_loop v (skip_slash q) (find_child v cur c) = r" using e c cq ne nf by (simp add: Let_def)
        have "resolve_loop v (skip_slash (q @ CHR ''/'' # x)) (find_child v cur c) = resolve_loop v x r"
        proof (cases "q = []")
          case True
          then show ?thesis using r sk by (simp add: skip_slash_def resolve_loop.simps [of v "[]"])
        next
          case False
          then show ?thesis
            using "1.IH"(2) [OF ne(1) _ _ _ c _ nf, of _ q "skip_slash q" r] cq r "1.prems"(2) sk nk by simp
        qed
        then show ?thesis using c nf ap ne by (simp add: resolve_loop.simps [of v "p @ CHR ''/'' # x"] Let_def)
      qed
    qed
  qed
qed

text \<open>Resolution is kept by any change that keeps the children that exist.\<close>


lemma resolve_mono:
  assumes "\<And>c n. \<not> find_child v c n < 0 \<Longrightarrow> find_child v' c n = find_child v c n"
    "resolve_loop v p cur = r" "\<not> r < 0"
  shows "resolve_loop v' p cur = r"
  using assms
proof (induction v p cur arbitrary: r rule: resolve_loop.induct)
  case (1 v p cur)
  obtain c q where cq: "next_comp 31 p = (c, q)" by fastforce
  note e = "1.prems"(2) [unfolded resolve_loop.simps [of v p cur]]
  consider "chd p = NUL" | "chd p \<noteq> NUL" "c = []" | "chd p \<noteq> NUL" "c \<noteq> []" by blast
  then show ?case
  proof cases
    case 1
    then show ?thesis using e by (simp add: resolve_loop.simps [of v'])
  next
    case 2
    then show ?thesis
      using "1.IH"(1) [OF 2(1) _ _ _ 2(2), of _ q "skip_slash q" r] e "1.prems"(1,3) cq
      by (simp add: resolve_loop.simps [of v' p] Let_def)
  next
    case 3
    then have nf: "\<not> find_child v cur c < 0" using e cq "1.prems"(3) by (auto simp: Let_def split: if_splits)
    then show ?thesis
      using "1.IH"(2) [OF 3(1) _ _ _ 3(2) _ nf, of _ q "skip_slash q" r] e 3 "1.prems"(1,3) cq
      by (simp add: resolve_loop.simps [of v' p] Let_def)
  qed
qed

lemma last_slash_append: "CHR ''/'' \<notin> set nm \<Longrightarrow> last_slash (p @ CHR ''/'' # nm) i s = Some (i + length p)"
proof (induction p arbitrary: i s)
  case Nil
  then have "last_slash nm j t = t" for j t by (induction nm arbitrary: j t) auto
  then show ?case by simp
qed simp

lemma split_path_join:
  assumes "NUL \<notin> set p" "length p \<le> 31" "NUL \<notin> set nm" "CHR ''/'' \<notin> set nm" "nm \<noteq> []" "length nm \<le> 31"
  shows "split_path (p @ CHR ''/'' # nm) = Some (if p = [] then ''/'' else p, nm)"
proof -
  have "k_strlen (p @ CHR ''/'' # nm) = length (p @ CHR ''/'' # nm)"
    using assms by (simp add: k_strlen_eq cstr_no_nul)
  then show ?thesis using assms last_slash_append [OF assms(4), of p 0 None]
    by (simp add: split_path_def Let_def vfs_strncpy_eq cstr_no_nul)
qed

text \<open>
  A new inode becomes the child of its parent under its name and hides no other child.
\<close>

lemma find_child_new:
  assumes I: "vfs_inv d L v" and i: "0 < i" "i < VFS_MAX_INODES" "\<not> iused (inodes v ! i)"
    and none: "\<not> (\<exists>j \<in> set [1..<VFS_MAX_INODES]. child v par nm j)"
    and n: "iused n" "iparent n = par" "cstr (iname n) = cstr nm"
  shows "find_child (v\<lparr>inodes := (inodes v)[i := n]\<rparr>) par nm = int i"
    "\<not> find_child v c x < 0 \<Longrightarrow> find_child (v\<lparr>inodes := (inodes v)[i := n]\<rparr>) c x = find_child v c x"
proof -
  let ?v = "v\<lparr>inodes := (inodes v)[i := n]\<rparr>"
  have same: "child ?v c x j = child v c x j" if "j \<noteq> i" for c x j
    using that by (simp add: child_def)
  have new: "child ?v c x i \<longleftrightarrow> c = par \<and> cstr nm = cstr x" for c x
    using i vfs_invD(1) [OF I] n by (auto simp: child_def)
  have "find (child ?v par nm) [1..<VFS_MAX_INODES] = Some i"
    using i none same by (intro find_upt_SomeI) (auto simp: new)
  then show "find_child ?v par nm = int i" by (simp add: find_child_def)
  assume "\<not> find_child v c x < 0"
  then obtain j where j: "find (child v c x) [1..<VFS_MAX_INODES] = Some j" by (auto simp: find_child_def)
  note fj = find_upt_Some [OF j]
  have "\<not> (c = par \<and> cstr nm = cstr x)" using fj(1-3) none by (auto simp: child_def)
  then have ni: "\<not> child ?v c x i" by (simp add: new)
  moreover have "j \<noteq> i" using fj(3) i(3) by (auto simp: child_def)
  ultimately have "find (child ?v c x) [1..<VFS_MAX_INODES] = Some j"
    using fj same by (intro find_upt_SomeI) metis+
  then show "find_child ?v c x = find_child v c x" using j by (simp add: find_child_def)
qed

lemma find_child_inodes: "inodes v' = inodes v \<Longrightarrow> find_child v' = find_child v"
  by (simp add: find_child_def [abs_def] child_def [abs_def])

text \<open>A path resolves to the inode that was entered for it.\<close>

lemma resolve_new:
  assumes I: "vfs_inv d L v" and p: "NUL \<notin> set p" "length p \<le> 31"
    and nm: "NUL \<notin> set nm" "CHR ''/'' \<notin> set nm" "nm \<noteq> []" "length nm \<le> 31"
    and par: "par = vfs_resolve (if p = [] then ''/'' else p) v" "\<not> par < 0"
    and i: "0 < i" "i < VFS_MAX_INODES" "\<not> iused (inodes v ! i)"
    and none: "\<not> (\<exists>j \<in> set [1..<VFS_MAX_INODES]. child v par nm j)"
    and n: "iused n" "iparent n = par" "iname n = nm" and v': "inodes v' = (inodes v)[i := n]"
  shows "vfs_resolve (p @ CHR ''/'' # nm) v' = int i"
proof -
  have n': "iused n" "iparent n = par" "cstr (iname n) = cstr nm" using n by simp_all
  note fc = find_child_new [OF I i none n']
  have fv: "find_child v' = find_child (v\<lparr>inodes := (inodes v)[i := n]\<rparr>)" by (rule find_child_inodes) (simp add: v')
  have pr: "resolve_loop v (skip_slash p) 0 = par"
    using p(1) unfolding par(1)
    by (cases p) (auto simp: vfs_resolve_def skip_slash_def resolve_loop.simps [of v "[]"] chd_def split: list.splits)
  have keep: "resolve_loop v' (skip_slash p) 0 = par"
    using fc(2) by (intro resolve_mono [OF _ pr par(2)]) (simp add: fv)
  have np: "NUL \<notin> set (skip_slash p)" using p(1) by (cases p) (auto simp: skip_slash_def)
  have last: "resolve_loop v' nm par = int i"
  proof -
    have c: "chd nm \<noteq> NUL" using nm by (cases nm) auto
    have "find_child v' par nm = int i" using fc(1) by (simp add: fv)
    then show ?thesis using c next_comp_all [OF nm(1,2,4)] nm(3)
      by (subst resolve_loop.simps) (simp add: Let_def skip_slash_def resolve_loop.simps [of v' "[]"])
  qed
  have "vfs_resolve (p @ CHR ''/'' # nm) v' = resolve_loop v' (skip_slash p @ (if p = [] then nm else CHR ''/'' # nm)) 0"
    using p(1) nm by (cases p; cases nm) (auto simp: vfs_resolve_def skip_slash_def chd_append chd_NUL_iff)
  also have "\<dots> = int i"
    using resolve_append [OF keep par(2) np, of nm] keep last by (auto simp: skip_slash_def resolve_loop.simps [of v' "[]"])
  finally show ?thesis .
qed

text \<open>
  A directory that was made is found. When \<open>vfs_mkdir\<close> succeeds on a path whose parent part
  and last component each have at most 31 characters, resolving the same path afterwards gives
  the inode it returned, and that inode is an empty directory.
\<close>

theorem vfs_mkdir_resolve:
  assumes I: "vfs_inv d L v" and p: "NUL \<notin> set p" "length p \<le> 31"
    and nm: "NUL \<notin> set nm" "CHR ''/'' \<notin> set nm" "nm \<noteq> []" "length nm \<le> 31"
    and m: "vfs_mkdir (p @ CHR ''/'' # nm) v = (r, v')" "0 \<le> r"
  shows "vfs_resolve (p @ CHR ''/'' # nm) v' = r \<and> vfs_inode_type r v' = VFS_DIR \<and>
    (\<forall>j < VFS_MAX_INODES. iused (inodes v' ! j) \<longrightarrow> iparent (inodes v' ! j) \<noteq> r)"
proof -
  let ?pp = "if p = [] then ''/'' else p"
  define par where "par = vfs_resolve ?pp v"
  define i where "i = nat (alloc_inode v)"
  define n where "n = (inodes v ! i)\<lparr>iused := True, itype := VFS_DIR, iparent := par, isize := 0, idata := 0, iname := nm\<rparr>"
  note sp = split_path_join [OF p nm]
  have nme: "vfs_strncpy nm VFS_MAX_NAME = nm" using nm by (simp add: vfs_strncpy_eq cstr_no_nul)
  from m sp have g: "\<not> par < 0" "itype (inodes v ! nat par) = VFS_DIR"
    and none: "\<not> (\<exists>j \<in> set [1..<VFS_MAX_INODES]. child v par nm j)" and ai: "\<not> alloc_inode v < 0"
    and r: "r = alloc_inode v" and v': "v' = v\<lparr>inodes := (inodes v)[i := n]\<rparr>"
    unfolding vfs_mkdir_def Let_def i_def n_def upd_inode_def par_def
    by (auto simp: nme split: if_splits simp del: set_upt)
  note a = alloc_inode_range [OF refl ai, folded i_def]
  have ri: "r = int i" using r a(4) by simp
  have res: "vfs_resolve (p @ CHR ''/'' # nm) v' = r"
    unfolding ri by (rule resolve_new [OF I p nm par_def g(1) a(1-3) none, of n]) (simp_all add: n_def v')
  have l: "length (inodes v) = VFS_MAX_INODES" by (rule vfs_invD(1) [OF I])
  have ty: "vfs_inode_type r v' = VFS_DIR" using a l by (simp add: vfs_inode_type_def vfs_inode_used_def v' ri n_def)
  have "iparent (inodes v' ! j) \<noteq> r" if j: "j < VFS_MAX_INODES" "iused (inodes v' ! j)" for j
  proof (cases "j = i")
    case True
    have "nat par \<noteq> i" using vfs_resolve_used(1) [OF I par_def [symmetric] g(1)] a(3) by auto
    then show ?thesis using True a l g(1) by (simp add: v' n_def ri)
  next
    case False
    then show ?thesis using j inode_ok_parent_used [OF vfs_invD(4) [OF I j(1)] a(3)] by (simp add: v' ri)
  qed
  then show ?thesis using res ty by blast
qed

theorem vfs_mkdir_resolve_witness:
  "\<exists>v'. vfs_mkdir ''/a'' vfs0 = (1, v') \<and> vfs_resolve ''/a'' v' = 1"
proof -
  have "\<not> (\<exists>i \<in> set [1..<VFS_MAX_INODES]. child vfs0 0 ''a'' i)"
    by (auto simp: child_def vfs0_def vfs_init_def inode_zero_def)
  moreover have "vfs_resolve ''/'' vfs0 = 0" by (simp add: vfs_resolve_def)
  moreover have "itype (inodes vfs0 ! 0) = VFS_DIR" by (simp add: vfs0_def vfs_init_def)
  ultimately obtain v' where m: "vfs_mkdir ''/a'' vfs0 = (1, v')"
    by (simp add: vfs_mkdir_def vfs0_split_a vfs0_alloc Let_def)
  obtain d L where "vfs_inv d L vfs0" using vfs_run_inv [OF vfs0_run] by blast
  from vfs_mkdir_resolve [OF this, of "[]" "''a''" 1 v'] m show ?thesis by simp
qed

subsection \<open>Removal\<close>

text \<open>
  \<open>vfs_unlink\<close> leaves nothing of the inode behind. On success the inode is free, no
  descriptor refers to it any more, its buffer has gone back to the allocator, and every other
  inode and the contents of every other file are unchanged.
\<close>

theorem vfs_unlink_removes:
  assumes I: "vfs_inv d L v" and u: "vfs_unlink path v = (0, v')"
  shows "\<exists>i. vfs_resolve path v = int i \<and> 0 < i \<and> i < VFS_MAX_INODES \<and> \<not> iused (inodes v' ! i) \<and>
    (\<forall>k < VFS_MAX_FDS. finode (fds v' ! k) \<noteq> int i) \<and>
    (itype (inodes v ! i) = VFS_FILE \<longrightarrow> heap_live (vheap v') (L - {idata (inodes v ! i)})) \<and>
    (\<forall>j. j \<noteq> i \<longrightarrow> inodes v' ! j = inodes v ! j \<and> file_bytes v' j = file_bytes v j)"
proof (cases rule: vfs_unlink_cases [OF I, of path, case_names refuse gone])
  case refuse
  then show ?thesis using u by simp
next
  case (gone i)
  note D = vfs_invD [OF I]
  have v': "inodes v' = (inodes v)[i := inode_zero]"
    "fds v' = map (\<lambda>f. if finode f = int i then f\<lparr>finode := - 1\<rparr> else f) (fds v)"
    "vheap v' = (if idata (inodes v ! i) \<noteq> 0 then kfree (idata (inodes v ! i)) (vheap v) else vheap v)"
    using gone(6) u by auto
  have "heap_live (vheap v') (L - {idata (inodes v ! i)})" if f: "itype (inodes v ! i) = VFS_FILE"
    using kh.release_inv [OF D(3) file_fields(1) [OF I gone(2,4) f]] file_fields(5) [OF I gone(2,4) f] by (simp add: v')
  moreover have "file_bytes v' j = file_bytes v j" if "j \<noteq> i" for j
    using that by (simp add: file_bytes_def v' kh.release_bytes)
  ultimately show ?thesis
    using gone(1-3) D(1,2) by (intro exI [of _ i]) (auto simp: v' inode_zero_def)
qed

theorem vfs_unlink_removes_witness:
  "\<exists>v v'. vfs_unlink ''/a'' v = (0, v') \<and> \<not> iused (inodes v' ! 1)"
proof -
  let ?v = "vfs0\<lparr>inodes := (inodes vfs0)[1 := inode_zero\<lparr>iused := True, itype := VFS_DIR, iname := ''a''\<rparr>]\<rparr>"
  obtain d L where I: "vfs_inv d L vfs0" using vfs_run_inv [OF vfs0_run] by blast
  have none: "\<not> (\<exists>i \<in> set [1..<VFS_MAX_INODES]. child vfs0 0 ''a'' i)"
    by (auto simp: child_def vfs0_def vfs_init_def inode_zero_def)
  have l: "length (inodes vfs0) = 64" by (simp add: vfs0_def vfs_init_def)
  have m: "vfs_mkdir ''/a'' vfs0 = (1, ?v)"
    using none l by (simp add: vfs_mkdir_def vfs0_split_a vfs0_alloc Let_def vfs_resolve_def upd_inode_def
        vfs_strncpy_def strncpy_loop_eq cstr_Cons) (simp add: vfs0_def vfs_init_def inode_zero_def)
  obtain d' L' where I': "vfs_inv d' L' ?v" using vfs_mkdir_inv [OF I m] vfs_run_inv [OF vfs_run.mkdir [OF vfs0_run, of "''/a''"]] m by auto
  have fc: "find_child ?v 0 ''a'' = 1"
    using find_child_new(1) [OF I _ _ _ none, of 1 "inode_zero\<lparr>iused := True, itype := VFS_DIR, iname := ''a''\<rparr>"]
    by (simp add: inode_zero_def) (simp add: vfs0_def vfs_init_def inode_zero_def)
  have r: "vfs_resolve ''/a'' ?v = 1"
    using fc by (simp add: vfs_resolve_def skip_slash_def resolve_loop.simps [of _ "''a''"] resolve_loop.simps [of _ "[]"]
        next_comp_all Let_def)
  have "\<forall>j \<in> set [1..<VFS_MAX_INODES]. \<not> (iused (inodes ?v ! j) \<and> iparent (inodes ?v ! j) = 1)"
    by (auto simp: vfs0_def vfs_init_def inode_zero_def nth_list_update nth_Cons')
  then obtain v' where u: "vfs_unlink ''/a'' ?v = (0, v')"
    using r l by (simp add: vfs_unlink_def Let_def del: set_upt)
  from vfs_unlink_removes [OF I' this] r show ?thesis using u by (metis of_nat_1 of_nat_eq_iff)
qed

text \<open>
  A negative length passes every check of \<open>vfs_write\<close>: \<open>memcpy\<close> is called with the length as an
  unsigned 64-bit number, \<open>2 ^ 64 - 1\<close> bytes for \<open>-1\<close>.
\<close>

lemma vfs_write_negative_len:
  assumes "vfs_inv d L v" "\<not> bad_fd fd v" "finode (fds v ! nat fd) = int i" "write_pos fd v < VFS_MAX_FSIZE"
  shows "fst (vfs_write fd buf (- 1) v) = - 1 \<and>
    mem (vheap (snd (vfs_write fd buf (- 1) v))) =
      memcpy (mem (vheap v)) (idata (inodes v ! i) + of_int (write_pos fd v)) buf 0xFFFFFFFFFFFFFFFF"
proof -
  have e: "(0xFFFFFFFFFFFFFFFF :: u64) = - 1" by simp
  show ?thesis unfolding e using assms(4) by (simp add: vfs_write_eq [OF assms] Let_def min_def)
qed

end
