(* ===== verification/Ramfs.thy ===== *)
theory Ramfs
  imports KString Alloc
begin

text \<open>
  The flat RAM file store (\<^verbatim>\<open>src/ramfs.c\<close>): a table of 32 files with one heap buffer of 4 KB
  each. As in the virtual file system, caller buffers and file contents live in one byte
  memory and a creation has an \<open>option\<close> result like \<open>kmalloc\<close>.
\<close>

subsection \<open>Data and operations\<close>

abbreviation RAMFS_MAX_FILES :: nat where "RAMFS_MAX_FILES \<equiv> 32"
abbreviation RAMFS_MAX_NAME :: nat where "RAMFS_MAX_NAME \<equiv> 32"
abbreviation RAMFS_MAX_SIZE :: int where "RAMFS_MAX_SIZE \<equiv> 4096"

record ramfs_file_t =
  rname :: string
  rdata :: addr
  rsize :: int
  rused :: bool

record ramfs =
  files :: "ramfs_file_t list"
  rheap :: kheap

definition upd_file :: "nat \<Rightarrow> (ramfs_file_t \<Rightarrow> ramfs_file_t) \<Rightarrow> ramfs \<Rightarrow> ramfs" where
  "upd_file i f s = s\<lparr>files := (files s)[i := f (files s ! i)]\<rparr>"

definition set_rmem :: "mem \<Rightarrow> ramfs \<Rightarrow> ramfs" where
  "set_rmem m s = s\<lparr>rheap := (rheap s)\<lparr>mem := m\<rparr>\<rparr>"

definition ramfs_init :: "ramfs \<Rightarrow> ramfs" where
  "ramfs_init s = s\<lparr>files := replicate RAMFS_MAX_FILES \<lparr>rname = [], rdata = 0, rsize = 0, rused = False\<rparr>\<rparr>"

definition ramfs_find :: "string \<Rightarrow> ramfs \<Rightarrow> int" where
  "ramfs_find nm s =
     idx_or_neg1 (find (\<lambda>i. rused (files s ! i) \<and> str_eq (rname (files s ! i)) nm) [0..<RAMFS_MAX_FILES])"

fun ramfs_copy_name :: "string \<Rightarrow> nat \<Rightarrow> string" where
  "ramfs_copy_name nm 0 = []"
| "ramfs_copy_name nm (Suc room) = (if chd nm = NUL then [] else chd nm # ramfs_copy_name (tl nm) room)"

definition ramfs_create :: "string \<Rightarrow> ramfs \<Rightarrow> (int \<times> ramfs) option" where
  "ramfs_create nm s =
     (let existing = ramfs_find nm s
      in if existing \<ge> 0 then Some (existing, s)
         else
           case find (\<lambda>i. \<not> rused (files s ! i)) [0..<RAMFS_MAX_FILES] of
             None \<Rightarrow> Some (- 1, s)
           | Some i \<Rightarrow>
               let s1 = upd_file i (\<lambda>f. f\<lparr>rused := True, rsize := 0,
                          rname := ramfs_copy_name nm (RAMFS_MAX_NAME - 1)\<rparr>) s
               in do {
                 (p, h) \<leftarrow> kmalloc (of_int RAMFS_MAX_SIZE) (rheap s1);
                 let s2 = upd_file i (\<lambda>f. f\<lparr>rdata := p\<rparr>) (s1\<lparr>rheap := h\<rparr>)
                 in if p = 0 then Some (- 1, upd_file i (\<lambda>f. f\<lparr>rused := False\<rparr>) s2)
                    else Some (int i, set_rmem (memset (mem (rheap s2)) p 0 (of_int RAMFS_MAX_SIZE)) s2)
               })"

definition bad_file :: "int \<Rightarrow> ramfs \<Rightarrow> bool" where
  "bad_file fd s \<longleftrightarrow> fd < 0 \<or> fd \<ge> int RAMFS_MAX_FILES \<or> \<not> rused (files s ! nat fd)"

definition ramfs_write :: "int \<Rightarrow> addr \<Rightarrow> int \<Rightarrow> ramfs \<Rightarrow> int \<times> ramfs" where
  "ramfs_write fd buf len s =
     (if bad_file fd s then (- 1, s)
      else
        let n = (if len > RAMFS_MAX_SIZE then RAMFS_MAX_SIZE else len);
            s1 = set_rmem (memcpy (mem (rheap s)) (rdata (files s ! nat fd)) buf (of_int n)) s
        in (n, upd_file (nat fd) (\<lambda>f. f\<lparr>rsize := n\<rparr>) s1))"

definition ramfs_read :: "int \<Rightarrow> addr \<Rightarrow> int \<Rightarrow> ramfs \<Rightarrow> int \<times> ramfs" where
  "ramfs_read fd buf len s =
     (if bad_file fd s then (- 1, s)
      else
        let n = (if len > rsize (files s ! nat fd) then rsize (files s ! nat fd) else len)
        in (n, set_rmem (memcpy (mem (rheap s)) buf (rdata (files s ! nat fd)) (of_int n)) s))"

definition ramfs_size :: "int \<Rightarrow> ramfs \<Rightarrow> int" where
  "ramfs_size fd s = (if bad_file fd s then - 1 else rsize (files s ! nat fd))"

definition ramfs_name :: "int \<Rightarrow> ramfs \<Rightarrow> string" where
  "ramfs_name fd s = (if bad_file fd s then [] else rname (files s ! nat fd))"

definition ramfs_count :: "ramfs \<Rightarrow> nat" where
  "ramfs_count s = length (filter (\<lambda>i. rused (files s ! i)) [0..<RAMFS_MAX_FILES])"

subsection \<open>Invariant\<close>

definition file_ok :: "kheap \<Rightarrow> addr set \<Rightarrow> ramfs_file_t \<Rightarrow> bool" where
  "file_ok h L f \<longleftrightarrow> rdata f \<in> L \<and> 4096 \<le> live_extent h (rdata f) \<and> 0 \<le> rsize f \<and> rsize f \<le> RAMFS_MAX_SIZE"

definition ramfs_inv :: "addr set \<Rightarrow> ramfs \<Rightarrow> bool" where
  "ramfs_inv L s \<longleftrightarrow> length (files s) = RAMFS_MAX_FILES \<and> heap_live (rheap s) L \<and>
     (\<forall>i < RAMFS_MAX_FILES. rused (files s ! i) \<longrightarrow> file_ok (rheap s) L (files s ! i)) \<and>
     (\<forall>i < RAMFS_MAX_FILES. \<forall>j < RAMFS_MAX_FILES. rused (files s ! i) \<longrightarrow> rused (files s ! j) \<longrightarrow> i \<noteq> j \<longrightarrow>
        rdata (files s ! i) \<noteq> rdata (files s ! j))"

definition rbytes :: "ramfs \<Rightarrow> nat \<Rightarrow> bytes" where
  "rbytes s i = mread (mem (rheap s)) (rdata (files s ! i)) (nat (rsize (files s ! i)))"

lemma ramfs_upd_simps [simp]:
  "files (upd_file i f s) = (files s)[i := f (files s ! i)]" "rheap (upd_file i f s) = rheap s"
  "files (set_rmem m s) = files s" "rheap (set_rmem m s) = (rheap s)\<lparr>mem := m\<rparr>"
  by (simp_all add: upd_file_def set_rmem_def)

lemma ramfs_init_inv [inv_intros]: "heap_live (rheap s) L \<Longrightarrow> ramfs_inv L (ramfs_init s)"
  by (simp add: ramfs_inv_def ramfs_init_def)

lemma ramfs_file_facts:
  assumes "ramfs_inv L s" "\<not> bad_file fd s"
  shows "nat fd < RAMFS_MAX_FILES" "rused (files s ! nat fd)" "file_ok (rheap s) L (files s ! nat fd)"
    "unat (rdata (files s ! nat fd)) + 4096 \<le> 2 ^ 64" "heap_live (rheap s) L" "length (files s) = RAMFS_MAX_FILES"
proof -
  show k: "nat fd < RAMFS_MAX_FILES" and u: "rused (files s ! nat fd)" using assms(2) by (auto simp: bad_file_def)
  then show f: "file_ok (rheap s) L (files s ! nat fd)" using assms(1) by (simp add: ramfs_inv_def)
  show h: "heap_live (rheap s) L" "length (files s) = RAMFS_MAX_FILES" using assms(1) by (simp_all add: ramfs_inv_def)
  show "unat (rdata (files s ! nat fd)) + 4096 \<le> 2 ^ 64"
    using kh.live_fits [OF h(1), of "rdata (files s ! nat fd)"] f by (simp add: file_ok_def)
qed

lemma ramfs_create_inv [inv_intros]:
  assumes "ramfs_inv L s"
  shows "\<exists>r s' L'. ramfs_create nm s = Some (r, s') \<and> ramfs_inv L' s' \<and> L \<subseteq> L' \<and>
    (\<forall>i < RAMFS_MAX_FILES. rused (files s ! i) \<longrightarrow> files s' ! i = files s ! i \<and> rbytes s' i = rbytes s i)"
proof (cases "ramfs_find nm s \<ge> 0 \<or> find (\<lambda>i. \<not> rused (files s ! i)) [0..<RAMFS_MAX_FILES] = None")
  case True
  then show ?thesis using assms by (auto simp: ramfs_create_def Let_def)
next
  case False
  then obtain i where i: "find (\<lambda>i. \<not> rused (files s ! i)) [0..<RAMFS_MAX_FILES] = Some i" and nf: "\<not> ramfs_find nm s \<ge> 0"
    by auto
  note fi = find_upt_Some [OF i]
  have h: "heap_live (rheap s) L" "length (files s) = RAMFS_MAX_FILES" using assms by (simp_all add: ramfs_inv_def)
  have sz: "0 < unat (4096::u64)" "unat (4096::u64) \<le> 2 ^ 62" by simp_all
  have e: "(files s)[i := x] ! j = (if j = i then x else files s ! j)" for j x
    using fi(2) h(2) by (simp add: nth_list_update)
  from kh.alloc_cases [OF h(1) sz] show ?thesis
  proof (elim disjE exE conjE)
    assume k: "kmalloc 4096 (rheap s) = Some (0, rheap s)"
    define f where "f = (files s ! i)\<lparr>rused := False, rsize := 0, rname := ramfs_copy_name nm 31, rdata := 0\<rparr>"
    have "ramfs_create nm s = Some (- 1, s\<lparr>files := (files s)[i := f]\<rparr>)"
      using i nf k fi(2) h(2) by (cases "files s ! i") (simp add: ramfs_create_def Let_def upd_file_def f_def)
    moreover have "ramfs_inv L (s\<lparr>files := (files s)[i := f]\<rparr>)"
      using assms fi by (auto simp: ramfs_inv_def e f_def)
    ultimately show ?thesis using fi by (intro exI [of _ "- 1"] exI [of _ "s\<lparr>files := (files s)[i := f]\<rparr>"] exI [of _ L])
        (auto simp: e rbytes_def)
  next
    fix p h'
    assume k: "kmalloc 4096 (rheap s) = Some (p, h')" "p \<noteq> 0" "p \<notin> L" "heap_live h' (insert p L)"
      "unat (4096::u64) \<le> live_extent h' p" "mem h' = mem (rheap s)" "\<forall>q \<in> L. live_extent h' q = live_extent (rheap s) q"
    define f where "f = (files s ! i)\<lparr>rused := True, rsize := 0, rname := ramfs_copy_name nm 31, rdata := p\<rparr>"
    define s' where "s' = s\<lparr>files := (files s)[i := f], rheap := h'\<lparr>mem := mfill (mem h') p 4096 0\<rparr>\<rparr>"
    have c: "ramfs_create nm s = Some (int i, s')"
      using i nf k(1,2) fi(2) h(2) memset_eq [of "mem h'" p 0 4096]
      by (simp add: ramfs_create_def Let_def upd_file_def set_rmem_def f_def s'_def)
    have old: "file_ok (rheap s') (insert p L) (files s ! j)" "rdata (files s ! j) \<noteq> p" "rdata (files s ! j) \<in> L"
      if "j < RAMFS_MAX_FILES" "rused (files s ! j)" for j
      using assms that k(3,7) by (auto simp: ramfs_inv_def file_ok_def s'_def kh.put_extent)
    have "ramfs_inv (insert p L) s'"
      using assms old k(4,5) fi by (auto simp: ramfs_inv_def s'_def e f_def kh.put_inv kh.put_extent file_ok_def)
    moreover have "rbytes s' j = rbytes s j" if j: "j < RAMFS_MAX_FILES" "rused (files s ! j)" for j
    proof -
      have ji: "j \<noteq> i" using fi(3) j by auto
      have F: "file_ok (rheap s) L (files s ! j)" using assms j by (simp add: ramfs_inv_def)
      let ?q = "rdata (files s ! j)"
      have "mread (mfill (mem h') p 4096 0) ?q (live_extent h' ?q) = mread (mem h') ?q (live_extent h' ?q)"
        using k(4,5) old(2,3) [OF j] by (intro kh.fill_frame [of h' "insert p L"]) auto
      moreover have "nat (rsize (files s ! j)) \<le> live_extent h' ?q" using F k(7) by (auto simp: file_ok_def)
      ultimately have "mread (mfill (mem h') p 4096 0) ?q (nat (rsize (files s ! j))) =
          mread (mem h') ?q (nat (rsize (files s ! j)))" by (metis take_mread)
      then show ?thesis using k(6) ji by (simp add: rbytes_def s'_def e)
    qed
    ultimately show ?thesis using c fi
      by (intro exI [of _ "int i"] exI [of _ s'] exI [of _ "insert p L"]) (auto simp: s'_def e)
  qed
qed

text \<open>
  the RAM file store returns what was stored. After a successful \<open>ramfs_write\<close> of \<open>len\<close> bytes
  the file has exactly those bytes (at most 4096), every other file keeps its contents, and
  \<open>ramfs_read\<close> delivers the stored bytes into any buffer outside the file's storage.
\<close>

theorem ramfs_write_read:
  assumes I: "ramfs_inv L s" and fd: "\<not> bad_file fd s"
    and buf: "0 \<le> len" "apart buf (nat len) (rdata (files s ! nat fd)) 4096" "unat buf + nat len \<le> 2 ^ 64"
    and w: "ramfs_write fd buf len s = (n, s')"
    and buf2: "apart buf2 (nat n) (rdata (files s ! nat fd)) 4096" "unat buf2 + nat n \<le> 2 ^ 64"
  shows "n = min len RAMFS_MAX_SIZE \<and> ramfs_inv L s' \<and>
    rbytes s' (nat fd) = mread (mem (rheap s)) buf (nat n) \<and>
    (\<forall>j < RAMFS_MAX_FILES. j \<noteq> nat fd \<longrightarrow> rused (files s ! j) \<longrightarrow> rbytes s' j = rbytes s j) \<and>
    (\<exists>s''. ramfs_read fd buf2 n s' = (n, s'') \<and>
       mread (mem (rheap s'')) buf2 (nat n) = mread (mem (rheap s)) buf (nat n))"
proof -
  note F = ramfs_file_facts [OF I fd]
  let ?k = "nat fd" and ?p = "rdata (files s ! nat fd)"
  obtain nn where n: "n = int nn" "n = min len RAMFS_MAX_SIZE" and nb: "nn \<le> 4096" "nn \<le> nat len"
  proof
    have e: "n = min len RAMFS_MAX_SIZE" using w fd by (simp add: ramfs_write_def Let_def min_def split: if_splits)
    then show "n = int (nat n)" "n = min len RAMFS_MAX_SIZE" "nat n \<le> 4096" "nat n \<le> nat len" using buf(1) by auto
  qed
  let ?bs = "mread (mem (rheap s)) buf nn"
  have cp: "memcpy (mem (rheap s)) ?p buf (of_nat nn) = mwrite (mem (rheap s)) ?p ?bs"
    using memcpy_into [OF F(4) buf(2,3), of 0 nn "mem (rheap s)"] nb by simp
  have s': "files s' = (files s)[?k := (files s ! ?k)\<lparr>rsize := int nn\<rparr>]" "rheap s' = (rheap s)\<lparr>mem := mwrite (mem (rheap s)) ?p ?bs\<rparr>"
    using w fd cp n by (auto simp: ramfs_write_def Let_def)
  have e: "files s' ! j = (if j = ?k then (files s ! ?k)\<lparr>rsize := int nn\<rparr> else files s ! j)" for j
    using F(1,6) by (simp add: s' nth_list_update)
  have inv: "ramfs_inv L s'"
    using I nb F(1,2) unfolding ramfs_inv_def e file_ok_def s'(2) kh.put_inv kh.put_extent by (auto simp: s'(1))
  have own: "rbytes s' ?k = ?bs"
    using mread_mwrite_same [of ?bs "mem (rheap s)" ?p] nb by (simp add: rbytes_def e s'(2))
  have oth: "rbytes s' j = rbytes s j" if j: "j < RAMFS_MAX_FILES" "j \<noteq> ?k" "rused (files s ! j)" for j
  proof -
    let ?q = "rdata (files s ! j)"
    have fj: "file_ok (rheap s) L (files s ! j)" and ne: "?p \<noteq> ?q"
      using I j F(1,2) by (auto simp: ramfs_inv_def)
    have "mread (mwrite (mem (rheap s)) (?p + of_nat 0) ?bs) ?q (live_extent (rheap s) ?q)
        = mread (mem (rheap s)) ?q (live_extent (rheap s) ?q)"
      using F(3) fj ne nb by (intro kh.store_frame [OF F(5)]) (auto simp: file_ok_def)
    moreover have "nat (rsize (files s ! j)) \<le> live_extent (rheap s) ?q" using fj by (auto simp: file_ok_def)
    ultimately have "mread (mwrite (mem (rheap s)) (?p + of_nat 0) ?bs) ?q (nat (rsize (files s ! j))) =
        mread (mem (rheap s)) ?q (nat (rsize (files s ! j)))" by (metis take_mread)
    then show ?thesis using j(2) by (simp add: rbytes_def e s'(2))
  qed
  have ok': "\<not> bad_file fd s'" using fd F(1) by (simp add: bad_file_def e)
  have "memcpy (mem (rheap s')) buf2 ?p (of_nat nn) = mwrite (mem (rheap s')) buf2 (mread (mem (rheap s')) ?p nn)"
    using memcpy_from [OF F(4) buf2, of 0 nn "mem (rheap s')"] nb n(1) by simp
  moreover have "mread (mem (rheap s')) ?p nn = ?bs" using own by (simp add: rbytes_def e)
  ultimately have rd: "ramfs_read fd buf2 n s' = (n, set_rmem (mwrite (mem (rheap s')) buf2 ?bs) s')"
    using ok' n(1) by (simp add: ramfs_read_def Let_def e)
  have "mread (mwrite (mem (rheap s')) buf2 ?bs) buf2 nn = ?bs"
    using mread_mwrite_same [of ?bs "mem (rheap s')" buf2] nb by simp
  then show ?thesis using n inv own oth rd by auto
qed

definition ramfs0 :: ramfs where
  "ramfs0 = ramfs_init \<lparr>files = [], rheap = alloc_init 0x1000 0x100000 heap0\<rparr>"

theorem ramfs_write_read_witness:
  "\<exists>s s' s''. ramfs_write 0 0x200000 5 s = (5, s') \<and> ramfs_read 0 0x300000 5 s' = (5, s'') \<and>
     mread (mem (rheap s'')) 0x300000 5 = mread (mem (rheap s)) 0x200000 5"
proof -
  have "ramfs_inv {} ramfs0"
    unfolding ramfs0_def heap_live_def
    by (rule ramfs_init_inv) (auto simp: heap_live_def intro!: exI alloc_init_inv)
  then obtain r s L where c: "ramfs_create ''f'' ramfs0 = Some (r, s)" "ramfs_inv L s"
    using ramfs_create_inv by blast
  have "find (\<lambda>i. \<not> rused (files ramfs0 ! i)) [0..<32] = Some 0"
    by (rule find_upt_SomeI) (simp_all add: ramfs0_def ramfs_init_def)
  moreover have "ramfs_find ''f'' ramfs0 = - 1"
    by (simp add: ramfs_find_def idx_or_neg1_def ramfs0_def ramfs_init_def find_upt_None split: option.splits)
  moreover obtain h where "kmalloc 4096 (rheap ramfs0) = Some (0x1010, h)"
    by (simp add: ramfs0_def ramfs_init_def heap_eval)
  ultimately have f: "rdata (files s ! 0) = 0x1010" "rused (files s ! 0)"
    using c(1) by (auto simp: ramfs_create_def Let_def ramfs0_def ramfs_init_def)
  then have ok: "\<not> bad_file 0 s" by (simp add: bad_file_def)
  then obtain s' where w: "ramfs_write 0 0x200000 5 s = (5, s')" by (simp add: ramfs_write_def Let_def)
  show ?thesis using ramfs_write_read [OF c(2) ok _ _ _ w, of "0x300000"] w f(1)
    by (simp add: apart_def) blast
qed

end
