(* ===== verification/Uart.thy ===== *)
theory Uart
  imports KString Ring
begin

text \<open>
  The serial console (\<^verbatim>\<open>src/uart.c\<close>): character output with an optional hook, hexadecimal and
  decimal printing, \<open>kprintf\<close>, line input, and the receive ring that the interrupt handler
  fills. The state holds what was sent, the calls of the output hook, the characters that wait
  in the hardware receive FIFO and the last value written to each control register. Waiting
  for room in the transmit FIFO changes nothing and is not represented.
\<close>

unbundle bit_operations_syntax

subsection \<open>State\<close>

datatype uart_reg = UART0_CR | UART0_ICR | UART0_IBRD | UART0_FBRD | UART0_LCRH | UART0_IMSC

abbreviation UART_BUF_SIZE :: nat where "UART_BUF_SIZE \<equiv> 64"

record uart =
  tx :: string
  hook :: u64
  hook_calls :: "(u64 \<times> char) list"
  rxfifo :: string
  uart_rx_buf :: string
  uart_rx_head :: nat
  uart_rx_tail :: nat
  regs :: "uart_reg \<Rightarrow> u32"

definition set_reg :: "uart_reg \<Rightarrow> u32 \<Rightarrow> uart \<Rightarrow> uart" where
  "set_reg r x u = u\<lparr>regs := (regs u)(r := x)\<rparr>"

subsection \<open>Output\<close>

definition uart_set_output_hook :: "u64 \<Rightarrow> uart \<Rightarrow> uart" where
  "uart_set_output_hook fn u = u\<lparr>hook := fn\<rparr>"

definition uart_get_output_hook :: "uart \<Rightarrow> u64" where
  "uart_get_output_hook u = hook u"

text \<open>\<open>virt\<close> selects the QEMU build; the divisors are those of the platform header.\<close>

definition uart_init :: "bool \<Rightarrow> u32 \<Rightarrow> u32 \<Rightarrow> uart \<Rightarrow> uart" where
  "uart_init virt ibrd fbrd u =
     (let on = (1 OR push_bit 8 1 OR push_bit 9 1 :: u32)
      in if virt then set_reg UART0_CR on (set_reg UART0_ICR 0x7FF u)
         else set_reg UART0_CR on
               (set_reg UART0_LCRH (push_bit 4 1 OR push_bit 5 1 OR push_bit 6 1)
               (set_reg UART0_FBRD fbrd
               (set_reg UART0_IBRD ibrd
               (set_reg UART0_ICR 0x7FF (set_reg UART0_CR 0 u))))))"

definition uart_putc :: "char \<Rightarrow> uart \<Rightarrow> uart" where
  "uart_putc c u =
     (let u1 = u\<lparr>tx := tx u @ [c]\<rparr>
      in if hook u1 \<noteq> 0 then u1\<lparr>hook_calls := hook_calls u1 @ [(hook u1, c)]\<rparr> else u1)"

fun uart_puts :: "string \<Rightarrow> uart \<Rightarrow> uart" where
  "uart_puts [] u = u"
| "uart_puts (c # cs) u =
     (if c = NUL then u
      else uart_puts cs (uart_putc c (if c = CHR 0x0A then uart_putc CHR 0x0D u else u)))"

definition nibble_char :: "nat \<Rightarrow> char" where
  "nibble_char n = (if n < 10 then char_of (48 + n) else char_of (65 + n - 10))"

text \<open>The loop over \<open>shift = 60, 56, \<dots>, 0\<close>; the counter is \<open>shift / 4 + 1\<close>.\<close>

fun puthex_loop :: "u64 \<Rightarrow> nat \<Rightarrow> bool \<Rightarrow> uart \<Rightarrow> uart" where
  "puthex_loop val 0 started u = u"
| "puthex_loop val (Suc k) started u =
     (let nibble = unat (drop_bit (4 * k) val AND 0xF)
      in if nibble \<noteq> 0 \<or> started \<or> k = 0
         then puthex_loop val k True (uart_putc (nibble_char nibble) u)
         else puthex_loop val k started u)"

definition uart_puthex :: "u64 \<Rightarrow> uart \<Rightarrow> uart" where
  "uart_puthex val u = puthex_loop val 16 False (uart_putc CHR ''x'' (uart_putc CHR ''0'' u))"

text \<open>The digit buffer of \<open>print_unsigned\<close>, least significant digit first.\<close>

function dec_digits :: "u64 \<Rightarrow> string" where
  "dec_digits val = (if val > 0 then char_of (48 + unat (val mod 10)) # dec_digits (val div 10) else [])"
  by pat_completeness auto
termination
proof (relation "measure unat")
  fix val :: u64 assume "0 < val"
  then have "0 < unat val" by (simp add: unat_gt_0)
  then show "(val div 10, val) \<in> measure unat" by (simp add: unat_div)
qed simp

declare dec_digits.simps [simp del]

definition put_string :: "string \<Rightarrow> uart \<Rightarrow> uart" where
  "put_string s u = fold uart_putc s u"

definition print_unsigned :: "u64 \<Rightarrow> uart \<Rightarrow> uart" where
  "print_unsigned val u = (if val = 0 then uart_putc CHR ''0'' u else put_string (rev (dec_digits val)) u)"

definition print_signed :: "u64 \<Rightarrow> uart \<Rightarrow> uart" where
  "print_signed val u =
     (if sint val < 0 then print_unsigned (- val) (uart_putc CHR ''-'' u) else print_unsigned val u)"

definition print_hex :: "u64 \<Rightarrow> uart \<Rightarrow> uart" where
  "print_hex val u = puthex_loop val 16 False (uart_putc CHR ''x'' (uart_putc CHR ''0'' u))"

text \<open>
  The arguments of \<open>kprintf\<close>: a long or a pointer as a word, a string pointer that may be null.
  The result is \<open>None\<close> when the C function has no defined behaviour: an argument is missing or
  of the wrong kind, or the format ends in a single percent sign, after which the loop steps
  over the terminator and reads on.
\<close>

datatype karg = ArgL u64 | ArgS "string option"

fun kprintf :: "string \<Rightarrow> karg list \<Rightarrow> uart \<Rightarrow> uart option" where
  "kprintf [] args u = Some u"
| "kprintf (c # fmt) args u =
     (if c = NUL then Some u
      else if c \<noteq> CHR ''%'' then kprintf fmt args (uart_putc c (if c = CHR 0x0A then uart_putc CHR 0x0D u else u))
      else case fmt of
        [] \<Rightarrow> None
      | d # fmt' \<Rightarrow>
          if d = NUL then None
          else if d = CHR ''d'' then (case args of ArgL v # as \<Rightarrow> kprintf fmt' as (print_signed v u) | _ \<Rightarrow> None)
          else if d = CHR ''u'' then (case args of ArgL v # as \<Rightarrow> kprintf fmt' as (print_unsigned v u) | _ \<Rightarrow> None)
          else if d = CHR ''x'' \<or> d = CHR ''p''
            then (case args of ArgL v # as \<Rightarrow> kprintf fmt' as (print_hex v u) | _ \<Rightarrow> None)
          else if d = CHR ''s''
            then (case args of
                    ArgS s # as \<Rightarrow> kprintf fmt' as (uart_puts (case s of None \<Rightarrow> ''(null)'' | Some t \<Rightarrow> t) u)
                  | _ \<Rightarrow> None)
          else if d = CHR ''c''
            then (case args of ArgL v # as \<Rightarrow> kprintf fmt' as (uart_putc (char_of (unat (v AND 0xFF))) u) | _ \<Rightarrow> None)
          else if d = CHR ''%'' then kprintf fmt' args (uart_putc CHR ''%'' u)
          else kprintf fmt' args (uart_putc d (uart_putc CHR ''%'' u)))"

subsection \<open>Input\<close>

text \<open>
  The line editor. \<open>n\<close> is \<open>bufL - 1\<close>; the list of received characters drives the recursion,
  and \<open>None\<close> is waiting for more input for ever.
\<close>

fun uart_gets_loop :: "nat \<Rightarrow> string \<Rightarrow> string \<Rightarrow> uart \<Rightarrow> (string \<times> uart) option" where
  "uart_gets_loop n buf [] u = (if length buf < n then None else Some (buf, u\<lparr>rxfifo := []\<rparr>))"
| "uart_gets_loop n buf (c # rx) u =
     (if \<not> length buf < n then Some (buf, u\<lparr>rxfifo := c # rx\<rparr>)
      else if c = CHR 0x08 \<or> c = CHR 0x7F
        then (if buf \<noteq> []
              then uart_gets_loop n (butlast buf) rx (uart_putc CHR 0x08 (uart_putc CHR '' '' (uart_putc CHR 0x08 u)))
              else uart_gets_loop n buf rx u)
      else if c = CHR 0x0A \<or> c = CHR 0x0D then Some (buf, u\<lparr>rxfifo := rx\<rparr>)
      else if of_char c < (32::nat) \<or> of_char c > (127::nat) then uart_gets_loop n buf rx u
      else uart_gets_loop n (buf @ [c]) rx (uart_putc c u))"

definition uart_gets :: "int \<Rightarrow> uart \<Rightarrow> (string \<times> uart) option" where
  "uart_gets bufL u = uart_gets_loop (nat (bufL - 1)) [] (rxfifo u) u"

definition uart_irq_enable :: "uart \<Rightarrow> uart" where
  "uart_irq_enable u = set_reg UART0_IMSC (regs u UART0_IMSC OR push_bit 4 1) u"

text \<open>One turn of the interrupt handler's loop, then the loop until the FIFO is empty.\<close>

definition uart_rx_push :: "char \<Rightarrow> uart \<Rightarrow> uart" where
  "uart_rx_push c u =
     (let nx = (uart_rx_head u + 1) mod UART_BUF_SIZE
      in if nx \<noteq> uart_rx_tail u
         then u\<lparr>uart_rx_buf := (uart_rx_buf u)[uart_rx_head u := c], uart_rx_head := nx\<rparr> else u)"

fun drain_fifo :: "string \<Rightarrow> uart \<Rightarrow> uart" where
  "drain_fifo [] u = u\<lparr>rxfifo := []\<rparr>"
| "drain_fifo (c # cs) u = drain_fifo cs (uart_rx_push c u)"

definition uart_irq_handler :: "uart \<Rightarrow> uart" where
  "uart_irq_handler u = set_reg UART0_ICR (push_bit 4 1) (drain_fifo (rxfifo u) u)"

definition uart_irq_getc :: "uart \<Rightarrow> int \<times> uart" where
  "uart_irq_getc u =
     (if uart_rx_head u = uart_rx_tail u then (- 1, u)
      else (of_char (uart_rx_buf u ! uart_rx_tail u), u\<lparr>uart_rx_tail := (uart_rx_tail u + 1) mod UART_BUF_SIZE\<rparr>))"

definition uart_poll_getc :: "uart \<Rightarrow> int \<times> uart" where
  "uart_poll_getc u = (case rxfifo u of [] \<Rightarrow> (- 1, u) | c # cs \<Rightarrow> (of_char c, u\<lparr>rxfifo := cs\<rparr>))"

subsection \<open>Everything printed also reaches the hook\<close>

lemma uart_putc_fields [simp]:
  "tx (uart_putc c u) = tx u @ [c]" "hook (uart_putc c u) = hook u" "rxfifo (uart_putc c u) = rxfifo u"
  "uart_rx_buf (uart_putc c u) = uart_rx_buf u" "uart_rx_head (uart_putc c u) = uart_rx_head u"
  "uart_rx_tail (uart_putc c u) = uart_rx_tail u" "regs (uart_putc c u) = regs u"
  "hook_calls (uart_putc c u) = (if hook u \<noteq> 0 then hook_calls u @ [(hook u, c)] else hook_calls u)"
  by (simp_all add: uart_putc_def Let_def)

text \<open>Two states that agree but for more output, with the output hook seeing the same characters.\<close>

definition emits :: "uart \<Rightarrow> string \<Rightarrow> uart \<Rightarrow> bool" where
  "emits u s u' \<longleftrightarrow> tx u' = tx u @ s \<and> hook u' = hook u \<and>
     hook_calls u' = hook_calls u @ (if hook u \<noteq> 0 then map (\<lambda>c. (hook u, c)) s else [])"

lemma emits_refl [simp]: "emits u [] u"
  by (simp add: emits_def)

lemma emits_putc: "emits u s u' \<Longrightarrow> emits u (s @ [c]) (uart_putc c u')"
  by (auto simp: emits_def)

lemma emits_trans: "emits u s u' \<Longrightarrow> emits u' t u'' \<Longrightarrow> emits u (s @ t) u''"
  by (auto simp: emits_def)

lemma emits_putc1: "emits u [c] (uart_putc c u)"
  by (auto simp: emits_def)

lemma emits_put_string: "emits u s (put_string s u)"
  unfolding put_string_def
proof (induction s arbitrary: u)
  case (Cons c s)
  then show ?case using emits_trans [OF emits_putc1] by fastforce
qed simp

subsection \<open>Hexadecimal output\<close>

text \<open>The digits the loop prints.\<close>

fun hex_text :: "u64 \<Rightarrow> nat \<Rightarrow> bool \<Rightarrow> string" where
  "hex_text val 0 started = []"
| "hex_text val (Suc k) started =
     (let nibble = unat (drop_bit (4 * k) val AND 0xF)
      in if nibble \<noteq> 0 \<or> started \<or> k = 0 then nibble_char nibble # hex_text val k True else hex_text val k started)"

lemma puthex_loop_emits: "emits u s u' \<Longrightarrow> emits u (s @ hex_text val k st) (puthex_loop val k st u')"
proof (induction k arbitrary: s u' st)
  case (Suc k)
  define nb where "nb = unat (drop_bit (4 * k) val AND 0xF)"
  show ?case
  proof (cases "nb \<noteq> 0 \<or> st \<or> k = 0")
    case True
    then show ?thesis using Suc.IH [OF emits_putc [OF Suc.prems], of "nibble_char nb" True]
      by (simp add: Let_def flip: nb_def)
  next
    case False
    then show ?thesis using Suc.IH [OF Suc.prems, of st] by (simp add: Let_def flip: nb_def)
  qed
qed simp

lemma hex_digit_nibble: "n < 16 \<Longrightarrow> hex_digit (nibble_char n) = Some n"
  by (auto simp: hex_digit_def nibble_char_def less_eq_char_def)

lemma nibble_less: "unat (w AND 0xF :: u64) < 16"
proof -
  have "w AND 0xF \<le> 0xF" by (rule word_and_le1)
  then show ?thesis by (simp add: word_le_nat_alt)
qed

lemma nibble_join:
  fixes val acc :: u64
  shows "push_bit (4 * k) (push_bit 4 acc OR (drop_bit (4 * k) val AND 0xF)) OR take_bit (4 * k) val =
    push_bit (4 * Suc k) acc OR take_bit (4 * Suc k) val"
proof -
  have m: "(0xF :: u64) = mask 4" by (simp add: mask_eq_exp_minus_1)
  show ?thesis unfolding m
    by (rule bit_word_eqI) (auto simp: bit_simps ac_simps)
qed

lemma hex_text_value: "hextoul_loop acc (hex_text val k True) = push_bit (4 * k) acc OR take_bit (4 * k) val"
proof (induction k arbitrary: acc)
  case (Suc k)
  then show ?case using nibble_join [of k acc val]
    by (simp add: Let_def hex_digit_nibble nibble_less del: mult_Suc_right)
qed simp

lemma hex_text_value_0: "0 < k \<Longrightarrow> hextoul_loop 0 (hex_text val k False) = take_bit (4 * k) val"
proof (induction k)
  case (Suc k)
  define nb where "nb = unat (drop_bit (4 * k) val AND 0xF)"
  note j = nibble_join [of k 0 val]
  show ?case
  proof (cases "nb \<noteq> 0 \<or> k = 0")
    case True
    then show ?thesis using j hex_text_value [of "of_nat nb" val k]
      by (simp add: Let_def hex_digit_nibble nibble_less nb_def del: mult_Suc_right)
  next
    case False
    then have "drop_bit (4 * k) val AND 0xF = 0" by (simp add: nb_def unat_eq_0)
    then show ?thesis using False j Suc.IH by (simp add: Let_def nb_def del: mult_Suc_right)
  qed
qed simp

text \<open>
  C30: hexadecimal output loses nothing. \<open>uart_puthex\<close> prints \<open>0x\<close> and digits that \<open>k_hextoul\<close>
  parses back to the same 64-bit value, and the output hook sees exactly the printed characters.
\<close>

theorem uart_puthex_roundtrip:
  "\<exists>s. emits u s (uart_puthex val u) \<and> k_hextoul s = val"
proof -
  let ?s = "[CHR ''0'', CHR ''x''] @ hex_text val 16 False"
  have "emits u [CHR ''0'', CHR ''x''] (uart_putc CHR ''x'' (uart_putc CHR ''0'' u))"
    using emits_putc [OF emits_putc1, of u "CHR ''0''" "CHR ''x''"] by simp
  then have "emits u ?s (uart_puthex val u)"
    unfolding uart_puthex_def by (rule puthex_loop_emits)
  moreover have "k_hextoul ?s = val"
    using hex_text_value_0 [of 16 val] by (simp add: k_hextoul_def take_bit_word_eq_self)
  ultimately show ?thesis by blast
qed

subsection \<open>Decimal output\<close>

definition dec_value :: "string \<Rightarrow> nat" where
  "dec_value s = foldl (\<lambda>a c. a * 10 + (of_char c - 48)) 0 s"

lemma dec_digits_value: "dec_value (rev (dec_digits val)) = unat val"
proof (induction val rule: dec_digits.induct)
  case (1 val)
  show ?case
  proof (cases "val = 0")
    case True
    then show ?thesis by (subst dec_digits.simps) (simp add: dec_value_def)
  next
    case False
    then have pos: "0 < val" by (simp add: word_neq_0_conv)
    have m: "unat (val mod 10) < 10" by (simp add: unat_mod)
    then have "of_char (char_of (48 + unat (val mod 10)) :: char) = 48 + unat (val mod 10)" by simp
    moreover have "dec_value (rev (dec_digits (val div 10))) = unat val div 10"
      using 1 pos by (simp add: unat_div)
    ultimately show ?thesis using pos
      by (subst dec_digits.simps) (simp add: dec_value_def unat_mod)
  qed
qed

lemma dec_digits_length: "unat val < 10 ^ k \<Longrightarrow> length (dec_digits val) \<le> k"
proof (induction k arbitrary: val)
  case 0
  then have "val = 0" by (simp add: unat_eq_0)
  then show ?case by (subst dec_digits.simps) simp
next
  case (Suc k)
  then have "unat (val div 10) < 10 ^ k" by (simp add: unat_div less_mult_imp_div_less mult.commute)
  then show ?case using Suc.IH by (subst dec_digits.simps) auto
qed

text \<open>
  Decimal output is exact and stays in its buffer. \<open>print_unsigned\<close> emits the decimal digits
  of the 64-bit value, most significant first, and its 20-byte digit buffer is never overrun.
\<close>

theorem print_unsigned_exact:
  "\<exists>s. emits u s (print_unsigned val u) \<and> dec_value s = unat val \<and> length (dec_digits val) \<le> 20"
proof (cases "val = 0")
  case True
  then show ?thesis using emits_putc1 [of u "CHR ''0''"]
    by (intro exI [of _ "''0''"]) (simp add: print_unsigned_def dec_value_def dec_digits.simps)
next
  case False
  have "unat val < 2 ^ 64" using unsigned_less [of val, where 'a = nat] by simp
  also have "(2::nat) ^ 64 < 10 ^ 20" by simp
  finally have "length (dec_digits val) \<le> 20" by (rule dec_digits_length)
  then show ?thesis using False dec_digits_value [of val] emits_put_string [of u "rev (dec_digits val)"]
    by (intro exI [of _ "rev (dec_digits val)"]) (simp add: print_unsigned_def)
qed

text \<open>A format that ends in a percent sign makes \<open>kprintf\<close> step over the terminator.\<close>

lemma kprintf_trailing_percent: "kprintf ''100%'' args u = None"
  by simp

subsection \<open>The receive ring\<close>

definition uart_items :: "uart \<Rightarrow> string" where
  "uart_items u = ring_items UART_BUF_SIZE (uart_rx_buf u) (uart_rx_head u) (uart_rx_tail u)"

definition uart_ok :: "uart \<Rightarrow> bool" where
  "uart_ok u \<longleftrightarrow> ring_ok UART_BUF_SIZE (uart_rx_buf u) (uart_rx_head u) (uart_rx_tail u)"

definition rx_push_opt :: "char \<Rightarrow> uart \<Rightarrow> uart option" where
  "rx_push_opt c u = (if (uart_rx_head u + 1) mod UART_BUF_SIZE = uart_rx_tail u then None else Some (uart_rx_push c u))"

definition rx_pop_opt :: "uart \<Rightarrow> (char \<times> uart) option" where
  "rx_pop_opt u = (if uart_rx_head u = uart_rx_tail u then None
     else Some (uart_rx_buf u ! uart_rx_tail u, snd (uart_irq_getc u)))"

interpretation rx: bounded_fifo rx_push_opt rx_pop_opt uart_items uart_ok "UART_BUF_SIZE - 1"
proof (unfold_locales, goal_cases)
  case (1 q x)
  then show ?case
    using ring_items_full_iff [of UART_BUF_SIZE "uart_rx_buf q" "uart_rx_head q" "uart_rx_tail q"]
    by (simp add: uart_ok_def rx_push_opt_def uart_items_def)
next
  case (2 q x q')
  then show ?case
    using ring_push_items [of UART_BUF_SIZE "uart_rx_buf q" "uart_rx_head q" "uart_rx_tail q" x]
    by (auto simp: uart_ok_def rx_push_opt_def uart_rx_push_def uart_items_def Let_def split: if_splits)
next
  case (3 q)
  then show ?case
    using ring_items_empty_iff [of UART_BUF_SIZE "uart_rx_buf q" "uart_rx_head q" "uart_rx_tail q"]
    by (auto simp: uart_ok_def rx_pop_opt_def uart_items_def)
next
  case (4 q x q')
  then show ?case
    using ring_pop_items [of UART_BUF_SIZE "uart_rx_buf q" "uart_rx_head q" "uart_rx_tail q"]
    by (auto simp: uart_ok_def rx_pop_opt_def uart_irq_getc_def uart_items_def split: if_splits)
next
  case (5 q)
  then show ?case
    using ring_items_bound [of UART_BUF_SIZE "uart_rx_buf q" "uart_rx_head q" "uart_rx_tail q"]
    by (auto simp: uart_ok_def uart_items_def)
qed

text \<open>A full ring drops the character, otherwise it is queued.\<close>

lemma uart_rx_push_items:
  assumes "uart_ok u"
  shows "uart_ok (uart_rx_push c u)"
    "uart_items (uart_rx_push c u) = (if length (uart_items u) = 63 then uart_items u else uart_items u @ [c])"
  using rx.push_full [OF assms, of c] rx.push_some [OF assms, of c] assms
  by (auto simp: rx_push_opt_def uart_rx_push_def Let_def split: if_splits)

lemma drain_fifo_items:
  "uart_ok u \<Longrightarrow> uart_ok (drain_fifo cs u) \<and>
   uart_items (drain_fifo cs u) = uart_items u @ take (63 - length (uart_items u)) cs \<and> rxfifo (drain_fifo cs u) = []"
proof (induction cs arbitrary: u)
  case Nil
  then show ?case by (simp add: uart_ok_def uart_items_def)
next
  case (Cons c cs)
  have b: "length (uart_items u) \<le> 63" using rx.bound [OF Cons.prems] by simp
  show ?case
  proof (cases "length (uart_items u) = 63")
    case True
    then show ?thesis using Cons.IH [OF uart_rx_push_items(1) [OF Cons.prems]] uart_rx_push_items(2) [OF Cons.prems] by simp
  next
    case False
    then have "63 - length (uart_items u) = Suc (63 - Suc (length (uart_items u)))" using b by simp
    then show ?thesis using False Cons.IH [OF uart_rx_push_items(1) [OF Cons.prems, of c]] uart_rx_push_items(2) [OF Cons.prems]
      by simp
  qed
qed

fun getc_n :: "nat \<Rightarrow> uart \<Rightarrow> int list \<times> uart" where
  "getc_n 0 u = ([], u)"
| "getc_n (Suc n) u = (let (c, u1) = uart_irq_getc u; (cs, u2) = getc_n n u1 in (c # cs, u2))"

lemma uart_irq_getc_items:
  assumes "uart_ok u"
  shows "uart_items u = [] \<Longrightarrow> uart_irq_getc u = (- 1, u)"
    "uart_items u = c # cs \<Longrightarrow> \<exists>u'. uart_irq_getc u = (of_char c, u') \<and> uart_ok u' \<and> uart_items u' = cs"
proof -
  show "uart_items u = [] \<Longrightarrow> uart_irq_getc u = (- 1, u)"
    using rx.pop_empty [OF assms] by (auto simp: rx_pop_opt_def uart_irq_getc_def split: if_splits)
  assume c: "uart_items u = c # cs"
  then obtain x u' where p: "rx_pop_opt u = Some (x, u')" using rx.pop_empty [OF assms] by (cases "rx_pop_opt u") auto
  from rx.pop_some [OF assms p] c p show "\<exists>u'. uart_irq_getc u = (of_char c, u') \<and> uart_ok u' \<and> uart_items u' = cs"
    by (auto simp: rx_pop_opt_def uart_irq_getc_def split: if_splits)
qed

lemma getc_n_items:
  "uart_ok u \<Longrightarrow> fst (getc_n (length (uart_items u) + k) u) = map of_char (uart_items u) @ replicate k (- 1)"
proof (induction "uart_items u" arbitrary: u)
  case Nil
  have "fst (getc_n k u) = replicate k (- 1)"
    using uart_irq_getc_items(1) [OF Nil(2)] Nil(1) by (induction k) (simp_all add: Let_def case_prod_beta)
  then show ?case using Nil(1) by simp
next
  case (Cons c cs)
  from uart_irq_getc_items(2) [OF Cons.prems Cons.hyps(2) [symmetric]] obtain u'
    where u': "uart_irq_getc u = (of_char c, u')" "uart_ok u'" "uart_items u' = cs" by blast
  have "fst (getc_n (length cs + k) u') = map of_char cs @ replicate k (- 1)"
    using Cons.hyps(1) [of u'] u' by simp
  then show ?case using u'(1) by (simp add: Let_def case_prod_beta flip: Cons.hyps(2))
qed

text \<open>
  Interrupt-driven input keeps the order of arrival. After the handler has run, successive
  calls of \<open>uart_irq_getc\<close> return the characters that were buffered before, then the newly
  arrived ones as far as the 63 places of the ring reach, then \<open>-1\<close>.
\<close>

theorem uart_rx_order:
  assumes "uart_ok u"
  shows "fst (getc_n (length (uart_items (uart_irq_handler u)) + k) (uart_irq_handler u)) =
    map of_char (uart_items u @ take (63 - length (uart_items u)) (rxfifo u)) @ replicate k (- 1)"
proof -
  note d = drain_fifo_items [OF assms, of "rxfifo u"]
  have "uart_ok (uart_irq_handler u)"
    "uart_items (uart_irq_handler u) = uart_items u @ take (63 - length (uart_items u)) (rxfifo u)"
    using d by (simp_all add: uart_irq_handler_def set_reg_def uart_ok_def uart_items_def)
  then show ?thesis using getc_n_items by metis
qed

definition uart0 :: uart where
  "uart0 = \<lparr>tx = [], hook = 0, hook_calls = [], rxfifo = ''hi'', uart_rx_buf = replicate 64 NUL,
     uart_rx_head = 0, uart_rx_tail = 0, regs = (\<lambda>_. 0)\<rparr>"

theorem uart_rx_order_witness:
  "fst (getc_n (length (uart_items (uart_irq_handler uart0)) + 1) (uart_irq_handler uart0)) = [104, 105, - 1]"
proof -
  have e: "uart_items uart0 = []" by (simp add: uart_items_def uart0_def ring_items_def ring_count_def)
  have "uart_ok uart0" by (simp add: uart_ok_def uart0_def ring_ok_def)
  from uart_rx_order [OF this, of 1] show ?thesis by (simp add: e) (simp add: uart0_def)
qed

subsection \<open>Line input\<close>

definition printable :: "char \<Rightarrow> bool" where
  "printable c \<longleftrightarrow> 32 \<le> (of_char c :: nat) \<and> (of_char c :: nat) < 127"

lemma printable_kept:
  assumes "\<not> (c = CHR 0x08 \<or> c = CHR 0x7F)" "\<not> (of_char c < (32::nat) \<or> of_char c > (127::nat))"
  shows "printable c"
proof -
  have "(of_char c :: nat) \<noteq> of_char (CHR 0x7F)" using assms(1) by (metis of_char_eq_iff)
  then show ?thesis using assms(2) by (simp add: printable_def)
qed

lemma uart_gets_loop_ok:
  assumes "uart_gets_loop n buf rx u = Some (s, u')" "length buf \<le> n" "list_all printable buf"
  shows "length s \<le> n \<and> list_all printable s"
  using assms
proof (induction rx arbitrary: buf u)
  case (Cons c rx)
  have b: "list_all printable (butlast buf)" "length (butlast buf) \<le> n"
    using Cons.prems(2,3) by (auto simp: list_all_iff dest: in_set_butlastD)
  consider "\<not> length buf < n" | "length buf < n" "c = CHR 0x08 \<or> c = CHR 0x7F" "buf \<noteq> []"
    | "length buf < n" "c = CHR 0x08 \<or> c = CHR 0x7F" "buf = []"
    | "length buf < n" "c = CHR 0x0A \<or> c = CHR 0x0D"
    | "length buf < n" "\<not> (c = CHR 0x08 \<or> c = CHR 0x7F)" "\<not> (c = CHR 0x0A \<or> c = CHR 0x0D)"
        "of_char c < (32::nat) \<or> of_char c > (127::nat)"
    | "length buf < n" "\<not> (c = CHR 0x08 \<or> c = CHR 0x7F)" "\<not> (c = CHR 0x0A \<or> c = CHR 0x0D)"
        "\<not> (of_char c < (32::nat) \<or> of_char c > (127::nat))" by blast
  then show ?case
  proof cases
    case 1
    then show ?thesis using Cons.prems by simp
  next
    case 2
    then show ?thesis using Cons.prems(1) by (intro Cons.IH [OF _ b(2,1)]) auto
  next
    case 3
    then show ?thesis using Cons.prems by (intro Cons.IH) auto
  next
    case 4
    then show ?thesis using Cons.prems by auto
  next
    case 5
    then show ?thesis using Cons.prems by (intro Cons.IH) auto
  next
    case 6
    then show ?thesis using Cons.prems printable_kept [OF 6(2,4)] by (intro Cons.IH [of "buf @ [c]"]) auto
  qed
qed (simp split: if_splits)

text \<open>
  C29: line input never overruns the caller's buffer. What \<open>uart_gets\<close> leaves has at most
  \<open>bufL - 1\<close> characters before the terminator, all of them printable.
\<close>

theorem uart_gets_bounded:
  assumes "uart_gets bufL u = Some (s, u')" "1 \<le> bufL"
  shows "int (length s) \<le> bufL - 1 \<and> list_all printable s"
  using uart_gets_loop_ok [of "nat (bufL - 1)" "[]" "rxfifo u" u s u'] assms by (auto simp: uart_gets_def)

theorem uart_gets_bounded_witness:
  "\<exists>s u'. uart_gets 3 uart0 = Some (s, u') \<and> int (length s) \<le> 2"
proof -
  obtain s u' where g: "uart_gets 3 uart0 = Some (s, u')" by (simp add: uart_gets_def uart0_def)
  from uart_gets_bounded [OF g] show ?thesis using g by simp
qed

end
