(* ===== verification/User.thy ===== *)
theory User
  imports Sched Vfs Uart
begin

text \<open>
  The whole machine state that the program loader and the system calls work on, and the
  creation of EL1 user tasks (\<^verbatim>\<open>src/user.c\<close>). The tables of the file system are kept beside
  the kernel state; both use the one heap, which is part of the kernel state.
\<close>

unbundle bit_operations_syntax

subsection \<open>State\<close>

record user_ctx =
  ufn :: u64
  usp :: u64

record sys =
  kern :: kernel
  vnodes :: "vfs_inode_t list"
  vfds :: "vfs_fd_t list"
  con :: uart
  tmr :: timer
  user_ctxs :: "user_ctx list"

text \<open>
  What the code takes from its environment: addresses of two functions, the clock, the
  platform switches \<open>PLATFORM_INIT_MMU\<close> and \<open>PLATFORM_VIRT\<close>, and the bytes that hold the kernel's own
  variables and the headers of its heap blocks. Those are records of the state here, not byte
  memory; a system call that would store into them has no result in the model.
\<close>

record platform =
  tramp_addr :: u64
  wrapper_addr :: u64
  clock_hz :: u64
  init_mmu :: bool
  virt :: bool
  kernel_data :: "sys \<Rightarrow> u64 \<Rightarrow> bool"

definition vfs_of :: "sys \<Rightarrow> vfs" where
  "vfs_of s = \<lparr>inodes = vnodes s, fds = vfds s, vheap = kheap_of (kern s)\<rparr>"

definition put_vfs :: "vfs \<Rightarrow> sys \<Rightarrow> sys" where
  "put_vfs v s = s\<lparr>vnodes := inodes v, vfds := fds v, kern := set_heap (vheap v) (kern s)\<rparr>"

definition sys_mem :: "sys \<Rightarrow> mem" where
  "sys_mem s = mem (kheap_of (kern s))"

definition put_mem :: "mem \<Rightarrow> sys \<Rightarrow> sys" where
  "put_mem m s = s\<lparr>kern := set_heap ((kheap_of (kern s))\<lparr>mem := m\<rparr>) (kern s)\<rparr>"

definition say :: "string \<Rightarrow> sys \<Rightarrow> sys" where
  "say msg s = s\<lparr>con := uart_puts msg (con s)\<rparr>"

definition clear_of_kernel :: "platform \<Rightarrow> sys \<Rightarrow> u64 \<Rightarrow> nat \<Rightarrow> bool" where
  "clear_of_kernel pf s buf n \<longleftrightarrow> list_all (\<lambda>i. \<not> kernel_data pf s (buf + of_nat i)) [0..<n]"

definition with_kern :: "(kernel \<Rightarrow> kernel) \<Rightarrow> sys \<Rightarrow> sys" where
  "with_kern f s = s\<lparr>kern := f (kern s)\<rparr>"

subsection \<open>Creating a user task\<close>

text \<open>
  The loop that removes every other task's EL1 stack from the new table and the new stack from
  every other table.
\<close>

fun isolate_tasks :: "addr \<Rightarrow> addr \<Rightarrow> nat \<Rightarrow> nat list \<Rightarrow> kernel \<Rightarrow> kernel option" where
  "isolate_tasks pt es me [] k = Some k"
| "isolate_tasks pt es me (i # is) k =
     (if el1_stack (tasks k ! i) \<noteq> 0 \<and> i \<noteq> me
      then do {
        m1 \<leftarrow> proc_unmap_range pt (el1_stack (tasks k ! i)) 4096 (km k);
        m2 \<leftarrow> (if tproc (tasks k ! i) \<noteq> 0 then proc_unmap_range (tproc (tasks k ! i)) es 4096 m1 else Some m1);
        isolate_tasks pt es me is (k\<lparr>km := m2\<rparr>)
      }
      else isolate_tasks pt es me is k)"

definition user_task_create :: "platform \<Rightarrow> u64 \<Rightarrow> u64 \<Rightarrow> string option \<Rightarrow> sys \<Rightarrow> (int \<times> sys) option" where
  "user_task_create pf now fn nm s = do {
     (es, h) \<leftarrow> kmalloc_aligned 4096 4096 (kheap_of (kern s));
     let s1 = with_kern (set_heap h) s
     in if es = 0 then Some (- 1, s1)
        else do {
          (r, k2) \<leftarrow> task_create_named (tramp_addr pf) (wrapper_addr pf) nm (kern s1);
          if r < 0 then Some (- 1, s1\<lparr>kern := set_heap (kfree es (kheap_of k2)) k2\<rparr>)
          else if \<not> init_mmu pf
          then Some (r, s1\<lparr>user_ctxs := (user_ctxs s1)[nat r := \<lparr>ufn = fn, usp = es + 4096\<rparr>],
                 kern := upd_task (nat r) (\<lambda>t. t\<lparr>el1_stack := es, tproc := 0, ttbr0_el1 := 0\<rparr>) k2\<rparr>)
          else do {
            (pt, m3) \<leftarrow> proc_create (km k2);
            let k3 = k2\<lparr>km := m3\<rparr>
            in if pt = 0
               then Some (- 1, s1\<lparr>kern := snd (task_kill (tramp_addr pf) now r (set_heap (kfree es (kheap_of k3)) k3))\<rparr>)
               else do {
                 k4 \<leftarrow> isolate_tasks pt es (nat r) [0..<num_tasks k3] k3;
                 Some (r, s1\<lparr>user_ctxs := (user_ctxs s1)[nat r := \<lparr>ufn = fn, usp = es + 4096\<rparr>],
                   kern := upd_task (nat r) (\<lambda>t. t\<lparr>el1_stack := es, tproc := pt,
                     ttbr0_el1 := proc_ttbr0 pt (km k4)\<rparr>) k4\<rparr>)
               }
          }
        }
   }"

subsection \<open>Entering EL1\<close>

text \<open>The system registers that \<open>user_enter_el1\<close> writes before \<open>eret\<close>.\<close>

record el1_regs =
  hcr_el2 :: u64
  spsr_el2 :: u64
  elr_el2 :: u64
  sp_el1 :: u64
  vbar_el1 :: u64
  mair_el1 :: u64
  tcr_el1 :: u64
  ttbr0_reg :: u64
  sctlr_el1 :: u64

definition user_enter_el1 :: "u64 \<Rightarrow> task \<Rightarrow> u64 \<Rightarrow> u64 \<Rightarrow> el1_regs \<Rightarrow> el1_regs" where
  "user_enter_el1 vectors cur fn user_sp r =
     (let r1 = r\<lparr>hcr_el2 := hcr_el2 r OR push_bit 31 1,
                 spsr_el2 := 5 OR push_bit 6 1 OR push_bit 8 1 OR push_bit 9 1,
                 elr_el2 := fn, sp_el1 := user_sp, vbar_el1 := vectors\<rparr>
      in if ttbr0_el1 cur \<noteq> 0
         then r1\<lparr>mair_el1 := 0xFF OR push_bit 8 0,
                 tcr_el1 := 32 OR push_bit 8 1 OR push_bit 10 1 OR push_bit 12 3 OR push_bit 14 0 OR
                            push_bit 16 32 OR push_bit 23 1,
                 ttbr0_reg := ttbr0_el1 cur,
                 sctlr_el1 := 1 OR push_bit 2 1 OR push_bit 12 1\<rparr>
         else r1\<lparr>sctlr_el1 := 0\<rparr>)"

definition user_task_wrapper :: "platform \<Rightarrow> u64 \<Rightarrow> sys \<Rightarrow> el1_regs \<Rightarrow> sys \<times> el1_regs" where
  "user_task_wrapper pf vectors s r =
     (let t = task_current (kern s);
          c = user_ctxs s ! nat (tid t);
          s1 = (if \<not> init_mmu pf then say (''[user] entering EL1 task'' @ [CHR 0x0A]) s else s)
      in (s1, user_enter_el1 vectors t (ufn c) (usp c) r))"

end
