(* ===== verification/Elf.thy ===== *)
theory Elf
  imports User
begin

text \<open>
  The program loader (\<^verbatim>\<open>src/elf.c\<close>). The image is a range of byte memory whose header and
  program headers are read, little-endian and packed, from the same memory the segments are
  copied to; the header is read again on every turn of the loop, as the code does.
\<close>

unbundle bit_operations_syntax

subsection \<open>File format\<close>

abbreviation ELF_MAGIC :: u32 where "ELF_MAGIC \<equiv> 0x464C457F"
abbreviation ELFCLASS64 :: u8 where "ELFCLASS64 \<equiv> 2"
abbreviation ELFDATA2LSB :: u8 where "ELFDATA2LSB \<equiv> 1"
abbreviation ET_EXEC :: u16 where "ET_EXEC \<equiv> 2"
abbreviation EM_AARCH64 :: u16 where "EM_AARCH64 \<equiv> 0xB7"
abbreviation PT_LOAD :: u32 where "PT_LOAD \<equiv> 1"

record elf64_hdr_t =
  e_magic :: u32
  e_class :: u8
  e_data :: u8
  e_type :: u16
  e_machine :: u16
  e_entry :: u64
  e_phoff :: u64
  e_phentsize :: u16
  e_phnum :: u16

record elf64_phdr_t =
  p_type :: u32
  p_offset :: u64
  p_vaddr :: u64
  p_filesz :: u64
  p_memsz :: u64

definition read_hdr :: "mem \<Rightarrow> addr \<Rightarrow> elf64_hdr_t" where
  "read_hdr m b = \<lparr>e_magic = ld32 m b, e_class = m (b + 4), e_data = m (b + 5), e_type = ld16 m (b + 16),
     e_machine = ld16 m (b + 18), e_entry = ld64 m (b + 24), e_phoff = ld64 m (b + 32),
     e_phentsize = ld16 m (b + 54), e_phnum = ld16 m (b + 56)\<rparr>"

definition read_phdr :: "mem \<Rightarrow> addr \<Rightarrow> elf64_phdr_t" where
  "read_phdr m p = \<lparr>p_type = ld32 m p, p_offset = ld64 m (p + 8), p_vaddr = ld64 m (p + 16),
     p_filesz = ld64 m (p + 32), p_memsz = ld64 m (p + 40)\<rparr>"

subsection \<open>The user window\<close>

definition USER_LOAD_BASE :: "bool \<Rightarrow> u64" where
  "USER_LOAD_BASE vp = (if vp then 0x40200000 else 0x02000000)"

definition USER_LOAD_LIMIT :: "bool \<Rightarrow> u64" where
  "USER_LOAD_LIMIT vp = (if vp then 0x41000000 else 0x04000000)"

definition range_fits :: "u64 \<Rightarrow> u64 \<Rightarrow> u64 \<Rightarrow> bool" where
  "range_fits start len limit \<longleftrightarrow> start \<le> limit \<and> len \<le> limit - start"

definition user_load_range_ok :: "bool \<Rightarrow> u64 \<Rightarrow> u64 \<Rightarrow> bool" where
  "user_load_range_ok vp start len \<longleftrightarrow>
     start \<ge> USER_LOAD_BASE vp \<and> range_fits start len (USER_LOAD_LIMIT vp)"

subsection \<open>Loading\<close>

text \<open>
  The outcome of one program header: skipped, refused with a message, or loaded. The header is a
  pointer into the image, so the tests after the copy read it again: \<open>copy\<close> and \<open>dst\<close> are locals,
  \<open>p_filesz\<close> and \<open>p_memsz\<close> are whatever the memory holds by then.
\<close>

datatype seg_result = Skip | Refuse string mem | Loaded bool mem

definition elf_segment :: "bool \<Rightarrow> addr \<Rightarrow> u32 \<Rightarrow> u64 \<Rightarrow> addr \<Rightarrow> mem \<Rightarrow> seg_result" where
  "elf_segment vp buf sz entry php m =
     (let ph = read_phdr m php in
      if p_type ph \<noteq> PT_LOAD then Skip
      else if p_memsz ph = 0 then Skip
      else if p_filesz ph > p_memsz ph then Refuse ''[elf] PT_LOAD filesz exceeds memsz'' m
      else if \<not> user_load_range_ok vp (p_vaddr ph) (p_memsz ph)
        then Refuse ''[elf] PT_LOAD lies outside user window'' m
      else
        let entry_in = (entry \<ge> p_vaddr ph \<and> entry - p_vaddr ph < p_memsz ph); dst = p_vaddr ph
        in if p_offset ph \<ge> ucast sz then Refuse ''[elf] segment lies beyond end of file'' m
           else
             let copy = (if p_offset ph + p_filesz ph > ucast sz then ucast sz - p_offset ph else p_filesz ph);
                 m1 = (if copy > 0 then memcpy m dst (buf + p_offset ph) copy else m);
                 ph1 = read_phdr m1 php
             in if copy \<noteq> p_filesz ph1 then Refuse ''[elf] truncated PT_LOAD segment'' m1
                else Loaded entry_in
                  (if p_memsz ph1 > p_filesz ph1
                   then memset m1 (dst + p_filesz ph1) 0 (p_memsz ph1 - p_filesz ph1) else m1))"

function elf_segments :: "bool \<Rightarrow> addr \<Rightarrow> u32 \<Rightarrow> nat \<Rightarrow> bool \<Rightarrow> bool \<Rightarrow> mem \<Rightarrow> string \<times> mem + bool \<times> bool \<times> mem" where
  "elf_segments vp buf sz i saw ent m =
     (let h = read_hdr m buf
      in if i < unat (e_phnum h)
         then (case elf_segment vp buf sz (e_entry h)
                     (buf + (e_phoff h + of_nat i * ucast (e_phentsize h))) m of
                 Skip \<Rightarrow> elf_segments vp buf sz (i + 1) saw ent m
               | Refuse msg m' \<Rightarrow> Inl (msg, m')
               | Loaded e m' \<Rightarrow> elf_segments vp buf sz (i + 1) True (ent \<or> e) m')
         else Inr (saw, ent, m))"
  by pat_completeness auto
termination
proof (relation "measure (\<lambda>(vp, buf, sz, i, saw, ent, m). 65536 - i)", goal_cases)
  case (2 vp buf sz i saw ent m h)
  have "unat (e_phnum h) < 65536" using unsigned_less [of "e_phnum h", where 'a = nat] by simp
  with 2 show ?case by simp
next
  case (3 vp buf sz i saw ent m h)
  have "unat (e_phnum h) < 65536" using unsigned_less [of "e_phnum h", where 'a = nat] by simp
  with 3 show ?case by simp
qed simp

declare elf_segments.simps [simp del]

definition elf_fail :: "string \<Rightarrow> sys \<Rightarrow> (int \<times> sys) option" where
  "elf_fail msg s = Some (- 1, say (msg @ [CHR 0x0A]) s)"

definition elf_start :: "platform \<Rightarrow> u64 \<Rightarrow> u64 \<Rightarrow> string option \<Rightarrow> sys \<Rightarrow> (int \<times> sys) option" where
  "elf_start pf now entry nm s =
     (if \<not> init_mmu pf
      then map_option (\<lambda>(r, k). (r, s\<lparr>kern := k\<rparr>)) (task_create_named (tramp_addr pf) entry nm (kern s))
      else user_task_create pf now entry nm s)"

definition elf_load_buf :: "platform \<Rightarrow> u64 \<Rightarrow> addr \<Rightarrow> u32 \<Rightarrow> string option \<Rightarrow> sys \<Rightarrow> (int \<times> sys) option" where
  "elf_load_buf pf now buf sz nm s =
     (if unat sz < 64 then elf_fail ''[elf] file too small'' s
      else
        let h = read_hdr (sys_mem s) buf
        in if e_magic h \<noteq> ELF_MAGIC \<or> e_class h \<noteq> ELFCLASS64 \<or> e_data h \<noteq> ELFDATA2LSB \<or>
              e_type h \<noteq> ET_EXEC \<or> e_machine h \<noteq> EM_AARCH64
           then elf_fail ''[elf] bad header (not AArch64 ELF64 executable)'' s
           else if e_phnum h = 0 \<or> e_phentsize h < 56 then elf_fail ''[elf] no program headers'' s
           else if e_phoff h > ucast sz \<or>
                   ucast (e_phnum h) > (ucast sz - e_phoff h) div ucast (e_phentsize h)
           then elf_fail ''[elf] program header table extends past end of file'' s
           else case elf_segments (virt pf) buf sz 0 False False (sys_mem s) of
               Inl (msg, m) \<Rightarrow> elf_fail msg (put_mem m s)
             | Inr (saw, ent, m) \<Rightarrow>
                 let s1 = put_mem m s; entry = e_entry (read_hdr m buf)
                 in if entry = 0 then elf_fail ''[elf] zero entry point'' s1
                    else if \<not> saw \<or> \<not> user_load_range_ok (virt pf) entry 1 \<or> \<not> ent
                    then elf_fail ''[elf] entry lies outside loadable user image'' s1
                    else do {
                      (r, s2) \<leftarrow> elf_start pf now entry nm s1;
                      if r < 0 then elf_fail ''[elf] failed to create task'' s2 else Some (r, s2)
                    })"

definition elf_exec_buf :: "platform \<Rightarrow> u64 \<Rightarrow> addr \<Rightarrow> u32 \<Rightarrow> string option \<Rightarrow> sys \<Rightarrow> (int \<times> sys) option" where
  "elf_exec_buf pf now buf sz nm s = elf_load_buf pf now buf sz nm s"

definition elf_exec :: "platform \<Rightarrow> u64 \<Rightarrow> string \<Rightarrow> string option \<Rightarrow> sys \<Rightarrow> (int \<times> sys) option" where
  "elf_exec pf now path nm s = do {
     (fd, v1) \<leftarrow> vfs_open path 0 (vfs_of s);
     let s1 = put_vfs v1 s
     in if fd < 0
        then Some (- 1, say [CHR 0x0A] (say path (say ''[elf] not found: '' s1)))
        else
          let (filesz, v2) = vfs_seek fd 0 SEEK_END (vfs_of s1);
              (_, v3) = vfs_seek fd 0 SEEK_SET v2;
              s3 = put_vfs v3 s1
          in if filesz \<le> 0 \<or> filesz > VFS_MAX_FSIZE
             then Some (- 1, put_vfs (vfs_close fd (vfs_of s3)) (say (''[elf] file too large or empty'' @ [CHR 0x0A]) s3))
             else do {
               (b, h) \<leftarrow> kmalloc (of_int filesz) (kheap_of (kern s3));
               let s4 = with_kern (set_heap h) s3
               in if b = 0
                  then Some (- 1, put_vfs (vfs_close fd (vfs_of s4)) (say (''[elf] out of memory'' @ [CHR 0x0A]) s4))
                  else
                    let (_, v5) = vfs_read fd b filesz (vfs_of s4);
                        s6 = put_vfs (vfs_close fd v5) s4
                    in do {
                      (r, s7) \<leftarrow> elf_load_buf pf now b (of_int filesz) nm s6;
                      Some (r, with_kern (set_heap (kfree b (kheap_of (kern s7)))) s7)
                    }
             }
   }"

subsection \<open>The loader stays inside the user window\<close>

definition in_window :: "bool \<Rightarrow> addr \<Rightarrow> bool" where
  "in_window vp a \<longleftrightarrow> USER_LOAD_BASE vp \<le> a \<and> a < USER_LOAD_LIMIT vp"

lemma user_load_range_nat:
  assumes "user_load_range_ok vp start len"
  shows "unat (USER_LOAD_BASE vp) \<le> unat start" "unat start + unat len \<le> unat (USER_LOAD_LIMIT vp)"
proof -
  show "unat (USER_LOAD_BASE vp) \<le> unat start" using assms by (simp add: user_load_range_ok_def word_le_nat_alt)
  have "start \<le> USER_LOAD_LIMIT vp" "len \<le> USER_LOAD_LIMIT vp - start"
    using assms by (auto simp: user_load_range_ok_def range_fits_def)
  then show "unat start + unat len \<le> unat (USER_LOAD_LIMIT vp)"
    by (simp add: word_le_nat_alt unat_sub)
qed

lemma window_limit_small: "unat (USER_LOAD_LIMIT vp) < 2 ^ 32"
  by (simp add: USER_LOAD_LIMIT_def)

lemma in_window_offset:
  assumes "user_load_range_ok vp start len" "i < unat len"
  shows "in_window vp (start + of_nat i)" "unat (start + of_nat i) = unat start + i"
proof -
  note r = user_load_range_nat [OF assms(1)]
  show e: "unat (start + of_nat i) = unat start + i"
    using r assms(2) window_limit_small [of vp] by (intro unat_add_of_nat) simp
  show "in_window vp (start + of_nat i)"
    using r assms(2) by (simp add: in_window_def word_le_nat_alt word_less_nat_alt e)
qed

lemma memcpy_loop_frame: "(\<And>i. i < n \<Longrightarrow> a \<noteq> d + of_nat i) \<Longrightarrow> memcpy_loop m d s n a = m a"
proof (induction n arbitrary: m d s)
  case (Suc n)
  have "a \<noteq> d" using Suc.prems [of 0] by simp
  moreover have "a \<noteq> d + 1 + of_nat i" if "i < n" for i using Suc.prems [of "Suc i"] that by (simp add: ac_simps)
  ultimately show ?case using Suc.IH [of "d + 1"] by simp
qed simp

lemma memset_loop_frame: "(\<And>i. i < n \<Longrightarrow> a \<noteq> d + of_nat i) \<Longrightarrow> memset_loop m d v n a = m a"
proof (induction n arbitrary: m d)
  case (Suc n)
  have "a \<noteq> d" using Suc.prems [of 0] by simp
  moreover have "a \<noteq> d + 1 + of_nat i" if "i < n" for i using Suc.prems [of "Suc i"] that by (simp add: ac_simps)
  ultimately show ?case using Suc.IH [of "d + 1"] by simp
qed simp

text \<open>The size of the copy: it is in bounds of the file and of the segment.\<close>

lemma elf_copy_bounds:
  fixes sz :: u32
  assumes "user_load_range_ok vp (p_vaddr ph) (p_memsz ph)" "p_filesz ph \<le> p_memsz ph" "p_offset ph < ucast sz"
  shows "unat (p_offset ph + p_filesz ph) = unat (p_offset ph) + unat (p_filesz ph)"
    "unat (p_filesz ph) \<le> unat (p_memsz ph)"
proof -
  have "unat (p_memsz ph) < 2 ^ 32"
    using user_load_range_nat(2) [OF assms(1)] window_limit_small [of vp] by linarith
  moreover have f: "unat (p_filesz ph) \<le> unat (p_memsz ph)" using assms(2) by (simp add: word_le_nat_alt)
  moreover have "unat (p_offset ph) < 2 ^ 32"
    using assms(3) unsigned_less [of sz, where 'a = nat] by (simp add: word_less_nat_alt)
  ultimately show "unat (p_offset ph + p_filesz ph) = unat (p_offset ph) + unat (p_filesz ph)"
    by (intro unat_add_lem [THEN iffD1]) simp
  show "unat (p_filesz ph) \<le> unat (p_memsz ph)" by (rule f)
qed

text \<open>
  An image outside the user window reads the same during the whole load. The images of
  \<open>elf_exec\<close> are: it reads the file into a buffer of the heap, and the heap of either board starts
  where the window ends or above.
\<close>

definition image_outside :: "bool \<Rightarrow> addr \<Rightarrow> nat \<Rightarrow> bool" where
  "image_outside vp buf n \<longleftrightarrow> unat buf + n \<le> 2 ^ 64 \<and> (\<forall>i < n. \<not> in_window vp (buf + of_nat i))"

lemma image_mread:
  assumes "image_outside vp buf n" "\<And>a. \<not> in_window vp a \<Longrightarrow> m' a = m a" "off + k \<le> n"
  shows "mread m' (buf + of_nat off) k = mread m (buf + of_nat off) k"
proof (rule mread_cong)
  fix i assume "i < k"
  then have "off + i < n" using assms(3) by simp
  then have "\<not> in_window vp (buf + of_nat (off + i))" using assms(1) unfolding image_outside_def by blast
  then show "m' (buf + of_nat off + of_nat i) = m (buf + of_nat off + of_nat i)"
    using assms(2) by (simp add: add.assoc)
qed

lemma image_read_hdr:
  assumes "image_outside vp buf n" "\<And>a. \<not> in_window vp a \<Longrightarrow> m' a = m a" "64 \<le> n"
  shows "read_hdr m' buf = read_hdr m buf"
proof -
  have r: "mread m' (buf + of_nat off) k = mread m (buf + of_nat off) k" if "off + k \<le> n" for off k
    using image_mread [OF assms(1) _ that] assms(2) by blast
  have b: "m' (buf + of_nat k) = m (buf + of_nat k)" if "k < 64" for k
    using that assms by (simp add: image_outside_def)
  show ?thesis
    using r [of 0 4] r [of 16 2] r [of 18 2] r [of 24 8] r [of 32 8] r [of 54 2] r [of 56 2] b [of 4] b [of 5] assms(3)
    by (simp add: read_hdr_def ld16_def ld32_def ld64_def)
qed

lemma image_read_phdr:
  assumes "image_outside vp buf n" "\<And>a. \<not> in_window vp a \<Longrightarrow> m' a = m a" "off + 56 \<le> n"
  shows "read_phdr m' (buf + of_nat off) = read_phdr m (buf + of_nat off)"
proof -
  have r: "mread m' (buf + of_nat j) k = mread m (buf + of_nat j) k" if "j + k \<le> n" for j k
    using image_mread [OF assms(1) _ that] assms(2) by blast
  have a: "buf + of_nat off + 8 = buf + of_nat (off + 8)" "buf + of_nat off + 16 = buf + of_nat (off + 16)"
    "buf + of_nat off + 32 = buf + of_nat (off + 32)" "buf + of_nat off + 40 = buf + of_nat (off + 40)" by simp_all
  show ?thesis unfolding read_phdr_def a ld32_def ld64_def
    using r [of off 4] r [of "off + 8" 8] r [of "off + 16" 8] r [of "off + 32" 8] r [of "off + 40" 8] assms(3)
    by simp
qed

lemma image_outside_sub:
  assumes "image_outside vp buf n" "off + k \<le> n" "0 < k"
  shows "image_outside vp (buf + of_nat off) k"
proof -
  have "unat (buf + of_nat off) = unat buf + off" using assms by (intro unat_add_of_nat) (simp add: image_outside_def)
  moreover have "\<not> in_window vp (buf + of_nat off + of_nat i)" if "i < k" for i
  proof -
    have "off + i < n" using that assms(2) by simp
    then have "\<not> in_window vp (buf + of_nat (off + i))" using assms(1) unfolding image_outside_def by blast
    then show ?thesis by (simp add: add.assoc)
  qed
  ultimately show ?thesis using assms by (simp add: image_outside_def)
qed

text \<open>The guard on the program header table bounds every entry.\<close>

lemma phdr_table_bounds:
  fixes sz :: u32 and num esz :: u16 and off :: u64
  assumes "\<not> off > ucast sz" "\<not> ucast num > (ucast sz - off) div ucast esz" "56 \<le> unat esz" "j < unat num"
  shows "unat off + j * unat esz + 56 \<le> unat sz"
proof -
  have o: "unat off \<le> unat sz" using assms(1) by (simp add: word_less_nat_alt)
  then have "unat (ucast sz - off :: u64) = unat sz - unat off" by (simp add: unat_sub word_le_nat_alt)
  then have "unat num \<le> (unat sz - unat off) div unat esz"
    using assms(2) by (simp add: word_less_nat_alt unat_div)
  then have "unat num * unat esz \<le> unat sz - unat off" using assms(3) by (simp add: less_eq_div_iff_mult_less_eq)
  moreover have "Suc j * unat esz \<le> unat num * unat esz" using assms(4) by (intro mult_right_mono) simp_all
  ultimately show ?thesis using o assms(3) by simp
qed

lemma segment_copy_frame:
  fixes sz :: u32
  assumes ok: "user_load_range_ok vp (p_vaddr ph) (p_memsz ph)" "p_filesz ph \<le> p_memsz ph" "p_offset ph < ucast sz"
    and a: "\<not> in_window vp a"
    and copy_def: "copy = (if p_offset ph + p_filesz ph > ucast sz then ucast sz - p_offset ph else p_filesz ph)"
    and m1_def: "m1 = (if copy > 0 then memcpy m (p_vaddr ph) (buf + p_offset ph) copy else m)"
  shows "m1 a = m a"
proof -
  note cb = elf_copy_bounds [OF ok]
  have cc: "unat copy \<le> unat (p_memsz ph)"
  proof (cases "p_offset ph + p_filesz ph > ucast sz")
    case True
    then have "unat (ucast sz - p_offset ph) = unat sz - unat (p_offset ph)"
      using ok(3) by (simp add: unat_sub word_less_nat_alt word_le_nat_alt)
    then show ?thesis using True cb by (simp add: copy_def word_less_nat_alt)
  next
    case False
    then show ?thesis using cb by (simp add: copy_def)
  qed
  have out: "a \<noteq> p_vaddr ph + of_nat i" if "i < unat (p_memsz ph)" for i
    using in_window_offset(1) [OF ok(1) that] a by auto
  show "m1 a = m a"
  proof -
    have "memcpy m (p_vaddr ph) (buf + p_offset ph) copy a = m a"
      unfolding memcpy_def
    proof (rule memcpy_loop_frame)
      fix i assume "i < unat copy"
      then show "a \<noteq> p_vaddr ph + of_nat i" using out [of i] cc by simp
    qed
    then show ?thesis by (simp add: m1_def)
  qed
qed

text \<open>
  The same step with the header as a value. It is what \<open>elf_segment\<close> does to a header that the
  copy cannot overwrite.
\<close>

definition segment_of :: "bool \<Rightarrow> addr \<Rightarrow> u32 \<Rightarrow> u64 \<Rightarrow> elf64_phdr_t \<Rightarrow> mem \<Rightarrow> seg_result" where
  "segment_of vp buf sz entry ph m =
     (if p_type ph \<noteq> PT_LOAD then Skip
      else if p_memsz ph = 0 then Skip
      else if p_filesz ph > p_memsz ph then Refuse ''[elf] PT_LOAD filesz exceeds memsz'' m
      else if \<not> user_load_range_ok vp (p_vaddr ph) (p_memsz ph)
        then Refuse ''[elf] PT_LOAD lies outside user window'' m
      else
        let entry_in = (entry \<ge> p_vaddr ph \<and> entry - p_vaddr ph < p_memsz ph); dst = p_vaddr ph
        in if p_offset ph \<ge> ucast sz then Refuse ''[elf] segment lies beyond end of file'' m
           else
             let copy = (if p_offset ph + p_filesz ph > ucast sz then ucast sz - p_offset ph else p_filesz ph);
                 m1 = (if copy > 0 then memcpy m dst (buf + p_offset ph) copy else m)
             in if copy \<noteq> p_filesz ph then Refuse ''[elf] truncated PT_LOAD segment'' m1
                else Loaded entry_in
                  (if p_memsz ph > p_filesz ph then memset m1 (dst + p_filesz ph) 0 (p_memsz ph - p_filesz ph) else m1))"

lemma segment_of_frame:
  assumes "segment_of vp buf sz entry ph m = Refuse msg m' \<or> segment_of vp buf sz entry ph m = Loaded e m'"
    "\<not> in_window vp a"
  shows "m' a = m a"
proof (cases "m' = m")
  case False
  define copy where "copy = (if p_offset ph + p_filesz ph > ucast sz then ucast sz - p_offset ph else p_filesz ph)"
  define m1 where "m1 = (if copy > 0 then memcpy m (p_vaddr ph) (buf + p_offset ph) copy else m)"
  from False assms(1) have ok: "user_load_range_ok vp (p_vaddr ph) (p_memsz ph)" "p_filesz ph \<le> p_memsz ph"
    "p_offset ph < ucast sz"
    and m': "m' = m1 \<or> copy = p_filesz ph \<and> m' = memset m1 (p_vaddr ph + p_filesz ph) 0 (p_memsz ph - p_filesz ph)"
    by (auto simp: segment_of_def Let_def copy_def m1_def not_le not_less split: if_splits)
  have out: "a \<noteq> p_vaddr ph + of_nat i" if "i < unat (p_memsz ph)" for i
    using in_window_offset(1) [OF ok(1) that] assms(2) by auto
  have 1: "m1 a = m a" using segment_copy_frame [OF ok assms(2) copy_def m1_def] .
  have "memset m1 (p_vaddr ph + p_filesz ph) 0 (p_memsz ph - p_filesz ph) a = m1 a"
    unfolding memset_def
  proof (rule memset_loop_frame)
    fix i assume "i < unat (p_memsz ph - p_filesz ph)"
    then have "unat (p_filesz ph) + i < unat (p_memsz ph)" using ok(2) by (simp add: unat_sub word_le_nat_alt)
    from out [OF this] show "a \<noteq> p_vaddr ph + p_filesz ph + of_nat i" by (simp add: add.assoc)
  qed
  with 1 m' show ?thesis by auto
qed simp

text \<open>When the header itself lies outside the window, the second reading of it is the first.\<close>

lemma elf_segment_by_value:
  assumes "image_outside vp php 56"
  shows "elf_segment vp buf sz entry php m = segment_of vp buf sz entry (read_phdr m php) m"
proof (cases "p_type (read_phdr m php) = PT_LOAD \<and> p_memsz (read_phdr m php) \<noteq> 0 \<and>
    p_filesz (read_phdr m php) \<le> p_memsz (read_phdr m php) \<and>
    user_load_range_ok vp (p_vaddr (read_phdr m php)) (p_memsz (read_phdr m php)) \<and> p_offset (read_phdr m php) < ucast sz")
  case True
  let ?ph = "read_phdr m php"
  define copy where "copy = (if p_offset ?ph + p_filesz ?ph > ucast sz then ucast sz - p_offset ?ph else p_filesz ?ph)"
  define m1 where "m1 = (if copy > 0 then memcpy m (p_vaddr ?ph) (buf + p_offset ?ph) copy else m)"
  have ok: "user_load_range_ok vp (p_vaddr ?ph) (p_memsz ?ph)" "p_filesz ?ph \<le> p_memsz ?ph" "p_offset ?ph < ucast sz"
    using True by blast+
  have "m1 a = m a" if "\<not> in_window vp a" for a using segment_copy_frame [OF ok that copy_def m1_def] .
  then have "read_phdr m1 php = ?ph" using image_read_phdr [OF assms, of m1 m 0] by simp
  then show ?thesis using True
    unfolding elf_segment_def segment_of_def Let_def copy_def [symmetric] m1_def [symmetric] by simp
next
  case False
  define ph where "ph = read_phdr m php"
  have "p_type ph \<noteq> PT_LOAD \<or> p_memsz ph = 0 \<or> p_filesz ph > p_memsz ph \<or>
      \<not> user_load_range_ok vp (p_vaddr ph) (p_memsz ph) \<or> p_offset ph \<ge> ucast sz"
    using False unfolding ph_def by (metis linorder_not_le)
  then show ?thesis unfolding elf_segment_def segment_of_def Let_def ph_def [symmetric]
    by (elim disjE) (simp_all only: if_True if_False not_True_eq_False not_False_eq_True simp_thms)
qed

lemma elf_segment_frame:
  assumes "elf_segment vp buf sz entry php m = Refuse msg m' \<or> elf_segment vp buf sz entry php m = Loaded e m'"
    "image_outside vp php 56" "\<not> in_window vp a"
  shows "m' a = m a"
  using assms(1) segment_of_frame [OF _ assms(3)] unfolding elf_segment_by_value [OF assms(2)] by blast

text \<open>What \<open>elf_load_buf\<close> has checked when it comes to the program headers.\<close>

definition elf_header_ok :: "u32 \<Rightarrow> elf64_hdr_t \<Rightarrow> bool" where
  "elf_header_ok sz h \<longleftrightarrow> 64 \<le> unat sz \<and> \<not> e_phentsize h < 56 \<and> \<not> e_phoff h > ucast sz \<and>
     \<not> ucast (e_phnum h) > (ucast sz - e_phoff h) div ucast (e_phentsize h)"

lemma elf_header_ok_table:
  assumes "elf_header_ok sz h" "j < unat (e_phnum h)"
  shows "unat (e_phoff h) + j * unat (e_phentsize h) + 56 \<le> unat sz"
  using assms by (intro phdr_table_bounds) (simp_all add: elf_header_ok_def word_less_nat_alt not_less)

definition elf_mem :: "string \<times> mem + bool \<times> bool \<times> mem \<Rightarrow> mem" where
  "elf_mem r = (case r of Inl (_, m) \<Rightarrow> m | Inr (_, _, m) \<Rightarrow> m)"

text \<open>One turn of the loop, in terms of the image as it was before the load.\<close>

lemma elf_segment_of_image:
  assumes "image_outside vp buf (unat sz)" "elf_header_ok sz h" "h = read_hdr m0 buf"
    and "\<And>a. \<not> in_window vp a \<Longrightarrow> m a = m0 a" "i < unat (e_phnum h)"
  shows "read_hdr m buf = h"
    and "elf_segment vp buf sz (e_entry h) (buf + (e_phoff h + of_nat i * ucast (e_phentsize h))) m =
      segment_of vp buf sz (e_entry h) (read_phdr m0 (buf + of_nat (unat (e_phoff h) + i * unat (e_phentsize h)))) m"
proof -
  let ?off = "unat (e_phoff h) + i * unat (e_phentsize h)"
  show "read_hdr m buf = h"
    using image_read_hdr [OF assms(1) assms(4)] assms(2,3) by (simp add: elf_header_ok_def)
  have t: "?off + 56 \<le> unat sz" using elf_header_ok_table [OF assms(2,5)] .
  have p: "buf + (e_phoff h + of_nat i * ucast (e_phentsize h)) = buf + of_nat ?off" by simp
  have o: "image_outside vp (buf + of_nat ?off) 56" using image_outside_sub [OF assms(1) t] by simp
  have r: "read_phdr m (buf + of_nat ?off) = read_phdr m0 (buf + of_nat ?off)"
    using image_read_phdr [OF assms(1) assms(4) t] .
  show "elf_segment vp buf sz (e_entry h) (buf + (e_phoff h + of_nat i * ucast (e_phentsize h))) m =
      segment_of vp buf sz (e_entry h) (read_phdr m0 (buf + of_nat ?off)) m"
    unfolding p elf_segment_by_value [OF o] r ..
qed

lemma elf_segments_frame:
  assumes "image_outside vp buf (unat sz)" "elf_header_ok sz h" "h = read_hdr m0 buf"
    and "\<And>b. \<not> in_window vp b \<Longrightarrow> m b = m0 b" "\<not> in_window vp a"
  shows "elf_mem (elf_segments vp buf sz i saw ent m) a = m0 a"
  using assms
proof (induction vp buf sz i saw ent m rule: elf_segments.induct)
  case (1 vp buf sz i saw ent m)
  note out = "1.prems"(1) and ok = "1.prems"(2) and h = "1.prems"(3) and same = "1.prems"(4) and na = "1.prems"(5)
  have hm: "read_hdr m buf = h" using image_read_hdr [OF out same] ok h by (simp add: elf_header_ok_def)
  define php where "php = buf + (e_phoff h + of_nat i * ucast (e_phentsize h))"
  note u = elf_segments.simps [of vp buf sz i saw ent m, unfolded Let_def hm, folded php_def]
  note IH = "1.IH" [OF hm [symmetric], folded php_def]
  show ?case
  proof (cases "i < unat (e_phnum h)")
    case True
    have so: "elf_segment vp buf sz (e_entry h) php m =
        segment_of vp buf sz (e_entry h) (read_phdr m0 (buf + of_nat (unat (e_phoff h) + i * unat (e_phentsize h)))) m"
      unfolding php_def by (rule elf_segment_of_image(2) [OF out ok h same True])
    have fr: "m' b = m0 b" if "elf_segment vp buf sz (e_entry h) php m = Refuse msg m' \<or>
        elf_segment vp buf sz (e_entry h) php m = Loaded e m'" "\<not> in_window vp b" for msg e m' b
      using segment_of_frame [OF that(1) [unfolded so] that(2)] same [OF that(2)] by simp
    show ?thesis
    proof (cases "elf_segment vp buf sz (e_entry h) php m")
      case Skip
      then show ?thesis using u True IH(1) [OF True Skip out ok h same na] by simp
    next
      case (Refuse msg m')
      then show ?thesis using u True fr [OF disjI1 na] by (simp add: elf_mem_def)
    next
      case (Loaded e m')
      have "m' b = m0 b" if "\<not> in_window vp b" for b using fr [OF disjI2 [OF Loaded] that] .
      then show ?thesis using u True Loaded IH(2) [OF True Loaded out ok h _ na] by simp
    qed
  next
    case False
    then show ?thesis using u same [OF na] by (simp add: elf_mem_def)
  qed
qed

text \<open>A small valid image at a fixed address: one segment that is the whole file.\<close>

definition elf_image :: bytes where
  "elf_image = [0x7F, 0x45, 0x4C, 0x46, 2, 1, 1, 0, 0, 0, 0, 0, 0, 0, 0, 0, 2, 0, 0xB7, 0, 1, 0, 0, 0,
     0, 0, 0x20, 0x40, 0, 0, 0, 0, 64, 0, 0, 0, 0, 0, 0, 0, 0, 0, 0, 0, 0, 0, 0, 0, 0, 0, 0, 0,
     64, 0, 56, 0, 1, 0, 0, 0, 0, 0, 0, 0,
     1, 0, 0, 0, 5, 0, 0, 0, 0, 0, 0, 0, 0, 0, 0, 0, 0, 0, 0x20, 0x40, 0, 0, 0, 0, 0, 0, 0, 0, 0, 0, 0, 0,
     120, 0, 0, 0, 0, 0, 0, 0, 128, 0, 0, 0, 0, 0, 0, 0, 0, 0, 0, 0, 0, 0, 0, 0]"

lemma elf_image_outside: "image_outside True 0x200000 (unat (120::u32))"
proof -
  have "\<not> in_window True (0x200000 + of_nat i)" if "i < 120" for i
  proof -
    have "unat (0x200000 + of_nat i :: u64) = 0x200000 + i" using that by (subst unat_add_of_nat) simp_all
    then show ?thesis using that by (simp add: in_window_def USER_LOAD_BASE_def word_le_nat_alt)
  qed
  then show ?thesis by (simp add: image_outside_def)
qed

lemma elf_image_read: "off + k \<le> 120 \<Longrightarrow>
  mread (mwrite (\<lambda>_. 0) 0x200000 elf_image) (0x200000 + of_nat off) k = take k (drop off elf_image)"
proof -
  assume a: "off + k \<le> 120"
  have l: "length elf_image = 120" by (simp add: elf_image_def)
  have "mread (mwrite (\<lambda>_. 0) 0x200000 elf_image) 0x200000 120 = elf_image"
    using mread_mwrite_same [of elf_image "\<lambda>_. 0" "0x200000"] l by simp
  then show ?thesis using take_drop_mread [OF a] by metis
qed

lemma elf_image_byte: "i < 120 \<Longrightarrow> mwrite (\<lambda>_. 0) 0x200000 elf_image (0x200000 + of_nat i) = elf_image ! i"
proof -
  assume i: "i < 120"
  then have "mread (mwrite (\<lambda>_. 0) 0x200000 elf_image) (0x200000 + of_nat i) 1 = [elf_image ! i]"
    using elf_image_read [of i 1] by (simp add: take_Suc_conv_app_nth elf_image_def)
  then show ?thesis by (simp add: mread_def)
qed

lemma elf_image_hdr:
  "read_hdr (mwrite (\<lambda>_. 0) 0x200000 elf_image) 0x200000 = \<lparr>e_magic = ELF_MAGIC, e_class = 2, e_data = 1, e_type = 2,
     e_machine = 0xB7, e_entry = 0x40200000, e_phoff = 64, e_phentsize = 56, e_phnum = 1\<rparr>"
proof -
  note r = elf_image_read and b = elf_image_byte
  show ?thesis
    using r [of 0 4] r [of 16 2] r [of 18 2] r [of 24 8] r [of 32 8] r [of 54 2] r [of 56 2] b [of 4] b [of 5]
    by (simp add: read_hdr_def ld16_def ld32_def ld64_def le_nat_def) (simp add: elf_image_def)
qed

lemma elf_image_phdr:
  "read_phdr (mwrite (\<lambda>_. 0) 0x200000 elf_image) 0x200040 = \<lparr>p_type = 1, p_offset = 0, p_vaddr = 0x40200000,
     p_filesz = 120, p_memsz = 128\<rparr>"
proof -
  note r = elf_image_read
  show ?thesis
    using r [of 64 4] r [of 72 8] r [of 80 8] r [of 96 8] r [of 104 8]
    by (simp add: read_phdr_def ld32_def ld64_def le_nat_def) (simp add: elf_image_def)
qed

text \<open>
  C7: loading a program never touches memory outside the user window. For an image that itself lies
  outside the window and whose header passed the checks before the segment loop, whatever its
  program headers hold, and whether they are accepted or refused half way, every byte outside
  \<open>[USER_LOAD_BASE, USER_LOAD_LIMIT)\<close> is the same after the loop as before it. An image inside the
  window has no such guarantee: a copied segment may overwrite the header whose \<open>p_filesz\<close> and
  \<open>p_memsz\<close> the code then reads again.
\<close>

theorem elf_segments_confined:
  assumes "image_outside vp buf (unat sz)" "elf_header_ok sz (read_hdr m buf)" "\<not> in_window vp a"
  shows "elf_mem (elf_segments vp buf sz 0 False False m) a = m a"
  by (rule elf_segments_frame [OF assms(1,2) refl refl assms(3)])

theorem elf_segments_confined_witness:
  "elf_mem (elf_segments True 0x200000 120 0 False False (mwrite (\<lambda>_. 0) 0x200000 elf_image)) 0x80000 =
     mwrite (\<lambda>_. 0) 0x200000 elf_image 0x80000"
  by (rule elf_segments_confined [OF elf_image_outside])
    (simp_all add: elf_image_hdr elf_header_ok_def in_window_def USER_LOAD_BASE_def)

subsection \<open>What a loaded segment holds\<close>

lemma segment_of_loads:
  assumes L: "segment_of vp buf sz entry ph m = Loaded e m'"
    and buf: "apart buf (unat sz) (p_vaddr ph) (unat (p_memsz ph))" "unat buf + unat sz \<le> 2 ^ 64"
  shows "unat (p_offset ph) + unat (p_filesz ph) \<le> unat sz \<and>
    mread m' (p_vaddr ph) (unat (p_memsz ph)) =
      mread m (buf + p_offset ph) (unat (p_filesz ph)) @ replicate (unat (p_memsz ph) - unat (p_filesz ph)) 0"
proof -
  let ?f = "unat (p_filesz ph)" and ?g = "unat (p_memsz ph)" and ?v = "p_vaddr ph" and ?o = "unat (p_offset ph)"
  define m1 where "m1 = (if p_filesz ph > 0 then memcpy m ?v (buf + p_offset ph) (p_filesz ph) else m)"
  from L have ok: "user_load_range_ok vp ?v (p_memsz ph)" "p_filesz ph \<le> p_memsz ph" "p_offset ph < ucast sz"
    and le: "\<not> p_offset ph + p_filesz ph > ucast sz \<or> ucast sz - p_offset ph = p_filesz ph"
    by (auto simp: segment_of_def Let_def not_le not_less split: if_splits)
  note cb = elf_copy_bounds [OF ok] and w = user_load_range_nat [OF ok(1)]
  have fit: "?o + ?f \<le> unat sz"
  proof (cases "p_offset ph + p_filesz ph > ucast sz")
    case True
    then have "unat (ucast sz - p_offset ph :: u64) = ?f" using le by simp
    then show ?thesis using ok(3) by (simp add: unat_sub word_less_nat_alt word_le_nat_alt)
  next
    case False
    then show ?thesis using cb(1) by (simp add: word_less_nat_alt)
  qed
  have c: "(if p_offset ph + p_filesz ph > ucast sz then ucast sz - p_offset ph else p_filesz ph) = p_filesz ph"
    using le by auto
  have m': "m' = (if p_memsz ph > p_filesz ph then memset m1 (?v + p_filesz ph) 0 (p_memsz ph - p_filesz ph) else m1)"
    using L ok by (auto simp: segment_of_def Let_def c m1_def split: if_splits)
  have lim: "unat ?v + ?g < 2 ^ 64" using w(2) window_limit_small [of vp] by simp
  have m1: "m1 = mwrite m ?v (mread m (buf + p_offset ph) ?f)"
  proof (cases "p_filesz ph > 0")
    case True
    then have f0: "0 < ?f" by (simp add: word_less_nat_alt)
    have o: "unat (buf + p_offset ph) = unat buf + ?o"
      using fit f0 buf(2) unat_add_of_nat [of buf ?o] by simp
    have "memcpy m ?v (buf + p_offset ph) (p_filesz ph) = mwrite m ?v (mread m (buf + p_offset ph) ?f)"
    proof (rule memcpy_eq)
      show "apart ?v ?f (buf + p_offset ph) ?f" using buf(1) fit cb(2) o by (auto simp: apart_def)
      show "unat ?v + ?f \<le> 2 ^ 64" using lim cb(2) by linarith
      show "unat (buf + p_offset ph) + ?f \<le> 2 ^ 64" using o fit buf(2) by simp
    qed
    then show ?thesis using True by (simp add: m1_def)
  qed (simp add: m1_def word_gt_0)
  have src: "mread m1 ?v ?f = mread m (buf + p_offset ph) ?f"
    using mread_mwrite_same [of "mread m (buf + p_offset ph) ?f" m ?v] lim cb(2) by (simp add: m1)
  have vf: "unat (?v + p_filesz ph) = unat ?v + ?f" if "?f < ?g"
    using unat_add_of_nat [of ?v ?f] lim that by simp
  have "mread m' ?v ?g = mread m' ?v ?f @ mread m' (?v + of_nat ?f) (?g - ?f)"
    using mread_append [of m' ?v ?f "?g - ?f"] cb(2) by simp
  also have "mread m' ?v ?f = mread m (buf + p_offset ph) ?f"
  proof (cases "?f < ?g")
    case True
    have "mread (mfill m1 (?v + p_filesz ph) (?g - ?f) 0) ?v ?f = mread m1 ?v ?f"
      using vf [OF True] lim True by (intro mread_mfill_apart) (auto simp: apart_def)
    then show ?thesis using True ok(2) src
      by (simp add: m' memset_eq word_less_nat_alt unat_sub)
  qed (simp add: m' word_less_nat_alt src)
  also have "mread m' (?v + of_nat ?f) (?g - ?f) = replicate (?g - ?f) 0"
  proof (cases "?f < ?g")
    case True
    then show ?thesis using ok(2) mread_mfill_same [of "?g - ?f" m1 "?v + p_filesz ph" 0] lim
      by (simp add: m' memset_eq word_less_nat_alt unat_sub)
  qed simp
  finally show ?thesis using fit by simp
qed

text \<open>
  A loaded segment holds the file's bytes followed by zeros. When its header lies outside the
  window and the image does not overlap the segment, the copy reads only inside the image, the
  first \<open>p_filesz\<close> bytes at \<open>p_vaddr\<close> are those at \<open>p_offset\<close> in the image, and the rest up to
  \<open>p_memsz\<close> is zero.
\<close>

lemma elf_segment_loads:
  assumes "elf_segment vp buf sz entry php m = Loaded e m'" "image_outside vp php 56" "ph = read_phdr m php"
    and "apart buf (unat sz) (p_vaddr ph) (unat (p_memsz ph))" "unat buf + unat sz \<le> 2 ^ 64"
  shows "unat (p_offset ph) + unat (p_filesz ph) \<le> unat sz \<and>
    mread m' (p_vaddr ph) (unat (p_memsz ph)) =
      mread m (buf + p_offset ph) (unat (p_filesz ph)) @ replicate (unat (p_memsz ph) - unat (p_filesz ph)) 0"
  using segment_of_loads [OF assms(1) [unfolded elf_segment_by_value [OF assms(2)] assms(3) [symmetric]] assms(4,5)] .

subsection \<open>What a started program satisfies\<close>

text \<open>A segment that may be loaded and contains the entry point.\<close>

definition entry_segment :: "bool \<Rightarrow> u64 \<Rightarrow> elf64_phdr_t \<Rightarrow> bool" where
  "entry_segment vp entry ph \<longleftrightarrow> p_type ph = PT_LOAD \<and> user_load_range_ok vp (p_vaddr ph) (p_memsz ph) \<and>
     p_filesz ph \<le> p_memsz ph \<and> p_vaddr ph \<le> entry \<and> entry - p_vaddr ph < p_memsz ph"

lemma segment_of_entry:
  "segment_of vp buf sz entry ph m = Loaded e m' \<Longrightarrow> e \<Longrightarrow> entry_segment vp entry ph"
  by (auto simp: segment_of_def entry_segment_def Let_def not_less split: if_splits)

lemma elf_segments_entry:
  assumes "image_outside vp buf (unat sz)" "elf_header_ok sz h" "h = read_hdr m0 buf"
    and "\<And>b. \<not> in_window vp b \<Longrightarrow> m b = m0 b"
    and "elf_segments vp buf sz i saw ent m = Inr (saw', True, m')" "\<not> ent"
  shows "\<exists>j < unat (e_phnum h). entry_segment vp (e_entry h)
    (read_phdr m0 (buf + of_nat (unat (e_phoff h) + j * unat (e_phentsize h))))"
  using assms
proof (induction vp buf sz i saw ent m rule: elf_segments.induct)
  case (1 vp buf sz i saw ent m)
  note out = "1.prems"(1) and ok = "1.prems"(2) and h = "1.prems"(3) and same = "1.prems"(4) and r = "1.prems"(5)
    and ne = "1.prems"(6)
  have hm: "read_hdr m buf = h" using image_read_hdr [OF out same] ok h by (simp add: elf_header_ok_def)
  define php where "php = buf + (e_phoff h + of_nat i * ucast (e_phentsize h))"
  note u = elf_segments.simps [of vp buf sz i saw ent m, unfolded Let_def hm, folded php_def]
  note IH = "1.IH" [OF hm [symmetric], folded php_def]
  have lt: "i < unat (e_phnum h)" using u r ne by (auto split: if_splits)
  have so: "elf_segment vp buf sz (e_entry h) php m =
      segment_of vp buf sz (e_entry h) (read_phdr m0 (buf + of_nat (unat (e_phoff h) + i * unat (e_phentsize h)))) m"
    unfolding php_def by (rule elf_segment_of_image(2) [OF out ok h same lt])
  show ?case
  proof (cases "elf_segment vp buf sz (e_entry h) php m")
    case Skip
    show ?thesis by (rule IH(1) [OF lt Skip out ok h same _ ne]) (use u lt Skip r in simp_all)
  next
    case (Refuse msg m2)
    then show ?thesis using u lt r by simp
  next
    case (Loaded e m2)
    show ?thesis
    proof (cases e)
      case True
      then show ?thesis using segment_of_entry [OF Loaded [unfolded so] True] lt by blast
    next
      case False
      have same2: "m2 b = m0 b" if "\<not> in_window vp b" for b
        using segment_of_frame [OF disjI2 [OF Loaded [unfolded so]] that] same [OF that] by simp
      show ?thesis
        by (rule IH(2) [OF lt Loaded out ok h same2 _]) (use u lt Loaded r ne False in simp_all)
    qed
  qed
qed

text \<open>
  C22: a program is started only if its image is valid. When \<open>elf_load_buf\<close> returns a task number
  for an image outside the user window, the image has the AArch64 executable header, its program
  header table lies inside the file, and the entry point lies in the user window inside a
  loadable segment of the image.
\<close>

theorem elf_load_buf_valid:
  assumes "image_outside (virt pf) buf (unat sz)" "elf_load_buf pf now buf sz nm s = Some (r, s')" "0 \<le> r"
    and "h = read_hdr (sys_mem s) buf"
  shows "64 \<le> unat sz \<and> e_magic h = ELF_MAGIC \<and> e_class h = ELFCLASS64 \<and> e_data h = ELFDATA2LSB \<and>
    e_type h = ET_EXEC \<and> e_machine h = EM_AARCH64 \<and> user_load_range_ok (virt pf) (e_entry h) 1 \<and>
    (\<exists>j < unat (e_phnum h). unat (e_phoff h) + j * unat (e_phentsize h) + 56 \<le> unat sz \<and>
       entry_segment (virt pf) (e_entry h)
         (read_phdr (sys_mem s) (buf + of_nat (unat (e_phoff h) + j * unat (e_phentsize h)))))"
proof -
  note e = assms(2) [unfolded elf_load_buf_def Let_def, folded assms(4)]
  have c: "64 \<le> unat sz" "e_magic h = ELF_MAGIC" "e_class h = ELFCLASS64" "e_data h = ELFDATA2LSB"
    "e_type h = ET_EXEC" "e_machine h = EM_AARCH64" "\<not> e_phentsize h < 56"
    "\<not> e_phoff h > ucast sz" "\<not> ucast (e_phnum h) > (ucast sz - e_phoff h) div ucast (e_phentsize h)"
    using e assms(3) by (auto simp: elf_fail_def split: if_splits)
  have ok: "elf_header_ok sz h" using c by (simp add: elf_header_ok_def)
  note tab = elf_header_ok_table [OF ok]
  obtain saw ent m where g: "elf_segments (virt pf) buf sz 0 False False (sys_mem s) = Inr (saw, ent, m)"
    and we: "user_load_range_ok (virt pf) (e_entry (read_hdr m buf)) 1" "ent"
    using e assms(3) c
    by (cases "elf_segments (virt pf) buf sz 0 False False (sys_mem s)") (auto simp: elf_fail_def split: if_splits)
  have "m a = sys_mem s a" if "\<not> in_window (virt pf) a" for a
    using elf_segments_frame [OF assms(1) ok assms(4) refl that, of 0 False False] g by (simp add: elf_mem_def)
  then have "read_hdr m buf = h" using image_read_hdr [OF assms(1) _ c(1)] assms(4) by blast
  moreover have "\<exists>j < unat (e_phnum h). entry_segment (virt pf) (e_entry h)
      (read_phdr (sys_mem s) (buf + of_nat (unat (e_phoff h) + j * unat (e_phentsize h))))"
    using g we(2) by (intro elf_segments_entry [OF assms(1) ok assms(4) refl, where ent = False]) simp_all
  ultimately show ?thesis using c we tab by blast
qed

definition elf_sys :: sys where
  "elf_sys = \<lparr>kern = set_heap ((kheap_of kernel0)\<lparr>mem := mwrite (\<lambda>_. 0) 0x200000 elf_image\<rparr>) (task_init kernel0),
     vnodes = [], vfds = [], con = uart0, tmr = \<lparr>timer_interval_ticks = 0, timer_interval_ms = 0, irq_count = 0,
     cnthp_tval = 0, cnthp_ctl = 0\<rparr>, user_ctxs = []\<rparr>"

definition qemu :: platform where
  "qemu = \<lparr>tramp_addr = 0x8000, wrapper_addr = 0x9000, clock_hz = 62500000, init_mmu = False, virt = True,
     kernel_data = (\<lambda>_ a. 0x80000 \<le> a \<and> a < 0x90000)\<rparr>"

theorem elf_load_buf_valid_witness:
  "\<exists>s'. elf_load_buf qemu 0 0x200000 120 (Some ''app'') elf_sys = Some (1, s') \<and>
     e_machine (read_hdr (sys_mem elf_sys) 0x200000) = EM_AARCH64"
proof -
  let ?m = "mwrite (\<lambda>_. 0) 0x200000 elf_image"
  let ?ph = "\<lparr>p_type = 1, p_offset = 0, p_vaddr = 0x40200000, p_filesz = 120, p_memsz = 128\<rparr>"
  have sm: "sys_mem elf_sys = ?m" by (simp add: sys_mem_def elf_sys_def set_heap_def)
  have hd: "image_outside True 0x200040 56"
    using image_outside_sub [OF elf_image_outside, of 64 56] by simp
  obtain m' where l: "segment_of True 0x200000 120 0x40200000 ?ph ?m = Loaded True m'"
    by (simp add: segment_of_def user_load_range_ok_def range_fits_def USER_LOAD_BASE_def USER_LOAD_LIMIT_def Let_def)
  have l': "elf_segment True 0x200000 120 0x40200000 0x200040 ?m = Loaded True m'"
    using l by (simp add: elf_segment_by_value [OF hd] elf_image_phdr)
  have "m' a = ?m a" if "\<not> in_window True a" for a using segment_of_frame [of True _ _ _ ?ph ?m _ m' True a] l that by blast
  then have h': "read_hdr m' 0x200000 = read_hdr ?m 0x200000"
    using image_read_hdr [OF elf_image_outside] by fastforce
  have g1: "elf_segments True 0x200000 120 1 True True m' = Inr (True, True, m')"
    by (subst elf_segments.simps) (simp add: h' elf_image_hdr)
  have g: "elf_segments True 0x200000 120 0 False False ?m = Inr (True, True, m')"
    using l' g1 by (subst elf_segments.simps) (simp add: elf_image_hdr Let_def)
  obtain k' where t: "task_create_named 0x8000 0x40200000 (Some ''app'')
      (set_heap ((kheap_of kernel0)\<lparr>mem := m'\<rparr>) (task_init kernel0)) = Some (1, k')"
    by (simp add: task_create_named_def task_find_slot_def task_reap_slot_def task_init_def Let_def
      kernel0_def heap_eval upt_rec zero_task_def upd_task_def set_heap_def)
  have w: "user_load_range_ok True 0x40200000 1"
    by (simp add: user_load_range_ok_def range_fits_def USER_LOAD_BASE_def USER_LOAD_LIMIT_def)
  have "kern (put_mem m' elf_sys) = set_heap ((kheap_of kernel0)\<lparr>mem := m'\<rparr>) (task_init kernel0)"
    by (simp add: put_mem_def elf_sys_def set_heap_def)
  then obtain s' where e: "elf_load_buf qemu 0 0x200000 120 (Some ''app'') elf_sys = Some (1, s')"
    using g t w by (simp add: elf_load_buf_def sm elf_image_hdr qemu_def Let_def h' elf_start_def)
  have "image_outside (virt qemu) 0x200000 (unat (120::u32))" using elf_image_outside by (simp add: qemu_def)
  from elf_load_buf_valid [OF this e _ refl] e show ?thesis by auto
qed

end
