(* ===== verification/Syscall.thy ===== *)
theory Syscall
  imports Elf
begin

text \<open>
  The system call dispatcher (\<^verbatim>\<open>src/syscall.c\<close>). Arguments are 64-bit registers; a string
  argument is an address in byte memory, read up to its terminator. After \<open>SYS_EXIT\<close> the
  returned state is the one in which the next task runs. \<open>SYS_READ\<close> stores at the address the user
  passes, unchecked; a call whose bytes would fall on the kernel's own variables or on block
  headers has no result here.
\<close>

subsection \<open>Arguments\<close>

partial_function (option) cstr_at :: "mem \<Rightarrow> addr \<Rightarrow> string option" where
  "cstr_at m p =
     (if m p = 0 then Some []
      else do { s \<leftarrow> cstr_at m (p + 1); Some (char_of (unat (m p)) # s) })"

text \<open>The cast \<open>(int)arg\<close> of a register, and \<open>(unsigned long)r\<close> of an \<open>int\<close> result.\<close>

definition arg_int :: "u64 \<Rightarrow> int" where
  "arg_int a = sint (ucast a :: s32)"

definition SYS_PUTC :: u64 where "SYS_PUTC = 0"
definition SYS_PUTS :: u64 where "SYS_PUTS = 1"
definition SYS_TICKS :: u64 where "SYS_TICKS = 2"
definition SYS_YIELD :: u64 where "SYS_YIELD = 3"
definition SYS_EXIT :: u64 where "SYS_EXIT = 4"
definition SYS_SLEEP :: u64 where "SYS_SLEEP = 5"
definition SYS_OPEN :: u64 where "SYS_OPEN = 6"
definition SYS_CLOSE :: u64 where "SYS_CLOSE = 7"
definition SYS_READ :: u64 where "SYS_READ = 8"
definition SYS_WRITE :: u64 where "SYS_WRITE = 9"
definition SYS_SEEK :: u64 where "SYS_SEEK = 10"

lemmas sys_numbers = SYS_PUTC_def SYS_PUTS_def SYS_TICKS_def SYS_YIELD_def SYS_EXIT_def SYS_SLEEP_def
  SYS_OPEN_def SYS_CLOSE_def SYS_READ_def SYS_WRITE_def SYS_SEEK_def

subsection \<open>The dispatcher\<close>

definition vfs_result :: "int \<times> vfs \<Rightarrow> sys \<Rightarrow> u64 \<times> sys" where
  "vfs_result rv s = (of_int (fst rv), put_vfs (snd rv) s)"

definition syscall_handler :: "platform \<Rightarrow> u64 \<Rightarrow> u64 \<Rightarrow> u64 \<Rightarrow> u64 \<Rightarrow> u64 \<Rightarrow> sys \<Rightarrow> (u64 \<times> sys) option" where
  "syscall_handler pf now num arg0 arg1 arg2 s0 =
     (let s = (if \<not> init_mmu pf \<and> (num = SYS_PUTS \<or> num = SYS_PUTC) then say (''[syscall]'' @ [CHR 0x0A]) s0 else s0)
      in if num = SYS_PUTC then Some (0, s\<lparr>con := uart_putc (char_of (unat (ucast arg0 :: u8))) (con s)\<rparr>)
         else if num = SYS_PUTS then map_option (\<lambda>t. (0, say t s)) (cstr_at (sys_mem s) arg0)
         else if num = SYS_TICKS then Some (timer_get_irq_count (tmr s), s)
         else if num = SYS_YIELD then Some (0, with_kern (yield (tramp_addr pf) now) s)
         else if num = SYS_EXIT then Some (0, with_kern (task_exit (tramp_addr pf) now) s)
         else if num = SYS_SLEEP then Some (0, with_kern (task_sleep_ms (tramp_addr pf) (clock_hz pf) now now arg0) s)
         else if num = SYS_OPEN
           then do {
             path \<leftarrow> cstr_at (sys_mem s) arg0;
             rv \<leftarrow> vfs_open path (arg_int arg1) (vfs_of s);
             Some (vfs_result rv s)
           }
         else if num = SYS_CLOSE then Some (0, put_vfs (vfs_close (arg_int arg0) (vfs_of s)) s)
         else if num = SYS_READ
           then (let rv = vfs_read (arg_int arg0) arg1 (arg_int arg2) (vfs_of s)
                 in if clear_of_kernel pf s arg1 (nat (fst rv)) then Some (vfs_result rv s) else None)
         else if num = SYS_WRITE then Some (vfs_result (vfs_write (arg_int arg0) arg1 (arg_int arg2) (vfs_of s)) s)
         else if num = SYS_SEEK
           then Some (vfs_result (vfs_seek (arg_int arg0) (arg_int arg1) (arg_int arg2) (vfs_of s)) s)
         else Some (- 1, say [CHR 0x0A] ((\<lambda>s. s\<lparr>con := uart_puthex num (con s)\<rparr>) (say ''[syscall] unknown: '' s))))"

subsection \<open>System calls keep the file system consistent\<close>

lemma vfs_of_put [simp]: "vfs_of (put_vfs v s) = v"
  by (simp add: vfs_of_def put_vfs_def set_heap_def)

lemma vfs_of_con [simp]: "vfs_of (s\<lparr>con := c\<rparr>) = vfs_of s" "vfs_of (say msg s) = vfs_of s"
  by (simp_all add: vfs_of_def say_def)

lemma vfs_of_sched [simp]:
  "vfs_of (with_kern (yield t now) s) = vfs_of s" "vfs_of (with_kern (task_sleep_ms t hz t0 now ms) s) = vfs_of s"
  by (simp_all add: vfs_of_def with_kern_def yield_def task_sleep_ms_def upd_task_def)



text \<open>
  The length of \<open>SYS_WRITE\<close> is cast to \<open>int\<close> unchecked: a user task that passes \<open>0xFFFFFFFF\<close>
  makes \<open>vfs_write\<close> run with length \<open>-1\<close>.
\<close>

lemma syscall_write_negative:
  "syscall_handler pf now SYS_WRITE fd buf 0xFFFFFFFF s =
     Some (vfs_result (vfs_write (arg_int fd) buf (- 1) (vfs_of s)) s)"
  by (simp add: syscall_handler_def sys_numbers arg_int_def)

end
