(* ===== verification/Fat32.thy ===== *)
theory Fat32
  imports Vfs Uart
begin

text \<open>
  The read-only FAT32 driver (\<^verbatim>\<open>src/fat32.c\<close>). The card behind \<open>sd_read\<close> is a parameter:
  \<open>disk lba\<close> is the 512 bytes that reading one sector delivers, or \<open>None\<close> when the read
  reports an error. A walk along a cluster chain may not end, and a field of the boot sector
  may make the code read outside its sector buffer; both make the result \<open>None\<close>.
\<close>

unbundle bit_operations_syntax

type_synonym card = "u32 \<Rightarrow> bytes option"

subsection \<open>Little-endian fields and the mounted volume\<close>

definition rd16 :: "bytes \<Rightarrow> nat \<Rightarrow> u16" where
  "rd16 b off = ucast (b ! off) OR push_bit 8 (ucast (b ! (off + 1)))"

definition rd32 :: "bytes \<Rightarrow> nat \<Rightarrow> u32" where
  "rd32 b off = ucast (b ! off) OR push_bit 8 (ucast (b ! (off + 1))) OR
     push_bit 16 (ucast (b ! (off + 2))) OR push_bit 24 (ucast (b ! (off + 3)))"

record fat32_fs =
  mounted :: bool
  part_lba :: u32
  bytes_per_sector :: u32
  sectors_per_cluster :: u32
  fat_lba :: u32
  data_lba :: u32
  root_cluster :: u32

definition read_sector :: "card \<Rightarrow> u32 \<Rightarrow> bytes option" where
  "read_sector disk lba = disk lba"

text \<open>The inner \<open>None\<close> is the undefined read past the end of the sector buffer.\<close>

definition next_cluster :: "card \<Rightarrow> fat32_fs \<Rightarrow> u32 \<Rightarrow> u32 option" where
  "next_cluster disk fs c =
     (let fat_offset = c * 4;
          fat_sector = fat_lba fs + fat_offset div bytes_per_sector fs;
          byte_in_sec = unat (fat_offset mod bytes_per_sector fs)
      in case read_sector disk fat_sector of
           None \<Rightarrow> Some 0
         | Some buf \<Rightarrow>
             if byte_in_sec + 3 \<ge> 512 then None
             else let v = rd32 buf byte_in_sec AND 0x0FFFFFFF in Some (if v \<ge> 0x0FFFFFF8 then 0 else v))"

definition cluster_lba :: "fat32_fs \<Rightarrow> u32 \<Rightarrow> u32" where
  "cluster_lba fs c = data_lba fs + (c - 2) * sectors_per_cluster fs"

subsection \<open>8.3 names\<close>

definition to_upper :: "char \<Rightarrow> char" where
  "to_upper c = (if CHR ''a'' \<le> c \<and> c \<le> CHR ''z'' then char_of (of_char c - 32 :: nat) else c)"

definition uc :: "u8 \<Rightarrow> char" where
  "uc b = char_of (unat b)"

text \<open>\<open>for (j = hi; j >= lo; j--) if (name11[j] != ' ') \<dots>\<close>: the length without trailing blanks.\<close>

fun trim_len :: "bytes \<Rightarrow> nat \<Rightarrow> nat \<Rightarrow> nat" where
  "trim_len n11 lo 0 = 0"
| "trim_len n11 lo (Suc k) = (if n11 ! (lo + k) \<noteq> 0x20 then Suc k else trim_len n11 lo k)"

definition entry_to_str :: "bytes \<Rightarrow> string" where
  "entry_to_str n11 =
     (let nlen = trim_len n11 0 8; elen = trim_len n11 8 3
      in map (\<lambda>j. uc (n11 ! j)) [0..<nlen] @
         (if elen > 0 then CHR ''.'' # map (\<lambda>j. uc (n11 ! j)) [8..<8 + elen] else []))"

text \<open>The name and the extension loops of \<open>name_match\<close>, with the blanks that pad them.\<close>

fun take_name :: "string \<Rightarrow> nat \<Rightarrow> string \<times> string" where
  "take_name p 0 = ([], p)"
| "take_name p (Suc k) =
     (if chd p \<noteq> NUL \<and> chd p \<noteq> CHR ''.''
      then (let (n, q) = take_name (tl p) k in (to_upper (chd p) # n, q)) else (replicate (Suc k) CHR '' '', p))"

fun take_ext :: "string \<Rightarrow> nat \<Rightarrow> string" where
  "take_ext p 0 = []"
| "take_ext p (Suc k) =
     (if chd p \<noteq> NUL then to_upper (chd p) # take_ext (tl p) k else replicate (Suc k) CHR '' '')"

definition name_match :: "string \<Rightarrow> bytes \<Rightarrow> bool" where
  "name_match cmp n11 =
     (let (n8, p) = take_name cmp 8;
          q = (if chd p = CHR ''.'' then tl p else p);
          e3 = take_ext q 3
      in (\<forall>i \<in> set [0..<8]. to_upper (n8 ! i) = to_upper (uc (n11 ! i))) \<and>
         (\<forall>i \<in> set [0..<3]. to_upper (e3 ! i) = to_upper (uc (n11 ! (8 + i)))))"

subsection \<open>Directories\<close>

record dirent_t =
  found :: bool
  cluster :: u32
  dsize :: u32
  is_dir :: bool

abbreviation ATTR_DIR :: u8 where "ATTR_DIR \<equiv> 0x10"
abbreviation ATTR_LFN :: u8 where "ATTR_LFN \<equiv> 0x0F"

definition not_found :: dirent_t where
  "not_found = \<lparr>found = False, cluster = 0, dsize = 0, is_dir = False\<rparr>"

text \<open>The outcome of a loop over entries: it returned, or it fell through to the next sector.\<close>

datatype 'a scan = Return 'a | Next

definition entry_hit :: "bytes \<Rightarrow> dirent_t" where
  "entry_hit ent = \<lparr>found = True,
     cluster = push_bit 16 (ucast (rd16 ent 20)) OR ucast (rd16 ent 26),
     dsize = rd32 ent 28, is_dir = (ent ! 11 AND ATTR_DIR \<noteq> 0)\<rparr>"

definition skip_entry :: "bytes \<Rightarrow> bool" where
  "skip_entry ent \<longleftrightarrow> ent ! 0 = 0xE5 \<or> ent ! 11 = ATTR_LFN \<or> ent ! 0 = 0x2E"

fun find_entry :: "string \<Rightarrow> bytes \<Rightarrow> nat list \<Rightarrow> dirent_t scan" where
  "find_entry nm buf [] = Next"
| "find_entry nm buf (e # es) =
     (let ent = drop (e * 32) buf
      in if ent ! 0 = 0 then Return not_found
         else if skip_entry ent then find_entry nm buf es
         else if name_match nm ent then Return (entry_hit ent)
         else find_entry nm buf es)"

fun find_sectors :: "card \<Rightarrow> string \<Rightarrow> u32 \<Rightarrow> nat list \<Rightarrow> dirent_t scan" where
  "find_sectors disk nm lba [] = Next"
| "find_sectors disk nm lba (s # ss) =
     (case read_sector disk (lba + of_nat s) of
        None \<Rightarrow> Return not_found
      | Some buf \<Rightarrow> (case find_entry nm buf [0..<16] of Return r \<Rightarrow> Return r | Next \<Rightarrow> find_sectors disk nm lba ss))"

partial_function (option) dir_find :: "card \<Rightarrow> fat32_fs \<Rightarrow> u32 \<Rightarrow> string \<Rightarrow> dirent_t option" where
  "dir_find disk fs c nm =
     (if c = 0 then Some not_found
      else case find_sectors disk nm (cluster_lba fs c) [0..<unat (sectors_per_cluster fs)] of
             Return r \<Rightarrow> Some r
           | Next \<Rightarrow> Option.bind (next_cluster disk fs c) (\<lambda>c'. dir_find disk fs c' nm))"

text \<open>A component has at most 12 characters; \<open>next_comp\<close> and \<open>skip_slash\<close> are those of the VFS.\<close>

partial_function (option) path_walk :: "card \<Rightarrow> fat32_fs \<Rightarrow> string \<Rightarrow> dirent_t \<Rightarrow> dirent_t option" where
  "path_walk disk fs p res =
     (if chd p = NUL then Some res
      else
        let cq = next_comp 12 p; q = skip_slash (snd cq)
        in if fst cq = [] then path_walk disk fs q res
           else if \<not> is_dir res then Some (res\<lparr>found := False\<rparr>)
           else Option.bind (dir_find disk fs (cluster res) (fst cq)) (\<lambda>ch.
                  if \<not> found ch then Some (res\<lparr>found := False\<rparr>) else path_walk disk fs q ch))"

definition path_resolve :: "card \<Rightarrow> fat32_fs \<Rightarrow> string \<Rightarrow> dirent_t option" where
  "path_resolve disk fs path =
     path_walk disk fs (skip_slash path) \<lparr>found = True, cluster = root_cluster fs, dsize = 0, is_dir = True\<rparr>"

subsection \<open>Mounting\<close>

definition fat32_mounted :: "fat32_fs \<Rightarrow> bool" where
  "fat32_mounted fs = mounted fs"

definition mbr_partition :: "bytes \<Rightarrow> u32" where
  "mbr_partition buf =
     (if buf ! 510 = 0x55 \<and> buf ! 511 = 0xAA
      then (case find (\<lambda>i. buf ! (446 + i * 16 + 4) = 0x0B \<or> buf ! (446 + i * 16 + 4) = 0x0C) [0..<4] of
              None \<Rightarrow> 0
            | Some i \<Rightarrow> rd32 (drop (446 + i * 16) buf) 8)
      else 0)"

definition fat32_mount :: "bool \<Rightarrow> card \<Rightarrow> fat32_fs \<Rightarrow> uart \<Rightarrow> int \<times> fat32_fs \<times> uart" where
  "fat32_mount sd_ready disk fs0 u =
     (let fs = fs0\<lparr>mounted := False\<rparr>
      in if \<not> sd_ready then (- 1, fs, u)
         else case read_sector disk 0 of
             None \<Rightarrow> (- 1, fs, u)
           | Some buf0 \<Rightarrow>
               let part = mbr_partition buf0
               in case (if part \<noteq> 0 then read_sector disk part else Some buf0) of
                    None \<Rightarrow> (- 1, fs, u)
                  | Some buf \<Rightarrow>
                      if buf ! 510 \<noteq> 0x55 \<or> buf ! 511 \<noteq> 0xAA
                      then (- 1, fs, uart_puts (''[fat32] bad boot sector signature'' @ [CHR 0x0A]) u)
                      else if map uc (take 5 (drop 82 buf)) \<noteq> ''FAT32''
                      then (- 1, fs, uart_puts (''[fat32] not a FAT32 partition'' @ [CHR 0x0A]) u)
                      else
                        let fat = part + ucast (rd16 buf 14);
                            fs' = \<lparr>mounted = True, part_lba = part, bytes_per_sector = ucast (rd16 buf 11),
                                   sectors_per_cluster = ucast (buf ! 13), fat_lba = fat,
                                   data_lba = fat + ucast (buf ! 16) * rd32 buf 36, root_cluster = rd32 buf 44\<rparr>
                        in (0, fs',
                            uart_puts [CHR 0x0A]
                              (uart_puthex (ucast (sectors_per_cluster fs'))
                                (uart_puts '' spc=''
                                  (uart_puthex (ucast (root_cluster fs'))
                                    (uart_puts ''[fat32] mounted: root_cluster='' u))))))"

subsection \<open>Listing a directory\<close>

text \<open>The calls of the callback, in order: name, directory flag, size. \<open>Return\<close> carries the result.\<close>

type_synonym listing = "(string \<times> bool \<times> u32) list"

fun list_entries :: "bytes \<Rightarrow> nat list \<Rightarrow> listing \<Rightarrow> int scan \<times> listing" where
  "list_entries buf [] acc = (Next, acc)"
| "list_entries buf (e # es) acc =
     (let ent = drop (e * 32) buf
      in if ent ! 0 = 0 then (Return 0, acc)
         else if skip_entry ent then list_entries buf es acc
         else list_entries buf es (acc @ [(entry_to_str ent, ent ! 11 AND ATTR_DIR \<noteq> 0, rd32 ent 28)]))"

fun list_sectors :: "card \<Rightarrow> u32 \<Rightarrow> nat list \<Rightarrow> listing \<Rightarrow> int scan \<times> listing" where
  "list_sectors disk lba [] acc = (Next, acc)"
| "list_sectors disk lba (s # ss) acc =
     (case read_sector disk (lba + of_nat s) of
        None \<Rightarrow> (Return (- 1), acc)
      | Some buf \<Rightarrow>
          (case list_entries buf [0..<16] acc of
             (Return r, acc') \<Rightarrow> (Return r, acc') | (Next, acc') \<Rightarrow> list_sectors disk lba ss acc'))"

partial_function (option) list_dir :: "card \<Rightarrow> fat32_fs \<Rightarrow> u32 \<Rightarrow> listing \<Rightarrow> (int \<times> listing) option" where
  "list_dir disk fs c acc =
     (if c = 0 then Some (0, acc)
      else
        let ra = list_sectors disk (cluster_lba fs c) [0..<unat (sectors_per_cluster fs)] acc
        in case fst ra of
             Return r \<Rightarrow> Some (r, snd ra)
           | Next \<Rightarrow> Option.bind (next_cluster disk fs c) (\<lambda>c'. list_dir disk fs c' (snd ra)))"

definition fat32_readdir :: "card \<Rightarrow> fat32_fs \<Rightarrow> string \<Rightarrow> (int \<times> listing) option" where
  "fat32_readdir disk fs path =
     (if \<not> mounted fs then Some (- 1, [])
      else do {
        dir \<leftarrow> path_resolve disk fs path;
        if \<not> found dir \<or> \<not> is_dir dir then Some (- 1, []) else list_dir disk fs (cluster dir) []
      })"

subsection \<open>Loading a file\<close>

text \<open>The sector loop inside one cluster; the \<open>bool\<close> says that a read failed.\<close>

fun load_sectors :: "card \<Rightarrow> u32 \<Rightarrow> nat list \<Rightarrow> addr \<Rightarrow> u32 \<Rightarrow> u32 \<Rightarrow> mem \<Rightarrow> bool \<times> u32 \<times> mem" where
  "load_sectors disk lba [] buf to_read dn m = (False, dn, m)"
| "load_sectors disk lba (s # ss) buf to_read dn m =
     (if \<not> dn < to_read then (False, dn, m)
      else case read_sector disk (lba + of_nat s) of
          None \<Rightarrow> (True, dn, m)
        | Some sec \<Rightarrow>
            let copy = (if dn + 512 > to_read then to_read - dn else 512)
            in load_sectors disk lba ss buf to_read (dn + copy) (mwrite m (buf + ucast dn) (take (unat copy) sec)))"

partial_function (option) load_chain ::
  "card \<Rightarrow> fat32_fs \<Rightarrow> addr \<Rightarrow> u32 \<Rightarrow> u32 \<Rightarrow> u32 \<Rightarrow> mem \<Rightarrow> (int \<times> mem) option"
where
  "load_chain disk fs buf to_read c dn m =
     (if c \<noteq> 0 \<and> dn < to_read
      then
        let r = load_sectors disk (cluster_lba fs c) [0..<unat (sectors_per_cluster fs)] buf to_read dn m
        in if fst r then Some (- 1, snd (snd r))
           else Option.bind (next_cluster disk fs c) (\<lambda>c'. load_chain disk fs buf to_read c' (fst (snd r)) (snd (snd r)))
      else Some (sint (dn :: s32), m))"

definition fat32_load :: "card \<Rightarrow> fat32_fs \<Rightarrow> string \<Rightarrow> addr \<Rightarrow> u32 \<Rightarrow> mem \<Rightarrow> (int \<times> mem) option" where
  "fat32_load disk fs path buf maxlen m =
     (if \<not> mounted fs then Some (- 1, m)
      else do {
        f \<leftarrow> path_resolve disk fs path;
        if \<not> found f \<or> is_dir f then Some (- 1, m)
        else load_chain disk fs buf (if dsize f < maxlen then dsize f else maxlen) (cluster f) 0 m
      })"

subsection \<open>Listed names can be opened\<close>

lemma to_upper_idem [simp]: "to_upper (to_upper c) = to_upper c"
proof (cases "CHR ''a'' \<le> c \<and> c \<le> CHR ''z''")
  case True
  then have "97 \<le> (of_char c :: nat) \<and> of_char c \<le> (122 :: nat)" by (simp add: less_eq_char_def)
  moreover from this have "(of_char (char_of (of_char c - 32 :: nat) :: char) :: nat) = of_char c - 32"
    by (auto intro: mod_less)
  ultimately have "\<not> CHR ''a'' \<le> (char_of (of_char c - 32 :: nat) :: char)"
    by (simp add: less_eq_char_def) linarith
  then show ?thesis using True by (simp add: to_upper_def)
qed (auto simp: to_upper_def)

lemma to_upper_blank [simp]: "to_upper CHR '' '' = CHR '' ''"
  by (simp add: to_upper_def less_eq_char_def)

lemma take_name_prefix:
  assumes "\<forall>c \<in> set w. c \<noteq> NUL \<and> c \<noteq> CHR ''.''" "length w \<le> k" "rest = [] \<or> chd rest = CHR ''.''"
  shows "take_name (w @ rest) k = (map to_upper w @ replicate (k - length w) CHR '' '', rest)"
  using assms(1,2)
proof (induction w arbitrary: k)
  case Nil
  then show ?case using assms(3) by (cases k) auto
next
  case (Cons c w)
  then show ?case by (cases k) auto
qed

lemma take_ext_all:
  assumes "NUL \<notin> set w" "length w \<le> k"
  shows "take_ext w k = map to_upper w @ replicate (k - length w) CHR '' ''"
  using assms
proof (induction w arbitrary: k)
  case Nil
  then show ?case by (cases k) auto
next
  case (Cons c w)
  then show ?case by (cases k) auto
qed

lemma trim_len_le: "trim_len n lo k \<le> k"
  by (induction k) auto

lemma trim_len_blank: "trim_len n lo k \<le> j \<Longrightarrow> j < k \<Longrightarrow> n ! (lo + j) = 0x20"
  by (induction k) (auto simp: less_Suc_eq split: if_splits)

lemma uc_eq [simp]: "uc 0x20 = CHR '' ''" "uc b = NUL \<longleftrightarrow> b = 0" "uc b = CHR ''.'' \<longleftrightarrow> b = 0x2E"
proof -
  have r: "(of_char (uc b) :: nat) = unat b" for b using unsigned_less [of b, where 'a = nat] by (simp add: uc_def)
  have i: "uc b = uc c \<longleftrightarrow> b = c" for b c using r [of b] r [of c] by (metis unsigned_word_eqI)
  have k: "uc 0x20 = CHR '' ''" "uc 0 = NUL" "uc 0x2E = CHR ''.''" by (simp_all add: uc_def char_of_eq_iff)
  show "uc 0x20 = CHR '' ''" by (rule k)
  show "uc b = NUL \<longleftrightarrow> b = 0" using i [of b 0] k(2) by simp
  show "uc b = CHR ''.'' \<longleftrightarrow> b = 0x2E" using i [of b "0x2E"] k(3) by simp
qed

text \<open>
  every listed name can be looked up. For a directory entry whose name part has no dot and
  whose name and extension have no zero byte, the text that \<open>fat32_readdir\<close> reports matches the
  entry it came from.
\<close>

theorem fat32_listed_name_matches:
  assumes "\<forall>j < 8. n11 ! j \<noteq> 0 \<and> n11 ! j \<noteq> 0x2E" "\<forall>j < 3. n11 ! (8 + j) \<noteq> 0"
  shows "name_match (entry_to_str n11) n11"
proof -
  define nl el where "nl = trim_len n11 0 8" and "el = trim_len n11 8 3"
  define w e where "w = map (\<lambda>j. uc (n11 ! j)) [0..<nl]" and "e = map (\<lambda>j. uc (n11 ! j)) [8..<8 + el]"
  have b: "nl \<le> 8" "el \<le> 3" by (simp_all add: nl_def el_def trim_len_le)
  let ?rest = "if el > 0 then CHR ''.'' # e else []"
  have str: "entry_to_str n11 = w @ ?rest" by (simp add: entry_to_str_def Let_def w_def e_def nl_def el_def)
  have w: "\<forall>c \<in> set w. c \<noteq> NUL \<and> c \<noteq> CHR ''.''" "length w \<le> 8" using assms(1) b by (auto simp: w_def)
  have "uc (n11 ! j) \<noteq> NUL" if "j \<in> set [8..<8 + el]" for j
  proof -
    have j: "8 \<le> j" "j < 8 + el" using that by auto
    then have "n11 ! (8 + (j - 8)) \<noteq> 0" using assms(2) [rule_format, of "j - 8"] b by linarith
    then show ?thesis using j by simp
  qed
  then have "NUL \<notin> (\<lambda>j. uc (n11 ! j)) ` set [8..<8 + el]" by (metis imageE)
  then have en: "NUL \<notin> set e" "length e \<le> 3" using b unfolding e_def by (simp_all del: set_upt)
  have n8: "take_name (w @ ?rest) 8 = (map to_upper w @ replicate (8 - length w) CHR '' '', ?rest)"
    by (rule take_name_prefix [OF w]) auto
  have e3: "take_ext (if chd ?rest = CHR ''.'' then tl ?rest else ?rest) 3 =
      map to_upper e @ replicate (3 - length e) CHR '' ''"
    using take_ext_all [OF en] take_ext_all [of "[]" 3] by (auto simp: e_def)
  have 1: "to_upper ((map to_upper w @ replicate (8 - length w) CHR '' '') ! i) = to_upper (uc (n11 ! i))" if "i < 8" for i
    using that b trim_len_blank [of n11 0 8 i] by (auto simp: nth_append w_def nl_def not_less)
  have 2: "to_upper ((map to_upper e @ replicate (3 - length e) CHR '' '') ! i) = to_upper (uc (n11 ! (8 + i)))" if "i < 3" for i
    using that b trim_len_blank [of n11 8 3 i] by (auto simp: nth_append e_def el_def not_less)
  show ?thesis unfolding name_match_def str n8 Let_def prod.case e3 using 1 2 by simp
qed

definition entry0 :: bytes where
  "entry0 = [0x4B, 0x45, 0x52, 0x4E, 0x45, 0x4C, 0x37, 0x20, 0x49, 0x4D, 0x47]"

theorem fat32_listed_name_matches_witness:
  "entry_to_str entry0 = ''KERNEL7.IMG'' \<and> name_match (entry_to_str entry0) entry0"
proof
  show "entry_to_str entry0 = ''KERNEL7.IMG''"
    by code_simp
  show "name_match (entry_to_str entry0) entry0"
    by (rule fat32_listed_name_matches) code_simp+
qed

subsection \<open>Loading delivers the file\<close>

text \<open>The clusters of a finite chain, in order, and the bytes they hold.\<close>

fun chain :: "card \<Rightarrow> fat32_fs \<Rightarrow> u32 \<Rightarrow> u32 list \<Rightarrow> bool" where
  "chain disk fs c [] \<longleftrightarrow> c = 0"
| "chain disk fs c (x # xs) \<longleftrightarrow> c = x \<and> c \<noteq> 0 \<and>
     (case next_cluster disk fs c of None \<Rightarrow> False | Some c' \<Rightarrow> chain disk fs c' xs)"

definition sector_ok :: "card \<Rightarrow> u32 \<Rightarrow> bool" where
  "sector_ok disk lba \<longleftrightarrow> (case disk lba of None \<Rightarrow> False | Some b \<Rightarrow> length b = 512)"

definition run_data :: "card \<Rightarrow> u32 \<Rightarrow> nat list \<Rightarrow> bytes" where
  "run_data disk lba ss = concat (map (\<lambda>s. the (disk (lba + of_nat s))) ss)"

definition cluster_data :: "card \<Rightarrow> fat32_fs \<Rightarrow> u32 \<Rightarrow> bytes" where
  "cluster_data disk fs c = run_data disk (cluster_lba fs c) [0..<unat (sectors_per_cluster fs)]"

definition clusters_ok :: "card \<Rightarrow> fat32_fs \<Rightarrow> u32 list \<Rightarrow> bool" where
  "clusters_ok disk fs cs \<longleftrightarrow>
     (\<forall>c \<in> set cs. \<forall>s < unat (sectors_per_cluster fs). sector_ok disk (cluster_lba fs c + of_nat s))"

lemma mwrite_append:
  assumes "length xs + length ys \<le> 2 ^ 64"
  shows "mwrite (mwrite m p xs) (p + of_nat (length xs)) ys = mwrite m p (xs @ ys)"
proof
  fix a
  let ?n = "length xs"
  show "mwrite (mwrite m p xs) (p + of_nat ?n) ys a = mwrite m p (xs @ ys) a"
  proof (cases "ys = []")
    case False
    then have n: "unat (of_nat ?n :: u64) = ?n" using assms by (intro unat_of_nat_64) (cases ys; simp)
    have e: "a - (p + of_nat ?n) = (a - p) - of_nat ?n" by simp
    show ?thesis
    proof (cases "unat (a - p) < ?n")
      case True
      have "length ys \<le> unat (a - p - of_nat ?n)"
      proof -
        have "apart (of_nat ?n :: u64) (length ys) 0 (Suc (unat (a - p)))" using True by (simp add: apart_def n)
        from unat_sub_apart [OF this, of "unat (a - p)"] show ?thesis
          using assms True n by (simp del: unat_of_nat)
      qed
      then show ?thesis using True unfolding mwrite_def e by (simp add: nth_append)
    next
      case F: False
      then have "of_nat ?n \<le> a - p" using n by (simp add: word_le_nat_alt)
      then have "unat (a - p - of_nat ?n) = unat (a - p) - ?n" using n by (simp add: unat_sub)
      then show ?thesis using F unfolding mwrite_def e by (auto simp: nth_append)
    qed
  qed simp
qed

text \<open>The sector loop stores the bytes of its sectors as far as they are wanted.\<close>

lemma load_sectors_data:
  assumes "unat t + 512 \<le> 2 ^ 32" "\<forall>s \<in> set ss. sector_ok disk (lba + of_nat s)" "unat dn \<le> unat t"
  shows "\<exists>dn'. load_sectors disk lba ss buf t dn m =
      (False, dn', mwrite m (buf + ucast dn) (take (unat t - unat dn) (run_data disk lba ss))) \<and>
    unat dn' = min (unat t) (unat dn + length (run_data disk lba ss))"
  using assms(2,3)
proof (induction ss arbitrary: dn m)
  case Nil
  then show ?case by (simp add: run_data_def)
next
  case (Cons x ss)
  obtain sec where sec: "disk (lba + of_nat x) = Some sec" "length sec = 512"
    using Cons.prems(1) by (auto simp: sector_ok_def split: option.splits)
  have rd: "run_data disk lba (x # ss) = sec @ run_data disk lba ss" by (simp add: run_data_def sec)
  show ?case
  proof (cases "dn < t")
    case False
    then have "unat dn = unat t" using Cons.prems(2) by (simp add: word_less_nat_alt)
    then show ?thesis using False by simp
  next
    case True
    define cp where "cp = (if dn + 512 > t then t - dn else 512)"
    have lt: "unat dn < unat t" using True by (simp add: word_less_nat_alt)
    have s512: "unat (dn + 512) = unat dn + 512"
      using lt assms(1) by (simp add: unat_word_ariths)
    have cp: "unat cp = min 512 (unat t - unat dn)"
      using lt s512 by (auto simp: cp_def word_less_nat_alt unat_sub word_le_nat_alt min_def)
    have dc: "unat (dn + cp) = unat dn + unat cp"
      using lt assms(1) cp by (simp add: unat_word_ariths)
    let ?m = "mwrite m (buf + ucast dn) (take (unat cp) sec)"
    have e: "load_sectors disk lba (x # ss) buf t dn m = load_sectors disk lba ss buf t (dn + cp) ?m"
      using True sec by (simp add: read_sector_def cp_def Let_def)
    have le: "unat (dn + cp) \<le> unat t" using dc cp lt by simp
    obtain dn' where IH: "load_sectors disk lba ss buf t (dn + cp) ?m =
        (False, dn', mwrite ?m (buf + ucast (dn + cp)) (take (unat t - unat (dn + cp)) (run_data disk lba ss)))"
      "unat dn' = min (unat t) (unat (dn + cp) + length (run_data disk lba ss))"
      using Cons.IH [OF _ le] Cons.prems(1) by (metis list.set_intros(2))
    have l: "length (take (unat cp) sec) = unat cp" using cp sec by simp
    have a: "buf + ucast (dn + cp) = buf + ucast dn + of_nat (length (take (unat cp) sec))"
    proof -
      have "(ucast (dn + cp) :: u64) = of_nat (unat dn + unat cp)" using dc by (metis of_nat_unat)
      then show ?thesis unfolding l by (simp add: add.assoc)
    qed
    let ?r = "take (unat t - unat (dn + cp)) (run_data disk lba ss)"
    have "length ?r \<le> unat t" "unat cp \<le> 512" using cp by simp_all
    then have "length (take (unat cp) sec) + length ?r \<le> 2 ^ 64" unfolding l using assms(1) by simp
    from mwrite_append [OF this, of m "buf + ucast dn"]
    have "mwrite ?m (buf + ucast (dn + cp)) ?r = mwrite m (buf + ucast dn) (take (unat cp) sec @ ?r)"
      by (simp only: a)
    moreover have "take (unat cp) sec @ ?r = take (unat t - unat dn) (run_data disk lba (x # ss))"
      using sec cp dc by (auto simp: rd min_def)
    moreover have "unat dn' = min (unat t) (unat dn + length (run_data disk lba (x # ss)))"
      using IH(2) dc cp sec lt by (simp add: rd min_def) linarith
    ultimately show ?thesis using e IH(1) by simp
  qed
qed

lemma sint_small: "unat (w :: u32) < 2 ^ 31 \<Longrightarrow> sint w = int (unat w)"
proof -
  assume a: "unat w < 2 ^ 31"
  have u: "uint w = int (unat w)" by (simp only: uint_nat)
  have "int (unat w) < int (2 ^ 31)" using a by (simp only: of_nat_less_iff)
  then have "uint w < 2 ^ 31" unfolding u by (simp only: of_nat_power of_nat_numeral)
  moreover have "0 \<le> uint w" by simp
  then have "- (2 ^ 31) \<le> uint w" by (rule order_trans [rotated]) simp
  ultimately have s: "signed_take_bit 31 (uint w) = uint w" by (intro signed_take_bit_int_eq_self)
  have l: "LENGTH(32) - Suc 0 = 31" by simp
  show ?thesis unfolding sint_uint l s by (rule u)
qed

lemma load_chain_data:
  assumes "unat t < 2 ^ 31" "chain disk fs c cs" "clusters_ok disk fs cs" "unat dn \<le> unat t"
  shows "load_chain disk fs buf t c dn m =
    Some (int (min (unat t) (unat dn + length (concat (map (cluster_data disk fs) cs)))),
      mwrite m (buf + ucast dn) (take (unat t - unat dn) (concat (map (cluster_data disk fs) cs))))"
  using assms(2-4)
proof (induction cs arbitrary: c dn m)
  case Nil
  have "sint dn = int (unat dn)" using Nil assms(1) by (intro sint_small) simp
  then show ?case using Nil by (subst load_chain.simps) simp
next
  case (Cons x cs)
  define D where "D = concat (map (cluster_data disk fs) cs)"
  obtain c' where c: "c = x" "c \<noteq> 0" "next_cluster disk fs c = Some c'" "chain disk fs c' cs"
    using Cons.prems(1) by (auto split: option.splits)
  show ?case
  proof (cases "dn < t")
    case False
    then have "unat dn = unat t" using Cons.prems(3) by (simp add: word_less_nat_alt)
    moreover have "sint dn = int (unat dn)" using Cons.prems(3) assms(1) by (intro sint_small) simp
    ultimately show ?thesis using False by (subst load_chain.simps) simp
  next
    case True
    let ?ss = "[0..<unat (sectors_per_cluster fs)]"
    have t5: "unat t + 512 \<le> 2 ^ 32" using assms(1) by simp
    have "\<forall>s \<in> set ?ss. sector_ok disk (cluster_lba fs c + of_nat s)"
      using Cons.prems(2) c(1) by (simp add: clusters_ok_def)
    from load_sectors_data [OF t5 this Cons.prems(3), of buf m] obtain dn' where
      s: "load_sectors disk (cluster_lba fs c) ?ss buf t dn m =
          (False, dn', mwrite m (buf + ucast dn) (take (unat t - unat dn) (cluster_data disk fs c)))"
      "unat dn' = min (unat t) (unat dn + length (cluster_data disk fs c))"
      unfolding cluster_data_def by blast
    let ?a = "take (unat t - unat dn) (cluster_data disk fs c)"
    have ok: "clusters_ok disk fs cs" using Cons.prems(2) by (simp add: clusters_ok_def)
    have IH: "load_chain disk fs buf t c' dn' (mwrite m (buf + ucast dn) ?a) =
        Some (int (min (unat t) (unat dn' + length D)),
          mwrite (mwrite m (buf + ucast dn) ?a) (buf + ucast dn') (take (unat t - unat dn') D))"
      unfolding D_def using s(2) by (intro Cons.IH [OF c(4) ok]) simp
    have la: "unat dn' = unat dn + length ?a" using s(2) Cons.prems(3) by auto
    have a: "buf + ucast dn' = buf + ucast dn + of_nat (length ?a)"
    proof -
      have "(ucast dn' :: u64) = of_nat (unat dn + length ?a)" using la by (metis of_nat_unat)
      then show ?thesis by (simp add: add.assoc)
    qed
    have "length ?a \<le> unat t" "length (take (unat t - unat dn') D) \<le> unat t" by simp_all
    then have "length ?a + length (take (unat t - unat dn') D) \<le> 2 ^ 64" using assms(1) by simp
    from mwrite_append [OF this, of m "buf + ucast dn"]
    have "mwrite (mwrite m (buf + ucast dn) ?a) (buf + ucast dn') (take (unat t - unat dn') D) =
        mwrite m (buf + ucast dn) (?a @ take (unat t - unat dn') D)" by (simp only: a)
    moreover have "?a @ take (unat t - unat dn') D = take (unat t - unat dn) (cluster_data disk fs c @ D)"
      using s(2) by (auto simp: min_def)
    moreover have "min (unat t) (unat dn' + length D) = min (unat t) (unat dn + length (cluster_data disk fs c @ D))"
      using s(2) by auto
    moreover have "concat (map (cluster_data disk fs) (x # cs)) = cluster_data disk fs c @ D" by (simp add: D_def c(1))
    ultimately show ?thesis using True c s(1) IH by (subst load_chain.simps) (simp add: Let_def)
  qed
qed


text \<open>A card with one file of four bytes, \<open>/F\<close>, in cluster 3.\<close>

definition fat0 :: fat32_fs where
  "fat0 = \<lparr>mounted = True, part_lba = 0, bytes_per_sector = 512, sectors_per_cluster = 1, fat_lba = 1,
     data_lba = 2, root_cluster = 2\<rparr>"

definition fat_sector0 :: bytes where
  "fat_sector0 = replicate 12 0 @ [0xFF, 0xFF, 0xFF, 0x0F] @ replicate 496 0"

definition dir_sector0 :: bytes where
  "dir_sector0 = [0x46, 0x20, 0x20, 0x20, 0x20, 0x20, 0x20, 0x20, 0x20, 0x20, 0x20, 0x20, 0, 0, 0, 0,
     0, 0, 0, 0, 0, 0, 0, 0, 0, 0, 3, 0, 4, 0, 0, 0] @ replicate 480 0"

definition card0 :: card where
  "card0 lba = (if lba = 1 then Some fat_sector0 else if lba = 2 then Some dir_sector0
     else if lba = 3 then Some (replicate 512 0x41) else None)"

lemma card0_resolve:
  "path_resolve card0 fat0 ''/F'' = Some \<lparr>found = True, cluster = 3, dsize = 4, is_dir = False\<rparr>"
proof -
  have e: "find_entry ''F'' dir_sector0 [0..<16] = Return \<lparr>found = True, cluster = 3, dsize = 4, is_dir = False\<rparr>"
    by code_simp
  then have "find_sectors card0 ''F'' 2 [0..<1] = Return \<lparr>found = True, cluster = 3, dsize = 4, is_dir = False\<rparr>"
    by (simp add: read_sector_def card0_def)
  then have "dir_find card0 fat0 2 ''F'' = Some \<lparr>found = True, cluster = 3, dsize = 4, is_dir = False\<rparr>"
    by (subst dir_find.simps) (simp add: cluster_lba_def fat0_def)
  then show ?thesis
    by (simp add: path_resolve_def skip_slash_def path_walk.simps [of _ _ "''F''"] path_walk.simps [of _ _ "[]"]
      next_comp_all fat0_def Let_def)
qed


text \<open>
  A cluster that is its own successor makes the directory search endless, and a sector size
  above 512, which \<open>fat32_mount\<close> accepts, makes \<open>next_cluster\<close> read past its sector buffer.
\<close>

lemma next_cluster_overrun:
  assumes "bytes_per_sector fs = 4096" "disk (fat_lba fs) = Some b"
  shows "next_cluster disk fs 200 = None"
  using assms by (simp add: next_cluster_def read_sector_def Let_def)

end
