(* ===== verification/TinyLex.thy ===== *)
theory TinyLex
  imports KString
begin

text \<open>
  The lexical level of the tiny C compiler, \<^verbatim>\<open>src/tinycc.c\<close>: white space and comments,
  keywords, numbers, character and string literals, identifiers, and the skipping of
  declarations and function headers outside the body. A source pointer is the list of the
  characters from it up to the end of the text; the end reads as NUL, as the terminator that
  \<open>tinycc_compile\<close> stores does, and \<open>p < end\<close> is that the list is not empty. A scanner returns
  whether it matched and the advanced pointer.
\<close>

subsection \<open>Characters\<close>

definition is_space :: "char \<Rightarrow> bool" where
  "is_space c \<longleftrightarrow> c = CHR '' '' \<or> c = CHR 0x09 \<or> c = CHR 0x0A \<or> c = CHR 0x0D"

definition is_digit :: "char \<Rightarrow> bool" where
  "is_digit c \<longleftrightarrow> CHR ''0'' \<le> c \<and> c \<le> CHR ''9''"

definition is_ident_start :: "char \<Rightarrow> bool" where
  "is_ident_start c \<longleftrightarrow> (c \<ge> CHR ''a'' \<and> c \<le> CHR ''z'') \<or> (c \<ge> CHR ''A'' \<and> c \<le> CHR ''Z'') \<or> c = CHR ''_''"

definition is_ident_char :: "char \<Rightarrow> bool" where
  "is_ident_char c \<longleftrightarrow> is_ident_start c \<or> is_digit c"

subsection \<open>White space and comments\<close>

fun skip_line :: "string \<Rightarrow> string" where
  "skip_line [] = []"
| "skip_line (c # cs) = (if c \<noteq> NUL \<and> c \<noteq> CHR 0x0A then skip_line cs else c # cs)"

fun skip_block :: "string \<Rightarrow> string" where
  "skip_block [] = []"
| "skip_block (c # cs) =
     (if c \<noteq> NUL \<and> \<not> (c = CHR ''*'' \<and> chd cs = CHR ''/'') then skip_block cs else c # cs)"

lemma length_skip_line: "length (skip_line s) \<le> length s"
  by (induction s) auto

lemma length_skip_block: "length (skip_block s) \<le> length s"
  by (induction s) auto

lemma drop2_less: "chd s \<noteq> NUL \<Longrightarrow> length (drop 2 s) < length s"
  by (cases s) auto

lemma comment_shrinks:
  assumes "chd (dropWhile is_space ps) \<noteq> NUL"
  shows "length (skip_line (drop 2 (dropWhile is_space ps))) < length ps"
    "length (skip_block (drop 2 (dropWhile is_space ps))) < length ps"
  using drop2_less [OF assms] length_dropWhile_le [of is_space ps]
    length_skip_line [of "drop 2 (dropWhile is_space ps)"] length_skip_block [of "drop 2 (dropWhile is_space ps)"]
  by linarith+

function skip_ws_and_comments :: "string \<Rightarrow> string" where
  "skip_ws_and_comments ps =
     (let s = dropWhile is_space ps
      in if chd s = CHR ''/'' \<and> chd (tl s) = CHR ''/'' then skip_ws_and_comments (skip_line (drop 2 s))
         else if chd s = CHR ''/'' \<and> chd (tl s) = CHR ''*''
         then
           let s' = skip_block (drop 2 s)
           in skip_ws_and_comments (if chd s' \<noteq> NUL then drop 2 s' else s')
         else s)"
  by pat_completeness auto

termination
proof (relation "measure length")
  fix ps :: string and s s' assume "s = dropWhile is_space ps" "chd s = CHR ''/'' \<and> chd (tl s) = CHR ''*''"
    "s' = skip_block (drop 2 s)"
  then show "((if chd s' \<noteq> NUL then drop 2 s' else s'), ps) \<in> measure length"
    using comment_shrinks(2) [of ps] by auto
qed (use comment_shrinks(1) in auto)

declare skip_ws_and_comments.simps [simp del]

definition skip_preprocessor_line :: "string \<Rightarrow> bool \<times> string" where
  "skip_preprocessor_line ps = (if chd ps \<noteq> CHR ''#'' then (False, ps) else (True, skip_line ps))"

subsection \<open>Tokens\<close>

definition match_kw :: "string \<Rightarrow> string \<Rightarrow> bool \<times> string" where
  "match_kw s kw =
     (let n = k_strlen kw; c = chd (drop n s)
      in if k_strncmp s kw n \<noteq> 0 then (False, s)
         else if (c \<ge> CHR ''a'' \<and> c \<le> CHR ''z'') \<or> (c \<ge> CHR ''A'' \<and> c \<le> CHR ''Z'') \<or>
                 (c \<ge> CHR ''0'' \<and> c \<le> CHR ''9'') \<or> c = CHR ''_'' then (False, s)
         else (True, drop n s))"

definition expect_char :: "string \<Rightarrow> char \<Rightarrow> bool \<times> string" where
  "expect_char ps want =
     (let s = skip_ws_and_comments ps in if chd s \<noteq> want then (False, s) else (True, tl s))"

definition match_str :: "string \<Rightarrow> string \<Rightarrow> bool \<times> string" where
  "match_str ps tok =
     (let s = skip_ws_and_comments ps; n = k_strlen tok
      in if k_strncmp s tok n \<noteq> 0 then (False, s) else (True, drop n s))"

text \<open>A literal or an identifier: \<open>None\<close> when there is none; the pointer stays after white space.\<close>

fun digits_loop :: "s32 \<Rightarrow> string \<Rightarrow> s32 \<times> string" where
  "digits_loop val [] = (val, [])"
| "digits_loop val (c # cs) =
     (if is_digit c then digits_loop (val * 10 + (of_nat (of_char c) - 48)) cs else (val, c # cs))"

definition parse_number :: "string \<Rightarrow> s32 option \<times> string" where
  "parse_number ps =
     (let s0 = skip_ws_and_comments ps;
          neg = (chd s0 = CHR ''-'');
          s = (if neg then tl s0 else s0)
      in if \<not> is_digit (chd s) then (None, s0)
         else let (val, s') = digits_loop 0 s in (Some (if neg then - val else val), s'))"

definition string_escape :: "char \<Rightarrow> char option" where
  "string_escape e =
     (if e = CHR ''n'' then Some (CHR 0x0A) else if e = CHR ''r'' then Some (CHR 0x0D)
      else if e = CHR ''t'' then Some (CHR 0x09) else if e = CHR 0x5C then Some (CHR 0x5C)
      else if e = CHR 0x22 then Some (CHR 0x22) else None)"

text \<open>\<open>room\<close> is \<open>out_cap - 1 - len\<close>.\<close>

fun c_string_loop :: "nat \<Rightarrow> string \<Rightarrow> (string \<times> string) option" where
  "c_string_loop room [] = None"
| "c_string_loop room (c # cs) =
     (if c = NUL then None
      else if c = CHR 0x22 then Some ([], cs)
      else if c = CHR 0x5C then
        (case cs of
           [] \<Rightarrow> None
         | e # cs' \<Rightarrow>
             (case string_escape e of
                None \<Rightarrow> None
              | Some c' \<Rightarrow>
                  if room = 0 then None
                  else map_option (\<lambda>(t, r). (c' # t, r)) (c_string_loop (room - 1) cs')))
      else if room = 0 then None
      else map_option (\<lambda>(t, r). (c # t, r)) (c_string_loop (room - 1) cs))"

definition parse_c_string :: "string \<Rightarrow> nat \<Rightarrow> string option \<times> string" where
  "parse_c_string ps out_cap =
     (let s = skip_ws_and_comments ps
      in if chd s \<noteq> CHR 0x22 then (None, s)
         else case c_string_loop (out_cap - 1) (tl s) of
                None \<Rightarrow> (None, s)
              | Some (t, s') \<Rightarrow> (Some t, s'))"

definition char_escape :: "char \<Rightarrow> char option" where
  "char_escape e =
     (if e = CHR ''n'' then Some (CHR 0x0A) else if e = CHR ''r'' then Some (CHR 0x0D)
      else if e = CHR ''t'' then Some (CHR 0x09) else if e = CHR 0x5C then Some (CHR 0x5C)
      else if e = CHR 0x27 then Some (CHR 0x27) else None)"

definition parse_c_char :: "string \<Rightarrow> s32 option \<times> string" where
  "parse_c_char ps =
     (let s = skip_ws_and_comments ps
      in if chd s \<noteq> CHR 0x27 then (None, s)
         else
           let s1 = tl s;
               r = (if chd s1 = CHR 0x5C then map_option (\<lambda>c. (c, drop 2 s1)) (char_escape (chd (tl s1)))
                    else if chd s1 = NUL \<or> chd s1 = CHR 0x27 then None
                    else Some (chd s1, tl s1))
           in case r of
                None \<Rightarrow> (None, s)
              | Some (c, s2) \<Rightarrow>
                  if chd s2 \<noteq> CHR 0x27 then (None, s) else (Some (of_nat (of_char c)), tl s2))"

fun ident_loop :: "nat \<Rightarrow> string \<Rightarrow> string \<times> string" where
  "ident_loop 0 s = ([], s)"
| "ident_loop (Suc room) s =
     (if is_ident_char (chd s) then let (t, s') = ident_loop room (tl s) in (chd s # t, s') else ([], s))"

definition parse_identifier :: "string \<Rightarrow> nat \<Rightarrow> string option \<times> string" where
  "parse_identifier ps cap =
     (let s = skip_ws_and_comments ps
      in if \<not> is_ident_start (chd s) then (None, s)
         else let (t, s') = ident_loop (cap - 1) s
              in if is_ident_char (chd s') then (None, s) else (Some t, s'))"

subsection \<open>Declarations and headers outside a body\<close>

definition match_word_prefix :: "string \<Rightarrow> string \<Rightarrow> bool" where
  "match_word_prefix s kw \<longleftrightarrow>
     (let n = k_strlen kw; t = chd (drop n s)
      in k_strncmp s kw n = 0 \<and> (t < CHR ''a'' \<or> t > CHR ''z'') \<and> (t < CHR ''A'' \<or> t > CHR ''Z'') \<and>
         (t < CHR ''0'' \<or> t > CHR ''9'') \<and> t \<noteq> CHR ''_'')"

definition starts_decl_like :: "string \<Rightarrow> bool" where
  "starts_decl_like s \<longleftrightarrow>
     match_word_prefix s ''int'' \<or> match_word_prefix s ''void'' \<or> match_word_prefix s ''long'' \<or>
     match_word_prefix s ''char'' \<or> match_word_prefix s ''short'' \<or> match_word_prefix s ''unsigned'' \<or>
     match_word_prefix s ''signed'' \<or> match_word_prefix s ''const'' \<or> match_word_prefix s ''static'' \<or>
     match_word_prefix s ''extern''"

function skip_quoted :: "char \<Rightarrow> string \<Rightarrow> string" where
  "skip_quoted q s =
     (if chd s = NUL then s
      else if chd s = CHR 0x5C \<and> chd (tl s) \<noteq> NUL then skip_quoted q (drop 2 s)
      else if chd s = q then tl s
      else skip_quoted q (tl s))"
  by pat_completeness auto
termination
  by (relation "measure (\<lambda>(q, s). length s)") (auto simp: chd_def split: list.splits)

declare skip_quoted.simps [simp del]

lemma length_skip_quoted: "length (skip_quoted q s) \<le> length s"
  by (induction q s rule: skip_quoted.induct) (subst skip_quoted.simps, auto)

text \<open>The result is \<open>opens_block\<close> and the pointer behind the \<open>;\<close> or \<open>{\<close>.\<close>

function skip_decl_loop :: "nat \<Rightarrow> string \<Rightarrow> (bool \<times> string) option" where
  "skip_decl_loop depth [] = None"
| "skip_decl_loop depth (c # s) =
     (if c = NUL then None
      else if c = CHR 0x22 \<or> c = CHR 0x27 then skip_decl_loop depth (skip_quoted c s)
      else if c = CHR ''('' then skip_decl_loop (depth + 1) s
      else if c = CHR '')'' then (if depth = 0 then None else skip_decl_loop (depth - 1) s)
      else if depth = 0 \<and> (c = CHR '';'' \<or> c = CHR ''{'') then Some (c = CHR ''{'', s)
      else skip_decl_loop depth s)"
  by pat_completeness auto
termination
  by (relation "measure (\<lambda>(d, s). length s)") (auto simp: less_Suc_eq_le length_skip_quoted)

definition skip_decl_or_header :: "string \<Rightarrow> (bool \<times> string) option" where
  "skip_decl_or_header ps = skip_decl_loop 0 ps"

subsection \<open>Scanners move forward\<close>

named_theorems scan_length \<open>how far a scanner moves\<close>

lemma length_skip_ws: "length (skip_ws_and_comments s) \<le> length s"
proof (induction s rule: skip_ws_and_comments.induct)
  case (1 ps)
  let ?s = "dropWhile is_space ps" and ?b = "skip_block (drop 2 (dropWhile is_space ps))"
  have "length ?s \<le> length ps" by (rule length_dropWhile_le)
  moreover have "length (skip_ws_and_comments (skip_line (drop 2 ?s))) \<le> length ps"
    if "chd ?s = CHR ''/'' \<and> chd (tl ?s) = CHR ''/''"
    using 1(1) [OF refl that] comment_shrinks(1) [of ps] that by simp
  moreover have "length (skip_ws_and_comments (if chd ?b \<noteq> NUL then drop 2 ?b else ?b)) \<le> length ps"
    if "\<not> (chd ?s = CHR ''/'' \<and> chd (tl ?s) = CHR ''/'')" "chd ?s = CHR ''/'' \<and> chd (tl ?s) = CHR ''*''"
    using 1(2) [OF refl that refl] comment_shrinks(2) [of ps] that(2) by (auto split: if_splits)
  ultimately show ?case
    unfolding skip_ws_and_comments.simps [of ps] Let_def by presburger
qed

lemma chd_not_NUL: "chd s \<noteq> NUL \<Longrightarrow> s \<noteq> []"
  by auto

lemma strncmp_match_drop:
  assumes "k_strncmp s tok (k_strlen tok) = 0" "cstr tok \<noteq> []"
  shows "length (drop (k_strlen tok) s) < length s"
proof -
  have "cstr s \<noteq> []" using assms by (auto simp: k_strncmp_eq_0_iff k_strlen_eq)
  then have "s \<noteq> []" by auto
  then show ?thesis using assms(2) by (simp add: k_strlen_eq)
qed

lemma match_str_length [scan_length]:
  "match_str s tok = (True, s') \<Longrightarrow> cstr tok \<noteq> [] \<Longrightarrow> length s' < length s"
  "match_str s tok = (False, s') \<Longrightarrow> length s' \<le> length s"
  using strncmp_match_drop [of "skip_ws_and_comments s" tok] length_skip_ws [of s]
  by (auto simp: match_str_def Let_def split: if_splits)

lemma match_kw_length [scan_length]:
  "fst (match_kw s kw) \<Longrightarrow> cstr kw \<noteq> [] \<Longrightarrow> length (snd (match_kw s kw)) < length s"
  "length (snd (match_kw s kw)) \<le> length s"
  using strncmp_match_drop [of s kw] by (auto simp: match_kw_def Let_def split: if_splits)

lemma expect_char_length [scan_length]:
  "expect_char s want = (True, s') \<Longrightarrow> want \<noteq> NUL \<Longrightarrow> length s' < length s"
  "expect_char s want = (False, s') \<Longrightarrow> length s' \<le> length s"
proof -
  assume a: "expect_char s want = (True, s')" "want \<noteq> NUL"
  then have "chd (skip_ws_and_comments s) = want" "s' = tl (skip_ws_and_comments s)"
    by (auto simp: expect_char_def Let_def split: if_splits)
  then show "length s' < length s"
    using a(2) length_skip_ws [of s] chd_not_NUL [of "skip_ws_and_comments s"]
    by (cases "skip_ws_and_comments s") auto
next
  show "expect_char s want = (False, s') \<Longrightarrow> length s' \<le> length s"
    using length_skip_ws [of s] by (auto simp: expect_char_def Let_def split: if_splits)
qed

lemma length_digits_loop: "digits_loop val s = (val', s') \<Longrightarrow> length s' \<le> length s"
  by (induction val s rule: digits_loop.induct) (auto split: if_splits)

lemma digit_consumed: "is_digit (chd s) \<Longrightarrow> digits_loop val s = (val', s') \<Longrightarrow> length s' < length s"
proof (cases s)
  case Nil
  moreover assume "is_digit (chd s)"
  ultimately show ?thesis by (simp add: is_digit_def less_eq_char_def)
next
  case (Cons c cs)
  moreover assume "is_digit (chd s)" "digits_loop val s = (val', s')"
  ultimately show ?thesis using length_digits_loop by (fastforce simp: less_Suc_eq_le)
qed

lemma parse_number_length [scan_length]:
  "parse_number s = (Some v, s') \<Longrightarrow> length s' < length s"
  "parse_number s = (None, s') \<Longrightarrow> length s' \<le> length s"
proof -
  let ?s0 = "skip_ws_and_comments s"
  let ?s = "if chd ?s0 = CHR ''-'' then tl ?s0 else ?s0"
  have "length ?s \<le> length s" using length_skip_ws [of s] by auto
  moreover assume "parse_number s = (Some v, s')"
  then have "is_digit (chd ?s)" "\<exists>val. digits_loop 0 ?s = (val, s')"
    by (auto simp: parse_number_def Let_def split: if_splits prod.splits)
  ultimately show "length s' < length s" using digit_consumed [of ?s] by fastforce
next
  show "parse_number s = (None, s') \<Longrightarrow> length s' \<le> length s"
    using length_skip_ws [of s] by (auto simp: parse_number_def Let_def split: if_splits prod.splits)
qed

lemma tl_length: "chd s \<noteq> NUL \<Longrightarrow> Suc (length (tl s)) = length s"
  by (cases s) auto

lemma parse_c_char_length [scan_length]:
  "parse_c_char s = (Some v, s') \<Longrightarrow> length s' < length s"
  "parse_c_char s = (None, s') \<Longrightarrow> length s' \<le> length s"
proof -
  let ?s = "skip_ws_and_comments s"
  assume a: "parse_c_char s = (Some v, s')"
  then have q: "chd ?s = CHR 0x27" by (auto simp: parse_c_char_def Let_def split: if_splits)
  have "length s' \<le> length (tl ?s)"
    using a by (auto simp: parse_c_char_def Let_def split: if_splits option.splits)
  then show "length s' < length s" using q tl_length [of ?s] length_skip_ws [of s] by auto
next
  show "parse_c_char s = (None, s') \<Longrightarrow> length s' \<le> length s"
    using length_skip_ws [of s] by (auto simp: parse_c_char_def Let_def split: if_splits option.splits)
qed

lemma c_string_step:
  assumes "c_string_loop room s = Some (t, s')"
  shows "(t = [] \<and> length s' < length s) \<or>
    (\<exists>c' t' cs. t = c' # t' \<and> c' \<noteq> NUL \<and> 0 < room \<and> length cs < length s \<and>
       c_string_loop (room - 1) cs = Some (t', s'))"
proof -
  have esc: "string_escape e \<noteq> Some NUL" for e by (auto simp: string_escape_def)
  obtain c cs where s: "s = c # cs" using assms by (cases s) auto
  show ?thesis
  proof (cases "c = CHR 0x5C")
    case True
    with assms s obtain e cs' c' t' where "cs = e # cs'" "string_escape e = Some c'" "t = c' # t'" "0 < room"
      "c_string_loop (room - 1) cs' = Some (t', s')"
      by (auto split: list.splits option.splits if_splits)
    with s esc [of e] show ?thesis
      by (intro disjI2 exI [of _ c'] exI [of _ t'] exI [of _ cs']) auto
  next
    case False
    with assms s show ?thesis by (auto split: if_splits)
  qed
qed

lemma c_string_loop_text:
  "c_string_loop room s = Some (t, s') \<Longrightarrow> length s' < length s \<and> length t \<le> room \<and> NUL \<notin> set t"
proof (induction t arbitrary: room s)
  case Nil
  then show ?case using c_string_step by fastforce
next
  case (Cons c' t')
  then obtain cs where "c' \<noteq> NUL" "0 < room" "length cs < length s" "c_string_loop (room - 1) cs = Some (t', s')"
    using c_string_step by blast
  with Cons.IH [of "room - 1" cs] show ?case by auto
qed

lemma parse_c_string_length [scan_length]:
  assumes "parse_c_string s n = (Some t, s')" "0 < n"
  shows "length s' < length s" "length t < n" "NUL \<notin> set t"
proof -
  let ?s = "skip_ws_and_comments s"
  have q: "chd ?s = CHR 0x22" "c_string_loop (n - 1) (tl ?s) = Some (t, s')"
    using assms by (auto simp: parse_c_string_def Let_def split: if_splits option.splits)
  show "length s' < length s"
    using q(1) tl_length [of ?s] length_skip_ws [of s] c_string_loop_text [OF q(2)] by auto
  show "length t < n" "NUL \<notin> set t"
    using c_string_loop_text [OF q(2)] assms(2) by auto
qed

lemma length_ident_loop: "ident_loop n s = (t, s') \<Longrightarrow> length s' \<le> length s"
proof (induction n s arbitrary: t s' rule: ident_loop.induct)
  case (2 room s)
  show ?case
  proof (cases "is_ident_char (chd s)")
    case True
    with 2(2) obtain t' where "ident_loop room (tl s) = (t', s')" by (auto split: prod.splits)
    with 2(1) [OF True] show ?thesis by fastforce
  qed (use 2(2) in simp)
qed simp

lemma not_ident_NUL [simp]: "\<not> is_ident_start NUL" "\<not> is_ident_char NUL"
  by (simp_all add: is_ident_start_def is_ident_char_def is_digit_def less_eq_char_def)

lemma parse_identifier_length [scan_length]:
  assumes "parse_identifier s n = (Some t, s')" "2 \<le> n"
  shows "length s' < length s"
proof -
  let ?s = "skip_ws_and_comments s"
  have q: "is_ident_start (chd ?s)" "ident_loop (n - 1) ?s = (t, s')"
    using assms by (auto simp: parse_identifier_def Let_def split: if_splits prod.splits)
  obtain m where m: "n - 1 = Suc m" using assms(2) by (cases "n - 1") auto
  have "chd ?s \<noteq> NUL" using q(1) by (metis not_ident_NUL(1))
  moreover from q m obtain t' where "ident_loop m (tl ?s) = (t', s')"
    by (auto simp: is_ident_char_def split: if_splits prod.splits)
  ultimately show ?thesis
    using length_ident_loop tl_length [of ?s] length_skip_ws [of s] by fastforce
qed

lemma skip_decl_length: "skip_decl_loop d s = Some (b, s') \<Longrightarrow> length s' < length s"
proof (induction d s rule: skip_decl_loop.induct)
  case (2 depth c s)
  then show ?case using length_skip_quoted [of c s] by (auto split: if_splits)
qed simp

end
