(* ===== verification/TinyEmit.thy ===== *)
theory TinyEmit
  imports TinyLex
begin

unbundle bit_operations_syntax

text \<open>
  The output side of the tiny C compiler, \<^verbatim>\<open>src/tinycc.c\<close>: the byte codes, the compile
  context with its output buffer, variable table and loop stack, and the emitters. A buffer is a
  list of bytes of its full size, written by index. An emitter returns \<open>None\<close> where the code
  returns \<open>-1\<close>.
\<close>

subsection \<open>Constants and state\<close>

abbreviation TCC_OP_PUTS :: u8 where "TCC_OP_PUTS \<equiv> 1"
abbreviation TCC_OP_SLEEP :: u8 where "TCC_OP_SLEEP \<equiv> 2"
abbreviation TCC_OP_EXIT :: u8 where "TCC_OP_EXIT \<equiv> 3"
abbreviation TCC_OP_PUTC :: u8 where "TCC_OP_PUTC \<equiv> 4"
abbreviation TCC_OP_PUSH_CONST :: u8 where "TCC_OP_PUSH_CONST \<equiv> 5"
abbreviation TCC_OP_PUSH_VAR :: u8 where "TCC_OP_PUSH_VAR \<equiv> 6"
abbreviation TCC_OP_STORE_VAR :: u8 where "TCC_OP_STORE_VAR \<equiv> 7"
abbreviation TCC_OP_ADD :: u8 where "TCC_OP_ADD \<equiv> 8"
abbreviation TCC_OP_SUB :: u8 where "TCC_OP_SUB \<equiv> 9"
abbreviation TCC_OP_LT :: u8 where "TCC_OP_LT \<equiv> 10"
abbreviation TCC_OP_LE :: u8 where "TCC_OP_LE \<equiv> 11"
abbreviation TCC_OP_GT :: u8 where "TCC_OP_GT \<equiv> 12"
abbreviation TCC_OP_GE :: u8 where "TCC_OP_GE \<equiv> 13"
abbreviation TCC_OP_EQ :: u8 where "TCC_OP_EQ \<equiv> 14"
abbreviation TCC_OP_NE :: u8 where "TCC_OP_NE \<equiv> 15"
abbreviation TCC_OP_NEG :: u8 where "TCC_OP_NEG \<equiv> 16"
abbreviation TCC_OP_JMP :: u8 where "TCC_OP_JMP \<equiv> 17"
abbreviation TCC_OP_JZ :: u8 where "TCC_OP_JZ \<equiv> 18"
abbreviation TCC_OP_RET :: u8 where "TCC_OP_RET \<equiv> 19"
abbreviation TCC_OP_MUL :: u8 where "TCC_OP_MUL \<equiv> 20"
abbreviation TCC_OP_DIV :: u8 where "TCC_OP_DIV \<equiv> 21"
abbreviation TCC_OP_MOD :: u8 where "TCC_OP_MOD \<equiv> 22"
abbreviation TCC_OP_NOT :: u8 where "TCC_OP_NOT \<equiv> 23"
abbreviation TCC_OP_LAND :: u8 where "TCC_OP_LAND \<equiv> 24"
abbreviation TCC_OP_LOR :: u8 where "TCC_OP_LOR \<equiv> 25"
abbreviation TCC_OP_DUP :: u8 where "TCC_OP_DUP \<equiv> 26"
abbreviation TCC_OP_POP :: u8 where "TCC_OP_POP \<equiv> 27"

definition TCC_MAX_VARS :: nat where "TCC_MAX_VARS = 32"
definition TCC_VAR_NAME_MAX :: nat where "TCC_VAR_NAME_MAX = 32"
definition TCC_STACK_MAX :: nat where "TCC_STACK_MAX = 64"
definition TCC_TEMP_MAX :: nat where "TCC_TEMP_MAX = 512"
definition TCC_LOOP_MAX :: nat where "TCC_LOOP_MAX = 8"
definition TCC_LOOP_PATCH_MAX :: nat where "TCC_LOOP_PATCH_MAX = 32"

text \<open>The patch lists hold their first \<open>count\<close> entries.\<close>

record tinycc_loop_t =
  break_patch :: "nat list"
  continue_patch :: "nat list"

record tinycc_compile_t =
  out :: bytes
  cap :: nat
  pos :: nat
  count :: u32
  vars :: nat
  var :: "string list"
  loop_depth :: nat
  loop :: "tinycc_loop_t list"

subsection \<open>Bytes\<close>

definition read_u32 :: "bytes \<Rightarrow> nat \<Rightarrow> u32" where
  "read_u32 b p = ucast (b ! p) OR push_bit 8 (ucast (b ! (p + 1))) OR
     push_bit 16 (ucast (b ! (p + 2))) OR push_bit 24 (ucast (b ! (p + 3)))"

definition write_u16 :: "bytes \<Rightarrow> nat \<Rightarrow> u32 \<Rightarrow> bytes" where
  "write_u16 b p val = b[p := ucast (val AND 0xFF), p + 1 := ucast (drop_bit 8 val AND 0xFF)]"

definition write_u32 :: "bytes \<Rightarrow> nat \<Rightarrow> u32 \<Rightarrow> bytes" where
  "write_u32 b p val = b[p := ucast (val AND 0xFF), p + 1 := ucast (drop_bit 8 val AND 0xFF),
     p + 2 := ucast (drop_bit 16 val AND 0xFF), p + 3 := ucast (drop_bit 24 val AND 0xFF)]"

text \<open>\<open>memcpy\<close> into a buffer.\<close>

definition put_bytes :: "bytes \<Rightarrow> nat \<Rightarrow> bytes \<Rightarrow> bytes" where
  "put_bytes b p bs = take p b @ bs @ drop (p + length bs) b"

subsection \<open>Emitters\<close>

definition emit_u8 :: "tinycc_compile_t \<Rightarrow> u8 \<Rightarrow> tinycc_compile_t option" where
  "emit_u8 ctx val =
     (if pos ctx + 1 > cap ctx then None
      else Some (ctx\<lparr>out := (out ctx)[pos ctx := val], pos := pos ctx + 1\<rparr>))"

definition emit_u32 :: "tinycc_compile_t \<Rightarrow> u32 \<Rightarrow> tinycc_compile_t option" where
  "emit_u32 ctx val =
     (if pos ctx + 4 > cap ctx then None
      else Some (ctx\<lparr>out := write_u32 (out ctx) (pos ctx) val, pos := pos ctx + 4\<rparr>))"

definition emit_bytes :: "tinycc_compile_t \<Rightarrow> bytes \<Rightarrow> tinycc_compile_t option" where
  "emit_bytes ctx bs =
     (if pos ctx + length bs > cap ctx then None
      else Some (ctx\<lparr>out := put_bytes (out ctx) (pos ctx) bs, pos := pos ctx + length bs\<rparr>))"

definition patch_u32 :: "tinycc_compile_t \<Rightarrow> nat \<Rightarrow> u32 \<Rightarrow> tinycc_compile_t" where
  "patch_u32 ctx p val = ctx\<lparr>out := write_u32 (out ctx) p val\<rparr>"

text \<open>\<open>(unsigned)code_pos(ctx)\<close>: the subtraction may go below zero.\<close>

definition code_pos :: "tinycc_compile_t \<Rightarrow> u32" where
  "code_pos ctx = of_int (int (pos ctx) - 8)"

definition emit_op :: "tinycc_compile_t \<Rightarrow> u8 \<Rightarrow> tinycc_compile_t option" where
  "emit_op ctx op = emit_u8 (ctx\<lparr>count := count ctx + 1\<rparr>) op"

definition emit_puts :: "tinycc_compile_t \<Rightarrow> string \<Rightarrow> tinycc_compile_t option" where
  "emit_puts ctx txt = do {
     c \<leftarrow> emit_op ctx TCC_OP_PUTS;
     if pos c + 2 + length txt + 1 > cap c then None
     else
       let c1 = c\<lparr>out := write_u16 (out c) (pos c) (of_nat (length txt)), pos := pos c + 2\<rparr>;
           c2 = c1\<lparr>out := put_bytes (out c1) (pos c1) (map (\<lambda>ch. of_nat (of_char ch)) txt),
                   pos := pos c1 + length txt\<rparr>
       in Some (c2\<lparr>out := (out c2)[pos c2 := 0], pos := pos c2 + 1\<rparr>)
   }"

definition emit_push_const :: "tinycc_compile_t \<Rightarrow> s32 \<Rightarrow> tinycc_compile_t option" where
  "emit_push_const ctx val = do { c \<leftarrow> emit_op ctx TCC_OP_PUSH_CONST; emit_u32 c val }"

definition emit_push_var :: "tinycc_compile_t \<Rightarrow> nat \<Rightarrow> tinycc_compile_t option" where
  "emit_push_var ctx slot = do { c \<leftarrow> emit_op ctx TCC_OP_PUSH_VAR; emit_u8 c (of_nat slot) }"

definition emit_store_var :: "tinycc_compile_t \<Rightarrow> nat \<Rightarrow> tinycc_compile_t option" where
  "emit_store_var ctx slot = do { c \<leftarrow> emit_op ctx TCC_OP_STORE_VAR; emit_u8 c (of_nat slot) }"

text \<open>The result carries the position of the target to patch.\<close>

definition emit_jump :: "tinycc_compile_t \<Rightarrow> u8 \<Rightarrow> (nat \<times> tinycc_compile_t) option" where
  "emit_jump ctx op = do { c \<leftarrow> emit_op ctx op; c' \<leftarrow> emit_u32 c 0; Some (pos c, c') }"

subsection \<open>Variables\<close>

fun tcc_copy_name :: "nat \<Rightarrow> string \<Rightarrow> string" where
  "tcc_copy_name room [] = []"
| "tcc_copy_name 0 s = []"
| "tcc_copy_name (Suc room) (c # cs) = (if c = NUL then [] else c # tcc_copy_name room cs)"

definition find_var :: "tinycc_compile_t \<Rightarrow> string \<Rightarrow> nat option" where
  "find_var ctx name = find (\<lambda>i. str_eq (var ctx ! i) name) [0..<vars ctx]"

definition declare_var :: "tinycc_compile_t \<Rightarrow> string \<Rightarrow> (nat \<times> tinycc_compile_t) option" where
  "declare_var ctx name =
     (if vars ctx \<ge> TCC_MAX_VARS \<or> find_var ctx name \<noteq> None then None
      else Some (vars ctx,
        ctx\<lparr>var := (var ctx)[vars ctx := tcc_copy_name (TCC_VAR_NAME_MAX - 1) name], vars := vars ctx + 1\<rparr>))"

subsection \<open>Loops\<close>

definition current_loop :: "tinycc_compile_t \<Rightarrow> nat option" where
  "current_loop ctx = (if loop_depth ctx = 0 then None else Some (loop_depth ctx - 1))"

definition push_loop :: "tinycc_compile_t \<Rightarrow> (nat \<times> tinycc_compile_t) option" where
  "push_loop ctx =
     (if loop_depth ctx \<ge> TCC_LOOP_MAX then None
      else Some (loop_depth ctx,
        ctx\<lparr>loop := (loop ctx)[loop_depth ctx := \<lparr>break_patch = [], continue_patch = []\<rparr>],
            loop_depth := loop_depth ctx + 1\<rparr>))"

definition pop_loop :: "tinycc_compile_t \<Rightarrow> tinycc_compile_t" where
  "pop_loop ctx = ctx\<lparr>loop_depth := loop_depth ctx - 1\<rparr>"

definition add_loop_patch :: "nat list \<Rightarrow> nat \<Rightarrow> nat list option" where
  "add_loop_patch ps patch_pos = (if length ps \<ge> TCC_LOOP_PATCH_MAX then None else Some (ps @ [patch_pos]))"

fun patch_loop_list :: "tinycc_compile_t \<Rightarrow> nat list \<Rightarrow> u32 \<Rightarrow> tinycc_compile_t" where
  "patch_loop_list ctx [] target = ctx"
| "patch_loop_list ctx (p # ps) target = patch_loop_list (patch_u32 ctx p target) ps target"

end
