(* ===== verification/TinyParse.thy ===== *)
theory TinyParse
  imports TinyEmit
begin

text \<open>
  The recursive-descent parser of the tiny C compiler, \<^verbatim>\<open>src/tinycc.c\<close>, which emits byte
  code while it reads. A parser maps the compile context, the source pointer and the flag
  \<open>saw_return\<close> to their new values (\<open>Ok\<close>), or to \<open>Fail\<close> where the code returns \<open>-1\<close>; every
  caller passes a failure on and the context is then discarded. The mutual recursion of the code
  enters each parser as an argument and is closed by \<open>parse_expr\<close> and \<open>parse_statement\<close>, with
  a bound on the depth and on the number of loop rounds; \<open>NoFuel\<close> is the bound being reached,
  and the lemmas at the end show that it never is.
\<close>

subsection \<open>Outcomes and sequencing\<close>

datatype 'a res = Ok 'a | Fail | NoFuel

fun thn :: "'a res \<Rightarrow> ('a \<Rightarrow> 'b res) \<Rightarrow> 'b res" where
  "thn (Ok x) f = f x"
| "thn Fail f = Fail"
| "thn NoFuel f = NoFuel"

fun seqp :: "('s \<Rightarrow> 's res) list \<Rightarrow> 's \<Rightarrow> 's res" where
  "seqp [] st = Ok st"
| "seqp (p # ps) st = thn (p st) (seqp ps)"

type_synonym pst = "tinycc_compile_t \<times> string \<times> bool"
type_synonym parser = "pst \<Rightarrow> pst res"

text \<open>An emitter and an expected character as parsers.\<close>

fun emit :: "(tinycc_compile_t \<Rightarrow> tinycc_compile_t option) \<Rightarrow> parser" where
  "emit f (c, s, r) = (case f c of None \<Rightarrow> Fail | Some c' \<Rightarrow> Ok (c', s, r))"

fun expect :: "char \<Rightarrow> parser" where
  "expect want (c, s, r) = (case expect_char s want of (True, s') \<Rightarrow> Ok (c, s', r) | (False, _) \<Rightarrow> Fail)"

abbreviation eop :: "u8 \<Rightarrow> parser" where
  "eop op \<equiv> emit (\<lambda>c. emit_op c op)"

subsection \<open>Expressions\<close>

fun parse_primary :: "parser \<Rightarrow> parser" where
  "parse_primary pe (c, s, r) =
     (case expect_char (skip_ws_and_comments s) CHR ''('' of
        (True, s1) \<Rightarrow> seqp [pe, expect CHR '')''] (c, s1, r)
      | (False, s1) \<Rightarrow>
          (case parse_c_char s1 of
             (Some val, s2) \<Rightarrow> emit (\<lambda>c. emit_push_const c val) (c, s2, r)
           | (None, s2) \<Rightarrow>
               (case parse_number s2 of
                  (Some val, s3) \<Rightarrow> emit (\<lambda>c. emit_push_const c val) (c, s3, r)
                | (None, _) \<Rightarrow> Fail)))"

definition post_step :: "u8 \<Rightarrow> nat \<Rightarrow> parser" where
  "post_step op slot = seqp [emit (\<lambda>c. emit_push_var c slot), eop TCC_OP_DUP,
     emit (\<lambda>c. emit_push_const c 1), eop op, emit (\<lambda>c. emit_store_var c slot)]"

fun parse_postfix :: "parser \<Rightarrow> parser" where
  "parse_postfix pe (c, s, r) =
     (case parse_identifier s TCC_VAR_NAME_MAX of
        (Some name, s1) \<Rightarrow>
          (case find_var c name of
             None \<Rightarrow> Fail
           | Some slot \<Rightarrow>
               (case match_str s1 ''++'' of
                  (True, s2) \<Rightarrow> post_step TCC_OP_ADD slot (c, s2, r)
                | (False, s2) \<Rightarrow>
                    (case match_str s2 ''--'' of
                       (True, s3) \<Rightarrow> post_step TCC_OP_SUB slot (c, s3, r)
                     | (False, s3) \<Rightarrow> emit (\<lambda>c. emit_push_var c slot) (c, s3, r))))
      | (None, _) \<Rightarrow> parse_primary pe (c, s, r))"

fun pre_step :: "u8 \<Rightarrow> parser" where
  "pre_step op (c, s, r) =
     (case parse_identifier s TCC_VAR_NAME_MAX of
        (None, _) \<Rightarrow> Fail
      | (Some name, s1) \<Rightarrow>
          (case find_var c name of
             None \<Rightarrow> Fail
           | Some slot \<Rightarrow>
               seqp [emit (\<lambda>c. emit_push_var c slot), emit (\<lambda>c. emit_push_const c 1), eop op,
                 eop TCC_OP_DUP, emit (\<lambda>c. emit_store_var c slot)] (c, s1, r)))"

fun parse_unary :: "parser \<Rightarrow> nat \<Rightarrow> parser" where
  "parse_unary pe 0 st = NoFuel"
| "parse_unary pe (Suc n) (c, s, r) =
     (case match_str s ''++'' of
        (True, s1) \<Rightarrow> pre_step TCC_OP_ADD (c, s1, r)
      | (False, s1) \<Rightarrow>
          (case match_str s1 ''--'' of
             (True, s2) \<Rightarrow> pre_step TCC_OP_SUB (c, s2, r)
           | (False, s2) \<Rightarrow>
               (case match_str s2 ''!'' of
                  (True, s3) \<Rightarrow> seqp [parse_unary pe n, eop TCC_OP_NOT] (c, s3, r)
                | (False, s3) \<Rightarrow>
                    (case match_str s3 ''-'' of
                       (True, s4) \<Rightarrow> seqp [parse_unary pe n, eop TCC_OP_NEG] (c, s4, r)
                     | (False, s4) \<Rightarrow> parse_postfix pe (c, s4, r)))))"

text \<open>
  The loop the four arithmetic levels share: while one of the operators follows, parse an
  operand and emit the operator.
\<close>

fun match_ops :: "(string \<times> u8) list \<Rightarrow> string \<Rightarrow> u8 option \<times> string" where
  "match_ops [] s = (None, s)"
| "match_ops ((tok, op) # ts) s =
     (case match_str s tok of (True, s') \<Rightarrow> (Some op, s') | (False, s') \<Rightarrow> match_ops ts s')"

fun binop_loop :: "(string \<times> u8) list \<Rightarrow> parser \<Rightarrow> nat \<Rightarrow> parser" where
  "binop_loop ops operand 0 st = NoFuel"
| "binop_loop ops operand (Suc n) (c, s, r) =
     (case match_ops ops s of
        (None, s1) \<Rightarrow> Ok (c, s1, r)
      | (Some op, s1) \<Rightarrow> thn (seqp [operand, eop op] (c, s1, r)) (\<lambda>st. binop_loop ops operand n st))"

definition parse_multiplicative :: "parser \<Rightarrow> nat \<Rightarrow> parser" where
  "parse_multiplicative pe n = seqp [parse_unary pe n,
     binop_loop [(''*'', TCC_OP_MUL), (''/'', TCC_OP_DIV), (''%'', TCC_OP_MOD)] (parse_unary pe n) n]"

definition parse_additive :: "parser \<Rightarrow> nat \<Rightarrow> parser" where
  "parse_additive pe n = seqp [parse_multiplicative pe n,
     binop_loop [(''+'', TCC_OP_ADD), (''-'', TCC_OP_SUB)] (parse_multiplicative pe n) n]"

definition parse_relational :: "parser \<Rightarrow> nat \<Rightarrow> parser" where
  "parse_relational pe n = seqp [parse_additive pe n,
     binop_loop [(''<='', TCC_OP_LE), (''>='', TCC_OP_GE), (''<'', TCC_OP_LT), (''>'', TCC_OP_GT)]
       (parse_additive pe n) n]"

definition parse_equality :: "parser \<Rightarrow> nat \<Rightarrow> parser" where
  "parse_equality pe n = seqp [parse_relational pe n,
     binop_loop [(''=='', TCC_OP_EQ), (''!='', TCC_OP_NE)] (parse_relational pe n) n]"

text \<open>What is emitted behind the right operand of \<open>&&\<close>.\<close>

definition and_tail :: "nat \<Rightarrow> tinycc_compile_t \<Rightarrow> tinycc_compile_t option" where
  "and_tail rhs_patch c = do {
     (false_patch, c1) \<leftarrow> emit_jump c TCC_OP_JZ;
     c2 \<leftarrow> emit_push_const c1 1;
     (end_patch, c3) \<leftarrow> emit_jump c2 TCC_OP_JMP;
     let c4 = patch_u32 c3 rhs_patch (code_pos c3);
         c5 = patch_u32 c4 false_patch (code_pos c4)
     in do {
       c6 \<leftarrow> emit_push_const c5 0;
       Some (patch_u32 c6 end_patch (code_pos c6))
     }
   }"

fun and_loop :: "parser \<Rightarrow> nat \<Rightarrow> parser" where
  "and_loop operand 0 st = NoFuel"
| "and_loop operand (Suc n) (c, s, r) =
     (case match_str s ''&&'' of
        (False, s1) \<Rightarrow> Ok (c, s1, r)
      | (True, s1) \<Rightarrow>
          (case emit_jump c TCC_OP_JZ of
             None \<Rightarrow> Fail
           | Some (rhs_patch, c1) \<Rightarrow>
               thn (seqp [operand, emit (and_tail rhs_patch)] (c1, s1, r)) (\<lambda>st. and_loop operand n st)))"

definition parse_logical_and :: "parser \<Rightarrow> nat \<Rightarrow> parser" where
  "parse_logical_and pe n = seqp [parse_equality pe n, and_loop (parse_equality pe n) n]"

text \<open>What is emitted before and behind the right operand of \<open>||\<close>.\<close>

definition or_head :: "tinycc_compile_t \<Rightarrow> (nat \<times> tinycc_compile_t) option" where
  "or_head c = do {
     (eval_rhs_patch, c1) \<leftarrow> emit_jump c TCC_OP_JZ;
     c2 \<leftarrow> emit_push_const c1 1;
     (lhs_true_patch, c3) \<leftarrow> emit_jump c2 TCC_OP_JMP;
     Some (lhs_true_patch, patch_u32 c3 eval_rhs_patch (code_pos c3))
   }"

definition or_tail :: "nat \<Rightarrow> tinycc_compile_t \<Rightarrow> tinycc_compile_t option" where
  "or_tail lhs_true_patch c = do {
     (false_patch, c1) \<leftarrow> emit_jump c TCC_OP_JZ;
     c2 \<leftarrow> emit_push_const c1 1;
     (rhs_true_patch, c3) \<leftarrow> emit_jump c2 TCC_OP_JMP;
     c4 \<leftarrow> emit_push_const (patch_u32 c3 false_patch (code_pos c3)) 0;
     let c5 = patch_u32 c4 lhs_true_patch (code_pos c4)
     in Some (patch_u32 c5 rhs_true_patch (code_pos c5))
   }"

fun or_loop :: "parser \<Rightarrow> nat \<Rightarrow> parser" where
  "or_loop operand 0 st = NoFuel"
| "or_loop operand (Suc n) (c, s, r) =
     (case match_str s ''||'' of
        (False, s1) \<Rightarrow> Ok (c, s1, r)
      | (True, s1) \<Rightarrow>
          (case or_head c of
             None \<Rightarrow> Fail
           | Some (lhs_true_patch, c1) \<Rightarrow>
               thn (seqp [operand, emit (or_tail lhs_true_patch)] (c1, s1, r)) (\<lambda>st. or_loop operand n st)))"

definition parse_logical_or :: "parser \<Rightarrow> nat \<Rightarrow> parser" where
  "parse_logical_or pe n = seqp [parse_logical_and pe n, or_loop (parse_logical_and pe n) n]"

fun parse_assign_expr :: "parser \<Rightarrow> nat \<Rightarrow> parser" where
  "parse_assign_expr pe n (c, s, r) =
     (case parse_identifier s TCC_VAR_NAME_MAX of
        (None, _) \<Rightarrow> parse_logical_or pe n (c, s, r)
      | (Some name, s1) \<Rightarrow>
          (case find_var c name of
             None \<Rightarrow> Fail
           | Some slot \<Rightarrow>
               (case match_ops [(''+='', TCC_OP_ADD), (''-='', TCC_OP_SUB), (''*='', TCC_OP_MUL),
                       (''/='', TCC_OP_DIV), (''%='', TCC_OP_MOD), (''='', TCC_OP_STORE_VAR)] s1 of
                  (None, _) \<Rightarrow> parse_logical_or pe n (c, s, r)
                | (Some op, s2) \<Rightarrow>
                    seqp ((if op \<noteq> TCC_OP_STORE_VAR then [emit (\<lambda>c. emit_push_var c slot)] else []) @
                      [pe] @ (if op \<noteq> TCC_OP_STORE_VAR then [eop op] else []) @
                      [eop TCC_OP_DUP, emit (\<lambda>c. emit_store_var c slot)]) (c, s2, r))))"

text \<open>\<open>parse_expr\<close> is \<open>parse_assign_expr\<close>, whose recursive calls and those of \<open>parse_primary\<close> are to it.\<close>

fun parse_expr :: "nat \<Rightarrow> parser" where
  "parse_expr 0 st = NoFuel"
| "parse_expr (Suc n) st = parse_assign_expr (parse_expr n) (Suc n) st"

subsection \<open>Declarations and clauses\<close>

fun decl_loop :: "parser \<Rightarrow> nat \<Rightarrow> parser" where
  "decl_loop pe 0 st = NoFuel"
| "decl_loop pe (Suc n) (c, s, r) =
     (case parse_identifier s TCC_VAR_NAME_MAX of
        (None, _) \<Rightarrow> Fail
      | (Some name, s1) \<Rightarrow>
          (case declare_var c name of
             None \<Rightarrow> Fail
           | Some (slot, c1) \<Rightarrow>
               thn (case match_str s1 ''='' of
                      (True, s2) \<Rightarrow> seqp [pe, emit (\<lambda>c. emit_store_var c slot)] (c1, s2, r)
                    | (False, s2) \<Rightarrow> Ok (c1, s2, r))
                 (\<lambda>(c2, s3, r2).
                    case match_str s3 '','' of
                      (True, s4) \<Rightarrow> decl_loop pe n (c2, s4, r2)
                    | (False, s4) \<Rightarrow> Ok (c2, s4, r2))))"

definition parse_declaration :: "parser \<Rightarrow> nat \<Rightarrow> char \<Rightarrow> parser" where
  "parse_declaration pe n terminator = seqp [decl_loop pe n, expect terminator]"

definition parse_expr_until :: "parser \<Rightarrow> char \<Rightarrow> parser" where
  "parse_expr_until pe terminator = seqp [pe, expect terminator, eop TCC_OP_POP]"

fun parse_for_clause :: "parser \<Rightarrow> nat \<Rightarrow> char \<Rightarrow> bool \<Rightarrow> parser" where
  "parse_for_clause pe n terminator allow_decl (c, s, r) =
     (let s1 = skip_ws_and_comments s
      in if chd s1 = terminator then Ok (c, tl s1, r)
         else if allow_decl \<and> fst (match_kw s1 ''int'')
         then parse_declaration pe n terminator (c, snd (match_kw s1 ''int''), r)
         else parse_expr_until pe terminator (c, s1, r))"

subsection \<open>Statements\<close>

fun block_loop :: "parser \<Rightarrow> nat \<Rightarrow> parser" where
  "block_loop pstm 0 st = NoFuel"
| "block_loop pstm (Suc n) (c, s, r) =
     (let s1 = skip_ws_and_comments s
      in if s1 = [] then Fail
         else if chd s1 = CHR ''}'' then Ok (c, tl s1, r)
         else thn (pstm (c, s1, r)) (\<lambda>st. block_loop pstm n st))"

definition parse_block :: "parser \<Rightarrow> nat \<Rightarrow> parser" where
  "parse_block pstm n = seqp [expect CHR ''{'', block_loop pstm n]"

text \<open>
  The context the step clause of a \<open>for\<close> is compiled into: a copy of the context with a
  512-byte buffer on the stack, whose initial bytes are never read.
\<close>

definition step_ctx :: "tinycc_compile_t \<Rightarrow> tinycc_compile_t" where
  "step_ctx c = c\<lparr>out := replicate TCC_TEMP_MAX 0, cap := TCC_TEMP_MAX, pos := 0, count := 0,
     loop_depth := 0, loop := []\<rparr>"

fun for_cond :: "parser \<Rightarrow> pst \<Rightarrow> (nat option \<times> pst) res" where
  "for_cond pe (c, s, r) =
     (let s1 = skip_ws_and_comments s
      in if chd s1 \<noteq> CHR '';''
         then thn (pe (c, s1, r)) (\<lambda>(c1, s2, r1).
                case emit_jump c1 TCC_OP_JZ of None \<Rightarrow> Fail | Some (p, c2) \<Rightarrow> Ok (Some p, c2, s2, r1))
         else Ok (None, c, s1, r))"

definition for_tail :: "nat \<Rightarrow> u32 \<Rightarrow> nat option \<Rightarrow> tinycc_compile_t \<Rightarrow> tinycc_compile_t \<Rightarrow> tinycc_compile_t option" where
  "for_tail l loop_top jz_patch step c =
     (let c1 = patch_loop_list c (continue_patch (loop c ! l)) (code_pos c)
      in do {
        c2 \<leftarrow> emit_bytes c1 (take (pos step) (out step));
        c3 \<leftarrow> emit_op (c2\<lparr>count := count c2 + count step\<rparr>) TCC_OP_JMP;
        c4 \<leftarrow> emit_u32 c3 loop_top;
        let end_target = code_pos c4;
            c5 = (case jz_patch of None \<Rightarrow> c4 | Some p \<Rightarrow> patch_u32 c4 p end_target)
        in Some (pop_loop (patch_loop_list c5 (break_patch (loop c5 ! l)) end_target))
      })"

fun for_body :: "parser \<Rightarrow> u32 \<Rightarrow> nat option \<Rightarrow> tinycc_compile_t \<Rightarrow> parser" where
  "for_body pstm loop_top jz_patch step (c, s, r) =
     (case push_loop c of
        None \<Rightarrow> Fail
      | Some (l, c1) \<Rightarrow> seqp [pstm, emit (for_tail l loop_top jz_patch step)] (c1, s, r))"

fun for_step :: "parser \<Rightarrow> parser \<Rightarrow> tinycc_compile_t \<Rightarrow> u32 \<Rightarrow> nat option \<Rightarrow> parser" where
  "for_step pe pstm step loop_top jz_patch (c, s, r) =
     (let s1 = skip_ws_and_comments s
      in thn (if chd s1 \<noteq> CHR '')'' then parse_expr_until pe CHR '')'' (step, s1, r) else Ok (step, tl s1, r))
           (\<lambda>(step', s2, r2). for_body pstm loop_top jz_patch step' (c, s2, r2)))"

fun parse_for :: "parser \<Rightarrow> parser \<Rightarrow> nat \<Rightarrow> parser" where
  "parse_for pe pstm n (c, s, r) =
     thn (seqp [expect CHR ''('', parse_for_clause pe n CHR '';'' True] (c, s, r)) (\<lambda>(c1, s1, r1).
       thn (for_cond pe (c1, s1, r1)) (\<lambda>(jz_patch, st).
         seqp [expect CHR '';'', for_step pe pstm (step_ctx c) (code_pos c1) jz_patch] st))"

definition while_tail :: "nat \<Rightarrow> u32 \<Rightarrow> nat \<Rightarrow> tinycc_compile_t \<Rightarrow> tinycc_compile_t option" where
  "while_tail l loop_top jz_patch c = do {
     c1 \<leftarrow> emit_op c TCC_OP_JMP;
     c2 \<leftarrow> emit_u32 c1 loop_top;
     let c3 = patch_loop_list c2 (continue_patch (loop c2 ! l)) loop_top;
         end_target = code_pos c3;
         c4 = patch_u32 c3 jz_patch end_target
     in Some (pop_loop (patch_loop_list c4 (break_patch (loop c4 ! l)) end_target))
   }"

fun parse_while :: "parser \<Rightarrow> parser \<Rightarrow> parser" where
  "parse_while pe pstm (c, s, r) =
     thn (expect CHR ''('' (c, s, r)) (\<lambda>(c1, s1, r1).
       case push_loop c1 of
         None \<Rightarrow> Fail
       | Some (l, c2) \<Rightarrow>
           thn (seqp [pe, expect CHR '')''] (c2, s1, r1)) (\<lambda>(c3, s2, r2).
             case emit_jump c3 TCC_OP_JZ of
               None \<Rightarrow> Fail
             | Some (jz_patch, c4) \<Rightarrow>
                 seqp [pstm, emit (while_tail l (code_pos c1) jz_patch)] (c4, s2, r2)))"

definition do_tail :: "nat \<Rightarrow> u32 \<Rightarrow> tinycc_compile_t \<Rightarrow> tinycc_compile_t option" where
  "do_tail l loop_top c = do {
     (jz_patch, c1) \<leftarrow> emit_jump c TCC_OP_JZ;
     c2 \<leftarrow> emit_op c1 TCC_OP_JMP;
     c3 \<leftarrow> emit_u32 c2 loop_top;
     let end_target = code_pos c3;
         c4 = patch_u32 c3 jz_patch end_target
     in Some (pop_loop (patch_loop_list c4 (break_patch (loop c4 ! l)) end_target))
   }"

fun parse_do_while :: "parser \<Rightarrow> parser \<Rightarrow> parser" where
  "parse_do_while pe pstm (c, s, r) =
     (case push_loop c of
        None \<Rightarrow> Fail
      | Some (l, c1) \<Rightarrow>
          thn (pstm (c1, s, r)) (\<lambda>(c2, s2, r2).
            let c3 = patch_loop_list c2 (continue_patch (loop c2 ! l)) (code_pos c2)
            in case match_kw s2 ''while'' of
                 (False, _) \<Rightarrow> Fail
               | (True, s3) \<Rightarrow>
                   seqp [expect CHR ''('', pe, expect CHR '')'', expect CHR '';'',
                     emit (do_tail l (code_pos c))] (c3, s3, r2)))"

text \<open>What follows the first statement of an \<open>if\<close>, whose condition jumps to \<open>else_patch\<close>.\<close>

fun parse_else :: "parser \<Rightarrow> nat \<Rightarrow> parser" where
  "parse_else pstm else_patch (c, s, r) =
     (case match_kw (skip_ws_and_comments s) ''else'' of
        (True, s1) \<Rightarrow>
          (case emit_jump c TCC_OP_JMP of
             None \<Rightarrow> Fail
           | Some (end_patch, c1) \<Rightarrow>
               seqp [pstm, (\<lambda>(c2, s2, r2). Ok (patch_u32 c2 end_patch (code_pos c2), s2, r2))]
                 (patch_u32 c1 else_patch (code_pos c1), s1, r))
      | (False, s1) \<Rightarrow> Ok (patch_u32 c else_patch (code_pos c), s1, r))"

fun parse_if :: "parser \<Rightarrow> parser \<Rightarrow> parser" where
  "parse_if pe pstm (c, s, r) =
     thn (seqp [expect CHR ''('', pe, expect CHR '')''] (c, s, r)) (\<lambda>(c1, s1, r1).
       case emit_jump c1 TCC_OP_JZ of
         None \<Rightarrow> Fail
       | Some (else_patch, c2) \<Rightarrow> seqp [pstm, parse_else pstm else_patch] (c2, s1, r1))"

fun parse_puts :: parser where
  "parse_puts (c, s, r) =
     thn (expect CHR ''('' (c, s, r)) (\<lambda>(c1, s1, r1).
       case parse_c_string s1 256 of
         (None, _) \<Rightarrow> Fail
       | (Some txt, s2) \<Rightarrow>
           seqp [expect CHR '')'', expect CHR '';'', emit (\<lambda>c. emit_puts c txt)] (c1, s2, r1))"

definition parse_call1 :: "parser \<Rightarrow> u8 \<Rightarrow> parser" where
  "parse_call1 pe op = seqp [expect CHR ''('', pe, expect CHR '')'', expect CHR '';'', eop op]"

fun parse_break :: parser where
  "parse_break (c, s, r) =
     (case current_loop c of
        None \<Rightarrow> Fail
      | Some l \<Rightarrow>
          seqp [expect CHR '';'', emit (\<lambda>c. do {
            (patch_pos, c1) \<leftarrow> emit_jump c TCC_OP_JMP;
            ps \<leftarrow> add_loop_patch (break_patch (loop c1 ! l)) patch_pos;
            Some (c1\<lparr>loop := (loop c1)[l := (loop c1 ! l)\<lparr>break_patch := ps\<rparr>]\<rparr>) })] (c, s, r))"

fun parse_continue :: parser where
  "parse_continue (c, s, r) =
     (case current_loop c of
        None \<Rightarrow> Fail
      | Some l \<Rightarrow>
          seqp [expect CHR '';'', emit (\<lambda>c. do {
            (patch_pos, c1) \<leftarrow> emit_jump c TCC_OP_JMP;
            ps \<leftarrow> add_loop_patch (continue_patch (loop c1 ! l)) patch_pos;
            Some (c1\<lparr>loop := (loop c1)[l := (loop c1 ! l)\<lparr>continue_patch := ps\<rparr>]\<rparr>) })] (c, s, r))"

definition parse_return :: "parser \<Rightarrow> parser" where
  "parse_return pe = seqp [pe, expect CHR '';'', eop TCC_OP_RET, (\<lambda>(c, s, r). Ok (c, s, True))]"

text \<open>The body of \<open>parse_statement\<close>; \<open>after k\<close> is the pointer behind the keyword \<open>k\<close>.\<close>

fun statement :: "parser \<Rightarrow> parser \<Rightarrow> nat \<Rightarrow> parser" where
  "statement pe pstm n (c, s0, r) =
     (let s = skip_ws_and_comments s0;
          kw = (\<lambda>k. fst (match_kw s k));
          after = (\<lambda>k. (c, snd (match_kw s k), r))
      in if s = [] then Fail
         else if chd s = CHR '';'' then Ok (c, tl s, r)
         else if chd s = CHR ''{'' then parse_block pstm n (c, s, r)
         else if kw ''int'' then parse_declaration pe n CHR '';'' (after ''int'')
         else if kw ''if'' then parse_if pe pstm (after ''if'')
         else if kw ''do'' then parse_do_while pe pstm (after ''do'')
         else if kw ''while'' then parse_while pe pstm (after ''while'')
         else if kw ''for'' then parse_for pe pstm n (after ''for'')
         else if kw ''u_puts'' then parse_puts (after ''u_puts'')
         else if kw ''u_putc'' then parse_call1 pe TCC_OP_PUTC (after ''u_putc'')
         else if kw ''uput_c'' then parse_call1 pe TCC_OP_PUTC (after ''uput_c'')
         else if kw ''u_sleep'' then parse_call1 pe TCC_OP_SLEEP (after ''u_sleep'')
         else if kw ''break'' then parse_break (after ''break'')
         else if kw ''continue'' then parse_continue (after ''continue'')
         else if kw ''return'' then parse_return pe (after ''return'')
         else parse_expr_until pe CHR '';'' (c, s, r))"

fun parse_statement :: "nat \<Rightarrow> parser" where
  "parse_statement 0 st = NoFuel"
| "parse_statement (Suc n) st = statement (parse_expr (Suc n)) (parse_statement n) (Suc n) st"

subsection \<open>The whole source\<close>

text \<open>
  The main loop of \<open>compile_buffer\<close>. It ends behind the text (\<open>Done\<close> with \<open>in_body\<close>,
  \<open>saw_any\<close>, \<open>saw_return\<close> and the context), at \<open>goto out\<close>, or at the early \<open>return -1\<close> that
  skips the clean-up.
\<close>

datatype top = Done bool bool bool tinycc_compile_t | GotoOut | ReturnEarly | TopNoFuel

fun compile_loop :: "nat \<Rightarrow> bool \<Rightarrow> bool \<Rightarrow> pst \<Rightarrow> top" where
  "compile_loop 0 in_body saw_any st = TopNoFuel"
| "compile_loop (Suc n) in_body saw_any (c, p, r) =
     (if chd p = NUL then Done in_body saw_any r c
      else
        let s = skip_ws_and_comments p
        in if fst (skip_preprocessor_line s) then compile_loop n in_body saw_any (c, snd (skip_preprocessor_line s), r)
           else if chd s = NUL then Done in_body saw_any r c
           else if \<not> in_body then
             (case (if starts_decl_like s then skip_decl_or_header s else None) of
                Some (opens_block, s') \<Rightarrow> compile_loop n opens_block saw_any (c, s', r)
              | None \<Rightarrow> if chd s = CHR ''{'' then compile_loop n True saw_any (c, tl s, r) else ReturnEarly)
           else if chd s = CHR ''}'' then compile_loop n False saw_any (c, tl s, r)
           else
             (case parse_statement (Suc (length s)) (c, s, r) of
                Ok st \<Rightarrow> compile_loop n in_body True st
              | Fail \<Rightarrow> GotoOut
              | NoFuel \<Rightarrow> TopNoFuel))"

definition TCC_MAGIC :: bytes where
  "TCC_MAGIC = [0x54, 0x43, 0x43, 0x30]"

text \<open>The context \<open>compile_buffer\<close> starts with, on an output buffer of at least 8 bytes.\<close>

definition init_ctx :: "bytes \<Rightarrow> tinycc_compile_t" where
  "init_ctx b = \<lparr>out = write_u32 (put_bytes b 0 TCC_MAGIC) 4 0, cap = length b, pos = 8, count = 0,
     vars = 0, var = replicate TCC_MAX_VARS [], loop_depth = 0,
     loop = replicate TCC_LOOP_MAX \<lparr>break_patch = [], continue_patch = []\<rparr>\<rparr>"

definition finish :: "bool \<Rightarrow> tinycc_compile_t \<Rightarrow> (bytes \<times> nat) option" where
  "finish saw_return c = do {
     c' \<leftarrow> (if \<not> saw_return then do { c1 \<leftarrow> emit_push_const c 0; emit_op c1 TCC_OP_RET } else Some c);
     Some (write_u32 (out c') 4 (count c'), pos c')
   }"

end
