(* ===== verification/TinyCode.thy ===== *)
theory TinyCode
  imports TinyEmit
begin

unbundle bit_operations_syntax

text \<open>
  The byte code of the tiny C compiler as a list of instructions, and the emitters of
  \<^verbatim>\<open>src/tinycc.c\<close> as operations on that list: an emitter appends one encoded instruction, a
  patch changes the target of one jump. \<open>rep\<close> ties a compile context to the instruction list
  its buffer holds, \<open>grow\<close> is what every step of the compiler does to the two.
\<close>

subsection \<open>Instructions and their encoding\<close>

datatype instr = Plain u8 | Const s32 | VarI u8 nat | Jump u8 u32 | Puts string

definition le32 :: "u32 \<Rightarrow> bytes" where
  "le32 val = [ucast (val AND 0xFF), ucast (drop_bit 8 val AND 0xFF),
     ucast (drop_bit 16 val AND 0xFF), ucast (drop_bit 24 val AND 0xFF)]"

fun enc :: "instr \<Rightarrow> bytes" where
  "enc (Plain op) = [op]"
| "enc (Const val) = TCC_OP_PUSH_CONST # le32 val"
| "enc (VarI op slot) = [op, of_nat slot]"
| "enc (Jump op target) = op # le32 target"
| "enc (Puts txt) = [TCC_OP_PUTS, of_nat (length txt), of_nat (length txt div 256)] @
     map (\<lambda>ch. of_nat (of_char ch)) txt @ [0]"

definition plain_ops :: "u8 set" where
  "plain_ops = {TCC_OP_SLEEP, TCC_OP_PUTC, TCC_OP_ADD, TCC_OP_SUB, TCC_OP_MUL, TCC_OP_DIV, TCC_OP_MOD,
     TCC_OP_LT, TCC_OP_LE, TCC_OP_GT, TCC_OP_GE, TCC_OP_EQ, TCC_OP_NE, TCC_OP_NEG, TCC_OP_NOT,
     TCC_OP_DUP, TCC_OP_POP, TCC_OP_RET}"

text \<open>Instructions the compiler may emit: known codes, variable slots inside the array, short texts.\<close>

fun wf_instr :: "instr \<Rightarrow> bool" where
  "wf_instr (Plain op) \<longleftrightarrow> op \<in> plain_ops"
| "wf_instr (Const val) \<longleftrightarrow> True"
| "wf_instr (VarI op slot) \<longleftrightarrow> op \<in> {TCC_OP_PUSH_VAR, TCC_OP_STORE_VAR} \<and> slot < TCC_MAX_VARS"
| "wf_instr (Jump op target) \<longleftrightarrow> op \<in> {TCC_OP_JMP, TCC_OP_JZ}"
| "wf_instr (Puts txt) \<longleftrightarrow> NUL \<notin> set txt \<and> length txt < 256"

definition flat :: "instr list \<Rightarrow> bytes" where
  "flat is = concat (map enc is)"

lemma flat_simps [simp]: "flat [] = []" "flat (i # is) = enc i @ flat is" "flat (is @ js) = flat is @ flat js"
  by (simp_all add: flat_def)

lemma length_le32 [simp]: "length (le32 v) = 4"
  by (simp add: le32_def)

lemma enc_not_Nil [simp]: "enc i \<noteq> []"
  by (cases i) auto

subsection \<open>Writing into a buffer\<close>

lemma length_put_bytes [simp]: "p + length bs \<le> length b \<Longrightarrow> length (put_bytes b p bs) = length b"
  by (simp add: put_bytes_def)

lemma take_put_bytes: "p + length bs \<le> length b \<Longrightarrow> take (p + length bs) (put_bytes b p bs) = take p b @ bs"
  by (simp add: put_bytes_def)

lemma drop_put_bytes: "p + length bs \<le> n \<Longrightarrow> n \<le> length b \<Longrightarrow> drop n (put_bytes b p bs) = drop n b"
  by (simp add: put_bytes_def)

lemma put_bytes_Cons:
  assumes "p < length b" shows "put_bytes b p (x # xs) = put_bytes (b[p := x]) (Suc p) xs"
  using assms by (simp add: put_bytes_def take_Suc_conv_app_nth)

lemma put_bytes_Nil [simp]: "put_bytes b p [] = b"
  by (simp add: put_bytes_def)

lemma put_bytes_append:
  assumes "p + length xs \<le> length b"
  shows "put_bytes (put_bytes b p xs) (p + length xs) ys = put_bytes b p (xs @ ys)"
  using assms by (simp add: put_bytes_def ac_simps)

lemma update_eq_put_bytes: "p < length b \<Longrightarrow> b[p := x] = put_bytes b p [x]"
  by (simp add: put_bytes_Cons)

lemma write_u32_eq_put_bytes: "p + 4 \<le> length b \<Longrightarrow> write_u32 b p val = put_bytes b p (le32 val)"
  by (simp add: write_u32_def le32_def put_bytes_Cons numeral_3_eq_3)

lemma write_u16_eq_put_bytes:
  "p + 2 \<le> length b \<Longrightarrow>
   write_u16 b p val = put_bytes b p [ucast (val AND 0xFF), ucast (drop_bit 8 val AND 0xFF)]"
  by (simp add: write_u16_def put_bytes_Cons)

lemma length_write_u32 [simp]: "length (write_u32 b p val) = length b"
  by (simp add: write_u32_def)

subsection \<open>Reading back a stored word\<close>

lemma u8_mask: "(ucast (ucast (x AND 0xFF :: u32) :: u8) :: u32) = x AND mask 8"
proof -
  have "0xFF = (mask 8 :: u32)" by (simp add: mask_eq_exp_minus_1)
  then show ?thesis unfolding \<open>0xFF = mask 8\<close> by (intro bit_word_eqI) (auto simp: bit_simps)
qed

lemma join_bytes:
  "(ucast (ucast (val AND 0xFF :: u32) :: u8) :: u32) OR push_bit 8 (ucast (ucast (drop_bit 8 val AND 0xFF) :: u8)) OR
     push_bit 16 (ucast (ucast (drop_bit 16 val AND 0xFF) :: u8)) OR
     push_bit 24 (ucast (ucast (drop_bit 24 val AND 0xFF) :: u8)) = val" (is "?l = val")
proof (rule bit_word_eqI)
  fix n assume n: "n < LENGTH(32)"
  consider "n < 8" | "8 \<le> n" "n < 16" | "16 \<le> n" "n < 24" | "24 \<le> n" by linarith
  then show "bit ?l n = bit val n"
    by cases (use n in \<open>auto simp: u8_mask bit_simps\<close>)
qed

lemma read_u32_le32:
  assumes "b ! p = le32 val ! 0" "b ! (p + 1) = le32 val ! 1" "b ! (p + 2) = le32 val ! 2" "b ! (p + 3) = le32 val ! 3"
  shows "read_u32 b p = val"
  unfolding read_u32_def assms by (simp add: le32_def join_bytes)

text \<open>
  The compiler and the interpreter agree on the encoding of 32-bit words. A word stored with
  \<open>write_u32\<close> anywhere inside a buffer is read back by \<open>read_u32\<close>, and no other byte changes.
\<close>

theorem write_read_u32:
  assumes "p + 4 \<le> length b"
  shows "read_u32 (write_u32 b p val) p = val \<and>
    (\<forall>i. i < p \<or> p + 4 \<le> i \<longrightarrow> write_u32 b p val ! i = b ! i)"
proof
  show "read_u32 (write_u32 b p val) p = val"
    by (rule read_u32_le32) (use assms in \<open>simp_all add: write_u32_def le32_def\<close>)
  show "\<forall>i. i < p \<or> p + 4 \<le> i \<longrightarrow> write_u32 b p val ! i = b ! i"
    by (auto simp: write_u32_def)
qed

theorem write_read_u32_witness:
  "read_u32 (write_u32 [1, 2, 3, 4, 5, 6] 1 0xDEADBEEF) 1 = 0xDEADBEEF"
  using write_read_u32 [of 1 "[1, 2, 3, 4, 5, 6]" "0xDEADBEEF"] by simp

subsection \<open>Emitters append instructions\<close>

definition add_instr :: "instr \<Rightarrow> tinycc_compile_t \<Rightarrow> tinycc_compile_t" where
  "add_instr i c = c\<lparr>out := put_bytes (out c) (pos c) (enc i), pos := pos c + length (enc i), count := count c + 1\<rparr>"

definition try_add :: "instr \<Rightarrow> tinycc_compile_t \<Rightarrow> tinycc_compile_t option" where
  "try_add i c = (if pos c + length (enc i) \<le> cap c then Some (add_instr i c) else None)"

lemma emit_op_eq: "cap c = length (out c) \<Longrightarrow> emit_op c op = try_add (Plain op) c"
  by (simp add: emit_op_def emit_u8_def try_add_def add_instr_def update_eq_put_bytes)

lemma emit_op_u32:
  assumes "cap c = length (out c)"
  shows "(do { c1 \<leftarrow> emit_op c op; emit_u32 c1 val }) =
    (if pos c + 5 \<le> cap c
     then Some (c\<lparr>out := put_bytes (out c) (pos c) (op # le32 val), pos := pos c + 5, count := count c + 1\<rparr>)
     else None)"
  using assms by (auto simp: emit_op_def emit_u8_def emit_u32_def update_eq_put_bytes write_u32_eq_put_bytes
      put_bytes_append [of _ "[_]", simplified])

lemma emit_op_u8:
  assumes "cap c = length (out c)"
  shows "(do { c1 \<leftarrow> emit_op c op; emit_u8 c1 val }) =
    (if pos c + 2 \<le> cap c
     then Some (c\<lparr>out := put_bytes (out c) (pos c) [op, val], pos := pos c + 2, count := count c + 1\<rparr>)
     else None)"
  using assms by (auto simp: emit_op_def emit_u8_def put_bytes_Cons)

lemma emit_instr_eq:
  assumes "cap c = length (out c)"
  shows "emit_push_const c val = try_add (Const val) c"
    and "emit_push_var c slot = try_add (VarI TCC_OP_PUSH_VAR slot) c"
    and "emit_store_var c slot = try_add (VarI TCC_OP_STORE_VAR slot) c"
    and "do { c1 \<leftarrow> emit_op c op; emit_u32 c1 target } = try_add (Jump op target) c"
  using assms by (simp_all add: emit_push_const_def emit_push_var_def emit_store_var_def
      emit_op_u32 emit_op_u8 try_add_def add_instr_def)

lemma emit_jump_eq:
  assumes "cap c = length (out c)"
  shows "emit_jump c op = map_option (\<lambda>c'. (pos c + 1, c')) (try_add (Jump op 0) c)"
proof -
  have "emit_jump c op = map_option (\<lambda>c'. (pos c + 1, c')) (do { c1 \<leftarrow> emit_op c op; emit_u32 c1 0 })"
    by (auto simp: emit_jump_def emit_op_def emit_u8_def emit_u32_def)
  then show ?thesis by (simp add: emit_instr_eq(4) [OF assms])
qed

lemma length_bytes_16:
  "n < 256 \<Longrightarrow> (ucast (of_nat n AND 0xFF :: u32) :: u8) = of_nat n"
  "n < 256 \<Longrightarrow> (ucast (drop_bit 8 (of_nat n :: u32) AND 0xFF) :: u8) = of_nat (n div 256)"
proof -
  assume n: "n < 256"
  have "0xFF = (mask 8 :: u32)" by (simp add: mask_eq_exp_minus_1)
  then show "(ucast (of_nat n AND 0xFF :: u32) :: u8) = of_nat n"
    unfolding \<open>0xFF = mask 8\<close> by (intro bit_word_eqI) (auto simp: bit_simps)
  have "unat (drop_bit 8 (of_nat n :: u32)) = 0"
    using n by (subst unat_drop_bit_eq) (simp add: unat_of_nat drop_bit_eq_div)
  then have "drop_bit 8 (of_nat n :: u32) = 0" by (simp only: unat_eq_zero)
  then show "(ucast (drop_bit 8 (of_nat n :: u32) AND 0xFF) :: u8) = of_nat (n div 256)"
    using n by simp
qed

lemma emit_puts_eq:
  assumes "cap c = length (out c)" "length txt < 256"
  shows "emit_puts c txt = try_add (Puts txt) c"
proof (cases "pos c + length (enc (Puts txt)) \<le> cap c")
  case True
  let ?t = "map (\<lambda>ch. of_nat (of_char ch)) txt :: bytes"
  let ?b1 = "put_bytes (out c) (pos c) [TCC_OP_PUTS]"
  let ?b2 = "put_bytes ?b1 (pos c + 1) [of_nat (length txt), of_nat (length txt div 256)]"
  let ?b3 = "put_bytes ?b2 (pos c + 3) ?t"
  have len: "pos c + 4 + length txt \<le> length (out c)" using True assms(1) by simp
  have "emit_puts c txt = Some (c\<lparr>out := ?b3[pos c + 3 + length txt := 0], pos := pos c + 4 + length txt,
      count := count c + 1\<rparr>)"
    using len assms by (simp add: emit_puts_def emit_op_def emit_u8_def update_eq_put_bytes
        write_u16_eq_put_bytes length_bytes_16 numeral_3_eq_3)
  moreover have "?b3[pos c + 3 + length txt := 0] = put_bytes (out c) (pos c) (enc (Puts txt))"
    using len put_bytes_append [of "pos c" "[TCC_OP_PUTS]" "out c"]
      put_bytes_append [of "pos c" "[TCC_OP_PUTS, of_nat (length txt), of_nat (length txt div 256)]" "out c" ?t]
      put_bytes_append [of "pos c" "[TCC_OP_PUTS, of_nat (length txt), of_nat (length txt div 256)] @ ?t" "out c" "[0]"]
    by (simp add: update_eq_put_bytes numeral_3_eq_3)
  ultimately show ?thesis using True by (simp add: try_add_def add_instr_def)
next
  case False
  then show ?thesis using assms by (auto simp: try_add_def emit_puts_def emit_op_def emit_u8_def)
qed

subsection \<open>Instruction lists that grow and whose jumps are patched\<close>

text \<open>Two instructions that differ at most in the target of a jump.\<close>

fun same_kind :: "instr \<Rightarrow> instr \<Rightarrow> bool" where
  "same_kind (Jump op t) (Jump op' t') \<longleftrightarrow> op = op'"
| "same_kind i j \<longleftrightarrow> i = j"

lemma same_kind_refl [simp]: "same_kind i i"
  by (cases i) auto

lemma same_kind_trans: "same_kind i j \<Longrightarrow> same_kind j k \<Longrightarrow> same_kind i k"
  by (cases i; cases j; cases k) auto

lemma same_kind_length: "same_kind i j \<Longrightarrow> length (enc i) = length (enc j)"
  by (cases i; cases j) auto

lemma same_kind_Jump: "same_kind (Jump op t) j \<longleftrightarrow> (\<exists>t'. j = Jump op t')"
  by (cases j) auto

lemma same_kinds_flat: "list_all2 same_kind is js \<Longrightarrow> length (flat is) = length (flat js)"
  by (induction rule: list_all2_induct) (auto simp: same_kind_length)

definition ext :: "instr list \<Rightarrow> instr list \<Rightarrow> bool" where
  "ext is is' \<longleftrightarrow> (\<exists>js more. is' = js @ more \<and> list_all2 same_kind is js)"

lemma ext_refl [simp]: "ext is is"
  unfolding ext_def by (rule exI [of _ "is"], rule exI [of _ "[]"]) (simp add: list_all2_refl)

lemma ext_append: "ext is (is @ js)"
  unfolding ext_def by (rule exI [of _ "is"], rule exI [of _ js]) (simp add: list_all2_refl)

lemma ext_trans: "ext a b \<Longrightarrow> ext b c \<Longrightarrow> ext a c"
proof -
  assume "ext a b" "ext b c"
  then obtain b1 b2 c1 c2 where "b = b1 @ b2" "list_all2 same_kind a b1" "c = c1 @ c2"
    "list_all2 same_kind (b1 @ b2) c1"
    by (auto simp: ext_def)
  moreover from this obtain d1 d2 where "c1 = d1 @ d2" "list_all2 same_kind b1 d1"
    by (auto simp: list_all2_append1)
  moreover have "list_all2 same_kind a d1"
    using list_all2_trans [of same_kind same_kind same_kind a b1 d1] same_kind_trans calculation by blast
  ultimately show "ext a c" unfolding ext_def by (intro exI [of _ d1] exI [of _ "d2 @ c2"]) simp
qed

lemma ext_patch: "ext (a @ Jump op t # b) (a @ Jump op t' # b)"
  unfolding ext_def
  by (rule exI [of _ "a @ Jump op t' # b"], rule exI [of _ "[]"]) (simp add: list_all2_appendI list_all2_refl)

text \<open>\<open>p\<close> is the place of a jump target in code that starts behind \<open>n\<close> bytes.\<close>

definition patchable :: "nat \<Rightarrow> instr list \<Rightarrow> nat \<Rightarrow> bool" where
  "patchable n is p \<longleftrightarrow> (\<exists>is1 op t is2. is = is1 @ Jump op t # is2 \<and> p = n + length (flat is1) + 1)"

lemma patchable_ext:
  assumes "patchable n is p" "ext is is'" shows "patchable n is' p"
proof -
  obtain is1 op t is2 where i: "is = is1 @ Jump op t # is2" "p = n + length (flat is1) + 1"
    using assms(1) by (auto simp: patchable_def)
  obtain js more where "is' = js @ more" "list_all2 same_kind is js"
    using assms(2) by (auto simp: ext_def)
  moreover from this i obtain j1 j j2 where "js = j1 @ j # j2" "list_all2 same_kind is1 j1" "same_kind (Jump op t) j"
    by (auto simp: list_all2_append1 list_all2_Cons1)
  moreover from this(3) obtain t' where "j = Jump op t'" by (auto simp: same_kind_Jump)
  ultimately show ?thesis
    unfolding patchable_def using i(2) same_kinds_flat [of is1 j1]
    by (intro exI [of _ j1] exI [of _ op] exI [of _ t'] exI [of _ "j2 @ more"]) simp
qed

lemma patchable_last: "patchable n (is @ [Jump op t]) (n + length (flat is) + 1)"
  unfolding patchable_def by blast

subsection \<open>The context and its instructions\<close>

text \<open>
  The buffer holds the bytes \<open>hb\<close> and then the code of the instructions \<open>is\<close>; every instruction
  is well formed, the counter counts them, the tables are within their bounds, and the patches
  noted in the \<open>L\<close> loop entries point at jumps of \<open>is\<close>.
\<close>

definition loop_patches :: "tinycc_compile_t \<Rightarrow> nat set" where
  "loop_patches c = (\<Union>l < loop_depth c. set (break_patch (loop c ! l)) \<union> set (continue_patch (loop c ! l)))"

definition rep :: "bytes \<Rightarrow> nat \<Rightarrow> tinycc_compile_t \<Rightarrow> instr list \<Rightarrow> bool" where
  "rep hb L c is \<longleftrightarrow>
     take (pos c) (out c) = hb @ flat is \<and> pos c \<le> length (out c) \<and> cap c = length (out c) \<and>
     count c = of_nat (length is) \<and> list_all wf_instr is \<and>
     vars c \<le> TCC_MAX_VARS \<and> length (var c) = TCC_MAX_VARS \<and> length (loop c) = L \<and> loop_depth c \<le> L \<and>
     (\<forall>p \<in> loop_patches c. patchable (length hb) is p)"

lemma repD:
  assumes "rep hb L c is"
  shows "take (pos c) (out c) = hb @ flat is" "pos c \<le> length (out c)" "cap c = length (out c)"
    "count c = of_nat (length is)" "list_all wf_instr is" "vars c \<le> TCC_MAX_VARS"
    "length (var c) = TCC_MAX_VARS" "length (loop c) = L" "loop_depth c \<le> L"
    "p \<in> loop_patches c \<Longrightarrow> patchable (length hb) is p"
  using assms by (auto simp: rep_def)

lemma rep_pos: "rep hb L c is \<Longrightarrow> pos c = length hb + length (flat is)"
  using repD(1,2) [of hb L c "is"] by (metis length_append length_take min.absorb2)

text \<open>
  What a piece of the compiler does: the instructions grow, earlier jumps may be retargeted,
  nothing is written behind the new position, and the loop depth is as before.
\<close>

definition grow :: "bytes \<Rightarrow> nat \<Rightarrow> tinycc_compile_t \<Rightarrow> instr list \<Rightarrow> tinycc_compile_t \<Rightarrow> instr list \<Rightarrow> bool" where
  "grow hb L c is c' is' \<longleftrightarrow>
     rep hb L c' is' \<and> ext is is' \<and> loop_depth c' = loop_depth c \<and> vars c \<le> vars c' \<and> pos c \<le> pos c' \<and>
     length (out c') = length (out c) \<and> drop (pos c') (out c') = drop (pos c') (out c)"

lemma growD:
  assumes "grow hb L c is c' is'"
  shows "rep hb L c' is'" "ext is is'" "loop_depth c' = loop_depth c" "vars c \<le> vars c'" "pos c \<le> pos c'"
    "length (out c') = length (out c)" "drop (pos c') (out c') = drop (pos c') (out c)"
  using assms by (auto simp: grow_def)

lemma grow_refl: "rep hb L c is \<Longrightarrow> grow hb L c is c is"
  by (simp add: grow_def)

lemma grow_trans:
  assumes g1: "grow hb L c is c1 is1" and g2: "grow hb L c1 is1 c2 is2" shows "grow hb L c is c2 is2"
proof -
  have "drop (pos c2) (out c1) = drop (pos c2) (out c)"
    using growD(5) [OF g2] growD(7) [OF g1] by (metis drop_drop le_add_diff_inverse2)
  then show ?thesis
    using growD [OF g1] growD [OF g2] ext_trans [of "is" is1 is2] unfolding grow_def by simp
qed

lemma loop_patches_add_instr [simp]: "loop_patches (add_instr i c) = loop_patches c"
  by (simp add: loop_patches_def add_instr_def)

lemma grow_add_instr:
  assumes "rep hb L c is" "pos c + length (enc i) \<le> cap c" "wf_instr i"
  shows "grow hb L c is (add_instr i c) (is @ [i])"
proof -
  note r = repD [OF assms(1)]
  have "take (pos c + length (enc i)) (put_bytes (out c) (pos c) (enc i)) = hb @ flat (is @ [i])"
    using assms(2) r(1,3) by (simp add: take_put_bytes)
  moreover have "patchable (length hb) (is @ [i]) p" if "p \<in> loop_patches c" for p
    using patchable_ext [OF r(10) [OF that] ext_append] .
  ultimately have "rep hb L (add_instr i c) (is @ [i])"
    using assms(2,3) r unfolding rep_def by (simp add: add_instr_def [of i c] loop_patches_def)
  then show ?thesis
    using assms(2) r(3) by (simp add: grow_def ext_append add_instr_def drop_put_bytes)
qed

lemma try_add_grow:
  assumes "rep hb L c is" "try_add i c = Some c'" "wf_instr i"
  shows "grow hb L c is c' (is @ [i])"
  using assms grow_add_instr by (auto simp: try_add_def split: if_splits)

lemma take_exact: "n = length xs \<Longrightarrow> take n (xs @ ys) = xs"
  by simp

lemma drop_exact: "n = length xs \<Longrightarrow> drop n (xs @ ys) = ys"
  by simp

lemma grow_patch:
  assumes r: "rep hb L c is" and i: "is = is1 @ Jump op t # is2" "p = length hb + length (flat is1) + 1"
  shows "grow hb L c is (patch_u32 c p target) (is1 @ Jump op target # is2)"
proof -
  note d = repD [OF r]
  have pos: "pos c = length hb + length (flat is1) + 5 + length (flat is2)" using rep_pos [OF r] i by simp
  have split: "out c = (hb @ flat is1 @ [op]) @ le32 t @ flat is2 @ drop (pos c) (out c)"
    using d(1) i(1) append_take_drop_id [of "pos c" "out c"] by (metis append.assoc append_Cons append_Nil enc.simps(4) flat_simps(2,3))
  have p4: "p + 4 \<le> length (out c)" using d(2) pos i(2) by linarith
  have pl: "p = length (hb @ flat is1 @ [op])" using i(2) by simp
  have "put_bytes (out c) p (le32 target) = (hb @ flat is1 @ [op]) @ le32 target @ flat is2 @ drop (pos c) (out c)"
    unfolding put_bytes_def pl by (subst (1 2) split) simp
  then have out': "out (patch_u32 c p target) = hb @ flat (is1 @ Jump op target # is2) @ drop (pos c) (out c)"
    by (simp add: patch_u32_def write_u32_eq_put_bytes [OF p4])
  have len: "pos c = length (hb @ flat (is1 @ Jump op target # is2))" using pos by simp
  have tk: "take (pos c) (out (patch_u32 c p target)) = hb @ flat (is1 @ Jump op target # is2)"
    unfolding out' append.assoc [symmetric] by (rule take_exact [OF len])
  have dr: "drop (pos c) (out (patch_u32 c p target)) = drop (pos c) (out c)"
    unfolding out' append.assoc [symmetric] by (rule drop_exact [OF len])
  have same: "pos (patch_u32 c p target) = pos c" "length (out (patch_u32 c p target)) = length (out c)"
    "cap (patch_u32 c p target) = cap c" "count (patch_u32 c p target) = count c" "vars (patch_u32 c p target) = vars c"
    "var (patch_u32 c p target) = var c" "loop (patch_u32 c p target) = loop c"
    "loop_depth (patch_u32 c p target) = loop_depth c" "loop_patches (patch_u32 c p target) = loop_patches c"
    by (simp_all add: patch_u32_def loop_patches_def)
  have e: "ext is (is1 @ Jump op target # is2)" unfolding i(1) by (rule ext_patch)
  have "rep hb L (patch_u32 c p target) (is1 @ Jump op target # is2)"
    unfolding rep_def same tk using d patchable_ext [OF d(10) e] i(1) by simp
  then show ?thesis
    unfolding grow_def same dr using e by simp
qed

lemma grow_patchable:
  assumes "rep hb L c is" "patchable (length hb) is p"
  shows "\<exists>is'. grow hb L c is (patch_u32 c p target) is'"
  using assms grow_patch [OF assms(1)] unfolding patchable_def by blast

end
