(* ===== verification/TinySafe.thy ===== *)
theory TinySafe
  imports TinyParse TinyCode
begin

text \<open>
  What every parser of the tiny C compiler does, shown once for each: it stops (the bound on
  depth and rounds is not reached when it exceeds the length of the text), it consumes text, and
  it only appends well-formed instructions and retargets jumps it has emitted itself.
\<close>

subsection \<open>The contract of a parser\<close>

text \<open>
  \<open>good\<close> is the contract of one call that starts with context \<open>c\<close>, holding the instructions
  \<open>is\<close>, on the text \<open>s\<close>, and consumes at least \<open>d\<close> characters. \<open>safe\<close> is the contract of a
  parser on texts shorter than \<open>k\<close>.
\<close>

definition good :: "bytes \<Rightarrow> nat \<Rightarrow> nat \<Rightarrow> instr list \<Rightarrow> tinycc_compile_t \<Rightarrow> string \<Rightarrow> pst res \<Rightarrow> bool" where
  "good hb L d is c s res \<longleftrightarrow>
     (case res of
        Ok (c', s', r') \<Rightarrow> length s' + d \<le> length s \<and> (\<exists>is'. grow hb L c is c' is')
      | Fail \<Rightarrow> True
      | NoFuel \<Rightarrow> False)"

definition safe :: "bytes \<Rightarrow> nat \<Rightarrow> nat \<Rightarrow> nat \<Rightarrow> parser \<Rightarrow> bool" where
  "safe hb L k d p \<longleftrightarrow> (\<forall>c s r is. length s < k \<longrightarrow> rep hb L c is \<longrightarrow> good hb L d is c s (p (c, s, r)))"

lemma good_Fail [simp]: "good hb L d is c s Fail"
  by (simp add: good_def)

lemma good_Ok: "grow hb L c is c' is' \<Longrightarrow> length s' + d \<le> length s \<Longrightarrow> good hb L d is c s (Ok (c', s', r))"
  by (auto simp: good_def)

lemma good_stay: "rep hb L c is \<Longrightarrow> length s' + d \<le> length s \<Longrightarrow> good hb L d is c s (Ok (c, s', r))"
  by (rule good_Ok [OF grow_refl])

lemma good_later: "good hb L d is c s1 res \<Longrightarrow> length s1 + d' \<le> length s + d \<Longrightarrow> good hb L d' is c s res"
  by (cases res) (auto simp: good_def)

lemma good_after: "grow hb L c is c1 is1 \<Longrightarrow> good hb L d is1 c1 s res \<Longrightarrow> good hb L d is c s res"
  by (cases res) (auto simp: good_def intro: grow_trans)

lemma good_thn:
  assumes "good hb L d1 is c s m"
    and "\<And>c' s' r' is'. grow hb L c is c' is' \<Longrightarrow> length s' + d1 \<le> length s \<Longrightarrow>
           good hb L d2 is' c' s' (f (c', s', r'))"
    and "d \<le> d1 + d2"
  shows "good hb L d is c s (thn m f)"
proof (cases m)
  case (Ok x)
  obtain c' s' r' where x: "x = (c', s', r')" by (cases x)
  then obtain is' where g: "grow hb L c is c' is'" and len: "length s' + d1 \<le> length s"
    using assms(1) Ok by (auto simp: good_def)
  have "good hb L d is c s (f (c', s', r'))"
    by (rule good_after [OF g], rule good_later [OF assms(2) [OF g len]]) (use len assms(3) in linarith)
  then show ?thesis using Ok x by simp
qed (use assms(1) in \<open>auto simp: good_def\<close>)

lemma safeD: "safe hb L k d p \<Longrightarrow> length s < k \<Longrightarrow> rep hb L c is \<Longrightarrow> good hb L d is c s (p (c, s, r))"
  by (auto simp: safe_def)

lemma safeI: "(\<And>c s r is. length s < k \<Longrightarrow> rep hb L c is \<Longrightarrow> good hb L d is c s (p (c, s, r))) \<Longrightarrow> safe hb L k d p"
  by (auto simp: safe_def)

lemma safe_0 [simp]: "safe hb L 0 d p"
  by (simp add: safe_def)

lemma safe_mono: "safe hb L k d p \<Longrightarrow> k' \<le> k \<Longrightarrow> d' \<le> d \<Longrightarrow> safe hb L k' d' p"
  by (rule safeI, rule good_later, rule safeD [of hb L k d p]) auto

lemma safe_seq_Nil [simp]: "safe hb L k 0 (seqp [])"
  by (rule safeI) (simp add: good_stay)

lemma safe_seq:
  assumes "safe hb L k d1 p" "safe hb L k d2 (seqp ps)" "d \<le> d1 + d2"
  shows "safe hb L k d (seqp (p # ps))"
proof (rule safeI)
  fix c r "is" and s :: string assume s: "length s < k" "rep hb L c is"
  show "good hb L d is c s (seqp (p # ps) (c, s, r))"
    unfolding seqp.simps
    by (rule good_thn [OF safeD [OF assms(1) s]], rule safeD [OF assms(2)])
      (use s assms(3) in \<open>auto dest: growD(1)\<close>)
qed

text \<open>A sequence whose first parser consumes text may continue with parsers for shorter texts.\<close>

lemma safe_seq_shrink:
  assumes "safe hb L (Suc k) 1 p" "safe hb L k d2 (seqp ps)" "d \<le> Suc d2"
  shows "safe hb L (Suc k) d (seqp (p # ps))"
proof (rule safeI)
  fix c r "is" and s :: string assume s: "length s < Suc k" "rep hb L c is"
  show "good hb L d is c s (seqp (p # ps) (c, s, r))"
    unfolding seqp.simps
    by (rule good_thn [OF safeD [OF assms(1) s]], rule safeD [OF assms(2)])
      (use s assms(3) in \<open>auto dest: growD(1)\<close>)
qed

subsection \<open>Emitters and expected characters\<close>

definition good_emit :: "bytes \<Rightarrow> nat \<Rightarrow> (tinycc_compile_t \<Rightarrow> tinycc_compile_t option) \<Rightarrow> bool" where
  "good_emit hb L f \<longleftrightarrow> (\<forall>c is c'. rep hb L c is \<longrightarrow> f c = Some c' \<longrightarrow> (\<exists>is'. grow hb L c is c' is'))"

lemma good_emit_call:
  assumes "\<And>c'. f c = Some c' \<Longrightarrow> \<exists>is'. grow hb L c is c' is'"
  shows "good hb L 0 is c s (emit f (c, s, r))"
proof (cases "f c")
  case (Some c')
  then show ?thesis using assms [OF Some] by (auto simp: good_def)
qed simp

lemma safe_emit: "good_emit hb L f \<Longrightarrow> safe hb L k 0 (emit f)"
  by (rule safeI, rule good_emit_call) (auto simp: good_emit_def)

lemma good_emit_add: "wf_instr i \<Longrightarrow> (\<And>c. cap c = length (out c) \<Longrightarrow> f c = try_add i c) \<Longrightarrow> good_emit hb L f"
  unfolding good_emit_def by (metis repD(3) try_add_grow)

lemma safe_eop [intro]: "op \<in> plain_ops \<Longrightarrow> safe hb L k 0 (eop op)"
  by (rule safe_emit, rule good_emit_add [of "Plain op"]) (auto simp: emit_op_eq)

lemma safe_push_const [intro]: "safe hb L k 0 (emit (\<lambda>c. emit_push_const c val))"
  by (rule safe_emit, rule good_emit_add [of "Const val"]) (auto simp: emit_instr_eq)

lemma safe_push_var [intro]: "slot < TCC_MAX_VARS \<Longrightarrow> safe hb L k 0 (emit (\<lambda>c. emit_push_var c slot))"
  by (rule safe_emit, rule good_emit_add [of "VarI TCC_OP_PUSH_VAR slot"]) (auto simp: emit_instr_eq)

lemma safe_store_var [intro]: "slot < TCC_MAX_VARS \<Longrightarrow> safe hb L k 0 (emit (\<lambda>c. emit_store_var c slot))"
  by (rule safe_emit, rule good_emit_add [of "VarI TCC_OP_STORE_VAR slot"]) (auto simp: emit_instr_eq)

lemma safe_puts: "length txt < 256 \<Longrightarrow> NUL \<notin> set txt \<Longrightarrow> safe hb L k 0 (emit (\<lambda>c. emit_puts c txt))"
  by (rule safe_emit, rule good_emit_add [of "Puts txt"]) (auto simp: emit_puts_eq)

lemma emit_jump_grow:
  assumes "rep hb L c is" "emit_jump c op = Some (p, c')" "op = TCC_OP_JMP \<or> op = TCC_OP_JZ"
  shows "grow hb L c is c' (is @ [Jump op 0])" "patchable (length hb) (is @ [Jump op 0]) p"
proof -
  have "try_add (Jump op 0) c = Some c'" "p = pos c + 1"
    using assms(2) emit_jump_eq [OF repD(3) [OF assms(1)]] by auto
  then show "grow hb L c is c' (is @ [Jump op 0])" "patchable (length hb) (is @ [Jump op 0]) p"
    using try_add_grow [OF assms(1)] patchable_last [of "length hb" "is"] assms(3) rep_pos [OF assms(1)] by auto
qed

lemma safe_expect: "want \<noteq> NUL \<Longrightarrow> safe hb L k 1 (expect want)"
proof (rule safeI)
  fix c r "is" and s :: string assume "want \<noteq> NUL" "rep hb L c is"
  then show "good hb L 1 is c s (expect want (c, s, r))"
    using expect_char_length(1) [of s want] by (auto intro!: good_stay split: prod.split bool.split simp: Suc_leI)
qed

lemma safe_expect_then:
  "want \<noteq> NUL \<Longrightarrow> safe hb L k d (seqp ps) \<Longrightarrow> safe hb L k (Suc d) (seqp (expect want # ps))"
  by (rule safe_seq [OF safe_expect]) auto

text \<open>Case distinctions on a scan.\<close>

lemma good_match_str:
  assumes "\<And>s1. length s1 < length t \<Longrightarrow> good hb L d is c s (A s1)"
    and "\<And>s1. length s1 \<le> length t \<Longrightarrow> good hb L d is c s (B s1)" "cstr tok \<noteq> []"
  shows "good hb L d is c s (case match_str t tok of (True, s1) \<Rightarrow> A s1 | (False, s1) \<Rightarrow> B s1)"
  using assms match_str_length [of t tok] by (auto split: prod.split bool.split)

lemma good_identifier:
  assumes "\<And>name s1. length s1 < length t \<Longrightarrow> good hb L d is c s (A name s1)"
    and "good hb L d is c s B"
  shows "good hb L d is c s (case parse_identifier t TCC_VAR_NAME_MAX of (Some name, s1) \<Rightarrow> A name s1 | (None, _) \<Rightarrow> B)"
  using assms parse_identifier_length [of t TCC_VAR_NAME_MAX]
  by (auto split: prod.split option.split simp: TCC_VAR_NAME_MAX_def)

lemma find_var_slot: "find_var c name = Some slot \<Longrightarrow> slot < vars c"
  using find_upt_Some(2) by (auto simp: find_var_def)

lemma good_find_var:
  assumes "\<And>slot. slot < TCC_MAX_VARS \<Longrightarrow> good hb L d is c s (A slot)" "rep hb L c is"
  shows "good hb L d is c s (case find_var c name of None \<Rightarrow> Fail | Some slot \<Rightarrow> A slot)"
  using assms(1) find_var_slot [of c name] repD(6) [OF assms(2)] by (auto split: option.split)

subsection \<open>Expressions\<close>

lemma good_shorter:
  assumes "safe hb L k d p" "length s1 < k" "length s1 + d' \<le> length s + d" "rep hb L c is"
  shows "good hb L d' is c s (p (c, s1, r))"
  by (rule good_later [OF safeD [OF assms(1,2,4)] assms(3)])

lemma safe_primary:
  assumes pe: "safe hb L n 0 pe"
  shows "safe hb L (Suc n) 1 (parse_primary pe)"
proof (rule safeI)
  fix c r "is" and s :: string assume s: "length s < Suc n" and rep: "rep hb L c is"
  obtain b s1 where e: "expect_char (skip_ws_and_comments s) CHR ''('' = (b, s1)" by fastforce
  note ws = length_skip_ws [of s]
  show "good hb L 1 is c s (parse_primary pe (c, s, r))"
  proof (cases b)
    case True
    then have s1: "length s1 < length s" using e expect_char_length(1) ws by fastforce
    have "safe hb L n 1 (seqp [pe, expect CHR '')''])"
      by (rule safe_seq [OF pe safe_expect_then [OF _ safe_seq_Nil]]) auto
    from good_shorter [OF this _ _ rep, of s1 1 s] show ?thesis using e True s s1 by simp
  next
    case False
    then have s1: "length s1 \<le> length s" using e expect_char_length(2) ws by fastforce
    obtain v s2 where k: "parse_c_char s1 = (v, s2)" by fastforce
    obtain v' s3 where n: "parse_number s2 = (v', s3)" by fastforce
    have const: "good hb L 1 is c s (emit (\<lambda>c. emit_push_const c x) (c, s', r))" if "length s' < length s" for x s'
      by (rule good_shorter [OF safe_push_const [of hb L "Suc n"] _ _ rep]) (use that s in auto)
    show ?thesis
    proof (cases v)
      case None
      then have "length s2 \<le> length s" using k parse_c_char_length(2) s1 by fastforce
      then show ?thesis
        using e False k None n const [of s3] parse_number_length(1) [of s2] by (cases v') auto
    next
      case (Some x)
      then show ?thesis using e False k const [of s2] parse_c_char_length(1) [of s1 x s2] s1 by simp
    qed
  qed
qed

lemma plain_ops_simps [simp]:
  "TCC_OP_ADD \<in> plain_ops" "TCC_OP_SUB \<in> plain_ops" "TCC_OP_MUL \<in> plain_ops" "TCC_OP_DIV \<in> plain_ops"
  "TCC_OP_MOD \<in> plain_ops" "TCC_OP_LT \<in> plain_ops" "TCC_OP_LE \<in> plain_ops" "TCC_OP_GT \<in> plain_ops"
  "TCC_OP_GE \<in> plain_ops" "TCC_OP_EQ \<in> plain_ops" "TCC_OP_NE \<in> plain_ops" "TCC_OP_NEG \<in> plain_ops"
  "TCC_OP_NOT \<in> plain_ops" "TCC_OP_DUP \<in> plain_ops" "TCC_OP_POP \<in> plain_ops" "TCC_OP_RET \<in> plain_ops"
  "TCC_OP_SLEEP \<in> plain_ops" "TCC_OP_PUTC \<in> plain_ops"
  by (simp_all add: plain_ops_def)

text \<open>A sequence of emitters that are safe by themselves.\<close>

lemma safe_emits: "(\<And>p. p \<in> set ps \<Longrightarrow> safe hb L k 0 p) \<Longrightarrow> safe hb L k 0 (seqp ps)"
  by (induction ps) (auto intro: safe_seq)

lemma safe_post_step:
  assumes "slot < TCC_MAX_VARS" "op \<in> plain_ops"
  shows "safe hb L k 0 (post_step op slot)"
  unfolding post_step_def by (rule safe_emits) (use assms in auto)

lemma safe_pre_step:
  assumes "op \<in> plain_ops"
  shows "safe hb L k 1 (pre_step op)"
proof (rule safeI)
  fix c r "is" and s :: string assume s: "length s < k" and rep: "rep hb L c is"
  have *: "safe hb L k 0 (seqp [emit (\<lambda>c. emit_push_var c slot), emit (\<lambda>c. emit_push_const c 1), eop op,
      eop TCC_OP_DUP, emit (\<lambda>c. emit_store_var c slot)])" if "slot < TCC_MAX_VARS" for slot
    by (rule safe_emits) (use that assms in auto)
  show "good hb L 1 is c s (pre_step op (c, s, r))"
    unfolding pre_step.simps
    by (intro good_identifier good_find_var [OF _ rep] good_shorter [OF * _ _ rep]) (use s in auto)
qed

lemma safe_postfix:
  assumes "safe hb L n 0 pe"
  shows "safe hb L (Suc n) 1 (parse_postfix pe)"
proof (rule safeI)
  fix c r "is" and s :: string assume s: "length s < Suc n" and rep: "rep hb L c is"
  show "good hb L 1 is c s (parse_postfix pe (c, s, r))"
    unfolding parse_postfix.simps
    by (intro good_identifier good_find_var [OF _ rep] good_match_str safeD [OF safe_primary [OF assms] s rep]
          good_shorter [OF safe_post_step [of _ _ hb L "Suc n"] _ _ rep] good_shorter [OF safe_push_var [of _ hb L "Suc n"] _ _ rep])
      (use s in \<open>auto simp: cstr_Cons\<close>)
qed

lemma safe_unary:
  assumes "safe hb L n 0 pe" "m \<le> Suc n"
  shows "safe hb L m 1 (parse_unary pe m)"
  using assms(2)
proof (induction m)
  case (Suc m)
  have IH: "safe hb L m 1 (parse_unary pe m)" using Suc by simp
  have un: "safe hb L m 1 (seqp [parse_unary pe m, eop op])" if "op \<in> plain_ops" for op
    by (rule safe_seq [OF IH, of 0], rule safe_emits) (use that in auto)
  have post: "safe hb L (Suc n) 1 (parse_postfix pe)" by (rule safe_postfix [OF assms(1)])
  show ?case
  proof (rule safeI)
    fix c r "is" and s :: string assume s: "length s < Suc m" and rep: "rep hb L c is"
    show "good hb L 1 is c s (parse_unary pe (Suc m) (c, s, r))"
      unfolding parse_unary.simps
      by (intro good_match_str good_shorter [OF safe_pre_step [of _ hb L "Suc m"] _ _ rep]
            good_shorter [OF un _ _ rep] good_shorter [OF post _ _ rep])
        (use s Suc.prems in \<open>auto simp: cstr_Cons\<close>)
  qed
qed simp

lemma match_ops_length:
  assumes "\<And>tok op. (tok, op) \<in> set ops \<Longrightarrow> cstr tok \<noteq> []"
  shows "match_ops ops s = (Some op, s') \<Longrightarrow> length s' < length s \<and> op \<in> snd ` set ops"
    and "match_ops ops s = (None, s') \<Longrightarrow> length s' \<le> length s"
proof -
  have "(case fst (match_ops ops s) of
      Some op \<Rightarrow> length (snd (match_ops ops s)) < length s \<and> op \<in> snd ` set ops
    | None \<Rightarrow> length (snd (match_ops ops s)) \<le> length s)"
    using assms
  proof (induction ops s rule: match_ops.induct)
    case (2 tok op ts s)
    obtain b s1 where m: "match_str s tok = (b, s1)" by fastforce
    show ?case
    proof (cases b)
      case True
      have "cstr tok \<noteq> []" by (rule 2(2) [of tok op]) simp
      then show ?thesis using m True match_str_length(1) [of s tok s1] by simp
    next
      case False
      have "case fst (match_ops ts s1) of
          Some op \<Rightarrow> length (snd (match_ops ts s1)) < length s1 \<and> op \<in> snd ` set ts
        | None \<Rightarrow> length (snd (match_ops ts s1)) \<le> length s1"
        using 2(1) [of False s1] 2(2) m False by auto
      then show ?thesis
        using m False match_str_length(2) [of s tok s1] by (auto split: option.splits)
    qed
  qed simp
  then show "match_ops ops s = (Some op, s') \<Longrightarrow> length s' < length s \<and> op \<in> snd ` set ops"
    "match_ops ops s = (None, s') \<Longrightarrow> length s' \<le> length s"
    by auto
qed

definition ops_ok :: "(string \<times> u8) list \<Rightarrow> bool" where
  "ops_ok ops \<longleftrightarrow> (\<forall>(tok, op) \<in> set ops. cstr tok \<noteq> [] \<and> op \<in> plain_ops)"

lemma good_match_ops:
  assumes "\<And>op s1. length s1 < length t \<Longrightarrow> op \<in> snd ` set ops \<Longrightarrow> good hb L d is c s (A op s1)"
    and "\<And>s1. length s1 \<le> length t \<Longrightarrow> good hb L d is c s (B s1)"
    and "\<And>tok op. (tok, op) \<in> set ops \<Longrightarrow> cstr tok \<noteq> []"
  shows "good hb L d is c s (case match_ops ops t of (Some op, s1) \<Rightarrow> A op s1 | (None, s1) \<Rightarrow> B s1)"
  using assms(1,2) match_ops_length [of ops t, OF assms(3)] by (auto split: prod.split option.split)

lemma safe_binop_loop:
  assumes "safe hb L k d operand" "ops_ok ops" "m \<le> k"
  shows "safe hb L m 0 (binop_loop ops operand m)"
  using assms(3)
proof (induction m)
  case (Suc m)
  have IH: "safe hb L m 0 (binop_loop ops operand m)" using Suc by simp
  show ?case
  proof (rule safeI)
    fix c r "is" and s :: string assume s: "length s < Suc m" and rep: "rep hb L c is"
    have "good hb L 0 is c s (thn (seqp [operand, eop op] (c, s1, r)) (\<lambda>st. binop_loop ops operand m st))"
      if s1: "length s1 < length s" and op: "op \<in> snd ` set ops" for op s1
    proof (rule good_later, rule good_thn)
      have "safe hb L k d (seqp [operand, eop op])"
        by (rule safe_seq [OF assms(1), of 0], rule safe_emits) (use op assms(2) in \<open>fastforce simp: ops_ok_def\<close>)+
      then show "good hb L d is c s1 (seqp [operand, eop op] (c, s1, r))"
        by (rule safeD) (use s1 s Suc.prems rep in auto)
      fix c' r' is' and s' :: string assume "grow hb L c is c' is'" "length s' + d \<le> length s1"
      then show "good hb L 0 is' c' s' (binop_loop ops operand m (c', s', r'))"
        by (intro safeD [OF IH]) (use s1 s in \<open>auto dest: growD(1)\<close>)
    qed (use s1 in auto)
    then show "good hb L 0 is c s (binop_loop ops operand (Suc m) (c, s, r))"
      unfolding binop_loop.simps
      by (intro good_match_ops good_stay [OF rep]) (use assms(2) in \<open>auto simp: ops_ok_def\<close>)
  qed
qed simp

lemma safe_binop_level:
  assumes "safe hb L m 1 operand" "ops_ok ops"
  shows "safe hb L m 1 (seqp [operand, binop_loop ops operand m])"
  by (rule safe_seq [OF assms(1) safe_seq [OF safe_binop_loop [OF assms order_refl] safe_seq_Nil]]) auto

lemma safe_equality:
  assumes "safe hb L n 0 pe" "m \<le> Suc n"
  shows "safe hb L m 1 (parse_equality pe m)"
  unfolding parse_equality_def parse_relational_def parse_additive_def parse_multiplicative_def
  by (intro safe_binop_level safe_unary [OF assms]) (simp_all add: ops_ok_def cstr_Cons)

text \<open>
  A run of emitters and patches: \<open>chain c0 is0 c P\<close> says that the code has grown from \<open>c0\<close> to
  \<open>c\<close> and that the places \<open>P\<close> may still be patched.
\<close>

definition chain :: "bytes \<Rightarrow> nat \<Rightarrow> tinycc_compile_t \<Rightarrow> instr list \<Rightarrow> tinycc_compile_t \<Rightarrow> nat set \<Rightarrow> bool" where
  "chain hb L c0 is0 c P \<longleftrightarrow> (\<exists>is. grow hb L c0 is0 c is \<and> (\<forall>p \<in> P. patchable (length hb) is p))"

lemma chain_start: "rep hb L c is \<Longrightarrow> (\<And>p. p \<in> P \<Longrightarrow> patchable (length hb) is p) \<Longrightarrow> chain hb L c is c P"
  unfolding chain_def using grow_refl by blast

lemma chain_step:
  assumes "chain hb L c0 is0 c P" "\<And>is. rep hb L c is \<Longrightarrow> \<exists>is'. grow hb L c is c' is'"
  shows "chain hb L c0 is0 c' P"
proof -
  obtain "is" where i: "grow hb L c0 is0 c is" "\<And>p. p \<in> P \<Longrightarrow> patchable (length hb) is p"
    using assms(1) by (auto simp: chain_def)
  obtain is' where g: "grow hb L c is c' is'" using assms(2) growD(1) [OF i(1)] by blast
  show ?thesis unfolding chain_def using grow_trans [OF i(1) g] patchable_ext [OF i(2) growD(2) [OF g]] by blast
qed

lemma chain_emit: "chain hb L c0 is0 c P \<Longrightarrow> f c = Some c' \<Longrightarrow> good_emit hb L f \<Longrightarrow> chain hb L c0 is0 c' P"
  by (erule chain_step) (auto simp: good_emit_def)

lemma chain_jump:
  assumes "chain hb L c0 is0 c P" "emit_jump c op = Some (p, c')" "op = TCC_OP_JMP \<or> op = TCC_OP_JZ"
  shows "chain hb L c0 is0 c' (insert p P)"
proof -
  obtain "is" where i: "grow hb L c0 is0 c is" "\<And>p. p \<in> P \<Longrightarrow> patchable (length hb) is p"
    using assms(1) by (auto simp: chain_def)
  note j = emit_jump_grow [OF growD(1) [OF i(1)] assms(2,3)]
  show ?thesis
    unfolding chain_def using grow_trans [OF i(1) j(1)] j(2) patchable_ext [OF i(2) growD(2) [OF j(1)]] by blast
qed

lemma chain_patch: "chain hb L c0 is0 c P \<Longrightarrow> p \<in> P \<Longrightarrow> chain hb L c0 is0 (patch_u32 c p target) P"
proof -
  assume "chain hb L c0 is0 c P" "p \<in> P"
  then obtain "is" where i: "grow hb L c0 is0 c is" "\<And>p. p \<in> P \<Longrightarrow> patchable (length hb) is p"
    by (auto simp: chain_def)
  obtain is' where g: "grow hb L c is (patch_u32 c p target) is'"
    using grow_patchable [OF growD(1) [OF i(1)] i(2) [OF \<open>p \<in> P\<close>]] by blast
  show ?thesis unfolding chain_def using grow_trans [OF i(1) g] patchable_ext [OF i(2) growD(2) [OF g]] by blast
qed

lemma chain_end: "chain hb L c0 is0 c P \<Longrightarrow> \<exists>is. grow hb L c0 is0 c is"
  by (auto simp: chain_def)

lemma chain_mono: "chain hb L c0 is0 c P \<Longrightarrow> Q \<subseteq> P \<Longrightarrow> chain hb L c0 is0 c Q"
  by (auto simp: chain_def)

lemma good_push_const: "good_emit hb L (\<lambda>c. emit_push_const c val)"
  by (rule good_emit_add [of "Const val"]) (auto simp: emit_instr_eq)

lemma and_tail_grow:
  assumes "rep hb L c is" "patchable (length hb) is p" "and_tail p c = Some c'"
  shows "\<exists>is'. grow hb L c is c' is'"
proof -
  from assms(3) obtain fp c1 c2 ep c3 c6 where
    s: "emit_jump c TCC_OP_JZ = Some (fp, c1)" "emit_push_const c1 1 = Some c2"
      "emit_jump c2 TCC_OP_JMP = Some (ep, c3)"
      "emit_push_const (patch_u32 (patch_u32 c3 p (code_pos c3)) fp (code_pos (patch_u32 c3 p (code_pos c3)))) 0 = Some c6"
      "c' = patch_u32 c6 ep (code_pos c6)"
    by (auto simp: and_tail_def Let_def bind_eq_Some_conv)
  have "chain hb L c is c {p}" by (rule chain_start [OF assms(1)]) (simp add: assms(2))
  then have "chain hb L c is c3 {ep, fp, p}"
    by (blast intro: chain_jump s chain_emit [OF _ _ good_push_const])
  then have "chain hb L c is c6 {ep, fp, p}"
    by (intro chain_emit [OF _ s(4) good_push_const] chain_patch) auto
  then show ?thesis unfolding s(5) by (intro chain_end chain_patch) auto
qed

lemma or_head_grow:
  assumes "rep hb L c is" "or_head c = Some (p, c')"
  shows "chain hb L c is c' {p}"
proof -
  from assms(2) obtain ep c1 c2 c3 where
    s: "emit_jump c TCC_OP_JZ = Some (ep, c1)" "emit_push_const c1 1 = Some c2"
      "emit_jump c2 TCC_OP_JMP = Some (p, c3)" "c' = patch_u32 c3 ep (code_pos c3)"
    by (auto simp: or_head_def bind_eq_Some_conv)
  have "chain hb L c is c {}" by (rule chain_start [OF assms(1)]) simp
  then have "chain hb L c is c3 {p, ep}"
    by (blast intro: chain_jump s chain_emit [OF _ _ good_push_const])
  then show ?thesis unfolding s(4) by (intro chain_mono [OF chain_patch]) auto
qed

lemma or_tail_grow:
  assumes "rep hb L c is" "patchable (length hb) is p" "or_tail p c = Some c'"
  shows "\<exists>is'. grow hb L c is c' is'"
proof -
  from assms(3) obtain fp c1 c2 rp c3 c4 where
    s: "emit_jump c TCC_OP_JZ = Some (fp, c1)" "emit_push_const c1 1 = Some c2"
      "emit_jump c2 TCC_OP_JMP = Some (rp, c3)"
      "emit_push_const (patch_u32 c3 fp (code_pos c3)) 0 = Some c4"
      "c' = patch_u32 (patch_u32 c4 p (code_pos c4)) rp (code_pos (patch_u32 c4 p (code_pos c4)))"
    by (auto simp: or_tail_def Let_def bind_eq_Some_conv)
  have "chain hb L c is c {p}" by (rule chain_start [OF assms(1)]) (simp add: assms(2))
  then have "chain hb L c is c3 {rp, fp, p}"
    by (blast intro: chain_jump s chain_emit [OF _ _ good_push_const])
  then have "chain hb L c is c4 {rp, fp, p}"
    by (intro chain_emit [OF _ s(4) good_push_const] chain_patch) auto
  then show ?thesis unfolding s(5) by (intro chain_end chain_patch) auto
qed

text \<open>A loop round whose left operand leaves a jump to patch behind the right operand.\<close>

lemma good_logical_round:
  assumes operand: "safe hb L k d operand" and s1: "length s1 < length s" "length s1 < k"
    and chain: "chain hb L c is c1 {p}"
    and tail: "\<And>c is c'. rep hb L c is \<Longrightarrow> patchable (length hb) is p \<Longrightarrow> tail c = Some c' \<Longrightarrow> \<exists>is'. grow hb L c is c' is'"
    and rest: "\<And>c' s' r' is'. rep hb L c' is' \<Longrightarrow> length s' \<le> length s1 \<Longrightarrow> good hb L 0 is' c' s' (lp (c', s', r'))"
  shows "good hb L 0 is c s (thn (seqp [operand, emit tail] (c1, s1, r)) lp)"
proof -
  obtain is1 where g: "grow hb L c is c1 is1" and p: "patchable (length hb) is1 p"
    using chain by (auto simp: chain_def)
  have "good hb L d is1 c1 s1 (seqp [operand, emit tail] (c1, s1, r))"
    unfolding seqp.simps
  proof (rule good_thn [OF safeD [OF operand s1(2) growD(1) [OF g]]])
    fix c2 r2 is2 and s2 :: string assume g2: "grow hb L c1 is1 c2 is2"
    show "good hb L 0 is2 c2 s2 (thn (emit tail (c2, s2, r2)) Ok)"
      by (rule good_thn [of _ _ 0 _ _ _ _ 0], rule good_emit_call,
          rule tail [OF growD(1) [OF g2] patchable_ext [OF p growD(2) [OF g2]]])
        (auto intro!: good_stay dest: growD(1))
  qed simp
  then have "good hb L 0 is1 c1 s1 (thn (seqp [operand, emit tail] (c1, s1, r)) lp)"
    by (rule good_thn) (auto intro!: rest dest: growD(1))
  then show ?thesis by (intro good_after [OF g]) (rule good_later, use s1 in auto)
qed

lemma safe_and_loop:
  assumes "safe hb L k d operand" "m \<le> k"
  shows "safe hb L m 0 (and_loop operand m)"
  using assms(2)
proof (induction m)
  case (Suc m)
  have IH: "safe hb L m 0 (and_loop operand m)" using Suc by simp
  show ?case
  proof (rule safeI)
    fix c r "is" and s :: string assume s: "length s < Suc m" and rep: "rep hb L c is"
    have round: "good hb L 0 is c s (thn (seqp [operand, emit (and_tail p)] (c1, s1, r)) (\<lambda>st. and_loop operand m st))"
      if s1: "length s1 < length s" and j: "emit_jump c TCC_OP_JZ = Some (p, c1)" for p c1 s1
    proof (rule good_logical_round [OF assms(1) s1 _ _ and_tail_grow])
      show "chain hb L c is c1 {p}" by (rule chain_jump [OF chain_start [OF rep] j]) auto
    qed (use s s1 Suc.prems in \<open>auto intro!: safeD [OF IH]\<close>)
    show "good hb L 0 is c s (and_loop operand (Suc m) (c, s, r))"
      unfolding and_loop.simps
      by (rule good_match_str) (auto intro!: good_stay [OF rep] round split: option.split simp: cstr_Cons simp del: seqp.simps)
  qed
qed simp

lemma safe_or_loop:
  assumes "safe hb L k d operand" "m \<le> k"
  shows "safe hb L m 0 (or_loop operand m)"
  using assms(2)
proof (induction m)
  case (Suc m)
  have IH: "safe hb L m 0 (or_loop operand m)" using Suc by simp
  show ?case
  proof (rule safeI)
    fix c r "is" and s :: string assume s: "length s < Suc m" and rep: "rep hb L c is"
    have round: "good hb L 0 is c s (thn (seqp [operand, emit (or_tail p)] (c1, s1, r)) (\<lambda>st. or_loop operand m st))"
      if s1: "length s1 < length s" and j: "or_head c = Some (p, c1)" for p c1 s1
      by (rule good_logical_round [OF assms(1) s1 _ or_head_grow [OF rep j] or_tail_grow])
        (use s s1 Suc.prems in \<open>auto intro!: safeD [OF IH]\<close>)
    show "good hb L 0 is c s (or_loop operand (Suc m) (c, s, r))"
      unfolding or_loop.simps
      by (rule good_match_str) (auto intro!: good_stay [OF rep] round split: option.split simp: cstr_Cons simp del: seqp.simps)
  qed
qed simp

lemma safe_logical_or:
  assumes "safe hb L n 0 pe" "m \<le> Suc n"
  shows "safe hb L m 1 (parse_logical_or pe m)"
proof -
  have a: "safe hb L m 1 (parse_logical_and pe m)"
    unfolding parse_logical_and_def
    by (rule safe_seq [OF safe_equality [OF assms] safe_seq [OF safe_and_loop [OF safe_equality [OF assms]] safe_seq_Nil]]) auto
  show ?thesis
    unfolding parse_logical_or_def by (rule safe_seq [OF a safe_seq [OF safe_or_loop [OF a] safe_seq_Nil]]) auto
qed

lemma safe_assign:
  assumes pe: "safe hb L n 0 pe"
  shows "safe hb L (Suc n) 1 (parse_assign_expr pe (Suc n))"
proof (rule safeI)
  fix c r "is" and s :: string assume s: "length s < Suc n" and rep: "rep hb L c is"
  have lor: "good hb L 1 is c s (parse_logical_or pe (Suc n) (c, s, r))"
    by (rule safeD [OF safe_logical_or [OF pe order_refl] s rep])
  have asg: "good hb L 1 is c s (seqp ((if op \<noteq> TCC_OP_STORE_VAR then [emit (\<lambda>c. emit_push_var c slot)] else []) @
      [pe] @ (if op \<noteq> TCC_OP_STORE_VAR then [eop op] else []) @
      [eop TCC_OP_DUP, emit (\<lambda>c. emit_store_var c slot)]) (c, s2, r))"
    if "slot < TCC_MAX_VARS" "length s2 < length s" "op \<in> plain_ops \<or> op = TCC_OP_STORE_VAR" for slot s2 op
    by (rule good_shorter [OF safe_emits [of _ hb L n] _ _ rep]) (use that s pe in \<open>auto split: if_splits\<close>)
  show "good hb L 1 is c s (parse_assign_expr pe (Suc n) (c, s, r))"
    unfolding parse_assign_expr.simps
    by (intro good_identifier good_find_var [OF _ rep] good_match_ops lor asg) (auto simp: cstr_Cons)
qed

theorem safe_expr: "safe hb L n 1 (parse_expr n)"
proof (induction n)
  case (Suc n)
  show ?case
    by (rule safeI) (simp only: parse_expr.simps, rule safeD [OF safe_assign [OF safe_mono [OF Suc]]], auto)
qed simp

end
