(* ===== verification/TinyStm.thy ===== *)
theory TinyStm
  imports TinySafe
begin

text \<open>
  The contract of \<^theory_text>\<open>TinySafe\<close> for declarations and statements of the tiny C compiler, up to
  \<open>parse_statement\<close> and the main loop: the parser always stops, and what it emits is a list of
  well-formed instructions.
\<close>

subsection \<open>Postconditions\<close>

definition post :: "(tinycc_compile_t \<Rightarrow> bool) \<Rightarrow> nat \<Rightarrow> string \<Rightarrow> pst res \<Rightarrow> bool" where
  "post Q d s res \<longleftrightarrow>
     (case res of Ok (c', s', r') \<Rightarrow> length s' + d \<le> length s \<and> Q c' | Fail \<Rightarrow> True | NoFuel \<Rightarrow> False)"

lemma good_post: "good hb L d is c s res \<longleftrightarrow> post (\<lambda>c'. \<exists>is'. grow hb L c is c' is') d s res"
  by (simp add: good_def post_def)

lemma post_Fail [simp]: "post Q d s Fail"
  by (simp add: post_def)

lemma post_Ok: "Q c \<Longrightarrow> length s' + d \<le> length s \<Longrightarrow> post Q d s (Ok (c, s', r))"
  by (simp add: post_def)

lemma post_later: "post Q d s1 res \<Longrightarrow> length s1 + d' \<le> length s + d \<Longrightarrow> post Q d' s res"
  by (cases res) (auto simp: post_def)

lemma post_mono: "post Q d s res \<Longrightarrow> (\<And>c. Q c \<Longrightarrow> Q' c) \<Longrightarrow> post Q' d s res"
  by (cases res) (auto simp: post_def)

lemma post_thn:
  assumes "post Q1 d1 s m" "d \<le> d1 + d2"
    and "\<And>c' s' r'. Q1 c' \<Longrightarrow> length s' + d1 \<le> length s \<Longrightarrow> post Q d2 s' (f (c', s', r'))"
  shows "post Q d s (thn m f)"
proof (cases m)
  case (Ok x)
  obtain c' s' r' where x: "x = (c', s', r')" by (cases x)
  with Ok assms(1) have q: "Q1 c'" and len: "length s' + d1 \<le> length s" by (auto simp: post_def)
  show ?thesis unfolding Ok x thn.simps
    by (rule post_later [OF assms(3) [OF q len]]) (use len assms(2) in linarith)
qed (use assms(1) in \<open>auto simp: post_def\<close>)

lemma post_chain:
  assumes "chain hb L c0 is0 c P" "safe hb L k d p" "length s < k"
  shows "post (\<lambda>c'. chain hb L c0 is0 c' P) d s (p (c, s, r))"
proof -
  obtain "is" where i: "grow hb L c0 is0 c is" "\<And>p. p \<in> P \<Longrightarrow> patchable (length hb) is p"
    using assms(1) by (auto simp: chain_def)
  have "good hb L d is c s (p (c, s, r))" by (rule safeD [OF assms(2,3) growD(1) [OF i(1)]])
  then show ?thesis
    unfolding good_post
  proof (rule post_mono)
    fix c' assume "\<exists>is'. grow hb L c is c' is'"
    then obtain is' where g: "grow hb L c is c' is'" by blast
    show "chain hb L c0 is0 c' P"
      unfolding chain_def using grow_trans [OF i(1) g] patchable_ext [OF i(2) growD(2) [OF g]] by blast
  qed
qed

lemma post_expect:
  assumes "rep hb L c is" "want \<noteq> NUL"
  shows "post (\<lambda>c1. chain hb L c is c1 {}) 1 s (expect want (c, s, r))"
  by (rule post_chain [OF chain_start [OF assms(1)] safe_expect [OF assms(2), of _ _ "Suc (length s)"]]) auto

lemma post_emit: "(\<And>c'. f c = Some c' \<Longrightarrow> Q c') \<Longrightarrow> post Q 0 s (emit f (c, s, r))"
  by (auto simp: post_def split: option.split)

lemma post_jump:
  assumes "chain hb L c0 is0 c P" "op = TCC_OP_JMP \<or> op = TCC_OP_JZ"
    and "\<And>p c1. chain hb L c0 is0 c1 (insert p P) \<Longrightarrow> post Q d s (F p c1)"
  shows "post Q d s (case emit_jump c op of None \<Rightarrow> Fail | Some (p, c1) \<Rightarrow> F p c1)"
  using chain_jump [OF assms(1) _ assms(2)] assms(3) by (auto split: option.split)

lemma safe_chainI:
  assumes "\<And>c r is s. length s < k \<Longrightarrow> chain hb L c is c {} \<Longrightarrow>
    post (\<lambda>c'. chain hb L c is c' {}) d s (p (c, s, r))"
  shows "safe hb L k d p"
proof (rule safeI)
  fix c r "is" and s :: string assume "length s < k" "rep hb L c is"
  then show "good hb L d is c s (p (c, s, r))"
    unfolding good_post using assms [of s c "is" r] chain_start [of hb L c "is" "{}"]
    by (auto intro: post_mono dest: chain_end)
qed

lemma chain_rep: "chain hb L c0 is0 c P \<Longrightarrow> \<exists>is. rep hb L c is \<and> (\<forall>p \<in> P. patchable (length hb) is p)"
  by (auto simp: chain_def dest: growD(1))

subsection \<open>Declarations\<close>

lemma declare_var_grow:
  assumes "rep hb L c is" "declare_var c name = Some (slot, c1)"
  shows "grow hb L c is c1 is" "slot < TCC_MAX_VARS"
  using assms by (auto simp: declare_var_def grow_def rep_def loop_patches_def split: if_splits)

lemma chain_declare:
  assumes "chain hb L c0 is0 c P" "declare_var c name = Some (slot, c1)"
  shows "chain hb L c0 is0 c1 P" "slot < TCC_MAX_VARS"
  using chain_step [OF assms(1), of c1] declare_var_grow [OF _ assms(2)] chain_rep [OF assms(1)] by blast+

lemma safe_store_after:
  assumes "safe hb L k d pe" "slot < TCC_MAX_VARS"
  shows "safe hb L k d (seqp [pe, emit (\<lambda>c. emit_store_var c slot)])"
  by (rule safe_seq [OF assms(1), of 0], rule safe_emits) (use assms(2) in auto)

lemma safe_decl_loop:
  assumes pe: "safe hb L k d pe" and "m \<le> k"
  shows "safe hb L m 1 (decl_loop pe m)"
  using assms(2)
proof (induction m)
  case (Suc m)
  have IH: "safe hb L m 1 (decl_loop pe m)" using Suc by simp
  show ?case
  proof (rule safe_chainI)
    fix c r "is" and s :: string assume s: "length s < Suc m" and ch: "chain hb L c is c {}"
    let ?Q = "\<lambda>c'. chain hb L c is c' {}"
    obtain nm s1 where i: "parse_identifier s TCC_VAR_NAME_MAX = (nm, s1)" by fastforce
    show "post ?Q 1 s (decl_loop pe (Suc m) (c, s, r))"
    proof (cases nm)
      case (Some name)
      then have s1: "length s1 < length s" using parse_identifier_length [OF i [unfolded Some]] by (simp add: TCC_VAR_NAME_MAX_def)
      show ?thesis
      proof (cases "declare_var c name")
        case (Some sc)
        obtain slot c1 where sc: "sc = (slot, c1)" by fastforce
        note d = chain_declare [OF ch Some [unfolded sc]]
        obtain b s2 where m: "match_str s1 ''='' = (b, s2)" by fastforce
        have s2: "length s2 \<le> length s1" using m match_str_length [of s1 "''=''" s2] by (cases b) (auto simp: cstr_Cons)
        have init: "post ?Q 0 s1 (if b then seqp [pe, emit (\<lambda>c. emit_store_var c slot)] (c1, s2, r) else Ok (c1, s2, r))"
          using post_chain [OF d(1) safe_store_after [OF pe d(2)], of s2 r] s s1 s2 Suc.prems
          by (auto intro!: post_Ok d(1) intro: post_later simp del: seqp.simps)
        have tail: "post ?Q 0 s3 (case match_str s3 '','' of (True, s4) \<Rightarrow> decl_loop pe m (c2, s4, r2) | (False, s4) \<Rightarrow> Ok (c2, s4, r2))"
          if q: "?Q c2" and s3: "length s3 \<le> length s1" for c2 s3 r2
        proof -
          obtain b4 s4 where m4: "match_str s3 '','' = (b4, s4)" by fastforce
          show ?thesis
          proof (cases b4)
            case True
            then have "length s4 < length s3" using m4 match_str_length(1) by (auto simp: cstr_Cons)
            with post_chain [OF q IH, of s4 r2] show ?thesis
              using m4 True s s1 s3 by (auto intro: post_later)
          next
            case False
            then show ?thesis using m4 match_str_length(2) [of s3 "'',''" s4] q by (auto intro: post_Ok)
          qed
        qed
        have "post ?Q 0 s1 (thn (if b then seqp [pe, emit (\<lambda>c. emit_store_var c slot)] (c1, s2, r) else Ok (c1, s2, r))
          (\<lambda>(c2, s3, r2). case match_str s3 '','' of (True, s4) \<Rightarrow> decl_loop pe m (c2, s4, r2) | (False, s4) \<Rightarrow> Ok (c2, s4, r2)))"
          by (rule post_thn [OF init, of 0 0]) (auto intro: tail)
        then show ?thesis
          using i \<open>nm = Some name\<close> Some sc m s1 by (cases b) (auto intro: post_later simp del: seqp.simps)
      qed (use i Some in simp)
    qed (use i in simp)
  qed
qed simp

lemma safe_declaration:
  assumes "safe hb L k d pe" "t \<noteq> NUL"
  shows "safe hb L k 1 (parse_declaration pe k t)"
  unfolding parse_declaration_def
  by (rule safe_seq [OF safe_decl_loop [OF assms(1)] safe_expect_then [OF assms(2) safe_seq_Nil]]) auto

lemma safe_expr_until:
  assumes "safe hb L k d pe" "t \<noteq> NUL"
  shows "safe hb L k 1 (parse_expr_until pe t)"
  unfolding parse_expr_until_def
  by (rule safe_seq [OF assms(1) safe_expect_then [OF assms(2) safe_emits]]) auto

lemma safe_for_clause:
  assumes pe: "safe hb L k d pe" and t: "t \<noteq> NUL"
  shows "safe hb L k 1 (parse_for_clause pe k t allow)"
proof (rule safeI)
  fix c r "is" and s :: string assume s: "length s < k" and rep: "rep hb L c is"
  let ?s = "skip_ws_and_comments s"
  have ws: "length ?s \<le> length s" by (rule length_skip_ws)
  have "good hb L 1 is c s (Ok (c, tl ?s, r))" if "chd ?s = t"
    using tl_length [of ?s] that t ws by (intro good_stay [OF rep]) auto
  moreover have "good hb L 1 is c s (parse_declaration pe k t (c, snd (match_kw ?s ''int''), r))"
    by (rule good_shorter [OF safe_declaration [OF pe t] _ _ rep]) (use ws s match_kw_length(2) [of ?s "''int''"] in auto)
  moreover have "good hb L 1 is c s (parse_expr_until pe t (c, ?s, r))"
    by (rule good_shorter [OF safe_expr_until [OF pe t] _ _ rep]) (use ws s in auto)
  ultimately show "good hb L 1 is c s (parse_for_clause pe k t allow (c, s, r))"
    by (simp add: Let_def)
qed

subsection \<open>Blocks\<close>

lemma safe_block_loop:
  assumes "safe hb L k 1 pstm" "j \<le> m" "j \<le> k"
  shows "safe hb L j 1 (block_loop pstm m)"
  using assms(2,3)
proof (induction m arbitrary: j)
  case (Suc m)
  show ?case
  proof (rule safeI)
    fix c r "is" and s :: string assume s: "length s < j" and rep: "rep hb L c is"
    let ?s = "skip_ws_and_comments s"
    have ws: "length ?s \<le> length s" by (rule length_skip_ws)
    have "good hb L 1 is c s (Ok (c, tl ?s, r))" if "chd ?s = CHR ''}''"
      using tl_length [of ?s] that ws by (intro good_stay [OF rep]) auto
    moreover have "good hb L 1 is c s (thn (pstm (c, ?s, r)) (\<lambda>st. block_loop pstm m st))"
    proof (rule good_later [where d = 2], rule good_thn)
      show "good hb L 1 is c ?s (pstm (c, ?s, r))" by (rule safeD [OF assms(1)]) (use ws s Suc.prems rep in auto)
      fix c' r' is' and s' :: string assume "grow hb L c is c' is'" "length s' + 1 \<le> length ?s"
      then show "good hb L 1 is' c' s' (block_loop pstm m (c', s', r'))"
        by (intro safeD [OF Suc.IH [of "j - 1"]]) (use ws s Suc.prems in \<open>auto dest: growD(1)\<close>)
    qed (use ws in auto)
    ultimately show "good hb L 1 is c s (block_loop pstm (Suc m) (c, s, r))"
      by (simp add: Let_def)
  qed
qed simp

lemma safe_block:
  assumes "safe hb L k 1 pstm"
  shows "safe hb L (Suc k) 1 (parse_block pstm (Suc k))"
  unfolding parse_block_def
  by (rule safe_seq_shrink [OF safe_expect safe_seq [OF safe_block_loop [OF assms, of k] safe_seq_Nil]]) auto

subsection \<open>Loops\<close>

text \<open>Inside a loop the context has one more loop entry; \<open>pop_loop\<close> takes it away again.\<close>

lemma push_loop_rep:
  assumes "rep hb TCC_LOOP_MAX c is" "push_loop c = Some (l, c2)"
  shows "rep hb TCC_LOOP_MAX c2 is" "l < loop_depth c2"
    and "grow hb TCC_LOOP_MAX c2 is c3 is3 \<Longrightarrow> grow hb TCC_LOOP_MAX c is (pop_loop c3) is3"
proof -
  have c2: "l = loop_depth c" "loop_depth c < TCC_LOOP_MAX"
    "c2 = c\<lparr>loop := (loop c)[loop_depth c := \<lparr>break_patch = [], continue_patch = []\<rparr>], loop_depth := loop_depth c + 1\<rparr>"
    using assms(2) by (auto simp: push_loop_def split: if_splits)
  have "loop_patches c2 \<subseteq> loop_patches c"
    using repD(8) [OF assms(1)] c2(2) unfolding loop_patches_def c2(3)
    by (auto simp: less_Suc_eq nth_list_update split: if_splits)
  then show "rep hb TCC_LOOP_MAX c2 is" "l < loop_depth c2"
    using repD [OF assms(1)] c2 by (auto simp: rep_def)
  assume g: "grow hb TCC_LOOP_MAX c2 is c3 is3"
  have "loop_depth c3 = loop_depth c + 1" using growD(3) [OF g] c2(3) by simp
  then have "loop_patches (pop_loop c3) \<subseteq> loop_patches c3" "loop_depth (pop_loop c3) = loop_depth c"
    by (fastforce simp: loop_patches_def pop_loop_def)+
  then show "grow hb TCC_LOOP_MAX c is (pop_loop c3) is3"
    using growD [OF g] c2 repD [OF growD(1) [OF g]] repD(9) [OF assms(1)]
    by (auto simp: grow_def rep_def pop_loop_def)
qed

lemma chain_loop_patches: "chain hb L c0 is0 c P \<Longrightarrow> chain hb L c0 is0 c (P \<union> loop_patches c)"
  unfolding chain_def using repD(10) growD(1) by blast

lemma chain_patch_list:
  "chain hb L c0 is0 c P \<Longrightarrow> set ps \<subseteq> P \<Longrightarrow> chain hb L c0 is0 (patch_loop_list c ps target) P"
  by (induction ps arbitrary: c) (auto intro: chain_patch)

lemma loop_entry_patches:
  "l < loop_depth c \<Longrightarrow> set (break_patch (loop c ! l)) \<subseteq> loop_patches c"
  "l < loop_depth c \<Longrightarrow> set (continue_patch (loop c ! l)) \<subseteq> loop_patches c"
  by (auto simp: loop_patches_def)

lemma chain_entry:
  assumes "chain hb L c0 is0 c P" "l < loop_depth c"
  shows "chain hb L c0 is0 (patch_loop_list c (break_patch (loop c ! l)) target) P"
    "chain hb L c0 is0 (patch_loop_list c (continue_patch (loop c ! l)) target) P"
  using chain_mono [OF chain_patch_list [OF chain_loop_patches [OF assms(1)]]] loop_entry_patches [OF assms(2)]
  by blast+

lemma loop_patch_u32 [simp]: "loop (patch_u32 c p t) = loop c" "loop_depth (patch_u32 c p t) = loop_depth c"
  "code_pos (patch_u32 c p t) = code_pos c"
  by (simp_all add: patch_u32_def code_pos_def)

lemma loop_patch_list [simp]: "loop (patch_loop_list c ps t) = loop c" "loop_depth (patch_loop_list c ps t) = loop_depth c"
  by (induction ps arbitrary: c) auto

lemma chain_depth: "chain hb L c0 is0 c P \<Longrightarrow> loop_depth c = loop_depth c0"
  by (auto simp: chain_def dest: growD(3))

lemma good_jump_to: "op = TCC_OP_JMP \<or> op = TCC_OP_JZ \<Longrightarrow> good_emit hb L (\<lambda>c. do { c1 \<leftarrow> emit_op c op; emit_u32 c1 t })"
  by (rule good_emit_add [of "Jump op t"]) (auto simp: emit_instr_eq)

text \<open>The end of a loop: \<open>popped\<close> is what the statement has to establish for the loop context.\<close>

definition popped :: "bytes \<Rightarrow> tinycc_compile_t \<Rightarrow> instr list \<Rightarrow> tinycc_compile_t \<Rightarrow> bool" where
  "popped hb c2 is c' \<longleftrightarrow> (\<exists>c'' is'. c' = pop_loop c'' \<and> grow hb TCC_LOOP_MAX c2 is c'' is')"

lemma popped_chain: "chain hb TCC_LOOP_MAX c2 is c P \<Longrightarrow> popped hb c2 is (pop_loop c)"
  by (auto simp: popped_def chain_def)

lemma while_tail_chain:
  assumes ch: "chain hb TCC_LOOP_MAX c2 is c P" and "jz \<in> P" "l < loop_depth c2" "while_tail l ltop jz c = Some c'"
  shows "popped hb c2 is c'"
proof -
  from assms(4) obtain c1 where
    s: "do { c1 \<leftarrow> emit_op c TCC_OP_JMP; emit_u32 c1 ltop } = Some c1"
      "c' = pop_loop (let c3 = patch_loop_list c1 (continue_patch (loop c1 ! l)) ltop; e = code_pos c3;
         c4 = patch_u32 c3 jz e in patch_loop_list c4 (break_patch (loop c4 ! l)) e)"
    by (auto simp: while_tail_def Let_def bind_eq_Some_conv)
  have ch1: "chain hb TCC_LOOP_MAX c2 is c1 P" by (rule chain_emit [OF ch s(1) good_jump_to]) simp
  then have "l < loop_depth c1" using assms(3) chain_depth by metis
  then show ?thesis
    unfolding s(2) Let_def
    by (intro popped_chain [of _ _ _ _ P] chain_entry(1) chain_patch assms(2) chain_entry(2) ch1) auto
qed

lemma do_tail_chain:
  assumes ch: "chain hb TCC_LOOP_MAX c2 is c {}" and "l < loop_depth c2" "do_tail l ltop c = Some c'"
  shows "popped hb c2 is c'"
proof -
  from assms(3) obtain jz c1 c3 where
    s: "emit_jump c TCC_OP_JZ = Some (jz, c1)" "do { c2 \<leftarrow> emit_op c1 TCC_OP_JMP; emit_u32 c2 ltop } = Some c3"
      "c' = pop_loop (let e = code_pos c3; c4 = patch_u32 c3 jz e in patch_loop_list c4 (break_patch (loop c4 ! l)) e)"
    by (auto simp: do_tail_def Let_def bind_eq_Some_conv)
  have ch3: "chain hb TCC_LOOP_MAX c2 is c3 {jz}"
    by (rule chain_emit [OF chain_jump [OF ch s(1)] s(2) good_jump_to]) auto
  then have "l < loop_depth c3" using assms(2) chain_depth by metis
  then show ?thesis
    unfolding s(3) Let_def by (intro popped_chain [of _ _ _ _ "{jz}"] chain_entry(1) chain_patch ch3) auto
qed

lemma emit_bytes_grow:
  assumes "rep hb L c is" "emit_bytes c (flat js) = Some c'" "list_all wf_instr js"
  shows "grow hb L c is (c'\<lparr>count := count c' + of_nat (length js)\<rparr>) (is @ js)"
proof -
  note r = repD [OF assms(1)]
  have c': "c' = c\<lparr>out := put_bytes (out c) (pos c) (flat js), pos := pos c + length (flat js)\<rparr>"
    and fit: "pos c + length (flat js) \<le> length (out c)"
    using assms(2) r(3) by (auto simp: emit_bytes_def split: if_splits)
  have "patchable (length hb) (is @ js) p" if "p \<in> loop_patches c" for p
    using patchable_ext [OF r(10) [OF that] ext_append] .
  then have "rep hb L (c'\<lparr>count := count c' + of_nat (length js)\<rparr>) (is @ js)"
    using r fit assms(3) unfolding rep_def c' by (simp add: take_put_bytes loop_patches_def)
  then show ?thesis
    using fit unfolding c' by (simp add: grow_def ext_append drop_put_bytes)
qed

lemma for_tail_chain:
  assumes ch: "chain hb TCC_LOOP_MAX c2 is c P" and jz: "\<And>p. jz = Some p \<Longrightarrow> p \<in> P"
    and "l < loop_depth c2" "for_tail l ltop jz step c = Some c'" and step: "rep [] 0 step js"
  shows "popped hb c2 is c'"
proof -
  have js: "take (pos step) (out step) = flat js" "count step = of_nat (length js)" "list_all wf_instr js"
    using repD [OF step] by auto
  from assms(4) obtain d1 d4 where
    s: "emit_bytes (patch_loop_list c (continue_patch (loop c ! l)) (code_pos c)) (flat js) = Some d1"
      "do { c3 \<leftarrow> emit_op (d1\<lparr>count := count d1 + of_nat (length js)\<rparr>) TCC_OP_JMP; emit_u32 c3 ltop } = Some d4"
      "c' = pop_loop (let e = code_pos d4; c5 = (case jz of None \<Rightarrow> d4 | Some p \<Rightarrow> patch_u32 d4 p e)
         in patch_loop_list c5 (break_patch (loop c5 ! l)) e)"
    by (auto simp: for_tail_def Let_def bind_eq_Some_conv js)
  have l: "l < loop_depth c" using assms(3) chain_depth [OF ch] by simp
  have "chain hb TCC_LOOP_MAX c2 is (d1\<lparr>count := count d1 + of_nat (length js)\<rparr>) P"
    by (rule chain_step [OF chain_entry(2) [OF ch l]]) (use emit_bytes_grow [OF _ s(1) js(3)] in blast)
  then have ch4: "chain hb TCC_LOOP_MAX c2 is d4 P" by (rule chain_emit [OF _ s(2) good_jump_to]) simp
  then have ch5: "chain hb TCC_LOOP_MAX c2 is (case jz of None \<Rightarrow> d4 | Some p \<Rightarrow> patch_u32 d4 p e) P" for e
    using jz by (auto intro: chain_patch split: option.split)
  have "l < loop_depth (case jz of None \<Rightarrow> d4 | Some p \<Rightarrow> patch_u32 d4 p e)" for e
    using assms(3) chain_depth [OF ch5] by simp
  then show ?thesis
    unfolding s(3) Let_def by (intro popped_chain [of _ _ _ _ P] chain_entry(1) ch5)
qed

lemma thn_assoc: "thn (thn m f) g = thn m (\<lambda>x. thn (f x) g)"
  by (cases m) auto

lemma seqp_append: "seqp (ps @ qs) st = thn (seqp ps st) (seqp qs)"
proof (induction ps arbitrary: st)
  case (Cons p ps)
  then have "seqp (ps @ qs) = (\<lambda>x. thn (seqp ps x) (seqp qs))" by blast
  then show ?case by (simp add: thn_assoc)
qed simp

lemma seqp_nest: "seqp (ps @ [q]) st = seqp [seqp ps, q] st"
  unfolding seqp_append by simp

lemma post_popped:
  assumes "grow hb TCC_LOOP_MAX c is c1 is1" "push_loop c1 = Some (l, c2)" "post (popped hb c2 is1) d s res"
  shows "post (\<lambda>c'. \<exists>is'. grow hb TCC_LOOP_MAX c is c' is') d s res"
  using assms(3)
proof (rule post_mono)
  fix c' assume "popped hb c2 is1 c'"
  then obtain c'' is' where "c' = pop_loop c''" "grow hb TCC_LOOP_MAX c2 is1 c'' is'" by (auto simp: popped_def)
  then show "\<exists>is'. grow hb TCC_LOOP_MAX c is c' is'"
    using push_loop_rep(3) [OF growD(1) [OF assms(1)] assms(2)] grow_trans [OF assms(1)] by blast
qed

lemma post_seq_tail:
  assumes "chain hb L c0 is0 c P" "safe hb L k d p" "length s < k"
    and "\<And>c c'. chain hb L c0 is0 c P \<Longrightarrow> tail c = Some c' \<Longrightarrow> Q c'"
  shows "post Q d s (seqp [p, emit tail] (c, s, r))"
  unfolding seqp.simps
proof (rule post_thn [OF post_chain [OF assms(1-3)], of d 0])
  fix c' s' r' assume ch: "chain hb L c0 is0 c' P"
  show "post Q 0 s' (thn (emit tail (c', s', r')) Ok)"
    by (rule post_thn [OF post_emit [of tail c' Q], of 0 0]) (auto intro: assms(4) [OF ch] post_Ok)
qed simp

lemma safe_while:
  assumes pe: "safe hb TCC_LOOP_MAX (Suc k) 1 pe" and pstm: "safe hb TCC_LOOP_MAX k 1 pstm"
  shows "safe hb TCC_LOOP_MAX (Suc k) 1 (parse_while pe pstm)"
proof (rule safeI)
  let ?L = TCC_LOOP_MAX
  fix c r "is" and s :: string assume s: "length s < Suc k" and rep: "rep hb ?L c is"
  let ?Q = "\<lambda>c'. \<exists>is'. grow hb ?L c is c' is'"
  have cond: "safe hb ?L (Suc k) 1 (seqp [pe, expect CHR '')''])"
    by (rule safe_seq [OF pe safe_expect_then [OF _ safe_seq_Nil]]) auto
  have body: "post ?Q 0 s1 (case push_loop c1 of None \<Rightarrow> Fail | Some (l, c2) \<Rightarrow>
      thn (seqp [pe, expect CHR '')''] (c2, s1, r1)) (\<lambda>(c3, s2, r2).
        case emit_jump c3 TCC_OP_JZ of None \<Rightarrow> Fail
        | Some (jz, c4) \<Rightarrow> seqp [pstm, emit (while_tail l (code_pos c1) jz)] (c4, s2, r2)))"
    if ch: "chain hb ?L c is c1 {}" and s1: "length s1 + 1 \<le> length s" for c1 s1 r1
  proof (cases "push_loop c1")
    case (Some lc)
    obtain l c2 where lc: "lc = (l, c2)" by fastforce
    obtain is1 where g: "grow hb ?L c is c1 is1" using ch by (auto simp: chain_def)
    note p = push_loop_rep [OF growD(1) [OF g] Some [unfolded lc]]
    have start: "chain hb ?L c2 is1 c2 {}" by (rule chain_start [OF p(1)]) simp
    have inner: "post (popped hb c2 is1) 0 s2 (case emit_jump c3 TCC_OP_JZ of None \<Rightarrow> Fail
        | Some (jz, c4) \<Rightarrow> seqp [pstm, emit (while_tail l (code_pos c1) jz)] (c4, s2, r2))"
      if "chain hb ?L c2 is1 c3 {}" "length s2 + 1 \<le> length s1" for c3 s2 r2
    proof (rule post_jump [OF that(1)])
      fix jz c4 assume ch4: "chain hb ?L c2 is1 c4 (insert jz {})"
      have "post (popped hb c2 is1) 1 s2 (seqp [pstm, emit (while_tail l (code_pos c1) jz)] (c4, s2, r2))"
        by (rule post_seq_tail [OF ch4 pstm _ while_tail_chain [OF _ insertI1 p(2)]]) (use that(2) s s1 in auto)
      then show "post (popped hb c2 is1) 0 s2 (seqp [pstm, emit (while_tail l (code_pos c1) jz)] (c4, s2, r2))"
        by (rule post_later) simp
    qed simp
    have "post (popped hb c2 is1) 0 s1 (thn (seqp [pe, expect CHR '')''] (c2, s1, r1)) (\<lambda>(c3, s2, r2).
        case emit_jump c3 TCC_OP_JZ of None \<Rightarrow> Fail
        | Some (jz, c4) \<Rightarrow> seqp [pstm, emit (while_tail l (code_pos c1) jz)] (c4, s2, r2)))"
      by (rule post_thn [OF post_chain [OF start cond], of _ 0 0]) (use s s1 in \<open>auto intro: inner\<close>)
    then show ?thesis
      using post_popped [OF g Some [unfolded lc]] Some lc by (simp del: seqp.simps)
  qed simp
  show "good hb ?L 1 is c s (parse_while pe pstm (c, s, r))"
    unfolding good_post parse_while.simps
    by (rule post_thn [OF post_expect [OF rep], where ?d2.0 = 0]) (auto intro: body simp del: seqp.simps)
qed

lemma safe_do_while:
  assumes pe: "safe hb TCC_LOOP_MAX k 1 pe" and pstm: "safe hb TCC_LOOP_MAX k 1 pstm"
  shows "safe hb TCC_LOOP_MAX k 1 (parse_do_while pe pstm)"
proof (rule safeI)
  let ?L = TCC_LOOP_MAX
  fix c r "is" and s :: string assume s: "length s < k" and rep: "rep hb ?L c is"
  show "good hb ?L 1 is c s (parse_do_while pe pstm (c, s, r))"
  proof (cases "push_loop c")
    case (Some lc)
    obtain l c1 where lc: "lc = (l, c1)" by fastforce
    note p = push_loop_rep [OF rep Some [unfolded lc]]
    have cond: "safe hb ?L k 3 (seqp [expect CHR ''('', pe, expect CHR '')'', expect CHR '';''])"
      unfolding numeral_3_eq_3
      by (rule safe_expect_then [OF _ safe_seq [OF pe safe_expect_then [OF _ safe_expect_then [OF _ safe_seq_Nil]]]]) auto
    have inner: "post (popped hb c1 is) 0 s2 (let c3 = patch_loop_list c2 (continue_patch (loop c2 ! l)) (code_pos c2)
        in case match_kw s2 ''while'' of (False, _) \<Rightarrow> Fail
           | (True, s3) \<Rightarrow> seqp [expect CHR ''('', pe, expect CHR '')'', expect CHR '';'',
               emit (do_tail l (code_pos c))] (c3, s3, r2))"
      if ch: "chain hb ?L c1 is c2 {}" and s2: "length s2 + 1 \<le> length s" for c2 s2 r2
    proof -
      let ?c3 = "patch_loop_list c2 (continue_patch (loop c2 ! l)) (code_pos c2)"
      obtain b s3 where m: "match_kw s2 ''while'' = (b, s3)" by fastforce
      have s3: "length s3 \<le> length s2" using match_kw_length(2) [of s2 "''while''"] m by simp
      have ch3: "chain hb ?L c1 is ?c3 {}" using chain_entry(2) [OF ch] p(2) chain_depth [OF ch] by simp
      have "post (popped hb c1 is) 3 s3 (seqp [seqp [expect CHR ''('', pe, expect CHR '')'', expect CHR '';''],
          emit (do_tail l (code_pos c))] (?c3, s3, r2))"
        by (rule post_seq_tail [OF ch3 cond _ do_tail_chain [OF _ p(2)]]) (use s s2 s3 in auto)
      then show ?thesis
        using m s3 seqp_nest [of "[expect CHR ''('', pe, expect CHR '')'', expect CHR '';'']"]
        by (auto simp: Let_def split: bool.split intro: post_later simp del: seqp.simps)
    qed
    have "post (popped hb c1 is) 1 s (parse_do_while pe pstm (c, s, r))"
      unfolding parse_do_while.simps Some lc option.case prod.case
      by (rule post_thn [OF post_chain [OF chain_start [OF p(1)] pstm s], where ?d2.0 = 0])
        (auto intro!: inner [unfolded Let_def] simp: Let_def simp del: seqp.simps)
    then show ?thesis
      unfolding good_post by (rule post_popped [OF grow_refl [OF rep] Some [unfolded lc]])
  qed simp
qed

lemma post_else:
  assumes ch: "chain hb L c0 is0 c (insert p P)" and pstm: "safe hb L k 1 pstm" and s: "length s < k"
  shows "post (\<lambda>c'. chain hb L c0 is0 c' {}) 0 s (parse_else pstm p (c, s, r))"
proof -
  obtain b s1 where m: "match_kw (skip_ws_and_comments s) ''else'' = (b, s1)" by fastforce
  have s1: "length s1 \<le> length s"
    using match_kw_length(2) [of "skip_ws_and_comments s" "''else''"] m length_skip_ws [of s] by simp
  have "post (\<lambda>c'. chain hb L c0 is0 c' {}) 0 s1
      (case emit_jump c TCC_OP_JMP of None \<Rightarrow> Fail
       | Some (ep, c1) \<Rightarrow> seqp [pstm, (\<lambda>(c2, s2, r2). Ok (patch_u32 c2 ep (code_pos c2), s2, r2))]
           (patch_u32 c1 p (code_pos c1), s1, r))"
  proof (rule post_jump [OF ch], simp)
    fix ep c1 assume "chain hb L c0 is0 c1 (insert ep (insert p P))"
    then have "chain hb L c0 is0 (patch_u32 c1 p (code_pos c1)) {ep}" by (intro chain_mono [OF chain_patch]) auto
    then show "post (\<lambda>c'. chain hb L c0 is0 c' {}) 0 s1
        (seqp [pstm, (\<lambda>(c2, s2, r2). Ok (patch_u32 c2 ep (code_pos c2), s2, r2))] (patch_u32 c1 p (code_pos c1), s1, r))"
      unfolding seqp.simps
      by (intro post_thn [OF post_chain [OF _ pstm], where ?d2.0 = 0])
        (use s s1 in \<open>auto intro!: post_Ok chain_mono [OF chain_patch]\<close>)
  qed
  moreover have "chain hb L c0 is0 (patch_u32 c p t) {}" for t by (rule chain_mono [OF chain_patch [OF ch]]) auto
  ultimately show ?thesis
    using m s1 by (auto split: bool.split intro: post_Ok post_later simp del: seqp.simps)
qed

lemma safe_if:
  assumes pe: "safe hb L (Suc k) 1 pe" and pstm: "safe hb L k 1 pstm"
  shows "safe hb L (Suc k) 1 (parse_if pe pstm)"
proof (rule safe_chainI)
  fix c r "is" and s :: string assume s: "length s < Suc k" and ch: "chain hb L c is c {}"
  let ?Q = "\<lambda>c'. chain hb L c is c' {}"
  have cond: "safe hb L (Suc k) 2 (seqp [expect CHR ''('', pe, expect CHR '')''])"
    unfolding numeral_2_eq_2
    by (rule safe_expect_then [OF _ safe_seq [OF pe safe_expect_then [OF _ safe_seq_Nil]]]) auto
  have branch: "post ?Q 0 s1 (case emit_jump c1 TCC_OP_JZ of None \<Rightarrow> Fail
      | Some (p, c2) \<Rightarrow> seqp [pstm, parse_else pstm p] (c2, s1, r1))"
    if ch1: "?Q c1" and s1: "length s1 < k" for c1 s1 r1
  proof (rule post_jump [OF ch1], simp)
    fix p c2 assume ch2: "chain hb L c is c2 (insert p {})"
    show "post ?Q 0 s1 (seqp [pstm, parse_else pstm p] (c2, s1, r1))"
      unfolding seqp.simps
    proof (rule post_thn [OF post_chain [OF ch2 pstm s1], where ?d2.0 = 0], simp)
      fix c' r' and s' :: string assume c': "chain hb L c is c' {p}" "length s' + 1 \<le> length s1"
      show "post ?Q 0 s' (thn (parse_else pstm p (c', s', r')) Ok)"
        by (rule post_thn [OF post_else [OF c'(1) pstm], where ?d2.0 = 0]) (use c'(2) s1 in \<open>auto intro: post_Ok\<close>)
    qed
  qed
  show "post ?Q 1 s (parse_if pe pstm (c, s, r))"
    unfolding parse_if.simps
    by (rule post_thn [OF post_chain [OF ch cond s], where ?d2.0 = 0]) (use s in \<open>auto intro!: branch simp del: seqp.simps\<close>)
qed

lemma step_ctx_rep: "rep hb L c is \<Longrightarrow> rep [] 0 (step_ctx c) []"
  by (simp add: rep_def step_ctx_def loop_patches_def)

lemma for_cond_post:
  assumes pe: "safe hb L k 1 pe" and ch: "chain hb L c0 is0 c {}" and s: "length s < k"
  shows "case for_cond pe (c, s, r) of
      Ok (jz, c', s', r') \<Rightarrow> length s' \<le> length s \<and> (\<exists>P. chain hb L c0 is0 c' P \<and> (\<forall>p. jz = Some p \<longrightarrow> p \<in> P))
    | Fail \<Rightarrow> True | NoFuel \<Rightarrow> False"
proof -
  let ?s = "skip_ws_and_comments s"
  have ws: "length ?s \<le> length s" by (rule length_skip_ws)
  have "post (\<lambda>c'. chain hb L c0 is0 c' {}) 1 ?s (pe (c, ?s, r))"
    by (rule post_chain [OF ch pe]) (use ws s in auto)
  then show ?thesis
    using ws ch chain_jump [of hb L c0 is0 _ "{}" TCC_OP_JZ]
    by (cases "pe (c, ?s, r)") (fastforce simp: post_def Let_def split: option.split)+
qed

lemma post_for_body:
  assumes ch: "chain hb TCC_LOOP_MAX c is c3 P" and jz: "\<And>p. jz = Some p \<Longrightarrow> p \<in> P"
    and pstm: "safe hb TCC_LOOP_MAX k 1 pstm" and s: "length s < k" and step: "rep [] 0 step js"
  shows "post (\<lambda>c'. \<exists>is'. grow hb TCC_LOOP_MAX c is c' is') 0 s (for_body pstm t jz step (c3, s, r))"
proof (cases "push_loop c3")
  case (Some lc)
  obtain l c4 where lc: "lc = (l, c4)" by fastforce
  obtain is3 where g: "grow hb TCC_LOOP_MAX c is c3 is3" and P: "\<And>p. p \<in> P \<Longrightarrow> patchable (length hb) is3 p"
    using ch by (auto simp: chain_def)
  note p = push_loop_rep [OF growD(1) [OF g] Some [unfolded lc]]
  have "post (popped hb c4 is3) 1 s (seqp [pstm, emit (for_tail l t jz step)] (c4, s, r))"
    by (rule post_seq_tail [OF chain_start [OF p(1) P] pstm s for_tail_chain [OF _ jz p(2) _ step]])
  then have "post (popped hb c4 is3) 0 s (for_body pstm t jz step (c3, s, r))"
    unfolding for_body.simps Some lc option.case prod.case by (rule post_later) simp
  then show ?thesis by (rule post_popped [OF g Some [unfolded lc]])
qed simp

lemma post_for_step:
  assumes ch: "chain hb TCC_LOOP_MAX c is c3 P" and jz: "\<And>p. jz = Some p \<Longrightarrow> p \<in> P"
    and pe: "safe [] 0 k 1 pe" and pstm: "safe hb TCC_LOOP_MAX k 1 pstm" and s: "length s < k"
    and step: "rep [] 0 step []"
  shows "post (\<lambda>c'. \<exists>is'. grow hb TCC_LOOP_MAX c is c' is') 0 s (for_step pe pstm step t jz (c3, s, r))"
proof -
  let ?s = "skip_ws_and_comments s"
  have ws: "length ?s \<le> length s" by (rule length_skip_ws)
  have "good [] 0 1 [] step ?s (parse_expr_until pe CHR '')'' (step, ?s, r))"
    by (rule safeD [OF safe_expr_until [OF pe] _ step]) (use ws s in auto)
  then have "post (\<lambda>st. \<exists>js. rep [] 0 st js) 0 s (parse_expr_until pe CHR '')'' (step, ?s, r))"
    unfolding good_post by (rule post_later [OF post_mono]) (use ws in \<open>auto dest: growD(1)\<close>)
  moreover have "post (\<lambda>st. \<exists>js. rep [] 0 st js) 0 s (Ok (step, tl ?s, r))"
    using step ws by (intro post_Ok) auto
  ultimately have "post (\<lambda>st. \<exists>js. rep [] 0 st js) 0 s
      (if chd ?s \<noteq> CHR '')'' then parse_expr_until pe CHR '')'' (step, ?s, r) else Ok (step, tl ?s, r))"
    by simp
  then show ?thesis
    unfolding for_step.simps Let_def
    by (rule post_thn [where ?d2.0 = 0]) (use s in \<open>auto intro!: post_for_body [OF ch jz pstm] simp del: for_body.simps\<close>)
qed

lemma safe_for:
  assumes pe: "\<And>hb L. safe hb L (Suc k) 1 pe" and pstm: "safe hb TCC_LOOP_MAX k 1 pstm"
  shows "safe hb TCC_LOOP_MAX (Suc k) 1 (parse_for pe pstm (Suc k))"
proof (rule safeI)
  let ?L = TCC_LOOP_MAX
  fix c r "is" and s :: string assume s: "length s < Suc k" and rep: "rep hb ?L c is"
  let ?Q = "\<lambda>c'. \<exists>is'. grow hb ?L c is c' is'"
  let ?rest = "\<lambda>t jz. seqp [expect CHR '';'', for_step pe pstm (step_ctx c) t jz]"
  have init: "safe hb ?L (Suc k) 2 (seqp [expect CHR ''('', parse_for_clause pe (Suc k) CHR '';'' True])"
    unfolding numeral_2_eq_2 by (rule safe_expect_then [OF _ safe_seq [OF safe_for_clause [OF pe] safe_seq_Nil]]) auto
  have pe': "safe [] 0 k 1 pe" by (rule safe_mono [OF pe]) auto
  have rest: "post ?Q 0 s2 (?rest t jz (c2, s2, r2))"
    if ch: "chain hb ?L c is c2 P" and jz: "\<And>p. jz = Some p \<Longrightarrow> p \<in> P" and s2: "length s2 < k" for c2 P jz s2 r2 t
    unfolding seqp.simps
  proof (rule post_thn [OF post_chain [OF ch safe_expect s2], where ?d2.0 = 0])
    fix c3 r3 and s3 :: string assume c3: "chain hb ?L c is c3 P" "length s3 + 1 \<le> length s2"
    show "post ?Q 0 s3 (thn (for_step pe pstm (step_ctx c) t jz (c3, s3, r3)) Ok)"
      by (rule post_thn [OF post_for_step [OF c3(1) jz pe' pstm _ step_ctx_rep [OF rep]], where ?d2.0 = 0])
        (use c3(2) s2 in \<open>auto intro: post_Ok\<close>)
  qed auto
  have cond: "post ?Q 0 s1 (thn (for_cond pe (c1, s1, r1)) (\<lambda>(jz, st). ?rest t jz st))"
    if ch: "chain hb ?L c is c1 {}" and s1: "length s1 < k" for c1 s1 r1 t
  proof (cases "for_cond pe (c1, s1, r1)")
    case (Ok x)
    obtain jz c2 s2 r2 where x: "x = (jz, c2, s2, r2)" by (cases x)
    obtain P where P: "chain hb ?L c is c2 P" "\<And>p. jz = Some p \<Longrightarrow> p \<in> P" and s2: "length s2 \<le> length s1"
      using for_cond_post [OF pe ch, of s1 r1] s1 Ok x by auto
    show ?thesis
      unfolding Ok x thn.simps prod.case by (rule post_later [OF rest [OF P]]) (use s1 s2 in auto)
  qed (use for_cond_post [OF pe ch, of s1 r1] s1 in auto)
  show "good hb ?L 1 is c s (parse_for pe pstm (Suc k) (c, s, r))"
    unfolding good_post parse_for.simps
    by (rule post_thn [OF post_chain [OF chain_start [OF rep, of "{}"] init s], where ?d2.0 = 0])
      (use s in \<open>auto intro!: cond simp del: seqp.simps for_cond.simps for_step.simps\<close>)
qed

subsection \<open>Statements\<close>

lemma safe_puts_stm: "safe hb L k 1 parse_puts"
proof (rule safe_chainI)
  fix c r "is" and s :: string assume s: "length s < k" and ch: "chain hb L c is c {}"
  let ?Q = "\<lambda>c'. chain hb L c is c' {}"
  have "post ?Q 0 s1 (case parse_c_string s1 256 of (None, _) \<Rightarrow> Fail
      | (Some tx, s2) \<Rightarrow> seqp [expect CHR '')'', expect CHR '';'', emit (\<lambda>c. emit_puts c tx)] (c1, s2, r1))"
    if ch1: "?Q c1" and s1: "length s1 < k" for c1 s1 r1
  proof -
    obtain t s2 where p: "parse_c_string s1 256 = (t, s2)" by fastforce
    show ?thesis
    proof (cases t)
      case (Some tx)
      note l = parse_c_string_length [OF p [unfolded Some]]
      have "safe hb L k 2 (seqp [expect CHR '')'', expect CHR '';'', emit (\<lambda>c. emit_puts c tx)])"
        unfolding numeral_2_eq_2
        by (intro safe_expect_then safe_seq [OF safe_puts safe_seq_Nil]) (use l in auto)
      from post_chain [OF ch1 this, of s2 r1] show ?thesis
        unfolding p Some prod.case option.case by (rule post_later) (use l s1 in auto)
    qed (use p in simp)
  qed
  then show "post ?Q 1 s (parse_puts (c, s, r))"
    unfolding parse_puts.simps
    by (intro post_thn [OF post_chain [OF ch safe_expect s], where ?d2.0 = 0]) (use s in \<open>auto simp del: seqp.simps\<close>)
qed

lemma safe_call1:
  assumes "safe hb L k 1 pe" "op \<in> plain_ops"
  shows "safe hb L k 1 (parse_call1 pe op)"
  unfolding parse_call1_def
  by (rule safe_seq [OF safe_expect safe_seq [OF assms(1) safe_expect_then [OF _ safe_expect_then [OF _ safe_emits]]]])
    (use assms(2) in auto)

lemma safe_return:
  assumes "safe hb L k 1 pe"
  shows "safe hb L k 1 (parse_return pe)"
proof -
  have "safe hb L k 0 (\<lambda>(c, s, r). Ok (c, s, True))" by (rule safeI) (auto intro: good_stay)
  then have "safe hb L k 0 (seqp [eop TCC_OP_RET, \<lambda>(c, s, r). Ok (c, s, True)])"
    by (intro safe_emits) auto
  then show ?thesis
    unfolding parse_return_def by (intro safe_seq [OF assms safe_expect_then]) auto
qed

lemma loop_patches_update:
  assumes "l < loop_depth c" "l < length (loop c)"
  shows "loop_patches (c\<lparr>loop := (loop c)[l := (loop c ! l)\<lparr>break_patch := break_patch (loop c ! l) @ [p]\<rparr>]\<rparr>) \<subseteq> insert p (loop_patches c)"
    "loop_patches (c\<lparr>loop := (loop c)[l := (loop c ! l)\<lparr>continue_patch := continue_patch (loop c ! l) @ [p]\<rparr>]\<rparr>) \<subseteq> insert p (loop_patches c)"
  using assms by (fastforce simp: loop_patches_def nth_list_update split: if_splits)+

lemma chain_add_patch:
  assumes ch: "chain hb L c0 is0 c (insert p P)" and c': "loop_patches (c\<lparr>loop := ls\<rparr>) \<subseteq> insert p (loop_patches c)"
    and len: "length ls = length (loop c)"
  shows "chain hb L c0 is0 (c\<lparr>loop := ls\<rparr>) P"
proof -
  obtain "is" where i: "grow hb L c0 is0 c is" "\<And>q. q \<in> insert p P \<Longrightarrow> patchable (length hb) is q"
    using ch by (auto simp: chain_def)
  have "rep hb L (c\<lparr>loop := ls\<rparr>) is"
    using repD [OF growD(1) [OF i(1)]] c' len i(2) by (auto simp: rep_def)
  then have "grow hb L c0 is0 (c\<lparr>loop := ls\<rparr>) is" using growD [OF i(1)] by (simp add: grow_def)
  then show ?thesis using i(2) by (auto simp: chain_def)
qed

lemma chain_add_jump:
  assumes ch: "chain hb L c0 is0 c {}" and l: "l < loop_depth c" and j: "emit_jump c TCC_OP_JMP = Some (p, c1)"
  shows "chain hb L c0 is0 (c1\<lparr>loop := (loop c1)[l := (loop c1 ! l)\<lparr>break_patch := break_patch (loop c1 ! l) @ [p]\<rparr>]\<rparr>) {}"
    "chain hb L c0 is0 (c1\<lparr>loop := (loop c1)[l := (loop c1 ! l)\<lparr>continue_patch := continue_patch (loop c1 ! l) @ [p]\<rparr>]\<rparr>) {}"
proof -
  have ch1: "chain hb L c0 is0 c1 (insert p {})" by (rule chain_jump [OF ch j]) simp
  have "l < loop_depth c1" using l chain_depth [OF ch] chain_depth [OF ch1] by simp
  moreover have "loop_depth c1 \<le> length (loop c1)" using chain_rep [OF ch1] repD(8,9) by fastforce
  ultimately show "chain hb L c0 is0 (c1\<lparr>loop := (loop c1)[l := (loop c1 ! l)\<lparr>break_patch := break_patch (loop c1 ! l) @ [p]\<rparr>]\<rparr>) {}"
    "chain hb L c0 is0 (c1\<lparr>loop := (loop c1)[l := (loop c1 ! l)\<lparr>continue_patch := continue_patch (loop c1 ! l) @ [p]\<rparr>]\<rparr>) {}"
    by (intro chain_add_patch [OF ch1] loop_patches_update; simp)+
qed

lemma safe_break_continue: "safe hb L k 1 parse_break" "safe hb L k 1 parse_continue"
proof -
  have "post (\<lambda>c'. chain hb L c is c' {}) 1 s (parse_break (c, s, r)) \<and>
      post (\<lambda>c'. chain hb L c is c' {}) 1 s (parse_continue (c, s, r))"
    if s: "length s < k" and ch: "chain hb L c is c {}" for c r "is" s
  proof (cases "current_loop c")
    case (Some l)
    then have l: "l < loop_depth c" by (auto simp: current_loop_def split: if_splits)
    have l': "l < loop_depth c1" if "chain hb L c is c1 {}" for c1 using l chain_depth [OF that] by simp
    show ?thesis
      unfolding parse_break.simps parse_continue.simps Some option.case
      by (intro conjI post_seq_tail [OF ch safe_expect s])
        (auto simp: bind_eq_Some_conv add_loop_patch_def split: if_splits intro: chain_add_jump [OF _ l'])
  qed simp
  then show "safe hb L k 1 parse_break" "safe hb L k 1 parse_continue" by (blast intro: safe_chainI)+
qed

lemma good_keyword:
  assumes "safe hb L j 1 p" "k \<le> j" "fst (match_kw t kw)" "cstr kw \<noteq> []" "length t \<le> length s" "length s < Suc k"
    "rep hb L c is"
  shows "good hb L 1 is c s (p (c, snd (match_kw t kw), r))"
  by (rule good_shorter [OF assms(1) _ _ assms(7)]) (use match_kw_length(1) [OF assms(3,4)] assms in auto)

lemma safe_statement:
  assumes pe: "\<And>hb L. safe hb L (Suc k) 1 pe" and pstm: "safe hb TCC_LOOP_MAX k 1 pstm"
  shows "safe hb TCC_LOOP_MAX (Suc k) 1 (statement pe pstm (Suc k))"
proof (rule safeI)
  let ?L = TCC_LOOP_MAX
  fix c r "is" and s0 :: string assume s0: "length s0 < Suc k" and rep: "rep hb ?L c is"
  let ?s = "skip_ws_and_comments s0"
  note ws = length_skip_ws [of s0]
  note kw = good_keyword [OF _ _ _ _ ws s0 rep]
  have pe': "safe hb ?L k 1 pe" by (rule safe_mono [OF pe]) auto
  have plain: "good hb ?L 1 is c s0 (Ok (c, tl ?s, r))" if "chd ?s = CHR '';''"
    using tl_length [of ?s] that ws by (intro good_stay [OF rep]) auto
  have block: "good hb ?L 1 is c s0 (parse_block pstm (Suc k) (c, ?s, r))"
    by (rule good_shorter [OF safe_block [OF pstm] _ _ rep]) (use ws s0 in auto)
  have expr: "good hb ?L 1 is c s0 (parse_expr_until pe CHR '';'' (c, ?s, r))"
    by (rule good_shorter [OF safe_expr_until [OF pe] _ _ rep]) (use ws s0 in auto)
  note branches = kw [OF safe_declaration [OF pe]] kw [OF safe_if [OF pe pstm]] kw [OF safe_do_while [OF pe' pstm]]
    kw [OF safe_while [OF pe pstm]] kw [OF safe_for [OF pe pstm]] kw [OF safe_puts_stm [of _ _ "Suc k"]]
    kw [OF safe_call1 [OF pe]] kw [OF safe_break_continue(1) [of _ _ "Suc k"]]
    kw [OF safe_break_continue(2) [of _ _ "Suc k"]] kw [OF safe_return [OF pe]]
  show "good hb ?L 1 is c s0 (statement pe pstm (Suc k) (c, s0, r))"
    unfolding statement.simps Let_def
    by (simp only: if_split, intro conjI impI good_Fail plain block expr branches; simp add: cstr_Cons)
qed

theorem safe_parse_statement: "safe hb TCC_LOOP_MAX n 1 (parse_statement n)"
proof (induction n)
  case (Suc n)
  show ?case
    by (rule safeI) (simp only: parse_statement.simps, rule safeD [OF safe_statement [OF safe_expr Suc]], auto)
qed simp

subsection \<open>The main loop\<close>

definition top_ok :: "bytes \<Rightarrow> tinycc_compile_t \<Rightarrow> instr list \<Rightarrow> top \<Rightarrow> bool" where
  "top_ok hb c is t \<longleftrightarrow>
     (case t of Done ib sa r c' \<Rightarrow> \<exists>is'. grow hb TCC_LOOP_MAX c is c' is' | TopNoFuel \<Rightarrow> False | _ \<Rightarrow> True)"

lemma top_ok_simps [simp]:
  "top_ok hb c is GotoOut" "top_ok hb c is ReturnEarly" "\<not> top_ok hb c is TopNoFuel"
  "top_ok hb c is (Done ib sa r c') \<longleftrightarrow> (\<exists>is'. grow hb TCC_LOOP_MAX c is c' is')"
  by (simp_all add: top_ok_def)

lemma top_ok_after: "grow hb TCC_LOOP_MAX c is c1 is1 \<Longrightarrow> top_ok hb c1 is1 t \<Longrightarrow> top_ok hb c is t"
  by (cases t) (auto intro: grow_trans)

lemma preprocessor_length:
  assumes "fst (skip_preprocessor_line s)" shows "length (snd (skip_preprocessor_line s)) < length s"
proof -
  have "chd s = CHR ''#''" "snd (skip_preprocessor_line s) = skip_line s"
    using assms by (auto simp: skip_preprocessor_line_def split: if_splits)
  then show ?thesis using length_skip_line [of "tl s"] by (cases s) (auto simp: less_Suc_eq_le)
qed

theorem compile_loop_ok:
  "rep hb TCC_LOOP_MAX c is \<Longrightarrow> length p < n \<Longrightarrow> top_ok hb c is (compile_loop n ib sa (c, p, r))"
proof (induction n arbitrary: c "is" p r ib sa)
  case (Suc n)
  let ?s = "skip_ws_and_comments p"
  note rep = Suc.prems(1) and ws = length_skip_ws [of p]
  have again: "top_ok hb c is (compile_loop n ib' sa' (c, s', r'))" if "length s' < length ?s" for ib' sa' s' r'
    by (rule Suc.IH [OF rep]) (use that ws Suc.prems(2) in auto)
  have stm: "top_ok hb c is (case parse_statement (Suc (length ?s)) (c, ?s, r) of
      Ok st \<Rightarrow> compile_loop n ib True st | Fail \<Rightarrow> GotoOut | NoFuel \<Rightarrow> TopNoFuel)"
  proof -
    have g: "good hb TCC_LOOP_MAX 1 is c ?s (parse_statement (Suc (length ?s)) (c, ?s, r))"
      by (rule safeD [OF safe_parse_statement _ rep]) simp
    show ?thesis
    proof (cases "parse_statement (Suc (length ?s)) (c, ?s, r)")
      case (Ok x)
      obtain c' s' r' where x: "x = (c', s', r')" by (cases x)
      obtain is' where gr: "grow hb TCC_LOOP_MAX c is c' is'" and len: "length s' + 1 \<le> length ?s"
        using g Ok x by (auto simp: good_def)
      have "top_ok hb c' is' (compile_loop n ib True (c', s', r'))"
        by (rule Suc.IH [OF growD(1) [OF gr]]) (use len ws Suc.prems(2) in auto)
      then show ?thesis using top_ok_after [OF gr] Ok x by simp
    qed (use g in \<open>auto simp: good_def\<close>)
  qed
  have tl: "length (tl ?s) < length ?s" if "chd ?s \<noteq> NUL" using tl_length [OF that] by simp
  have fin: "top_ok hb c is (Done ib sa r c)" using grow_refl [OF rep] by auto
  have decl: "length s' < length ?s" if "skip_decl_or_header ?s = Some (b, s')" for b s'
    using skip_decl_length that by (auto simp: skip_decl_or_header_def)
  show ?case
    unfolding compile_loop.simps Let_def
    using again stm tl fin decl preprocessor_length [of ?s]
    by (auto split: option.split if_splits)
qed simp

end
