(* ===== verification/TinyVm.thy ===== *)
theory TinyVm
  imports TinyEmit User
begin

unbundle bit_operations_syntax

text \<open>
  The byte code interpreter, \<open>tinycc_task_entry\<close> of \<^verbatim>\<open>src/tinycc.c\<close>. The program is the byte
  list of the task's buffer; the pointer \<open>p\<close> is an offset into it, \<open>code\<close> is offset 8 and
  \<open>end\<close> the length. The evaluation stack is a list with the top first. One round of the loop is
  \<open>vm_step\<close>: it goes on, leaves the loop, or accesses memory outside an array (a variable index
  outside the array, a byte of the program read behind its end, a text that runs past it).
\<close>

subsection \<open>State\<close>

record vm =
  vp :: nat
  vstack :: "s32 list"
  vvars :: "s32 list"
  vsys :: sys

datatype vm_out = Next vm | Break vm | Undef

text \<open>\<open>TCC_PUSH\<close>, which jumps to \<open>done\<close> on a full stack, and \<open>TCC_POP\<close>, which reads 0 from an empty one.\<close>

definition tcc_push :: "s32 \<Rightarrow> vm \<Rightarrow> vm_out" where
  "tcc_push val v = (if length (vstack v) \<ge> TCC_STACK_MAX then Break v else Next (v\<lparr>vstack := val # vstack v\<rparr>))"

definition tcc_top :: "vm \<Rightarrow> s32" where
  "tcc_top v = (case vstack v of [] \<Rightarrow> 0 | x # _ \<Rightarrow> x)"

definition tcc_drop :: "vm \<Rightarrow> vm" where
  "tcc_drop v = v\<lparr>vstack := tl (vstack v)\<rparr>"

text \<open>The C value of a comparison.\<close>

definition cbool :: "bool \<Rightarrow> s32" where
  "cbool b = (if b then 1 else 0)"

text \<open>
  The two-operand instructions. Signed 32-bit arithmetic wraps, division truncates towards zero
  and yields 0 for a zero divisor.
\<close>

definition vm_binop :: "u8 \<Rightarrow> (s32 \<Rightarrow> s32 \<Rightarrow> s32) option" where
  "vm_binop op =
     (if op = TCC_OP_ADD then Some (\<lambda>lhs rhs. lhs + rhs)
      else if op = TCC_OP_SUB then Some (\<lambda>lhs rhs. lhs - rhs)
      else if op = TCC_OP_MUL then Some (\<lambda>lhs rhs. lhs * rhs)
      else if op = TCC_OP_DIV then Some (\<lambda>lhs rhs. if rhs \<noteq> 0 then of_int (sint lhs sdiv sint rhs) else 0)
      else if op = TCC_OP_MOD then Some (\<lambda>lhs rhs. if rhs \<noteq> 0 then of_int (sint lhs smod sint rhs) else 0)
      else if op = TCC_OP_LAND then Some (\<lambda>lhs rhs. cbool (lhs \<noteq> 0 \<and> rhs \<noteq> 0))
      else if op = TCC_OP_LOR then Some (\<lambda>lhs rhs. cbool (lhs \<noteq> 0 \<or> rhs \<noteq> 0))
      else if op = TCC_OP_LT then Some (\<lambda>lhs rhs. cbool (sint lhs < sint rhs))
      else if op = TCC_OP_LE then Some (\<lambda>lhs rhs. cbool (sint lhs \<le> sint rhs))
      else if op = TCC_OP_GT then Some (\<lambda>lhs rhs. cbool (sint lhs > sint rhs))
      else if op = TCC_OP_GE then Some (\<lambda>lhs rhs. cbool (sint lhs \<ge> sint rhs))
      else if op = TCC_OP_EQ then Some (\<lambda>lhs rhs. cbool (lhs = rhs))
      else if op = TCC_OP_NE then Some (\<lambda>lhs rhs. cbool (lhs \<noteq> rhs))
      else None)"

text \<open>A byte and a word of the program; a read behind its end has no value.\<close>

definition fetch :: "bytes \<Rightarrow> nat \<Rightarrow> u8 option" where
  "fetch b p = (if p < length b then Some (b ! p) else None)"

definition fetch_u32 :: "bytes \<Rightarrow> nat \<Rightarrow> u32 option" where
  "fetch_u32 b p = (if p + 3 < length b then Some (read_u32 b p) else None)"

fun with_read :: "'a option \<Rightarrow> ('a \<Rightarrow> vm_out) \<Rightarrow> vm_out" where
  "with_read None k = Undef"
| "with_read (Some x) k = k x"

text \<open>
  \<open>TCC_OP_PUTS\<close>: the text is what \<open>uart_puts\<close> prints from \<open>p\<close>, up to the first zero byte.
\<close>

definition vm_puts :: "bytes \<Rightarrow> vm \<Rightarrow> vm_out" where
  "vm_puts b v =
     (if vp v + 2 > length b then Break v
      else
        with_read (fetch b (vp v)) (\<lambda>lo. with_read (fetch b (vp v + 1)) (\<lambda>hi.
          let len = unat lo + 256 * unat hi; p = vp v + 2
          in if p + len + 1 > length b then Break (v\<lparr>vp := p\<rparr>)
             else if 0 \<notin> set (drop p b) then Undef
             else Next (v\<lparr>vsys := say (map (\<lambda>w. char_of (unat w)) (takeWhile (\<lambda>w. w \<noteq> 0) (drop p b))) (vsys v),
                          vp := p + len + 1\<rparr>))))"

text \<open>
  One round on the byte code \<open>b\<close>. \<open>slp ms\<close> is the effect of \<open>task_sleep_ms(ms)\<close> or
  \<open>delay_ms(ms)\<close> until the task runs again.
\<close>

definition vm_step :: "(u64 \<Rightarrow> sys \<Rightarrow> sys) \<Rightarrow> bytes \<Rightarrow> vm \<Rightarrow> vm_out" where
  "vm_step slp b v0 =
     (if vp v0 \<ge> length b then Break v0
      else with_read (fetch b (vp v0)) (\<lambda>op.
        let v = v0\<lparr>vp := vp v0 + 1\<rparr>; p = vp v
        in if op = TCC_OP_PUTS then vm_puts b v
           else if op = TCC_OP_SLEEP
             then Next ((tcc_drop v)\<lparr>vsys := slp (of_int (sint (tcc_top v))) (vsys v)\<rparr>)
           else if op = TCC_OP_PUTC
             then Next ((tcc_drop v)\<lparr>vsys :=
               (vsys v)\<lparr>con := uart_putc (char_of (unat (ucast (tcc_top v) :: u8))) (con (vsys v))\<rparr>\<rparr>)
           else if op = TCC_OP_PUSH_CONST
             then (if p + 4 > length b then Break v
                   else if length (vstack v) \<ge> TCC_STACK_MAX then Break v
                   else with_read (fetch_u32 b p) (\<lambda>val. tcc_push val (v\<lparr>vp := p + 4\<rparr>)))
           else if op = TCC_OP_PUSH_VAR
             then (if p \<ge> length b then Break v
                   else if length (vstack v) \<ge> TCC_STACK_MAX then Break v
                   else with_read (fetch b p) (\<lambda>slot.
                     if unat slot \<ge> TCC_MAX_VARS then Undef
                     else tcc_push (vvars v ! unat slot) (v\<lparr>vp := p + 1\<rparr>)))
           else if op = TCC_OP_STORE_VAR
             then (if p \<ge> length b then Break v
                   else with_read (fetch b p) (\<lambda>slot.
                     if unat slot \<ge> TCC_MAX_VARS then Undef
                     else Next ((tcc_drop v)\<lparr>vvars := (vvars v)[unat slot := tcc_top v], vp := p + 1\<rparr>)))
           else if op = TCC_OP_NOT then tcc_push (cbool (tcc_top v = 0)) (tcc_drop v)
           else if op = TCC_OP_DUP
             then (case tcc_push (tcc_top v) (tcc_drop v) of Next v' \<Rightarrow> tcc_push (tcc_top v) v' | x \<Rightarrow> x)
           else if op = TCC_OP_POP then Next (tcc_drop v)
           else if op = TCC_OP_NEG then tcc_push (- tcc_top v) (tcc_drop v)
           else if op = TCC_OP_JMP
             then (if p + 4 > length b then Break v
                   else with_read (fetch_u32 b p) (\<lambda>target.
                     if unat target \<ge> length b - 8 then Break v else Next (v\<lparr>vp := 8 + unat target\<rparr>)))
           else if op = TCC_OP_JZ
             then (if p + 4 > length b then Break v
                   else with_read (fetch_u32 b p) (\<lambda>target.
                     if unat target \<ge> length b - 8 then Break (v\<lparr>vp := p + 4\<rparr>)
                     else Next ((tcc_drop v)\<lparr>vp := (if tcc_top v = 0 then 8 + unat target else p + 4)\<rparr>)))
           else if op = TCC_OP_RET then Break (tcc_drop v)
           else if op = TCC_OP_EXIT
             then (if p + 4 > length b then Break v else with_read (fetch_u32 b p) (\<lambda>_. Break (v\<lparr>vp := p + 4\<rparr>)))
           else (case vm_binop op of
                   Some f \<Rightarrow> tcc_push (f (tcc_top (tcc_drop v)) (tcc_top v)) (tcc_drop (tcc_drop v))
                 | None \<Rightarrow> Break v)))"

text \<open>The loop may run for ever; then there is no result.\<close>

partial_function (option) vm_run :: "(u64 \<Rightarrow> sys \<Rightarrow> sys) \<Rightarrow> bytes \<Rightarrow> vm \<Rightarrow> vm_out option" where
  "vm_run slp b v = (case vm_step slp b v of Next v' \<Rightarrow> vm_run slp b v' | Break v' \<Rightarrow> Some (Break v') | Undef \<Rightarrow> Some Undef)"

declare vm_run.simps [code]

definition vm_start :: "sys \<Rightarrow> vm" where
  "vm_start s = \<lparr>vp = 8, vstack = [], vvars = replicate TCC_MAX_VARS 0, vsys = s\<rparr>"

end
