(* ===== verification/Tinycc.thy ===== *)
theory Tinycc
  imports TinyStm TinyVm
begin

text \<open>
  The compiler and the interpreter in the kernel, \<^verbatim>\<open>src/tinycc.c\<close>: \<open>compile_buffer\<close> with its
  heap use, compiling a file to a file, recognising a compiled program, starting it as a task,
  and the task's life from entry to exit. \<open>None\<close> is a call that does not return.
\<close>

subsection \<open>Compiling\<close>

text \<open>
  The context and the loop table live on the heap: 1064 bytes (a pointer, four \<open>int\<close>s, 32
  names of 32 bytes, the loop depth and a pointer) and 8 times 264 bytes. The result is the output buffer with the
  length of the program when the code returns 0.
\<close>

definition compile_buffer :: "string \<Rightarrow> bytes \<Rightarrow> kheap \<Rightarrow> ((bytes \<times> nat) option \<times> kheap) option" where
  "compile_buffer src outb h =
     (if length outb < 8 then Some (None, h)
      else do {
        (ctx, h1) \<leftarrow> kmalloc 1064 h;
        if ctx = 0 then Some (None, h1)
        else do {
          (lp, h2) \<leftarrow> kmalloc 2112 h1;
          if lp = 0 then Some (None, kfree ctx h2)
          else
            let h3 = kfree ctx (kfree lp h2)
            in case compile_loop (Suc (length src)) False False (init_ctx outb, src, False) of
                 Done in_body saw_any saw_return c \<Rightarrow>
                   Some (if in_body \<or> \<not> saw_any then None else finish saw_return c, h3)
               | GotoOut \<Rightarrow> Some (None, h3)
               | ReturnEarly \<Rightarrow> Some (None, h2)
               | TopNoFuel \<Rightarrow> None
        }
      })"

definition heap_op :: "(kheap \<Rightarrow> kheap) \<Rightarrow> sys \<Rightarrow> sys" where
  "heap_op f s = with_kern (set_heap (f (kheap_of (kern s)))) s"

definition free_nonnull :: "addr \<Rightarrow> kheap \<Rightarrow> kheap" where
  "free_nonnull p h = (if p \<noteq> 0 then kfree p h else h)"

definition to_text :: "bytes \<Rightarrow> string" where
  "to_text b = map (\<lambda>w. char_of (unat w)) b"

text \<open>\<open>O_RDONLY\<close> is 0 and \<open>O_WRONLY | O_CREAT | O_TRUNC\<close> is 21.\<close>

definition tinycc_compile :: "string \<Rightarrow> string \<Rightarrow> sys \<Rightarrow> (int \<times> sys) option" where
  "tinycc_compile src_path out_path s = do {
     (in_fd, v1) \<leftarrow> vfs_open src_path 0 (vfs_of s);
     let s1 = put_vfs v1 s
     in if in_fd < 0 then Some (- 1, s1)
        else do {
          (src, h1) \<leftarrow> kmalloc 16385 (kheap_of (kern s1));
          (prg, h2) \<leftarrow> kmalloc 16384 h1;
          let s2 = heap_op (\<lambda>_. h2) s1
          in if src = 0 \<or> prg = 0
             then
               let s3 = heap_op (\<lambda>h. free_nonnull prg (free_nonnull src h)) s2
               in Some (- 1, put_vfs (vfs_close in_fd (vfs_of s3)) s3)
             else
               let (src_len, v3) = vfs_read in_fd src VFS_MAX_FSIZE (vfs_of s2);
                   s4 = put_vfs (vfs_close in_fd v3) s2
               in if src_len \<le> 0 then Some (- 1, heap_op (\<lambda>h. kfree prg (kfree src h)) s4)
                  else
                    let m = (sys_mem s4)(src + of_int src_len := 0);
                        s5 = put_mem m s4
                    in do {
                      (r, h6) \<leftarrow> compile_buffer (to_text (mread m src (nat src_len))) (mread m prg 16384)
                                   (kheap_of (kern s5));
                      let s6 = heap_op (\<lambda>_. h6) s5
                      in case r of
                           None \<Rightarrow> Some (- 1, heap_op (\<lambda>h. kfree prg (kfree src h)) s6)
                         | Some (b, prog_len) \<Rightarrow>
                             let s7 = heap_op (kfree src) (put_mem (mwrite (sys_mem s6) prg b) s6)
                             in do {
                               (out_fd, v8) \<leftarrow> vfs_open out_path 21 (vfs_of s7);
                               let s8 = put_vfs v8 s7
                               in if out_fd < 0 then Some (- 1, heap_op (kfree prg) s8)
                                  else
                                    let (wrote, v9) = vfs_write out_fd prg (int prog_len) (vfs_of s8);
                                        s9 = put_vfs (vfs_close out_fd v9) s8
                                    in Some (if wrote = int prog_len then 0 else - 1, heap_op (kfree prg) s9)
                             }
                    }
        }
   }"

subsection \<open>Running\<close>

text \<open>\<open>hp\<close> is the address of the four-byte buffer on the stack.\<close>

definition tinycc_is_program :: "addr \<Rightarrow> string \<Rightarrow> sys \<Rightarrow> (bool \<times> sys) option" where
  "tinycc_is_program hp path s = do {
     (fd, v1) \<leftarrow> vfs_open path 0 (vfs_of s);
     if fd < 0 then Some (False, put_vfs v1 s)
     else
       let (n, v2) = vfs_read fd hp 4 v1;
           s2 = put_vfs (vfs_close fd v2) s
       in Some (n = 4 \<and> mread (sys_mem s2) hp 4 = TCC_MAGIC, s2)
   }"

text \<open>
  A sleeping program: with interrupts the task sleeps and \<open>others\<close> is what the machine does until
  it runs again; otherwise \<open>delay_ms\<close> busy-waits and changes nothing.
\<close>

definition tinycc_sleep :: "platform \<Rightarrow> bool \<Rightarrow> u64 \<Rightarrow> (sys \<Rightarrow> sys) \<Rightarrow> u64 \<Rightarrow> sys \<Rightarrow> sys" where
  "tinycc_sleep pf init_irqs now others ms s =
     (if init_irqs then others (with_kern (task_sleep_ms (tramp_addr pf) (clock_hz pf) now now ms) s) else s)"

text \<open>\<open>slp\<close> is the effect of sleeping. The buffer belongs to the task alone while it runs.\<close>

definition tinycc_task_entry :: "platform \<Rightarrow> u64 \<Rightarrow> (u64 \<Rightarrow> sys \<Rightarrow> sys) \<Rightarrow> sys \<Rightarrow> sys option" where
  "tinycc_task_entry pf now slp s =
     (let i = tid (task_current (kern s));
          ctx = tinycc_tasks (kern s) ! nat i;
          b = mread (sys_mem s) (prog ctx) (nat (psize ctx));
          leave = with_kern (task_exit (tramp_addr pf) now)
      in if prog ctx = 0 \<or> psize ctx < 8 then Some (leave s)
         else if take 4 b \<noteq> TCC_MAGIC then Some (leave s)
         else case vm_run slp b (vm_start s) of
                Some (Break v) \<Rightarrow> Some (leave (with_kern (tinycc_task_cleanup i) (vsys v)))
              | _ \<Rightarrow> None)"

definition tinycc_exec :: "platform \<Rightarrow> u64 \<Rightarrow> string \<Rightarrow> string option \<Rightarrow> sys \<Rightarrow> (int \<times> sys) option" where
  "tinycc_exec pf entry path task_name s = do {
     (fd, v1) \<leftarrow> vfs_open path 0 (vfs_of s);
     if fd < 0 then Some (- 1, put_vfs v1 s)
     else
       let (sz, v2) = vfs_seek fd 0 SEEK_END v1;
           (_, v3) = vfs_seek fd 0 SEEK_SET v2;
           s3 = put_vfs v3 s
       in if sz < 8 \<or> sz > VFS_MAX_FSIZE then Some (- 1, put_vfs (vfs_close fd (vfs_of s3)) s3)
          else do {
            (buf, h4) \<leftarrow> kmalloc (of_int sz) (kheap_of (kern s3));
            let s4 = heap_op (\<lambda>_. h4) s3
            in if buf = 0 then Some (- 1, put_vfs (vfs_close fd (vfs_of s4)) s4)
               else
                 let (n, v5) = vfs_read fd buf sz (vfs_of s4);
                     s5 = put_vfs (vfs_close fd v5) s4
                 in if n \<noteq> sz then Some (- 1, heap_op (kfree buf) s5)
                    else if mread (sys_mem s5) buf 4 \<noteq> TCC_MAGIC then Some (- 1, heap_op (kfree buf) s5)
                    else do {
                      (t, k6) \<leftarrow> task_create_named (tramp_addr pf) entry task_name (kern s5);
                      let s6 = s5\<lparr>kern := k6\<rparr>
                      in if t < 0 then Some (- 1, heap_op (kfree buf) s6)
                         else Some (t, with_kern (\<lambda>k. k\<lparr>tinycc_tasks :=
                                (tinycc_tasks k)[nat t := \<lparr>prog = buf, psize = sz\<rparr>]\<rparr>) s6)
                    }
          }
   }"

subsection \<open>The compiler returns\<close>

lemma length_TCC_MAGIC [simp]: "length TCC_MAGIC = 4"
  by (simp add: TCC_MAGIC_def)

lemma init_ctx_out: "8 \<le> length outb \<Longrightarrow> out (init_ctx outb) = TCC_MAGIC @ le32 0 @ drop 8 outb"
  by (simp add: init_ctx_def write_u32_eq_put_bytes put_bytes_def TCC_MAGIC_def)

lemma init_ctx_rep: "8 \<le> length outb \<Longrightarrow> rep (TCC_MAGIC @ le32 0) TCC_LOOP_MAX (init_ctx outb) []"
  using init_ctx_out [of outb]
  by (simp add: rep_def loop_patches_def, simp add: init_ctx_def TCC_MAGIC_def)

lemma compile_loop_total:
  assumes "8 \<le> length outb"
  shows "top_ok (TCC_MAGIC @ le32 0) (init_ctx outb) [] (compile_loop (Suc (length src)) False False (init_ctx outb, src, False))"
  by (rule compile_loop_ok [OF init_ctx_rep [OF assms]]) simp

text \<open>
  C38: the compiler always returns. On every source text, of whatever shape, and every output
  buffer, \<open>compile_buffer\<close> comes back when the heap is well formed, and it gives back all the
  memory it took, unless it leaves by the early \<open>return -1\<close> for text outside a function.
\<close>

theorem compile_buffer_returns:
  assumes "heap_live h L"
  shows "\<exists>res h'. compile_buffer src outb h = Some (res, h') \<and>
    (compile_loop (Suc (length src)) False False (init_ctx outb, src, False) \<noteq> ReturnEarly \<longrightarrow> heap_live h' L)"
proof (cases "length outb < 8")
  case False
  let ?t = "compile_loop (Suc (length src)) False False (init_ctx outb, src, False)"
  have sz: "0 < unat (1064 :: u64)" "unat (1064 :: u64) \<le> 2 ^ 62" "0 < unat (2112 :: u64)" "unat (2112 :: u64) \<le> 2 ^ 62"
    by simp_all
  obtain p h1 where p: "kmalloc 1064 h = Some (p, h1)" using kh.alloc_returns [OF assms sz(1,2)] .
  show ?thesis
  proof (cases "p = 0")
    case True
    then show ?thesis
      using p False kh.alloc_null [OF assms sz(1,2), of h1] assms by (simp add: compile_buffer_def)
  next
    case pn: False
    note f = kh.alloc_fresh [OF assms sz(1,2) p pn]
    obtain q h2 where q: "kmalloc 2112 h1 = Some (q, h2)" using kh.alloc_returns [OF f(2) sz(3,4)] .
    show ?thesis
    proof (cases "q = 0")
      case True
      have "heap_live (kfree p h2) L"
        using kh.alloc_null [OF f(2) sz(3,4), of h2] q True kh.release_inv [OF f(2), of p] f(1) by simp
      then show ?thesis using p q pn True False by (simp add: compile_buffer_def)
    next
      case qn: False
      note g = kh.alloc_fresh [OF f(2) sz(3,4) q qn]
      have "heap_live (kfree q h2) (insert p L)" using kh.release_inv [OF g(2), of q] g(1) by simp
      from kh.release_inv [OF this, of p] f(1) have "heap_live (kfree p (kfree q h2)) L" by simp
      then show ?thesis
        using p q pn qn False compile_loop_total [of outb src]
        by (cases ?t) (auto simp: compile_buffer_def Let_def)
    qed
  qed
qed (use assms in \<open>simp add: compile_buffer_def\<close>)

theorem compile_buffer_returns_witness:
  "\<exists>res h'. compile_buffer ''int main(void){ return 0; }'' (replicate 64 0) (alloc_init 0x1000 0x100000 heap0) = Some (res, h')"
proof -
  have "heap_inv 0x1000 (alloc_init 0x1000 0x100000 heap0) [] {}" by (rule alloc_init_inv) simp_all
  then have "heap_live (alloc_init 0x1000 0x100000 heap0) {}" by (auto simp: heap_live_def)
  from compile_buffer_returns [OF this] show ?thesis by blast
qed

subsection \<open>The compiler's output\<close>

lemma put_count: "put_bytes (TCC_MAGIC @ le32 v @ bs) 4 (le32 w) = TCC_MAGIC @ le32 w @ bs"
  by (simp add: put_bytes_def TCC_MAGIC_def)

lemma finish_output:
  assumes rep: "rep (TCC_MAGIC @ le32 0) TCC_LOOP_MAX c is" and f: "finish saw_return c = Some (b, n)"
  shows "\<exists>is'. list_all wf_instr is' \<and> take n b = TCC_MAGIC @ le32 (of_nat (length is')) @ flat is' \<and>
    n \<le> length b \<and> length b = length (out c) \<and> drop n b = drop n (out c) \<and> 8 \<le> n \<and> pos c \<le> n"
proof -
  have "\<exists>c1 is1. grow (TCC_MAGIC @ le32 0) TCC_LOOP_MAX c is c1 is1 \<and> b = write_u32 (out c1) 4 (count c1) \<and> n = pos c1"
  proof (cases saw_return)
    case True
    then show ?thesis using f grow_refl [OF rep] by (auto simp: finish_def)
  next
    case False
    then obtain c0 c1 where c: "emit_push_const c 0 = Some c0" "emit_op c0 TCC_OP_RET = Some c1"
      "b = write_u32 (out c1) 4 (count c1)" "n = pos c1"
      using f by (auto simp: finish_def bind_eq_Some_conv)
    have g0: "grow (TCC_MAGIC @ le32 0) TCC_LOOP_MAX c is c0 (is @ [Const 0])"
      by (rule try_add_grow [OF rep]) (use c(1) emit_instr_eq(1) [OF repD(3) [OF rep]] in auto)
    have "grow (TCC_MAGIC @ le32 0) TCC_LOOP_MAX c0 (is @ [Const 0]) c1 ((is @ [Const 0]) @ [Plain TCC_OP_RET])"
      by (rule try_add_grow [OF growD(1) [OF g0]]) (use c(2) emit_op_eq [OF repD(3) [OF growD(1) [OF g0]]] in auto)
    from grow_trans [OF g0 this] c(3,4) show ?thesis by blast
  qed
  then obtain c1 is1 where g: "grow (TCC_MAGIC @ le32 0) TCC_LOOP_MAX c is c1 is1"
    and b: "b = write_u32 (out c1) 4 (count c1)" and n: "n = pos c1" by blast
  note r = repD [OF growD(1) [OF g]]
  have n8: "n = 8 + length (flat is1)" using rep_pos [OF growD(1) [OF g]] n by (simp add: TCC_MAGIC_def)
  have len: "8 \<le> length (out c1)" using n8 r(2) n by simp
  have o: "out c1 = TCC_MAGIC @ le32 0 @ flat is1 @ drop n (out c1)"
    using append_take_drop_id [of n "out c1"] r(1) n by simp
  have "b = put_bytes (out c1) 4 (le32 (count c1))"
    unfolding b using len by (intro write_u32_eq_put_bytes) simp
  then have b': "b = TCC_MAGIC @ le32 (count c1) @ flat is1 @ drop n (out c1)"
    using put_count [of 0 "flat is1 @ drop n (out c1)"] o by metis
  then have "take n b = TCC_MAGIC @ le32 (count c1) @ flat is1" "drop n b = drop n (out c1)"
    using n8 by simp_all
  then show ?thesis
    using r(2,4,5) growD [OF g] n n8 b by (intro exI [of _ is1]) simp
qed

text \<open>
  C39: the compiler writes only well-formed programs. When \<open>compile_buffer\<close> succeeds, the output
  is the magic number, the number of instructions, and the encodings of exactly that many
  instructions, all with a known code, every variable operand inside the 32-element array of the
  interpreter and every text terminated; the program fits the buffer and nothing behind it is
  touched.
\<close>

theorem compile_buffer_output:
  assumes "compile_buffer src outb h = Some (Some (b, n), h')"
  shows "\<exists>is. list_all wf_instr is \<and> take n b = TCC_MAGIC @ le32 (of_nat (length is)) @ flat is \<and>
    n \<le> length outb \<and> length b = length outb \<and> drop n b = drop n outb"
proof -
  have len: "8 \<le> length outb" using assms by (auto simp: compile_buffer_def split: if_splits)
  obtain ib sa sr c where t: "compile_loop (Suc (length src)) False False (init_ctx outb, src, False) = Done ib sa sr c"
    and f: "finish sr c = Some (b, n)"
    using assms
    by (cases "compile_loop (Suc (length src)) False False (init_ctx outb, src, False)")
      (auto simp: compile_buffer_def Let_def bind_eq_Some_conv simp del: compile_loop.simps split: if_splits)
  obtain "is" where g: "grow (TCC_MAGIC @ le32 0) TCC_LOOP_MAX (init_ctx outb) [] c is"
    using compile_loop_total [OF len, of src] t by auto
  obtain is' where o: "list_all wf_instr is'" "take n b = TCC_MAGIC @ le32 (of_nat (length is')) @ flat is'"
    "n \<le> length b" "length b = length (out c)" "drop n b = drop n (out c)" "8 \<le> n" "pos c \<le> n"
    using finish_output [OF growD(1) [OF g] f] by blast
  have lo: "length (out (init_ctx outb)) = length outb" using init_ctx_out [OF len] len by (simp add: TCC_MAGIC_def)
  have "drop n (out c) = drop n (out (init_ctx outb))"
    using growD(7) [OF g] o(7) by (metis drop_drop le_add_diff_inverse2)
  also have "\<dots> = drop n outb"
    using init_ctx_out [OF len] o(6) by simp
  finally show ?thesis using o growD(6) [OF g] lo by auto
qed

definition demo :: string where "demo = ''{return 7;}''"

lemma demo_compiles:
  "case compile_loop (Suc (length demo)) False False (init_ctx (replicate 16 0), demo, False) of
     Done ib sa sr c \<Rightarrow> \<not> ib \<and> sa \<and> finish sr c = Some ([0x54, 0x43, 0x43, 0x30, 2, 0, 0, 0, 5, 7, 0, 0, 0, 19, 0, 0], 14) | _ \<Rightarrow> False"
  by code_simp

theorem compile_buffer_output_witness:
  "\<exists>b n h'. compile_buffer demo (replicate 16 0) (alloc_init 0x1000 0x100000 heap0) = Some (Some (b, n), h') \<and> n = 14 \<and>
     (\<exists>is. list_all wf_instr is \<and> take n b = TCC_MAGIC @ le32 (of_nat (length is)) @ flat is)"
proof -
  let ?h = "alloc_init 0x1000 0x100000 heap0"
  obtain h1 where h1: "kmalloc 1064 ?h = Some (0x1010, h1)" "heap_ptr h1 = 0x1440" "heap_end h1 = 0x100000" "free_list h1 = 0"
    by (simp add: heap_eval)
  obtain q h2 where h2: "kmalloc 2112 h1 = Some (q, h2)" "q \<noteq> 0"
    using h1(2-4) by (simp add: heap_eval)
  obtain b h' where r: "compile_buffer demo (replicate 16 0) ?h = Some (Some (b, 14), h')"
    using h1(1) h2 demo_compiles by (auto simp: compile_buffer_def Let_def simp del: compile_loop.simps split: top.splits)
  with compile_buffer_output [OF r] show ?thesis by blast
qed

subsection \<open>Programs the compiler rejects\<close>

text \<open>
  Some valid inputs are not accepted. A comparison with \<open>==\<close> whose left side is a plain variable
  is taken for an assignment; \<open>while\<close> after the body of a \<open>do\<close> must follow without white space;
  the step of a \<open>for\<close> is compiled with the variables known before the loop header, so it does not
  see a variable the header declares.
\<close>

definition compile_status :: "string \<Rightarrow> top" where
  "compile_status src = compile_loop (Suc (length src)) False False (init_ctx (replicate 64 0), src, False)"

definition accepts :: "string \<Rightarrow> bool" where
  "accepts src = (case compile_status src of Done ib sa sr c \<Rightarrow> True | _ \<Rightarrow> False)"

lemma eq_after_variable_rejected:
  "compile_status ''{int x;if(x==3);}'' = GotoOut" "accepts ''{int x;if((x)==3);}''"
  by code_simp+

lemma do_while_needs_no_space:
  "compile_status ''{do ; while(0);}'' = GotoOut" "accepts ''{do ;while(0);}''"
  by code_simp+

lemma for_declaration_rejected:
  "compile_status ''{for(int i=0;i<3;i++);}'' = GotoOut" "accepts ''{int i;for(i=0;i<3;i++);}''"
  by code_simp+

lemma early_return_leaks: "compile_status ''x=1;'' = ReturnEarly"
  by code_simp

text \<open>
  The step of a \<open>for\<close> is compiled into a buffer of its own, at position 0 instead of 8, and copied:
  the jumps of a short-circuit operator in it point 8 bytes before their place, here to 16 and
  21 instead of 24 and 29, into the middle of other instructions.
\<close>

lemma step_clause_jumps_off:
  "case compile_status ''{int i;for(;;i=i&&i);}'' of
     Done ib sa sr c \<Rightarrow> take 29 (drop 8 (out c)) =
       flat [VarI TCC_OP_PUSH_VAR 0, Jump TCC_OP_JZ 16, VarI TCC_OP_PUSH_VAR 0, Jump TCC_OP_JZ 16,
         Const 1, Jump TCC_OP_JMP 21, Const 0]
   | _ \<Rightarrow> False"
  by code_simp

end
