(* ===== verification/TinyEval.thy ===== *)
theory TinyEval
  imports TinyCode TinyVm
begin

text \<open>
  A reference compiler for the expressions of the tiny C language and its correctness on the
  interpreter of \<^verbatim>\<open>src/tinycc.c\<close>: \<open>eval\<close> gives the value of an expression and its effect on
  the variables, \<open>gen\<close> its byte code, and running the code pushes the value and leaves the
  variables as \<open>eval\<close> says.
\<close>

subsection \<open>Expressions\<close>

text \<open>
  Variables are named; \<open>Bin\<close>, \<open>AssignOp\<close>, \<open>Pre\<close> and \<open>Post\<close> carry the code of their operator,
  \<open>Unary\<close> is negation or logical not.
\<close>

datatype expr = Num nat | Var string | Unary u8 expr | Bin u8 expr expr | And expr expr | Or expr expr |
  Assign string expr | AssignOp u8 string expr | Pre u8 string | Post u8 string

text \<open>
  The value of an operator of C on 32-bit integers, written over the integers: a division rounds
  towards zero, the remainder has the sign of the dividend, both give 0 for the divisor 0, and
  a result outside 32 bits wraps.
\<close>

definition int_quot :: "int \<Rightarrow> int \<Rightarrow> int" where
  "int_quot a b = (if b = 0 then 0 else sgn a * sgn b * (\<bar>a\<bar> div \<bar>b\<bar>))"

definition int_op :: "u8 \<Rightarrow> int \<Rightarrow> int \<Rightarrow> int" where
  "int_op op a b =
     (if op = TCC_OP_ADD then a + b
      else if op = TCC_OP_SUB then a - b
      else if op = TCC_OP_MUL then a * b
      else if op = TCC_OP_DIV then int_quot a b
      else if op = TCC_OP_MOD then (if b = 0 then 0 else sgn a * (\<bar>a\<bar> mod \<bar>b\<bar>))
      else if op = TCC_OP_LT then of_bool (a < b)
      else if op = TCC_OP_LE then of_bool (a < b \<or> a = b)
      else if op = TCC_OP_GT then of_bool (b < a)
      else if op = TCC_OP_GE then of_bool (b < a \<or> a = b)
      else if op = TCC_OP_EQ then of_bool (a = b)
      else if op = TCC_OP_NE then of_bool (a \<noteq> b)
      else 0)"

definition apply_op :: "u8 \<Rightarrow> s32 \<Rightarrow> s32 \<Rightarrow> s32" where
  "apply_op op x y = word_of_int (int_op op (sint x) (sint y))"

definition apply_un :: "u8 \<Rightarrow> s32 \<Rightarrow> s32" where
  "apply_un op x = (if op = TCC_OP_NOT then of_bool (x = 0) else word_of_int (- sint x))"

text \<open>Operands are evaluated from left to right, \<open>&&\<close> and \<open>||\<close> only as far as needed.\<close>

fun eval :: "(string \<Rightarrow> nat) \<Rightarrow> expr \<Rightarrow> s32 list \<Rightarrow> s32 \<times> s32 list" where
  "eval sl (Num n) vs = (of_nat n, vs)"
| "eval sl (Var x) vs = (vs ! sl x, vs)"
| "eval sl (Unary op e) vs = (let (v, vs1) = eval sl e vs in (apply_un op v, vs1))"
| "eval sl (Bin op a b) vs =
     (let (v, vs1) = eval sl a vs; (w, vs2) = eval sl b vs1 in (apply_op op v w, vs2))"
| "eval sl (And a b) vs =
     (let (v, vs1) = eval sl a vs
      in if v = 0 then (0, vs1) else let (w, vs2) = eval sl b vs1 in (of_bool (w \<noteq> 0), vs2))"
| "eval sl (Or a b) vs =
     (let (v, vs1) = eval sl a vs
      in if v \<noteq> 0 then (1, vs1) else let (w, vs2) = eval sl b vs1 in (of_bool (w \<noteq> 0), vs2))"
| "eval sl (Assign x e) vs = (let (v, vs1) = eval sl e vs in (v, vs1[sl x := v]))"
| "eval sl (AssignOp op x e) vs =
     (let (w, vs1) = eval sl e vs; v = apply_op op (vs ! sl x) w in (v, vs1[sl x := v]))"
| "eval sl (Pre op x) vs = (let v = apply_op op (vs ! sl x) 1 in (v, vs[sl x := v]))"
| "eval sl (Post op x) vs = (vs ! sl x, vs[sl x := apply_op op (vs ! sl x) 1])"

text \<open>The byte code of an expression that starts at offset \<open>p\<close> of the code.\<close>

fun gen :: "(string \<Rightarrow> nat) \<Rightarrow> nat \<Rightarrow> expr \<Rightarrow> instr list" where
  "gen sl p (Num n) = [Const (of_nat n)]"
| "gen sl p (Var x) = [VarI TCC_OP_PUSH_VAR (sl x)]"
| "gen sl p (Unary op e) = gen sl p e @ [Plain op]"
| "gen sl p (Bin op a b) = (let ca = gen sl p a in ca @ gen sl (p + length (flat ca)) b @ [Plain op])"
| "gen sl p (And a b) =
     (let ca = gen sl p a; q = p + length (flat ca) + 5;
          cb = gen sl q b; f = q + length (flat cb) + 15
      in ca @ [Jump TCC_OP_JZ (of_nat f)] @ cb @
         [Jump TCC_OP_JZ (of_nat f), Const 1, Jump TCC_OP_JMP (of_nat (f + 5)), Const 0])"
| "gen sl p (Or a b) =
     (let ca = gen sl p a; q = p + length (flat ca) + 15;
          cb = gen sl q b; f = q + length (flat cb) + 15
      in ca @ [Jump TCC_OP_JZ (of_nat q), Const 1, Jump TCC_OP_JMP (of_nat (f + 5))] @ cb @
         [Jump TCC_OP_JZ (of_nat f), Const 1, Jump TCC_OP_JMP (of_nat (f + 5)), Const 0])"
| "gen sl p (Assign x e) = gen sl p e @ [Plain TCC_OP_DUP, VarI TCC_OP_STORE_VAR (sl x)]"
| "gen sl p (AssignOp op x e) = VarI TCC_OP_PUSH_VAR (sl x) # gen sl (p + 2) e @
     [Plain op, Plain TCC_OP_DUP, VarI TCC_OP_STORE_VAR (sl x)]"
| "gen sl p (Pre op x) = [VarI TCC_OP_PUSH_VAR (sl x), Const 1, Plain op, Plain TCC_OP_DUP, VarI TCC_OP_STORE_VAR (sl x)]"
| "gen sl p (Post op x) = [VarI TCC_OP_PUSH_VAR (sl x), Plain TCC_OP_DUP, Const 1, Plain op, VarI TCC_OP_STORE_VAR (sl x)]"

lemma cbool_eq: "cbool b = of_bool b"
  by (simp add: cbool_def)

text \<open>Expressions the language has, over the variables \<open>V\<close>.\<close>

definition arith_ops :: "u8 set" where
  "arith_ops = {TCC_OP_ADD, TCC_OP_SUB, TCC_OP_MUL, TCC_OP_DIV, TCC_OP_MOD}"

definition bin_ops :: "u8 set" where
  "bin_ops = arith_ops \<union> {TCC_OP_LT, TCC_OP_LE, TCC_OP_GT, TCC_OP_GE, TCC_OP_EQ, TCC_OP_NE}"

fun wf_expr :: "string set \<Rightarrow> expr \<Rightarrow> bool" where
  "wf_expr V (Num n) \<longleftrightarrow> True"
| "wf_expr V (Var x) \<longleftrightarrow> x \<in> V"
| "wf_expr V (Unary op e) \<longleftrightarrow> op \<in> {TCC_OP_NEG, TCC_OP_NOT} \<and> wf_expr V e"
| "wf_expr V (Bin op a b) \<longleftrightarrow> op \<in> bin_ops \<and> wf_expr V a \<and> wf_expr V b"
| "wf_expr V (And a b) \<longleftrightarrow> wf_expr V a \<and> wf_expr V b"
| "wf_expr V (Or a b) \<longleftrightarrow> wf_expr V a \<and> wf_expr V b"
| "wf_expr V (Assign x e) \<longleftrightarrow> x \<in> V \<and> wf_expr V e"
| "wf_expr V (AssignOp op x e) \<longleftrightarrow> op \<in> arith_ops \<and> x \<in> V \<and> wf_expr V e"
| "wf_expr V (Pre op x) \<longleftrightarrow> op \<in> {TCC_OP_ADD, TCC_OP_SUB} \<and> x \<in> V"
| "wf_expr V (Post op x) \<longleftrightarrow> op \<in> {TCC_OP_ADD, TCC_OP_SUB} \<and> x \<in> V"

text \<open>The places on the stack an expression needs.\<close>

fun depth :: "expr \<Rightarrow> nat" where
  "depth (Num n) = 1"
| "depth (Var x) = 1"
| "depth (Unary op e) = depth e"
| "depth (Bin op a b) = max (depth a) (Suc (depth b))"
| "depth (And a b) = max (depth a) (depth b)"
| "depth (Or a b) = max (depth a) (depth b)"
| "depth (Assign x e) = max (depth e) 2"
| "depth (AssignOp op x e) = max (Suc (depth e)) 2"
| "depth (Pre op x) = 2"
| "depth (Post op x) = 3"

lemma depth_pos [simp]: "1 \<le> depth e"
  by (induction e) auto

lemma length_eval [simp]: "length (snd (eval sl e vs)) = length vs"
  by (induction e arbitrary: vs) (auto simp: Let_def case_prod_beta)

subsection \<open>Single instructions\<close>

text \<open>Instruction \<open>i\<close> stands at offset \<open>p\<close> of the program.\<close>

definition instr_at :: "bytes \<Rightarrow> nat \<Rightarrow> instr \<Rightarrow> bool" where
  "instr_at b p i \<longleftrightarrow> take (length (enc i)) (drop p b) = enc i"

definition code_at :: "bytes \<Rightarrow> nat \<Rightarrow> instr list \<Rightarrow> bool" where
  "code_at b p is \<longleftrightarrow> take (length (flat is)) (drop p b) = flat is"

lemma take_eq_append:
  "take (length xs + length ys) zs = xs @ ys \<longleftrightarrow> take (length xs) zs = xs \<and> take (length ys) (drop (length xs) zs) = ys"
proof
  assume a: "take (length xs + length ys) zs = xs @ ys"
  have "take (length xs) zs = take (length xs) (take (length xs + length ys) zs)" by simp
  moreover have "take (length ys) (drop (length xs) zs) = drop (length xs) (take (length xs + length ys) zs)"
    by (simp add: drop_take)
  ultimately show "take (length xs) zs = xs \<and> take (length ys) (drop (length xs) zs) = ys" unfolding a by simp
qed (simp add: take_add)

lemma code_at_Cons: "code_at b p (i # is) \<longleftrightarrow> instr_at b p i \<and> code_at b (p + length (enc i)) is"
  by (simp add: code_at_def instr_at_def take_eq_append add.commute)

lemma code_at_append: "code_at b p (is @ js) \<longleftrightarrow> code_at b p is \<and> code_at b (p + length (flat is)) js"
  by (induction "is" arbitrary: p) (auto simp: code_at_Cons add.assoc, simp add: code_at_def)

lemma code_at_Nil [simp]: "code_at b p []"
  by (simp add: code_at_def)

lemma instr_at_nth:
  assumes "instr_at b p i" "k < length (enc i)"
  shows "b ! (p + k) = enc i ! k" "p + k < length b"
proof -
  have l: "length (take (length (enc i)) (drop p b)) = length (enc i)" using assms(1) by (simp add: instr_at_def)
  then show "p + k < length b" using assms(2) by simp
  have "enc i ! k = take (length (enc i)) (drop p b) ! k" using assms(1) by (simp add: instr_at_def)
  then show "b ! (p + k) = enc i ! k" using assms(2) l by simp
qed

lemma instr_at_word:
  assumes "instr_at b p i" "enc i = op # le32 val"
  shows "b ! p = op" "p < length b" "p + 5 \<le> length b" "read_u32 b (Suc p) = val"
proof -
  have k: "b ! (p + k) = (op # le32 val) ! k \<and> p + k < length b" if "k < 5" for k
    using instr_at_nth [OF assms(1), of k] assms(2) that by simp
  show "b ! p = op" "p < length b" "p + 5 \<le> length b" using k [of 0] k [of 4] by simp_all
  show "read_u32 b (Suc p) = val"
    using k [of 1] k [of 2] k [of 3] k [of 4] by (intro read_u32_le32) (simp_all add: numeral_eq_Suc)
qed

lemma instr_at_var:
  assumes "instr_at b p (VarI op slot)"
  shows "b ! p = op" "p < length b" "Suc p < length b" "b ! Suc p = of_nat slot"
  using instr_at_nth [OF assms, of 0] instr_at_nth [OF assms, of 1] by simp_all

lemma instr_at_plain:
  assumes "instr_at b p (Plain op)"
  shows "b ! p = op" "p < length b"
  using instr_at_nth [OF assms, of 0] by simp_all

text \<open>The interpreter's state with pointer, stack and variables replaced.\<close>

definition at :: "vm \<Rightarrow> nat \<Rightarrow> s32 list \<Rightarrow> s32 list \<Rightarrow> vm" where
  "at v p stk vs = v\<lparr>vp := p, vstack := stk, vvars := vs\<rparr>"

lemma at_fields [simp]: "vp (at v p stk vs) = p" "vstack (at v p stk vs) = stk" "vvars (at v p stk vs) = vs"
  "vsys (at v p stk vs) = vsys v"
  "(at v p stk vs)\<lparr>vp := q\<rparr> = at v q stk vs" "(at v p stk vs)\<lparr>vstack := t\<rparr> = at v p t vs"
  "(at v p stk vs)\<lparr>vvars := ws\<rparr> = at v p stk ws"
  by (simp_all add: at_def)

lemmas vm_eval = vm_step_def fetch_def fetch_u32_def Let_def tcc_push_def tcc_top_def tcc_drop_def TCC_STACK_MAX_def TCC_MAX_VARS_def

lemma step_const:
  assumes "instr_at b p (Const x)" "length stk < 64"
  shows "vm_step slp b (at v p stk vs) = Next (at v (p + 5) (x # stk) vs)"
  using instr_at_word [OF assms(1) enc.simps(2)] assms(2) by (simp add: vm_eval)

lemma step_push_var:
  assumes "instr_at b p (VarI TCC_OP_PUSH_VAR slot)" "length stk < 64" "slot < 32"
  shows "vm_step slp b (at v p stk vs) = Next (at v (p + 2) (vs ! slot # stk) vs)"
  using instr_at_var [OF assms(1)] assms(2,3) by (simp add: vm_eval unat_of_nat)

lemma step_store_var:
  assumes "instr_at b p (VarI TCC_OP_STORE_VAR slot)" "slot < 32"
  shows "vm_step slp b (at v p (x # stk) vs) = Next (at v (p + 2) stk (vs[slot := x]))"
  using instr_at_var [OF assms(1)] assms(2) by (simp add: vm_eval unat_of_nat)

lemma step_dup:
  assumes "instr_at b p (Plain TCC_OP_DUP)" "length stk + 2 \<le> 64"
  shows "vm_step slp b (at v p (x # stk) vs) = Next (at v (p + 1) (x # x # stk) vs)"
  using instr_at_plain [OF assms(1)] assms(2) by (simp add: vm_eval)

lemma step_unary:
  assumes "instr_at b p (Plain op)" "op \<in> {TCC_OP_NEG, TCC_OP_NOT}" "length stk < 64"
  shows "vm_step slp b (at v p (x # stk) vs) = Next (at v (p + 1) (apply_un op x # stk) vs)"
proof (cases "op = TCC_OP_NEG")
  case True
  then show ?thesis using instr_at_plain [OF assms(1)] assms(3) by (simp add: vm_eval apply_un_def cbool_eq)
next
  case False
  then have "op = TCC_OP_NOT" using assms(2) by simp
  then show ?thesis using instr_at_plain [OF assms(1)] assms(3) by (simp add: vm_eval apply_un_def cbool_eq)
qed

text \<open>The interpreter's operators have the values of C.\<close>

lemma vm_binop_spec:
  assumes "op \<in> bin_ops" shows "vm_binop op = Some (apply_op op)"
proof -
  have "x = 0 \<longleftrightarrow> sint x = 0" "x = y \<longleftrightarrow> sint x = sint y" for x y :: s32
    using signed_word_eqI [of x 0] signed_word_eqI [of x y] by auto
  then show ?thesis
    using assms unfolding bin_ops_def arith_ops_def
    by (auto simp: vm_binop_def apply_op_def int_op_def fun_eq_iff cbool_eq le_less int_quot_def signed_divide_int_def signed_modulo_int_def)
qed

lemma step_binary:
  assumes "instr_at b p (Plain op)" "op \<in> bin_ops" "length stk < 64"
  shows "vm_step slp b (at v p (y # x # stk) vs) = Next (at v (p + 1) (apply_op op x y # stk) vs)"
proof -
  have "op \<notin> {1, 2, 3, 4, 5, 6, 7, 16, 17, 18, 19, 23, 26, 27}" using assms(2) by (auto simp: bin_ops_def arith_ops_def)
  then show ?thesis
    using instr_at_plain [OF assms(1)] assms(3) vm_binop_spec [OF assms(2)] by (simp add: vm_eval)
qed

lemma step_jmp:
  assumes "instr_at b p (Jump TCC_OP_JMP (of_nat t))" "t < length b - 8" "length b < 2 ^ 32"
  shows "vm_step slp b (at v p stk vs) = Next (at v (8 + t) stk vs)"
  using instr_at_word [OF assms(1) enc.simps(4)] assms(2,3) by (simp add: vm_eval unat_of_nat)

lemma step_jz:
  assumes "instr_at b p (Jump TCC_OP_JZ (of_nat t))" "t < length b - 8" "length b < 2 ^ 32"
  shows "vm_step slp b (at v p (x # stk) vs) = Next (at v (if x = 0 then 8 + t else p + 5) stk vs)"
  using instr_at_word [OF assms(1) enc.simps(4)] assms(2,3) by (simp add: vm_eval unat_of_nat)

subsection \<open>Running the code of an expression\<close>

inductive vm_steps :: "(u64 \<Rightarrow> sys \<Rightarrow> sys) \<Rightarrow> bytes \<Rightarrow> vm \<Rightarrow> vm \<Rightarrow> bool" for slp b where
  steps_refl: "vm_steps slp b v v"
| steps_step: "vm_step slp b v = Next v1 \<Longrightarrow> vm_steps slp b v1 v2 \<Longrightarrow> vm_steps slp b v v2"

lemma steps_trans: "vm_steps slp b v v1 \<Longrightarrow> vm_steps slp b v1 v2 \<Longrightarrow> vm_steps slp b v v2"
  by (induction rule: vm_steps.induct) (auto intro: vm_steps.intros)

lemma steps_one: "vm_step slp b v = Next v1 \<Longrightarrow> vm_steps slp b v v1"
  by (rule steps_step [OF _ steps_refl])

text \<open>Executing steps does not change what the loop returns in the end.\<close>

lemma steps_run: "vm_steps slp b v v1 \<Longrightarrow> vm_run slp b v = vm_run slp b v1"
  by (induction rule: vm_steps.induct) (simp_all add: vm_run.simps)

definition computes :: "(string \<Rightarrow> nat) \<Rightarrow> expr \<Rightarrow> bool" where
  "computes sl e \<longleftrightarrow> (\<forall>slp b v p stk vs.
     code_at b (8 + p) (gen sl p e) \<longrightarrow> 8 + p + length (flat (gen sl p e)) < length b \<longrightarrow> length b < 2 ^ 32 \<longrightarrow>
     length stk + depth e \<le> 64 \<longrightarrow>
     vm_steps slp b (at v (8 + p) stk vs)
       (at v (8 + p + length (flat (gen sl p e))) (fst (eval sl e vs) # stk) (snd (eval sl e vs))))"

lemma computesD:
  assumes "computes sl e" "code_at b q (gen sl p e)" "q = 8 + p" "q + length (flat (gen sl p e)) < length b"
    "length b < 2 ^ 32" "length stk + depth e \<le> 64" "eval sl e vs = (x, vs')" "q' = q + length (flat (gen sl p e))"
  shows "vm_steps slp b (at v q stk vs) (at v q' (x # stk) vs')"
  using assms unfolding computes_def by (metis fst_conv snd_conv)

lemma computesI:
  assumes "\<And>slp b v p stk vs x vs'. code_at b (8 + p) (gen sl p e) \<Longrightarrow>
    8 + p + length (flat (gen sl p e)) < length b \<Longrightarrow> length b < 2 ^ 32 \<Longrightarrow> length stk + depth e \<le> 64 \<Longrightarrow>
    eval sl e vs = (x, vs') \<Longrightarrow>
    vm_steps slp b (at v (8 + p) stk vs) (at v (8 + p + length (flat (gen sl p e))) (x # stk) vs')"
  shows "computes sl e"
  unfolding computes_def by (simp add: assms)

lemma computes_Bin:
  assumes "computes sl e1" "computes sl e2" "op \<in> bin_ops"
  shows "computes sl (Bin op e1 e2)"
proof (rule computesI)
  fix slp b v p vs z vs2 and stk :: "s32 list"
  let ?n1 = "length (flat (gen sl p e1))"
  let ?n2 = "length (flat (gen sl (p + ?n1) e2))"
  assume code: "code_at b (8 + p) (gen sl p (Bin op e1 e2))"
    and lt: "8 + p + length (flat (gen sl p (Bin op e1 e2))) < length b" "length b < 2 ^ 32"
    and stk: "length stk + depth (Bin op e1 e2) \<le> 64" and ev: "eval sl (Bin op e1 e2) vs = (z, vs2)"
  obtain x vs1 y where e: "eval sl e1 vs = (x, vs1)" "eval sl e2 vs1 = (y, vs2)" "z = apply_op op x y"
    using ev by (auto simp: Let_def split: prod.splits)
  have c: "code_at b (8 + p) (gen sl p e1)" "code_at b (8 + p + ?n1) (gen sl (p + ?n1) e2)"
    "instr_at b (8 + p + ?n1 + ?n2) (Plain op)"
    using code by (simp_all add: Let_def code_at_append code_at_Cons add.assoc)
  have 1: "vm_steps slp b (at v (8 + p) stk vs) (at v (8 + p + ?n1) (x # stk) vs1)"
    by (rule computesD [OF assms(1) c(1)]) (use lt stk e in \<open>auto simp: Let_def\<close>)
  have 2: "vm_steps slp b (at v (8 + p + ?n1) (x # stk) vs1) (at v (8 + p + ?n1 + ?n2) (y # x # stk) vs2)"
    by (rule computesD [OF assms(2) c(2)]) (use lt stk e in \<open>auto simp: Let_def\<close>)
  have 3: "vm_steps slp b (at v (8 + p + ?n1 + ?n2) (y # x # stk) vs2) (at v (8 + p + ?n1 + ?n2 + 1) (z # stk) vs2)"
    unfolding e(3) by (rule steps_one, rule step_binary [OF c(3) assms(3)]) (use stk depth_pos [of e2] in auto)
  show "vm_steps slp b (at v (8 + p) stk vs) (at v (8 + p + length (flat (gen sl p (Bin op e1 e2)))) (z # stk) vs2)"
    using steps_trans [OF 1 steps_trans [OF 2 3]] by (simp add: Let_def add.assoc)
qed

lemma computes_Unary:
  assumes "computes sl e1" "op \<in> {TCC_OP_NEG, TCC_OP_NOT}"
  shows "computes sl (Unary op e1)"
proof (rule computesI)
  fix slp b v p vs z vs1 and stk :: "s32 list"
  let ?n1 = "length (flat (gen sl p e1))"
  assume code: "code_at b (8 + p) (gen sl p (Unary op e1))"
    and lt: "8 + p + length (flat (gen sl p (Unary op e1))) < length b" "length b < 2 ^ 32"
    and stk: "length stk + depth (Unary op e1) \<le> 64" and ev: "eval sl (Unary op e1) vs = (z, vs1)"
  obtain x where e: "eval sl e1 vs = (x, vs1)" "z = apply_un op x"
    using ev by (auto simp: Let_def split: prod.splits)
  have c: "code_at b (8 + p) (gen sl p e1)" "instr_at b (8 + p + ?n1) (Plain op)"
    using code by (simp_all add: code_at_append code_at_Cons)
  have 1: "vm_steps slp b (at v (8 + p) stk vs) (at v (8 + p + ?n1) (x # stk) vs1)"
    by (rule computesD [OF assms(1) c(1)]) (use lt stk e in auto)
  have 2: "vm_steps slp b (at v (8 + p + ?n1) (x # stk) vs1) (at v (8 + p + ?n1 + 1) (z # stk) vs1)"
    unfolding e(2) by (rule steps_one, rule step_unary [OF c(2) assms(2)]) (use stk depth_pos [of e1] in \<open>auto simp del: depth_pos\<close>)
  show "vm_steps slp b (at v (8 + p) stk vs) (at v (8 + p + length (flat (gen sl p (Unary op e1)))) (z # stk) vs1)"
    using steps_trans [OF 1 2] by simp
qed

text \<open>The end of a short-circuit operator: the right operand is turned into 0 or 1.\<close>

lemma bool_tail_steps:
  assumes c: "code_at b q [Jump TCC_OP_JZ (of_nat f), Const 1, Jump TCC_OP_JMP (of_nat (f + 5)), Const 0]"
    and q: "q + 15 = 8 + f" "q + 20 < length b" "length b < 2 ^ 32" and stk: "length stk < 64"
  shows "vm_steps slp b (at v q (y # stk) vs) (at v (q + 20) (of_bool (y \<noteq> 0) # stk) vs)"
    and "vm_steps slp b (at v (8 + f) stk vs) (at v (q + 20) (0 # stk) vs)"
proof -
  have i: "instr_at b q (Jump TCC_OP_JZ (of_nat f))" "instr_at b (q + 5) (Const 1)"
    "instr_at b (q + 10) (Jump TCC_OP_JMP (of_nat (f + 5)))" "instr_at b (8 + f) (Const 0)"
    using c q(1) by (simp_all add: code_at_Cons add.assoc)
  have q20: "8 + f + 5 = q + 20" "8 + (f + 5) = q + 20" using q(1) by simp_all
  show 0: "vm_steps slp b (at v (8 + f) stk vs) (at v (q + 20) (0 # stk) vs)"
    using step_const [OF i(4) stk] unfolding q20 by (rule steps_one)
  have jz: "vm_step slp b (at v q (y # stk) vs) = Next (at v (if y = 0 then 8 + f else q + 5) stk vs)"
    by (rule step_jz [OF i(1)]) (use q in auto)
  have one: "vm_steps slp b (at v (q + 5) stk vs) (at v (q + 10) (1 # stk) vs)"
    using steps_one [OF step_const [OF i(2) stk]] by (simp add: add.assoc)
  have jmp: "vm_steps slp b (at v (q + 10) (1 # stk) vs) (at v (q + 20) (1 # stk) vs)"
    using step_jmp [OF i(3)] q unfolding q20 by (intro steps_one) auto
  show "vm_steps slp b (at v q (y # stk) vs) (at v (q + 20) (of_bool (y \<noteq> 0) # stk) vs)"
    using steps_step [OF jz] 0 steps_trans [OF one jmp] by (simp add: of_bool_def)
qed

lemma steps_to: "vm_step slp b v = Next (at v1 q stk vs) \<Longrightarrow> q = q' \<Longrightarrow> vm_steps slp b v (at v1 q' stk vs)"
  by (auto intro: steps_one)

lemma computes_Num: "computes sl (Num n)"
  by (rule computesI) (auto simp: code_at_Cons intro!: steps_to [OF step_const])

lemma computes_Var:
  assumes "sl x < 32"
  shows "computes sl (Var x)"
  by (rule computesI) (use assms in \<open>auto simp: code_at_Cons intro!: steps_to [OF step_push_var]\<close>)

lemma computes_And:
  assumes "computes sl e1" "computes sl e2"
  shows "computes sl (And e1 e2)"
proof (rule computesI)
  fix slp b v p vs z vs2 and stk :: "s32 list"
  define n1 where "n1 = length (flat (gen sl p e1))"
  define q where "q = p + n1 + 5"
  define n2 where "n2 = length (flat (gen sl q e2))"
  define f where "f = q + n2 + 15"
  have gen: "gen sl p (And e1 e2) = gen sl p e1 @ Jump TCC_OP_JZ (of_nat f) # gen sl q e2 @
      [Jump TCC_OP_JZ (of_nat f), Const 1, Jump TCC_OP_JMP (of_nat (f + 5)), Const 0]"
    by (simp add: Let_def n1_def q_def n2_def f_def)
  have end_: "8 + p + length (flat (gen sl p (And e1 e2))) = 8 + q + n2 + 20"
    unfolding gen by (simp add: n1_def q_def n2_def)
  assume code: "code_at b (8 + p) (gen sl p (And e1 e2))"
    and lt: "8 + p + length (flat (gen sl p (And e1 e2))) < length b" "length b < 2 ^ 32"
    and stk: "length stk + depth (And e1 e2) \<le> 64" and ev: "eval sl (And e1 e2) vs = (z, vs2)"
  obtain x vs1 where e1: "eval sl e1 vs = (x, vs1)" by (cases "eval sl e1 vs")
  obtain y vs3 where e2: "eval sl e2 vs1 = (y, vs3)" by (cases "eval sl e2 vs1")
  have c: "code_at b (8 + p) (gen sl p e1)" "instr_at b (8 + p + n1) (Jump TCC_OP_JZ (of_nat f))"
    "code_at b (8 + q) (gen sl q e2)"
    "code_at b (8 + q + n2) [Jump TCC_OP_JZ (of_nat f), Const 1, Jump TCC_OP_JMP (of_nat (f + 5)), Const 0]"
    using code unfolding gen code_at_append code_at_Cons [of b _ _ "gen sl q e2 @ _"] n1_def [symmetric] n2_def [symmetric]
    by (simp_all add: q_def add.assoc)
  have stk1: "length stk < 64" using stk depth_pos [of e1] by (simp del: depth_pos)
  note lt = lt [unfolded end_]
  have t: "8 + q + n2 + 15 = 8 + f" using f_def by simp
  note tail = bool_tail_steps [OF c(4) t lt stk1, of slp v]
  have 1: "vm_steps slp b (at v (8 + p) stk vs) (at v (8 + p + n1) (x # stk) vs1)"
    by (rule computesD [OF assms(1) c(1)]) (use lt stk e1 n1_def q_def in auto)
  have 2: "vm_step slp b (at v (8 + p + n1) (x # stk) vs1) = Next (at v (if x = 0 then 8 + f else 8 + p + n1 + 5) stk vs1)"
    by (rule step_jz [OF c(2)]) (use lt f_def in auto)
  have 3: "vm_steps slp b (at v (8 + p + n1 + 5) stk vs1) (at v (8 + q + n2) (y # stk) vs3)"
    by (rule computesD [OF assms(2), of _ _ q]) (use c(3) lt stk e2 q_def n2_def in \<open>auto simp: add.assoc\<close>)
  have "vm_steps slp b (at v (if x = 0 then 8 + f else 8 + p + n1 + 5) stk vs1) (at v (8 + q + n2 + 20) (z # stk) vs2)"
    using tail(2) steps_trans [OF 3 tail(1)] ev e1 e2 by (auto split: if_splits)
  from steps_trans [OF 1 steps_step [OF 2 this]]
  show "vm_steps slp b (at v (8 + p) stk vs) (at v (8 + p + length (flat (gen sl p (And e1 e2)))) (z # stk) vs2)"
    unfolding end_ .
qed

lemma computes_Or:
  assumes "computes sl e1" "computes sl e2"
  shows "computes sl (Or e1 e2)"
proof (rule computesI)
  fix slp b v p vs z vs2 and stk :: "s32 list"
  define n1 where "n1 = length (flat (gen sl p e1))"
  define q where "q = p + n1 + 15"
  define n2 where "n2 = length (flat (gen sl q e2))"
  define f where "f = q + n2 + 15"
  have gen: "gen sl p (Or e1 e2) = gen sl p e1 @ [Jump TCC_OP_JZ (of_nat q), Const 1, Jump TCC_OP_JMP (of_nat (f + 5))] @
      gen sl q e2 @ [Jump TCC_OP_JZ (of_nat f), Const 1, Jump TCC_OP_JMP (of_nat (f + 5)), Const 0]"
    by (simp add: Let_def n1_def q_def n2_def f_def)
  have end_: "8 + p + length (flat (gen sl p (Or e1 e2))) = 8 + q + n2 + 20"
    unfolding gen by (simp add: n1_def q_def n2_def)
  assume code: "code_at b (8 + p) (gen sl p (Or e1 e2))"
    and lt: "8 + p + length (flat (gen sl p (Or e1 e2))) < length b" "length b < 2 ^ 32"
    and stk: "length stk + depth (Or e1 e2) \<le> 64" and ev: "eval sl (Or e1 e2) vs = (z, vs2)"
  obtain x vs1 where e1: "eval sl e1 vs = (x, vs1)" by (cases "eval sl e1 vs")
  obtain y vs3 where e2: "eval sl e2 vs1 = (y, vs3)" by (cases "eval sl e2 vs1")
  have c: "code_at b (8 + p) (gen sl p e1)"
    "code_at b (8 + p + n1) [Jump TCC_OP_JZ (of_nat q), Const 1, Jump TCC_OP_JMP (of_nat (f + 5))]"
    "code_at b (8 + q) (gen sl q e2)"
    "code_at b (8 + q + n2) [Jump TCC_OP_JZ (of_nat f), Const 1, Jump TCC_OP_JMP (of_nat (f + 5)), Const 0]"
    using code unfolding gen code_at_append n1_def [symmetric] n2_def [symmetric]
    by (simp_all add: q_def add.assoc)
  have i: "instr_at b (8 + p + n1) (Jump TCC_OP_JZ (of_nat q))" "instr_at b (8 + p + n1 + 5) (Const 1)"
    "instr_at b (8 + p + n1 + 10) (Jump TCC_OP_JMP (of_nat (f + 5)))"
    using c(2) by (simp_all add: code_at_Cons add.assoc)
  have stk1: "length stk < 64" using stk depth_pos [of e1] by (simp del: depth_pos)
  note lt = lt [unfolded end_]
  have tail: "vm_steps slp b (at v (8 + q + n2) (y # stk) vs3) (at v (8 + q + n2 + 20) (of_bool (y \<noteq> 0) # stk) vs3)"
    by (rule bool_tail_steps(1) [OF c(4)], use lt stk1 f_def in simp_all)
  have 1: "vm_steps slp b (at v (8 + p) stk vs) (at v (8 + p + n1) (x # stk) vs1)"
    by (rule computesD [OF assms(1) c(1)]) (use lt stk e1 n1_def q_def in auto)
  have 2: "vm_step slp b (at v (8 + p + n1) (x # stk) vs1) = Next (at v (if x = 0 then 8 + q else 8 + p + n1 + 5) stk vs1)"
    by (rule step_jz [OF i(1)]) (use lt in auto)
  have 3: "vm_steps slp b (at v (8 + q) stk vs1) (at v (8 + q + n2) (y # stk) vs3)"
    by (rule computesD [OF assms(2) c(3)]) (use lt stk e2 n2_def in auto)
  have 4: "vm_steps slp b (at v (8 + p + n1 + 5) stk vs1) (at v (8 + p + n1 + 10) (1 # stk) vs1)"
    by (rule steps_to [OF step_const [OF i(2) stk1]]) simp
  have 5: "vm_steps slp b (at v (8 + p + n1 + 10) (1 # stk) vs1) (at v (8 + q + n2 + 20) (1 # stk) vs1)"
    by (rule steps_to [OF step_jmp [OF i(3)]]) (use lt f_def in auto)
  have "vm_steps slp b (at v (if x = 0 then 8 + q else 8 + p + n1 + 5) stk vs1) (at v (8 + q + n2 + 20) (z # stk) vs2)"
    using steps_trans [OF 4 5] steps_trans [OF 3 tail] ev e1 e2 by (auto split: if_splits)
  from steps_trans [OF 1 steps_step [OF 2 this]]
  show "vm_steps slp b (at v (8 + p) stk vs) (at v (8 + p + length (flat (gen sl p (Or e1 e2)))) (z # stk) vs2)"
    unfolding end_ .
qed

lemma computes_Assign:
  assumes "computes sl e" "sl x < 32"
  shows "computes sl (Assign x e)"
proof (rule computesI)
  fix slp b v p vs z vs2 and stk :: "s32 list"
  let ?n = "length (flat (gen sl p e))"
  assume code: "code_at b (8 + p) (gen sl p (Assign x e))"
    and lt: "8 + p + length (flat (gen sl p (Assign x e))) < length b" "length b < 2 ^ 32"
    and stk: "length stk + depth (Assign x e) \<le> 64" and ev: "eval sl (Assign x e) vs = (z, vs2)"
  obtain vs1 where e: "eval sl e vs = (z, vs1)" "vs2 = vs1[sl x := z]"
    using ev by (auto split: prod.splits)
  have c: "code_at b (8 + p) (gen sl p e)" "instr_at b (8 + p + ?n) (Plain TCC_OP_DUP)"
    "instr_at b (8 + p + ?n + 1) (VarI TCC_OP_STORE_VAR (sl x))"
    using code by (simp_all add: code_at_append code_at_Cons add.assoc)
  have 1: "vm_steps slp b (at v (8 + p) stk vs) (at v (8 + p + ?n) (z # stk) vs1)"
    by (rule computesD [OF assms(1) c(1)]) (use lt stk e in auto)
  have 2: "vm_steps slp b (at v (8 + p + ?n) (z # stk) vs1) (at v (8 + p + ?n + 1) (z # z # stk) vs1)"
    by (rule steps_to [OF step_dup [OF c(2)]]) (use stk in auto)
  have 3: "vm_steps slp b (at v (8 + p + ?n + 1) (z # z # stk) vs1) (at v (8 + p + length (flat (gen sl p (Assign x e)))) (z # stk) vs2)"
    unfolding e(2) by (rule steps_to [OF step_store_var [OF c(3) assms(2)]]) simp
  show "vm_steps slp b (at v (8 + p) stk vs) (at v (8 + p + length (flat (gen sl p (Assign x e)))) (z # stk) vs2)"
    by (rule steps_trans [OF 1 steps_trans [OF 2 3]])
qed

text \<open>The end of a compound assignment: combine, keep a copy, store.\<close>

lemma op_store_steps:
  assumes "code_at b q [Plain op, Plain TCC_OP_DUP, VarI TCC_OP_STORE_VAR slot]" "op \<in> bin_ops" "slot < 32"
    "length stk + 2 \<le> 64"
  shows "vm_steps slp b (at v q (y # x # stk) vs) (at v (q + 4) (apply_op op x y # stk) (vs[slot := apply_op op x y]))"
proof -
  have c: "instr_at b q (Plain op)" "instr_at b (q + 1) (Plain TCC_OP_DUP)" "instr_at b (q + 1 + 1) (VarI TCC_OP_STORE_VAR slot)"
    using assms(1) by (simp_all add: code_at_Cons)
  have "length stk < 64" using assms(4) by simp
  note 1 = steps_one [OF step_binary [OF c(1) assms(2) this]]
  note 2 = steps_one [OF step_dup [OF c(2) assms(4)]]
  have 3: "vm_steps slp b (at v (q + 1 + 1) (w # w # stk) vs) (at v (q + 4) (w # stk) (vs[slot := w]))" for w
    by (rule steps_to [OF step_store_var [OF c(3) assms(3)]]) simp
  show ?thesis by (rule steps_trans [OF 1 steps_trans [OF 2 3]])
qed

lemma arith_bin: "op \<in> arith_ops \<Longrightarrow> op \<in> bin_ops"
  by (simp add: bin_ops_def)

lemma computes_AssignOp:
  assumes "computes sl e" "sl x < 32" "op \<in> arith_ops"
  shows "computes sl (AssignOp op x e)"
proof (rule computesI)
  fix slp b v p vs z vs2 and stk :: "s32 list"
  let ?n = "length (flat (gen sl (p + 2) e))"
  assume code: "code_at b (8 + p) (gen sl p (AssignOp op x e))"
    and lt: "8 + p + length (flat (gen sl p (AssignOp op x e))) < length b" "length b < 2 ^ 32"
    and stk: "length stk + depth (AssignOp op x e) \<le> 64" and ev: "eval sl (AssignOp op x e) vs = (z, vs2)"
  obtain w vs1 where e: "eval sl e vs = (w, vs1)" "z = apply_op op (vs ! sl x) w" "vs2 = vs1[sl x := apply_op op (vs ! sl x) w]"
    using ev by (auto simp: Let_def split: prod.splits)
  have c: "instr_at b (8 + p) (VarI TCC_OP_PUSH_VAR (sl x))" "code_at b (8 + p + 2) (gen sl (p + 2) e)"
    "code_at b (8 + p + 2 + ?n) [Plain op, Plain TCC_OP_DUP, VarI TCC_OP_STORE_VAR (sl x)]"
    using code by (simp_all add: code_at_Cons [of b _ "VarI TCC_OP_PUSH_VAR (sl x)"] code_at_append add.assoc)
  have 1: "vm_steps slp b (at v (8 + p) stk vs) (at v (8 + p + 2) (vs ! sl x # stk) vs)"
    by (rule steps_one [OF step_push_var [OF c(1) _ assms(2)]]) (use stk in auto)
  have 2: "vm_steps slp b (at v (8 + p + 2) (vs ! sl x # stk) vs) (at v (8 + p + 2 + ?n) (w # vs ! sl x # stk) vs1)"
    by (rule computesD [OF assms(1) c(2)]) (use lt stk e in auto)
  have 3: "vm_steps slp b (at v (8 + p + 2 + ?n) (w # vs ! sl x # stk) vs1) (at v (8 + p + 2 + ?n + 4) (z # stk) vs2)"
    unfolding e(2,3) by (rule op_store_steps [OF c(3) arith_bin [OF assms(3)] assms(2)]) (use stk in auto)
  show "vm_steps slp b (at v (8 + p) stk vs) (at v (8 + p + length (flat (gen sl p (AssignOp op x e)))) (z # stk) vs2)"
    using steps_trans [OF 1 steps_trans [OF 2 3]] by (simp add: add.assoc)
qed

lemma incr_bin: "op \<in> {TCC_OP_ADD, TCC_OP_SUB} \<Longrightarrow> op \<in> bin_ops"
  by (auto simp: bin_ops_def arith_ops_def)

lemma computes_Pre:
  assumes "sl x < 32" "op \<in> {TCC_OP_ADD, TCC_OP_SUB}"
  shows "computes sl (Pre op x)"
proof (rule computesI)
  fix slp b v z vs2 and p :: nat and stk vs :: "s32 list"
  let ?q = "8 + p + 2 + 5"
  assume code: "code_at b (8 + p) (gen sl p (Pre op x))"
    and stk: "length stk + depth (Pre op x) \<le> 64" and ev: "eval sl (Pre op x) vs = (z, vs2)"
  have c: "instr_at b (8 + p) (VarI TCC_OP_PUSH_VAR (sl x))" "instr_at b (8 + p + 2) (Const 1)"
    "code_at b ?q [Plain op, Plain TCC_OP_DUP, VarI TCC_OP_STORE_VAR (sl x)]"
    using code by (simp_all add: code_at_Cons add.assoc)
  have 1: "vm_steps slp b (at v (8 + p) stk vs) (at v (8 + p + 2) (vs ! sl x # stk) vs)"
    by (rule steps_one [OF step_push_var [OF c(1) _ assms(1)]]) (use stk in auto)
  have 2: "vm_steps slp b (at v (8 + p + 2) (vs ! sl x # stk) vs) (at v ?q (1 # vs ! sl x # stk) vs)"
    by (rule steps_one [OF step_const [OF c(2)]]) (use stk in auto)
  have 3: "vm_steps slp b (at v ?q (1 # vs ! sl x # stk) vs) (at v (?q + 4) (z # stk) vs2)"
    using op_store_steps [OF c(3) incr_bin [OF assms(2)] assms(1)] stk ev by (auto simp: Let_def)
  show "vm_steps slp b (at v (8 + p) stk vs) (at v (8 + p + length (flat (gen sl p (Pre op x)))) (z # stk) vs2)"
    using steps_trans [OF 1 steps_trans [OF 2 3]] by (simp add: add.commute)
qed

lemma computes_Post:
  assumes "sl x < 32" "op \<in> {TCC_OP_ADD, TCC_OP_SUB}"
  shows "computes sl (Post op x)"
proof (rule computesI)
  fix slp b v z vs2 and p :: nat and stk vs :: "s32 list"
  let ?q = "8 + p + 2" and ?x = "vs ! sl x"
  assume code: "code_at b (8 + p) (gen sl p (Post op x))"
    and stk: "length stk + depth (Post op x) \<le> 64" and ev: "eval sl (Post op x) vs = (z, vs2)"
  have c: "instr_at b (8 + p) (VarI TCC_OP_PUSH_VAR (sl x))" "instr_at b ?q (Plain TCC_OP_DUP)" "instr_at b (?q + 1) (Const 1)"
    "instr_at b (?q + 1 + 5) (Plain op)" "instr_at b (?q + 1 + 5 + 1) (VarI TCC_OP_STORE_VAR (sl x))"
    using code by (simp_all add: code_at_Cons add.assoc)
  have 1: "vm_steps slp b (at v (8 + p) stk vs) (at v ?q (?x # stk) vs)"
    by (rule steps_one [OF step_push_var [OF c(1) _ assms(1)]]) (use stk in auto)
  have 2: "vm_steps slp b (at v ?q (?x # stk) vs) (at v (?q + 1) (?x # ?x # stk) vs)"
    by (rule steps_one [OF step_dup [OF c(2)]]) (use stk in auto)
  have 3: "vm_steps slp b (at v (?q + 1) (?x # ?x # stk) vs) (at v (?q + 1 + 5) (1 # ?x # ?x # stk) vs)"
    by (rule steps_one [OF step_const [OF c(3)]]) (use stk in auto)
  have 4: "vm_steps slp b (at v (?q + 1 + 5) (1 # ?x # ?x # stk) vs) (at v (?q + 1 + 5 + 1) (apply_op op ?x 1 # ?x # stk) vs)"
    by (rule steps_one [OF step_binary [OF c(4) incr_bin [OF assms(2)]]]) (use stk in auto)
  have 5: "vm_steps slp b (at v (?q + 1 + 5 + 1) (apply_op op ?x 1 # ?x # stk) vs) (at v (8 + p + length (flat (gen sl p (Post op x)))) (z # stk) vs2)"
    by (rule steps_to, rule step_store_var [OF c(5) assms(1), THEN trans]) (use ev in auto)
  show "vm_steps slp b (at v (8 + p) stk vs) (at v (8 + p + length (flat (gen sl p (Post op x)))) (z # stk) vs2)"
    by (rule steps_trans [OF 1 steps_trans [OF 2 steps_trans [OF 3 steps_trans [OF 4 5]]]])
qed

lemma wf_computes: "wf_expr V e \<Longrightarrow> \<forall>x \<in> V. sl x < 32 \<Longrightarrow> computes sl e"
  by (induction e)
    (auto intro: computes_Num computes_Var computes_Unary computes_Bin computes_And computes_Or computes_Assign
      computes_AssignOp computes_Pre computes_Post simp del: insert_iff)

subsection \<open>The interpreter on arbitrary bytes\<close>

lemma with_read_fetch:
  "with_read (fetch b p) k = (if p < length b then k (b ! p) else Undef)"
  "with_read (fetch_u32 b p) k' = (if p + 3 < length b then k' (read_u32 b p) else Undef)"
  by (simp_all add: fetch_def fetch_u32_def)

text \<open>The instruction pointer stays inside the program, the stack and the variables in their arrays.\<close>

definition vm_ok :: "bytes \<Rightarrow> vm \<Rightarrow> bool" where
  "vm_ok b v \<longleftrightarrow> 8 \<le> vp v \<and> vp v \<le> length b \<and> length (vstack v) \<le> 64 \<and> length (vvars v) = 32"

lemma vm_step_ok:
  assumes "vm_ok b v0" "vm_step slp b v0 = Next v'"
  shows "vm_ok b v'"
  using assms unfolding vm_ok_def vm_step_def vm_puts_def with_read_fetch tcc_push_def tcc_drop_def Let_def TCC_STACK_MAX_def TCC_MAX_VARS_def
  by (simp split: if_split_asm option.split_asm vm_out.split_asm) (auto split: if_split_asm)

lemma vm_steps_ok: "vm_steps slp b v v' \<Longrightarrow> vm_ok b v \<Longrightarrow> vm_ok b v'"
  by (induction rule: vm_steps.induct) (auto intro: vm_step_ok)

lemma vm_step_undef:
  assumes "vm_step slp b v = Undef"
  shows "b ! vp v = TCC_OP_PUTS \<and> 0 \<notin> set (drop (vp v + 3) b) \<or>
    b ! vp v \<in> {TCC_OP_PUSH_VAR, TCC_OP_STORE_VAR} \<and> 32 \<le> unat (b ! (vp v + 1))"
  using assms unfolding vm_step_def vm_puts_def with_read_fetch tcc_push_def Let_def TCC_MAX_VARS_def
  by (simp add: numeral_3_eq_3 split: if_split_asm option.split_asm vm_out.split_asm)



end
