(* ===== verification/TinyExpr.thy ===== *)
theory TinyExpr
  imports TinyEval Tinycc
begin

text \<open>
  The tiny C compiler is correct on expressions: the parser of \<^verbatim>\<open>src/tinycc.c\<close>, run on the text of
  an expression, compiles exactly the code \<open>gen\<close> of \<open>TinyEval\<close>, whose execution computes the value
  of the expression. The text of an operand is put in parentheses.
\<close>

subsection \<open>Text\<close>

fun digits :: "nat \<Rightarrow> string" where
  "digits n = (if n < 10 then [char_of (48 + n)] else digits (n div 10) @ [char_of (48 + n mod 10)])"

declare digits.simps [simp del]

definition op_text :: "u8 \<Rightarrow> string" where
  "op_text op = (if op = TCC_OP_ADD then ''+'' else if op = TCC_OP_SUB then ''-'' else if op = TCC_OP_MUL then ''*''
     else if op = TCC_OP_DIV then ''/'' else if op = TCC_OP_MOD then ''%'' else if op = TCC_OP_LT then ''<''
     else if op = TCC_OP_LE then ''<='' else if op = TCC_OP_GT then ''>'' else if op = TCC_OP_GE then ''>=''
     else if op = TCC_OP_EQ then ''=='' else if op = TCC_OP_NE then ''!='' else if op = TCC_OP_NOT then ''!''
     else ''-'')"

definition paren :: "string \<Rightarrow> string" where
  "paren s = ''('' @ s @ '')''"

fun show_expr :: "expr \<Rightarrow> string" where
  "show_expr (Num n) = digits n"
| "show_expr (Var x) = x"
| "show_expr (Unary op e) = op_text op @ paren (show_expr e)"
| "show_expr (Bin op a b) = paren (show_expr a) @ op_text op @ paren (show_expr b)"
| "show_expr (And a b) = paren (show_expr a) @ ''&&'' @ paren (show_expr b)"
| "show_expr (Or a b) = paren (show_expr a) @ ''||'' @ paren (show_expr b)"
| "show_expr (Assign x e) = x @ ''='' @ show_expr e"
| "show_expr (AssignOp op x e) = x @ op_text op @ ''='' @ show_expr e"
| "show_expr (Pre op x) = op_text op @ op_text op @ x"
| "show_expr (Post op x) = x @ op_text op @ op_text op"

subsection \<open>Scanning text that starts with a token\<close>

text \<open>No white space and no comment at the front.\<close>

definition solid :: "string \<Rightarrow> bool" where
  "solid s \<longleftrightarrow> \<not> is_space (chd s) \<and> \<not> (chd s = CHR ''/'' \<and> chd (tl s) \<in> {CHR ''/'', CHR ''*''})"

lemma solid_skip: "solid s \<Longrightarrow> skip_ws_and_comments s = s"
  by (subst skip_ws_and_comments.simps, cases s) (auto simp: solid_def Let_def)

lemma take_cstr_eq:
  assumes "NUL \<notin> set tok"
  shows "take (length tok) (cstr s) = tok \<longleftrightarrow> take (length tok) s = tok"
  using assms
proof (induction tok arbitrary: s)
  case (Cons c tok)
  then show ?case by (cases s) (auto simp: cstr_Cons)
qed simp

lemma match_str_solid:
  assumes "solid s" "NUL \<notin> set tok"
  shows "match_str s tok = (if take (length tok) s = tok then (True, drop (length tok) s) else (False, s))"
proof -
  have "cstr tok = tok" using assms(2) by (simp add: cstr_no_nul)
  then show ?thesis
    using assms take_cstr_eq [OF assms(2), of s]
    by (simp add: match_str_def Let_def k_strncmp_eq_0_iff k_strlen_eq solid_skip)
qed

lemma expect_char_solid: "solid s \<Longrightarrow> expect_char s want = (if chd s = want then (True, tl s) else (False, s))"
  by (simp add: expect_char_def Let_def solid_skip)

lemma solid_chars [simp]:
  "solid []" "solid (c # s) \<longleftrightarrow> \<not> is_space c \<and> (c = CHR ''/'' \<longrightarrow> chd s \<noteq> CHR ''/'' \<and> chd s \<noteq> CHR ''*'')"
  by (auto simp: solid_def is_space_def)

text \<open>Numbers and identifiers.\<close>

lemma ident_loop_append:
  assumes "\<forall>c \<in> set x. is_ident_char c" "length x < room" "\<not> is_ident_char (chd t)"
  shows "ident_loop room (x @ t) = (x, t)"
  using assms
proof (induction x arbitrary: room)
  case Nil
  then show ?case by (cases room) auto
next
  case (Cons c x)
  then obtain k where "room = Suc k" by (cases room) auto
  with Cons show ?case by auto
qed

definition ident :: "string \<Rightarrow> bool" where
  "ident x \<longleftrightarrow> x \<noteq> [] \<and> is_ident_start (chd x) \<and> (\<forall>c \<in> set x. is_ident_char c) \<and> length x < 31"

lemma ident_start_char:
  "is_ident_start c \<Longrightarrow> \<not> is_space c \<and> c \<notin> set ''/+-!(=*<>&|%0123456789;){},'' \<and> c \<noteq> NUL \<and> c \<noteq> CHR 0x27 \<and> c \<noteq> CHR ''#'' \<and> \<not> is_digit c"
  by (auto simp: is_ident_start_def is_space_def is_digit_def less_eq_char_def)

lemma parse_identifier_ident:
  assumes "ident x" "\<not> is_ident_char (chd t)"
  shows "parse_identifier (x @ t) TCC_VAR_NAME_MAX = (Some x, t)"
proof -
  obtain c x' where x: "x = c # x'" using assms(1) by (cases x) (auto simp: ident_def)
  have "solid (x @ t)" using assms(1) ident_start_char [of c] x by (auto simp: ident_def)
  moreover have "ident_loop 31 (x @ t) = (x, t)"
    using assms by (intro ident_loop_append) (auto simp: ident_def)
  ultimately show ?thesis
    using assms x by (simp add: parse_identifier_def solid_skip Let_def ident_def TCC_VAR_NAME_MAX_def)
qed

lemma parse_identifier_none: "solid s \<Longrightarrow> \<not> is_ident_start (chd s) \<Longrightarrow> parse_identifier s n = (None, s)"
  by (simp add: parse_identifier_def Let_def solid_skip)

lemma is_digit_char: "d < 10 \<Longrightarrow> is_digit (char_of (48 + d)) \<and> (of_char (char_of (48 + d) :: char) :: nat) = 48 + d"
  by (auto simp: is_digit_def less_eq_char_def of_char_of)

lemma digits_loop_append:
  "digits_loop v (digits n @ t) = digits_loop (v * 10 ^ length (digits n) + of_nat n) t"
proof (induction n arbitrary: v t rule: digits.induct)
  case (1 n)
  show ?case
  proof (cases "n < 10")
    case True
    then show ?thesis using is_digit_char [of n] by (simp add: digits.simps [of n])
  next
    case False
    have "digits_loop v (digits n @ t) = digits_loop (v * 10 ^ length (digits (n div 10)) + of_nat (n div 10)) (char_of (48 + n mod 10) # t)"
      using False 1 [OF False] by (simp add: digits.simps [of n])
    moreover have "(of_nat n :: s32) = of_nat (n mod 10) + 10 * of_nat (n div 10)"
      by (metis mod_mult_div_eq of_nat_add of_nat_mult of_nat_numeral)
    ultimately show ?thesis using False is_digit_char [of "n mod 10"]
      by (simp add: digits.simps [of n] algebra_simps)
  qed
qed

lemma digits_start: "\<exists>c s. digits n = c # s \<and> is_digit c"
proof (induction n rule: digits.induct)
  case (1 n)
  then show ?case using is_digit_char [of n] by (cases "n < 10") (auto simp: digits.simps [of n])
qed

lemma digit_char:
  "is_digit c \<Longrightarrow> \<not> is_space c \<and> c \<notin> set ''/+-!(=*<>&|%;{}'' \<and> c \<noteq> CHR 0x27 \<and> \<not> is_ident_start c"
  by (auto simp: is_ident_start_def is_space_def is_digit_def less_eq_char_def)

lemma parse_number_digits:
  assumes "\<not> is_digit (chd t)"
  shows "parse_number (digits n @ t) = (Some (of_nat n), t)"
proof -
  obtain c s where d: "digits n = c # s" "is_digit c" using digits_start by blast
  have "digits_loop 0 (digits n @ t) = (of_nat n, t)"
    using assms by (subst digits_loop_append, cases t) auto
  then show ?thesis
    using d digit_char [of c] by (auto simp: parse_number_def Let_def solid_skip)
qed

subsection \<open>Appending code\<close>

fun add_code :: "instr list \<Rightarrow> tinycc_compile_t \<Rightarrow> tinycc_compile_t" where
  "add_code [] c = c"
| "add_code (i # is) c = add_code is (add_instr i c)"

lemma add_code_append: "add_code (is @ js) c = add_code js (add_code is c)"
  by (induction "is" arbitrary: c) auto

text \<open>The compiler can write \<open>n\<close> more bytes.\<close>

definition room :: "nat \<Rightarrow> tinycc_compile_t \<Rightarrow> bool" where
  "room n c \<longleftrightarrow> cap c = length (out c) \<and> 8 \<le> pos c \<and> pos c + n \<le> cap c"

lemma room_2 [simp]: "room (Suc (Suc 0)) c = room 2 c"
  by (simp add: numeral_2_eq_2)

lemma room_less: "room n c \<Longrightarrow> m \<le> n \<Longrightarrow> room m c"
  by (simp add: room_def)

lemma room_add_instr: "room (length (enc i) + n) c \<Longrightarrow> room n (add_instr i c)"
  by (simp add: room_def add_instr_def)

lemma room_add_code: "room (length (flat is) + n) c \<Longrightarrow> room n (add_code is c)"
  by (induction "is" arbitrary: c) (auto simp: add.assoc intro: room_add_instr)

lemma pos_add_instr [simp]: "pos (add_instr i c) = pos c + length (enc i)"
  by (simp add: add_instr_def)

lemma pos_add_code [simp]: "pos (add_code is c) = pos c + length (flat is)"
  by (induction "is" arbitrary: c) simp_all

lemma vars_add_code [simp]: "vars (add_code is c) = vars c" "var (add_code is c) = var c"
  by (induction "is" arbitrary: c) (simp_all add: add_instr_def)

lemma find_var_add_code [simp]: "find_var (add_code is c) x = find_var c x"
  by (simp add: find_var_def)

lemma add_code_eq:
  assumes "room (length (flat is)) c"
  shows "add_code is c = c\<lparr>out := put_bytes (out c) (pos c) (flat is), pos := pos c + length (flat is),
    count := count c + of_nat (length is)\<rparr>"
  using assms
proof (induction "is" arbitrary: c)
  case (Cons i "is")
  then show ?case
    by (simp add: room_add_instr, simp add: add_instr_def room_def put_bytes_append add.assoc)
qed simp

lemma emit_simps [simp]:
  "room 1 c \<Longrightarrow> emit_op c op = Some (add_instr (Plain op) c)"
  "room 5 c \<Longrightarrow> emit_push_const c val = Some (add_instr (Const val) c)"
  "room 2 c \<Longrightarrow> emit_push_var c slot = Some (add_instr (VarI TCC_OP_PUSH_VAR slot) c)"
  "room 2 c \<Longrightarrow> emit_store_var c slot = Some (add_instr (VarI TCC_OP_STORE_VAR slot) c)"
  "room 5 c \<Longrightarrow> emit_jump c op = Some (pos c + 1, add_instr (Jump op 0) c)"
  by (simp_all add: emit_op_eq emit_instr_eq emit_jump_eq room_def try_add_def)

lemma patch_code:
  assumes "room (length (flat (a @ Jump op t # b))) c" "p = pos c + length (flat a) + 1"
  shows "patch_u32 (add_code (a @ Jump op t # b) c) p target = add_code (a @ Jump op target # b) c"
proof -
  let ?xs = "flat a @ [op]"
  have r: "room (length (flat (a @ Jump op target # b))) c" using assms(1) by simp
  have len: "pos c + length (?xs @ le32 t @ flat b) \<le> length (out c)" using assms(1) by (simp add: room_def)
  have p: "p = pos c + length ?xs" using assms(2) by simp
  have "write_u32 (put_bytes (out c) (pos c) (?xs @ le32 t @ flat b)) p target =
      put_bytes (put_bytes (out c) (pos c) (?xs @ le32 t @ flat b)) p (le32 target)"
    using len p by (intro write_u32_eq_put_bytes) simp
  also have "\<dots> = put_bytes (out c) (pos c) (?xs @ le32 target @ flat b)"
    using len p by (simp add: put_bytes_def)
  finally show ?thesis
    unfolding add_code_eq [OF assms(1)] add_code_eq [OF r] by (simp add: patch_u32_def)
qed

lemma code_pos_nat: "8 \<le> pos c \<Longrightarrow> code_pos c = of_nat (pos c - 8)"
  by (simp add: code_pos_def of_nat_diff)

lemma add_instr_code: "add_instr i (add_code is c) = add_code (is @ [i]) c"
  by (simp add: add_code_append)

text \<open>The short-circuit operators, whose jumps are patched once their targets are known.\<close>

lemma and_tail_code:
  assumes "room (length (flat (a @ Jump TCC_OP_JZ 0 # b)) + 20) c" "rp = pos c + length (flat a) + 1"
    "f = pos c - 8 + length (flat a) + 5 + length (flat b) + 15"
  shows "and_tail rp (add_code (a @ Jump TCC_OP_JZ 0 # b) c) =
    Some (add_code (a @ Jump TCC_OP_JZ (of_nat f) # b @
      [Jump TCC_OP_JZ (of_nat f), Const 1, Jump TCC_OP_JMP (of_nat (f + 5)), Const 0]) c)"
proof -
  let ?J = "Jump TCC_OP_JZ (of_nat f)"
  let ?x0 = "a @ Jump TCC_OP_JZ 0 # b" and ?y0 = "a @ ?J # b"
  let ?tl = "[Jump TCC_OP_JZ 0, Const 1, Jump TCC_OP_JMP 0]"
  have len: "length (flat ?x0) = length (flat a) + 5 + length (flat b)" "length (flat ?y0) = length (flat ?x0)" by simp_all
  have rm: "room 5 (add_code xs c)" if "length (flat xs) \<le> length (flat ?x0) + 15" for xs
    using assms(1) that by (auto intro!: room_add_code elim!: room_less)
  have rn: "room n c" if "n \<le> length (flat ?x0) + 20" for n
    by (rule room_less [OF assms(1) that])
  have pos8: "8 \<le> pos c" using assms(1) by (simp add: room_def)
  have cp: "code_pos (add_code xs c) = of_nat n" if "n = pos c - 8 + length (flat xs)" for xs n
    using pos8 that by (simp add: code_pos_nat)
  have 1: "patch_u32 (add_code (a @ Jump TCC_OP_JZ 0 # b @ ?tl) c) rp (of_nat f) = add_code (a @ ?J # b @ ?tl) c"
    by (rule patch_code) (use assms(2) in \<open>auto intro!: rn\<close>)
  have 2: "patch_u32 (add_code (?y0 @ ?tl) c) (pos c + length (flat ?x0) + 1) (of_nat f) =
      add_code (?y0 @ [?J, Const 1, Jump TCC_OP_JMP 0]) c"
    by (rule patch_code) (auto intro!: rn)
  have 3: "patch_u32 (add_code ((?y0 @ [?J, Const 1]) @ Jump TCC_OP_JMP 0 # [Const 0]) c) (pos c + length (flat ?x0) + 11) (of_nat (f + 5)) =
      add_code ((?y0 @ [?J, Const 1]) @ Jump TCC_OP_JMP (of_nat (f + 5)) # [Const 0]) c"
    by (rule patch_code) (auto intro!: rn)
  have f: "code_pos (add_code (a @ Jump TCC_OP_JZ 0 # b @ ?tl) c) = of_nat f" "code_pos (add_code (a @ ?J # b @ ?tl) c) = of_nat f"
    "code_pos (add_code (?y0 @ [?J, Const 1, Jump TCC_OP_JMP 0, Const 0]) c) = of_nat (f + 5)"
    by (rule cp, use assms(3) in simp)+
  show ?thesis
    using 1 2 3 f rm [of ?x0] rm [of "?x0 @ [Jump TCC_OP_JZ 0]"] rm [of "?x0 @ [Jump TCC_OP_JZ 0, Const 1]"]
      rm [of "?y0 @ [?J, Const 1, Jump TCC_OP_JMP 0]"]
    by (simp add: and_tail_def Let_def add_instr_code del: of_nat_add)
qed

lemma or_head_code:
  assumes "room (length (flat a) + 15) c" "q = pos c - 8 + length (flat a) + 15"
  shows "or_head (add_code a c) =
    Some (pos c + length (flat a) + 11, add_code (a @ [Jump TCC_OP_JZ (of_nat q), Const 1, Jump TCC_OP_JMP 0]) c)"
proof -
  have rm: "room 5 (add_code xs c)" if "length (flat xs) \<le> length (flat a) + 10" for xs
    using assms(1) that by (auto intro!: room_add_code elim!: room_less)
  have pos8: "8 \<le> pos c" using assms(1) by (simp add: room_def)
  have 1: "patch_u32 (add_code (a @ Jump TCC_OP_JZ 0 # [Const 1, Jump TCC_OP_JMP 0]) c) (pos c + length (flat a) + 1) (of_nat q) =
      add_code (a @ Jump TCC_OP_JZ (of_nat q) # [Const 1, Jump TCC_OP_JMP 0]) c"
    by (rule patch_code) (use assms(1) in \<open>auto elim: room_less\<close>)
  have cp: "code_pos (add_code (a @ [Jump TCC_OP_JZ 0, Const 1, Jump TCC_OP_JMP 0]) c) = of_nat q"
    unfolding assms(2) using pos8 by (simp add: code_pos_nat)
  show ?thesis
    using 1 cp rm [of a] rm [of "a @ [Jump TCC_OP_JZ 0]"] rm [of "a @ [Jump TCC_OP_JZ 0, Const 1]"]
    by (simp add: or_head_def add_instr_code)
qed

lemma or_tail_code:
  assumes "room (length (flat (a @ Jump TCC_OP_JMP 0 # b)) + 20) c" "lp = pos c + length (flat a) + 1"
    "f = pos c - 8 + length (flat a) + 5 + length (flat b) + 15"
  shows "or_tail lp (add_code (a @ Jump TCC_OP_JMP 0 # b) c) =
    Some (add_code (a @ Jump TCC_OP_JMP (of_nat (f + 5)) # b @
      [Jump TCC_OP_JZ (of_nat f), Const 1, Jump TCC_OP_JMP (of_nat (f + 5)), Const 0]) c)"
proof -
  let ?F = "Jump TCC_OP_JZ (of_nat f)" and ?E = "Jump TCC_OP_JMP (of_nat (f + 5))"
  let ?x0 = "a @ Jump TCC_OP_JMP 0 # b" and ?y0 = "a @ ?E # b"
  have len: "length (flat ?x0) = length (flat a) + 5 + length (flat b)" "length (flat ?y0) = length (flat ?x0)" by simp_all
  have rm: "room 5 (add_code xs c)" if "length (flat xs) \<le> length (flat ?x0) + 15" for xs
    using assms(1) that by (auto intro!: room_add_code elim!: room_less)
  have rn: "room n c" if "n \<le> length (flat ?x0) + 20" for n
    by (rule room_less [OF assms(1) that])
  have pos8: "8 \<le> pos c" using assms(1) by (simp add: room_def)
  have cp: "code_pos (add_code xs c) = of_nat n" if "n = pos c - 8 + length (flat xs)" for xs n
    using pos8 that by (simp add: code_pos_nat)
  have 1: "patch_u32 (add_code (?x0 @ Jump TCC_OP_JZ 0 # [Const 1, Jump TCC_OP_JMP 0]) c) (pos c + length (flat ?x0) + 1) (of_nat f) =
      add_code (?x0 @ ?F # [Const 1, Jump TCC_OP_JMP 0]) c"
    by (rule patch_code) (auto intro!: rn)
  have 2: "patch_u32 (add_code (a @ Jump TCC_OP_JMP 0 # b @ [?F, Const 1, Jump TCC_OP_JMP 0, Const 0]) c) lp (of_nat (f + 5)) =
      add_code (a @ ?E # b @ [?F, Const 1, Jump TCC_OP_JMP 0, Const 0]) c"
    by (rule patch_code) (use assms(2) in \<open>auto intro!: rn\<close>)
  have 3: "patch_u32 (add_code ((?y0 @ [?F, Const 1]) @ Jump TCC_OP_JMP 0 # [Const 0]) c) (pos c + length (flat ?x0) + 11) (of_nat (f + 5)) =
      add_code ((?y0 @ [?F, Const 1]) @ ?E # [Const 0]) c"
    by (rule patch_code) (auto intro!: rn)
  have f: "code_pos (add_code (?x0 @ [Jump TCC_OP_JZ 0, Const 1, Jump TCC_OP_JMP 0]) c) = of_nat f"
    "code_pos (add_code (a @ Jump TCC_OP_JMP 0 # b @ [?F, Const 1, Jump TCC_OP_JMP 0, Const 0]) c) = of_nat (f + 5)"
    "code_pos (add_code (a @ ?E # b @ [?F, Const 1, Jump TCC_OP_JMP 0, Const 0]) c) = of_nat (f + 5)"
    by (rule cp, use assms(3) in simp)+
  show ?thesis
    using 1 2 3 f rm [of ?x0] rm [of "?x0 @ [Jump TCC_OP_JZ 0]"] rm [of "?x0 @ [Jump TCC_OP_JZ 0, Const 1]"]
      rm [of "?x0 @ [?F, Const 1, Jump TCC_OP_JMP 0]"]
    by (simp add: or_tail_def Let_def add_instr_code del: of_nat_add)
qed

subsection \<open>What a parser compiles\<close>

definition knows :: "(string \<Rightarrow> nat) \<Rightarrow> string set \<Rightarrow> tinycc_compile_t \<Rightarrow> bool" where
  "knows sl V c \<longleftrightarrow> (\<forall>x \<in> V. ident x \<and> find_var c x = Some (sl x))"

lemma knows_add_code [simp]: "knows sl V (add_code is c) = knows sl V c"
  by (simp add: knows_def)

text \<open>
  Parser \<open>p\<close> turns the text \<open>u\<close>, followed by any text with property \<open>T\<close>, into the code \<open>g q\<close>,
  where \<open>q\<close> is the offset of the code.
\<close>

definition compiles ::
  "(string \<Rightarrow> nat) \<Rightarrow> string set \<Rightarrow> (string \<Rightarrow> bool) \<Rightarrow> parser \<Rightarrow> string \<Rightarrow> (nat \<Rightarrow> instr list) \<Rightarrow> bool"
where
  "compiles sl V T p u g \<longleftrightarrow> (\<forall>c t r. room (length (flat (g (pos c - 8)))) c \<longrightarrow> knows sl V c \<longrightarrow> T t \<longrightarrow>
     p (c, u @ t, r) = Ok (add_code (g (pos c - 8)) c, t, r))"

lemma compilesI:
  "(\<And>c t r. room (length (flat (g (pos c - 8)))) c \<Longrightarrow> knows sl V c \<Longrightarrow> T t \<Longrightarrow>
     p (c, u @ t, r) = Ok (add_code (g (pos c - 8)) c, t, r)) \<Longrightarrow> compiles sl V T p u g"
  by (simp add: compiles_def)

lemma compilesD:
  "compiles sl V T p u g \<Longrightarrow> room (length (flat (g (pos c - 8)))) c \<Longrightarrow> knows sl V c \<Longrightarrow> T t \<Longrightarrow>
     p (c, u @ t, r) = Ok (add_code (g (pos c - 8)) c, t, r)"
  by (simp add: compiles_def)

lemma compiles_weaken: "compiles sl V T p u g \<Longrightarrow> (\<And>t. T' t \<Longrightarrow> T t) \<Longrightarrow> compiles sl V T' p u g"
  by (auto simp: compiles_def)

text \<open>A parser that runs on a context with code \<open>is\<close> already appended.\<close>

lemma compiles_after:
  assumes "compiles sl V T p u g" "knows sl V c" "T t" "8 \<le> pos c" "q = pos c - 8 + length (flat is)"
    "room (length (flat is) + length (flat (g q))) c"
  shows "p (add_code is c, u @ t, r) = Ok (add_code (is @ g q) c, t, r)"
proof -
  have "pos (add_code is c) - 8 = q" using assms(4,5) by simp
  then show ?thesis
    using compilesD [OF assms(1), of "add_code is c" t r] assms(2,3) room_add_code [OF assms(6)]
    by (simp add: add_code_append)
qed

subsection \<open>The levels of operators\<close>

definition op_table :: "nat \<Rightarrow> (string \<times> u8) list" where
  "op_table k = (if k = 0 then [(''*'', TCC_OP_MUL), (''/'', TCC_OP_DIV), (''%'', TCC_OP_MOD)]
     else if k = 1 then [(''+'', TCC_OP_ADD), (''-'', TCC_OP_SUB)]
     else if k = 2 then [(''<='', TCC_OP_LE), (''>='', TCC_OP_GE), (''<'', TCC_OP_LT), (''>'', TCC_OP_GT)]
     else [(''=='', TCC_OP_EQ), (''!='', TCC_OP_NE)])"

fun level :: "nat \<Rightarrow> parser \<Rightarrow> nat \<Rightarrow> parser" where
  "level 0 pe n = parse_unary pe n"
| "level (Suc k) pe n = seqp [level k pe n, binop_loop (op_table k) (level k pe n) n]"

lemma parse_equality_level: "parse_equality pe n = level 4 pe n"
  by (simp add: parse_equality_def parse_relational_def parse_additive_def parse_multiplicative_def
      op_table_def numeral_eq_Suc)

text \<open>No operator of the first \<open>k\<close> levels follows.\<close>

definition quiet :: "nat \<Rightarrow> string \<Rightarrow> bool" where
  "quiet k t \<longleftrightarrow> (\<forall>j < k. match_ops (op_table j) t = (None, t))"

lemma quiet_0 [simp]: "quiet 0 t"
  by (simp add: quiet_def)

lemma quiet_Suc: "quiet (Suc k) t \<longleftrightarrow> quiet k t \<and> match_ops (op_table k) t = (None, t)"
  by (auto simp: quiet_def less_Suc_eq)

lemma level_pass_Suc:
  assumes "compiles sl V T (level k pe (Suc n)) u g" "\<And>t. T t \<Longrightarrow> quiet (Suc k) t"
  shows "compiles sl V T (level (Suc k) pe (Suc n)) u g"
proof (rule compilesI)
  fix c t r assume a: "room (length (flat (g (pos c - 8)))) c" "knows sl V c" "T t"
  then show "level (Suc k) pe (Suc n) (c, u @ t, r) = Ok (add_code (g (pos c - 8)) c, t, r)"
    using compilesD [OF assms(1) a] assms(2) [OF a(3)] by (simp add: quiet_Suc)
qed

lemma level_pass:
  assumes "compiles sl V T (level j pe (Suc n)) u g" "\<And>t. T t \<Longrightarrow> quiet k t" "j \<le> k"
  shows "compiles sl V T (level k pe (Suc n)) u g"
  using assms(3,2)
proof (induction k rule: dec_induct)
  case base
  show ?case by (rule assms(1))
next
  case (step k)
  have "quiet k t" if "T t" for t using step.prems [OF that] by (simp add: quiet_Suc)
  from level_pass_Suc [OF step.IH [OF this] step.prems] show ?case .
qed

lemma level_op:
  assumes p: "compiles sl V (quiet k) (level k pe (Suc (Suc n))) u1 g1" "compiles sl V (quiet k) (level k pe (Suc (Suc n))) u2 g2"
    and tok: "\<And>t. match_ops (op_table k) (tok @ u2 @ t) = (Some op, u2 @ t)" "\<And>t. quiet k (tok @ u2 @ t)"
  shows "compiles sl V (quiet (Suc k)) (level (Suc k) pe (Suc (Suc n))) (u1 @ tok @ u2)
    (\<lambda>q. g1 q @ g2 (q + length (flat (g1 q))) @ [Plain op])"
proof (rule compilesI)
  fix c :: tinycc_compile_t and t r
  let ?q = "pos c - 8" let ?g1 = "g1 ?q" let ?g2 = "g2 (?q + length (flat ?g1))"
  assume rm: "room (length (flat (?g1 @ ?g2 @ [Plain op]))) c" and kn: "knows sl V c" and t: "quiet (Suc k) t"
  have pos8: "8 \<le> pos c" using rm by (simp add: room_def)
  have 1: "level k pe (Suc (Suc n)) (c, u1 @ tok @ u2 @ t, r) = Ok (add_code ?g1 c, tok @ u2 @ t, r)"
    by (rule compilesD [OF p(1) _ kn tok(2)]) (use rm in \<open>auto elim: room_less\<close>)
  have 2: "level k pe (Suc (Suc n)) (add_code ?g1 c, u2 @ t, r) = Ok (add_code (?g1 @ ?g2) c, t, r)"
    by (rule compiles_after [OF p(2) kn _ pos8 refl]) (use rm t in \<open>auto simp: quiet_Suc elim: room_less\<close>)
  have "room 1 (add_code (?g1 @ ?g2) c)" by (rule room_add_code) (use rm in simp)
  then show "level (Suc k) pe (Suc (Suc n)) (c, (u1 @ tok @ u2) @ t, r) = Ok (add_code (?g1 @ ?g2 @ [Plain op]) c, t, r)"
    using 1 2 tok(1) t by (simp add: quiet_Suc add_instr_code)
qed

text \<open>What may follow a whole expression, and what follows an operand.\<close>

definition stop :: "string \<Rightarrow> bool" where
  "stop t \<longleftrightarrow> chd t \<in> {CHR '')'', CHR '';'', CHR '',''}"

lemma stop_cases: "stop t \<Longrightarrow> \<exists>c s. t = c # s \<and> c \<in> {CHR '')'', CHR '';'', CHR '',''}"
  by (cases t) (auto simp: stop_def)

lemma less4: "(j :: nat) < 4 \<longleftrightarrow> j = 0 \<or> j = 1 \<or> j = 2 \<or> j = 3"
  by auto

lemma stop_quiet: "stop t \<Longrightarrow> quiet 4 t"
  by (drule stop_cases) (auto simp: quiet_def less4 op_table_def match_str_solid is_space_def)

lemma stop_match: "stop t \<Longrightarrow> tok \<in> {''&&'', ''||'', ''++'', ''--'', ''=''} \<Longrightarrow> match_str t tok = (False, t)"
  by (drule stop_cases) (auto simp: match_str_solid is_space_def)

definition op_level :: "u8 \<Rightarrow> nat" where
  "op_level op = (if op \<in> {TCC_OP_MUL, TCC_OP_DIV, TCC_OP_MOD} then 0 else if op \<in> {TCC_OP_ADD, TCC_OP_SUB} then 1
     else if op \<in> {TCC_OP_EQ, TCC_OP_NE} then 3 else 2)"

lemma op_level_facts:
  assumes "op \<in> bin_ops"
  shows "op_level op < 4" "match_ops (op_table (op_level op)) (op_text op @ paren u @ t) = (Some op, paren u @ t)"
    "quiet (op_level op) (op_text op @ paren u @ t)"
proof -
  have 1: "quiet (Suc 0) s \<longleftrightarrow> match_ops (op_table 0) s = (None, s)"
    and 2: "quiet 2 s \<longleftrightarrow> quiet (Suc 0) s \<and> match_ops (op_table 1) s = (None, s)"
    and 3: "quiet 3 s \<longleftrightarrow> quiet 2 s \<and> match_ops (op_table 2) s = (None, s)" for s
    by (simp_all add: numeral_eq_Suc quiet_Suc)
  show "op_level op < 4" by (simp add: op_level_def)
  note simps = op_level_def op_table_def op_text_def paren_def match_str_solid is_space_def
  show "match_ops (op_table (op_level op)) (op_text op @ paren u @ t) = (Some op, paren u @ t)"
    using assms unfolding bin_ops_def arith_ops_def by (elim UnE insertE emptyE) (simp_all add: simps)
  show "quiet (op_level op) (op_text op @ paren u @ t)"
    using assms unfolding bin_ops_def arith_ops_def by (elim UnE insertE emptyE) (simp_all add: simps 1 2 3)
qed

lemma logical_quiet:
  "quiet 4 (''&&'' @ s)" "quiet 4 (''||'' @ s)" "match_str (''||'' @ s) ''&&'' = (False, ''||'' @ s)"
  "match_str (''&&'' @ s) ''&&'' = (True, s)" "match_str (''||'' @ s) ''||'' = (True, s)"
  by (auto simp: quiet_def less4 op_table_def match_str_solid is_space_def)

subsection \<open>Operands\<close>

lemma paren_unary:
  assumes "compiles sl V stop pe u g"
  shows "compiles sl V (\<lambda>t. True) (parse_unary pe (Suc n)) (paren u) g"
proof (rule compilesI)
  fix c :: tinycc_compile_t and t r assume a: "room (length (flat (g (pos c - 8)))) c" "knows sl V c"
  have "pe (c, u @ '')'' @ t, r) = Ok (add_code (g (pos c - 8)) c, '')'' @ t, r)"
    by (rule compilesD [OF assms a]) (simp add: stop_def)
  then show "parse_unary pe (Suc n) (c, paren u @ t, r) = Ok (add_code (g (pos c - 8)) c, t, r)"
    by (simp add: paren_def match_str_solid expect_char_solid parse_identifier_none is_space_def solid_skip is_ident_start_def)
qed

lemma match_str_head:
  assumes "solid s" "chd s \<noteq> chd tok" "tok \<noteq> []" "NUL \<notin> set tok"
  shows "match_str s tok = (False, s)"
  using assms by (cases s; cases tok) (auto simp: match_str_solid)

lemma unary_postfix:
  assumes "solid s" "chd s \<notin> {CHR ''+'', CHR ''-'', CHR ''!''}"
  shows "parse_unary pe (Suc n) (c, s, r) = parse_postfix pe (c, s, r)"
  using assms by (simp add: match_str_head)

lemma unary_Num: "compiles sl V stop (parse_unary pe (Suc n)) (digits k) (\<lambda>q. [Const (of_nat k)])"
proof (rule compilesI)
  fix c :: tinycc_compile_t and t r assume rm: "room (length (flat [Const (of_nat k)])) c" and t: "stop t"
  obtain d s where d: "digits k = d # s" "is_digit d" using digits_start by blast
  note dc = digit_char [OF d(2)]
  have sol: "solid (digits k @ t)" using d dc by auto
  have ndig: "\<not> is_digit (chd t)" using stop_cases [OF t] by (auto simp: is_digit_def less_eq_char_def)
  have "parse_unary pe (Suc n) (c, digits k @ t, r) = parse_postfix pe (c, digits k @ t, r)"
    by (rule unary_postfix [OF sol]) (use d dc in auto)
  also have "\<dots> = parse_primary pe (c, digits k @ t, r)"
    using sol d dc by (simp add: parse_identifier_none)
  also have "\<dots> = Ok (add_code [Const (of_nat k)] c, t, r)"
    using sol d dc parse_number_digits [OF ndig, of k] rm
    by (auto simp: solid_skip expect_char_solid parse_c_char_def Let_def)
  finally show "parse_unary pe (Suc n) (c, digits k @ t, r) = Ok (add_code [Const (of_nat k)] c, t, r)" .
qed

lemma ident_facts:
  assumes "ident x"
  shows "solid (x @ t)" "chd (x @ t) \<notin> set ''/+-!(=*<>&|%0123456789;){},''" "is_ident_start (chd (x @ t))"
  using assms ident_start_char [of "chd x"] by (cases x; auto simp: ident_def)+

lemma stop_not_ident: "stop t \<Longrightarrow> \<not> is_ident_char (chd t)"
  by (drule stop_cases) (auto simp: is_ident_char_def is_ident_start_def is_digit_def less_eq_char_def)

lemma knowsD: "knows sl V c \<Longrightarrow> x \<in> V \<Longrightarrow> find_var c x = Some (sl x)" "knows sl V c \<Longrightarrow> x \<in> V \<Longrightarrow> ident x"
  by (auto simp: knows_def)

lemma unary_Var:
  assumes "x \<in> V"
  shows "compiles sl V stop (parse_unary pe (Suc n)) x (\<lambda>q. [VarI TCC_OP_PUSH_VAR (sl x)])"
proof (rule compilesI)
  fix c :: tinycc_compile_t and t r
  assume rm: "room (length (flat [VarI TCC_OP_PUSH_VAR (sl x)])) c" and k: "knows sl V c" and t: "stop t"
  note x = knowsD [OF k assms]
  have "parse_unary pe (Suc n) (c, x @ t, r) = parse_postfix pe (c, x @ t, r)"
    by (rule unary_postfix) (use ident_facts [OF x(2), of t] in auto)
  also have "\<dots> = Ok (add_code [VarI TCC_OP_PUSH_VAR (sl x)] c, t, r)"
    using parse_identifier_ident [OF x(2) stop_not_ident [OF t]] x(1) rm stop_match [OF t] by simp
  finally show "parse_unary pe (Suc n) (c, x @ t, r) = Ok (add_code [VarI TCC_OP_PUSH_VAR (sl x)] c, t, r)" .
qed

lemma unary_Pre:
  assumes "x \<in> V" "op \<in> {TCC_OP_ADD, TCC_OP_SUB}"
  shows "compiles sl V stop (parse_unary pe (Suc n)) (op_text op @ op_text op @ x) (\<lambda>q. gen sl q (Pre op x))"
proof (rule compilesI)
  fix c :: tinycc_compile_t and t r
  assume rm: "room (length (flat (gen sl (pos c - 8) (Pre op x)))) c" and k: "knows sl V c" and t: "stop t"
  note x = knowsD [OF k assms(1)]
  let ?a = "[VarI TCC_OP_PUSH_VAR (sl x)]" and ?b = "[VarI TCC_OP_PUSH_VAR (sl x), Const 1]"
  have r: "room 2 c" "room 5 (add_code ?a c)" "room 1 (add_code ?b c)" "room 1 (add_code (?b @ [Plain op]) c)"
    "room 2 (add_code (?b @ [Plain op, Plain TCC_OP_DUP]) c)"
    using rm by (auto intro!: room_add_instr elim!: room_less)
  have "pre_step op (c, x @ t, r) = Ok (add_code (gen sl (pos c - 8) (Pre op x)) c, t, r)"
    using parse_identifier_ident [OF x(2) stop_not_ident [OF t]] x(1) r by simp
  then show "parse_unary pe (Suc n) (c, (op_text op @ op_text op @ x) @ t, r) = Ok (add_code (gen sl (pos c - 8) (Pre op x)) c, t, r)"
    using assms(2) by (elim insertE emptyE) (simp_all add: op_text_def match_str_solid is_space_def del: pre_step.simps gen.simps)
qed

lemma unary_Post:
  assumes "x \<in> V" "op \<in> {TCC_OP_ADD, TCC_OP_SUB}"
  shows "compiles sl V stop (parse_unary pe (Suc n)) (x @ op_text op @ op_text op) (\<lambda>q. gen sl q (Post op x))"
proof (rule compilesI)
  fix c :: tinycc_compile_t and t r
  assume rm: "room (length (flat (gen sl (pos c - 8) (Post op x)))) c" and k: "knows sl V c" and t: "stop t"
  note x = knowsD [OF k assms(1)]
  let ?s = "op_text op @ op_text op @ t"
  let ?b = "[VarI TCC_OP_PUSH_VAR (sl x), Plain TCC_OP_DUP]"
  have r: "room 2 c" "room 1 (add_code [VarI TCC_OP_PUSH_VAR (sl x)] c)" "room 5 (add_code ?b c)" "room 1 (add_code (?b @ [Const 1]) c)"
    "room 2 (add_code (?b @ [Const 1, Plain op]) c)"
    using rm by (auto intro!: room_add_instr elim!: room_less)
  have n: "\<not> is_ident_char (chd ?s)"
    using assms(2) by (auto simp: op_text_def is_ident_char_def is_ident_start_def is_digit_def less_eq_char_def)
  have ps: "post_step op (sl x) (c, t, r) = Ok (add_code (gen sl (pos c - 8) (Post op x)) c, t, r)"
    using r by (simp add: post_step_def)
  have "parse_unary pe (Suc n) (c, x @ ?s, r) = parse_postfix pe (c, x @ ?s, r)"
    by (rule unary_postfix) (use ident_facts [OF x(2), of ?s] in auto)
  also have "\<dots> = Ok (add_code (gen sl (pos c - 8) (Post op x)) c, t, r)"
    using assms(2) parse_identifier_ident [OF x(2) n] x(1) ps
    by (elim insertE emptyE) (simp_all add: op_text_def match_str_solid is_space_def del: gen.simps)
  finally show "parse_unary pe (Suc n) (c, (x @ op_text op @ op_text op) @ t, r) = Ok (add_code (gen sl (pos c - 8) (Post op x)) c, t, r)"
    by simp
qed

lemma unary_Unary:
  assumes "compiles sl V stop pe (show_expr e) (\<lambda>q. gen sl q e)" "op \<in> {TCC_OP_NEG, TCC_OP_NOT}"
  shows "compiles sl V stop (parse_unary pe (Suc (Suc n))) (show_expr (Unary op e)) (\<lambda>q. gen sl q (Unary op e))"
proof (rule compilesI)
  fix c :: tinycc_compile_t and t r
  let ?g = "gen sl (pos c - 8) e"
  assume rm: "room (length (flat (gen sl (pos c - 8) (Unary op e)))) c" and k: "knows sl V c"
  have 1: "parse_unary pe (Suc n) (c, paren (show_expr e) @ t, r) = Ok (add_code ?g c, t, r)"
    by (rule compilesD [OF paren_unary [OF assms(1)] _ k]) (use rm in \<open>auto elim: room_less\<close>)
  have 2: "room 1 (add_code ?g c)" using rm by (auto intro!: room_add_code)
  have "parse_unary pe (Suc (Suc n)) (c, show_expr (Unary op e) @ t, r) =
      thn (parse_unary pe (Suc n) (c, paren (show_expr e) @ t, r)) (seqp [eop op])"
  proof (cases "op = TCC_OP_NOT")
    case True
    then show ?thesis
      by (simp add: op_text_def paren_def match_str_solid is_space_def parse_unary.simps(2) [of pe "Suc n" c] del: parse_unary.simps(2))
  next
    case False
    then have "op = TCC_OP_NEG" using assms(2) by simp
    then show ?thesis
      by (simp add: op_text_def paren_def match_str_solid is_space_def parse_unary.simps(2) [of pe "Suc n" c] del: parse_unary.simps(2))
  qed
  then show "parse_unary pe (Suc (Suc n)) (c, show_expr (Unary op e) @ t, r) = Ok (add_code (gen sl (pos c - 8) (Unary op e)) c, t, r)"
    using 1 2 by (simp add: add_instr_code del: parse_unary.simps(2) show_expr.simps)
qed

subsection \<open>Logical operators\<close>

lemma equality_pass:
  assumes "compiles sl V T (parse_unary pe (Suc n)) u g" "\<And>t. T t \<Longrightarrow> quiet 4 t"
  shows "compiles sl V T (parse_equality pe (Suc n)) u g"
  unfolding parse_equality_level by (rule level_pass [of _ _ _ 0]) (use assms in simp_all)

text \<open>Nothing follows that a logical and would take.\<close>

definition and_quiet :: "string \<Rightarrow> bool" where
  "and_quiet t \<longleftrightarrow> quiet 4 t \<and> match_str t ''&&'' = (False, t)"

lemma stop_and_quiet: "stop t \<Longrightarrow> and_quiet t"
  by (simp add: and_quiet_def stop_quiet stop_match)

lemma and_pass:
  assumes "compiles sl V T (parse_equality pe (Suc n)) u g" "\<And>t. T t \<Longrightarrow> and_quiet t"
  shows "compiles sl V T (parse_logical_and pe (Suc n)) u g"
proof (rule compilesI)
  fix c :: tinycc_compile_t and t r assume a: "room (length (flat (g (pos c - 8)))) c" "knows sl V c" "T t"
  from compilesD [OF assms(1) a, of r] assms(2) [OF a(3)]
  show "parse_logical_and pe (Suc n) (c, u @ t, r) = Ok (add_code (g (pos c - 8)) c, t, r)"
    by (simp add: parse_logical_and_def and_quiet_def)
qed

lemma or_pass:
  assumes "compiles sl V stop (parse_logical_and pe (Suc n)) u g"
  shows "compiles sl V stop (parse_logical_or pe (Suc n)) u g"
proof (rule compilesI)
  fix c :: tinycc_compile_t and t r assume a: "room (length (flat (g (pos c - 8)))) c" "knows sl V c" "stop t"
  from compilesD [OF assms a, of r] stop_match [OF a(3), of "''||''"]
  show "parse_logical_or pe (Suc n) (c, u @ t, r) = Ok (add_code (g (pos c - 8)) c, t, r)"
    by (simp add: parse_logical_or_def)
qed

lemma and_compiles:
  assumes "compiles sl V (quiet 4) (parse_equality pe (Suc (Suc n))) u1 (\<lambda>q. gen sl q e1)"
    "compiles sl V (quiet 4) (parse_equality pe (Suc (Suc n))) u2 (\<lambda>q. gen sl q e2)"
  shows "compiles sl V stop (parse_logical_and pe (Suc (Suc n))) (u1 @ ''&&'' @ u2) (\<lambda>q. gen sl q (And e1 e2))"
proof (rule compilesI)
  fix c :: tinycc_compile_t and t r
  define p where "p = pos c - 8"
  define q where "q = p + length (flat (gen sl p e1)) + 5"
  define f where "f = q + length (flat (gen sl q e2)) + 15"
  have gen: "gen sl p (And e1 e2) = gen sl p e1 @ Jump TCC_OP_JZ (of_nat f) # gen sl q e2 @
      [Jump TCC_OP_JZ (of_nat f), Const 1, Jump TCC_OP_JMP (of_nat (f + 5)), Const 0]"
    by (simp add: Let_def q_def f_def)
  let ?a = "gen sl p e1" and ?b = "gen sl q e2"
  assume "room (length (flat (gen sl (pos c - 8) (And e1 e2)))) c" and kn: "knows sl V c" and t: "stop t"
  then have rm: "room (length (flat ?a) + length (flat ?b) + 25) c"
    unfolding p_def [symmetric] gen by (simp add: ac_simps)
  then have pos8: "8 \<le> pos c" by (simp add: room_def)
  have 1: "parse_equality pe (Suc (Suc n)) (c, u1 @ ''&&'' @ u2 @ t, r) = Ok (add_code ?a c, ''&&'' @ u2 @ t, r)"
    using compilesD [OF assms(1) _ kn logical_quiet(1), of "u2 @ t" r] room_less [OF rm] by (simp add: p_def [symmetric])
  have 2: "parse_equality pe (Suc (Suc n)) (add_code (?a @ [Jump TCC_OP_JZ 0]) c, u2 @ t, r) =
      Ok (add_code ((?a @ [Jump TCC_OP_JZ 0]) @ ?b) c, t, r)"
    by (rule compiles_after [OF assms(2) kn stop_quiet [OF t] pos8])
      (use room_less [OF rm] in \<open>simp_all add: q_def p_def\<close>)
  have 3: "emit_jump (add_code ?a c) TCC_OP_JZ = Some (pos c + length (flat ?a) + 1, add_code (?a @ [Jump TCC_OP_JZ 0]) c)"
    using room_add_code [OF room_less [OF rm, of "length (flat ?a) + 5"]] by (simp add: add_instr_code)
  have 4: "and_tail (pos c + length (flat ?a) + 1) (add_code (?a @ Jump TCC_OP_JZ 0 # ?b) c) = Some (add_code (gen sl p (And e1 e2)) c)"
    unfolding gen by (rule and_tail_code) (use room_less [OF rm] in \<open>simp_all add: f_def q_def p_def\<close>)
  show "parse_logical_and pe (Suc (Suc n)) (c, (u1 @ ''&&'' @ u2) @ t, r) = Ok (add_code (gen sl (pos c - 8) (And e1 e2)) c, t, r)"
    using 1 2 3 4 logical_quiet(4) [of "u2 @ t"] stop_match [OF t, of "''&&''"]
    by (simp add: parse_logical_and_def p_def [symmetric] del: gen.simps)
qed

lemma or_compiles:
  assumes "compiles sl V and_quiet (parse_logical_and pe (Suc (Suc n))) u1 (\<lambda>q. gen sl q e1)"
    "compiles sl V and_quiet (parse_logical_and pe (Suc (Suc n))) u2 (\<lambda>q. gen sl q e2)"
  shows "compiles sl V stop (parse_logical_or pe (Suc (Suc n))) (u1 @ ''||'' @ u2) (\<lambda>q. gen sl q (Or e1 e2))"
proof (rule compilesI)
  fix c :: tinycc_compile_t and t r
  define p where "p = pos c - 8"
  define q where "q = p + length (flat (gen sl p e1)) + 15"
  define f where "f = q + length (flat (gen sl q e2)) + 15"
  let ?a = "gen sl p e1" and ?b = "gen sl q e2"
  let ?h = "?a @ [Jump TCC_OP_JZ (of_nat q), Const 1]"
  have gen: "gen sl p (Or e1 e2) = ?h @ Jump TCC_OP_JMP (of_nat (f + 5)) # ?b @
      [Jump TCC_OP_JZ (of_nat f), Const 1, Jump TCC_OP_JMP (of_nat (f + 5)), Const 0]"
    by (simp add: Let_def q_def f_def)
  assume "room (length (flat (gen sl (pos c - 8) (Or e1 e2)))) c" and kn: "knows sl V c" and t: "stop t"
  then have rm: "room (length (flat ?a) + length (flat ?b) + 35) c"
    unfolding p_def [symmetric] gen by (simp add: ac_simps)
  then have pos8: "8 \<le> pos c" by (simp add: room_def)
  have aq: "and_quiet (''||'' @ u2 @ t)" using logical_quiet(2,3) by (simp add: and_quiet_def)
  have 1: "parse_logical_and pe (Suc (Suc n)) (c, u1 @ ''||'' @ u2 @ t, r) = Ok (add_code ?a c, ''||'' @ u2 @ t, r)"
    using compilesD [OF assms(1) _ kn aq, of r] room_less [OF rm] by (simp add: p_def [symmetric])
  have 2: "parse_logical_and pe (Suc (Suc n)) (add_code (?h @ [Jump TCC_OP_JMP 0]) c, u2 @ t, r) =
      Ok (add_code ((?h @ [Jump TCC_OP_JMP 0]) @ ?b) c, t, r)"
    by (rule compiles_after [OF assms(2) kn stop_and_quiet [OF t] pos8])
      (use room_less [OF rm] in \<open>simp_all add: q_def p_def\<close>)
  have 3: "or_head (add_code ?a c) = Some (pos c + length (flat ?a) + 11, add_code (?h @ [Jump TCC_OP_JMP 0]) c)"
    using or_head_code [of ?a c q] room_less [OF rm] by (simp add: q_def p_def)
  have 4: "or_tail (pos c + length (flat ?a) + 11) (add_code (?h @ Jump TCC_OP_JMP 0 # ?b) c) = Some (add_code (gen sl p (Or e1 e2)) c)"
    unfolding gen by (rule or_tail_code) (use room_less [OF rm] in \<open>simp_all add: f_def q_def p_def\<close>)
  show "parse_logical_or pe (Suc (Suc n)) (c, (u1 @ ''||'' @ u2) @ t, r) = Ok (add_code (gen sl (pos c - 8) (Or e1 e2)) c, t, r)"
    using 1 2 3 4 logical_quiet(5) [of "u2 @ t"] stop_match [OF t, of "''||''"]
    by (simp add: parse_logical_or_def p_def [symmetric] del: gen.simps)
qed

subsection \<open>Assignments\<close>

definition assign_table :: "(string \<times> u8) list" where
  "assign_table = [(''+='', TCC_OP_ADD), (''-='', TCC_OP_SUB), (''*='', TCC_OP_MUL),
     (''/='', TCC_OP_DIV), (''%='', TCC_OP_MOD), (''='', TCC_OP_STORE_VAR)]"

lemma assign_plain:
  assumes "compiles sl V stop (parse_logical_or pe n) u g" "\<And>t. stop t \<Longrightarrow> solid (u @ t) \<and> \<not> is_ident_start (chd (u @ t))"
  shows "compiles sl V stop (parse_assign_expr pe n) u g"
proof (rule compilesI)
  fix c :: tinycc_compile_t and t r assume a: "room (length (flat (g (pos c - 8)))) c" "knows sl V c" "stop t"
  from compilesD [OF assms(1) a, of r] assms(2) [OF a(3)]
  show "parse_assign_expr pe n (c, u @ t, r) = Ok (add_code (g (pos c - 8)) c, t, r)"
    by (simp add: parse_identifier_none)
qed

lemma assign_variable:
  assumes "compiles sl V stop (parse_logical_or pe n) (x @ w) g" "x \<in> V"
    "\<And>t. stop t \<Longrightarrow> \<not> is_ident_char (chd (w @ t)) \<and> match_ops assign_table (w @ t) = (None, w @ t)"
  shows "compiles sl V stop (parse_assign_expr pe n) (x @ w) g"
proof (rule compilesI)
  fix c :: tinycc_compile_t and t r assume a: "room (length (flat (g (pos c - 8)))) c" "knows sl V c" "stop t"
  note x = knowsD [OF a(2) assms(2)] and w = assms(3) [OF a(3)]
  show "parse_assign_expr pe n (c, (x @ w) @ t, r) = Ok (add_code (g (pos c - 8)) c, t, r)"
    using compilesD [OF assms(1) a, of r] parse_identifier_ident [OF x(2), of "w @ t"] x(1) w
    by (simp add: assign_table_def del: match_ops.simps)
qed

lemma stop_assign: "stop t \<Longrightarrow> match_ops assign_table t = (None, t)"
  by (drule stop_cases) (auto simp: assign_table_def match_str_solid is_space_def)

lemma incr_assign:
  assumes "op \<in> {TCC_OP_ADD, TCC_OP_SUB}"
  shows "match_ops assign_table (op_text op @ op_text op @ t) = (None, op_text op @ op_text op @ t)"
    "\<not> is_ident_char (chd (op_text op @ t))"
  using assms by (elim insertE emptyE;
      simp add: assign_table_def op_text_def match_str_solid is_space_def is_ident_char_def is_ident_start_def is_digit_def less_eq_char_def)+

text \<open>The text of an expression does not start with \<open>=\<close>, white space or a comment.\<close>

lemma show_start:
  assumes "wf_expr V e" "\<forall>x \<in> V. ident x"
  shows "\<exists>c s. show_expr e = c # s \<and> \<not> is_space c \<and> c \<notin> set ''=/;{}''"
proof -
  have id: "\<exists>c s. x @ u = c # s \<and> \<not> is_space c \<and> c \<notin> set ''=/;{}''" if "x \<in> V" for x u
  proof -
    have "ident x" using assms(2) that by blast
    then obtain c s where x: "x = c # s" "is_ident_start c" by (cases x) (auto simp: ident_def)
    then show ?thesis using ident_start_char [OF x(2)] by simp
  qed
  have sign: "\<exists>c s. op_text op @ u = c # s \<and> \<not> is_space c \<and> c \<notin> set ''=/;{}''"
    if "op \<in> {TCC_OP_ADD, TCC_OP_SUB, TCC_OP_NEG, TCC_OP_NOT}" for op u
    using that by (elim insertE emptyE) (simp_all add: op_text_def is_space_def)
  show ?thesis
  proof (cases e)
    case (Num n)
    obtain d s where d: "digits n = d # s" "is_digit d" using digits_start by blast
    then show ?thesis using Num digit_char [OF d(2)] by simp
  next
    case (Var x)
    then show ?thesis using id [of x "[]"] assms(1) by simp
  next
    case (Unary op a)
    then show ?thesis using sign [of op] assms(1) by auto
  next
    case (Pre op x)
    then show ?thesis using sign [of op] assms(1) by auto
  qed (use assms(1) id in \<open>simp_all add: paren_def is_space_def\<close>)
qed

lemma assign_token:
  assumes "chd s \<noteq> CHR ''=''" "solid s"
  shows "match_ops assign_table (''='' @ s) = (Some TCC_OP_STORE_VAR, s)"
    "op \<in> arith_ops \<Longrightarrow> match_ops assign_table (op_text op @ ''='' @ s) = (Some op, s)"
    "op \<in> arith_ops \<Longrightarrow> \<not> is_ident_char (chd (op_text op @ s')) \<and> op \<noteq> TCC_OP_STORE_VAR"
  subgoal by (simp add: assign_table_def match_str_solid is_space_def)
  subgoal unfolding arith_ops_def
    by (elim insertE emptyE) (simp_all add: assign_table_def op_text_def match_str_solid is_space_def)
  subgoal unfolding arith_ops_def
    by (elim insertE emptyE) (simp_all add: op_text_def is_ident_char_def is_ident_start_def is_digit_def less_eq_char_def)
  done

lemma compiles_Assign:
  assumes "compiles sl V stop pe u (\<lambda>q. gen sl q e)" "x \<in> V" "\<exists>c s. u = c # s \<and> \<not> is_space c \<and> c \<notin> set ''=/;{}''"
  shows "compiles sl V stop (parse_assign_expr pe n) (x @ ''='' @ u) (\<lambda>q. gen sl q (Assign x e))"
proof (rule compilesI)
  fix c :: tinycc_compile_t and t r
  let ?g = "gen sl (pos c - 8) e"
  assume rm: "room (length (flat (gen sl (pos c - 8) (Assign x e)))) c" and k: "knows sl V c" and t: "stop t"
  note x = knowsD [OF k assms(2)]
  have u: "chd (u @ t) \<noteq> CHR ''=''" "solid (u @ t)" using assms(3) by auto
  have id: "parse_identifier (x @ ''='' @ u @ t) TCC_VAR_NAME_MAX = (Some x, ''='' @ u @ t)"
    by (rule parse_identifier_ident [OF x(2)]) (simp add: is_ident_char_def is_ident_start_def is_digit_def less_eq_char_def)
  have 1: "pe (c, u @ t, r) = Ok (add_code ?g c, t, r)"
    by (rule compilesD [OF assms(1) _ k t]) (use rm in \<open>auto elim: room_less\<close>)
  have 2: "room 1 (add_code ?g c)" "room 2 (add_code (?g @ [Plain TCC_OP_DUP]) c)"
    using rm by (auto intro!: room_add_code elim!: room_less)
  show "parse_assign_expr pe n (c, (x @ ''='' @ u) @ t, r) = Ok (add_code (gen sl (pos c - 8) (Assign x e)) c, t, r)"
    using id x(1) 1 2 assign_token(1) [OF u] by (simp add: assign_table_def add_instr_code del: match_ops.simps)
qed

lemma compiles_AssignOp:
  assumes "compiles sl V stop pe u (\<lambda>q. gen sl q e)" "x \<in> V" "\<exists>c s. u = c # s \<and> \<not> is_space c \<and> c \<notin> set ''=/;{}''"
    "op \<in> arith_ops"
  shows "compiles sl V stop (parse_assign_expr pe n) (x @ op_text op @ ''='' @ u) (\<lambda>q. gen sl q (AssignOp op x e))"
proof (rule compilesI)
  fix c :: tinycc_compile_t and t r
  let ?v = "[VarI TCC_OP_PUSH_VAR (sl x)]"
  let ?g = "gen sl (pos c - 8 + 2) e"
  assume rm: "room (length (flat (gen sl (pos c - 8) (AssignOp op x e)))) c" and k: "knows sl V c" and t: "stop t"
  then have pos8: "8 \<le> pos c" by (simp add: room_def)
  note x = knowsD [OF k assms(2)]
  have u: "chd (u @ t) \<noteq> CHR ''=''" "solid (u @ t)" using assms(3) by auto
  note tok = assign_token(2,3) [OF u assms(4)]
  have id: "parse_identifier (x @ op_text op @ ''='' @ u @ t) TCC_VAR_NAME_MAX = (Some x, op_text op @ ''='' @ u @ t)"
    by (rule parse_identifier_ident [OF x(2)]) (use tok(2) in simp)
  have 1: "pe (add_code ?v c, u @ t, r) = Ok (add_code (?v @ ?g) c, t, r)"
    by (rule compiles_after [OF assms(1) k t pos8]) (use rm in \<open>auto elim: room_less\<close>)
  have 2: "room 2 c" "room 1 (add_code (?v @ ?g) c)" "room 1 (add_code (?v @ ?g @ [Plain op]) c)"
    "room 2 (add_code (?v @ ?g @ [Plain op, Plain TCC_OP_DUP]) c)"
    using rm by (auto intro!: room_add_instr room_add_code elim!: room_less)
  show "parse_assign_expr pe n (c, (x @ op_text op @ ''='' @ u) @ t, r) = Ok (add_code (gen sl (pos c - 8) (AssignOp op x e)) c, t, r)"
    using id x(1) 1 2 tok by (simp add: assign_table_def add_instr_code del: match_ops.simps)
qed

subsection \<open>The parser compiles the reference code\<close>

fun need :: "expr \<Rightarrow> nat" where
  "need (Num n) = 1"
| "need (Var x) = 1"
| "need (Unary op e) = Suc (need e)"
| "need (Bin op a b) = Suc (max (need a) (need b))"
| "need (And a b) = Suc (max (need a) (need b))"
| "need (Or a b) = Suc (max (need a) (need b))"
| "need (Assign x e) = Suc (need e)"
| "need (AssignOp op x e) = Suc (need e)"
| "need (Pre op x) = 1"
| "need (Post op x) = 1"

lemma need_pos [simp]: "0 < need e"
  by (cases e) auto

lemma unary_expr:
  assumes "compiles sl V stop (parse_unary pe (Suc n)) u g"
  shows "compiles sl V stop (parse_logical_or pe (Suc n)) u g"
  by (rule or_pass, rule and_pass, rule equality_pass [OF assms]) (simp_all add: stop_quiet stop_and_quiet)

lemma operand_equality:
  assumes "compiles sl V stop pe u g"
  shows "compiles sl V (quiet 4) (parse_equality pe (Suc n)) (paren u) g"
  by (rule equality_pass, rule compiles_weaken, rule paren_unary [OF assms]) auto

lemma operand_and:
  assumes "compiles sl V stop pe u g"
  shows "compiles sl V and_quiet (parse_logical_and pe (Suc n)) (paren u) g"
  by (rule and_pass, rule compiles_weaken, rule operand_equality [OF assms]) (auto simp: and_quiet_def)

lemma equality_Bin:
  assumes "compiles sl V stop pe (show_expr e1) (\<lambda>q. gen sl q e1)" "compiles sl V stop pe (show_expr e2) (\<lambda>q. gen sl q e2)"
    "op \<in> bin_ops"
  shows "compiles sl V stop (parse_equality pe (Suc (Suc n))) (show_expr (Bin op e1 e2)) (\<lambda>q. gen sl q (Bin op e1 e2))"
proof -
  let ?k = "op_level op"
  have p: "compiles sl V (quiet ?k) (level ?k pe (Suc (Suc n))) (paren (show_expr e)) (\<lambda>q. gen sl q e)"
    if "compiles sl V stop pe (show_expr e) (\<lambda>q. gen sl q e)" for e
    by (rule level_pass [of _ _ _ 0], rule compiles_weaken) (use paren_unary [OF that] in simp_all)
  have "compiles sl V (quiet (Suc ?k)) (level (Suc ?k) pe (Suc (Suc n))) (show_expr (Bin op e1 e2)) (\<lambda>q. gen sl q (Bin op e1 e2))"
    using level_op [OF p [OF assms(1)] p [OF assms(2)] op_level_facts(2,3) [OF assms(3)]] by (simp add: Let_def)
  then have "compiles sl V stop (level (Suc ?k) pe (Suc (Suc n))) (show_expr (Bin op e1 e2)) (\<lambda>q. gen sl q (Bin op e1 e2))"
    by (rule compiles_weaken) (use stop_quiet op_level_facts(1) [OF assms(3)] in \<open>auto simp: quiet_def\<close>)
  then show ?thesis
    unfolding parse_equality_level
    by (rule level_pass) (use op_level_facts(1) [OF assms(3)] in \<open>auto simp: stop_quiet\<close>)
qed

lemma need_split: "Suc k \<le> n \<Longrightarrow> 0 < k \<Longrightarrow> \<exists>m. n = Suc (Suc m) \<and> k \<le> Suc m"
  by (cases n; cases "n - 1") auto

lemma parse_expr_Suc: "parse_expr (Suc n) = parse_assign_expr (parse_expr n) (Suc n)"
  by (rule ext) simp

lemma paren_start: "solid (paren u @ t) \<and> \<not> is_ident_start (chd (paren u @ t))"
  by (simp add: paren_def is_space_def is_ident_start_def)

lemma sign_start:
  assumes "op \<in> {TCC_OP_ADD, TCC_OP_SUB, TCC_OP_NEG, TCC_OP_NOT}"
  shows "solid (op_text op @ t) \<and> \<not> is_ident_start (chd (op_text op @ t))"
  using assms by (elim insertE emptyE) (simp_all add: op_text_def is_space_def is_ident_start_def)

lemma parse_expr_compiles:
  assumes V: "\<forall>x \<in> V. ident x"
  shows "wf_expr V e \<Longrightarrow> need e \<le> n \<Longrightarrow> compiles sl V stop (parse_expr n) (show_expr e) (\<lambda>q. gen sl q e)"
proof (induction e arbitrary: n)
  case (Num k)
  then obtain m where n: "n = Suc m" by (cases n) auto
  obtain d s where d: "digits k = d # s" "is_digit d" using digits_start by blast
  show ?case unfolding n parse_expr_Suc show_expr.simps gen.simps
    by (rule assign_plain [OF unary_expr [OF unary_Num]]) (use d digit_char [OF d(2)] in auto)
next
  case (Var x)
  then obtain m where n: "n = Suc m" by (cases n) auto
  have "compiles sl V stop (parse_assign_expr (parse_expr m) (Suc m)) (x @ []) (\<lambda>q. gen sl q (Var x))"
    by (rule assign_variable) (use unary_expr [OF unary_Var] Var stop_not_ident stop_assign in auto)
  then show ?case unfolding n parse_expr_Suc by simp
next
  case (Unary op e)
  then obtain m where n: "n = Suc (Suc m)" and m: "need e \<le> Suc m" using need_split [of "need e" n] by auto
  from Unary have wf: "wf_expr V e" "op \<in> {TCC_OP_NEG, TCC_OP_NOT}" by simp_all
  show ?case unfolding n parse_expr_Suc [of "Suc m"]
    by (rule assign_plain [OF unary_expr [OF unary_Unary [OF Unary.IH [OF wf(1) m] wf(2)]]])
      (use sign_start [of op] wf(2) in auto)
next
  case (Bin op a b)
  then obtain m where n: "n = Suc (Suc m)" and m: "need a \<le> Suc m" "need b \<le> Suc m"
    using need_split [of "max (need a) (need b)" n] need_pos [of a] by (auto simp: less_max_iff_disj)
  from Bin have wf: "wf_expr V a" "wf_expr V b" "op \<in> bin_ops" by simp_all
  show ?case unfolding n parse_expr_Suc [of "Suc m"]
    by (rule assign_plain [OF or_pass [OF and_pass [OF equality_Bin [OF Bin.IH(1) [OF wf(1) m(1)] Bin.IH(2) [OF wf(2) m(2)] wf(3)]]]])
      (use paren_start stop_and_quiet in auto)
next
  case (And a b)
  then obtain m where n: "n = Suc (Suc m)" and m: "need a \<le> Suc m" "need b \<le> Suc m"
    using need_split [of "max (need a) (need b)" n] need_pos [of a] by (auto simp: less_max_iff_disj)
  from And have wf: "wf_expr V a" "wf_expr V b" by simp_all
  show ?case unfolding n parse_expr_Suc [of "Suc m"] show_expr.simps
    by (rule assign_plain [OF or_pass [OF and_compiles [OF operand_equality [OF And.IH(1) [OF wf(1) m(1)]]
              operand_equality [OF And.IH(2) [OF wf(2) m(2)]]]]]) (use paren_start in auto)
next
  case (Or a b)
  then obtain m where n: "n = Suc (Suc m)" and m: "need a \<le> Suc m" "need b \<le> Suc m"
    using need_split [of "max (need a) (need b)" n] need_pos [of a] by (auto simp: less_max_iff_disj)
  from Or have wf: "wf_expr V a" "wf_expr V b" by simp_all
  show ?case unfolding n parse_expr_Suc [of "Suc m"] show_expr.simps
    by (rule assign_plain [OF or_compiles [OF operand_and [OF Or.IH(1) [OF wf(1) m(1)]]
              operand_and [OF Or.IH(2) [OF wf(2) m(2)]]]]) (use paren_start in auto)
next
  case (Assign x e)
  then obtain m where n: "n = Suc m" and m: "need e \<le> m" by (cases n) auto
  from Assign have wf: "wf_expr V e" "x \<in> V" by simp_all
  show ?case unfolding n parse_expr_Suc show_expr.simps
    by (rule compiles_Assign [OF Assign.IH [OF wf(1) m] wf(2) show_start [OF wf(1) V]])
next
  case (AssignOp op x e)
  then obtain m where n: "n = Suc m" and m: "need e \<le> m" by (cases n) auto
  from AssignOp have wf: "wf_expr V e" "x \<in> V" "op \<in> arith_ops" by simp_all
  show ?case unfolding n parse_expr_Suc show_expr.simps
    by (rule compiles_AssignOp [OF AssignOp.IH [OF wf(1) m] wf(2) show_start [OF wf(1) V] wf(3)])
next
  case (Pre op x)
  then obtain m where n: "n = Suc m" by (cases n) auto
  from Pre have wf: "x \<in> V" "op \<in> {TCC_OP_ADD, TCC_OP_SUB}" by simp_all
  show ?case unfolding n parse_expr_Suc show_expr.simps
    by (rule assign_plain [OF unary_expr [OF unary_Pre [OF wf]]]) (use sign_start [of op] wf in auto)
next
  case (Post op x)
  then obtain m where n: "n = Suc m" by (cases n) auto
  from Post have wf: "x \<in> V" "op \<in> {TCC_OP_ADD, TCC_OP_SUB}" by simp_all
  show ?case unfolding n parse_expr_Suc show_expr.simps
    by (rule assign_variable [OF unary_expr [OF unary_Post [OF wf]] wf(1)]) (use incr_assign [OF wf(2)] in simp)
qed

end
