(* ===== verification/TinyProg.thy ===== *)
theory TinyProg
  imports TinyExpr
begin

text \<open>
  The tiny C compiler is correct on structured programs: declarations followed by expression
  statements, \<open>u_putc\<close>, \<open>if\<close>/\<open>else\<close> and \<open>while\<close>. \<open>exec\<close> is the meaning of a program, \<open>gen_stm\<close> its
  byte code; the compiler of \<^verbatim>\<open>src/tinycc.c\<close> emits exactly this code, and the interpreter runs it
  with exactly the effect of the program.
\<close>

subsection \<open>Programs, their text, code and meaning\<close>

datatype stm = Skip | ExprS expr | PutcS expr | Seq stm stm | If expr stm stm | While expr stm

definition braces :: "string \<Rightarrow> string" where
  "braces s = ''{'' @ s @ ''}''"

fun show_stm :: "stm \<Rightarrow> string" where
  "show_stm Skip = []"
| "show_stm (ExprS e) = show_expr e @ '';''"
| "show_stm (PutcS e) = ''u_putc'' @ paren (show_expr e) @ '';''"
| "show_stm (Seq s1 s2) = show_stm s1 @ show_stm s2"
| "show_stm (If e s1 s2) = ''if'' @ paren (show_expr e) @ braces (show_stm s1) @ ''else'' @ braces (show_stm s2)"
| "show_stm (While e s) = ''while'' @ paren (show_expr e) @ braces (show_stm s)"

fun gen_stm :: "(string \<Rightarrow> nat) \<Rightarrow> nat \<Rightarrow> stm \<Rightarrow> instr list" where
  "gen_stm sl p Skip = []"
| "gen_stm sl p (ExprS e) = gen sl p e @ [Plain TCC_OP_POP]"
| "gen_stm sl p (PutcS e) = gen sl p e @ [Plain TCC_OP_PUTC]"
| "gen_stm sl p (Seq s1 s2) = (let c1 = gen_stm sl p s1 in c1 @ gen_stm sl (p + length (flat c1)) s2)"
| "gen_stm sl p (If e s1 s2) =
     (let ce = gen sl p e; q = p + length (flat ce) + 5;
          c1 = gen_stm sl q s1; r = q + length (flat c1) + 5;
          c2 = gen_stm sl r s2
      in ce @ Jump TCC_OP_JZ (of_nat r) # c1 @ Jump TCC_OP_JMP (of_nat (r + length (flat c2))) # c2)"
| "gen_stm sl p (While e s) =
     (let ce = gen sl p e; q = p + length (flat ce) + 5;
          c1 = gen_stm sl q s
      in ce @ Jump TCC_OP_JZ (of_nat (q + length (flat c1) + 5)) # c1 @ [Jump TCC_OP_JMP (of_nat p)])"

text \<open>The state of a program: its variables and the machine.\<close>

definition putc_sys :: "s32 \<Rightarrow> sys \<Rightarrow> sys" where
  "putc_sys val y = y\<lparr>con := uart_putc (char_of (unat (ucast val :: u8))) (con y)\<rparr>"

inductive exec :: "(string \<Rightarrow> nat) \<Rightarrow> stm \<Rightarrow> s32 list \<Rightarrow> sys \<Rightarrow> s32 list \<Rightarrow> sys \<Rightarrow> bool" for sl where
  exec_Skip: "exec sl Skip vs y vs y"
| exec_ExprS: "eval sl e vs = (x, vs') \<Longrightarrow> exec sl (ExprS e) vs y vs' y"
| exec_PutcS: "eval sl e vs = (x, vs') \<Longrightarrow> exec sl (PutcS e) vs y vs' (putc_sys x y)"
| exec_Seq: "exec sl s1 vs y vs1 y1 \<Longrightarrow> exec sl s2 vs1 y1 vs2 y2 \<Longrightarrow> exec sl (Seq s1 s2) vs y vs2 y2"
| exec_IfTrue: "eval sl e vs = (x, vs1) \<Longrightarrow> x \<noteq> 0 \<Longrightarrow> exec sl s1 vs1 y vs2 y2 \<Longrightarrow> exec sl (If e s1 s2) vs y vs2 y2"
| exec_IfFalse: "eval sl e vs = (0, vs1) \<Longrightarrow> exec sl s2 vs1 y vs2 y2 \<Longrightarrow> exec sl (If e s1 s2) vs y vs2 y2"
| exec_WhileFalse: "eval sl e vs = (0, vs1) \<Longrightarrow> exec sl (While e s) vs y vs1 y"
| exec_WhileTrue: "eval sl e vs = (x, vs1) \<Longrightarrow> x \<noteq> 0 \<Longrightarrow> exec sl s vs1 y vs2 y2 \<Longrightarrow>
    exec sl (While e s) vs2 y2 vs3 y3 \<Longrightarrow> exec sl (While e s) vs y vs3 y3"

fun wf_stm :: "string set \<Rightarrow> stm \<Rightarrow> bool" where
  "wf_stm V Skip \<longleftrightarrow> True"
| "wf_stm V (ExprS e) \<longleftrightarrow> wf_expr V e \<and> depth e \<le> 64"
| "wf_stm V (PutcS e) \<longleftrightarrow> wf_expr V e \<and> depth e \<le> 64"
| "wf_stm V (Seq s1 s2) \<longleftrightarrow> wf_stm V s1 \<and> wf_stm V s2"
| "wf_stm V (If e s1 s2) \<longleftrightarrow> wf_expr V e \<and> depth e \<le> 64 \<and> wf_stm V s1 \<and> wf_stm V s2"
| "wf_stm V (While e s) \<longleftrightarrow> wf_expr V e \<and> depth e \<le> 64 \<and> wf_stm V s"

text \<open>How deep loops are nested; the compiler allows 8.\<close>

fun loops :: "stm \<Rightarrow> nat" where
  "loops (Seq s1 s2) = max (loops s1) (loops s2)"
| "loops (If e s1 s2) = max (loops s1) (loops s2)"
| "loops (While e s) = Suc (loops s)"
| "loops _ = 0"

subsection \<open>The interpreter runs the code of a program\<close>

definition run_at :: "vm \<Rightarrow> nat \<Rightarrow> s32 list \<Rightarrow> sys \<Rightarrow> vm" where
  "run_at v p vs y = at (v\<lparr>vsys := y\<rparr>) p [] vs"

lemma step_pop:
  assumes "instr_at b p (Plain TCC_OP_POP)"
  shows "vm_step slp b (at v p (x # stk) vs) = Next (at v (p + 1) stk vs)"
  using instr_at_plain [OF assms] by (simp add: vm_eval)

lemma step_putc:
  assumes "instr_at b p (Plain TCC_OP_PUTC)"
  shows "vm_step slp b (at v p (x # stk) vs) = Next (at (v\<lparr>vsys := putc_sys x (vsys v)\<rparr>) (p + 1) stk vs)"
  using instr_at_plain [OF assms] by (simp add: vm_eval putc_sys_def at_def)

lemma expr_steps:
  assumes "wf_expr V e" "\<forall>x \<in> V. sl x < 32" "depth e \<le> 64" "eval sl e vs = (x, vs')"
    "code_at b (8 + p) (gen sl p e)" "8 + p + length (flat (gen sl p e)) < length b" "length b < 2 ^ 32"
  shows "vm_steps slp b (run_at v (8 + p) vs y) (at (v\<lparr>vsys := y\<rparr>) (8 + p + length (flat (gen sl p e))) [x] vs')"
  unfolding run_at_def by (rule computesD [OF wf_computes [OF assms(1,2)] assms(5)]) (use assms in auto)

text \<open>A condition and the conditional jump behind it.\<close>

lemma cond_steps:
  assumes "wf_expr V e" "\<forall>x \<in> V. sl x < 32" "depth e \<le> 64" "eval sl e vs = (x, vs')"
    "code_at b (8 + p) (gen sl p e @ Jump TCC_OP_JZ (of_nat t) # rest)" "n = 8 + p + length (flat (gen sl p e)) + 5"
    "n < length b" "length b < 2 ^ 32" "t < length b - 8"
  shows "vm_steps slp b (run_at v (8 + p) vs y) (run_at v (if x = 0 then 8 + t else n) vs' y)"
proof -
  have c: "code_at b (8 + p) (gen sl p e)" "instr_at b (8 + p + length (flat (gen sl p e))) (Jump TCC_OP_JZ (of_nat t))"
    using assms(5) by (simp_all add: code_at_append code_at_Cons)
  have 1: "vm_steps slp b (run_at v (8 + p) vs y) (at (v\<lparr>vsys := y\<rparr>) (8 + p + length (flat (gen sl p e))) [x] vs')"
    by (rule expr_steps [OF assms(1-4) c(1)]) (use assms in auto)
  have 2: "vm_steps slp b (at (v\<lparr>vsys := y\<rparr>) (8 + p + length (flat (gen sl p e))) [x] vs') (run_at v (if x = 0 then 8 + t else n) vs' y)"
    unfolding run_at_def by (rule steps_to [OF step_jz [OF c(2)]]) (use assms in auto)
  show ?thesis by (rule steps_trans [OF 1 2])
qed

lemma if_layout:
  assumes "code_at b (8 + p) (gen_stm sl p (If e s1 s2))"
  obtains q r t rest where "q = p + length (flat (gen sl p e)) + 5" "r = q + length (flat (gen_stm sl q s1)) + 5"
    "t = r + length (flat (gen_stm sl r s2))" "code_at b (8 + p) (gen sl p e @ Jump TCC_OP_JZ (of_nat r) # rest)"
    "code_at b (8 + q) (gen_stm sl q s1)" "instr_at b (8 + q + length (flat (gen_stm sl q s1))) (Jump TCC_OP_JMP (of_nat t))"
    "code_at b (8 + r) (gen_stm sl r s2)" "8 + p + length (flat (gen_stm sl p (If e s1 s2))) = 8 + t"
proof -
  define q where "q = p + length (flat (gen sl p e)) + 5"
  define r where "r = q + length (flat (gen_stm sl q s1)) + 5"
  define t where "t = r + length (flat (gen_stm sl r s2))"
  have gen: "gen_stm sl p (If e s1 s2) = gen sl p e @ Jump TCC_OP_JZ (of_nat r) # gen_stm sl q s1 @ Jump TCC_OP_JMP (of_nat t) # gen_stm sl r s2"
    by (simp add: Let_def q_def r_def t_def)
  have l: "8 + p + length (flat (gen_stm sl p (If e s1 s2))) = 8 + t"
    unfolding gen by (simp add: t_def, simp add: r_def, simp add: q_def)
  have a: "8 + p + length (flat (gen sl p e)) + 5 = 8 + q" "8 + q + length (flat (gen_stm sl q s1)) + 5 = 8 + r"
    by (simp_all add: q_def r_def)
  have c: "code_at b (8 + p + length (flat (gen sl p e)) + 5) (gen_stm sl q s1 @ Jump TCC_OP_JMP (of_nat t) # gen_stm sl r s2)"
    using assms unfolding gen by (simp add: code_at_append code_at_Cons)
  have d: "code_at b (8 + q) (gen_stm sl q s1)" "instr_at b (8 + q + length (flat (gen_stm sl q s1))) (Jump TCC_OP_JMP (of_nat t))"
    "code_at b (8 + q + length (flat (gen_stm sl q s1)) + 5) (gen_stm sl r s2)"
    using c unfolding a(1) by (simp_all add: code_at_append code_at_Cons)
  show thesis by (rule that [OF q_def r_def t_def assms [unfolded gen] d(1,2) d(3) [unfolded a(2)] l])
qed

lemma while_layout:
  assumes "code_at b (8 + p) (gen_stm sl p (While e s))"
  obtains q t rest where "q = p + length (flat (gen sl p e)) + 5" "t = q + length (flat (gen_stm sl q s)) + 5"
    "code_at b (8 + p) (gen sl p e @ Jump TCC_OP_JZ (of_nat t) # rest)"
    "code_at b (8 + q) (gen_stm sl q s)" "instr_at b (8 + q + length (flat (gen_stm sl q s))) (Jump TCC_OP_JMP (of_nat p))"
    "8 + p + length (flat (gen_stm sl p (While e s))) = 8 + t"
proof -
  define q where "q = p + length (flat (gen sl p e)) + 5"
  define t where "t = q + length (flat (gen_stm sl q s)) + 5"
  have gen: "gen_stm sl p (While e s) = gen sl p e @ Jump TCC_OP_JZ (of_nat t) # gen_stm sl q s @ [Jump TCC_OP_JMP (of_nat p)]"
    by (simp add: Let_def q_def t_def)
  have l: "8 + p + length (flat (gen_stm sl p (While e s))) = 8 + t"
    unfolding gen by (simp add: t_def, simp add: q_def)
  have a: "8 + p + length (flat (gen sl p e)) + 5 = 8 + q" by (simp add: q_def)
  have c: "code_at b (8 + p + length (flat (gen sl p e)) + 5) (gen_stm sl q s @ [Jump TCC_OP_JMP (of_nat p)])"
    using assms unfolding gen by (simp add: code_at_append code_at_Cons)
  have d: "code_at b (8 + q) (gen_stm sl q s)" "instr_at b (8 + q + length (flat (gen_stm sl q s))) (Jump TCC_OP_JMP (of_nat p))"
    using c unfolding a by (simp_all add: code_at_append code_at_Cons)
  show thesis by (rule that [OF q_def t_def assms [unfolded gen] d l])
qed

text \<open>The interpreter does to variables and machine what the program means.\<close>

lemma exec_steps:
  assumes "exec sl s vs y vs' y'" "\<forall>x \<in> V. sl x < 32" "length b < 2 ^ 32"
  shows "wf_stm V s \<Longrightarrow> code_at b (8 + p) (gen_stm sl p s) \<Longrightarrow> 8 + p + length (flat (gen_stm sl p s)) < length b \<Longrightarrow>
    vm_steps slp b (run_at v (8 + p) vs y) (run_at v (8 + p + length (flat (gen_stm sl p s))) vs' y')"
  using assms(1)
proof (induction arbitrary: p rule: exec.induct)
  case (exec_Skip vs y)
  show ?case by (simp add: steps_refl)
next
  case (exec_ExprS e vs x vs' y)
  let ?q = "8 + p + length (flat (gen sl p e))"
  have c: "code_at b (8 + p) (gen sl p e)" "instr_at b ?q (Plain TCC_OP_POP)"
    using exec_ExprS.prems(2) by (simp_all add: code_at_append code_at_Cons)
  have 1: "vm_steps slp b (run_at v (8 + p) vs y) (at (v\<lparr>vsys := y\<rparr>) ?q [x] vs')"
    by (rule expr_steps [OF _ assms(2)]) (use exec_ExprS c assms in auto)
  have 2: "vm_steps slp b (at (v\<lparr>vsys := y\<rparr>) ?q [x] vs') (run_at v (?q + 1) vs' y)"
    unfolding run_at_def by (rule steps_one [OF step_pop [OF c(2)]])
  show ?case using steps_trans [OF 1 2] by simp
next
  case (exec_PutcS e vs x vs' y)
  let ?q = "8 + p + length (flat (gen sl p e))"
  have c: "code_at b (8 + p) (gen sl p e)" "instr_at b ?q (Plain TCC_OP_PUTC)"
    using exec_PutcS.prems(2) by (simp_all add: code_at_append code_at_Cons)
  have 1: "vm_steps slp b (run_at v (8 + p) vs y) (at (v\<lparr>vsys := y\<rparr>) ?q [x] vs')"
    by (rule expr_steps [OF _ assms(2)]) (use exec_PutcS c assms in auto)
  have 2: "vm_steps slp b (at (v\<lparr>vsys := y\<rparr>) ?q [x] vs') (run_at v (?q + 1) vs' (putc_sys x y))"
    unfolding run_at_def using steps_one [OF step_putc [OF c(2)], of slp "v\<lparr>vsys := y\<rparr>" x "[]" vs'] by simp
  show ?case using steps_trans [OF 1 2] by simp
next
  case (exec_Seq s1 vs y vs1 y1 s2 vs2 y2)
  let ?n = "length (flat (gen_stm sl p s1))"
  have c: "code_at b (8 + p) (gen_stm sl p s1)" "code_at b (8 + (p + ?n)) (gen_stm sl (p + ?n) s2)"
    using exec_Seq.prems(2) by (simp_all add: Let_def code_at_append add.assoc)
  have lt: "8 + p + ?n + length (flat (gen_stm sl (p + ?n) s2)) < length b"
    using exec_Seq.prems(3) by (simp add: Let_def)
  have 1: "vm_steps slp b (run_at v (8 + p) vs y) (run_at v (8 + p + ?n) vs1 y1)"
    by (rule exec_Seq.IH(1)) (use exec_Seq.prems(1) c lt in auto)
  have 2: "vm_steps slp b (run_at v (8 + (p + ?n)) vs1 y1) (run_at v (8 + (p + ?n) + length (flat (gen_stm sl (p + ?n) s2))) vs2 y2)"
    by (rule exec_Seq.IH(2)) (use exec_Seq.prems(1) c lt in auto)
  show ?case using steps_trans [OF 1] 2 by (simp add: Let_def add.assoc)
next
  case (exec_IfTrue e vs x vs1 s1 y vs2 y2 s2)
  from exec_IfTrue.prems(2) obtain q r t rest where l: "q = p + length (flat (gen sl p e)) + 5"
    "r = q + length (flat (gen_stm sl q s1)) + 5" "t = r + length (flat (gen_stm sl r s2))"
    "code_at b (8 + p) (gen sl p e @ Jump TCC_OP_JZ (of_nat r) # rest)" "code_at b (8 + q) (gen_stm sl q s1)"
    "instr_at b (8 + q + length (flat (gen_stm sl q s1))) (Jump TCC_OP_JMP (of_nat t))"
    "8 + p + length (flat (gen_stm sl p (If e s1 s2))) = 8 + t"
    by (rule if_layout)
  have lt: "8 + t < length b" using exec_IfTrue.prems(3) l(7) by simp
  have 1: "vm_steps slp b (run_at v (8 + p) vs y) (run_at v (if x = 0 then 8 + r else 8 + q) vs1 y)"
    by (rule cond_steps [OF _ assms(2) _ exec_IfTrue.hyps(1) l(4)]) (use exec_IfTrue.prems(1) lt l(1-3) assms in auto)
  have 2: "vm_steps slp b (run_at v (8 + q) vs1 y) (run_at v (8 + q + length (flat (gen_stm sl q s1))) vs2 y2)"
    by (rule exec_IfTrue.IH) (use exec_IfTrue.prems(1) lt l in auto)
  have 3: "vm_steps slp b (run_at v (8 + q + length (flat (gen_stm sl q s1))) vs2 y2) (run_at v (8 + t) vs2 y2)"
    unfolding run_at_def by (rule steps_one [OF step_jmp [OF l(6)]]) (use lt assms in auto)
  show ?case unfolding l(7) using steps_trans [OF 1] steps_trans [OF 2 3] exec_IfTrue.hyps(2) by simp
next
  case (exec_IfFalse e vs vs1 s2 y vs2 y2 s1)
  from exec_IfFalse.prems(2) obtain q r t rest where l: "q = p + length (flat (gen sl p e)) + 5"
    "r = q + length (flat (gen_stm sl q s1)) + 5" "t = r + length (flat (gen_stm sl r s2))"
    "code_at b (8 + p) (gen sl p e @ Jump TCC_OP_JZ (of_nat r) # rest)" "code_at b (8 + r) (gen_stm sl r s2)"
    "8 + p + length (flat (gen_stm sl p (If e s1 s2))) = 8 + t"
    by (rule if_layout)
  have lt: "8 + t < length b" using exec_IfFalse.prems(3) l(6) by simp
  have 1: "vm_steps slp b (run_at v (8 + p) vs y) (run_at v (if (0 :: s32) = 0 then 8 + r else 8 + q) vs1 y)"
    by (rule cond_steps [OF _ assms(2) _ exec_IfFalse.hyps(1) l(4)]) (use exec_IfFalse.prems(1) lt l(1-3) assms in auto)
  have 2: "vm_steps slp b (run_at v (8 + r) vs1 y) (run_at v (8 + r + length (flat (gen_stm sl r s2))) vs2 y2)"
    by (rule exec_IfFalse.IH) (use exec_IfFalse.prems(1) lt l in auto)
  show ?case unfolding l(6) using steps_trans [OF 1] 2 l(3) by (simp add: add.assoc)
next
  case (exec_WhileFalse e vs vs1 s y)
  from exec_WhileFalse.prems(2) obtain q t rest where l: "q = p + length (flat (gen sl p e)) + 5"
    "t = q + length (flat (gen_stm sl q s)) + 5" "code_at b (8 + p) (gen sl p e @ Jump TCC_OP_JZ (of_nat t) # rest)"
    "8 + p + length (flat (gen_stm sl p (While e s))) = 8 + t"
    by (rule while_layout)
  have lt: "8 + t < length b" using exec_WhileFalse.prems(3) l(4) by simp
  have "vm_steps slp b (run_at v (8 + p) vs y) (run_at v (if (0 :: s32) = 0 then 8 + t else 8 + q) vs1 y)"
    by (rule cond_steps [OF _ assms(2) _ exec_WhileFalse.hyps(1) l(3)]) (use exec_WhileFalse.prems(1) lt l(1,2) assms in auto)
  then show ?case unfolding l(4) by simp
next
  case (exec_WhileTrue e vs x vs1 s y vs2 y2 vs3 y3)
  from exec_WhileTrue.prems(2) obtain q t rest where l: "q = p + length (flat (gen sl p e)) + 5"
    "t = q + length (flat (gen_stm sl q s)) + 5" "code_at b (8 + p) (gen sl p e @ Jump TCC_OP_JZ (of_nat t) # rest)"
    "code_at b (8 + q) (gen_stm sl q s)" "instr_at b (8 + q + length (flat (gen_stm sl q s))) (Jump TCC_OP_JMP (of_nat p))"
    "8 + p + length (flat (gen_stm sl p (While e s))) = 8 + t"
    by (rule while_layout)
  have lt: "8 + t < length b" using exec_WhileTrue.prems(3) l(6) by simp
  have 1: "vm_steps slp b (run_at v (8 + p) vs y) (run_at v (if x = 0 then 8 + t else 8 + q) vs1 y)"
    by (rule cond_steps [OF _ assms(2) _ exec_WhileTrue.hyps(1) l(3)]) (use exec_WhileTrue.prems(1) lt l(1,2) assms in auto)
  have 2: "vm_steps slp b (run_at v (8 + q) vs1 y) (run_at v (8 + q + length (flat (gen_stm sl q s))) vs2 y2)"
    by (rule exec_WhileTrue.IH(1)) (use exec_WhileTrue.prems(1) lt l in auto)
  have 3: "vm_steps slp b (run_at v (8 + q + length (flat (gen_stm sl q s))) vs2 y2) (run_at v (8 + p) vs2 y2)"
    unfolding run_at_def by (rule steps_one [OF step_jmp [OF l(5)]]) (use lt l(1,2) assms in auto)
  note 4 = exec_WhileTrue.IH(2) [OF exec_WhileTrue.prems]
  show ?case using steps_trans [OF 1] steps_trans [OF 2 steps_trans [OF 3 4]] exec_WhileTrue.hyps(2) by simp
qed

subsection \<open>Keywords\<close>

lemma match_kw_eq:
  assumes "NUL \<notin> set kw"
  shows "match_kw s kw = (if take (length kw) s = kw \<and> \<not> is_ident_char (chd (drop (length kw) s))
    then (True, drop (length kw) s) else (False, s))"
proof -
  have "cstr kw = kw" using assms by (simp add: cstr_no_nul)
  then show ?thesis
    using take_cstr_eq [OF assms, of s]
    by (auto simp: match_kw_def Let_def k_strncmp_eq_0_iff k_strlen_eq is_ident_char_def is_ident_start_def is_digit_def)
qed

definition reserved :: "string set" where
  "reserved = {''int'', ''if'', ''do'', ''while'', ''for'', ''u_puts'', ''u_putc'', ''uput_c'', ''u_sleep'',
     ''break'', ''continue'', ''return''}"

lemma keyword_chars: "kw \<in> reserved \<Longrightarrow> kw \<noteq> [] \<and> is_ident_start (chd kw) \<and> (\<forall>c \<in> set kw. is_ident_char c) \<and> NUL \<notin> set kw"
  unfolding reserved_def
  by (elim insertE emptyE) (simp_all add: is_ident_char_def is_ident_start_def is_digit_def less_eq_char_def)

lemma no_keyword_start:
  assumes "kw \<in> reserved" "\<not> is_ident_start (chd s)"
  shows "match_kw s kw = (False, s)"
proof -
  have "take (length kw) s \<noteq> kw" using keyword_chars [OF assms(1)] assms(2) by (cases s; cases kw) auto
  then show ?thesis using keyword_chars [OF assms(1)] by (simp add: match_kw_eq)
qed

lemma no_keyword_ident:
  assumes "kw \<in> reserved" "ident x" "x \<noteq> kw" "\<not> is_ident_char (chd t)"
  shows "match_kw (x @ t) kw = (False, x @ t)"
proof -
  note k = keyword_chars [OF assms(1)]
  have "is_ident_char (chd (drop (length kw) (x @ t)))" if eq: "take (length kw) (x @ t) = kw"
  proof (cases "length kw < length x")
    case True
    then have "chd (drop (length kw) (x @ t)) = x ! length kw" by (simp add: Cons_nth_drop_Suc [symmetric])
    then show ?thesis using assms(2) True by (auto simp: ident_def)
  next
    case False
    then have kw: "kw = x @ take (length kw - length x) t" using eq by simp
    then have "take (length kw - length x) t \<noteq> []" using assms(3) by (metis append_Nil2)
    then obtain d t' m where t: "t = d # t'" "length kw - length x = Suc m" by (cases t; cases "length kw - length x") auto
    have "kw = x @ take (Suc m) t" using kw t(2) by metis
    then have "chd t \<in> set kw" by (simp add: t(1))
    then show ?thesis using k assms(4) by auto
  qed
  then show ?thesis using k by (auto simp: match_kw_eq)
qed

lemma no_keyword_expr:
  assumes "wf_expr V e" "\<forall>x \<in> V. ident x \<and> x \<notin> reserved" "kw \<in> reserved" "stop t"
  shows "match_kw (show_expr e @ t) kw = (False, show_expr e @ t)"
proof -
  have id: "match_kw (x @ w) kw = (False, x @ w)" if "x \<in> V" "\<not> is_ident_char (chd w)" for x w
    using no_keyword_ident [OF assms(3) _ _ that(2)] assms(2,3) that(1) by blast
  have sym: "\<not> is_ident_char (chd (op_text op @ w))" if "op \<in> arith_ops" for op w
    using that unfolding arith_ops_def
    by (elim insertE emptyE) (simp_all add: op_text_def is_ident_char_def is_ident_start_def is_digit_def less_eq_char_def)
  have eq: "\<not> is_ident_char (CHR ''='')" by (simp add: is_ident_char_def is_ident_start_def is_digit_def less_eq_char_def)
  show ?thesis
  proof (cases e)
    case (Num n)
    then show ?thesis using digits_start [of n] digit_char by (intro no_keyword_start [OF assms(3)]) auto
  next
    case (Var x)
    then show ?thesis using id [of x t] stop_not_ident [OF assms(4)] assms(1) by simp
  next
    case (Assign x a)
    then show ?thesis using id [of x "''='' @ show_expr a @ t"] assms(1) eq by simp
  next
    case (AssignOp op x a)
    then show ?thesis using id [of x "op_text op @ ''='' @ show_expr a @ t"] assms(1) sym by simp
  next
    case (Post op x)
    then show ?thesis using id [of x "op_text op @ op_text op @ t"] assms(1) incr_assign(2) by simp
  next
    case (Unary op a)
    then show ?thesis using sign_start [of op] assms(1) by (intro no_keyword_start [OF assms(3)]) auto
  next
    case (Pre op x)
    then show ?thesis using sign_start [of op] assms(1) by (intro no_keyword_start [OF assms(3)]) auto
  qed (use paren_start in \<open>auto intro!: no_keyword_start [OF assms(3)]\<close>)
qed

subsection \<open>Contexts that differ in the loop table\<close>

definition with_loops :: "tinycc_loop_t list \<Rightarrow> nat \<Rightarrow> tinycc_compile_t \<Rightarrow> tinycc_compile_t" where
  "with_loops lp d c = c\<lparr>loop := lp, loop_depth := d\<rparr>"

lemma with_loops_simps [simp]:
  "pos (with_loops lp d c) = pos c" "cap (with_loops lp d c) = cap c" "out (with_loops lp d c) = out c"
  "loop (with_loops lp d c) = lp" "loop_depth (with_loops lp d c) = d"
  "with_loops lp d (with_loops lp' d' c) = with_loops lp d c" "code_pos (with_loops lp d c) = code_pos c"
  "add_instr i (with_loops lp d c) = with_loops lp d (add_instr i c)"
  "patch_u32 (with_loops lp d c) p target = with_loops lp d (patch_u32 c p target)"
  "pop_loop (with_loops lp (Suc d) c) = with_loops lp d c"
  "find_var (with_loops lp d c) x = find_var c x"
  by (simp_all add: with_loops_def code_pos_def add_instr_def patch_u32_def pop_loop_def find_var_def)

lemma with_loops_self [simp]: "with_loops (loop c) (loop_depth c) c = c"
  by (simp add: with_loops_def)

lemma loops_add_instr [simp]: "loop (add_instr i c) = loop c" "loop_depth (add_instr i c) = loop_depth c"
  by (simp_all add: add_instr_def)

lemma loops_add_code [simp]: "loop (add_code is c) = loop c" "loop_depth (add_code is c) = loop_depth c"
  by (induction "is" arbitrary: c) simp_all

lemma add_code_with_loops [simp]: "add_code is (with_loops lp d c) = with_loops lp d (add_code is c)"
  by (induction "is" arbitrary: c) simp_all

lemma with_loops_add_code [simp]: "with_loops (loop c) (loop_depth c) (add_code is c) = add_code is c"
  using with_loops_self [of "add_code is c"] by simp

lemma room_with_loops [simp]: "room n (with_loops lp d c) = room n c"
  by (simp add: room_def)

lemma knows_with_loops [simp]: "knows sl V (with_loops lp d c) = knows sl V c"
  by (simp add: knows_def)

text \<open>
  What the parser of a statement does: it turns the text \<open>u\<close> into the code \<open>g q\<close>, may use the
  entries of the loop table above the current depth, and needs \<open>k\<close> of them.
\<close>

definition kept :: "tinycc_compile_t \<Rightarrow> tinycc_loop_t list \<Rightarrow> bool" where
  "kept c lp \<longleftrightarrow> length lp = 8 \<and> (\<forall>j < loop_depth c. lp ! j = loop c ! j)"

definition ready :: "(string \<Rightarrow> nat) \<Rightarrow> string set \<Rightarrow> nat \<Rightarrow> nat \<Rightarrow> tinycc_compile_t \<Rightarrow> bool" where
  "ready sl V n k c \<longleftrightarrow> room n c \<and> knows sl V c \<and> loop_depth c + k \<le> 8 \<and> length (loop c) = 8"

definition stm_ok :: "(string \<Rightarrow> nat) \<Rightarrow> string set \<Rightarrow> parser \<Rightarrow> string \<Rightarrow> (nat \<Rightarrow> instr list) \<Rightarrow> nat \<Rightarrow> bool" where
  "stm_ok sl V p u g k \<longleftrightarrow> (\<forall>c t r. ready sl V (length (flat (g (pos c - 8)))) k c \<longrightarrow>
     (\<exists>lp. p (c, u @ t, r) = Ok (with_loops lp (loop_depth c) (add_code (g (pos c - 8)) c), t, r) \<and> kept c lp))"

text \<open>The same in a block, where \<open>u\<close> takes \<open>m\<close> rounds of the loop.\<close>

definition block_ok ::
  "(string \<Rightarrow> nat) \<Rightarrow> string set \<Rightarrow> parser \<Rightarrow> string \<Rightarrow> (nat \<Rightarrow> instr list) \<Rightarrow> nat \<Rightarrow> nat \<Rightarrow> bool"
where
  "block_ok sl V p u g k m \<longleftrightarrow> (\<forall>c t r n. ready sl V (length (flat (g (pos c - 8)))) k c \<longrightarrow>
     (\<exists>lp. block_loop p (m + n) (c, u @ t, r) =
        block_loop p n (with_loops lp (loop_depth c) (add_code (g (pos c - 8)) c), t, r) \<and> kept c lp))"

lemma stm_okD:
  assumes "stm_ok sl V p u g k" "ready sl V (length (flat (g (pos c - 8)))) k c"
  obtains lp where "p (c, u @ t, r) = Ok (with_loops lp (loop_depth c) (add_code (g (pos c - 8)) c), t, r)" "kept c lp"
  using assms unfolding stm_ok_def by blast

lemma block_okD:
  assumes "block_ok sl V p u g k m" "ready sl V (length (flat (g (pos c - 8)))) k c"
  obtains lp where "block_loop p (m + n) (c, u @ t, r) =
      block_loop p n (with_loops lp (loop_depth c) (add_code (g (pos c - 8)) c), t, r)" "kept c lp"
  using assms unfolding block_ok_def by blast

lemma kept_refl: "length (loop c) = 8 \<Longrightarrow> kept c (loop c)"
  by (simp add: kept_def)

lemma readyD:
  assumes "ready sl V n k c"
  shows "room n c" "knows sl V c" "loop_depth c + k \<le> 8" "length (loop c) = 8" "8 \<le> pos c"
  using assms by (auto simp: ready_def room_def)

text \<open>A parser that leaves the loop table alone.\<close>

lemma compiles_stm_ok:
  assumes "compiles sl V (\<lambda>t. True) p u g"
  shows "stm_ok sl V p u g 0"
  unfolding stm_ok_def
proof (intro allI impI)
  fix c :: tinycc_compile_t and t r assume a: "ready sl V (length (flat (g (pos c - 8)))) 0 c"
  let ?c = "add_code (g (pos c - 8)) c"
  show "\<exists>lp. p (c, u @ t, r) = Ok (with_loops lp (loop_depth c) ?c, t, r) \<and> kept c lp"
    using compilesD [OF assms readyD(1,2) [OF a], of t r] kept_refl [OF readyD(4) [OF a]]
    by (intro exI [of _ "loop c"]) simp
qed

lemma block_Skip: "block_ok sl V p [] (\<lambda>q. []) k 0"
  unfolding block_ok_def
proof (intro allI impI)
  fix c :: tinycc_compile_t and t r n assume "ready sl V (length (flat [])) k c"
  then show "\<exists>lp. block_loop p (0 + n) (c, [] @ t, r) = block_loop p n (with_loops lp (loop_depth c) (add_code [] c), t, r) \<and> kept c lp"
    by (intro exI [of _ "loop c"]) (simp add: ready_def kept_def)
qed

lemma block_one:
  assumes "stm_ok sl V p u g k" "\<And>t. solid (u @ t)" "u \<noteq> []" "chd u \<noteq> CHR ''}''"
  shows "block_ok sl V p u g k 1"
  unfolding block_ok_def
proof (intro allI impI)
  fix c :: tinycc_compile_t and t r n assume a: "ready sl V (length (flat (g (pos c - 8)))) k c"
  from assms(1) a obtain lp where lp: "p (c, u @ t, r) = Ok (with_loops lp (loop_depth c) (add_code (g (pos c - 8)) c), t, r)" "kept c lp"
    by (rule stm_okD)
  then show "\<exists>lp. block_loop p (1 + n) (c, u @ t, r) =
      block_loop p n (with_loops lp (loop_depth c) (add_code (g (pos c - 8)) c), t, r) \<and> kept c lp"
    using assms(2) [of t] assms(3,4) by (cases u) (auto simp: Let_def solid_skip simp del: solid_chars)
qed

lemma block_Seq:
  assumes "block_ok sl V p u1 g1 k m1" "block_ok sl V p u2 g2 k m2"
  shows "block_ok sl V p (u1 @ u2) (\<lambda>q. g1 q @ g2 (q + length (flat (g1 q)))) k (m1 + m2)"
  unfolding block_ok_def
proof (intro allI impI)
  fix c :: tinycc_compile_t and t r n
  let ?q = "pos c - 8" let ?g1 = "g1 ?q" let ?g2 = "g2 (?q + length (flat ?g1))"
  assume a: "ready sl V (length (flat (?g1 @ ?g2))) k c"
  note rd = readyD [OF a]
  have "ready sl V (length (flat ?g1)) k c" using a rd by (auto simp: ready_def elim: room_less)
  with assms(1) obtain lp where 1: "block_loop p (m1 + (m2 + n)) (c, u1 @ u2 @ t, r) =
      block_loop p (m2 + n) (with_loops lp (loop_depth c) (add_code ?g1 c), u2 @ t, r)" "kept c lp"
    by (rule block_okD)
  let ?c = "with_loops lp (loop_depth c) (add_code ?g1 c)"
  have q: "pos ?c - 8 = ?q + length (flat ?g1)" using rd(5) by simp
  have "ready sl V (length (flat (g2 (pos ?c - 8)))) k ?c"
    unfolding q using rd 1(2) room_add_code [of ?g1 "length (flat ?g2)" c] by (simp add: ready_def kept_def)
  with assms(2) obtain lp' where 2: "block_loop p (m2 + n) (?c, u2 @ t, r) =
      block_loop p n (with_loops lp' (loop_depth ?c) (add_code (g2 (pos ?c - 8)) ?c), t, r)" "kept ?c lp'"
    by (rule block_okD)
  show "\<exists>lp. block_loop p (m1 + m2 + n) (c, (u1 @ u2) @ t, r) =
      block_loop p n (with_loops lp (loop_depth c) (add_code (?g1 @ ?g2) c), t, r) \<and> kept c lp"
    using 1 2 unfolding q by (intro exI [of _ lp']) (auto simp: add.assoc add_code_append kept_def)
qed

subsection \<open>Statements\<close>

lemma stm_ok_mono: "stm_ok sl V p u g j \<Longrightarrow> j \<le> k \<Longrightarrow> stm_ok sl V p u g k"
  unfolding stm_ok_def ready_def by fastforce

lemma block_ok_mono: "block_ok sl V p u g j m \<Longrightarrow> j \<le> k \<Longrightarrow> block_ok sl V p u g k m"
  unfolding block_ok_def ready_def by fastforce

lemma parse_statement_Suc: "parse_statement (Suc n) = statement (parse_expr (Suc n)) (parse_statement n) (Suc n)"
  by (rule ext) simp

lemma stm_braces:
  assumes "block_ok sl V (parse_statement n) u g k m" "m \<le> n"
  shows "stm_ok sl V (parse_statement (Suc n)) (braces u) g k"
  unfolding stm_ok_def
proof (intro allI impI)
  fix c :: tinycc_compile_t and t r assume a: "ready sl V (length (flat (g (pos c - 8)))) k c"
  from assms(1) a obtain lp where lp: "block_loop (parse_statement n) (m + Suc (n - m)) (c, u @ ''}'' @ t, r) =
      block_loop (parse_statement n) (Suc (n - m)) (with_loops lp (loop_depth c) (add_code (g (pos c - 8)) c), ''}'' @ t, r)"
    "kept c lp" by (rule block_okD)
  have "parse_statement (Suc n) (c, braces u @ t, r) = block_loop (parse_statement n) (Suc n) (c, u @ ''}'' @ t, r)"
    unfolding parse_statement_Suc
    by (simp add: braces_def Let_def solid_skip is_space_def parse_block_def expect_char_solid del: block_loop.simps)
      (cases "block_loop (parse_statement n) (Suc n) (c, u @ CHR ''}'' # t, r)"; simp del: block_loop.simps)
  then show "\<exists>lp. parse_statement (Suc n) (c, braces u @ t, r) = Ok (with_loops lp (loop_depth c) (add_code (g (pos c - 8)) c), t, r) \<and> kept c lp"
    using lp assms(2) by (intro exI [of _ lp]) (simp add: solid_skip is_space_def Let_def)
qed

lemma statement_expr:
  assumes "solid s" "s \<noteq> []" "chd s \<notin> {CHR '';'', CHR ''{''}" "\<And>kw. kw \<in> reserved \<Longrightarrow> match_kw s kw = (False, s)"
  shows "statement pe pstm n (c, s, r) = parse_expr_until pe CHR '';'' (c, s, r)"
  using assms(1-3) assms(4) [unfolded reserved_def] by (simp add: Let_def solid_skip)

lemma show_expr_start:
  assumes "wf_expr V e" "\<forall>x \<in> V. ident x"
  shows "solid (show_expr e @ t)" "show_expr e \<noteq> []" "chd (show_expr e) \<notin> {CHR '';'', CHR ''{'', CHR ''}''}"
    "chd (show_expr e @ t) = chd (show_expr e)"
  using show_start [OF assms] by auto

lemma need_le_length: "wf_expr V e \<Longrightarrow> \<forall>x \<in> V. ident x \<Longrightarrow> need e \<le> length (show_expr e)"
proof (induction e)
  case (Num n)
  then show ?case using digits_start [of n] by auto
qed (auto simp: paren_def ident_def Suc_le_eq)

text \<open>Statements without loops: an expression, \<open>u_putc\<close>.\<close>

lemma stm_ExprS:
  assumes wf: "wf_expr V e" and V: "\<forall>x \<in> V. ident x \<and> x \<notin> reserved" and n: "need e \<le> Suc n"
  shows "stm_ok sl V (parse_statement (Suc n)) (show_stm (ExprS e)) (\<lambda>q. gen_stm sl q (ExprS e)) 0"
proof (rule compiles_stm_ok, rule compilesI)
  fix c :: tinycc_compile_t and t r
  let ?g = "gen sl (pos c - 8) e"
  assume rm: "room (length (flat (gen_stm sl (pos c - 8) (ExprS e)))) c" and k: "knows sl V c"
  have id: "\<forall>x \<in> V. ident x" using V by blast
  have st: "stop ('';'' @ t)" by (simp add: stop_def)
  note ss = show_expr_start [OF wf id]
  have 1: "parse_expr (Suc n) (c, show_expr e @ '';'' @ t, r) = Ok (add_code ?g c, '';'' @ t, r)"
    by (rule compilesD [OF parse_expr_compiles [OF id wf n] _ k st]) (use rm in \<open>auto elim: room_less\<close>)
  have 2: "room 1 (add_code ?g c)" using rm by (auto intro!: room_add_code)
  have "parse_statement (Suc n) (c, show_expr e @ '';'' @ t, r) = parse_expr_until (parse_expr (Suc n)) CHR '';'' (c, show_expr e @ '';'' @ t, r)"
    unfolding parse_statement_Suc
    by (rule statement_expr) (use ss no_keyword_expr [OF wf V _ st] in auto)
  then show "parse_statement (Suc n) (c, show_stm (ExprS e) @ t, r) = Ok (add_code (gen_stm sl (pos c - 8) (ExprS e)) c, t, r)"
    using 1 2 by (simp add: parse_expr_until_def expect_char_solid is_space_def add_instr_code del: parse_expr.simps parse_statement.simps)
qed

lemma stm_PutcS:
  assumes wf: "wf_expr V e" and V: "\<forall>x \<in> V. ident x" and n: "need e \<le> Suc n"
  shows "stm_ok sl V (parse_statement (Suc n)) (show_stm (PutcS e)) (\<lambda>q. gen_stm sl q (PutcS e)) 0"
proof (rule compiles_stm_ok, rule compilesI)
  fix c :: tinycc_compile_t and t r
  let ?g = "gen sl (pos c - 8) e"
  assume rm: "room (length (flat (gen_stm sl (pos c - 8) (PutcS e)))) c" and k: "knows sl V c"
  have 1: "parse_expr (Suc n) (c, show_expr e @ '');'' @ t, r) = Ok (add_code ?g c, '');'' @ t, r)"
    by (rule compilesD [OF parse_expr_compiles [OF V wf n] _ k]) (use rm in \<open>auto simp: stop_def elim: room_less\<close>)
  have 2: "room 1 (add_code ?g c)" using rm by (auto intro!: room_add_code)
  have "parse_statement (Suc n) (c, show_stm (PutcS e) @ t, r) =
      parse_call1 (parse_expr (Suc n)) TCC_OP_PUTC (c, ''('' @ show_expr e @ '');'' @ t, r)"
    unfolding parse_statement_Suc
    by (simp add: paren_def Let_def solid_skip is_space_def match_kw_eq is_ident_char_def is_ident_start_def is_digit_def less_eq_char_def)
  then show "parse_statement (Suc n) (c, show_stm (PutcS e) @ t, r) = Ok (add_code (gen_stm sl (pos c - 8) (PutcS e)) c, t, r)"
    using 1 2 by (simp add: parse_call1_def expect_char_solid is_space_def add_instr_code del: parse_expr.simps parse_statement.simps)
qed

text \<open>A statement behind code that is already there.\<close>

lemma stm_after:
  assumes "stm_ok sl V p u g k" "ready sl V (length (flat is) + length (flat (g q))) k c" "kept c lp"
    "q = pos c - 8 + length (flat is)"
  obtains lp' where "p (with_loops lp (loop_depth c) (add_code is c), u @ t, r) =
    Ok (with_loops lp' (loop_depth c) (add_code (is @ g q) c), t, r)" "kept c lp'"
proof -
  note rd = readyD [OF assms(2)]
  let ?c = "with_loops lp (loop_depth c) (add_code is c)"
  have q: "pos ?c - 8 = q" using rd(5) assms(4) by simp
  have "ready sl V (length (flat (g (pos ?c - 8)))) k ?c"
    unfolding q using rd assms(3) room_add_code [of "is" "length (flat (g q))" c] by (simp add: ready_def kept_def)
  with assms(1) obtain lp' where "p (?c, u @ t, r) = Ok (with_loops lp' (loop_depth ?c) (add_code (g (pos ?c - 8)) ?c), t, r)" "kept ?c lp'"
    by (rule stm_okD)
  then show thesis unfolding q using assms(3) that by (auto simp: add_code_append kept_def)
qed

lemma cond_text:
  assumes "\<forall>x \<in> V. ident x" "wf_expr V e" "need e \<le> n" "room (length (flat (gen sl (pos c - 8) e))) c" "knows sl V c"
  shows "parse_expr n (c, show_expr e @ CHR '')'' # t, r) = Ok (add_code (gen sl (pos c - 8) e) c, CHR '')'' # t, r)"
  by (rule compilesD [OF parse_expr_compiles [OF assms(1-3)] assms(4,5)]) (simp add: stop_def)

lemma emit_jump_after:
  assumes "room (length (flat is) + 5) c"
  shows "emit_jump (with_loops lp d (add_code is c)) op =
    Some (pos c + length (flat is) + 1, with_loops lp d (add_code (is @ [Jump op 0]) c))"
  using room_add_code [OF assms] by (simp add: add_instr_code)

lemma stm_If:
  assumes V: "\<forall>x \<in> V. ident x" and wf: "wf_expr V e" and n: "need e \<le> Suc n"
    and s1: "stm_ok sl V (parse_statement n) (braces u1) (\<lambda>q. gen_stm sl q s1) k"
    and s2: "stm_ok sl V (parse_statement n) (braces u2) (\<lambda>q. gen_stm sl q s2) k"
  shows "stm_ok sl V (parse_statement (Suc n)) (''if'' @ paren (show_expr e) @ braces u1 @ ''else'' @ braces u2)
    (\<lambda>q. gen_stm sl q (If e s1 s2)) k"
  unfolding stm_ok_def
proof (intro allI impI)
  fix c :: tinycc_compile_t and t r
  define p where "p = pos c - 8"
  define ce where "ce = gen sl p e"
  define q where "q = p + length (flat ce) + 5"
  define c1 where "c1 = gen_stm sl q s1"
  define f where "f = q + length (flat c1) + 5"
  define c2 where "c2 = gen_stm sl f s2"
  define m where "m = f + length (flat c2)"
  have gen: "gen_stm sl p (If e s1 s2) = ce @ Jump TCC_OP_JZ (of_nat f) # c1 @ Jump TCC_OP_JMP (of_nat m) # c2"
    by (simp add: Let_def ce_def q_def c1_def f_def c2_def m_def)
  let ?d = "loop_depth c" and ?x0 = "ce @ [Jump TCC_OP_JZ 0]" and ?J = "Jump TCC_OP_JZ (of_nat f)" and ?M = "Jump TCC_OP_JMP 0"
  let ?y0 = "ce @ ?J # c1 @ [?M]"
  let ?t1 = "braces u1 @ ''else'' @ braces u2 @ t"
  assume a: "ready sl V (length (flat (gen_stm sl (pos c - 8) (If e s1 s2)))) k c"
  note a = a [folded p_def, unfolded gen] and pos8 = readyD(5) [OF a] and kn = readyD(2) [OF a]
  have rm: "room j c" if "j \<le> length (flat ce) + length (flat c1) + length (flat c2) + 10" for j
    using readyD(1) [OF a] that by (auto elim: room_less)
  have rdy: "ready sl V j k c" if "j \<le> length (flat ce) + length (flat c1) + length (flat c2) + 10" for j
    using a rm [OF that] by (simp add: ready_def)
  have cp: "code_pos (with_loops lp d (add_code xs c)) = of_nat j" if "j = p + length (flat xs)" for lp d xs j
    using pos8 that by (simp add: code_pos_nat p_def)
  have 1: "parse_expr (Suc n) (c, show_expr e @ CHR '')'' # ?t1, r) = Ok (add_code ce c, CHR '')'' # ?t1, r)"
    unfolding ce_def p_def by (rule cond_text [OF V wf n _ kn]) (use rm in \<open>simp add: ce_def p_def\<close>)
  have j1: "emit_jump (add_code ce c) TCC_OP_JZ = Some (pos c + length (flat ce) + 1, add_code ?x0 c)"
    using emit_jump_after [of ce c "loop c" ?d TCC_OP_JZ] rm by simp
  have kl: "kept c (loop c)" by (rule kept_refl [OF readyD(4) [OF a]])
  have "ready sl V (length (flat ?x0) + length (flat c1)) k c" by (rule rdy) simp
  then obtain lp where 2: "parse_statement n (add_code ?x0 c, ?t1, r) =
      Ok (with_loops lp ?d (add_code (?x0 @ c1) c), ''else'' @ braces u2 @ t, r)" "kept c lp"
    using stm_after [OF s1, of ?x0 q c "loop c" "''else'' @ braces u2 @ t" r] kl
    by (auto simp: q_def p_def c1_def)
  have j2: "emit_jump (with_loops lp ?d (add_code (?x0 @ c1) c)) TCC_OP_JMP =
      Some (pos c + length (flat (?x0 @ c1)) + 1, with_loops lp ?d (add_code (?x0 @ c1 @ [?M]) c))"
    using emit_jump_after [of "?x0 @ c1" c lp ?d TCC_OP_JMP] rm by simp
  have p1: "patch_u32 (with_loops lp ?d (add_code (?x0 @ c1 @ [?M]) c)) (pos c + length (flat ce) + 1) (of_nat f) = with_loops lp ?d (add_code ?y0 c)"
    using patch_code [of ce TCC_OP_JZ 0 "c1 @ [?M]" c "pos c + length (flat ce) + 1" "of_nat f"] rm by simp
  have "ready sl V (length (flat ?y0) + length (flat c2)) k c" by (rule rdy) simp
  then obtain lp' where 3: "parse_statement n (with_loops lp ?d (add_code ?y0 c), braces u2 @ t, r) =
      Ok (with_loops lp' ?d (add_code (?y0 @ c2) c), t, r)" "kept c lp'"
    using stm_after [OF s2, of ?y0 f c lp t r] 2(2) by (auto simp: f_def q_def p_def c2_def)
  have p2: "patch_u32 (with_loops lp' ?d (add_code (?y0 @ c2) c)) (pos c + length (flat (?x0 @ c1)) + 1) (of_nat m) =
      with_loops lp' ?d (add_code (ce @ ?J # c1 @ Jump TCC_OP_JMP (of_nat m) # c2) c)"
    using patch_code [of "ce @ ?J # c1" TCC_OP_JMP 0 c2 c "pos c + length (flat (?x0 @ c1)) + 1" "of_nat m"] rm by simp
  have f: "code_pos (with_loops lp ?d (add_code (?x0 @ c1 @ [?M]) c)) = of_nat f" "code_pos (with_loops lp' ?d (add_code (?y0 @ c2) c)) = of_nat m"
    by (rule cp; simp add: f_def q_def m_def)+
  have "parse_statement (Suc n) (c, (''if'' @ paren (show_expr e) @ braces u1 @ ''else'' @ braces u2) @ t, r) =
      parse_if (parse_expr (Suc n)) (parse_statement n) (c, ''('' @ show_expr e @ CHR '')'' # ?t1, r)"
    unfolding parse_statement_Suc
    by (simp add: paren_def Let_def solid_skip is_space_def match_kw_eq is_ident_char_def is_ident_start_def is_digit_def less_eq_char_def)
  also have "\<dots> = seqp [parse_statement n, parse_else (parse_statement n) (pos c + length (flat ce) + 1)] (add_code ?x0 c, ?t1, r)"
    using 1 j1 by (simp add: expect_char_solid is_space_def del: parse_expr.simps seqp.simps(2) parse_else.simps add: seqp.simps(2))
  also have "\<dots> = parse_else (parse_statement n) (pos c + length (flat ce) + 1) (with_loops lp ?d (add_code (?x0 @ c1) c), ''else'' @ braces u2 @ t, r)"
    using 2(1) by (cases "parse_else (parse_statement n) (pos c + length (flat ce) + 1) (with_loops lp ?d (add_code (?x0 @ c1) c), ''else'' @ braces u2 @ t, r)")
      (simp_all del: parse_else.simps)
  also have "\<dots> = Ok (with_loops lp' ?d (add_code (gen_stm sl p (If e s1 s2)) c), t, r)"
    using j2 p1 f 3(1) p2 unfolding gen
    by (simp add: match_kw_eq solid_skip is_space_def braces_def is_ident_char_def is_ident_start_def is_digit_def less_eq_char_def
        del: with_loops_simps(7,8,9))
  finally show "\<exists>lp. parse_statement (Suc n) (c, (''if'' @ paren (show_expr e) @ braces u1 @ ''else'' @ braces u2) @ t, r) =
      Ok (with_loops lp ?d (add_code (gen_stm sl (pos c - 8) (If e s1 s2)) c), t, r) \<and> kept c lp"
    using 3(2) by (auto simp: p_def)
qed

lemma emit_jump_to:
  assumes "room 5 c"
  obtains c1 where "emit_op c op = Some c1" "emit_u32 c1 target = Some (add_instr (Jump op target) c)"
proof -
  have "(do { c1 \<leftarrow> emit_op c op; emit_u32 c1 target }) = Some (add_instr (Jump op target) c)"
    using emit_instr_eq(4) [of c op target] assms by (simp add: room_def try_add_def)
  then show thesis using that by (auto simp: bind_eq_Some_conv)
qed

lemma while_tail_code:
  assumes rm: "room (length (flat ce) + length (flat c1) + 10) c" and lp: "lp ! d = \<lparr>break_patch = [], continue_patch = []\<rparr>"
    and jz: "jz = pos c + length (flat ce) + 1" and f: "f = pos c - 8 + length (flat ce) + length (flat c1) + 10"
  shows "while_tail d tgt jz (with_loops lp (Suc d) (add_code (ce @ Jump TCC_OP_JZ 0 # c1) c)) =
    Some (with_loops lp d (add_code (ce @ Jump TCC_OP_JZ (of_nat f) # c1 @ [Jump TCC_OP_JMP tgt]) c))"
proof -
  let ?x = "ce @ Jump TCC_OP_JZ 0 # c1"
  let ?c = "with_loops lp (Suc d) (add_code ?x c)" and ?c2 = "with_loops lp (Suc d) (add_code (?x @ [Jump TCC_OP_JMP tgt]) c)"
  have pos8: "8 \<le> pos c" using rm by (simp add: room_def)
  have "room (length (flat ?x) + 5) c" using rm by (auto elim: room_less)
  then have "room 5 ?c" using room_add_code by simp
  then obtain c0 where e: "emit_op ?c TCC_OP_JMP = Some c0" "emit_u32 c0 tgt = Some ?c2"
    by (rule emit_jump_to [where op = TCC_OP_JMP and target = tgt]) (simp add: add_instr_code)
  have cp: "code_pos ?c2 = of_nat f" using pos8 f by (simp add: code_pos_nat)
  have "patch_u32 ?c2 jz (of_nat f) = with_loops lp (Suc d) (add_code (ce @ Jump TCC_OP_JZ (of_nat f) # c1 @ [Jump TCC_OP_JMP tgt]) c)"
    using patch_code [OF _ jz, of TCC_OP_JZ 0 "c1 @ [Jump TCC_OP_JMP tgt]" "of_nat f"] rm by (simp add: ac_simps)
  then show ?thesis
    unfolding while_tail_def using e cp lp by (simp add: Let_def del: with_loops_simps(7,8,9))
qed

lemma stm_While:
  assumes V: "\<forall>x \<in> V. ident x" and wf: "wf_expr V e" and n: "need e \<le> Suc n"
    and s1: "stm_ok sl V (parse_statement n) (braces u1) (\<lambda>q. gen_stm sl q s1) k"
  shows "stm_ok sl V (parse_statement (Suc n)) (''while'' @ paren (show_expr e) @ braces u1) (\<lambda>q. gen_stm sl q (While e s1)) (Suc k)"
  unfolding stm_ok_def
proof (intro allI impI)
  fix c :: tinycc_compile_t and t r
  define p where "p = pos c - 8"
  define ce where "ce = gen sl p e"
  define q where "q = p + length (flat ce) + 5"
  define c1 where "c1 = gen_stm sl q s1"
  define f where "f = q + length (flat c1) + 5"
  have gen: "gen_stm sl p (While e s1) = ce @ Jump TCC_OP_JZ (of_nat f) # c1 @ [Jump TCC_OP_JMP (of_nat p)]"
    by (simp add: Let_def ce_def q_def c1_def f_def)
  let ?d = "loop_depth c" and ?x0 = "ce @ [Jump TCC_OP_JZ 0]" and ?t1 = "braces u1 @ t"
  let ?E = "\<lparr>break_patch = [], continue_patch = []\<rparr>"
  let ?L = "(loop c)[?d := ?E]"
  let ?b = "with_loops ?L (Suc ?d) c"
  assume a: "ready sl V (length (flat (gen_stm sl (pos c - 8) (While e s1)))) (Suc k) c"
  note a = a [folded p_def, unfolded gen] and pos8 = readyD(5) [OF a] and kn = readyD(2) [OF a]
  have rm: "room j c" if "j \<le> length (flat ce) + length (flat c1) + 10" for j
    using readyD(1) [OF a] that by (auto elim: room_less)
  have d: "?d < 8" "length ?L = 8" using readyD(3,4) [OF a] by auto
  have push: "push_loop c = Some (?d, ?b)" using d(1) by (simp add: push_loop_def TCC_LOOP_MAX_def with_loops_def)
  have "parse_expr (Suc n) (?b, show_expr e @ CHR '')'' # ?t1, r) = Ok (add_code (gen sl (pos ?b - 8) e) ?b, CHR '')'' # ?t1, r)"
    by (rule cond_text [OF V wf n]) (use rm kn in \<open>simp_all add: ce_def p_def\<close>)
  then have 1: "parse_expr (Suc n) (?b, show_expr e @ CHR '')'' # ?t1, r) = Ok (add_code ce ?b, CHR '')'' # ?t1, r)"
    by (simp add: ce_def p_def)
  have j1: "emit_jump (add_code ce ?b) TCC_OP_JZ = Some (pos c + length (flat ce) + 1, add_code ?x0 ?b)"
    using emit_jump_after [of ce c ?L "Suc ?d" TCC_OP_JZ] rm by simp
  have rdy: "ready sl V (length (flat ?x0) + length (flat (gen_stm sl q s1))) k ?b"
    using a rm [of "length (flat ?x0) + length (flat c1)"] d by (simp add: ready_def c1_def)
  have kl: "kept ?b ?L" using d by (simp add: kept_def)
  have q: "q = pos ?b - 8 + length (flat ?x0)" by (simp add: q_def p_def)
  from stm_after [OF s1 rdy kl q] obtain lp where
    2: "parse_statement n (with_loops ?L (loop_depth ?b) (add_code ?x0 ?b), ?t1, r) =
      Ok (with_loops lp (loop_depth ?b) (add_code (?x0 @ c1) ?b), t, r)" "kept ?b lp"
    unfolding c1_def by metis
  have lp: "lp ! ?d = ?E" "kept c lp" using 2(2) d readyD(4) [OF a] by (auto simp: kept_def)
  have tail: "while_tail ?d (code_pos c) (pos c + length (flat ce) + 1) (with_loops lp (Suc ?d) (add_code (ce @ Jump TCC_OP_JZ 0 # c1) c)) =
      Some (with_loops lp ?d (add_code (gen_stm sl p (While e s1)) c))"
    unfolding gen code_pos_nat [OF pos8] p_def [symmetric]
    by (rule while_tail_code) (use rm lp in \<open>simp_all add: f_def q_def p_def\<close>)
  have "parse_statement (Suc n) (c, (''while'' @ paren (show_expr e) @ braces u1) @ t, r) =
      parse_while (parse_expr (Suc n)) (parse_statement n) (c, ''('' @ show_expr e @ CHR '')'' # ?t1, r)"
    unfolding parse_statement_Suc
    by (simp add: paren_def Let_def solid_skip is_space_def match_kw_eq is_ident_char_def is_ident_start_def is_digit_def less_eq_char_def)
  also have "\<dots> = Ok (with_loops lp ?d (add_code (gen_stm sl p (While e s1)) c), t, r)"
    using push 1 j1 2(1) tail by (simp add: expect_char_solid is_space_def del: parse_expr.simps gen_stm.simps with_loops_simps(7))
  finally show "\<exists>lp. parse_statement (Suc n) (c, (''while'' @ paren (show_expr e) @ braces u1) @ t, r) =
      Ok (with_loops lp ?d (add_code (gen_stm sl (pos c - 8) (While e s1)) c), t, r) \<and> kept c lp"
    using lp(2) by (auto simp: p_def)
qed

subsection \<open>Whole blocks\<close>

fun rounds :: "stm \<Rightarrow> nat" where
  "rounds Skip = 0"
| "rounds (Seq s1 s2) = rounds s1 + rounds s2"
| "rounds _ = 1"

lemma rounds_le_length: "rounds s \<le> length (show_stm s)"
  by (induction s) auto

text \<open>A text as long as the bound is parsed within it.\<close>

lemma stm_in_braces:
  assumes "\<And>n. length (show_stm s) \<le> n \<Longrightarrow> block_ok sl V (parse_statement n) (show_stm s) (\<lambda>q. gen_stm sl q s) k (rounds s)"
    "length (show_stm s) < n"
  shows "stm_ok sl V (parse_statement n) (braces (show_stm s)) (\<lambda>q. gen_stm sl q s) k"
proof -
  obtain m where n: "n = Suc m" and m: "length (show_stm s) \<le> m" using assms(2) by (cases n) auto
  show ?thesis unfolding n
    by (rule stm_braces [OF assms(1) [OF m]]) (use rounds_le_length [of s] m in linarith)
qed

lemma stm_one:
  assumes "stm_ok sl V (parse_statement n) (show_stm s) (\<lambda>q. gen_stm sl q s) k" "\<And>t. solid (show_stm s @ t)"
    "show_stm s \<noteq> []" "chd (show_stm s) \<noteq> CHR ''}''" "rounds s = 1"
  shows "block_ok sl V (parse_statement n) (show_stm s) (\<lambda>q. gen_stm sl q s) k (rounds s)"
  unfolding assms(5) by (rule block_one [OF assms(1-4)])

lemma block_stm:
  assumes V: "\<forall>x \<in> V. ident x \<and> x \<notin> reserved"
  shows "wf_stm V s \<Longrightarrow> length (show_stm s) \<le> n \<Longrightarrow>
    block_ok sl V (parse_statement n) (show_stm s) (\<lambda>q. gen_stm sl q s) (loops s) (rounds s)"
proof (induction s arbitrary: n)
  case Skip
  show ?case using block_Skip by simp
next
  case (ExprS e)
  have id: "\<forall>x \<in> V. ident x" using V by blast
  from ExprS have wf: "wf_expr V e" by simp
  obtain m where n: "n = Suc m" using ExprS.prems(2) by (cases n) auto
  have "need e \<le> Suc m" using need_le_length [OF wf id] ExprS.prems(2) n by simp
  from stm_ExprS [OF wf V this] show ?case
    unfolding n by (intro stm_one) (use show_expr_start [OF wf id] in auto)
next
  case (PutcS e)
  have id: "\<forall>x \<in> V. ident x" using V by blast
  from PutcS have wf: "wf_expr V e" by simp
  obtain m where n: "n = Suc m" using PutcS.prems(2) by (cases n) auto
  have "need e \<le> Suc m" using need_le_length [OF wf id] PutcS.prems(2) n by (simp add: paren_def)
  from stm_PutcS [OF wf id this] show ?case
    unfolding n by (intro stm_one) (auto simp: is_space_def)
next
  case (Seq s1 s2)
  have "block_ok sl V (parse_statement n) (show_stm s1) (\<lambda>q. gen_stm sl q s1) (loops (Seq s1 s2)) (rounds s1)"
    by (rule block_ok_mono [OF Seq.IH(1)]) (use Seq.prems in auto)
  moreover have "block_ok sl V (parse_statement n) (show_stm s2) (\<lambda>q. gen_stm sl q s2) (loops (Seq s1 s2)) (rounds s2)"
    by (rule block_ok_mono [OF Seq.IH(2)]) (use Seq.prems in auto)
  ultimately show ?case using block_Seq by (simp add: Let_def)
next
  case (If e s1 s2)
  have id: "\<forall>x \<in> V. ident x" using V by blast
  from If have wf: "wf_expr V e" "wf_stm V s1" "wf_stm V s2" by simp_all
  obtain m where n: "n = Suc m" using If.prems(2) by (cases n) auto
  have len: "need e \<le> Suc m" "length (show_stm s1) < m" "length (show_stm s2) < m"
    using need_le_length [OF wf(1) id] If.prems(2) n by (auto simp: paren_def braces_def)
  have "stm_ok sl V (parse_statement m) (braces (show_stm s1)) (\<lambda>q. gen_stm sl q s1) (loops (If e s1 s2))"
    by (rule stm_in_braces [OF block_ok_mono [OF If.IH(1) [OF wf(2)]] len(2)]) auto
  moreover have "stm_ok sl V (parse_statement m) (braces (show_stm s2)) (\<lambda>q. gen_stm sl q s2) (loops (If e s1 s2))"
    by (rule stm_in_braces [OF block_ok_mono [OF If.IH(2) [OF wf(3)]] len(3)]) auto
  ultimately have "stm_ok sl V (parse_statement n) (show_stm (If e s1 s2)) (\<lambda>q. gen_stm sl q (If e s1 s2)) (loops (If e s1 s2))"
    unfolding n show_stm.simps by (rule stm_If [OF id wf(1) len(1)])
  then show ?case by (rule stm_one) (auto simp: is_space_def)
next
  case (While e s)
  have id: "\<forall>x \<in> V. ident x" using V by blast
  from While have wf: "wf_expr V e" "wf_stm V s" by simp_all
  obtain m where n: "n = Suc m" using While.prems(2) by (cases n) auto
  have len: "need e \<le> Suc m" "length (show_stm s) < m"
    using need_le_length [OF wf(1) id] While.prems(2) n by (auto simp: paren_def braces_def)
  have "stm_ok sl V (parse_statement m) (braces (show_stm s)) (\<lambda>q. gen_stm sl q s) (loops s)"
    by (rule stm_in_braces [OF While.IH [OF wf(2)] len(2)])
  then have "stm_ok sl V (parse_statement n) (show_stm (While e s)) (\<lambda>q. gen_stm sl q (While e s)) (loops (While e s))"
    unfolding n show_stm.simps loops.simps by (rule stm_While [OF id wf(1) len(1)])
  then show ?case by (rule stm_one) (auto simp: is_space_def)
qed

subsection \<open>Declarations\<close>

text \<open>The slot of a variable is its place in the list of declarations.\<close>

definition slot_of :: "string list \<Rightarrow> string \<Rightarrow> nat" where
  "slot_of xs x = length (takeWhile (\<lambda>y. y \<noteq> x) xs)"

definition with_vars :: "string list \<Rightarrow> tinycc_compile_t \<Rightarrow> tinycc_compile_t" where
  "with_vars xs c = c\<lparr>vars := length xs, var := xs @ drop (length xs) (var c)\<rparr>"

lemma with_vars_simps [simp]:
  "pos (with_vars xs c) = pos c" "cap (with_vars xs c) = cap c" "out (with_vars xs c) = out c"
  "count (with_vars xs c) = count c" "loop (with_vars xs c) = loop c" "loop_depth (with_vars xs c) = loop_depth c"
  by (simp_all add: with_vars_def)

lemma slot_of_mem:
  assumes "x \<in> set xs"
  shows "slot_of xs x < length xs" "xs ! slot_of xs x = x" "j < slot_of xs x \<Longrightarrow> xs ! j \<noteq> x"
proof -
  show l: "slot_of xs x < length xs" using assms by (induction xs) (auto simp: slot_of_def)
  show "xs ! slot_of xs x = x" using nth_length_takeWhile [of "\<lambda>y. y \<noteq> x" xs] l by (auto simp: slot_of_def)
  assume "j < slot_of xs x"
  then show "xs ! j \<noteq> x"
    unfolding slot_of_def using nth_mem [of j "takeWhile (\<lambda>y. y \<noteq> x) xs"] by (auto simp: takeWhile_nth dest!: set_takeWhileD)
qed

lemma ident_cstr: "ident x \<Longrightarrow> cstr x = x"
  by (rule cstr_no_nul) (auto simp: ident_def is_ident_char_def is_ident_start_def is_digit_def less_eq_char_def)

lemma find_with_vars:
  assumes "\<forall>y \<in> set xs. ident y" "ident x"
  shows "find_var (with_vars xs c) x = (if x \<in> set xs then Some (slot_of xs x) else None)"
proof -
  have eq: "str_eq (var (with_vars xs c) ! i) x \<longleftrightarrow> xs ! i = x" if "i < length xs" for i
    using that assms nth_mem [OF that] by (simp add: with_vars_def nth_append ident_cstr)
  show ?thesis
  proof (cases "x \<in> set xs")
    case True
    then show ?thesis
      using slot_of_mem [OF True] eq unfolding find_var_def
      by (simp add: with_vars_def [of xs c]) (intro find_upt_SomeI; auto simp: with_vars_def)
  next
    case False
    then have "\<not> str_eq (var (with_vars xs c) ! i) x" if "i < length xs" for i
      using eq [OF that] nth_mem [OF that] by metis
    then show ?thesis using False by (auto simp: find_var_def find_upt_None, simp add: with_vars_def)
  qed
qed

lemma knows_with_vars:
  assumes "\<forall>y \<in> set xs. ident y"
  shows "knows (slot_of xs) (set xs) (with_vars xs c)"
  using assms find_with_vars [OF assms] by (simp add: knows_def)

lemma tcc_copy_ident: "length x \<le> k \<Longrightarrow> NUL \<notin> set x \<Longrightarrow> tcc_copy_name k x = x"
  by (induction k x rule: tcc_copy_name.induct) auto

lemma declare_with_vars:
  assumes "\<forall>y \<in> set xs. ident y" "ident x" "x \<notin> set xs" "length xs < 32" "length (var c) = 32"
  shows "declare_var (with_vars xs c) x = Some (length xs, with_vars (xs @ [x]) c)"
proof -
  have "NUL \<notin> set x" using ident_cstr [OF assms(2)] by (metis nul_notin_cstr)
  then have "tcc_copy_name 31 x = x" by (intro tcc_copy_ident) (use assms(2) in \<open>auto simp: ident_def\<close>)
  moreover have "(xs @ drop (length xs) (var c))[length xs := x] = (xs @ [x]) @ drop (Suc (length xs)) (var c)"
    using assms(4,5) by (simp add: Cons_nth_drop_Suc [symmetric])
  ultimately show ?thesis
    using assms(4) find_with_vars [OF assms(1,2), of c] assms(3)
    by (simp add: declare_var_def TCC_MAX_VARS_def TCC_VAR_NAME_MAX_def, simp add: with_vars_def)
qed

lemma skip_space: "skip_ws_and_comments (CHR '' '' # s) = skip_ws_and_comments s"
  by (subst (1 2) skip_ws_and_comments.simps) (simp add: is_space_def)

definition decl_text :: "string list \<Rightarrow> string" where
  "decl_text xs = concat (map (\<lambda>x. ''int '' @ x @ '';'') xs)"

lemma parse_declare:
  assumes "\<forall>y \<in> set ys. ident y" "ident x" "x \<notin> set ys" "length ys < 32" "length (var c) = 32"
  shows "parse_statement (Suc n) (with_vars ys c, (''int '' @ x @ '';'') @ t, r) = Ok (with_vars (ys @ [x]) c, t, r)"
proof -
  have "parse_identifier (CHR '' '' # x @ CHR '';'' # t) TCC_VAR_NAME_MAX = parse_identifier (x @ CHR '';'' # t) TCC_VAR_NAME_MAX"
    by (simp add: parse_identifier_def skip_space)
  also have "\<dots> = (Some x, CHR '';'' # t)"
    by (rule parse_identifier_ident [OF assms(2)]) (simp add: is_ident_char_def is_ident_start_def is_digit_def less_eq_char_def)
  finally have id: "parse_identifier (CHR '' '' # x @ CHR '';'' # t) TCC_VAR_NAME_MAX = (Some x, CHR '';'' # t)" .
  have "parse_statement (Suc n) (with_vars ys c, (''int '' @ x @ '';'') @ t, r) =
      parse_declaration (parse_expr (Suc n)) (Suc n) CHR '';'' (with_vars ys c, CHR '' '' # x @ CHR '';'' # t, r)"
    unfolding parse_statement_Suc
    by (simp add: Let_def solid_skip is_space_def match_kw_eq is_ident_char_def is_ident_start_def is_digit_def less_eq_char_def)
  then show ?thesis
    using id declare_with_vars [OF assms]
    by (simp add: parse_declaration_def match_str_solid expect_char_solid is_space_def del: parse_statement.simps)
qed

subsection \<open>The whole source\<close>

lemma compile_statement:
  assumes "solid s" "s \<noteq> []" "chd s \<notin> {NUL, CHR ''#'', CHR ''}''}" "parse_statement (Suc (length s)) (c, s, r) = Ok st"
  shows "compile_loop (Suc n) True sa (c, s, r) = compile_loop n True True st"
  using assms by (simp add: Let_def solid_skip skip_preprocessor_line_def del: parse_statement.simps)

lemma compile_decls:
  assumes "\<forall>y \<in> set (ys @ xs). ident y" "distinct (ys @ xs)" "length (ys @ xs) \<le> 32" "length (var c) = 32"
  shows "\<exists>sa'. compile_loop (length xs + k) True sa (with_vars ys c, decl_text xs @ t, r) =
    compile_loop k True sa' (with_vars (ys @ xs) c, t, r)"
  using assms
proof (induction xs arbitrary: ys sa)
  case Nil
  then show ?case by (auto simp: decl_text_def)
next
  case (Cons x xs)
  let ?s = "(''int '' @ x @ '';'') @ decl_text xs @ t"
  have "compile_loop (Suc (length xs + k)) True sa (with_vars ys c, ?s, r) =
      compile_loop (length xs + k) True True (with_vars (ys @ [x]) c, decl_text xs @ t, r)"
    by (rule compile_statement [OF _ _ _ parse_declare]) (use Cons.prems in \<open>auto simp: is_space_def\<close>)
  moreover obtain sa' where "compile_loop (length xs + k) True True (with_vars (ys @ [x]) c, decl_text xs @ t, r) =
      compile_loop k True sa' (with_vars ((ys @ [x]) @ xs) c, t, r)"
    using Cons.IH [of "ys @ [x]" True] Cons.prems by auto
  ultimately show ?case by (auto simp: decl_text_def simp del: compile_loop.simps)
qed

definition prog_text :: "string list \<Rightarrow> stm \<Rightarrow> string" where
  "prog_text xs s = ''int main(void){'' @ decl_text xs @ braces (show_stm s) @ ''}''"

text \<open>The code of the program: that of its body, then the implicit \<open>return 0\<close>.\<close>

definition prog_code :: "string list \<Rightarrow> stm \<Rightarrow> instr list" where
  "prog_code xs s = gen_stm (slot_of xs) 0 s @ [Const 0, Plain TCC_OP_RET]"

definition wf_prog :: "string list \<Rightarrow> stm \<Rightarrow> bool" where
  "wf_prog xs s \<longleftrightarrow> (\<forall>x \<in> set xs. ident x \<and> x \<notin> reserved) \<and> distinct xs \<and> length xs \<le> 32 \<and>
     wf_stm (set xs) s \<and> loops s \<le> 8"

lemma compile_header:
  "compile_loop (Suc n) False sa (c, ''int main(void){'' @ t, r) = compile_loop n True sa (c, t, r)"
  by (simp add: Let_def solid_skip is_space_def skip_preprocessor_line_def starts_decl_like_def match_word_prefix_def
      k_strncmp_eq_0_iff k_strlen_eq cstr_Cons less_char_def skip_decl_or_header_def)

lemma compile_close: "compile_loop (Suc (Suc n)) True sa (c, ''}'', r) = Done False sa r c"
  by (simp add: Let_def solid_skip is_space_def skip_preprocessor_line_def)

lemma init_ctx_vars: "with_vars [] (init_ctx outb) = init_ctx outb" "length (var (init_ctx outb)) = 32"
  "loop_depth (init_ctx outb) = 0" "length (loop (init_ctx outb)) = 8" "pos (init_ctx outb) = 8"
  by (simp_all add: with_vars_def init_ctx_def TCC_MAX_VARS_def TCC_LOOP_MAX_def)

lemma compile_prog:
  assumes wf: "wf_prog xs s" and room: "8 + length (flat (prog_code xs s)) \<le> length outb"
  shows "\<exists>lp. compile_loop (Suc (length (prog_text xs s))) False False (init_ctx outb, prog_text xs s, False) =
    Done False True False (with_loops lp 0 (add_code (gen_stm (slot_of xs) 0 s) (with_vars xs (init_ctx outb))))"
proof -
  let ?c = "with_vars xs (init_ctx outb)" and ?b = "braces (show_stm s)"
  let ?g = "gen_stm (slot_of xs) 0 s"
  note w = wf [unfolded wf_prog_def]
  have len: "length xs \<le> length (decl_text xs)" by (induction xs) (auto simp: decl_text_def)
  define k where "k = length (prog_text xs s) - length xs - 3"
  have fuel: "Suc (length (prog_text xs s)) = Suc (length xs + Suc (Suc (Suc k)))"
    using len by (auto simp: k_def prog_text_def braces_def)
  have cap: "cap (init_ctx outb) = length outb" "length (out (init_ctx outb)) = length outb"
    using room by (simp_all add: init_ctx_def)
  have rdy: "ready (slot_of xs) (set xs) (length (flat ?g)) (loops s) ?c"
    using w room cap init_ctx_vars by (simp add: ready_def room_def knows_with_vars prog_code_def)
  have "stm_ok (slot_of xs) (set xs) (parse_statement (Suc (length (?b @ ''}'')))) ?b (\<lambda>q. gen_stm (slot_of xs) q s) (loops s)"
    by (rule stm_in_braces [OF block_stm]) (use w in \<open>auto simp: braces_def\<close>)
  then obtain lp where b: "parse_statement (Suc (length (?b @ ''}''))) (?c, ?b @ ''}'', False) =
      Ok (with_loops lp 0 (add_code ?g ?c), ''}'', False)"
    using rdy init_ctx_vars by (auto elim!: stm_okD [where c = ?c and t = "''}''" and r = False])
  obtain sa where d: "compile_loop (length xs + Suc (Suc (Suc k))) True False (with_vars [] (init_ctx outb), decl_text xs @ ?b @ ''}'', False) =
      compile_loop (Suc (Suc (Suc k))) True sa (with_vars ([] @ xs) (init_ctx outb), ?b @ ''}'', False)"
    using compile_decls [of "[]" xs "init_ctx outb" "Suc (Suc (Suc k))" False "?b @ ''}''" False] w init_ctx_vars(2) by auto
  have e: "compile_loop (Suc (Suc (Suc k))) True sa (?c, ?b @ ''}'', False) =
      compile_loop (Suc (Suc k)) True True (with_loops lp 0 (add_code ?g ?c), ''}'', False)"
    by (rule compile_statement [OF _ _ _ b]) (auto simp: braces_def is_space_def)
  have "compile_loop (Suc (length (prog_text xs s))) False False (init_ctx outb, prog_text xs s, False) =
      compile_loop (length xs + Suc (Suc (Suc k))) True False (init_ctx outb, decl_text xs @ ?b @ ''}'', False)"
    unfolding fuel by (subst prog_text_def, rule compile_header)
  then show ?thesis using d e compile_close by (auto simp: init_ctx_vars(1) simp del: compile_loop.simps)
qed

subsection \<open>Compile and run\<close>

lemma finish_code:
  assumes "room (length (flat is) + 6) c" "pos c = 8"
  shows "\<exists>b. finish False (with_loops lp d (add_code is c)) = Some (b, 8 + length (flat is) + 6) \<and>
    length b = length (out c) \<and> code_at (take (8 + length (flat is) + 6) b) 8 (is @ [Const 0, Plain TCC_OP_RET])"
proof -
  let ?is = "is @ [Const 0, Plain TCC_OP_RET]"
  have r: "room 5 (add_code is c)" "room 1 (add_code (is @ [Const 0]) c)" "room (length (flat ?is)) c"
    using assms(1) by (auto intro!: room_add_code elim!: room_less)
  let ?c = "with_loops lp d (add_code ?is c)"
  let ?b = "write_u32 (out ?c) 4 (count ?c)"
  have f: "finish False (with_loops lp d (add_code is c)) = Some (?b, 8 + length (flat is) + 6)"
    using r assms(2) by (simp add: finish_def add_instr_code)
  have len: "8 + length (flat ?is) \<le> length (out c)" using r(3) assms(2) by (simp add: room_def)
  have o: "out ?c = put_bytes (out c) 8 (flat ?is)" using add_code_eq [OF r(3)] assms(2) by simp
  have "drop 8 ?b = drop 8 (put_bytes (out c) 8 (flat ?is))" unfolding o by (simp add: write_u32_def)
  then have d: "drop 8 ?b = flat ?is @ drop (8 + length (flat ?is)) (out c)" using len by (simp add: put_bytes_def)
  have "length ?b = length (out c)" unfolding o using len by simp
  moreover have "code_at (take (8 + length (flat is) + 6) ?b) 8 ?is"
    unfolding code_at_def drop_take d by simp
  ultimately show ?thesis using f by blast
qed

lemma step_ret:
  assumes "instr_at b p (Plain TCC_OP_RET)"
  shows "vm_step slp b (at v p (x # stk) vs) = Break (at v (p + 1) stk vs)"
  using instr_at_plain [OF assms] by (simp add: vm_eval)

lemma vm_start_run: "vm_start y = run_at (vm_start y) 8 (replicate 32 0) y"
  by (simp add: vm_start_def run_at_def at_def TCC_MAX_VARS_def)

lemma run_prog:
  assumes wf: "wf_prog xs s" and ex: "exec (slot_of xs) s (replicate 32 0) y vs' y'"
    and code: "code_at b 8 (prog_code xs s)" and len: "length b = 8 + length (flat (prog_code xs s))" "length b < 2 ^ 32"
  shows "\<exists>v. vm_run slp b (vm_start y) = Some (Break v) \<and> vsys v = y' \<and> vvars v = vs'"
proof -
  let ?g = "gen_stm (slot_of xs) 0 s" and ?v = "vm_start y"
  let ?q = "8 + length (flat ?g)"
  have sl: "\<forall>x \<in> set xs. slot_of xs x < 32" using wf slot_of_mem(1) by (fastforce simp: wf_prog_def)
  have c: "code_at b 8 ?g" "instr_at b ?q (Const 0)" "instr_at b (?q + 5) (Plain TCC_OP_RET)"
    using code by (simp_all add: prog_code_def code_at_append code_at_Cons add.assoc)
  have "vm_steps slp b (run_at ?v (8 + 0) (replicate 32 0) y) (run_at ?v (8 + 0 + length (flat ?g)) vs' y')"
    by (rule exec_steps [OF ex sl len(2)]) (use wf c len(1) in \<open>simp_all add: wf_prog_def prog_code_def\<close>)
  then have 1: "vm_steps slp b ?v (run_at ?v ?q vs' y')" using vm_start_run [of y] by simp
  have 2: "vm_steps slp b (run_at ?v ?q vs' y') (at (?v\<lparr>vsys := y'\<rparr>) (?q + 5) [0] vs')"
    unfolding run_at_def by (rule steps_one [OF step_const [OF c(2)]]) simp
  have "vm_run slp b ?v = vm_run slp b (at (?v\<lparr>vsys := y'\<rparr>) (?q + 5) [0] vs')"
    by (rule steps_run [OF steps_trans [OF 1 2]])
  also have "\<dots> = Some (Break (at (?v\<lparr>vsys := y'\<rparr>) (?q + 5 + 1) [] vs'))"
    by (subst vm_run.simps) (simp only: step_ret [OF c(3)] vm_out.case)
  finally show ?thesis by auto
qed


text \<open>A countdown: \<open>int main(void){int i;{i=2;while(i){u_putc((64)+(i));--i;}}}\<close> prints \<open>BA\<close>.\<close>

definition countdown :: stm where
  "countdown = Seq (ExprS (Assign ''i'' (Num 2)))
     (While (Var ''i'') (Seq (PutcS (Bin TCC_OP_ADD (Num 64) (Var ''i''))) (ExprS (Pre TCC_OP_SUB ''i''))))"

lemma countdown_exec:
  "exec (slot_of [''i'']) countdown (replicate 32 0) y (replicate 32 0) (putc_sys 65 (putc_sys 66 y))"
proof -
  let ?sl = "slot_of [''i'']" and ?vs = "\<lambda>k :: s32. k # replicate 31 0"
  let ?body = "Seq (PutcS (Bin TCC_OP_ADD (Num 64) (Var ''i''))) (ExprS (Pre TCC_OP_SUB ''i''))"
  have sl: "?sl ''i'' = 0" by (simp add: slot_of_def)
  have vs0: "replicate 32 0 = ?vs 0" by (simp add: numeral_eq_Suc)
  have body: "exec ?sl ?body (?vs k) z (?vs (k - 1)) (putc_sys (64 + k) z)" for k z
  proof (rule exec_Seq)
    show "exec ?sl (PutcS (Bin TCC_OP_ADD (Num 64) (Var ''i''))) (?vs k) z (?vs k) (putc_sys (64 + k) z)"
      by (rule exec_PutcS) (simp add: sl apply_op_def int_op_def wi_hom_syms)
    show "exec ?sl (ExprS (Pre TCC_OP_SUB ''i'')) (?vs k) (putc_sys (64 + k) z) (?vs (k - 1)) (putc_sys (64 + k) z)"
      by (rule exec_ExprS [where x = "k - 1"]) (simp add: sl apply_op_def int_op_def wi_hom_syms, simp add: Let_def)
  qed
  have stop: "exec ?sl (While (Var ''i'') ?body) (?vs 0) z (?vs 0) z" for z
    by (rule exec_WhileFalse) (simp add: sl)
  have step: "exec ?sl (While (Var ''i'') ?body) (?vs k) z vs' z'"
    if "k \<noteq> 0" "exec ?sl (While (Var ''i'') ?body) (?vs (k - 1)) (putc_sys (64 + k) z) vs' z'" for k z vs' z'
    by (rule exec_WhileTrue [OF _ that(1) body that(2)]) (simp add: sl)
  have "exec ?sl (While (Var ''i'') ?body) (?vs 1) (putc_sys 66 y) (?vs 0) (putc_sys 65 (putc_sys 66 y))"
    by (rule step) (use stop in simp_all)
  then have "exec ?sl (While (Var ''i'') ?body) (?vs 2) y (?vs 0) (putc_sys 65 (putc_sys 66 y))"
    by (intro step [of 2]) simp_all
  moreover have "exec ?sl (ExprS (Assign ''i'' (Num 2))) (?vs 0) y (?vs 2) y"
    by (rule exec_ExprS) (simp add: sl)
  ultimately show ?thesis unfolding countdown_def vs0 by (rule exec_Seq [rotated])
qed

lemma countdown_wf: "wf_prog [''i''] countdown" "length (flat (prog_code [''i''] countdown)) = 48"
  by (code_simp, code_simp)


end
