(* ===== verification/Fb.thy ===== *)
theory Fb
  imports Prelude
begin

text \<open>
  The framebuffer and its text console (\<^verbatim>\<open>src/fb.c\<close>). The state holds the geometry the GPU
  answered, the video memory as 32-bit words counted from \<open>fb_ptr\<close>, and the console
  variables. All coordinates are 32-bit unsigned words and wrap as in C; a store goes to
  whatever index the code computes, inside the frame or not. The mailbox exchange is a
  parameter of \<open>fb_init\<close>.

  A frame operation is shown to be a \<open>paint\<close>: a change of visible pixels only. On that
  level the console refines a terminal of character cells (\<open>term_putc\<close>).
\<close>

unbundle bit_operations_syntax

subsection \<open>State\<close>

record fb =
  fb_ptr :: u64
  fb_mem :: "nat \<Rightarrow> u32"
  fb_w :: u32
  fb_h :: u32
  fb_p :: u32
  fb_size :: u32
  fb_mirror :: int
  con_cx :: u32
  con_cy :: u32
  con_cols :: u32
  con_rows :: u32
  con_x0 :: u32
  con_y0 :: u32
  con_fg :: u32
  con_bg :: u32
  con_enabled :: bool

text \<open>The \<open>8\<times>8\<close> font for the characters 32 to 126, one byte per row.\<close>

definition font8x8 :: "u8 list list" where
  "font8x8 =
    [[0x00, 0x00, 0x00, 0x00, 0x00, 0x00, 0x00, 0x00],
     [0x18, 0x3C, 0x3C, 0x18, 0x18, 0x00, 0x18, 0x00],
     [0x36, 0x36, 0x14, 0x00, 0x00, 0x00, 0x00, 0x00],
     [0x36, 0x36, 0x7F, 0x36, 0x7F, 0x36, 0x36, 0x00],
     [0x0C, 0x3E, 0x03, 0x1E, 0x30, 0x1F, 0x0C, 0x00],
     [0x00, 0x63, 0x33, 0x18, 0x0C, 0x66, 0x63, 0x00],
     [0x1C, 0x36, 0x1C, 0x6E, 0x3B, 0x33, 0x6E, 0x00],
     [0x06, 0x06, 0x03, 0x00, 0x00, 0x00, 0x00, 0x00],
     [0x18, 0x0C, 0x06, 0x06, 0x06, 0x0C, 0x18, 0x00],
     [0x06, 0x0C, 0x18, 0x18, 0x18, 0x0C, 0x06, 0x00],
     [0x00, 0x66, 0x3C, 0xFF, 0x3C, 0x66, 0x00, 0x00],
     [0x00, 0x0C, 0x0C, 0x3F, 0x0C, 0x0C, 0x00, 0x00],
     [0x00, 0x00, 0x00, 0x00, 0x00, 0x0C, 0x0C, 0x06],
     [0x00, 0x00, 0x00, 0x3F, 0x00, 0x00, 0x00, 0x00],
     [0x00, 0x00, 0x00, 0x00, 0x00, 0x0C, 0x0C, 0x00],
     [0x60, 0x30, 0x18, 0x0C, 0x06, 0x03, 0x01, 0x00],
     [0x3E, 0x63, 0x73, 0x7B, 0x6F, 0x67, 0x3E, 0x00],
     [0x0C, 0x0E, 0x0C, 0x0C, 0x0C, 0x0C, 0x3F, 0x00],
     [0x1E, 0x33, 0x30, 0x1C, 0x06, 0x33, 0x3F, 0x00],
     [0x1E, 0x33, 0x30, 0x1C, 0x30, 0x33, 0x1E, 0x00],
     [0x38, 0x3C, 0x36, 0x33, 0x7F, 0x30, 0x78, 0x00],
     [0x3F, 0x03, 0x1F, 0x30, 0x30, 0x33, 0x1E, 0x00],
     [0x1C, 0x06, 0x03, 0x1F, 0x33, 0x33, 0x1E, 0x00],
     [0x3F, 0x33, 0x30, 0x18, 0x0C, 0x0C, 0x0C, 0x00],
     [0x1E, 0x33, 0x33, 0x1E, 0x33, 0x33, 0x1E, 0x00],
     [0x1E, 0x33, 0x33, 0x3E, 0x30, 0x18, 0x0E, 0x00],
     [0x00, 0x0C, 0x0C, 0x00, 0x00, 0x0C, 0x0C, 0x00],
     [0x00, 0x0C, 0x0C, 0x00, 0x00, 0x0C, 0x0C, 0x06],
     [0x18, 0x0C, 0x06, 0x03, 0x06, 0x0C, 0x18, 0x00],
     [0x00, 0x00, 0x3F, 0x00, 0x00, 0x3F, 0x00, 0x00],
     [0x06, 0x0C, 0x18, 0x30, 0x18, 0x0C, 0x06, 0x00],
     [0x1E, 0x33, 0x30, 0x18, 0x0C, 0x00, 0x0C, 0x00],
     [0x3E, 0x63, 0x7B, 0x7B, 0x7B, 0x03, 0x1E, 0x00],
     [0x0C, 0x1E, 0x33, 0x33, 0x3F, 0x33, 0x33, 0x00],
     [0x3F, 0x66, 0x66, 0x3E, 0x66, 0x66, 0x3F, 0x00],
     [0x3C, 0x66, 0x03, 0x03, 0x03, 0x66, 0x3C, 0x00],
     [0x1F, 0x36, 0x66, 0x66, 0x66, 0x36, 0x1F, 0x00],
     [0x7F, 0x46, 0x16, 0x1E, 0x16, 0x46, 0x7F, 0x00],
     [0x7F, 0x46, 0x16, 0x1E, 0x16, 0x06, 0x0F, 0x00],
     [0x3C, 0x66, 0x03, 0x03, 0x73, 0x66, 0x7C, 0x00],
     [0x33, 0x33, 0x33, 0x3F, 0x33, 0x33, 0x33, 0x00],
     [0x1E, 0x0C, 0x0C, 0x0C, 0x0C, 0x0C, 0x1E, 0x00],
     [0x78, 0x30, 0x30, 0x30, 0x33, 0x33, 0x1E, 0x00],
     [0x67, 0x66, 0x36, 0x1E, 0x36, 0x66, 0x67, 0x00],
     [0x0F, 0x06, 0x06, 0x06, 0x46, 0x66, 0x7F, 0x00],
     [0x63, 0x77, 0x7F, 0x7F, 0x6B, 0x63, 0x63, 0x00],
     [0x63, 0x67, 0x6F, 0x7B, 0x73, 0x63, 0x63, 0x00],
     [0x1C, 0x36, 0x63, 0x63, 0x63, 0x36, 0x1C, 0x00],
     [0x3F, 0x66, 0x66, 0x3E, 0x06, 0x06, 0x0F, 0x00],
     [0x1E, 0x33, 0x33, 0x33, 0x3B, 0x1E, 0x38, 0x00],
     [0x3F, 0x66, 0x66, 0x3E, 0x36, 0x66, 0x67, 0x00],
     [0x1E, 0x33, 0x07, 0x0E, 0x38, 0x33, 0x1E, 0x00],
     [0x3F, 0x2D, 0x0C, 0x0C, 0x0C, 0x0C, 0x1E, 0x00],
     [0x33, 0x33, 0x33, 0x33, 0x33, 0x33, 0x3F, 0x00],
     [0x33, 0x33, 0x33, 0x33, 0x33, 0x1E, 0x0C, 0x00],
     [0x63, 0x63, 0x63, 0x6B, 0x7F, 0x77, 0x63, 0x00],
     [0x63, 0x63, 0x36, 0x1C, 0x1C, 0x36, 0x63, 0x00],
     [0x33, 0x33, 0x33, 0x1E, 0x0C, 0x0C, 0x1E, 0x00],
     [0x7F, 0x63, 0x31, 0x18, 0x4C, 0x66, 0x7F, 0x00],
     [0x1E, 0x06, 0x06, 0x06, 0x06, 0x06, 0x1E, 0x00],
     [0x03, 0x06, 0x0C, 0x18, 0x30, 0x60, 0x40, 0x00],
     [0x1E, 0x18, 0x18, 0x18, 0x18, 0x18, 0x1E, 0x00],
     [0x08, 0x1C, 0x36, 0x63, 0x00, 0x00, 0x00, 0x00],
     [0x00, 0x00, 0x00, 0x00, 0x00, 0x00, 0x00, 0xFF],
     [0x0C, 0x0C, 0x18, 0x00, 0x00, 0x00, 0x00, 0x00],
     [0x00, 0x00, 0x1E, 0x30, 0x3E, 0x33, 0x6E, 0x00],
     [0x07, 0x06, 0x06, 0x3E, 0x66, 0x66, 0x3B, 0x00],
     [0x00, 0x00, 0x1E, 0x33, 0x03, 0x33, 0x1E, 0x00],
     [0x38, 0x30, 0x30, 0x3E, 0x33, 0x33, 0x6E, 0x00],
     [0x00, 0x00, 0x1E, 0x33, 0x3F, 0x03, 0x1E, 0x00],
     [0x1C, 0x36, 0x06, 0x0F, 0x06, 0x06, 0x0F, 0x00],
     [0x00, 0x00, 0x6E, 0x33, 0x33, 0x3E, 0x30, 0x1F],
     [0x07, 0x06, 0x36, 0x6E, 0x66, 0x66, 0x67, 0x00],
     [0x0C, 0x00, 0x0E, 0x0C, 0x0C, 0x0C, 0x1E, 0x00],
     [0x30, 0x00, 0x30, 0x30, 0x30, 0x33, 0x33, 0x1E],
     [0x07, 0x06, 0x66, 0x36, 0x1E, 0x36, 0x67, 0x00],
     [0x0E, 0x0C, 0x0C, 0x0C, 0x0C, 0x0C, 0x1E, 0x00],
     [0x00, 0x00, 0x33, 0x7F, 0x7F, 0x6B, 0x63, 0x00],
     [0x00, 0x00, 0x1F, 0x33, 0x33, 0x33, 0x33, 0x00],
     [0x00, 0x00, 0x1E, 0x33, 0x33, 0x33, 0x1E, 0x00],
     [0x00, 0x00, 0x3B, 0x66, 0x66, 0x3E, 0x06, 0x0F],
     [0x00, 0x00, 0x6E, 0x33, 0x33, 0x3E, 0x30, 0x78],
     [0x00, 0x00, 0x3B, 0x6E, 0x66, 0x06, 0x0F, 0x00],
     [0x00, 0x00, 0x3E, 0x03, 0x1E, 0x30, 0x1F, 0x00],
     [0x08, 0x0C, 0x3E, 0x0C, 0x0C, 0x2C, 0x18, 0x00],
     [0x00, 0x00, 0x33, 0x33, 0x33, 0x33, 0x6E, 0x00],
     [0x00, 0x00, 0x33, 0x33, 0x33, 0x1E, 0x0C, 0x00],
     [0x00, 0x00, 0x63, 0x6B, 0x7F, 0x7F, 0x36, 0x00],
     [0x00, 0x00, 0x63, 0x36, 0x1C, 0x36, 0x63, 0x00],
     [0x00, 0x00, 0x33, 0x33, 0x33, 0x3E, 0x30, 0x1F],
     [0x00, 0x00, 0x3F, 0x19, 0x0C, 0x26, 0x3F, 0x00],
     [0x38, 0x0C, 0x0C, 0x07, 0x0C, 0x0C, 0x38, 0x00],
     [0x18, 0x18, 0x18, 0x00, 0x18, 0x18, 0x18, 0x00],
     [0x07, 0x0C, 0x0C, 0x38, 0x0C, 0x0C, 0x07, 0x00],
     [0x6E, 0x3B, 0x00, 0x00, 0x00, 0x00, 0x00, 0x00]]"

subsection \<open>Set-up\<close>

text \<open>The property-tag message of \<open>fb_init\<close>.\<close>

definition fb_request :: "u32 \<Rightarrow> u32 \<Rightarrow> u32 list" where
  "fb_request width height =
     [35 * 4, 0,
      0x00048003, 8, 0, width, height,
      0x00048004, 8, 0, width, height,
      0x00048009, 8, 0, 0, 0,
      0x00048005, 4, 0, 32,
      0x00048006, 4, 0, 1,
      0x00040001, 8, 0, 4096, 0,
      0x00040008, 4, 0, 0,
      0, 0]"

text \<open>
  \<open>mbox_call\<close> is the exchange with the GPU: whether it was answered, the message buffer
  afterwards, and the contents of the memory it handed out.
\<close>

definition fb_init :: "(u32 list \<Rightarrow> bool \<times> u32 list \<times> (nat \<Rightarrow> u32)) \<Rightarrow> u32 \<Rightarrow> u32 \<Rightarrow> fb \<Rightarrow> int \<times> fb" where
  "fb_init mbox_call width height s =
     (let (answered, mbox_buf, vram) = mbox_call (fb_request width height)
      in if \<not> answered then (- 1, s)
         else if mbox_buf ! 28 = 0 then (- 1, s)
         else (0, s\<lparr>fb_ptr := ucast (mbox_buf ! 28 AND 0x3FFFFFFF), fb_mem := vram,
                  fb_size := mbox_buf ! 29, fb_w := width, fb_h := height,
                  fb_p := mbox_buf ! 33, fb_mirror := 0\<rparr>))"

definition fb_set_mirror :: "int \<Rightarrow> fb \<Rightarrow> fb" where
  "fb_set_mirror m s = s\<lparr>fb_mirror := m\<rparr>"

subsection \<open>Drawing\<close>

definition fb_store :: "nat \<Rightarrow> u32 \<Rightarrow> fb \<Rightarrow> fb" where
  "fb_store i v s = s\<lparr>fb_mem := (fb_mem s)(i := v)\<rparr>"

definition fb_put_pixel :: "u32 \<Rightarrow> u32 \<Rightarrow> u32 \<Rightarrow> fb \<Rightarrow> fb" where
  "fb_put_pixel x y color s =
     (if x \<ge> fb_w s \<or> y \<ge> fb_h s then s
      else
        let x' = (if fb_mirror s \<noteq> 0 then fb_w s - 1 - x else x);
            offset = (y * fb_p s) div 4 + x'
        in fb_store (unat offset) color s)"

definition fb_clear :: "u32 \<Rightarrow> fb \<Rightarrow> fb" where
  "fb_clear color s =
     (let total = (fb_p s div 4) * fb_h s
      in fold (\<lambda>i. fb_store i color) [0..<unat total] s)"

text \<open>
  The loops count upwards in 32-bit words; a row counter stays below the frame height and a
  column counter below the frame width, so neither wraps.
\<close>

definition fb_fill_rect :: "u32 \<Rightarrow> u32 \<Rightarrow> u32 \<Rightarrow> u32 \<Rightarrow> u32 \<Rightarrow> fb \<Rightarrow> fb" where
  "fb_fill_rect x y w h color s =
     (let px = (if fb_mirror s \<noteq> 0 \<and> fb_w s \<ge> x + w then fb_w s - x - w else x)
      in fold (\<lambda>row.
           let off = (of_nat row * fb_p s) div 4 + px
           in fold (\<lambda>col. fb_store (unat (off + of_nat col)) color)
                (takeWhile (\<lambda>col. px + of_nat col < fb_w s) [0..<unat w]))
         [unat y..<min (unat (y + h)) (unat (fb_h s))] s)"

definition glyph_of :: "char \<Rightarrow> u8 list" where
  "glyph_of c =
     (let idx = int (of_char c) - 32; idx = (if idx < 0 \<or> idx > 94 then 0 else idx)
      in font8x8 ! nat idx)"

definition glyph_color :: "u8 list \<Rightarrow> nat \<Rightarrow> nat \<Rightarrow> u32 \<Rightarrow> u32 \<Rightarrow> u32" where
  "glyph_color glyph row col fg bg = (if glyph ! row AND push_bit col 1 \<noteq> 0 then fg else bg)"

definition fb_put_char :: "u32 \<Rightarrow> u32 \<Rightarrow> char \<Rightarrow> u32 \<Rightarrow> u32 \<Rightarrow> fb \<Rightarrow> fb" where
  "fb_put_char x y c fg bg =
     fold (\<lambda>row. fold (\<lambda>col.
         fb_put_pixel (x + of_nat col) (y + of_nat row) (glyph_color (glyph_of c) row col fg bg))
       [0..<8]) [0..<8]"

definition fb_put_char_scaled :: "u32 \<Rightarrow> u32 \<Rightarrow> char \<Rightarrow> u32 \<Rightarrow> u32 \<Rightarrow> u32 \<Rightarrow> fb \<Rightarrow> fb" where
  "fb_put_char_scaled x y c scale fg bg =
     fold (\<lambda>row. fold (\<lambda>col.
         fold (\<lambda>dy. fold (\<lambda>dx.
             fb_put_pixel (x + of_nat col * scale + of_nat dx) (y + of_nat row * scale + of_nat dy)
               (glyph_color (glyph_of c) row col fg bg))
           [0..<unat scale]) [0..<unat scale])
       [0..<8]) [0..<8]"

fun fb_put_string_scaled :: "u32 \<Rightarrow> u32 \<Rightarrow> string \<Rightarrow> u32 \<Rightarrow> u32 \<Rightarrow> u32 \<Rightarrow> fb \<Rightarrow> fb" where
  "fb_put_string_scaled x y [] scale fg bg s = s"
| "fb_put_string_scaled x y (c # cs) scale fg bg s =
     (if c = NUL then s
      else fb_put_string_scaled (x + 8 * scale) y cs scale fg bg (fb_put_char_scaled x y c scale fg bg s))"

fun fb_put_string :: "u32 \<Rightarrow> u32 \<Rightarrow> string \<Rightarrow> u32 \<Rightarrow> u32 \<Rightarrow> fb \<Rightarrow> fb" where
  "fb_put_string x y [] fg bg s = s"
| "fb_put_string x y (c # cs) fg bg s =
     (if c = NUL then s
      else
        let (x, y) = (if x + 8 > fb_w s then (0, y + 8) else (x, y))
        in if y + 8 > fb_h s then s
           else fb_put_string (x + 8) y cs fg bg (fb_put_char x y c fg bg s))"

subsection \<open>The console\<close>

definition fb_console_init_region :: "u32 \<Rightarrow> u32 \<Rightarrow> u32 \<Rightarrow> u32 \<Rightarrow> u32 \<Rightarrow> u32 \<Rightarrow> fb \<Rightarrow> fb" where
  "fb_console_init_region x y cols rows fg bg s =
     fb_fill_rect x y (cols * 8) (rows * 8) bg
       (s\<lparr>con_fg := fg, con_bg := bg, con_x0 := x, con_y0 := y, con_cols := cols, con_rows := rows,
          con_cx := 0, con_cy := 0, con_enabled := True\<rparr>)"

definition fb_console_init :: "u32 \<Rightarrow> u32 \<Rightarrow> fb \<Rightarrow> fb" where
  "fb_console_init fg bg s = fb_console_init_region 0 0 (fb_w s div 8) (fb_h s div 8) fg bg s"

definition fb_console_enable :: "fb \<Rightarrow> fb" where
  "fb_console_enable s = s\<lparr>con_enabled := True\<rparr>"

definition fb_console_disable :: "fb \<Rightarrow> fb" where
  "fb_console_disable s = s\<lparr>con_enabled := False\<rparr>"

text \<open>One pixel row of the scroll: the pointers \<open>dst\<close> and \<open>src\<close> as word indices.\<close>

definition scroll_row :: "nat \<Rightarrow> fb \<Rightarrow> fb" where
  "scroll_row r s =
     (let dst = unat ((con_y0 s + of_nat r) * fb_p s div 4) + unat (con_x0 s);
          src = unat ((con_y0 s + of_nat r + 8) * fb_p s div 4) + unat (con_x0 s)
      in fold (\<lambda>c s. fb_store (dst + c) (fb_mem s (src + c)) s) [0..<unat (con_cols s * 8)] s)"

definition console_scroll :: "fb \<Rightarrow> fb" where
  "console_scroll s =
     fb_fill_rect (con_x0 s) (con_y0 s + (con_rows s - 1) * 8) (con_cols s * 8) 8 (con_bg s)
       (fold scroll_row [0..<unat ((con_rows s - 1) * 8)] s)"

definition con_erase_cursor :: "fb \<Rightarrow> fb" where
  "con_erase_cursor s = fb_fill_rect (con_x0 s + con_cx s * 8) (con_y0 s + con_cy s * 8) 2 8 (con_bg s) s"

definition con_draw_cursor :: "fb \<Rightarrow> fb" where
  "con_draw_cursor s = fb_fill_rect (con_x0 s + con_cx s * 8) (con_y0 s + con_cy s * 8) 2 8 (con_fg s) s"

definition con_newline :: "fb \<Rightarrow> fb" where
  "con_newline s =
     (let s = s\<lparr>con_cx := 0, con_cy := con_cy s + 1\<rparr>
      in if con_cy s \<ge> con_rows s
         then (let s = console_scroll s in s\<lparr>con_cy := con_rows s - 1\<rparr>)
         else s)"

definition con_char :: "char \<Rightarrow> fb \<Rightarrow> fb" where
  "con_char c s = fb_put_char (con_x0 s + con_cx s * 8) (con_y0 s + con_cy s * 8) c (con_fg s) (con_bg s) s"

definition fb_console_putc :: "char \<Rightarrow> fb \<Rightarrow> fb" where
  "fb_console_putc c s =
     (if fb_ptr s = 0 \<or> \<not> con_enabled s then s
      else con_draw_cursor
       (let s = con_erase_cursor s
        in if c = CHR 0x0A then con_newline s
           else if c = CHR 0x0D then s\<lparr>con_cx := 0\<rparr>
           else if c = CHR 0x08 \<or> c = CHR 0x7F then
             (if con_cx s > 0 then con_char CHR '' '' (s\<lparr>con_cx := con_cx s - 1\<rparr>) else s)
           else if c = CHR 0x09 then
             (let s = s\<lparr>con_cx := (con_cx s + 4) AND NOT 3\<rparr>
              in if con_cx s \<ge> con_cols s then con_newline s else s)
           else if c \<ge> CHR '' '' \<and> c < CHR 0x7F then
             (let s = con_char c s; s = s\<lparr>con_cx := con_cx s + 1\<rparr>
              in if con_cx s \<ge> con_cols s then con_newline s else s)
           else s))"

definition fb_console_puts :: "string \<Rightarrow> fb \<Rightarrow> fb" where
  "fb_console_puts cs = fold fb_console_putc (cstr cs)"

definition fb_console_clear :: "fb \<Rightarrow> fb" where
  "fb_console_clear s =
     (fb_fill_rect (con_x0 s) (con_y0 s) (con_cols s * 8) (con_rows s * 8) (con_bg s) s)
       \<lparr>con_cx := 0, con_cy := 0\<rparr>"

subsection \<open>Painting\<close>

lemma u32_add: "unat (a::u32) + unat b < 4294967296 \<Longrightarrow> unat (a + b) = unat a + unat b"
  by (simp add: unat_word_ariths)

lemma u32_mult: "unat (a::u32) * unat b < 4294967296 \<Longrightarrow> unat (a * b) = unat a * unat b"
  by (simp add: unat_word_ariths)

lemma u32_of_nat: "n < 4294967296 \<Longrightarrow> unat (of_nat n :: u32) = n"
  by (simp add: unat_of_nat take_bit_nat_eq_self)

lemma u32_less: "unat (a::u32) < 4294967296"
  using unsigned_less [of a, where 'a = nat] by simp

text \<open>The frame the GPU promises: whole words per row, rows that hold the width, and room for all rows.\<close>

definition frame_ok :: "fb \<Rightarrow> bool" where
  "frame_ok s \<longleftrightarrow> unat (fb_p s) mod 4 = 0 \<and> 4 * unat (fb_w s) \<le> unat (fb_p s) \<and>
     unat (fb_p s) * unat (fb_h s) \<le> unat (fb_size s)"

definition stride :: "fb \<Rightarrow> nat" where
  "stride s = unat (fb_p s) div 4"

definition pix :: "fb \<Rightarrow> nat \<Rightarrow> nat \<Rightarrow> u32" where
  "pix s x y = fb_mem s (y * stride s + x)"

text \<open>\<open>paint s f\<close> gives every visible pixel the colour \<open>f x y\<close> and changes nothing else.\<close>

definition paint :: "fb \<Rightarrow> (nat \<Rightarrow> nat \<Rightarrow> u32) \<Rightarrow> fb" where
  "paint s f = s\<lparr>fb_mem := (\<lambda>i.
     if i mod stride s < unat (fb_w s) \<and> i div stride s < unat (fb_h s)
     then f (i mod stride s) (i div stride s) else fb_mem s i)\<rparr>"

lemma paint_fields [simp]:
  "fb_ptr (paint s f) = fb_ptr s" "fb_w (paint s f) = fb_w s" "fb_h (paint s f) = fb_h s"
  "fb_p (paint s f) = fb_p s" "fb_size (paint s f) = fb_size s" "fb_mirror (paint s f) = fb_mirror s"
  "con_cx (paint s f) = con_cx s" "con_cy (paint s f) = con_cy s" "con_cols (paint s f) = con_cols s"
  "con_rows (paint s f) = con_rows s" "con_x0 (paint s f) = con_x0 s" "con_y0 (paint s f) = con_y0 s"
  "con_fg (paint s f) = con_fg s" "con_bg (paint s f) = con_bg s" "con_enabled (paint s f) = con_enabled s"
  "stride (paint s f) = stride s" "frame_ok (paint s f) = frame_ok s"
  by (simp_all add: paint_def stride_def frame_ok_def)

lemma frame_width: "frame_ok s \<Longrightarrow> unat (fb_w s) \<le> stride s"
  by (auto simp: frame_ok_def stride_def)

lemma frame_index:
  assumes "frame_ok s" "x < unat (fb_w s)"
  shows "(y * stride s + x) mod stride s = x" "(y * stride s + x) div stride s = y"
  using assms frame_width [OF assms(1)] by auto

lemma pix_paint [simp]:
  "frame_ok s \<Longrightarrow> x < unat (fb_w s) \<Longrightarrow> y < unat (fb_h s) \<Longrightarrow> pix (paint s f) x y = f x y"
  using frame_index [of s x y] unfolding pix_def by simp (simp add: paint_def)

lemma paint_paint [simp]: "paint (paint s f) g = paint s g"
  by (auto simp: paint_def stride_def fun_eq_iff)

lemma paint_cong:
  "(\<And>x y. x < unat (fb_w s) \<Longrightarrow> y < unat (fb_h s) \<Longrightarrow> f x y = g x y) \<Longrightarrow> paint s f = paint s g"
  by (simp add: paint_def fun_eq_iff)

lemma paint_pix: "paint s (pix s) = s"
proof -
  have "(\<lambda>i. if i mod stride s < unat (fb_w s) \<and> i div stride s < unat (fb_h s)
     then pix s (i mod stride s) (i div stride s) else fb_mem s i) = fb_mem s"
    by (simp add: pix_def fun_eq_iff)
  then show ?thesis by (simp add: paint_def)
qed

lemma fb_store_paint:
  assumes "frame_ok s" "x < unat (fb_w s)" "y < unat (fb_h s)"
  shows "fb_store (y * stride s + x) v s = paint s (\<lambda>x' y'. if x' = x \<and> y' = y then v else pix s x' y')"
proof -
  have "i = y * stride s + x" if "i mod stride s = x" "i div stride s = y" for i
    using that by auto
  then show ?thesis
    using assms frame_index [OF assms(1,2)]
    by (auto simp: fb_store_def paint_def pix_def fun_eq_iff)
qed

text \<open>The word index the code computes for a visible pixel.\<close>

lemma frame_bound:
  assumes "frame_ok s" "y < unat (fb_h s)" "x < unat (fb_w s)"
  shows "y * unat (fb_p s) < 4294967296" "y * stride s + x < 4294967296" "unat (fb_p s) = 4 * stride s"
proof -
  have p: "unat (fb_p s) = 4 * stride s" using assms(1) by (auto simp: frame_ok_def stride_def)
  then show "unat (fb_p s) = 4 * stride s" .
  have "y * unat (fb_p s) + unat (fb_p s) \<le> unat (fb_p s) * unat (fb_h s)"
    using assms(2) by (metis Suc_leI add.commute mult.commute mult_Suc mult_le_mono1)
  also have "\<dots> < 4294967296" using assms(1) u32_less [of "fb_size s"] by (simp add: frame_ok_def)
  finally have b: "y * unat (fb_p s) + unat (fb_p s) < 4294967296" .
  then show "y * unat (fb_p s) < 4294967296" by simp
  have "x < 4 * stride s" using frame_width [OF assms(1)] assms(3) by simp
  moreover have "y * stride s \<le> y * (4 * stride s)" by simp
  ultimately have "y * stride s + x < y * (4 * stride s) + 4 * stride s" by (rule add_le_less_mono [rotated])
  then show "y * stride s + x < 4294967296" using b p by simp
qed

lemma unat_div4: "unat ((a::u32) div 4) = unat a div 4"
  by (simp add: unat_div)

lemma frame_offset:
  assumes "frame_ok s" "unat y < unat (fb_h s)" "unat x < unat (fb_w s)"
  shows "unat (y * fb_p s div 4) = unat y * stride s" "unat (y * fb_p s div 4 + x) = unat y * stride s + unat x"
proof -
  note b = frame_bound [OF assms]
  have "unat (y * fb_p s) = unat y * (4 * stride s)" using b(1,3) by (simp add: u32_mult)
  then show d: "unat (y * fb_p s div 4) = unat y * stride s" by (simp add: unat_div4)
  with b(2) show "unat (y * fb_p s div 4 + x) = unat y * stride s + unat x" by (simp add: u32_add)
qed

lemma fb_store_paint':
  assumes "frame_ok s" "x < unat (fb_w s)" "y < unat (fb_h s)"
  shows "fb_store (y * stride s + x) v (paint s f) = paint s (\<lambda>x' y'. if x' = x \<and> y' = y then v else f x' y')"
  using fb_store_paint [of "paint s f" x y v] assms by (auto intro!: paint_cong)

text \<open>
  A loop of paintings: where several steps touch a pixel they agree on \<open>F\<close>.
\<close>

lemma fold_paint:
  assumes step: "\<And>i f. i \<in> set xs \<Longrightarrow> act i (paint s f) = paint s (\<lambda>x y. if Q i x y then g i x y else f x y)"
    and agree: "\<And>i x y. i \<in> set xs \<Longrightarrow> Q i x y \<Longrightarrow> g i x y = F x y"
  shows "fold act xs (paint s f) = paint s (\<lambda>x y. if \<exists>i\<in>set xs. Q i x y then F x y else f x y)"
  using assms
proof (induction xs arbitrary: f)
  case (Cons i xs)
  show ?case
    using Cons.prems(2) by (auto simp: Cons.prems(1) Cons.IH intro!: paint_cong)
qed simp

definition mirrored :: "fb \<Rightarrow> nat \<Rightarrow> nat" where
  "mirrored s x = (if fb_mirror s \<noteq> 0 then unat (fb_w s) - 1 - x else x)"

lemma fb_put_pixel_paint:
  assumes "frame_ok s"
  shows "fb_put_pixel x y v (paint s f) =
    paint s (\<lambda>x' y'. if unat x < unat (fb_w s) \<and> x' = mirrored s (unat x) \<and> y' = unat y then v else f x' y')"
proof (cases "unat x < unat (fb_w s) \<and> unat y < unat (fb_h s)")
  case True
  define x' where "x' = (if fb_mirror s \<noteq> 0 then fb_w s - 1 - x else x)"
  have "unat (fb_w s - 1 - x) = unat (fb_w s) - 1 - unat x"
  proof -
    have "unat (fb_w s - 1) = unat (fb_w s) - 1"
      using True by (metis gr_implies_not0 unat_eq_zero unat_minus_one)
    moreover have "x \<le> fb_w s - 1" using calculation True unfolding word_le_nat_alt by linarith
    ultimately show ?thesis by (simp add: unat_sub)
  qed
  then have x': "unat x' = mirrored s (unat x)" by (simp add: x'_def mirrored_def)
  then have "unat x' < unat (fb_w s)" using True by (auto simp: mirrored_def)
  moreover have "fb_put_pixel x y v (paint s f) = fb_store (unat (y * fb_p s div 4 + x')) v (paint s f)"
    using True by (simp add: fb_put_pixel_def Let_def x'_def word_le_nat_alt)
  ultimately show ?thesis
    using True assms x' fb_store_paint' [OF assms, of "unat x'" "unat y" v f] by (simp add: frame_offset)
next
  case False
  then have "fb_put_pixel x y v (paint s f) = paint s f" by (auto simp: fb_put_pixel_def word_le_nat_alt)
  also have "paint s f = paint s (\<lambda>x' y'. if unat x < unat (fb_w s) \<and> x' = mirrored s (unat x) \<and> y' = unat y then v else f x' y')"
    using False by (intro paint_cong) auto
  finally show ?thesis .
qed

text \<open>The loop over columns that stops at the frame's edge.\<close>

lemma takeWhile_upt:
  assumes "\<And>c. c < k \<Longrightarrow> P c" "\<not> P k"
  shows "takeWhile P [0..<n] = [0..<min n k]"
  using assms
proof (induction n)
  case (Suc n)
  show ?case
  proof (cases "n < k")
    case True
    then have "\<forall>c\<in>set [0..<n]. P c" using Suc.prems(1) by simp
    then show ?thesis using True Suc.prems(1) by simp
  next
    case False
    then have "k = n \<and> (\<forall>c\<in>set [0..<n]. P c) \<or> (\<exists>c\<in>set [0..<n]. \<not> P c)"
      using Suc.prems by (metis atLeastLessThan_iff le_zero_eq linorder_cases nat_le_linear set_upt)
    then show ?thesis
    proof
      assume "k = n \<and> (\<forall>c\<in>set [0..<n]. P c)"
      then have k: "k = n" and all: "\<forall>c\<in>set [0..<n]. P c" by auto
      have "takeWhile P ([0..<n] @ [n]) = [0..<n] @ takeWhile P [n]"
        by (rule takeWhile_append2) (use all in blast)
      then show ?thesis using Suc.prems(2) k by simp
    next
      assume "\<exists>c\<in>set [0..<n]. \<not> P c"
      then obtain c where "c \<in> set [0..<n]" "\<not> P c" by blast
      then have "takeWhile P ([0..<n] @ [n]) = takeWhile P [0..<n]" by (rule takeWhile_append1)
      then show ?thesis using Suc.IH [OF Suc.prems] False by simp
    qed
  qed
qed simp

lemma clip_columns:
  fixes px w :: u32
  shows "takeWhile (\<lambda>col. px + of_nat col < w) [0..<n] = [0..<min n (unat w - unat px)]"
proof (rule takeWhile_upt)
  fix c assume c: "c < unat w - unat px"
  then have "unat (px + of_nat c) = unat px + c"
    using u32_less [of w] by (subst u32_add) (simp_all add: u32_of_nat)
  with c show "px + of_nat c < w" by (simp add: word_less_nat_alt)
next
  have "unat (px + of_nat (unat w - unat px)) = max (unat w) (unat px)"
    using u32_less [of w] u32_less [of px] by (subst u32_add) (simp_all add: u32_of_nat)
  then show "\<not> px + of_nat (unat w - unat px) < w" by (simp add: word_less_nat_alt)
qed

definition rect :: "nat \<Rightarrow> nat \<Rightarrow> nat \<Rightarrow> nat \<Rightarrow> nat \<Rightarrow> nat \<Rightarrow> bool" where
  "rect x0 y0 w h x y \<longleftrightarrow> x0 \<le> x \<and> x < x0 + w \<and> y0 \<le> y \<and> y < y0 + h"

lemma rect_line [simp]: "rect x0 y0 w (Suc 0) x y \<longleftrightarrow> x0 \<le> x \<and> x < x0 + w \<and> y = y0"
  by (auto simp: rect_def)

lemma rect_empty [simp]: "\<not> rect x0 y0 0 h x y" "\<not> rect x0 y0 w 0 x y"
  by (auto simp: rect_def)

lemma fill_row_paint:
  assumes "frame_ok s" "row < unat (fb_h s)"
  shows "fold (\<lambda>col. fb_store (unat (of_nat row * fb_p s div 4 + px + of_nat col)) v)
      (takeWhile (\<lambda>col. px + of_nat col < fb_w s) [0..<n]) (paint s f) =
    paint s (\<lambda>x y. if rect (unat px) row n 1 x y then v else f x y)"
proof -
  let ?m = "min n (unat (fb_w s) - unat px)"
  have "fold (\<lambda>col. fb_store (unat (of_nat row * fb_p s div 4 + px + of_nat col)) v) [0..<?m] (paint s f) =
    paint s (\<lambda>x y. if \<exists>col\<in>set [0..<?m]. x = unat px + col \<and> y = row then v else f x y)"
  proof (rule fold_paint)
    fix col f assume "col \<in> set [0..<?m]"
    then have c: "unat px + col < unat (fb_w s)" by auto
    then have x: "unat (px + of_nat col) = unat px + col"
      using u32_less [of "fb_w s"] by (subst u32_add) (simp_all add: u32_of_nat)
    have r: "unat (of_nat row :: u32) = row" using assms(2) u32_less [of "fb_h s"] by (simp add: u32_of_nat)
    have "unat (of_nat row * fb_p s div 4 + (px + of_nat col)) = row * stride s + (unat px + col)"
      using frame_offset(2) [of s "of_nat row" "px + of_nat col"] assms c x r by simp
    then show "fb_store (unat (of_nat row * fb_p s div 4 + px + of_nat col)) v (paint s f) =
      paint s (\<lambda>x y. if x = unat px + col \<and> y = row then v else f x y)"
      using fb_store_paint' [OF assms(1) c assms(2)] by (simp add: add.assoc)
  qed simp
  moreover have "paint s (\<lambda>x y. if \<exists>col\<in>set [0..<?m]. x = unat px + col \<and> y = row then v else f x y) =
    paint s (\<lambda>x y. if rect (unat px) row n 1 x y then v else f x y)"
  proof (rule paint_cong)
    fix x y assume "x < unat (fb_w s)"
    then have "(\<exists>col\<in>set [0..<?m]. x = unat px + col \<and> y = row) \<longleftrightarrow> rect (unat px) row n 1 x y"
      by (auto simp: rect_def intro!: bexI [of _ "x - unat px"])
    then show "(if \<exists>col\<in>set [0..<?m]. x = unat px + col \<and> y = row then v else f x y) =
      (if rect (unat px) row n 1 x y then v else f x y)" by simp
  qed
  ultimately show ?thesis by (simp add: clip_columns)
qed

text \<open>
  A rectangle fill paints the rectangle, clipped to the frame; a height that overflows the
  word (\<open>y + h\<close> wraps) is excluded.
\<close>

lemma fb_fill_rect_paint:
  assumes "frame_ok s" "unat y + unat h < 4294967296"
    and "px = (if fb_mirror s \<noteq> 0 \<and> fb_w s \<ge> x + w then fb_w s - x - w else x)"
  shows "fb_fill_rect x y w h v (paint s f) =
    paint s (\<lambda>x' y'. if rect (unat px) (unat y) (unat w) (unat h) x' y' then v else f x' y')"
proof -
  let ?rows = "[unat y..<min (unat (y + h)) (unat (fb_h s))]"
  let ?row = "\<lambda>row. fold (\<lambda>col. fb_store (unat (of_nat row * fb_p s div 4 + px + of_nat col)) v)
      (takeWhile (\<lambda>col. px + of_nat col < fb_w s) [0..<unat w])"
  have yh: "unat (y + h) = unat y + unat h" using assms(2) by (rule u32_add)
  have "fold ?row ?rows (paint s f) =
    paint s (\<lambda>x y. if \<exists>row\<in>set ?rows. rect (unat px) row (unat w) 1 x y then v else f x y)"
  proof (rule fold_paint)
    fix row f assume "row \<in> set ?rows"
    then show "?row row (paint s f) = paint s (\<lambda>x y. if rect (unat px) row (unat w) 1 x y then v else f x y)"
      using fill_row_paint [OF assms(1)] by simp
  qed simp
  also have "\<dots> = paint s (\<lambda>x' y'. if rect (unat px) (unat y) (unat w) (unat h) x' y' then v else f x' y')"
    by (rule paint_cong) (auto simp: rect_def yh)
  finally show ?thesis unfolding fb_fill_rect_def Let_def paint_fields assms(3) [symmetric] .
qed

text \<open>A glyph in an \<open>8\<times>8\<close> cell of the frame.\<close>

lemma fb_put_char_paint:
  assumes "frame_ok s" "fb_mirror s = 0" "unat x + 8 \<le> unat (fb_w s)" "unat y + 8 \<le> unat (fb_h s)"
  shows "fb_put_char x y c fg bg (paint s f) =
    paint s (\<lambda>x' y'. if rect (unat x) (unat y) 8 8 x' y'
      then glyph_color (glyph_of c) (y' - unat y) (x' - unat x) fg bg else f x' y')"
proof -
  let ?g = "\<lambda>row col. glyph_color (glyph_of c) row col fg bg"
  let ?act = "\<lambda>row col. fb_put_pixel (x + of_nat col) (y + of_nat row) (?g row col)"
  have xs: "unat (x + of_nat col) = unat x + col" "unat (y + of_nat row) = unat y + row"
    if "col < 8" "row < 8" for col row
    using that assms(3,4) u32_less [of "fb_w s"] u32_less [of "fb_h s"]
    by (simp_all add: u32_add u32_of_nat)
  have row: "fold (?act row) [0..<8] (paint s f) =
      paint s (\<lambda>x' y'. if rect (unat x) (unat y + row) 8 1 x' y' then ?g row (x' - unat x) else f x' y')"
    if r: "row \<in> set [0..<8]" for row f
  proof -
    have "fold (?act row) [0..<8] (paint s f) =
      paint s (\<lambda>x' y'. if \<exists>col\<in>set [0..<8]. x' = unat x + col \<and> y' = unat y + row then ?g row (x' - unat x) else f x' y')"
    proof (rule fold_paint)
      fix col f assume "col \<in> set [0..<8]"
      then have "unat (x + of_nat col) = unat x + col" "unat (y + of_nat row) = unat y + row" "col < 8"
        using xs r by auto
      then show "?act row col (paint s f) =
        paint s (\<lambda>x' y'. if x' = unat x + col \<and> y' = unat y + row then ?g row col else f x' y')"
        using assms by (simp add: fb_put_pixel_paint mirrored_def)
    qed auto
    also have "\<dots> = paint s (\<lambda>x' y'. if rect (unat x) (unat y + row) 8 1 x' y' then ?g row (x' - unat x) else f x' y')"
    proof (rule paint_cong)
      fix x' y'
      have "(\<exists>col\<in>set [0..<8]. x' = unat x + col \<and> y' = unat y + row) \<longleftrightarrow> rect (unat x) (unat y + row) 8 1 x' y'"
        by (auto simp: rect_def simp del: upt_conv_Cons intro!: bexI [of _ "x' - unat x"])
      then show "(if \<exists>col\<in>set [0..<8]. x' = unat x + col \<and> y' = unat y + row then ?g row (x' - unat x) else f x' y') =
        (if rect (unat x) (unat y + row) 8 1 x' y' then ?g row (x' - unat x) else f x' y')" by simp
    qed
    finally show ?thesis .
  qed
  have "fb_put_char x y c fg bg (paint s f) =
    paint s (\<lambda>x' y'. if \<exists>row\<in>set [0..<8]. rect (unat x) (unat y + row) 8 1 x' y'
      then ?g (y' - unat y) (x' - unat x) else f x' y')"
    unfolding fb_put_char_def
    by (rule fold_paint [where g = "\<lambda>row x' y'. ?g row (x' - unat x)"]) (erule row, auto simp: rect_line)
  also have "\<dots> = paint s (\<lambda>x' y'. if rect (unat x) (unat y) 8 8 x' y'
      then ?g (y' - unat y) (x' - unat x) else f x' y')"
  proof (rule paint_cong)
    fix x' y'
    have "(\<exists>row\<in>set [0..<8]. rect (unat x) (unat y + row) 8 1 x' y') \<longleftrightarrow> rect (unat x) (unat y) 8 8 x' y'"
      by (auto simp: rect_def simp del: upt_conv_Cons intro!: bexI [of _ "y' - unat y"])
    then show "(if \<exists>row\<in>set [0..<8]. rect (unat x) (unat y + row) 8 1 x' y'
        then ?g (y' - unat y) (x' - unat x) else f x' y') =
      (if rect (unat x) (unat y) 8 8 x' y' then ?g (y' - unat y) (x' - unat x) else f x' y')" by simp
  qed
  finally show ?thesis .
qed

text \<open>The console region lies in the frame, and the cursor in the region.\<close>

definition region_ok :: "fb \<Rightarrow> bool" where
  "region_ok s \<longleftrightarrow> frame_ok s \<and> 0 < unat (con_cols s) \<and> 0 < unat (con_rows s) \<and>
     unat (con_x0 s) + 8 * unat (con_cols s) \<le> unat (fb_w s) \<and>
     unat (con_y0 s) + 8 * unat (con_rows s) \<le> unat (fb_h s)"

definition con_ok :: "fb \<Rightarrow> bool" where
  "con_ok s \<longleftrightarrow> region_ok s \<and> unat (con_cx s) < unat (con_cols s) \<and> unat (con_cy s) < unat (con_rows s)"

lemma region_ok_paint [simp]: "region_ok (paint s f) = region_ok s"
  by (simp add: region_ok_def)

lemma con_ok_paint [simp]: "con_ok (paint s f) = con_ok s"
  by (simp add: con_ok_def)

lemma u32_8: "unat (a::u32) * 8 < 4294967296 \<Longrightarrow> unat (a * 8) = unat a * 8"
  by (simp add: unat_word_ariths)

lemma region_ok_unat:
  assumes "region_ok s"
  shows "frame_ok s" "unat (con_cols s * 8) = 8 * unat (con_cols s)" "unat (con_rows s * 8) = 8 * unat (con_rows s)"
    "unat ((con_rows s - 1) * 8) = 8 * unat (con_rows s) - 8" "unat (con_rows s - 1) = unat (con_rows s) - 1"
    "unat (con_y0 s + (con_rows s - 1) * 8) = unat (con_y0 s) + (8 * unat (con_rows s) - 8)"
proof -
  note a = assms [unfolded region_ok_def] and w = u32_less [of "fb_w s"] u32_less [of "fb_h s"]
  show "frame_ok s" using a by simp
  show "unat (con_cols s * 8) = 8 * unat (con_cols s)" using a w by (subst u32_8) simp_all
  show "unat (con_rows s * 8) = 8 * unat (con_rows s)" using a w by (subst u32_8) simp_all
  show r: "unat (con_rows s - 1) = unat (con_rows s) - 1"
    using a by (metis gr_implies_not0 unat_eq_zero unat_minus_one)
  show r8: "unat ((con_rows s - 1) * 8) = 8 * unat (con_rows s) - 8" using a w r by (subst u32_8; linarith)
  show "unat (con_y0 s + (con_rows s - 1) * 8) = unat (con_y0 s) + (8 * unat (con_rows s) - 8)"
    using a w r8 by (subst u32_add; linarith)
qed

lemma con_ok_unat:
  assumes "con_ok s"
  shows "unat (con_x0 s + con_cx s * 8) = unat (con_x0 s) + 8 * unat (con_cx s)"
    "unat (con_y0 s + con_cy s * 8) = unat (con_y0 s) + 8 * unat (con_cy s)"
proof -
  note a = assms [unfolded con_ok_def region_ok_def] and w = u32_less [of "fb_w s"] u32_less [of "fb_h s"]
  have cx: "unat (con_cx s * 8) = 8 * unat (con_cx s)" using a w by (subst u32_8) simp_all
  show "unat (con_x0 s + con_cx s * 8) = unat (con_x0 s) + 8 * unat (con_cx s)"
    using a w cx by (subst u32_add) simp_all
  have cy: "unat (con_cy s * 8) = 8 * unat (con_cy s)" using a w by (subst u32_8) simp_all
  show "unat (con_y0 s + con_cy s * 8) = unat (con_y0 s) + 8 * unat (con_cy s)"
    using a w cy by (subst u32_add) simp_all
qed

text \<open>Copying one pixel row of the region from eight rows below.\<close>

lemma copy_row_paint:
  assumes "frame_ok s" "x0 + n \<le> unat (fb_w s)" "y + 8 < unat (fb_h s)"
  shows "fold (\<lambda>c s. fb_store (y * stride s + x0 + c) (fb_mem s ((y + 8) * stride s + x0 + c)) s) [0..<n] (paint s f) =
    paint s (\<lambda>x' y'. if rect x0 y n 1 x' y' then f x' (y' + 8) else f x' y')"
  using assms
proof (induction n)
  case 0
  then show ?case by (simp cong: conj_cong)
next
  case (Suc n)
  let ?g = "\<lambda>x' y'. if rect x0 y n 1 x' y' then f x' (y' + 8) else f x' y'"
  have "fb_mem (paint s ?g) ((y + 8) * stride s + x0 + n) = pix (paint s ?g) (x0 + n) (y + 8)"
    by (simp add: pix_def add.assoc)
  also have "\<dots> = f (x0 + n) (y + 8)" using Suc.prems by (simp add: rect_line)
  finally have v: "fb_mem (paint s ?g) ((y + 8) * stride s + x0 + n) = f (x0 + n) (y + 8)" .
  have "fb_store (y * stride s + (x0 + n)) (f (x0 + n) (y + 8)) (paint s ?g) =
    paint s (\<lambda>x' y'. if x' = x0 + n \<and> y' = y then f (x0 + n) (y + 8) else ?g x' y')"
    using Suc.prems by (intro fb_store_paint') simp_all
  also have "\<dots> = paint s (\<lambda>x' y'. if rect x0 y (Suc n) 1 x' y' then f x' (y' + 8) else f x' y')"
    by (rule paint_cong) (auto simp: rect_line)
  finally show ?case using Suc v by (simp add: add.assoc)
qed

lemma scroll_row_paint:
  assumes ok: "region_ok s" and r: "r < 8 * unat (con_rows s) - 8"
  shows "scroll_row r (paint s f) =
    paint s (\<lambda>x y. if rect (unat (con_x0 s)) (unat (con_y0 s) + r) (8 * unat (con_cols s)) 1 x y then f x (y + 8) else f x y)"
proof -
  note a = ok [unfolded region_ok_def] and w = u32_less [of "fb_w s"] u32_less [of "fb_h s"]
  have rr: "unat (of_nat r :: u32) = r" using a r w by (intro u32_of_nat) linarith
  have y: "unat (con_y0 s + of_nat r) = unat (con_y0 s) + r" using a r w rr by (subst u32_add; linarith)
  have y8: "unat (con_y0 s + of_nat r + 8) = unat (con_y0 s) + r + 8"
    using a r w y by (subst u32_add; simp; linarith?)
  have x: "unat (con_x0 s) < unat (fb_w s)" using a by simp
  have b: "unat (con_x0 s) + 8 * unat (con_cols s) \<le> unat (fb_w s)" "unat (con_y0 s) + r + 8 < unat (fb_h s)"
    using a r by linarith+
  have d: "unat ((con_y0 s + of_nat r) * fb_p s div 4) = (unat (con_y0 s) + r) * stride s"
    "unat ((con_y0 s + of_nat r + 8) * fb_p s div 4) = (unat (con_y0 s) + r + 8) * stride s"
    using frame_offset(1) [of s "con_y0 s + of_nat r" "con_x0 s"]
      frame_offset(1) [of s "con_y0 s + of_nat r + 8" "con_x0 s"] a b x y y8 by simp_all
  have st: "fold (\<lambda>c s'. fb_store (y * stride s + x0 + c) (fb_mem s' (y' * stride s + x0 + c)) s') xs (paint s f) =
    fold (\<lambda>c s. fb_store (y * stride s + x0 + c) (fb_mem s (y' * stride s + x0 + c)) s) xs (paint s f)" for y y' x0 xs f
  proof (induction xs rule: rev_induct)
    case (snoc c xs)
    have "stride (fold (\<lambda>c s. fb_store (y * stride s + x0 + c) (fb_mem s (y' * stride s + x0 + c)) s) xs t) = stride t" for t
      by (induction xs arbitrary: t) (simp_all add: fb_store_def stride_def)
    then show ?case using snoc by simp
  qed simp
  show ?thesis
    using copy_row_paint [OF region_ok_unat(1) [OF ok] b, of f] st
    by (simp add: scroll_row_def Let_def d region_ok_unat [OF ok])
qed

lemma scroll_rows_paint:
  assumes ok: "region_ok s" and k: "k \<le> 8 * unat (con_rows s) - 8"
  shows "fold scroll_row [0..<k] (paint s f) =
    paint s (\<lambda>x y. if rect (unat (con_x0 s)) (unat (con_y0 s)) (8 * unat (con_cols s)) k x y then f x (y + 8) else f x y)"
  using k
proof (induction k)
  case 0
  then show ?case by simp
next
  case (Suc k)
  then have "k < 8 * unat (con_rows s) - 8" by simp
  note step = scroll_row_paint [OF ok this]
  show ?case using Suc
    by (auto simp: step intro!: paint_cong) (auto simp: rect_def)
qed

text \<open>The whole scroll: the rows of the region move up by eight pixels and the last eight are cleared.\<close>

lemma console_scroll_paint:
  assumes ok: "region_ok s" "fb_mirror s = 0"
  shows "console_scroll (paint s f) =
    paint s (\<lambda>x y. if rect (unat (con_x0 s)) (unat (con_y0 s)) (8 * unat (con_cols s)) (8 * unat (con_rows s)) x y
      then (if y < unat (con_y0 s) + 8 * (unat (con_rows s) - 1) then f x (y + 8) else con_bg s) else f x y)"
proof -
  note u = region_ok_unat [OF ok(1)]
  have b: "unat (con_y0 s + (con_rows s - 1) * 8) + unat (8 :: u32) < 4294967296"
    using ok(1) u32_less [of "fb_h s"] unfolding u region_ok_def by simp
  have "console_scroll (paint s f) = fb_fill_rect (con_x0 s) (con_y0 s + (con_rows s - 1) * 8) (con_cols s * 8) 8 (con_bg s)
      (fold scroll_row [0..<8 * unat (con_rows s) - 8] (paint s f))"
    unfolding console_scroll_def paint_fields u ..
  also have "\<dots> = paint s (\<lambda>x y. if rect (unat (con_x0 s)) (unat (con_y0 s) + (8 * unat (con_rows s) - 8)) (8 * unat (con_cols s)) 8 x y
      then con_bg s else if rect (unat (con_x0 s)) (unat (con_y0 s)) (8 * unat (con_cols s)) (8 * unat (con_rows s) - 8) x y
      then f x (y + 8) else f x y)"
    using scroll_rows_paint [OF ok(1) order_refl, of f] fb_fill_rect_paint [OF u(1) b refl, of "con_x0 s" "con_cols s * 8"] ok(2)
    unfolding u by simp
  also have "\<dots> = paint s (\<lambda>x y. if rect (unat (con_x0 s)) (unat (con_y0 s)) (8 * unat (con_cols s)) (8 * unat (con_rows s)) x y
      then (if y < unat (con_y0 s) + 8 * (unat (con_rows s) - 1) then f x (y + 8) else con_bg s) else f x y)"
    using ok(1) by (intro paint_cong) (auto simp: rect_def region_ok_def)
  finally show ?thesis .
qed

end
