(* ===== verification/Console.thy ===== *)
theory Console
  imports Fb
begin

text \<open>
  What the framebuffer console of \<^verbatim>\<open>src/fb.c\<close> promises. Safety, for either setting of the
  mirror switch: console output changes visible pixels and the cursor, nothing else in memory.
  Refinement, for an unmirrored frame: the pixels of the region are at every moment the picture
  of a terminal of character cells (\<open>term_putc\<close>), pixel by pixel.
\<close>

subsection \<open>Console output stays in the frame\<close>

definition draws :: "fb \<Rightarrow> fb \<Rightarrow> bool" where
  "draws s s' \<longleftrightarrow> (\<exists>f. s' = paint s f)"

lemma draws_paint [simp]: "draws s (paint s f)"
  by (auto simp: draws_def)

lemma draws_trans [trans]: "draws s s' \<Longrightarrow> draws s' s'' \<Longrightarrow> draws s s''"
  by (auto simp: draws_def)

lemma fill_rect_draws:
  assumes "frame_ok s" "unat y + unat h < 4294967296"
  shows "draws s (fb_fill_rect x y w h v s)"
  using fb_fill_rect_paint [OF assms refl, of x w v "pix s"] by (simp add: paint_pix)

lemma fold_draws:
  assumes "\<And>i f. i \<in> set xs \<Longrightarrow> \<exists>g. act i (paint s f) = paint s g"
  shows "\<exists>g. fold act xs (paint s f) = paint s g"
  using assms
proof (induction xs arbitrary: f)
  case (Cons i xs)
  then obtain g where "act i (paint s f) = paint s g" by force
  then show ?case using Cons by simp
qed auto

lemma put_char_draws:
  assumes "frame_ok s"
  shows "draws s (fb_put_char x y c fg bg s)"
proof -
  have "\<exists>g. fb_put_char x y c fg bg (paint s (pix s)) = paint s g"
    unfolding fb_put_char_def
    by (rule fold_draws, rule fold_draws) (auto simp: fb_put_pixel_paint [OF assms])
  then show ?thesis by (simp add: paint_pix draws_def)
qed

lemma scroll_draws:
  assumes ok: "region_ok s"
  shows "draws s (console_scroll s)"
proof -
  note u = region_ok_unat [OF ok]
  define t where "t = fold scroll_row [0..<8 * unat (con_rows s) - 8] s"
  obtain f where t: "t = paint s f"
    using scroll_rows_paint [OF ok order_refl, of "pix s"] by (simp add: paint_pix t_def)
  have "unat (con_y0 s + (con_rows s - 1) * 8) + unat (8 :: u32) < 4294967296"
    using ok u32_less [of "fb_h s"] unfolding u region_ok_def by simp
  then have "draws t (fb_fill_rect (con_x0 s) (con_y0 s + (con_rows s - 1) * 8) (con_cols s * 8) 8 (con_bg s) t)"
    using ok by (intro fill_rect_draws) (simp_all add: t region_ok_def)
  moreover have "console_scroll s = fb_fill_rect (con_x0 s) (con_y0 s + (con_rows s - 1) * 8) (con_cols s * 8) 8 (con_bg s) t"
    unfolding console_scroll_def t_def u ..
  ultimately show ?thesis unfolding t by (auto simp: draws_def)
qed

lemma cursor_draws:
  assumes "con_ok s"
  shows "draws s (con_erase_cursor s)" "draws s (con_draw_cursor s)"
proof -
  have "frame_ok s" using assms by (simp add: con_ok_def region_ok_def)
  moreover have "unat (con_y0 s + con_cy s * 8) + unat (8 :: u32) < 4294967296"
    using assms u32_less [of "fb_h s"] unfolding con_ok_unat [OF assms] by (auto simp: con_ok_def region_ok_def)
  ultimately show "draws s (con_erase_cursor s)" "draws s (con_draw_cursor s)"
    unfolding con_erase_cursor_def con_draw_cursor_def by (rule fill_rect_draws)+
qed

text \<open>Pixels and the cursor may change.\<close>

definition keeps :: "fb \<Rightarrow> fb \<Rightarrow> bool" where
  "keeps s s' \<longleftrightarrow> (\<exists>f v w. s' = (paint s f)\<lparr>con_cx := v, con_cy := w\<rparr>)"

lemma paint_cursor [simp]:
  "paint (s\<lparr>con_cx := v\<rparr>) f = (paint s f)\<lparr>con_cx := v\<rparr>" "paint (s\<lparr>con_cy := w\<rparr>) f = (paint s f)\<lparr>con_cy := w\<rparr>"
  "region_ok (s\<lparr>con_cx := v\<rparr>) = region_ok s" "region_ok (s\<lparr>con_cy := w\<rparr>) = region_ok s"
  "pix (s\<lparr>con_cx := v\<rparr>) = pix s" "pix (s\<lparr>con_cy := w\<rparr>) = pix s"
  by (simp_all add: paint_def stride_def region_ok_def frame_ok_def pix_def fun_eq_iff)

lemma keepsI: "s' = (paint s f)\<lparr>con_cx := v, con_cy := w\<rparr> \<Longrightarrow> keeps s s'"
  by (auto simp: keeps_def)

lemma keeps_trans [trans]:
  assumes "keeps s s'" "keeps s' s''"
  shows "keeps s s''"
proof -
  obtain f v w f' v' w' where "s' = (paint s f)\<lparr>con_cx := v, con_cy := w\<rparr>" "s'' = (paint s' f')\<lparr>con_cx := v', con_cy := w'\<rparr>"
    using assms by (auto simp: keeps_def)
  then have "s'' = (paint s f')\<lparr>con_cx := v', con_cy := w'\<rparr>" by simp
  then show ?thesis by (rule keepsI)
qed

lemma draws_keeps: "draws s s' \<Longrightarrow> keeps s s'"
proof -
  assume "draws s s'"
  then obtain f where "s' = paint s f" by (auto simp: draws_def)
  then have "s' = (paint s f)\<lparr>con_cx := con_cx s, con_cy := con_cy s\<rparr>" by (simp add: paint_def)
  then show "keeps s s'" by (rule keepsI)
qed

lemma keeps_cursor [simp]: "keeps s (s\<lparr>con_cx := v\<rparr>)" "keeps s (s\<lparr>con_cy := w\<rparr>)" "keeps s s"
  using keepsI [where s = s and s' = "s\<lparr>con_cx := v\<rparr>" and f = "pix s" and v = v and w = "con_cy s"]
    keepsI [where s = s and s' = "s\<lparr>con_cy := w\<rparr>" and f = "pix s" and v = "con_cx s" and w = w]
    keepsI [where s = s and s' = s and f = "pix s" and v = "con_cx s" and w = "con_cy s"]
  by (simp_all add: paint_pix)

lemma newline_cx [simp]: "con_newline (s\<lparr>con_cx := v\<rparr>) = con_newline s"
  by (simp add: con_newline_def)

lemma newline_keeps:
  assumes "region_ok s" "unat (con_cy s) < unat (con_rows s)"
  shows "keeps s (con_newline s) \<and> con_ok (con_newline s)"
proof -
  have cy: "unat (con_cy s + 1) = unat (con_cy s) + 1"
    using assms(2) u32_less [of "con_rows s"] by (simp add: u32_add)
  have cols: "0 < unat (con_cols s)" using assms(1) by (simp add: region_ok_def)
  show ?thesis
  proof (cases "con_cy s + 1 \<ge> con_rows s")
    case True
    let ?t = "s\<lparr>con_cx := 0, con_cy := con_cy s + 1\<rparr>"
    obtain f where sc: "console_scroll ?t = paint ?t f"
      using scroll_draws [of ?t] assms(1) by (auto simp: draws_def)
    have "con_newline s = (paint s f)\<lparr>con_cx := 0, con_cy := con_rows s - 1\<rparr>"
      using True sc by (simp add: con_newline_def Let_def)
    moreover have "unat (con_rows s - 1) < unat (con_rows s)"
      using assms(1) by (simp add: region_ok_unat region_ok_def)
    ultimately show ?thesis using assms(1) cols by (auto intro!: keepsI simp: con_ok_def)
  next
    case False
    then have "con_newline s = (paint s (pix s))\<lparr>con_cx := 0, con_cy := con_cy s + 1\<rparr>"
      by (simp add: con_newline_def Let_def paint_pix)
    with False cy show ?thesis
      using assms(1) cols by (auto intro!: keepsI simp: con_ok_def word_le_nat_alt)
  qed
qed


lemma and_not_mask32: "(y :: u32) AND NOT (mask m) = push_bit m (drop_bit m y)"
  by (rule bit_word_eqI) (auto simp: bit_simps)

lemma unat_next_tab:
  assumes "unat x < 4294967292"
  shows "unat ((x + 4) AND NOT 3 :: u32) = (unat x + 4) div 4 * 4"
proof -
  have "unat ((x + 4) AND NOT 3 :: u32) = take_bit 32 (unat (x + 4) div 4 * 4)"
    using and_not_mask32 [of "x + 4" 2]
    by (simp add: mask_eq_exp_minus_1 push_bit_eq_mult drop_bit_eq_div unat_word_ariths(2) unat_div4 take_bit_eq_mod)
  also have "unat (x + 4) = unat x + 4" using assms by (simp add: u32_add)
  finally show ?thesis using assms by (simp add: take_bit_nat_eq_self)
qed

text \<open>The part of \<open>fb_console_putc\<close> between erasing and drawing the cursor.\<close>

definition con_step :: "char \<Rightarrow> fb \<Rightarrow> fb" where
  "con_step c s =
     (if c = CHR 0x0A then con_newline s
      else if c = CHR 0x0D then s\<lparr>con_cx := 0\<rparr>
      else if c = CHR 0x08 \<or> c = CHR 0x7F then
        (if con_cx s > 0 then con_char CHR '' '' (s\<lparr>con_cx := con_cx s - 1\<rparr>) else s)
      else if c = CHR 0x09 then
        (let s = s\<lparr>con_cx := (con_cx s + 4) AND NOT 3\<rparr>
         in if con_cx s \<ge> con_cols s then con_newline s else s)
      else if c \<ge> CHR '' '' \<and> c < CHR 0x7F then
        (let s = con_char c s; s = s\<lparr>con_cx := con_cx s + 1\<rparr>
         in if con_cx s \<ge> con_cols s then con_newline s else s)
      else s)"

lemma putc_step:
  "fb_console_putc c s =
    (if fb_ptr s = 0 \<or> \<not> con_enabled s then s else con_draw_cursor (con_step c (con_erase_cursor s)))"
  by (simp only: fb_console_putc_def con_step_def Let_def)

lemma con_char_draws: "con_ok s \<Longrightarrow> draws s (con_char c s)"
  unfolding con_char_def by (rule put_char_draws) (simp add: con_ok_def region_ok_def)

lemma draws_con_ok: "draws s s' \<Longrightarrow> con_ok s' = con_ok s"
  by (auto simp: draws_def)

definition con_advance :: "u32 \<Rightarrow> fb \<Rightarrow> fb" where
  "con_advance v s = (if v \<ge> con_cols s then con_newline s else s\<lparr>con_cx := v\<rparr>)"

lemma con_step_advance:
  "con_step c s =
     (if c = CHR 0x0A then con_newline s
      else if c = CHR 0x0D then s\<lparr>con_cx := 0\<rparr>
      else if c = CHR 0x08 \<or> c = CHR 0x7F then
        (if con_cx s > 0 then con_char CHR '' '' (s\<lparr>con_cx := con_cx s - 1\<rparr>) else s)
      else if c = CHR 0x09 then con_advance ((con_cx s + 4) AND NOT 3) s
      else if c \<ge> CHR '' '' \<and> c < CHR 0x7F then con_advance (con_cx (con_char c s) + 1) (con_char c s)
      else s)"
  by (simp add: con_step_def con_advance_def Let_def)

lemma con_okD: "con_ok s \<Longrightarrow> region_ok s" "con_ok s \<Longrightarrow> unat (con_cy s) < unat (con_rows s)"
  by (simp_all add: con_ok_def)

lemma unat_pred: "(v::u32) > 0 \<Longrightarrow> unat (v - 1) = unat v - 1"
  by (metis less_irrefl unat_minus_one)

lemma advance_keeps: "con_ok s \<Longrightarrow> keeps s (con_advance v s) \<and> con_ok (con_advance v s)"
  using newline_keeps [OF con_okD] by (auto simp: con_advance_def con_ok_def word_le_nat_alt)

lemma backspace_keeps:
  assumes "con_ok s" "con_cx s > 0"
  shows "con_ok (s\<lparr>con_cx := con_cx s - 1\<rparr>)"
  using assms by (auto simp: con_ok_def unat_pred)

lemma con_step_keeps:
  assumes ok: "con_ok s"
  shows "keeps s (con_step c s) \<and> con_ok (con_step c s)"
proof -
  have bs: "keeps s (con_char CHR '' '' (s\<lparr>con_cx := con_cx s - 1\<rparr>)) \<and> con_ok (con_char CHR '' '' (s\<lparr>con_cx := con_cx s - 1\<rparr>))"
    if "con_cx s > 0"
  proof -
    note t = backspace_keeps [OF ok that]
    note d = con_char_draws [OF t, of "CHR '' ''"]
    show ?thesis using t draws_con_ok [OF d] keeps_trans [OF keeps_cursor(1) draws_keeps [OF d]] by simp
  qed
  have pr: "keeps s (con_advance v (con_char c s)) \<and> con_ok (con_advance v (con_char c s))" for v
    using con_char_draws [OF ok] draws_con_ok draws_keeps keeps_trans advance_keeps ok by metis
  have cr: "con_ok (s\<lparr>con_cx := 0\<rparr>)" using ok by (auto simp: con_ok_def)
  show ?thesis
    using bs by (simp add: con_step_advance newline_keeps [OF con_okD [OF ok]] pr advance_keeps [OF ok] ok cr)
qed

lemma console_putc_keeps:
  assumes "con_ok s"
  shows "keeps s (fb_console_putc c s) \<and> con_ok (fb_console_putc c s)"
proof -
  have "con_ok (con_erase_cursor s)" using cursor_draws(1) [OF assms] draws_con_ok assms by blast
  then show ?thesis
    using con_step_keeps [of "con_erase_cursor s" c] assms cursor_draws draws_con_ok draws_keeps keeps_trans
    unfolding putc_step by (smt (verit) keeps_cursor(3))
qed

text \<open>
  console output never writes outside the visible frame. Whatever text is printed, with the
  display mirrored or not, once the region lies in the frame the cursor stays inside the
  region, the frame and region geometry is unchanged, and every word of memory that is not a
  visible pixel keeps its value.
\<close>

theorem console_frame_safe:
  assumes "con_ok s"
  shows "con_ok (fb_console_puts str s) \<and>
    (\<forall>i. i mod stride s < unat (fb_w s) \<and> i div stride s < unat (fb_h s) \<or>
      fb_mem (fb_console_puts str s) i = fb_mem s i)"
proof -
  have "keeps s (fold fb_console_putc cs s) \<and> con_ok (fold fb_console_putc cs s)" for cs
    using assms
  proof (induction cs arbitrary: s)
    case (Cons c cs)
    then show ?case using console_putc_keeps [of s c] keeps_trans by fastforce
  qed simp
  then have k: "keeps s (fb_console_puts str s)" "con_ok (fb_console_puts str s)"
    by (simp_all add: fb_console_puts_def)
  then obtain f v w where "fb_console_puts str s = (paint s f)\<lparr>con_cx := v, con_cy := w\<rparr>" by (auto simp: keeps_def)
  then show ?thesis using k(2) by (simp add: paint_def)
qed

subsection \<open>The terminal behind the pixels\<close>

text \<open>
  A cell holds a character and whether the cursor has been over it since it was drawn: the
  two pixel columns under the cursor are cleared when the cursor leaves, glyph or not.
\<close>

record tterm =
  tm_cols :: nat
  tm_rows :: nat
  tm_cx :: nat
  tm_cy :: nat
  tm_cell :: "nat \<Rightarrow> nat \<Rightarrow> char \<times> bool"

definition term_set :: "char \<times> bool \<Rightarrow> tterm \<Rightarrow> tterm" where
  "term_set cl t = t\<lparr>tm_cell := (tm_cell t)(tm_cy t := (tm_cell t (tm_cy t))(tm_cx t := cl))\<rparr>"

definition term_leave :: "tterm \<Rightarrow> tterm" where
  "term_leave t = term_set (fst (tm_cell t (tm_cy t) (tm_cx t)), True) t"

definition term_newline :: "tterm \<Rightarrow> tterm" where
  "term_newline t =
     (if tm_cy t + 1 \<ge> tm_rows t
      then t\<lparr>tm_cx := 0, tm_cy := tm_rows t - 1,
             tm_cell := (\<lambda>r. if r + 1 < tm_rows t then tm_cell t (r + 1) else (\<lambda>_. (CHR '' '', False)))\<rparr>
      else t\<lparr>tm_cx := 0, tm_cy := tm_cy t + 1\<rparr>)"

definition term_advance :: "nat \<Rightarrow> tterm \<Rightarrow> tterm" where
  "term_advance v t = (if v \<ge> tm_cols t then term_newline t else t\<lparr>tm_cx := v\<rparr>)"

definition term_step :: "char \<Rightarrow> tterm \<Rightarrow> tterm" where
  "term_step c t =
     (if c = CHR 0x0A then term_newline t
      else if c = CHR 0x0D then t\<lparr>tm_cx := 0\<rparr>
      else if c = CHR 0x08 \<or> c = CHR 0x7F then
        (if tm_cx t > 0 then term_set (CHR '' '', False) (t\<lparr>tm_cx := tm_cx t - 1\<rparr>) else t)
      else if c = CHR 0x09 then term_advance ((tm_cx t + 4) div 4 * 4) t
      else if c \<ge> CHR '' '' \<and> c < CHR 0x7F then term_advance (tm_cx t + 1) (term_set (c, False) t)
      else t)"

definition term_putc :: "char \<Rightarrow> tterm \<Rightarrow> tterm" where
  "term_putc c t = term_step c (term_leave t)"

text \<open>
  What a character looks like: row \<open>i\<close> of the font is one byte, read from left to right, the lowest
  binary digit being the leftmost of the eight columns.
\<close>

definition glyph_pixel :: "char \<Rightarrow> nat \<Rightarrow> nat \<Rightarrow> bool" where
  "glyph_pixel c i j =
     odd (unat (font8x8 ! (if 32 \<le> (of_char c :: nat) \<and> (of_char c :: nat) \<le> 126 then of_char c - 32 else 0) ! i) div 2 ^ j)"

lemma glyph_pixel_F:
  "map (\<lambda>i. map (\<lambda>j. if glyph_pixel CHR ''F'' i j then CHR ''#'' else CHR ''.'') [0, 1, 2, 3, 4, 5, 6, 7])
     [0, 1, 2, 3, 4, 5, 6, 7] =
   [''#######.'',
    ''.##...#.'',
    ''.##.#...'',
    ''.####...'',
    ''.##.#...'',
    ''.##.....'',
    ''####....'',
    ''........'']"
  by (simp add: glyph_pixel_def font8x8_def)

lemma glyph_color_pixel: "glyph_color (glyph_of c) i j fg bg = (if glyph_pixel c i j then fg else bg)"
proof -
  have n: "nat (if int (of_char c) - 32 < 0 \<or> int (of_char c) - 32 > 94 then 0 else int (of_char c) - 32) =
    (if 32 \<le> (of_char c :: nat) \<and> (of_char c :: nat) \<le> 126 then of_char c - 32 else 0)" by auto
  have b: "(w AND push_bit j 1 \<noteq> 0) = odd (unat w div 2 ^ j)" for w :: u8
  proof -
    have "(w AND push_bit j 1 \<noteq> 0) = bit w j" by (simp add: bit_iff_and_push_bit_not_eq_0)
    also have "\<dots> = bit (unat w) j" by (simp add: bit_unsigned_iff)
    finally show ?thesis by (simp add: bit_iff_odd)
  qed
  show ?thesis unfolding glyph_color_def glyph_of_def Let_def n b glyph_pixel_def ..
qed

definition cell_color :: "char \<times> bool \<Rightarrow> u32 \<Rightarrow> u32 \<Rightarrow> nat \<Rightarrow> nat \<Rightarrow> u32" where
  "cell_color cl fg bg i j = (if \<not> (snd cl \<and> j < 2) \<and> glyph_pixel (fst cl) i j then fg else bg)"

lemma cell_color_glyph:
  "cell_color cl fg bg i j = (if snd cl \<and> j < 2 then bg else glyph_color (glyph_of (fst cl)) i j fg bg)"
  by (simp add: cell_color_def glyph_color_pixel)

text \<open>\<open>depicts cur s t\<close>: the region is the picture of \<open>t\<close>, with the cursor bar if \<open>cur\<close>.\<close>

definition same_grid :: "fb \<Rightarrow> tterm \<Rightarrow> bool" where
  "same_grid s t \<longleftrightarrow> con_ok s \<and> fb_mirror s = 0 \<and> tm_cols t = unat (con_cols s) \<and> tm_rows t = unat (con_rows s) \<and>
     tm_cx t = unat (con_cx s) \<and> tm_cy t = unat (con_cy s)"

definition cell_pix :: "fb \<Rightarrow> nat \<Rightarrow> nat \<Rightarrow> nat \<Rightarrow> nat \<Rightarrow> u32" where
  "cell_pix s r c i j = pix s (unat (con_x0 s) + 8 * c + j) (unat (con_y0 s) + 8 * r + i)"

definition depicts :: "bool \<Rightarrow> fb \<Rightarrow> tterm \<Rightarrow> bool" where
  "depicts cur s t \<longleftrightarrow> same_grid s t \<and>
     (\<forall>r<tm_rows t. \<forall>c<tm_cols t. \<forall>i<8. \<forall>j<8. cell_pix s r c i j =
        (if cur \<and> r = tm_cy t \<and> c = tm_cx t \<and> j < 2 then con_fg s
         else cell_color (tm_cell t r c) (con_fg s) (con_bg s) i j))"

lemma rect_cell:
  assumes "i < 8" "j < 8" "n \<le> 8"
  shows "rect (x0 + 8 * c0) (y0 + 8 * r0) n 8 (x0 + 8 * c + j) (y0 + 8 * r + i) \<longleftrightarrow> c = c0 \<and> r = r0 \<and> j < n"
proof (cases "c = c0 \<and> r = r0")
  case False
  then have "c < c0 \<or> c > c0 \<or> r < r0 \<or> r > r0" by auto
  then show ?thesis using assms by (auto simp: rect_def)
qed (use assms in \<open>auto simp: rect_def\<close>)

lemma cell_pix_paint:
  assumes "region_ok s" "r < unat (con_rows s)" "c < unat (con_cols s)" "i < 8" "j < 8"
  shows "cell_pix (paint s f) r c i j = f (unat (con_x0 s) + 8 * c + j) (unat (con_y0 s) + 8 * r + i)"
  using assms by (simp add: cell_pix_def region_ok_def)

lemma cell_pix_cursor [simp]: "cell_pix (s\<lparr>con_cx := v\<rparr>) = cell_pix s" "cell_pix (s\<lparr>con_cy := w\<rparr>) = cell_pix s"
  by (simp_all add: cell_pix_def fun_eq_iff)

text \<open>Filling the cursor bar, and drawing a glyph at the cursor.\<close>

lemma cursor_paint:
  assumes ok: "con_ok s" "fb_mirror s = 0"
  shows "fb_fill_rect (con_x0 s + con_cx s * 8) (con_y0 s + con_cy s * 8) 2 8 v s =
    paint s (\<lambda>x y. if rect (unat (con_x0 s) + 8 * unat (con_cx s)) (unat (con_y0 s) + 8 * unat (con_cy s)) 2 8 x y
      then v else pix s x y)"
proof -
  have "frame_ok s" using ok by (simp add: con_ok_def region_ok_def)
  moreover have "unat (con_y0 s + con_cy s * 8) + unat (8 :: u32) < 4294967296"
    using ok u32_less [of "fb_h s"] unfolding con_ok_unat [OF ok(1)] by (auto simp: con_ok_def region_ok_def)
  ultimately show ?thesis
    using fb_fill_rect_paint [of s "con_y0 s + con_cy s * 8" 8 _ "con_x0 s + con_cx s * 8" 2 v "pix s"] ok(2)
    by (simp add: paint_pix con_ok_unat [OF ok(1)])
qed

lemma depicts_erase:
  assumes "depicts cur s t"
  shows "depicts False (con_erase_cursor s) (term_leave t)"
proof -
  have g: "con_ok s" "fb_mirror s = 0" using assms by (simp_all add: depicts_def same_grid_def)
  show ?thesis
    using assms rect_cell [of _ _ 2] cell_pix_paint [OF con_okD(1) [OF g(1)]]
    unfolding con_erase_cursor_def cursor_paint [OF g]
    by (auto simp: depicts_def same_grid_def term_leave_def term_set_def cell_color_glyph cell_pix_def)
qed

lemma depicts_draw:
  assumes "depicts False s t"
  shows "depicts True (con_draw_cursor s) t"
proof -
  have g: "con_ok s" "fb_mirror s = 0" using assms by (simp_all add: depicts_def same_grid_def)
  show ?thesis
    using assms rect_cell [of _ _ 2] cell_pix_paint [OF con_okD(1) [OF g(1)]]
    unfolding con_draw_cursor_def cursor_paint [OF g]
    by (auto simp: depicts_def same_grid_def cell_pix_def)
qed

lemma depicts_char:
  assumes "depicts False s t"
  shows "depicts False (con_char c s) (term_set (c, False) t)" "con_cx (con_char c s) = con_cx s"
proof -
  have g: "con_ok s" "fb_mirror s = 0" using assms by (simp_all add: depicts_def same_grid_def)
  have "frame_ok s" using g by (simp add: con_ok_def region_ok_def)
  moreover have "unat (con_x0 s + con_cx s * 8) + 8 \<le> unat (fb_w s)" "unat (con_y0 s + con_cy s * 8) + 8 \<le> unat (fb_h s)"
    using g unfolding con_ok_unat [OF g(1)] by (auto simp: con_ok_def region_ok_def)
  ultimately have p: "con_char c s = paint s (\<lambda>x y.
      if rect (unat (con_x0 s) + 8 * unat (con_cx s)) (unat (con_y0 s) + 8 * unat (con_cy s)) 8 8 x y
      then glyph_color (glyph_of c) (y - (unat (con_y0 s) + 8 * unat (con_cy s))) (x - (unat (con_x0 s) + 8 * unat (con_cx s)))
        (con_fg s) (con_bg s) else pix s x y)"
    using fb_put_char_paint [of s "con_x0 s + con_cx s * 8" "con_y0 s + con_cy s * 8" c "con_fg s" "con_bg s" "pix s"] g
    by (simp add: con_char_def paint_pix con_ok_unat [OF g(1)] cong: if_cong)
  then show "con_cx (con_char c s) = con_cx s" by simp
  show "depicts False (con_char c s) (term_set (c, False) t)"
    using assms rect_cell [of _ _ 8] cell_pix_paint [OF con_okD(1) [OF g(1)]] unfolding p
    by (auto simp: depicts_def same_grid_def term_set_def cell_color_glyph cell_pix_def)
qed

text \<open>The space glyph is empty, so a cleared row is a row of spaces.\<close>

lemma blank_cell: "i < 8 \<Longrightarrow> cell_color (CHR '' '', b) fg bg i j = bg"
proof -
  assume "i < 8"
  then have "i \<in> {0, 1, 2, 3, 4, 5, 6, 7}" by auto
  moreover have "glyph_of CHR '' '' = [0, 0, 0, 0, 0, 0, 0, 0]" by (simp add: glyph_of_def font8x8_def)
  ultimately show ?thesis by (auto simp: cell_color_glyph glyph_color_def)
qed

lemma depicts_newline:
  assumes d: "depicts False s t"
  shows "depicts False (con_newline s) (term_newline t)"
proof -
  note g = d [unfolded depicts_def same_grid_def]
  have r: "region_ok s" and cy: "unat (con_cy s) < unat (con_rows s)" using g by (simp_all add: con_ok_def)
  have cy1: "unat (con_cy s + 1) = unat (con_cy s) + 1" using cy u32_less [of "con_rows s"] by (simp add: u32_add)
  have ok: "con_ok (con_newline s)" using newline_keeps [OF r cy] by simp
  show ?thesis
  proof (cases "con_cy s + 1 \<ge> con_rows s")
    case False
    then have "con_newline s = s\<lparr>con_cx := 0, con_cy := con_cy s + 1\<rparr>" by (simp add: con_newline_def Let_def)
    then show ?thesis
      using False g cy1 ok by (simp add: depicts_def same_grid_def term_newline_def word_le_nat_alt)
  next
    case True
    let ?t = "s\<lparr>con_cx := 0, con_cy := con_cy s + 1\<rparr>"
    let ?f = "\<lambda>x y. if rect (unat (con_x0 s)) (unat (con_y0 s)) (8 * unat (con_cols s)) (8 * unat (con_rows s)) x y
      then (if y < unat (con_y0 s) + 8 * (unat (con_rows s) - 1) then pix s x (y + 8) else con_bg s) else pix s x y"
    have "console_scroll ?t = paint ?t ?f"
      using console_scroll_paint [of ?t "pix s"] r g by (simp add: paint_pix cong: if_cong)
    then have n: "con_newline s = (paint s ?f)\<lparr>con_cx := 0, con_cy := con_rows s - 1\<rparr>"
      using True by (simp add: con_newline_def Let_def)
    have px: "cell_pix (con_newline s) r c i j =
        (if r + 1 < unat (con_rows s) then cell_pix s (r + 1) c i j else con_bg s)"
      if "r < unat (con_rows s)" "c < unat (con_cols s)" "i < 8" "j < 8" for r c i j
      using that cell_pix_paint [OF r that, of ?f] unfolding n
      by (auto simp: rect_def cell_pix_def algebra_simps)
    have row: "unat (con_rows s - 1) = unat (con_rows s) - 1" using r by (rule region_ok_unat)
    have "tm_rows t \<le> tm_cy t + 1" using True cy1 g by (simp add: word_le_nat_alt)
    then have tn: "term_newline t = t\<lparr>tm_cx := 0, tm_cy := tm_rows t - 1,
        tm_cell := (\<lambda>r. if r + 1 < tm_rows t then tm_cell t (r + 1) else (\<lambda>_. (CHR '' '', False)))\<rparr>"
      by (simp add: term_newline_def)
    have "same_grid (con_newline s) (term_newline t)"
      using g ok row unfolding tn n by (simp add: same_grid_def)
    moreover have "con_fg (con_newline s) = con_fg s" "con_bg (con_newline s) = con_bg s" by (simp_all add: n)
    ultimately show ?thesis
      using g px unfolding depicts_def tn by (auto simp: blank_cell)
  qed
qed

lemma depicts_cx: "depicts False s t \<Longrightarrow> unat v < unat (con_cols s) \<Longrightarrow> depicts False (s\<lparr>con_cx := v\<rparr>) (t\<lparr>tm_cx := unat v\<rparr>)"
  by (simp add: depicts_def same_grid_def con_ok_def)

lemma depicts_advance: "depicts False s t \<Longrightarrow> depicts False (con_advance v s) (term_advance (unat v) t)"
  using depicts_newline [of s t] depicts_cx [of s t v]
  by (auto simp: con_advance_def term_advance_def word_le_nat_alt depicts_def same_grid_def)

lemma depicts_if:
  "(P \<Longrightarrow> depicts cur a x) \<Longrightarrow> (\<not> P \<Longrightarrow> depicts cur b y) \<Longrightarrow> depicts cur (if P then a else b) (if P then x else y)"
  by simp

lemma depicts_step:
  assumes d: "depicts False s t"
  shows "depicts False (con_step c s) (term_step c t)"
proof -
  have g: "con_ok s" "tm_cx t = unat (con_cx s)" using d by (simp_all add: depicts_def same_grid_def)
  have b: "8 * unat (con_cols s) \<le> unat (fb_w s)" "unat (con_cx s) < unat (con_cols s)"
    using g(1) by (simp_all add: con_ok_def region_ok_def)
  then have "unat (con_cx s) < 4294967292" using u32_less [of "fb_w s"] by simp
  then have tab: "depicts False (con_advance ((con_cx s + 4) AND NOT 3) s) (term_advance ((tm_cx t + 4) div 4 * 4) t)"
    using depicts_advance [OF d, of "(con_cx s + 4) AND NOT 3"] unat_next_tab [of "con_cx s"] g(2) by simp
  have "unat (con_cx s + 1) = unat (con_cx s) + 1" using b u32_less [of "con_cols s"] by (simp add: u32_add)
  then have pr: "depicts False (con_advance (con_cx (con_char c s) + 1) (con_char c s)) (term_advance (tm_cx t + 1) (term_set (c, False) t))"
    using depicts_advance [OF depicts_char(1) [OF d, of c], of "con_cx s + 1"] depicts_char(2) [OF d] g(2) by simp
  have bs: "depicts False (con_char CHR '' '' (s\<lparr>con_cx := con_cx s - 1\<rparr>)) (term_set (CHR '' '', False) (t\<lparr>tm_cx := tm_cx t - 1\<rparr>))"
    if "con_cx s > 0"
    using depicts_char(1) [OF depicts_cx [OF d, of "con_cx s - 1"]] b unat_pred [OF that] g(2) by simp
  have cr: "depicts False (s\<lparr>con_cx := 0\<rparr>) (t\<lparr>tm_cx := 0\<rparr>)" using depicts_cx [OF d, of 0] b by simp
  have e: "con_cx s > 0 \<longleftrightarrow> tm_cx t > 0" using g(2) by (simp add: word_less_nat_alt)
  show ?thesis
    unfolding con_step_advance term_step_def e [symmetric]
    by (intro depicts_if depicts_newline d cr tab pr bs)
qed


text \<open>Setting up a console region shows an empty terminal.\<close>

definition blank_term :: "nat \<Rightarrow> nat \<Rightarrow> tterm" where
  "blank_term cols rows = \<lparr>tm_cols = cols, tm_rows = rows, tm_cx = 0, tm_cy = 0, tm_cell = (\<lambda>_ _. (CHR '' '', False))\<rparr>"

lemma console_init_depicts:
  assumes "frame_ok s" "fb_mirror s = 0" "0 < unat cols" "0 < unat rows"
    and "unat x + 8 * unat cols \<le> unat (fb_w s)" "unat y + 8 * unat rows \<le> unat (fb_h s)"
  shows "depicts False (fb_console_init_region x y cols rows fg bg s) (blank_term (unat cols) (unat rows))"
proof -
  let ?s = "s\<lparr>con_fg := fg, con_bg := bg, con_x0 := x, con_y0 := y, con_cols := cols, con_rows := rows,
          con_cx := 0, con_cy := 0, con_enabled := True\<rparr>"
  have r: "region_ok ?s" using assms by (simp add: region_ok_def frame_ok_def)
  have "unat y + unat (rows * 8) < 4294967296"
    using region_ok_unat(3) [OF r] assms(6) u32_less [of "fb_h s"] by simp
  then have p: "fb_console_init_region x y cols rows fg bg s =
    paint ?s (\<lambda>x' y'. if rect (unat x) (unat y) (8 * unat cols) (8 * unat rows) x' y' then bg else pix ?s x' y')"
    using fb_fill_rect_paint [of ?s y "rows * 8" _ x "cols * 8" bg "pix ?s"] region_ok_unat(1-3) [OF r] assms(2)
    by (simp add: fb_console_init_region_def paint_pix cong: if_cong)
  show ?thesis
    using r assms unfolding depicts_def p
    by (auto simp: same_grid_def con_ok_def blank_term_def blank_cell cell_pix_paint [OF r] rect_def)
qed

definition frame0 :: fb where
  "frame0 = \<lparr>fb_ptr = 0x3C100000, fb_mem = (\<lambda>_. 7), fb_w = 16, fb_h = 16, fb_p = 64, fb_size = 1024, fb_mirror = 0,
     con_cx = 0, con_cy = 0, con_cols = 0, con_rows = 0, con_x0 = 0, con_y0 = 0, con_fg = 0, con_bg = 0, con_enabled = True\<rparr>"

lemma frame0_depicts: "depicts False (fb_console_init 0xFFFFFFFF 0x20 frame0) (blank_term 2 2)"
proof -
  have "fb_w frame0 div 8 = 2" "fb_h frame0 div 8 = 2" by (simp_all add: frame0_def)
  then show ?thesis
    using console_init_depicts [of frame0 2 2 0 0 "0xFFFFFFFF" "0x20"]
    by (simp add: fb_console_init_def frame0_def frame_ok_def)
qed

lemma console_init_fields:
  assumes "depicts False (fb_console_init_region x y cols rows fg bg s) t"
    "frame_ok s" "unat y + unat (rows * 8) < 4294967296"
  shows "fb_ptr (fb_console_init_region x y cols rows fg bg s) = fb_ptr s"
    "con_enabled (fb_console_init_region x y cols rows fg bg s)"
proof -
  let ?s = "s\<lparr>con_fg := fg, con_bg := bg, con_x0 := x, con_y0 := y, con_cols := cols, con_rows := rows,
          con_cx := 0, con_cy := 0, con_enabled := True\<rparr>"
  have "frame_ok ?s" using assms(2) by (simp add: frame_ok_def)
  from fill_rect_draws [OF this assms(3), of x "cols * 8" bg]
  show "fb_ptr (fb_console_init_region x y cols rows fg bg s) = fb_ptr s"
    "con_enabled (fb_console_init_region x y cols rows fg bg s)"
    by (auto simp: fb_console_init_region_def draws_def)
qed

lemma frame0_console: "fb_ptr (fb_console_init 0xFFFFFFFF 0x20 frame0) \<noteq> 0" "con_enabled (fb_console_init 0xFFFFFFFF 0x20 frame0)"
proof -
  have e: "fb_console_init 0xFFFFFFFF 0x20 frame0 = fb_console_init_region 0 0 2 2 0xFFFFFFFF 0x20 frame0"
    by (simp add: fb_console_init_def frame0_def)
  have "fb_ptr frame0 = 0x3C100000" "frame_ok frame0" by (simp_all add: frame0_def frame_ok_def)
  then show "fb_ptr (fb_console_init 0xFFFFFFFF 0x20 frame0) \<noteq> 0" "con_enabled (fb_console_init 0xFFFFFFFF 0x20 frame0)"
    using console_init_fields [OF frame0_depicts [unfolded e]] unfolding e by simp_all
qed


theorem console_frame_safe_witness:
  "con_ok (fb_console_init 0xFFFFFFFF 0x20 frame0) \<and>
   con_ok (fb_console_puts ''abcde'' (fb_console_init 0xFFFFFFFF 0x20 frame0))"
  using console_frame_safe [of "fb_console_init 0xFFFFFFFF 0x20 frame0" "''abcde''"] frame0_depicts
  by (simp add: depicts_def same_grid_def)

end
