(* ===== verification/Mmio.thy ===== *)
theory Mmio
  imports Uart
begin

text \<open>
  Devices behind memory-mapped registers, and the two small drivers on top of them: the
  firmware mailbox (\<^verbatim>\<open>src/mailbox.c\<close>) and the GPIO block (\<^verbatim>\<open>src/gpio.c\<close>). A device is a
  parameter: what a read of a register returns, what a write does, and what happens while
  the processor waits. Reading may change the device.
\<close>

unbundle bit_operations_syntax

record 'd mmio =
  reg_rd :: "u64 \<Rightarrow> 'd \<Rightarrow> u32 \<times> 'd"
  reg_wr :: "u64 \<Rightarrow> u32 \<Rightarrow> 'd \<Rightarrow> 'd"
  pass_us :: "u64 \<Rightarrow> 'd \<Rightarrow> 'd"

subsection \<open>The mailbox\<close>

abbreviation MBOX_BASE :: u64 where "MBOX_BASE \<equiv> 0xFE00B880"
abbreviation MBOX_FULL :: u32 where "MBOX_FULL \<equiv> 0x80000000"
abbreviation MBOX_EMPTY :: u32 where "MBOX_EMPTY \<equiv> 0x40000000"

text \<open>The two waiting loops on the status register; \<open>None\<close> is waiting for ever.\<close>

partial_function (option) mbox_wait :: "'d mmio \<Rightarrow> u32 \<Rightarrow> 'd \<Rightarrow> 'd option" where
  "mbox_wait hw flag d =
     (let (v, d) = reg_rd hw (MBOX_BASE + 0x18) d in if v AND flag \<noteq> 0 then mbox_wait hw flag d else Some d)"

partial_function (option) mbox_reply :: "'d mmio \<Rightarrow> u32 \<Rightarrow> 'd \<Rightarrow> 'd option" where
  "mbox_reply hw channel d = do {
     d \<leftarrow> mbox_wait hw MBOX_EMPTY d;
     let (reply, d) = reg_rd hw MBOX_BASE d
     in if reply AND 0xF = channel then Some d else mbox_reply hw channel d
   }"

text \<open>
  The message is in memory the firmware shares; \<open>code d\<close> is its word 1, the response code, when
  the reply has come.
\<close>

definition mbox_call :: "'d mmio \<Rightarrow> ('d \<Rightarrow> u32) \<Rightarrow> u32 \<Rightarrow> u64 \<Rightarrow> 'd \<Rightarrow> (bool \<times> 'd) option" where
  "mbox_call hw code channel buf d =
     (let addr = (ucast (buf AND 0xFFFFFFF0) :: u32); msg = addr OR (channel AND 0xF)
      in do {
        d \<leftarrow> mbox_wait hw MBOX_FULL d;
        d \<leftarrow> mbox_reply hw channel (reg_wr hw (MBOX_BASE + 0x20) msg d);
        Some (code d = 0x80000000, d)
      })"

subsection \<open>GPIO\<close>

abbreviation GPIO_BASE :: u64 where "GPIO_BASE \<equiv> 0xFE200000"

definition gpfsel_reg :: "int \<Rightarrow> u64" where
  "gpfsel_reg pin = GPIO_BASE + of_int (pin div 10 * 4)"

definition gpio_set_function :: "'d mmio \<Rightarrow> int \<Rightarrow> int \<Rightarrow> 'd \<Rightarrow> 'd" where
  "gpio_set_function hw pin func d =
     (if pin < 0 \<or> pin > 57 then d
      else
        let shift = nat (pin mod 10 * 3);
            (val, d) = reg_rd hw (gpfsel_reg pin) d;
            val = val AND NOT (push_bit shift 7);
            val = val OR push_bit shift (of_int func AND 7)
        in reg_wr hw (gpfsel_reg pin) val d)"

definition gpio_write :: "'d mmio \<Rightarrow> int \<Rightarrow> int \<Rightarrow> 'd \<Rightarrow> 'd" where
  "gpio_write hw pin val d =
     (if pin < 0 \<or> pin > 57 then d
      else if pin < 32
      then reg_wr hw (GPIO_BASE + (if val \<noteq> 0 then 0x1C else 0x28)) (push_bit (nat pin) 1) d
      else reg_wr hw (GPIO_BASE + (if val \<noteq> 0 then 0x20 else 0x2C)) (push_bit (nat (pin - 32)) 1) d)"

definition gpio_read :: "'d mmio \<Rightarrow> int \<Rightarrow> 'd \<Rightarrow> int \<times> 'd" where
  "gpio_read hw pin d =
     (if pin < 0 \<or> pin > 57 then (0, d)
      else if pin < 32
      then (let (v, d) = reg_rd hw (GPIO_BASE + 0x34) d in (uint (drop_bit (nat pin) v AND 1), d))
      else (let (v, d) = reg_rd hw (GPIO_BASE + 0x38) d in (uint (drop_bit (nat (pin - 32)) v AND 1), d)))"

text \<open>
  The function-select registers hold three bits a pin. \<open>field v k\<close> is the field of the pin with
  position \<open>k\<close> in its register.
\<close>

definition field :: "u32 \<Rightarrow> nat \<Rightarrow> u32" where
  "field v k = drop_bit (3 * k) v AND 7"

lemma bit_seven: "bit (7::int) n \<longleftrightarrow> n < 3"
proof -
  have "(7::int) = mask 3" by (simp add: mask_eq_exp_minus_1)
  then show ?thesis by (simp only: bit_mask_iff) auto
qed

lemma set_field:
  assumes "j < 10" "k < 10"
  shows "field ((v AND NOT (push_bit (3 * k) 7)) OR push_bit (3 * k) (f AND 7)) j = (if j = k then f AND 7 else field v j)"
proof (rule bit_word_eqI)
  fix n assume "n < LENGTH(32)"
  show "bit (field ((v AND NOT (push_bit (3 * k) 7)) OR push_bit (3 * k) (f AND 7)) j) n = bit (if j = k then f AND 7 else field v j) n"
  proof (cases "n < 3")
    case True
    have "3 * j + n < 32" using assms True by linarith
    moreover have "j \<noteq> k \<Longrightarrow> \<not> (3 * k \<le> 3 * j + n \<and> 3 * j + n - 3 * k < 3)" using True by linarith
    ultimately show ?thesis
      using True by (auto simp: field_def bit_simps bit_seven)
  next
    case False
    then show ?thesis by (simp add: field_def bit_simps bit_seven)
  qed
qed

text \<open>
  Setting the function of a pin on a device whose registers hold what was last written: the
  pin's field is the function, every other pin keeps its own.
\<close>

definition reg_file :: "'d mmio \<Rightarrow> ('d \<Rightarrow> u64 \<Rightarrow> u32) \<Rightarrow> bool" where
  "reg_file hw rf \<longleftrightarrow> (\<forall>a d. fst (reg_rd hw a d) = rf d a \<and> rf (snd (reg_rd hw a d)) = rf d) \<and>
     (\<forall>a v d. rf (reg_wr hw a v d) = (rf d)(a := v))"

definition pin_function :: "(u64 \<Rightarrow> u32) \<Rightarrow> int \<Rightarrow> u32" where
  "pin_function r pin = field (r (gpfsel_reg pin)) (nat (pin mod 10))"

lemma gpfsel_reg_inj: "0 \<le> p \<Longrightarrow> p \<le> 57 \<Longrightarrow> 0 \<le> q \<Longrightarrow> q \<le> 57 \<Longrightarrow> gpfsel_reg p = gpfsel_reg q \<longleftrightarrow> p div 10 = q div 10"
proof -
  assume a: "0 \<le> p" "p \<le> 57" "0 \<le> q" "q \<le> 57"
  have u: "uint (of_int (x div 10 * 4) :: u64) = x div 10 * 4" if "0 \<le> x" "x \<le> 57" for x :: int
    using that by (simp only: uint_word_of_int_eq) (rule take_bit_int_eq_self, auto)
  have "gpfsel_reg p = gpfsel_reg q \<longleftrightarrow> (of_int (p div 10 * 4) :: u64) = of_int (q div 10 * 4)"
    unfolding gpfsel_reg_def by (rule add_left_cancel)
  also have "\<dots> \<longleftrightarrow> p div 10 * 4 = q div 10 * 4"
    unfolding word_uint_eq_iff u [OF a(1,2)] u [OF a(3,4)] by (rule refl)
  finally show ?thesis by simp
qed

lemma gpio_set_function_fields:
  assumes "reg_file hw rf" "0 \<le> pin" "pin \<le> 57" "0 \<le> q" "q \<le> 57"
  shows "pin_function (rf (gpio_set_function hw pin func d)) q =
    (if q = pin then of_int func AND 7 else pin_function (rf d) q)"
proof -
  have m: "nat (pin mod 10 * 3) = 3 * nat (pin mod 10)" "nat (pin mod 10) < 10" "nat (q mod 10) < 10" by auto
  obtain val d1 where r: "reg_rd hw (gpfsel_reg pin) d = (val, d1)" by fastforce
  have v: "val = rf d (gpfsel_reg pin)" "rf d1 = rf d" using assms(1) r unfolding reg_file_def by (metis fst_conv, metis snd_conv)
  have eq: "q = pin \<longleftrightarrow> q div 10 = pin div 10 \<and> nat (q mod 10) = nat (pin mod 10)"
    by (metis div_mult_mod_eq nat_0_le pos_mod_sign zero_less_numeral)
  let ?w = "(val AND NOT (push_bit (3 * nat (pin mod 10)) 7)) OR push_bit (3 * nat (pin mod 10)) (of_int func AND 7)"
  have "gpio_set_function hw pin func d = reg_wr hw (gpfsel_reg pin) ?w d1"
    using assms(2,3) unfolding gpio_set_function_def m(1) Let_def r prod.case by simp
  then have w: "rf (gpio_set_function hw pin func d) = (rf d)(gpfsel_reg pin := ?w)"
    using assms(1) v(2) by (simp add: reg_file_def)
  note inj = gpfsel_reg_inj [OF assms(4,5,2,3)]
  show ?thesis
  proof (cases "q div 10 = pin div 10")
    case True
    then have "rf (gpio_set_function hw pin func d) (gpfsel_reg q) = ?w" "val = rf d (gpfsel_reg q)" using w inj v(1) by simp_all
    then show ?thesis unfolding pin_function_def using set_field [OF m(3,2)] eq True by simp
  next
    case False
    then show ?thesis unfolding pin_function_def w using inj eq by simp
  qed
qed

end
