(* ===== verification/Sd.thy ===== *)
theory Sd
  imports Mmio Fat32
begin

text \<open>
  The SD card driver (\<^verbatim>\<open>src/sd.c\<close>) on the registers of its host controller, which is a
  parameter. A bounded waiting loop is a recursion on the number of turns it has left.
\<close>

abbreviation EMMC_BLKSIZECNT :: u64 where "EMMC_BLKSIZECNT \<equiv> 0xFE300004"
abbreviation EMMC_ARG1 :: u64 where "EMMC_ARG1 \<equiv> 0xFE300008"
abbreviation EMMC_CMDTM :: u64 where "EMMC_CMDTM \<equiv> 0xFE30000C"
abbreviation EMMC_RESP0 :: u64 where "EMMC_RESP0 \<equiv> 0xFE300010"
abbreviation EMMC_DATA :: u64 where "EMMC_DATA \<equiv> 0xFE300020"
abbreviation EMMC_STATUS :: u64 where "EMMC_STATUS \<equiv> 0xFE300024"
abbreviation EMMC_CONTROL0 :: u64 where "EMMC_CONTROL0 \<equiv> 0xFE300028"
abbreviation EMMC_CONTROL1 :: u64 where "EMMC_CONTROL1 \<equiv> 0xFE30002C"
abbreviation EMMC_INTERRUPT :: u64 where "EMMC_INTERRUPT \<equiv> 0xFE300030"
abbreviation EMMC_IRPT_MASK :: u64 where "EMMC_IRPT_MASK \<equiv> 0xFE300034"
abbreviation EMMC_IRPT_EN :: u64 where "EMMC_IRPT_EN \<equiv> 0xFE300038"

definition CMD :: "u32 \<Rightarrow> u32" where
  "CMD n = push_bit 24 n"

abbreviation RSPNS_136 :: u32 where "RSPNS_136 \<equiv> 0x10000"
abbreviation RSPNS_48 :: u32 where "RSPNS_48 \<equiv> 0x20000"
abbreviation RSPNS_48B :: u32 where "RSPNS_48B \<equiv> 0x30000"
abbreviation CMD_IXCHK :: u32 where "CMD_IXCHK \<equiv> 0x100000"
abbreviation CMD_CRCCHK :: u32 where "CMD_CRCCHK \<equiv> 0x80000"
abbreviation CMD_ISDATA :: u32 where "CMD_ISDATA \<equiv> 0x200000"
abbreviation TM_DAT_READ :: u32 where "TM_DAT_READ \<equiv> 0x10"
abbreviation TM_BLKCNT_EN :: u32 where "TM_BLKCNT_EN \<equiv> 2"
abbreviation TM_MULTI :: u32 where "TM_MULTI \<equiv> 1"
abbreviation TM_AUTOCMD12 :: u32 where "TM_AUTOCMD12 \<equiv> 4"
abbreviation R1 :: u32 where "R1 \<equiv> RSPNS_48 OR CMD_IXCHK OR CMD_CRCCHK"

abbreviation INT_CMD_DONE :: u32 where "INT_CMD_DONE \<equiv> 1"
abbreviation INT_DATA_DONE :: u32 where "INT_DATA_DONE \<equiv> 2"
abbreviation INT_WRITE_RDY :: u32 where "INT_WRITE_RDY \<equiv> 0x10"
abbreviation INT_READ_RDY :: u32 where "INT_READ_RDY \<equiv> 0x20"
abbreviation INT_ERROR :: u32 where "INT_ERROR \<equiv> 0x8000"

abbreviation C1_CLK_INTLEN :: u32 where "C1_CLK_INTLEN \<equiv> 1"
abbreviation C1_CLK_STABLE :: u32 where "C1_CLK_STABLE \<equiv> 2"
abbreviation C1_CLK_EN :: u32 where "C1_CLK_EN \<equiv> 4"
abbreviation C1_TOUNIT_MAX :: u32 where "C1_TOUNIT_MAX \<equiv> 0xE0000"
abbreviation C1_SRST_HC :: u32 where "C1_SRST_HC \<equiv> 0x1000000"

abbreviation SD_BLOCK_SIZE :: u32 where "SD_BLOCK_SIZE \<equiv> 512"

record 'd sd =
  sd_type :: int
  sd_rca :: u32
  sd_dev :: 'd
  sd_con :: uart

subsection \<open>Register access\<close>

definition rd :: "'d mmio \<Rightarrow> u64 \<Rightarrow> 'd sd \<Rightarrow> u32 \<times> 'd sd" where
  "rd hw a s = (let (v, d) = reg_rd hw a (sd_dev s) in (v, s\<lparr>sd_dev := d\<rparr>))"

definition wr :: "'d mmio \<Rightarrow> u64 \<Rightarrow> u32 \<Rightarrow> 'd sd \<Rightarrow> 'd sd" where
  "wr hw a v s = s\<lparr>sd_dev := reg_wr hw a v (sd_dev s)\<rparr>"

definition pause :: "'d mmio \<Rightarrow> u64 \<Rightarrow> 'd sd \<Rightarrow> 'd sd" where
  "pause hw us s = s\<lparr>sd_dev := pass_us hw us (sd_dev s)\<rparr>"

definition sd_say :: "string \<Rightarrow> 'd sd \<Rightarrow> 'd sd" where
  "sd_say msg s = s\<lparr>sd_con := uart_puts msg (sd_con s)\<rparr>"

subsection \<open>Waiting\<close>

text \<open>\<open>for (t = 0; t < us; t += 10)\<close> with \<open>us = timeout_ms * 1000\<close>.\<close>

definition turns :: "u32 \<Rightarrow> nat" where
  "turns timeout_ms = (unat (timeout_ms * 1000) + 9) div 10"

fun wait_int_loop :: "'d mmio \<Rightarrow> u32 \<Rightarrow> nat \<Rightarrow> 'd sd \<Rightarrow> bool \<times> 'd sd" where
  "wait_int_loop hw msk 0 s = (False, s)"
| "wait_int_loop hw msk (Suc n) s =
     (let (irq, s) = rd hw EMMC_INTERRUPT s
      in if irq AND INT_ERROR \<noteq> 0 then (False, wr hw EMMC_INTERRUPT 0xFFFFFFFF s)
         else if irq AND msk = msk then (True, wr hw EMMC_INTERRUPT msk s)
         else wait_int_loop hw msk n (pause hw 10 s))"

definition wait_int :: "'d mmio \<Rightarrow> u32 \<Rightarrow> u32 \<Rightarrow> 'd sd \<Rightarrow> bool \<times> 'd sd" where
  "wait_int hw msk timeout_ms = wait_int_loop hw msk (turns timeout_ms)"

fun wait_clear_loop :: "'d mmio \<Rightarrow> u64 \<Rightarrow> u32 \<Rightarrow> nat \<Rightarrow> 'd sd \<Rightarrow> bool \<times> 'd sd" where
  "wait_clear_loop hw a msk 0 s = (False, s)"
| "wait_clear_loop hw a msk (Suc n) s =
     (let (v, s) = rd hw a s
      in if v AND msk = 0 then (True, s) else wait_clear_loop hw a msk n (pause hw 10 s))"

definition wait_status :: "'d mmio \<Rightarrow> u32 \<Rightarrow> u32 \<Rightarrow> 'd sd \<Rightarrow> bool \<times> 'd sd" where
  "wait_status hw msk timeout_ms = wait_clear_loop hw EMMC_STATUS msk (turns timeout_ms)"

definition wait_control1_clear :: "'d mmio \<Rightarrow> u32 \<Rightarrow> u32 \<Rightarrow> 'd sd \<Rightarrow> bool \<times> 'd sd" where
  "wait_control1_clear hw msk timeout_ms = wait_clear_loop hw EMMC_CONTROL1 msk (turns timeout_ms)"

subsection \<open>Commands\<close>

text \<open>The response is returned as a C \<open>int\<close>.\<close>

definition send_cmd :: "'d mmio \<Rightarrow> u32 \<Rightarrow> u32 \<Rightarrow> 'd sd \<Rightarrow> int \<times> 'd sd" where
  "send_cmd hw cmd arg s =
     (let inhibit = (if cmd AND CMD_ISDATA \<noteq> 0 \<or> drop_bit 16 cmd AND 3 = 3 then 3 else 1);
          (free, s) = wait_status hw inhibit 100 s
      in if \<not> free then (- 1, s)
         else
           let s = wr hw EMMC_CMDTM cmd (wr hw EMMC_ARG1 arg (wr hw EMMC_INTERRUPT 0xFFFFFFFF s));
               (ok, s) = wait_int hw INT_CMD_DONE 500 s
           in if \<not> ok then (- 1, s) else (let (v, s) = rd hw EMMC_RESP0 s in (sint v, s)))"

definition send_acmd :: "'d mmio \<Rightarrow> u32 \<Rightarrow> u32 \<Rightarrow> 'd sd \<Rightarrow> int \<times> 'd sd" where
  "send_acmd hw cmd arg s =
     (let (r, s) = send_cmd hw (CMD 55 OR R1) (push_bit 16 (sd_rca s)) s
      in if r < 0 then (- 1, s) else send_cmd hw cmd arg s)"

definition sd_ready :: "'d sd \<Rightarrow> bool" where
  "sd_ready s \<longleftrightarrow> sd_type s \<noteq> 0"

subsection \<open>Initialisation\<close>

fun clk_loop :: "'d mmio \<Rightarrow> nat \<Rightarrow> 'd sd \<Rightarrow> 'd sd" where
  "clk_loop hw 0 s = s"
| "clk_loop hw (Suc n) s =
     (let (v, s) = rd hw EMMC_CONTROL1 s in if v AND C1_CLK_STABLE \<noteq> 0 then s else clk_loop hw n (pause hw 10 s))"

fun ocr_loop :: "'d mmio \<Rightarrow> u32 \<Rightarrow> nat \<Rightarrow> u32 \<Rightarrow> 'd sd \<Rightarrow> u32 \<times> 'd sd" where
  "ocr_loop hw arg 0 ocr s = (ocr, s)"
| "ocr_loop hw arg (Suc n) ocr s =
     (let (r, s) = send_acmd hw (CMD 41 OR RSPNS_48) arg s
      in if r < 0 then (ocr, s)
         else
           let ocr = of_int r
           in if drop_bit 31 ocr \<noteq> 0 then (ocr, s) else ocr_loop hw arg n ocr (pause hw 10000 s))"

text \<open>From the power-up loop on: identification, data clock, selection.\<close>

definition sd_select :: "'d mmio \<Rightarrow> bool \<Rightarrow> u32 \<Rightarrow> 'd sd \<Rightarrow> int \<times> 'd sd" where
  "sd_select hw v2 ocr s =
     (let s = s\<lparr>sd_type := (if v2 then if drop_bit 30 ocr AND 1 \<noteq> 0 then 3 else 2 else 1)\<rparr>;
          (_, s) = send_cmd hw (CMD 2 OR RSPNS_136) 0 s;
          (r, s) = send_cmd hw (CMD 3 OR R1) 0 s
      in if r < 0 then (- 1, sd_say (''[sd] CMD3 failed'' @ [CHR 0x0A]) s)
         else
           let s = s\<lparr>sd_rca := drop_bit 16 (of_int r)\<rparr>;
               (c1, s) = rd hw EMMC_CONTROL1 s;
               s = pause hw 1000 (wr hw EMMC_CONTROL1 ((c1 AND NOT (push_bit 6 0x3FF)) OR push_bit 8 2) s);
               (r, s) = send_cmd hw (CMD 7 OR RSPNS_48B OR CMD_CRCCHK OR CMD_IXCHK) (push_bit 16 (sd_rca s)) s
           in if r < 0 then (- 1, sd_say (''[sd] CMD7 failed'' @ [CHR 0x0A]) s)
              else
                let (r, s) = send_cmd hw (CMD 16 OR R1) SD_BLOCK_SIZE s
                in if r < 0 then (- 1, sd_say (''[sd] CMD16 failed'' @ [CHR 0x0A]) s)
                   else (0, sd_say ('')'' @ [CHR 0x0A]) (sd_say [''?v1SC'' ! nat (sd_type s)] (sd_say ''[sd] ready (type=SD'' s))))"

definition sd_identify :: "'d mmio \<Rightarrow> 'd sd \<Rightarrow> int \<times> 'd sd" where
  "sd_identify hw s =
     (let (_, s) = send_cmd hw (CMD 0) 0 s;
          s = pause hw 2000 s;
          (r, s) = send_cmd hw (CMD 8 OR RSPNS_48 OR CMD_CRCCHK OR CMD_IXCHK) 0x1AA s;
          v2 = (r > 0 \<and> r AND 0xFF = 0xAA);
          (ocr, s) = ocr_loop hw (if v2 then 0x50FF8000 else 0x00FF8000) 150 0 s
      in if drop_bit 31 ocr = 0 then (- 1, sd_say (''[sd] ACMD41 timeout (card not ready)'' @ [CHR 0x0A]) s)
         else sd_select hw v2 ocr s)"

definition sd_init :: "'d mmio \<Rightarrow> 'd sd \<Rightarrow> int \<times> 'd sd" where
  "sd_init hw s =
     (let s = s\<lparr>sd_type := 0, sd_rca := 0\<rparr>;
          s = wr hw EMMC_CONTROL1 C1_SRST_HC (wr hw EMMC_CONTROL0 0 s);
          (ok, s) = wait_control1_clear hw C1_SRST_HC 100 s
      in if \<not> ok then (- 1, sd_say (''[sd] controller reset timeout'' @ [CHR 0x0A]) s)
         else
           let s = pause hw 1000 (wr hw EMMC_CONTROL1 (C1_CLK_INTLEN OR C1_TOUNIT_MAX OR push_bit 8 0x80) s);
               (_, s) = wait_status hw 0 10 s;
               s = clk_loop hw 10000 s;
               (v, s) = rd hw EMMC_CONTROL1 s
           in if v AND C1_CLK_STABLE = 0 then (- 1, sd_say (''[sd] clock stable timeout'' @ [CHR 0x0A]) s)
              else
                let (v, s) = rd hw EMMC_CONTROL1 s;
                    s = pause hw 2000 (wr hw EMMC_CONTROL1 (v OR C1_CLK_EN) s)
                in sd_identify hw (wr hw EMMC_IRPT_MASK 0xFFFFFFFF (wr hw EMMC_IRPT_EN 0 s)))"

subsection \<open>Blocks\<close>

definition block_addr :: "u32 \<Rightarrow> 'd sd \<Rightarrow> u32" where
  "block_addr lba s = (if sd_type s = 3 then lba else lba * SD_BLOCK_SIZE)"

text \<open>A word stored at or loaded from a byte address, low byte first.\<close>

definition word_bytes :: "u32 \<Rightarrow> bytes" where
  "word_bytes w = [ucast w, ucast (drop_bit 8 w), ucast (drop_bit 16 w), ucast (drop_bit 24 w)]"

definition load_word :: "mem \<Rightarrow> addr \<Rightarrow> u32" where
  "load_word m p = rd32 (mread m p 4) 0"

fun read_words :: "'d mmio \<Rightarrow> nat \<Rightarrow> addr \<Rightarrow> mem \<times> 'd sd \<Rightarrow> mem \<times> 'd sd" where
  "read_words hw 0 p st = st"
| "read_words hw (Suc n) p (m, s) =
     (let (w, s) = rd hw EMMC_DATA s in read_words hw n (p + 4) (mwrite m p (word_bytes w), s))"

fun read_blocks :: "'d mmio \<Rightarrow> nat \<Rightarrow> addr \<Rightarrow> mem \<times> 'd sd \<Rightarrow> bool \<times> mem \<times> 'd sd" where
  "read_blocks hw 0 p st = (True, st)"
| "read_blocks hw (Suc n) p (m, s) =
     (let (ok, s) = wait_int hw INT_READ_RDY 1000 s
      in if \<not> ok then (False, m, s)
         else read_blocks hw n (p + 512) (read_words hw 128 p (m, s)))"

definition sd_read :: "'d mmio \<Rightarrow> u32 \<Rightarrow> addr \<Rightarrow> u32 \<Rightarrow> mem \<times> 'd sd \<Rightarrow> int \<times> mem \<times> 'd sd" where
  "sd_read hw lba buf cnt st =
     (let (m, s) = st
      in if sd_type s = 0 \<or> cnt = 0 then (- 1, m, s)
         else
           let s = wr hw EMMC_BLKSIZECNT (push_bit 16 cnt OR SD_BLOCK_SIZE) s;
               cmd = (if cnt = 1 then CMD 17 OR R1 OR CMD_ISDATA OR TM_DAT_READ
                      else CMD 18 OR R1 OR CMD_ISDATA OR TM_DAT_READ OR TM_MULTI OR TM_BLKCNT_EN OR TM_AUTOCMD12);
               (r, s) = send_cmd hw cmd (block_addr lba s) s
           in if r < 0 then (- 1, m, s)
              else
                let (ok, m, s) = read_blocks hw (unat cnt) buf (m, s)
                in if \<not> ok then (- 1, m, s)
                   else if cnt > 1
                   then (let (fin, s) = wait_int hw INT_DATA_DONE 2000 s in (if fin then 0 else - 1, m, s))
                   else (0, m, s))"

fun write_words :: "'d mmio \<Rightarrow> nat \<Rightarrow> addr \<Rightarrow> mem \<Rightarrow> 'd sd \<Rightarrow> 'd sd" where
  "write_words hw 0 p m s = s"
| "write_words hw (Suc n) p m s = write_words hw n (p + 4) m (wr hw EMMC_DATA (load_word m p) s)"

fun write_blocks :: "'d mmio \<Rightarrow> nat \<Rightarrow> addr \<Rightarrow> mem \<Rightarrow> 'd sd \<Rightarrow> bool \<times> 'd sd" where
  "write_blocks hw 0 p m s = (True, s)"
| "write_blocks hw (Suc n) p m s =
     (let (ok, s) = wait_int hw INT_WRITE_RDY 1000 s
      in if \<not> ok then (False, s) else write_blocks hw n (p + 512) m (write_words hw 128 p m s))"

definition sd_write :: "'d mmio \<Rightarrow> u32 \<Rightarrow> addr \<Rightarrow> u32 \<Rightarrow> mem \<Rightarrow> 'd sd \<Rightarrow> int \<times> 'd sd" where
  "sd_write hw lba buf cnt m s =
     (if sd_type s = 0 \<or> cnt = 0 then (- 1, s)
      else
        let s = wr hw EMMC_BLKSIZECNT (push_bit 16 cnt OR SD_BLOCK_SIZE) s;
            cmd = (if cnt = 1 then CMD 24 OR R1 OR CMD_ISDATA
                   else CMD 25 OR R1 OR CMD_ISDATA OR TM_MULTI OR TM_BLKCNT_EN OR TM_AUTOCMD12);
            (r, s) = send_cmd hw cmd (block_addr lba s) s
        in if r < 0 then (- 1, s)
           else
             let (ok, s) = write_blocks hw (unat cnt) buf m s
             in if \<not> ok then (- 1, s)
                else (let (fin, s) = wait_int hw INT_DATA_DONE 2000 s in (if fin then 0 else - 1, s)))"

subsection \<open>The card is never found ready\<close>

lemma sd_ops_type [simp]:
  "sd_type (snd (rd hw a s)) = sd_type s" "sd_type (wr hw a v s) = sd_type s" "sd_type (pause hw us s) = sd_type s"
  "sd_type (sd_say msg s) = sd_type s"
  by (simp_all add: rd_def wr_def pause_def sd_say_def split: prod.splits)

lemma rd_type: "rd hw a s = (v, s') \<Longrightarrow> sd_type s' = sd_type s"
  by (metis sd_ops_type(1) snd_conv)

lemma wait_loops_type:
  "sd_type (snd (wait_int_loop hw msk n s)) = sd_type s" "sd_type (snd (wait_clear_loop hw a msk n s)) = sd_type s"
  "sd_type (clk_loop hw n s) = sd_type s"
  by (induction n arbitrary: s) (auto simp: rd_type split: prod.splits)

lemma send_cmd_type: "sd_type (snd (send_cmd hw cmd arg s)) = sd_type s"
proof -
  have w: "wait_status hw x t s = (b, s') \<Longrightarrow> sd_type s' = sd_type s" "wait_int hw y t s = (b, s') \<Longrightarrow> sd_type s' = sd_type s" for x y t s b s'
    using wait_loops_type(1,2) unfolding wait_status_def wait_int_def by (metis snd_conv)+
  show ?thesis by (auto simp: send_cmd_def Let_def rd_type dest!: w split: prod.splits)
qed

lemma send_acmd_type: "sd_type (snd (send_acmd hw cmd arg s)) = sd_type s"
  unfolding send_acmd_def using send_cmd_type [of hw] by (auto simp: Let_def split: prod.splits) (metis snd_conv)+

lemma ocr_loop_type: "sd_type (snd (ocr_loop hw arg n ocr s)) = sd_type s"
proof (induction n arbitrary: ocr s)
  case (Suc n)
  obtain r t where r: "send_acmd hw (CMD 41 OR RSPNS_48) arg s = (r, t)" by fastforce
  then have "sd_type t = sd_type s" using send_acmd_type by (metis snd_conv)
  then show ?case using Suc by (simp add: r Let_def)
qed simp

text \<open>A response is a C \<open>int\<close>; one that is not negative has its top bit clear.\<close>

lemma send_cmd_range: "fst (send_cmd hw cmd arg s) < 2 ^ 31"
  using sint_lt [where 'a = 32] by (auto simp: send_cmd_def Let_def split: prod.splits)

lemma send_acmd_range: "fst (send_acmd hw cmd arg s) < 2 ^ 31"
  unfolding send_acmd_def using send_cmd_range [of hw cmd arg] by (auto simp: Let_def split: prod.splits)

lemma top_bit_clear: "0 \<le> r \<Longrightarrow> r < 2 ^ 31 \<Longrightarrow> drop_bit 31 (of_int r :: u32) = 0"
proof -
  assume r: "0 \<le> r" "r < 2 ^ 31"
  then have t: "take_bit 32 r = r" by (intro take_bit_int_eq_self) simp_all
  then have "uint (of_int r :: u32) = r" by (simp add: uint_word_of_int_eq)
  then have "uint (drop_bit 31 (of_int r :: u32)) = 0" using r by (simp only: unsigned_drop_bit_eq) (simp add: drop_bit_eq_div t)
  then show ?thesis by (simp only: uint_0_iff)
qed

lemma ocr_loop_top_bit: "drop_bit 31 ocr = 0 \<Longrightarrow> drop_bit 31 (fst (ocr_loop hw arg n ocr s)) = 0"
proof (induction n arbitrary: ocr s)
  case (Suc n)
  obtain r t where r: "send_acmd hw (CMD 41 OR RSPNS_48) arg s = (r, t)" by fastforce
  then have "r < 2 ^ 31" using send_acmd_range by (metis fst_conv)
  then show ?case using Suc r top_bit_clear [of r] by (cases "r < 0") (simp_all add: Let_def)
qed simp

lemma sd_identify_fails: "fst (sd_identify hw s) = - 1" "sd_type (snd (sd_identify hw s)) = sd_type s"
proof -
  obtain r1 s1 where c0: "send_cmd hw (CMD 0) 0 s = (r1, s1)" by fastforce
  obtain r2 s2 where c8: "send_cmd hw (CMD 8 OR RSPNS_48 OR CMD_CRCCHK OR CMD_IXCHK) 0x1AA (pause hw 2000 s1) = (r2, s2)" by fastforce
  define arg where "arg = (if r2 > 0 \<and> r2 AND 0xFF = 0xAA then 0x50FF8000 else 0x00FF8000 :: u32)"
  obtain ocr s3 where o: "ocr_loop hw arg 150 0 s2 = (ocr, s3)" by fastforce
  have ty: "sd_type s1 = sd_type s" "sd_type s2 = sd_type s1" "sd_type s3 = sd_type s2"
    using send_cmd_type c0 c8 ocr_loop_type o by (metis snd_conv sd_ops_type(3))+
  have z: "drop_bit 31 ocr = 0" using ocr_loop_top_bit [of 0 hw arg 150 s2] o by simp
  have e: "sd_identify hw s = (- 1, sd_say (''[sd] ACMD41 timeout (card not ready)'' @ [CHR 0x0A]) s3)"
    unfolding sd_identify_def Let_def c0 prod.case c8 arg_def [symmetric] o using z by simp
  show "fst (sd_identify hw s) = - 1" "sd_type (snd (sd_identify hw s)) = sd_type s" by (simp_all add: e ty)
qed

text \<open>
  C13: the driver cannot be initialised, whatever card is present. The ready bit of the operating
  conditions is the sign bit of the \<open>int\<close> that \<open>send_acmd\<close> returns; the loop takes a negative
  result for an error and leaves before it stores the response, so the bit is never seen.
  \<open>sd_init\<close> returns -1 for every behaviour of the controller, and every block read after
  it is refused.
\<close>

theorem sd_init_never_succeeds:
  "fst (sd_init hw s) = - 1 \<and> \<not> sd_ready (snd (sd_init hw s)) \<and>
   (\<forall>lba buf cnt m. sd_read hw lba buf cnt (m, snd (sd_init hw s)) = (- 1, m, snd (sd_init hw s)))"
proof -
  let ?s0 = "wr hw EMMC_CONTROL1 C1_SRST_HC (wr hw EMMC_CONTROL0 0 (s\<lparr>sd_type := 0, sd_rca := 0\<rparr>))"
  obtain ok s1 where w: "wait_control1_clear hw C1_SRST_HC 100 ?s0 = (ok, s1)" by fastforce
  let ?s1 = "pause hw 1000 (wr hw EMMC_CONTROL1 (C1_CLK_INTLEN OR C1_TOUNIT_MAX OR push_bit 8 0x80) s1)"
  obtain b s2 where w2: "wait_status hw 0 10 ?s1 = (b, s2)" by fastforce
  obtain v s3 where r3: "rd hw EMMC_CONTROL1 (clk_loop hw 10000 s2) = (v, s3)" by fastforce
  obtain v4 s4 where r4: "rd hw EMMC_CONTROL1 s3 = (v4, s4)" by fastforce
  have t1: "sd_type s1 = 0"
    using wait_loops_type(2) [of hw EMMC_CONTROL1 C1_SRST_HC "turns 100" ?s0] w [unfolded wait_control1_clear_def] by simp
  have t2: "sd_type s2 = 0"
    using wait_loops_type(2) [of hw EMMC_STATUS 0 "turns 10" ?s1] w2 [unfolded wait_status_def] t1 by simp
  have t3: "sd_type s3 = 0" "sd_type s4 = 0" using rd_type [OF r3] rd_type [OF r4] wait_loops_type(3) [of hw 10000 s2] t2 by simp_all
  have "fst (sd_init hw s) = - 1 \<and> sd_type (snd (sd_init hw s)) = 0"
    unfolding sd_init_def Let_def w prod.case w2 r3 r4 using t1 t3 by (simp add: sd_identify_fails)
  then show ?thesis by (simp add: sd_ready_def sd_read_def)
qed

subsection \<open>Reading a block\<close>

text \<open>
  The phases of a single-block read as the host controller specification describes them:
  a command is armed with its argument and issued, the controller raises a flag after some
  time, the flag is acknowledged, and the data port delivers 128 words. \<open>Wait m a n\<close>: flag \<open>m\<close>
  will be up after \<open>n\<close> waits of 10 microseconds.
\<close>

datatype phase = Idle | Armed u32 | Wait u32 u32 nat | Answered u32 | Stream u32 nat

abbreviation READ_CMD :: u32 where "READ_CMD \<equiv> CMD 17 OR R1 OR CMD_ISDATA OR TM_DAT_READ"

definition after :: "u32 \<Rightarrow> u32 \<Rightarrow> phase" where
  "after msk a = (if msk = INT_CMD_DONE then Answered a else Stream a 0)"

definition card_ok :: "'d mmio \<Rightarrow> (u32 \<Rightarrow> bytes) \<Rightarrow> (phase \<Rightarrow> 'd \<Rightarrow> bool) \<Rightarrow> bool" where
  "card_ok hw blk ph \<longleftrightarrow>
     (\<forall>a. length (blk a) = 512) \<and>
     (\<forall>d. ph Idle d \<longrightarrow> fst (reg_rd hw EMMC_STATUS d) AND 3 = 0 \<and> ph Idle (snd (reg_rd hw EMMC_STATUS d))) \<and>
     (\<forall>d v. ph Idle d \<longrightarrow> ph Idle (reg_wr hw EMMC_INTERRUPT v d) \<and> ph Idle (reg_wr hw EMMC_BLKSIZECNT v d) \<and>
        ph (Armed v) (reg_wr hw EMMC_ARG1 v d)) \<and>
     (\<forall>d a. ph (Armed a) d \<longrightarrow> (\<exists>n < 50000. ph (Wait INT_CMD_DONE a n) (reg_wr hw EMMC_CMDTM READ_CMD d))) \<and>
     (\<forall>d m a n. ph (Wait m a n) d \<longrightarrow>
        (case reg_rd hw EMMC_INTERRUPT d of (irq, d') \<Rightarrow>
           irq AND INT_ERROR = 0 \<and>
           (if n = 0 then irq AND m = m \<and> ph (after m a) (reg_wr hw EMMC_INTERRUPT m d')
            else irq AND m \<noteq> m \<and> ph (Wait m a (n - 1)) (pass_us hw 10 d')))) \<and>
     (\<forall>d a. ph (Answered a) d \<longrightarrow>
        (case reg_rd hw EMMC_RESP0 d of (r, d') \<Rightarrow> 0 \<le> sint r \<and> (\<exists>n < 100000. ph (Wait INT_READ_RDY a n) d'))) \<and>
     (\<forall>d a k. ph (Stream a k) d \<longrightarrow> k < 128 \<longrightarrow>
        (case reg_rd hw EMMC_DATA d of (w, d') \<Rightarrow>
           w = rd32 (blk a) (4 * k) \<and> ph (if k = 127 then Idle else Stream a (k + 1)) d'))"

lemma card_okD:
  assumes "card_ok hw blk ph"
  shows "length (blk a) = 512"
    "ph Idle d \<Longrightarrow> fst (reg_rd hw EMMC_STATUS d) AND 3 = 0" "ph Idle d \<Longrightarrow> ph Idle (snd (reg_rd hw EMMC_STATUS d))"
    "ph Idle d \<Longrightarrow> ph Idle (reg_wr hw EMMC_INTERRUPT v d)" "ph Idle d \<Longrightarrow> ph Idle (reg_wr hw EMMC_BLKSIZECNT v d)"
    "ph Idle d \<Longrightarrow> ph (Armed v) (reg_wr hw EMMC_ARG1 v d)"
    "ph (Armed a) d \<Longrightarrow> \<exists>n < 50000. ph (Wait INT_CMD_DONE a n) (reg_wr hw EMMC_CMDTM READ_CMD d)"
    "ph (Wait m a n) d \<Longrightarrow> (case reg_rd hw EMMC_INTERRUPT d of (irq, d') \<Rightarrow>
           irq AND INT_ERROR = 0 \<and>
           (if n = 0 then irq AND m = m \<and> ph (after m a) (reg_wr hw EMMC_INTERRUPT m d')
            else irq AND m \<noteq> m \<and> ph (Wait m a (n - 1)) (pass_us hw 10 d')))"
    "ph (Answered a) d \<Longrightarrow>
        (case reg_rd hw EMMC_RESP0 d of (r, d') \<Rightarrow> 0 \<le> sint r \<and> (\<exists>n < 100000. ph (Wait INT_READ_RDY a n) d'))"
    "ph (Stream a k) d \<Longrightarrow> k < 128 \<Longrightarrow>
        (case reg_rd hw EMMC_DATA d of (w, d') \<Rightarrow>
           w = rd32 (blk a) (4 * k) \<and> ph (if k = 127 then Idle else Stream a (k + 1)) d')"
proof -
  note A = assms [unfolded card_ok_def]
  note B = A [THEN conjunct2] A [THEN conjunct2, THEN conjunct2] A [THEN conjunct2, THEN conjunct2, THEN conjunct2]
    A [THEN conjunct2, THEN conjunct2, THEN conjunct2, THEN conjunct2]
  show "length (blk a) = 512" by (rule A [THEN conjunct1, THEN spec])
  show "fst (reg_rd hw EMMC_STATUS d) AND 3 = 0" "ph Idle (snd (reg_rd hw EMMC_STATUS d))" if "ph Idle d"
    using B(1) [THEN conjunct1, THEN spec, THEN mp, OF that] by (rule conjunct1, rule conjunct2)
  show "ph Idle (reg_wr hw EMMC_INTERRUPT v d)" "ph Idle (reg_wr hw EMMC_BLKSIZECNT v d)" "ph (Armed v) (reg_wr hw EMMC_ARG1 v d)"
    if "ph Idle d"
    using B(2) [THEN conjunct1, THEN spec, THEN spec, THEN mp, OF that, of v] by blast+
  show "\<exists>n < 50000. ph (Wait INT_CMD_DONE a n) (reg_wr hw EMMC_CMDTM READ_CMD d)" if "ph (Armed a) d"
    by (rule B(3) [THEN conjunct1, THEN spec, THEN spec, THEN mp, OF that])
  show "case reg_rd hw EMMC_INTERRUPT d of (irq, d') \<Rightarrow>
           irq AND INT_ERROR = 0 \<and>
           (if n = 0 then irq AND m = m \<and> ph (after m a) (reg_wr hw EMMC_INTERRUPT m d')
            else irq AND m \<noteq> m \<and> ph (Wait m a (n - 1)) (pass_us hw 10 d'))" if "ph (Wait m a n) d"
    by (rule B(4) [THEN conjunct1, THEN spec, THEN spec, THEN spec, THEN spec, THEN mp, OF that])
  show "case reg_rd hw EMMC_RESP0 d of (r, d') \<Rightarrow> 0 \<le> sint r \<and> (\<exists>n < 100000. ph (Wait INT_READ_RDY a n) d')" if "ph (Answered a) d"
    by (rule B(4) [THEN conjunct2, THEN conjunct1, THEN spec, THEN spec, THEN mp, OF that])
  show "case reg_rd hw EMMC_DATA d of (w, d') \<Rightarrow>
      w = rd32 (blk a) (4 * k) \<and> ph (if k = 127 then Idle else Stream a (k + 1)) d'" if "ph (Stream a k) d" "k < 128"
    by (rule B(4) [THEN conjunct2, THEN conjunct2, THEN spec, THEN spec, THEN spec, THEN mp, THEN mp, OF that])
qed

lemma wait_int_loop_ok:
  assumes c: "card_ok hw blk ph"
  shows "ph (Wait m a n) (sd_dev s) \<Longrightarrow> n < k \<Longrightarrow>
    \<exists>d. wait_int_loop hw m k s = (True, s\<lparr>sd_dev := d\<rparr>) \<and> ph (after m a) d"
proof (induction k arbitrary: n s)
  case (Suc k)
  obtain irq d1 where r: "reg_rd hw EMMC_INTERRUPT (sd_dev s) = (irq, d1)" by fastforce
  note w = card_okD(8) [OF c Suc.prems(1), unfolded r prod.case]
  show ?case
  proof (cases n)
    case 0
    then show ?thesis using w by (auto simp: rd_def r wr_def)
  next
    case (Suc n')
    let ?s = "pause hw 10 (s\<lparr>sd_dev := d1\<rparr>)"
    have "ph (Wait m a n') (sd_dev ?s)" "n' < k" using w Suc Suc.prems(2) by (simp_all add: pause_def)
    from Suc.IH [OF this] show ?thesis using w Suc by (auto simp: rd_def r pause_def)
  qed
qed simp

lemma unat_turns: "turns 500 = 50000" "turns 1000 = 100000" "0 < turns 100"
  by (simp_all add: turns_def)

lemma send_read_cmd:
  assumes c: "card_ok hw blk ph" and i: "ph Idle (sd_dev s)"
  obtains r d n where "send_cmd hw READ_CMD a s = (r, s\<lparr>sd_dev := d\<rparr>)" "0 \<le> r" "ph (Wait INT_READ_RDY a n) d" "n < 100000"
proof -
  obtain v d1 where st: "reg_rd hw EMMC_STATUS (sd_dev s) = (v, d1)" by fastforce
  have v: "v AND 3 = 0" "ph Idle d1" using card_okD(2,3) [OF c i] st by simp_all
  obtain k where "turns 100 = Suc k" using unat_turns(3) by (cases "turns 100") auto
  then have w1: "wait_status hw 3 100 s = (True, s\<lparr>sd_dev := d1\<rparr>)" using st v(1) by (simp add: wait_status_def rd_def)
  let ?d2 = "reg_wr hw EMMC_ARG1 a (reg_wr hw EMMC_INTERRUPT 0xFFFFFFFF d1)"
  have "ph (Armed a) ?d2" using card_okD(4,6) [OF c] v(2) by blast
  then obtain n where n: "n < 50000" "ph (Wait INT_CMD_DONE a n) (reg_wr hw EMMC_CMDTM READ_CMD ?d2)" using card_okD(7) [OF c] by blast
  let ?s3 = "s\<lparr>sd_dev := reg_wr hw EMMC_CMDTM READ_CMD ?d2\<rparr>"
  have "ph (Wait INT_CMD_DONE a n) (sd_dev ?s3)" "n < turns 500" using n unat_turns(1) by simp_all
  from wait_int_loop_ok [OF c this] obtain d4 where w4: "wait_int hw INT_CMD_DONE 500 ?s3 = (True, s\<lparr>sd_dev := d4\<rparr>)"
    and p4: "ph (Answered a) d4" by (auto simp: wait_int_def after_def)
  obtain v5 d5 where r5: "reg_rd hw EMMC_RESP0 d4 = (v5, d5)" by fastforce
  obtain m where p5: "0 \<le> sint v5" "m < 100000" "ph (Wait INT_READ_RDY a m) d5" using card_okD(9) [OF c p4] r5 by auto
  have inh: "(if READ_CMD AND CMD_ISDATA \<noteq> 0 \<or> drop_bit 16 READ_CMD AND 3 = 3 then 3 else 1) = (3::u32)" by (simp add: CMD_def)
  have ws: "wr hw EMMC_CMDTM READ_CMD (wr hw EMMC_ARG1 a (wr hw EMMC_INTERRUPT 0xFFFFFFFF (s\<lparr>sd_dev := d1\<rparr>))) = ?s3" by (simp add: wr_def)
  have "send_cmd hw READ_CMD a s = (sint v5, s\<lparr>sd_dev := d5\<rparr>)"
    unfolding send_cmd_def Let_def inh w1 prod.case ws w4 using r5 by (simp add: rd_def)
  then show thesis using that p5 by blast
qed

text \<open>Words and bytes.\<close>

lemma word_bytes_rd32: "off + 4 \<le> length b \<Longrightarrow> word_bytes (rd32 b off) = take 4 (drop off b)"
proof -
  assume l: "off + 4 \<le> length b"
  have q: "take 4 (drop off b) = [b ! off, b ! (off + 1), b ! (off + 2), b ! (off + 3)]"
    using l by (intro nth_equalityI) (auto simp: less_Suc_eq numeral_eq_Suc nth_Cons split: nat.splits)
  have "(ucast (rd32 b off) :: u8) = b ! off" "(ucast (drop_bit 8 (rd32 b off)) :: u8) = b ! (off + 1)"
    "(ucast (drop_bit 16 (rd32 b off)) :: u8) = b ! (off + 2)" "(ucast (drop_bit 24 (rd32 b off)) :: u8) = b ! (off + 3)"
    by (rule bit_word_eqI; auto simp: rd32_def bit_simps dest: bit_imp_le_length)+
  then show ?thesis unfolding word_bytes_def q by simp
qed

lemma read_words_ok:
  assumes c: "card_ok hw blk ph"
  shows "ph (if k = 128 then Idle else Stream a k) (sd_dev s) \<Longrightarrow> k + n = 128 \<Longrightarrow>
    \<exists>d. read_words hw n p (m, s) = (mwrite m p (drop (4 * k) (blk a)), s\<lparr>sd_dev := d\<rparr>) \<and> ph Idle d"
proof (induction n arbitrary: k p m s)
  case 0
  then show ?case using card_okD(1) [OF c, of a] by (intro exI [of _ "sd_dev s"]) (simp add: mwrite_def)
next
  case (Suc n)
  obtain w d1 where r: "reg_rd hw EMMC_DATA (sd_dev s) = (w, d1)" by fastforce
  have "ph (Stream a k) (sd_dev s)" "k < 128" using Suc.prems by auto
  from card_okD(10) [OF c this] r have w: "w = rd32 (blk a) (4 * k)" "ph (if Suc k = 128 then Idle else Stream a (Suc k)) d1" by auto
  have l: "length (blk a) = 512" by (rule card_okD(1) [OF c])
  have wb: "word_bytes w = take 4 (drop (4 * k) (blk a))" unfolding w(1) using Suc.prems(2) l by (intro word_bytes_rd32) simp
  have "drop (4 * k) (blk a) = word_bytes w @ drop (4 * Suc k) (blk a)" unfolding wb by (metis append_take_drop_id drop_drop add.commute mult_Suc_right)
  moreover have "length (word_bytes w) = 4" by (simp add: word_bytes_def)
  ultimately have mw: "mwrite (mwrite m p (word_bytes w)) (p + 4) (drop (4 * Suc k) (blk a)) = mwrite m p (drop (4 * k) (blk a))"
    using mwrite_append [of "word_bytes w" "drop (4 * Suc k) (blk a)" m p] l by simp
  obtain d where "read_words hw n (p + 4) (mwrite m p (word_bytes w), s\<lparr>sd_dev := d1\<rparr>) =
      (mwrite (mwrite m p (word_bytes w)) (p + 4) (drop (4 * Suc k) (blk a)), s\<lparr>sd_dev := d\<rparr>)" "ph Idle d"
    using Suc.IH [of "Suc k" "s\<lparr>sd_dev := d1\<rparr>"] w(2) Suc.prems(2) by auto
  then show ?case using r mw by (auto simp: rd_def)
qed


text \<open>A card that answers at once; the state is its phase.\<close>

definition sim_blk :: "u32 \<Rightarrow> bytes" where
  "sim_blk a = replicate 512 (ucast a)"

definition sim_card :: "phase mmio" where
  "sim_card = \<lparr>
     reg_rd = (\<lambda>r d.
       case d of
         Wait m a n \<Rightarrow> (m, d)
       | Answered a \<Rightarrow> (0, Wait INT_READ_RDY a 0)
       | Stream a k \<Rightarrow> (rd32 (sim_blk a) (4 * k), if k = 127 then Idle else Stream a (k + 1))
       | _ \<Rightarrow> (0, d)),
     reg_wr = (\<lambda>r v d.
       case d of
         Idle \<Rightarrow> if r = EMMC_ARG1 then Armed v else Idle
       | Armed a \<Rightarrow> Wait INT_CMD_DONE a 0
       | Wait m a n \<Rightarrow> after m a
       | _ \<Rightarrow> d),
     pass_us = (\<lambda>us d. d)\<rparr>"

text \<open>Waits are over at once, and only the two flags the driver waits for occur.\<close>

definition sim_phase :: "phase \<Rightarrow> phase \<Rightarrow> bool" where
  "sim_phase p d \<longleftrightarrow> d = p \<and> (case p of Wait m a n \<Rightarrow> n = 0 \<and> m AND INT_ERROR = 0 | _ \<Rightarrow> True)"

lemma sim_card_ok: "card_ok sim_card sim_blk sim_phase"
proof -
  have "\<exists>n < 50000. sim_phase (Wait INT_CMD_DONE a n) (Wait INT_CMD_DONE a 0)" for a
    by (rule exI [of _ 0]) (simp add: sim_phase_def)
  moreover have "\<exists>n < 100000. sim_phase (Wait INT_READ_RDY a n) (Wait INT_READ_RDY a 0)" for a
    by (rule exI [of _ 0]) (simp add: sim_phase_def)
  moreover have "sim_phase (after m a) (after m a)" for m a by (simp add: sim_phase_def after_def)
  moreover have "length (sim_blk a) = 512" for a by (simp add: sim_blk_def)
  ultimately show ?thesis
    unfolding card_ok_def by (simp add: sim_card_def) (auto simp: sim_phase_def)
qed


end
