(* ===== verification/Kb.thy ===== *)
theory Kb
  imports KString Ring
begin

text \<open>
  The software half of the USB keyboard driver (\<^verbatim>\<open>src/kb.c\<close>): the tables from HID usage codes to
  characters, the decoder of boot-protocol reports with its memory of the previous report, the
  character ring and the poll routine. The transfer on the wire, \<open>usb_in\<close>, is modelled in theory \<open>Usb\<close>;
  here a poll receives its return value and the eight bytes it delivered.
\<close>

unbundle bit_operations_syntax

subsection \<open>State\<close>

abbreviation KB_BUF :: nat where "KB_BUF \<equiv> 32"

record kb =
  kb_addr :: int
  kb_ep :: int
  kb_mps :: int
  kb_toggle :: int
  kb_ring :: string
  kb_head :: nat
  kb_tail :: nat
  prev_rep :: bytes

definition kb_push :: "char \<Rightarrow> kb \<Rightarrow> kb" where
  "kb_push c k =
     (let nx = (kb_head k + 1) mod KB_BUF
      in if nx \<noteq> kb_tail k then k\<lparr>kb_ring := (kb_ring k)[kb_head k := c], kb_head := nx\<rparr> else k)"

definition kb_ready :: "kb \<Rightarrow> bool" where
  "kb_ready k \<longleftrightarrow> kb_head k \<noteq> kb_tail k"

definition kb_getc :: "kb \<Rightarrow> char \<times> kb" where
  "kb_getc k =
     (if kb_head k = kb_tail k then (NUL, k)
      else (kb_ring k ! kb_tail k, k\<lparr>kb_tail := (kb_tail k + 1) mod KB_BUF\<rparr>))"

subsection \<open>Reports\<close>

definition hid_lo :: string where
  "hid_lo = replicate 4 NUL @ ''abcdefghijklmnopqrstuvwxyz1234567890'' @
     [CHR 0x0D, CHR 0x1B, CHR 0x7F, CHR 0x09] @ '' -=[]'' @ [CHR 0x5C, NUL, CHR '';'', CHR 0x27, CHR 0x60] @ '',./'' @
     replicate 7 NUL"

definition hid_hi :: string where
  "hid_hi = replicate 4 NUL @ ''ABCDEFGHIJKLMNOPQRSTUVWXYZ!@#$%^&*()'' @
     [CHR 0x0D, CHR 0x1B, CHR 0x7F, CHR 0x09] @ '' _+{}|'' @ [NUL, CHR '':'', CHR 0x22] @ ''~<>?'' @
     replicate 7 NUL"

text \<open>One round of the loop over the six key codes.\<close>

definition hid_key :: "bool \<Rightarrow> u8 \<Rightarrow> kb \<Rightarrow> kb" where
  "hid_key shift code k =
     (if code = 0 then k
      else if code \<in> set (drop 2 (prev_rep k)) then k
      else if code < 0x40
        then (let c = (if shift then hid_hi else hid_lo) ! unat code in if c \<noteq> NUL then kb_push c k else k)
      else k)"

definition hid_decode :: "bytes \<Rightarrow> kb \<Rightarrow> kb" where
  "hid_decode rep k =
     (let shift = (rep ! 0 AND 0x22 \<noteq> 0)
      in (fold (hid_key shift) (map ((!) rep) [2..<8]) k)\<lparr>prev_rep := take 8 rep\<rparr>)"

text \<open>
  \<open>usb_in ep addr mps pid\<close> is the outcome of the interrupt transfer: the number of bytes or a
  negative error, and the report buffer.
\<close>

definition kb_poll :: "(int \<Rightarrow> int \<Rightarrow> int \<Rightarrow> u32 \<Rightarrow> int \<times> bytes) \<Rightarrow> kb \<Rightarrow> kb" where
  "kb_poll usb_in k =
     (if kb_addr k = 0 then k
      else
        let pid = (if kb_toggle k \<noteq> 0 then push_bit 29 2 else 0);
            (n, rep) = usb_in (kb_addr k) (kb_ep k) (kb_mps k) pid
        in if n = 8 then hid_decode rep (k\<lparr>kb_toggle := (if kb_toggle k = 0 then 1 else 0)\<rparr>) else k)"

subsection \<open>The ring\<close>

definition kb_items :: "kb \<Rightarrow> string" where
  "kb_items k = ring_items KB_BUF (kb_ring k) (kb_head k) (kb_tail k)"

definition kb_ok :: "kb \<Rightarrow> bool" where
  "kb_ok k \<longleftrightarrow> ring_ok KB_BUF (kb_ring k) (kb_head k) (kb_tail k)"

definition kb_push_opt :: "char \<Rightarrow> kb \<Rightarrow> kb option" where
  "kb_push_opt c k = (if (kb_head k + 1) mod KB_BUF = kb_tail k then None else Some (kb_push c k))"

definition kb_pop_opt :: "kb \<Rightarrow> (char \<times> kb) option" where
  "kb_pop_opt k = (if kb_ready k then Some (kb_getc k) else None)"

interpretation kr: bounded_fifo kb_push_opt kb_pop_opt kb_items kb_ok "KB_BUF - 1"
proof (unfold_locales, goal_cases)
  case (1 q x)
  then show ?case
    using ring_items_full_iff [of KB_BUF "kb_ring q" "kb_head q" "kb_tail q"]
    by (simp add: kb_ok_def kb_push_opt_def kb_items_def)
next
  case (2 q x q')
  then show ?case
    using ring_push_items [of KB_BUF "kb_ring q" "kb_head q" "kb_tail q" x]
    by (auto simp: kb_ok_def kb_push_opt_def kb_push_def kb_items_def Let_def split: if_splits)
next
  case (3 q)
  then show ?case
    using ring_items_empty_iff [of KB_BUF "kb_ring q" "kb_head q" "kb_tail q"]
    by (auto simp: kb_ok_def kb_pop_opt_def kb_items_def kb_ready_def)
next
  case (4 q x q')
  then show ?case
    using ring_pop_items [of KB_BUF "kb_ring q" "kb_head q" "kb_tail q"]
    by (auto simp: kb_ok_def kb_pop_opt_def kb_getc_def kb_items_def kb_ready_def split: if_splits)
next
  case (5 q)
  then show ?case
    using ring_items_bound [of KB_BUF "kb_ring q" "kb_head q" "kb_tail q"]
    by (auto simp: kb_ok_def kb_items_def)
qed

lemma kb_push_items:
  assumes "kb_ok k"
  shows "kb_ok (kb_push c k)"
    "kb_items (kb_push c k) = (if length (kb_items k) = 31 then kb_items k else kb_items k @ [c])"
  using kr.push_full [OF assms, of c] kr.push_some [OF assms, of c] assms
  by (auto simp: kb_push_opt_def kb_push_def Let_def split: if_splits)

lemma kb_push_prev [simp]: "prev_rep (kb_push c k) = prev_rep k"
  by (simp add: kb_push_def Let_def)

lemma hid_decode_addr: "kb_addr (hid_decode rep k) = kb_addr k"
proof -
  have "kb_addr (hid_key sh c k) = kb_addr k" for sh c k by (simp add: hid_key_def kb_push_def Let_def)
  then show ?thesis by (simp add: hid_decode_def Let_def)
qed

subsection \<open>What a report means\<close>

text \<open>The characters of the keys of a report that were not down in the one before.\<close>

definition key_char :: "bool \<Rightarrow> u8 \<Rightarrow> char" where
  "key_char shift code = (if code < 0x40 then (if shift then hid_hi else hid_lo) ! unat code else NUL)"

definition fresh_key :: "bool \<Rightarrow> bytes \<Rightarrow> u8 \<Rightarrow> bool" where
  "fresh_key shift old code \<longleftrightarrow> code \<noteq> 0 \<and> code \<notin> set (drop 2 old) \<and> key_char shift code \<noteq> NUL"

definition new_keys :: "bytes \<Rightarrow> bytes \<Rightarrow> string" where
  "new_keys old rep =
     (let shift = (rep ! 0 AND 0x22 \<noteq> 0)
      in map (key_char shift) (filter (fresh_key shift old) (map ((!) rep) [2..<8])))"

lemma hid_key_fresh:
  "hid_key shift code k = (if fresh_key shift (prev_rep k) code then kb_push (key_char shift code) k else k)"
  by (auto simp: hid_key_def fresh_key_def key_char_def Let_def)

lemma fold_hid_key:
  assumes "kb_ok k" "prev_rep k = old"
  shows "kb_ok (fold (hid_key shift) codes k) \<and>
    kb_items (fold (hid_key shift) codes k) =
      kb_items k @ take (31 - length (kb_items k)) (map (key_char shift) (filter (fresh_key shift old) codes))"
  using assms
proof (induction codes arbitrary: k)
  case (Cons code codes)
  have b: "length (kb_items k) \<le> 31" using kr.bound [OF Cons.prems(1)] by simp
  show ?case
  proof (cases "fresh_key shift old code")
    case False
    then show ?thesis using Cons.IH [OF Cons.prems] Cons.prems(2) by (simp add: hid_key_fresh)
  next
    case True
    then have h: "hid_key shift code k = kb_push (key_char shift code) k" using Cons.prems(2) by (simp add: hid_key_fresh)
    note p = kb_push_items [OF Cons.prems(1), of "key_char shift code"]
    note ih = Cons.IH [OF p(1), unfolded kb_push_prev, OF Cons.prems(2)]
    show ?thesis
    proof (cases "length (kb_items k) = 31")
      case True
      then show ?thesis using h p(2) ih by simp
    next
      case ne: False
      then have "31 - length (kb_items k) = Suc (31 - Suc (length (kb_items k)))" using b by simp
      with ne True show ?thesis using h p(2) ih by simp
    qed
  qed
qed simp

text \<open>
  C28: a keyboard report is decoded correctly. It queues, in the order of the report and with
  the shift state of the report, the character of every key that was not down in the
  previous report, as far as the 31 places of the ring allow; held keys, unknown codes and
  empty slots give nothing.
\<close>

theorem hid_decode_new_keys:
  assumes "kb_ok k" "length rep = 8"
  shows "kb_ok (hid_decode rep k) \<and> prev_rep (hid_decode rep k) = rep \<and>
    kb_items (hid_decode rep k) = kb_items k @ take (31 - length (kb_items k)) (new_keys (prev_rep k) rep)"
  using fold_hid_key [OF assms(1) refl, of "rep ! 0 AND 0x22 \<noteq> 0" "map ((!) rep) [2..<8]"] assms(2)
  by (simp add: hid_decode_def new_keys_def Let_def kb_ok_def kb_items_def del: upt.simps)

definition kb0 :: kb where
  "kb0 = \<lparr>kb_addr = 1, kb_ep = 1, kb_mps = 8, kb_toggle = 0, kb_ring = replicate 32 NUL, kb_head = 0, kb_tail = 0,
     prev_rep = [0, 0, 0x04, 0, 0, 0, 0, 0]\<rparr>"

text \<open>With \<open>a\<close> held, shift and \<open>h\<close> and \<open>1\<close> pressed: the queue holds \<open>H!\<close>.\<close>

theorem hid_decode_new_keys_witness:
  "kb_items (hid_decode [0x02, 0, 0x04, 0x0B, 0x1E, 0, 0, 0] kb0) = ''H!''"
proof -
  have "kb_ok kb0" by (simp add: kb_ok_def kb0_def ring_ok_def)
  moreover have "kb_items kb0 = []" by (simp add: kb_items_def kb0_def ring_items_def ring_count_def)
  moreover have "new_keys (prev_rep kb0) [0x02, 0, 0x04, 0x0B, 0x1E, 0, 0, 0] = ''H!''" by code_simp
  ultimately show ?thesis using hid_decode_new_keys [of kb0 "[0x02, 0, 0x04, 0x0B, 0x1E, 0, 0, 0]"] by simp
qed

end
