(* ===== verification/Usb.thy ===== *)
theory Usb
  imports Mmio Kb "HOL-Library.Monad_Syntax"
begin

text \<open>
  The hardware half of the USB keyboard driver (\<^verbatim>\<open>src/kb.c\<close>): the FIFOs and channels of the host
  controller, control transfers, enumeration and start-up. The controller is a device
  parameter (theory \<open>Mmio\<close>). An array is the list of its bytes; an access outside an array and
  a division by zero, undefined in C, make the result \<open>None\<close>, as does waiting for ever in the
  mailbox call.
\<close>

subsection \<open>Registers and state\<close>

abbreviation GAHBCFG :: u64 where "GAHBCFG \<equiv> 0xFE980008"
abbreviation GUSBCFG :: u64 where "GUSBCFG \<equiv> 0xFE98000C"
abbreviation GRSTCTL :: u64 where "GRSTCTL \<equiv> 0xFE980010"
abbreviation GINTSTS :: u64 where "GINTSTS \<equiv> 0xFE980014"
abbreviation GINTMSK :: u64 where "GINTMSK \<equiv> 0xFE980018"
abbreviation GRXSTSP :: u64 where "GRXSTSP \<equiv> 0xFE980020"
abbreviation GRXFSIZ :: u64 where "GRXFSIZ \<equiv> 0xFE980024"
abbreviation GNPTXFSIZ :: u64 where "GNPTXFSIZ \<equiv> 0xFE980028"
abbreviation GNPTXSTS :: u64 where "GNPTXSTS \<equiv> 0xFE98002C"
abbreviation HCFG :: u64 where "HCFG \<equiv> 0xFE980400"
abbreviation HFNUM :: u64 where "HFNUM \<equiv> 0xFE980408"
abbreviation HPRT :: u64 where "HPRT \<equiv> 0xFE980440"

definition HCCHAR :: "nat \<Rightarrow> u64" where "HCCHAR n = 0xFE980500 + of_nat n * 0x20"
definition HCSPLT :: "nat \<Rightarrow> u64" where "HCSPLT n = 0xFE980504 + of_nat n * 0x20"
definition HCINT :: "nat \<Rightarrow> u64" where "HCINT n = 0xFE980508 + of_nat n * 0x20"
definition HCINTMSK :: "nat \<Rightarrow> u64" where "HCINTMSK n = 0xFE98050C + of_nat n * 0x20"
definition HCTSIZ :: "nat \<Rightarrow> u64" where "HCTSIZ n = 0xFE980510 + of_nat n * 0x20"
definition DFIFO :: "nat \<Rightarrow> u64" where "DFIFO n = 0xFE981000 + of_nat n * 0x1000"

abbreviation HPRT_CONNSTS :: u32 where "HPRT_CONNSTS \<equiv> 1"
abbreviation HPRT_CONNDET :: u32 where "HPRT_CONNDET \<equiv> 2"
abbreviation HPRT_ENA :: u32 where "HPRT_ENA \<equiv> 4"
abbreviation HPRT_ENCHNG :: u32 where "HPRT_ENCHNG \<equiv> 8"
abbreviation HPRT_RST :: u32 where "HPRT_RST \<equiv> 0x100"
abbreviation HPRT_PWR :: u32 where "HPRT_PWR \<equiv> 0x1000"
abbreviation HPRT_W1C_MASK :: u32 where "HPRT_W1C_MASK \<equiv> 0x6A"
abbreviation HCCHAR_IN :: u32 where "HCCHAR_IN \<equiv> 0x8000"
abbreviation HCCHAR_LSDEV :: u32 where "HCCHAR_LSDEV \<equiv> 0x20000"
abbreviation HCCHAR_CTL :: u32 where "HCCHAR_CTL \<equiv> 0"
abbreviation HCCHAR_INTR :: u32 where "HCCHAR_INTR \<equiv> 0xC0000"
abbreviation HCCHAR_ODDFRM :: u32 where "HCCHAR_ODDFRM \<equiv> 0x20000000"
abbreviation HCCHAR_CHENA :: u32 where "HCCHAR_CHENA \<equiv> 0x80000000"
abbreviation PID_DATA0 :: u32 where "PID_DATA0 \<equiv> 0"
abbreviation PID_DATA1 :: u32 where "PID_DATA1 \<equiv> 0x40000000"
abbreviation PID_SETUP :: u32 where "PID_SETUP \<equiv> 0x60000000"
abbreviation HCINT_XFERCOMPL :: u32 where "HCINT_XFERCOMPL \<equiv> 1"
abbreviation HCINT_CHHLTD :: u32 where "HCINT_CHHLTD \<equiv> 2"
abbreviation HCINT_NAK :: u32 where "HCINT_NAK \<equiv> 0x10"
abbreviation HCINT_COMMON_MASK :: u32 where "HCINT_COMMON_MASK \<equiv> 0x1BB"
abbreviation GINTSTS_RXFLVL :: u32 where "GINTSTS_RXFLVL \<equiv> 0x10"

record 'd usb =
  kbs :: kb
  kb_low_speed :: bool
  kb_last_out_intr :: u32
  kb_last_in_intr :: u32
  kb_last_in_ci :: u32
  kb_last_grx :: u32
  kb_last_in_received :: int
  usb_dev :: 'd
  usb_con :: uart

definition urd :: "'d mmio \<Rightarrow> u64 \<Rightarrow> 'd usb \<Rightarrow> u32 \<times> 'd usb" where
  "urd hw a s = (let (v, d) = reg_rd hw a (usb_dev s) in (v, s\<lparr>usb_dev := d\<rparr>))"

definition uwr :: "'d mmio \<Rightarrow> u64 \<Rightarrow> u32 \<Rightarrow> 'd usb \<Rightarrow> 'd usb" where
  "uwr hw a v s = s\<lparr>usb_dev := reg_wr hw a v (usb_dev s)\<rparr>"

definition upause :: "'d mmio \<Rightarrow> u64 \<Rightarrow> 'd usb \<Rightarrow> 'd usb" where
  "upause hw us s = s\<lparr>usb_dev := pass_us hw us (usb_dev s)\<rparr>"

definition usay :: "string \<Rightarrow> 'd usb \<Rightarrow> 'd usb" where
  "usay msg s = s\<lparr>usb_con := uart_puts msg (usb_con s)\<rparr>"

definition uhex :: "u64 \<Rightarrow> 'd usb \<Rightarrow> 'd usb" where
  "uhex v s = s\<lparr>usb_con := uart_puthex v (usb_con s)\<rparr>"

definition usb_dump_status :: "'d mmio \<Rightarrow> string \<Rightarrow> 'd usb \<Rightarrow> 'd usb" where
  "usb_dump_status hw tag s =
     (let s = usay '': out_intr='' (usay tag (usay ''[kb] '' s));
          s = usay '' in_intr='' (uhex (ucast (kb_last_out_intr s)) s);
          s = usay '' in_ci='' (uhex (ucast (kb_last_in_intr s)) s);
          s = usay '' grx='' (uhex (ucast (kb_last_in_ci s)) s);
          s = usay '' recv='' (uhex (ucast (kb_last_grx s)) s);
          s = usay '' hprt='' (uhex (of_int (kb_last_in_received s)) s);
          (v, s) = urd hw HPRT s;
          s = usay '' hcchar0='' (uhex (ucast v) s);
          (v, s) = urd hw (HCCHAR 0) s;
          s = usay '' hctsiz0='' (uhex (ucast v) s);
          (v, s) = urd hw (HCTSIZ 0) s
      in usay [CHR 0x0A] (uhex (ucast v) s))"

definition port_speed_name :: "u32 \<Rightarrow> string" where
  "port_speed_name spd = (if spd = 0 then ''high'' else if spd = 1 then ''full'' else if spd = 2 then ''low'' else ''unknown'')"

subsection \<open>FIFOs\<close>

fun tx_space_loop :: "'d mmio \<Rightarrow> nat \<Rightarrow> nat \<Rightarrow> 'd usb \<Rightarrow> 'd usb" where
  "tx_space_loop hw ws 0 s = s"
| "tx_space_loop hw ws (Suc t) s =
     (let (v, s) = urd hw GNPTXSTS s
      in if unat (drop_bit 16 v AND 0xFFFF) \<ge> ws then s else tx_space_loop hw ws t (upause hw 1 s))"

text \<open>The bytes of one word, low byte first; the last word of a packet may have fewer.\<close>

definition pack :: "bytes \<Rightarrow> u32" where
  "pack bs = foldr (\<lambda>b w. ucast b OR push_bit 8 w) bs 0"

fun tx_words :: "'d mmio \<Rightarrow> nat \<Rightarrow> nat \<Rightarrow> bytes \<Rightarrow> 'd usb \<Rightarrow> 'd usb" where
  "tx_words hw ch 0 bs s = s"
| "tx_words hw ch (Suc n) bs s = tx_words hw ch n (drop 4 bs) (uwr hw (DFIFO ch) (pack (take 4 bs)) s)"

definition fifo_tx :: "'d mmio \<Rightarrow> nat \<Rightarrow> bytes \<Rightarrow> 'd usb \<Rightarrow> 'd usb" where
  "fifo_tx hw ch bs s =
     (let ws = (length bs + 3) div 4 in tx_words hw ch ws bs (tx_space_loop hw ws 200000 s))"

definition unpack :: "u32 \<Rightarrow> bytes" where
  "unpack w = [ucast w, ucast (drop_bit 8 w), ucast (drop_bit 16 w), ucast (drop_bit 24 w)]"

fun rx_words :: "'d mmio \<Rightarrow> nat \<Rightarrow> 'd usb \<Rightarrow> bytes \<times> 'd usb" where
  "rx_words hw 0 s = ([], s)"
| "rx_words hw (Suc n) s = (let (w, s) = urd hw (DFIFO 0) s; (bs, s) = rx_words hw n s in (unpack w @ bs, s))"

text \<open>\<open>len\<close> bytes from the receive FIFO to the array \<open>buf\<close> at \<open>off\<close>.\<close>

definition fifo_rx :: "'d mmio \<Rightarrow> nat \<Rightarrow> nat \<Rightarrow> bytes \<Rightarrow> 'd usb \<Rightarrow> (bytes \<times> 'd usb) option" where
  "fifo_rx hw off len buf s =
     (if off + len > length buf then None
      else (let (bs, s) = rx_words hw ((len + 3) div 4) s in Some (take off buf @ take len bs @ drop (off + len) buf, s)))"

definition fifo_drain :: "'d mmio \<Rightarrow> nat \<Rightarrow> 'd usb \<Rightarrow> 'd usb" where
  "fifo_drain hw len s = snd (rx_words hw ((len + 3) div 4) s)"

fun ch_wait_loop :: "'d mmio \<Rightarrow> nat \<Rightarrow> nat \<Rightarrow> 'd usb \<Rightarrow> u32 \<times> 'd usb" where
  "ch_wait_loop hw ch 0 s = (0, s)"
| "ch_wait_loop hw ch (Suc t) s =
     (let (v, s) = urd hw (HCINT ch) s in if v \<noteq> 0 then (v, s) else ch_wait_loop hw ch t (upause hw 1 s))"

definition ch_wait :: "'d mmio \<Rightarrow> nat \<Rightarrow> 'd usb \<Rightarrow> u32 \<times> 'd usb" where
  "ch_wait hw ch = ch_wait_loop hw ch 500000"

subsection \<open>Transfers\<close>

text \<open>\<open>len ? (len + mps - 1) / mps : 1\<close>, for lengths and packet sizes that are not negative.\<close>

definition pkts_of :: "nat \<Rightarrow> nat \<Rightarrow> nat option" where
  "pkts_of len mps = (if len = 0 then Some 1 else if mps = 0 then None else Some ((len + mps - 1) div mps))"

definition hcchar_of :: "bool \<Rightarrow> nat \<Rightarrow> int \<Rightarrow> u32 \<Rightarrow> int \<Rightarrow> bool \<Rightarrow> u32" where
  "hcchar_of dir_in mps ep ep_type addr low =
     (let c = (of_nat mps AND 0x7FF) OR push_bit 11 (of_int ep AND 0xF) OR (if dir_in then HCCHAR_IN else 0) OR
              ep_type OR push_bit 22 (of_int addr AND 0x7F)
      in if low then c OR HCCHAR_LSDEV else c)"

definition hctsiz_of :: "nat \<Rightarrow> nat \<Rightarrow> u32 \<Rightarrow> u32" where
  "hctsiz_of len pkts pid = (of_nat len AND 0x7FFFF) OR push_bit 19 (of_nat pkts AND 0x3FF) OR pid"

definition usb_out :: "'d mmio \<Rightarrow> nat \<Rightarrow> int \<Rightarrow> int \<Rightarrow> u32 \<Rightarrow> nat \<Rightarrow> u32 \<Rightarrow> bytes \<Rightarrow> 'd usb \<Rightarrow> (int \<times> 'd usb) option" where
  "usb_out hw ch addr ep ep_type mps pid dat s =
     (let s = uwr hw (HCSPLT ch) 0 (uwr hw (HCINTMSK ch) HCINT_COMMON_MASK (uwr hw (HCINT ch) 0xFFFFFFFF s));
          s = s\<lparr>kb_last_out_intr := 0\<rparr>; len = length dat
      in do {
        pkts \<leftarrow> pkts_of len mps;
        let s = uwr hw (HCTSIZ ch) (hctsiz_of len pkts pid) s;
            hcchar = hcchar_of False mps ep ep_type addr (kb_low_speed s);
            s = (if len > 0 then fifo_tx hw ch dat s else s);
            s = uwr hw (HCCHAR ch) (hcchar OR HCCHAR_CHENA) s;
            (intr, s) = ch_wait hw ch s;
            s = uwr hw (HCINT ch) 0xFFFFFFFF (s\<lparr>kb_last_out_intr := intr\<rparr>)
        in Some (if intr AND HCINT_XFERCOMPL \<noteq> 0 then 0 else - 1, s)
      })"

text \<open>
  One turn of the receive loop when the FIFO has an entry: \<open>True\<close> ends the loop.
\<close>

definition rx_entry :: "'d mmio \<Rightarrow> nat \<Rightarrow> nat \<Rightarrow> nat \<Rightarrow> bytes \<Rightarrow> 'd usb \<Rightarrow> (bool \<times> nat \<times> bytes \<times> 'd usb) option" where
  "rx_entry hw ch len received buf s =
     (let (grx, s) = urd hw GRXSTSP s; s = s\<lparr>kb_last_grx := grx\<rparr>;
          grx_ch = unat (grx AND 0xF); grx_cnt = unat (drop_bit 4 grx AND 0x7FF); grx_sts = drop_bit 17 grx AND 0xF
      in if grx_ch \<noteq> ch
         then Some (False, received, buf, if grx_cnt > 0 then fifo_drain hw grx_cnt s else s)
         else if grx_sts = 2 \<and> grx_cnt > 0
         then
           let want = len - received
           in if grx_cnt \<le> want
              then do {
                (buf, s) \<leftarrow> fifo_rx hw received grx_cnt buf s;
                Some (False, received + grx_cnt, buf, s\<lparr>kb_last_in_received := int (received + grx_cnt)\<rparr>)
              }
              else do {
                (buf, s) \<leftarrow> fifo_rx hw received want buf s;
                let s = fifo_drain hw (grx_cnt - want) s
                in Some (False, received + want, buf, s\<lparr>kb_last_in_received := int (received + want)\<rparr>)
              }
         else if grx_sts = 3 then Some (True, received, buf, s)
         else Some (False, received, buf, if grx_cnt > 0 then fifo_drain hw grx_cnt s else s))"

text \<open>The loop; the first component is the value of a \<open>return\<close> inside it.\<close>

fun usb_in_loop :: "'d mmio \<Rightarrow> nat \<Rightarrow> nat \<Rightarrow> nat \<Rightarrow> nat \<Rightarrow> bytes \<Rightarrow> 'd usb \<Rightarrow> (int option \<times> nat \<times> bytes \<times> 'd usb) option" where
  "usb_in_loop hw ch len 0 received buf s = Some (None, received, buf, s)"
| "usb_in_loop hw ch len (Suc t) received buf s =
     (let (v, s) = urd hw GINTSTS s
      in if v AND GINTSTS_RXFLVL \<noteq> 0
         then do {
           (stop, received, buf, s) \<leftarrow> rx_entry hw ch len received buf s;
           if stop then Some (None, received, buf, s) else usb_in_loop hw ch len t received buf s
         }
         else
           let (ci, s) = urd hw (HCINT ch) s
           in if ci \<noteq> 0
              then
                let s = uwr hw (HCINT ch) 0xFFFFFFFF (s\<lparr>kb_last_in_ci := ci\<rparr>)
                in Some (Some (if ci AND HCINT_NAK \<noteq> 0 then - 2
                               else if ci AND HCINT_XFERCOMPL \<noteq> 0 then int received
                               else if ci AND HCINT_CHHLTD \<noteq> 0 then (if received > 0 then int received else - 1)
                               else - 1), received, buf, s)
              else usb_in_loop hw ch len t received buf (upause hw 1 s))"

definition usb_in :: "'d mmio \<Rightarrow> nat \<Rightarrow> int \<Rightarrow> int \<Rightarrow> u32 \<Rightarrow> nat \<Rightarrow> u32 \<Rightarrow> nat \<Rightarrow> bytes \<Rightarrow> 'd usb \<Rightarrow>
    (int \<times> bytes \<times> 'd usb) option" where
  "usb_in hw ch addr ep ep_type mps pid len buf s =
     (let s = uwr hw (HCSPLT ch) 0 (uwr hw (HCINTMSK ch) HCINT_COMMON_MASK (uwr hw (HCINT ch) 0xFFFFFFFF s));
          s = s\<lparr>kb_last_in_intr := 0, kb_last_in_ci := 0, kb_last_grx := 0, kb_last_in_received := 0\<rparr>
      in do {
        pkts \<leftarrow> pkts_of len mps;
        let hcchar = hcchar_of True mps ep ep_type addr (kb_low_speed s);
            (hcchar, s) = (if ep_type = HCCHAR_INTR
              then (let (v, s) = urd hw HFNUM s in (if v AND 1 \<noteq> 0 then hcchar OR HCCHAR_ODDFRM else hcchar, s))
              else (hcchar, s));
            s = uwr hw (HCCHAR ch) (hcchar OR HCCHAR_CHENA) (uwr hw (HCTSIZ ch) (hctsiz_of (pkts * mps) pkts pid) s)
        in do {
          (ret, received, buf, s) \<leftarrow> usb_in_loop hw ch len 500000 0 buf s;
          case ret of
            Some r \<Rightarrow> Some (r, buf, s)
          | None \<Rightarrow>
              let (intr, s) = ch_wait hw ch s;
                  s = uwr hw (HCINT ch) 0xFFFFFFFF (s\<lparr>kb_last_in_intr := intr\<rparr>)
              in Some (if intr AND (HCINT_XFERCOMPL OR HCINT_CHHLTD) \<noteq> 0 then int received else - 1, buf, s)
        }
      })"

definition ctrl_mps :: "int \<Rightarrow> nat" where
  "ctrl_mps addr = (if addr = 0 then 8 else 64)"

definition ctrl_in :: "'d mmio \<Rightarrow> int \<Rightarrow> bytes \<Rightarrow> nat \<Rightarrow> bytes \<Rightarrow> 'd usb \<Rightarrow> (int \<times> bytes \<times> 'd usb) option" where
  "ctrl_in hw addr setup len buf s =
     (let mps = ctrl_mps addr
      in do {
        (r, s) \<leftarrow> usb_out hw 0 addr 0 HCCHAR_CTL mps PID_SETUP setup s;
        if r < 0 then Some (- 1, buf, usb_dump_status hw ''ctrl_in setup failed'' s)
        else do {
          (n, buf, s) \<leftarrow> (if len > 0 then usb_in hw 0 addr 0 HCCHAR_CTL mps PID_DATA1 len buf s else Some (0, buf, s));
          if n < 0 then Some (- 1, buf, usb_dump_status hw ''ctrl_in data failed'' s)
          else do {
            (r, s) \<leftarrow> usb_out hw 0 addr 0 HCCHAR_CTL mps PID_DATA1 [] s;
            Some (n, buf, if r < 0 then usb_dump_status hw ''ctrl_in status failed'' s else s)
          }
        }
      })"

text \<open>\<open>dummy\<close> is the uninitialised array on the stack.\<close>

definition ctrl_out :: "'d mmio \<Rightarrow> bytes \<Rightarrow> int \<Rightarrow> bytes \<Rightarrow> 'd usb \<Rightarrow> (int \<times> 'd usb) option" where
  "ctrl_out hw dummy addr setup s =
     (let mps = ctrl_mps addr
      in do {
        (r, s) \<leftarrow> usb_out hw 0 addr 0 HCCHAR_CTL mps PID_SETUP setup s;
        if r < 0 then Some (- 1, usb_dump_status hw ''ctrl_out setup failed'' s)
        else do {
          (n, _, s) \<leftarrow> usb_in hw 0 addr 0 HCCHAR_CTL mps PID_DATA1 0 dummy s;
          Some (0, if n < 0 then usb_dump_status hw ''ctrl_out status failed'' s else s)
        }
      })"

subsection \<open>Enumeration\<close>

text \<open>The retries of the first request.\<close>

fun device_desc_loop :: "'d mmio \<Rightarrow> nat \<Rightarrow> int \<Rightarrow> bytes \<Rightarrow> 'd usb \<Rightarrow> (int \<times> bytes \<times> 'd usb) option" where
  "device_desc_loop hw 0 n buf s = Some (n, buf, s)"
| "device_desc_loop hw (Suc k) n buf s = do {
     (n, buf, s) \<leftarrow> ctrl_in hw 0 [0x80, 0x06, 0x00, 0x01, 0x00, 0x00, 18, 0x00] 18 buf s;
     if n \<ge> 8 then Some (n, buf, s) else device_desc_loop hw k n buf (upause hw 10000 s)
   }"

text \<open>
  The walk over the descriptors: the endpoint address and packet size of the first interrupt
  IN endpoint, if there is one. \<open>byte\<close> is an access to the array.
\<close>

definition byte :: "bytes \<Rightarrow> nat \<Rightarrow> nat option" where
  "byte buf i = (if i < length buf then Some (unat (buf ! i)) else None)"

function find_endpoint :: "bytes \<Rightarrow> int \<Rightarrow> nat \<Rightarrow> (nat \<times> nat) option option" where
  "find_endpoint buf n i =
     (if int i + 2 \<le> n
      then do {
        dlen \<leftarrow> byte buf i;
        dtype \<leftarrow> byte buf (i + 1);
        if dlen < 2 then Some None
        else do {
          ep \<leftarrow> (if dtype = 5 \<and> dlen \<ge> 7
                 then do {
                   ep_addr \<leftarrow> byte buf (i + 2);
                   ep_attr \<leftarrow> byte buf (i + 3);
                   lo \<leftarrow> byte buf (i + 4);
                   hi \<leftarrow> byte buf (i + 5);
                   Some (if ep_addr \<ge> 0x80 \<and> ep_attr mod 4 = 3 then Some (ep_addr mod 16, lo + 256 * hi) else None)
                 }
                 else Some None);
          case ep of Some e \<Rightarrow> Some (Some e) | None \<Rightarrow> find_endpoint buf n (i + dlen)
        }
      }
      else Some None)"
  by pat_completeness auto
termination
  by (relation "measure (\<lambda>(buf, n, i). nat (n - int i))") auto

declare find_endpoint.simps [simp del]

text \<open>\<open>buf\<close> and \<open>dummy\<close> are the uninitialised arrays on the stack.\<close>

definition enumerate_keyboard :: "'d mmio \<Rightarrow> bytes \<Rightarrow> bytes \<Rightarrow> 'd usb \<Rightarrow> (int \<times> 'd usb) option" where
  "enumerate_keyboard hw buf dummy s = do {
     (n, buf, s) \<leftarrow> device_desc_loop hw 8 (- 1) buf s;
     if n < 8 then Some (- 1, usay (''[kb] GET_DESCRIPTOR(Device) failed'' @ [CHR 0x0A]) s)
     else do {
       (_, s) \<leftarrow> ctrl_out hw dummy 0 [0x00, 0x05, 0x01, 0x00, 0x00, 0x00, 0x00, 0x00] s;
       let s = upause hw 5000 s; s = s\<lparr>kbs := (kbs s)\<lparr>kb_addr := 1\<rparr>\<rparr>
       in do {
         (n, buf, s) \<leftarrow> ctrl_in hw 1 [0x80, 0x06, 0x00, 0x02, 0x00, 0x00, 0xFF, 0x00] 255 buf s;
         if n < 9 then Some (- 1, usay (''[kb] GET_DESCRIPTOR(Config) failed'' @ [CHR 0x0A]) s)
         else do {
           ep \<leftarrow> find_endpoint buf n 0;
           case ep of
             None \<Rightarrow> Some (- 1, usay (''[kb] no HID interrupt endpoint found'' @ [CHR 0x0A]) s)
           | Some (e, ep_pkt) \<Rightarrow>
               let s = s\<lparr>kbs := (kbs s)\<lparr>kb_ep := int e, kb_mps := (if ep_pkt > 8 then 8 else int ep_pkt)\<rparr>\<rparr>
               in do {
                 (_, s) \<leftarrow> ctrl_out hw dummy 1 [0x00, 0x09, 0x01, 0x00, 0x00, 0x00, 0x00, 0x00] s;
                 (_, s) \<leftarrow> ctrl_out hw dummy 1 [0x21, 0x0B, 0x00, 0x00, 0x00, 0x00, 0x00, 0x00] (upause hw 5000 s);
                 Some (0, usay (''[kb] HID keyboard ready (boot protocol)'' @ [CHR 0x0A]) s)
               }
         }
       }
     }
   }"

subsection \<open>Start-up\<close>

definition usb_power_on :: "'d mmio \<Rightarrow> ('d \<Rightarrow> u32) \<Rightarrow> u64 \<Rightarrow> 'd usb \<Rightarrow> (int \<times> 'd usb) option" where
  "usb_power_on hw code mbox s = do {
     (ok, d) \<leftarrow> mbox_call hw code 8 mbox (usb_dev s);
     let s = s\<lparr>usb_dev := d\<rparr>
     in if ok then Some (0, s) else Some (- 1, usay (''[kb] USB power mailbox failed'' @ [CHR 0x0A]) s)
   }"

text \<open>Waiting with a limit until a register has (or has not) one of the bits of a mask.\<close>

fun until_loop :: "'d mmio \<Rightarrow> u64 \<Rightarrow> u32 \<Rightarrow> bool \<Rightarrow> u64 \<Rightarrow> nat \<Rightarrow> 'd usb \<Rightarrow> bool \<times> 'd usb" where
  "until_loop hw a msk up us 0 s = (False, s)"
| "until_loop hw a msk up us (Suc t) s =
     (let (v, s) = urd hw a s
      in if (v AND msk \<noteq> 0) = up then (True, s) else until_loop hw a msk up us t (upause hw us s))"

definition dwc2_init :: "'d mmio \<Rightarrow> 'd usb \<Rightarrow> int \<times> 'd usb" where
  "dwc2_init hw s =
     (let (_, s) = until_loop hw GRSTCTL 0x80000000 True 1 200000 s;
          (_, s) = until_loop hw GRSTCTL 1 False 1 200000 (uwr hw GRSTCTL 1 s);
          (v, s) = urd hw GRSTCTL s
      in if v AND 1 \<noteq> 0 then (- 1, usay (''[kb] DWC2 soft reset timeout'' @ [CHR 0x0A]) s)
         else
           let s = upause hw 3000 s;
               (v, s) = urd hw GAHBCFG s;
               s = uwr hw GINTSTS 0xFFFFFFFF (uwr hw GINTMSK 0 (uwr hw GAHBCFG (v AND NOT 1) s));
               (v, s) = urd hw GUSBCFG s;
               s = upause hw 25000 (uwr hw GUSBCFG ((v AND NOT 0x30000000) OR 0x20000000) s);
               s = uwr hw GNPTXFSIZ 0x01000100 (uwr hw GRXFSIZ 0x0100 s);
               (v, s) = urd hw HCFG s;
               s = uwr hw HCFG (v AND NOT 3) s;
               (v, s) = urd hw GAHBCFG s
           in (0, uwr hw GAHBCFG (v OR 1) s))"

text \<open>\<open>HPRT = f(HPRT)\<close>.\<close>

definition modify :: "'d mmio \<Rightarrow> u64 \<Rightarrow> (u32 \<Rightarrow> u32) \<Rightarrow> 'd usb \<Rightarrow> 'd usb" where
  "modify hw a f s = (let (v, s) = urd hw a s in uwr hw a (f v) s)"

definition port_init :: "'d mmio \<Rightarrow> 'd usb \<Rightarrow> int \<times> 'd usb" where
  "port_init hw s =
     (let s = upause hw 50000 (modify hw HPRT (\<lambda>v. (v AND NOT HPRT_W1C_MASK) OR HPRT_PWR) s);
          (connected, s) = until_loop hw HPRT HPRT_CONNSTS True 1000 2000 s
      in if \<not> connected then (- 1, usay (''[kb] no USB device on root port'' @ [CHR 0x0A]) s)
         else
           let s = upause hw 200 (modify hw HPRT (\<lambda>v. (v AND NOT HPRT_W1C_MASK) OR HPRT_CONNDET) s);
               s = upause hw 50000 (modify hw HPRT (\<lambda>v. (v AND NOT HPRT_W1C_MASK) OR HPRT_RST) s);
               s = upause hw 100000 (modify hw HPRT (\<lambda>v. v AND NOT (HPRT_W1C_MASK OR HPRT_RST)) s);
               (_, s) = until_loop hw HPRT HPRT_ENA True 1000 200 s;
               (v, s) = urd hw HPRT s
           in if v AND HPRT_ENA = 0
              then (let s = usay ''[kb] root port failed to enable: HPRT='' s; (v, s) = urd hw HPRT s
                    in (- 1, usay [CHR 0x0A] (uhex (ucast v) s)))
              else
                let s = modify hw HPRT (\<lambda>v. (v AND NOT HPRT_W1C_MASK) OR HPRT_ENCHNG) s;
                    (v, s) = urd hw HPRT s;
                    spd = drop_bit 17 (v AND 0x60000);
                    s = s\<lparr>kb_low_speed := (spd = 2)\<rparr>;
                    s = modify hw HCFG (\<lambda>v. (v AND NOT 3) OR (if kb_low_speed s then 2 else 0)) s
                in (0, usay [CHR 0x0A] (usay (port_speed_name spd) (usay ''[kb] root port speed: '' s))))"

definition kb_init :: "'d mmio \<Rightarrow> ('d \<Rightarrow> u32) \<Rightarrow> u64 \<Rightarrow> bytes \<Rightarrow> bytes \<Rightarrow> 'd usb \<Rightarrow> (int \<times> 'd usb) option" where
  "kb_init hw code mbox buf dummy s =
     (let s = s\<lparr>kbs := (kbs s)\<lparr>prev_rep := replicate 8 0, kb_addr := 0, kb_ep := 0, kb_toggle := 0, kb_mps := 8,
                               kb_head := 0, kb_tail := 0\<rparr>, kb_low_speed := False\<rparr>
      in do {
        (_, s) \<leftarrow> usb_power_on hw code mbox s;
        let (r, s) = dwc2_init hw (upause hw 10000 s)
        in if r < 0 then Some (- 1, s)
           else
             let (r, s) = port_init hw s
             in if r < 0 then Some (- 1, s)
                else do {
                  (r, s) \<leftarrow> enumerate_keyboard hw buf dummy s;
                  Some (if r < 0 then - 1 else 0, s)
                }
      })"

text \<open>The poll routine with its transfer; \<open>rep\<close> is the uninitialised report array.\<close>

definition kb_poll_usb :: "'d mmio \<Rightarrow> bytes \<Rightarrow> 'd usb \<Rightarrow> 'd usb option" where
  "kb_poll_usb hw rep s =
     (let k = kbs s
      in if kb_addr k = 0 then Some s
         else do {
           (n, rep, s) \<leftarrow> usb_in hw 1 (kb_addr k) (kb_ep k) HCCHAR_INTR (nat (kb_mps k))
             (if kb_toggle k \<noteq> 0 then PID_DATA1 else PID_DATA0) 8 rep s;
           Some (if n = 8
                 then s\<lparr>kbs := hid_decode rep ((kbs s)\<lparr>kb_toggle := (if kb_toggle (kbs s) = 0 then 1 else 0)\<rparr>)\<rparr> else s)
         })"

subsection \<open>No device can overrun a buffer\<close>

lemma length_unpack [simp]: "length (unpack w) = 4"
  by (simp add: unpack_def)

lemma length_rx_words: "length (fst (rx_words hw n s)) = 4 * n"
  by (induction n arbitrary: s) (auto split: prod.splits, metis fst_conv)

lemma u_ops_kbs [simp]:
  "kbs (snd (urd hw a s)) = kbs s" "kbs (uwr hw a v s) = kbs s" "kbs (upause hw us s) = kbs s" "kbs (usay m s) = kbs s" "kbs (uhex x s) = kbs s"
  by (simp_all add: urd_def uwr_def upause_def usay_def uhex_def split: prod.splits)

lemma urd_kbs: "urd hw a s = (v, s') \<Longrightarrow> kbs s' = kbs s"
  by (metis snd_conv u_ops_kbs(1))

lemma rx_words_kbs [simp]: "kbs (snd (rx_words hw n s)) = kbs s"
proof (induction n arbitrary: s)
  case (Suc n)
  then show ?case by (auto simp: urd_kbs split: prod.splits) (metis snd_conv urd_kbs)
qed simp

lemma fifo_drain_kbs [simp]: "kbs (fifo_drain hw n s) = kbs s"
  by (simp add: fifo_drain_def)

text \<open>What a receive may do to an array: only its first \<open>len\<close> bytes change.\<close>

definition within :: "nat \<Rightarrow> bytes \<Rightarrow> bytes \<Rightarrow> bool" where
  "within len buf buf' \<longleftrightarrow> length buf' = length buf \<and> drop len buf' = drop len buf"

lemma within_refl [simp]: "within len buf buf"
  by (simp add: within_def)

lemma within_trans: "within len a b \<Longrightarrow> within len b c \<Longrightarrow> within len a c"
  by (simp add: within_def)

lemma fifo_rx_ok:
  assumes "off + n \<le> len" "len \<le> length buf"
  shows "\<exists>buf' s'. fifo_rx hw off n buf s = Some (buf', s') \<and> within len buf buf' \<and> kbs s' = kbs s"
proof -
  obtain bs s' where r: "rx_words hw ((n + 3) div 4) s = (bs, s')" by fastforce
  have l: "n \<le> length bs" using length_rx_words [of hw "(n + 3) div 4" s] r by simp
  have k: "kbs s' = kbs s" using rx_words_kbs [of hw "(n + 3) div 4" s] r by simp
  have "drop len (take off buf @ take n bs @ drop (off + n) buf) = drop len buf" using l assms by simp
  moreover have "length (take off buf @ take n bs @ drop (off + n) buf) = length buf" using l assms by simp
  ultimately show ?thesis using r k assms by (simp add: fifo_rx_def within_def)
qed

lemma rx_entry_ok:
  assumes "received \<le> len" "len \<le> length buf"
  shows "\<exists>stop received' buf' s'. rx_entry hw ch len received buf s = Some (stop, received', buf', s') \<and>
    received' \<le> len \<and> within len buf buf' \<and> kbs s' = kbs s"
proof -
  obtain grx s1 where g: "urd hw GRXSTSP s = (grx, s1)" by fastforce
  let ?s = "s1\<lparr>kb_last_grx := grx\<rparr>" and ?n = "unat (drop_bit 4 grx AND 0x7FF)"
  have k: "kbs ?s = kbs s" using urd_kbs [OF g] by simp
  obtain b1 t1 where f1: "?n \<le> len - received \<longrightarrow> fifo_rx hw received ?n buf ?s = Some (b1, t1) \<and> within len buf b1 \<and> kbs t1 = kbs s"
    using fifo_rx_ok [of received ?n len buf hw ?s] assms k by fastforce
  obtain b2 t2 where f2: "fifo_rx hw received (len - received) buf ?s = Some (b2, t2)" "within len buf b2" "kbs t2 = kbs s"
    using fifo_rx_ok [of received "len - received" len buf hw ?s] assms k by auto
  show ?thesis
    unfolding rx_entry_def g Let_def prod.case using f1 f2 k assms(1) by (simp split: if_splits) auto
qed

lemma usb_in_loop_ok:
  assumes "received \<le> len" "len \<le> length buf"
  shows "\<exists>ret received' buf' s'. usb_in_loop hw ch len t received buf s = Some (ret, received', buf', s') \<and>
    received' \<le> len \<and> within len buf buf' \<and> kbs s' = kbs s \<and> (\<forall>r. ret = Some r \<longrightarrow> - 2 \<le> r \<and> r \<le> int len)"
  using assms
proof (induction t arbitrary: received buf s)
  case (Suc t)
  obtain v s1 where r1: "urd hw GINTSTS s = (v, s1)" by fastforce
  obtain ci s2 where r2: "urd hw (HCINT ch) s1 = (ci, s2)" by fastforce
  have k: "kbs s1 = kbs s" "kbs s2 = kbs s" using urd_kbs [OF r1] urd_kbs [OF r2] by simp_all
  obtain stop rc b s3 where e: "rx_entry hw ch len received buf s1 = Some (stop, rc, b, s3)" "rc \<le> len" "within len buf b" "kbs s3 = kbs s"
    using rx_entry_ok [OF Suc.prems, of hw ch s1] k by auto
  have lb: "len \<le> length b" using e(3) Suc.prems(2) by (simp add: within_def)
  note ih1 = Suc.IH [OF e(2) lb, of s3] and ih2 = Suc.IH [OF Suc.prems, of "upause hw 1 s2"]
  consider "v AND GINTSTS_RXFLVL \<noteq> 0" "stop" | "v AND GINTSTS_RXFLVL \<noteq> 0" "\<not> stop"
    | "v AND GINTSTS_RXFLVL = 0" "ci \<noteq> 0" | "v AND GINTSTS_RXFLVL = 0" "ci = 0" by blast
  then show ?case
  proof cases
    case 1
    then show ?thesis using r1 e by (simp add: Let_def)
  next
    case 2
    then show ?thesis using r1 e ih1 within_trans [OF e(3)] by (auto simp: Let_def)
  next
    case 3
    then show ?thesis using r1 r2 k Suc.prems(1) by (auto simp: Let_def)
  next
    case 4
    then show ?thesis using r1 r2 ih2 k by (auto simp: Let_def)
  qed
qed simp

lemma ch_wait_loop_kbs [simp]: "kbs (snd (ch_wait_loop hw ch t s)) = kbs s"
  by (induction t arbitrary: s) (auto simp: urd_kbs split: prod.splits)

lemma ch_wait_kbs: "ch_wait hw ch s = (v, s') \<Longrightarrow> kbs s' = kbs s"
  unfolding ch_wait_def by (metis ch_wait_loop_kbs snd_conv)

text \<open>
  C12: no USB device can make the driver write outside the buffer of a transfer. Whatever the
  controller's registers deliver (packet lengths, status codes, stray data), a transfer with
  a packet size above zero returns, stores only inside the first \<open>len\<close> bytes, reports
  at most \<open>len\<close> bytes and leaves the keyboard state alone.
\<close>

theorem usb_in_bounded:
  assumes "len \<le> length buf" "0 < mps"
  shows "\<exists>n buf' s'. usb_in hw ch addr ep ep_type mps pid len buf s = Some (n, buf', s') \<and> - 2 \<le> n \<and> n \<le> int len \<and>
    length buf' = length buf \<and> drop len buf' = drop len buf \<and> kbs s' = kbs s"
proof -
  have "pkts_of len mps \<noteq> None" using assms(2) by (simp add: pkts_of_def)
  then obtain pk where pk: "pkts_of len mps = Some pk" by blast
  define s1 where "s1 = (uwr hw (HCSPLT ch) 0 (uwr hw (HCINTMSK ch) HCINT_COMMON_MASK (uwr hw (HCINT ch) 0xFFFFFFFF s)))
     \<lparr>kb_last_in_intr := 0, kb_last_in_ci := 0, kb_last_grx := 0, kb_last_in_received := 0\<rparr>"
  have k1: "kbs s1 = kbs s" by (simp add: s1_def)
  define hs where "hs = (let hcchar = hcchar_of True mps ep ep_type addr (kb_low_speed s1) in if ep_type = HCCHAR_INTR
              then (let (v, s) = urd hw HFNUM s1 in (if v AND 1 \<noteq> 0 then hcchar OR HCCHAR_ODDFRM else hcchar, s))
              else (hcchar, s1))"
  obtain hc s2 where hs: "hs = (hc, s2)" by fastforce
  have k2: "kbs s2 = kbs s" using hs k1 unfolding hs_def Let_def by (auto split: if_splits prod.splits dest: urd_kbs)
  let ?s3 = "uwr hw (HCCHAR ch) (hc OR HCCHAR_CHENA) (uwr hw (HCTSIZ ch) (hctsiz_of (pk * mps) pk pid) s2)"
  obtain ret rc b s4 where l: "usb_in_loop hw ch len 500000 0 buf ?s3 = Some (ret, rc, b, s4)" "rc \<le> len" "within len buf b"
    "kbs s4 = kbs s" "\<forall>r. ret = Some r \<longrightarrow> - 2 \<le> r \<and> r \<le> int len"
    using usb_in_loop_ok [of 0 len buf hw ch 500000 ?s3] assms(1) k2 by auto
  obtain iv s5 where w: "ch_wait hw ch s4 = (iv, s5)" by fastforce
  have k5: "kbs s5 = kbs s" using ch_wait_kbs [OF w] l(4) by simp
  have "usb_in hw ch addr ep ep_type mps pid len buf s =
    (case ret of Some r \<Rightarrow> Some (r, b, s4)
      | None \<Rightarrow> Some (if iv AND (HCINT_XFERCOMPL OR HCINT_CHHLTD) \<noteq> 0 then int rc else - 1, b,
          uwr hw (HCINT ch) 0xFFFFFFFF (s5\<lparr>kb_last_in_intr := iv\<rparr>)))"
    unfolding usb_in_def Let_def s1_def [symmetric] pk bind.bind_lunit hs_def [unfolded Let_def, symmetric] hs prod.case l(1) w
    by (simp split: option.splits)
  then show ?thesis using l(2-5) k5 by (auto simp: within_def split: option.splits)
qed

definition silent_bus :: "unit mmio" where
  "silent_bus = \<lparr>reg_rd = (\<lambda>_ d. (0, d)), reg_wr = (\<lambda>_ _ d. d), pass_us = (\<lambda>_ d. d)\<rparr>"

definition usb0 :: "unit usb" where
  "usb0 = \<lparr>kbs = kb0, kb_low_speed = False, kb_last_out_intr = 0, kb_last_in_intr = 0, kb_last_in_ci = 0, kb_last_grx = 0,
     kb_last_in_received = 0, usb_dev = (), usb_con = uart0\<rparr>"

theorem usb_in_bounded_witness:
  "\<exists>n buf' s'. usb_in silent_bus 0 0 0 HCCHAR_CTL 8 PID_DATA1 18 (replicate 256 0) usb0 = Some (n, buf', s') \<and>
     n \<le> 18 \<and> drop 18 buf' = replicate 238 0"
  using usb_in_bounded [of 18 "replicate 256 0" 8 silent_bus 0 0 0 HCCHAR_CTL PID_DATA1 usb0] by auto

subsection \<open>Polling\<close>

text \<open>The poll is the one of theory \<open>Kb\<close> on the outcome of the transfer.\<close>

lemma kb_poll_usb_eq:
  assumes "kb_addr (kbs s) \<noteq> 0" "usb_in hw 1 (kb_addr (kbs s)) (kb_ep (kbs s)) HCCHAR_INTR (nat (kb_mps (kbs s)))
      (if kb_toggle (kbs s) \<noteq> 0 then PID_DATA1 else PID_DATA0) 8 rep s = Some (n, rep', s')" "kbs s' = kbs s"
  shows "\<exists>s''. kb_poll_usb hw rep s = Some s'' \<and> kbs s'' = kb_poll (\<lambda>_ _ _ _. (n, rep')) (kbs s)"
  using assms by (auto simp: kb_poll_usb_def kb_poll_def Let_def)

text \<open>
  A poll of the keyboard is safe on any device. With a packet size above zero and a
  consistent ring the poll returns; the ring stays consistent, keeps the characters that wait
  in it in their order, and holds at most 31.
\<close>

theorem kb_poll_usb_safe:
  assumes "kb_ok (kbs s)" "0 < kb_mps (kbs s)" "length rep = 8"
  shows "\<exists>s' new. kb_poll_usb hw rep s = Some s' \<and> kb_ok (kbs s') \<and> kb_items (kbs s') = kb_items (kbs s) @ new \<and>
    length (kb_items (kbs s')) \<le> 31 \<and> kb_addr (kbs s') = kb_addr (kbs s)"
proof (cases "kb_addr (kbs s) = 0")
  case True
  then show ?thesis using assms(1) kr.bound [OF assms(1)] by (simp add: kb_poll_usb_def)
next
  case False
  obtain n rep' s' where u: "usb_in hw 1 (kb_addr (kbs s)) (kb_ep (kbs s)) HCCHAR_INTR (nat (kb_mps (kbs s)))
      (if kb_toggle (kbs s) \<noteq> 0 then PID_DATA1 else PID_DATA0) 8 rep s = Some (n, rep', s')" "length rep' = 8" "kbs s' = kbs s"
    using usb_in_bounded [of 8 rep "nat (kb_mps (kbs s))" hw 1 "kb_addr (kbs s)" "kb_ep (kbs s)" HCCHAR_INTR
        "if kb_toggle (kbs s) \<noteq> 0 then PID_DATA1 else PID_DATA0" s] assms(2,3) by auto
  obtain s2 where p: "kb_poll_usb hw rep s = Some s2" "kbs s2 = kb_poll (\<lambda>_ _ _ _. (n, rep')) (kbs s)"
    using kb_poll_usb_eq [OF False u(1,3)] by blast
  let ?k = "(kbs s)\<lparr>kb_toggle := if kb_toggle (kbs s) = 0 then 1 else 0\<rparr>"
  have k: "kb_ok ?k" "kb_items ?k = kb_items (kbs s)" using assms(1) by (simp_all add: kb_ok_def kb_items_def)
  note h = hid_decode_new_keys [OF k(1) u(2)]
  have "kbs s2 = (if n = 8 then hid_decode rep' ?k else kbs s)" unfolding p(2) using False by (simp add: kb_poll_def Let_def)
  then have "kb_ok (kbs s2)" "\<exists>new. kb_items (kbs s2) = kb_items (kbs s) @ new" "kb_addr (kbs s2) = kb_addr (kbs s)"
    using h k assms(1) hid_decode_addr by auto
  then show ?thesis using p(1) kr.bound [of "kbs s2"] by auto
qed

theorem kb_poll_usb_safe_witness:
  "\<exists>s'. kb_poll_usb silent_bus (replicate 8 0) usb0 = Some s' \<and> length (kb_items (kbs s')) \<le> 31"
proof -
  have "kb_ok (kbs usb0)" "0 < kb_mps (kbs usb0)" by (simp_all add: usb0_def kb0_def kb_ok_def ring_ok_def)
  from kb_poll_usb_safe [OF this, of "replicate 8 0" silent_bus] show ?thesis by auto
qed

text \<open>
  The descriptor walk trusts lengths the device sent. An endpoint descriptor at the end of a
  reply of 255 bytes makes it read behind the 256-byte array; a packet size of zero is
  accepted, and the next poll divides by it.
\<close>

lemma find_endpoint_overrun:
  "find_endpoint ([253, 2] @ replicate 251 0 @ [7, 5] @ [0]) 255 0 = None"
  by (simp add: find_endpoint.simps byte_def nth_append)

lemma find_endpoint_zero_packet: "find_endpoint ([7, 5, 0x81, 3, 0, 0, 10] @ replicate 249 0) 9 0 = Some (Some (1, 0))"
  by (simp add: find_endpoint.simps byte_def nth_append)

lemma kb_poll_usb_zero_packet: "kb_addr (kbs s) \<noteq> 0 \<Longrightarrow> kb_mps (kbs s) = 0 \<Longrightarrow> kb_poll_usb hw rep s = None"
  by (simp add: kb_poll_usb_def usb_in_def pkts_of_def Let_def)

end
