(* ===== verification/FileIo.thy ===== *)
theory FileIo
  imports Vfs
begin

text \<open>
  Whole-file transfers as the shell and the editor make them: open for writing with truncation,
  write one buffer, close; open for reading, read, close. \<open>fs_ok\<close> is the file system
  invariant with its bookkeeping hidden.
\<close>

definition fs_ok :: "vfs \<Rightarrow> bool" where
  "fs_ok v \<longleftrightarrow> (\<exists>d L. vfs_inv d L v)"

lemma fs_ok_ops:
  assumes "fs_ok v"
  shows "fs_ok (vfs_close fd v)" "fs_ok (upd_mem f v)" "0 \<le> len \<Longrightarrow> fs_ok (snd (vfs_write fd buf len v))"
    "0 \<le> len \<Longrightarrow> fs_ok (snd (vfs_read fd buf len v))" "vfs_open path flags v = Some (r, v') \<Longrightarrow> fs_ok v'"
    "\<exists>r v'. vfs_open path flags v = Some (r, v')" "fs_ok (snd (vfs_mkdir path v))" "fs_ok (snd (vfs_unlink path v))"
proof -
  obtain d L where I: "vfs_inv d L v" using assms by (auto simp: fs_ok_def)
  note o = vfs_open_inv [OF I, of path flags]
  show "fs_ok (vfs_close fd v)" "fs_ok (upd_mem f v)"
    using I by (auto simp: fs_ok_def intro!: exI [of _ d] exI [of _ L] vfs_close_inv)
  show "0 \<le> len \<Longrightarrow> fs_ok (snd (vfs_write fd buf len v))"
    unfolding fs_ok_def using vfs_write_inv [OF I] by blast
  show "0 \<le> len \<Longrightarrow> fs_ok (snd (vfs_read fd buf len v))"
    unfolding fs_ok_def using vfs_read_inv [OF I] by blast
  show "vfs_open path flags v = Some (r, v') \<Longrightarrow> fs_ok v'" using o by (auto simp: fs_ok_def)
  show "\<exists>r v'. vfs_open path flags v = Some (r, v')" using o by blast
  show "fs_ok (snd (vfs_mkdir path v))" unfolding fs_ok_def using vfs_mkdir_inv [OF I] by (metis prod.collapse)
  show "fs_ok (snd (vfs_unlink path v))" unfolding fs_ok_def using vfs_unlink_inv [OF I] by blast
qed

subsection \<open>Opening\<close>

lemma alloc_fd_range:
  assumes "\<not> alloc_fd v < 0"
  shows "nat (alloc_fd v) < VFS_MAX_FDS" "alloc_fd v < int VFS_MAX_FDS"
  using assms by (auto simp: alloc_fd_def idx_or_neg1_def split: option.splits dest: find_upt_Some)

lemma open_fd_some:
  assumes "open_fd (int i) flags v = (fd, v')" "0 \<le> fd" "length (fds v) = VFS_MAX_FDS"
  shows "fd < int VFS_MAX_FDS" "inodes v' = inodes v" "vheap v' = vheap v"
    "fds v' ! nat fd = (fds v ! nat fd)\<lparr>finode := int i, fflags := flags,
       fpos := (if flags AND O_APPEND \<noteq> 0 then isize (inodes v ! i) else 0)\<rparr>"
  using assms alloc_fd_range [of v] by (auto simp: open_fd_def Let_def split: if_splits)

text \<open>What a descriptor opened on inode \<open>i\<close> looks like.\<close>

definition opened :: "vfs \<Rightarrow> int \<Rightarrow> nat \<Rightarrow> int \<Rightarrow> bool" where
  "opened v fd i flags \<longleftrightarrow> \<not> bad_fd fd v \<and> finode (fds v ! nat fd) = int i \<and> fpos (fds v ! nat fd) = 0 \<and>
     fflags (fds v ! nat fd) = flags \<and> i < VFS_MAX_INODES \<and> iused (inodes v ! i) \<and> itype (inodes v ! i) = VFS_FILE"

lemma vfs_open_write:
  assumes I: "vfs_inv d L v" and o: "vfs_open path 21 v = Some (fd, v1)" "0 \<le> fd"
  obtains i d1 L1 where "vfs_inv d1 L1 v1" "L \<subseteq> L1" "opened v1 fd i 21" "isize (inodes v1 ! i) = 0"
proof -
  have inv: "\<exists>d1 L1. vfs_inv d1 L1 v1 \<and> L \<subseteq> L1" using vfs_open_inv [OF I, of path 21] o(1) by auto
  have "\<exists>i. opened v1 fd i 21 \<and> isize (inodes v1 ! i) = 0"
  proof (cases "vfs_resolve path v < 0")
    case True
    then obtain r w where c: "vfs_create path v = Some (r, w)" "\<not> r < 0" "open_fd r 21 w = (fd, v1)"
      using o by (auto simp: vfs_open_def Let_def split: bind_splits if_splits)
    show ?thesis
    proof (cases rule: vfs_create_cases [OF I, of path, case_names fail made])
      case (fail v')
      then show ?thesis using c by simp
    next
      case (made i par p h nm)
      have w: "r = int i" "iused (inodes w ! i)" "itype (inodes w ! i) = VFS_FILE" "isize (inodes w ! i) = 0" "fds w = fds v"
        using made(2,14) c(1) vfs_invD(1) [OF I] by auto
      note f = open_fd_some [of i 21 w fd v1, OF c(3) [unfolded w(1)] o(2)]
      show ?thesis
        using f w made(2) vfs_invD(2) [OF I] o(2) by (auto simp: opened_def bad_fd_def intro!: exI [of _ i])
    qed
  next
    case False
    note u = vfs_resolve_used [OF I refl False]
    let ?i = "nat (vfs_resolve path v)"
    have t: "itype (inodes v ! ?i) = VFS_FILE" and of: "open_fd (int ?i) 21 (vfs_truncate ?i v) = (fd, v1)"
      using o False by (auto simp: vfs_open_def Let_def split: if_splits)
    have w: "iused (inodes (vfs_truncate ?i v) ! ?i)" "itype (inodes (vfs_truncate ?i v) ! ?i) = VFS_FILE"
      "isize (inodes (vfs_truncate ?i v) ! ?i) = 0" "fds (vfs_truncate ?i v) = fds v"
      using u t vfs_invD(1) [OF I] by (simp_all add: vfs_truncate_def Let_def)
    note f = open_fd_some [OF of o(2)]
    show ?thesis
      using f w u vfs_invD(2) [OF I] o(2) by (auto simp: opened_def bad_fd_def intro!: exI [of _ ?i])
  qed
  then show thesis using inv that by blast
qed

subsection \<open>Writing a whole file\<close>

text \<open>The write and the close after such an open.\<close>

lemma write_whole:
  assumes I: "vfs_inv d L v" and o: "opened v fd i flags" "flags AND O_APPEND = 0" "isize (inodes v ! i) = 0"
    and b: "length bs \<le> 16384" "apart buf (length bs) (idata (inodes v ! i)) 16384" "unat buf + length bs \<le> 2 ^ 64"
    and m: "mread (mem (vheap v)) buf (length bs) = bs"
    and w: "vfs_write fd buf (int (length bs)) v = (n, v')"
  shows "n = int (length bs)" "file_bytes (vfs_close fd v') i = bs" "vfs_inv d L (vfs_close fd v')"
    "\<And>j. j < VFS_MAX_INODES \<Longrightarrow> j \<noteq> i \<Longrightarrow> iused (inodes v ! j) \<Longrightarrow> itype (inodes v ! j) = VFS_FILE \<Longrightarrow>
       file_bytes (vfs_close fd v') j = file_bytes v j"
proof -
  have fd: "\<not> bad_fd fd v" "finode (fds v ! nat fd) = int i" using o(1) by (simp_all add: opened_def)
  have wp: "write_pos fd v = 0" using o by (simp add: write_pos_def opened_def)
  have W: "n = min (int (length bs)) (VFS_MAX_FSIZE - write_pos fd v)"
    "file_bytes v' i = take (nat (write_pos fd v)) (file_bytes v i) @ mread (mem (vheap v)) buf (nat n) @
      drop (nat (write_pos fd v + n)) (file_bytes v i)"
    "\<And>j. j < VFS_MAX_INODES \<Longrightarrow> j \<noteq> i \<Longrightarrow> iused (inodes v ! j) \<Longrightarrow> itype (inodes v ! j) = VFS_FILE \<Longrightarrow>
       file_bytes v' j = file_bytes v j"
    using vfs_write_bytes [OF I fd _ _ _ _ _ w] wp o(3) b by simp_all
  show n: "n = int (length bs)" using W(1) wp b(1) by simp
  have cl: "file_bytes (vfs_close fd v') j = file_bytes v' j" for j by (simp add: file_bytes_def vfs_close_def)
  have "file_bytes v i = []" using o(3) by (simp add: file_bytes_def)
  then show "file_bytes (vfs_close fd v') i = bs" using W(2) n wp m cl by simp
  have "vfs_inv d L v'" using vfs_write_inv [OF I, of "int (length bs)" fd buf] w by simp
  then show "vfs_inv d L (vfs_close fd v')" by (rule vfs_close_inv)
  show "\<And>j. j < VFS_MAX_INODES \<Longrightarrow> j \<noteq> i \<Longrightarrow> iused (inodes v ! j) \<Longrightarrow> itype (inodes v ! j) = VFS_FILE \<Longrightarrow>
       file_bytes (vfs_close fd v') j = file_bytes v j" using W(3) cl by simp
qed

subsection \<open>Finding the file again\<close>

definition same_names :: "vfs \<Rightarrow> vfs \<Rightarrow> bool" where
  "same_names v v' \<longleftrightarrow> (\<forall>j. iused (inodes v' ! j) = iused (inodes v ! j) \<and> iparent (inodes v' ! j) = iparent (inodes v ! j) \<and>
     iname (inodes v' ! j) = iname (inodes v ! j))"

lemma same_names_resolve: "same_names v v' \<Longrightarrow> vfs_resolve path v = r \<Longrightarrow> \<not> r < 0 \<Longrightarrow> vfs_resolve path v' = r"
proof -
  assume a: "same_names v v'" "vfs_resolve path v = r" "\<not> r < 0"
  have "find_child v' = find_child v" using a(1) by (simp add: same_names_def find_child_def [abs_def] child_def [abs_def])
  then have "resolve_loop v' q cur = r" if "resolve_loop v q cur = r" for q cur
    using resolve_mono [OF _ that a(3), of v'] by simp
  then show ?thesis using a(2,3) by (auto simp: vfs_resolve_def split: if_splits)
qed

text \<open>The directory part and the name of a path the tree can hold.\<close>

definition plain_path :: "string \<Rightarrow> string \<Rightarrow> bool" where
  "plain_path p nm \<longleftrightarrow> NUL \<notin> set p \<and> length p \<le> 31 \<and> NUL \<notin> set nm \<and> CHR ''/'' \<notin> set nm \<and> nm \<noteq> [] \<and> length nm \<le> 31"

lemma resolve_parent:
  assumes pp: "plain_path p nm" and par: "par = vfs_resolve (if p = [] then ''/'' else p) v" "\<not> par < 0"
  shows "vfs_resolve (p @ CHR ''/'' # nm) v = find_child v par nm"
proof -
  note p = pp [unfolded plain_path_def]
  have pr: "resolve_loop v (skip_slash p) 0 = par"
    using p unfolding par(1)
    by (cases p) (auto simp: vfs_resolve_def skip_slash_def resolve_loop.simps [of v "[]"] chd_def split: list.splits)
  have np: "NUL \<notin> set (skip_slash p)" using p by (cases p) (auto simp: skip_slash_def)
  have "chd nm \<noteq> NUL" using p by (cases nm) auto
  then have last: "resolve_loop v nm par = find_child v par nm"
    using next_comp_all [of nm 31] p
    by (subst resolve_loop.simps) (auto simp: Let_def skip_slash_def resolve_loop.simps [of v "[]"] find_child_def idx_or_neg1_def split: option.splits)
  have "vfs_resolve (p @ CHR ''/'' # nm) v = resolve_loop v (skip_slash p @ (if p = [] then nm else CHR ''/'' # nm)) 0"
    using p by (cases p; cases nm) (auto simp: vfs_resolve_def skip_slash_def chd_append chd_NUL_iff)
  also have "\<dots> = find_child v par nm"
    using resolve_append [OF pr par(2) np, of nm] pr last by (auto simp: skip_slash_def resolve_loop.simps [of v "[]"])
  finally show ?thesis .
qed

lemma vfs_create_resolve:
  assumes I: "vfs_inv d L v" and pp: "plain_path p nm" and r: "vfs_resolve (p @ CHR ''/'' # nm) v < 0"
    and c: "vfs_create (p @ CHR ''/'' # nm) v = Some (int i, w)"
  shows "vfs_resolve (p @ CHR ''/'' # nm) w = int i"
proof -
  note p = pp [unfolded plain_path_def]
  define par where "par = vfs_resolve (if p = [] then ''/'' else p) v"
  have sp: "split_path (p @ CHR ''/'' # nm) = Some (if p = [] then ''/'' else p, nm)" using p by (intro split_path_join) simp_all
  have nme: "vfs_strncpy nm VFS_MAX_NAME = nm" using p by (simp add: vfs_strncpy_eq cstr_no_nul)
  from c have g: "\<not> par < 0" "\<not> alloc_inode v < 0" "alloc_inode v = int i"
    unfolding vfs_create_def sp option.case prod.case par_def [symmetric]
    by (auto simp: Let_def split: if_splits bind_splits)
  note a = alloc_inode_range [OF g(3)]
  have "find_child v par nm < 0" using resolve_parent [OF pp par_def g(1)] r by simp
  then have none: "\<not> (\<exists>j \<in> set [1..<VFS_MAX_INODES]. child v par nm j)"
    by (auto simp: find_child_def find_upt_None)
  obtain n where n: "inodes w = (inodes v)[i := n]" "iused n" "iparent n = par" "iname n = nm"
    using c g(1,3) unfolding vfs_create_def sp option.case prod.case par_def [symmetric] nme
    by (auto simp: Let_def split: if_splits bind_splits)
  show ?thesis
    using p by (intro resolve_new [OF I _ _ _ _ _ _ par_def g(1) _ _ _ none n(2-4,1)]) (use a in simp_all)
qed

lemma open_write_resolves:
  assumes I: "vfs_inv d L v" and pp: "plain_path p nm" and o: "vfs_open (p @ CHR ''/'' # nm) 21 v = Some (fd, v1)" "0 \<le> fd"
    and op: "finode (fds v1 ! nat fd) = int i"
  shows "vfs_resolve (p @ CHR ''/'' # nm) v1 = int i"
proof (cases "vfs_resolve (p @ CHR ''/'' # nm) v < 0")
  case True
  then obtain r w where c: "vfs_create (p @ CHR ''/'' # nm) v = Some (r, w)" "\<not> r < 0" "open_fd r 21 w = (fd, v1)"
    using o by (auto simp: vfs_open_def Let_def split: bind_splits if_splits)
  have ln: "length (fds w) = VFS_MAX_FDS"
  proof (cases rule: vfs_create_cases [OF I, of "p @ CHR ''/'' # nm", case_names fail made])
    case (fail v')
    then show ?thesis using c by simp
  next
    case (made i par q h nm)
    then show ?thesis using c(1) vfs_invD(2) [OF I] by auto
  qed
  have "open_fd (int (nat r)) 21 w = (fd, v1)" using c(2,3) by simp
  note f = open_fd_some [OF this o(2) ln]
  have r: "r = int i" using f op c(2) ln o(2) by simp
  have "vfs_resolve (p @ CHR ''/'' # nm) w = int i" using vfs_create_resolve [OF I pp True] c(1) r by simp
  moreover have "same_names w v1" using f by (simp add: same_names_def)
  ultimately show ?thesis using same_names_resolve by simp
next
  case False
  let ?i = "nat (vfs_resolve (p @ CHR ''/'' # nm) v)"
  note u = vfs_resolve_used [OF I refl False]
  have of: "open_fd (int ?i) 21 (vfs_truncate ?i v) = (fd, v1)"
    using o False by (auto simp: vfs_open_def Let_def split: if_splits)
  have ln: "length (fds (vfs_truncate ?i v)) = VFS_MAX_FDS" using vfs_invD(2) [OF I] by (simp add: vfs_truncate_def Let_def)
  note f = open_fd_some [OF of o(2) ln]
  have i: "?i = i" using f op ln o(2) by (simp split: if_splits)
  have "same_names v v1"
    using f(2) u(2) vfs_invD(1) [OF I] by (auto simp: same_names_def vfs_truncate_def Let_def nth_list_update)
  then show ?thesis using same_names_resolve [OF _ refl False] i False by force
qed

text \<open>What a write and a close keep.\<close>

lemma vfs_write_inodes:
  assumes "vfs_write fd buf len v = (n, v')" "finode (fds v ! nat fd) = int i"
  shows "inodes v' = inodes v \<or> (\<exists>z. inodes v' = (inodes v)[i := (inodes v ! i)\<lparr>isize := z\<rparr>])"
proof -
  let ?P = "\<lambda>w. inodes w = inodes v \<or> (\<exists>z. inodes w = (inodes v)[i := (inodes v ! i)\<lparr>isize := z\<rparr>])"
  have if_P: "?P (if c then a else b)" if "?P a" "?P b" for c a b using that by simp
  have if_S: "?P (snd (if c then a else b))" if "?P (snd a)" "?P (snd b)" for c and a b :: "int \<times> vfs" using that by simp
  have "?P (snd (vfs_write fd buf len v))"
    unfolding vfs_write_def Let_def assms(2) nat_int
    by (intro if_S; (unfold snd_conv, (rule if_P)?)?) auto
  then show ?thesis unfolding assms(1) snd_conv .
qed

lemma vfs_write_names:
  assumes "vfs_write fd buf len v = (n, v')" "length (inodes v) = VFS_MAX_INODES" "finode (fds v ! nat fd) = int i" "i < VFS_MAX_INODES"
  shows "same_names v (vfs_close fd v')"
  using vfs_write_inodes [OF assms(1,3)] assms(2,4)
  by (auto simp: same_names_def vfs_close_def nth_list_update split: if_splits)

lemma vfs_write_type:
  assumes "vfs_write fd buf len v = (n, v')" "finode (fds v ! nat fd) = int i" "i < VFS_MAX_INODES" "length (inodes v) = VFS_MAX_INODES"
  shows "itype (inodes (vfs_close fd v') ! i) = itype (inodes v ! i)"
  using vfs_write_inodes [OF assms(1,2)] assms(3,4) by (auto simp: vfs_close_def)

lemma closed_fd_free:
  assumes "0 \<le> fd" "fd < int VFS_MAX_FDS" "length (fds v) = VFS_MAX_FDS"
  shows "\<not> alloc_fd (vfs_close fd v) < 0"
proof -
  have "finode (fds (vfs_close fd v) ! nat fd) = - 1" using assms by (simp add: vfs_close_def)
  moreover have "nat fd < VFS_MAX_FDS" using assms by simp
  ultimately have "find (\<lambda>i. finode (fds (vfs_close fd v) ! i) = - 1) [0..<VFS_MAX_FDS] \<noteq> None"
    by (auto simp: find_upt_None)
  then show ?thesis by (auto simp: alloc_fd_def)
qed

lemma vfs_open_read:
  assumes I: "vfs_inv d L v" and r: "vfs_resolve path v = int i" "itype (inodes v ! i) = VFS_FILE" and a: "\<not> alloc_fd v < 0"
  obtains fd v1 where "vfs_open path 0 v = Some (fd, v1)" "0 \<le> fd" "opened v1 fd i 0" "inodes v1 = inodes v" "vheap v1 = vheap v"
    "\<exists>d L. vfs_inv d L v1"
proof -
  have nn: "\<not> int i < 0" by simp
  note u = vfs_resolve_used [OF I r(1) nn]
  obtain fd v1 where of: "open_fd (int i) 0 v = (fd, v1)" by fastforce
  have fd: "0 \<le> fd" using of a by (auto simp: open_fd_def Let_def)
  have o: "vfs_open path 0 v = Some (fd, v1)" using r of by (simp add: vfs_open_def Let_def)
  note f = open_fd_some [OF of fd vfs_invD(2) [OF I]]
  show thesis
    using that [OF o fd _ f(2,3)] f u r(2) fd vfs_open_inv [OF I, of path 0] o by (auto simp: opened_def bad_fd_def)
qed

end
