(* ===== verification/Input.thy ===== *)
theory Input
  imports Kb User FileIo
begin

text \<open>
  The shell's state and its terminal input (\<^verbatim>\<open>src/kernel.c\<close>, \<open>shell_getc\<close> to \<open>vi_read_key\<close>).
  Characters come from the USB keyboard or from the UART. The receive half of the UART driver
  (ring and FIFO) is kept apart from the transmit half: the two share no variable. What arrives
  from outside is a list of \<open>poll\<close>s, one for each time the code looks for a character:
  the outcome of the USB transfer, the characters the UART has received since the last look,
  and whether its interrupt was taken.
\<close>

lemma int_of_char [simp]: "(0::int) \<le> of_char c" "nat (of_char c :: int) = of_char c" "\<not> (of_char c :: int) < 0"
proof -
  have "(of_char c :: int) = int (of_char c)" by (simp only: of_nat_of_char)
  then show "(0::int) \<le> of_char c" "nat (of_char c :: int) = of_char c" "\<not> (of_char c :: int) < 0" by simp_all
qed

record poll =
  p_usb :: "int \<times> bytes"
  p_rx :: string
  p_irq :: bool

definition quiet :: poll where
  "quiet = \<lparr>p_usb = (- 2, []), p_rx = [], p_irq = False\<rparr>"

record term_in =
  shell_unget_buf :: int
  kbd :: kb
  rxu :: uart
  polls :: "poll list"

record shell =
  sh_vfs :: vfs
  sh_con :: uart
  sh_in :: term_in
  cwd :: string
  shell_history :: "string list"

definition sh_puts :: "string \<Rightarrow> shell \<Rightarrow> shell" where
  "sh_puts msg s = s\<lparr>sh_con := uart_puts msg (sh_con s)\<rparr>"

subsection \<open>Reading a character\<close>

text \<open>What the outside did since the last look.\<close>

definition arrive :: "poll \<Rightarrow> term_in \<Rightarrow> term_in" where
  "arrive p t =
     (let u = (rxu t)\<lparr>rxfifo := rxfifo (rxu t) @ p_rx p\<rparr>
      in t\<lparr>rxu := (if p_irq p then uart_irq_handler u else u)\<rparr>)"

definition shell_ungetc :: "char \<Rightarrow> term_in \<Rightarrow> term_in" where
  "shell_ungetc c t = t\<lparr>shell_unget_buf := of_char c\<rparr>"

definition try_getc :: "poll \<Rightarrow> term_in \<Rightarrow> int \<times> term_in" where
  "try_getc p t =
     (if shell_unget_buf t \<ge> 0 then (shell_unget_buf t, t\<lparr>shell_unget_buf := - 1\<rparr>)
      else
        let k = kb_poll (\<lambda>addr ep mps pid. p_usb p) (kbd t)
        in if kb_ready k then (let (c, k') = kb_getc k in (of_char c, t\<lparr>kbd := k'\<rparr>))
           else
             let t = t\<lparr>kbd := k\<rparr>; (c, u) = uart_irq_getc (rxu t)
             in if c \<ge> 0 then (c, t\<lparr>rxu := u\<rparr>)
                else (let (c, u) = uart_poll_getc (rxu t) in (c, t\<lparr>rxu := u\<rparr>)))"

definition shell_try_getc :: "term_in \<Rightarrow> int \<times> term_in" where
  "shell_try_getc t =
     (case polls t of
        [] \<Rightarrow> try_getc quiet t
      | p # ps \<Rightarrow> try_getc p (arrive p (t\<lparr>polls := ps\<rparr>)))"

text \<open>
  The waiting loop: one poll a turn. \<open>None\<close> is waiting for ever, when nothing is left to come.
  What other tasks do while the shell yields is not part of the terminal.
\<close>

fun shell_getc_loop :: "poll list \<Rightarrow> term_in \<Rightarrow> (char \<times> term_in) option" where
  "shell_getc_loop [] t =
     (let (c, t') = try_getc quiet (t\<lparr>polls := []\<rparr>) in if c \<ge> 0 then Some (char_of (nat c), t') else None)"
| "shell_getc_loop (p # ps) t =
     (let (c, t') = try_getc p (arrive p (t\<lparr>polls := ps\<rparr>))
      in if c \<ge> 0 then Some (char_of (nat c), t') else shell_getc_loop ps t')"

definition shell_getc :: "term_in \<Rightarrow> (char \<times> term_in) option" where
  "shell_getc t = shell_getc_loop (polls t) t"

subsection \<open>Keys\<close>

abbreviation VI_KEY_UP :: int where "VI_KEY_UP \<equiv> 1001"
abbreviation VI_KEY_DOWN :: int where "VI_KEY_DOWN \<equiv> 1002"
abbreviation VI_KEY_LEFT :: int where "VI_KEY_LEFT \<equiv> 1003"
abbreviation VI_KEY_RIGHT :: int where "VI_KEY_RIGHT \<equiv> 1004"

text \<open>The two characters after an escape select an arrow key.\<close>

definition vi_read_key :: "term_in \<Rightarrow> (int \<times> term_in) option" where
  "vi_read_key t = do {
     (c, t) \<leftarrow> shell_getc t;
     if c \<noteq> CHR 0x1B then Some (of_char c, t)
     else
       let (c1, t) = shell_try_getc t
       in if c1 < 0 then Some (27, t)
          else if c1 \<noteq> of_char CHR ''['' then Some (27, shell_ungetc (char_of (nat c1)) t)
          else do {
            (c2, t) \<leftarrow> shell_getc t;
            Some (if c2 = CHR ''A'' then VI_KEY_UP else if c2 = CHR ''B'' then VI_KEY_DOWN
                  else if c2 = CHR ''C'' then VI_KEY_RIGHT else if c2 = CHR ''D'' then VI_KEY_LEFT else 27, t)
          }
   }"

fun read_keys :: "nat \<Rightarrow> term_in \<Rightarrow> (int list \<times> term_in) option" where
  "read_keys 0 t = Some ([], t)"
| "read_keys (Suc n) t = do {
     (c, t1) \<leftarrow> vi_read_key t;
     (cs, t2) \<leftarrow> read_keys n t1;
     Some (c # cs, t2)
   }"

end
