(* ===== verification/Vi.thy ===== *)
theory Vi
  imports Input
begin

text \<open>
  The screen editor of the shell (\<^verbatim>\<open>src/kernel.c\<close>, \<open>mem_move\<close> to \<open>vi_open_command\<close>). The
  editor's \<open>int\<close> fields are integers. Its text array is a list, and a store outside the array,
  which in C would overwrite whatever lies beside it, raises the flag \<open>ed_fault\<close> of the model.
  When the code passes the array's address to the file system, the model places the
  array's bytes at that address of the heap block first. Functions that print have an
  \<open>option\<close> result because \<open>kprintf\<close> has one; \<open>None\<close> from the command loop is also waiting
  for input that never comes.
\<close>

subsection \<open>State\<close>

abbreviation VI_MAX_TEXT :: int where "VI_MAX_TEXT \<equiv> 16384"
abbreviation VI_SCREEN_ROWS :: nat where "VI_SCREEN_ROWS \<equiv> 20"
abbreviation VI_SCREEN_COLS :: nat where "VI_SCREEN_COLS \<equiv> 78"
abbreviation NL :: char where "NL \<equiv> CHR 0x0A"

record vi_editor_t =
  ed_path :: string
  ed_buf :: string
  ed_screen :: "string list"
  ed_status :: string
  ed_len :: int
  ed_cursor :: int
  ed_rowoff :: int
  ed_coloff :: int
  ed_dirty :: bool
  ed_insert :: bool
  ed_quit :: bool
  ed_cache :: bool
  ed_fault :: bool

definition vi_zero :: vi_editor_t where
  "vi_zero = \<lparr>ed_path = [], ed_buf = replicate (nat (VI_MAX_TEXT + 1)) NUL, ed_screen = replicate VI_SCREEN_ROWS [],
     ed_status = [], ed_len = 0, ed_cursor = 0, ed_rowoff = 0, ed_coloff = 0, ed_dirty = False,
     ed_insert = False, ed_quit = False, ed_cache = False, ed_fault = False\<rparr>"

subsection \<open>Text\<close>

definition str_copy_limit :: "string \<Rightarrow> nat \<Rightarrow> string" where
  "str_copy_limit src cap = take (cap - 1) (cstr src)"

text \<open>\<open>dst\<close> and \<open>src\<close> point into the same array; the loop runs up or down as in C.\<close>

definition mem_move :: "nat \<Rightarrow> nat \<Rightarrow> int \<Rightarrow> 'a list \<Rightarrow> 'a list" where
  "mem_move dst src n xs =
     (if n \<le> 0 \<or> dst = src then xs
      else if dst < src then fold (\<lambda>i xs. xs[dst + i := xs ! (src + i)]) [0..<nat n] xs
      else fold (\<lambda>i xs. xs[dst + i := xs ! (src + i)]) (rev [0..<nat n]) xs)"

text \<open>A store into the text array, and \<open>mem_move\<close> within it.\<close>

definition buf_put :: "int \<Rightarrow> char \<Rightarrow> vi_editor_t \<Rightarrow> vi_editor_t" where
  "buf_put i c ed =
     (if 0 \<le> i \<and> i < int (length (ed_buf ed)) then ed\<lparr>ed_buf := (ed_buf ed)[nat i := c]\<rparr>
      else ed\<lparr>ed_fault := True\<rparr>)"

definition buf_move :: "int \<Rightarrow> int \<Rightarrow> int \<Rightarrow> vi_editor_t \<Rightarrow> vi_editor_t" where
  "buf_move dst src n ed =
     (if n \<le> 0 \<or> dst = src then ed
      else if 0 \<le> dst \<and> 0 \<le> src \<and> dst + n \<le> int (length (ed_buf ed)) \<and> src + n \<le> int (length (ed_buf ed))
      then ed\<lparr>ed_buf := mem_move (nat dst) (nat src) n (ed_buf ed)\<rparr>
      else ed\<lparr>ed_fault := True\<rparr>)"

function line_start_loop :: "string \<Rightarrow> int \<Rightarrow> int" where
  "line_start_loop buf idx = (if idx > 0 \<and> buf ! nat (idx - 1) \<noteq> NL then line_start_loop buf (idx - 1) else idx)"
  by pat_completeness auto
termination
  by (relation "measure (\<lambda>(buf, idx). nat idx)") auto

declare line_start_loop.simps [simp del]

text \<open>Both line functions clamp their argument first.\<close>

definition vi_clamp :: "vi_editor_t \<Rightarrow> int \<Rightarrow> int" where
  "vi_clamp ed idx = (let idx = (if idx < 0 then 0 else idx) in if idx > ed_len ed then ed_len ed else idx)"

definition vi_line_start :: "vi_editor_t \<Rightarrow> int \<Rightarrow> int" where
  "vi_line_start ed idx = line_start_loop (ed_buf ed) (vi_clamp ed idx)"

function line_end_loop :: "string \<Rightarrow> int \<Rightarrow> int \<Rightarrow> int" where
  "line_end_loop buf len idx = (if idx < len \<and> buf ! nat idx \<noteq> NL then line_end_loop buf len (idx + 1) else idx)"
  by pat_completeness auto
termination
  by (relation "measure (\<lambda>(buf, len, idx). nat (len - idx))") auto

declare line_end_loop.simps [simp del]

definition vi_line_end :: "vi_editor_t \<Rightarrow> int \<Rightarrow> int" where
  "vi_line_end ed idx = line_end_loop (ed_buf ed) (ed_len ed) (vi_clamp ed idx)"

definition vi_cursor_col :: "vi_editor_t \<Rightarrow> int" where
  "vi_cursor_col ed = ed_cursor ed - vi_line_start ed (ed_cursor ed)"

definition vi_cursor_row :: "vi_editor_t \<Rightarrow> int" where
  "vi_cursor_row ed =
     fold (\<lambda>i row. if ed_buf ed ! i = NL then row + 1 else row) [0..<nat (min (ed_cursor ed) (ed_len ed))] 0"

text \<open>The scan for the start of a row; \<open>n\<close> counts the rows still to pass.\<close>

function skip_rows :: "string \<Rightarrow> int \<Rightarrow> int \<Rightarrow> int \<Rightarrow> int \<times> int" where
  "skip_rows buf len n p =
     (if 0 < n \<and> p < len then skip_rows buf len (if buf ! nat p = NL then n - 1 else n) (p + 1) else (n, p))"
  by pat_completeness auto
termination
  by (relation "measure (\<lambda>(buf, len, n, p). nat (len - p))") auto

declare skip_rows.simps [simp del]

definition vi_set_cursor_row_col :: "int \<Rightarrow> int \<Rightarrow> vi_editor_t \<Rightarrow> vi_editor_t" where
  "vi_set_cursor_row_col target_row target_col ed =
     (let target_row = (if target_row < 0 then 0 else target_row);
          target_col = (if target_col < 0 then 0 else target_col);
          p = snd (skip_rows (ed_buf ed) (ed_len ed) target_row 0);
          line_end = vi_line_end ed p;
          line_len = line_end - p;
          col = (if target_col > line_len then line_len else target_col)
      in ed\<lparr>ed_cursor := p + col\<rparr>)"

definition vi_insert_char :: "char \<Rightarrow> vi_editor_t \<Rightarrow> vi_editor_t" where
  "vi_insert_char c ed =
     (if ed_len ed \<ge> VI_MAX_TEXT then ed
      else
        let ed = buf_move (ed_cursor ed + 1) (ed_cursor ed) (ed_len ed - ed_cursor ed) ed;
            ed = buf_put (ed_cursor ed) c ed;
            ed = ed\<lparr>ed_len := ed_len ed + 1, ed_cursor := ed_cursor ed + 1\<rparr>;
            ed = buf_put (ed_len ed) NUL ed
        in ed\<lparr>ed_dirty := True\<rparr>)"

definition vi_delete_at :: "int \<Rightarrow> vi_editor_t \<Rightarrow> vi_editor_t" where
  "vi_delete_at idx ed =
     (if idx < 0 \<or> idx \<ge> ed_len ed then ed
      else
        let ed = buf_move idx (idx + 1) (ed_len ed - idx - 1) ed;
            ed = ed\<lparr>ed_len := ed_len ed - 1\<rparr>;
            ed = buf_put (ed_len ed) NUL ed
        in ed\<lparr>ed_dirty := True\<rparr>)"

definition vi_backspace :: "vi_editor_t \<Rightarrow> vi_editor_t" where
  "vi_backspace ed =
     (if ed_cursor ed \<le> 0 then ed
      else (let ed = vi_delete_at (ed_cursor ed - 1) ed in ed\<lparr>ed_cursor := ed_cursor ed - 1\<rparr>))"

definition vi_delete_line :: "vi_editor_t \<Rightarrow> vi_editor_t" where
  "vi_delete_line ed =
     (let start = vi_line_start ed (ed_cursor ed);
          e = vi_line_end ed (ed_cursor ed);
          e = (if e < ed_len ed \<and> ed_buf ed ! nat e = NL then e + 1 else e)
      in if start = 0 \<and> e \<ge> ed_len ed
         then (buf_put 0 NUL (ed\<lparr>ed_len := 0, ed_cursor := 0\<rparr>))\<lparr>ed_dirty := True\<rparr>
         else
           let ed = buf_move start e (ed_len ed - e) ed;
               ed = ed\<lparr>ed_len := ed_len ed - (e - start)\<rparr>;
               start = (if start > ed_len ed then ed_len ed else start);
               ed = ed\<lparr>ed_cursor := start\<rparr>;
               ed = buf_put (ed_len ed) NUL ed
           in ed\<lparr>ed_dirty := True\<rparr>)"

definition vi_move_left :: "vi_editor_t \<Rightarrow> vi_editor_t" where
  "vi_move_left ed = (if ed_cursor ed > 0 then ed\<lparr>ed_cursor := ed_cursor ed - 1\<rparr> else ed)"

definition vi_move_right :: "vi_editor_t \<Rightarrow> vi_editor_t" where
  "vi_move_right ed = (if ed_cursor ed < ed_len ed then ed\<lparr>ed_cursor := ed_cursor ed + 1\<rparr> else ed)"

definition vi_move_down :: "vi_editor_t \<Rightarrow> vi_editor_t" where
  "vi_move_down ed = vi_set_cursor_row_col (vi_cursor_row ed + 1) (vi_cursor_col ed) ed"

definition vi_move_up :: "vi_editor_t \<Rightarrow> vi_editor_t" where
  "vi_move_up ed =
     (if vi_cursor_row ed > 0 then vi_set_cursor_row_col (vi_cursor_row ed - 1) (vi_cursor_col ed) ed else ed)"

subsection \<open>The screen\<close>

definition vi_scroll :: "vi_editor_t \<Rightarrow> vi_editor_t" where
  "vi_scroll ed =
     (let row = vi_cursor_row ed; col = vi_cursor_col ed;
          r = (if row < ed_rowoff ed then row else ed_rowoff ed);
          r = (if row \<ge> r + int VI_SCREEN_ROWS then row - int VI_SCREEN_ROWS + 1 else r);
          c = (if col < ed_coloff ed then col else ed_coloff ed);
          c = (if col \<ge> c + int VI_SCREEN_COLS then col - int VI_SCREEN_COLS + 1 else c);
          r = (if r < 0 then 0 else r);
          c = (if c < 0 then 0 else c)
      in ed\<lparr>ed_rowoff := r, ed_coloff := c\<rparr>)"

fun str_eq_limit :: "string \<Rightarrow> string \<Rightarrow> bool" where
  "str_eq_limit a b =
     (if chd a = NUL \<and> chd b = NUL then True
      else if chd a \<noteq> chd b then False
      else (case (a, b) of (_ # a', _ # b') \<Rightarrow> str_eq_limit a' b' | _ \<Rightarrow> True))"

declare str_eq_limit.simps [simp del]

definition vi_build_status :: "vi_editor_t \<Rightarrow> string option \<Rightarrow> nat \<Rightarrow> string" where
  "vi_build_status ed msg cap =
     fold (\<lambda>part out. out @ take (cap - 1 - length out) (cstr part))
       [if ed_insert ed then ''INSERT'' else ''NORMAL'', ''  '', ed_path ed, if ed_dirty ed then '' [+]'' else '''',
        ''  '', case msg of None \<Rightarrow> '''' | Some m \<Rightarrow> m] []"

definition screen_char :: "char \<Rightarrow> char" where
  "screen_char c = (if c < CHR '' '' \<or> c > CHR ''~'' then CHR ''?'' else c)"

text \<open>\<open>out\<close> holds the columns shown so far, \<open>line_col\<close> the column of the text at \<open>idx\<close>.\<close>

function screen_line_loop :: "vi_editor_t \<Rightarrow> int \<Rightarrow> int \<Rightarrow> string \<Rightarrow> string \<times> int" where
  "screen_line_loop ed idx line_col out =
     (if idx < ed_len ed \<and> ed_buf ed ! nat idx \<noteq> NL
      then screen_line_loop ed (idx + 1) (line_col + 1)
        (if line_col \<ge> ed_coloff ed \<and> length out < VI_SCREEN_COLS then out @ [screen_char (ed_buf ed ! nat idx)] else out)
      else (out, idx))"
  by pat_completeness auto
termination
  by (relation "measure (\<lambda>(ed, idx, line_col, out). nat (ed_len ed - idx))") auto

declare screen_line_loop.simps [simp del]

definition vi_build_screen_line :: "vi_editor_t \<Rightarrow> int \<Rightarrow> string \<times> int" where
  "vi_build_screen_line ed idx =
     (if idx \<ge> ed_len ed then (''~'', idx)
      else
        let (out, idx) = screen_line_loop ed idx 0 []
        in (out, if idx < ed_len ed \<and> ed_buf ed ! nat idx = NL then idx + 1 else idx))"

definition esc :: "string \<Rightarrow> string" where
  "esc s = CHR 0x1B # s"

definition vi_draw_status :: "vi_editor_t \<Rightarrow> string option \<Rightarrow> uart \<Rightarrow> uart option" where
  "vi_draw_status ed msg u = do {
     u \<leftarrow> kprintf ''%s  %s%s  %s''
       [ArgS (Some (if ed_insert ed then ''INSERT'' else ''NORMAL'')), ArgS (Some (ed_path ed)),
        ArgS (Some (if ed_dirty ed then '' [+]'' else '''')), ArgS (Some (case msg of None \<Rightarrow> '''' | Some m \<Rightarrow> m))]
       (uart_puts (esc ''[22;1H'' @ esc ''[7m'') u);
     Some (uart_puts (esc ''[K'' @ esc ''[m'') u)
   }"

text \<open>One row of the redraw: a row whose text is the cached one is not sent.\<close>

definition render_row :: "nat \<Rightarrow> int \<times> vi_editor_t \<times> uart \<Rightarrow> (int \<times> vi_editor_t \<times> uart) option" where
  "render_row row st =
     (let (idx, ed, u) = st; (line, idx) = vi_build_screen_line ed idx
      in if \<not> ed_cache ed \<or> \<not> str_eq_limit (ed_screen ed ! row) line
         then do {
           u \<leftarrow> kprintf (esc ''[%d;1H'') [ArgL (of_nat (row + 1))] u;
           Some (idx, ed\<lparr>ed_screen := (ed_screen ed)[row := str_copy_limit line (VI_SCREEN_COLS + 2)]\<rparr>,
                 uart_puts (esc ''[K'') (uart_puts line (uart_puts (esc ''[K'') u)))
         }
         else Some (idx, ed, u))"

fun render_rows :: "nat list \<Rightarrow> int \<times> vi_editor_t \<times> uart \<Rightarrow> (int \<times> vi_editor_t \<times> uart) option" where
  "render_rows [] st = Some st"
| "render_rows (r # rs) st = do { st \<leftarrow> render_row r st; render_rows rs st }"

definition vi_render :: "string option \<Rightarrow> vi_editor_t \<times> uart \<Rightarrow> (vi_editor_t \<times> uart) option" where
  "vi_render msg st =
     (let (ed, u) = st;
          ed = vi_scroll ed;
          u = uart_puts (esc ''[?25l'') u;
          idx = snd (skip_rows (ed_buf ed) (ed_len ed) (ed_rowoff ed) 0)
      in do {
        (_, ed, u) \<leftarrow> render_rows [0..<VI_SCREEN_ROWS] (idx, ed, u);
        let status = vi_build_status ed msg 128;
            redraw = (\<not> ed_cache ed \<or> \<not> str_eq_limit (ed_status ed) status);
            ed' = (if redraw then ed\<lparr>ed_status := str_copy_limit status 128\<rparr> else ed);
            ed' = ed'\<lparr>ed_cache := True\<rparr>;
            cursor_row = vi_cursor_row ed' - ed_rowoff ed' + 1;
            cursor_col = vi_cursor_col ed' - ed_coloff ed' + 1;
            cursor_row = (if cursor_row < 1 then 1 else cursor_row);
            cursor_row = (if cursor_row > int VI_SCREEN_ROWS then int VI_SCREEN_ROWS else cursor_row);
            cursor_col = (if cursor_col < 1 then 1 else cursor_col);
            cursor_col = (if cursor_col > int VI_SCREEN_COLS then int VI_SCREEN_COLS else cursor_col)
        in do {
          u \<leftarrow> (if redraw then vi_draw_status ed msg u else Some u);
          u \<leftarrow> kprintf (esc ''[%d;%dH'') [ArgL (of_int cursor_row), ArgL (of_int cursor_col)] u;
          Some (ed', uart_puts (esc ''[?25h'') u)
        }
      })"

subsection \<open>Saving, commands and keys\<close>

definition bytes_of :: "string \<Rightarrow> bytes" where
  "bytes_of s = map (\<lambda>c. of_nat (of_char c)) s"

definition string_of :: "bytes \<Rightarrow> string" where
  "string_of bs = map (\<lambda>b. char_of (unat b)) bs"

text \<open>\<open>bufp\<close> is the address of the editor's text array.\<close>

definition vi_save :: "addr \<Rightarrow> vi_editor_t \<times> shell \<Rightarrow> (int \<times> vi_editor_t \<times> shell) option" where
  "vi_save bufp st =
     (let (ed, s) = st
      in do {
        (fd, v) \<leftarrow> vfs_open (ed_path ed) 21 (sh_vfs s);
        if fd < 0 then Some (- 1, ed, s\<lparr>sh_vfs := v\<rparr>)
        else
          let v = upd_mem (\<lambda>m. mwrite m bufp (bytes_of (take (nat (ed_len ed)) (ed_buf ed)))) v;
              (wrote, v) = vfs_write fd bufp (ed_len ed) v;
              s = s\<lparr>sh_vfs := vfs_close fd v\<rparr>
          in if wrote \<noteq> ed_len ed then Some (- 1, ed, s) else Some (0, ed\<lparr>ed_dirty := False\<rparr>, s)
      })"

definition sh_render :: "string option \<Rightarrow> vi_editor_t \<times> shell \<Rightarrow> (vi_editor_t \<times> shell) option" where
  "sh_render msg st =
     (let (ed, s) = st in map_option (\<lambda>(ed, u). (ed, s\<lparr>sh_con := u\<rparr>)) (vi_render msg (ed, sh_con s)))"

text \<open>
  The command line: at most 15 characters; the result is \<open>None\<close> inside when escape leaves it.
\<close>

partial_function (option) prompt_loop :: "string \<Rightarrow> shell \<Rightarrow> (string option \<times> shell) option" where
  "prompt_loop cmd s =
     (if length cmd < 15
      then do {
        (c, t) \<leftarrow> vi_read_key (sh_in s);
        let s = s\<lparr>sh_in := t\<rparr>
        in if c = 13 \<or> c = 10 then Some (Some cmd, s)
           else if c = 27 then Some (None, s)
           else if (c = 8 \<or> c = 127) \<and> cmd \<noteq> [] then prompt_loop (butlast cmd) (sh_puts [CHR 0x08, CHR '' '', CHR 0x08] s)
           else if c < 32 \<or> c > 126 then prompt_loop cmd s
           else prompt_loop (cmd @ [char_of (nat c)]) (s\<lparr>sh_con := uart_putc (char_of (nat c)) (sh_con s)\<rparr>)
      }
      else Some (Some cmd, s))"

definition vi_command :: "addr \<Rightarrow> string \<Rightarrow> vi_editor_t \<times> shell \<Rightarrow> (vi_editor_t \<times> shell) option" where
  "vi_command bufp cmd st =
     (let (ed, s) = st
      in if str_eq cmd ''q''
         then (if ed_dirty ed then sh_render (Some ''No write since last change (:q! to quit)'') (ed, s)
               else Some (ed\<lparr>ed_quit := True\<rparr>, s))
         else if str_eq cmd ''q!'' then Some (ed\<lparr>ed_quit := True\<rparr>, s)
         else if str_eq cmd ''w''
         then do { (r, st) \<leftarrow> vi_save bufp (ed, s); sh_render (Some (if r < 0 then ''write failed'' else ''written'')) st }
         else if str_eq cmd ''wq'' \<or> str_eq cmd ''x''
         then do {
           (r, ed, s) \<leftarrow> vi_save bufp (ed, s);
           if r < 0 then sh_render (Some ''write failed'') (ed, s) else Some (ed\<lparr>ed_quit := True\<rparr>, s)
         }
         else sh_render (Some ''unknown command'') (ed, s))"

definition vi_command_prompt :: "addr \<Rightarrow> vi_editor_t \<times> shell \<Rightarrow> (vi_editor_t \<times> shell) option" where
  "vi_command_prompt bufp st =
     (let (ed, s) = st
      in do {
        u \<leftarrow> vi_draw_status ed (Some '':'') (sh_con s);
        u \<leftarrow> kprintf (esc ''[22;3H'') [] u;
        (r, s) \<leftarrow> prompt_loop [] (s\<lparr>sh_con := u\<rparr>);
        (case r of None \<Rightarrow> Some (ed, s) | Some cmd \<Rightarrow> vi_command bufp cmd (ed, s))
      })"

text \<open>A key in insert mode, before the screen is redrawn.\<close>

definition vi_insert_key :: "int \<Rightarrow> vi_editor_t \<Rightarrow> vi_editor_t" where
  "vi_insert_key c ed =
     (let ed = (if c = VI_KEY_LEFT then vi_move_left ed
                else if c = VI_KEY_RIGHT then vi_move_right ed
                else if c = VI_KEY_UP then vi_move_up ed
                else if c = VI_KEY_DOWN then vi_move_down ed
                else ed)
      in if c = 13 \<or> c = 10 then vi_insert_char NL ed
         else if c = 8 \<or> c = 127 then vi_backspace ed
         else if c \<ge> 32 \<and> c \<le> 126 then vi_insert_char (char_of (nat c)) ed
         else ed)"

text \<open>The keys of normal mode that only edit or move.\<close>

definition vi_normal_key :: "int \<Rightarrow> vi_editor_t \<Rightarrow> vi_editor_t" where
  "vi_normal_key c ed =
     (if c = of_char CHR ''h'' \<or> c = VI_KEY_LEFT then vi_move_left ed
      else if c = of_char CHR ''l'' \<or> c = VI_KEY_RIGHT then vi_move_right ed
      else if c = of_char CHR ''j'' \<or> c = VI_KEY_DOWN then vi_move_down ed
      else if c = of_char CHR ''k'' \<or> c = VI_KEY_UP then vi_move_up ed
      else if c = of_char CHR ''0'' then ed\<lparr>ed_cursor := vi_line_start ed (ed_cursor ed)\<rparr>
      else if c = of_char CHR ''$'' then ed\<lparr>ed_cursor := vi_line_end ed (ed_cursor ed)\<rparr>
      else if c = of_char CHR ''i'' then ed\<lparr>ed_insert := True\<rparr>
      else if c = of_char CHR ''a''
        then (if ed_cursor ed < ed_len ed then ed\<lparr>ed_cursor := ed_cursor ed + 1\<rparr> else ed)\<lparr>ed_insert := True\<rparr>
      else if c = of_char CHR ''o''
        then (vi_insert_char NL (ed\<lparr>ed_cursor := vi_line_end ed (ed_cursor ed)\<rparr>))\<lparr>ed_insert := True\<rparr>
      else if c = of_char CHR ''x''
        then (let ed = vi_delete_at (ed_cursor ed) ed
              in if ed_cursor ed > ed_len ed then ed\<lparr>ed_cursor := ed_len ed\<rparr> else ed)
      else ed)"

text \<open>The local flags of the loop.\<close>

record vi_pending =
  pending_d :: bool
  pending_z :: bool
  quit_confirm :: bool

text \<open>
  One turn of the loop after the key \<open>c\<close> was read. Every \<open>break\<close> of the code follows
  \<open>ed->quit = 1\<close>, so the loop condition ends the loop in those cases too.
\<close>

definition vi_key :: "addr \<Rightarrow> int \<Rightarrow> vi_pending \<times> vi_editor_t \<times> shell \<Rightarrow> (vi_pending \<times> vi_editor_t \<times> shell) option" where
  "vi_key bufp c st =
     (let (p, ed, s) = st
      in if ed_insert ed
         then
           (if c = 3 \<or> c = 17 then Some (p, ed\<lparr>ed_quit := True\<rparr>, s)
            else if c = 27 then map_option (Pair p) (sh_render None (ed\<lparr>ed_insert := False\<rparr>, s))
            else map_option (Pair p) (sh_render None (vi_insert_key c ed, s)))
         else if c = 3 \<or> c = 17
         then
           (if ed_dirty ed \<and> \<not> quit_confirm p
            then map_option (Pair \<lparr>pending_d = False, pending_z = False, quit_confirm = True\<rparr>)
              (sh_render (Some ''Ctrl-C again to quit without saving'') (ed, s))
            else Some (p, ed\<lparr>ed_quit := True\<rparr>, s))
         else if c = of_char CHR ''d'' \<and> pending_d p
         then map_option (Pair \<lparr>pending_d = False, pending_z = False, quit_confirm = False\<rparr>)
           (sh_render (Some ''line deleted'') (vi_delete_line ed, s))
         else
           let p = \<lparr>pending_d = (c = of_char CHR ''d''), pending_z = (c = of_char CHR ''Z'' \<and> pending_z p), quit_confirm = False\<rparr>
           in if c = of_char CHR ''Q'' then Some (p, ed\<lparr>ed_quit := True\<rparr>, s)
              else if c = of_char CHR ''Z'' \<and> pending_z p
              then do {
                (r, ed, s) \<leftarrow> vi_save bufp (ed, s);
                if r < 0 then map_option (Pair (p\<lparr>pending_z := False\<rparr>)) (sh_render (Some ''write failed'') (ed, s))
                else Some (p, ed\<lparr>ed_quit := True\<rparr>, s)
              }
              else if c = of_char CHR ''Z''
              then map_option (Pair (p\<lparr>pending_z := True\<rparr>)) (sh_render (Some ''press Z again to save and quit'') (ed, s))
              else if c = of_char CHR '':''
              then do {
                (ed, s) \<leftarrow> vi_command_prompt bufp (ed, s);
                let p = p\<lparr>pending_d := False, pending_z := False\<rparr>
                in if \<not> ed_quit ed then map_option (Pair p) (sh_render None (ed, s)) else Some (p, ed, s)
              }
              else map_option (Pair p) (sh_render None (vi_normal_key c ed, s)))"

partial_function (option) vi_loop :: "addr \<Rightarrow> vi_pending \<times> vi_editor_t \<times> shell \<Rightarrow> (vi_pending \<times> vi_editor_t \<times> shell) option" where
  "vi_loop bufp st =
     (let (p, ed, s) = st
      in if ed_quit ed then Some st
         else do {
           (c, t) \<leftarrow> vi_read_key (sh_in s);
           st \<leftarrow> vi_key bufp c (p, ed, s\<lparr>sh_in := t\<rparr>);
           vi_loop bufp st
         })"

end
