(* ===== verification/ViText.thy ===== *)
theory ViText
  imports Vi
begin

text \<open>
  Correctness of the editor's text operations. \<open>vi_ok\<close> is the editor's invariant; \<open>vi_text\<close> is
  the text it holds. Every editing operation is shown to be the list operation it stands for,
  and every key keeps the invariant.
\<close>

subsection \<open>Moving overlapping memory\<close>

text \<open>The list after \<open>k\<close> cells from \<open>lo\<close> on were copied from the cells \<open>d\<close> further on or back.\<close>

definition moved :: "nat \<Rightarrow> nat \<Rightarrow> nat \<Rightarrow> nat \<Rightarrow> 'a list \<Rightarrow> 'a list" where
  "moved dst src lo hi xs = map (\<lambda>j. if dst + lo \<le> j \<and> j < dst + hi then xs ! (src + (j - dst)) else xs ! j) [0..<length xs]"

lemma length_moved [simp]: "length (moved dst src lo hi xs) = length xs"
  by (simp add: moved_def)

lemma nth_moved:
  "j < length xs \<Longrightarrow> moved dst src lo hi xs ! j = (if dst + lo \<le> j \<and> j < dst + hi then xs ! (src + (j - dst)) else xs ! j)"
  by (simp add: moved_def)

lemma moved_empty [simp]: "moved dst src k k xs = xs"
  by (rule nth_equalityI) (auto simp: nth_moved)

lemma move_up:
  assumes "dst < src" "src + n \<le> length xs"
  shows "fold (\<lambda>i xs. xs[dst + i := xs ! (src + i)]) [0..<n] xs = moved dst src 0 n xs"
  using assms(2)
proof (induction n)
  case (Suc n)
  have v: "moved dst src 0 n xs ! (src + n) = xs ! (src + n)"
    using Suc.prems assms(1) by (simp add: nth_moved)
  have "(moved dst src 0 n xs)[dst + n := xs ! (src + n)] = moved dst src 0 (Suc n) xs"
    by (rule nth_equalityI) (use Suc.prems assms(1) in \<open>auto simp: nth_moved nth_list_update\<close>)
  then show ?case using Suc v by simp
qed simp

lemma move_down:
  assumes "src < dst" "dst + n \<le> length xs" "k \<le> n"
  shows "fold (\<lambda>i xs. xs[dst + i := xs ! (src + i)]) (rev [k..<n]) xs = moved dst src k n xs"
  using assms(3)
proof (induction "n - k" arbitrary: k)
  case 0
  then show ?case by simp
next
  case (Suc m)
  then have k: "k < n" by simp
  then have e: "rev [k..<n] = rev [Suc k..<n] @ [k]" by (simp add: upt_conv_Cons)
  have ih: "fold (\<lambda>i xs. xs[dst + i := xs ! (src + i)]) (rev [Suc k..<n]) xs = moved dst src (Suc k) n xs"
    using Suc k by simp
  have v: "moved dst src (Suc k) n xs ! (src + k) = xs ! (src + k)"
    using k assms by (simp add: nth_moved)
  have "(moved dst src (Suc k) n xs)[dst + k := xs ! (src + k)] = moved dst src k n xs"
    by (rule nth_equalityI) (use k assms in \<open>auto simp: nth_moved nth_list_update\<close>)
  then show ?case using ih v by (simp add: e)
qed

text \<open>
  \<open>mem_move\<close> is a correct overlapping move: whichever way the two ranges overlap, the
  destination receives the bytes the source held before the call and no other cell changes.
\<close>

theorem mem_move_correct:
  assumes "dst + n \<le> length xs" "src + n \<le> length xs"
  shows "mem_move dst src (int n) xs = take dst xs @ take n (drop src xs) @ drop (dst + n) xs"
proof -
  have "mem_move dst src (int n) xs = moved dst src 0 n xs"
  proof (cases "n = 0 \<or> dst = src")
    case True
    then show ?thesis
      using assms by (auto simp: mem_move_def nth_moved intro!: nth_equalityI)
  next
    case False
    then show ?thesis
      using assms move_up [of dst src n xs] move_down [of src dst n xs 0] by (auto simp: mem_move_def)
  qed
  also have "\<dots> = take dst xs @ take n (drop src xs) @ drop (dst + n) xs"
  proof (rule nth_equalityI)
    have l: "length (take n (drop src xs)) = n" "length (take dst xs) = dst" using assms by simp_all
    show "length (moved dst src 0 n xs) = length (take dst xs @ take n (drop src xs) @ drop (dst + n) xs)"
      using assms l by simp
    fix j assume "j < length (moved dst src 0 n xs)"
    then show "moved dst src 0 n xs ! j = (take dst xs @ take n (drop src xs) @ drop (dst + n) xs) ! j"
      using assms unfolding nth_append l by (auto simp: nth_moved)
  qed
  finally show ?thesis .
qed

theorem mem_move_correct_witness: "mem_move 2 0 3 [1, 2, 3, 4, 5::nat] = [1, 2, 1, 2, 3]"
  using mem_move_correct [of 2 3 "[1, 2, 3, 4, 5::nat]" 0] by simp

subsection \<open>The text\<close>

definition vi_text :: "vi_editor_t \<Rightarrow> string" where
  "vi_text ed = take (nat (ed_len ed)) (ed_buf ed)"

definition vi_ok :: "vi_editor_t \<Rightarrow> bool" where
  "vi_ok ed \<longleftrightarrow> int (length (ed_buf ed)) = VI_MAX_TEXT + 1 \<and> 0 \<le> ed_cursor ed \<and> ed_cursor ed \<le> ed_len ed \<and>
     ed_len ed \<le> VI_MAX_TEXT \<and> ed_buf ed ! nat (ed_len ed) = NUL \<and> length (ed_screen ed) = VI_SCREEN_ROWS \<and>
     \<not> ed_fault ed"

lemma vi_okD:
  assumes "vi_ok ed"
  shows "length (ed_buf ed) = 16385" "ed_len ed \<le> 16384" "ed_cursor ed \<le> ed_len ed"
    "length (vi_text ed) = nat (ed_len ed)" "0 \<le> ed_cursor ed" "0 \<le> ed_len ed"
  using assms by (auto simp: vi_ok_def vi_text_def min_def)

lemma vi_okI:
  assumes "length (ed_buf ed) = 16385" "ed_len ed \<le> 16384" "ed_cursor ed \<le> ed_len ed" "0 \<le> ed_cursor ed"
    "ed_buf ed ! nat (ed_len ed) = NUL" "length (ed_screen ed) = 20" "\<not> ed_fault ed"
  shows "vi_ok ed"
  using assms by (simp add: vi_ok_def)

text \<open>The cursor and the length of a sound editor as natural numbers.\<close>

lemma vi_ok_nat:
  assumes "vi_ok ed"
  obtains c l where "ed_cursor ed = int c" "ed_len ed = int l" "c \<le> l" "l \<le> 16384"
  using assms that [of "nat (ed_cursor ed)" "nat (ed_len ed)"] by (auto simp: vi_ok_def nat_le_iff)

lemma buf_put_nat: "i < length (ed_buf ed) \<Longrightarrow> buf_put (int i) c ed = ed\<lparr>ed_buf := (ed_buf ed)[i := c]\<rparr>"
  by (simp add: buf_put_def)

lemma buf_move_nat:
  assumes "dst + n \<le> length (ed_buf ed)" "src + n \<le> length (ed_buf ed)"
  shows "buf_move (int dst) (int src) (int n) ed = ed\<lparr>ed_buf := mem_move dst src (int n) (ed_buf ed)\<rparr>"
  using assms by (auto simp: buf_move_def mem_move_def)

lemma vi_insert_text:
  assumes ok: "vi_ok ed" and room: "ed_len ed < VI_MAX_TEXT"
  shows "vi_text (vi_insert_char c ed) = take (nat (ed_cursor ed)) (vi_text ed) @ c # drop (nat (ed_cursor ed)) (vi_text ed)"
    "ed_cursor (vi_insert_char c ed) = ed_cursor ed + 1" "vi_ok (vi_insert_char c ed)"
proof -
  obtain k l where k: "ed_cursor ed = int k" "ed_len ed = int l" "k \<le> l" "l < 16384"
    using ok room by (elim vi_ok_nat) auto
  note o = ok [unfolded vi_ok_def]
  let ?n = "l - k" and ?b = "ed_buf ed"
  have i: "int k + 1 = int (k + 1)" "int l - int k = int ?n" "int l + 1 = int (l + 1)" using k by simp_all
  have m: "mem_move (k + 1) k (int ?n) ?b = take (k + 1) ?b @ take ?n (drop k ?b) @ drop (k + 1 + ?n) ?b"
    using o k by (intro mem_move_correct) simp_all
  have m': "(mem_move (k + 1) k (int ?n) ?b)[k := c] = take k ?b @ c # take ?n (drop k ?b) @ drop (l + 1) ?b"
    using o k unfolding m by (simp add: take_Suc_conv_app_nth list_update_append)
  let ?b' = "(take k ?b @ c # take ?n (drop k ?b) @ drop (l + 1) ?b)[l + 1 := NUL]"
  have bm: "buf_move (int (k + 1)) (int k) (int ?n) ed = ed\<lparr>ed_buf := mem_move (k + 1) k (int ?n) ?b\<rparr>"
    using o k by (intro buf_move_nat) auto
  have lm: "length (mem_move (k + 1) k (int ?n) ?b) = 16385" using o k unfolding m by simp
  have lb: "length (ed_buf ed) = 16385" using o by simp
  have sx: "int l + 1 = int (Suc l)" "int k + 1 = int (Suc k)" by simp_all
  have e: "vi_insert_char c ed = ed\<lparr>ed_buf := ?b', ed_len := int (l + 1), ed_cursor := int (k + 1), ed_dirty := True\<rparr>"
    using k lm lb unfolding vi_insert_char_def Let_def k(1,2) i bm
    by (simp add: buf_put_nat m' [simplified] k(1,2) sx del: of_nat_Suc flip: of_nat_diff)
  show cu: "ed_cursor (vi_insert_char c ed) = ed_cursor ed + 1" by (simp add: e k)
  have t: "take ?n (drop k ?b) = drop k (take l ?b)" "take k (take l ?b) = take k ?b"
    using k by (simp_all add: drop_take min_def)
  show "vi_text (vi_insert_char c ed) = take (nat (ed_cursor ed)) (vi_text ed) @ c # drop (nat (ed_cursor ed)) (vi_text ed)"
    using o k by (simp add: vi_text_def e t nat_add_distrib Suc_diff_le)
  show "vi_ok (vi_insert_char c ed)"
    using o k by (intro vi_okI) (simp_all add: e nat_add_distrib)
qed

lemma vi_insert_full: "ed_len ed \<ge> VI_MAX_TEXT \<Longrightarrow> vi_insert_char c ed = ed"
  by (simp add: vi_insert_char_def)

lemma vi_insert_ok: "vi_ok ed \<Longrightarrow> vi_ok (vi_insert_char c ed)"
  using vi_insert_text(3) [of ed c] vi_insert_full [of ed c] by (cases "ed_len ed < VI_MAX_TEXT") auto

text \<open>Cutting the cells from \<open>a\<close> to \<open>e\<close> out of the text.\<close>

lemma cut_text:
  assumes "a \<le> e" "e \<le> len" "len < length b"
  shows "take (len - (e - a)) ((mem_move a e (int len - int e) b)[len - (e - a) := NUL]) = take a (take len b) @ drop e (take len b)"
    "length ((mem_move a e (int len - int e) b)[len - (e - a) := NUL]) = length b"
    "(mem_move a e (int len - int e) b)[len - (e - a) := NUL] ! (len - (e - a)) = NUL"
proof -
  have i: "int len - int e = int (len - e)" using assms by simp
  have m: "mem_move a e (int len - int e) b = take a b @ take (len - e) (drop e b) @ drop (a + (len - e)) b"
    unfolding i using assms by (intro mem_move_correct) simp_all
  have k: "len - (e - a) = a + (len - e)" using assms by simp
  show "take (len - (e - a)) ((mem_move a e (int len - int e) b)[len - (e - a) := NUL]) = take a (take len b) @ drop e (take len b)"
    using assms by (simp add: m k drop_take)
  show l: "length ((mem_move a e (int len - int e) b)[len - (e - a) := NUL]) = length b"
    using assms by (simp add: m)
  show "(mem_move a e (int len - int e) b)[len - (e - a) := NUL] ! (len - (e - a)) = NUL"
    using l assms by simp
qed

lemma vi_delete_text:
  assumes ok: "vi_ok ed" and i: "0 \<le> idx" "idx < ed_len ed"
  shows "vi_text (vi_delete_at idx ed) = take (nat idx) (vi_text ed) @ drop (nat idx + 1) (vi_text ed)"
    "ed_len (vi_delete_at idx ed) = ed_len ed - 1" "ed_cursor (vi_delete_at idx ed) = ed_cursor ed"
    "length (ed_buf (vi_delete_at idx ed)) = 16385" "ed_buf (vi_delete_at idx ed) ! nat (ed_len ed - 1) = NUL"
    "ed_screen (vi_delete_at idx ed) = ed_screen ed" "ed_fault (vi_delete_at idx ed) = ed_fault ed"
proof -
  obtain k l where k: "ed_len ed = int l" "idx = int k" "k < l" "l \<le> 16384"
    using ok i by (elim vi_ok_nat) (metis nat_int_comparison(2) zero_le_imp_eq_int)
  note o = ok [unfolded vi_ok_def]
  let ?b = "ed_buf ed"
  have x: "int k + 1 = int (k + 1)" "int l - int k - 1 = int (l - (k + 1))" "int l - 1 = int (l - (k + 1 - k))"
    using k by simp_all
  have x1: "int l - 1 = int (l - Suc 0)" using k by simp
  note c = cut_text [of k "k + 1" l ?b]
  have cx: "int l - int (k + 1) = int (l - (k + 1))" using k by simp
  have l: "length ?b = 16385" using o by simp
  have bm: "buf_move (int k) (int (k + 1)) (int (l - (k + 1))) ed = ed\<lparr>ed_buf := mem_move k (k + 1) (int (l - (k + 1))) ?b\<rparr>"
    using l k by (intro buf_move_nat) simp_all
  have lm: "length (mem_move k (k + 1) (int (l - (k + 1))) ?b) = 16385" using c(2) l k unfolding cx by simp
  have e: "vi_delete_at idx ed = ed\<lparr>ed_buf := (mem_move k (k + 1) (int (l - (k + 1))) ?b)[l - (k + 1 - k) := NUL],
      ed_len := int (l - (k + 1 - k)), ed_dirty := True\<rparr>"
    using k lm unfolding vi_delete_at_def Let_def k(1,2) x bm by (simp add: buf_put_nat k(1,2) x1 del: of_nat_diff)
  show "vi_text (vi_delete_at idx ed) = take (nat idx) (vi_text ed) @ drop (nat idx + 1) (vi_text ed)"
    using c(1) [unfolded cx] l k unfolding e by (simp add: vi_text_def  del: of_nat_diff)
  show "length (ed_buf (vi_delete_at idx ed)) = 16385"
    using c(2) [unfolded cx] l k unfolding e by (simp del: of_nat_diff)
  show "ed_buf (vi_delete_at idx ed) ! nat (ed_len ed - 1) = NUL"
    using c(3) [unfolded cx] l k unfolding e by (simp add: nat_diff_distrib del: of_nat_diff)
  show "ed_len (vi_delete_at idx ed) = ed_len ed - 1" using k unfolding e by (simp add: of_nat_diff)
  show "ed_fault (vi_delete_at idx ed) = ed_fault ed" unfolding e by simp
qed (use i in \<open>simp_all add: vi_delete_at_def buf_put_def buf_move_def Let_def\<close>)

lemma vi_backspace_text:
  assumes ok: "vi_ok ed" and c: "0 < ed_cursor ed"
  shows "vi_text (vi_backspace ed) = take (nat (ed_cursor ed) - 1) (vi_text ed) @ drop (nat (ed_cursor ed)) (vi_text ed)"
    "ed_cursor (vi_backspace ed) = ed_cursor ed - 1" "vi_ok (vi_backspace ed)"
proof -
  have i: "0 \<le> ed_cursor ed - 1" "ed_cursor ed - 1 < ed_len ed" using ok c by (auto simp: vi_ok_def)
  note d = vi_delete_text [OF ok i]
  have e: "vi_backspace ed = (vi_delete_at (ed_cursor ed - 1) ed)\<lparr>ed_cursor := ed_cursor ed - 1\<rparr>"
    using c d(3) by (simp add: vi_backspace_def Let_def)
  have n: "nat (ed_cursor ed - 1) = nat (ed_cursor ed) - 1" "nat (ed_cursor ed) - 1 + 1 = nat (ed_cursor ed)"
    using c by (simp_all add: nat_diff_distrib)
  show "vi_text (vi_backspace ed) = take (nat (ed_cursor ed) - 1) (vi_text ed) @ drop (nat (ed_cursor ed)) (vi_text ed)"
    using d(1) unfolding n by (simp add: e vi_text_def)
  show "ed_cursor (vi_backspace ed) = ed_cursor ed - 1" by (simp add: e)
  show "vi_ok (vi_backspace ed)"
    using d(2-7) ok c by (intro vi_okI) (auto simp: e vi_ok_def)
qed

lemma vi_backspace_ok: "vi_ok ed \<Longrightarrow> vi_ok (vi_backspace ed)"
  using vi_backspace_text(3) [of ed] by (cases "ed_cursor ed \<le> 0") (simp_all add: vi_backspace_def)

subsection \<open>Lines\<close>

text \<open>\<open>vi_line_start\<close> and \<open>vi_line_end\<close> find the ends of the line around a position.\<close>

lemma line_start_loop_spec:
  "0 \<le> i \<Longrightarrow> 0 \<le> line_start_loop b i \<and> line_start_loop b i \<le> i \<and>
   (\<forall>j. nat (line_start_loop b i) \<le> j \<longrightarrow> j < nat i \<longrightarrow> b ! j \<noteq> NL) \<and>
   (line_start_loop b i = 0 \<or> b ! nat (line_start_loop b i - 1) = NL)"
proof (induction b i rule: line_start_loop.induct)
  case (1 b i)
  show ?case
  proof (cases "0 < i \<and> b ! nat (i - 1) \<noteq> NL")
    case True
    then have e: "line_start_loop b i = line_start_loop b (i - 1)" by (simp add: line_start_loop.simps [of b i])
    have ih: "0 \<le> line_start_loop b (i - 1)" "line_start_loop b (i - 1) \<le> i - 1"
      "\<forall>j. nat (line_start_loop b (i - 1)) \<le> j \<longrightarrow> j < nat (i - 1) \<longrightarrow> b ! j \<noteq> NL"
      "line_start_loop b (i - 1) = 0 \<or> b ! nat (line_start_loop b (i - 1) - 1) = NL"
      using 1(1) [OF True] True by auto
    have "b ! j \<noteq> NL" if "nat (line_start_loop b (i - 1)) \<le> j" "j < nat i" for j
    proof (cases "j = nat (i - 1)")
      case False
      then have "j < nat (i - 1)" using that(2) by linarith
      then show ?thesis using ih(3) that(1) by blast
    qed (use True in blast)
    then show ?thesis using ih(1,2,4) e by auto
  next
    case False
    then have "line_start_loop b i = i" by (auto simp: line_start_loop.simps [of b i])
    with False 1(2) show ?thesis by auto
  qed
qed

lemma line_end_loop_spec:
  "0 \<le> i \<Longrightarrow> i \<le> len \<Longrightarrow> i \<le> line_end_loop b len i \<and> line_end_loop b len i \<le> len \<and>
   (\<forall>j. nat i \<le> j \<longrightarrow> j < nat (line_end_loop b len i) \<longrightarrow> b ! j \<noteq> NL) \<and>
   (line_end_loop b len i = len \<or> b ! nat (line_end_loop b len i) = NL)"
proof (induction b len i rule: line_end_loop.induct)
  case (1 b len i)
  show ?case
  proof (cases "i < len \<and> b ! nat i \<noteq> NL")
    case True
    then have e: "line_end_loop b len i = line_end_loop b len (i + 1)" by (simp add: line_end_loop.simps [of b len i])
    have ih: "i + 1 \<le> line_end_loop b len (i + 1)" "line_end_loop b len (i + 1) \<le> len"
      "\<forall>j. nat (i + 1) \<le> j \<longrightarrow> j < nat (line_end_loop b len (i + 1)) \<longrightarrow> b ! j \<noteq> NL"
      "line_end_loop b len (i + 1) = len \<or> b ! nat (line_end_loop b len (i + 1)) = NL"
      using 1(1) [OF True] 1(2) True by auto
    have "b ! j \<noteq> NL" if "nat i \<le> j" "j < nat (line_end_loop b len (i + 1))" for j
    proof (cases "j = nat i")
      case False
      then have "nat (i + 1) \<le> j" using that(1) 1(2) by linarith
      then show ?thesis using ih(3) that(2) by blast
    qed (use True in blast)
    then show ?thesis using ih(1,2,4) e by auto
  next
    case False
    then have "line_end_loop b len i = i" by (auto simp: line_end_loop.simps [of b len i])
    with False 1(2,3) show ?thesis by auto
  qed
qed

lemma vi_clamp_id: "0 \<le> idx \<Longrightarrow> idx \<le> ed_len ed \<Longrightarrow> vi_clamp ed idx = idx"
  by (simp add: vi_clamp_def)

lemma vi_line_start_le: "0 \<le> idx \<Longrightarrow> idx \<le> ed_len ed \<Longrightarrow> 0 \<le> vi_line_start ed idx \<and> vi_line_start ed idx \<le> idx"
  using line_start_loop_spec [of idx "ed_buf ed"] by (simp add: vi_line_start_def vi_clamp_id)

lemma vi_line_end_range: "0 \<le> idx \<Longrightarrow> idx \<le> ed_len ed \<Longrightarrow> idx \<le> vi_line_end ed idx \<and> vi_line_end ed idx \<le> ed_len ed"
  using line_end_loop_spec [of idx "ed_len ed" "ed_buf ed"] by (simp add: vi_line_end_def vi_clamp_id)

text \<open>Deleting the cursor's line, with its newline.\<close>

definition line_stop :: "vi_editor_t \<Rightarrow> int" where
  "line_stop ed =
     (let e = vi_line_end ed (ed_cursor ed) in if e < ed_len ed \<and> ed_buf ed ! nat e = NL then e + 1 else e)"

lemma vi_delete_line_text:
  assumes ok: "vi_ok ed"
  shows "vi_text (vi_delete_line ed) =
      take (nat (vi_line_start ed (ed_cursor ed))) (vi_text ed) @ drop (nat (line_stop ed)) (vi_text ed)"
    "vi_ok (vi_delete_line ed)" "ed_cursor (vi_delete_line ed) = vi_line_start ed (ed_cursor ed)"
proof -
  note o = ok [unfolded vi_ok_def]
  let ?A = "vi_line_start ed (ed_cursor ed)" and ?E = "line_stop ed" and ?b = "ed_buf ed"
  have AE: "0 \<le> ?A" "?A \<le> ?E" "?E \<le> ed_len ed"
    using vi_line_start_le [of "ed_cursor ed" ed] vi_line_end_range [of "ed_cursor ed" ed] o
    by (auto simp: line_stop_def Let_def)
  obtain a e l where n: "?A = int a" "?E = int e" "ed_len ed = int l"
    using AE by (metis order_trans zero_le_imp_eq_int)
  have ae: "a \<le> e" "e \<le> l" "l \<le> 16384" using AE o n by simp_all
  have lb: "length ?b = 16385" using o by simp
  have c: "take (l - (e - a)) ((mem_move a e (int (l - e)) ?b)[l - (e - a) := NUL]) = take a (take l ?b) @ drop e (take l ?b)"
    "length ((mem_move a e (int (l - e)) ?b)[l - (e - a) := NUL]) = length ?b"
    "(mem_move a e (int (l - e)) ?b)[l - (e - a) := NUL] ! (l - (e - a)) = NUL"
    using cut_text [OF ae(1,2), of ?b] lb ae by (simp_all add: of_nat_diff)
  have ls: "line_stop ed = (if vi_line_end ed (ed_cursor ed) < ed_len ed \<and> ?b ! nat (vi_line_end ed (ed_cursor ed)) = NL
      then vi_line_end ed (ed_cursor ed) + 1 else vi_line_end ed (ed_cursor ed))" by (simp add: line_stop_def Let_def)
  have "vi_text (vi_delete_line ed) = take (nat ?A) (vi_text ed) @ drop (nat ?E) (vi_text ed) \<and> vi_ok (vi_delete_line ed) \<and>
    ed_cursor (vi_delete_line ed) = ?A"
  proof (cases "?A = 0 \<and> ?E \<ge> ed_len ed")
    case True
    then have "vi_delete_line ed = (buf_put 0 NUL (ed\<lparr>ed_len := 0, ed_cursor := 0\<rparr>))\<lparr>ed_dirty := True\<rparr>"
      unfolding vi_delete_line_def Let_def ls [symmetric] by simp
    then show ?thesis using True o by (auto simp: vi_ok_def vi_text_def buf_put_def min_def nat_mono)
  next
    case False
    have x: "int l - int e = int (l - e)" "int l - (int e - int a) = int (l - (e - a))" using ae by (simp_all add: of_nat_diff)
    have bm: "buf_move (int a) (int e) (int (l - e)) ed = ed\<lparr>ed_buf := mem_move a e (int (l - e)) ?b\<rparr>"
      using lb ae by (intro buf_move_nat) simp_all
    have r: "\<not> int a > int (l - (e - a))" using ae by simp
    have lm: "length (mem_move a e (int (l - e)) ?b) = 16385" using c(2) lb by simp
    have "vi_delete_line ed = (buf_put (int (l - (e - a))) NUL
        (ed\<lparr>ed_buf := mem_move a e (int (l - e)) ?b, ed_len := int (l - (e - a)), ed_cursor := int a\<rparr>))\<lparr>ed_dirty := True\<rparr>"
    proof -
      have f: "(?A = 0 \<and> ?E \<ge> ed_len ed) = False" using False by simp
      show ?thesis unfolding vi_delete_line_def Let_def
        unfolding ls [symmetric] f if_False unfolding n x bm
        using r by (simp add: n(3) x del: of_nat_diff)
    qed
    then have e: "vi_delete_line ed = ed\<lparr>ed_buf := (mem_move a e (int (l - e)) ?b)[l - (e - a) := NUL],
        ed_len := int (l - (e - a)), ed_cursor := int a, ed_dirty := True\<rparr>"
      using lm ae by (simp add: buf_put_nat del: of_nat_diff)
    have "vi_ok (vi_delete_line ed)"
      using c(2,3) lb ae o unfolding e by (intro vi_okI) (simp_all del: of_nat_diff)
    moreover have "vi_text (vi_delete_line ed) = take a (vi_text ed) @ drop e (vi_text ed)"
      using c(1) n(3) unfolding e by (simp add: vi_text_def del: of_nat_diff)
    ultimately show ?thesis unfolding n by (simp add: e)
  qed
  then show "vi_text (vi_delete_line ed) = take (nat ?A) (vi_text ed) @ drop (nat ?E) (vi_text ed)"
    "vi_ok (vi_delete_line ed)" "ed_cursor (vi_delete_line ed) = ?A" by blast+
qed

subsection \<open>Rows and columns\<close>

text \<open>The number of newlines before a position.\<close>

definition nls :: "string \<Rightarrow> nat \<Rightarrow> nat" where
  "nls b i = length (filter (\<lambda>c. c = NL) (take i b))"

lemma nls_0 [simp]: "nls b 0 = 0"
  by (simp add: nls_def)

lemma nls_Suc: "i < length b \<Longrightarrow> nls b (Suc i) = (if b ! i = NL then nls b i + 1 else nls b i)"
  by (simp add: nls_def take_Suc_conv_app_nth)

lemma nls_mono: "i \<le> j \<Longrightarrow> nls b i \<le> nls b j"
proof -
  assume "i \<le> j"
  then have "take j b = take i b @ take (j - i) (drop i b)" by (metis le_add_diff_inverse take_add)
  then show "nls b i \<le> nls b j" by (simp add: nls_def)
qed

lemma nls_line:
  assumes "a \<le> i" "i \<le> length b" "\<And>j. a \<le> j \<Longrightarrow> j < i \<Longrightarrow> b ! j \<noteq> NL"
  shows "nls b i = nls b a"
  using assms
proof (induction i)
  case (Suc i)
  show ?case
  proof (cases "a = Suc i")
    case False
    then show ?thesis using Suc by (simp add: nls_Suc)
  qed simp
qed simp

lemma row_fold: "i \<le> length b \<Longrightarrow> fold (\<lambda>i row. if b ! i = NL then row + 1 else row) [0..<i] 0 = int (nls b i)"
proof (induction i)
  case (Suc i)
  then show ?case by (simp add: nls_Suc)
qed simp

lemma vi_cursor_row_nls: "vi_ok ed \<Longrightarrow> vi_cursor_row ed = int (nls (ed_buf ed) (nat (ed_cursor ed)))"
proof -
  assume o: "vi_ok ed"
  then have "nat (ed_cursor ed) \<le> length (ed_buf ed)" "min (ed_cursor ed) (ed_len ed) = ed_cursor ed"
    by (auto simp: vi_ok_def)
  then show ?thesis by (simp add: vi_cursor_row_def row_fold)
qed

text \<open>Where the scan for a row ends: behind its newline, or at the end of the text.\<close>

lemma skip_rows_0 [simp]: "skip_rows b len 0 p = (0, p)"
  by (simp add: skip_rows.simps [of b len 0 p])

lemma skip_rows_spec:
  assumes "0 \<le> p" "p \<le> len" "nat len \<le> length b" "0 \<le> n" "skip_rows b len n p = (m, q)"
  shows "p \<le> q \<and> q \<le> len \<and> 0 \<le> m \<and> (m = 0 \<or> q = len) \<and> int (nls b (nat q)) + m = int (nls b (nat p)) + n \<and>
    (0 < n \<longrightarrow> m = 0 \<longrightarrow> p < q \<and> b ! nat (q - 1) = NL)"
  using assms
proof (induction b len n p arbitrary: m q rule: skip_rows.induct)
  case (1 b len n p)
  show ?case
  proof (cases "0 < n \<and> p < len")
    case False
    then have "m = n" "q = p" using 1(6) by (auto simp: skip_rows.simps [of b len n p])
    then show ?thesis using False 1(3,5) by auto
  next
    case True
    let ?n = "if b ! nat p = NL then n - 1 else n"
    have e: "skip_rows b len ?n (p + 1) = (m, q)" using True 1(6) by (simp add: skip_rows.simps [of b len n p])
    have "nat (p + 1) = Suc (nat p)" "nat p < length b" using 1(2,4) True by linarith+
    then have s: "nls b (nat (p + 1)) = (if b ! nat p = NL then nls b (nat p) + 1 else nls b (nat p))"
      by (simp add: nls_Suc)
    show ?thesis
    proof (cases "?n = 0")
      case True': True
      then have "m = 0" "q = p + 1" using e by simp_all
      then show ?thesis using True True' s 1(2) by (auto split: if_splits)
    next
      case False
      have "0 \<le> p + 1" "p + 1 \<le> len" "0 \<le> ?n" "0 < ?n" using 1(2,5) True False by auto
      then show ?thesis using 1(1) [OF True _ _ 1(4) _ e] s True by (auto split: if_splits)
    qed
  qed
qed

definition row_start :: "string \<Rightarrow> nat \<Rightarrow> bool" where
  "row_start b a \<longleftrightarrow> a = 0 \<or> b ! (a - 1) = NL"

lemma row_start_less:
  assumes "row_start b q" "a < q" "q \<le> length b"
  shows "nls b a < nls b q"
proof -
  have "nls b q = nls b (q - 1) + 1" using assms nls_Suc [of "q - 1" b] by (simp add: row_start_def)
  moreover have "nls b a \<le> nls b (q - 1)" using assms by (intro nls_mono) simp
  ultimately show ?thesis by simp
qed

lemma row_start_unique:
  assumes "row_start b a" "row_start b q" "nls b a = nls b q" "a \<le> length b" "q \<le> length b"
  shows "a = q"
  using assms row_start_less [of b q a] row_start_less [of b a q] by (cases a q rule: linorder_cases) auto

lemma row_start_int: "0 \<le> q \<Longrightarrow> q = 0 \<or> b ! nat (q - 1) = NL \<Longrightarrow> row_start b (nat q)"
  by (cases "q = 0") (simp_all add: row_start_def nat_diff_distrib)

lemma vi_line_start_row:
  assumes "vi_ok ed" "0 \<le> i" "i \<le> ed_len ed"
  shows "row_start (ed_buf ed) (nat (vi_line_start ed i))"
    "nls (ed_buf ed) (nat (vi_line_start ed i)) = nls (ed_buf ed) (nat i)"
    "\<And>j. nat (vi_line_start ed i) \<le> j \<Longrightarrow> j < nat i \<Longrightarrow> ed_buf ed ! j \<noteq> NL"
proof -
  note l = line_start_loop_spec [OF assms(2), of "ed_buf ed"]
  have e: "vi_line_start ed i = line_start_loop (ed_buf ed) i" using assms by (simp add: vi_line_start_def vi_clamp_id)
  show "row_start (ed_buf ed) (nat (vi_line_start ed i))" using l unfolding e by (intro row_start_int) auto
  show nn: "ed_buf ed ! j \<noteq> NL" if "nat (vi_line_start ed i) \<le> j" "j < nat i" for j using l that by (simp add: e)
  show "nls (ed_buf ed) (nat (vi_line_start ed i)) = nls (ed_buf ed) (nat i)"
  proof -
    have "nat (vi_line_start ed i) \<le> nat i" using l by (simp add: e nat_mono)
    moreover have "nat i \<le> length (ed_buf ed)" using assms by (auto simp: vi_ok_def)
    ultimately show ?thesis by (intro nls_line [symmetric] nn) assumption+
  qed
qed

lemma vi_line_end_after:
  assumes "0 \<le> a" "a \<le> i" "i \<le> ed_len ed" "\<And>j. nat a \<le> j \<Longrightarrow> j < nat i \<Longrightarrow> ed_buf ed ! j \<noteq> NL"
  shows "i \<le> vi_line_end ed a"
proof (rule ccontr)
  assume n: "\<not> i \<le> vi_line_end ed a"
  have al: "a \<le> ed_len ed" using assms by simp
  have e: "vi_line_end ed a = line_end_loop (ed_buf ed) (ed_len ed) a" using al assms(1) by (simp add: vi_line_end_def vi_clamp_id)
  note l = line_end_loop_spec [OF assms(1) al, of "ed_buf ed", folded e]
  have "ed_buf ed ! nat (vi_line_end ed a) = NL" using l n assms(3) by auto
  moreover have "nat a \<le> nat (vi_line_end ed a)" "nat (vi_line_end ed a) < nat i" using l n assms(1) by auto
  ultimately show False using assms(4) by blast
qed

text \<open>
  The cursor's row and column determine its position. Moving the cursor to the row and the
  column it is at leaves it where it is, so the screen position and the text position agree.
\<close>

theorem cursor_row_col_roundtrip:
  assumes ok: "vi_ok ed"
  shows "vi_set_cursor_row_col (vi_cursor_row ed) (vi_cursor_col ed) ed = ed"
proof -
  note o = ok [unfolded vi_ok_def]
  let ?b = "ed_buf ed" and ?c = "ed_cursor ed" and ?a = "vi_line_start ed (ed_cursor ed)"
  have c: "0 \<le> ?c" "?c \<le> ed_len ed" using o by simp_all
  have a: "0 \<le> ?a" "?a \<le> ?c" using vi_line_start_le [OF c] by simp_all
  obtain m q where mq: "skip_rows ?b (ed_len ed) (vi_cursor_row ed) 0 = (m, q)" by fastforce
  have row: "vi_cursor_row ed = int (nls ?b (nat ?c))" using ok by (rule vi_cursor_row_nls)
  have sp: "0 \<le> q" "q \<le> ed_len ed" "0 \<le> m" "m = 0 \<or> q = ed_len ed" "int (nls ?b (nat q)) + m = int (nls ?b (nat ?c))"
    "0 < nls ?b (nat ?c) \<longrightarrow> m = 0 \<longrightarrow> ?b ! nat (q - 1) = NL"
    using skip_rows_spec [OF _ _ _ _ mq] o by (auto simp: row)
  have q0: "q = 0" if "nls ?b (nat ?c) = 0" using mq that by (simp add: row)
  have "nls ?b (nat ?c) \<le> nls ?b (nat (ed_len ed))" using c by (intro nls_mono) (simp add: nat_mono)
  then have m: "m = 0" using sp(3-5) by auto
  have rs: "row_start ?b (nat q)"
  proof (cases "nls ?b (nat ?c) = 0")
    case False
    then have "?b ! nat (q - 1) = NL" using sp(6) m by simp
    then show ?thesis using sp(1) by (intro row_start_int) simp_all
  qed (simp add: q0 row_start_def)
  have "nls ?b (nat q) = nls ?b (nat ?c)" using sp(5) m by simp
  moreover have "nat ?a \<le> length ?b" "nat q \<le> length ?b" using a sp(2) c o by auto
  ultimately have "nat ?a = nat q"
    using row_start_unique [OF vi_line_start_row(1) [OF ok c] rs] vi_line_start_row(2) [OF ok c] by simp
  then have q: "q = ?a" using a sp(1) by simp
  have "?c \<le> vi_line_end ed ?a"
    using a c(2) vi_line_start_row(3) [OF ok c] by (rule vi_line_end_after)
  then show ?thesis
    using a mq by (simp add: vi_set_cursor_row_col_def vi_cursor_col_def Let_def q row)
qed

lemma vi_set_cursor_ok:
  assumes ok: "vi_ok ed"
  shows "vi_ok (vi_set_cursor_row_col r c ed)" "vi_text (vi_set_cursor_row_col r c ed) = vi_text ed"
proof -
  note o = ok [unfolded vi_ok_def]
  obtain m q where mq: "skip_rows (ed_buf ed) (ed_len ed) (if r < 0 then 0 else r) 0 = (m, q)" by fastforce
  have q: "0 \<le> q" "q \<le> ed_len ed" using skip_rows_spec [OF _ _ _ _ mq] o by auto
  have e: "vi_set_cursor_row_col r c ed = ed\<lparr>ed_cursor := q + min (max 0 c) (vi_line_end ed q - q)\<rparr>"
    unfolding vi_set_cursor_row_col_def Let_def mq snd_conv by (simp add: min_def max_def)
  have "0 \<le> q + min (max 0 c) (vi_line_end ed q - q)" "q + min (max 0 c) (vi_line_end ed q - q) \<le> ed_len ed"
    using vi_line_end_range [OF q] q by (auto simp: min_def max_def)
  then show "vi_ok (vi_set_cursor_row_col r c ed)" "vi_text (vi_set_cursor_row_col r c ed) = vi_text ed"
    using o unfolding e by (simp_all add: vi_ok_def vi_text_def)
qed

text \<open>
  After \<open>vi_scroll\<close> the cursor is on the screen: its row is one of the 20 rows and its column
  one of the 78 columns of the window.
\<close>

theorem vi_scroll_visible:
  assumes "vi_ok ed"
  shows "ed_rowoff (vi_scroll ed) \<le> vi_cursor_row ed \<and> vi_cursor_row ed < ed_rowoff (vi_scroll ed) + int VI_SCREEN_ROWS \<and>
   ed_coloff (vi_scroll ed) \<le> vi_cursor_col ed \<and> vi_cursor_col ed < ed_coloff (vi_scroll ed) + int VI_SCREEN_COLS"
proof -
  have "0 \<le> vi_cursor_row ed" using assms by (simp add: vi_cursor_row_nls)
  moreover have "0 \<le> vi_cursor_col ed"
    using vi_line_start_le [of "ed_cursor ed" ed] assms by (simp add: vi_cursor_col_def vi_ok_def)
  ultimately show ?thesis by (auto simp: vi_scroll_def Let_def)
qed

end
