(* ===== verification/ViSession.thy ===== *)
theory ViSession
  imports ViText
begin

text \<open>
  Editing sessions: redrawing changes only what the screen remembers, every key keeps the
  editor's invariant, and a text that is typed and saved is the contents of the file.
\<close>

subsection \<open>Redrawing\<close>

definition redrawn :: "vi_editor_t \<Rightarrow> vi_editor_t \<Rightarrow> bool" where
  "redrawn ed ed' \<longleftrightarrow> length (ed_screen ed') = length (ed_screen ed) \<and>
     ed' = ed\<lparr>ed_screen := ed_screen ed', ed_status := ed_status ed', ed_rowoff := ed_rowoff ed',
       ed_coloff := ed_coloff ed', ed_cache := ed_cache ed'\<rparr>"

lemma redrawn_refl [simp]: "redrawn ed ed"
  by (simp add: redrawn_def)

lemma redrawn_fields:
  assumes "redrawn ed ed'"
  shows "ed_path ed' = ed_path ed" "ed_buf ed' = ed_buf ed" "ed_len ed' = ed_len ed" "ed_cursor ed' = ed_cursor ed"
    "ed_dirty ed' = ed_dirty ed" "ed_insert ed' = ed_insert ed" "ed_quit ed' = ed_quit ed" "ed_fault ed' = ed_fault ed"
    "vi_text ed' = vi_text ed" "vi_ok ed' = vi_ok ed"
proof -
  define scr where "scr = ed_screen ed'"
  have e: "ed' = ed\<lparr>ed_screen := scr, ed_status := ed_status ed', ed_rowoff := ed_rowoff ed',
       ed_coloff := ed_coloff ed', ed_cache := ed_cache ed'\<rparr>" and l: "length scr = length (ed_screen ed)"
    using assms by (simp_all add: redrawn_def scr_def)
  show "ed_path ed' = ed_path ed" "ed_buf ed' = ed_buf ed" "ed_len ed' = ed_len ed" "ed_cursor ed' = ed_cursor ed"
    "ed_dirty ed' = ed_dirty ed" "ed_insert ed' = ed_insert ed" "ed_quit ed' = ed_quit ed" "ed_fault ed' = ed_fault ed"
    by (subst e, simp)+
  then show "vi_text ed' = vi_text ed" "vi_ok ed' = vi_ok ed"
    using l by (simp_all add: vi_text_def vi_ok_def scr_def)
qed

lemma redrawnI:
  assumes "length (ed_screen ed') = length (ed_screen ed)" "ed_path ed' = ed_path ed" "ed_buf ed' = ed_buf ed"
    "ed_len ed' = ed_len ed" "ed_cursor ed' = ed_cursor ed" "ed_dirty ed' = ed_dirty ed"
    "ed_insert ed' = ed_insert ed" "ed_quit ed' = ed_quit ed" "ed_fault ed' = ed_fault ed"
  shows "redrawn ed ed'"
  using assms unfolding redrawn_def by simp

lemma redrawn_trans [trans]:
  assumes "redrawn ed ed'" "redrawn ed' ed''"
  shows "redrawn ed ed''"
proof (rule redrawnI)
  show "length (ed_screen ed'') = length (ed_screen ed)" using assms by (simp add: redrawn_def)
qed (simp_all add: redrawn_fields [OF assms(1)] redrawn_fields [OF assms(2)])

lemma kprintf_esc_d: "\<exists>u'. kprintf (esc ''[%d;1H'') [ArgL x] u = Some u'"
  by (simp add: esc_def)

lemma kprintf_esc_dd: "\<exists>u'. kprintf (esc ''[%d;%dH'') [ArgL x, ArgL y] u = Some u'"
  by (simp add: esc_def)

lemma draw_status_total: "\<exists>u'. vi_draw_status ed msg u = Some u'"
  by (simp add: vi_draw_status_def)

lemma render_row_redrawn: "\<exists>idx' ed' u'. render_row row (idx, ed, u) = Some (idx', ed', u') \<and> redrawn ed ed'"
proof -
  obtain line i where l: "vi_build_screen_line ed idx = (line, i)" by fastforce
  obtain u' where u': "kprintf (esc ''[%d;1H'') [ArgL (of_nat (row + 1))] u = Some u'" using kprintf_esc_d by blast
  have "redrawn ed (ed\<lparr>ed_screen := (ed_screen ed)[row := str_copy_limit line (VI_SCREEN_COLS + 2)]\<rparr>)"
    by (rule redrawnI) simp_all
  then show ?thesis unfolding render_row_def Let_def prod.case l u' by simp
qed

lemma render_rows_redrawn: "\<exists>idx' ed' u'. render_rows rs (idx, ed, u) = Some (idx', ed', u') \<and> redrawn ed ed'"
proof (induction rs arbitrary: idx ed u)
  case (Cons r rs)
  obtain i1 e1 u1 where r: "render_row r (idx, ed, u) = Some (i1, e1, u1)" "redrawn ed e1"
    using render_row_redrawn by blast
  obtain i2 e2 u2 where rr: "render_rows rs (i1, e1, u1) = Some (i2, e2, u2)" "redrawn e1 e2"
    using Cons.IH by blast
  then show ?case using r redrawn_trans [OF r(2) rr(2)] by simp
qed simp

lemma vi_render_redrawn: "\<exists>ed' u'. vi_render msg (ed, u) = Some (ed', u') \<and> redrawn ed ed'"
proof -
  define e0 where "e0 = vi_scroll ed"
  have r0: "redrawn ed e0" unfolding e0_def vi_scroll_def Let_def by (rule redrawnI) simp_all
  obtain i1 e1 u1 where r1: "render_rows [0..<VI_SCREEN_ROWS]
      (snd (skip_rows (ed_buf e0) (ed_len e0) (ed_rowoff e0) 0), e0, uart_puts (esc ''[?25l'') u) = Some (i1, e1, u1)"
    "redrawn e0 e1" using render_rows_redrawn by blast
  let ?st = "vi_build_status e1 msg 128"
  let ?rd = "\<not> ed_cache e1 \<or> \<not> str_eq_limit (ed_status e1) ?st"
  define e2 where "e2 = (if ?rd then e1\<lparr>ed_status := str_copy_limit ?st 128\<rparr> else e1)\<lparr>ed_cache := True\<rparr>"
  have r2: "redrawn e1 e2" unfolding e2_def by (rule redrawnI) simp_all
  obtain u2 where u2: "(if ?rd then vi_draw_status e1 msg u1 else Some u1) = Some u2"
    using draw_status_total [of e1 msg u1] by (cases ?rd) auto
  have "\<exists>u'. vi_render msg (ed, u) = Some (e2, u')"
    unfolding vi_render_def Let_def prod.case
    by (simp only: r1(1) u2 Option.bind.simps prod.case flip: e0_def e2_def) (simp add: esc_def)
  then show ?thesis using redrawn_trans [OF redrawn_trans [OF r0 r1(2)] r2] by blast
qed

lemma sh_render_redrawn:
  obtains ed' u' where "sh_render msg (ed, s) = Some (ed', s\<lparr>sh_con := u'\<rparr>)" "redrawn ed ed'"
  using vi_render_redrawn [of msg ed "sh_con s"] by (auto simp: sh_render_def)

subsection \<open>Every key keeps the editor and the file system sound\<close>

lemma vi_ok_cursor: "vi_ok ed \<Longrightarrow> 0 \<le> c \<Longrightarrow> c \<le> ed_len ed \<Longrightarrow> vi_ok (ed\<lparr>ed_cursor := c\<rparr>)"
  by (simp add: vi_ok_def)

lemma vi_ok_flags [simp]:
  "vi_ok (ed\<lparr>ed_insert := b\<rparr>) = vi_ok ed" "vi_ok (ed\<lparr>ed_quit := b\<rparr>) = vi_ok ed" "vi_ok (ed\<lparr>ed_dirty := b\<rparr>) = vi_ok ed"
  by (simp_all add: vi_ok_def)

lemma vi_moves_ok [inv_intros]:
  assumes "vi_ok ed"
  shows "vi_ok (vi_move_left ed)" "vi_ok (vi_move_right ed)" "vi_ok (vi_move_up ed)" "vi_ok (vi_move_down ed)"
proof -
  note c = vi_okD(3,5) [OF assms]
  show "vi_ok (vi_move_left ed)" using assms c by (auto simp: vi_move_left_def intro: vi_ok_cursor)
  show "vi_ok (vi_move_right ed)" using assms c by (auto simp: vi_move_right_def intro!: vi_ok_cursor)
  show "vi_ok (vi_move_up ed)" using assms by (simp add: vi_move_up_def vi_set_cursor_ok)
  show "vi_ok (vi_move_down ed)" using assms by (simp add: vi_move_down_def vi_set_cursor_ok)
qed

lemma vi_delete_at_ok:
  assumes "vi_ok ed"
  shows "vi_ok (let ed = vi_delete_at (ed_cursor ed) ed in if ed_cursor ed > ed_len ed then ed\<lparr>ed_cursor := ed_len ed\<rparr> else ed)"
proof (cases "ed_cursor ed < ed_len ed")
  case True
  note d = vi_delete_text [OF assms vi_okD(5) [OF assms] True]
  show ?thesis using d assms True by (auto simp: Let_def vi_ok_def)
next
  case False
  then have "vi_delete_at (ed_cursor ed) ed = ed" by (simp add: vi_delete_at_def)
  then show ?thesis using assms by (simp add: Let_def vi_ok_def)
qed

lemma vi_insert_key_ok [inv_intros]: "vi_ok ed \<Longrightarrow> vi_ok (vi_insert_key c ed)"
  using vi_moves_ok vi_insert_ok vi_backspace_ok by (auto simp: vi_insert_key_def Let_def)

lemma vi_normal_key_ok [inv_intros]:
  assumes ok: "vi_ok ed"
  shows "vi_ok (vi_normal_key c ed)"
proof -
  note c = vi_okD(5,3) [OF ok]
  have ls: "vi_ok (ed\<lparr>ed_cursor := vi_line_start ed (ed_cursor ed)\<rparr>)" "vi_ok (ed\<lparr>ed_cursor := vi_line_end ed (ed_cursor ed)\<rparr>)"
    using vi_line_start_le [OF c] vi_line_end_range [OF c] c ok by (auto intro!: vi_ok_cursor)
  have a: "vi_ok (if ed_cursor ed < ed_len ed then ed\<lparr>ed_cursor := ed_cursor ed + 1\<rparr> else ed)"
    using ok c by (auto intro!: vi_ok_cursor)
  show ?thesis
    unfolding vi_normal_key_def
    using ok ls a vi_moves_ok [OF ok] vi_delete_at_ok [OF ok] vi_insert_ok [OF ls(2)] by (simp only: vi_ok_flags split: if_split) simp
qed

definition session_ok :: "vi_editor_t \<times> shell \<Rightarrow> bool" where
  "session_ok st \<longleftrightarrow> vi_ok (fst st) \<and> fs_ok (sh_vfs (snd st))"

lemma vi_save_ok:
  assumes "session_ok (ed, s)" "vi_save bufp (ed, s) = Some (r, ed', s')"
  shows "session_ok (ed', s')"
proof -
  have I: "fs_ok (sh_vfs s)" and ln: "0 \<le> ed_len ed" using assms(1) vi_okD(6) by (simp_all add: session_ok_def)
  from assms(2) obtain fd v where o: "vfs_open (ed_path ed) 21 (sh_vfs s) = Some (fd, v)"
    by (auto simp: vi_save_def split: bind_splits)
  note I' = fs_ok_ops(5) [OF I o]
  let ?v = "upd_mem (\<lambda>m. mwrite m bufp (bytes_of (take (nat (ed_len ed)) (ed_buf ed)))) v"
  obtain n w where w: "vfs_write fd bufp (ed_len ed) ?v = (n, w)" by fastforce
  have "fs_ok w" using fs_ok_ops(3) [OF fs_ok_ops(2) [OF I'], of "ed_len ed" fd bufp] w ln by (metis snd_conv)
  then have "fs_ok (vfs_close fd w)" by (rule fs_ok_ops)
  with I' assms show ?thesis
    by (auto simp: vi_save_def o w Let_def session_ok_def split: if_splits)
qed

lemma sh_render_ok:
  assumes "session_ok (ed, s)" "sh_render msg (ed, s) = Some (ed', s')"
  shows "session_ok (ed', s')"
proof -
  obtain e u where "sh_render msg (ed, s) = Some (e, s\<lparr>sh_con := u\<rparr>)" "redrawn ed e" by (rule sh_render_redrawn)
  then show ?thesis using assms by (simp add: session_ok_def redrawn_fields)
qed

lemma prompt_loop_vfs:
  assumes "prompt_loop cmd s = Some rs"
  shows "sh_vfs (snd rs) = sh_vfs s"
  using _ assms
proof (rule prompt_loop.raw_induct)
  fix rec cmd s rs
  assume ih: "\<And>cmd s rs. rec cmd s = Some rs \<Longrightarrow> sh_vfs (snd rs) = sh_vfs s"
    and e: "(if length cmd < 15
      then do {
        (c, t) \<leftarrow> vi_read_key (sh_in s);
        let s = s\<lparr>sh_in := t\<rparr>
        in if c = 13 \<or> c = 10 then Some (Some cmd, s)
           else if c = 27 then Some (None, s)
           else if (c = 8 \<or> c = 127) \<and> cmd \<noteq> [] then rec (butlast cmd) (sh_puts [CHR 0x08, CHR '' '', CHR 0x08] s)
           else if c < 32 \<or> c > 126 then rec cmd s
           else rec (cmd @ [char_of (nat c)]) (s\<lparr>sh_con := uart_putc (char_of (nat c)) (sh_con s)\<rparr>)
      }
      else Some (Some cmd, s)) = Some rs"
  show "sh_vfs (snd rs) = sh_vfs s"
  proof (cases "length cmd < 15")
    case True
    then obtain c t where r: "vi_read_key (sh_in s) = Some (c, t)" using e by (cases "vi_read_key (sh_in s)") auto
    show ?thesis using ih e [unfolded r Let_def] True
      by (cases rs) (auto simp: sh_puts_def split: if_splits dest!: ih)
  next
    case False
    then show ?thesis using e by auto
  qed
qed

lemma session_ok_flags:
  "session_ok (ed, s) \<Longrightarrow> session_ok (ed\<lparr>ed_quit := b\<rparr>, s)" "session_ok (ed, s) \<Longrightarrow> session_ok (ed\<lparr>ed_insert := b\<rparr>, s)"
  "session_ok (ed, s\<lparr>sh_in := t\<rparr>) = session_ok (ed, s)" "session_ok (ed, s\<lparr>sh_con := u\<rparr>) = session_ok (ed, s)"
  by (simp_all add: session_ok_def)

lemma render_pair_ok:
  assumes "session_ok (ed, s)" "map_option (Pair p) (sh_render msg (ed, s)) = Some (p', ed', s')"
  shows "session_ok (ed', s')"
  using assms sh_render_ok by (auto simp: map_option_case split: option.splits)

lemma if_SomeE:
  "(if P then a else b) = Some x \<Longrightarrow> (P \<Longrightarrow> a = Some x \<Longrightarrow> R) \<Longrightarrow> (\<not> P \<Longrightarrow> b = Some x \<Longrightarrow> R) \<Longrightarrow> R"
  by (cases P) simp_all

lemma vi_command_ok:
  assumes ok: "session_ok (ed, s)" and e: "vi_command bufp cmd (ed, s) = Some (ed', s')"
  shows "session_ok (ed', s')"
proof -
  note q = session_ok_flags(1) [OF ok, of True]
  consider (w) "vi_save bufp (ed, s) \<bind> (\<lambda>(r, st). sh_render (Some (if r < 0 then ''write failed'' else ''written'')) st) = Some (ed', s')"
    | (wq) "vi_save bufp (ed, s) \<bind> (\<lambda>(r, ed, s). if r < 0 then sh_render (Some ''write failed'') (ed, s)
      else Some (ed\<lparr>ed_quit := True\<rparr>, s)) = Some (ed', s')"
    | (r) msg where "sh_render msg (ed, s) = Some (ed', s')"
    | (quit) "Some (ed\<lparr>ed_quit := True\<rparr>, s) = Some (ed', s')"
    using e unfolding vi_command_def Let_def prod.case by (elim if_SomeE) (erule that)+
  then show ?thesis
  proof cases
    case w
    then obtain r e t where "vi_save bufp (ed, s) = Some (r, e, t)"
      "sh_render (Some (if r < 0 then ''write failed'' else ''written'')) (e, t) = Some (ed', s')"
      by (auto split: bind_splits)
    then show ?thesis using vi_save_ok [OF ok] sh_render_ok by blast
  next
    case wq
    then obtain r e t where s: "vi_save bufp (ed, s) = Some (r, e, t)"
      and k: "(if r < 0 then sh_render (Some ''write failed'') (e, t) else Some (e\<lparr>ed_quit := True\<rparr>, t)) = Some (ed', s')"
      by (auto split: bind_splits)
    note o = vi_save_ok [OF ok s]
    show ?thesis using k sh_render_ok [OF o] session_ok_flags(1) [OF o] by (auto split: if_splits)
  next
    case r
    then show ?thesis using sh_render_ok [OF ok] by blast
  next
    case quit
    then show ?thesis using q by simp
  qed
qed

lemma vi_command_prompt_ok:
  assumes ok: "session_ok (ed, s)" and e: "vi_command_prompt bufp (ed, s) = Some (ed', s')"
  shows "session_ok (ed', s')"
proof -
  from e obtain u r t where p: "prompt_loop [] (s\<lparr>sh_con := u\<rparr>) = Some (r, t)"
    and c: "(case r of None \<Rightarrow> Some (ed, t) | Some cmd \<Rightarrow> vi_command bufp cmd (ed, t)) = Some (ed', s')"
    by (auto simp: vi_command_prompt_def split: bind_splits)
  have "session_ok (ed, t)" using prompt_loop_vfs [OF p] ok by (simp add: session_ok_def)
  then show ?thesis using c vi_command_ok by (auto split: option.splits)
qed

lemma vi_key_ok:
  assumes ok: "session_ok (ed, s)" and e: "vi_key bufp c (p, ed, s) = Some (p', ed', s')"
  shows "session_ok (ed', s')"
proof -
  have vo: "vi_ok ed" and fo: "fs_ok (sh_vfs s)" using ok by (simp_all add: session_ok_def)
  consider (quit) "(ed', s') = (ed\<lparr>ed_quit := True\<rparr>, s)"
    | (draw) x q msg where "vi_ok x" "map_option (Pair q) (sh_render msg (x, s)) = Some (p', ed', s')"
    | (zz) q q' where "vi_save bufp (ed, s) \<bind> (\<lambda>(r, ed, s).
        if r < 0 then map_option (Pair q) (sh_render (Some ''write failed'') (ed, s))
        else Some (q', ed\<lparr>ed_quit := True\<rparr>, s)) = Some (p', ed', s')"
    | (colon) q where "vi_command_prompt bufp (ed, s) \<bind> (\<lambda>(ed, s).
        if \<not> ed_quit ed then map_option (Pair q) (sh_render None (ed, s)) else Some (q, ed, s)) = Some (p', ed', s')"
  proof -
    have i: "vi_ok (ed\<lparr>ed_insert := False\<rparr>)" using vo by simp
    show thesis
      using e that(1) that(2) [OF vo] that(2) [OF i] that(2) [OF vi_insert_key_ok [OF vo]]
        that(2) [OF vi_normal_key_ok [OF vo]] that(2) [OF vi_delete_line_text(2) [OF vo]] that(3,4)
      unfolding vi_key_def Let_def prod.case by (auto simp only: split: if_splits)
  qed
  then show ?thesis
  proof cases
    case quit
    then show ?thesis using session_ok_flags(1) [OF ok, of True] by simp
  next
    case draw
    then show ?thesis using fo by (intro render_pair_ok [OF _ draw(2)]) (simp add: session_ok_def)
  next
    case zz
    then obtain r x t where s: "vi_save bufp (ed, s) = Some (r, x, t)"
      and k: "(if r < 0 then map_option (Pair q) (sh_render (Some ''write failed'') (x, t))
        else Some (q', x\<lparr>ed_quit := True\<rparr>, t)) = Some (p', ed', s')"
      by (auto split: bind_splits)
    note o = vi_save_ok [OF ok s]
    show ?thesis using k
      by (rule if_SomeE) (erule render_pair_ok [OF o], use session_ok_flags(1) [OF o] in auto)
  next
    case colon
    then obtain x t where s: "vi_command_prompt bufp (ed, s) = Some (x, t)"
      and k: "(if \<not> ed_quit x then map_option (Pair q) (sh_render None (x, t)) else Some (q, x, t)) = Some (p', ed', s')"
      by (auto split: bind_splits)
    note o = vi_command_prompt_ok [OF ok s]
    show ?thesis using k by (rule if_SomeE) (erule render_pair_ok [OF o], use o in auto)
  qed
qed

text \<open>
  C11: no sequence of keys can corrupt the editor or the file system. If the editor is sound when
  the command loop starts and the loop is left, then, whatever was typed, no store fell outside
  the text array (\<open>ed_fault\<close>, which nothing clears, is not set), the cursor is neither negative nor
  behind the text, the text length is at most 16384, the text is terminated in its buffer, and
  the file system is consistent.
\<close>

theorem vi_session_safe:
  assumes "session_ok (ed, s)" "vi_loop bufp (p, ed, s) = Some (p', ed', s')"
  shows "session_ok (ed', s') \<and> ed_quit ed'"
proof -
  have "session_ok (snd st) \<longrightarrow> session_ok (snd st') \<and> ed_quit (fst (snd st'))" if "vi_loop bufp st = Some st'" for st st'
    using _ that
  proof (rule vi_loop.raw_induct)
    fix rec bufp and st st' :: "vi_pending \<times> vi_editor_t \<times> shell"
    assume ih: "\<And>bufp st st'. rec bufp st = Some st' \<Longrightarrow> session_ok (snd st) \<longrightarrow> session_ok (snd st') \<and> ed_quit (fst (snd st'))"
      and e: "(let (p, ed, s) = st
        in if ed_quit ed then Some st
           else do {
             (c, t) \<leftarrow> vi_read_key (sh_in s);
             st \<leftarrow> vi_key bufp c (p, ed, s\<lparr>sh_in := t\<rparr>);
             rec bufp st
           }) = Some st'"
    obtain p ed s where st: "st = (p, ed, s)" by (cases st)
    show "session_ok (snd st) \<longrightarrow> session_ok (snd st') \<and> ed_quit (fst (snd st'))"
    proof (cases "ed_quit ed")
      case True
      then show ?thesis using e st by auto
    next
      case False
      then obtain c t st1 where k: "vi_key bufp c (p, ed, s\<lparr>sh_in := t\<rparr>) = Some st1" "rec bufp st1 = Some st'"
        using e st by (auto split: bind_splits)
      obtain p1 e1 s1 where st1: "st1 = (p1, e1, s1)" by (cases st1)
      have "session_ok (e1, s1)" if "session_ok (ed, s)"
        using vi_key_ok [OF _ k(1) [unfolded st1]] that by (simp add: session_ok_flags)
      then show ?thesis using ih [OF k(2)] st st1 by simp
    qed
  qed
  from this [OF assms(2)] show ?thesis using assms(1) by simp
qed

subsection \<open>Typing and saving\<close>

lemma vi_loop_key:
  assumes "\<not> ed_quit ed" "vi_read_key (sh_in s) = Some (c, t)" "vi_key bufp c (p, ed, s\<lparr>sh_in := t\<rparr>) = Some st"
  shows "vi_loop bufp (p, ed, s) = vi_loop bufp st"
  by (subst vi_loop.simps) (simp add: assms)

lemma vi_loop_quit: "ed_quit ed \<Longrightarrow> vi_loop bufp (p, ed, s) = Some (p, ed, s)"
  by (subst vi_loop.simps) simp

definition typeable :: "char \<Rightarrow> bool" where
  "typeable c \<longleftrightarrow> c = NL \<or> 32 \<le> (of_char c :: int) \<and> (of_char c :: int) \<le> 126"

text \<open>The key that enters a character: return for a newline.\<close>

definition key_of :: "char \<Rightarrow> int" where
  "key_of c = (if c = NL then 13 else of_char c)"

lemma vi_insert_key_char:
  assumes "typeable c"
  shows "vi_insert_key (key_of c) ed = vi_insert_char c ed" "key_of c \<noteq> 3 \<and> key_of c \<noteq> 17 \<and> key_of c \<noteq> 27"
proof -
  show "vi_insert_key (key_of c) ed = vi_insert_char c ed"
    using assms by (auto simp: vi_insert_key_def key_of_def typeable_def Let_def)
  show "key_of c \<noteq> 3 \<and> key_of c \<noteq> 17 \<and> key_of c \<noteq> 27"
    using assms by (auto simp: key_of_def typeable_def)
qed

lemma vi_insert_fields:
  "ed_insert (vi_insert_char c ed) = ed_insert ed" "ed_quit (vi_insert_char c ed) = ed_quit ed"
  "ed_path (vi_insert_char c ed) = ed_path ed"
  by (simp_all add: vi_insert_char_def buf_put_def buf_move_def Let_def)

text \<open>The editor after \<open>w\<close> was entered at the cursor of \<open>ed\<close>.\<close>

definition entered :: "string \<Rightarrow> vi_editor_t \<Rightarrow> vi_editor_t \<Rightarrow> bool" where
  "entered w ed ed' \<longleftrightarrow> vi_ok ed' \<and> vi_text ed' = take (nat (ed_cursor ed)) (vi_text ed) @ w @ drop (nat (ed_cursor ed)) (vi_text ed) \<and>
     ed_cursor ed' = ed_cursor ed + int (length w) \<and> ed_path ed' = ed_path ed \<and> ed_insert ed' = ed_insert ed \<and> ed_quit ed' = ed_quit ed"

lemma entered_snoc:
  assumes "vi_ok ed" "entered w ed ed'" "ed_len ed + int (length w) < VI_MAX_TEXT" "redrawn (vi_insert_char c ed') ed''"
  shows "entered (w @ [c]) ed ed''"
proof -
  note e = assms(2) [unfolded entered_def]
  obtain k l where k: "ed_cursor ed = int k" "ed_len ed = int l" "k \<le> l" "l \<le> 16384"
    using assms(1) by (rule vi_ok_nat)
  have l: "length (vi_text ed) = l" using vi_okD(4) [OF assms(1)] k(2) by simp
  have k': "nat (ed_cursor ed) = k" "nat (ed_cursor ed') = k + length w" using e k(1) by (simp_all add: nat_add_distrib)
  have "vi_ok ed'" using e by blast
  then have "length (vi_text ed') = nat (ed_len ed')" "0 \<le> ed_len ed'" using vi_okD(4,6) by blast+
  moreover have "length (vi_text ed') = length w + l" using e l k(3) k' by simp
  ultimately have "ed_len ed' < VI_MAX_TEXT" using k(2) assms(3) by simp
  note i = vi_insert_text [OF \<open>vi_ok ed'\<close> this, of c]
  have "take (nat (ed_cursor ed')) (vi_text ed') = take (nat (ed_cursor ed)) (vi_text ed) @ w"
    "drop (nat (ed_cursor ed')) (vi_text ed') = drop (nat (ed_cursor ed)) (vi_text ed)" using e l k(3) unfolding k' by simp_all
  then show ?thesis
    using e i redrawn_fields [OF assms(4)] by (simp add: entered_def vi_insert_fields)
qed

text \<open>Reading keys one after the other while the loop runs.\<close>

lemma read_keys_Cons:
  assumes "read_keys (Suc n) t = Some (k # ks, t')"
  obtains t1 where "vi_read_key t = Some (k, t1)" "read_keys n t1 = Some (ks, t')"
  using assms by (auto split: bind_splits)

lemma length_read_keys: "read_keys n t = Some (ks, t') \<Longrightarrow> length ks = n"
  by (induction n arbitrary: t ks) (auto split: bind_splits)

lemma type_keys:
  assumes "vi_ok ed0" "ed_len ed0 + int (length w0 + length w) \<le> VI_MAX_TEXT" "entered w0 ed0 ed" "ed_insert ed0" "\<not> ed_quit ed0"
    and "\<forall>c \<in> set w. typeable c" "read_keys (length w + n) (sh_in s) = Some (map key_of w @ ks, t')"
  shows "\<exists>ed' u t. vi_loop bufp (p, ed, s) = vi_loop bufp (p, ed', s\<lparr>sh_in := t, sh_con := u\<rparr>) \<and> entered (w0 @ w) ed0 ed' \<and>
    read_keys n t = Some (ks, t')"
  using assms
proof (induction w arbitrary: w0 ed s)
  case Nil
  then show ?case by (intro exI [of _ ed] exI [of _ "sh_con s"] exI [of _ "sh_in s"]) simp
next
  case (Cons c w)
  have ty: "typeable c" "\<forall>c \<in> set w. typeable c" using Cons.prems(6) by simp_all
  have "read_keys (Suc (length w + n)) (sh_in s) = Some (key_of c # (map key_of w @ ks), t')"
    using Cons.prems(7) by (simp del: read_keys.simps)
  then obtain t1 where t1: "vi_read_key (sh_in s) = Some (key_of c, t1)" "read_keys (length w + n) t1 = Some (map key_of w @ ks, t')"
    by (rule read_keys_Cons)
  have f: "ed_insert ed" "\<not> ed_quit ed" using Cons.prems(3-5) by (simp_all add: entered_def)
  let ?s = "s\<lparr>sh_in := t1\<rparr>"
  obtain ed1 u1 where r: "sh_render None (vi_insert_char c ed, ?s) = Some (ed1, ?s\<lparr>sh_con := u1\<rparr>)" "redrawn (vi_insert_char c ed) ed1"
    by (rule sh_render_redrawn)
  have k: "vi_key bufp (key_of c) (p, ed, ?s) = Some (p, ed1, ?s\<lparr>sh_con := u1\<rparr>)"
    using f r(1) vi_insert_key_char(1) [OF ty(1), of ed] vi_insert_key_char(2) [OF ty(1)] by (simp add: vi_key_def)
  have e1: "entered (w0 @ [c]) ed0 ed1" using Cons.prems(1-3) r(2) by (intro entered_snoc) simp_all
  let ?s1 = "?s\<lparr>sh_con := u1\<rparr>"
  obtain ed' u t where ih: "vi_loop bufp (p, ed1, ?s1) = vi_loop bufp (p, ed', ?s1\<lparr>sh_in := t, sh_con := u\<rparr>)"
    "entered ((w0 @ [c]) @ w) ed0 ed'" "read_keys n t = Some (ks, t')"
    using Cons.IH [OF Cons.prems(1) _ e1 Cons.prems(4,5) ty(2), of ?s1] t1(2) Cons.prems(2) by auto
  show ?case
    using vi_loop_key [OF f(2) t1(1) k] ih by (intro exI [of _ ed'] exI [of _ u] exI [of _ t]) simp
qed

text \<open>Saving writes the text to the file.\<close>

lemma vi_save_file:
  assumes ok: "vi_ok ed" and I: "fs_ok (sh_vfs s)"
    and o: "vfs_open (ed_path ed) 21 (sh_vfs s) = Some (fd, v)" "0 \<le> fd" "finode (fds v ! nat fd) = int i"
    and b: "apart bufp 16384 (idata (inodes v ! i)) 16384" "unat bufp + 16384 \<le> 2 ^ 64"
  obtains w where "vi_save bufp (ed, s) = Some (0, ed\<lparr>ed_dirty := False\<rparr>, s\<lparr>sh_vfs := w\<rparr>)"
    "file_bytes w i = bytes_of (vi_text ed)" "fs_ok w"
proof -
  obtain d L where inv: "vfs_inv d L (sh_vfs s)" using I by (auto simp: fs_ok_def)
  obtain i' d1 L1 where v: "vfs_inv d1 L1 v" "opened v fd i' 21" "isize (inodes v ! i') = 0"
    by (rule vfs_open_write [OF inv o(1,2)])
  have i': "i' = i" using v(2) o(3) by (simp add: opened_def)
  define bs where "bs = bytes_of (vi_text ed)"
  let ?v = "upd_mem (\<lambda>m. mwrite m bufp bs) v"
  have l: "length bs = nat (ed_len ed)" "length bs \<le> 16384" "ed_len ed = int (length bs)"
    using vi_okD [OF ok] by (simp_all add: bytes_of_def bs_def nat_le_iff)
  obtain n x where w: "vfs_write fd bufp (int (length bs)) ?v = (n, x)" by fastforce
  have op: "opened ?v fd i 21" using v(2) by (simp add: opened_def bad_fd_def i')
  have "mread (mem (vheap ?v)) bufp (length bs) = bs"
    using mread_mwrite_same [of bs "mem (vheap v)" bufp] l(2) by simp
  note W = write_whole [OF _ op _ _ l(2) _ _ this w]
  have ap: "apart bufp (length bs) (idata (inodes ?v ! i)) 16384" "unat bufp + length bs \<le> 2 ^ 64"
    using b l(2) by (auto simp: apart_def)
  have W': "n = int (length bs)" "file_bytes (vfs_close fd x) i = bs" "vfs_inv d1 L1 (vfs_close fd x)"
    using W(1-3) [of d1 L1] v(1,3) ap by (simp_all add: i')
  have "vi_save bufp (ed, s) = Some (0, ed\<lparr>ed_dirty := False\<rparr>, s\<lparr>sh_vfs := vfs_close fd x\<rparr>)"
    using o(2) w W'(1) unfolding vi_save_def vi_text_def [symmetric] by (simp add: o(1) l(3) Let_def flip: bs_def)
  then show thesis using that W'(2,3) by (auto simp: fs_ok_def bs_def)
qed

text \<open>
  C10: a text that is typed and saved is what the file then holds. From normal mode the keys
  \<open>i\<close>, the text with return for each newline, escape, \<open>Z\<close>, \<open>Z\<close> leave the editor with the text
  inserted at the cursor, and the file's contents are exactly the edited text, whenever it
  fits into 16384 characters and the file can be opened.
\<close>

theorem vi_type_and_save:
  assumes ok: "vi_ok ed" "\<not> ed_insert ed" "\<not> ed_quit ed" "fs_ok (sh_vfs s)"
    and w: "\<forall>c \<in> set w. typeable c" "ed_len ed + int (length w) \<le> VI_MAX_TEXT"
    and keys: "ks = of_char CHR ''i'' # map key_of w @ [27, of_char CHR ''Z'', of_char CHR ''Z'']"
      "read_keys (length ks) (sh_in s) = Some (ks, t')"
    and o: "vfs_open (ed_path ed) 21 (sh_vfs s) = Some (fd, v)" "0 \<le> fd" "finode (fds v ! nat fd) = int i"
    and b: "apart bufp 16384 (idata (inodes v ! i)) 16384" "unat bufp + 16384 \<le> 2 ^ 64"
  shows "\<exists>p' ed' s'. vi_loop bufp (p, ed, s) = Some (p', ed', s') \<and> ed_quit ed' \<and> sh_in s' = t' \<and> fs_ok (sh_vfs s') \<and>
    file_bytes (sh_vfs s') i = bytes_of (take (nat (ed_cursor ed)) (vi_text ed) @ w @ drop (nat (ed_cursor ed)) (vi_text ed))"
proof -
  let ?z = "of_char CHR ''Z'' :: int" and ?i = "of_char CHR ''i'' :: int"
  have z: "?z = 90" "?i = 105" by simp_all
  have "read_keys (Suc (length w + 3)) (sh_in s) = Some (?i # (map key_of w @ [27, ?z, ?z]), t')"
    using keys by (simp add: numeral_eq_Suc del: read_keys.simps)
  then obtain t1 where t1: "vi_read_key (sh_in s) = Some (?i, t1)" "read_keys (length w + 3) t1 = Some (map key_of w @ [27, ?z, ?z], t')"
    by (rule read_keys_Cons)
  let ?ei = "ed\<lparr>ed_insert := True\<rparr>" and ?s1 = "s\<lparr>sh_in := t1\<rparr>"
  obtain e1 u1 where r1: "sh_render None (?ei, ?s1) = Some (e1, ?s1\<lparr>sh_con := u1\<rparr>)" "redrawn ?ei e1" by (rule sh_render_redrawn)
  define p1 where "p1 = \<lparr>pending_d = False, pending_z = False, quit_confirm = False\<rparr>"
  have k1: "vi_key bufp ?i (p, ed, ?s1) = Some (p1, e1, ?s1\<lparr>sh_con := u1\<rparr>)"
    using ok(2) r1(1) by (simp add: vi_key_def vi_normal_key_def p1_def)
  have en0: "entered [] ?ei e1"
    using redrawn_fields [OF r1(2)] ok(1) by (simp add: entered_def)
  have tx: "vi_text ?ei = vi_text ed" by (simp add: vi_text_def)
  obtain e2 u2 t2 where l2: "vi_loop bufp (p1, e1, ?s1\<lparr>sh_con := u1\<rparr>) = vi_loop bufp (p1, e2, ?s1\<lparr>sh_con := u1, sh_in := t2, sh_con := u2\<rparr>)"
    "entered w ?ei e2" "read_keys 3 t2 = Some ([27, ?z, ?z], t')"
    using type_keys [of ?ei "[]" w e1 3 "?s1\<lparr>sh_con := u1\<rparr>" "[27, ?z, ?z]" t' bufp p1] ok w t1(2) en0 by auto
  define s2 where "s2 = s\<lparr>sh_in := t2, sh_con := u2\<rparr>"
  have s2: "?s1\<lparr>sh_con := u1, sh_in := t2, sh_con := u2\<rparr> = s2" "sh_in s2 = t2" "sh_vfs s2 = sh_vfs s" by (simp_all add: s2_def)
  obtain t3 t4 where t3: "vi_read_key t2 = Some (27, t3)" "vi_read_key t3 = Some (?z, t4)" "vi_read_key t4 = Some (?z, t')"
    using l2(3) by (auto simp: numeral_eq_Suc split: bind_splits)
  have e2: "vi_ok e2" "ed_insert e2" "\<not> ed_quit e2" "ed_path e2 = ed_path ed"
    "vi_text e2 = take (nat (ed_cursor ed)) (vi_text ed) @ w @ drop (nat (ed_cursor ed)) (vi_text ed)"
    using l2(2) ok(3) by (simp_all add: entered_def tx)
  let ?s3 = "s2\<lparr>sh_in := t3\<rparr>"
  obtain e3 u3 where r3: "sh_render None (e2\<lparr>ed_insert := False\<rparr>, ?s3) = Some (e3, ?s3\<lparr>sh_con := u3\<rparr>)"
    "redrawn (e2\<lparr>ed_insert := False\<rparr>) e3" by (rule sh_render_redrawn)
  have k3: "vi_key bufp 27 (p1, e2, ?s3) = Some (p1, e3, ?s3\<lparr>sh_con := u3\<rparr>)"
    using e2(2) r3(1) by (simp add: vi_key_def)
  note f3 = redrawn_fields [OF r3(2), simplified]
  let ?s4 = "?s3\<lparr>sh_con := u3, sh_in := t4\<rparr>"
  obtain e4 u4 where r4: "sh_render (Some ''press Z again to save and quit'') (e3, ?s4) = Some (e4, ?s4\<lparr>sh_con := u4\<rparr>)"
    "redrawn e3 e4" by (rule sh_render_redrawn)
  note f4 = redrawn_fields [OF r4(2)]
  have k4: "vi_key bufp ?z (p1, e3, ?s4) = Some (p1\<lparr>pending_z := True\<rparr>, e4, ?s4\<lparr>sh_con := u4\<rparr>)"
    using f3 r4(1) by (simp add: vi_key_def p1_def)
  let ?s5 = "?s4\<lparr>sh_con := u4, sh_in := t'\<rparr>"
  have e4: "vi_ok e4" "\<not> ed_insert e4" "\<not> ed_quit e4" "ed_path e4 = ed_path ed" "vi_text e4 = vi_text e2"
    using f3 f4 e2 by (simp_all add: vi_text_def)
  have v5: "sh_vfs ?s5 = sh_vfs s" by (simp add: s2_def)
  obtain x where sv: "vi_save bufp (e4, ?s5) = Some (0, e4\<lparr>ed_dirty := False\<rparr>, ?s5\<lparr>sh_vfs := x\<rparr>)"
    "file_bytes x i = bytes_of (vi_text e4)" "fs_ok x"
    using vi_save_file [OF e4(1), of ?s5 fd v i bufp] ok(4) o b e4(4) unfolding v5 by metis
  have k5: "vi_key bufp ?z (p1\<lparr>pending_z := True\<rparr>, e4, ?s5) =
      Some (\<lparr>pending_d = False, pending_z = True, quit_confirm = False\<rparr>, e4\<lparr>ed_dirty := False, ed_quit := True\<rparr>, ?s5\<lparr>sh_vfs := x\<rparr>)"
    using e4(2) sv(1) by (simp add: vi_key_def p1_def)
  have "vi_loop bufp (p, ed, s) = vi_loop bufp (p1, e2, s2)"
    using vi_loop_key [OF ok(3) t1(1) k1] l2(1) s2(1) by simp
  also have "\<dots> = vi_loop bufp (p1, e3, ?s3\<lparr>sh_con := u3\<rparr>)" using vi_loop_key [OF e2(3) _ k3] t3(1) s2(2) by simp
  also have "\<dots> = vi_loop bufp (p1\<lparr>pending_z := True\<rparr>, e4, ?s4\<lparr>sh_con := u4\<rparr>)"
    using vi_loop_key [of e3 "?s3\<lparr>sh_con := u3\<rparr>" ?z t4 bufp p1] k4 t3(2) f3 e2(3) by simp
  also have "\<dots> = Some (\<lparr>pending_d = False, pending_z = True, quit_confirm = False\<rparr>, e4\<lparr>ed_dirty := False, ed_quit := True\<rparr>, ?s5\<lparr>sh_vfs := x\<rparr>)"
    using vi_loop_key [of e4 "?s4\<lparr>sh_con := u4\<rparr>" ?z t' bufp "p1\<lparr>pending_z := True\<rparr>"] k5 t3(3) e4(3) vi_loop_quit by simp
  finally show ?thesis using sv(2,3) e4(5) e2(5) by (intro exI) auto
qed

subsection \<open>A session on an empty file system\<close>

definition serial :: "string \<Rightarrow> term_in" where
  "serial cs = \<lparr>shell_unget_buf = - 1, kbd = kb0\<lparr>kb_addr := 0\<rparr>, rxu = uart0\<lparr>rxfifo := cs\<rparr>, polls = []\<rparr>"

definition shell0 :: "string \<Rightarrow> shell" where
  "shell0 cs = \<lparr>sh_vfs = vfs0, sh_con = uart0, sh_in = serial cs, cwd = ''/'', shell_history = []\<rparr>"

lemma getc_serial:
  "shell_getc (serial (c # cs)) = Some (c, serial cs)"
  "shell_try_getc (serial (c # cs)) = (of_char c, serial cs)"
  "shell_getc (shell_ungetc c (serial cs)) = Some (c, serial cs)"
  by (simp_all add: shell_getc_def shell_try_getc_def try_getc_def shell_ungetc_def serial_def quiet_def arrive_def
    kb_poll_def kb_ready_def kb0_def uart_irq_getc_def uart_poll_getc_def uart0_def Let_def)

lemma read_key_serial:
  "c \<noteq> CHR 0x1B \<Longrightarrow> vi_read_key (serial (c # cs)) = Some (of_char c, serial cs)"
  "c \<noteq> CHR ''['' \<Longrightarrow> vi_read_key (serial (CHR 0x1B # c # cs)) = Some (27, shell_ungetc c (serial cs))"
  "c \<noteq> CHR 0x1B \<Longrightarrow> vi_read_key (shell_ungetc c (serial cs)) = Some (of_char c, serial cs)"
proof -
  have "(of_char c :: int) = of_char CHR ''['' \<longleftrightarrow> c = CHR ''[''" by (rule of_char_eq_iff)
  then show "c \<noteq> CHR ''['' \<Longrightarrow> vi_read_key (serial (CHR 0x1B # c # cs)) = Some (27, shell_ungetc c (serial cs))"
    by (simp add: vi_read_key_def getc_serial Let_def)
qed (simp_all add: vi_read_key_def getc_serial)

definition ed_new :: vi_editor_t where
  "ed_new = vi_zero\<lparr>ed_path := ''/a''\<rparr>"

definition no_pending :: vi_pending where
  "no_pending = \<lparr>pending_d = False, pending_z = False, quit_confirm = False\<rparr>"

lemma ed_new_ok: "vi_ok ed_new" "\<not> ed_insert ed_new" "\<not> ed_quit ed_new" "ed_cursor ed_new = 0" "vi_text ed_new = []" "ed_len ed_new = 0"
  by (simp_all add: ed_new_def vi_zero_def vi_ok_def vi_text_def)

lemma fs_ok_vfs0: "fs_ok vfs0"
  using vfs_run_inv [OF vfs0_run] by (simp add: fs_ok_def)

lemma vfs0_open_a:
  obtains v where "vfs_open ''/a'' 21 vfs0 = Some (0, v)" "finode (fds v ! 0) = 1" "idata (inodes v ! 1) = 0x1010"
proof -
  obtain h where h: "kmalloc 16384 (vheap vfs0) = Some (0x1010, h)"
    by (simp add: vfs0_def vfs_init_def heap_eval)
  have root: "vfs_resolve ''/'' vfs0 = 0" by (simp add: vfs_resolve_def)
  have "itype (inodes vfs0 ! 0) = VFS_DIR" by (simp add: vfs0_def vfs_init_def)
  then obtain v1 where v1: "vfs_create ''/a'' vfs0 = Some (1, v1)" "idata (inodes v1 ! 1) = 0x1010" "fds v1 = fds vfs0"
    using h by (simp add: vfs_create_def vfs0_split_a root vfs0_alloc Let_def) (simp add: vfs0_def vfs_init_def)
  have "find (\<lambda>i. finode (fds vfs0 ! i) = - 1) [0..<VFS_MAX_FDS] = Some 0"
    by (rule find_upt_SomeI) (simp_all add: vfs0_def vfs_init_def)
  then have a: "alloc_fd v1 = 0" using v1(3) by (simp add: alloc_fd_def)
  have l: "length (fds v1) = 16" using v1(3) by (simp add: vfs0_def vfs_init_def)
  show thesis
    by (rule that [of "snd (open_fd 1 21 v1)"]) (use v1 a l in \<open>simp_all add: vfs_open_def vfs0_resolve_a open_fd_def\<close>)
qed

text \<open>Typing \<open>a\<close>, return, \<open>b\<close> into a new file and leaving with \<open>ZZ\<close>.\<close>

theorem vi_type_and_save_witness:
  "\<exists>p' ed' s'. vi_loop 0x200000 (no_pending, ed_new, shell0 (''ia'' @ [CHR 0x0D] @ ''b'' @ [CHR 0x1B] @ ''ZZ'')) = Some (p', ed', s') \<and>
     file_bytes (sh_vfs s') 1 = bytes_of [CHR ''a'', NL, CHR ''b'']"
proof -
  obtain v where v: "vfs_open ''/a'' 21 vfs0 = Some (0, v)" "finode (fds v ! 0) = 1" "idata (inodes v ! 1) = 0x1010"
    by (rule vfs0_open_a)
  have keys: "read_keys 7 (serial (''ia'' @ [CHR 0x0D] @ ''b'' @ [CHR 0x1B] @ ''ZZ'')) = Some ([105, 97, 13, 98, 27, 90, 90], serial [])"
    by (simp add: numeral_eq_Suc read_key_serial)
  show ?thesis
    using vi_type_and_save [OF ed_new_ok(1-3), of "shell0 (''ia'' @ [CHR 0x0D] @ ''b'' @ [CHR 0x1B] @ ''ZZ'')"
        "[CHR ''a'', NL, CHR ''b'']" "[105, 97, 13, 98, 27, 90, 90]" "serial []" 0 v 1 "0x200000" no_pending]
      v keys fs_ok_vfs0 ed_new_ok(4-6)
    by (simp add: shell0_def typeable_def key_of_def ed_new_def apart_def read_key_serial) blast
qed

theorem vi_session_safe_witness:
  "\<exists>p' ed' s'. vi_loop 0x200000 (no_pending, ed_new, shell0 ''Q'') = Some (p', ed', s') \<and> session_ok (ed', s')"
proof -
  let ?s = "shell0 ''Q''"
  have r: "vi_read_key (sh_in ?s) = Some (81, serial [])" by (simp add: shell0_def read_key_serial)
  have k: "vi_key 0x200000 81 (no_pending, ed_new, ?s\<lparr>sh_in := serial []\<rparr>) =
      Some (no_pending, ed_new\<lparr>ed_quit := True\<rparr>, ?s\<lparr>sh_in := serial []\<rparr>)"
    using ed_new_ok(2) by (simp add: vi_key_def no_pending_def)
  have l: "vi_loop 0x200000 (no_pending, ed_new, ?s) = Some (no_pending, ed_new\<lparr>ed_quit := True\<rparr>, ?s\<lparr>sh_in := serial []\<rparr>)"
    using vi_loop_key [OF ed_new_ok(3) r k] vi_loop_quit by simp
  have "session_ok (ed_new, ?s)" using ed_new_ok(1) fs_ok_vfs0 by (simp add: session_ok_def shell0_def)
  from vi_session_safe [OF this l] show ?thesis using l by blast
qed

end
