(* ===== verification/Path.thy ===== *)
theory Path
  imports KString
begin

text \<open>
  Arguments and paths of the shell (\<^verbatim>\<open>src/kernel.c\<close>, \<open>next_arg\<close>, \<open>build_path\<close> and
  \<open>normalize_path\<close>). A destination array is the list of the characters stored in it.
\<close>

subsection \<open>Definitions\<close>

definition next_arg :: "string \<Rightarrow> string" where
  "next_arg s = dropWhile (\<lambda>c. c = CHR '' '') (dropWhile (\<lambda>c. c \<noteq> CHR '' '') (cstr s))"

text \<open>Appending a string to an array of \<open>cap\<close> characters, the last kept for the terminator.\<close>

definition app_limit :: "nat \<Rightarrow> string \<Rightarrow> string \<Rightarrow> string" where
  "app_limit cap out s = out @ take (cap - 1 - length out) (cstr s)"

definition build_path :: "string \<Rightarrow> nat \<Rightarrow> string \<Rightarrow> string" where
  "build_path cwd outlen name =
     (if chd name = CHR ''/'' then app_limit outlen [] name
      else
        let out = app_limit outlen [] cwd;
            out = (if out \<noteq> [] \<and> last out \<noteq> CHR ''/'' \<and> length out < outlen - 1 then out @ ''/'' else out)
        in app_limit outlen out name)"

text \<open>
  The step back over one component: \<open>dst--\<close>, then back to just behind a slash; position 1
  is behind the root's slash.
\<close>

function back_slash :: "string \<Rightarrow> string" where
  "back_slash out = (if length out > 1 \<and> last out \<noteq> CHR ''/'' then back_slash (butlast out) else out)"
  by pat_completeness auto
termination
  by (relation "measure length") auto

declare back_slash.simps [simp del]

definition add_component :: "string \<Rightarrow> string \<Rightarrow> string" where
  "add_component out name =
     (let out = (if length out > 1 \<and> length out < 127 then out @ ''/'' else out)
      in app_limit 128 out name)"

lemma component_shorter:
  assumes "dropWhile (\<lambda>c. c = CHR ''/'') path \<noteq> []"
  shows "length (dropWhile (\<lambda>c. c \<noteq> CHR ''/'') (dropWhile (\<lambda>c. c = CHR ''/'') path)) < length path"
proof -
  let ?p = "dropWhile (\<lambda>c. c = CHR ''/'') path"
  have "hd ?p = CHR ''/'' \<Longrightarrow> False" using hd_dropWhile [OF assms] by simp
  then have e: "dropWhile (\<lambda>c. c \<noteq> CHR ''/'') ?p = dropWhile (\<lambda>c. c \<noteq> CHR ''/'') (tl ?p)"
    using assms by (cases ?p) auto
  have "length (dropWhile (\<lambda>c. c \<noteq> CHR ''/'') (tl ?p)) \<le> length (tl ?p)" by (rule length_dropWhile_le)
  also have "\<dots> < length ?p" using assms by simp
  also have "\<dots> \<le> length path" by (rule length_dropWhile_le)
  finally show ?thesis unfolding e .
qed

function normalize_loop :: "string \<Rightarrow> string \<Rightarrow> string" where
  "normalize_loop path out =
     (let p = dropWhile (\<lambda>c. c = CHR ''/'') path
      in if p = [] then out
         else
           let name = takeWhile (\<lambda>c. c \<noteq> CHR ''/'') p; rest = dropWhile (\<lambda>c. c \<noteq> CHR ''/'') p
           in if name = ''.'' then normalize_loop rest out
              else if name = ''..'' then normalize_loop rest (if length out > 1 then back_slash (butlast out) else out)
              else normalize_loop rest (add_component out name))"
  by pat_completeness auto
termination
  by (relation "measure (\<lambda>(path, out). length path)") (simp_all add: component_shorter del: dropWhile_eq_Nil_conv)

declare normalize_loop.simps [simp del]

definition normalize_path :: "string \<Rightarrow> string" where
  "normalize_path path = take 127 (normalize_loop (cstr path) ''/'')"

subsection \<open>Normal forms\<close>

function components :: "string \<Rightarrow> string list" where
  "components path =
     (let p = dropWhile (\<lambda>c. c = CHR ''/'') path
      in if p = [] then []
         else takeWhile (\<lambda>c. c \<noteq> CHR ''/'') p # components (dropWhile (\<lambda>c. c \<noteq> CHR ''/'') p))"
  by pat_completeness auto
termination
  by (relation "measure length") (simp_all add: component_shorter del: dropWhile_eq_Nil_conv)

declare components.simps [simp del]

definition join :: "string list \<Rightarrow> string" where
  "join cs = (if cs = [] then ''/'' else concat (map (\<lambda>c. CHR ''/'' # c) cs))"

text \<open>The path of the components that are not a dot.\<close>

definition canonical :: "string \<Rightarrow> string" where
  "canonical path = join (filter (\<lambda>c. c \<noteq> ''.'') (components path))"

lemma components_ok: "c \<in> set (components path) \<Longrightarrow> c \<noteq> [] \<and> CHR ''/'' \<notin> set c"
proof (induction path rule: components.induct)
  case (1 path)
  let ?p = "dropWhile (\<lambda>c. c = CHR ''/'') path"
  show ?case
  proof (cases "?p = []")
    case True
    then show ?thesis using "1.prems" by (subst (asm) components.simps) (simp add: Let_def)
  next
    case False
    have h: "hd ?p \<noteq> CHR ''/''" using hd_dropWhile [OF False] by simp
    then have "takeWhile (\<lambda>c. c \<noteq> CHR ''/'') ?p \<noteq> []" using False by (cases ?p) auto
    moreover have "CHR ''/'' \<notin> set (takeWhile (\<lambda>c. c \<noteq> CHR ''/'') ?p)" by (auto dest: set_takeWhileD)
    moreover have "c = takeWhile (\<lambda>c. c \<noteq> CHR ''/'') ?p \<or> c \<in> set (components (dropWhile (\<lambda>c. c \<noteq> CHR ''/'') ?p))"
      using "1.prems" False by (subst (asm) components.simps) (simp add: Let_def del: dropWhile_eq_Nil_conv)
    ultimately show ?thesis using "1.IH" [OF refl False] by metis
  qed
qed

lemma length_join_append: "length (join ds) \<le> length (join (ds @ es))"
  by (cases es) (auto simp: join_def)

lemma join_snoc: "ds \<noteq> [] \<Longrightarrow> join (ds @ [c]) = join ds @ CHR ''/'' # c" "join [c] = CHR ''/'' # c"
  by (auto simp: join_def)

lemma add_component_join:
  assumes "\<forall>d \<in> set ds. d \<noteq> []" "NUL \<notin> set c" "length (join (ds @ [c])) \<le> 127" "c \<noteq> []"
  shows "add_component (join ds) c = join (ds @ [c])"
proof (cases ds)
  case Nil
  then show ?thesis using assms by (simp add: add_component_def app_limit_def join_def cstr_no_nul)
next
  case (Cons d ds')
  have "1 < length (join ds)" using Cons assms(1) by (cases d) (auto simp: join_def)
  moreover have "length (join ds) < 127" using assms(3) join_snoc(1) [of ds c] Cons by simp
  ultimately show ?thesis
    using Cons assms join_snoc(1) [of ds c] by (simp add: add_component_def app_limit_def cstr_no_nul Let_def)
qed

lemma normalize_loop_join:
  assumes "NUL \<notin> set path" "''..'' \<notin> set (components path)" "\<forall>d \<in> set ds. d \<noteq> []"
    "length (join (ds @ filter (\<lambda>c. c \<noteq> ''.'') (components path))) \<le> 127"
  shows "normalize_loop path (join ds) = join (ds @ filter (\<lambda>c. c \<noteq> ''.'') (components path))"
  using assms
proof (induction path arbitrary: ds rule: components.induct)
  case (1 path)
  let ?p = "dropWhile (\<lambda>c. c = CHR ''/'') path"
  let ?c = "takeWhile (\<lambda>c. c \<noteq> CHR ''/'') ?p" and ?r = "dropWhile (\<lambda>c. c \<noteq> CHR ''/'') ?p"
  show ?case
  proof (cases "?p = []")
    case True
    then have "components path = []" by (subst components.simps) (simp add: Let_def)
    then show ?thesis using True by (subst normalize_loop.simps) (simp add: Let_def)
  next
    case False
    have cs: "components path = ?c # components ?r" using False by (subst components.simps) (simp add: Let_def)
    have nr: "NUL \<notin> set ?r" "NUL \<notin> set ?c" using "1.prems"(1) by (auto dest!: set_dropWhileD set_takeWhileD)
    have dd: "?c \<noteq> ''..''" "''..'' \<notin> set (components ?r)" using "1.prems"(2) cs by auto
    have cn: "?c \<noteq> []" using components_ok [of ?c path] cs by simp
    have nl: "normalize_loop path (join ds) = (if ?c = ''.'' then normalize_loop ?r (join ds) else normalize_loop ?r (add_component (join ds) ?c))"
      using False dd(1) by (subst normalize_loop.simps) (simp add: Let_def del: dropWhile_eq_Nil_conv)
    show ?thesis
    proof (cases "?c = ''.''")
      case True
      then show ?thesis using "1.IH" [OF refl False nr(1) dd(2) "1.prems"(3)] "1.prems"(4) cs nl by simp
    next
      case nd: False
      have l: "length (join ((ds @ [?c]) @ filter (\<lambda>c. c \<noteq> ''.'') (components ?r))) \<le> 127"
        using "1.prems"(4) cs nd by simp
      then have "length (join (ds @ [?c])) \<le> 127" using length_join_append order_trans by blast
      then have "add_component (join ds) ?c = join (ds @ [?c])" using "1.prems"(3) nr(2) cn by (intro add_component_join)
      then show ?thesis using "1.IH" [OF refl False nr(1) dd(2) _ l] "1.prems"(3) cn cs nl nd by simp
    qed
  qed
qed

lemma components_prefix: "CHR ''/'' \<notin> set c \<Longrightarrow> c \<noteq> [] \<Longrightarrow> p = [] \<or> hd p = CHR ''/'' \<Longrightarrow> components (CHR ''/'' # c @ p) = c # components p"
proof -
  assume a: "CHR ''/'' \<notin> set c" "c \<noteq> []" "p = [] \<or> hd p = CHR ''/''"
  have d: "dropWhile (\<lambda>c. c = CHR ''/'') (CHR ''/'' # c @ p) = c @ p" using a by (cases c) auto
  have t: "takeWhile (\<lambda>x. x \<noteq> CHR ''/'') (c @ p) = c" "dropWhile (\<lambda>x. x \<noteq> CHR ''/'') (c @ p) = p"
    using a by (cases p; auto simp: takeWhile_append dropWhile_append)+
  show ?thesis unfolding components.simps [of "CHR ''/'' # c @ p"] d Let_def t using a(2) by simp
qed

lemma components_join: "\<forall>c \<in> set cs. c \<noteq> [] \<and> CHR ''/'' \<notin> set c \<Longrightarrow> components (join cs) = cs"
proof -
  have "components (concat (map (\<lambda>c. CHR ''/'' # c) cs)) = cs" if "\<forall>c \<in> set cs. c \<noteq> [] \<and> CHR ''/'' \<notin> set c" for cs
    using that
  proof (induction cs)
    case Nil
    then show ?case by (subst components.simps) simp
  next
    case (Cons c cs)
    have "concat (map (\<lambda>c. CHR ''/'' # c) cs) = [] \<or> hd (concat (map (\<lambda>c. CHR ''/'' # c) cs)) = CHR ''/''" by (cases cs) auto
    then show ?case using Cons components_prefix [of c "concat (map (\<lambda>c. CHR ''/'' # c) cs)"] by simp
  qed
  moreover have "components ''/'' = []" by (subst components.simps) simp
  ultimately show "\<forall>c \<in> set cs. c \<noteq> [] \<and> CHR ''/'' \<notin> set c \<Longrightarrow> components (join cs) = cs" by (simp add: join_def)
qed

text \<open>
  C25: \<open>normalize_path\<close> computes the canonical form of a path without \<^verbatim>\<open>..\<close>: one slash before each
  component, no dot components, no trailing slash, and normalizing again changes nothing.
\<close>

theorem normalize_path_canonical:
  assumes "NUL \<notin> set path" "''..'' \<notin> set (components path)" "length (canonical path) \<le> 127"
  shows "normalize_path path = canonical path \<and> normalize_path (normalize_path path) = normalize_path path"
proof -
  have n: "normalize_path p = canonical p"
    if "NUL \<notin> set p" "''..'' \<notin> set (components p)" "length (canonical p) \<le> 127" for p
    using normalize_loop_join [of p "[]"] that by (simp add: normalize_path_def canonical_def cstr_no_nul join_def [of "[]"])
  let ?cs = "filter (\<lambda>c. c \<noteq> ''.'') (components path)"
  have nn: "NUL \<notin> set c" if "c \<in> set (components path)" for c
    using that assms(1)
  proof (induction path rule: components.induct)
    case (1 path)
    then show ?case
      by (subst (asm) (2) components.simps) (auto simp: Let_def dest!: set_dropWhileD set_takeWhileD split: if_splits)
  qed
  have c: "components (canonical path) = ?cs" unfolding canonical_def by (rule components_join) (auto dest: components_ok)
  then have "canonical (canonical path) = canonical path" by (simp add: canonical_def [of "canonical path"]) (simp add: canonical_def)
  moreover have "NUL \<notin> set (canonical path)" using nn by (auto simp: canonical_def join_def)
  ultimately show ?thesis using n [OF assms] n [of "canonical path"] c assms(2,3) by simp
qed

theorem normalize_path_canonical_witness: "normalize_path ''//a/./b//c/'' = ''/a/b/c''"
proof -
  have c: "components ''//a/./b//c/'' = [''a'', ''.'', ''b'', ''c'']" by code_simp
  then show ?thesis using normalize_path_canonical [of "''//a/./b//c/''"] by (simp add: canonical_def join_def)
qed

text \<open>
  With \<^verbatim>\<open>..\<close> the result keeps the slash of the removed component, and a later \<^verbatim>\<open>..\<close> may remove
  only that slash: the parent of the parent of \<^verbatim>\<open>/a/c\<close> comes out as \<^verbatim>\<open>/a/\<close> instead of the root.
\<close>

lemma normalize_path_dotdot:
  "normalize_path ''/a/b/..'' = ''/a/''" "normalize_path ''/a/b/../c'' = ''/a//c''"
  "normalize_path ''/a/b/../c/../..'' = ''/a/''"
  by code_simp+

end
