(* ===== verification/Shell.thy ===== *)
theory Shell
  imports Vi Path
begin

text \<open>
  The command line of the kernel (\<^verbatim>\<open>src/kernel.c\<close>): history, line editing with completion, the
  file commands and the dispatcher. Buffers that the file system copies from or to live at
  addresses that are parameters (\<open>stk\<close>, a range of the kernel's stack); the model stores the
  characters there before it passes the address on.
\<close>

subsection \<open>Printing\<close>

definition nl :: string where
  "nl = [CHR 0x0A]"

definition sh_putc :: "char \<Rightarrow> shell \<Rightarrow> shell" where
  "sh_putc c s = s\<lparr>sh_con := uart_putc c (sh_con s)\<rparr>"

text \<open>\<open>itoa\<close> into a buffer and \<open>uart_puts\<close> of the buffer.\<close>

definition sh_num :: "int \<Rightarrow> int \<Rightarrow> shell \<Rightarrow> shell" where
  "sh_num v cap s = (case fst (itoa (of_int v) cap) of None \<Rightarrow> s | Some b \<Rightarrow> sh_puts b s)"

definition unsupported_command :: "string \<Rightarrow> shell \<Rightarrow> shell" where
  "unsupported_command feature s = sh_puts ('' is not available on this platform'' @ nl) (sh_puts feature s)"

subsection \<open>History\<close>

abbreviation SHELL_HISTORY_MAX :: nat where "SHELL_HISTORY_MAX \<equiv> 16"
abbreviation SHELL_LINE_MAX :: nat where "SHELL_LINE_MAX \<equiv> 256"

definition shell_store_history :: "string \<Rightarrow> string list \<Rightarrow> string list" where
  "shell_store_history line h =
     (if chd line = NUL then h
      else if h \<noteq> [] \<and> str_eq (h ! ((length h - 1) mod SHELL_HISTORY_MAX)) line then h
      else if length h < SHELL_HISTORY_MAX then h @ [str_copy_limit line SHELL_LINE_MAX]
      else map (\<lambda>l. str_copy_limit l SHELL_LINE_MAX) (tl h) @ [str_copy_limit line SHELL_LINE_MAX])"

text \<open>Erasing the line on the terminal and showing another; the result is the new line.\<close>

fun erase_line :: "nat \<Rightarrow> shell \<Rightarrow> shell" where
  "erase_line 0 s = s"
| "erase_line (Suc n) s = erase_line n (sh_putc CHR 0x08 (sh_putc CHR '' '' (sh_putc CHR 0x08 s)))"

definition shell_replace_line :: "nat \<Rightarrow> string \<Rightarrow> nat \<Rightarrow> shell \<Rightarrow> string \<times> shell" where
  "shell_replace_line maxLen src len s =
     (let line = take (maxLen - 1) (cstr src) in (line, fold sh_putc line (erase_line len s)))"

subsection \<open>Completion\<close>

definition shell_prefix_match :: "string \<Rightarrow> string \<Rightarrow> bool" where
  "shell_prefix_match text pre \<longleftrightarrow> k_strncmp text pre (k_strlen pre) = 0"

definition shell_is_path_command :: "string \<Rightarrow> bool" where
  "shell_is_path_command cmd \<longleftrightarrow>
     str_eq cmd ''cd'' \<or> str_eq cmd ''ls'' \<or> str_eq cmd ''cat'' \<or> str_eq cmd ''tcc'' \<or> str_eq cmd ''toycc'' \<or>
     str_eq cmd ''vi'' \<or> str_eq cmd ''rm'' \<or> str_eq cmd ''exec'' \<or> str_eq cmd ''mkdir'' \<or> str_eq cmd ''mkfile''"

definition shell_commands :: "string list" where
  "shell_commands =
    [''help'', ''info'', ''why'', ''clear'', ''echo'', ''led'', ''blink'', ''readpin'',
     ''uptime'', ''el'', ''panic'', ''crashtest'', ''ticks'', ''irqtest'', ''timerdbg'',
     ''peek'', ''poke'', ''dump'', ''heapinfo'', ''malloc'', ''free'', ''tasks'',
     ''spawn'', ''kill'', ''sleep'', ''yield'', ''uspawn'', ''fbtest'', ''fbmirror'',
     ''home'', ''home stop'', ''locktest'', ''semtest'', ''mqtest'', ''mutextest'',
     ''pwd'', ''cd'', ''ls'', ''mkdir'', ''mkfile'', ''write'', ''cat'', ''tcc'',
     ''toycc'', ''vi'', ''rm'', ''exec'', ''kbinit'', ''sdinit'', ''sdls'', ''sdcat'',
     ''sdexec'', ''mount'', ''test_uart'', ''test_gpio'', ''test_timer'',
     ''test_alloc'', ''test_all'']"

definition complete_command :: "string \<Rightarrow> nat \<Rightarrow> string option" where
  "complete_command line cap =
     (if line = [] \<or> length line \<ge> cap then None
      else
        case filter (\<lambda>c. shell_prefix_match c line) shell_commands of
          [m] \<Rightarrow>
            if length m + 1 \<ge> cap then None
            else if length m = length line \<and> last line = CHR '' '' then None
            else Some (m @ '' '')
        | _ \<Rightarrow> None)"

text \<open>The last word of the line starts at \<open>token_start\<close>; the word before the first space is the command.\<close>

definition token_start :: "string \<Rightarrow> nat" where
  "token_start line = length line - length (takeWhile (\<lambda>c. c \<noteq> CHR '' '') (rev line))"

definition last_index :: "char \<Rightarrow> string \<Rightarrow> nat option" where
  "last_index c s = fold (\<lambda>i r. if s ! i = c then Some i else r) [0..<length s] None"

definition complete_base :: "string \<Rightarrow> string \<Rightarrow> nat option \<Rightarrow> string" where
  "complete_base wd token slash =
     (case slash of
        Some k \<Rightarrow> if k = 0 then ''/'' else normalize_path (build_path wd 128 (take k token))
      | None \<Rightarrow> normalize_path (build_path wd 128 ''.''))"

text \<open>
  The text written to the 128-byte array \<open>replacement\<close>: the line before the word, the word up
  to its last slash, the name found, and a slash or a space.
\<close>

definition replacement :: "string \<Rightarrow> nat \<Rightarrow> string \<Rightarrow> nat option \<Rightarrow> string \<Rightarrow> bool \<Rightarrow> string" where
  "replacement line start token slash name is_dir =
     (let out = take 127 (take start line);
          out = (case slash of None \<Rightarrow> out | Some k \<Rightarrow> out @ take (127 - length out) (take (k + 1) token));
          out = out @ take (126 - length out) (cstr name)
      in out @ [if is_dir then CHR ''/'' else CHR '' ''])"

definition complete_path :: "string \<Rightarrow> string \<Rightarrow> nat \<Rightarrow> vfs \<Rightarrow> string option" where
  "complete_path wd line cap v =
     (let start = token_start line;
          token = drop start line;
          cmd = takeWhile (\<lambda>c. c \<noteq> CHR '' '') (take (min (start - 1) 31) line);
          slash = last_index CHR ''/'' token
      in if start = 0 \<and> \<not> (chd line = CHR ''.'' \<or> chd line = CHR ''/'') then None
         else if start \<noteq> 0 \<and> \<not> shell_is_path_command cmd then None
         else if length token \<ge> 128 then None
         else
           let dir = vfs_resolve (complete_base wd token slash) v
           in if dir < 0 \<or> vfs_inode_type dir v \<noteq> VFS_DIR then None
              else
                let name_prefix = (case slash of Some k \<Rightarrow> drop (k + 1) token | None \<Rightarrow> token);
                    found = filter (\<lambda>i. vfs_inode_used (int i) v \<and> vfs_inode_parent (int i) v = dir \<and>
                      shell_prefix_match (vfs_inode_name (int i) v) name_prefix) [0..<vfs_max_inodes]
                in case found of
                     [i] \<Rightarrow>
                       let r = replacement line start token slash (str_copy_limit (vfs_inode_name (int i) v) 32)
                                 (vfs_inode_type (int i) v = VFS_DIR)
                       in if length r \<ge> cap then None else Some r
                   | _ \<Rightarrow> None)"

definition shell_autocomplete :: "string \<Rightarrow> nat \<Rightarrow> shell \<Rightarrow> string \<times> shell" where
  "shell_autocomplete line cap s =
     (case complete_path (cwd s) line cap (sh_vfs s) of
        Some r \<Rightarrow> shell_replace_line cap r (length line) s
      | None \<Rightarrow>
          (case complete_command line cap of
             Some r \<Rightarrow> shell_replace_line cap r (length line) s
           | None \<Rightarrow> (line, s)))"

subsection \<open>Reading a line\<close>

partial_function (option) read_line :: "nat \<Rightarrow> string \<Rightarrow> nat \<Rightarrow> shell \<Rightarrow> (string \<times> shell) option" where
  "read_line maxLen line idx s =
     (if length line < maxLen - 1
      then do {
        (c, t) \<leftarrow> vi_read_key (sh_in s);
        let s = s\<lparr>sh_in := t\<rparr>; h = shell_history s; count = length h
        in if c = 13 \<or> c = 10 then Some (line, s)
           else if c = VI_KEY_UP
           then (if count > 0 \<and> idx > 0
                 then (let (line, s) = shell_replace_line maxLen (h ! (idx - 1)) (length line) s in read_line maxLen line (idx - 1) s)
                 else read_line maxLen line idx s)
           else if c = VI_KEY_DOWN
           then (if int idx < int count - 1
                 then (let (line, s) = shell_replace_line maxLen (h ! (idx + 1)) (length line) s in read_line maxLen line (idx + 1) s)
                 else if int idx = int count - 1
                 then (let (line, s) = shell_replace_line maxLen [] (length line) s in read_line maxLen line count s)
                 else read_line maxLen line idx s)
           else if c = 8 \<or> c = 127
           then (if line \<noteq> []
                 then read_line maxLen (butlast line) idx (sh_putc CHR 0x08 (sh_putc CHR '' '' (sh_putc CHR 0x08 s)))
                 else read_line maxLen line idx s)
           else if c = 9
           then (let (line, s) = shell_autocomplete line maxLen s in read_line maxLen line count s)
           else if c < 32 \<or> c > 126 then read_line maxLen line idx s
           else read_line maxLen (line @ [char_of (nat c)]) idx (sh_putc (char_of (nat c)) s)
      }
      else Some (line, s))"

subsection \<open>File commands\<close>

definition echo_command :: "string \<Rightarrow> shell \<Rightarrow> shell" where
  "echo_command arg s = sh_puts nl (sh_puts arg s)"

definition clear_command :: "shell \<Rightarrow> shell" where
  "clear_command s = sh_puts (esc ''[2J'' @ esc ''[H'') s"

definition pwd_command :: "shell \<Rightarrow> shell" where
  "pwd_command s = sh_puts nl (sh_puts (cwd s) s)"

definition cd_command :: "string \<Rightarrow> shell \<Rightarrow> shell" where
  "cd_command arg s =
     (let path = normalize_path (build_path (cwd s) 128 arg);
          inode = vfs_resolve path (sh_vfs s)
      in if inode < 0 \<or> vfs_inode_type inode (sh_vfs s) \<noteq> VFS_DIR
         then sh_puts nl (sh_puts arg (sh_puts ''no such directory: '' s))
         else s\<lparr>cwd := take 127 (cstr path)\<rparr>)"

definition ls_entry :: "int \<Rightarrow> vfs \<Rightarrow> shell \<Rightarrow> shell" where
  "ls_entry i v s =
     (let t = vfs_inode_type i v;
          s = sh_puts (vfs_inode_name i v) (sh_puts (if t = VFS_DIR then ''  d  '' else ''  f  '') s);
          s = (if t = VFS_FILE then sh_puts ''B'' (sh_num (vfs_inode_size i v) 20 (sh_puts ''  '' s)) else s)
      in sh_puts nl s)"

definition ls_command :: "string \<Rightarrow> shell \<Rightarrow> shell" where
  "ls_command arg s =
     (let v = sh_vfs s;
          path = (if chd arg \<noteq> NUL then build_path (cwd s) 128 arg else take 127 (cstr (cwd s)));
          dir = vfs_resolve path v
      in if dir < 0 \<or> vfs_inode_type dir v \<noteq> VFS_DIR
         then sh_puts nl (sh_puts path (sh_puts ''no such directory: '' s))
         else
           let found = filter (\<lambda>i. vfs_inode_used (int i) v \<and> vfs_inode_parent (int i) v = dir) [0..<vfs_max_inodes];
               s = fold (\<lambda>i. ls_entry (int i) v) found s
           in if found = [] then sh_puts (''(empty)'' @ nl) s else s)"

definition mkdir_command :: "string \<Rightarrow> shell \<Rightarrow> shell" where
  "mkdir_command arg s =
     (let path = build_path (cwd s) 128 arg; (r, v) = vfs_mkdir path (sh_vfs s); s = s\<lparr>sh_vfs := v\<rparr>
      in if r < 0 then sh_puts nl (sh_puts arg (sh_puts ''mkdir failed: '' s))
         else sh_puts ([CHR 0x27] @ nl) (sh_puts arg (sh_puts (''created dir '' @ [CHR 0x27]) s)))"

definition mkfile_command :: "string \<Rightarrow> shell \<Rightarrow> shell option" where
  "mkfile_command arg s = do {
     (fd, v) \<leftarrow> vfs_open (build_path (cwd s) 128 arg) 5 (sh_vfs s);
     if fd < 0 then Some (sh_puts (''failed to create file'' @ nl) (s\<lparr>sh_vfs := v\<rparr>))
     else Some (sh_puts ([CHR 0x27] @ nl) (sh_puts arg (sh_puts (''created '' @ [CHR 0x27]) (s\<lparr>sh_vfs := vfs_close fd v\<rparr>))))
   }"

text \<open>The data are the rest of the line, at the address \<open>stk\<close>.\<close>

definition write_command :: "addr \<Rightarrow> string \<Rightarrow> shell \<Rightarrow> shell option" where
  "write_command stk arg s =
     (let data = next_arg arg;
          name = take 31 (takeWhile (\<lambda>c. c \<noteq> CHR '' '') (cstr arg));
          path = build_path (cwd s) 128 name
      in do {
        (fd, v) \<leftarrow> vfs_open path 21 (sh_vfs s);
        if fd < 0 then Some (sh_puts (''failed to open/create file'' @ nl) (s\<lparr>sh_vfs := v\<rparr>))
        else
          let len = int (k_strlen data);
              v = upd_mem (\<lambda>m. mwrite m stk (bytes_of data)) v;
              (_, v) = vfs_write fd stk len v;
              s = s\<lparr>sh_vfs := vfs_close fd v\<rparr>
          in Some (sh_puts ([CHR 0x27] @ nl) (sh_puts name (sh_puts ('' bytes to '' @ [CHR 0x27])
                (sh_num len 12 (sh_puts ''wrote '' s)))))
      })"

text \<open>
  The read loop of \<open>cat\<close>: 127 bytes at a time into the buffer at \<open>stk\<close>; the text shown ends at
  the first NUL. The second argument is the last byte read.
\<close>

partial_function (option) cat_loop :: "addr \<Rightarrow> int \<Rightarrow> char \<Rightarrow> shell \<Rightarrow> (char \<times> shell) option" where
  "cat_loop stk fd lst s =
     (let (len, v) = vfs_read fd stk 127 (sh_vfs s)
      in if len \<le> 0 then Some (lst, s\<lparr>sh_vfs := v\<rparr>)
         else
           let buf = string_of (mread (mem (vheap v)) stk (nat len))
           in cat_loop stk fd (last buf) (sh_puts buf (s\<lparr>sh_vfs := v\<rparr>)))"

definition cat_command :: "addr \<Rightarrow> string \<Rightarrow> shell \<Rightarrow> shell option" where
  "cat_command stk arg s = do {
     (fd, v) \<leftarrow> vfs_open (build_path (cwd s) 128 arg) 0 (sh_vfs s);
     if fd < 0 then Some (sh_puts nl (sh_puts arg (sh_puts ''file not found: '' (s\<lparr>sh_vfs := v\<rparr>))))
     else do {
       (lst, s) \<leftarrow> cat_loop stk fd CHR 0x0A (s\<lparr>sh_vfs := v\<rparr>);
       let s = s\<lparr>sh_vfs := vfs_close fd (sh_vfs s)\<rparr>
       in Some (if lst \<noteq> CHR 0x0A then sh_puts nl s else s)
     }
   }"

definition rm_command :: "string \<Rightarrow> shell \<Rightarrow> shell" where
  "rm_command arg s =
     (let (r, v) = vfs_unlink (build_path (cwd s) 128 arg) (sh_vfs s); s = s\<lparr>sh_vfs := v\<rparr>
      in if r < 0 then sh_puts nl (sh_puts arg (sh_puts ''rm failed (not found or dir not empty): '' s))
         else sh_puts ([CHR 0x27] @ nl) (sh_puts arg (sh_puts (''removed '' @ [CHR 0x27]) s)))"

definition command_error :: "shell \<Rightarrow> shell" where
  "command_error s = sh_puts (''unrecognized command'' @ nl) s"

text \<open>
  Opening the editor: \<open>18276\<close> is the size of \<open>vi_editor_t\<close> and \<open>128\<close> the offset of its text.
\<close>

definition vi_open_command :: "string \<Rightarrow> shell \<Rightarrow> shell option" where
  "vi_open_command arg s =
     (if chd arg = NUL then Some (sh_puts (''usage: vi <file>'' @ nl) s)
      else
        let path = build_path (cwd s) 128 arg
        in do {
          (p, h) \<leftarrow> kmalloc 18276 (vheap (sh_vfs s));
          let s = s\<lparr>sh_vfs := (sh_vfs s)\<lparr>vheap := h\<rparr>\<rparr>
          in if p = 0 then Some (sh_puts (''vi: out of memory'' @ nl) s)
             else
               let s = s\<lparr>sh_vfs := upd_mem (\<lambda>m. memset m p 0 18276) (sh_vfs s)\<rparr>;
                   ed = vi_zero\<lparr>ed_path := str_copy_limit path 128\<rparr>;
                   saved_hook = uart_get_output_hook (sh_con s);
                   s = s\<lparr>sh_con := uart_set_output_hook 0 (sh_con s)\<rparr>
               in do {
                 (fd, v) \<leftarrow> vfs_open path 0 (sh_vfs s);
                 let s = s\<lparr>sh_vfs := v\<rparr>;
                     (ed, s) = (if fd \<ge> 0
                       then (let (n, v) = vfs_read fd (p + 128) VI_MAX_TEXT (sh_vfs s);
                                 s = s\<lparr>sh_vfs := vfs_close fd v\<rparr>
                             in if n > 0
                                then (ed\<lparr>ed_len := n,
                                        ed_buf := string_of (mread (mem (vheap v)) (p + 128) (nat n)) @ replicate (nat (VI_MAX_TEXT + 1 - n)) NUL\<rparr>, s)
                                else (ed, s))
                       else (ed, s));
                     s = sh_puts (esc ''[2J'' @ esc ''[H'') s
                 in do {
                   (ed, s) \<leftarrow> sh_render (Some ''i=insert  Esc=normal  :w  :q  :wq'') (ed, s);
                   (_, _, s) \<leftarrow> vi_loop (p + 128) (\<lparr>pending_d = False, pending_z = False, quit_confirm = False\<rparr>, ed, s);
                   let s = s\<lparr>sh_vfs := (sh_vfs s)\<lparr>vheap := kfree p (vheap (sh_vfs s))\<rparr>\<rparr>;
                       s = s\<lparr>sh_con := uart_set_output_hook saved_hook (sh_con s)\<rparr>
                   in Some (sh_puts (''left vi'' @ nl) (sh_puts (esc ''[2J'' @ esc ''[H'') s))
                 }
               }
        })"

subsection \<open>The dispatcher\<close>

text \<open>
  The handler a line selects, by its name in the source, and its argument. Where the platform
  lacks the device, the handler is \<open>unsupported_command\<close> in the source.
\<close>

definition check_keywords :: "string \<Rightarrow> string \<times> string" where
  "check_keywords buffer =
     (if str_eq buffer ''help'' then (''help_command'', '''')
      else if str_eq buffer ''info'' then (''info_command'', '''')
      else if str_eq buffer ''why'' then (''why_command'', '''')
      else if str_eq buffer ''clear'' then (''clear_command'', '''')
      else if str_starts_with buffer ''echo '' then (''echo_command'', drop 5 buffer)
      else if str_starts_with buffer ''led '' then (''led_command'', drop 4 buffer)
      else if str_starts_with buffer ''blink '' then (''blink_command'', drop 6 buffer)
      else if str_starts_with buffer ''readpin '' then (''readpin_command'', drop 8 buffer)
      else if str_eq buffer ''uptime'' then (''uptime_command'', '''')
      else if str_eq buffer ''el'' then (''el_command'', '''')
      else if str_eq buffer ''panic'' then (''panic_command'', '''')
      else if str_starts_with buffer ''crashtest '' then (''crashtest_command'', drop 10 buffer)
      else if str_eq buffer ''crashtest'' then (''crashtest_command'', '''')
      else if str_eq buffer ''ticks'' then (''ticks_command'', '''')
      else if str_eq buffer ''irqtest'' then (''irqtest_command'', '''')
      else if str_eq buffer ''timerdbg'' then (''irq_dump_gic'', '''')
      else if str_starts_with buffer ''peek '' then (''peek_command'', drop 5 buffer)
      else if str_starts_with buffer ''poke '' then (''poke_command'', drop 5 buffer)
      else if str_starts_with buffer ''dump '' then (''dump_command'', drop 5 buffer)
      else if str_eq buffer ''heapinfo'' then (''heapinfo_command'', '''')
      else if str_starts_with buffer ''malloc '' then (''malloc_command'', drop 7 buffer)
      else if str_starts_with buffer ''free '' then (''free_command'', drop 5 buffer)
      else if str_eq buffer ''tasks'' then (''tasks_command'', '''')
      else if str_eq buffer ''spawn'' then (''spawn_command'', '''')
      else if str_starts_with buffer ''kill '' then (''kill_command'', drop 5 buffer)
      else if str_starts_with buffer ''sleep '' then (''sleep_command'', drop 6 buffer)
      else if str_eq buffer ''yield'' then (''yield_command'', '''')
      else if str_eq buffer ''uspawn'' then (''uspawn_command'', '''')
      else if str_eq buffer ''fbtest'' then (''fbtest_command'', '''')
      else if str_eq buffer ''fbmirror'' then (''fb_set_mirror'', '''')
      else if str_eq buffer ''home stop'' then (''home_stop'', '''')
      else if str_eq buffer ''home'' then (''home_start'', '''')
      else if str_eq buffer ''locktest'' then (''locktest_command'', '''')
      else if str_eq buffer ''semtest'' then (''semtest_command'', '''')
      else if str_eq buffer ''mqtest'' then (''mqtest_command'', '''')
      else if str_eq buffer ''mutextest'' then (''mutextest_command'', '''')
      else if str_eq buffer ''pwd'' then (''pwd_command'', '''')
      else if str_starts_with buffer ''cd '' then (''cd_command'', drop 3 buffer)
      else if str_starts_with buffer ''ls '' then (''ls_command'', drop 3 buffer)
      else if str_eq buffer ''ls'' then (''ls_command'', '''')
      else if str_starts_with buffer ''mkdir '' then (''mkdir_command'', drop 6 buffer)
      else if str_starts_with buffer ''mkfile '' then (''mkfile_command'', drop 7 buffer)
      else if str_starts_with buffer ''write '' then (''write_command'', drop 6 buffer)
      else if str_starts_with buffer ''cat '' then (''cat_command'', drop 4 buffer)
      else if str_starts_with buffer ''tcc '' then (''tcc_command'', drop 4 buffer)
      else if str_starts_with buffer ''toycc '' then (''toycc_command'', drop 6 buffer)
      else if str_starts_with buffer ''vi '' then (''vi_open_command'', drop 3 buffer)
      else if str_starts_with buffer ''rm '' then (''rm_command'', drop 3 buffer)
      else if str_starts_with buffer ''./'' then (''exec_shortcut_command'', drop 2 buffer)
      else if str_starts_with buffer ''exec '' then (''exec_command'', drop 5 buffer)
      else if str_eq buffer ''kbinit'' then (''kb_init'', '''')
      else if str_eq buffer ''sdinit'' then (''sdinit_command'', '''')
      else if str_starts_with buffer ''sdls '' then (''sdls_command'', drop 5 buffer)
      else if str_eq buffer ''sdls'' then (''sdls_command'', ''/'')
      else if str_starts_with buffer ''sdcat '' then (''sdcat_command'', drop 6 buffer)
      else if str_starts_with buffer ''sdexec '' then (''sdexec_command'', drop 7 buffer)
      else if str_eq buffer ''mount'' then (''mount_command'', '''')
      else if str_eq buffer ''test_uart'' then (''test_uart_command'', '''')
      else if str_eq buffer ''test_gpio'' then (''test_gpio_command'', '''')
      else if str_eq buffer ''test_timer'' then (''test_timer_command'', '''')
      else if str_eq buffer ''test_alloc'' then (''test_alloc_command'', '''')
      else if str_eq buffer ''test_all'' then (''test_all_command'', '''')
      else (''command_error'', ''''))"

text \<open>
  One round of the command loop up to the dispatch: prompt, line, newline, history.
\<close>

definition query_terminal :: "nat \<Rightarrow> shell \<Rightarrow> ((string \<times> string) \<times> shell) option" where
  "query_terminal maxLen s =
     (let s = sh_puts ''>'' s
      in do {
        (line, s) \<leftarrow> read_line maxLen [] (length (shell_history s)) s;
        let s = sh_puts nl s; s = s\<lparr>shell_history := shell_store_history line (shell_history s)\<rparr>
        in Some (check_keywords line, s)
      })"

text \<open>The handlers of the file and text commands; \<open>None\<close> also for the handlers of other parts.\<close>

definition run_file_command :: "addr \<Rightarrow> string \<times> string \<Rightarrow> shell \<Rightarrow> shell option" where
  "run_file_command stk c s =
     (let (h, a) = c
      in if h = ''clear_command'' then Some (clear_command s)
         else if h = ''echo_command'' then Some (echo_command a s)
         else if h = ''pwd_command'' then Some (pwd_command s)
         else if h = ''cd_command'' then Some (cd_command a s)
         else if h = ''ls_command'' then Some (ls_command a s)
         else if h = ''mkdir_command'' then Some (mkdir_command a s)
         else if h = ''mkfile_command'' then mkfile_command a s
         else if h = ''write_command'' then write_command stk a s
         else if h = ''cat_command'' then cat_command stk a s
         else if h = ''vi_open_command'' then vi_open_command a s
         else if h = ''rm_command'' then Some (rm_command a s)
         else if h = ''command_error'' then Some (command_error s)
         else None)"

end
