(* ===== verification/ShellProps.thy ===== *)
theory ShellProps
  imports Shell ViSession
begin

text \<open>
  What the command line promises: a file written is shown again by \<open>cat\<close>, a line never outgrows
  its buffer, the history keeps its bounds, and what a completion does to the line.
\<close>

subsection \<open>Text and bytes\<close>

lemma string_of_bytes_of [simp]: "string_of (bytes_of s) = s"
proof -
  have "char_of (unat (of_nat (of_char c) :: u8)) = c" for c
    by (simp add: unat_of_nat)
  then show ?thesis by (simp add: string_of_def bytes_of_def comp_def)
qed

lemma string_of_simps [simp]:
  "length (string_of bs) = length bs" "string_of (bs @ cs) = string_of bs @ string_of cs" "string_of [] = []"
  "string_of (take n bs) = take n (string_of bs)" "string_of (drop n bs) = drop n (string_of bs)" "length (bytes_of s) = length s"
  by (simp_all add: string_of_def bytes_of_def take_map drop_map)

lemma uart_puts_append: "NUL \<notin> set xs \<Longrightarrow> uart_puts (xs @ ys) u = uart_puts ys (uart_puts xs u)"
  by (induction xs arbitrary: u) auto

subsection \<open>Showing a file\<close>

text \<open>The loop of \<open>cat\<close> prints the rest of the file from the descriptor's position.\<close>

lemma cat_loop_shows:
  assumes "vfs_inv d L (sh_vfs s)" "\<not> bad_fd fd (sh_vfs s)" "finode (fds (sh_vfs s) ! nat fd) = int i"
    and "fpos (fds (sh_vfs s) ! nat fd) = int k" "apart stk 127 (idata (inodes (sh_vfs s) ! i)) 16384" "unat stk + 127 \<le> 2 ^ 64"
    and "t = string_of (file_bytes (sh_vfs s) i)" "NUL \<notin> set t" "k \<le> length t"
  shows "\<exists>v. cat_loop stk fd lst s = Some (last (lst # drop k t), s\<lparr>sh_vfs := v, sh_con := uart_puts (drop k t) (sh_con s)\<rparr>) \<and>
    fs_ok v"
  using assms
proof (induction "length t - k" arbitrary: k lst s rule: less_induct)
  case less
  let ?v = "sh_vfs s" and ?b = "file_bytes (sh_vfs s) i"
  note I = less.prems(1) and fd = less.prems(2,3)
  obtain n v' where r: "vfs_read fd stk 127 ?v = (n, v')" by fastforce
  obtain i' where i': "nat fd < VFS_MAX_FDS" "i' < VFS_MAX_INODES" "finode (fds ?v ! nat fd) = int i'" "iused (inodes ?v ! i')"
    "itype (inodes ?v ! i') = VFS_FILE" "idata (inodes ?v ! i') \<noteq> 0"
    by (rule fd_cases [OF I fd(1)])
  have i: "i < VFS_MAX_INODES" "iused (inodes ?v ! i)" "itype (inodes ?v ! i) = VFS_FILE" "idata (inodes ?v ! i) \<noteq> 0"
    using i' fd(2) by auto
  note F = file_fields [OF I i(1-3)] and S = file_span [OF I i(1-3)]
  have sz: "length t = nat (isize (inodes ?v ! i))" "isize (inodes ?v ! i) = int (length t)"
    using less.prems(7) F(3) by (simp_all add: file_bytes_def)
  show ?case
  proof (cases "k = length t")
    case True
    then have "n = 0" "v' = ?v" using r fd i less.prems(4) sz(2) by (simp_all add: vfs_read_def Let_def)
    then have "cat_loop stk fd lst s = Some (lst, s)" using r by (subst cat_loop.simps) simp
    then show ?thesis using True I by (intro exI [of _ ?v]) (auto simp: fs_ok_def)
  next
    case False
    then have kl: "k < length t" using less.prems(9) by simp
    have lt: "fpos (fds ?v ! nat fd) < isize (inodes ?v ! i)" using kl sz(2) less.prems(4) by simp
    have "nat 127 = (127::nat)" by simp
    note R = vfs_read_bytes [OF I fd lt _ _ _ r]
    have R': "n = min 127 (int (length t) - int k)" "mem (vheap v') = mwrite (mem (vheap ?v)) stk (take (nat n) (drop k ?b))"
      "fds v' = (fds ?v)[nat fd := (fds ?v ! nat fd)\<lparr>fpos := int k + n\<rparr>]" "inodes v' = inodes ?v"
      using R less.prems(4-6) sz(2) by simp_all
    define m where "m = min 127 (length t - k)"
    have nm: "n = int m" "0 < m" "m \<le> 127" "k + m \<le> length t" using R'(1) kl by (auto simp: m_def)
    have lb: "length ?b = length t" using less.prems(7) by simp
    have bs: "length (take m (drop k ?b)) = m" using nm lb by simp
    have "mread (mem (vheap v')) stk m = take m (drop k ?b)"
      using mread_mwrite_same [of "take m (drop k ?b)" "mem (vheap ?v)" stk, unfolded bs] nm(3) unfolding R'(2) nm(1) nat_int by simp
    then have shown: "string_of (mread (mem (vheap v')) stk (nat n)) = take m (drop k t)" unfolding nm(1) nat_int less.prems(7) by simp
    have ne: "take m (drop k t) \<noteq> []" using nm kl by simp
    have "mread (mem (vheap v')) (idata (inodes ?v ! i)) 16384 = mread (mem (vheap ?v)) (idata (inodes ?v ! i)) 16384"
      unfolding R'(2) nm(1) nat_int
      by (rule mread_mwrite_apart) (use less.prems(5,6) bs nm S in \<open>auto simp: apart_def\<close>)
    then have "take (length t) (mread (mem (vheap v')) (idata (inodes ?v ! i)) 16384) =
        take (length t) (mread (mem (vheap ?v)) (idata (inodes ?v ! i)) 16384)" by simp
    moreover have "length t \<le> 16384" using F(4) sz(2) by linarith
    ultimately have keep: "file_bytes v' i = ?b"
      by (simp add: file_bytes_def R'(4) sz(2) take_mread min_def)
    have inv: "vfs_inv d L v'" using vfs_read_inv [OF I, of 127 fd stk] r by simp
    let ?s = "sh_puts (take m (drop k t)) (s\<lparr>sh_vfs := v'\<rparr>)"
    have fd': "\<not> bad_fd fd v'" "finode (fds v' ! nat fd) = int i" "fpos (fds v' ! nat fd) = int (k + m)"
      using fd less.prems(4) i'(1) vfs_invD(2) [OF I] nm(1) by (simp_all add: bad_fd_def R'(3))
    have step: "cat_loop stk fd lst s = cat_loop stk fd (last (take m (drop k t))) ?s"
      using r nm shown by (subst cat_loop.simps) (simp add: Let_def)
    have "length t - (k + m) < length t - k" using nm kl by linarith
    note ih = less.hyps [OF this, of ?s "last (take m (drop k t))"]
    have s': "sh_vfs ?s = v'" by (simp add: sh_puts_def)
    obtain w where w: "cat_loop stk fd (last (take m (drop k t))) ?s =
        Some (last (last (take m (drop k t)) # drop (k + m) t), ?s\<lparr>sh_vfs := w, sh_con := uart_puts (drop (k + m) t) (sh_con ?s)\<rparr>)" "fs_ok w"
      using ih [unfolded s', OF inv fd' _ less.prems(6) _ less.prems(8) nm(4)] R'(4) less.prems(5,7) keep by auto
    have sp: "drop k t = take m (drop k t) @ drop (k + m) t" by (metis add.commute append_take_drop_id drop_drop)
    have "last (last (take m (drop k t)) # drop (k + m) t) = last (lst # drop k t)"
      using ne by (subst (2) sp) (simp add: last_append)
    moreover have "uart_puts (drop (k + m) t) (sh_con ?s) = uart_puts (drop k t) (sh_con s)"
      using less.prems(8) by (subst (2) sp, subst uart_puts_append) (auto simp: sh_puts_def dest!: in_set_takeD in_set_dropD)
    ultimately show ?thesis using w step by (intro exI [of _ w]) (simp add: sh_puts_def)
  qed
qed

lemma sh_puts_fields [simp]:
  "sh_vfs (sh_puts t s) = sh_vfs s" "cwd (sh_puts t s) = cwd s" "sh_vfs (sh_num n c s) = sh_vfs s" "cwd (sh_num n c s) = cwd s"
  "sh_in (sh_puts t s) = sh_in s" "sh_con (sh_puts t s) = uart_puts t (sh_con s)"
  by (simp_all add: sh_puts_def sh_num_def split: option.splits)

text \<open>A name in the working directory \<open>p\<close> (the root when \<open>p\<close> is empty).\<close>

lemma build_path_child:
  assumes "plain_path p nm" "wd = (if p = [] then ''/'' else p)" "p \<noteq> [] \<Longrightarrow> last p \<noteq> CHR ''/''"
  shows "build_path wd 128 nm = p @ CHR ''/'' # nm"
proof -
  note pp = assms(1) [unfolded plain_path_def]
  have "chd nm \<noteq> CHR ''/''" using pp by (cases nm) auto
  then show ?thesis
    using pp assms(2,3) by (auto simp: build_path_def app_limit_def cstr_no_nul Let_def)
qed

text \<open>
  The \<open>write\<close> command: the file at the path holds exactly the data, and can be found and opened
  again.
\<close>

lemma write_command_file:
  assumes I: "fs_ok (sh_vfs s)"
    and pp: "plain_path p nm" "CHR '' '' \<notin> set nm" "cwd s = (if p = [] then ''/'' else p)" "p \<noteq> [] \<Longrightarrow> last p \<noteq> CHR ''/''"
    and dt: "NUL \<notin> set dat" "chd dat \<noteq> CHR '' ''" "length dat \<le> 16384"
    and o: "vfs_open (p @ CHR ''/'' # nm) 21 (sh_vfs s) = Some (fd, v)" "0 \<le> fd" "finode (fds v ! nat fd) = int i"
    and b: "apart stk (length dat) (idata (inodes v ! i)) 16384" "unat stk + length dat \<le> 2 ^ 64"
  obtains s1 d L where "write_command stk (nm @ CHR '' '' # dat) s = Some s1" "cwd s1 = cwd s" "vfs_inv d L (sh_vfs s1)"
    "vfs_resolve (p @ CHR ''/'' # nm) (sh_vfs s1) = int i" "itype (inodes (sh_vfs s1) ! i) = VFS_FILE" "\<not> alloc_fd (sh_vfs s1) < 0"
    "file_bytes (sh_vfs s1) i = bytes_of dat" "idata (inodes (sh_vfs s1) ! i) = idata (inodes v ! i)"
proof -
  obtain d L where inv: "vfs_inv d L (sh_vfs s)" using I by (auto simp: fs_ok_def)
  obtain i' d1 L1 where v: "vfs_inv d1 L1 v" "opened v fd i' 21" "isize (inodes v ! i') = 0"
    by (rule vfs_open_write [OF inv o(1,2)])
  have i': "i' = i" using v(2) o(3) by (simp add: opened_def)
  note nm = pp(1) [unfolded plain_path_def]
  let ?bs = "bytes_of dat"
  let ?v = "upd_mem (\<lambda>m. mwrite m stk ?bs) v"
  obtain n x where w: "vfs_write fd stk (int (length ?bs)) ?v = (n, x)" by fastforce
  have op: "opened ?v fd i 21" using v(2) by (simp add: opened_def bad_fd_def i')
  have "mread (mem (vheap ?v)) stk (length ?bs) = ?bs"
    using mread_mwrite_same [of ?bs "mem (vheap v)" stk] dt(3) by simp
  note W = write_whole [OF _ op _ _ _ _ _ this w]
  have W': "file_bytes (vfs_close fd x) i = ?bs" "vfs_inv d1 L1 (vfs_close fd x)"
    using W(2,3) [of d1 L1] v(1,3) b dt(3) by (simp_all add: i')
  have opv: "finode (fds ?v ! nat fd) = int i" "i < VFS_MAX_INODES" "\<not> bad_fd fd ?v" using op by (simp_all add: opened_def)
  have nms: "same_names ?v (vfs_close fd x)"
    by (rule vfs_write_names [OF w _ opv(1,2)]) (use vfs_invD(1) [OF v(1)] in simp)
  have "vfs_resolve (p @ CHR ''/'' # nm) v = int i" by (rule open_write_resolves [OF inv pp(1) o])
  then have res: "vfs_resolve (p @ CHR ''/'' # nm) (vfs_close fd x) = int i"
    using same_names_resolve [OF nms, of "p @ CHR ''/'' # nm"] nms same_names_resolve [of v ?v] by (simp add: same_names_def)
  have inv2: "vfs_inv d1 L1 ?v" using v(1) by simp
  have wp: "write_pos fd ?v = 0" using op by (simp add: write_pos_def opened_def)
  note WB = vfs_write_bytes [OF inv2 opv(3,1) _ _ _ _ _ w]
  have x: "idata (inodes x ! i) = idata (inodes v ! i)" "length (fds x) = VFS_MAX_FDS"
    using WB(4,6) wp v(3) b vfs_invD(2) [OF inv2] dt(3) by (simp_all add: i')
  have ty: "itype (inodes (vfs_close fd x) ! i) = VFS_FILE"
    using vfs_write_type [OF w opv(1,2)] op vfs_invD(1) [OF v(1)] by (simp add: opened_def)
  have fr: "\<not> alloc_fd (vfs_close fd x) < 0"
    using opv(3) o(2) x(2) by (intro closed_fd_free) (auto simp: bad_fd_def)
  have ex: "next_arg (nm @ CHR '' '' # dat) = dat" "take 31 (takeWhile (\<lambda>c. c \<noteq> CHR '' '') (cstr (nm @ CHR '' '' # dat))) = nm"
    "k_strlen dat = length ?bs"
  proof -
    have c: "cstr (nm @ CHR '' '' # dat) = nm @ CHR '' '' # dat" using nm dt(1) by (intro cstr_no_nul) auto
    have tw: "takeWhile (\<lambda>c. c \<noteq> CHR '' '') (nm @ CHR '' '' # dat) = nm" "dropWhile (\<lambda>c. c \<noteq> CHR '' '') (nm @ CHR '' '' # dat) = CHR '' '' # dat"
      using pp(2) by (auto simp: takeWhile_append2 dropWhile_append2 takeWhile_tail dropWhile_append intro!: takeWhile_append2)
    show "take 31 (takeWhile (\<lambda>c. c \<noteq> CHR '' '') (cstr (nm @ CHR '' '' # dat))) = nm" using nm c tw by simp
    show "next_arg (nm @ CHR '' '' # dat) = dat" using dt(2) c tw by (cases dat) (simp_all add: next_arg_def)
    show "k_strlen dat = length ?bs" using dt(1) by (simp add: k_strlen_eq cstr_no_nul)
  qed
  have bp: "build_path (cwd s) 128 nm = p @ CHR ''/'' # nm" by (rule build_path_child [OF pp(1,3,4)])
  have "\<exists>u. write_command stk (nm @ CHR '' '' # dat) s = Some u \<and> sh_vfs u = vfs_close fd x \<and> cwd u = cwd s"
    using o(1,2) w unfolding write_command_def Let_def ex bp by simp
  then obtain s1 where s1: "write_command stk (nm @ CHR '' '' # dat) s = Some s1" "sh_vfs s1 = vfs_close fd x" "cwd s1 = cwd s" by blast
  have "idata (inodes (vfs_close fd x) ! i) = idata (inodes v ! i)" using x(1) by (simp add: vfs_close_def)
  then show thesis using that [OF s1(1,3), of d1 L1] W' res ty fr unfolding s1(2) by simp
qed

text \<open>
  C8: a file written from the command line is shown by \<open>cat\<close>. After \<open>write nm dat\<close> the command
  \<open>cat nm\<close> prints exactly the data and then, unless they end with one, a newline, in the root
  or in any directory one level below it. The data are any text of at most 16384 characters
  that does not begin with a space; the two buffers on the stack must not overlap the file's
  data, and opening the file for writing must succeed.
\<close>

theorem write_then_cat:
  assumes "fs_ok (sh_vfs s)"
    and "plain_path p nm" "CHR '' '' \<notin> set nm" "cwd s = (if p = [] then ''/'' else p)" "p \<noteq> [] \<longrightarrow> last p \<noteq> CHR ''/''"
    and "NUL \<notin> set dat" "chd dat \<noteq> CHR '' ''" "length dat \<le> 16384"
    and "vfs_open (p @ CHR ''/'' # nm) 21 (sh_vfs s) = Some (fd, v)" "0 \<le> fd" "finode (fds v ! nat fd) = int i"
    and "apart stk (length dat) (idata (inodes v ! i)) 16384" "unat stk + length dat \<le> 2 ^ 64"
    and c: "apart stk' 127 (idata (inodes v ! i)) 16384" "unat stk' + 127 \<le> 2 ^ 64"
  shows "\<exists>s1 s2. write_command stk (nm @ CHR '' '' # dat) s = Some s1 \<and> cat_command stk' nm s1 = Some s2 \<and>
    sh_con s2 = uart_puts (dat @ (if dat = [] \<or> last dat = CHR 0x0A then [] else nl)) (sh_con s1) \<and> fs_ok (sh_vfs s2)"
proof -
  obtain s1 d L where s1: "write_command stk (nm @ CHR '' '' # dat) s = Some s1" "cwd s1 = cwd s" "vfs_inv d L (sh_vfs s1)"
    "vfs_resolve (p @ CHR ''/'' # nm) (sh_vfs s1) = int i" "itype (inodes (sh_vfs s1) ! i) = VFS_FILE" "\<not> alloc_fd (sh_vfs s1) < 0"
    "file_bytes (sh_vfs s1) i = bytes_of dat" "idata (inodes (sh_vfs s1) ! i) = idata (inodes v ! i)"
    by (rule write_command_file [OF assms(1-4) _ assms(6-13)]) (use assms(5) in blast)
  obtain fd2 v2 where o2: "vfs_open (p @ CHR ''/'' # nm) 0 (sh_vfs s1) = Some (fd2, v2)" "0 \<le> fd2" "opened v2 fd2 i 0"
    "inodes v2 = inodes (sh_vfs s1)" "vheap v2 = vheap (sh_vfs s1)" "\<exists>d L. vfs_inv d L v2"
    by (rule vfs_open_read [OF s1(3-6)])
  obtain d2 L2 where i2: "vfs_inv d2 L2 v2" using o2(6) by blast
  let ?s = "s1\<lparr>sh_vfs := v2\<rparr>"
  have op: "\<not> bad_fd fd2 v2" "finode (fds v2 ! nat fd2) = int i" "fpos (fds v2 ! nat fd2) = int 0" using o2(3) by (simp_all add: opened_def)
  have t: "dat = string_of (file_bytes v2 i)" using s1(7) o2(4,5) by (simp add: file_bytes_def)
  obtain w where w: "cat_loop stk' fd2 CHR 0x0A ?s =
      Some (last (CHR 0x0A # dat), ?s\<lparr>sh_vfs := w, sh_con := uart_puts dat (sh_con s1)\<rparr>)" "fs_ok w"
    using cat_loop_shows [of d2 L2 ?s fd2 i 0 stk' dat "CHR 0x0A"] i2 op t c s1(8) o2(4) assms(6) by auto
  have bp: "build_path (cwd s1) 128 nm = p @ CHR ''/'' # nm" unfolding s1(2) using assms(2,4,5) by (intro build_path_child) auto
  note fw = fs_ok_ops(1) [OF w(2), of fd2]
  have "\<exists>s2. cat_command stk' nm s1 = Some s2 \<and>
    sh_con s2 = uart_puts (dat @ (if dat = [] \<or> last dat = CHR 0x0A then [] else nl)) (sh_con s1) \<and> fs_ok (sh_vfs s2)"
    unfolding cat_command_def bp using o2(1,2) w(1) fw by (auto simp: uart_puts_append assms(6))
  then show ?thesis using s1(1) by blast
qed

theorem write_then_cat_witness:
  "\<exists>s1 s2. write_command 0x200000 ''a hi'' (shell0 []) = Some s1 \<and> cat_command 0x300000 ''a'' s1 = Some s2 \<and>
    sh_con s2 = uart_puts (''hi'' @ nl) (sh_con s1) \<and> fs_ok (sh_vfs s2)"
proof -
  obtain v where v: "vfs_open ''/a'' 21 vfs0 = Some (0, v)" "finode (fds v ! 0) = 1" "idata (inodes v ! 1) = 0x1010" by (rule vfs0_open_a)
  show ?thesis
    using write_then_cat [of "shell0 []" "[]" "''a''" "''hi''" 0 v 1 "0x200000" "0x300000"] v fs_ok_vfs0
    by (simp add: shell0_def plain_path_def apart_def)
qed

subsection \<open>The command line\<close>

lemma sh_putc_fields [simp]:
  "sh_vfs (sh_putc c s) = sh_vfs s" "cwd (sh_putc c s) = cwd s" "shell_history (sh_putc c s) = shell_history s"
  "shell_history (sh_puts t s) = shell_history s" "sh_in (sh_putc c s) = sh_in s"
  by (simp_all add: sh_putc_def sh_puts_def)

text \<open>What the line editor leaves alone, and what it promises of the line.\<close>

definition same_but_io :: "shell \<Rightarrow> shell \<Rightarrow> bool" where
  "same_but_io s s' \<longleftrightarrow> sh_vfs s' = sh_vfs s \<and> cwd s' = cwd s \<and> shell_history s' = shell_history s"

definition line_ok :: "nat \<Rightarrow> string \<Rightarrow> bool" where
  "line_ok maxLen line \<longleftrightarrow> length line \<le> maxLen - 1 \<and> NUL \<notin> set line"

lemma same_but_io_simps [simp]:
  "same_but_io s s" "same_but_io s (s'\<lparr>sh_in := t\<rparr>) = same_but_io s s'" "same_but_io (sh_putc c s) s' = same_but_io s s'" "same_but_io (s\<lparr>sh_in := t\<rparr>) s' = same_but_io s s'"
  "same_but_io (sh_puts w s) s' = same_but_io s s'" "same_but_io s (sh_putc c s') = same_but_io s s'"
  by (simp_all add: same_but_io_def)

lemma same_but_io_trans: "same_but_io s s' \<Longrightarrow> same_but_io s' s'' \<Longrightarrow> same_but_io s s''"
  by (simp add: same_but_io_def)

lemma erase_line_same [simp]: "same_but_io s (erase_line n s)"
  by (induction n arbitrary: s) (simp_all add: same_but_io_def)

lemma fold_putc_same [simp]: "same_but_io s (fold sh_putc cs s)"
  by (induction cs arbitrary: s) (simp_all add: same_but_io_def)

lemma shell_replace_line_ok:
  assumes "shell_replace_line maxLen src n s = (line, s')"
  shows "line_ok maxLen line" "same_but_io s s'"
  using assms take_cstr_no_nul [of "maxLen - 1" src] same_but_io_trans [OF erase_line_same fold_putc_same]
  by (auto simp: shell_replace_line_def Let_def line_ok_def)

lemma shell_autocomplete_ok:
  assumes "shell_autocomplete line maxLen s = (line', s')" "line_ok maxLen line"
  shows "line_ok maxLen line'" "same_but_io s s'"
  using assms shell_replace_line_ok by (auto simp: shell_autocomplete_def split: option.splits)

lemma read_line_ok:
  assumes "read_line maxLen line idx s = Some rs"
  shows "line_ok maxLen line \<longrightarrow> line_ok maxLen (fst rs) \<and> same_but_io s (snd rs)"
  using _ assms
proof (rule read_line.raw_induct)
  fix rec maxLen line idx s rs
  assume ih: "\<And>maxLen line idx s rs. rec maxLen line idx s = Some rs \<Longrightarrow>
      line_ok maxLen line \<longrightarrow> line_ok maxLen (fst rs) \<and> same_but_io s (snd rs)"
    and e: "(if length line < maxLen - 1
      then do {
        (c, t) \<leftarrow> vi_read_key (sh_in s);
        let s = s\<lparr>sh_in := t\<rparr>; h = shell_history s; count = length h
        in if c = 13 \<or> c = 10 then Some (line, s)
           else if c = VI_KEY_UP
           then (if count > 0 \<and> idx > 0
                 then (let (line, s) = shell_replace_line maxLen (h ! (idx - 1)) (length line) s in rec maxLen line (idx - 1) s)
                 else rec maxLen line idx s)
           else if c = VI_KEY_DOWN
           then (if int idx < int count - 1
                 then (let (line, s) = shell_replace_line maxLen (h ! (idx + 1)) (length line) s in rec maxLen line (idx + 1) s)
                 else if int idx = int count - 1
                 then (let (line, s) = shell_replace_line maxLen [] (length line) s in rec maxLen line count s)
                 else rec maxLen line idx s)
           else if c = 8 \<or> c = 127
           then (if line \<noteq> []
                 then rec maxLen (butlast line) idx (sh_putc CHR 0x08 (sh_putc CHR '' '' (sh_putc CHR 0x08 s)))
                 else rec maxLen line idx s)
           else if c = 9
           then (let (line, s) = shell_autocomplete line maxLen s in rec maxLen line count s)
           else if c < 32 \<or> c > 126 then rec maxLen line idx s
           else rec maxLen (line @ [char_of (nat c)]) idx (sh_putc (char_of (nat c)) s)
      }
      else Some (line, s)) = Some rs"
  show "line_ok maxLen line \<longrightarrow> line_ok maxLen (fst rs) \<and> same_but_io s (snd rs)"
  proof (intro impI, cases "length line < maxLen - 1")
    assume l: "line_ok maxLen line" and lt: "length line < maxLen - 1"
    obtain c t where k: "vi_read_key (sh_in s) = Some (c, t)" using e lt by (auto split: bind_splits)
    let ?s = "s\<lparr>sh_in := t\<rparr>"
    have step: "line_ok maxLen (fst rs) \<and> same_but_io s (snd rs)"
      if "rec maxLen line' j s' = Some rs" "line_ok maxLen line'" "same_but_io s s'" for line' j s'
      using ih [OF that(1)] that(2,3) same_but_io_trans by blast
    have rep: "line_ok maxLen (fst rs) \<and> same_but_io s (snd rs)"
      if "(case q of (line, s) \<Rightarrow> rec maxLen line j s) = Some rs" "line_ok maxLen (fst q)" "same_but_io s (snd q)" for q j
      using that step by (cases q) auto
    have repl: "line_ok maxLen (fst (shell_replace_line maxLen src (length line) ?s))"
      "same_but_io s (snd (shell_replace_line maxLen src (length line) ?s))" for src
      using shell_replace_line_ok [of maxLen src "length line" ?s] by (metis prod.collapse same_but_io_simps(4))+
    have auto: "line_ok maxLen (fst (shell_autocomplete line maxLen ?s))" "same_but_io s (snd (shell_autocomplete line maxLen ?s))"
      using shell_autocomplete_ok [of line maxLen ?s, OF _ l] by (metis prod.collapse same_but_io_simps(4))+
    have bl: "line_ok maxLen (butlast line)" using l by (auto simp: line_ok_def dest: in_set_butlastD)
    have sn: "line_ok maxLen (line @ [char_of (nat c)])" if "\<not> (c < 32 \<or> c > 126)"
    proof -
      have "nat c < 256" "0 < nat c" using that by auto
      then have "of_char (char_of (nat c) :: char) \<noteq> (of_char NUL :: nat)" by simp
      then have "char_of (nat c) \<noteq> NUL" by metis
      then show ?thesis using l lt by (simp add: line_ok_def)
    qed
    show "line_ok maxLen (fst rs) \<and> same_but_io s (snd rs)"
      by (insert e lt, unfold k bind.bind_lunit prod.case Let_def, elim if_SomeE; (erule rep [OF _ repl] rep [OF _ auto] step)?)
        (use l bl sn in \<open>auto simp: line_ok_def\<close>)
  next
    assume l: "line_ok maxLen line" and "\<not> length line < maxLen - 1"
    then show "line_ok maxLen (fst rs) \<and> same_but_io s (snd rs)" using e by auto
  qed
qed

text \<open>
  The history: at most 16 lines, each a non-empty C string that fits its row, no two
  neighbours equal.
\<close>

definition history_ok :: "string list \<Rightarrow> bool" where
  "history_ok h \<longleftrightarrow> length h \<le> SHELL_HISTORY_MAX \<and> (\<forall>l \<in> set h. l \<noteq> [] \<and> line_ok SHELL_LINE_MAX l) \<and> distinct_adj h"

lemma str_copy_limit_id: "line_ok SHELL_LINE_MAX l \<Longrightarrow> str_copy_limit l SHELL_LINE_MAX = l"
  by (simp add: str_copy_limit_def line_ok_def cstr_no_nul)

lemma map_str_copy_limit_id: "\<forall>l \<in> set h. line_ok SHELL_LINE_MAX l \<Longrightarrow> map (\<lambda>l. str_copy_limit l SHELL_LINE_MAX) h = h"
  by (simp add: map_idI str_copy_limit_id)

lemma distinct_adj_snoc: "distinct_adj h \<Longrightarrow> h \<noteq> [] \<longrightarrow> last h \<noteq> l \<Longrightarrow> distinct_adj (h @ [l])"
  by (auto simp: distinct_adj_append_iff)

text \<open>What storing a line means for such a history.\<close>

lemma shell_store_history_eq:
  assumes "history_ok h" "line_ok SHELL_LINE_MAX line"
  shows "shell_store_history line h =
    (if line = [] \<or> h \<noteq> [] \<and> last h = line then h else drop (length h + 1 - SHELL_HISTORY_MAX) h @ [line])"
proof -
  note H = assms(1) [unfolded history_ok_def]
  have nul: "NUL \<notin> set line" "\<forall>l \<in> set h. NUL \<notin> set l" using assms H by (simp_all add: line_ok_def)
  have e: "chd line = NUL \<longleftrightarrow> line = []" using nul by (simp add: chd_NUL_iff)
  have ls: "h ! ((length h - 1) mod SHELL_HISTORY_MAX) = last h" if "h \<noteq> []"
  proof -
    have "length h - 1 < SHELL_HISTORY_MAX" using H by linarith
    then show ?thesis using that by (simp add: last_conv_nth)
  qed
  have se: "str_eq (last h) line \<longleftrightarrow> last h = line" if "h \<noteq> []" using that nul by (simp add: cstr_no_nul)
  have tl: "map (\<lambda>l. str_copy_limit l SHELL_LINE_MAX) (tl h) = tl h" using H by (intro map_str_copy_limit_id) (cases h, auto)
  have cp: "str_copy_limit line SHELL_LINE_MAX = line" by (rule str_copy_limit_id [OF assms(2)])
  show ?thesis
  proof (cases "line = [] \<or> h \<noteq> [] \<and> last h = line")
    case True
    then show ?thesis using e ls se by (auto simp: shell_store_history_def)
  next
    case False
    then have st: "shell_store_history line h = (if length h < SHELL_HISTORY_MAX then h @ [line] else tl h @ [line])"
      using e ls se unfolding shell_store_history_def cp tl by (cases "h = []") simp_all
    show ?thesis
    proof (cases "length h < SHELL_HISTORY_MAX")
      case False
      then have "length h + 1 - SHELL_HISTORY_MAX = 1" using H by linarith
      then show ?thesis using \<open>\<not> (line = [] \<or> h \<noteq> [] \<and> last h = line)\<close> st False by (auto simp: drop_Suc)
    qed (use False st in simp)
  qed
qed

lemma shell_store_history_ok:
  assumes "history_ok h" "line_ok SHELL_LINE_MAX line"
  shows "history_ok (shell_store_history line h)"
proof -
  note H = assms(1) [unfolded history_ok_def]
  let ?k = "length h + 1 - SHELL_HISTORY_MAX"
  have dd: "distinct_adj (drop ?k h)" using H distinct_adj_appendD2 [of "take ?k h" "drop ?k h"] by simp
  have "drop ?k h \<noteq> [] \<longrightarrow> last (drop ?k h) = last h" by simp
  then show ?thesis
    unfolding shell_store_history_eq [OF assms] using H assms(2) dd
    by (auto simp: history_ok_def dest: in_set_dropD intro!: distinct_adj_snoc)
qed

text \<open>
  C26: one round of the command line. Whatever keys are pressed (arrows, deletions, completions),
  the line that is dispatched fits its buffer with its terminator and holds no NUL; the editing
  leaves the file system and the working directory alone; and the history keeps its bounds of
  16 rows of 256 characters and its promise that no two neighbours are equal, with the new line
  last.
\<close>

theorem query_terminal_round:
  assumes "history_ok (shell_history s)" "0 < maxLen" "maxLen \<le> SHELL_LINE_MAX" "query_terminal maxLen s = Some (cmd, s')"
  shows "\<exists>line. cmd = check_keywords line \<and> length line < maxLen \<and> NUL \<notin> set line \<and>
    sh_vfs s' = sh_vfs s \<and> cwd s' = cwd s \<and> history_ok (shell_history s') \<and>
    (line = [] \<and> shell_history s' = shell_history s \<or> shell_history s' \<noteq> [] \<and> last (shell_history s') = line)"
proof -
  let ?s = "sh_puts ''>'' s"
  obtain line t where r: "read_line maxLen [] (length (shell_history ?s)) ?s = Some (line, t)"
    and q: "cmd = check_keywords line" "s' = (sh_puts nl t)\<lparr>shell_history := shell_store_history line (shell_history t)\<rparr>"
    using assms(4) by (auto simp: query_terminal_def Let_def split: bind_splits)
  have l: "line_ok maxLen line" "same_but_io s t" using read_line_ok [OF r] by (simp_all add: line_ok_def)
  then have ll: "line_ok SHELL_LINE_MAX line" using assms(3) unfolding line_ok_def by linarith
  have h: "shell_history t = shell_history s" "sh_vfs t = sh_vfs s" "cwd t = cwd s" using l(2) by (simp_all add: same_but_io_def)
  have "line = [] \<and> shell_store_history line (shell_history s) = shell_history s \<or>
    shell_store_history line (shell_history s) \<noteq> [] \<and> last (shell_store_history line (shell_history s)) = line"
    unfolding shell_store_history_eq [OF assms(1) ll] by auto
  then show ?thesis
    using q h l(1) assms(2) shell_store_history_ok [OF assms(1) ll] by (intro exI [of _ line]) (auto simp: line_ok_def)
qed

theorem query_terminal_round_witness:
  "\<exists>line s'. query_terminal 256 (shell0 [CHR ''l'', CHR ''s'', CHR 0x0D]) = Some (check_keywords line, s') \<and> length line < 256 \<and>
    history_ok (shell_history s')"
proof -
  have "query_terminal 256 (shell0 [CHR ''l'', CHR ''s'', CHR 0x0D]) \<noteq> None"
    by (simp add: query_terminal_def shell0_def read_line.simps read_key_serial)
  then obtain cmd s' where q: "query_terminal 256 (shell0 [CHR ''l'', CHR ''s'', CHR 0x0D]) = Some (cmd, s')" by auto
  have "history_ok (shell_history (shell0 [CHR ''l'', CHR ''s'', CHR 0x0D]))" by (simp add: history_ok_def shell0_def)
  from query_terminal_round [OF this _ _ q] show ?thesis using q by auto
qed

text \<open>Printable text, typed.\<close>

definition printable_key :: "char \<Rightarrow> bool" where
  "printable_key c \<longleftrightarrow> 32 \<le> (of_char c :: int) \<and> (of_char c :: int) \<le> 126"

lemma read_line_typed:
  assumes "\<forall>c \<in> set w. printable_key c" "length line + length w < maxLen"
    and "read_keys (length w + n) (sh_in s) = Some (map of_char w @ ks, t')"
  shows "\<exists>t u. read_line maxLen line idx s = read_line maxLen (line @ w) idx (s\<lparr>sh_in := t, sh_con := u\<rparr>) \<and>
    read_keys n t = Some (ks, t') \<and> emits (sh_con s) w u"
  using assms
proof (induction w arbitrary: line s)
  case Nil
  then show ?case by (intro exI [of _ "sh_in s"] exI [of _ "sh_con s"]) simp
next
  case (Cons c w)
  have p: "32 \<le> (of_char c :: int)" "(of_char c :: int) \<le> 126" "\<forall>c \<in> set w. printable_key c"
    using Cons.prems(1) by (simp_all add: printable_key_def)
  have "read_keys (Suc (length w + n)) (sh_in s) = Some (of_char c # (map of_char w @ ks), t')"
    using Cons.prems(3) by (simp del: read_keys.simps)
  then obtain t1 where t1: "vi_read_key (sh_in s) = Some (of_char c, t1)" "read_keys (length w + n) t1 = Some (map of_char w @ ks, t')"
    by (rule read_keys_Cons)
  let ?s = "sh_putc c (s\<lparr>sh_in := t1\<rparr>)"
  have lt: "length line < maxLen - 1" using Cons.prems(2) by simp
  have st: "read_line maxLen line idx s = read_line maxLen (line @ [c]) idx ?s"
    by (subst read_line.simps) (use lt t1(1) p(1,2) in \<open>auto simp: Let_def\<close>)
  obtain t u where tu: "read_line maxLen (line @ [c]) idx ?s = read_line maxLen ((line @ [c]) @ w) idx (?s\<lparr>sh_in := t, sh_con := u\<rparr>)"
    "read_keys n t = Some (ks, t')" "emits (sh_con ?s) w u"
    using Cons.IH [OF p(3), of "line @ [c]" ?s] Cons.prems(2) t1(2) by auto
  have "emits (sh_con s) (c # w) u" using emits_trans [OF emits_putc1 [of "sh_con s" c], of w u] tu(3) by (simp add: sh_putc_def)
  then show ?case using st tu by (intro exI [of _ t] exI [of _ u]) (simp add: sh_putc_def)
qed

lemma emits_uart_puts: "NUL \<notin> set w \<Longrightarrow> CHR 0x0A \<notin> set w \<Longrightarrow> emits u w (uart_puts w u)"
proof (induction w arbitrary: u)
  case (Cons c w)
  then show ?case using emits_trans [OF emits_putc1] by fastforce
qed simp



subsection \<open>Completion\<close>

text \<open>
  Completing a command only extends what was typed: the new line is a command of the table
  followed by a space, the text typed is a beginning of the command, and no other command
  begins so.
\<close>

lemma shell_prefix_match_iff: "NUL \<notin> set c \<Longrightarrow> NUL \<notin> set line \<Longrightarrow> shell_prefix_match c line \<longleftrightarrow> prefix line c"
  by (auto simp: shell_prefix_match_def k_strncmp_eq_0_iff k_strlen_eq cstr_no_nul prefix_def) (metis append_take_drop_id)

lemma filter_single: "filter P xs = [m] \<Longrightarrow> m \<in> set xs \<and> P m \<and> (\<forall>x \<in> set xs. P x \<longrightarrow> x = m)"
proof -
  assume "filter P xs = [m]"
  then have "set (filter P xs) = {m}" by simp
  then show ?thesis by auto
qed

lemma shell_commands_no_nul: "c \<in> set shell_commands \<Longrightarrow> NUL \<notin> set c"
  by (auto simp: shell_commands_def)

theorem complete_command_extends:
  assumes "complete_command line cap = Some r" "NUL \<notin> set line"
  shows "\<exists>c. c \<in> set shell_commands \<and> r = c @ '' '' \<and> prefix line c \<and> length r < cap \<and>
    (\<forall>c' \<in> set shell_commands. prefix line c' \<longrightarrow> c' = c)"
proof -
  obtain m where f: "filter (\<lambda>c. shell_prefix_match c line) shell_commands = [m]" "r = m @ '' ''" "length m + 1 < cap"
    using assms(1) by (auto simp: complete_command_def split: if_splits list.splits)
  note m = filter_single [OF f(1)]
  show ?thesis
    using m f(2,3) shell_prefix_match_iff [OF shell_commands_no_nul assms(2)] by (intro exI [of _ m]) auto
qed

theorem complete_command_extends_witness:
  "complete_command ''hel'' 256 = Some ''help '' \<and> prefix ''hel'' ''help''"
proof -
  have "complete_command ''hel'' 256 = Some ''help ''"
    by (simp add: complete_command_def shell_commands_def shell_prefix_match_def)
  with complete_command_extends [OF this] show ?thesis by auto
qed

text \<open>
  The space that completion adds is part of the line, and the dispatcher compares a command
  without arguments with the whole line: a completed \<open>help\<close> is not recognised.
\<close>

lemma completed_help_unrecognised:
  "complete_command ''hel'' 256 = Some ''help ''" "check_keywords ''help'' = (''help_command'', '''')"
  "check_keywords ''help '' = (''command_error'', '''')"
  by (simp_all add: complete_command_def shell_commands_def shell_prefix_match_def check_keywords_def cstr_no_nul)

text \<open>The completed line can need one character more than its 128-byte array holds.\<close>

lemma replacement_overflow: "length (replacement (replicate 130 CHR ''a'') 130 [] None ''b'' d) = 128"
  by (simp add: replacement_def)

end
