(* ===== verification/CcType.thy ===== *)
theory CcType
  imports Prelude
begin

text \<open>
  Types, symbols and scopes of the host Tiny C compiler (\<open>Type.cpp\<close>, \<open>Symbol.cpp\<close>,
  \<open>Scope.cpp\<close>, \<open>Type::size\<close> and \<open>Type::alignment\<close> of \<open>allocator.cpp\<close>, \<open>machine.h\<close>), and the
  part of the C library its literals rest on: \<open>strtoul\<close> with base 0 and the decimal output
  of an \<open>unsigned long\<close>.

  A type is the tagged union of the class: the kind is the constructor.  The number of
  pointer levels is a natural number (a wrap-around would need \<open>2\<^sup>3\<^sup>2\<close> asterisks in one
  declaration); an array length is an \<open>unsigned long\<close>.  An \<open>assert\<close> that fails is the result
  \<open>None\<close>.  A symbol is an object with an identity, its address, which is a number here; the
  scopes in force are a list, the current one first and the global one last.
\<close>

subsection \<open>Types\<close>

datatype cspec = SpecChar | SpecInt | SpecLong

datatype ctype =
    ErrorType
  | ScalarType cspec nat
  | ArrayType cspec nat u64
  | FunctionType cspec nat bool "ctype list"

abbreviation character :: ctype where "character \<equiv> ScalarType SpecChar 0"
abbreviation integer :: ctype where "integer \<equiv> ScalarType SpecInt 0"
abbreviation longint :: ctype where "longint \<equiv> ScalarType SpecLong 0"

fun isScalar :: "ctype \<Rightarrow> bool" where
  "isScalar (ScalarType _ _) = True"
| "isScalar _ = False"

fun isArray :: "ctype \<Rightarrow> bool" where
  "isArray (ArrayType _ _ _) = True"
| "isArray _ = False"

fun isFunction :: "ctype \<Rightarrow> bool" where
  "isFunction (FunctionType _ _ _ _) = True"
| "isFunction _ = False"

fun isNumeric :: "ctype \<Rightarrow> bool" where
  "isNumeric (ScalarType _ n) = (n = 0)"
| "isNumeric _ = False"

fun isPointer :: "ctype \<Rightarrow> bool" where
  "isPointer (ScalarType _ n) = (n > 0)"
| "isPointer _ = False"

definition isCompatibleWith :: "ctype \<Rightarrow> ctype \<Rightarrow> bool" where
  "isCompatibleWith t u \<longleftrightarrow> (isNumeric t \<and> isNumeric u) \<or> (isScalar t \<and> t = u)"

fun decay_type :: "ctype \<Rightarrow> ctype" where
  "decay_type (ArrayType sp n _) = ScalarType sp (n + 1)"
| "decay_type t = t"

fun promote_type :: "ctype \<Rightarrow> ctype" where
  "promote_type t = (if t = character then integer else t)"

text \<open>The assertion of \<open>dereference\<close> fails on anything but a pointer.\<close>

fun dereference :: "ctype \<Rightarrow> ctype option" where
  "dereference (ScalarType sp n) = (if n > 0 then Some (ScalarType sp (n - 1)) else None)"
| "dereference _ = None"

fun cspec_size :: "cspec \<Rightarrow> u64" where
  "cspec_size SpecChar = 1"
| "cspec_size SpecInt = 4"
| "cspec_size SpecLong = 8"

text \<open>\<open>size\<close> computes with \<open>unsigned long\<close>: the product of an array length wraps.\<close>

fun type_size :: "ctype \<Rightarrow> u64 option" where
  "type_size (ScalarType sp n) = Some (if n > 0 then 8 else cspec_size sp)"
| "type_size (ArrayType sp n len) = Some (len * (if n > 0 then 8 else cspec_size sp))"
| "type_size _ = None"

fun type_alignment :: "ctype \<Rightarrow> nat option" where
  "type_alignment (ScalarType sp n) = Some (if n > 0 then 8 else unat (cspec_size sp))"
| "type_alignment (ArrayType sp n _) = Some (if n > 0 then 8 else unat (cspec_size sp))"
| "type_alignment _ = None"

subsection \<open>Symbols and scopes\<close>

record symbol =
  sym_id :: nat
  sym_name :: string
  sym_type :: ctype

type_synonym scope = "symbol list"

definition scope_find :: "scope \<Rightarrow> string \<Rightarrow> symbol option" where
  "scope_find sc name = find (\<lambda>sy. name = sym_name sy) sc"

fun scope_lookup :: "scope list \<Rightarrow> string \<Rightarrow> symbol option" where
  "scope_lookup [] name = None"
| "scope_lookup (sc # enclosing) name =
     (case scope_find sc name of
        Some sy \<Rightarrow> Some sy
      | None \<Rightarrow> scope_lookup enclosing name)"

text \<open>\<open>insert\<close> asserts that the name is new to the scope and appends.\<close>

definition scope_insert :: "scope \<Rightarrow> symbol \<Rightarrow> scope option" where
  "scope_insert sc sy = (if scope_find sc (sym_name sy) = None then Some (sc @ [sy]) else None)"

subsection \<open>Integer literals\<close>

definition is_blank :: "char \<Rightarrow> bool" where
  "is_blank c \<longleftrightarrow> c \<in> {CHR '' '', CHR 0x09, CHR 0x0A, CHR 0x0B, CHR 0x0C, CHR 0x0D}"

definition digit_value :: "char \<Rightarrow> nat option" where
  "digit_value c =
     (if CHR ''0'' \<le> c \<and> c \<le> CHR ''9'' then Some (of_char c - 48)
      else if CHR ''a'' \<le> c \<and> c \<le> CHR ''z'' then Some (of_char c - 87)
      else if CHR ''A'' \<le> c \<and> c \<le> CHR ''Z'' then Some (of_char c - 55)
      else None)"

definition digit_in :: "nat \<Rightarrow> char \<Rightarrow> bool" where
  "digit_in base c \<longleftrightarrow> (case digit_value c of Some d \<Rightarrow> d < base | None \<Rightarrow> False)"

definition digits_value :: "nat \<Rightarrow> string \<Rightarrow> nat" where
  "digits_value base ds = foldl (\<lambda>v c. v * base + the (digit_value c)) 0 ds"

definition strtoul_base :: "string \<Rightarrow> nat \<times> string" where
  "strtoul_base s =
     (if chd s = CHR ''0'' \<and> chd (tl s) \<in> {CHR ''x'', CHR ''X''} \<and> digit_in 16 (chd (drop 2 s))
      then (16, drop 2 s)
      else if chd s = CHR ''0'' then (8, s) else (10, s))"

text \<open>
  \<open>strtoul(s, &end, 0)\<close>: the value, whether \<open>errno\<close> is set (\<open>ERANGE\<close>), and the rest of the
  string from \<open>end\<close>.  White space and a sign may come first; the value of a negated number
  wraps; without digits nothing is consumed.
\<close>

definition strtoul :: "string \<Rightarrow> u64 \<times> bool \<times> string" where
  "strtoul s =
     (let s1 = dropWhile is_blank s;
          neg = (chd s1 = CHR ''-'');
          s2 = (if chd s1 \<in> {CHR ''+'', CHR ''-''} then tl s1 else s1);
          (base, s3) = strtoul_base s2;
          ds = takeWhile (digit_in base) s3;
          v = digits_value base ds
      in if ds = [] then (0, False, s)
         else if int v \<ge> 2 ^ 64 then (- 1, True, drop (length ds) s3)
         else (if neg then - of_nat v else of_nat v, False, drop (length ds) s3))"

text \<open>The decimal text a stream writes for an \<open>unsigned long\<close>.\<close>

fun dec_text :: "nat \<Rightarrow> string" where
  "dec_text n = (if n < 10 then [char_of (48 + n)] else dec_text (n div 10) @ [char_of (48 + n mod 10)])"

declare dec_text.simps [simp del]

subsection \<open>Facts about types\<close>

lemma isNumeric_iff: "isNumeric t \<longleftrightarrow> t = character \<or> t = integer \<or> t = longint"
  by (cases t rule: isNumeric.cases; simp) (metis cspec.exhaust)

lemma isPointer_scalar: "isPointer t \<Longrightarrow> isScalar t"
  by (cases t rule: isPointer.cases) auto

lemma isNumeric_scalar: "isNumeric t \<Longrightarrow> isScalar t"
  by (cases t rule: isNumeric.cases) auto

lemma isScalar_cases: "isScalar t \<longleftrightarrow> isNumeric t \<or> isPointer t"
  by (cases t rule: isScalar.cases) auto

lemma numeric_not_pointer: "isNumeric t \<Longrightarrow> \<not> isPointer t"
  by (cases t rule: isNumeric.cases) auto

lemma isCompatibleWith_commute: "isCompatibleWith t u = isCompatibleWith u t"
  by (auto simp: isCompatibleWith_def)

lemma dereference_Some: "isPointer t \<Longrightarrow> \<exists>u. dereference t = Some u \<and> isScalar u"
  by (cases t rule: isPointer.cases) auto

lemma type_size_scalar: "isScalar t \<Longrightarrow> \<exists>n. type_size t = Some n \<and> n \<in> {1, 4, 8}"
  by (cases t rule: isScalar.cases; simp) (metis cspec.exhaust cspec_size.simps)

text \<open>Decaying an array and dereferencing the pointer gives the type of its elements.\<close>

lemma dereference_decay: "dereference (decay_type (ArrayType sp n len)) = Some (ScalarType sp n)"
  by simp

lemma type_size_None: "type_size t = None \<longleftrightarrow> t = ErrorType \<or> isFunction t"
  by (cases t) auto

lemma type_alignment_None: "type_alignment t = None \<longleftrightarrow> t = ErrorType \<or> isFunction t"
  by (cases t) auto

lemma type_alignment_cases: "type_alignment t = Some a \<Longrightarrow> a \<in> {1, 4, 8}"
proof -
  have "unat (cspec_size sp) \<in> {1, 4, 8}" for sp by (cases sp) auto
  then show "type_alignment t = Some a \<Longrightarrow> a \<in> {1, 4, 8}" by (cases t) (auto split: if_splits)
qed

subsection \<open>Facts about scopes\<close>

lemma scope_find_SomeD: "scope_find sc n = Some sy \<Longrightarrow> sy \<in> set sc \<and> sym_name sy = n"
  by (auto simp: scope_find_def find_Some_iff)

lemma scope_find_None: "scope_find sc n = None \<longleftrightarrow> n \<notin> sym_name ` set sc"
  by (auto simp: scope_find_def find_None_iff)

lemma scope_find_append:
  "scope_find (xs @ ys) n = (case scope_find xs n of Some sy \<Rightarrow> Some sy | None \<Rightarrow> scope_find ys n)"
  by (induction xs) (auto simp: scope_find_def)

lemma scope_insert_Some: "scope_insert sc sy = Some sc' \<longleftrightarrow> sym_name sy \<notin> sym_name ` set sc \<and> sc' = sc @ [sy]"
  by (auto simp: scope_insert_def scope_find_None)

lemma scope_lookup_SomeD: "scope_lookup scs n = Some sy \<Longrightarrow> (\<exists>sc \<in> set scs. sy \<in> set sc) \<and> sym_name sy = n"
  by (induction scs) (auto split: option.splits dest: scope_find_SomeD)

lemma scope_lookup_None: "scope_lookup scs n = None \<longleftrightarrow> (\<forall>sc \<in> set scs. n \<notin> sym_name ` set sc)"
  by (induction scs) (auto simp: scope_find_None split: option.splits dest: scope_find_SomeD)

text \<open>A name inserted into the current scope hides the declarations of the enclosing scopes.\<close>

lemma lookup_after_insert:
  assumes "scope_insert sc sy = Some sc'"
  shows "scope_lookup (sc' # scs) n = (if n = sym_name sy then Some sy else scope_lookup (sc # scs) n)"
proof -
  have one: "scope_find [sy] m = (if m = sym_name sy then Some sy else None)" for m by (simp add: scope_find_def)
  have "scope_find sc (sym_name sy) = None" "sc' = sc @ [sy]"
    using assms by (auto simp: scope_insert_def split: if_splits)
  then show ?thesis by (auto simp: scope_find_append one split: option.splits)
qed

subsection \<open>Facts about literals\<close>

lemma digit_value_dec: "d < 10 \<Longrightarrow> digit_value (char_of (48 + d)) = Some d"
  by (auto simp: digit_value_def less_eq_char_def)

lemma digit_in_dec: "(d::nat) < 10 \<Longrightarrow> digit_in 10 (char_of (48 + d))"
  by (simp add: digit_in_def digit_value_dec)

lemma digits_value_snoc: "digits_value b (ds @ [c]) = digits_value b ds * b + the (digit_value c)"
  by (simp add: digits_value_def)

lemma dec_text_digits: "c \<in> set (dec_text n) \<Longrightarrow> digit_in 10 c"
proof (induction n rule: dec_text.induct)
  case (1 n)
  then show ?case by (subst (asm) dec_text.simps) (auto simp: digit_in_dec split: if_splits)
qed

lemma dec_text_value: "digits_value 10 (dec_text n) = n"
proof (induction n rule: dec_text.induct)
  case (1 n)
  then show ?case
    by (subst dec_text.simps) (auto simp: digits_value_snoc digit_value_dec, simp add: digits_value_def digit_value_dec)
qed

lemma dec_text_Nil [simp]: "dec_text n \<noteq> []"
  by (subst dec_text.simps) auto

lemma dec_text_hd: "0 < n \<Longrightarrow> hd (dec_text n) \<noteq> CHR ''0''"
proof (induction n rule: dec_text.induct)
  case (1 n)
  have "char_of (48 + d) \<noteq> CHR ''0''" if "0 < d" "d < 10" for d :: nat
  proof
    assume "char_of (48 + d) = CHR ''0''"
    then have "digit_value (CHR ''0'') = Some d" using digit_value_dec [OF that(2)] by simp
    then show False using that(1) by (simp add: digit_value_def)
  qed
  with 1 show ?case by (subst dec_text.simps) (auto simp: hd_append)
qed

lemma digit_not_space: "digit_in 10 c \<Longrightarrow> \<not> is_blank c \<and> c \<noteq> CHR ''+'' \<and> c \<noteq> CHR ''-''"
  by (auto simp: digit_in_def digit_value_def is_blank_def less_eq_char_def split: option.splits if_splits)

text \<open>
  The text of a literal made from a value reads back as that value.
\<close>

theorem strtoul_dec_text: "n < 2 ^ 64 \<Longrightarrow> strtoul (dec_text n) = (of_nat n, False, [])"
proof -
  assume n: "n < 2 ^ 64"
  obtain c cs where t: "dec_text n = c # cs" by (cases "dec_text n") auto
  have dig: "\<forall>x \<in> set (dec_text n). digit_in 10 x" using dec_text_digits by blast
  then have c: "\<not> is_blank c" "c \<noteq> CHR ''+''" "c \<noteq> CHR ''-''" using t digit_not_space by auto
  have d: "dropWhile is_blank (dec_text n) = dec_text n" using c(1) t by simp
  show ?thesis
  proof (cases "n = 0")
    case True
    have "dec_text 0 = ''0''" by code_simp
    then show ?thesis using True
      by (simp add: strtoul_def is_blank_def strtoul_base_def digit_in_def digit_value_def digits_value_def Let_def)
  next
    case False
    then have "c \<noteq> CHR ''0''" using dec_text_hd t by (metis list.sel(1) neq0_conv)
    then have b: "strtoul_base (dec_text n) = (10, dec_text n)" using t by (simp add: strtoul_base_def)
    have tw: "takeWhile (digit_in 10) (dec_text n) = dec_text n" using dig by (subst takeWhile_eq_all_conv) auto
    have h: "chd (dec_text n) = c" using t by simp
    show ?thesis using c n unfolding strtoul_def Let_def d h
      by (simp add: b tw dec_text_value not_le)
  qed
qed

end
