(* ===== verification/CcString.thy ===== *)
theory CcString
  imports CcType
begin

text \<open>
  Escape sequences of the host Tiny C compiler (\<open>string.cpp\<close>): \<open>parseString\<close> turns the text
  between the quotes of a literal into characters, \<open>escapeString\<close> writes a string for the
  assembler.  Reading one character past the end of a \<open>std::string\<close> gives NUL.
\<close>

abbreviation BACKSLASH :: char where "BACKSLASH \<equiv> CHR 0x5C"

subsection \<open>Parsing\<close>

definition is_octal :: "char \<Rightarrow> bool" where
  "is_octal c \<longleftrightarrow> CHR ''0'' \<le> c \<and> c \<le> CHR ''7''"

text \<open>The value of an escape is an \<open>unsigned\<close>, so a long run of hexadecimal digits wraps.\<close>

definition escape_value :: "u32 \<Rightarrow> string \<Rightarrow> u32" where
  "escape_value base ds = foldl (\<lambda>v c. v * base + of_nat (the (digit_value c))) 0 ds"

definition add_char :: "char \<Rightarrow> bool \<Rightarrow> bool \<Rightarrow> string \<times> bool \<times> bool \<Rightarrow> string \<times> bool \<times> bool" where
  "add_char c iv ov r = (case r of (result, invalid, overflow) \<Rightarrow> (c # result, iv \<or> invalid, ov \<or> overflow))"

definition simple_escape :: "char \<Rightarrow> char option" where
  "simple_escape c =
     (if c = CHR ''a'' then Some (CHR 0x07)
      else if c = CHR ''b'' then Some (CHR 0x08)
      else if c = CHR ''f'' then Some (CHR 0x0C)
      else if c = CHR ''n'' then Some (CHR 0x0A)
      else if c = CHR ''r'' then Some (CHR 0x0D)
      else if c = CHR ''t'' then Some (CHR 0x09)
      else if c = CHR ''v'' then Some (CHR 0x0B)
      else if c \<in> {BACKSLASH, CHR ''?'', CHR 0x27, CHR 0x22} then Some c
      else None)"

function parseString :: "string \<Rightarrow> string \<times> bool \<times> bool" where
  "parseString s =
     (if s = [] then ([], False, False)
      else if hd s \<noteq> BACKSLASH then add_char (hd s) False False (parseString (tl s))
      else
        let c = chd (tl s); rest = drop 2 s
        in if simple_escape c \<noteq> None then add_char (the (simple_escape c)) False False (parseString rest)
           else if c = CHR 0x0A then parseString rest
           else if c = CHR ''x'' then
             (let ds = takeWhile (digit_in 16) rest; val = escape_value 16 ds
              in if ds = [] then add_char (CHR ''x'') True False (parseString rest)
                 else add_char (char_of (unat val)) False (val > 255) (parseString (drop (length ds) rest)))
           else if is_octal c then
             (let ds = c # takeWhile is_octal (take 2 rest); val = escape_value 8 ds
              in add_char (char_of (unat val)) False (val > 255) (parseString (drop (length ds - 1) rest)))
           else add_char c True False (parseString rest))"
  by pat_completeness auto
termination
  by (relation "measure length") auto

declare parseString.simps [simp del]

subsection \<open>Escaping\<close>

definition is_print :: "char \<Rightarrow> bool" where
  "is_print c \<longleftrightarrow> CHR '' '' \<le> c \<and> c \<le> CHR ''~''"

text \<open>The three octal digits of \<open>%03o\<close> for an \<open>unsigned char\<close>.\<close>

definition octal3 :: "char \<Rightarrow> string" where
  "octal3 c = (let n = of_char c :: nat
     in [char_of (48 + n div 64), char_of (48 + n div 8 mod 8), char_of (48 + n mod 8)])"

definition escape_char :: "string \<Rightarrow> char \<Rightarrow> string" where
  "escape_char meta c = (if \<not> is_print c \<or> c \<in> set meta then BACKSLASH # octal3 c else [c])"

definition escapeString :: "string \<Rightarrow> string \<Rightarrow> string" where
  "escapeString s meta = concat (map (escape_char meta) s)"

subsection \<open>Round trip\<close>

lemma is_octal_digit: "d < 8 \<Longrightarrow> is_octal (char_of (48 + d :: nat)) \<and> digit_value (char_of (48 + d)) = Some d"
  by (auto simp: is_octal_def less_eq_char_def digit_value_def)

lemma not_octal: "\<not> is_octal (CHR ''a'')" "\<not> is_octal (CHR ''b'')" "\<not> is_octal (CHR ''f'')" "\<not> is_octal (CHR ''n'')"
  "\<not> is_octal (CHR ''r'')" "\<not> is_octal (CHR ''t'')" "\<not> is_octal (CHR ''v'')" "\<not> is_octal (CHR ''x'')" "\<not> is_octal BACKSLASH"
  "\<not> is_octal (CHR ''?'')" "\<not> is_octal (CHR 0x27)" "\<not> is_octal (CHR 0x22)" "\<not> is_octal (CHR 0x0A)"
  by (simp_all add: is_octal_def less_eq_char_def)

lemma octal_not_special: "is_octal c \<Longrightarrow> simple_escape c = None \<and> c \<noteq> CHR 0x0A \<and> c \<noteq> CHR ''x''"
  unfolding simple_escape_def using not_octal by (auto simp del: char.inject)

lemma octal_split: "(n::nat) div 64 * 64 + n div 8 mod 8 * 8 + n mod 8 = n"
proof -
  have "n div 64 = n div 8 div 8" by (simp add: div_mult2_eq [symmetric])
  then show ?thesis using div_mult_mod_eq [of "n div 8" 8] div_mult_mod_eq [of n 8] by linarith
qed

lemma of_char_less: "of_char c < (256 :: nat)"
  using of_char_mod_256 [of c, where 'a = nat] by (metis mod_less_divisor zero_less_numeral)

lemma escape_value_octal3:
  "escape_value 8 (octal3 c) = of_nat (of_char c :: nat)" "length (octal3 c) = 3" "\<forall>x \<in> set (octal3 c). is_octal x"
proof -
  define n :: nat where "n = of_char c"
  have n: "n < 256" unfolding n_def by (rule of_char_less)
  have d: "n div 64 < 8" "n div 8 mod 8 < 8" "n mod 8 < 8" using n by auto
  show "escape_value 8 (octal3 c) = of_nat (of_char c :: nat)"
    unfolding octal3_def Let_def n_def [symmetric] escape_value_def
    using is_octal_digit [OF d(1)] is_octal_digit [OF d(2)] is_octal_digit [OF d(3)]
      arg_cong [OF octal_split [of n], of "of_nat :: nat \<Rightarrow> u32"] by (simp add: algebra_simps)
  show "length (octal3 c) = 3" by (simp add: octal3_def Let_def)
  show "\<forall>x \<in> set (octal3 c). is_octal x"
    unfolding octal3_def Let_def n_def [symmetric]
    using is_octal_digit [OF d(1)] is_octal_digit [OF d(2)] is_octal_digit [OF d(3)] by simp
qed

lemma unat_255: "unat (255 :: u32) = 255"
  by simp

lemma parseString_octal3: "parseString (BACKSLASH # octal3 c @ r) = add_char c False False (parseString r)"
proof -
  obtain x y z where o: "octal3 c = [x, y, z]" by (simp add: octal3_def Let_def)
  note v = escape_value_octal3 [of c]
  have oct: "is_octal x" "is_octal y" "is_octal z" using v(3) o by auto
  have n: "of_char c < (256 :: nat)" by (rule of_char_less)
  have u: "unat (of_nat (of_char c :: nat) :: u32) = of_char c" using n order.strict_trans [OF n, of 4294967296] by (simp add: unat_of_nat)
  have le: "\<not> (255 :: u32) < of_nat (of_char c :: nat)"
    using n unfolding word_less_nat_alt u unat_255 by linarith
  show ?thesis
    using oct octal_not_special [OF oct(1)] v(1) le u unfolding o
    by (subst parseString.simps) (simp add: Let_def)
qed

lemma parseString_plain: "c \<noteq> BACKSLASH \<Longrightarrow> parseString (c # r) = add_char c False False (parseString r)"
  by (subst parseString.simps) simp

lemma add_char_ok: "add_char c False False (s, False, False) = (c # s, False, False)"
  by (simp add: add_char_def)

text \<open>
  C37: A string whose backslashes are among the characters to escape is read back exactly, with
  neither an invalid escape nor an overflow.
\<close>

theorem parseString_escapeString:
  assumes "BACKSLASH \<in> set meta \<or> BACKSLASH \<notin> set s"
  shows "parseString (escapeString s meta) = (s, False, False)"
  using assms
proof (induction s)
  case Nil
  then show ?case by (simp add: escapeString_def parseString.simps)
next
  case (Cons c s)
  then have ih: "parseString (concat (map (escape_char meta) s)) = (s, False, False)"
    by (auto simp: escapeString_def)
  show ?case
  proof (cases "\<not> is_print c \<or> c \<in> set meta")
    case True
    then show ?thesis
      using parseString_octal3 [of c "concat (map (escape_char meta) s)"]
      by (simp add: escapeString_def escape_char_def ih add_char_ok)
  next
    case False
    then have "c \<noteq> BACKSLASH" using Cons.prems by auto
    with False show ?thesis
      by (simp add: escapeString_def escape_char_def parseString_plain ih add_char_ok)
  qed
qed

theorem parseString_escapeString_witness:
  "parseString (escapeString [CHR ''a'', CHR 0x22, CHR 0x0A] [CHR 0x22]) = ([CHR ''a'', CHR 0x22, CHR 0x0A], False, False)"
  by (rule parseString_escapeString) simp

text \<open>
  The call in \<open>generateGlobals\<close> takes the default \<open>meta\<close>, the double quote alone, so a
  backslash, which is printable, is written as it is: the two characters backslash and \<open>n\<close>
  come back as one newline.
\<close>

theorem escapeString_backslash:
  "escapeString [BACKSLASH, CHR ''n''] [CHR 0x22] = [BACKSLASH, CHR ''n'']"
  "parseString (escapeString [BACKSLASH, CHR ''n''] [CHR 0x22]) = ([CHR 0x0A], False, False)"
proof -
  show e: "escapeString [BACKSLASH, CHR ''n''] [CHR 0x22] = [BACKSLASH, CHR ''n'']"
    by (simp add: escapeString_def escape_char_def is_print_def less_eq_char_def)
  show "parseString (escapeString [BACKSLASH, CHR ''n''] [CHR 0x22]) = ([CHR 0x0A], False, False)"
    unfolding e by (subst parseString.simps, subst parseString.simps) (simp add: simple_escape_def add_char_def)
qed

end
