(* ===== verification/CcTree.thy ===== *)
theory CcTree
  imports CcString
begin

text \<open>
  Abstract syntax trees of the host Tiny C compiler (\<open>Tree.h\<close>, \<open>Tree.cpp\<close>): the class
  hierarchy as datatypes, the constructors that compute (the type of a literal, whether an
  expression is an lvalue), and the typing rules that an elaborated tree obeys, which are the
  contract between the semantic checker and the code generator.  A node stores its type; a
  \<open>null\<close> statement pointer is \<open>None\<close>.
\<close>

subsection \<open>Nodes\<close>

datatype binop =
    Multiply | Divide | Remainder | Add | Subtract
  | LessThan | GreaterThan | LessOrEqual | GreaterOrEqual | Equal | NotEqual
  | LogicalAnd | LogicalOr

datatype cexpr =
    StringLit string
  | Identifier symbol
  | Number string ctype
  | Call symbol "cexpr list" ctype
  | NotE cexpr ctype
  | Negate cexpr ctype
  | Dereference cexpr ctype
  | Address cexpr ctype
  | Cast cexpr ctype
  | Binary binop cexpr cexpr ctype

datatype cstmt =
    Assignment cexpr cexpr
  | Break
  | Return cexpr
  | Block scope "cstmt list"
  | While cexpr cstmt
  | For cstmt cexpr cstmt cstmt
  | If cexpr cstmt "cstmt option"
  | Simple cexpr

datatype cfunction = Function symbol scope "cstmt list"

fun type_of :: "cexpr \<Rightarrow> ctype" where
  "type_of (StringLit v) = ArrayType SpecChar 0 (of_nat (length v) + 1)"
| "type_of (Identifier sy) = sym_type sy"
| "type_of (Number _ t) = t"
| "type_of (Call _ _ t) = t"
| "type_of (NotE _ t) = t"
| "type_of (Negate _ t) = t"
| "type_of (Dereference _ t) = t"
| "type_of (Address _ t) = t"
| "type_of (Cast _ t) = t"
| "type_of (Binary _ _ _ t) = t"

fun lvalue :: "cexpr \<Rightarrow> bool" where
  "lvalue (Identifier sy) = isScalar (sym_type sy)"
| "lvalue (Dereference _ _) = True"
| "lvalue _ = False"

text \<open>\<open>Number(unsigned long)\<close>: always of type \<open>long\<close>.\<close>

definition number_of_value :: "u64 \<Rightarrow> cexpr" where
  "number_of_value v = Number (dec_text (unat v)) longint"

text \<open>\<open>Number(const string &)\<close>: of type error, \<open>int\<close> or \<open>long\<close>; an \<open>l\<close> suffix is erased.\<close>

definition number_of_text :: "string \<Rightarrow> cexpr" where
  "number_of_text s =
     (let (val, errno, ptr) = strtoul s;
          suffix = chd ptr \<in> {CHR ''l'', CHR ''L''}
      in Number (if suffix then butlast s else s)
           (if errno then ErrorType
            else if suffix \<or> val \<noteq> ucast (ucast val :: u32) then longint else integer))"

fun isNumber :: "cexpr \<Rightarrow> u64 option" where
  "isNumber (Number txt _) = Some (fst (strtoul txt))"
| "isNumber _ = None"

fun isDereference :: "cexpr \<Rightarrow> cexpr option" where
  "isDereference (Dereference e _) = Some e"
| "isDereference _ = None"

subsection \<open>Well-typed trees\<close>

text \<open>A conversion the language allows.\<close>

definition castable :: "ctype \<Rightarrow> ctype \<Rightarrow> bool" where
  "castable from to \<longleftrightarrow>
     (isNumeric to \<and> isNumeric from) \<or> (isPointer to \<and> isPointer from) \<or>
     (isPointer to \<and> from = longint) \<or> (to = longint \<and> isPointer from)"

text \<open>An operand after the usual conversions: a scalar that is not a \<open>char\<close>.\<close>

definition operand_type :: "ctype \<Rightarrow> bool" where
  "operand_type t \<longleftrightarrow> isScalar t \<and> t \<noteq> character"

fun binary_type :: "binop \<Rightarrow> ctype \<Rightarrow> ctype \<Rightarrow> ctype \<Rightarrow> bool" where
  "binary_type Add t1 t2 t \<longleftrightarrow>
     (isNumeric t1 \<and> t1 \<noteq> character \<and> t2 = t1 \<and> t = t1) \<or>
     (isPointer t1 \<and> t2 = longint \<and> t = t1) \<or> (t1 = longint \<and> isPointer t2 \<and> t = t2)"
| "binary_type Subtract t1 t2 t \<longleftrightarrow>
     (isNumeric t1 \<and> t1 \<noteq> character \<and> t2 = t1 \<and> t = t1) \<or>
     (isPointer t1 \<and> t2 = longint \<and> t = t1) \<or> (isPointer t1 \<and> t2 = t1 \<and> t = longint)"
| "binary_type LogicalAnd t1 t2 t \<longleftrightarrow> operand_type t1 \<and> operand_type t2 \<and> t = integer"
| "binary_type LogicalOr t1 t2 t \<longleftrightarrow> operand_type t1 \<and> operand_type t2 \<and> t = integer"
| "binary_type op t1 t2 t \<longleftrightarrow>
     (if op \<in> {Multiply, Divide, Remainder}
      then isNumeric t1 \<and> t1 \<noteq> character \<and> t2 = t1 \<and> t = t1
      else operand_type t1 \<and> t2 = t1 \<and> t = integer)"

fun call_type :: "ctype \<Rightarrow> ctype list \<Rightarrow> ctype \<Rightarrow> bool" where
  "call_type (FunctionType sp n variadic ps) ts t \<longleftrightarrow>
     t = ScalarType sp n \<and> length ps \<le> length ts \<and> (\<not> variadic \<longrightarrow> length ts = length ps) \<and>
     take (length ps) ts = ps \<and> list_all operand_type (drop (length ps) ts)"
| "call_type _ _ _ \<longleftrightarrow> False"

fun wt :: "cexpr \<Rightarrow> bool" where
  "wt (StringLit _) = True"
| "wt (Identifier sy) = (sym_type sy \<noteq> ErrorType)"
| "wt (Number txt t) = (t = longint \<or> t = integer \<and> fst (strtoul txt) < 2 ^ 32)"
| "wt (Call f args t) = (list_all wt args \<and> call_type (sym_type f) (map type_of args) t)"
| "wt (NotE e t) = (wt e \<and> operand_type (type_of e) \<and> t = integer)"
| "wt (Negate e t) = (wt e \<and> isNumeric (type_of e) \<and> type_of e \<noteq> character \<and> t = type_of e)"
| "wt (Dereference e t) = (wt e \<and> dereference (type_of e) = Some t)"
| "wt (Address e t) = (wt e \<and> (lvalue e \<and> dereference t = Some (type_of e) \<or>
                                isArray (type_of e) \<and> t = decay_type (type_of e)))"
| "wt (Cast e t) = (wt e \<and> castable (type_of e) t)"
| "wt (Binary op l r t) = (wt l \<and> wt r \<and> binary_type op (type_of l) (type_of r) t)"

text \<open>A type a variable can have.\<close>

definition object_type :: "ctype \<Rightarrow> bool" where
  "object_type t \<longleftrightarrow> isScalar t \<or> isArray t"

definition scope_ok :: "scope \<Rightarrow> bool" where
  "scope_ok sc \<longleftrightarrow> distinct (map sym_name sc) \<and> list_all (object_type \<circ> sym_type) sc"

definition test_ok :: "cexpr \<Rightarrow> bool" where
  "test_ok e \<longleftrightarrow> wt e \<and> operand_type (type_of e)"

fun wt_stmt :: "ctype \<Rightarrow> nat \<Rightarrow> cstmt \<Rightarrow> bool" where
  "wt_stmt ret depth (Assignment l r) = (wt l \<and> wt r \<and> lvalue l \<and> type_of r = type_of l)"
| "wt_stmt ret depth Break = (0 < depth)"
| "wt_stmt ret depth (Return e) = (wt e \<and> type_of e = ret)"
| "wt_stmt ret depth (Block sc ss) = (scope_ok sc \<and> list_all (wt_stmt ret depth) ss)"
| "wt_stmt ret depth (While e s) = (test_ok e \<and> wt_stmt ret (depth + 1) s)"
| "wt_stmt ret depth (For i e c s) =
     (wt_stmt ret depth i \<and> test_ok e \<and> wt_stmt ret depth c \<and> wt_stmt ret (depth + 1) s)"
| "wt_stmt ret depth (If e s els) =
     (test_ok e \<and> wt_stmt ret depth s \<and> (case els of None \<Rightarrow> True | Some s' \<Rightarrow> wt_stmt ret depth s'))"
| "wt_stmt ret depth (Simple e) = wt e"

text \<open>
  A function whose name has a function type, whose first declarations are its parameters,
  all scalars, and whose body is well typed for its result type.
\<close>

fun wt_function :: "cfunction \<Rightarrow> bool" where
  "wt_function (Function f decls body) =
     (case sym_type f of
        FunctionType sp n _ ps \<Rightarrow>
          scope_ok decls \<and> length ps \<le> length decls \<and> map sym_type (take (length ps) decls) = ps \<and>
          list_all isScalar ps \<and> list_all (wt_stmt (ScalarType sp n) 0) body
      | _ \<Rightarrow> False)"

subsection \<open>Facts\<close>

lemma operand_type_scalar: "operand_type t \<Longrightarrow> isScalar t"
  by (simp add: operand_type_def)

lemma castable_scalar: "castable t u \<Longrightarrow> isScalar t \<and> isScalar u"
  by (auto simp: castable_def isScalar_cases)

lemma binary_type_scalar: "binary_type op t1 t2 t \<Longrightarrow> isScalar t"
  by (cases op) (auto simp: isScalar_cases split: if_splits)

lemma dereference_scalar: "dereference t = Some u \<Longrightarrow> isPointer t \<and> isScalar u"
  by (cases t rule: dereference.cases) (auto split: if_splits)

text \<open>
  A well-typed expression has a scalar type, unless it names an array or a function or is a
  string literal; it never has the error type.
\<close>

lemma wt_scalar: "wt e \<Longrightarrow> isScalar (type_of e) \<or> isArray (type_of e) \<or> (\<exists>sy. e = Identifier sy \<and> isFunction (sym_type sy))"
proof (cases e)
  case (Identifier sy)
  then show "wt e \<Longrightarrow> ?thesis" by (cases "sym_type sy") auto
next
  case (Call f args t)
  then show "wt e \<Longrightarrow> ?thesis" by (cases "sym_type f") auto
qed (auto simp: isNumeric_scalar isArray.simps dest: dereference_scalar castable_scalar binary_type_scalar isPointer_scalar
      elim: isArray.elims)

lemma wt_not_error: "wt e \<Longrightarrow> type_of e \<noteq> ErrorType"
  using wt_scalar [of e] by auto

lemma lvalue_scalar: "wt e \<Longrightarrow> lvalue e \<Longrightarrow> isScalar (type_of e)"
  by (cases e rule: lvalue.cases) (auto dest: dereference_scalar)

lemma wt_number_of_value [simp]: "wt (number_of_value v)" "type_of (number_of_value v) = longint"
  by (simp_all add: number_of_value_def)

lemma isNumber_number_of_value: "isNumber (number_of_value v) = Some v"
  using strtoul_dec_text [of "unat v"] unsigned_less [of v, where 'a = nat] by (simp add: number_of_value_def)

lemma ucast_ucast_small: "(v :: u64) = ucast (ucast v :: u32) \<Longrightarrow> v < 2 ^ 32"
proof -
  have "unat (ucast (ucast v :: u32) :: u64) = unat (ucast v :: u32)" by simp
  moreover have "unat (ucast v :: u32) < 2 ^ 32" using unsigned_less [of "ucast v :: u32", where 'a = nat] by simp
  ultimately show "v = ucast (ucast v :: u32) \<Longrightarrow> v < 2 ^ 32" by (simp add: word_less_nat_alt)
qed

lemma wt_number_of_text: "\<not> fst (snd (strtoul s)) \<Longrightarrow> wt (number_of_text s)"
  using ucast_ucast_small [of "fst (strtoul s)"]
  by (auto simp: number_of_text_def Let_def split: prod.splits)

end
