(* ===== verification/CcCheck.thy ===== *)
theory CcCheck
  imports CcTree
begin

text \<open>
  The semantic checker of the host Tiny C compiler (\<open>checker.cpp\<close>).  A checking function
  takes the trees of its operands and returns the messages it reports, in order, with the
  tree it builds; \<open>numerrors\<close> is the number of messages.  The declaration functions also
  change the scopes, the set of defined functions and the supply of symbol addresses.

  \<open>checkCall\<close> has the result \<open>None\<close> for a call on which its second loop never ends.  The
  functions read operand types through references; \<open>checkSubtract\<close> reads one of them after
  \<open>scale\<close> may have deleted the object it points into (\<open>subtract_dangles\<close>), and the model reads
  the type the object had.
\<close>

datatype message =
    Redefined string | Redeclared string | Conflicting string | Undeclared string
  | InvalidBreak | InvalidReturn | InvalidScalar | InvalidLvalue
  | InvalidOperands string | InvalidOperand string | InvalidSizeof | InvalidCast
  | InvalidFunction | InvalidArguments
  | SyntaxError string | SyntaxErrorEof
  | UnterminatedComment | IntegerTooLarge | UnknownEscape | EscapeRange | MultiCharacter

type_synonym 'a checked = "message list \<times> 'a"

subsection \<open>Conversions\<close>

definition cast :: "cexpr \<Rightarrow> ctype \<Rightarrow> cexpr" where
  "cast e t =
     (let e1 = (case isNumber e of
                  Some v \<Rightarrow> (if type_of e = integer \<and> t = longint then number_of_value v else e)
                | None \<Rightarrow> e)
      in if type_of e1 \<noteq> t then Cast e1 t else e1)"

definition promote :: "cexpr \<Rightarrow> cexpr" where
  "promote e = cast e (promote_type (type_of e))"

definition decay :: "cexpr \<Rightarrow> cexpr" where
  "decay e = (if isArray (type_of e) then Address e (decay_type (type_of e)) else e)"

definition extend_to :: "cexpr \<Rightarrow> ctype \<Rightarrow> cexpr" where
  "extend_to e t =
     (if (type_of e = character \<or> type_of e = integer) \<and> t = longint then cast e longint
      else promote e)"

definition scale :: "cexpr \<Rightarrow> u32 \<Rightarrow> cexpr" where
  "scale e n =
     (if n = 1 then extend_to e longint
      else case isNumber e of
             Some v \<Rightarrow> number_of_value (v * ucast n)
           | None \<Rightarrow> Binary Multiply (extend_to e longint) (number_of_value (ucast n)) longint)"

text \<open>The size of the object a pointer points to, as the \<open>unsigned\<close> argument of \<open>scale\<close>.\<close>

definition pointee_size :: "ctype \<Rightarrow> u32" where
  "pointee_size t = ucast (the (type_size (the (dereference t))))"

subsection \<open>Scopes and declarations\<close>

record checker =
  defined :: "string list"
  scopes :: "scope list"
  next_id :: nat

definition openScope :: "checker \<Rightarrow> checker" where
  "openScope c = c\<lparr>scopes := [] # scopes c\<rparr>"

definition closeScope :: "checker \<Rightarrow> scope \<times> checker" where
  "closeScope c = (hd (scopes c), c\<lparr>scopes := tl (scopes c)\<rparr>)"

definition new_symbol :: "string \<Rightarrow> ctype \<Rightarrow> checker \<Rightarrow> symbol \<times> checker" where
  "new_symbol name t c =
     (\<lparr>sym_id = next_id c, sym_name = name, sym_type = t\<rparr>, c\<lparr>next_id := next_id c + 1\<rparr>)"

text \<open>\<open>current->insert\<close> and \<open>global->insert\<close>, on names the callers have looked up.\<close>

definition insert_current :: "symbol \<Rightarrow> checker \<Rightarrow> checker" where
  "insert_current sy c = c\<lparr>scopes := the (scope_insert (hd (scopes c)) sy) # tl (scopes c)\<rparr>"

definition insert_global :: "symbol \<Rightarrow> checker \<Rightarrow> checker" where
  "insert_global sy c =
     c\<lparr>scopes := butlast (scopes c) @ [the (scope_insert (last (scopes c)) sy)]\<rparr>"

definition declareFunction :: "string \<Rightarrow> ctype \<Rightarrow> checker \<Rightarrow> (symbol \<times> checker) checked" where
  "declareFunction name t c =
     (case scope_find (last (scopes c)) name of
        None \<Rightarrow> (let (sy, c1) = new_symbol name t c in ([], sy, insert_global sy c1))
      | Some sy \<Rightarrow> (if sym_type sy \<noteq> t then [Conflicting name] else [], sy, c))"

definition defineFunction :: "string \<Rightarrow> ctype \<Rightarrow> checker \<Rightarrow> (symbol \<times> checker) checked" where
  "defineFunction name t c =
     (let ms = (if name \<in> set (defined c) then [Redefined name] else []);
          (ms', r) = declareFunction name t (c\<lparr>defined := List.insert name (defined c)\<rparr>)
      in (ms @ ms', r))"

definition declareVariable :: "string \<Rightarrow> ctype \<Rightarrow> checker \<Rightarrow> (symbol \<times> checker) checked" where
  "declareVariable name t c =
     (case scope_find (hd (scopes c)) name of
        None \<Rightarrow> (let (sy, c1) = new_symbol name t c in ([], sy, insert_current sy c1))
      | Some sy \<Rightarrow>
          (if tl (scopes c) \<noteq> [] then [Redeclared name]
           else if sym_type sy \<noteq> t then [Conflicting name] else [], sy, c))"

definition checkIdentifier :: "string \<Rightarrow> checker \<Rightarrow> (symbol \<times> checker) checked" where
  "checkIdentifier name c =
     (case scope_lookup (scopes c) name of
        Some sy \<Rightarrow> ([], sy, c)
      | None \<Rightarrow> (let (sy, c1) = new_symbol name ErrorType c in ([Undeclared name], sy, insert_current sy c1)))"

subsection \<open>Calls\<close>

text \<open>
  The arguments before any ellipsis: whether all are accepted, and the argument vector with
  the conversions made so far.
\<close>

fun fixed_args :: "ctype list \<Rightarrow> cexpr list \<Rightarrow> bool \<times> cexpr list" where
  "fixed_args (p # ps) (a # as) =
     (if type_of a \<noteq> ErrorType then
        let a' = decay a
        in if \<not> isCompatibleWith p (type_of a') then (False, a' # as)
           else let (ok, as') = fixed_args ps as in (ok, cast a' p # as')
      else let (ok, as') = fixed_args ps as in (ok, a # as'))"
| "fixed_args _ as = (True, as)"

text \<open>
  The arguments after it: the index advances only past an argument whose type is not the
  error type, so the loop stays at one that has it.
\<close>

fun extra_args :: "cexpr list \<Rightarrow> (bool \<times> cexpr list) option" where
  "extra_args [] = Some (True, [])"
| "extra_args (a # as) =
     (if type_of a = ErrorType then None
      else let a' = decay (promote a)
           in if \<not> isScalar (type_of a') then Some (False, a' # as)
              else map_option (\<lambda>(ok, as'). (ok, a' # as')) (extra_args as))"

definition checkCall :: "symbol \<Rightarrow> cexpr list \<Rightarrow> cexpr checked option" where
  "checkCall f args =
     (case sym_type f of
        ErrorType \<Rightarrow> Some ([], Call f args ErrorType)
      | FunctionType sp n variadic ps \<Rightarrow>
          (if length args < length ps then Some ([InvalidArguments], Call f args ErrorType)
           else if \<not> variadic \<and> length args > length ps then Some ([InvalidArguments], Call f args ErrorType)
           else
             let (ok, front) = fixed_args ps (take (length ps) args); rest = drop (length ps) args
             in if \<not> ok then Some ([InvalidArguments], Call f (front @ rest) ErrorType)
                else case extra_args rest of
                       None \<Rightarrow> None
                     | Some (ok', rest') \<Rightarrow>
                         Some (if \<not> ok' then ([InvalidArguments], Call f (front @ rest') ErrorType)
                               else ([], Call f (front @ rest') (ScalarType sp n))))
      | _ \<Rightarrow> Some ([InvalidFunction], Call f args ErrorType))"

subsection \<open>Unary expressions\<close>

definition checkArray :: "cexpr \<Rightarrow> cexpr \<Rightarrow> cexpr checked" where
  "checkArray left right =
     (let l = decay (promote left); r = decay (extend_to right longint);
          t1 = type_of l; t2 = type_of r
      in if t1 \<noteq> ErrorType \<and> t2 \<noteq> ErrorType then
           (if isPointer t1 \<and> isNumeric t2
            then ([], Dereference (Binary Add l (scale r (pointee_size t1)) t1) (the (dereference t1)))
            else ([InvalidOperands ''[]''], Dereference (Binary Add l r t1) ErrorType))
         else ([], Dereference (Binary Add l r t1) ErrorType))"

definition checkNot :: "cexpr \<Rightarrow> cexpr checked" where
  "checkNot e =
     (let e = decay (promote e); t = type_of e
      in if t \<noteq> ErrorType then
           (if isScalar t then ([], NotE e integer) else ([InvalidOperand ''!''], NotE e ErrorType))
         else ([], NotE e ErrorType))"

definition checkNegate :: "cexpr \<Rightarrow> cexpr checked" where
  "checkNegate e =
     (let e = decay (promote e); t = type_of e
      in if t \<noteq> ErrorType then
           (if isNumeric t then ([], Negate e t) else ([InvalidOperand ''-''], Negate e ErrorType))
         else ([], Negate e ErrorType))"

definition checkDereference :: "cexpr \<Rightarrow> cexpr checked" where
  "checkDereference e =
     (let e = decay e; t = type_of e
      in if t \<noteq> ErrorType then
           (if isPointer t then ([], Dereference e (the (dereference t)))
            else ([InvalidOperand ''*''], Dereference e ErrorType))
         else ([], Dereference e ErrorType))"

text \<open>The specifier and the pointer levels of a type that is not the error type.\<close>

fun specifier_of :: "ctype \<Rightarrow> cspec" where
  "specifier_of (ScalarType sp _) = sp"
| "specifier_of (ArrayType sp _ _) = sp"
| "specifier_of (FunctionType sp _ _ _) = sp"
| "specifier_of ErrorType = SpecInt"

fun indirection :: "ctype \<Rightarrow> nat" where
  "indirection (ScalarType _ n) = n"
| "indirection (ArrayType _ n _) = n"
| "indirection (FunctionType _ n _ _) = n"
| "indirection ErrorType = 0"

definition checkAddress :: "cexpr \<Rightarrow> cexpr checked" where
  "checkAddress e =
     (let t = type_of e
      in if t \<noteq> ErrorType then
           (if lvalue e then ([], Address e (ScalarType (specifier_of t) (indirection t + 1)))
            else ([InvalidLvalue], Address e ErrorType))
         else ([], Address e ErrorType))"

text \<open>The size is kept in an \<open>unsigned\<close> before it becomes a literal.\<close>

definition checkSizeof :: "cexpr \<Rightarrow> cexpr checked" where
  "checkSizeof e =
     (let t = type_of e
      in if t \<noteq> ErrorType then
           (if \<not> isFunction t then ([], number_of_value (ucast (ucast (the (type_size t)) :: u32)))
            else ([InvalidSizeof], number_of_value 0))
         else ([], number_of_value 0))"

definition checkCast :: "ctype \<Rightarrow> cexpr \<Rightarrow> cexpr checked" where
  "checkCast to e =
     (let e = decay e; t = type_of e
      in if t \<noteq> ErrorType then
           (if isNumeric to \<and> isNumeric t then ([], cast e to)
            else if isPointer to \<and> isPointer t then ([], cast e to)
            else if isPointer to \<and> t = longint then ([], cast e to)
            else if to = longint \<and> isPointer t then ([], cast e to)
            else ([InvalidCast], cast e ErrorType))
         else ([], cast e ErrorType))"

subsection \<open>Binary expressions\<close>

text \<open>
  The conversions the arithmetic and comparison operators share: each operand is extended to
  the type of the other, the right one after the left one has been converted.
\<close>

definition usual :: "cexpr \<Rightarrow> cexpr \<Rightarrow> cexpr \<times> cexpr" where
  "usual left right =
     (let l = decay (extend_to left (type_of right)); r = decay (extend_to right (type_of l)) in (l, r))"

definition checkMultiplicative :: "binop \<Rightarrow> string \<Rightarrow> cexpr \<Rightarrow> cexpr \<Rightarrow> cexpr checked" where
  "checkMultiplicative op name left right =
     (let (l, r) = usual left right; t1 = type_of l; t2 = type_of r
      in if t1 \<noteq> ErrorType \<and> t2 \<noteq> ErrorType then
           (if isNumeric t1 \<and> isNumeric t2 then ([], Binary op l r t1)
            else ([InvalidOperands name], Binary op l r ErrorType))
         else ([], Binary op l r ErrorType))"

definition checkMultiply :: "cexpr \<Rightarrow> cexpr \<Rightarrow> cexpr checked" where
  "checkMultiply = checkMultiplicative Multiply ''*''"

definition checkDivide :: "cexpr \<Rightarrow> cexpr \<Rightarrow> cexpr checked" where
  "checkDivide = checkMultiplicative Divide ''/''"

definition checkRemainder :: "cexpr \<Rightarrow> cexpr \<Rightarrow> cexpr checked" where
  "checkRemainder = checkMultiplicative Remainder ''%''"

definition checkAdd :: "cexpr \<Rightarrow> cexpr \<Rightarrow> cexpr checked" where
  "checkAdd left right =
     (let (l, r) = usual left right; t1 = type_of l; t2 = type_of r
      in if t1 \<noteq> ErrorType \<and> t2 \<noteq> ErrorType then
           (if isNumeric t1 \<and> isNumeric t2 then ([], Binary Add l r t1)
            else if isPointer t1 \<and> isNumeric t2 then ([], Binary Add l (scale r (pointee_size t1)) t1)
            else if isNumeric t1 \<and> isPointer t2 then ([], Binary Add (scale l (pointee_size t2)) r t2)
            else ([InvalidOperands ''+''], Binary Add l r ErrorType))
         else ([], Binary Add l r ErrorType))"

definition checkSubtract :: "cexpr \<Rightarrow> cexpr \<Rightarrow> cexpr checked" where
  "checkSubtract left right =
     (let (l, r) = usual left right; t1 = type_of l; t2 = type_of r;
          (ms, e) =
            (if t1 \<noteq> ErrorType \<and> t2 \<noteq> ErrorType then
               (if isNumeric t1 \<and> isNumeric t2 then ([], Binary Subtract l r t1)
                else if isPointer t1 \<and> t1 = t2 then ([], Binary Subtract l r longint)
                else if isPointer t1 \<and> isNumeric t2 then ([], Binary Subtract l (scale r (pointee_size t1)) t1)
                else ([InvalidOperands ''-''], Binary Subtract l r ErrorType))
             else ([], Binary Subtract l r ErrorType))
      in (ms, if isPointer t1 \<and> t1 = t2
              then Binary Divide e (number_of_value (ucast (pointee_size t1))) longint
              else e))"

text \<open>Whether \<open>scale\<close> has deleted the right operand when its type is compared again.\<close>

definition subtract_dangles :: "cexpr \<Rightarrow> cexpr \<Rightarrow> bool" where
  "subtract_dangles left right =
     (let (l, r) = usual left right; t1 = type_of l; t2 = type_of r
      in isPointer t1 \<and> isNumeric t2 \<and> isNumber r \<noteq> None \<and> (pointee_size t1 \<noteq> 1 \<or> t2 = integer))"

definition checkComparative :: "binop \<Rightarrow> string \<Rightarrow> cexpr \<Rightarrow> cexpr \<Rightarrow> cexpr checked" where
  "checkComparative op name left right =
     (let (l, r) = usual left right; t1 = type_of l; t2 = type_of r
      in if t1 \<noteq> ErrorType \<and> t2 \<noteq> ErrorType then
           (if isCompatibleWith t1 t2 then ([], Binary op l r integer)
            else ([InvalidOperands name], Binary op l r ErrorType))
         else ([], Binary op l r ErrorType))"

definition checkLessThan :: "cexpr \<Rightarrow> cexpr \<Rightarrow> cexpr checked" where
  "checkLessThan = checkComparative LessThan ''<''"

definition checkGreaterThan :: "cexpr \<Rightarrow> cexpr \<Rightarrow> cexpr checked" where
  "checkGreaterThan = checkComparative GreaterThan ''>''"

definition checkLessOrEqual :: "cexpr \<Rightarrow> cexpr \<Rightarrow> cexpr checked" where
  "checkLessOrEqual = checkComparative LessOrEqual ''<=''"

definition checkGreaterOrEqual :: "cexpr \<Rightarrow> cexpr \<Rightarrow> cexpr checked" where
  "checkGreaterOrEqual = checkComparative GreaterOrEqual ''>=''"

definition checkEqual :: "cexpr \<Rightarrow> cexpr \<Rightarrow> cexpr checked" where
  "checkEqual = checkComparative Equal ''==''"

definition checkNotEqual :: "cexpr \<Rightarrow> cexpr \<Rightarrow> cexpr checked" where
  "checkNotEqual = checkComparative NotEqual ''!=''"

definition checkLogical :: "binop \<Rightarrow> string \<Rightarrow> cexpr \<Rightarrow> cexpr \<Rightarrow> cexpr checked" where
  "checkLogical op name left right =
     (let l = decay (promote left); r = decay (promote right); t1 = type_of l; t2 = type_of r
      in if t1 \<noteq> ErrorType \<and> t2 \<noteq> ErrorType then
           (if isScalar t1 \<and> isScalar t2 then ([], Binary op l r integer)
            else ([InvalidOperands name], Binary op l r ErrorType))
         else ([], Binary op l r ErrorType))"

definition checkLogicalAnd :: "cexpr \<Rightarrow> cexpr \<Rightarrow> cexpr checked" where
  "checkLogicalAnd = checkLogical LogicalAnd ''&&''"

definition checkLogicalOr :: "cexpr \<Rightarrow> cexpr \<Rightarrow> cexpr checked" where
  "checkLogicalOr = checkLogical LogicalOr ''||''"

subsection \<open>Statements\<close>

definition checkTest :: "cexpr \<Rightarrow> cexpr checked" where
  "checkTest e =
     (let e = decay (promote e); t = type_of e
      in (if t \<noteq> ErrorType \<and> \<not> isScalar t then [InvalidScalar] else [], e))"

definition checkAssignment :: "cexpr \<Rightarrow> cexpr \<Rightarrow> cstmt checked" where
  "checkAssignment left right =
     (let r = decay right; t1 = type_of left; t2 = type_of r
      in if t1 \<noteq> ErrorType \<and> t2 \<noteq> ErrorType then
           (if \<not> lvalue left then ([InvalidLvalue], Assignment left r)
            else if \<not> isCompatibleWith t1 t2 then ([InvalidOperands ''=''], Assignment left r)
            else ([], Assignment left (cast r t1)))
         else ([], Assignment left r))"

definition checkReturn :: "cexpr \<Rightarrow> ctype \<Rightarrow> cstmt checked" where
  "checkReturn e ret =
     (let e = decay e; t = type_of e
      in if t \<noteq> ErrorType then
           (if isCompatibleWith t ret then ([], Return (cast e ret)) else ([InvalidReturn], Return e))
         else ([], Return e))"

definition checkBreak :: "nat \<Rightarrow> cstmt checked" where
  "checkBreak depth = (if depth = 0 then [InvalidBreak] else [], Break)"

subsection \<open>The conversions keep trees well typed\<close>

lemma type_of_cast [simp]: "type_of (cast e t) = t"
  by (simp add: cast_def Let_def)

lemma wt_cast: "wt e \<Longrightarrow> castable (type_of e) t \<or> type_of e = t \<Longrightarrow> wt (cast e t)"
  by (auto simp: cast_def Let_def castable_def split: option.splits)

lemma castable_promote: "castable t (promote_type t) \<or> t = promote_type t"
  by (simp add: castable_def)

lemma type_of_promote [simp]: "type_of (promote e) = promote_type (type_of e)"
  by (simp add: promote_def)

lemma wt_promote: "wt e \<Longrightarrow> wt (promote e)"
  unfolding promote_def by (rule wt_cast) (use castable_promote in auto)

lemma type_of_decay [simp]: "type_of (decay e) = decay_type (type_of e)"
  by (cases "type_of e") (simp_all add: decay_def)

lemma wt_decay: "wt e \<Longrightarrow> wt (decay e)"
  by (simp add: decay_def)

lemma type_of_extend:
  "type_of (extend_to e t) = (if type_of e \<in> {character, integer} \<and> t = longint then longint else promote_type (type_of e))"
  by (simp add: extend_to_def)

lemma wt_extend: "wt e \<Longrightarrow> wt (extend_to e t)"
  by (auto simp: extend_to_def castable_def intro!: wt_cast wt_promote)

lemma type_of_scale: "isNumeric (type_of e) \<Longrightarrow> type_of (scale e n) = longint"
  by (auto simp: scale_def type_of_extend isNumeric_iff split: option.splits)

lemma wt_scale: "wt e \<Longrightarrow> isNumeric (type_of e) \<Longrightarrow> wt (scale e n)"
  by (auto simp: scale_def type_of_extend isNumeric_iff wt_extend split: option.splits)

lemmas conversions = wt_promote wt_decay wt_extend wt_scale type_of_scale

lemma decay_promote: "decay_type (promote_type t) = promote_type (decay_type t)"
  by (cases t) auto

lemma decay_type_not_error [simp]: "decay_type t = ErrorType \<longleftrightarrow> t = ErrorType"
  by (cases t) auto

lemma promote_not_error [simp]: "promote_type t = ErrorType \<longleftrightarrow> t = ErrorType"
  by auto

lemma scalar_promote: "isScalar (promote_type t) = isScalar t" "isNumeric (promote_type t) = isNumeric t"
  "isPointer (promote_type t) = isPointer t" "promote_type t \<noteq> character"
  by auto

text \<open>The types of the operands after the usual conversions.\<close>

definition usual_types :: "ctype \<Rightarrow> ctype \<Rightarrow> ctype \<times> ctype" where
  "usual_types t u =
     (let t1 = decay_type (if t \<in> {character, integer} \<and> u = longint then longint else promote_type t)
      in (t1, decay_type (if u \<in> {character, integer} \<and> t1 = longint then longint else promote_type u)))"

lemma usual_sound:
  assumes "wt left" "wt right" "usual left right = (l, r)"
  shows "wt l" "wt r" "usual_types (type_of left) (type_of right) = (type_of l, type_of r)"
  using assms by (auto simp: usual_def usual_types_def Let_def type_of_extend intro!: wt_decay wt_extend)

lemma usual_types_numeric:
  "usual_types t u = (t1, t2) \<Longrightarrow> isNumeric t1 \<and> isNumeric t2 \<longleftrightarrow> isNumeric t \<and> isNumeric u"
  "usual_types t u = (t1, t2) \<Longrightarrow> isNumeric t1 \<Longrightarrow> isNumeric t2 \<Longrightarrow>
     t2 = t1 \<and> t1 = (if t = longint \<or> u = longint then longint else integer)"
  by (cases t; cases u; auto simp: usual_types_def Let_def isNumeric_iff split: if_splits;
      (metis cspec.exhaust))+

lemma usual_types_kinds:
  assumes "usual_types t u = (t1, t2)"
  shows "isPointer t1 \<longleftrightarrow> isPointer (decay_type t)" "isPointer t2 \<longleftrightarrow> isPointer (decay_type u)"
    "isPointer t1 \<Longrightarrow> t1 = decay_type t" "isPointer t2 \<Longrightarrow> t2 = decay_type u"
    "isNumeric t1 \<longleftrightarrow> isNumeric (decay_type t)" "isNumeric t2 \<longleftrightarrow> isNumeric (decay_type u)"
    "t1 = ErrorType \<longleftrightarrow> t = ErrorType" "t2 = ErrorType \<longleftrightarrow> u = ErrorType"
    "isScalar t1 \<longleftrightarrow> isScalar (decay_type t)" "isScalar t2 \<longleftrightarrow> isScalar (decay_type u)"
    "t1 \<noteq> character" "t2 \<noteq> character"
  using assms by (cases t; cases u; auto simp: usual_types_def Let_def split: if_splits)+

lemma isNumeric_decay [simp]: "isNumeric (decay_type t) = isNumeric t"
  by (cases t) auto

lemma decay_type_long [simp]: "decay_type t = longint \<longleftrightarrow> t = longint"
  by (cases t) auto

subsection \<open>What the operators accept\<close>

text \<open>
  The rules of the language for the binary operators, on the types the operands have once
  an array has become a pointer: which pairs are accepted, and the type of the result.
\<close>

fun accepts :: "binop \<Rightarrow> ctype \<Rightarrow> ctype \<Rightarrow> bool" where
  "accepts Add t u \<longleftrightarrow> isNumeric t \<and> isNumeric u \<or> isPointer t \<and> isNumeric u \<or> isNumeric t \<and> isPointer u"
| "accepts Subtract t u \<longleftrightarrow> isNumeric t \<and> isNumeric u \<or> isPointer t \<and> isNumeric u \<or> isPointer t \<and> t = u"
| "accepts LogicalAnd t u \<longleftrightarrow> isScalar t \<and> isScalar u"
| "accepts LogicalOr t u \<longleftrightarrow> isScalar t \<and> isScalar u"
| "accepts op t u \<longleftrightarrow>
     (if op \<in> {Multiply, Divide, Remainder} then isNumeric t \<and> isNumeric u
      else isNumeric t \<and> isNumeric u \<or> isPointer t \<and> t = u)"

definition result_type :: "binop \<Rightarrow> ctype \<Rightarrow> ctype \<Rightarrow> ctype" where
  "result_type op t u =
     (if op \<in> {Multiply, Divide, Remainder, Add, Subtract} then
        if isNumeric t \<and> isNumeric u then (if t = longint \<or> u = longint then longint else integer)
        else if op = Subtract \<and> isPointer u then longint
        else if isPointer t then t else u
      else integer)"

fun op_name :: "binop \<Rightarrow> string" where
  "op_name Multiply = ''*''" | "op_name Divide = ''/''" | "op_name Remainder = ''%''"
| "op_name Add = ''+''" | "op_name Subtract = ''-''"
| "op_name LessThan = ''<''" | "op_name GreaterThan = ''>''"
| "op_name LessOrEqual = ''<=''" | "op_name GreaterOrEqual = ''>=''"
| "op_name Equal = ''==''" | "op_name NotEqual = ''!=''"
| "op_name LogicalAnd = ''&&''" | "op_name LogicalOr = ''||''"

fun check_binary :: "binop \<Rightarrow> cexpr \<Rightarrow> cexpr \<Rightarrow> cexpr checked" where
  "check_binary Multiply = checkMultiply" | "check_binary Divide = checkDivide"
| "check_binary Remainder = checkRemainder"
| "check_binary Add = checkAdd" | "check_binary Subtract = checkSubtract"
| "check_binary LessThan = checkLessThan" | "check_binary GreaterThan = checkGreaterThan"
| "check_binary LessOrEqual = checkLessOrEqual" | "check_binary GreaterOrEqual = checkGreaterOrEqual"
| "check_binary Equal = checkEqual" | "check_binary NotEqual = checkNotEqual"
| "check_binary LogicalAnd = checkLogicalAnd" | "check_binary LogicalOr = checkLogicalOr"

text \<open>What a check of an operator on two well-typed operands promises.\<close>

definition check_ok :: "binop \<Rightarrow> cexpr \<Rightarrow> cexpr \<Rightarrow> cexpr checked \<Rightarrow> bool" where
  "check_ok op left right res \<longleftrightarrow>
     (let t = decay_type (type_of left); u = decay_type (type_of right)
      in if accepts op t u then fst res = [] \<and> wt (snd res) \<and> type_of (snd res) = result_type op t u
         else fst res = [InvalidOperands (op_name op)])"

lemma check_multiplicative_ok:
  assumes "wt left" "wt right" "op \<in> {Multiply, Divide, Remainder}"
  shows "check_ok op left right (checkMultiplicative op (op_name op) left right)"
proof -
  obtain l r where u: "usual left right = (l, r)" by fastforce
  note s = usual_sound [OF assms(1,2) u] and k = usual_types_kinds [OF usual_sound(3) [OF assms(1,2) u]]
  note n = usual_types_numeric [OF s(3)] and e = wt_not_error [OF assms(1)] wt_not_error [OF assms(2)]
  show ?thesis using assms(3) s(1,2) k n e
    by (auto simp: check_ok_def checkMultiplicative_def u Let_def result_type_def)
qed

lemma check_comparative_ok:
  assumes "wt left" "wt right" "op \<notin> {Multiply, Divide, Remainder, Add, Subtract, LogicalAnd, LogicalOr}"
  shows "check_ok op left right (checkComparative op (op_name op) left right)"
proof -
  obtain l r where u: "usual left right = (l, r)" by fastforce
  note s = usual_sound [OF assms(1,2) u] and k = usual_types_kinds [OF usual_sound(3) [OF assms(1,2) u]]
  note n = usual_types_numeric [OF s(3)] and e = wt_not_error [OF assms(1)] wt_not_error [OF assms(2)]
  have c: "isCompatibleWith (type_of l) (type_of r) \<longleftrightarrow> accepts op (decay_type (type_of left)) (decay_type (type_of right))"
    using assms(3) k(1-6) by (cases op) (auto simp: isCompatibleWith_def isScalar_cases)
  have b: "binary_type op (type_of l) (type_of r) integer" if "isCompatibleWith (type_of l) (type_of r)"
    using that assms(3) n k(11) by (cases op) (auto simp: isCompatibleWith_def operand_type_def isNumeric_scalar)
  show ?thesis using assms(3) s(1,2) k(7,8) e b
    by (simp add: check_ok_def checkComparative_def u Let_def c result_type_def)
qed

lemma check_logical_ok:
  assumes "wt left" "wt right" "op \<in> {LogicalAnd, LogicalOr}"
  shows "check_ok op left right (checkLogical op (op_name op) left right)"
  using assms wt_not_error [OF assms(1)] wt_not_error [OF assms(2)]
  by (auto simp: check_ok_def checkLogical_def Let_def result_type_def operand_type_def decay_promote scalar_promote
      decay_type_not_error conversions simp del: promote_type.simps)

lemma check_add_ok:
  assumes "wt left" "wt right"
  shows "check_ok Add left right (checkAdd left right)"
proof -
  obtain l r where u: "usual left right = (l, r)" by fastforce
  note s = usual_sound [OF assms u] and k = usual_types_kinds [OF usual_sound(3) [OF assms u]]
  note n = usual_types_numeric [OF s(3)] and e = wt_not_error [OF assms(1)] wt_not_error [OF assms(2)]
  show ?thesis using s(1,2) k n e
    by (auto simp: check_ok_def checkAdd_def u Let_def result_type_def conversions numeric_not_pointer)
qed

lemma check_subtract_ok:
  assumes "wt left" "wt right"
  shows "check_ok Subtract left right (checkSubtract left right)"
proof -
  obtain l r where u: "usual left right = (l, r)" by fastforce
  note s = usual_sound [OF assms u] and k = usual_types_kinds [OF usual_sound(3) [OF assms u]]
  note n = usual_types_numeric [OF s(3)] and e = wt_not_error [OF assms(1)] wt_not_error [OF assms(2)]
  let ?t = "type_of l" and ?u = "type_of r"
  consider (num) "isNumeric ?t" "isNumeric ?u" | (same) "isPointer ?t" "?u = ?t"
    | (ptr) "isPointer ?t" "isNumeric ?u" "?u \<noteq> ?t" | (bad) "\<not> (isNumeric ?t \<and> isNumeric ?u)" "\<not> (isPointer ?t \<and> ?u = ?t)" "\<not> (isPointer ?t \<and> isNumeric ?u)"
    using numeric_not_pointer by blast
  then show ?thesis
  proof cases
    case num
    then show ?thesis using s(1,2) k(1,2,5-8,11) n e numeric_not_pointer [of ?t] numeric_not_pointer [of ?u]
      by (simp add: check_ok_def checkSubtract_def u result_type_def)
  next
    case same
    then show ?thesis using s(1,2) k(1-8) e numeric_not_pointer [of ?t]
      by (auto simp: check_ok_def checkSubtract_def u result_type_def)
  next
    case ptr
    then show ?thesis using s(1,2) k(1-8) e numeric_not_pointer [of ?t] numeric_not_pointer [of ?u]
      by (auto simp: check_ok_def checkSubtract_def u result_type_def conversions)
  next
    case bad
    then have "\<not> accepts Subtract (decay_type (type_of left)) (decay_type (type_of right))"
      using k(1-6) by auto
    then show ?thesis using bad k(7,8) e by (auto simp: check_ok_def checkSubtract_def u)
  qed
qed

lemma check_binary_ok:
  assumes "wt left" "wt right"
  shows "check_ok op left right (check_binary op left right)"
  using check_multiplicative_ok [OF assms, of op] check_comparative_ok [OF assms, of op]
    check_logical_ok [OF assms, of op] check_add_ok [OF assms] check_subtract_ok [OF assms]
  by (cases op) (simp_all add: checkMultiply_def checkDivide_def checkRemainder_def checkLessThan_def checkGreaterThan_def
      checkLessOrEqual_def checkGreaterOrEqual_def checkEqual_def checkNotEqual_def checkLogicalAnd_def checkLogicalOr_def)

text \<open>
  C35: The checker implements the rules: on well-typed operands every binary operator is accepted
  exactly when its rule says so, an accepted expression is well typed and has the type the
  rule gives it, and a rejected one is reported once.
\<close>

theorem check_binary_correct:
  assumes "wt left" "wt right" "t = decay_type (type_of left)" "u = decay_type (type_of right)"
    and "check_binary op left right = (ms, e)"
  shows "if accepts op t u then ms = [] \<and> wt e \<and> type_of e = result_type op t u
         else ms = [InvalidOperands (op_name op)]"
  using check_binary_ok [OF assms(1,2), of op] assms(3-5) by (auto simp: check_ok_def Let_def)

text \<open>\<open>s - 2\<close> for a string literal \<open>s\<close> is accepted, \<open>s * 2\<close> is not.\<close>

theorem check_binary_correct_witness:
  "wt (snd (checkSubtract (StringLit ''ab'') (number_of_value 2))) \<and> type_of (snd (checkSubtract (StringLit ''ab'') (number_of_value 2))) = ScalarType SpecChar 1 \<and>
   fst (checkMultiply (StringLit ''ab'') (number_of_value 2)) = [InvalidOperands ''*'']"
  using check_binary_correct [of "StringLit ''ab''" "number_of_value 2" _ _ Subtract, OF _ _ refl refl]
    check_binary_correct [of "StringLit ''ab''" "number_of_value 2" _ _ Multiply, OF _ _ refl refl]
  by (cases "checkSubtract (StringLit ''ab'') (number_of_value 2)"; cases "checkMultiply (StringLit ''ab'') (number_of_value 2)")
    (simp add: result_type_def)

end
