(* ===== verification/CcSound.thy ===== *)
theory CcSound
  imports CcCheck
begin

text \<open>
  Soundness of the semantic checker of the host Tiny C compiler: a check that reports nothing
  on well-typed operands builds a well-typed tree; the complete account of function calls,
  with the calls on which the checker does not return; and two defects of \<open>checker.cpp\<close>.
\<close>

subsection \<open>Unary operators, subscripts and statements\<close>

lemma wt_checkNot: "wt e \<Longrightarrow> checkNot e = ([], e') \<Longrightarrow> wt e'"
  by (auto simp: checkNot_def Let_def operand_type_def decay_promote scalar_promote conversions
      dest: wt_not_error split: if_splits simp del: promote_type.simps)

lemma wt_checkNegate: "wt e \<Longrightarrow> checkNegate e = ([], e') \<Longrightarrow> wt e'"
  by (auto simp: checkNegate_def Let_def decay_promote scalar_promote conversions
      dest: wt_not_error split: if_splits simp del: promote_type.simps)

lemma wt_Dereference: "wt e \<Longrightarrow> isPointer (type_of e) \<Longrightarrow> wt (Dereference e (the (dereference (type_of e))))"
  by (cases "type_of e" rule: isPointer.cases) auto

lemma wt_checkDereference: "wt e \<Longrightarrow> checkDereference e = ([], e') \<Longrightarrow> wt e'"
  using wt_Dereference [of "decay e"]
  by (auto simp: checkDereference_def Let_def conversions dest: wt_not_error split: if_splits)

lemma wt_checkAddress:
  assumes "wt e" "checkAddress e = ([], e')"
  shows "wt e'"
proof -
  have "lvalue e" "e' = Address e (ScalarType (specifier_of (type_of e)) (indirection (type_of e) + 1))"
    using assms wt_not_error [OF assms(1)] by (auto simp: checkAddress_def Let_def split: if_splits)
  then show ?thesis using assms(1) lvalue_scalar [of e] by (cases "type_of e") auto
qed

lemma wt_checkSizeof: "wt (snd (checkSizeof e))"
  by (simp add: checkSizeof_def Let_def)

lemma wt_checkCast: "wt e \<Longrightarrow> checkCast to e = ([], e') \<Longrightarrow> wt e' \<and> type_of e' = to"
  by (auto simp: checkCast_def Let_def castable_def
      dest: wt_not_error split: if_splits intro!: wt_cast wt_decay)

lemma wt_checkArray:
  assumes "wt left" "wt right" "checkArray left right = ([], e)"
  shows "wt e \<and> lvalue e"
proof -
  let ?l = "decay (promote left)" and ?r = "decay (extend_to right longint)"
  have w: "wt ?l" "wt ?r" using assms by (simp_all add: conversions)
  have p: "isPointer (type_of ?l)" "isNumeric (type_of ?r)"
    and e: "e = Dereference (Binary Add ?l (scale ?r (pointee_size (type_of ?l))) (type_of ?l)) (the (dereference (type_of ?l)))"
    using assms(3) wt_not_error [OF w(1)] wt_not_error [OF w(2)]
    by (auto simp: checkArray_def Let_def simp del: promote_type.simps type_of_decay split: if_splits)
  let ?a = "Binary Add ?l (scale ?r (pointee_size (type_of ?l))) (type_of ?l)"
  have "wt ?a" using w p by (simp add: conversions del: promote_type.simps type_of_decay)
  moreover have "type_of ?a = type_of ?l" by simp
  ultimately show ?thesis unfolding e using wt_Dereference [of ?a] p(1) by (simp del: promote_type.simps type_of_decay wt.simps)
qed

lemma checkTest_ok: "wt e \<Longrightarrow> checkTest e = ([], e') \<Longrightarrow> test_ok e'"
  by (auto simp: checkTest_def Let_def test_ok_def operand_type_def decay_promote scalar_promote conversions
      dest: wt_not_error split: if_splits simp del: promote_type.simps)

lemma castable_compatible: "isCompatibleWith t u \<Longrightarrow> castable u t \<or> u = t"
  by (auto simp: isCompatibleWith_def castable_def)

lemma wt_checkAssignment:
  assumes "wt l" "wt r" "checkAssignment l r = ([], st)"
  shows "wt_stmt ret depth st"
proof -
  have "lvalue l" "isCompatibleWith (type_of l) (decay_type (type_of r))" "st = Assignment l (cast (decay r) (type_of l))"
    using assms wt_not_error [OF assms(1)] wt_not_error [OF assms(2)]
    by (auto simp: checkAssignment_def Let_def split: if_splits)
  then show ?thesis using assms(1,2) castable_compatible [of "type_of l" "decay_type (type_of r)"]
    by (auto intro!: wt_cast wt_decay)
qed

lemma wt_checkReturn:
  assumes "wt e" "checkReturn e ret = ([], st)"
  shows "wt_stmt ret depth st"
proof -
  have "isCompatibleWith (decay_type (type_of e)) ret" "st = Return (cast (decay e) ret)"
    using assms wt_not_error [OF assms(1)] by (auto simp: checkReturn_def Let_def split: if_splits)
  then show ?thesis using assms(1) castable_compatible [of ret "decay_type (type_of e)"] isCompatibleWith_commute
    by (auto intro!: wt_cast wt_decay)
qed

lemma wt_checkBreak: "checkBreak depth = ([], st) \<Longrightarrow> wt_stmt ret depth st"
  by (auto simp: checkBreak_def split: if_splits)

text \<open>\<open>sizeof\<close> goes through 32 bits: an array of \<open>2\<^sup>3\<^sup>2\<close> characters has size 0.\<close>

theorem checkSizeof_truncates:
  "checkSizeof (Identifier \<lparr>sym_id = 0, sym_name = ''a'', sym_type = ArrayType SpecChar 0 0x100000000\<rparr>) = ([], number_of_value 0)"
  by (simp add: checkSizeof_def)

text \<open>
  Subtracting a literal from a pointer to anything but \<open>char\<close>, or an \<open>int\<close> literal from any
  pointer, makes \<open>checkSubtract\<close> read the type of a deleted object.
\<close>

theorem subtract_literal_dangles:
  assumes "isPointer (type_of left)" "type_of right = integer" "isNumber right \<noteq> None"
  shows "subtract_dangles left right"
proof -
  obtain sp n where t: "type_of left = ScalarType sp (Suc n)"
    using assms(1) by (cases "type_of left" rule: isPointer.cases) (auto dest: gr0_implies_Suc)
  have "promote right = right" by (auto simp: promote_def cast_def assms(2) split: option.splits)
  then show ?thesis using assms(3) t assms(2)
    by (auto simp: subtract_dangles_def usual_def Let_def decay_def type_of_extend extend_to_def)
qed

subsection \<open>Calls\<close>

fun call_accepts :: "ctype \<Rightarrow> ctype list \<Rightarrow> bool" where
  "call_accepts (FunctionType _ _ variadic ps) ts \<longleftrightarrow>
     length ps \<le> length ts \<and> (\<not> variadic \<longrightarrow> length ts = length ps) \<and>
     list_all2 (\<lambda>p t. isCompatibleWith p (decay_type t)) ps (take (length ps) ts) \<and>
     list_all (\<lambda>t. isScalar (decay_type t)) (drop (length ps) ts)"
| "call_accepts _ _ \<longleftrightarrow> False"

lemma fixed_args_spec:
  "list_all wt as \<Longrightarrow> length as = length ps \<Longrightarrow>
   fst (fixed_args ps as) \<longleftrightarrow> list_all2 (\<lambda>p t. isCompatibleWith p (decay_type t)) ps (map type_of as)"
  by (induction ps as rule: fixed_args.induct) (auto simp: Let_def dest: wt_not_error split: prod.splits)

lemma fixed_args_wt:
  "list_all wt as \<Longrightarrow> length as = length ps \<Longrightarrow> fixed_args ps as = (True, as') \<Longrightarrow> list_all wt as' \<and> map type_of as' = ps"
proof (induction ps as arbitrary: as' rule: fixed_args.induct)
  case (1 p ps a as)
  have "type_of a \<noteq> ErrorType" using "1.prems" wt_not_error by auto
  then obtain as1 where c: "isCompatibleWith p (decay_type (type_of a))" "fixed_args ps as = (True, as1)" "as' = cast (decay a) p # as1"
    using "1.prems" by (auto simp: Let_def split: if_splits prod.splits)
  have "list_all wt as1 \<and> map type_of as1 = ps"
    using "1.IH"(1) [OF \<open>type_of a \<noteq> ErrorType\<close> refl _ _ _ c(2)] c(1) "1.prems" by simp
  moreover have "wt (cast (decay a) p)"
    using "1.prems" c(1) castable_compatible by (intro wt_cast wt_decay) auto
  ultimately show ?case using c(3) by simp
qed auto

lemma fixed_args_length: "length as = length ps \<Longrightarrow> length (snd (fixed_args ps as)) = length as"
  by (induction ps as rule: fixed_args.induct) (auto simp: Let_def split: prod.splits)

lemma extra_args_spec:
  "list_all wt as \<Longrightarrow> \<exists>as'. extra_args as = Some (list_all (\<lambda>t. isScalar (decay_type t)) (map type_of as), as') \<and>
     (list_all (\<lambda>t. isScalar (decay_type t)) (map type_of as) \<longrightarrow>
        list_all wt as' \<and> length as' = length as \<and> list_all operand_type (map type_of as'))"
proof (induction as)
  case (Cons a as)
  then obtain as' where ih: "extra_args as = Some (list_all (\<lambda>t. isScalar (decay_type t)) (map type_of as), as')"
      "list_all (\<lambda>t. isScalar (decay_type t)) (map type_of as) \<longrightarrow>
        list_all wt as' \<and> length as' = length as \<and> list_all operand_type (map type_of as')" by auto
  have "type_of a \<noteq> ErrorType" using Cons.prems wt_not_error by auto
  moreover have "wt (decay (promote a))" "operand_type (type_of (decay (promote a))) \<longleftrightarrow> isScalar (decay_type (type_of a))"
    using Cons.prems by (simp_all add: conversions operand_type_def decay_promote scalar_promote del: promote_type.simps)
  moreover have "isScalar (type_of (decay (promote a))) \<longleftrightarrow> isScalar (decay_type (type_of a))"
    by (simp add: decay_promote scalar_promote del: promote_type.simps)
  ultimately show ?case using ih
    by (cases "isScalar (decay_type (type_of a))") (auto simp: Let_def simp del: type_of_decay)
qed simp

text \<open>
  A call of a declared name with well-typed arguments is answered: it is accepted exactly
  when the name is a function, the number of arguments fits, every argument before the
  ellipsis is compatible with its parameter and every other one is a scalar; then the
  tree is well typed and has the result type of the function.  Otherwise there is one report.
\<close>

theorem checkCall_correct:
  assumes "list_all wt args" "sym_type f \<noteq> ErrorType"
  shows "\<exists>ms e. checkCall f args = Some (ms, e) \<and>
    (if call_accepts (sym_type f) (map type_of args) then ms = [] \<and> wt e else length ms = 1)"
proof (cases "sym_type f")
  case (FunctionType sp n variadic ps)
  let ?front = "take (length ps) args" and ?rest = "drop (length ps) args"
  have w: "list_all wt ?front" "list_all wt ?rest"
    using assms(1) by (auto simp: list_all_iff dest: in_set_takeD in_set_dropD)
  obtain ok front where f: "fixed_args ps ?front = (ok, front)" by fastforce
  obtain rest where r: "extra_args ?rest = Some (list_all (\<lambda>t. isScalar (decay_type t)) (map type_of ?rest), rest)"
      "list_all (\<lambda>t. isScalar (decay_type t)) (map type_of ?rest) \<longrightarrow>
         list_all wt rest \<and> length rest = length ?rest \<and> list_all operand_type (map type_of rest)"
    using extra_args_spec [OF w(2)] by auto
  show ?thesis
  proof (cases "length ps \<le> length args \<and> (\<not> variadic \<longrightarrow> length args = length ps)")
    case True
    then have l: "length ?front = length ps" by simp
    have ok: "ok = list_all2 (\<lambda>p t. isCompatibleWith p (decay_type t)) ps (take (length ps) (map type_of args))"
      using fixed_args_spec [OF w(1) l] f by (simp add: take_map)
    have "wt (Call f (front @ rest) (ScalarType sp n))" if "ok" "list_all (\<lambda>t. isScalar (decay_type t)) (map type_of ?rest)"
      using fixed_args_wt [OF w(1) l] f r(2) that True FunctionType by (auto simp: list_all_append)
    then show ?thesis using True f r(1) ok by (auto simp: checkCall_def FunctionType drop_map Let_def)
  next
    case False
    then show ?thesis by (auto simp: checkCall_def FunctionType)
  qed
qed (use assms(2) in \<open>auto simp: checkCall_def\<close>)

lemma wt_checkCall: "list_all wt args \<Longrightarrow> sym_type f \<noteq> ErrorType \<Longrightarrow> checkCall f args = Some ([], e) \<Longrightarrow> wt e"
  using checkCall_correct [of args f] by (auto split: if_splits)

text \<open>
  The loop over the arguments after an ellipsis does not end when it meets an argument that
  already has the error type.
\<close>

lemma extra_args_None:
  "extra_args as = None \<longleftrightarrow>
   (\<exists>i < length as. type_of (as ! i) = ErrorType \<and> (\<forall>j < i. isScalar (decay_type (type_of (as ! j)))))"
proof (induction as)
  case (Cons a as)
  have "(\<exists>i < length (a # as). type_of ((a # as) ! i) = ErrorType \<and> (\<forall>j < i. isScalar (decay_type (type_of ((a # as) ! j))))) \<longleftrightarrow>
      type_of a = ErrorType \<or> isScalar (decay_type (type_of a)) \<and>
      (\<exists>i < length as. type_of (as ! i) = ErrorType \<and> (\<forall>j < i. isScalar (decay_type (type_of (as ! j)))))"
    unfolding length_Cons by (simp only: Ex_less_Suc2 All_less_Suc2) auto
  moreover have "extra_args (a # as) = None \<longleftrightarrow> type_of a = ErrorType \<or> isScalar (decay_type (type_of a)) \<and> extra_args as = None"
    by (auto simp: Let_def decay_promote scalar_promote simp del: promote_type.simps)
  ultimately show ?case using Cons.IH by blast
qed simp

theorem checkCall_hangs:
  "checkCall f args = None \<longleftrightarrow>
   (\<exists>sp n ps. sym_type f = FunctionType sp n True ps \<and> length ps < length args \<and> fst (fixed_args ps (take (length ps) args)) \<and>
      (\<exists>i. length ps \<le> i \<and> i < length args \<and> type_of (args ! i) = ErrorType \<and>
           (\<forall>j. length ps \<le> j \<longrightarrow> j < i \<longrightarrow> isScalar (decay_type (type_of (args ! j))))))"
proof (cases "sym_type f")
  case (FunctionType sp n variadic ps)
  have shift: "(\<exists>i < length (drop (length ps) args). type_of (drop (length ps) args ! i) = ErrorType \<and>
        (\<forall>j < i. isScalar (decay_type (type_of (drop (length ps) args ! j))))) \<longleftrightarrow>
      (\<exists>i. length ps \<le> i \<and> i < length args \<and> type_of (args ! i) = ErrorType \<and>
           (\<forall>j. length ps \<le> j \<longrightarrow> j < i \<longrightarrow> isScalar (decay_type (type_of (args ! j)))))" (is "?L \<longleftrightarrow> ?R")
  proof
    assume ?L
    then obtain i where i: "i < length args - length ps" "type_of (args ! (length ps + i)) = ErrorType"
      "\<forall>j < i. isScalar (decay_type (type_of (args ! (length ps + j))))" by auto
    have "isScalar (decay_type (type_of (args ! j)))" if "length ps \<le> j" "j < length ps + i" for j
      using i(3) [rule_format, of "j - length ps"] that by simp
    then show ?R using i by (intro exI [of _ "length ps + i"]) auto
  next
    assume ?R
    then obtain i where "length ps \<le> i" "i < length args" "type_of (args ! i) = ErrorType"
      "\<forall>j. length ps \<le> j \<longrightarrow> j < i \<longrightarrow> isScalar (decay_type (type_of (args ! j)))" by blast
    then show ?L by (intro exI [of _ "i - length ps"]) auto
  qed
  show ?thesis unfolding checkCall_def FunctionType using extra_args_None [of "drop (length ps) args", unfolded shift]
    by (auto simp: Let_def split: prod.splits option.splits)
qed (auto simp: checkCall_def)

end
