(* ===== verification/CcAlloc.thy ===== *)
theory CcAlloc
  imports CcTree "HOL-Library.Signed_Division"
begin

text \<open>
  Storage allocation of the host Tiny C compiler (\<open>allocator.cpp\<close>).  The \<open>offset\<close> member of
  the symbol objects is a function from symbol identities to frame offsets, 0 at first; the
  \<open>int &offset\<close> that the functions thread through is the second component of their state.
  Offsets are \<open>int\<close> values: the subtraction of an \<open>unsigned long\<close> size is converted back to
  32 bits.
\<close>

type_synonym alloc = "(nat \<Rightarrow> int) \<times> int"

definition align_down :: "int \<Rightarrow> nat \<Rightarrow> int" where
  "align_down off a =
     (if a = 0 then off
      else let magnitude = wrap32 (- off); remainder = magnitude smod int a;
               magnitude' = (if remainder \<noteq> 0 then wrap32 (magnitude + (int a - remainder)) else magnitude)
           in wrap32 (- magnitude'))"

text \<open>The slot of one object: below the offset, aligned.\<close>

definition place :: "ctype \<Rightarrow> int \<Rightarrow> int" where
  "place t off = align_down (wrap32 (off - uint (the (type_size t)))) (the (type_alignment t))"

definition allocate_symbol :: "symbol \<Rightarrow> alloc \<Rightarrow> alloc" where
  "allocate_symbol sy = (\<lambda>(offs, off).
     if offs (sym_id sy) = 0 then (let o1 = place (sym_type sy) off in (offs(sym_id sy := o1), o1))
     else (offs, off))"

fun allocate :: "cstmt \<Rightarrow> alloc \<Rightarrow> alloc"
  and allocate_list :: "int \<Rightarrow> cstmt list \<Rightarrow> alloc \<Rightarrow> alloc" where
  "allocate (Block decls stmts) a =
     (let (offs, off) = fold allocate_symbol decls a in allocate_list off stmts (offs, off))"
| "allocate (While _ s) a = allocate s a"
| "allocate (For _ _ _ s) a = allocate s a"
| "allocate (If _ s els) a =
     (let saved = snd a; (offs, off) = allocate s a
      in case els of
           None \<Rightarrow> (offs, off)
         | Some s' \<Rightarrow> (let (offs', temp) = allocate s' (offs, saved) in (offs', min off temp)))"
| "allocate _ a = a"
| "allocate_list saved [] a = a"
| "allocate_list saved (s # ss) (offs, off) =
     (let (offs', temp) = allocate s (offs, saved) in allocate_list saved ss (offs', min off temp))"

abbreviation NUM_PARAM_REGS :: nat where "NUM_PARAM_REGS \<equiv> 8"

text \<open>\<open>while (offset % PARAM_ALIGNMENT != 0) offset ++\<close> with \<open>PARAM_ALIGNMENT\<close> 8, on an offset at least 0.\<close>

definition align_param :: "int \<Rightarrow> int" where
  "align_param off = (if off mod 8 = 0 then off else off + (8 - off mod 8))"

fun stack_params :: "(symbol \<times> ctype) list \<Rightarrow> alloc \<Rightarrow> alloc" where
  "stack_params [] a = a"
| "stack_params ((sy, t) # ps) (offs, off) =
     stack_params ps (offs(sym_id sy := off), align_param (off + uint (the (type_size t))))"

fun reg_params :: "(symbol \<times> ctype) list \<Rightarrow> alloc \<Rightarrow> alloc" where
  "reg_params [] a = a"
| "reg_params ((sy, t) # ps) (offs, off) = reg_params ps (offs(sym_id sy := place t off), place t off)"

definition param_types :: "symbol \<Rightarrow> ctype list" where
  "param_types f = (case sym_type f of FunctionType _ _ _ ps \<Rightarrow> ps | _ \<Rightarrow> [])"

fun allocate_function :: "cfunction \<Rightarrow> alloc \<Rightarrow> alloc" where
  "allocate_function (Function f decls body) a =
     (let ps = zip decls (param_types f);
          (offs, _) = stack_params (drop NUM_PARAM_REGS ps) a
      in allocate (Block decls body) (reg_params (take NUM_PARAM_REGS ps) (offs, 0)))"

subsection \<open>One slot\<close>

definition sym_size :: "symbol \<Rightarrow> int" where
  "sym_size sy = uint (the (type_size (sym_type sy)))"

definition sym_alignment :: "symbol \<Rightarrow> int" where
  "sym_alignment sy = int (the (type_alignment (sym_type sy)))"

lemma sym_size_nonneg: "0 \<le> sym_size sy"
  by (simp add: sym_size_def)

lemma object_type_alignment: "object_type t \<Longrightarrow> the (type_alignment t) \<in> {1, 4, 8}"
  using type_alignment_cases [of t] type_alignment_None [of t]
  by (cases t) (auto simp: object_type_def)

lemma align_down_bounds:
  assumes "- 2147483632 \<le> off" "off \<le> 0" "a \<in> {1, 4, 8}"
  shows "align_down off a \<le> off" "off - 8 \<le> align_down off a" "int a dvd align_down off a"
proof -
  have m: "wrap32 (- off) = - off" using assms by simp
  have r: "(- off) smod int a = (- off) mod int a" using assms by (auto simp: signed_modulo_int_def sgn_if)
  have a: "0 < int a" "int a \<le> 8" "a \<noteq> 0" using assms(3) by auto
  define r where "r = (- off) mod int a"
  have rb: "0 \<le> r" "r < int a" using a by (simp_all add: r_def)
  have w: "wrap32 (- off + (int a - r)) = - off + (int a - r)" using assms(1,2) a rb by (intro wrap32_id) linarith+
  have v: "align_down off a = (if r = 0 then off else off - (int a - r))"
    using assms(1,2) a rb w unfolding align_down_def m Let_def r r_def [symmetric]
    by (auto intro!: wrap32_id)
  show "align_down off a \<le> off" "off - 8 \<le> align_down off a" using v rb a by auto
  have d: "int a dvd - off - r" by (simp add: r_def)
  show "int a dvd align_down off a"
  proof (cases "r = 0")
    case True
    then have "int a dvd - off" using d by simp
    then show ?thesis unfolding v using True by simp
  next
    case False
    have e: "off - (int a - r) = - ((- off - r) + int a)" by simp
    have "int a dvd off - (int a - r)" unfolding e dvd_minus_iff using d by (rule dvd_add) simp
    then show ?thesis unfolding v using False by simp
  qed
qed

lemma place_ok:
  assumes "object_type (sym_type sy)" "off \<le> 0" "- 2147483632 \<le> off - sym_size sy"
  shows "place (sym_type sy) off + sym_size sy \<le> off" "off - sym_size sy - 8 \<le> place (sym_type sy) off"
    "sym_alignment sy dvd place (sym_type sy) off"
proof -
  have w: "wrap32 (off - sym_size sy) = off - sym_size sy"
    using assms(2,3) sym_size_nonneg [of sy] by (intro wrap32_id) linarith+
  note b = align_down_bounds [OF assms(3) _ object_type_alignment [OF assms(1)]]
  have "off - sym_size sy \<le> 0" using assms(2) sym_size_nonneg [of sy] by linarith
  then show "place (sym_type sy) off + sym_size sy \<le> off" "off - sym_size sy - 8 \<le> place (sym_type sy) off"
    "sym_alignment sy dvd place (sym_type sy) off"
    using b w unfolding place_def sym_size_def [symmetric] sym_alignment_def by auto
qed

subsection \<open>The frame\<close>

fun symbols_of :: "cstmt \<Rightarrow> symbol list" where
  "symbols_of (Block decls ss) = decls @ concat (map symbols_of ss)"
| "symbols_of (While _ s) = symbols_of s"
| "symbols_of (For _ _ _ s) = symbols_of s"
| "symbols_of (If _ s els) = symbols_of s @ (case els of None \<Rightarrow> [] | Some s' \<Rightarrow> symbols_of s')"
| "symbols_of _ = []"

text \<open>
  The objects that exist together: the declarations of a block after those of the blocks
  around it.
\<close>

fun chains :: "cstmt \<Rightarrow> symbol list list" where
  "chains (Block decls ss) = decls # map ((@) decls) (concat (map chains ss))"
| "chains (While _ s) = chains s"
| "chains (For _ _ _ s) = chains s"
| "chains (If _ s els) = chains s @ (case els of None \<Rightarrow> [] | Some s' \<Rightarrow> chains s')"
| "chains _ = []"

text \<open>Room for a list of objects, with the gap alignment may leave before each.\<close>

definition room :: "symbol list \<Rightarrow> int" where
  "room sys = (\<Sum>sy \<leftarrow> sys. sym_size sy + 8)"

lemma room_simps [simp]: "room [] = 0" "room (sy # sys) = sym_size sy + 8 + room sys" "room (xs @ ys) = room xs + room ys"
  by (simp_all add: room_def)

lemma room_nonneg: "0 \<le> room sys"
proof (induction sys)
  case (Cons sy sys)
  then show ?case using sym_size_nonneg [of sy] by simp
qed simp

definition below :: "(nat \<Rightarrow> int) \<Rightarrow> symbol \<Rightarrow> symbol \<Rightarrow> bool" where
  "below offs x y \<longleftrightarrow> offs (sym_id y) + sym_size y \<le> offs (sym_id x)"

text \<open>A slot of the frame between two offsets, aligned for its type.\<close>

definition slot_in :: "(nat \<Rightarrow> int) \<Rightarrow> int \<Rightarrow> int \<Rightarrow> symbol \<Rightarrow> bool" where
  "slot_in offs lo hi sy \<longleftrightarrow>
     lo \<le> offs (sym_id sy) \<and> offs (sym_id sy) + sym_size sy \<le> hi \<and> sym_alignment sy dvd offs (sym_id sy)"

lemma slot_in_mono: "slot_in offs lo hi sy \<Longrightarrow> lo' \<le> lo \<Longrightarrow> hi \<le> hi' \<Longrightarrow> slot_in offs lo' hi' sy"
  by (auto simp: slot_in_def)

definition agree :: "nat set \<Rightarrow> (nat \<Rightarrow> int) \<Rightarrow> (nat \<Rightarrow> int) \<Rightarrow> bool" where
  "agree ids offs offs' \<longleftrightarrow> (\<forall>i. i \<notin> ids \<longrightarrow> offs' i = offs i)"

lemma agreeD: "agree ids offs offs' \<Longrightarrow> i \<notin> ids \<Longrightarrow> offs' i = offs i"
  by (simp add: agree_def)

lemma agree_trans: "agree A f g \<Longrightarrow> agree B g h \<Longrightarrow> agree (A \<union> B) f h"
  by (simp add: agree_def)

lemma slot_in_agree: "agree ids offs offs' \<Longrightarrow> sym_id sy \<notin> ids \<Longrightarrow> slot_in offs' lo hi sy = slot_in offs lo hi sy"
  by (simp add: agree_def slot_in_def)

lemma sorted_below_agree:
  "agree ids offs offs' \<Longrightarrow> sym_id ` set ch \<inter> ids = {} \<Longrightarrow> sorted_wrt (below offs) ch \<Longrightarrow> sorted_wrt (below offs') ch"
proof (erule sorted_wrt_mono_rel [rotated])
  fix x y
  assume "agree ids offs offs'" "sym_id ` set ch \<inter> ids = {}" "x \<in> set ch" "y \<in> set ch" "below offs x y"
  moreover from this have "sym_id x \<notin> ids" "sym_id y \<notin> ids" by auto
  ultimately show "below offs' x y" by (simp add: below_def agree_def)
qed

text \<open>The symbols still to be placed: distinct objects of proper types without an offset.\<close>

definition fresh :: "symbol list \<Rightarrow> (nat \<Rightarrow> int) \<Rightarrow> bool" where
  "fresh sys offs \<longleftrightarrow> distinct (map sym_id sys) \<and> (\<forall>sy \<in> set sys. offs (sym_id sy) = 0 \<and> object_type (sym_type sy))"

lemma fresh_append: "fresh (xs @ ys) offs \<longleftrightarrow> fresh xs offs \<and> fresh ys offs \<and> sym_id ` set xs \<inter> sym_id ` set ys = {}"
  by (auto simp: fresh_def)

lemma fresh_agree: "agree ids offs offs' \<Longrightarrow> fresh sys offs \<Longrightarrow> sym_id ` set sys \<inter> ids = {} \<Longrightarrow> fresh sys offs'"
  by (force simp: fresh_def agree_def)

lemma fold_allocate_ok:
  assumes "fresh sys offs" "off \<le> 0" "- 2147483632 \<le> off - room sys"
  shows "case fold allocate_symbol sys (offs, off) of (offs', off') \<Rightarrow>
    agree (sym_id ` set sys) offs offs' \<and> off - room sys \<le> off' \<and> off' \<le> off \<and>
    (\<forall>sy \<in> set sys. slot_in offs' off' off sy) \<and> sorted_wrt (below offs') sys"
  using assms
proof (induction sys arbitrary: offs off)
  case Nil
  then show ?case by (simp add: agree_def)
next
  case (Cons sy sys)
  let ?o = "place (sym_type sy) off" and ?offs = "offs(sym_id sy := place (sym_type sy) off)"
  have z: "offs (sym_id sy) = 0" "object_type (sym_type sy)" "sym_id sy \<notin> sym_id ` set sys"
    using Cons.prems(1) by (auto simp: fresh_def)
  note p = place_ok [OF z(2) Cons.prems(2)]
  have b: "- 2147483632 \<le> off - sym_size sy" using Cons.prems(3) room_nonneg [of sys] unfolding room_simps by linarith
  have ih: "case fold allocate_symbol sys (?offs, ?o) of (offs', off') \<Rightarrow>
      agree (sym_id ` set sys) ?offs offs' \<and> ?o - room sys \<le> off' \<and> off' \<le> ?o \<and>
      (\<forall>sy \<in> set sys. slot_in offs' off' ?o sy) \<and> sorted_wrt (below offs') sys"
  proof (rule Cons.IH)
    show "fresh sys ?offs" using Cons.prems(1) z(3) by (auto simp: fresh_def rev_image_eqI)
    show "?o \<le> 0" using p(1) [OF b] Cons.prems(2) sym_size_nonneg [of sy] by linarith
    show "- 2147483632 \<le> ?o - room sys" using p(2) [OF b] Cons.prems(3) by simp
  qed
  have st: "fold allocate_symbol (sy # sys) (offs, off) = fold allocate_symbol sys (?offs, ?o)"
    using z(1) by (simp add: allocate_symbol_def Let_def)
  obtain offs' off' where f: "fold allocate_symbol sys (?offs, ?o) = (offs', off')" by fastforce
  have o: "offs' (sym_id sy) = ?o" using ih f z(3) by (auto simp: agree_def)
  have "off' \<le> ?o" "agree (sym_id ` set sys) ?offs offs'" "?o - room sys \<le> off'" using ih f by auto
  moreover have "slot_in offs' off' off x" if "x \<in> set sys" for x
  proof (rule slot_in_mono)
    show "slot_in offs' off' ?o x" using ih f that by auto
    show "?o \<le> off" using p(1) [OF b] sym_size_nonneg [of sy] by linarith
  qed simp
  moreover have "below offs' sy x" if "x \<in> set sys" for x
    using ih f that o by (auto simp: below_def slot_in_def)
  ultimately show ?case unfolding st f using p [OF b] ih f o sym_size_nonneg [of sy]
    by (auto simp: agree_def slot_in_def room_simps)
qed

text \<open>What the allocation of a statement from an offset promises.\<close>

definition alloc_ok :: "symbol list \<Rightarrow> symbol list list \<Rightarrow> int \<Rightarrow> (nat \<Rightarrow> int) \<Rightarrow> (nat \<Rightarrow> int) \<Rightarrow> int \<Rightarrow> bool" where
  "alloc_ok sys chs off offs offs' off' \<longleftrightarrow>
     agree (sym_id ` set sys) offs offs' \<and> (\<forall>sy \<in> set sys. slot_in offs' off' off sy) \<and>
     (\<forall>ch \<in> set chs. set ch \<subseteq> set sys \<and> sorted_wrt (below offs') ch)"

lemma alloc_ok_append:
  assumes "alloc_ok xs cx off offs offs1 o1" "alloc_ok ys cy off offs1 offs2 o2"
    and "sym_id ` set xs \<inter> sym_id ` set ys = {}" "lo \<le> o1" "lo \<le> o2"
  shows "alloc_ok (xs @ ys) (cx @ cy) off offs offs2 lo"
proof -
  have ag: "agree (sym_id ` set ys) offs1 offs2" using assms(2) by (simp add: alloc_ok_def)
  have "slot_in offs2 lo off sy" if "sy \<in> set xs" for sy
  proof -
    have "sym_id sy \<notin> sym_id ` set ys" using assms(3) that by auto
    then show ?thesis using assms(1,4) that slot_in_agree [OF ag] by (auto simp: alloc_ok_def intro: slot_in_mono)
  qed
  moreover have "slot_in offs2 lo off sy" if "sy \<in> set ys" for sy
    using assms(2,5) that by (auto simp: alloc_ok_def intro: slot_in_mono)
  moreover have "sorted_wrt (below offs2) ch" if "ch \<in> set cx" for ch
  proof (rule sorted_below_agree [OF ag])
    have "set ch \<subseteq> set xs" "sorted_wrt (below offs1) ch" using assms(1) that by (auto simp: alloc_ok_def)
    then show "sym_id ` set ch \<inter> sym_id ` set ys = {}" "sorted_wrt (below offs1) ch" using assms(3) by auto
  qed
  ultimately show ?thesis
    using assms(1,2) agree_trans [of "sym_id ` set xs" offs offs1 "sym_id ` set ys" offs2]
    by (auto simp: alloc_ok_def image_Un)
qed

text \<open>A block: its own declarations above everything declared inside it.\<close>

lemma alloc_ok_block:
  assumes d: "agree (sym_id ` set decls) offs offs1" "\<forall>sy \<in> set decls. slot_in offs1 o1 off sy" "sorted_wrt (below offs1) decls"
    and i: "alloc_ok ys cy o1 offs1 offs2 o2" and "sym_id ` set decls \<inter> sym_id ` set ys = {}" "o2 \<le> o1" "o1 \<le> off"
  shows "alloc_ok (decls @ ys) (decls # map ((@) decls) cy) off offs offs2 o2"
proof -
  have ag: "agree (sym_id ` set ys) offs1 offs2" using i by (simp add: alloc_ok_def)
  have s: "slot_in offs2 o1 off sy" if "sy \<in> set decls" for sy
  proof -
    have "sym_id sy \<notin> sym_id ` set ys" using assms(5) that by auto
    then show ?thesis using d(2) that slot_in_agree [OF ag] by auto
  qed
  have y: "slot_in offs2 o2 o1 sy" if "sy \<in> set ys" for sy using i that by (simp add: alloc_ok_def)
  have sd: "sorted_wrt (below offs2) decls" using assms(5) d(3) by (intro sorted_below_agree [OF ag]) auto
  have "sorted_wrt (below offs2) (decls @ ch)" if "ch \<in> set cy" for ch
    using i that sd s y by (auto simp: sorted_wrt_append alloc_ok_def below_def slot_in_def) force
  moreover have "slot_in offs2 o2 off sy" if "sy \<in> set decls \<union> set ys" for sy
    using that s y assms(6,7) by (auto intro: slot_in_mono)
  ultimately show ?thesis
    using agree_trans [OF d(1) ag] i sd by (auto simp: alloc_ok_def image_Un)
qed

lemma allocate_ok:
  "fresh (symbols_of s) (fst a) \<Longrightarrow> snd a \<le> 0 \<Longrightarrow> - 2147483632 \<le> snd a - room (symbols_of s) \<Longrightarrow>
   (case allocate s a of (offs', off') \<Rightarrow>
      snd a - room (symbols_of s) \<le> off' \<and> off' \<le> snd a \<and> alloc_ok (symbols_of s) (chains s) (snd a) (fst a) offs' off')"
  "fresh (concat (map symbols_of ss)) (fst b) \<Longrightarrow> saved \<le> 0 \<Longrightarrow> snd b \<le> saved \<Longrightarrow>
   - 2147483632 \<le> saved - room (concat (map symbols_of ss)) \<Longrightarrow>
   (case allocate_list saved ss b of (offs', off') \<Rightarrow>
      min (snd b) (saved - room (concat (map symbols_of ss))) \<le> off' \<and> off' \<le> snd b \<and>
      alloc_ok (concat (map symbols_of ss)) (concat (map chains ss)) saved (fst b) offs' off')"
proof (induction s a and saved ss b rule: allocate_allocate_list.induct)
  case (1 decls stmts a)
  obtain offs off where a: "a = (offs, off)" by fastforce
  let ?ys = "concat (map symbols_of stmts)"
  have fr: "fresh decls offs" "fresh ?ys offs" "sym_id ` set decls \<inter> sym_id ` set ?ys = {}"
    using "1.prems"(1) a by (auto simp: fresh_append)
  have "- 2147483632 \<le> off - room decls" using "1.prems"(3) a room_nonneg [of ?ys] by auto
  then obtain offs1 o1 where f: "fold allocate_symbol decls (offs, off) = (offs1, o1)"
    and d: "agree (sym_id ` set decls) offs offs1" "off - room decls \<le> o1" "o1 \<le> off"
      "\<forall>sy \<in> set decls. slot_in offs1 o1 off sy" "sorted_wrt (below offs1) decls"
    using fold_allocate_ok [OF fr(1), of off] "1.prems"(2) a by (auto split: prod.splits)
  obtain offs2 o2 where l: "allocate_list o1 stmts (offs1, o1) = (offs2, o2)" by fastforce
  have "fresh ?ys offs1" using fr by (intro fresh_agree [OF d(1) fr(2)]) auto
  then have ih: "min o1 (o1 - room ?ys) \<le> o2" "o2 \<le> o1" "alloc_ok ?ys (concat (map chains stmts)) o1 offs1 offs2 o2"
    using "1.IH" [of "(offs1, o1)" offs1 o1] f l a d(2,3) "1.prems"(2,3) by auto
  show ?case using alloc_ok_block [OF d(1,4,5) ih(3) fr(3) ih(2) d(3)] f l ih(1,2) d(2,3) a room_nonneg [of ?ys]
    by (auto simp: min_def split: if_splits)
next
  case (4 e s els a)
  obtain offs off where a: "a = (offs, off)" by fastforce
  obtain offs1 o1 where s: "allocate s (offs, off) = (offs1, o1)" by fastforce
  show ?case
  proof (cases els)
    case None
    then show ?thesis using 4 s a by auto
  next
    case (Some s')
    let ?xs = "symbols_of s" and ?ys = "symbols_of s'"
    have fr: "fresh ?xs offs" "fresh ?ys offs" "sym_id ` set ?xs \<inter> sym_id ` set ?ys = {}"
      using "4.prems"(1) a Some by (auto simp: fresh_append)
    have r: "- 2147483632 \<le> off - room ?xs" "- 2147483632 \<le> off - room ?ys"
      using "4.prems"(3) a Some room_nonneg [of ?xs] room_nonneg [of ?ys] by auto
    have i1: "off - room ?xs \<le> o1" "o1 \<le> off" "alloc_ok ?xs (chains s) off offs offs1 o1"
      using "4.IH"(1) [OF refl] fr(1) r(1) "4.prems"(2) a s by auto
    obtain offs2 o2 where s2: "allocate s' (offs1, off) = (offs2, o2)" by fastforce
    have "fresh ?ys offs1" using i1(3) fr(3) by (intro fresh_agree [OF _ fr(2)]) (auto simp: alloc_ok_def)
    then have i2: "off - room ?ys \<le> o2" "o2 \<le> off" "alloc_ok ?ys (chains s') off offs1 offs2 o2"
      using "4.IH"(2) [OF refl _ refl Some] r(2) "4.prems"(2) a s s2 by auto
    show ?thesis
      using alloc_ok_append [OF i1(3) i2(3) fr(3), of "min o1 o2"] i1(1,2) i2(1,2) s s2 a Some
        room_nonneg [of ?xs] room_nonneg [of ?ys] by (auto simp: min_def)
  qed
next
  case (6 saved a)
  then show ?case by (auto simp: alloc_ok_def agree_def split: prod.splits)
next
  case (7 saved s ss offs off)
  let ?xs = "symbols_of s" and ?ys = "concat (map symbols_of ss)"
  have fr: "fresh ?xs offs" "fresh ?ys offs" "sym_id ` set ?xs \<inter> sym_id ` set ?ys = {}"
    using "7.prems"(1) by (auto simp: fresh_append)
  have r: "- 2147483632 \<le> saved - room ?xs" "- 2147483632 \<le> saved - room ?ys"
    using "7.prems"(4) room_nonneg [of ?xs] room_nonneg [of ?ys] by auto
  obtain offs1 o1 where s: "allocate s (offs, saved) = (offs1, o1)" by fastforce
  have i1: "saved - room ?xs \<le> o1" "o1 \<le> saved" "alloc_ok ?xs (chains s) saved offs offs1 o1"
    using "7.IH"(1) fr(1) r(1) "7.prems"(2) s by auto
  obtain offs2 o2 where l: "allocate_list saved ss (offs1, min off o1) = (offs2, o2)" by fastforce
  have "fresh ?ys offs1" using i1(3) fr(3) by (intro fresh_agree [OF _ fr(2)]) (auto simp: alloc_ok_def)
  then have i2: "min (min off o1) (saved - room ?ys) \<le> o2" "o2 \<le> min off o1" "alloc_ok ?ys (concat (map chains ss)) saved offs1 offs2 o2"
    using "7.IH"(2) [of "(offs1, o1)" offs1 o1] r(2) "7.prems"(2,3) s l i1(2) by auto
  show ?case
    using alloc_ok_append [OF i1(3) i2(3) fr(3), of o2] i1(1,2) i2(1,2) s l room_nonneg [of ?xs] room_nonneg [of ?ys]
    by (auto simp: min_def split: if_splits)
qed (auto simp: alloc_ok_def agree_def split: prod.splits)

subsection \<open>The frame of a function\<close>

lemma reg_params_fold:
  "fresh sys offs \<Longrightarrow> reg_params (zip sys (map sym_type sys)) (offs, off) = fold allocate_symbol sys (offs, off)"
proof (induction sys arbitrary: offs off)
  case (Cons sy sys)
  then have "fresh sys (offs(sym_id sy := place (sym_type sy) off))" by (auto simp: fresh_def rev_image_eqI)
  moreover have "offs (sym_id sy) = 0" using Cons.prems by (simp add: fresh_def)
  ultimately show ?case using Cons.IH by (simp add: allocate_symbol_def Let_def)
qed simp

lemma fold_allocate_done: "\<forall>sy \<in> set sys. fst a (sym_id sy) \<noteq> 0 \<Longrightarrow> fold allocate_symbol sys a = a"
  by (induction sys) (auto simp: allocate_symbol_def split: prod.splits)

text \<open>Placing the parameters first and then the whole block is placing the block.\<close>

lemma fold_allocate_again:
  assumes "fresh sys offs" "off \<le> 0" "- 2147483632 \<le> off - room sys" "\<forall>sy \<in> set sys. 0 < sym_size sy"
  shows "fold allocate_symbol sys (fold allocate_symbol sys (offs, off)) = fold allocate_symbol sys (offs, off)"
proof (rule fold_allocate_done, rule ballI)
  fix sy assume sy: "sy \<in> set sys"
  obtain offs' off' where f: "fold allocate_symbol sys (offs, off) = (offs', off')" by fastforce
  have "slot_in offs' off' off sy" using fold_allocate_ok [OF assms(1-3)] f sy by simp
  then show "fst (fold allocate_symbol sys (offs, off)) (sym_id sy) \<noteq> 0"
    using f assms(2,4) sy by (auto simp: slot_in_def dest!: bspec)
qed

lemma scalar_size_pos: "isScalar (sym_type sy) \<Longrightarrow> 0 < sym_size sy"
  using type_size_scalar [of "sym_type sy"] by (auto simp: sym_size_def)

definition function_symbols :: "cfunction \<Rightarrow> symbol list" where
  "function_symbols fn = (case fn of Function f decls body \<Rightarrow> symbols_of (Block decls body))"

definition function_chains :: "cfunction \<Rightarrow> symbol list list" where
  "function_chains fn = (case fn of Function f decls body \<Rightarrow> chains (Block decls body))"

text \<open>
  A function the allocator can serve: parameters in registers only, of scalar types, heading
  the declarations; distinct symbol objects; a frame that fits the offsets.
\<close>

definition allocatable :: "cfunction \<Rightarrow> bool" where
  "allocatable fn \<longleftrightarrow> (case fn of Function f decls body \<Rightarrow>
     length (param_types f) \<le> NUM_PARAM_REGS \<and> length (param_types f) \<le> length decls \<and>
     map sym_type (take (length (param_types f)) decls) = param_types f \<and> list_all isScalar (param_types f)) \<and>
     distinct (map sym_id (function_symbols fn)) \<and> list_all (object_type \<circ> sym_type) (function_symbols fn) \<and>
     room (function_symbols fn) \<le> 2147483632"

lemma allocate_function_block:
  assumes "allocatable (Function f decls body)" "fresh decls offs"
  shows "allocate_function (Function f decls body) (offs, 0) = allocate (Block decls body) (offs, 0)"
proof -
  define ps where "ps = param_types f"
  define pd where "pd = take (length ps) decls"
  define ld where "ld = drop (length ps) decls"
  have d: "decls = pd @ ld" by (simp add: pd_def ld_def)
  have t: "map sym_type pd = ps" "length pd = length ps" "length ps \<le> 8"
    using assms(1) by (auto simp: allocatable_def ps_def pd_def)
  have z: "zip decls ps = zip pd (map sym_type pd)" unfolding t(1) using t(2) by (simp add: d zip_append1)
  have fr: "fresh pd offs" using assms(2) d by (simp add: fresh_append)
  have "room decls \<le> 2147483632"
    using assms(1) room_nonneg [of "concat (map symbols_of body)"] by (auto simp: allocatable_def function_symbols_def)
  then have r: "- 2147483632 \<le> 0 - room pd" using d room_nonneg [of ld] by simp
  have "\<forall>t \<in> set ps. isScalar t" using assms(1) by (auto simp: allocatable_def ps_def list_all_iff)
  then have pos: "\<forall>sy \<in> set pd. 0 < sym_size sy" unfolding t(1) [symmetric] by (auto intro: scalar_size_pos)
  have "fold allocate_symbol decls (fold allocate_symbol pd (offs, 0)) = fold allocate_symbol decls (offs, 0)"
    using fold_allocate_again [OF fr _ r pos] by (simp add: d)
  then show ?thesis
    using t reg_params_fold [OF fr, of 0] z by (simp add: ps_def [symmetric] Let_def)
qed

text \<open>
  The frame the compiler lays out is sound: every variable and parameter of a function gets
  an aligned slot inside the frame, below the frame pointer, and of two objects that exist
  together the one declared later lies entirely below the other, so no two of them overlap.
\<close>

theorem allocate_function_sound:
  assumes "allocatable fn" "\<forall>sy \<in> set (function_symbols fn). offs (sym_id sy) = 0"
  shows "case allocate_function fn (offs, 0) of (offs', off') \<Rightarrow>
    (\<forall>sy \<in> set (function_symbols fn). slot_in offs' off' 0 sy) \<and>
    (\<forall>ch \<in> set (function_chains fn). sorted_wrt (below offs') ch) \<and>
    (\<forall>i. i \<notin> sym_id ` set (function_symbols fn) \<longrightarrow> offs' i = offs i)"
proof (cases fn)
  case (Function f decls body)
  let ?b = "Block decls body"
  have s: "function_symbols fn = symbols_of ?b" "function_chains fn = chains ?b"
    by (simp_all add: Function function_symbols_def function_chains_def)
  have fr: "fresh (symbols_of ?b) offs" using assms unfolding s fresh_def
    by (auto simp: allocatable_def s list_all_iff)
  have r: "- 2147483632 \<le> 0 - room (symbols_of ?b)" using assms(1) by (simp add: allocatable_def s(1) del: symbols_of.simps)
  have "fresh decls offs" using fr by (simp add: fresh_append)
  then have e: "allocate_function fn (offs, 0) = allocate ?b (offs, 0)"
    using allocate_function_block assms(1) Function by simp
  show ?thesis unfolding e s using allocate_ok(1) [of ?b "(offs, 0)"] fr r
    by (auto simp: alloc_ok_def agree_def simp del: symbols_of.simps chains.simps allocate.simps split: prod.splits)
qed

text \<open>An example: \<open>int f(char c) { long x; if (c) { int a[3]; a; } else { char d; d; } }\<close>.\<close>

definition example_function :: cfunction where
  "example_function =
     (let c = \<lparr>sym_id = 1, sym_name = ''c'', sym_type = character\<rparr>;
          x = \<lparr>sym_id = 2, sym_name = ''x'', sym_type = longint\<rparr>;
          a = \<lparr>sym_id = 3, sym_name = ''a'', sym_type = ArrayType SpecInt 0 3\<rparr>;
          d = \<lparr>sym_id = 4, sym_name = ''d'', sym_type = character\<rparr>
      in Function \<lparr>sym_id = 0, sym_name = ''f'', sym_type = FunctionType SpecInt 0 False [character]\<rparr> [c, x]
           [If (Identifier c) (Block [a] [Simple (Identifier a)]) (Some (Block [d] [Simple (Identifier d)]))])"

theorem allocate_function_sound_witness:
  "case allocate_function example_function (\<lambda>_. 0, 0) of (offs', off') \<Rightarrow>
    (\<forall>sy \<in> set (function_symbols example_function). slot_in offs' off' 0 sy) \<and>
    (\<forall>ch \<in> set (function_chains example_function). sorted_wrt (below offs') ch) \<and>
    (\<forall>i. i \<notin> sym_id ` set (function_symbols example_function) \<longrightarrow> offs' i = 0)"
proof -
  have "allocatable example_function"
    by (simp add: allocatable_def example_function_def function_symbols_def param_types_def object_type_def room_def sym_size_def Let_def)
  then show ?thesis by (rule allocate_function_sound) simp
qed

text \<open>
  An array of length 0 declared first gets the offset 0, which the code generator takes for
  the mark of a global object.
\<close>

theorem empty_array_offset:
  "fst (allocate (Block [\<lparr>sym_id = 1, sym_name = ''a'', sym_type = ArrayType SpecInt 0 0\<rparr>] []) (\<lambda>_. 0, 0)) 1 = 0"
  by (simp add: allocate_symbol_def place_def align_down_def Let_def)

end
