(* ===== verification/CcGen.thy ===== *)
theory CcGen
  imports CcAlloc "HOL-Library.List_Lexorder"
begin

text \<open>
  The AArch64 code generator of the host Tiny C compiler (\<open>generator.cpp\<close>, \<open>label.cpp\<close>).  The
  text written to standard output is a list of lines, one constructor of \<open>line\<close> for each line
  the generator can write.  \<open>fail_codegen\<close> and a failing \<open>assert\<close> end the compiler: the result
  \<open>None\<close>.  The label counter and the table of string literals are the state; the symbol
  offsets come from the allocator; the stack of break labels, which every loop pushes and
  pops, and the exit label of the function are arguments.
\<close>

subsection \<open>Output\<close>

datatype label = Lbl nat | ExitOf string

datatype target = GlobalName string | StringLabel nat

datatype cond = EQ | NE | LT | GT | LE | GE

datatype access = AccByte | AccWord | AccDouble

text \<open>\<open>neg\<close>, \<open>sxtb\<close>, \<open>sxtw\<close> of \<open>x0\<close>; \<open>mul\<close>, \<open>sdiv\<close>, \<open>add\<close>, \<open>sub\<close> of \<open>x1\<close> and \<open>x0\<close> into \<open>x0\<close>; the two lines of a remainder.\<close>

datatype arith = Neg | Sxtb | Sxtw | Mul | Sdiv | SdivX2 | Msub | AddX | SubX

datatype frame_line = StpFrame | MovFpSp | SubSp int | AddSp int | StoreParam access nat int | LdpFrame | Ret

datatype directive =
    TextSection | AlignLine | GlobalLine string | FunctionLabel string
  | Comm string u64 nat | RodataSection | Asciz string

datatype line =
    StrPush nat
  | LdrPop nat
  | Cset cond
  | LdrConst u64
  | SubFp int
  | AddFp int
  | MovFp
  | Adrp target
  | AddLo12 target
  | Load access
  | Store access
  | MovX1X0
  | CmpX1X0
  | CmpX0Zero
  | BCond cond label
  | Branch label
  | LabelLine label
  | MovConst u64
  | Arith arith
  | Bl string
  | Frame frame_line
  | Directive directive

record gstate =
  label_counter :: nat
  string_table :: "(string \<times> nat) list"

subsection \<open>Labels and addresses\<close>

definition new_label :: "gstate \<Rightarrow> nat \<times> gstate" where
  "new_label g = (label_counter g, g\<lparr>label_counter := label_counter g + 1\<rparr>)"

text \<open>
  \<open>strings.emplace(_value, Label())\<close>: a label is drawn in any case, and kept for a string
  that is new.
\<close>

definition emplace_string :: "string \<Rightarrow> gstate \<Rightarrow> nat \<times> gstate" where
  "emplace_string v g =
     (let (l, g1) = new_label g
      in case map_of (string_table g1) v of
           Some l' \<Rightarrow> (l', g1)
         | None \<Rightarrow> (l, g1\<lparr>string_table := (v, l) # string_table g1\<rparr>))"

definition align_to :: "int \<Rightarrow> int \<Rightarrow> int" where
  "align_to v a = (let r = v smod a in if r = 0 then v else v + (a - r))"

definition emit_local_address :: "int \<Rightarrow> line list" where
  "emit_local_address off = (if off < 0 then [SubFp (- off)] else if off > 0 then [AddFp off] else [MovFp])"

definition emit_global_address :: "target \<Rightarrow> line list" where
  "emit_global_address t = [Adrp t, AddLo12 t]"

definition emit_load_from_address :: "ctype \<Rightarrow> line list option" where
  "emit_load_from_address t =
     map_option (\<lambda>n. if n = 1 then [Load AccByte] else if n = 4 then [Load AccWord] else [Load AccDouble]) (type_size t)"

definition emit_store_to_address :: "ctype \<Rightarrow> line list option" where
  "emit_store_to_address t =
     map_option (\<lambda>n. if n = 1 then [Store AccByte] else if n = 4 then [Store AccWord] else [Store AccDouble]) (type_size t)"

definition emit_symbol_address :: "(nat \<Rightarrow> int) \<Rightarrow> symbol \<Rightarrow> line list" where
  "emit_symbol_address offs sy =
     (if offs (sym_id sy) = 0 then emit_global_address (GlobalName (sym_name sy))
      else emit_local_address (offs (sym_id sy)))"

definition emit_load_symbol :: "(nat \<Rightarrow> int) \<Rightarrow> symbol \<Rightarrow> line list option" where
  "emit_load_symbol offs sy =
     map_option (\<lambda>ld. emit_symbol_address offs sy @ ld) (emit_load_from_address (sym_type sy))"

definition gen_string :: "string \<Rightarrow> gstate \<Rightarrow> line list \<times> gstate" where
  "gen_string v g = (let (l, g1) = emplace_string v g in (emit_global_address (StringLabel l), g1))"

definition emit_cast :: "ctype \<Rightarrow> line list option" where
  "emit_cast t = map_option (\<lambda>n. if n = 1 then [Arith Sxtb] else if n = 4 then [Arith Sxtw] else []) (type_size t)"

definition test_lines :: "label \<Rightarrow> bool \<Rightarrow> line list" where
  "test_lines l ifTrue = [CmpX0Zero, BCond (if ifTrue then NE else EQ) l]"

text \<open>The lines after both operands of an operator that is not a logical one.\<close>

fun binary_lines :: "binop \<Rightarrow> line list" where
  "binary_lines Multiply = [Arith Mul]"
| "binary_lines Divide = [Arith Sdiv]"
| "binary_lines Remainder = [Arith SdivX2, Arith Msub]"
| "binary_lines Add = [Arith AddX]"
| "binary_lines Subtract = [Arith SubX]"
| "binary_lines LessThan = [CmpX1X0, Cset LT]"
| "binary_lines GreaterThan = [CmpX1X0, Cset GT]"
| "binary_lines LessOrEqual = [CmpX1X0, Cset LE]"
| "binary_lines GreaterOrEqual = [CmpX1X0, Cset GE]"
| "binary_lines Equal = [CmpX1X0, Cset EQ]"
| "binary_lines NotEqual = [CmpX1X0, Cset NE]"
| "binary_lines LogicalAnd = []"
| "binary_lines LogicalOr = []"

subsection \<open>Expressions\<close>

text \<open>
  \<open>generate\<close> of the expression classes; \<open>emit_lvalue_address\<close>, which fails for anything but a
  name, a string and a dereference; and the arguments of a call, evaluated and pushed from
  the last to the first.
\<close>

fun generate :: "(nat \<Rightarrow> int) \<Rightarrow> cexpr \<Rightarrow> gstate \<Rightarrow> (line list \<times> gstate) option"
  and emit_lvalue_address :: "(nat \<Rightarrow> int) \<Rightarrow> cexpr \<Rightarrow> gstate \<Rightarrow> (line list \<times> gstate) option"
  and push_args :: "(nat \<Rightarrow> int) \<Rightarrow> cexpr list \<Rightarrow> gstate \<Rightarrow> (line list \<times> gstate) option" where
  "generate offs (StringLit v) g = Some (gen_string v g)"
| "generate offs (Identifier sy) g = map_option (\<lambda>c. (c, g)) (emit_load_symbol offs sy)"
| "generate offs (Number txt _) g = Some ([LdrConst (fst (strtoul txt))], g)"
| "generate offs (Call f args _) g =
     (if length args > NUM_PARAM_REGS then None
      else do { (c, g1) \<leftarrow> push_args offs args g;
                Some (c @ map LdrPop [0..<length args] @ [Bl (sym_name f)], g1) })"
| "generate offs (NotE e _) g =
     do { (c, g1) \<leftarrow> generate offs e g; Some (c @ [CmpX0Zero, Cset EQ], g1) }"
| "generate offs (Negate e _) g = do { (c, g1) \<leftarrow> generate offs e g; Some (c @ [Arith Neg], g1) }"
| "generate offs (Dereference e t) g =
     do { (c, g1) \<leftarrow> generate offs e g; ld \<leftarrow> emit_load_from_address t; Some (c @ ld, g1) }"
| "generate offs (Address e _) g = emit_lvalue_address offs e g"
| "generate offs (Cast e t) g =
     do { (c, g1) \<leftarrow> generate offs e g; cv \<leftarrow> emit_cast t; Some (c @ cv, g1) }"
| "generate offs (Binary op l r _) g =
     (if op = LogicalAnd \<or> op = LogicalOr then
        let (first, g1) = new_label g; (fin, g2) = new_label g1; ifTrue = (op = LogicalOr)
        in do { (c1, g3) \<leftarrow> generate offs l g2;
                (c2, g4) \<leftarrow> generate offs r g3;
                Some (c1 @ test_lines (Lbl first) ifTrue @ c2 @ test_lines (Lbl first) ifTrue @
                      [MovConst (if ifTrue then 0 else 1), Branch (Lbl fin), LabelLine (Lbl first),
                       MovConst (if ifTrue then 1 else 0), LabelLine (Lbl fin)], g4) }
      else
        do { (c1, g1) \<leftarrow> generate offs l g;
             (c2, g2) \<leftarrow> generate offs r g1;
             Some (c1 @ [StrPush 0] @ c2 @ [LdrPop 1] @ binary_lines op, g2) })"
| "emit_lvalue_address offs (Identifier sy) g = Some (emit_symbol_address offs sy, g)"
| "emit_lvalue_address offs (StringLit v) g = Some (gen_string v g)"
| "emit_lvalue_address offs (Dereference e _) g = generate offs e g"
| "emit_lvalue_address offs _ g = None"
| "push_args offs [] g = Some ([], g)"
| "push_args offs (e # es) g =
     do { (c1, g1) \<leftarrow> push_args offs es g;
          (c2, g2) \<leftarrow> generate offs e g1;
          Some (c1 @ c2 @ [StrPush 0], g2) }"

definition gen_test :: "(nat \<Rightarrow> int) \<Rightarrow> cexpr \<Rightarrow> label \<Rightarrow> bool \<Rightarrow> gstate \<Rightarrow> (line list \<times> gstate) option" where
  "gen_test offs e l ifTrue g = do { (c, g1) \<leftarrow> generate offs e g; Some (c @ test_lines l ifTrue, g1) }"

subsection \<open>Statements\<close>

fun gen_stmt :: "(nat \<Rightarrow> int) \<Rightarrow> string \<Rightarrow> nat list \<Rightarrow> cstmt \<Rightarrow> gstate \<Rightarrow> (line list \<times> gstate) option"
  and gen_stmts :: "(nat \<Rightarrow> int) \<Rightarrow> string \<Rightarrow> nat list \<Rightarrow> cstmt list \<Rightarrow> gstate \<Rightarrow> (line list \<times> gstate) option" where
  "gen_stmt offs fn brk (Assignment l r) g =
     do { (c1, g1) \<leftarrow> generate offs r g;
          (c2, g2) \<leftarrow> emit_lvalue_address offs l g1;
          st \<leftarrow> emit_store_to_address (type_of l);
          Some (c1 @ [StrPush 0] @ c2 @ [MovX1X0, LdrPop 0] @ st, g2) }"
| "gen_stmt offs fn brk Break g = (case brk of [] \<Rightarrow> None | l # _ \<Rightarrow> Some ([Branch (Lbl l)], g))"
| "gen_stmt offs fn brk (Return e) g =
     do { (c, g1) \<leftarrow> generate offs e g; Some (c @ [Branch (ExitOf fn)], g1) }"
| "gen_stmt offs fn brk (Block _ ss) g = gen_stmts offs fn brk ss g"
| "gen_stmt offs fn brk (While e s) g =
     (let (loop, g1) = new_label g; (fin, g2) = new_label g1
      in do { (c1, g3) \<leftarrow> gen_test offs e (Lbl fin) False g2;
              (c2, g4) \<leftarrow> gen_stmt offs fn (fin # brk) s g3;
              Some (LabelLine (Lbl loop) # c1 @ c2 @ [Branch (Lbl loop), LabelLine (Lbl fin)], g4) })"
| "gen_stmt offs fn brk (For i e n s) g =
     (let (loop, g1) = new_label g; (fin, g2) = new_label g1
      in do { (c0, g3) \<leftarrow> gen_stmt offs fn (fin # brk) i g2;
              (c1, g4) \<leftarrow> gen_test offs e (Lbl fin) False g3;
              (c2, g5) \<leftarrow> gen_stmt offs fn (fin # brk) s g4;
              (c3, g6) \<leftarrow> gen_stmt offs fn (fin # brk) n g5;
              Some (c0 @ LabelLine (Lbl loop) # c1 @ c2 @ c3 @ [Branch (Lbl loop), LabelLine (Lbl fin)], g6) })"
| "gen_stmt offs fn brk (If e s els) g =
     (let (other, g1) = new_label g; (fin, g2) = new_label g1
      in do { (c1, g3) \<leftarrow> gen_test offs e (Lbl other) False g2;
              (c2, g4) \<leftarrow> gen_stmt offs fn brk s g3;
              (case els of
                 None \<Rightarrow> Some (c1 @ c2 @ [LabelLine (Lbl other)], g4)
               | Some s' \<Rightarrow>
                   do { (c3, g5) \<leftarrow> gen_stmt offs fn brk s' g4;
                        Some (c1 @ c2 @ [Branch (Lbl fin), LabelLine (Lbl other)] @ c3 @ [LabelLine (Lbl fin)], g5) }) })"
| "gen_stmt offs fn brk (Simple e) g = generate offs e g"
| "gen_stmts offs fn brk [] g = Some ([], g)"
| "gen_stmts offs fn brk (s # ss) g =
     do { (c1, g1) \<leftarrow> gen_stmt offs fn brk s g; (c2, g2) \<leftarrow> gen_stmts offs fn brk ss g1; Some (c1 @ c2, g2) }"

subsection \<open>Functions and globals\<close>

text \<open>The stores of the parameter registers; an offset 0 ends the compiler.\<close>

fun store_params :: "(nat \<Rightarrow> int) \<Rightarrow> nat \<Rightarrow> (symbol \<times> ctype) list \<Rightarrow> line list option" where
  "store_params offs i [] = Some []"
| "store_params offs i ((sy, t) # ps) =
     (if offs (sym_id sy) = 0 then None
      else do { n \<leftarrow> type_size t;
                c \<leftarrow> store_params offs (i + 1) ps;
                Some (Frame (StoreParam (if n = 1 then AccByte else if n = 4 then AccWord else AccDouble) i (offs (sym_id sy))) # c) })"

definition sp_lines :: "(int \<Rightarrow> frame_line) \<Rightarrow> int \<Rightarrow> line list" where
  "sp_lines f frame_size = (if frame_size > 0 then [Frame (f frame_size)] else [])"

fun generate_function :: "cfunction \<Rightarrow> gstate \<Rightarrow> (line list \<times> gstate) option" where
  "generate_function (Function f decls body) g =
     (if length (param_types f) > NUM_PARAM_REGS then None
      else
        let (offs, off) = allocate_function (Function f decls body) (\<lambda>_. 0, 0);
            frame_size = align_to (- off) 16; fn = sym_name f
        in do { st \<leftarrow> store_params offs 0 (zip decls (param_types f));
                (c, g1) \<leftarrow> gen_stmts offs fn [] body g;
                Some (map Directive [TextSection, AlignLine, GlobalLine fn, FunctionLabel fn] @ map Frame [StpFrame, MovFpSp] @
                      sp_lines SubSp frame_size @ st @ c @ [LabelLine (ExitOf fn)] @
                      sp_lines AddSp frame_size @ map Frame [LdpFrame, Ret], g1) })"

fun comm_lines :: "scope \<Rightarrow> line list option" where
  "comm_lines [] = Some []"
| "comm_lines (sy # sys) =
     (if isFunction (sym_type sy) then comm_lines sys
      else do { n \<leftarrow> type_size (sym_type sy); a \<leftarrow> type_alignment (sym_type sy); c \<leftarrow> comm_lines sys;
                Some (Directive (Comm (sym_name sy) n a) # c) })"

definition string_lines :: "gstate \<Rightarrow> line list" where
  "string_lines g =
     (if string_table g = [] then []
      else Directive RodataSection #
        concat (map (\<lambda>(v, l). [LabelLine (Lbl l), Directive (Asciz (escapeString v [CHR 0x22]))]) (sort_key fst (string_table g))))"

definition generateGlobals :: "scope \<Rightarrow> gstate \<Rightarrow> line list option" where
  "generateGlobals sc g = map_option (\<lambda>c. c @ string_lines g) (comm_lines sc)"

end
