(* ===== verification/CcParse.thy ===== *)
theory CcParse
  imports CcSound CcGen
begin

text \<open>
  The recursive-descent parser of the host Tiny C compiler (\<open>parser.cpp\<close>) with the lexer
  actions that check literals (the end of \<open>lexer.l\<close> and \<open>lexer.cpp\<close>), driving the semantic
  checker and the code generator.

  The scanner tables are generated by flex: what they match is the input of the model, a list
  of token codes with their texts and whether the file ends inside a comment.  The global
  variables of \<open>parser.cpp\<close>, \<open>checker.cpp\<close> and \<open>generator.cpp\<close> are the state.  A parser either
  returns (\<open>Ok\<close>), ends the process (\<open>Exit\<close>: a syntax error, a construct the generator refuses,
  a failing assertion), never returns (\<open>Hang\<close>, from \<open>checkCall\<close>) or runs out of the fuel
  that bounds the recursion of the model (\<open>OutOfFuel\<close>).
\<close>

subsection \<open>Tokens\<close>

abbreviation T_NOT :: int where "T_NOT \<equiv> 33"
abbreviation T_REM :: int where "T_REM \<equiv> 37"
abbreviation T_ADDR :: int where "T_ADDR \<equiv> 38"
abbreviation T_LPAREN :: int where "T_LPAREN \<equiv> 40"
abbreviation T_RPAREN :: int where "T_RPAREN \<equiv> 41"
abbreviation T_STAR :: int where "T_STAR \<equiv> 42"
abbreviation T_PLUS :: int where "T_PLUS \<equiv> 43"
abbreviation T_COMMA :: int where "T_COMMA \<equiv> 44"
abbreviation T_MINUS :: int where "T_MINUS \<equiv> 45"
abbreviation T_DIV :: int where "T_DIV \<equiv> 47"
abbreviation T_SEMI :: int where "T_SEMI \<equiv> 59"
abbreviation T_LTN :: int where "T_LTN \<equiv> 60"
abbreviation T_ASSIGN :: int where "T_ASSIGN \<equiv> 61"
abbreviation T_GTN :: int where "T_GTN \<equiv> 62"
abbreviation T_LBRACK :: int where "T_LBRACK \<equiv> 91"
abbreviation T_RBRACK :: int where "T_RBRACK \<equiv> 93"
abbreviation T_LBRACE :: int where "T_LBRACE \<equiv> 123"
abbreviation T_RBRACE :: int where "T_RBRACE \<equiv> 125"
abbreviation T_BREAK :: int where "T_BREAK \<equiv> 257"
abbreviation T_CHAR :: int where "T_CHAR \<equiv> 259"
abbreviation T_ELSE :: int where "T_ELSE \<equiv> 265"
abbreviation T_FOR :: int where "T_FOR \<equiv> 269"
abbreviation T_IF :: int where "T_IF \<equiv> 271"
abbreviation T_INT :: int where "T_INT \<equiv> 272"
abbreviation T_LONG :: int where "T_LONG \<equiv> 273"
abbreviation T_RETURN :: int where "T_RETURN \<equiv> 275"
abbreviation T_SIZEOF :: int where "T_SIZEOF \<equiv> 278"
abbreviation T_VOID :: int where "T_VOID \<equiv> 285"
abbreviation T_WHILE :: int where "T_WHILE \<equiv> 287"
abbreviation T_OR :: int where "T_OR \<equiv> 288"
abbreviation T_AND :: int where "T_AND \<equiv> 289"
abbreviation T_EQL :: int where "T_EQL \<equiv> 290"
abbreviation T_NEQ :: int where "T_NEQ \<equiv> 291"
abbreviation T_LEQ :: int where "T_LEQ \<equiv> 292"
abbreviation T_GEQ :: int where "T_GEQ \<equiv> 293"
abbreviation T_ELLIPSIS :: int where "T_ELLIPSIS \<equiv> 297"
abbreviation T_ID :: int where "T_ID \<equiv> 298"
abbreviation T_NUM :: int where "T_NUM \<equiv> 299"
abbreviation T_STRING :: int where "T_STRING \<equiv> 300"
abbreviation T_CHARACTER :: int where "T_CHARACTER \<equiv> 301"
abbreviation T_DONE :: int where "T_DONE \<equiv> 0"

subsection \<open>State and outcomes\<close>

record pstate =
  lookahead :: int
  lexbuf :: string
  nexttoken :: int
  nextbuf :: string
  input :: "(int \<times> string) list"
  open_comment :: bool
  returnType :: ctype
  loopDepth :: nat
  chk :: checker
  msgs :: "message list"
  generator :: gstate
  asm_out :: "line list"
  generated :: "cfunction list"

datatype 'a outcome = Ok 'a pstate | Exit pstate | Hang | OutOfFuel

type_synonym 'a parse = "pstate \<Rightarrow> 'a outcome"

definition ret :: "'a \<Rightarrow> 'a parse" where
  "ret a s = Ok a s"

definition andthen :: "'a parse \<Rightarrow> ('a \<Rightarrow> 'b parse) \<Rightarrow> 'b parse" where
  "andthen p f s = (case p s of Ok a s' \<Rightarrow> f a s' | Exit s' \<Rightarrow> Exit s' | Hang \<Rightarrow> Hang | OutOfFuel \<Rightarrow> OutOfFuel)"

definition look :: "(int \<Rightarrow> 'a parse) \<Rightarrow> 'a parse" where
  "look f s = f (lookahead s) s"

definition report :: "message list \<Rightarrow> pstate \<Rightarrow> pstate" where
  "report ms s = s\<lparr>msgs := msgs s @ ms\<rparr>"

text \<open>A check and a declaration: their reports go to the state.\<close>

definition checked_by :: "'a checked \<Rightarrow> 'a parse" where
  "checked_by c s = Ok (snd c) (report (fst c) s)"

definition calling :: "'a checked option \<Rightarrow> 'a parse" where
  "calling c s = (case c of None \<Rightarrow> Hang | Some c \<Rightarrow> checked_by c s)"

definition declaring :: "(checker \<Rightarrow> ('a \<times> checker) checked) \<Rightarrow> 'a parse" where
  "declaring f s = (case f (chk s) of (ms, a, c) \<Rightarrow> Ok a (report ms (s\<lparr>chk := c\<rparr>)))"

subsection \<open>Lexer actions\<close>

text \<open>\<open>strtol\<close> sets \<open>errno\<close> when the magnitude leaves the range of \<open>long\<close>.\<close>

definition strtol_range :: "string \<Rightarrow> bool" where
  "strtol_range s =
     (let s1 = dropWhile is_blank s;
          neg = (chd s1 = CHR ''-'');
          s2 = (if chd s1 \<in> {CHR ''+'', CHR ''-''} then tl s1 else s1);
          (base, s3) = strtoul_base s2;
          v = digits_value base (takeWhile (digit_in base) s3)
      in int v > (if neg then 2 ^ 63 else 2 ^ 63 - 1))"

definition checkInt :: "string \<Rightarrow> message list" where
  "checkInt yytext = (if strtol_range yytext then [IntegerTooLarge] else [])"

definition unquote :: "string \<Rightarrow> string" where
  "unquote s = butlast (tl s)"

definition checkString :: "string \<Rightarrow> message list" where
  "checkString yytext =
     (case parseString (unquote yytext) of (_, invalid, overflow) \<Rightarrow>
        if invalid then [UnknownEscape] else if overflow then [EscapeRange] else [])"

definition checkChar :: "string \<Rightarrow> message list" where
  "checkChar yytext =
     (case parseString (unquote yytext) of (s, invalid, overflow) \<Rightarrow>
        if invalid then [UnknownEscape] else if overflow then [EscapeRange]
        else if length s > 1 then [MultiCharacter] else [])"

definition yylex :: "pstate \<Rightarrow> int \<times> string \<times> pstate" where
  "yylex s =
     (case input s of
        [] \<Rightarrow> (T_DONE, [], report (if open_comment s then [UnterminatedComment] else []) (s\<lparr>open_comment := False\<rparr>))
      | (t, txt) # rest \<Rightarrow>
          (t, txt, report (if t = T_NUM then checkInt txt else if t = T_STRING then checkString txt
                           else if t = T_CHARACTER then checkChar txt else []) (s\<lparr>input := rest\<rparr>)))"

subsection \<open>Matching\<close>

definition error :: "'a parse" where
  "error s = Exit (report (if lookahead s = T_DONE then [SyntaxErrorEof] else [SyntaxError (lexbuf s)]) s)"

definition advance :: "pstate \<Rightarrow> pstate" where
  "advance s =
     (if nexttoken s \<noteq> 0 then s\<lparr>lookahead := nexttoken s, lexbuf := nextbuf s, nexttoken := 0\<rparr>
      else case yylex s of (t, txt, s') \<Rightarrow> s'\<lparr>lookahead := t, lexbuf := txt\<rparr>)"

definition match :: "int \<Rightarrow> unit parse" where
  "match t s = (if lookahead s \<noteq> t then error s else Ok () (advance s))"

definition peek :: "int parse" where
  "peek s =
     (if nexttoken s = 0
      then case yylex s of (t, txt, s') \<Rightarrow> Ok t (s'\<lparr>nexttoken := t, nextbuf := txt\<rparr>)
      else Ok (nexttoken s) s)"

definition isSpecifier :: "int \<Rightarrow> bool" where
  "isSpecifier t \<longleftrightarrow> t = T_CHAR \<or> t = T_INT \<or> t = T_LONG"

definition matching :: "int \<Rightarrow> 'a parse \<Rightarrow> 'a parse" where
  "matching t p = andthen (match t) (\<lambda>_. p)"

definition number :: "u64 parse" where
  "number s = andthen (match T_NUM) (\<lambda>_. ret (fst (strtoul (lexbuf s)))) s"

definition ident_name :: "string parse" where
  "ident_name s = andthen (match T_ID) (\<lambda>_. ret (lexbuf s)) s"

definition specifier :: "cspec parse" where
  "specifier =
     look (\<lambda>t. if isSpecifier t
               then matching t (ret (if t = T_CHAR then SpecChar else if t = T_INT then SpecInt else SpecLong))
               else error)"

fun pointers :: "nat \<Rightarrow> nat parse" where
  "pointers 0 s = OutOfFuel"
| "pointers (Suc n) s =
     look (\<lambda>t. if t = T_STAR then matching T_STAR (andthen (pointers n) (\<lambda>c. ret (c + 1))) else ret 0) s"

subsection \<open>Declarations\<close>

definition declarator :: "nat \<Rightarrow> cspec \<Rightarrow> unit parse" where
  "declarator n sp =
     andthen (pointers n) (\<lambda>k. andthen ident_name (\<lambda>name. look (\<lambda>t.
       if t = T_LBRACK then
         matching T_LBRACK (andthen number (\<lambda>len.
           andthen (declaring (declareVariable name (ArrayType sp k len))) (\<lambda>_. match T_RBRACK)))
       else andthen (declaring (declareVariable name (ScalarType sp k))) (\<lambda>_. ret ()))))"

fun declarator_list :: "nat \<Rightarrow> cspec \<Rightarrow> unit parse" where
  "declarator_list 0 sp s = OutOfFuel"
| "declarator_list (Suc n) sp s =
     look (\<lambda>t. if t = T_COMMA then matching T_COMMA (andthen (declarator n sp) (\<lambda>_. declarator_list n sp)) else ret ()) s"

definition local_declaration :: "nat \<Rightarrow> unit parse" where
  "local_declaration n =
     andthen specifier (\<lambda>sp. andthen (declarator n sp) (\<lambda>_. andthen (declarator_list n sp) (\<lambda>_. match T_SEMI)))"

fun declarations :: "nat \<Rightarrow> unit parse" where
  "declarations 0 s = OutOfFuel"
| "declarations (Suc n) s =
     look (\<lambda>t. if isSpecifier t then andthen (local_declaration n) (\<lambda>_. declarations n) else ret ()) s"

subsection \<open>Expressions\<close>

definition multiplicative_op :: "int \<Rightarrow> binop option" where
  "multiplicative_op t =
     (if t = T_STAR then Some Multiply else if t = T_DIV then Some Divide else if t = T_REM then Some Remainder else None)"

definition additive_op :: "int \<Rightarrow> binop option" where
  "additive_op t = (if t = T_PLUS then Some Add else if t = T_MINUS then Some Subtract else None)"

definition relational_op :: "int \<Rightarrow> binop option" where
  "relational_op t =
     (if t = T_LTN then Some LessThan else if t = T_GTN then Some GreaterThan
      else if t = T_LEQ then Some LessOrEqual else if t = T_GEQ then Some GreaterOrEqual else None)"

definition equality_op :: "int \<Rightarrow> binop option" where
  "equality_op t = (if t = T_EQL then Some Equal else if t = T_NEQ then Some NotEqual else None)"

definition logical_and_op :: "int \<Rightarrow> binop option" where
  "logical_and_op t = (if t = T_AND then Some LogicalAnd else None)"

definition logical_or_op :: "int \<Rightarrow> binop option" where
  "logical_or_op t = (if t = T_OR then Some LogicalOr else None)"

text \<open>
  The operators of a precedence level, from multiplicative (0) to logical or (5): the six
  functions of the parser differ only in them and in the level of their operands.
\<close>

definition level_op :: "nat \<Rightarrow> int \<Rightarrow> binop option" where
  "level_op k =
     (if k = 0 then multiplicative_op else if k = 1 then additive_op else if k = 2 then relational_op
      else if k = 3 then equality_op else if k = 4 then logical_and_op else logical_or_op)"

text \<open>\<open>lookahead == '(' && isSpecifier(peek())\<close>\<close>

definition type_in_parens :: "bool parse" where
  "type_in_parens = look (\<lambda>t. if t = T_LPAREN then andthen peek (\<lambda>u. ret (isSpecifier u)) else ret False)"

text \<open>\<open>char\<close> is signed on the hosts the compiler runs on.\<close>

definition char_value :: "char \<Rightarrow> u64" where
  "char_value c = signed (of_nat (of_char c) :: u8)"

text \<open>
  The mutually recursive functions of the expression parser, with the loops inside them:
  the nonterminals of one function that takes fuel for the depth of the recursion.
\<close>

datatype nonterm =
    BinaryExpr nat
  | BinaryLoop nat cexpr
  | PrefixExpr
  | PostfixExpr
  | PostfixLoop cexpr
  | PrimaryExpr
  | ArgList symbol "cexpr list"

abbreviation Expr :: nonterm where "Expr \<equiv> BinaryExpr 5"

definition operand_of :: "nat \<Rightarrow> nonterm" where
  "operand_of k = (if k = 0 then PrefixExpr else BinaryExpr (k - 1))"

definition binary_expression :: "(nonterm \<Rightarrow> cexpr parse) \<Rightarrow> nat \<Rightarrow> cexpr parse" where
  "binary_expression rec k = andthen (rec (operand_of k)) (\<lambda>left. rec (BinaryLoop k left))"

definition binary_loop :: "(nonterm \<Rightarrow> cexpr parse) \<Rightarrow> nat \<Rightarrow> cexpr \<Rightarrow> cexpr parse" where
  "binary_loop rec k left =
     look (\<lambda>t. case level_op k t of
        None \<Rightarrow> ret left
      | Some op \<Rightarrow>
          matching t (andthen (rec (operand_of k)) (\<lambda>right.
            andthen (checked_by (check_binary op left right)) (\<lambda>e. rec (BinaryLoop k e)))))"

definition sizeof_type :: "nat \<Rightarrow> cexpr parse" where
  "sizeof_type n =
     matching T_LPAREN (andthen specifier (\<lambda>sp. andthen (pointers n) (\<lambda>k.
       matching T_RPAREN (ret (number_of_value (the (type_size (ScalarType sp k))))))))"

definition cast_expression :: "nat \<Rightarrow> (nonterm \<Rightarrow> cexpr parse) \<Rightarrow> cexpr parse" where
  "cast_expression n rec =
     matching T_LPAREN (andthen specifier (\<lambda>sp. andthen (pointers n) (\<lambda>k.
       matching T_RPAREN (andthen (rec PrefixExpr) (\<lambda>e. checked_by (checkCast (ScalarType sp k) e))))))"

definition prefixExpression :: "nat \<Rightarrow> (nonterm \<Rightarrow> cexpr parse) \<Rightarrow> cexpr parse" where
  "prefixExpression n rec =
     look (\<lambda>t.
       if t = T_NOT then matching T_NOT (andthen (rec PrefixExpr) (\<lambda>e. checked_by (checkNot e)))
       else if t = T_MINUS then matching T_MINUS (andthen (rec PrefixExpr) (\<lambda>e. checked_by (checkNegate e)))
       else if t = T_STAR then matching T_STAR (andthen (rec PrefixExpr) (\<lambda>e. checked_by (checkDereference e)))
       else if t = T_ADDR then matching T_ADDR (andthen (rec PrefixExpr) (\<lambda>e. checked_by (checkAddress e)))
       else if t = T_SIZEOF then
         matching T_SIZEOF (andthen type_in_parens (\<lambda>b.
           if b then sizeof_type n else andthen (rec PrefixExpr) (\<lambda>e. checked_by (checkSizeof e))))
       else andthen type_in_parens (\<lambda>b. if b then cast_expression n rec else rec PostfixExpr))"

definition postfixExpression :: "(nonterm \<Rightarrow> cexpr parse) \<Rightarrow> cexpr parse" where
  "postfixExpression rec = andthen (rec PrimaryExpr) (\<lambda>left. rec (PostfixLoop left))"

definition postfix_loop :: "(nonterm \<Rightarrow> cexpr parse) \<Rightarrow> cexpr \<Rightarrow> cexpr parse" where
  "postfix_loop rec left =
     look (\<lambda>t.
       if t = T_LBRACK then
         matching T_LBRACK (andthen (rec Expr) (\<lambda>right.
           andthen (checked_by (checkArray left right)) (\<lambda>e. matching T_RBRACK (rec (PostfixLoop e)))))
       else ret left)"

definition call_end :: "symbol \<Rightarrow> cexpr list \<Rightarrow> cexpr parse" where
  "call_end sy args = andthen (calling (checkCall sy args)) (\<lambda>e. matching T_RPAREN (ret e))"

definition argument_list :: "(nonterm \<Rightarrow> cexpr parse) \<Rightarrow> symbol \<Rightarrow> cexpr list \<Rightarrow> cexpr parse" where
  "argument_list rec sy args =
     andthen (rec Expr) (\<lambda>e. look (\<lambda>t.
       if t = T_COMMA then matching T_COMMA (rec (ArgList sy (args @ [e]))) else call_end sy (args @ [e])))"

definition primaryExpression :: "(nonterm \<Rightarrow> cexpr parse) \<Rightarrow> cexpr parse" where
  "primaryExpression rec s =
     look (\<lambda>t.
       if t = T_LPAREN then matching T_LPAREN (andthen (rec Expr) (\<lambda>e. matching T_RPAREN (ret e)))
       else if t = T_STRING then
         matching T_STRING (ret (StringLit (fst (parseString (unquote (lexbuf s))))))
       else if t = T_CHARACTER then
         matching T_CHARACTER (ret (number_of_value (char_value (chd (fst (parseString (unquote (lexbuf s))))))))
       else if t = T_NUM then matching T_NUM (ret (number_of_text (lexbuf s)))
       else if t = T_ID then
         andthen ident_name (\<lambda>name. andthen (declaring (checkIdentifier name)) (\<lambda>sy. look (\<lambda>t.
           if t = T_LPAREN then
             matching T_LPAREN (look (\<lambda>t. if t \<noteq> T_RPAREN then rec (ArgList sy []) else call_end sy []))
           else ret (Identifier sy))))
       else error) s"

primrec parse_nonterm :: "nat \<Rightarrow> nonterm \<Rightarrow> cexpr parse" where
  "parse_nonterm 0 nt = (\<lambda>s. OutOfFuel)"
| "parse_nonterm (Suc n) nt =
     (case nt of
        BinaryExpr k \<Rightarrow> binary_expression (parse_nonterm n) k
      | BinaryLoop k left \<Rightarrow> binary_loop (parse_nonterm n) k left
      | PrefixExpr \<Rightarrow> prefixExpression n (parse_nonterm n)
      | PostfixExpr \<Rightarrow> postfixExpression (parse_nonterm n)
      | PostfixLoop left \<Rightarrow> postfix_loop (parse_nonterm n) left
      | PrimaryExpr \<Rightarrow> primaryExpression (parse_nonterm n)
      | ArgList sy args \<Rightarrow> argument_list (parse_nonterm n) sy args)"

definition multiplicativeExpression :: "nat \<Rightarrow> cexpr parse" where
  "multiplicativeExpression n = parse_nonterm n (BinaryExpr 0)"

definition additiveExpression :: "nat \<Rightarrow> cexpr parse" where
  "additiveExpression n = parse_nonterm n (BinaryExpr 1)"

definition relationalExpression :: "nat \<Rightarrow> cexpr parse" where
  "relationalExpression n = parse_nonterm n (BinaryExpr 2)"

definition equalityExpression :: "nat \<Rightarrow> cexpr parse" where
  "equalityExpression n = parse_nonterm n (BinaryExpr 3)"

definition logicalAndExpression :: "nat \<Rightarrow> cexpr parse" where
  "logicalAndExpression n = parse_nonterm n (BinaryExpr 4)"

definition expression :: "nat \<Rightarrow> cexpr parse" where
  "expression n = parse_nonterm n (BinaryExpr 5)"

subsection \<open>Statements\<close>

text \<open>\<open>openScope(); p; closeScope()\<close> and \<open>loopDepth ++; p; loopDepth --\<close>\<close>

definition in_new_scope :: "'a parse \<Rightarrow> (scope \<times> 'a) parse" where
  "in_new_scope p s =
     andthen p (\<lambda>a s'. case closeScope (chk s') of (sc, c) \<Rightarrow> Ok (sc, a) (s'\<lparr>chk := c\<rparr>))
       (s\<lparr>chk := openScope (chk s)\<rparr>)"

definition in_loop :: "'a parse \<Rightarrow> 'a parse" where
  "in_loop p s =
     andthen p (\<lambda>a s'. Ok a (s'\<lparr>loopDepth := loopDepth s' - 1\<rparr>)) (s\<lparr>loopDepth := loopDepth s + 1\<rparr>)"

definition assignment :: "nat \<Rightarrow> cstmt parse" where
  "assignment n =
     andthen (expression n) (\<lambda>l. look (\<lambda>t.
       if t = T_ASSIGN then matching T_ASSIGN (andthen (expression n) (\<lambda>r. checked_by (checkAssignment l r)))
       else ret (Simple l)))"

definition test :: "nat \<Rightarrow> cexpr parse" where
  "test n = andthen (expression n) (\<lambda>e. checked_by (checkTest e))"

definition statement_body :: "nat \<Rightarrow> cstmt parse \<Rightarrow> cstmt list parse \<Rightarrow> cstmt parse" where
  "statement_body n statement statements =
     look (\<lambda>t.
       if t = T_LBRACE then
         matching T_LBRACE (andthen (in_new_scope (andthen (declarations n) (\<lambda>_. statements))) (\<lambda>(sc, ss).
           matching T_RBRACE (ret (Block sc ss))))
       else if t = T_BREAK then
         matching T_BREAK (andthen (\<lambda>s. checked_by (checkBreak (loopDepth s)) s) (\<lambda>st. matching T_SEMI (ret st)))
       else if t = T_RETURN then
         matching T_RETURN (andthen (expression n) (\<lambda>e.
           andthen (\<lambda>s. checked_by (checkReturn e (returnType s)) s) (\<lambda>st. matching T_SEMI (ret st))))
       else if t = T_WHILE then
         matching T_WHILE (matching T_LPAREN (andthen (test n) (\<lambda>e.
           matching T_RPAREN (andthen (in_loop statement) (\<lambda>st. ret (While e st))))))
       else if t = T_FOR then
         matching T_FOR (matching T_LPAREN (andthen (assignment n) (\<lambda>i.
           matching T_SEMI (andthen (test n) (\<lambda>e.
             matching T_SEMI (andthen (assignment n) (\<lambda>c.
               matching T_RPAREN (andthen (in_loop statement) (\<lambda>st. ret (For i e c st))))))))))
       else if t = T_IF then
         matching T_IF (matching T_LPAREN (andthen (test n) (\<lambda>e.
           matching T_RPAREN (andthen statement (\<lambda>st. look (\<lambda>t.
             if t \<noteq> T_ELSE then ret (If e st None)
             else matching T_ELSE (andthen statement (\<lambda>st'. ret (If e st (Some st'))))))))))
       else andthen (assignment n) (\<lambda>st. matching T_SEMI (ret st)))"

definition statements_body :: "cstmt parse \<Rightarrow> cstmt list parse \<Rightarrow> cstmt list parse" where
  "statements_body statement statements =
     look (\<lambda>t. if t \<noteq> T_RBRACE then andthen statement (\<lambda>st. andthen statements (\<lambda>ss. ret (st # ss))) else ret [])"

primrec stmt_parsers :: "nat \<Rightarrow> cstmt parse \<times> cstmt list parse" where
  "stmt_parsers 0 = (\<lambda>s. OutOfFuel, \<lambda>s. OutOfFuel)"
| "stmt_parsers (Suc n) =
     (case stmt_parsers n of (st, sts) \<Rightarrow> (statement_body n st sts, statements_body st sts))"

definition one_statement :: "nat \<Rightarrow> cstmt parse" where
  "one_statement n = fst (stmt_parsers n)"

definition statements :: "nat \<Rightarrow> cstmt list parse" where
  "statements n = snd (stmt_parsers n)"

lemma statement_simps [simp]:
  "one_statement 0 s = OutOfFuel" "statements 0 s = OutOfFuel"
  "one_statement (Suc n) = statement_body n (one_statement n) (statements n)"
  "statements (Suc n) = statements_body (one_statement n) (statements n)"
  by (simp_all add: one_statement_def statements_def split: prod.splits)

subsection \<open>Functions and global declarations\<close>

definition parameter :: "nat \<Rightarrow> ctype parse" where
  "parameter n =
     andthen specifier (\<lambda>sp. andthen (pointers n) (\<lambda>k. andthen ident_name (\<lambda>name.
       andthen (declaring (declareVariable name (ScalarType sp k))) (\<lambda>_. ret (ScalarType sp k)))))"

fun parameter_list :: "nat \<Rightarrow> ctype list \<Rightarrow> (bool \<times> ctype list) parse" where
  "parameter_list 0 ts s = OutOfFuel"
| "parameter_list (Suc n) ts s =
     look (\<lambda>t.
       if t = T_COMMA then
         matching T_COMMA (look (\<lambda>t.
           if t = T_ELLIPSIS then matching T_ELLIPSIS (ret (True, ts))
           else andthen (parameter n) (\<lambda>p. parameter_list n (ts @ [p]))))
       else ret (False, ts)) s"

definition parameters :: "nat \<Rightarrow> (bool \<times> ctype list) parse" where
  "parameters n =
     look (\<lambda>t. if t = T_VOID then matching T_VOID (ret (False, []))
               else andthen (parameter n) (\<lambda>p. parameter_list n [p]))"

definition globalDeclarator :: "nat \<Rightarrow> cspec \<Rightarrow> unit parse" where
  "globalDeclarator n sp =
     andthen (pointers n) (\<lambda>k. andthen ident_name (\<lambda>name. look (\<lambda>t.
       if t = T_LPAREN then
         matching T_LPAREN (andthen
           (in_new_scope (andthen (parameters n) (\<lambda>(v, ps). declaring (declareFunction name (FunctionType sp k v ps)))))
           (\<lambda>_. match T_RPAREN))
       else if t = T_LBRACK then
         matching T_LBRACK (andthen number (\<lambda>len.
           andthen (declaring (declareVariable name (ArrayType sp k len))) (\<lambda>_. match T_RBRACK)))
       else andthen (declaring (declareVariable name (ScalarType sp k))) (\<lambda>_. ret ()))))"

fun global_declarator_list :: "nat \<Rightarrow> cspec \<Rightarrow> unit parse" where
  "global_declarator_list 0 sp s = OutOfFuel"
| "global_declarator_list (Suc n) sp s =
     look (\<lambda>t. if t = T_COMMA
               then matching T_COMMA (andthen (globalDeclarator n sp) (\<lambda>_. global_declarator_list n sp)) else ret ()) s"

text \<open>\<open>if (numerrors == 0) function->generate();\<close>\<close>

definition generating :: "cfunction \<Rightarrow> unit parse" where
  "generating fn s =
     (if msgs s \<noteq> [] then Ok () s
      else
        let s1 = s\<lparr>generated := generated s @ [fn]\<rparr>
        in case generate_function fn (generator s) of
             None \<Rightarrow> Exit s1
           | Some (c, g) \<Rightarrow> Ok () (s1\<lparr>generator := g, asm_out := asm_out s1 @ c\<rparr>))"

text \<open>
  What follows the parameter list: a body, with the symbol and the statements, or nothing.
\<close>

definition function_rest :: "nat \<Rightarrow> cspec \<Rightarrow> nat \<Rightarrow> string \<Rightarrow> (symbol \<times> cstmt list) option parse" where
  "function_rest n sp k name =
     andthen (parameters n) (\<lambda>(v, ps). matching T_RPAREN (look (\<lambda>t.
       if t = T_LBRACE then
         andthen (\<lambda>s. Ok () (s\<lparr>returnType := ScalarType sp k\<rparr>)) (\<lambda>_.
           andthen (declaring (defineFunction name (FunctionType sp k v ps))) (\<lambda>sy.
             matching T_LBRACE (andthen (declarations n) (\<lambda>_. andthen (statements n) (\<lambda>ss. ret (Some (sy, ss)))))))
       else andthen (declaring (declareFunction name (FunctionType sp k v ps))) (\<lambda>_. ret None))))"

definition functionOrGlobal :: "nat \<Rightarrow> unit parse" where
  "functionOrGlobal n =
     andthen specifier (\<lambda>sp. andthen (pointers n) (\<lambda>k. andthen ident_name (\<lambda>name. look (\<lambda>t.
       if t = T_LPAREN then
         matching T_LPAREN (andthen (in_new_scope (function_rest n sp k name)) (\<lambda>(decls, r).
           case r of
             Some (sy, ss) \<Rightarrow> matching T_RBRACE (generating (Function sy decls ss))
           | None \<Rightarrow> andthen (global_declarator_list n sp) (\<lambda>_. match T_SEMI)))
       else if t = T_LBRACK then
         matching T_LBRACK (andthen number (\<lambda>len.
           andthen (declaring (declareVariable name (ArrayType sp k len))) (\<lambda>_.
             matching T_RBRACK (andthen (global_declarator_list n sp) (\<lambda>_. match T_SEMI)))))
       else
         andthen (declaring (declareVariable name (ScalarType sp k))) (\<lambda>_.
           andthen (global_declarator_list n sp) (\<lambda>_. match T_SEMI))))))"

fun translation_unit :: "nat \<Rightarrow> unit parse" where
  "translation_unit 0 s = OutOfFuel"
| "translation_unit (Suc n) s =
     look (\<lambda>t. if t \<noteq> T_DONE then andthen (functionOrGlobal n) (\<lambda>_. translation_unit n) else ret ()) s"

definition initial :: "(int \<times> string) list \<Rightarrow> bool \<Rightarrow> pstate" where
  "initial toks oc =
     \<lparr>lookahead = 0, lexbuf = [], nexttoken = 0, nextbuf = [], input = toks, open_comment = oc,
      returnType = ErrorType, loopDepth = 0, chk = openScope \<lparr>defined = [], scopes = [], next_id = 0\<rparr>,
      msgs = [], generator = \<lparr>label_counter = 0, string_table = []\<rparr>, asm_out = [], generated = []\<rparr>"

text \<open>\<open>main\<close>: the exit status is success whenever the end of the input is reached.\<close>

definition cc_main :: "nat \<Rightarrow> (int \<times> string) list \<Rightarrow> bool \<Rightarrow> unit outcome" where
  "cc_main n toks oc =
     andthen (translation_unit n) (\<lambda>_ s.
       case closeScope (chk s) of (sc, c) \<Rightarrow>
         (case generateGlobals sc (generator s) of
            None \<Rightarrow> Exit s
          | Some ls \<Rightarrow> Ok () (s\<lparr>chk := c, asm_out := asm_out s @ ls\<rparr>)))
       (advance (initial toks oc))"

end
