(* ===== verification/CcTotal.thy ===== *)
theory CcTotal
  imports CcParse
begin

text \<open>
  The parser of the host Tiny C compiler ends on every input: the fuel of the model is a bound
  on the depth of its recursion that a multiple of the number of tokens satisfies, so
  \<open>OutOfFuel\<close> is never the outcome of \<open>cc_main\<close> with that much fuel.  What is left is the loop
  of \<open>checkCall\<close>, for which a program is given.
\<close>

subsection \<open>Tokens left\<close>

definition left_over :: "pstate \<Rightarrow> nat" where
  "left_over s =
     length (input s) + (if nexttoken s \<noteq> 0 then 1 else 0) + (if lookahead s \<noteq> 0 then 1 else 0)"

text \<open>A parser that does not run out of fuel and consumes at least \<open>d\<close> tokens when it returns.\<close>

definition takes :: "nat \<Rightarrow> 'a parse \<Rightarrow> pstate \<Rightarrow> bool" where
  "takes d p s \<longleftrightarrow>
     (case p s of Ok a s' \<Rightarrow> left_over s' + d \<le> left_over s | OutOfFuel \<Rightarrow> False | _ \<Rightarrow> True)"

lemma left_over_report [simp]: "left_over (report ms s) = left_over s"
  by (simp add: left_over_def report_def)

lemma left_over_update [simp]:
  "left_over (s\<lparr>chk := c\<rparr>) = left_over s" "left_over (s\<lparr>loopDepth := d\<rparr>) = left_over s"
  "left_over (s\<lparr>returnType := t\<rparr>) = left_over s" "left_over (s\<lparr>generated := fs\<rparr>) = left_over s"
  "left_over (s\<lparr>generated := fs, generator := g, asm_out := o'\<rparr>) = left_over s"
  by (simp_all add: left_over_def)

lemma left_over_advance: "lookahead s \<noteq> 0 \<Longrightarrow> left_over (advance s) < left_over s"
  by (auto simp: left_over_def advance_def yylex_def report_def split: prod.splits list.splits)

lemma left_over_advance_le: "left_over (advance s) \<le> left_over s"
  by (auto simp: left_over_def advance_def yylex_def report_def split: prod.splits list.splits)

lemma takes_ret [simp]: "takes 0 (ret a) s"
  by (simp add: takes_def ret_def)

lemma takes_error [simp]: "takes d error s"
  by (simp add: takes_def error_def)

lemma takes_checked_by [simp]: "takes 0 (checked_by c) s"
  by (simp add: takes_def checked_by_def)

lemma takes_calling [simp]: "takes 0 (calling c) s"
  by (simp add: takes_def calling_def checked_by_def split: option.splits)

lemma takes_declaring [simp]: "takes 0 (declaring f) s"
  by (simp add: takes_def declaring_def split: prod.splits)

lemma takes_peek [simp]: "takes 0 peek s"
  by (auto simp: takes_def peek_def yylex_def left_over_def report_def split: prod.splits list.splits)

lemma takes_match: "t \<noteq> 0 \<Longrightarrow> takes 1 (match t) s"
  using left_over_advance [of s] by (auto simp: takes_def match_def error_def)

lemma takes_look: "takes d (f (lookahead s)) s \<Longrightarrow> takes d (look f) s"
  by (simp add: takes_def look_def)

lemma takes_andthen:
  assumes "takes d p s" "\<And>a s'. left_over s' + d \<le> left_over s \<Longrightarrow> takes (k - d) (f a) s'"
  shows "takes k (andthen p f) s"
proof (cases "p s")
  case (Ok a s')
  then have l: "left_over s' + d \<le> left_over s" using assms(1) by (simp add: takes_def)
  from assms(2) [OF this, of a] l show ?thesis
    by (auto simp: takes_def andthen_def Ok split: outcome.splits)
qed (use assms(1) in \<open>auto simp: takes_def andthen_def\<close>)

lemma takes_matching:
  assumes "t \<noteq> 0" "\<And>s'. left_over s' < left_over s \<Longrightarrow> takes (k - 1) p s'"
  shows "takes k (matching t p) s"
  unfolding matching_def using assms by (intro takes_andthen [OF takes_match]) auto

lemma takes_weaken: "takes d p s \<Longrightarrow> k \<le> d \<Longrightarrow> takes k p s"
  by (auto simp: takes_def split: outcome.splits)

lemma takes_number [simp]: "takes 1 number s"
  using left_over_advance [of s] by (auto simp: takes_def number_def andthen_def match_def error_def ret_def)

lemma takes_ident_name [simp]: "takes 1 ident_name s"
  using left_over_advance [of s] by (auto simp: takes_def ident_name_def andthen_def match_def error_def ret_def)

lemma takes_specifier [simp]: "takes 1 specifier s"
  unfolding specifier_def by (rule takes_look) (auto simp: isSpecifier_def intro!: takes_matching)

lemma takes_pointers: "left_over s < n \<Longrightarrow> takes 0 (pointers n) s"
proof (induction n arbitrary: s)
  case (Suc n)
  have "takes 0 (pointers (Suc n)) s \<longleftrightarrow> takes 0 (look (\<lambda>t. if t = T_STAR
      then matching T_STAR (andthen (pointers n) (\<lambda>c. ret (c + 1))) else ret 0)) s" by (simp add: takes_def)
  moreover have "takes 0 (look (\<lambda>t. if t = T_STAR
      then matching T_STAR (andthen (pointers n) (\<lambda>c. ret (c + 1))) else ret 0)) s"
    using Suc by (auto intro!: takes_look takes_matching takes_andthen [where d = 0])
  ultimately show ?case by simp
qed simp

lemma takes_type_in_parens [simp]: "takes 0 type_in_parens s"
  unfolding type_in_parens_def by (auto intro!: takes_look takes_andthen [where d = 0])

lemma takes_in_new_scope: "takes d p (s\<lparr>chk := openScope (chk s)\<rparr>) \<Longrightarrow> takes d (in_new_scope p) s"
  by (auto simp: takes_def in_new_scope_def andthen_def split: outcome.splits prod.splits)

lemma takes_in_loop: "takes d p (s\<lparr>loopDepth := loopDepth s + 1\<rparr>) \<Longrightarrow> takes d (in_loop p) s"
  by (auto simp: takes_def in_loop_def andthen_def split: outcome.splits)

subsection \<open>Expressions\<close>

fun rank :: "nonterm \<Rightarrow> nat" where
  "rank (BinaryExpr k) = k + 4"
| "rank (BinaryLoop k _) = k + 1"
| "rank PrefixExpr = 3"
| "rank PostfixExpr = 2"
| "rank (PostfixLoop _) = 1"
| "rank PrimaryExpr = 1"
| "rank (ArgList _ _) = 10"

fun consumes :: "nonterm \<Rightarrow> nat" where
  "consumes (BinaryLoop _ _) = 0"
| "consumes (PostfixLoop _) = 0"
| "consumes _ = 1"

lemma rank_pos: "0 < rank nt"
  by (cases nt) auto

lemma level_op_nonzero: "level_op k t = Some op \<Longrightarrow> t \<noteq> 0"
  by (auto simp: level_op_def multiplicative_op_def additive_op_def relational_op_def equality_op_def
      logical_and_op_def logical_or_op_def split: if_splits)

lemma takes_call_end [simp]: "takes 1 (call_end sy args) s"
  unfolding call_end_def by (auto intro!: takes_andthen [where d = 0] takes_matching)

lemma takes_expr: "13 * left_over s + rank nt \<le> n \<Longrightarrow> takes (consumes nt) (parse_nonterm n nt) s"
proof (induction n arbitrary: nt s)
  case 0
  then show ?case using rank_pos [of nt] by simp
next
  case (Suc n)
  note rec = Suc.IH
  have sub: "takes (consumes nt') (parse_nonterm n nt') s'" if "left_over s' + 1 \<le> left_over s" "rank nt' \<le> 12 + rank nt" for nt' s'
    using that Suc.prems by (intro rec) simp
  show ?case
  proof (cases nt)
    case (BinaryExpr k)
    have "takes 1 (parse_nonterm n (operand_of k)) s"
      using rec [of s "operand_of k"] Suc.prems BinaryExpr by (auto simp: operand_of_def)
    then show ?thesis using Suc.prems BinaryExpr
      by (auto simp: binary_expression_def intro!: takes_andthen [where d = 1] rec [of _ "BinaryLoop _ _", simplified])
  next
    case (BinaryLoop k left)
    have o: "takes 1 (parse_nonterm n (operand_of k)) s'" if "left_over s' + 1 \<le> left_over s" for s'
      using sub [OF that, of "operand_of k"] BinaryLoop by (auto simp: operand_of_def)
    have "takes 0 (matching t (andthen (parse_nonterm n (operand_of k)) (\<lambda>right.
            andthen (checked_by (check_binary op left right)) (\<lambda>e. parse_nonterm n (BinaryLoop k e))))) s" if "t \<noteq> 0" for t op
      using that Suc.prems BinaryLoop
      by (auto intro!: takes_matching takes_andthen [OF o] takes_andthen [OF takes_checked_by] rec [of _ "BinaryLoop _ _", simplified])
    then show ?thesis unfolding BinaryLoop using level_op_nonzero
      by (auto simp: binary_loop_def intro!: takes_look split: option.splits)
  next
    case PrefixExpr
    have p: "takes 1 (parse_nonterm n PrefixExpr) s'" if "left_over s' + 1 \<le> left_over s" for s'
      using sub [OF that, of PrefixExpr] PrefixExpr by simp
    have q: "takes 1 (parse_nonterm n PostfixExpr) s'" if "left_over s' \<le> left_over s" for s'
      using rec [of s' PostfixExpr] that Suc.prems PrefixExpr by simp
    have u: "takes 1 (matching t (andthen (parse_nonterm n PrefixExpr) (\<lambda>e. checked_by (c e)))) s" if "t \<noteq> 0" for t and c :: "cexpr \<Rightarrow> cexpr checked"
      using that by (auto intro!: takes_matching takes_andthen [where d = 1] p takes_weaken [OF p])
    have z: "takes 0 (sizeof_type n) s'" if "left_over s' < left_over s" for s'
      unfolding sizeof_type_def using that Suc.prems
      by (auto intro!: takes_matching takes_andthen [OF takes_specifier] takes_andthen [OF takes_pointers])
    have c: "takes 1 (cast_expression n (parse_nonterm n)) s'" if "left_over s' \<le> left_over s" for s'
      unfolding cast_expression_def using that Suc.prems
      by (auto intro!: takes_matching takes_andthen [OF takes_specifier] takes_andthen [OF takes_pointers] takes_andthen [OF p])
    have "takes 1 (prefixExpression n (parse_nonterm n)) s"
      unfolding prefixExpression_def using u
      by (auto simp del: One_nat_def intro!: takes_look takes_matching [of T_SIZEOF] takes_andthen [OF takes_type_in_parens] takes_andthen [OF p] z c q)
    then show ?thesis by (simp add: PrefixExpr)
  next
    case PostfixExpr
    have "takes 1 (parse_nonterm n PrimaryExpr) s" using rec [of s PrimaryExpr] Suc.prems PostfixExpr by simp
    then show ?thesis using Suc.prems PostfixExpr
      by (auto simp: postfixExpression_def intro!: takes_andthen [where d = 1] rec [of _ "PostfixLoop _", simplified])
  next
    case (PostfixLoop left)
    have e: "takes 1 (parse_nonterm n Expr) s'" if "left_over s' < left_over s" for s'
      using sub [of s' Expr] that PostfixLoop by simp
    then show ?thesis using Suc.prems PostfixLoop
      by (auto simp: postfix_loop_def intro!: takes_look takes_matching takes_andthen [OF e] takes_andthen [OF takes_checked_by] rec [of _ "PostfixLoop _", simplified])
  next
    case PrimaryExpr
    have e: "takes 1 (parse_nonterm n Expr) s'" if "left_over s' < left_over s" for s'
      using sub [of s' Expr] that PrimaryExpr by simp
    have a: "takes 1 (parse_nonterm n (ArgList sy args)) s'" if "left_over s' < left_over s" for s' sy args
      using sub [of s' "ArgList sy args"] that PrimaryExpr by simp
    have b: "takes 0 (matching T_LPAREN (look (\<lambda>t. if t \<noteq> T_RPAREN then parse_nonterm n (ArgList sy []) else call_end sy []))) s'"
      if "left_over s' < left_over s" for sy s'
      using that by (auto intro!: takes_matching takes_look takes_weaken [OF a] takes_weaken [OF takes_call_end])
    let ?body = "look (\<lambda>t.
       if t = T_LPAREN then matching T_LPAREN (andthen (parse_nonterm n Expr) (\<lambda>e. matching T_RPAREN (ret e)))
       else if t = T_STRING then
         matching T_STRING (ret (StringLit (fst (parseString (unquote (lexbuf s))))))
       else if t = T_CHARACTER then
         matching T_CHARACTER (ret (number_of_value (char_value (chd (fst (parseString (unquote (lexbuf s))))))))
       else if t = T_NUM then matching T_NUM (ret (number_of_text (lexbuf s)))
       else if t = T_ID then
         andthen ident_name (\<lambda>name. andthen (declaring (checkIdentifier name)) (\<lambda>sy. look (\<lambda>t.
           if t = T_LPAREN then
             matching T_LPAREN (look (\<lambda>t. if t \<noteq> T_RPAREN then parse_nonterm n (ArgList sy []) else call_end sy []))
           else ret (Identifier sy))))
       else error)"
    have "takes 1 ?body s"
      by (auto intro!: takes_look takes_matching takes_andthen [OF takes_ident_name] takes_andthen [OF takes_declaring]
          takes_andthen [OF e] b split: if_splits)
    then have "takes 1 (primaryExpression (parse_nonterm n)) s" by (simp add: takes_def primaryExpression_def)
    then show ?thesis by (simp add: PrimaryExpr)
  next
    case (ArgList sy args)
    have e: "takes 1 (parse_nonterm n Expr) s" using rec [of s Expr] Suc.prems ArgList by simp
    have a: "takes 1 (parse_nonterm n (ArgList sy args)) s'" if "left_over s' < left_over s" for s' args
      using sub [of s' "ArgList sy args"] that ArgList by simp
    show ?thesis unfolding ArgList
      by (auto simp: argument_list_def intro!: takes_andthen [OF e] takes_look takes_matching takes_weaken [OF a]
          takes_weaken [OF takes_call_end])
  qed
qed

lemma takes_expression: "13 * left_over s + 9 \<le> n \<Longrightarrow> takes 1 (expression n) s"
  using takes_expr [of s Expr n] by (simp add: expression_def)

subsection \<open>Declarations and statements\<close>

text \<open>The recursive functions whose equations have the state as an argument, as parsers.\<close>

lemma loop_simps:
  "declarator_list (Suc n) sp = look (\<lambda>t. if t = T_COMMA
     then matching T_COMMA (andthen (declarator n sp) (\<lambda>_. declarator_list n sp)) else ret ())"
  "declarations (Suc n) = look (\<lambda>t. if isSpecifier t then andthen (local_declaration n) (\<lambda>_. declarations n) else ret ())"
  "parameter_list (Suc n) ts = look (\<lambda>t. if t = T_COMMA then
     matching T_COMMA (look (\<lambda>t. if t = T_ELLIPSIS then matching T_ELLIPSIS (ret (True, ts))
       else andthen (parameter n) (\<lambda>p. parameter_list n (ts @ [p])))) else ret (False, ts))"
  "global_declarator_list (Suc n) sp = look (\<lambda>t. if t = T_COMMA
     then matching T_COMMA (andthen (globalDeclarator n sp) (\<lambda>_. global_declarator_list n sp)) else ret ())"
  "translation_unit (Suc n) = look (\<lambda>t. if t \<noteq> T_DONE then andthen (functionOrGlobal n) (\<lambda>_. translation_unit n) else ret ())"
  by (rule ext, simp)+

lemma takes_declarator: "left_over s < n \<Longrightarrow> takes 1 (declarator n sp) s"
  unfolding declarator_def
  by (auto intro!: takes_andthen [OF takes_pointers] takes_andthen [OF takes_ident_name] takes_look takes_matching
      takes_andthen [OF takes_number] takes_andthen [OF takes_declaring] takes_weaken [OF takes_match])

lemma takes_declarator_list: "left_over s < n \<Longrightarrow> takes 0 (declarator_list n sp) s"
proof (induction n arbitrary: s)
  case (Suc n)
  then show ?case unfolding loop_simps
    by (auto intro!: takes_look takes_matching takes_andthen [OF takes_declarator])
qed simp

lemma takes_local_declaration: "left_over s \<le> n \<Longrightarrow> takes 1 (local_declaration n) s"
  unfolding local_declaration_def
  by (auto intro!: takes_andthen [OF takes_specifier] takes_andthen [OF takes_declarator]
      takes_andthen [OF takes_declarator_list] takes_weaken [OF takes_match])

lemma takes_declarations: "left_over s < n \<Longrightarrow> takes 0 (declarations n) s"
proof (induction n arbitrary: s)
  case (Suc n)
  then show ?case unfolding loop_simps
    by (auto intro!: takes_look takes_andthen [OF takes_local_declaration])
qed simp

lemma takes_assignment: "13 * left_over s + 9 \<le> n \<Longrightarrow> takes 1 (assignment n) s"
  unfolding assignment_def
  by (auto intro!: takes_andthen [OF takes_expression] takes_look takes_matching)

lemma takes_test: "13 * left_over s + 9 \<le> n \<Longrightarrow> takes 1 (test n) s"
  unfolding test_def by (auto intro!: takes_andthen [OF takes_expression])

lemma takes_checked_at [simp]: "takes 0 (\<lambda>s. checked_by (c s) s) s"
  by (simp add: takes_def checked_by_def)

lemma takes_statement_body:
  assumes n: "13 * left_over s + 10 \<le> n"
    and st: "\<And>s'. left_over s' < left_over s \<Longrightarrow> takes 1 st s'"
    and sts: "\<And>s'. left_over s' < left_over s \<Longrightarrow> takes 0 sts s'"
  shows "takes 1 (statement_body n st sts) s"
proof -
  have lp: "takes 1 (in_loop st) s'" if "left_over s' < left_over s" for s'
    using that by (intro takes_in_loop st) simp
  have bl: "takes 0 (in_new_scope (andthen (declarations n) (\<lambda>_. sts))) s'" if "left_over s' < left_over s" for s'
    using that n by (auto intro!: takes_in_new_scope takes_andthen [OF takes_declarations] sts)
  show ?thesis unfolding statement_body_def
    by (rule takes_look)
      (use n in \<open>auto simp del: One_nat_def split: prod.splits
        intro!: takes_matching takes_andthen [OF bl] takes_andthen [OF takes_checked_at] takes_andthen [OF lp]
          takes_andthen [OF st] takes_andthen [OF takes_expression] takes_andthen [OF takes_test]
          takes_andthen [OF takes_assignment] takes_look\<close>)
qed

lemma takes_statement:
  "13 * left_over s + 11 \<le> n \<Longrightarrow> takes 1 (one_statement n) s"
  "13 * left_over s + 12 \<le> n \<Longrightarrow> takes 0 (statements n) s"
proof (induction n arbitrary: s)
  case (Suc n)
  {
    case 1
    then show ?case unfolding statement_simps by (intro takes_statement_body Suc.IH) auto
  next
    case 2
    then show ?case unfolding statement_simps statements_body_def
      by (auto intro!: takes_look takes_andthen [OF Suc.IH(1)] takes_andthen [OF Suc.IH(2)])
  }
qed simp_all

subsection \<open>Translation units\<close>

lemma takes_parameter: "left_over s \<le> n \<Longrightarrow> takes 1 (parameter n) s"
  unfolding parameter_def
  by (auto intro!: takes_andthen [OF takes_specifier] takes_andthen [OF takes_pointers] takes_andthen [OF takes_ident_name]
      takes_andthen [OF takes_declaring])

lemma takes_parameter_list: "left_over s < n \<Longrightarrow> takes 0 (parameter_list n ts) s"
proof (induction n arbitrary: s ts)
  case (Suc n)
  then show ?case unfolding loop_simps
    by (auto intro!: takes_look takes_matching takes_andthen [OF takes_parameter])
qed simp

lemma takes_parameters: "left_over s < n \<Longrightarrow> takes 1 (parameters n) s"
  unfolding parameters_def
  by (auto intro!: takes_look takes_matching takes_andthen [OF takes_parameter] takes_parameter_list)

lemma takes_globalDeclarator: "left_over s < n \<Longrightarrow> takes 1 (globalDeclarator n sp) s"
  unfolding globalDeclarator_def
  by (auto simp del: One_nat_def split: prod.splits
      intro!: takes_andthen [OF takes_pointers] takes_andthen [OF takes_ident_name] takes_look takes_matching
      takes_andthen [OF takes_number] takes_andthen [OF takes_declaring] takes_weaken [OF takes_match]
      takes_andthen [OF takes_in_new_scope] takes_andthen [OF takes_parameters] takes_weaken [OF takes_declaring])

lemma takes_global_list: "left_over s < n \<Longrightarrow> takes 0 (global_declarator_list n sp) s"
proof (induction n arbitrary: s)
  case (Suc n)
  then show ?case unfolding loop_simps
    by (auto intro!: takes_look takes_matching takes_andthen [OF takes_globalDeclarator])
qed simp

lemma takes_generating [simp]: "takes 0 (generating fn) s"
  by (auto simp: takes_def generating_def Let_def split: option.splits)

lemma takes_set_returnType [simp]: "takes 0 (\<lambda>s. Ok () (s\<lparr>returnType := t\<rparr>)) s"
  by (simp add: takes_def)

lemma takes_function_rest: "13 * left_over s + 12 \<le> n \<Longrightarrow> takes 0 (function_rest n sp k name) s"
  unfolding function_rest_def
  by (auto simp del: One_nat_def split: prod.splits
      intro!: takes_andthen [OF takes_parameters] takes_matching takes_look takes_andthen [OF takes_set_returnType]
        takes_andthen [OF takes_declaring] takes_andthen [OF takes_declarations] takes_andthen [OF takes_statement(2)])

lemma takes_functionOrGlobal: "13 * left_over s + 12 \<le> n \<Longrightarrow> takes 1 (functionOrGlobal n) s"
  unfolding functionOrGlobal_def
  by (auto simp del: One_nat_def split: prod.splits option.splits
      intro!: takes_andthen [OF takes_specifier] takes_andthen [OF takes_pointers] takes_andthen [OF takes_ident_name]
        takes_look takes_matching takes_andthen [OF takes_number] takes_andthen [OF takes_declaring]
        takes_andthen [OF takes_in_new_scope [OF takes_function_rest]] takes_andthen [OF takes_global_list]
        takes_weaken [OF takes_match])

lemma takes_translation_unit: "13 * left_over s + 13 \<le> n \<Longrightarrow> takes 0 (translation_unit n) s"
proof (induction n arbitrary: s)
  case (Suc n)
  then show ?case unfolding loop_simps
    by (auto intro!: takes_look takes_andthen [OF takes_functionOrGlobal])
qed simp

text \<open>
  C36: The compiler does not run away on the depth of its recursion: with fuel for 13 calls per
  token it reaches the end of the input, stops at an error, or meets the call that
  \<open>checkCall\<close> does not return from.
\<close>

theorem cc_main_total:
  assumes "13 * length toks + 13 \<le> n"
  shows "cc_main n toks oc \<noteq> OutOfFuel"
proof -
  have "left_over (initial toks oc) = length toks" by (simp add: left_over_def initial_def)
  then have "13 * left_over (advance (initial toks oc)) + 13 \<le> n"
    using left_over_advance_le [of "initial toks oc"] assms by simp
  from takes_translation_unit [OF this] show ?thesis
    by (auto simp: cc_main_def andthen_def takes_def split: outcome.splits prod.splits option.splits)
qed

theorem cc_main_total_witness:
  "cc_main 52 [(T_INT, ''int''), (T_ID, ''x''), (T_SEMI, '';'')] False \<noteq> OutOfFuel"
  by (rule cc_main_total) simp

end
