(* ===== verification/CcFront.thy ===== *)
theory CcFront
  imports CcTotal
begin

text \<open>
  Soundness of the front end of the host Tiny C compiler: every function that the parser hands
  to the code generator is well typed, its parameters head its declarations, and all the symbol
  objects in it are distinct; the global scope never holds a symbol of the error type, so the
  assertions behind \<open>generateGlobals\<close> hold on every input.

  The proofs follow the parser: \<open>valid\<close> says of a parser in a state that it keeps the invariant
  of the compiler state, only adds reports, and, when nothing has been reported at its end, has
  a result of the required kind.
\<close>

subsection \<open>The invariant\<close>

definition scopes_ok :: "bool \<Rightarrow> scope list \<Rightarrow> bool" where
  "scopes_ok err scs \<longleftrightarrow>
     scs \<noteq> [] \<and> (\<forall>sc \<in> set scs. distinct (map sym_name sc)) \<and>
     (\<forall>sc \<in> set (butlast scs). \<forall>sy \<in> set sc. object_type (sym_type sy) \<or> err \<and> sym_type sy = ErrorType) \<and>
     (\<forall>sy \<in> set (last scs). object_type (sym_type sy) \<or> isFunction (sym_type sy))"

definition ids_ok :: "checker \<Rightarrow> bool" where
  "ids_ok c \<longleftrightarrow>
     distinct (map sym_id (concat (scopes c))) \<and> (\<forall>sy \<in> set (concat (scopes c)). sym_id sy < next_id c)"

definition overflows :: "string \<Rightarrow> bool" where
  "overflows s \<longleftrightarrow> fst (snd (strtoul s))"

text \<open>An integer literal in sight is in range, or has been reported.\<close>

definition tokens_ok :: "pstate \<Rightarrow> bool" where
  "tokens_ok s \<longleftrightarrow>
     (msgs s = [] \<longrightarrow> (lookahead s = T_NUM \<longrightarrow> \<not> overflows (lexbuf s)) \<and> (nexttoken s = T_NUM \<longrightarrow> \<not> overflows (nextbuf s)))"

definition pinv :: "pstate \<Rightarrow> bool" where
  "pinv s \<longleftrightarrow> scopes_ok (msgs s \<noteq> []) (scopes (chk s)) \<and> ids_ok (chk s) \<and> tokens_ok s"

text \<open>What the code generator may rely on.\<close>

definition good_function :: "cfunction \<Rightarrow> bool" where
  "good_function fn \<longleftrightarrow> wt_function fn \<and> distinct (map sym_id (function_symbols fn))"

definition step :: "pstate \<Rightarrow> pstate \<Rightarrow> bool" where
  "step s s' \<longleftrightarrow>
     (\<exists>ms. msgs s' = msgs s @ ms) \<and> length (scopes (chk s')) = length (scopes (chk s)) \<and>
     (list_all good_function (generated s) \<longrightarrow> list_all good_function (generated s'))"

text \<open>Why the compiler stops before the end: something was reported, or the code generator gave up on the last function.\<close>

definition stopped :: "pstate \<Rightarrow> bool" where
  "stopped s \<longleftrightarrow> msgs s \<noteq> [] \<or> generated s \<noteq> [] \<and> (\<exists>g. generate_function (last (generated s)) g = None)"

definition valid :: "('a \<Rightarrow> pstate \<Rightarrow> bool) \<Rightarrow> 'a parse \<Rightarrow> pstate \<Rightarrow> bool" where
  "valid Q p s \<longleftrightarrow>
     (case p s of
        Ok a s' \<Rightarrow> pinv s' \<and> step s s' \<and> (msgs s' = [] \<longrightarrow> Q a s')
      | Exit s' \<Rightarrow> stopped s' \<and> (list_all good_function (generated s) \<longrightarrow> list_all good_function (generated s'))
      | _ \<Rightarrow> True)"

lemma step_refl [simp]: "step s s"
  by (simp add: step_def)

lemma step_trans: "step s s' \<Longrightarrow> step s' s'' \<Longrightarrow> step s s''"
  by (auto simp: step_def)

lemma step_msgs: "step s s' \<Longrightarrow> msgs s' = [] \<Longrightarrow> msgs s = []"
  by (auto simp: step_def)

lemma step_length: "step s s' \<Longrightarrow> length (scopes (chk s')) = length (scopes (chk s))"
  by (simp add: step_def)

lemma valid_andthen:
  assumes "valid Q p s"
    and "\<And>a s'. pinv s' \<Longrightarrow> step s s' \<Longrightarrow> (msgs s' = [] \<Longrightarrow> Q a s') \<Longrightarrow> valid R (f a) s'"
  shows "valid R (andthen p f) s"
proof (cases "p s")
  case (Ok a s')
  then have "pinv s'" "step s s'" "msgs s' = [] \<Longrightarrow> Q a s'" using assms(1) by (auto simp: valid_def)
  note v = assms(2) [OF this]
  show ?thesis using v step_trans [OF \<open>step s s'\<close>] \<open>step s s'\<close>
    by (auto simp: valid_def andthen_def Ok step_def split: outcome.splits)
qed (use assms(1) in \<open>auto simp: valid_def andthen_def\<close>)

lemma valid_conseq:
  assumes "valid Q p s" "\<And>a s'. msgs s = [] \<Longrightarrow> pinv s' \<Longrightarrow> Q a s' \<Longrightarrow> R a s'"
  shows "valid R p s"
  using assms by (auto simp: valid_def dest: step_msgs split: outcome.splits)

lemma valid_look: "valid Q (f (lookahead s)) s \<Longrightarrow> valid Q (look f) s"
  by (simp add: valid_def look_def)

lemma valid_ret: "pinv s \<Longrightarrow> (msgs s = [] \<Longrightarrow> Q a s) \<Longrightarrow> valid Q (ret a) s"
  by (auto simp: valid_def ret_def)

lemma valid_error [simp]: "valid Q error s"
  by (simp add: valid_def error_def stopped_def report_def)

lemma valid_fuel [simp]: "valid Q (\<lambda>s. OutOfFuel) s"
  by (simp add: valid_def)

subsection \<open>The lexer keeps the invariant\<close>

lemma overflow_reported: "overflows s \<Longrightarrow> strtol_range s"
  by (auto simp: overflows_def strtoul_def strtol_range_def Let_def split: prod.splits if_splits)

definition ctx :: "pstate \<Rightarrow> checker \<times> ctype \<times> nat" where
  "ctx s = (chk s, returnType s, loopDepth s)"

lemma scopes_ok_mono: "scopes_ok e scs \<Longrightarrow> (e \<Longrightarrow> e') \<Longrightarrow> scopes_ok e' scs"
  unfolding scopes_ok_def by blast

lemma pinv_report:
  assumes "pinv s"
  shows "pinv (report ms s)" "step s (report ms s)" "ctx (report ms s) = ctx s"
  using assms scopes_ok_mono [of "msgs s \<noteq> []" "scopes (chk s)" "msgs s \<noteq> [] \<or> ms \<noteq> []"]
  by (auto simp: pinv_def report_def tokens_ok_def step_def ctx_def)

lemma yylex_ok:
  assumes "yylex s = (t, tx, s')"
  shows "\<exists>ms. msgs s' = msgs s @ ms" "ctx s' = ctx s" "generated s' = generated s" "lookahead s' = lookahead s"
    "lexbuf s' = lexbuf s" "nexttoken s' = nexttoken s" "nextbuf s' = nextbuf s"
    "msgs s' = [] \<Longrightarrow> t = T_NUM \<Longrightarrow> \<not> overflows tx"
  using assms overflow_reported [of tx]
  by (auto simp: yylex_def report_def ctx_def checkInt_def split: list.splits prod.splits if_splits)

lemma pinv_tokens:
  assumes "pinv s" "\<exists>ms. msgs s' = msgs s @ ms" "ctx s' = ctx s" "generated s' = generated s" "tokens_ok s'"
  shows "pinv s'" "step s s'"
  using assms scopes_ok_mono [of "msgs s \<noteq> []" "scopes (chk s)" "msgs s' \<noteq> []"]
  by (auto simp: pinv_def step_def ctx_def)

lemma advance_ok:
  assumes "pinv s"
  shows "pinv (advance s)" "step s (advance s)" "ctx (advance s) = ctx s"
proof -
  obtain t tx s' where y: "yylex s = (t, tx, s')" by (cases "yylex s") auto
  note k = yylex_ok [OF y]
  show c: "ctx (advance s) = ctx s" using k(2) y by (auto simp: advance_def ctx_def)
  have t: "tokens_ok (advance s)"
    using assms y k by (auto simp: pinv_def tokens_ok_def advance_def)
  have "\<exists>ms. msgs (advance s) = msgs s @ ms" "generated (advance s) = generated s" using k(1,3) y by (auto simp: advance_def)
  from pinv_tokens [OF assms this(1) c this(2) t] show "pinv (advance s)" "step s (advance s)" .
qed

lemma valid_match: "pinv s \<Longrightarrow> valid (\<lambda>_ s'. ctx s' = ctx s) (match t) s"
  using advance_ok [of s] by (auto simp: valid_def match_def error_def stopped_def report_def)

lemma valid_matching:
  assumes "pinv s" "\<And>s'. pinv s' \<Longrightarrow> step s s' \<Longrightarrow> (msgs s' = [] \<Longrightarrow> ctx s' = ctx s) \<Longrightarrow> valid R p s'"
  shows "valid R (matching t p) s"
  unfolding matching_def by (rule valid_andthen [OF valid_match]) (use assms in auto)

lemma valid_peek: "pinv s \<Longrightarrow> valid (\<lambda>_ s'. ctx s' = ctx s) peek s"
proof (cases "nexttoken s = 0")
  case True
  assume a: "pinv s"
  obtain t tx s' where y: "yylex s = (t, tx, s')" by (cases "yylex s") auto
  note k = yylex_ok [OF y]
  let ?s = "s'\<lparr>nexttoken := t, nextbuf := tx\<rparr>"
  have c: "ctx ?s = ctx s" using k(2) by (simp add: ctx_def)
  have "tokens_ok ?s" using a k by (auto simp: pinv_def tokens_ok_def)
  with pinv_tokens [OF a _ c] k(1,3) have "pinv ?s" "step s ?s" by auto
  then show ?thesis using True y c by (simp add: valid_def peek_def)
qed (simp add: valid_def peek_def)

lemma valid_checked_by:
  "pinv s \<Longrightarrow> valid (\<lambda>a s'. a = snd c \<and> fst c = [] \<and> ctx s' = ctx s) (checked_by c) s"
  using pinv_report [of s "fst c"] by (auto simp: valid_def checked_by_def report_def)

lemma valid_specifier: "pinv s \<Longrightarrow> valid (\<lambda>_ s'. ctx s' = ctx s) specifier s"
  unfolding specifier_def
  by (intro valid_look) (auto intro!: valid_matching valid_ret)

lemma valid_number: "pinv s \<Longrightarrow> valid (\<lambda>_ s'. ctx s' = ctx s) number s"
proof -
  assume "pinv s"
  then have "valid (\<lambda>_ s'. ctx s' = ctx s) (andthen (match T_NUM) (\<lambda>_. ret (fst (strtoul (lexbuf s))))) s"
    by (intro valid_andthen [OF valid_match] valid_ret) auto
  then show ?thesis by (simp add: valid_def number_def)
qed

lemma valid_ident_name: "pinv s \<Longrightarrow> valid (\<lambda>_ s'. ctx s' = ctx s) ident_name s"
proof -
  assume "pinv s"
  then have "valid (\<lambda>_ s'. ctx s' = ctx s) (andthen (match T_ID) (\<lambda>_. ret (lexbuf s))) s"
    by (intro valid_andthen [OF valid_match] valid_ret) auto
  then show ?thesis by (simp add: valid_def ident_name_def)
qed

lemma valid_type_in_parens: "pinv s \<Longrightarrow> valid (\<lambda>_ s'. ctx s' = ctx s) type_in_parens s"
  unfolding type_in_parens_def
  by (intro valid_look) (auto intro!: valid_andthen [OF valid_peek] valid_ret)

lemma valid_pointers: "pinv s \<Longrightarrow> valid (\<lambda>_ s'. ctx s' = ctx s) (pointers n) s"
proof (induction n arbitrary: s)
  case (Suc n)
  have "valid (\<lambda>_ s'. ctx s' = ctx s) (look (\<lambda>t. if t = T_STAR
      then matching T_STAR (andthen (pointers n) (\<lambda>c. ret (c + 1))) else ret 0)) s"
    using Suc.prems by (intro valid_look) (auto intro!: valid_matching valid_andthen [OF Suc.IH] valid_ret dest: step_msgs)
  then show ?case by (simp add: valid_def)
qed (simp add: valid_def)

subsection \<open>Names\<close>

lemma scopes_ok_insert:
  assumes "scopes_ok err scs" "sym_name sy \<notin> sym_name ` set (hd scs)" "err \<Longrightarrow> err'"
    and "object_type (sym_type sy) \<or> tl scs \<noteq> [] \<and> err' \<and> sym_type sy = ErrorType"
  shows "scopes_ok err' ((hd scs @ [sy]) # tl scs)"
proof -
  obtain sc rest where s: "scs = sc # rest" using assms(1) by (cases scs) (auto simp: scopes_ok_def)
  have "scopes_ok err' scs" using assms(1,3) by (rule scopes_ok_mono)
  then show ?thesis using assms(2,4) unfolding s scopes_ok_def by (cases rest) auto
qed

lemma ids_ok_insert:
  assumes "ids_ok c" "scopes c \<noteq> []"
  shows "ids_ok (c\<lparr>next_id := next_id c + 1, scopes := (hd (scopes c) @ [\<lparr>sym_id = next_id c, sym_name = name, sym_type = t\<rparr>]) # tl (scopes c)\<rparr>)"
  using assms by (cases "scopes c") (auto simp: ids_ok_def less_Suc_eq)

text \<open>Declaring a symbol that is new to the current scope.\<close>

definition declared :: "string \<Rightarrow> ctype \<Rightarrow> checker \<Rightarrow> symbol \<times> checker" where
  "declared name t c = (let (sy, c1) = new_symbol name t c in (sy, insert_current sy c1))"

lemma declared_eq:
  assumes "name \<notin> sym_name ` set (hd (scopes c))"
  shows "declared name t c = (\<lparr>sym_id = next_id c, sym_name = name, sym_type = t\<rparr>,
    c\<lparr>next_id := next_id c + 1, scopes := (hd (scopes c) @ [\<lparr>sym_id = next_id c, sym_name = name, sym_type = t\<rparr>]) # tl (scopes c)\<rparr>)"
  using assms by (simp add: declared_def new_symbol_def insert_current_def scope_insert_def scope_find_None)

lemma pinv_declared:
  assumes "pinv s" "name \<notin> sym_name ` set (hd (scopes (chk s)))"
    and "object_type t \<or> tl (scopes (chk s)) \<noteq> [] \<and> ms \<noteq> [] \<and> t = ErrorType"
  shows "pinv (report ms (s\<lparr>chk := snd (declared name t (chk s))\<rparr>))" "step s (report ms (s\<lparr>chk := snd (declared name t (chk s))\<rparr>))"
proof -
  have ne: "scopes (chk s) \<noteq> []" using assms(1) by (simp add: pinv_def scopes_ok_def)
  have "scopes_ok (msgs s \<noteq> [] \<or> ms \<noteq> [])
      ((hd (scopes (chk s)) @ [\<lparr>sym_id = next_id (chk s), sym_name = name, sym_type = t\<rparr>]) # tl (scopes (chk s)))"
    using assms by (intro scopes_ok_insert [of "msgs s \<noteq> []"]) (auto simp: pinv_def)
  then show "pinv (report ms (s\<lparr>chk := snd (declared name t (chk s))\<rparr>))"
    using assms(1) ids_ok_insert [OF _ ne] unfolding declared_eq [OF assms(2)]
    by (auto simp: pinv_def report_def tokens_ok_def)
  show "step s (report ms (s\<lparr>chk := snd (declared name t (chk s))\<rparr>))"
    using ne unfolding declared_eq [OF assms(2)] by (auto simp: step_def report_def)
qed

lemma valid_checkIdentifier:
  assumes "pinv s" "2 \<le> length (scopes (chk s))"
  shows "valid (\<lambda>sy s'. sym_type sy \<noteq> ErrorType \<and> ctx s' = ctx s) (declaring (checkIdentifier name)) s"
proof (cases "scope_lookup (scopes (chk s)) name")
  case (Some sy)
  obtain sc where sc: "sc \<in> set (scopes (chk s))" "sy \<in> set sc" using scope_lookup_SomeD [OF Some] by blast
  have "sym_type sy \<noteq> ErrorType" if "msgs s = []"
  proof -
    have "sc \<in> set (butlast (scopes (chk s))) \<or> sc = last (scopes (chk s))"
      using sc(1) by (metis UnE append_butlast_last_id empty_iff list.set(1) list.simps(15) set_append singletonD)
    moreover have "\<not> object_type ErrorType" by (simp add: object_type_def)
    ultimately show ?thesis using assms(1) sc(2) that by (fastforce simp: pinv_def scopes_ok_def)
  qed
  then show ?thesis using Some assms(1) by (auto simp: valid_def declaring_def checkIdentifier_def report_def step_def ctx_def)
next
  case None
  obtain sc sc' scs where sc: "scopes (chk s) = sc # sc' # scs"
    using assms(2) by (cases "scopes (chk s)"; cases "tl (scopes (chk s))") auto
  have n: "name \<notin> sym_name ` set (hd (scopes (chk s)))" "tl (scopes (chk s)) \<noteq> []"
    using None [unfolded scope_lookup_None sc] by (simp_all add: sc)
  note d = pinv_declared [OF assms(1) n(1), of ErrorType "[Undeclared name]"]
  have "checkIdentifier name (chk s) = ([Undeclared name], declared name ErrorType (chk s))"
    using None by (simp add: checkIdentifier_def declared_def Let_def split: prod.splits)
  then show ?thesis using d n(2) by (auto simp: valid_def declaring_def report_def split: prod.splits)
qed

subsection \<open>Expressions\<close>

abbreviation typed :: "pstate \<Rightarrow> cexpr \<Rightarrow> pstate \<Rightarrow> bool" where
  "typed s \<equiv> (\<lambda>e s'. wt e \<and> ctx s' = ctx s)"

lemma checked_pair: "fst c = [] \<Longrightarrow> c = ([], snd c)"
  by (cases c) simp

lemma valid_check:
  assumes "pinv s'" "msgs s' = [] \<Longrightarrow> fst c = [] \<Longrightarrow> wt (snd c)" "msgs s' = [] \<Longrightarrow> ctx s' = ctx s"
  shows "valid (typed s) (checked_by c) s'"
  by (rule valid_conseq [OF valid_checked_by [OF assms(1)]]) (use assms(2,3) in auto)

lemma valid_shift: "valid (typed s') p s' \<Longrightarrow> (msgs s' = [] \<Longrightarrow> ctx s' = ctx s) \<Longrightarrow> valid (typed s) p s'"
  by (erule valid_conseq) auto

fun operands_ok :: "nonterm \<Rightarrow> bool" where
  "operands_ok (BinaryLoop _ left) = wt left"
| "operands_ok (PostfixLoop left) = wt left"
| "operands_ok (ArgList sy args) = (sym_type sy \<noteq> ErrorType \<and> list_all wt args)"
| "operands_ok _ = True"

lemma valid_call_end:
  assumes "pinv s'" "msgs s' = [] \<Longrightarrow> sym_type sy \<noteq> ErrorType \<and> list_all wt args" "msgs s' = [] \<Longrightarrow> ctx s' = ctx s"
  shows "valid (typed s) (call_end sy args) s'"
proof -
  have "valid (typed s) (calling (checkCall sy args)) s'"
  proof (cases "checkCall sy args")
    case None
    then show ?thesis by (simp add: valid_def calling_def)
  next
    case (Some c)
    have "valid (typed s) (checked_by c) s'"
      using assms Some by (intro valid_check) (auto dest: checked_pair intro!: wt_checkCall [of args sy])
    then show ?thesis using Some by (simp add: valid_def calling_def)
  qed
  then show ?thesis unfolding call_end_def
    by (rule valid_andthen) (auto intro!: valid_matching valid_ret dest: step_msgs)
qed

definition rec_ok :: "nat \<Rightarrow> bool" where
  "rec_ok n \<longleftrightarrow> (\<forall>nt s. pinv s \<longrightarrow> 2 \<le> length (scopes (chk s)) \<longrightarrow> (msgs s = [] \<longrightarrow> operands_ok nt) \<longrightarrow>
     valid (typed s) (parse_nonterm n nt) s)"

lemma rec_okD:
  "rec_ok n \<Longrightarrow> pinv s' \<Longrightarrow> step s s' \<Longrightarrow> 2 \<le> length (scopes (chk s)) \<Longrightarrow> (msgs s' = [] \<Longrightarrow> operands_ok nt) \<Longrightarrow>
   (msgs s' = [] \<Longrightarrow> ctx s' = ctx s) \<Longrightarrow> valid (typed s) (parse_nonterm n nt) s'"
  by (rule valid_shift) (auto simp: rec_ok_def dest: step_length)

lemma operands_ok_operand_of [simp]: "operands_ok (operand_of k)"
  by (simp add: operand_of_def)

lemma valid_binary_expression:
  assumes "rec_ok n" "pinv s" "2 \<le> length (scopes (chk s))"
  shows "valid (typed s) (binary_expression (parse_nonterm n) k) s"
  unfolding binary_expression_def
  by (rule valid_andthen [OF rec_okD [OF assms(1,2) step_refl assms(3)]])
    (use assms in \<open>auto intro!: rec_okD\<close>)

lemma valid_binary_loop:
  assumes "rec_ok n" "pinv s" "2 \<le> length (scopes (chk s))" "msgs s = [] \<Longrightarrow> wt left"
  shows "valid (typed s) (binary_loop (parse_nonterm n) k left) s"
proof -
  have c: "wt (snd (check_binary op left right))" if "wt left" "wt right" "fst (check_binary op left right) = []" for op right
    using check_binary_ok [OF that(1,2), of op] that(3) by (auto simp: check_ok_def Let_def split: if_splits)
  have "valid (typed s) (matching t (andthen (parse_nonterm n (operand_of k)) (\<lambda>right.
       andthen (checked_by (check_binary op left right)) (\<lambda>e. parse_nonterm n (BinaryLoop k e))))) s" for t op
  proof (rule valid_matching [OF assms(2)], rule valid_andthen)
    fix s1 assume s1: "pinv s1" "step s s1" "msgs s1 = [] \<Longrightarrow> ctx s1 = ctx s"
    then show "valid (typed s) (parse_nonterm n (operand_of k)) s1" by (intro rec_okD [OF assms(1)]) (use assms(3) in auto)
    fix right s2 assume s2: "pinv s2" "step s1 s2" "msgs s2 = [] \<Longrightarrow> wt right \<and> ctx s2 = ctx s"
    have "valid (typed s) (checked_by (check_binary op left right)) s2"
      using s1(2) s2 assms(4) by (intro valid_check) (auto intro: c dest: step_msgs)
    then show "valid (typed s) (andthen (checked_by (check_binary op left right)) (\<lambda>e. parse_nonterm n (BinaryLoop k e))) s2"
    proof (rule valid_andthen)
      fix e s3 assume "pinv s3" "step s2 s3" "msgs s3 = [] \<Longrightarrow> wt e \<and> ctx s3 = ctx s"
      then show "valid (typed s) (parse_nonterm n (BinaryLoop k e)) s3"
        using step_trans [OF step_trans [OF s1(2) s2(2)], of s3] by (intro rec_okD [OF assms(1)]) (use assms(3) in auto)
    qed
  qed
  then show ?thesis unfolding binary_loop_def using assms(2,4)
    by (intro valid_look) (auto intro!: valid_ret split: option.splits)
qed

text \<open>A check applied to the operand that follows.\<close>

lemma valid_operand:
  assumes "rec_ok n" "pinv s'" "step s s'" "2 \<le> length (scopes (chk s))" "msgs s' = [] \<Longrightarrow> ctx s' = ctx s"
    and "\<And>e. wt e \<Longrightarrow> fst (c e) = [] \<Longrightarrow> wt (snd (c e))"
  shows "valid (typed s) (andthen (parse_nonterm n PrefixExpr) (\<lambda>e. checked_by (c e))) s'"
  by (rule valid_andthen [OF rec_okD [OF assms(1-4)]]) (use assms(5,6) in \<open>auto intro!: valid_check\<close>)

lemma valid_sizeof_type:
  assumes "pinv s'" "msgs s' = [] \<Longrightarrow> ctx s' = ctx s"
  shows "valid (typed s) (sizeof_type n) s'"
  unfolding sizeof_type_def
  by (rule valid_matching [OF assms(1)], rule valid_andthen [OF valid_specifier], assumption,
      rule valid_andthen [OF valid_pointers], assumption, rule valid_matching, assumption, rule valid_ret)
    (assumption, metis assms(2) step_msgs wt_number_of_value(1))

lemma valid_cast_expression:
  assumes "rec_ok n" "pinv s'" "step s s'" "2 \<le> length (scopes (chk s))" "msgs s' = [] \<Longrightarrow> ctx s' = ctx s"
  shows "valid (typed s) (cast_expression n (parse_nonterm n)) s'"
  unfolding cast_expression_def
proof (rule valid_matching [OF assms(2)], rule valid_andthen [OF valid_specifier], assumption,
    rule valid_andthen [OF valid_pointers], assumption, rule valid_matching, assumption)
  fix s1 sp s2 k s3 s4
  assume a: "step s' s1" "step s1 s2" "step s2 s3" "pinv s4" "step s3 s4"
    "msgs s1 = [] \<Longrightarrow> ctx s1 = ctx s'" "msgs s2 = [] \<Longrightarrow> ctx s2 = ctx s1" "msgs s3 = [] \<Longrightarrow> ctx s3 = ctx s2"
    "msgs s4 = [] \<Longrightarrow> ctx s4 = ctx s3"
  have c: "wt (snd (checkCast (ScalarType sp k) e))" if "wt e" "fst (checkCast (ScalarType sp k) e) = []" for e
    using wt_checkCast [OF that(1) checked_pair [OF that(2)]] by simp
  have "step s s4" using a(1,2,3,5) assms(3) step_trans by meson
  moreover have "ctx s4 = ctx s" if "msgs s4 = []" using a assms(5) that step_msgs by metis
  ultimately show "valid (typed s) (andthen (parse_nonterm n PrefixExpr) (\<lambda>e. checked_by (checkCast (ScalarType sp k) e))) s4"
    using assms(1,4) a(4) c by (intro valid_operand) auto
qed

lemma valid_prefixExpression:
  assumes "rec_ok n" "pinv s" "2 \<le> length (scopes (chk s))"
  shows "valid (typed s) (prefixExpression n (parse_nonterm n)) s"
proof -
  have u: "valid (typed s) (matching t (andthen (parse_nonterm n PrefixExpr) (\<lambda>e. checked_by (c e)))) s"
    if "\<And>e. wt e \<Longrightarrow> fst (c e) = [] \<Longrightarrow> wt (snd (c e))" for t and c :: "cexpr \<Rightarrow> cexpr checked"
    using assms that by (intro valid_matching valid_operand) auto
  have cs: "wt (snd (checkNot e))" if "wt e" "fst (checkNot e) = []" for e using wt_checkNot that checked_pair by blast
  have cn: "wt (snd (checkNegate e))" if "wt e" "fst (checkNegate e) = []" for e using wt_checkNegate that checked_pair by blast
  have cd: "wt (snd (checkDereference e))" if "wt e" "fst (checkDereference e) = []" for e using wt_checkDereference that checked_pair by blast
  have ca: "wt (snd (checkAddress e))" if "wt e" "fst (checkAddress e) = []" for e using wt_checkAddress that checked_pair by blast
  have z: "valid (typed s) (matching T_SIZEOF (andthen type_in_parens (\<lambda>b. if b then sizeof_type n
      else andthen (parse_nonterm n PrefixExpr) (\<lambda>e. checked_by (checkSizeof e))))) s"
  proof (rule valid_matching [OF assms(2)], rule valid_andthen [OF valid_type_in_parens], assumption)
    fix s1 b s2
    assume a: "step s s1" "msgs s1 = [] \<Longrightarrow> ctx s1 = ctx s" "pinv s2" "step s1 s2" "msgs s2 = [] \<Longrightarrow> ctx s2 = ctx s1"
    have "step s s2" "msgs s2 = [] \<Longrightarrow> ctx s2 = ctx s" using a step_trans step_msgs by (blast, metis)
    then show "valid (typed s) (if b then sizeof_type n else andthen (parse_nonterm n PrefixExpr) (\<lambda>e. checked_by (checkSizeof e))) s2"
      using assms a(3) by (auto intro: valid_sizeof_type valid_operand wt_checkSizeof)
  qed
  have p: "valid (typed s) (andthen type_in_parens (\<lambda>b. if b then cast_expression n (parse_nonterm n) else parse_nonterm n PostfixExpr)) s"
    by (rule valid_andthen [OF valid_type_in_parens [OF assms(2)]])
      (use assms in \<open>auto intro: valid_cast_expression rec_okD\<close>)
  show ?thesis unfolding prefixExpression_def
    by (rule valid_look) (auto intro: u cs cn cd ca z p)
qed

lemma valid_postfixExpression:
  assumes "rec_ok n" "pinv s" "2 \<le> length (scopes (chk s))"
  shows "valid (typed s) (postfixExpression (parse_nonterm n)) s"
  unfolding postfixExpression_def
  by (rule valid_andthen [OF rec_okD [OF assms(1,2) step_refl assms(3)]])
    (use assms in \<open>auto intro!: rec_okD\<close>)

lemma valid_postfix_loop:
  assumes "rec_ok n" "pinv s" "2 \<le> length (scopes (chk s))" "msgs s = [] \<Longrightarrow> wt left"
  shows "valid (typed s) (postfix_loop (parse_nonterm n) left) s"
proof -
  have "valid (typed s) (matching T_LBRACK (andthen (parse_nonterm n Expr) (\<lambda>right.
         andthen (checked_by (checkArray left right)) (\<lambda>e. matching T_RBRACK (parse_nonterm n (PostfixLoop e)))))) s"
  proof (rule valid_matching [OF assms(2)], rule valid_andthen)
    fix s1 assume s1: "pinv s1" "step s s1" "msgs s1 = [] \<Longrightarrow> ctx s1 = ctx s"
    then show "valid (typed s) (parse_nonterm n Expr) s1" by (intro rec_okD [OF assms(1)]) (use assms(3) in auto)
    fix right s2 assume s2: "pinv s2" "step s1 s2" "msgs s2 = [] \<Longrightarrow> wt right \<and> ctx s2 = ctx s"
    have "valid (typed s) (checked_by (checkArray left right)) s2"
      using s1(2) s2 assms(4) by (intro valid_check) (auto dest: step_msgs wt_checkArray [OF _ _ checked_pair])
    then show "valid (typed s) (andthen (checked_by (checkArray left right)) (\<lambda>e. matching T_RBRACK (parse_nonterm n (PostfixLoop e)))) s2"
    proof (rule valid_andthen, intro valid_matching)
      fix e s3 s4 assume s3: "step s2 s3" "msgs s3 = [] \<Longrightarrow> wt e \<and> ctx s3 = ctx s"
        and s4: "pinv s4" "step s3 s4" "msgs s4 = [] \<Longrightarrow> ctx s4 = ctx s3"
      have "step s s4" using s1(2) s2(2) s3(1) s4(2) step_trans by meson
      then show "valid (typed s) (parse_nonterm n (PostfixLoop e)) s4"
        using s3 s4 step_msgs [OF s4(2)] by (intro rec_okD [OF assms(1)]) (use assms(3) in auto)
    qed
  qed
  then show ?thesis unfolding postfix_loop_def using assms(2,4)
    by (intro valid_look) (auto intro!: valid_ret)
qed

lemma valid_argument_list:
  assumes "rec_ok n" "pinv s" "2 \<le> length (scopes (chk s))" "msgs s = [] \<Longrightarrow> operands_ok (ArgList sy args)"
  shows "valid (typed s) (argument_list (parse_nonterm n) sy args) s"
  unfolding argument_list_def
proof (rule valid_andthen [OF rec_okD [OF assms(1,2) step_refl assms(3)]], simp, simp, rule valid_look)
  fix e s1 assume s1: "pinv s1" "step s s1" "msgs s1 = [] \<Longrightarrow> wt e \<and> ctx s1 = ctx s"
  have o: "msgs s1 = [] \<Longrightarrow> operands_ok (ArgList sy (args @ [e]))" using s1 assms(4) step_msgs [OF s1(2)] by auto
  have "valid (typed s) (matching T_COMMA (parse_nonterm n (ArgList sy (args @ [e])))) s1"
  proof (rule valid_matching [OF s1(1)])
    fix s2 assume "pinv s2" "step s1 s2" "msgs s2 = [] \<Longrightarrow> ctx s2 = ctx s1"
    then show "valid (typed s) (parse_nonterm n (ArgList sy (args @ [e]))) s2"
      using step_trans [OF s1(2)] step_msgs [of s1 s2] s1(3) o by (intro rec_okD [OF assms(1)]) (use assms(3) in auto)
  qed
  then show "valid (typed s) (if lookahead s1 = T_COMMA then matching T_COMMA (parse_nonterm n (ArgList sy (args @ [e])))
      else call_end sy (args @ [e])) s1"
    using s1 o by (auto intro!: valid_call_end)
qed

lemma valid_primaryExpression:
  assumes "rec_ok n" "pinv s" "2 \<le> length (scopes (chk s))"
  shows "valid (typed s) (primaryExpression (parse_nonterm n)) s"
proof -
  have paren: "valid (typed s) (matching T_LPAREN (andthen (parse_nonterm n Expr) (\<lambda>e. matching T_RPAREN (ret e)))) s"
  proof (rule valid_matching [OF assms(2)], rule valid_andthen)
    fix s1 assume s1: "pinv s1" "step s s1" "msgs s1 = [] \<Longrightarrow> ctx s1 = ctx s"
    then show "valid (typed s) (parse_nonterm n Expr) s1" by (intro rec_okD [OF assms(1)]) (use assms(3) in auto)
  qed (auto intro!: valid_matching valid_ret dest: step_msgs)
  have lit: "valid (typed s) (matching t (ret e)) s" if "msgs s = [] \<Longrightarrow> wt e" for t e
    using that assms(2) by (auto intro!: valid_matching valid_ret dest: step_msgs)
  have num: "wt (number_of_text (lexbuf s))" if "msgs s = []" "lookahead s = T_NUM"
    using assms(2) that by (intro wt_number_of_text) (auto simp: pinv_def tokens_ok_def overflows_def)
  have id: "valid (typed s) (andthen ident_name (\<lambda>name. andthen (declaring (checkIdentifier name)) (\<lambda>sy. look (\<lambda>t.
           if t = T_LPAREN then
             matching T_LPAREN (look (\<lambda>t. if t \<noteq> T_RPAREN then parse_nonterm n (ArgList sy []) else call_end sy []))
           else ret (Identifier sy))))) s"
  proof (rule valid_andthen [OF valid_ident_name [OF assms(2)]], rule valid_andthen [OF valid_checkIdentifier], assumption)
    fix name s1 assume s1: "pinv s1" "step s s1" "msgs s1 = [] \<Longrightarrow> ctx s1 = ctx s"
    then show "2 \<le> length (scopes (chk s1))" using assms(3) step_length by simp
    fix sy :: symbol and s2 assume s2: "pinv s2" "step s1 s2" "msgs s2 = [] \<Longrightarrow> sym_type sy \<noteq> ErrorType \<and> ctx s2 = ctx s1"
    have c2: "step s s2" "msgs s2 = [] \<Longrightarrow> sym_type sy \<noteq> ErrorType \<and> ctx s2 = ctx s"
      using s1 s2 step_trans step_msgs by (blast, metis)
    have "valid (typed s) (matching T_LPAREN (look (\<lambda>t. if t \<noteq> T_RPAREN then parse_nonterm n (ArgList sy []) else call_end sy []))) s2"
    proof (rule valid_matching [OF s2(1)], rule valid_look)
      fix s3 assume s3: "pinv s3" "step s2 s3" "msgs s3 = [] \<Longrightarrow> ctx s3 = ctx s2"
      have c3: "step s s3" "msgs s3 = [] \<Longrightarrow> sym_type sy \<noteq> ErrorType \<and> ctx s3 = ctx s"
        using c2 s3 step_trans step_msgs by (blast, metis)
      then show "valid (typed s) (if lookahead s3 \<noteq> T_RPAREN then parse_nonterm n (ArgList sy []) else call_end sy []) s3"
        using s3(1) assms(1,3) by (auto intro!: rec_okD valid_call_end)
    qed
    then show "valid (typed s) (look (\<lambda>t. if t = T_LPAREN then
             matching T_LPAREN (look (\<lambda>t. if t \<noteq> T_RPAREN then parse_nonterm n (ArgList sy []) else call_end sy []))
           else ret (Identifier sy))) s2"
      using valid_ret [OF s2(1), of "typed s" "Identifier sy"] c2(2) by (intro valid_look) simp
  qed
  have "valid (typed s) (look (\<lambda>t.
       if t = T_LPAREN then matching T_LPAREN (andthen (parse_nonterm n Expr) (\<lambda>e. matching T_RPAREN (ret e)))
       else if t = T_STRING then
         matching T_STRING (ret (StringLit (fst (parseString (unquote (lexbuf s))))))
       else if t = T_CHARACTER then
         matching T_CHARACTER (ret (number_of_value (char_value (chd (fst (parseString (unquote (lexbuf s))))))))
       else if t = T_NUM then matching T_NUM (ret (number_of_text (lexbuf s)))
       else if t = T_ID then
         andthen ident_name (\<lambda>name. andthen (declaring (checkIdentifier name)) (\<lambda>sy. look (\<lambda>t.
           if t = T_LPAREN then
             matching T_LPAREN (look (\<lambda>t. if t \<noteq> T_RPAREN then parse_nonterm n (ArgList sy []) else call_end sy []))
           else ret (Identifier sy))))
       else error)) s"
    using paren id by (intro valid_look) (simp add: lit num)
  then show ?thesis by (simp add: valid_def primaryExpression_def)
qed

lemma rec_ok: "rec_ok n"
proof (induction n)
  case 0
  show ?case by (simp add: rec_ok_def valid_def)
next
  case (Suc n)
  show ?case unfolding rec_ok_def
  proof (intro allI impI)
    fix nt s assume "pinv s" "2 \<le> length (scopes (chk s))" "msgs s = [] \<longrightarrow> operands_ok nt"
    then show "valid (typed s) (parse_nonterm (Suc n) nt) s"
      using Suc valid_binary_expression valid_binary_loop valid_prefixExpression valid_postfixExpression
        valid_postfix_loop valid_primaryExpression valid_argument_list
      by (cases nt) auto
  qed
qed

lemma valid_expression:
  "pinv s' \<Longrightarrow> step s s' \<Longrightarrow> 2 \<le> length (scopes (chk s)) \<Longrightarrow> (msgs s' = [] \<Longrightarrow> ctx s' = ctx s) \<Longrightarrow>
   valid (typed s) (expression n) s'"
  unfolding expression_def by (rule rec_okD [OF rec_ok]) auto

end
