(* ===== verification/CcProgram.thy ===== *)
theory CcProgram
  imports CcFront
begin

text \<open>
  Soundness of the front end of the host Tiny C compiler, continued: declarations,
  statements, functions and whole programs.
\<close>

subsection \<open>Scopes\<close>

definition fresh_ids :: "nat \<Rightarrow> nat \<Rightarrow> symbol list \<Rightarrow> bool" where
  "fresh_ids a b sys \<longleftrightarrow> distinct (map sym_id sys) \<and> (\<forall>sy \<in> set sys. a \<le> sym_id sy \<and> sym_id sy < b)"

lemma fresh_ids_append: "fresh_ids a b xs \<Longrightarrow> fresh_ids b c ys \<Longrightarrow> a \<le> b \<Longrightarrow> b \<le> c \<Longrightarrow> fresh_ids a c (xs @ ys)"
  by (fastforce simp: fresh_ids_def)

text \<open>New symbols at the end of the current scope.\<close>

definition grown :: "pstate \<Rightarrow> symbol list \<Rightarrow> pstate \<Rightarrow> bool" where
  "grown s new s' \<longleftrightarrow>
     scopes (chk s') = (hd (scopes (chk s)) @ new) # tl (scopes (chk s)) \<and>
     next_id (chk s) \<le> next_id (chk s') \<and> fresh_ids (next_id (chk s)) (next_id (chk s')) new \<and>
     returnType s' = returnType s \<and> loopDepth s' = loopDepth s"

text \<open>The scopes in force unchanged, with symbols created for scopes that have been closed.\<close>

definition kept :: "pstate \<Rightarrow> symbol list \<Rightarrow> pstate \<Rightarrow> bool" where
  "kept s sys s' \<longleftrightarrow>
     scopes (chk s') = scopes (chk s) \<and>
     next_id (chk s) \<le> next_id (chk s') \<and> fresh_ids (next_id (chk s)) (next_id (chk s')) sys \<and>
     returnType s' = returnType s \<and> loopDepth s' = loopDepth s"

lemma grown_trans: "grown s a s1 \<Longrightarrow> grown s1 b s2 \<Longrightarrow> grown s (a @ b) s2"
  using fresh_ids_append [of "next_id (chk s)" "next_id (chk s1)" a "next_id (chk s2)" b] by (auto simp: grown_def)

lemma kept_trans: "kept s a s1 \<Longrightarrow> kept s1 b s2 \<Longrightarrow> kept s (a @ b) s2"
  using fresh_ids_append [of "next_id (chk s)" "next_id (chk s1)" a "next_id (chk s2)" b] by (auto simp: kept_def)

lemma kept_ctx: "ctx s' = ctx s \<Longrightarrow> kept s [] s'"
  by (simp add: kept_def ctx_def fresh_ids_def)

lemma kept_ctx_left: "ctx s1 = ctx s \<Longrightarrow> kept s1 a s2 \<Longrightarrow> kept s a s2"
  by (simp add: kept_def ctx_def)

lemma kept_ctx_right: "kept s a s1 \<Longrightarrow> ctx s2 = ctx s1 \<Longrightarrow> kept s a s2"
  by (simp add: kept_def ctx_def)

lemma grown_ctx: "ctx s' = ctx s \<Longrightarrow> scopes (chk s) \<noteq> [] \<Longrightarrow> grown s [] s'"
  by (simp add: grown_def ctx_def fresh_ids_def)

lemma grown_ctx_left: "ctx s1 = ctx s \<Longrightarrow> grown s1 a s2 \<Longrightarrow> grown s a s2"
  by (simp add: grown_def ctx_def)

lemma grown_ctx_right: "grown s a s1 \<Longrightarrow> ctx s2 = ctx s1 \<Longrightarrow> grown s a s2"
  by (simp add: grown_def ctx_def)

lemma pinv_open: "pinv s \<Longrightarrow> pinv (s\<lparr>chk := openScope (chk s)\<rparr>)"
  by (auto simp: pinv_def openScope_def scopes_ok_def ids_ok_def tokens_ok_def)

lemma pinv_close:
  assumes "pinv s" "2 \<le> length (scopes (chk s))" "closeScope (chk s) = (sc, c)"
  shows "pinv (s\<lparr>chk := c\<rparr>)" "sc = hd (scopes (chk s))" "msgs s = [] \<Longrightarrow> scope_ok sc"
proof -
  obtain sc1 sc2 scs where s: "scopes (chk s) = sc1 # sc2 # scs"
    using assms(2) by (cases "scopes (chk s)"; cases "tl (scopes (chk s))") auto
  have c: "sc = sc1" "scopes c = sc2 # scs" "next_id c = next_id (chk s)" using assms(3) s by (auto simp: closeScope_def)
  show "sc = hd (scopes (chk s))" using c s by simp
  have ok: "scopes_ok (msgs s \<noteq> []) (sc1 # sc2 # scs)" "ids_ok (chk s)" "tokens_ok s" using assms(1) s by (auto simp: pinv_def)
  show "msgs s = [] \<Longrightarrow> scope_ok sc" using ok(1) c(1) by (simp add: scopes_ok_def scope_ok_def list_all_iff)
  have "scopes_ok (msgs s \<noteq> []) (sc2 # scs)" using ok(1) by (simp add: scopes_ok_def)
  moreover have "ids_ok c" using ok(2) c(2,3) s by (auto simp: ids_ok_def)
  ultimately show "pinv (s\<lparr>chk := c\<rparr>)" using ok(3) c(2) by (simp add: pinv_def tokens_ok_def)
qed

lemma valid_in_new_scope:
  assumes "valid Q p (s\<lparr>chk := openScope (chk s)\<rparr>)" "scopes (chk s) \<noteq> []"
  shows "valid (\<lambda>(sc, a) s'. scope_ok sc \<and> (\<exists>s1. pinv s1 \<and> Q a s1 \<and> sc = hd (scopes (chk s1)) \<and>
      s' = s1\<lparr>chk := (chk s1)\<lparr>scopes := tl (scopes (chk s1))\<rparr>\<rparr>)) (in_new_scope p) s"
proof (cases "p (s\<lparr>chk := openScope (chk s)\<rparr>)")
  case (Ok a s1)
  then have p: "pinv s1" "step (s\<lparr>chk := openScope (chk s)\<rparr>) s1" "msgs s1 = [] \<Longrightarrow> Q a s1"
    using assms(1) by (auto simp: valid_def)
  obtain sc c where c: "closeScope (chk s1) = (sc, c)" by fastforce
  have l: "length (scopes (chk s1)) = Suc (length (scopes (chk s)))" using step_length [OF p(2)] by (simp add: openScope_def)
  then have "2 \<le> length (scopes (chk s1))" using assms(2) by (cases "scopes (chk s)") auto
  note cl = pinv_close [OF p(1) this c]
  have "step s (s1\<lparr>chk := c\<rparr>)" using p(2) l c by (auto simp: step_def closeScope_def)
  moreover have "s1\<lparr>chk := c\<rparr> = s1\<lparr>chk := (chk s1)\<lparr>scopes := tl (scopes (chk s1))\<rparr>\<rparr>" using c by (auto simp: closeScope_def)
  ultimately show ?thesis using Ok c cl p by (auto simp: valid_def in_new_scope_def andthen_def)
qed (use assms(1) in \<open>auto simp: valid_def in_new_scope_def andthen_def\<close>)

subsection \<open>Declarations\<close>

lemma valid_declareVariable:
  assumes "pinv s" "object_type t"
  shows "valid (\<lambda>_ s'. tl (scopes (chk s)) \<noteq> [] \<longrightarrow> (\<exists>sy. sym_type sy = t \<and> grown s [sy] s')) (declaring (declareVariable name t)) s"
proof (cases "scope_find (hd (scopes (chk s))) name")
  case None
  then have n: "name \<notin> sym_name ` set (hd (scopes (chk s)))" by (simp add: scope_find_None)
  have e: "declareVariable name t (chk s) = ([], declared name t (chk s))"
    using None by (simp add: declareVariable_def declared_def Let_def split: prod.splits)
  show ?thesis using pinv_declared [OF assms(1) n, of t "[]"] assms(2)
    unfolding valid_def declaring_def e declared_eq [OF n]
    by (auto simp: grown_def fresh_ids_def report_def intro!: exI)
next
  case (Some sy)
  then have "\<exists>ms. declareVariable name t (chk s) = (ms, sy, chk s) \<and> (tl (scopes (chk s)) \<noteq> [] \<longrightarrow> ms \<noteq> [])"
    by (simp add: declareVariable_def)
  then obtain ms where "declareVariable name t (chk s) = (ms, sy, chk s)" "tl (scopes (chk s)) \<noteq> [] \<longrightarrow> ms \<noteq> []" by blast
  then show ?thesis using pinv_report [OF assms(1), of ms] by (auto simp: valid_def declaring_def report_def)
qed

lemma object_type_simps [simp]: "object_type (ScalarType sp k)" "object_type (ArrayType sp k len)"
  by (simp_all add: object_type_def)

text \<open>Declarations in a local scope.\<close>

abbreviation grows :: "pstate \<Rightarrow> 'a \<Rightarrow> pstate \<Rightarrow> bool" where
  "grows s \<equiv> (\<lambda>_ s'. \<exists>new. grown s new s')"

definition local_scope :: "pstate \<Rightarrow> bool" where
  "local_scope s \<longleftrightarrow> pinv s \<and> 2 \<le> length (scopes (chk s))"

lemma local_scopeD: "local_scope s \<Longrightarrow> pinv s" "local_scope s \<Longrightarrow> tl (scopes (chk s)) \<noteq> []" "local_scope s \<Longrightarrow> scopes (chk s) \<noteq> []"
  by (cases "scopes (chk s)"; auto simp: local_scope_def)+

lemma local_scope_step: "local_scope s \<Longrightarrow> pinv s' \<Longrightarrow> step s s' \<Longrightarrow> local_scope s'"
  by (simp add: local_scope_def step_length)

lemma valid_declare_local:
  "local_scope s \<Longrightarrow> object_type t \<Longrightarrow> valid (\<lambda>_ s'. \<exists>sy. sym_type sy = t \<and> grown s [sy] s') (declaring (declareVariable name t)) s"
  by (rule valid_conseq [OF valid_declareVariable]) (auto simp: local_scopeD)

text \<open>Following one parser that keeps the context, or that declares, by another.\<close>

lemma valid_then_grows:
  assumes "local_scope s" "valid (\<lambda>_ s'. ctx s' = ctx s) p s"
    and "\<And>a s'. local_scope s' \<Longrightarrow> valid (grows s') (f a) s'"
  shows "valid (grows s) (andthen p f) s"
proof (rule valid_andthen [OF assms(2)])
  fix a s1 assume s1: "pinv s1" "step s s1" "msgs s1 = [] \<Longrightarrow> ctx s1 = ctx s"
  have "valid (grows s1) (f a) s1" using assms(3) local_scope_step [OF assms(1) s1(1,2)] by blast
  then show "valid (grows s) (f a) s1" by (rule valid_conseq) (use s1(3) grown_ctx_left in blast)
qed

lemma valid_grows_then:
  assumes "local_scope s" "valid (grows s) p s"
    and "\<And>a s'. local_scope s' \<Longrightarrow> valid (grows s') (f a) s'"
  shows "valid (grows s) (andthen p f) s"
proof (rule valid_andthen [OF assms(2)])
  fix a s1 assume s1: "pinv s1" "step s s1" "msgs s1 = [] \<Longrightarrow> \<exists>new. grown s new s1"
  have "valid (grows s1) (f a) s1" using assms(3) local_scope_step [OF assms(1) s1(1,2)] by blast
  then show "valid (grows s) (f a) s1" by (rule valid_conseq) (use s1(3) grown_trans in blast)
qed

lemma valid_grows_ctx: "local_scope s \<Longrightarrow> valid (\<lambda>_ s'. ctx s' = ctx s) p s \<Longrightarrow> valid (grows s) p s"
  by (erule valid_conseq) (use grown_ctx local_scopeD(3) in blast)

lemma valid_grows_matching:
  "local_scope s \<Longrightarrow> (\<And>s'. local_scope s' \<Longrightarrow> valid (grows s') p s') \<Longrightarrow> valid (grows s) (matching t p) s"
  unfolding matching_def by (rule valid_then_grows) (auto intro: valid_match local_scopeD)

lemma valid_grows_ret: "local_scope s \<Longrightarrow> valid (grows s) (ret a) s"
  by (rule valid_grows_ctx) (auto intro: valid_ret local_scopeD)

lemma valid_grows_match: "local_scope s \<Longrightarrow> valid (grows s) (match t) s"
  by (rule valid_grows_ctx) (auto intro: valid_match local_scopeD)

lemma valid_grows_declare: "local_scope s \<Longrightarrow> object_type t \<Longrightarrow> valid (grows s) (declaring (declareVariable name t)) s"
  by (rule valid_conseq [OF valid_declare_local]) auto

lemma valid_declarator: "local_scope s \<Longrightarrow> valid (grows s) (declarator n sp) s"
  unfolding declarator_def
  by (rule valid_then_grows, assumption, rule valid_pointers, erule local_scopeD,
      rule valid_then_grows, assumption, rule valid_ident_name, erule local_scopeD, rule valid_look)
    (auto intro!: valid_grows_matching valid_then_grows [OF _ valid_number] valid_grows_then [OF _ valid_grows_declare]
      valid_grows_match valid_grows_ret local_scopeD)

lemma valid_declarator_list: "local_scope s \<Longrightarrow> valid (grows s) (declarator_list n sp) s"
proof (induction n arbitrary: s)
  case (Suc n)
  then show ?case unfolding loop_simps
    by (intro valid_look) (auto intro!: valid_grows_matching valid_grows_then [OF _ valid_declarator] valid_grows_ret)
qed (simp add: valid_def)

lemma valid_local_declaration: "local_scope s \<Longrightarrow> valid (grows s) (local_declaration n) s"
  unfolding local_declaration_def
  by (rule valid_then_grows, assumption, rule valid_specifier, erule local_scopeD)
    (auto intro!: valid_grows_then [OF _ valid_declarator] valid_grows_then [OF _ valid_declarator_list] valid_grows_match)

lemma valid_declarations: "local_scope s \<Longrightarrow> valid (grows s) (declarations n) s"
proof (induction n arbitrary: s)
  case (Suc n)
  then show ?case unfolding loop_simps
    by (intro valid_look) (auto intro!: valid_grows_then [OF _ valid_local_declaration] valid_grows_ret)
qed (simp add: valid_def)

subsection \<open>Statements\<close>

text \<open>
  A point inside the parsing of a statement that began in \<open>s\<close>: what is known of the parts
  parsed so far, and the symbols of the blocks closed so far, when nothing has been reported.
\<close>

definition reached :: "pstate \<Rightarrow> bool \<Rightarrow> symbol list \<Rightarrow> pstate \<Rightarrow> bool" where
  "reached s F sys s' \<longleftrightarrow> local_scope s' \<and> step s s' \<and> (msgs s' = [] \<longrightarrow> F \<and> kept s sys s')"

lemma reached_start: "local_scope s \<Longrightarrow> reached s True [] s"
  by (simp add: reached_def kept_def fresh_ids_def)

lemma reached_next:
  assumes "reached s F sys s1" "pinv s2" "step s1 s2" "msgs s2 = [] \<Longrightarrow> G \<and> ctx s2 = ctx s1"
  shows "reached s (F \<and> G) sys s2"
  using assms local_scope_step [of s1 s2] step_trans [of s s1 s2] step_msgs [of s1 s2] kept_ctx_right [of s sys s1 s2]
  by (auto simp: reached_def)

lemma at_ret: "reached s F sys s1 \<Longrightarrow> (F \<Longrightarrow> kept s sys s1 \<Longrightarrow> Q a s1) \<Longrightarrow> valid Q (ret a) s1"
  by (rule valid_ret) (auto simp: reached_def local_scopeD)

lemma at_matching:
  assumes "reached s F sys s1" "\<And>s2. reached s F sys s2 \<Longrightarrow> valid R p s2"
  shows "valid R (matching t p) s1"
proof (rule valid_matching)
  show "pinv s1" using assms(1) by (simp add: reached_def local_scopeD)
  fix s2 assume "pinv s2" "step s1 s2" "msgs s2 = [] \<Longrightarrow> ctx s2 = ctx s1"
  then show "valid R p s2" using reached_next [OF assms(1), of s2 True] assms(2) by simp
qed

lemma at_ctx:
  assumes "reached s F sys s1" "local_scope s1 \<Longrightarrow> valid (\<lambda>a s2. G a \<and> ctx s2 = ctx s1) p s1"
    and "\<And>a s2. reached s (F \<and> G a) sys s2 \<Longrightarrow> valid R (f a) s2"
  shows "valid R (andthen p f) s1"
proof (rule valid_andthen [OF assms(2)])
  show "local_scope s1" using assms(1) by (simp add: reached_def)
qed (auto intro!: assms(3) reached_next [OF assms(1)])

lemma valid_expression_at: "local_scope s \<Longrightarrow> valid (typed s) (expression n) s"
  by (rule valid_expression) (auto simp: local_scope_def)

lemma valid_test: "local_scope s \<Longrightarrow> valid (\<lambda>e s'. test_ok e \<and> ctx s' = ctx s) (test n) s"
proof -
  assume l: "local_scope s"
  show ?thesis unfolding test_def
  proof (rule valid_andthen [OF valid_expression_at [OF l]])
    fix e s1 assume s1: "pinv s1" "msgs s1 = [] \<Longrightarrow> wt e \<and> ctx s1 = ctx s"
    show "valid (\<lambda>e s'. test_ok e \<and> ctx s' = ctx s) (checked_by (checkTest e)) s1"
      by (rule valid_conseq [OF valid_checked_by [OF s1(1)]]) (use s1(2) checkTest_ok checked_pair in metis)
  qed
qed

definition plain :: "cstmt \<Rightarrow> bool" where
  "plain st \<longleftrightarrow> (\<forall>r d. wt_stmt r d st) \<and> symbols_of st = []"

lemma symbols_of_checkAssignment: "symbols_of (snd (checkAssignment l r)) = []"
  by (simp add: checkAssignment_def Let_def)

lemma valid_assignment: "local_scope s \<Longrightarrow> valid (\<lambda>st s'. plain st \<and> ctx s' = ctx s) (assignment n) s"
proof -
  assume l: "local_scope s"
  show ?thesis unfolding assignment_def
  proof (rule valid_andthen [OF valid_expression_at [OF l]], rule valid_look)
    fix e s1 assume s1: "pinv s1" "step s s1" "msgs s1 = [] \<Longrightarrow> wt e \<and> ctx s1 = ctx s"
    have "valid (\<lambda>st s'. plain st \<and> ctx s' = ctx s) (matching T_ASSIGN (andthen (expression n) (\<lambda>r. checked_by (checkAssignment e r)))) s1"
    proof (rule valid_matching [OF s1(1)])
      fix s2 assume s2: "pinv s2" "step s1 s2" "msgs s2 = [] \<Longrightarrow> ctx s2 = ctx s1"
      have l2: "local_scope s2" using l s1(1,2) s2(1,2) local_scope_step by blast
      show "valid (\<lambda>st s'. plain st \<and> ctx s' = ctx s) (andthen (expression n) (\<lambda>r. checked_by (checkAssignment e r))) s2"
      proof (rule valid_andthen [OF valid_expression_at [OF l2]])
        fix r s3 assume s3: "pinv s3" "step s2 s3" "msgs s3 = [] \<Longrightarrow> wt r \<and> ctx s3 = ctx s2"
        have c: "ctx s3 = ctx s" "wt e" if "msgs s3 = []"
          using that s3(2,3) s2(2,3) s1(3) step_msgs by metis+
        show "valid (\<lambda>st s'. plain st \<and> ctx s' = ctx s) (checked_by (checkAssignment e r)) s3"
          by (rule valid_conseq [OF valid_checked_by [OF s3(1)]])
            (use s3(3) c wt_checkAssignment checked_pair symbols_of_checkAssignment in \<open>metis plain_def\<close>)
      qed
    qed
    moreover have "valid (\<lambda>st s'. plain st \<and> ctx s' = ctx s) (ret (Simple e)) s1"
      using s1 by (intro valid_ret) (auto simp: plain_def)
    ultimately show "valid (\<lambda>st s'. plain st \<and> ctx s' = ctx s)
        (if lookahead s1 = T_ASSIGN then matching T_ASSIGN (andthen (expression n) (\<lambda>r. checked_by (checkAssignment e r))) else ret (Simple e)) s1"
      by simp
  qed
qed

definition stmt_ok :: "pstate \<Rightarrow> cstmt \<Rightarrow> pstate \<Rightarrow> bool" where
  "stmt_ok s st s' \<longleftrightarrow> wt_stmt (returnType s) (loopDepth s) st \<and> kept s (symbols_of st) s'"

definition stmts_ok :: "pstate \<Rightarrow> cstmt list \<Rightarrow> pstate \<Rightarrow> bool" where
  "stmts_ok s ss s' \<longleftrightarrow>
     list_all (wt_stmt (returnType s) (loopDepth s)) ss \<and> kept s (concat (map symbols_of ss)) s'"

lemma reached_kept:
  assumes "reached s F sys s1" "pinv s2" "step s1 s2" "msgs s2 = [] \<Longrightarrow> G \<and> kept s1 sys' s2"
  shows "reached s (F \<and> G) (sys @ sys') s2"
  using assms local_scope_step [of s1 s2] step_trans [of s s1 s2] step_msgs [of s1 s2] kept_trans [of s sys s1 sys' s2]
  by (auto simp: reached_def)

lemma reached_regs: "reached s F sys s1 \<Longrightarrow> msgs s1 = [] \<Longrightarrow> returnType s1 = returnType s \<and> loopDepth s1 = loopDepth s"
  by (simp add: reached_def kept_def)

lemma at_stmt:
  assumes "reached s F sys s1" "local_scope s1 \<Longrightarrow> valid (stmt_ok s1) p s1"
    and "\<And>st s2. reached s (F \<and> wt_stmt (returnType s) (loopDepth s) st) (sys @ symbols_of st) s2 \<Longrightarrow> valid R (f st) s2"
  shows "valid R (andthen p f) s1"
proof (rule valid_andthen [OF assms(2)])
  show "local_scope s1" using assms(1) by (simp add: reached_def)
next
  fix st s2 assume s2: "pinv s2" "step s1 s2" "msgs s2 = [] \<Longrightarrow> stmt_ok s1 st s2"
  show "valid R (f st) s2"
    by (rule assms(3), rule reached_kept [OF assms(1) s2(1,2)])
      (use s2(3) reached_regs [OF assms(1)] step_msgs [OF s2(2)] in \<open>auto simp: stmt_ok_def\<close>)
qed

lemma at_stmts:
  assumes "reached s F sys s1" "local_scope s1 \<Longrightarrow> valid (stmts_ok s1) p s1"
    and "\<And>ss s2. reached s (F \<and> list_all (wt_stmt (returnType s) (loopDepth s)) ss) (sys @ concat (map symbols_of ss)) s2 \<Longrightarrow> valid R (f ss) s2"
  shows "valid R (andthen p f) s1"
proof (rule valid_andthen [OF assms(2)])
  show "local_scope s1" using assms(1) by (simp add: reached_def)
next
  fix ss s2 assume s2: "pinv s2" "step s1 s2" "msgs s2 = [] \<Longrightarrow> stmts_ok s1 ss s2"
  show "valid R (f ss) s2"
    by (rule assms(3), rule reached_kept [OF assms(1) s2(1,2)])
      (use s2(3) reached_regs [OF assms(1)] step_msgs [OF s2(2)] in \<open>auto simp: stmts_ok_def\<close>)
qed

lemma valid_in_loop:
  assumes "local_scope s" "\<And>s. local_scope s \<Longrightarrow> valid (stmt_ok s) p s"
  shows "valid (\<lambda>st s'. wt_stmt (returnType s) (loopDepth s + 1) st \<and> kept s (symbols_of st) s') (in_loop p) s"
proof -
  let ?s = "s\<lparr>loopDepth := loopDepth s + 1\<rparr>"
  have i: "pinv (s'\<lparr>loopDepth := d\<rparr>) = pinv s'" for s' d by (simp add: pinv_def tokens_ok_def)
  have "local_scope ?s" using assms(1) by (simp add: local_scope_def i)
  from assms(2) [OF this] show ?thesis
    by (auto simp: valid_def in_loop_def andthen_def i step_def stmt_ok_def kept_def split: outcome.splits)
qed

lemma at_loop:
  assumes "reached s F sys s1" "\<And>s. local_scope s \<Longrightarrow> valid (stmt_ok s) p s"
    and "\<And>st s2. reached s (F \<and> wt_stmt (returnType s) (loopDepth s + 1) st) (sys @ symbols_of st) s2 \<Longrightarrow> valid R (f st) s2"
  shows "valid R (andthen (in_loop p) f) s1"
proof (rule valid_andthen [OF valid_in_loop [OF _ assms(2)]])
  show "local_scope s1" using assms(1) by (simp add: reached_def)
  fix st s2 assume s2: "pinv s2" "step s1 s2"
    "msgs s2 = [] \<Longrightarrow> wt_stmt (returnType s1) (loopDepth s1 + 1) st \<and> kept s1 (symbols_of st) s2"
  show "valid R (f st) s2"
    by (rule assms(3), rule reached_kept [OF assms(1) s2(1,2)])
      (use s2(3) reached_regs [OF assms(1)] step_msgs [OF s2(2)] in auto)
qed

text \<open>A block: the declarations of its own scope, then the statements inside it.\<close>

lemma valid_block:
  assumes "local_scope s" "\<And>s. local_scope s \<Longrightarrow> valid (stmts_ok s) sts s"
  shows "valid (\<lambda>(sc, ss) s'. wt_stmt (returnType s) (loopDepth s) (Block sc ss) \<and> kept s (symbols_of (Block sc ss)) s')
    (in_new_scope (andthen (declarations n) (\<lambda>_. sts))) s"
proof -
  let ?s = "s\<lparr>chk := openScope (chk s)\<rparr>"
  let ?Q = "\<lambda>ss s2. \<exists>s1. grows ?s () s1 \<and> stmts_ok s1 ss s2"
  have l: "local_scope ?s" using assms(1) pinv_open by (auto simp: local_scope_def openScope_def)
  have "valid ?Q (andthen (declarations n) (\<lambda>_. sts)) ?s"
  proof (rule valid_andthen [OF valid_declarations [OF l]])
    fix u s1 assume s1: "pinv s1" "step ?s s1" "msgs s1 = [] \<Longrightarrow> \<exists>new. grown ?s new s1"
    then have "valid (stmts_ok s1) sts s1" using assms(2) local_scope_step [OF l] by blast
    then show "valid ?Q sts s1" by (rule valid_conseq) (use s1(3) in blast)
  qed
  then have v: "valid (\<lambda>(sc, ss) s'. scope_ok sc \<and> (\<exists>s2. pinv s2 \<and> ?Q ss s2 \<and> sc = hd (scopes (chk s2)) \<and>
      s' = s2\<lparr>chk := (chk s2)\<lparr>scopes := tl (scopes (chk s2))\<rparr>\<rparr>)) (in_new_scope (andthen (declarations n) (\<lambda>_. sts))) s"
    using local_scopeD(3) [OF assms(1)] by (rule valid_in_new_scope)
  show ?thesis
  proof (rule valid_conseq [OF v], clarify)
    fix sc ss s1 s2 new
    assume a: "scope_ok (hd (scopes (chk s2)))" "pinv s2" "grown ?s new s1" "stmts_ok s1 ss s2"
    let ?s' = "s2\<lparr>chk := (chk s2)\<lparr>scopes := tl (scopes (chk s2))\<rparr>\<rparr>"
    have h: "hd (scopes (chk s2)) = new" "tl (scopes (chk s2)) = scopes (chk s)"
      using a(3,4) by (auto simp: grown_def stmts_ok_def kept_def openScope_def)
    have "fresh_ids (next_id (chk s)) (next_id (chk s2)) (new @ concat (map symbols_of ss))"
      using a(3,4) by (auto simp: grown_def stmts_ok_def kept_def openScope_def intro!: fresh_ids_append)
    then show "wt_stmt (returnType s) (loopDepth s) (Block (hd (scopes (chk s2))) ss) \<and>
        kept s (symbols_of (Block (hd (scopes (chk s2))) ss)) ?s'"
      using a h by (auto simp: grown_def stmts_ok_def kept_def openScope_def)
  qed
qed

lemma at_check_stmt:
  assumes "reached s F sys s1" "\<And>s1. (msgs s1 = [] \<Longrightarrow> F \<and> returnType s1 = returnType s \<and> loopDepth s1 = loopDepth s) \<Longrightarrow> msgs s1 = [] \<Longrightarrow>
      fst (c s1) = [] \<Longrightarrow> wt_stmt (returnType s) (loopDepth s) (snd (c s1)) \<and> symbols_of (snd (c s1)) = []"
    and "\<And>st s2. reached s (F \<and> wt_stmt (returnType s) (loopDepth s) st \<and> symbols_of st = []) sys s2 \<Longrightarrow> valid R (f st) s2"
  shows "valid R (andthen (\<lambda>s. checked_by (c s) s) f) s1"
proof -
  have p: "pinv s1" using assms(1) by (simp add: reached_def local_scopeD)
  have "valid (\<lambda>a s2. a = snd (c s1) \<and> fst (c s1) = [] \<and> ctx s2 = ctx s1) (\<lambda>s. checked_by (c s) s) s1"
    using valid_checked_by [OF p, of "c s1"] by (simp add: valid_def)
  then show ?thesis
  proof (rule valid_andthen)
    fix st s2 assume s2: "pinv s2" "step s1 s2" "msgs s2 = [] \<Longrightarrow> st = snd (c s1) \<and> fst (c s1) = [] \<and> ctx s2 = ctx s1"
    have f: "msgs s1 = [] \<Longrightarrow> F \<and> returnType s1 = returnType s \<and> loopDepth s1 = loopDepth s"
      using assms(1) by (simp add: reached_def kept_def)
    show "valid R (f st) s2"
      by (rule assms(3), rule reached_next [OF assms(1) s2(1,2)])
        (use s2(3) assms(2) [OF f] step_msgs [OF s2(2)] in auto)
  qed
qed

lemma plain_symbols: "plain st \<Longrightarrow> wt_stmt r d st \<and> symbols_of st = []"
  by (simp add: plain_def)

lemma wt_checkReturn_at: "wt e \<Longrightarrow> fst (checkReturn e rt) = [] \<Longrightarrow> wt_stmt rt d (snd (checkReturn e rt)) \<and> symbols_of (snd (checkReturn e rt)) = []"
  using wt_checkReturn [of e rt _ d] checked_pair by (auto simp: checkReturn_def Let_def split: if_splits)

lemma wt_checkBreak_at: "fst (checkBreak d) = [] \<Longrightarrow> wt_stmt r d (snd (checkBreak d)) \<and> symbols_of (snd (checkBreak d)) = []"
  by (auto simp: checkBreak_def split: if_splits)

lemma reached_local: "reached s F sys s1 \<Longrightarrow> local_scope s1"
  by (simp add: reached_def)

lemma valid_statement_body:
  assumes l: "local_scope s" and st: "\<And>s. local_scope s \<Longrightarrow> valid (stmt_ok s) st s"
    and sts: "\<And>s. local_scope s \<Longrightarrow> valid (stmts_ok s) sts s"
  shows "valid (stmt_ok s) (statement_body n st sts) s"
proof -
  note start = reached_start [OF l]
  have block: "valid (stmt_ok s) (matching T_LBRACE (andthen (in_new_scope (andthen (declarations n) (\<lambda>_. sts))) (\<lambda>(sc, ss).
           matching T_RBRACE (ret (Block sc ss))))) s"
  proof (rule at_matching [OF start], rule valid_andthen [OF valid_block [OF reached_local sts]], assumption, assumption, clarify)
    fix s1 sc ss s2
    assume r: "reached s True [] s1" "pinv s2" "step s1 s2"
      "msgs s2 = [] \<Longrightarrow> wt_stmt (returnType s1) (loopDepth s1) (Block sc ss) \<and> kept s1 (symbols_of (Block sc ss)) s2"
    have "reached s (True \<and> wt_stmt (returnType s) (loopDepth s) (Block sc ss)) ([] @ symbols_of (Block sc ss)) s2"
      by (rule reached_kept [OF r(1-3)]) (use r(4) reached_regs [OF r(1)] step_msgs [OF r(3)] in auto)
    then show "valid (stmt_ok s) (matching T_RBRACE (ret (Block sc ss))) s2"
      by (rule at_matching, elim at_ret) (simp add: stmt_ok_def)
  qed
  have brk: "valid (stmt_ok s) (matching T_BREAK (andthen (\<lambda>s. checked_by (checkBreak (loopDepth s)) s) (\<lambda>st. matching T_SEMI (ret st)))) s"
    by (rule at_matching [OF start], erule at_check_stmt, use wt_checkBreak_at in metis, erule at_matching, erule at_ret)
      (simp add: stmt_ok_def)
  have rtn: "valid (stmt_ok s) (matching T_RETURN (andthen (expression n) (\<lambda>e.
           andthen (\<lambda>s. checked_by (checkReturn e (returnType s)) s) (\<lambda>st. matching T_SEMI (ret st))))) s"
  proof (rule at_matching [OF start], erule at_ctx, erule valid_expression_at)
    fix e s2 assume r: "reached s (True \<and> wt e) [] s2"
    show "valid (stmt_ok s) (andthen (\<lambda>s. checked_by (checkReturn e (returnType s)) s) (\<lambda>st. matching T_SEMI (ret st))) s2"
      by (rule at_check_stmt [OF r], use wt_checkReturn_at in metis, erule at_matching, erule at_ret) (simp add: stmt_ok_def)
  qed
  have whl: "valid (stmt_ok s) (matching T_WHILE (matching T_LPAREN (andthen (test n) (\<lambda>e.
           matching T_RPAREN (andthen (in_loop st) (\<lambda>st. ret (While e st))))))) s"
    by (rule at_matching [OF start], erule at_matching, erule at_ctx, erule valid_test,
        erule at_matching, erule at_loop [OF _ st], assumption, erule at_ret) (simp add: stmt_ok_def)
  have fr: "valid (stmt_ok s) (matching T_FOR (matching T_LPAREN (andthen (assignment n) (\<lambda>i.
           matching T_SEMI (andthen (test n) (\<lambda>e.
             matching T_SEMI (andthen (assignment n) (\<lambda>c.
               matching T_RPAREN (andthen (in_loop st) (\<lambda>st. ret (For i e c st))))))))))) s"
    by (rule at_matching [OF start], erule at_matching, erule at_ctx, erule valid_assignment,
        erule at_matching, erule at_ctx, erule valid_test,
        erule at_matching, erule at_ctx, erule valid_assignment,
        erule at_matching, erule at_loop [OF _ st], assumption, erule at_ret)
      (auto simp: stmt_ok_def plain_symbols)
  have ift: "valid (stmt_ok s) (matching T_IF (matching T_LPAREN (andthen (test n) (\<lambda>e.
           matching T_RPAREN (andthen st (\<lambda>st1. look (\<lambda>t.
             if t \<noteq> T_ELSE then ret (If e st1 None)
             else matching T_ELSE (andthen st (\<lambda>st'. ret (If e st1 (Some st'))))))))))) s"
  proof (rule at_matching [OF start], erule at_matching, erule at_ctx, erule valid_test,
      erule at_matching, erule at_stmt, erule st, rule valid_look)
    fix e st1 s5
    assume r: "reached s ((True \<and> test_ok e) \<and> wt_stmt (returnType s) (loopDepth s) st1) ([] @ symbols_of st1) s5"
    have "valid (stmt_ok s) (matching T_ELSE (andthen st (\<lambda>st'. ret (If e st1 (Some st'))))) s5"
      by (rule at_matching [OF r], erule at_stmt, erule st, erule at_ret) (auto simp: stmt_ok_def)
    moreover have "valid (stmt_ok s) (ret (If e st1 None)) s5" using r by (rule at_ret) (auto simp: stmt_ok_def)
    ultimately show "valid (stmt_ok s) (if lookahead s5 \<noteq> T_ELSE then ret (If e st1 None)
             else matching T_ELSE (andthen st (\<lambda>st'. ret (If e st1 (Some st'))))) s5" by simp
  qed
  have asg: "valid (stmt_ok s) (andthen (assignment n) (\<lambda>st. matching T_SEMI (ret st))) s"
    by (rule at_ctx [OF start], erule valid_assignment, erule at_matching, erule at_ret) (auto simp: stmt_ok_def plain_symbols)
  show ?thesis unfolding statement_body_def
    by (rule valid_look) (simp add: block brk rtn whl fr ift asg)
qed

lemma valid_statement:
  "local_scope s \<Longrightarrow> valid (stmt_ok s) (one_statement n) s" "local_scope s \<Longrightarrow> valid (stmts_ok s) (statements n) s"
proof (induction n arbitrary: s)
  case 0
  { case 1 show ?case by (simp add: valid_def)
  next case 2 show ?case by (simp add: valid_def) }
next
  case (Suc n)
  { case 1
    then show ?case unfolding statement_simps by (rule valid_statement_body) (auto intro: Suc.IH)
  next
    case 2
    have "valid (stmts_ok s) (andthen (one_statement n) (\<lambda>st. andthen (statements n) (\<lambda>ss. ret (st # ss)))) s"
      by (rule at_stmt [OF reached_start [OF 2]], erule Suc.IH(1), erule at_stmts, erule Suc.IH(2), erule at_ret)
        (auto simp: stmts_ok_def)
    moreover have "valid (stmts_ok s) (ret []) s" using 2 by (intro valid_ret) (auto simp: stmts_ok_def local_scopeD kept_def fresh_ids_def)
    ultimately show ?case unfolding statement_simps statements_body_def by (intro valid_look) simp }
qed

subsection \<open>Parameters\<close>

definition params_ok :: "pstate \<Rightarrow> ctype list \<Rightarrow> pstate \<Rightarrow> bool" where
  "params_ok s ts s' \<longleftrightarrow> list_all isScalar ts \<and> (\<exists>new. map sym_type new = ts \<and> grown s new s')"

lemma params_ok_trans: "params_ok s ts s1 \<Longrightarrow> params_ok s1 us s2 \<Longrightarrow> params_ok s (ts @ us) s2"
  unfolding params_ok_def by (metis grown_trans map_append list_all_append)

lemma params_ok_ctx_left: "ctx s1 = ctx s \<Longrightarrow> params_ok s1 ts s2 \<Longrightarrow> params_ok s ts s2"
  unfolding params_ok_def using grown_ctx_left by blast

lemma params_ok_ctx_right: "params_ok s ts s1 \<Longrightarrow> ctx s2 = ctx s1 \<Longrightarrow> params_ok s ts s2"
  unfolding params_ok_def using grown_ctx_right by blast

lemma params_ok_Nil: "local_scope s \<Longrightarrow> ctx s' = ctx s \<Longrightarrow> params_ok s [] s'"
  unfolding params_ok_def using grown_ctx local_scopeD(3) by fastforce

lemma valid_parameter: "local_scope s \<Longrightarrow> valid (\<lambda>t s'. params_ok s [t] s') (parameter n) s"
  unfolding parameter_def
proof (rule valid_andthen [OF valid_specifier], erule local_scopeD, rule valid_andthen [OF valid_pointers], assumption,
    rule valid_andthen [OF valid_ident_name], assumption)
  fix sp s1 k s2 name s3
  assume l: "local_scope s" and a: "step s s1" "msgs s1 = [] \<Longrightarrow> ctx s1 = ctx s" "step s1 s2" "msgs s2 = [] \<Longrightarrow> ctx s2 = ctx s1"
    "pinv s3" "step s2 s3" "msgs s3 = [] \<Longrightarrow> ctx s3 = ctx s2"
  have s3: "step s s3" "msgs s3 = [] \<Longrightarrow> ctx s3 = ctx s" using a step_trans step_msgs by (blast, metis)
  have l3: "local_scope s3" using l a(5) s3(1) local_scope_step by blast
  show "valid (\<lambda>t s'. params_ok s [t] s') (andthen (declaring (declareVariable name (ScalarType sp k))) (\<lambda>_. ret (ScalarType sp k))) s3"
  proof (rule valid_andthen [OF valid_declare_local [OF l3]], simp, rule valid_ret, assumption)
    fix s4 assume s4: "step s3 s4" "msgs s4 = [] \<Longrightarrow> \<exists>sy. sym_type sy = ScalarType sp k \<and> grown s3 [sy] s4" "msgs s4 = []"
    then obtain sy where "sym_type sy = ScalarType sp k" "grown s3 [sy] s4" by blast
    moreover have "ctx s3 = ctx s" using s3(2) step_msgs [OF s4(1,3)] by simp
    ultimately show "params_ok s [ScalarType sp k] s4" unfolding params_ok_def
      by (intro conjI exI [of _ "[sy]"]) (auto intro: grown_ctx_left)
  qed
qed

lemma valid_parameter_list:
  "local_scope s \<Longrightarrow> (msgs s = [] \<Longrightarrow> params_ok s0 ts s) \<Longrightarrow> valid (\<lambda>(v, ps) s'. params_ok s0 ps s') (parameter_list n ts) s"
proof (induction n arbitrary: s ts)
  case (Suc n)
  have "valid (\<lambda>(v, ps) s'. params_ok s0 ps s') (matching T_COMMA (look (\<lambda>t.
      if t = T_ELLIPSIS then matching T_ELLIPSIS (ret (True, ts)) else andthen (parameter n) (\<lambda>p. parameter_list n (ts @ [p]))))) s"
  proof (rule valid_matching [OF local_scopeD(1) [OF Suc.prems(1)]], rule valid_look)
    fix s1 assume s1: "pinv s1" "step s s1" "msgs s1 = [] \<Longrightarrow> ctx s1 = ctx s"
    have l1: "local_scope s1" using Suc.prems(1) s1 local_scope_step by blast
    have p1: "params_ok s0 ts s1" if "msgs s1 = []" using that Suc.prems(2) s1 step_msgs params_ok_ctx_right by metis
    have "valid (\<lambda>(v, ps) s'. params_ok s0 ps s') (matching T_ELLIPSIS (ret (True, ts))) s1"
    proof (rule valid_matching [OF s1(1)], rule valid_ret, assumption, simp)
      fix s2 assume "step s1 s2" "msgs s2 = []" "ctx s2 = ctx s1"
      then show "params_ok s0 ts s2" using p1 step_msgs params_ok_ctx_right by blast
    qed
    moreover have "valid (\<lambda>(v, ps) s'. params_ok s0 ps s') (andthen (parameter n) (\<lambda>p. parameter_list n (ts @ [p]))) s1"
    proof (rule valid_andthen [OF valid_parameter [OF l1]], rule Suc.IH)
      fix p s2 assume "pinv s2" "step s1 s2" "msgs s2 = [] \<Longrightarrow> params_ok s1 [p] s2"
      then show "local_scope s2" "msgs s2 = [] \<Longrightarrow> params_ok s0 (ts @ [p]) s2"
        using l1 local_scope_step p1 params_ok_trans step_msgs by blast+
    qed
    ultimately show "valid (\<lambda>(v, ps) s'. params_ok s0 ps s') (if lookahead s1 = T_ELLIPSIS then matching T_ELLIPSIS (ret (True, ts))
        else andthen (parameter n) (\<lambda>p. parameter_list n (ts @ [p]))) s1" by simp
  qed
  moreover have "valid (\<lambda>(v, ps) s'. params_ok s0 ps s') (ret (False, ts)) s"
    using Suc.prems by (intro valid_ret) (auto simp: local_scopeD)
  ultimately show ?case unfolding loop_simps by (intro valid_look) simp
qed (simp add: valid_def)

lemma valid_parameters: "local_scope s \<Longrightarrow> valid (\<lambda>(v, ps) s'. params_ok s ps s') (parameters n) s"
proof -
  assume l: "local_scope s"
  have "valid (\<lambda>(v, ps) s'. params_ok s ps s') (matching T_VOID (ret (False, []))) s"
    by (rule valid_matching [OF local_scopeD(1) [OF l]], rule valid_ret) (auto intro: params_ok_Nil [OF l])
  moreover have "valid (\<lambda>(v, ps) s'. params_ok s ps s') (andthen (parameter n) (\<lambda>p. parameter_list n [p])) s"
    by (rule valid_andthen [OF valid_parameter [OF l]], rule valid_parameter_list) (auto intro: local_scope_step [OF l])
  ultimately show ?thesis unfolding parameters_def by (intro valid_look) simp
qed

subsection \<open>Function symbols\<close>

definition below_kept :: "pstate \<Rightarrow> pstate \<Rightarrow> bool" where
  "below_kept s s' \<longleftrightarrow> butlast (scopes (chk s')) = butlast (scopes (chk s)) \<and> returnType s' = returnType s \<and> loopDepth s' = loopDepth s"

lemma ids_ok_global:
  assumes "ids_ok c" "scopes c \<noteq> []" "sym_id sy = next_id c"
  shows "ids_ok (c\<lparr>next_id := next_id c + 1, scopes := butlast (scopes c) @ [last (scopes c) @ [sy]]\<rparr>)"
proof -
  have "concat (scopes c) = concat (butlast (scopes c)) @ last (scopes c)"
    using assms(2) by (metis append_butlast_last_id concat_append concat.simps append_Nil2)
  then show ?thesis using assms(1,3) unfolding ids_ok_def by (auto simp: less_Suc_eq)
qed

lemma valid_declareFunction:
  assumes "pinv s" "isFunction t"
  shows "valid (\<lambda>sy s'. sym_type sy = t \<and> below_kept s s') (declaring (declareFunction name t)) s"
proof (cases "scope_find (last (scopes (chk s))) name")
  case None
  let ?sy = "\<lparr>sym_id = next_id (chk s), sym_name = name, sym_type = t\<rparr>"
  let ?c = "(chk s)\<lparr>next_id := next_id (chk s) + 1, scopes := butlast (scopes (chk s)) @ [last (scopes (chk s)) @ [?sy]]\<rparr>"
  have ne: "scopes (chk s) \<noteq> []" using assms(1) by (simp add: pinv_def scopes_ok_def)
  have e: "declareFunction name t (chk s) = ([], ?sy, ?c)"
    using None by (simp add: declareFunction_def new_symbol_def insert_global_def scope_insert_def)
  have so: "scopes_ok (msgs s \<noteq> []) (scopes (chk s))" using assms(1) by (simp add: pinv_def)
  obtain xs g where sc: "scopes (chk s) = xs @ [g]" using ne by (metis append_butlast_last_id)
  have "scopes_ok (msgs s \<noteq> []) (scopes ?c)"
    using so None assms(2) unfolding scopes_ok_def scope_find_None by (auto simp: sc)
  moreover have "ids_ok ?c" using assms(1) ne by (intro ids_ok_global) (auto simp: pinv_def)
  ultimately have "pinv (s\<lparr>chk := ?c\<rparr>)" using assms(1) by (simp add: pinv_def tokens_ok_def)
  moreover have "step s (s\<lparr>chk := ?c\<rparr>)" using ne by (simp add: step_def)
  ultimately show ?thesis by (simp add: valid_def declaring_def e report_def below_kept_def)
next
  case (Some sy)
  then show ?thesis using pinv_report [OF assms(1), of "[Conflicting name]"] assms(1)
    by (auto simp: valid_def declaring_def declareFunction_def report_def below_kept_def step_def)
qed

lemma valid_from: "p s = q s1 \<Longrightarrow> step s s1 \<Longrightarrow> valid Q q s1 \<Longrightarrow> valid Q p s"
  using step_trans [of s s1] by (cases "q s1") (auto simp: valid_def step_def)

lemma valid_defineFunction:
  assumes "pinv s" "isFunction t"
  shows "valid (\<lambda>sy s'. sym_type sy = t \<and> below_kept s s') (declaring (defineFunction name t)) s"
proof -
  let ?s = "s\<lparr>chk := (chk s)\<lparr>defined := List.insert name (defined (chk s))\<rparr>\<rparr>"
  let ?ms = "if name \<in> set (defined (chk s)) then [Redefined name] else []"
  let ?s1 = "report ?ms ?s"
  have "pinv ?s" using assms(1) by (simp add: pinv_def ids_ok_def tokens_ok_def)
  from pinv_report [OF this, of ?ms] have p: "pinv ?s1" by blast
  have st: "step s ?s1" by (simp add: step_def report_def)
  have "declaring (defineFunction name t) s = declaring (declareFunction name t) ?s1"
    by (simp add: declaring_def defineFunction_def report_def Let_def split: prod.splits)
  moreover have "valid (\<lambda>sy s'. sym_type sy = t \<and> below_kept s s') (declaring (declareFunction name t)) ?s1"
    by (rule valid_conseq [OF valid_declareFunction [OF p assms(2)]]) (auto simp: below_kept_def report_def)
  ultimately show ?thesis using st valid_from by blast
qed

lemma valid_andthen_pair:
  assumes "valid (\<lambda>(a, b) s'. Q a b s') p s"
    and "\<And>a b s'. pinv s' \<Longrightarrow> step s s' \<Longrightarrow> (msgs s' = [] \<Longrightarrow> Q a b s') \<Longrightarrow> valid R (f a b) s'"
  shows "valid R (andthen p (\<lambda>(a, b). f a b)) s"
proof (rule valid_andthen [OF assms(1)])
  fix x s' assume "pinv s'" "step s s'" and q: "msgs s' = [] \<Longrightarrow> (case x of (a, b) \<Rightarrow> Q a b) s'"
  then show "valid R ((\<lambda>(a, b). f a b) x) s'" using assms(2) [of s' "fst x" "snd x"] by (cases x) auto
qed

subsection \<open>Functions\<close>

definition rest_ok :: "(symbol \<times> cstmt list) option \<Rightarrow> pstate \<Rightarrow> bool" where
  "rest_ok r s \<longleftrightarrow> loopDepth s = 0 \<and>
     (case r of
        None \<Rightarrow> True
      | Some (sy, ss) \<Rightarrow> scope_ok (hd (scopes (chk s))) \<longrightarrow> good_function (Function sy (hd (scopes (chk s))) ss))"

text \<open>
  The facts about the parameters, the declarations and the statements of a function make it
  a good one.
\<close>

lemma good_functionI:
  assumes p: "params_ok s0 ps s1" "hd (scopes (chk s0)) = []"
    and d: "hd (scopes (chk s2)) = hd (scopes (chk s1))" "grown s2 new s3" "pinv s3"
    and st: "stmts_ok s3 ss s4" "returnType s3 = ScalarType sp k" "loopDepth s3 = 0"
    and sy: "sym_type sy = FunctionType sp k v ps" and ok: "scope_ok (hd (scopes (chk s4)))"
  shows "good_function (Function sy (hd (scopes (chk s4))) ss)"
proof -
  obtain pd where pd: "map sym_type pd = ps" "hd (scopes (chk s1)) = pd" "list_all isScalar ps" using p by (auto simp: params_ok_def grown_def)
  have h: "hd (scopes (chk s4)) = pd @ new" "hd (scopes (chk s3)) = pd @ new" "scopes (chk s3) \<noteq> []"
    using d st(1) pd(2) by (auto simp: grown_def stmts_ok_def kept_def)
  have "length ps = length pd" using pd(1) by auto
  then have w: "wt_function (Function sy (hd (scopes (chk s4))) ss)"
    using sy ok st h(1) pd(1,3) by (auto simp: stmts_ok_def)
  have "ids_ok (chk s3)" using d(3) by (simp add: pinv_def)
  then have i: "distinct (map sym_id (pd @ new))" "\<forall>x \<in> set (pd @ new). sym_id x < next_id (chk s3)"
    using h(2,3) by (cases "scopes (chk s3)"; auto simp: ids_ok_def)+
  have f: "distinct (map sym_id (concat (map symbols_of ss)))" "\<forall>x \<in> set (concat (map symbols_of ss)). next_id (chk s3) \<le> sym_id x"
    using st(1) by (auto simp: stmts_ok_def kept_def fresh_ids_def)
  have "sym_id x \<noteq> sym_id y" if "x \<in> set (pd @ new)" "y \<in> set (concat (map symbols_of ss))" for x y
    using i(2) f(2) that by (metis leD)
  then have "distinct (map sym_id ((pd @ new) @ concat (map symbols_of ss)))"
    using i(1) f(1) unfolding map_append [of sym_id "pd @ new"] distinct_append by fastforce
  then show ?thesis using w h(1) by (simp add: good_function_def function_symbols_def)
qed

lemma valid_function_rest:
  assumes "local_scope s" "hd (scopes (chk s)) = []" "msgs s = [] \<Longrightarrow> loopDepth s = 0"
  shows "valid rest_ok (function_rest n sp k name) s"
  unfolding function_rest_def
proof (rule valid_andthen_pair [OF valid_parameters [OF assms(1)]], rule valid_matching, assumption, rule valid_look)
  fix v :: bool and ps s1 s2
  assume s1: "pinv s1" "step s s1" "msgs s1 = [] \<Longrightarrow> params_ok s ps s1"
    and s2: "pinv s2" "step s1 s2" "msgs s2 = [] \<Longrightarrow> ctx s2 = ctx s1"
  have l2: "local_scope s2" using assms(1) s1 s2 local_scope_step by blast
  have c2: "params_ok s ps s2" "loopDepth s2 = 0" if "msgs s2 = []"
  proof -
    have m: "msgs s1 = []" "msgs s = []" using that s1(2) s2(2) step_msgs by blast+
    show "params_ok s ps s2" using s1(3) s2(3) m that params_ok_ctx_right by auto
    then show "loopDepth s2 = 0" using assms(3) m(2) by (auto simp: params_ok_def grown_def)
  qed
  let ?t = "FunctionType sp k v ps"
  have decl: "valid rest_ok (andthen (declaring (declareFunction name ?t)) (\<lambda>_. ret None)) s2"
  proof (rule valid_andthen [OF valid_declareFunction [OF s2(1)]], simp, rule valid_ret, assumption)
    fix sy s3 assume "step s2 s3" "msgs s3 = [] \<Longrightarrow> sym_type sy = ?t \<and> below_kept s2 s3" "msgs s3 = []"
    then show "rest_ok None s3" using c2(2) step_msgs by (fastforce simp: rest_ok_def below_kept_def)
  qed
  let ?s2 = "s2\<lparr>returnType := ScalarType sp k\<rparr>"
  let ?body = "andthen (declaring (defineFunction name ?t)) (\<lambda>sy.
      matching T_LBRACE (andthen (declarations n) (\<lambda>_. andthen (statements n) (\<lambda>ss. ret (Some (sy, ss))))))"
  have p2: "pinv ?s2" "step s2 ?s2" using s2(1) by (auto simp: pinv_def tokens_ok_def step_def)
  have "valid rest_ok ?body ?s2"
  proof (rule valid_andthen [OF valid_defineFunction [OF p2(1)]], simp, rule valid_matching, assumption)
    fix sy :: symbol and s3 s4
    assume s3: "pinv s3" "step ?s2 s3" "msgs s3 = [] \<Longrightarrow> sym_type sy = ?t \<and> below_kept ?s2 s3"
      and s4: "pinv s4" "step s3 s4" "msgs s4 = [] \<Longrightarrow> ctx s4 = ctx s3"
    have l4: "local_scope s4" using l2 p2 s3(1,2) s4(1,2) local_scope_step by blast
    show "valid rest_ok (andthen (declarations n) (\<lambda>_. andthen (statements n) (\<lambda>ss. ret (Some (sy, ss))))) s4"
    proof (rule valid_andthen [OF valid_declarations [OF l4]], rule valid_andthen [OF valid_statement(2)])
      fix s5 assume s5: "pinv s5" "step s4 s5" "msgs s5 = [] \<Longrightarrow> \<exists>new. grown s4 new s5"
      show "local_scope s5" using l4 s5 local_scope_step by blast
      fix ss s6 assume s6: "pinv s6" "step s5 s6" "msgs s6 = [] \<Longrightarrow> stmts_ok s5 ss s6"
      show "valid rest_ok (ret (Some (sy, ss))) s6"
      proof (rule valid_ret [OF s6(1)])
        assume m6: "msgs s6 = []"
        then have m: "msgs s5 = []" "msgs s4 = []" "msgs s3 = []" "msgs s2 = []"
          using s6(2) s5(2) s4(2) s3(2) p2(2) step_msgs by blast+
        have "below_kept ?s2 s3" "sym_type sy = ?t" using s3(3) m(3) by auto
        then have b: "butlast (scopes (chk s4)) = butlast (scopes (chk s2))" "returnType s4 = ScalarType sp k" "loopDepth s4 = 0"
          using s4(3) m c2(2) by (auto simp: below_kept_def ctx_def)
        have hb: "hd (butlast xs) = hd xs" if "2 \<le> length xs" for xs :: "scope list"
          using that by (cases xs; cases "tl xs") auto
        have hd4: "hd (scopes (chk s4)) = hd (scopes (chk s2))"
          using b(1) hb [of "scopes (chk s4)"] hb [of "scopes (chk s2)"] l2 l4 by (auto simp: local_scope_def)
        obtain new where g: "grown s4 new s5" using s5(3) m(1) by blast
        have r: "returnType s5 = ScalarType sp k" "loopDepth s5 = 0" using g b by (auto simp: grown_def)
        have "loopDepth s6 = 0" using s6(3) m6 r(2) by (auto simp: stmts_ok_def kept_def)
        then show "rest_ok (Some (sy, ss)) s6"
          using good_functionI [OF c2(1) [OF m(4)] assms(2) hd4 g s5(1) s6(3) [OF m6] r \<open>sym_type sy = ?t\<close>]
          by (simp add: rest_ok_def)
      qed
    qed
  qed
  then have def: "valid rest_ok (andthen (\<lambda>s. Ok () (s\<lparr>returnType := ScalarType sp k\<rparr>)) (\<lambda>_. ?body)) s2"
    by (rule valid_from [OF _ p2(2), rotated]) (simp add: andthen_def)
  show "valid rest_ok (if lookahead s2 = T_LBRACE then andthen (\<lambda>s. Ok () (s\<lparr>returnType := ScalarType sp k\<rparr>)) (\<lambda>_. ?body)
      else andthen (declaring (declareFunction name ?t)) (\<lambda>_. ret None)) s2"
    using decl def by simp
qed

subsection \<open>Translation units\<close>

text \<open>At the top level the loop depth is 0 as long as nothing has been reported.\<close>

abbreviation top :: "'a \<Rightarrow> pstate \<Rightarrow> bool" where
  "top \<equiv> (\<lambda>_ s. loopDepth s = 0)"

definition at_top :: "pstate \<Rightarrow> bool" where
  "at_top s \<longleftrightarrow> pinv s \<and> (msgs s = [] \<longrightarrow> loopDepth s = 0)"

lemma at_topD: "at_top s \<Longrightarrow> pinv s" "at_top s \<Longrightarrow> scopes (chk s) \<noteq> []"
  by (auto simp: at_top_def pinv_def scopes_ok_def)

lemma top_then:
  assumes "at_top s" "valid (\<lambda>_ s'. ctx s' = ctx s) p s" "\<And>a s'. at_top s' \<Longrightarrow> valid top (f a) s'"
  shows "valid top (andthen p f) s"
proof (rule valid_andthen [OF assms(2)])
  fix a s1 assume "pinv s1" "step s s1" "msgs s1 = [] \<Longrightarrow> ctx s1 = ctx s"
  then have "at_top s1" using assms(1) step_msgs by (auto simp: at_top_def ctx_def)
  then show "valid top (f a) s1" by (rule assms(3))
qed

lemma top_seq:
  assumes "valid top p s" "\<And>a s'. at_top s' \<Longrightarrow> valid R (f a) s'"
  shows "valid R (andthen p f) s"
  by (rule valid_andthen [OF assms(1)]) (auto intro: assms(2) simp: at_top_def)

lemma top_matching: "at_top s \<Longrightarrow> (\<And>s'. at_top s' \<Longrightarrow> valid top p s') \<Longrightarrow> valid top (matching t p) s"
  unfolding matching_def by (rule top_then) (auto intro: valid_match at_topD)

lemma top_match: "at_top s \<Longrightarrow> valid top (match t) s"
  by (rule valid_conseq [OF valid_match]) (auto simp: at_top_def ctx_def)

lemma top_ret: "at_top s \<Longrightarrow> valid top (ret a) s"
  by (rule valid_ret) (auto simp: at_top_def)

lemma top_declaring: "at_top s \<Longrightarrow> valid Q (declaring f) s \<Longrightarrow> valid top (declaring f) s"
  by (auto simp: at_top_def valid_def declaring_def report_def split: prod.splits)

lemma top_declareVariable: "at_top s \<Longrightarrow> object_type t \<Longrightarrow> valid top (declaring (declareVariable name t)) s"
  by (rule top_declaring, assumption, rule valid_declareVariable) (auto intro: at_topD)

lemma open_local: "at_top s \<Longrightarrow> local_scope (s\<lparr>chk := openScope (chk s)\<rparr>) \<and> hd (scopes (chk (s\<lparr>chk := openScope (chk s)\<rparr>))) = []"
  using pinv_open [of s] at_topD(2) [of s] by (cases "scopes (chk s)") (auto simp: at_top_def local_scope_def openScope_def)

lemma valid_globalDeclarator: "at_top s \<Longrightarrow> valid top (globalDeclarator n sp) s"
proof -
  assume s: "at_top s"
  have proto: "valid top (matching T_LPAREN (andthen
        (in_new_scope (andthen (parameters n) (\<lambda>(v, ps). declaring (declareFunction name (FunctionType sp k v ps))))) (\<lambda>_. match T_RPAREN))) s'"
    if "at_top s'" for s' k name
  proof (rule top_matching [OF that], rule top_seq)
    fix s1 assume s1: "at_top s1"
    let ?s = "s1\<lparr>chk := openScope (chk s1)\<rparr>"
    let ?p = "andthen (parameters n) (\<lambda>(v, ps). declaring (declareFunction name (FunctionType sp k v ps)))"
    have l: "local_scope ?s" using open_local [OF s1] by blast
    have "valid top ?p ?s"
    proof (rule valid_andthen_pair [OF valid_parameters [OF l]])
      fix v :: bool and ps s2
      assume s2: "pinv s2" "step ?s s2" "msgs s2 = [] \<Longrightarrow> params_ok ?s ps s2"
      have "msgs s2 = [] \<Longrightarrow> loopDepth s2 = 0"
        using s2(2,3) s1 step_msgs [OF s2(2)] by (auto simp: params_ok_def grown_def at_top_def)
      then have "at_top s2" using s2(1) by (simp add: at_top_def)
      then show "valid top (declaring (declareFunction name (FunctionType sp k v ps))) s2"
        by (rule top_declaring) (rule valid_declareFunction [OF s2(1)], simp)
    qed
    then show "valid top (in_new_scope ?p) s1"
      by (rule valid_conseq [OF valid_in_new_scope [OF _ at_topD(2) [OF s1]]]) auto
  qed (auto intro: top_match)
  show ?thesis unfolding globalDeclarator_def
    by (rule top_then [OF s valid_pointers [OF at_topD(1) [OF s]]], rule top_then, assumption, rule valid_ident_name, erule at_topD, rule valid_look)
      (auto intro!: proto top_matching top_then [OF _ valid_number] top_seq [OF top_declareVariable] top_match top_ret at_topD)
qed

lemma valid_global_list: "at_top s \<Longrightarrow> valid top (global_declarator_list n sp) s"
proof (induction n arbitrary: s)
  case (Suc n)
  then show ?case unfolding loop_simps
    by (intro valid_look) (auto intro!: top_matching top_seq [OF valid_globalDeclarator] top_ret)
qed (simp add: valid_def)

lemma valid_generating:
  assumes "at_top s" "msgs s = [] \<Longrightarrow> good_function fn"
  shows "valid top (generating fn) s"
proof -
  have "pinv (s\<lparr>generated := fs, generator := g, asm_out := o'\<rparr>) = pinv s" for fs g o' by (simp add: pinv_def tokens_ok_def)
  then show ?thesis using assms by (auto simp: valid_def generating_def Let_def at_top_def step_def stopped_def split: option.splits)
qed

lemma valid_function_scope:
  assumes "at_top s"
  shows "valid (\<lambda>(decls, r) s'. loopDepth s' = 0 \<and> (case r of None \<Rightarrow> True | Some (sy, ss) \<Rightarrow> good_function (Function sy decls ss)))
    (in_new_scope (function_rest n sp k name)) s"
proof -
  let ?s = "s\<lparr>chk := openScope (chk s)\<rparr>"
  have "valid rest_ok (function_rest n sp k name) ?s"
    using open_local [OF assms] assms by (intro valid_function_rest) (auto simp: at_top_def)
  from valid_in_new_scope [OF this at_topD(2) [OF assms]] show ?thesis
    by (rule valid_conseq) (auto simp: rest_ok_def split: option.splits)
qed

lemma valid_functionOrGlobal: "at_top s \<Longrightarrow> valid top (functionOrGlobal n) s"
proof -
  assume s: "at_top s"
  have tail: "valid top (andthen (global_declarator_list n sp) (\<lambda>_. match T_SEMI)) s'" if "at_top s'" for s' sp
    by (rule top_seq [OF valid_global_list [OF that]]) (rule top_match)
  have fn: "valid top (matching T_LPAREN (andthen (in_new_scope (function_rest n sp k name)) (\<lambda>(decls, r).
           case r of
             Some (sy, ss) \<Rightarrow> matching T_RBRACE (generating (Function sy decls ss))
           | None \<Rightarrow> andthen (global_declarator_list n sp) (\<lambda>_. match T_SEMI)))) s'" if "at_top s'" for s' sp k name
  proof (rule top_matching [OF that], rule valid_andthen_pair [OF valid_function_scope], assumption)
    fix decls r s1
    assume s1: "pinv s1" "msgs s1 = [] \<Longrightarrow> loopDepth s1 = 0 \<and>
        (case r of None \<Rightarrow> True | Some (sy, ss) \<Rightarrow> good_function (Function sy decls ss))"
    have t1: "at_top s1" using s1 by (auto simp: at_top_def)
    show "valid top (case r of Some (sy, ss) \<Rightarrow> matching T_RBRACE (generating (Function sy decls ss))
           | None \<Rightarrow> andthen (global_declarator_list n sp) (\<lambda>_. match T_SEMI)) s1"
    proof (cases r)
      case None
      then show ?thesis using tail [OF t1] by simp
    next
      case (Some x)
      obtain sy ss where x: "x = (sy, ss)" by fastforce
      have "valid top (matching T_RBRACE (generating (Function sy decls ss))) s1"
      proof (rule valid_matching [OF s1(1)], rule valid_generating)
        fix s2 assume s2: "pinv s2" "step s1 s2" "msgs s2 = [] \<Longrightarrow> ctx s2 = ctx s1"
        show "at_top s2" using t1 s2 step_msgs [OF s2(2)] by (auto simp: at_top_def ctx_def)
        show "msgs s2 = [] \<Longrightarrow> good_function (Function sy decls ss)" using s1(2) step_msgs [OF s2(2)] Some x by auto
      qed
      then show ?thesis using Some x by simp
    qed
  qed
  show ?thesis unfolding functionOrGlobal_def
    by (rule top_then [OF s valid_specifier [OF at_topD(1) [OF s]]], rule top_then, assumption, rule valid_pointers, erule at_topD,
        rule top_then, assumption, rule valid_ident_name, erule at_topD, rule valid_look)
      (auto intro!: fn tail top_matching top_then [OF _ valid_number] top_seq [OF top_declareVariable] at_topD)
qed

lemma valid_translation_unit: "at_top s \<Longrightarrow> valid top (translation_unit n) s"
proof (induction n arbitrary: s)
  case (Suc n)
  then show ?case unfolding loop_simps
    by (intro valid_look) (auto intro!: top_seq [OF valid_functionOrGlobal] top_ret)
qed (simp add: valid_def)

end
