(* ===== verification/CcMain.thy ===== *)
theory CcMain
  imports CcProgram
begin

text \<open>
  The host Tiny C compiler as a whole: the code generator succeeds on every function within the
  limits it documents, so the compiler only stops before the end of its input after a report or
  on a function beyond those limits, and none of the assertions behind the code generator and
  the emission of the globals can fail for any other reason.
\<close>

subsection \<open>What the code generator supports\<close>

text \<open>
  Calls with at most eight arguments, and no function name used as a value: the checker lets
  the statement \<open>f;\<close> pass, but the generator asks for the size of its type.
\<close>

fun supported :: "cexpr \<Rightarrow> bool" where
  "supported (StringLit _) = True"
| "supported (Identifier sy) = (\<not> isFunction (sym_type sy))"
| "supported (Number _ _) = True"
| "supported (Call _ args _) = (length args \<le> NUM_PARAM_REGS \<and> list_all supported args)"
| "supported (NotE e _) = supported e"
| "supported (Negate e _) = supported e"
| "supported (Dereference e _) = supported e"
| "supported (Address e _) = supported e"
| "supported (Cast e _) = supported e"
| "supported (Binary _ l r _) = (supported l \<and> supported r)"

fun supported_stmt :: "cstmt \<Rightarrow> bool" where
  "supported_stmt (Assignment l r) = (supported l \<and> supported r)"
| "supported_stmt Break = True"
| "supported_stmt (Return e) = supported e"
| "supported_stmt (Block _ ss) = list_all supported_stmt ss"
| "supported_stmt (While e s) = (supported e \<and> supported_stmt s)"
| "supported_stmt (For i e c s) = (supported_stmt i \<and> supported e \<and> supported_stmt c \<and> supported_stmt s)"
| "supported_stmt (If e s els) = (supported e \<and> supported_stmt s \<and> (case els of None \<Rightarrow> True | Some s' \<Rightarrow> supported_stmt s'))"
| "supported_stmt (Simple e) = supported e"

text \<open>At most eight parameters, and a frame whose size fits the \<open>int\<close> offsets.\<close>

definition supported_function :: "cfunction \<Rightarrow> bool" where
  "supported_function fn \<longleftrightarrow>
     room (function_symbols fn) \<le> 2147483632 \<and>
     (case fn of Function f decls body \<Rightarrow> length (param_types f) \<le> NUM_PARAM_REGS \<and> list_all supported_stmt body)"

subsection \<open>The generator on supported code\<close>

lemma type_size_Some: "object_type t \<Longrightarrow> \<exists>n. type_size t = Some n"
  by (cases t) (auto simp: object_type_def)

lemma wt_object: "wt e \<Longrightarrow> supported e \<Longrightarrow> object_type (type_of e)"
  using wt_scalar [of e] by (auto simp: object_type_def)

lemma isArray_decay [simp]: "\<not> isArray (decay_type t)"
  by (cases t) auto

lemma array_not_scalar: "isArray t \<Longrightarrow> isScalar t \<Longrightarrow> False"
  by (cases t) auto

lemma array_place: "wt e \<Longrightarrow> isArray (type_of e) \<Longrightarrow> (\<exists>sy. e = Identifier sy) \<or> (\<exists>v. e = StringLit v)"
proof (cases e)
  case (Call f args t)
  then show "wt e \<Longrightarrow> isArray (type_of e) \<Longrightarrow> ?thesis" by (cases "sym_type f") auto
qed (auto simp: isNumeric_scalar
      dest: dereference_scalar castable_scalar binary_type_scalar isPointer_scalar array_not_scalar)

lemma generate_some:
  "wt e \<Longrightarrow> supported e \<Longrightarrow> \<exists>c g'. generate offs e g = Some (c, g')"
  "wt e \<Longrightarrow> supported e \<Longrightarrow> lvalue e \<or> isArray (type_of e) \<Longrightarrow> \<exists>c g'. emit_lvalue_address offs e g = Some (c, g')"
  "list_all wt es \<Longrightarrow> list_all supported es \<Longrightarrow> \<exists>c g'. push_args offs es g = Some (c, g')"
proof (induction offs e g and offs e g and offs es g rule: generate_emit_lvalue_address_push_args.induct)
  case (2 offs sy g)
  then show ?case using type_size_Some [of "sym_type sy"] wt_object [of "Identifier sy"]
    by (auto simp: emit_load_symbol_def emit_load_from_address_def)
next
  case (7 offs e t g)
  moreover have "object_type t" using "7.prems" dereference_scalar by (auto simp: object_type_def)
  ultimately show ?case using type_size_Some [of t] by (fastforce simp: emit_load_from_address_def)
next
  case (8 offs e t g)
  then show ?case by auto
next
  case (9 offs e t g)
  moreover have "object_type t" using "9.prems" castable_scalar by (auto simp: object_type_def)
  ultimately show ?case using type_size_Some [of t] by (fastforce simp: emit_cast_def)
next
  case (10 offs op l r t g)
  then show ?case by (fastforce simp: Let_def split: prod.splits)
qed (fastforce dest: array_place simp: gen_string_def)+

lemma gen_test_some: "test_ok e \<Longrightarrow> supported e \<Longrightarrow> \<exists>c g'. gen_test offs e l b g = Some (c, g')"
  using generate_some(1) [of e offs g] by (auto simp: gen_test_def test_ok_def)

definition yields :: "(line list \<times> gstate) option \<Rightarrow> bool" where
  "yields m \<longleftrightarrow> (\<exists>c g. m = Some (c, g))"

lemma yields_simps [simp]: "yields (Some (c, g))" "yields m \<Longrightarrow> m \<noteq> None"
  by (auto simp: yields_def)

lemma yields_bind: "yields m \<Longrightarrow> (\<And>c g. yields (f (c, g))) \<Longrightarrow> yields (m \<bind> f)"
  by (auto simp: yields_def)

lemma gen_stmts_yields:
  "(\<And>s g. s \<in> set ss \<Longrightarrow> yields (gen_stmt offs fn brk s g)) \<Longrightarrow> yields (gen_stmts offs fn brk ss g)"
  by (induction ss arbitrary: g) (auto intro!: yields_bind)

lemma gen_stmt_yields:
  "wt_stmt t d s \<Longrightarrow> supported_stmt s \<Longrightarrow> d \<le> length brk \<Longrightarrow> yields (gen_stmt offs fn brk s g)"
proof (induction s arbitrary: d brk g)
  case (Assignment l r)
  have "object_type (type_of l)" using Assignment wt_object by auto
  then obtain n where "type_size (type_of l) = Some n" using type_size_Some by blast
  then show ?case using Assignment generate_some(1) [of r] generate_some(2) [of l]
    by (auto simp: emit_store_to_address_def yields_def intro!: yields_bind [unfolded yields_def])
next
  case Break
  then show ?case by (cases brk) auto
next
  case (Return e)
  then show ?case using generate_some(1) [of e] by (auto simp: yields_def [of "generate _ _ _"] intro!: yields_bind)
next
  case (Block sc ss)
  then show ?case by (auto intro!: gen_stmts_yields simp: list_all_iff)
next
  case (While e s)
  then show ?case using gen_test_some [of e] by (auto simp: Let_def yields_def [of "gen_test _ _ _ _ _"] intro!: yields_bind split: prod.splits)
next
  case (For i e c s)
  then show ?case using gen_test_some [of e]
    by (auto simp: Let_def yields_def [of "gen_test _ _ _ _ _"] intro!: yields_bind split: prod.splits)
next
  case (If e s els)
  then show ?case using gen_test_some [of e]
    by (auto simp: Let_def yields_def [of "gen_test _ _ _ _ _"] intro!: yields_bind split: prod.splits option.splits)
next
  case (Simple e)
  then show ?case using generate_some(1) [of e] by (simp add: yields_def)
qed

subsection \<open>Functions\<close>

lemma wt_stmt_symbols: "wt_stmt t d s \<Longrightarrow> list_all (object_type \<circ> sym_type) (symbols_of s)"
proof (induction s arbitrary: d)
  case (Block sc ss)
  then show ?case by (fastforce simp: list_all_iff scope_ok_def)
qed (auto split: option.splits)

lemma good_allocatable: "good_function fn \<Longrightarrow> supported_function fn \<Longrightarrow> allocatable fn"
proof (cases fn)
  case (Function f decls body)
  assume g: "good_function fn" and s: "supported_function fn"
  have w: "wt_function (Function f decls body)" using g Function by (simp add: good_function_def)
  then obtain sp k v ps where f: "sym_type f = FunctionType sp k v ps" by (auto split: ctype.splits)
  have "list_all (object_type \<circ> sym_type) (symbols_of st)" if "st \<in> set body" for st
    using w f that wt_stmt_symbols by (auto simp: list_all_iff)
  then have "list_all (object_type \<circ> sym_type) (function_symbols fn)"
    using w f by (auto simp: Function function_symbols_def scope_ok_def list_all_iff)
  then show ?thesis using g s w f Function
    by (auto simp: allocatable_def good_function_def supported_function_def param_types_def)
qed

lemma zip_take_left: "zip xs ys = zip (take (length ys) xs) ys"
  by (induction xs ys rule: list_induct2') auto

lemma store_params_some:
  "\<forall>(sy, t) \<in> set ps. offs (sym_id sy) \<noteq> 0 \<and> object_type t \<Longrightarrow> \<exists>c. store_params offs i ps = Some c"
proof (induction ps arbitrary: i)
  case (Cons p ps)
  obtain sy t where p: "p = (sy, t)" by fastforce
  obtain n where "type_size t = Some n" using Cons.prems p type_size_Some by auto
  moreover obtain c where "store_params offs (i + 1) ps = Some c" using Cons by fastforce
  ultimately show ?case using Cons.prems p by simp
qed simp

text \<open>
  A well-typed function within the documented limits gets its code: no assertion of the
  compiler fails on it and none of the failure exits of the generator is taken.
\<close>

theorem generate_function_total:
  assumes "good_function fn" "supported_function fn"
  shows "\<exists>c g'. generate_function fn g = Some (c, g')"
proof (cases fn)
  case (Function f decls body)
  obtain offs off where a: "allocate_function fn (\<lambda>_. 0, 0) = (offs, off)" by fastforce
  have al: "allocatable fn" using assms by (rule good_allocatable)
  have sl: "slot_in offs off 0 sy" if "sy \<in> set (function_symbols fn)" for sy
    using allocate_function_sound [OF al, of "\<lambda>_. 0"] a that by simp
  have ps: "length (param_types f) \<le> NUM_PARAM_REGS" "length (param_types f) \<le> length decls"
    "map sym_type (take (length (param_types f)) decls) = param_types f" "list_all isScalar (param_types f)"
    using al Function by (simp_all add: allocatable_def)
  have "offs (sym_id sy) \<noteq> 0 \<and> object_type t" if "(sy, t) \<in> set (zip decls (param_types f))" for sy t
  proof -
    have z: "zip decls (param_types f) = zip (take (length (param_types f)) decls) (map sym_type (take (length (param_types f)) decls))"
      unfolding ps(3) by (rule zip_take_left)
    have t: "t = sym_type sy" "sy \<in> set decls"
      using that z by (auto simp: zip_map2 zip_same_conv_map dest: in_set_takeD)
    have "isScalar t" using ps(4) set_zip_rightD [OF that] by (simp add: list_all_iff)
    have "slot_in offs off 0 sy" using sl t(2) by (auto simp: Function function_symbols_def)
    then show ?thesis using scalar_size_pos [of sy] t \<open>isScalar t\<close> by (auto simp: slot_in_def object_type_def)
  qed
  then obtain st where st: "store_params offs 0 (zip decls (param_types f)) = Some st"
    using store_params_some [of "zip decls (param_types f)" offs 0] by blast
  have "wt_function (Function f decls body)" using assms(1) Function by (simp add: good_function_def)
  then obtain t where "list_all (wt_stmt t 0) body" by (auto split: ctype.splits)
  then have "yields (gen_stmts offs (sym_name f) [] body g)" using assms(2) Function
    by (intro gen_stmts_yields gen_stmt_yields [of t 0]) (auto simp: supported_function_def list_all_iff)
  then show ?thesis using ps(1) a st unfolding Function by (auto simp: Let_def yields_def)
qed

subsection \<open>The compiler\<close>

lemma initial_top: "at_top (initial toks oc)"
  by (simp add: at_top_def pinv_def initial_def openScope_def scopes_ok_def ids_ok_def tokens_ok_def)

lemma advanced_top: "at_top s \<Longrightarrow> at_top (advance s)"
  using advance_ok [of s] step_msgs [of s "advance s"] by (auto simp: at_top_def ctx_def)

lemma comm_lines_some: "\<forall>sy \<in> set sc. object_type (sym_type sy) \<or> isFunction (sym_type sy) \<Longrightarrow> \<exists>c. comm_lines sc = Some c"
proof (induction sc)
  case (Cons sy sc)
  obtain c where c: "comm_lines sc = Some c" using Cons by auto
  show ?case
  proof (cases "isFunction (sym_type sy)")
    case False
    then have "object_type (sym_type sy)" using Cons.prems by auto
    then show ?thesis using False c by (cases "sym_type sy") (auto simp: object_type_def)
  qed (use c in simp)
qed simp

text \<open>The state in which the compiler ends has only good functions; it ends early for a reason.\<close>

lemma cc_main_cases:
  "case cc_main n toks oc of
     Ok _ s \<Rightarrow> list_all good_function (generated s)
   | Exit s \<Rightarrow> list_all good_function (generated s) \<and> stopped s
   | _ \<Rightarrow> True"
proof -
  let ?s = "advance (initial toks oc)"
  have v: "valid top (translation_unit n) ?s" by (rule valid_translation_unit [OF advanced_top [OF initial_top]])
  have g: "list_all good_function (generated ?s)" "length (scopes (chk ?s)) = 1"
    using advance_ok [of "initial toks oc"] initial_top [of toks oc]
    by (auto simp: step_def at_top_def initial_def openScope_def)
  show ?thesis
  proof (cases "translation_unit n ?s")
    case (Ok a s)
    then have s: "pinv s" "list_all good_function (generated s)" "length (scopes (chk s)) = 1"
      using v g by (auto simp: valid_def step_def)
    then obtain sc where sc: "scopes (chk s) = [sc]" by (cases "scopes (chk s)") auto
    then obtain c where "comm_lines sc = Some c" using s(1) comm_lines_some [of sc] by (auto simp: pinv_def scopes_ok_def)
    then show ?thesis using Ok sc s(2) by (simp add: cc_main_def andthen_def closeScope_def generateGlobals_def)
  next
    case (Exit s)
    then show ?thesis using v g by (simp add: cc_main_def andthen_def valid_def)
  qed (simp_all add: cc_main_def andthen_def)
qed

text \<open>
  C32: Every function that reaches the code generator, on any input at all, is well typed, has its
  parameters first among its declarations, and has distinct symbol objects throughout.
\<close>

theorem front_end_sound:
  "case cc_main n toks oc of
     Ok _ s \<Rightarrow> list_all good_function (generated s)
   | Exit s \<Rightarrow> list_all good_function (generated s)
   | _ \<Rightarrow> True"
  using cc_main_cases [of n toks oc] by (auto split: outcome.splits)

end
