(* ===== verification/CcExample.thy ===== *)
theory CcExample
  imports CcMain
begin

text \<open>
  Three programs run through the model of the host Tiny C compiler by evaluation: one that it
  compiles, one on which the checker loops for ever, and one that passes the checker and fails
  an assertion in the code generator.
\<close>

subsection \<open>Programs\<close>

text \<open>\<open>int f(int x, int y) { while (x) x = x - y; return x; }\<close>\<close>

definition loop_tokens :: "(int \<times> string) list" where
  "loop_tokens =
     [(T_INT, ''int''), (T_ID, ''f''), (T_LPAREN, ''(''), (T_INT, ''int''), (T_ID, ''x''), (T_COMMA, '',''), (T_INT, ''int''), (T_ID, ''y''),
      (T_RPAREN, '')''), (T_LBRACE, ''{''),
      (T_WHILE, ''while''), (T_LPAREN, ''(''), (T_ID, ''x''), (T_RPAREN, '')''),
      (T_ID, ''x''), (T_ASSIGN, ''=''), (T_ID, ''x''), (T_MINUS, ''-''), (T_ID, ''y''), (T_SEMI, '';''),
      (T_RETURN, ''return''), (T_ID, ''x''), (T_SEMI, '';''), (T_RBRACE, ''}'')]"

definition loop_function :: cfunction where
  "loop_function =
     (let x = \<lparr>sym_id = 0, sym_name = ''x'', sym_type = integer\<rparr>; y = \<lparr>sym_id = 1, sym_name = ''y'', sym_type = integer\<rparr>
      in Function \<lparr>sym_id = 2, sym_name = ''f'', sym_type = FunctionType SpecInt 0 False [integer, integer]\<rparr> [x, y]
           [While (Identifier x) (Assignment (Identifier x) (Binary Subtract (Identifier x) (Identifier y) integer)),
            Return (Identifier x)])"

text \<open>\<open>int f(char *s, ...); int main(void) { f("", x); }\<close>, with \<open>x\<close> undeclared\<close>

definition hang_tokens :: "(int \<times> string) list" where
  "hang_tokens =
     [(T_INT, ''int''), (T_ID, ''f''), (T_LPAREN, ''(''), (T_CHAR, ''char''), (T_STAR, ''*''), (T_ID, ''s''),
      (T_COMMA, '',''), (T_ELLIPSIS, ''...''), (T_RPAREN, '')''), (T_SEMI, '';''),
      (T_INT, ''int''), (T_ID, ''main''), (T_LPAREN, ''(''), (T_VOID, ''void''), (T_RPAREN, '')''), (T_LBRACE, ''{''),
      (T_ID, ''f''), (T_LPAREN, ''(''), (T_STRING, [CHR 0x22, CHR 0x22]), (T_COMMA, '',''), (T_ID, ''x''), (T_RPAREN, '')''),
      (T_SEMI, '';''), (T_RBRACE, ''}'')]"

text \<open>\<open>int f(void) { f; }\<close>\<close>

definition name_tokens :: "(int \<times> string) list" where
  "name_tokens =
     [(T_INT, ''int''), (T_ID, ''f''), (T_LPAREN, ''(''), (T_VOID, ''void''), (T_RPAREN, '')''), (T_LBRACE, ''{''),
      (T_ID, ''f''), (T_SEMI, '';''), (T_RBRACE, ''}'')]"

subsection \<open>Evaluation\<close>

lemma run_basic: "andthen p f s = (case p s of Ok a s' \<Rightarrow> f a s' | Exit s' \<Rightarrow> Exit s' | Hang \<Rightarrow> Hang | OutOfFuel \<Rightarrow> OutOfFuel)"
  "ret a s = Ok a s" "look g s = g (lookahead s) s" "matching t q s = (case match t s of Ok a s' \<Rightarrow> q s' | Exit s' \<Rightarrow> Exit s' | Hang \<Rightarrow> Hang | OutOfFuel \<Rightarrow> OutOfFuel)"
  by (simp_all add: andthen_def ret_def look_def matching_def)

lemma run_expr:
  "parse_nonterm (Suc n) (BinaryExpr k) s = binary_expression (parse_nonterm n) k s"
  "parse_nonterm (Suc n) (BinaryLoop k l) s = binary_loop (parse_nonterm n) k l s"
  "parse_nonterm (Suc n) PrefixExpr s = prefixExpression n (parse_nonterm n) s"
  "parse_nonterm (Suc n) PostfixExpr s = postfixExpression (parse_nonterm n) s"
  "parse_nonterm (Suc n) (PostfixLoop l) s = postfix_loop (parse_nonterm n) l s"
  "parse_nonterm (Suc n) PrimaryExpr s = primaryExpression (parse_nonterm n) s"
  "parse_nonterm (Suc n) (ArgList sy args) s = argument_list (parse_nonterm n) sy args s"
  by simp_all

lemma run_stmt: "one_statement (Suc n) s = statement_body n (one_statement n) (statements n) s"
  "statements (Suc n) s = statements_body (one_statement n) (statements n) s"
  by simp_all

lemmas run_defs = fun_cong [OF binary_expression_def] fun_cong [OF binary_loop_def] fun_cong [OF prefixExpression_def]
  fun_cong [OF sizeof_type_def] fun_cong [OF cast_expression_def] fun_cong [OF postfixExpression_def] fun_cong [OF postfix_loop_def]
  fun_cong [OF call_end_def] fun_cong [OF argument_list_def] primaryExpression_def
  fun_cong [OF expression_def] fun_cong [OF assignment_def] fun_cong [OF test_def] fun_cong [OF statement_body_def]
  fun_cong [OF statements_body_def] fun_cong [OF parameter_def] fun_cong [OF parameters_def] fun_cong [OF globalDeclarator_def]
  fun_cong [OF function_rest_def] fun_cong [OF functionOrGlobal_def] fun_cong [OF declarator_def] fun_cong [OF local_declaration_def]
  fun_cong [OF specifier_def] fun_cong [OF type_in_parens_def] number_def ident_name_def match_def advance_def peek_def yylex_def
  error_def report_def checked_by_def calling_def declaring_def in_new_scope_def in_loop_def generating_def
  isSpecifier_def level_op_def multiplicative_op_def additive_op_def relational_op_def equality_op_def logical_and_op_def logical_or_op_def
  operand_of_def openScope_def closeScope_def declareFunction_def defineFunction_def declareVariable_def checkIdentifier_def
  new_symbol_def insert_current_def insert_global_def scope_find_def scope_insert_def checkInt_def checkString_def checkChar_def

lemmas run_check = checkSubtract_def checkTest_def checkAssignment_def checkReturn_def Let_def usual_def promote_def decay_def extend_to_def
 checkCall_def isCompatibleWith_def cast_def unquote_def

lemmas run_gen = Let_def emit_load_symbol_def emit_load_from_address_def emit_store_to_address_def emit_symbol_address_def
 emit_local_address_def gen_test_def test_lines_def new_label_def param_types_def allocate_symbol_def place_def
 align_down_def sp_lines_def align_to_def signed_modulo_int_def sgn_if

definition loop_code :: "line list" where
  "loop_code =
     [Directive TextSection, Directive AlignLine, Directive (GlobalLine ''f''), Directive (FunctionLabel ''f''),
      Frame StpFrame, Frame MovFpSp, Frame (SubSp 16), Frame (StoreParam AccWord 0 (- 4)), Frame (StoreParam AccWord 1 (- 8)),
      LabelLine (Lbl 0), SubFp 4, Load AccWord, CmpX0Zero, BCond EQ (Lbl 1),
      SubFp 4, Load AccWord, StrPush 0, SubFp 8, Load AccWord, LdrPop 1, Arith SubX,
      StrPush 0, SubFp 4, MovX1X0, LdrPop 0, Store AccWord, Branch (Lbl 0), LabelLine (Lbl 1),
      SubFp 4, Load AccWord, Branch (ExitOf ''f''), LabelLine (ExitOf ''f''), Frame (AddSp 16), Frame LdpFrame, Frame Ret]"

lemma loop_function_code:
  "generate_function loop_function \<lparr>label_counter = 0, string_table = []\<rparr> = Some (loop_code, \<lparr>label_counter = 2, string_table = []\<rparr>)"
  by (simp add: loop_function_def loop_code_def run_gen)

lemmas run_program = run_basic run_expr run_stmt run_defs run_check eval_nat_numeral parseString.simps

text \<open>The first program is compiled to the expected code.\<close>

theorem loop_program_compiled:
  "case cc_main 325 loop_tokens False of
     Ok _ s \<Rightarrow> msgs s = [] \<and> generated s = [loop_function] \<and> asm_out s = loop_code
   | _ \<Rightarrow> False"
  unfolding cc_main_def loop_tokens_def initial_def
  using loop_function_code
  by (simp add: run_program generateGlobals_def string_lines_def loop_function_def del: parse_nonterm.simps statement_simps generate_function.simps)

text \<open>On the second program the compiler never ends.\<close>

theorem undeclared_variadic_hangs: "cc_main 325 hang_tokens False = Hang"
  unfolding cc_main_def hang_tokens_def initial_def
  by (simp add: run_program del: parse_nonterm.simps statement_simps)

text \<open>The third passes the checker, and the code generator fails on it.\<close>

lemma name_program_fails: "\<exists>s. cc_main 130 name_tokens False = Exit s \<and> msgs s = []"
  unfolding cc_main_def name_tokens_def initial_def
  by (simp add: run_program emit_load_symbol_def emit_load_from_address_def param_types_def del: parse_nonterm.simps statement_simps)

subsection \<open>The whole compiler\<close>





end
