(* ===== verification/Spec2Isabelle.thy ===== *)
theory Spec2Isabelle
  imports KString Alloc Ring Proc Timer Task Sched Semaphore MsgQueue Vfs Ramfs Uart User Elf Syscall Fat32
    Tinycc TinyEval TinyProg Fb Console Mmio Sd Kb Usb FileIo Input Vi ViText ViSession Path Shell ShellProps CcExample
begin

text \<open>
  HudOS, a bare-metal kernel for the Raspberry Pi 4 and the QEMU virt board: a verification library.

  \<^bold>\<open>The program.\<close> One processor runs a kernel with a free-list heap, a table of sixteen tasks with a
  preemptive round-robin scheduler, semaphores, mutexes and message queues, an in-memory file
  system with inodes and descriptors, an older flat RAM file store, a serial console, a FAT32
  reader for the SD card, a loader for ELF programs, which it runs with their own page tables, a
  system call dispatcher, and a small C compiler whose byte code runs as a task. Drivers for
  the SD card, a USB keyboard and a frame buffer feed a shell with a line editor and a text
  editor. Everything takes memory from the heap; whatever blocks goes through the task table and
  the scheduler; the system calls, the loader, the compiler and the shell sit on top of the file
  system, the tasks and the console. A second compiler, for a larger C subset, runs on the
  development host and writes AArch64 assembly for user programs.

  \<^bold>\<open>Theories and sources.\<close> Every theory models the files of \<^verbatim>\<open>src/\<close> it names, in their order, with one
  definition per function under the function's name and one field per variable of the code.
  \<^item> \<open>Prelude\<close>: machine words (\<open>u8\<close>, \<open>u32\<close>, \<open>u64\<close>, \<open>s32\<close>), C strings, the flat byte memory, scans of a
    table; \<open>Ring\<close>: circular buffers and the interface \<open>bounded_fifo\<close> of a bounded queue.
  \<^item> \<open>KString\<close>: \<^verbatim>\<open>string.c\<close>. Comparisons against the value of the string, the copies as memory
    updates, \<open>itoa\<close> and \<open>k_atoi\<close> as inverses.
  \<^item> \<open>Alloc\<close>: \<^verbatim>\<open>alloc.c\<close>. The state is \<open>kheap\<close>: bump pointer, free list, counters, block headers
    and memory. The interface \<open>heap_provider\<close> states what clients rely on (fresh, disjoint,
    unchanged buffers) and is interpreted on \<open>kmalloc\<close> and \<open>kfree\<close>.
  \<^item> \<open>Proc\<close>: \<^verbatim>\<open>proc.c\<close>. Page tables as words in the heap.
  \<^item> \<open>Timer\<close>: \<^verbatim>\<open>timer.c\<close>. The hardware counter is a function of the read number.
  \<^item> \<open>Task\<close>, \<open>Sched\<close>: \<^verbatim>\<open>task.c\<close>, \<^verbatim>\<open>sched.c\<close>, \<^verbatim>\<open>switch.S\<close>. The state \<open>kernel\<close> has the task table, the
    registers, the clock, the heap and the console. \<open>task_run\<close> is the relation of its reachable
    states.
  \<^item> \<open>Semaphore\<close>, \<open>MsgQueue\<close>: \<^verbatim>\<open>semaphore.c\<close>, \<^verbatim>\<open>mutex.h\<close>, \<^verbatim>\<open>msgqueue.c\<close>. Their rings interpret
    \<open>bounded_fifo\<close>; a blocking call is a loop of turns, and what the other tasks do between two
    turns is an argument.
  \<^item> \<open>Vfs\<close>, \<open>Ramfs\<close>: \<^verbatim>\<open>vfs.c\<close>, \<^verbatim>\<open>ramfs.c\<close>. File contents are bytes of the heap's memory behind
    \<open>heap_provider\<close>; \<open>vfs_run\<close> is the relation of reachable file systems.
  \<^item> \<open>Uart\<close>: \<^verbatim>\<open>uart.c\<close>. The device is a receive queue and a log of the characters sent.
  \<^item> \<open>User\<close>, \<open>Elf\<close>, \<open>Syscall\<close>: \<^verbatim>\<open>user.c\<close>, \<^verbatim>\<open>elf.c\<close>, \<^verbatim>\<open>syscall.c\<close>, on the state \<open>sys\<close> of the whole machine.
  \<^item> \<open>Fat32\<close>: \<^verbatim>\<open>fat32.c\<close>, with the card as a function from sectors to bytes that may fail.
  \<^item> \<open>TinyLex\<close>, \<open>TinyEmit\<close>, \<open>TinyParse\<close>, \<open>TinyVm\<close>, \<open>Tinycc\<close>: \<^verbatim>\<open>tinycc.c\<close>, in turn the scanners, the
    output buffer with its patches and tables, the recursive-descent parser, the interpreter,
    and the functions the shell calls. \<open>TinyCode\<close> reads the output as a list of instructions;
    \<open>TinySafe\<close> and \<open>TinyStm\<close> show the contract every parser keeps. \<open>TinyEval\<close> gives a value to
    expressions and shows that the code \<open>gen\<close> computes it on the interpreter, \<open>TinyExpr\<close> that the
    parser emits \<open>gen\<close> for the text of an expression, and \<open>TinyProg\<close> does both for statements and
    whole programs: the contracts \<open>compiles\<close>, \<open>stm_ok\<close> and \<open>block_ok\<close> follow the structure of the
    parser level by level.
  \<^item> \<open>Fb\<close>, \<open>Console\<close>: \<^verbatim>\<open>fb.c\<close>. The frame is an array of words; \<open>paint\<close> says what a drawing routine does to
    the visible pixels, and \<open>tterm\<close> is the grid of characters the console stands for.
  \<^item> \<open>Mmio\<close>, \<open>Sd\<close>, \<open>Usb\<close>: \<^verbatim>\<open>mailbox.c\<close>, \<^verbatim>\<open>gpio.c\<close>, \<^verbatim>\<open>sd.c\<close> and the hardware half of \<^verbatim>\<open>kb.c\<close>, on a device that is
    a parameter: what its registers return, what writing them does, and what time does. \<open>Kb\<close> is
    the other half of \<^verbatim>\<open>kb.c\<close>: HID reports and the character ring, another \<open>bounded_fifo\<close>.
  \<^item> \<open>FileIo\<close>: opening, writing and finding whole files, for the clients of \<open>Vfs\<close>.
  \<^item> \<open>Input\<close>, \<open>Vi\<close>, \<open>ViText\<close>, \<open>ViSession\<close>: the terminal input and the editor of \<^verbatim>\<open>kernel.c\<close>. \<open>Vi\<close> has one
    definition per function and one for a turn of the key loop; \<open>ViText\<close> shows what they do to
    the text, \<open>ViSession\<close> what a session does to the editor and the file.
  \<^item> \<open>Path\<close>, \<open>Shell\<close>, \<open>ShellProps\<close>: paths, history, line editing, completion, the dispatcher and the file
    commands of \<^verbatim>\<open>kernel.c\<close>.
  \<^item> \<open>CcType\<close>, \<open>CcString\<close>, \<open>CcTree\<close>: types, symbols, scopes, escape sequences and syntax trees of the host
    compiler (\<^verbatim>\<open>Type.cpp\<close>, \<^verbatim>\<open>Symbol.cpp\<close>, \<^verbatim>\<open>Scope.cpp\<close>, \<^verbatim>\<open>string.cpp\<close>, \<^verbatim>\<open>Tree.h\<close>, \<^verbatim>\<open>Tree.cpp\<close> of
    \<^verbatim>\<open>tiny_c_compiler\<close>), with the typing rules an elaborated tree obeys. \<open>CcCheck\<close> and \<open>CcSound\<close>:
    \<^verbatim>\<open>checker.cpp\<close>; \<open>CcAlloc\<close>: \<^verbatim>\<open>allocator.cpp\<close>; \<open>CcGen\<close>: \<^verbatim>\<open>generator.cpp\<close> and \<^verbatim>\<open>label.cpp\<close>, with the
    assembly text as a list of lines; \<open>CcParse\<close>: \<^verbatim>\<open>parser.cpp\<close>, \<open>main\<close> included, and the checks of literals in
    \<^verbatim>\<open>lexer.cpp\<close>, on a list of tokens with their texts. \<open>CcTotal\<close>, \<open>CcFront\<close>, \<open>CcProgram\<close> and \<open>CcMain\<close> show
    termination and soundness of the whole, along the structure of the parser; \<open>CcExample\<close> runs
    three programs.

  \<^bold>\<open>What the lemmas show.\<close>
  \<^item> Heap: in every reachable state the live buffers are aligned, inside the heap and disjoint; an
    allocation always returns on such a state; statistics are exact; a freed block is reused.
  \<^item> Tasks: the task table keeps its invariant under every operation; a ready task runs after at
    most its distance in the round; a switch away and back restores the registers; a task's
    stack goes back to the heap.
  \<^item> Synchronisation: mutual exclusion, first-in-first-out wake-up, no lost wake-up for a waiting
    semaphore, sender or receiver; a message queue refines a list of at most 16 messages.
  \<^item> Files: the invariant of inodes, descriptors and buffers in every run; the exact effect of
    write, read, seek, mkdir and unlink; written bytes are read back.
  \<^item> Loader and system calls: no image writes outside the user window, a task starts only at a
    checked entry point, system calls keep the file system's invariant.
  \<^item> FAT32: a load delivers the bytes of the cluster chain; a listed name matches its entry.
  \<^item> Console and timer: number output is exact and parses back, input keeps its order and its
    bound, the split counter read is a value the counter had, a sleep ends.
  \<^item> Compiler and interpreter: the compiler returns on every text and frees what it took; what it
    writes is a well-formed program inside its buffer; a structured program is accepted and its
    byte code has exactly the effect of the program; the interpreter stays in its arrays.
  \<^item> Frame buffer: the pixels of the console region always depict the character grid of a terminal
    that wraps and scrolls, and nothing outside the visible frame is written.
  \<^item> Drivers: no USB device makes a transfer leave its buffer; a report queues exactly the newly
    pressed keys; a block read delivers the block on a controller that keeps to its
    specification, but the card is never found ready, because of an error in the code.
  \<^item> Editor: no key sequence breaks its bounds; a text typed and saved is what the file holds;
    the cursor stays on the screen; moving text is correct for overlapping ranges.
  \<^item> Shell: what \<open>write\<close> stores \<open>cat\<close> shows; a line fits its buffer and its history row, is echoed and
    selects its command; a path is put into canonical form.
  \<^item> Host compiler: on every list of tokens it stops or meets the one loop of the checker that does
    not end; the operators are accepted exactly by the rules of the language; whatever reaches
    the code generator is well typed, and code is generated for all of it that is within the
    documented limits; frames have aligned slots that do not overlap; escaped strings are read
    back.

  \<^bold>\<open>Loops and bounds.\<close> Loops over a table or a string are structural recursion. Loops that follow
  links in memory or run until an event (the free-list scan, the cluster chain, the counter read, the
  sleep, the blocking calls, the byte code interpreter, the key loops) are partial functions with \<open>None\<close> for not returning, and
  the properties show that they do return. The parser of the tiny C compiler carries a bound on
  its depth and rounds, one more than the length of the text; \<open>safe_expr\<close>, \<open>safe_parse_statement\<close> and
  \<open>compile_loop_ok\<close> show that the bound is never reached. The parser of the host compiler carries fuel
  for the depth of its calls and the rounds of its loops; 13 for each token and 13 more are enough. The loop of
  \<open>checkCall\<close> over the arguments behind an ellipsis can run for ever: its result is then \<open>None\<close>, and
  \<open>Hang\<close> for the compiler.

  \<^bold>\<open>Behaviour outside C.\<close> A read or write that C leaves undefined is a value of its own (\<open>Undef\<close> of the
  interpreter) or is stated by a lemma (the negative length of \<open>vfs_write\<close>, the format string
  ending in a percent sign, the sector size above 512). Signed overflow wraps, as the kernel is
  compiled with a two's complement target.

  \<^bold>\<open>Atomicity.\<close> Every operation that masks interrupts or holds a spinlock is one step. Between steps
  of a blocking call other tasks act, through the argument that stands for them.

  \<^bold>\<open>Devices.\<close> What a device does is never fixed: properties hold for every device, or name what its
  specification promises (\<open>card_ok\<close>, \<open>reg_file\<close>, \<open>frame_ok\<close>) and show with a small simulated device
  that the promise can be kept. A waiting loop of the drivers has the number of turns of the code.

  \<^bold>\<open>Not modelled.\<close> The interrupt controller, boot code, MMU and CPU set-up and the panic screen program
  system registers and have no state besides them. Of the shell the commands that print the state of a
  component or start a demonstration, and of \<^verbatim>\<open>home.c\<close> the desktop, are left out. Of the host
  compiler the scanner that flex generates is the list of tokens the parser is given; the tree
  printer \<^verbatim>\<open>writer.cpp\<close> and the old x86 back end with its registers (\<^verbatim>\<open>generator_x86.cpp\<close>, \<^verbatim>\<open>Register.cpp\<close>)
  are not part of the build.
  Barriers, cache and TLB instructions have no effect on the model's memory.
\<close>

end
